(* ===== verification/Prelude.thy ===== *)
theory Prelude
  imports Main "HOL-Library.Word" "HOL-Library.Product_Lexorder" "HOL-Library.Multiset"
    "HOL-Library.Code_Target_Nat"
begin

text \<open>
  Shared vocabulary of the development: fixed-width integers, the model of
  \<^verbatim>\<open>std::map\<close> as an association list kept in key order, the model of
  \<^verbatim>\<open>std::sort\<close>, the selection of the element with the least key (used by the
  reference semantics of the classifiers), decimal text (\<^verbatim>\<open>std::to_string\<close>,
  \<^verbatim>\<open>std::from_chars\<close>) and the facts about them that the components use.
\<close>

unbundle bit_operations_syntax

named_theorems omap_simps "lookups in ordered association lists"
named_theorems dec_simps "decimal parsing and printing"

type_synonym u8 = "8 word"
type_synonym u16 = "16 word"
type_synonym u32 = "32 word"
type_synonym u64 = "64 word"
type_synonym i32 = "32 word"
type_synonym ip6 = "u8 list"

section \<open>Signed 32-bit values\<close>

text \<open>A signed 32-bit value is a word read by \<^const>\<open>sint\<close>; \<open>kNoPriority\<close> is \<open>INT32_MIN\<close>.\<close>

definition kNoPriority :: i32 where
  "kNoPriority = 0x80000000"

definition i32_less :: "i32 \<Rightarrow> i32 \<Rightarrow> bool" where
  "i32_less a b \<longleftrightarrow> sint a < sint b"

definition i32_max :: "i32 \<Rightarrow> i32 \<Rightarrow> i32" where
  "i32_max a b = (if i32_less a b then b else a)"

section \<open>std::map as an ordered association list\<close>

type_synonym ('k, 'v) omap = "('k \<times> 'v) list"

definition omap_wf :: "('k::linorder, 'v) omap \<Rightarrow> bool" where
  "omap_wf m \<longleftrightarrow> sorted_wrt (<) (map fst m)"

text \<open>\<open>omap_upd k d f m\<close> is \<^verbatim>\<open>m[k]\<close> (which inserts \<open>d\<close> for a new key) followed by
  the assignment of \<open>f\<close> of the stored value.\<close>

fun omap_upd :: "'k::linorder \<Rightarrow> 'v \<Rightarrow> ('v \<Rightarrow> 'v) \<Rightarrow> ('k, 'v) omap \<Rightarrow> ('k, 'v) omap" where
  "omap_upd k d f [] = [(k, f d)]"
| "omap_upd k d f ((k', v) # m) =
     (if k < k' then (k, f d) # (k', v) # m
      else if k = k' then (k', f v) # m
      else (k', v) # omap_upd k d f m)"

text \<open>\<^verbatim>\<open>emplace\<close> inserts only when the key is new, and reports whether it did.\<close>

definition omap_emplace :: "'k::linorder \<Rightarrow> 'v \<Rightarrow> ('k, 'v) omap \<Rightarrow> ('k, 'v) omap \<times> bool" where
  "omap_emplace k v m =
     (case map_of m k of Some _ \<Rightarrow> (m, False) | None \<Rightarrow> (omap_upd k v id m, True))"

definition omap_erase :: "'k \<Rightarrow> ('k, 'v) omap \<Rightarrow> ('k, 'v) omap" where
  "omap_erase k m = filter (\<lambda>p. fst p \<noteq> k) m"

section \<open>std::sort\<close>

text \<open>Sorting by a strict comparison; insertion sort computes the only permutation that is in
  order whenever the comparison is total on the elements, as all comparisons of the sources are
  (they end in a unique identifier).\<close>

fun std_insert :: "('a \<Rightarrow> 'a \<Rightarrow> bool) \<Rightarrow> 'a \<Rightarrow> 'a list \<Rightarrow> 'a list" where
  "std_insert lt x [] = [x]"
| "std_insert lt x (y # ys) = (if lt y x then y # std_insert lt x ys else x # y # ys)"

fun std_sort :: "('a \<Rightarrow> 'a \<Rightarrow> bool) \<Rightarrow> 'a list \<Rightarrow> 'a list" where
  "std_sort lt [] = []"
| "std_sort lt (x # xs) = std_insert lt x (std_sort lt xs)"

section \<open>Least element by a key\<close>

definition first_min :: "('a \<Rightarrow> 'b::linorder) \<Rightarrow> 'a list \<Rightarrow> 'a option" where
  "first_min key xs = (case sort_key key xs of [] \<Rightarrow> None | x # _ \<Rightarrow> Some x)"

section \<open>Decimal text\<close>

definition digit_char :: "nat \<Rightarrow> char" where
  "digit_char d = char_of (48 + d)"

definition digit_val :: "char \<Rightarrow> nat option" where
  "digit_val c = (let n = (of_char c :: nat) in if 48 \<le> n \<and> n \<le> 57 then Some (n - 48) else None)"

text \<open>\<^verbatim>\<open>std::to_string\<close> of an unsigned value.\<close>

fun dec_string :: "nat \<Rightarrow> string" where
  "dec_string n = (if n < 10 then [digit_char n] else dec_string (n div 10) @ [digit_char (n mod 10)])"

declare dec_string.simps [simp del]

fun digits_val :: "nat \<Rightarrow> string \<Rightarrow> nat option" where
  "digits_val acc [] = Some acc"
| "digits_val acc (c # cs) =
     (case digit_val c of None \<Rightarrow> None | Some d \<Rightarrow> digits_val (acc * 10 + d) cs)"

section \<open>Facts about signed values\<close>

lemma sint_kNoPriority [simp]: "sint kNoPriority = - 2147483648"
  by (simp add: kNoPriority_def)

lemma i32_lower: "- 2147483648 \<le> sint (a :: i32)"
  using sint_ge [of a] by simp

lemma eq_kNoPriority_iff: "a = kNoPriority \<longleftrightarrow> sint a = - 2147483648"
  by (metis sint_kNoPriority signed_word_eqI)

lemma neq_kNoPriority_iff: "a \<noteq> kNoPriority \<longleftrightarrow> - 2147483648 < sint a"
  using i32_lower [of a] by (auto simp: eq_kNoPriority_iff)

lemma sint_i32_max: "sint (i32_max a b) = max (sint a) (sint b)"
  by (simp add: i32_max_def i32_less_def)

section \<open>Facts about ordered association lists\<close>

lemma omap_wf_Nil [simp]: "omap_wf []"
  by (simp add: omap_wf_def)

lemma omap_wf_Cons: "omap_wf ((k, v) # m) \<longleftrightarrow> (\<forall>k' \<in> fst ` set m. k < k') \<and> omap_wf m"
  by (auto simp: omap_wf_def)

lemma omap_wf_distinct: "omap_wf m \<Longrightarrow> distinct (map fst m)"
  by (simp add: omap_wf_def strict_sorted_iff)

lemma fst_set_omap_upd [simp]: "fst ` set (omap_upd k d f m) = insert k (fst ` set m)"
  by (induction k d f m rule: omap_upd.induct) auto

lemma omap_wf_upd [simp]: "omap_wf m \<Longrightarrow> omap_wf (omap_upd k d f m)"
proof (induction k d f m rule: omap_upd.induct)
  case (1 k d f)
  then show ?case by (simp add: omap_wf_Cons)
next
  case (2 k d f k' v m)
  then show ?case by (force simp: omap_wf_Cons)
qed

lemma map_of_omap_upd [omap_simps]:
  "omap_wf m \<Longrightarrow>
   map_of (omap_upd k d f m) = (map_of m)(k \<mapsto> f (case map_of m k of None \<Rightarrow> d | Some v \<Rightarrow> v))"
proof (induction k d f m rule: omap_upd.induct)
  case (1 k d f)
  then show ?case by simp
next
  case (2 k d f k' v m)
  have "map_of m k = None" if "k < k'"
    using that "2.prems" by (fastforce simp: omap_wf_Cons map_of_eq_None_iff)
  with 2 show ?case
    by (auto simp: omap_wf_Cons fun_upd_twist split: option.splits)
qed

lemma map_of_omap_erase [omap_simps]: "map_of (omap_erase k m) = (map_of m)(k := None)"
  by (induction m) (auto simp: omap_erase_def fun_eq_iff)

lemma sorted_wrt_map_filter: "sorted_wrt P (map f xs) \<Longrightarrow> sorted_wrt P (map f (filter Q xs))"
  by (induction xs) auto

lemma omap_wf_filter [simp]: "omap_wf m \<Longrightarrow> omap_wf (filter P m)"
  unfolding omap_wf_def by (rule sorted_wrt_map_filter)

lemma omap_wf_erase [simp]: "omap_wf m \<Longrightarrow> omap_wf (omap_erase k m)"
  by (simp add: omap_erase_def)

lemma omap_wf_emplace [simp]: "omap_wf m \<Longrightarrow> omap_wf (fst (omap_emplace k v m))"
  by (simp add: omap_emplace_def split: option.splits)

lemma map_of_omap_emplace [omap_simps]:
  "omap_wf m \<Longrightarrow>
   map_of (fst (omap_emplace k v m)) = (if map_of m k = None then (map_of m)(k \<mapsto> v) else map_of m)"
  by (auto simp: omap_emplace_def map_of_omap_upd split: option.splits)

lemma snd_omap_emplace [omap_simps]: "snd (omap_emplace k v m) \<longleftrightarrow> map_of m k = None"
  by (simp add: omap_emplace_def split: option.splits)

lemma map_of_filter_omap [omap_simps]:
  "omap_wf m \<Longrightarrow>
   map_of (filter P m) k = (case map_of m k of Some v \<Rightarrow> if P (k, v) then Some v else None | None \<Rightarrow> None)"
proof (induction m)
  case Nil
  then show ?case by simp
next
  case (Cons p m)
  obtain k' v where p: "p = (k', v)" by (cases p)
  have "map_of m k' = None"
    using Cons.prems by (fastforce simp: p omap_wf_Cons map_of_eq_None_iff)
  with Cons show ?case by (auto simp: p omap_wf_Cons split: option.splits)
qed

lemma omap_in_set_iff: "omap_wf m \<Longrightarrow> (k, v) \<in> set m \<longleftrightarrow> map_of m k = Some v"
  using omap_wf_distinct by (metis map_of_SomeD map_of_is_SomeI)

text \<open>Two ordered association lists with the same lookups are the same list.\<close>

lemma omap_eqI:
  assumes "omap_wf m" and "omap_wf m'" and "map_of m = map_of m'"
  shows "m = m'"
proof (rule map_sorted_distinct_set_unique)
  show "inj_on fst (set m \<union> set m')"
    using assms by (auto simp: inj_on_def omap_in_set_iff)
  show "sorted (map fst m)" "distinct (map fst m)" "sorted (map fst m')" "distinct (map fst m')"
    using assms by (auto simp: omap_wf_def strict_sorted_iff)
  show "set m = set m'"
    using assms by (auto simp: omap_in_set_iff)
qed

section \<open>Facts about sorting and least elements\<close>

lemma std_insert_eq_insort: "std_insert (\<lambda>a b. key a < key b) x ys = insort_key key x ys"
  by (induction ys) auto

lemma std_sort_eq_sort_key: "std_sort (\<lambda>a b. key a < key b) xs = sort_key key xs"
  by (induction xs) (simp_all add: std_insert_eq_insort)

lemma set_std_insert [simp]: "set (std_insert lt x ys) = insert x (set ys)"
  by (induction ys) auto

lemma set_std_sort [simp]: "set (std_sort lt xs) = set xs"
  by (induction xs) auto

lemma length_std_insert [simp]: "length (std_insert lt x ys) = Suc (length ys)"
  by (induction ys) auto

lemma length_std_sort [simp]: "length (std_sort lt xs) = length xs"
  by (induction xs) auto

lemma first_min_None [simp]: "first_min key xs = None \<longleftrightarrow> xs = []"
  by (auto simp: first_min_def split: list.splits)
     (metis set_sort set_empty2)

lemma first_min_Some_iff:
  assumes "inj_on key (set xs)"
  shows "first_min key xs = Some x \<longleftrightarrow> x \<in> set xs \<and> (\<forall>y \<in> set xs. key x \<le> key y)"
proof -
  have sorted: "sorted (map key (sort_key key xs))" by simp
  show ?thesis
  proof (cases "sort_key key xs")
    case Nil
    then have "xs = []" by (metis set_sort set_empty2)
    then show ?thesis by (simp add: first_min_def)
  next
    case (Cons z zs)
    then have set: "set xs = insert z (set zs)" by (metis set_sort list.simps(15))
    from sorted Cons have least: "\<forall>y \<in> set xs. key z \<le> key y" by (auto simp: set)
    with Cons assms show ?thesis
      by (auto simp: first_min_def set inj_on_def)
  qed
qed

lemma first_min_SomeD:
  "first_min key xs = Some x \<Longrightarrow> x \<in> set xs \<and> (\<forall>y \<in> set xs. key x \<le> key y)"
proof (unfold first_min_def)
  assume "(case sort_key key xs of [] \<Rightarrow> None | x # _ \<Rightarrow> Some x) = Some x"
  then obtain zs where eq: "sort_key key xs = x # zs" by (auto split: list.splits)
  have "sorted (map key (sort_key key xs))" by simp
  then have "\<forall>y \<in> set (x # zs). key x \<le> key y" by (simp add: eq)
  moreover have "set xs = set (x # zs)" by (metis eq set_sort)
  ultimately show ?thesis by simp
qed

section \<open>Facts about decimal text\<close>

lemma digit_val_char [dec_simps]: "d < 10 \<Longrightarrow> digit_val (digit_char d) = Some d"
  by (simp add: digit_val_def digit_char_def Let_def)

lemma digits_val_append [dec_simps]:
  "digits_val acc (xs @ ys) = (case digits_val acc xs of None \<Rightarrow> None | Some n \<Rightarrow> digits_val n ys)"
  by (induction acc xs rule: digits_val.induct) (auto split: option.splits)

lemma dec_string_nonempty [simp]: "dec_string n \<noteq> []"
  by (subst dec_string.simps) simp

lemma digits_val_dec_string [dec_simps]: "digits_val 0 (dec_string n) = Some n"
proof (induction n rule: dec_string.induct)
  case (1 n)
  show ?case
  proof (cases "n < 10")
    case True
    then show ?thesis by (simp add: dec_string.simps [of n] dec_simps)
  next
    case False
    with 1 show ?thesis
      by (simp add: dec_string.simps [of n] dec_simps)
  qed
qed

lemma dec_string_inj: "dec_string m = dec_string n \<Longrightarrow> m = n"
  by (metis digits_val_dec_string option.inject)

lemma dec_string_digits: "c \<in> set (dec_string n) \<Longrightarrow> \<exists>d < 10. c = digit_char d"
proof (induction n rule: dec_string.induct)
  case (1 n)
  show ?case
  proof (cases "n < 10")
    case True
    with "1.prems" show ?thesis by (auto simp: dec_string.simps [of n])
  next
    case False
    with "1.prems" have "c \<in> set (dec_string (n div 10)) \<or> c = digit_char (n mod 10)"
      by (auto simp: dec_string.simps [of n])
    with False "1.IH" show ?thesis by (metis mod_less_divisor zero_less_numeral)
  qed
qed

text \<open>\<^verbatim>\<open>std::string::operator<\<close> compares bytes.\<close>

fun string_less :: "string \<Rightarrow> string \<Rightarrow> bool" where
  "string_less _ [] = False"
| "string_less [] (_ # _) = True"
| "string_less (a # as) (b # bs) =
     (if (of_char a :: nat) < of_char b then True else if (of_char b :: nat) < of_char a then False
      else string_less as bs)"

end
