(* ===== verification/IpRulesTypes.thy ===== *)
theory IpRulesTypes
  imports Prelude
begin

text \<open>
  The data of the IPRULES engine (\<^verbatim>\<open>IpRulesEngine.hpp\<close>, \<^verbatim>\<open>IpRulesContract.hpp\<close>): rule
  definitions, port and CIDR predicates, packet keys, decisions and the preflight report; the
  predicates a rule is matched with, the canonical text of each field and the validation of a
  rule. An \<^verbatim>\<open>enum class E : uint8_t\<close> is a datatype with the source's enumerators and one
  constructor for the remaining byte values, which \<^verbatim>\<open>static_cast<E>(byte)\<close> can produce when
  rules are read back from a file or a checkpoint.
\<close>

section \<open>Enumerations\<close>

datatype Family = IPV4 | IPV6 | Family_raw u8

datatype Action = ALLOW | BLOCK | Action_raw u8

datatype Direction = Dir_ANY | Dir_IN | Dir_OUT | Dir_raw u8

datatype IfaceKind = Iface_ANY | Iface_WIFI | Iface_DATA | Iface_VPN | Iface_UNMANAGED | Iface_raw u8

datatype Proto = Proto_ANY | Proto_TCP | Proto_UDP | Proto_ICMP | Proto_OTHER | Proto_UNKNOWN | Proto_raw u8

datatype CtState = Ct_ANY | Ct_NEW | Ct_ESTABLISHED | Ct_INVALID | Ct_raw u8

datatype CtDirection = CtDir_ANY | CtDir_ORIG | CtDir_REPLY | CtDir_raw u8

datatype PortKind = Port_ANY | Port_EXACT | Port_RANGE | Port_raw u8

text \<open>\<^verbatim>\<open>static_cast<uint8_t>\<close> of each enumeration.\<close>

fun family_u8 :: "Family \<Rightarrow> u8" where
  "family_u8 IPV4 = 4" | "family_u8 IPV6 = 6" | "family_u8 (Family_raw b) = b"

fun action_u8 :: "Action \<Rightarrow> u8" where
  "action_u8 ALLOW = 0" | "action_u8 BLOCK = 1" | "action_u8 (Action_raw b) = b"

fun dir_u8 :: "Direction \<Rightarrow> u8" where
  "dir_u8 Dir_ANY = 0" | "dir_u8 Dir_IN = 1" | "dir_u8 Dir_OUT = 2" | "dir_u8 (Dir_raw b) = b"

fun iface_u8 :: "IfaceKind \<Rightarrow> u8" where
  "iface_u8 Iface_ANY = 0" | "iface_u8 Iface_WIFI = 1" | "iface_u8 Iface_DATA = 2"
| "iface_u8 Iface_VPN = 4" | "iface_u8 Iface_UNMANAGED = 128" | "iface_u8 (Iface_raw b) = b"

fun proto_u8 :: "Proto \<Rightarrow> u8" where
  "proto_u8 Proto_ANY = 0" | "proto_u8 Proto_TCP = 6" | "proto_u8 Proto_UDP = 17"
| "proto_u8 Proto_ICMP = 1" | "proto_u8 Proto_OTHER = 255" | "proto_u8 Proto_UNKNOWN = 254"
| "proto_u8 (Proto_raw b) = b"

fun ct_u8 :: "CtState \<Rightarrow> u8" where
  "ct_u8 Ct_ANY = 0" | "ct_u8 Ct_NEW = 1" | "ct_u8 Ct_ESTABLISHED = 2" | "ct_u8 Ct_INVALID = 3"
| "ct_u8 (Ct_raw b) = b"

fun ctdir_u8 :: "CtDirection \<Rightarrow> u8" where
  "ctdir_u8 CtDir_ANY = 0" | "ctdir_u8 CtDir_ORIG = 1" | "ctdir_u8 CtDir_REPLY = 2"
| "ctdir_u8 (CtDir_raw b) = b"

fun port_kind_u8 :: "PortKind \<Rightarrow> u8" where
  "port_kind_u8 Port_ANY = 0" | "port_kind_u8 Port_EXACT = 1" | "port_kind_u8 Port_RANGE = 2"
| "port_kind_u8 (Port_raw b) = b"

text \<open>\<^verbatim>\<open>static_cast<E>\<close> of a byte.\<close>

definition family_of_u8 :: "u8 \<Rightarrow> Family" where
  "family_of_u8 b = (if b = 4 then IPV4 else if b = 6 then IPV6 else Family_raw b)"

definition action_of_u8 :: "u8 \<Rightarrow> Action" where
  "action_of_u8 b = (if b = 0 then ALLOW else if b = 1 then BLOCK else Action_raw b)"

definition dir_of_u8 :: "u8 \<Rightarrow> Direction" where
  "dir_of_u8 b = (if b = 0 then Dir_ANY else if b = 1 then Dir_IN else if b = 2 then Dir_OUT else Dir_raw b)"

definition iface_of_u8 :: "u8 \<Rightarrow> IfaceKind" where
  "iface_of_u8 b =
     (if b = 0 then Iface_ANY else if b = 1 then Iface_WIFI else if b = 2 then Iface_DATA
      else if b = 4 then Iface_VPN else if b = 128 then Iface_UNMANAGED else Iface_raw b)"

definition proto_of_u8 :: "u8 \<Rightarrow> Proto" where
  "proto_of_u8 b =
     (if b = 0 then Proto_ANY else if b = 6 then Proto_TCP else if b = 17 then Proto_UDP
      else if b = 1 then Proto_ICMP else if b = 255 then Proto_OTHER
      else if b = 254 then Proto_UNKNOWN else Proto_raw b)"

definition ct_of_u8 :: "u8 \<Rightarrow> CtState" where
  "ct_of_u8 b =
     (if b = 0 then Ct_ANY else if b = 1 then Ct_NEW else if b = 2 then Ct_ESTABLISHED
      else if b = 3 then Ct_INVALID else Ct_raw b)"

definition ctdir_of_u8 :: "u8 \<Rightarrow> CtDirection" where
  "ctdir_of_u8 b =
     (if b = 0 then CtDir_ANY else if b = 1 then CtDir_ORIG else if b = 2 then CtDir_REPLY
      else CtDir_raw b)"

definition port_kind_of_u8 :: "u8 \<Rightarrow> PortKind" where
  "port_kind_of_u8 b =
     (if b = 0 then Port_ANY else if b = 1 then Port_EXACT else if b = 2 then Port_RANGE
      else Port_raw b)"

section \<open>Port predicates and CIDRs\<close>

record PortPredicate =
  port_kind :: PortKind
  port_lo :: u16
  port_hi :: u16

definition port_any :: PortPredicate where
  "port_any = \<lparr>port_kind = Port_ANY, port_lo = 0, port_hi = 0\<rparr>"

definition port_exact :: "u16 \<Rightarrow> PortPredicate" where
  "port_exact p = \<lparr>port_kind = Port_EXACT, port_lo = p, port_hi = p\<rparr>"

definition port_range :: "u16 \<Rightarrow> u16 \<Rightarrow> PortPredicate" where
  "port_range lo hi = \<lparr>port_kind = Port_RANGE, port_lo = lo, port_hi = hi\<rparr>"

definition port_isAny :: "PortPredicate \<Rightarrow> bool" where
  "port_isAny p \<longleftrightarrow> port_kind p = Port_ANY"

definition port_isRange :: "PortPredicate \<Rightarrow> bool" where
  "port_isRange p \<longleftrightarrow> port_kind p = Port_RANGE"

definition port_matches :: "PortPredicate \<Rightarrow> u16 \<Rightarrow> bool" where
  "port_matches p port =
     (case port_kind p of
        Port_ANY \<Rightarrow> True
      | Port_EXACT \<Rightarrow> port = port_lo p
      | Port_RANGE \<Rightarrow> port_lo p \<le> port \<and> port \<le> port_hi p
      | Port_raw _ \<Rightarrow> False)"

text \<open>\<^verbatim>\<open>IpRulesContract::maskFromPrefix\<close>: the shift is on 32-bit words.\<close>

definition maskFromPrefix :: "u8 \<Rightarrow> u32" where
  "maskFromPrefix prefix =
     (if prefix = 0 then 0
      else if 32 \<le> prefix then 0xFFFFFFFF
      else push_bit (32 - unat prefix) 0xFFFFFFFF)"

record CidrV4 =
  c4_any :: bool
  c4_addr :: u32
  c4_prefix :: u8

definition anyCidrV4 :: CidrV4 where
  "anyCidrV4 = \<lparr>c4_any = True, c4_addr = 0, c4_prefix = 0\<rparr>"

definition cidrV4 :: "u32 \<Rightarrow> u8 \<Rightarrow> CidrV4" where
  "cidrV4 addrHost prefixLen = \<lparr>c4_any = False, c4_addr = addrHost, c4_prefix = prefixLen\<rparr>"

definition cidrV4_mask :: "CidrV4 \<Rightarrow> u32" where
  "cidrV4_mask c = (if c4_any c then 0 else maskFromPrefix (c4_prefix c))"

definition cidrV4_matches :: "CidrV4 \<Rightarrow> u32 \<Rightarrow> bool" where
  "cidrV4_matches c ipHost =
     (if c4_any c then True
      else (let m = cidrV4_mask c in ipHost AND m = c4_addr c AND m))"

record CidrV6 =
  c6_any :: bool
  c6_addr :: ip6
  c6_prefix :: u8

definition zero_ip6 :: ip6 where
  "zero_ip6 = replicate 16 0"

definition anyCidrV6 :: CidrV6 where
  "anyCidrV6 = \<lparr>c6_any = True, c6_addr = zero_ip6, c6_prefix = 0\<rparr>"

definition cidrV6 :: "ip6 \<Rightarrow> u8 \<Rightarrow> CidrV6" where
  "cidrV6 addrNet prefixLen = \<lparr>c6_any = False, c6_addr = addrNet, c6_prefix = prefixLen\<rparr>"

text \<open>\<open>static_cast<uint8_t>(0xFFu << (8u - remBits))\<close>.\<close>

definition rem_mask :: "nat \<Rightarrow> u8" where
  "rem_mask remBits = push_bit (8 - remBits) 0xFF"

definition cidrV6_matches :: "CidrV6 \<Rightarrow> ip6 \<Rightarrow> bool" where
  "cidrV6_matches c ipNet =
     (if c6_any c then True
      else if c6_prefix c = 0 then True
      else
        let fullBytes = unat (c6_prefix c) div 8; remBits = unat (c6_prefix c) mod 8 in
        if \<not> (\<forall>i \<in> {0..<fullBytes}. c6_addr c ! i = ipNet ! i) then False
        else if remBits = 0 then True
        else if fullBytes \<ge> 16 then True
        else c6_addr c ! fullBytes AND rem_mask remBits = ipNet ! fullBytes AND rem_mask remBits)"

section \<open>Rules\<close>

record RuleDef =
  rd_ruleId :: u32
  rd_uid :: u32
  rd_clientRuleId :: string
  rd_family :: Family
  rd_action :: Action
  rd_priority :: i32
  rd_enabled :: bool
  rd_enforce :: bool
  rd_log :: bool
  rd_dir :: Direction
  rd_iface :: IfaceKind
  rd_ifindex :: u32
  rd_proto :: Proto
  rd_src :: CidrV4
  rd_dst :: CidrV4
  rd_src6 :: CidrV6
  rd_dst6 :: CidrV6
  rd_sport :: PortPredicate
  rd_dport :: PortPredicate
  rd_ctState :: CtState
  rd_ctDir :: CtDirection

definition rule_default :: RuleDef where
  "rule_default = \<lparr>rd_ruleId = 0, rd_uid = 0, rd_clientRuleId = [], rd_family = IPV4,
     rd_action = ALLOW, rd_priority = 0, rd_enabled = True, rd_enforce = True, rd_log = False,
     rd_dir = Dir_ANY, rd_iface = Iface_ANY, rd_ifindex = 0, rd_proto = Proto_ANY,
     rd_src = anyCidrV4, rd_dst = anyCidrV4, rd_src6 = anyCidrV6, rd_dst6 = anyCidrV6,
     rd_sport = port_any, rd_dport = port_any, rd_ctState = Ct_ANY, rd_ctDir = CtDir_ANY\<rparr>"

definition hasPortConstraints :: "RuleDef \<Rightarrow> bool" where
  "hasPortConstraints r \<longleftrightarrow> \<not> (port_isAny (rd_sport r) \<and> port_isAny (rd_dport r))"

definition hasRangePorts :: "RuleDef \<Rightarrow> bool" where
  "hasRangePorts r \<longleftrightarrow> port_isRange (rd_sport r) \<or> port_isRange (rd_dport r)"

definition isWouldBlock :: "RuleDef \<Rightarrow> bool" where
  "isWouldBlock r \<longleftrightarrow> rd_action r = BLOCK \<and> \<not> rd_enforce r \<and> rd_log r"

record ApplyRule =
  ar_clientRuleId :: string
  ar_family :: Family
  ar_action :: Action
  ar_priority :: i32
  ar_enabled :: bool
  ar_enforce :: bool
  ar_log :: bool
  ar_dir :: Direction
  ar_iface :: IfaceKind
  ar_ifindex :: u32
  ar_proto :: Proto
  ar_src :: CidrV4
  ar_dst :: CidrV4
  ar_src6 :: CidrV6
  ar_dst6 :: CidrV6
  ar_sport :: PortPredicate
  ar_dport :: PortPredicate
  ar_ctState :: CtState
  ar_ctDir :: CtDirection

record RuleStats =
  hitPackets :: u64
  hitBytes :: u64
  lastHitTsNs :: u64
  wouldHitPackets :: u64
  wouldHitBytes :: u64
  lastWouldHitTsNs :: u64

definition zeroStats :: RuleStats where
  "zeroStats = \<lparr>hitPackets = 0, hitBytes = 0, lastHitTsNs = 0,
     wouldHitPackets = 0, wouldHitBytes = 0, lastWouldHitTsNs = 0\<rparr>"

text \<open>A rule of the engine with the address of its counters (the \<^verbatim>\<open>shared_ptr<RuleStats>\<close>);
  counters live in a store owned by the engine.\<close>

type_synonym addr = nat

record RuleState =
  st_def :: RuleDef
  st_stats :: addr

type_synonym RulesMap = "(u32, RuleState) omap"

section \<open>Packet keys and decisions\<close>

record 'ip PacketKey =
  k_uid :: u32
  k_dir :: u8
  k_ifaceKind :: u8
  k_proto :: u8
  k_ifindex :: u32
  k_srcIp :: 'ip
  k_dstIp :: 'ip
  k_srcPort :: u16
  k_dstPort :: u16
  k_portsAvailable :: u8
  k_ctState :: u8
  k_ctDir :: u8

type_synonym PacketKeyV4 = "u32 PacketKey"
type_synonym PacketKeyV6 = "ip6 PacketKey"

datatype DecisionKind = NOMATCH | D_ALLOW | D_BLOCK | WOULD_BLOCK

text \<open>\<^verbatim>\<open>Decision\<close> and \<^verbatim>\<open>DecisionData\<close>: the verdict, the winning rule and its counters
  (\<open>None\<close> is \<^verbatim>\<open>nullptr\<close>; the \<^verbatim>\<open>keepAlive\<close> pointer only pins memory).\<close>

record Decision =
  d_kind :: DecisionKind
  d_ruleId :: u32
  d_stats :: "addr option"

definition noDecision :: Decision where
  "noDecision = \<lparr>d_kind = NOMATCH, d_ruleId = 0, d_stats = None\<rparr>"

definition d_matched :: "Decision \<Rightarrow> bool" where
  "d_matched d \<longleftrightarrow> d_kind d \<noteq> NOMATCH"

definition d_isWould :: "Decision \<Rightarrow> bool" where
  "d_isWould d \<longleftrightarrow> d_kind d = WOULD_BLOCK"

definition d_isEnforce :: "Decision \<Rightarrow> bool" where
  "d_isEnforce d \<longleftrightarrow> d_kind d = D_ALLOW \<or> d_kind d = D_BLOCK"

section \<open>Preflight report and apply results\<close>

record PreflightLimitSet =
  lim_maxRulesTotal :: nat
  lim_maxSubtablesPerUid :: nat
  lim_maxRangeRulesPerBucket :: nat

record PreflightIssue =
  iss_metric :: string
  iss_value :: nat
  iss_limit :: nat
  iss_message :: string

record PreflightSummary =
  rulesTotal :: nat
  rangeRulesTotal :: nat
  ctRulesTotal :: nat
  ctUidsTotal :: nat
  subtablesTotal :: nat
  maxSubtablesPerUid :: nat
  maxRangeRulesPerBucket :: nat

record PreflightReport =
  rep_summary :: PreflightSummary
  rep_ipv4 :: PreflightSummary
  rep_ipv6 :: PreflightSummary
  rep_recommended :: PreflightLimitSet
  rep_hard :: PreflightLimitSet
  rep_warnings :: "PreflightIssue list"
  rep_violations :: "PreflightIssue list"

definition report_ok :: "PreflightReport \<Rightarrow> bool" where
  "report_ok r \<longleftrightarrow> rep_violations r = []"

definition zeroSummary :: PreflightSummary where
  "zeroSummary = \<lparr>rulesTotal = 0, rangeRulesTotal = 0, ctRulesTotal = 0, ctUidsTotal = 0,
     subtablesTotal = 0, maxSubtablesPerUid = 0, maxRangeRulesPerBucket = 0\<rparr>"

definition zeroLimits :: PreflightLimitSet where
  "zeroLimits = \<lparr>lim_maxRulesTotal = 0, lim_maxSubtablesPerUid = 0, lim_maxRangeRulesPerBucket = 0\<rparr>"

definition zeroReport :: PreflightReport where
  "zeroReport = \<lparr>rep_summary = zeroSummary, rep_ipv4 = zeroSummary, rep_ipv6 = zeroSummary,
     rep_recommended = zeroLimits, rep_hard = zeroLimits, rep_warnings = [], rep_violations = []\<rparr>"

record ApplyResult =
  res_ok :: bool
  res_ruleId :: "u32 option"
  res_error :: string
  res_preflight :: PreflightReport

definition okResult :: "u32 option \<Rightarrow> ApplyResult" where
  "okResult rid = \<lparr>res_ok = True, res_ruleId = rid, res_error = [], res_preflight = zeroReport\<rparr>"

definition nokResult :: "string \<Rightarrow> ApplyResult" where
  "nokResult e = \<lparr>res_ok = False, res_ruleId = None, res_error = e, res_preflight = zeroReport\<rparr>"

end
