(* ===== verification/IpRulesText.thy ===== *)
theory IpRulesText
  imports IpRulesTypes
begin

text \<open>
  The textual surface of IPRULES: decimal numbers, \<^verbatim>\<open>key=value\<close> tokens, the parser and the
  canonical printer of every rule field, the client rule id contract and the validation of a rule
  (\<^verbatim>\<open>IpRulesContract.hpp\<close>, the \<^verbatim>\<open>parse*\<close>, \<^verbatim>\<open>normalize*\<close> and \<^verbatim>\<open>validateRuleDef\<close>
  members of \<^verbatim>\<open>IpRulesEngine\<close>). \<^verbatim>\<open>inet_pton\<close> and \<^verbatim>\<open>inet_ntop\<close> are parameters
  (\<open>pton4\<close>, \<open>ntop4\<close>, \<open>ntop6\<close>). The lemmas are the parse/print round trips and what a parsed
  field is guaranteed to satisfy.
\<close>

section \<open>Definitions\<close>

definition is_alnum :: "char \<Rightarrow> bool" where
  "is_alnum c =
     (let n = (of_char c :: nat) in
      (48 \<le> n \<and> n \<le> 57) \<or> (65 \<le> n \<and> n \<le> 90) \<or> (97 \<le> n \<and> n \<le> 122))"

definition isValidClientRuleId :: "string \<Rightarrow> bool" where
  "isValidClientRuleId s =
     (if s = [] \<or> 64 < length s then False
      else list_all (\<lambda>c. is_alnum c \<or> c = CHR ''.'' \<or> c = CHR ''_'' \<or> c = CHR '':'' \<or> c = CHR ''-'') s)"

text \<open>\<^verbatim>\<open>parseDec\<close> at an unsigned type of \<open>w\<close> bits and at \<^verbatim>\<open>int32_t\<close>: \<^verbatim>\<open>from_chars\<close>
  takes digits only (with one leading minus sign at the signed type), reports a value out of range
  as an error, and the whole text has to be consumed.\<close>

definition parseDecU :: "nat \<Rightarrow> string \<Rightarrow> nat option" where
  "parseDecU w s =
     (if s = [] then None
      else case digits_val 0 s of
             None \<Rightarrow> None
           | Some n \<Rightarrow> if n < 2 ^ w then Some n else None)"

definition parseDecI32 :: "string \<Rightarrow> int option" where
  "parseDecI32 s =
     (case s of
        [] \<Rightarrow> None
      | c # cs \<Rightarrow>
          if c = CHR ''-'' then
            (if cs = [] then None
             else case digits_val 0 cs of
                    None \<Rightarrow> None
                  | Some n \<Rightarrow> if n \<le> 2 ^ 31 then Some (- int n) else None)
          else case digits_val 0 s of
                 None \<Rightarrow> None
               | Some n \<Rightarrow> if n < 2 ^ 31 then Some (int n) else None)"

definition legacyClientRuleId :: "u32 \<Rightarrow> u32 \<Rightarrow> string" where
  "legacyClientRuleId uid ruleId = ''legacy:'' @ dec_string (unat uid) @ '':'' @ dec_string (unat ruleId)"

text \<open>\<open>split_at c s\<close>: the text before and after the first \<open>c\<close>; \<^verbatim>\<open>find\<close> with \<^verbatim>\<open>npos\<close> is \<open>None\<close>.\<close>

definition split_at :: "char \<Rightarrow> string \<Rightarrow> (string \<times> string) option" where
  "split_at c s =
     (case dropWhile (\<lambda>x. x \<noteq> c) s of
        [] \<Rightarrow> None
      | _ # v \<Rightarrow> Some (takeWhile (\<lambda>x. x \<noteq> c) s, v))"

definition splitKv :: "string \<Rightarrow> (string \<times> string) option" where
  "splitKv token =
     (case split_at (CHR ''='') token of
        None \<Rightarrow> None
      | Some (k, v) \<Rightarrow> if k = [] \<or> v = [] then None else Some (k, v))"

definition parseBool01 :: "string \<Rightarrow> bool option" where
  "parseBool01 v = (if v = ''0'' then Some False else if v = ''1'' then Some True else None)"

definition parseAction :: "string \<Rightarrow> Action option" where
  "parseAction v = (if v = ''allow'' then Some ALLOW else if v = ''block'' then Some BLOCK else None)"

definition parseDirection :: "string \<Rightarrow> Direction option" where
  "parseDirection v =
     (if v = ''any'' then Some Dir_ANY else if v = ''in'' then Some Dir_IN
      else if v = ''out'' then Some Dir_OUT else None)"

definition parseIfaceKind :: "string \<Rightarrow> IfaceKind option" where
  "parseIfaceKind v =
     (if v = ''any'' then Some Iface_ANY else if v = ''wifi'' then Some Iface_WIFI
      else if v = ''data'' then Some Iface_DATA else if v = ''vpn'' then Some Iface_VPN
      else if v = ''unmanaged'' then Some Iface_UNMANAGED else None)"

definition parseProto :: "string \<Rightarrow> Proto option" where
  "parseProto v =
     (if v = ''any'' then Some Proto_ANY else if v = ''tcp'' then Some Proto_TCP
      else if v = ''udp'' then Some Proto_UDP else if v = ''icmp'' then Some Proto_ICMP
      else if v = ''other'' then Some Proto_OTHER else None)"

definition parseCtState :: "string \<Rightarrow> CtState option" where
  "parseCtState v =
     (if v = ''any'' then Some Ct_ANY else if v = ''new'' then Some Ct_NEW
      else if v = ''established'' then Some Ct_ESTABLISHED
      else if v = ''invalid'' then Some Ct_INVALID else None)"

definition parseCtDirection :: "string \<Rightarrow> CtDirection option" where
  "parseCtDirection v =
     (if v = ''any'' then Some CtDir_ANY else if v = ''orig'' then Some CtDir_ORIG
      else if v = ''reply'' then Some CtDir_REPLY else None)"

definition parseIfindex :: "string \<Rightarrow> u32 option" where
  "parseIfindex v = (if v = ''any'' then Some 0 else map_option of_nat (parseDecU 32 v))"

definition parsePriority :: "string \<Rightarrow> i32 option" where
  "parsePriority v = map_option of_int (parseDecI32 v)"

definition parseCidrV4 :: "(string \<Rightarrow> u32 option) \<Rightarrow> string \<Rightarrow> CidrV4 option" where
  "parseCidrV4 pton4 v =
     (if v = ''any'' then Some anyCidrV4
      else case split_at (CHR ''/'') v of
             None \<Rightarrow> None
           | Some (ipStr, prefixStr) \<Rightarrow>
               if ipStr = [] \<or> prefixStr = [] then None
               else case parseDecU 32 prefixStr of
                      None \<Rightarrow> None
                    | Some prefix \<Rightarrow>
                        if prefix > 32 then None
                        else case pton4 ipStr of
                               None \<Rightarrow> None
                             | Some a \<Rightarrow>
                                 Some \<lparr>c4_any = False,
                                       c4_addr = a AND maskFromPrefix (of_nat prefix),
                                       c4_prefix = of_nat prefix\<rparr>)"

definition parsePortPredicate :: "string \<Rightarrow> PortPredicate option" where
  "parsePortPredicate v =
     (if v = ''any'' then Some port_any
      else case split_at (CHR ''-'') v of
             Some (loStr, hiStr) \<Rightarrow>
               (if loStr = [] \<or> hiStr = [] then None
                else case (parseDecU 32 loStr, parseDecU 32 hiStr) of
                       (Some lo, Some hi) \<Rightarrow>
                         if lo > 65535 \<or> hi > 65535 \<or> lo > hi then None
                         else Some (port_range (of_nat lo) (of_nat hi))
                     | _ \<Rightarrow> None)
           | None \<Rightarrow>
               (case parseDecU 32 v of
                  None \<Rightarrow> None
                | Some p \<Rightarrow> if p > 65535 then None else Some (port_exact (of_nat p))))"

definition normalizeAction :: "Action \<Rightarrow> string" where
  "normalizeAction a = (if a = ALLOW then ''allow'' else ''block'')"

fun normalizeDirection :: "Direction \<Rightarrow> string" where
  "normalizeDirection Dir_ANY = ''any''"
| "normalizeDirection Dir_IN = ''in''"
| "normalizeDirection Dir_OUT = ''out''"
| "normalizeDirection (Dir_raw _) = ''any''"

fun normalizeIfaceKind :: "IfaceKind \<Rightarrow> string" where
  "normalizeIfaceKind Iface_ANY = ''any''"
| "normalizeIfaceKind Iface_WIFI = ''wifi''"
| "normalizeIfaceKind Iface_DATA = ''data''"
| "normalizeIfaceKind Iface_VPN = ''vpn''"
| "normalizeIfaceKind Iface_UNMANAGED = ''unmanaged''"
| "normalizeIfaceKind (Iface_raw _) = ''any''"

fun normalizeProto :: "Proto \<Rightarrow> string" where
  "normalizeProto Proto_ANY = ''any''"
| "normalizeProto Proto_TCP = ''tcp''"
| "normalizeProto Proto_UDP = ''udp''"
| "normalizeProto Proto_ICMP = ''icmp''"
| "normalizeProto Proto_OTHER = ''other''"
| "normalizeProto Proto_UNKNOWN = ''any''"
| "normalizeProto (Proto_raw _) = ''any''"

fun normalizeCtState :: "CtState \<Rightarrow> string" where
  "normalizeCtState Ct_ANY = ''any''"
| "normalizeCtState Ct_NEW = ''new''"
| "normalizeCtState Ct_ESTABLISHED = ''established''"
| "normalizeCtState Ct_INVALID = ''invalid''"
| "normalizeCtState (Ct_raw _) = ''any''"

fun normalizeCtDirection :: "CtDirection \<Rightarrow> string" where
  "normalizeCtDirection CtDir_ANY = ''any''"
| "normalizeCtDirection CtDir_ORIG = ''orig''"
| "normalizeCtDirection CtDir_REPLY = ''reply''"
| "normalizeCtDirection (CtDir_raw _) = ''any''"

definition normalizeCidrV4 :: "(u32 \<Rightarrow> string option) \<Rightarrow> CidrV4 \<Rightarrow> string" where
  "normalizeCidrV4 ntop4 c =
     (if c4_any c then ''any''
      else case ntop4 (c4_addr c) of
             None \<Rightarrow> ''any''
           | Some buf \<Rightarrow> buf @ ''/'' @ dec_string (unat (c4_prefix c)))"

definition normalizeCidrV6 :: "(ip6 \<Rightarrow> string option) \<Rightarrow> CidrV6 \<Rightarrow> string" where
  "normalizeCidrV6 ntop6 c =
     (if c6_any c then ''any''
      else case ntop6 (c6_addr c) of
             None \<Rightarrow> ''any''
           | Some buf \<Rightarrow> buf @ ''/'' @ dec_string (unat (c6_prefix c)))"

definition normalizePortPredicate :: "PortPredicate \<Rightarrow> string" where
  "normalizePortPredicate p =
     (case port_kind p of
        Port_ANY \<Rightarrow> ''any''
      | Port_EXACT \<Rightarrow> dec_string (unat (port_lo p))
      | Port_RANGE \<Rightarrow> dec_string (unat (port_lo p)) @ ''-'' @ dec_string (unat (port_hi p))
      | Port_raw _ \<Rightarrow> ''any'')"

text \<open>\<^verbatim>\<open>validateRuleDef\<close>: \<open>Inl\<close> is the error text.\<close>

definition validateRuleDef :: "RuleDef \<Rightarrow> string + unit" where
  "validateRuleDef d =
     (if rd_family d \<noteq> IPV4 \<and> rd_family d \<noteq> IPV6 then Inl ''invalid family''
      else if ct_u8 (rd_ctState d) > ct_u8 Ct_INVALID then Inl ''invalid ct.state''
      else if ctdir_u8 (rd_ctDir d) > ctdir_u8 CtDir_REPLY then Inl ''invalid ct.direction''
      else if rd_ctState d = Ct_INVALID \<and> rd_ctDir d \<noteq> CtDir_ANY then
        Inl ''ct.state=invalid requires ct.direction=any''
      else if rd_proto d = Proto_UNKNOWN then Inl ''invalid proto''
      else if \<not> rd_enforce d \<and> \<not> (rd_action d = BLOCK \<and> rd_log d) then
        Inl ''enforce=0 is only supported for action=block,log=1''
      else if (rd_proto d = Proto_ICMP \<or> rd_proto d = Proto_OTHER)
              \<and> (\<not> port_isAny (rd_sport d) \<or> \<not> port_isAny (rd_dport d)) then
        Inl (if rd_proto d = Proto_ICMP then ''proto=icmp requires sport=any and dport=any''
             else ''proto=other requires sport=any and dport=any'')
      else if rd_family d = IPV4 then
        (if \<not> c6_any (rd_src6 d) \<or> \<not> c6_any (rd_dst6 d) then
           Inl ''family=ipv4 requires IPv6 CIDR fields to be any''
         else Inr ())
      else if \<not> c4_any (rd_src d) \<or> \<not> c4_any (rd_dst d) then
        Inl ''family=ipv6 requires IPv4 CIDR fields to be any''
      else if \<not> c6_any (rd_src6 d) \<and> c6_prefix (rd_src6 d) > 128 then Inl ''invalid ipv6 src prefix''
      else if \<not> c6_any (rd_dst6 d) \<and> c6_prefix (rd_dst6 d) > 128 then Inl ''invalid ipv6 dst prefix''
      else Inr ())"

text \<open>One \<^verbatim>\<open>key=value\<close> pair applied to a rule: the \<^verbatim>\<open>if\<close> chain that
  \<^verbatim>\<open>addFromKv\<close> and \<^verbatim>\<open>updateFromKv\<close> share.\<close>

definition kv_field :: "string \<Rightarrow> ('a \<Rightarrow> RuleDef) \<Rightarrow> 'a option \<Rightarrow> string + RuleDef" where
  "kv_field err upd x = (case x of None \<Rightarrow> Inl err | Some v \<Rightarrow> Inr (upd v))"

definition kv_apply :: "(string \<Rightarrow> u32 option) \<Rightarrow> string \<Rightarrow> string \<Rightarrow> RuleDef \<Rightarrow> string + RuleDef" where
  "kv_apply pton4 k v d =
     (if k = ''action'' then kv_field ''invalid action'' (\<lambda>x. d\<lparr>rd_action := x\<rparr>) (parseAction v)
      else if k = ''priority'' then kv_field ''invalid priority'' (\<lambda>x. d\<lparr>rd_priority := x\<rparr>) (parsePriority v)
      else if k = ''enabled'' then kv_field ''invalid enabled'' (\<lambda>x. d\<lparr>rd_enabled := x\<rparr>) (parseBool01 v)
      else if k = ''enforce'' then kv_field ''invalid enforce'' (\<lambda>x. d\<lparr>rd_enforce := x\<rparr>) (parseBool01 v)
      else if k = ''log'' then kv_field ''invalid log'' (\<lambda>x. d\<lparr>rd_log := x\<rparr>) (parseBool01 v)
      else if k = ''dir'' then kv_field ''invalid dir'' (\<lambda>x. d\<lparr>rd_dir := x\<rparr>) (parseDirection v)
      else if k = ''iface'' then kv_field ''invalid iface'' (\<lambda>x. d\<lparr>rd_iface := x\<rparr>) (parseIfaceKind v)
      else if k = ''ifindex'' then kv_field ''invalid ifindex'' (\<lambda>x. d\<lparr>rd_ifindex := x\<rparr>) (parseIfindex v)
      else if k = ''proto'' then kv_field ''invalid proto'' (\<lambda>x. d\<lparr>rd_proto := x\<rparr>) (parseProto v)
      else if k = ''src'' then kv_field ''invalid src'' (\<lambda>x. d\<lparr>rd_src := x\<rparr>) (parseCidrV4 pton4 v)
      else if k = ''dst'' then kv_field ''invalid dst'' (\<lambda>x. d\<lparr>rd_dst := x\<rparr>) (parseCidrV4 pton4 v)
      else if k = ''sport'' then kv_field ''invalid sport'' (\<lambda>x. d\<lparr>rd_sport := x\<rparr>) (parsePortPredicate v)
      else if k = ''dport'' then kv_field ''invalid dport'' (\<lambda>x. d\<lparr>rd_dport := x\<rparr>) (parsePortPredicate v)
      else if k = ''ct.state'' then kv_field ''invalid ct.state'' (\<lambda>x. d\<lparr>rd_ctState := x\<rparr>) (parseCtState v)
      else if k = ''ct.direction'' then
        kv_field ''invalid ct.direction'' (\<lambda>x. d\<lparr>rd_ctDir := x\<rparr>) (parseCtDirection v)
      else if k = ''ct'' then Inl ''ct is not supported''
      else Inl ''unknown key'')"

fun kv_loop :: "(string \<Rightarrow> u32 option) \<Rightarrow> string list \<Rightarrow> RuleDef \<Rightarrow> string + RuleDef" where
  "kv_loop pton4 [] d = Inr d"
| "kv_loop pton4 (tok # toks) d =
     (case splitKv tok of
        None \<Rightarrow> Inl ''invalid kv token''
      | Some (k, v) \<Rightarrow>
          (case kv_apply pton4 k v d of
             Inl e \<Rightarrow> Inl e
           | Inr d' \<Rightarrow> kv_loop pton4 toks d'))"

text \<open>The two flags of \<^verbatim>\<open>addFromKv\<close>: some processed token had the key.\<close>

definition has_key :: "string \<Rightarrow> string list \<Rightarrow> bool" where
  "has_key key toks = list_ex (\<lambda>t. case splitKv t of Some (k, _) \<Rightarrow> k = key | None \<Rightarrow> False) toks"

section \<open>Well-formed fields and round trips\<close>

definition port_wf :: "PortPredicate \<Rightarrow> bool" where
  "port_wf p \<longleftrightarrow> port_kind p \<in> {Port_ANY, Port_EXACT, Port_RANGE}"

definition cidr4_wf :: "CidrV4 \<Rightarrow> bool" where
  "cidr4_wf c \<longleftrightarrow> c4_any c \<or> c4_prefix c \<le> 32"

definition cidr6_wf :: "CidrV6 \<Rightarrow> bool" where
  "cidr6_wf c \<longleftrightarrow> length (c6_addr c) = 16 \<and> (c6_any c \<or> c6_prefix c \<le> 128)"

definition rule_wf :: "RuleDef \<Rightarrow> bool" where
  "rule_wf d \<longleftrightarrow>
     rd_dir d \<in> {Dir_ANY, Dir_IN, Dir_OUT} \<and> port_wf (rd_sport d) \<and> port_wf (rd_dport d) \<and>
     cidr4_wf (rd_src d) \<and> cidr4_wf (rd_dst d) \<and> cidr6_wf (rd_src6 d) \<and> cidr6_wf (rd_dst6 d)"

text \<open>A port predicate as the parser and the factory functions build it.\<close>

definition port_canonical :: "PortPredicate \<Rightarrow> bool" where
  "port_canonical p \<longleftrightarrow>
     p = port_any \<or> (\<exists>x. p = port_exact x) \<or> (\<exists>lo hi. lo \<le> hi \<and> p = port_range lo hi)"

lemma rule_wf_default [simp]: "rule_wf rule_default"
  by (simp add: rule_wf_def rule_default_def port_wf_def port_any_def cidr4_wf_def cidr6_wf_def
      anyCidrV4_def anyCidrV6_def zero_ip6_def)

lemma digit_char_neq:
  assumes "d < 10" and "digit_val c = None"
  shows "digit_char d \<noteq> c"
  using assms by (auto simp: dec_simps)

lemma dec_string_no_sep: "digit_val c = None \<Longrightarrow> c \<notin> set (dec_string n)"
  using dec_string_digits digit_char_neq by blast

lemma split_at_append:
  "c \<notin> set xs \<Longrightarrow> split_at c (xs @ c # ys) = Some (xs, ys)"
  by (induction xs) (auto simp: split_at_def split: list.splits)

lemma split_at_None: "c \<notin> set xs \<Longrightarrow> split_at c xs = None"
proof -
  assume "c \<notin> set xs"
  then have "dropWhile (\<lambda>x. x \<noteq> c) xs = []" by (auto simp: dropWhile_eq_Nil_conv)
  then show ?thesis by (simp only: split_at_def list.case)
qed

lemma parseDecU_dec_string [dec_simps]: "n < 2 ^ w \<Longrightarrow> parseDecU w (dec_string n) = Some n"
  by (simp add: parseDecU_def dec_simps)

lemma parseDecU_bound: "parseDecU w s = Some n \<Longrightarrow> n < 2 ^ w"
  by (auto simp: parseDecU_def split: if_splits option.splits)

lemma parseDecI32_range:
  "parseDecI32 s = Some i \<Longrightarrow> - (2 ^ 31) \<le> i \<and> i < 2 ^ 31"
  by (auto simp: parseDecI32_def split: list.splits if_splits option.splits)

lemma hd_dec_string: "n < 10 \<or> hd (dec_string n) = hd (dec_string (n div 10))"
  by (subst dec_string.simps) (simp add: hd_append)

lemma dec_string_neq_any: "dec_string n \<noteq> ''any''"
proof
  assume "dec_string n = ''any''"
  then have "CHR ''a'' \<in> set (dec_string n)" by simp
  moreover have "digit_val (CHR ''a'') = None" by (simp add: digit_val_def Let_def)
  ultimately show False using dec_string_no_sep by blast
qed

lemma digit_val_dash [simp]: "digit_val (CHR ''-'') = None"
  by (simp add: digit_val_def Let_def)

lemma range_text_neq_any: "dec_string a @ ''-'' @ dec_string b \<noteq> ''any''"
proof
  assume eq: "dec_string a @ ''-'' @ dec_string b = ''any''"
  then have "CHR ''-'' \<in> set ''any''" by (metis append_Cons in_set_conv_decomp)
  then show False by simp
qed

lemma unat_u16_small: "unat (x :: u16) < 65536"
  using unsigned_less [of x] by simp

lemma parsePortPredicate_normalize:
  assumes "port_canonical p"
  shows "parsePortPredicate (normalizePortPredicate p) = Some p"
proof -
  consider "p = port_any" | x where "p = port_exact x"
    | lo hi where "lo \<le> hi" "p = port_range lo hi"
    using assms by (auto simp: port_canonical_def)
  then show ?thesis
  proof cases
    case 1
    then show ?thesis by (simp add: normalizePortPredicate_def parsePortPredicate_def port_any_def)
  next
    case (2 x)
    have "unat x < 2 ^ 32" and "unat x < 65536" using unat_u16_small [of x] by auto
    then show ?thesis
      using 2 dec_string_no_sep [OF digit_val_dash, of "unat x"]
      by (simp add: normalizePortPredicate_def parsePortPredicate_def port_exact_def
          dec_string_neq_any split_at_None dec_simps)
  next
    case (3 lo hi)
    have "unat lo < 2 ^ 32" "unat hi < 2 ^ 32" "unat lo < 65536" "unat hi < 65536"
      using unat_u16_small [of lo] unat_u16_small [of hi] by auto
    moreover have "unat lo \<le> unat hi" using 3(1) by (simp add: word_le_nat_alt)
    moreover have "split_at (CHR ''-'') (dec_string (unat lo) @ ''-'' @ dec_string (unat hi)) =
        Some (dec_string (unat lo), dec_string (unat hi))"
      using split_at_append [OF dec_string_no_sep [OF digit_val_dash]] by simp
    ultimately show ?thesis
      using 3(2) range_text_neq_any [of "unat lo" "unat hi"]
      by (simp add: normalizePortPredicate_def parsePortPredicate_def port_range_def dec_simps)
  qed
qed

lemma parsePortPredicate_canonical: "parsePortPredicate v = Some p \<Longrightarrow> port_canonical p"
proof -
  have le: "(of_nat lo :: u16) \<le> of_nat hi" if "lo \<le> hi" "hi \<le> 65535" for lo hi :: nat
    using that by (simp add: word_le_nat_alt unat_of_nat)
  have range: "port_canonical (port_range (of_nat lo) (of_nat hi))" if "lo \<le> hi" "hi \<le> 65535" for lo hi :: nat
    using le [OF that] by (auto simp: port_canonical_def)
  have exact: "port_canonical port_any" "port_canonical (port_exact x)" for x
    by (auto simp: port_canonical_def)
  show "parsePortPredicate v = Some p \<Longrightarrow> port_canonical p"
    by (auto simp: parsePortPredicate_def split: if_splits option.splits prod.splits
        intro!: range exact)
qed

lemma port_canonical_wf: "port_canonical p \<Longrightarrow> port_wf p"
  by (auto simp: port_canonical_def port_wf_def port_any_def port_exact_def port_range_def)

lemma parsePortPredicate_wf: "parsePortPredicate v = Some p \<Longrightarrow> port_wf p"
  by (rule port_canonical_wf [OF parsePortPredicate_canonical])

lemma parseCidrV4_wf: "parseCidrV4 pton4 v = Some c \<Longrightarrow> cidr4_wf c"
  by (auto simp: parseCidrV4_def cidr4_wf_def anyCidrV4_def word_le_nat_alt unat_of_nat
      split: if_splits option.splits prod.splits)

lemma parseDirection_wf: "parseDirection v = Some x \<Longrightarrow> x \<in> {Dir_ANY, Dir_IN, Dir_OUT}"
  by (auto simp: parseDirection_def split: if_splits)

lemmas parsed_wf = parsePortPredicate_wf parseCidrV4_wf parseDirection_wf

lemma if_Inr_elim: "(if b then x else y) = Inr r \<Longrightarrow> (x = Inr r \<Longrightarrow> P) \<Longrightarrow> (y = Inr r \<Longrightarrow> P) \<Longrightarrow> P"
  by (cases b) auto

lemma kv_field_InrE:
  "kv_field e f x = Inr d \<Longrightarrow> (\<And>v. x = Some v \<Longrightarrow> d = f v \<Longrightarrow> P) \<Longrightarrow> P"
  by (auto simp: kv_field_def split: option.splits)

lemma kv_apply_wf:
  assumes "rule_wf d" and "kv_apply pton4 k v d = Inr d'"
  shows "rule_wf d'"
  using assms(2) unfolding kv_apply_def
  by (elim if_Inr_elim kv_field_InrE)
     (use assms(1) in \<open>simp_all add: rule_wf_def, insert parsed_wf, blast+\<close>)

lemma kv_loop_Cons_Inr:
  "kv_loop pton4 (tok # toks) d = Inr d' \<longleftrightarrow>
   (\<exists>k v d''. splitKv tok = Some (k, v) \<and> kv_apply pton4 k v d = Inr d'' \<and> kv_loop pton4 toks d'' = Inr d')"
  by (cases "splitKv tok") (simp_all split: prod.splits sum.splits)

lemma kv_loop_wf: "rule_wf d \<Longrightarrow> kv_loop pton4 toks d = Inr d' \<Longrightarrow> rule_wf d'"
  by (induction toks arbitrary: d)
     (simp, metis kv_loop_Cons_Inr kv_apply_wf)

lemma kv_apply_id: "kv_apply pton4 k v d = Inr d' \<Longrightarrow>
    rd_ruleId d' = rd_ruleId d \<and> rd_uid d' = rd_uid d \<and> rd_clientRuleId d' = rd_clientRuleId d \<and>
    rd_family d' = rd_family d \<and> rd_src6 d' = rd_src6 d \<and> rd_dst6 d' = rd_dst6 d"
  unfolding kv_apply_def by (elim if_Inr_elim kv_field_InrE) simp_all

lemma kv_loop_id: "kv_loop pton4 toks d = Inr d' \<Longrightarrow>
    rd_ruleId d' = rd_ruleId d \<and> rd_uid d' = rd_uid d \<and> rd_clientRuleId d' = rd_clientRuleId d \<and>
    rd_family d' = rd_family d \<and> rd_src6 d' = rd_src6 d \<and> rd_dst6 d' = rd_dst6 d"
proof (induction toks arbitrary: d)
  case Nil
  then show ?case by simp
next
  case (Cons tok toks)
  then obtain k v d'' where "kv_apply pton4 k v d = Inr d''" "kv_loop pton4 toks d'' = Inr d'"
    by (auto simp only: kv_loop_Cons_Inr)
  then show ?case using Cons.IH [of d''] kv_apply_id [of pton4 k v d d''] by simp
qed

end
