(* ===== verification/IpRulesSnapshot.thy ===== *)
theory IpRulesSnapshot
  imports IpRulesText
begin

text \<open>
  The compiled classifier (\<^verbatim>\<open>struct IpRulesEngine::Snapshot\<close>): mask signatures, masked keys,
  rule references, buckets, subtables and per-uid views, the lookup loops and the evaluation of a
  packet key. The IPv4 and IPv6 layouts of the source differ in the address type only, so the
  structures are parametric in it and every operation has an IPv4 and an IPv6 instance.
\<close>

section \<open>Mask signatures\<close>

datatype MaskSig = MaskSig
  (sig_dir: bool) (sig_iface: bool) (sig_ifindex: bool) (sig_proto: bool)
  (sig_ctState: bool) (sig_ctDir: bool) (sig_srcPrefix: u8) (sig_dstPrefix: u8)
  (sig_sportExact: bool) (sig_dportExact: bool)

type_synonym MaskSigV6 = MaskSig

definition MaskSigLess :: "MaskSig \<Rightarrow> MaskSig \<Rightarrow> bool" where
  "MaskSigLess a b =
     (if sig_dir a \<noteq> sig_dir b then sig_dir a < sig_dir b
      else if sig_iface a \<noteq> sig_iface b then sig_iface a < sig_iface b
      else if sig_ifindex a \<noteq> sig_ifindex b then sig_ifindex a < sig_ifindex b
      else if sig_proto a \<noteq> sig_proto b then sig_proto a < sig_proto b
      else if sig_ctState a \<noteq> sig_ctState b then sig_ctState a < sig_ctState b
      else if sig_ctDir a \<noteq> sig_ctDir b then sig_ctDir a < sig_ctDir b
      else if sig_srcPrefix a \<noteq> sig_srcPrefix b then sig_srcPrefix a < sig_srcPrefix b
      else if sig_dstPrefix a \<noteq> sig_dstPrefix b then sig_dstPrefix a < sig_dstPrefix b
      else if sig_sportExact a \<noteq> sig_sportExact b then sig_sportExact a < sig_sportExact b
      else if sig_dportExact a \<noteq> sig_dportExact b then sig_dportExact a < sig_dportExact b
      else False)"

definition MaskSigV6Less :: "MaskSigV6 \<Rightarrow> MaskSigV6 \<Rightarrow> bool" where
  "MaskSigV6Less = MaskSigLess"

definition sig_tuple :: "MaskSig \<Rightarrow> bool \<times> bool \<times> bool \<times> bool \<times> bool \<times> bool \<times> u8 \<times> u8 \<times> bool \<times> bool" where
  "sig_tuple s = (sig_dir s, sig_iface s, sig_ifindex s, sig_proto s, sig_ctState s, sig_ctDir s,
                  sig_srcPrefix s, sig_dstPrefix s, sig_sportExact s, sig_dportExact s)"

lemma sig_tuple_inject [simp]: "sig_tuple a = sig_tuple b \<longleftrightarrow> a = b"
  by (cases a; cases b) (simp add: sig_tuple_def)

lemma MaskSigLess_iff: "MaskSigLess a b \<longleftrightarrow> sig_tuple a < sig_tuple b"
  by (simp add: MaskSigLess_def sig_tuple_def less_prod_def' split: if_splits)

instantiation MaskSig :: linorder
begin

definition less_MaskSig :: "MaskSig \<Rightarrow> MaskSig \<Rightarrow> bool" where
  "a < b \<longleftrightarrow> MaskSigLess a b"

definition less_eq_MaskSig :: "MaskSig \<Rightarrow> MaskSig \<Rightarrow> bool" where
  "a \<le> b \<longleftrightarrow> a = b \<or> MaskSigLess a b"

instance
  by standard
     (auto simp: less_MaskSig_def less_eq_MaskSig_def MaskSigLess_iff dest: less_trans)

end

section \<open>Rule references, masked keys, buckets, subtables, views\<close>

record 'c RuleRef =
  rr_ruleId :: u32
  rr_uid :: u32
  rr_clientRuleId :: string
  rr_action :: Action
  rr_priority :: i32
  rr_enforce :: bool
  rr_log :: bool
  rr_dir :: Direction
  rr_iface :: IfaceKind
  rr_ifindex :: u32
  rr_proto :: Proto
  rr_ctState :: CtState
  rr_ctDir :: CtDirection
  rr_src :: 'c
  rr_dst :: 'c
  rr_sport :: PortPredicate
  rr_dport :: PortPredicate
  rr_stats :: addr

type_synonym RuleRefV4 = "CidrV4 RuleRef"
type_synonym RuleRefV6 = "CidrV6 RuleRef"

definition ref_matches :: "('c \<Rightarrow> 'ip \<Rightarrow> bool) \<Rightarrow> 'c RuleRef \<Rightarrow> 'ip PacketKey \<Rightarrow> bool" where
  "ref_matches cm r k =
     (if rr_uid r \<noteq> k_uid k then False
      else if k_portsAvailable k = 0 \<and> (\<not> port_isAny (rr_sport r) \<or> \<not> port_isAny (rr_dport r)) then False
      else if rr_dir r = Dir_IN \<and> k_dir k \<noteq> 0 then False
      else if rr_dir r = Dir_OUT \<and> k_dir k \<noteq> 1 then False
      else if rr_iface r \<noteq> Iface_ANY \<and> k_ifaceKind k \<noteq> iface_u8 (rr_iface r) then False
      else if rr_ifindex r \<noteq> 0 \<and> k_ifindex k \<noteq> rr_ifindex r then False
      else if rr_proto r \<noteq> Proto_ANY \<and> k_proto k \<noteq> proto_u8 (rr_proto r) then False
      else if rr_ctState r \<noteq> Ct_ANY \<and> k_ctState k \<noteq> ct_u8 (rr_ctState r) then False
      else if rr_ctDir r \<noteq> CtDir_ANY \<and> k_ctDir k \<noteq> ctdir_u8 (rr_ctDir r) then False
      else if \<not> cm (rr_src r) (k_srcIp k) then False
      else if \<not> cm (rr_dst r) (k_dstIp k) then False
      else if \<not> port_matches (rr_sport r) (k_srcPort k) then False
      else if \<not> port_matches (rr_dport r) (k_dstPort k) then False
      else True)"

definition matchesV4 :: "RuleRefV4 \<Rightarrow> PacketKeyV4 \<Rightarrow> bool" where
  "matchesV4 = ref_matches cidrV4_matches"

definition matchesV6 :: "RuleRefV6 \<Rightarrow> PacketKeyV6 \<Rightarrow> bool" where
  "matchesV6 = ref_matches cidrV6_matches"

record 'ip MaskedKey =
  mk_dir :: u8
  mk_ifaceKind :: u8
  mk_proto :: u8
  mk_ctState :: u8
  mk_ctDir :: u8
  mk_ifindex :: u32
  mk_srcIpMasked :: 'ip
  mk_dstIpMasked :: 'ip
  mk_srcPort :: u16
  mk_dstPort :: u16

type_synonym MaskedKeyV4 = "u32 MaskedKey"
type_synonym MaskedKeyV6 = "ip6 MaskedKey"

record 'c Bucket =
  exactEnforce :: "'c RuleRef list"
  rangeEnforce :: "'c RuleRef list"
  exactWould :: "'c RuleRef list"
  rangeWould :: "'c RuleRef list"

definition emptyBucket :: "'c Bucket" where
  "emptyBucket = \<lparr>exactEnforce = [], rangeEnforce = [], exactWould = [], rangeWould = []\<rparr>"

type_synonym BucketV6 = "CidrV6 Bucket"

definition ruleLess :: "'c RuleRef \<Rightarrow> 'c RuleRef \<Rightarrow> bool" where
  "ruleLess a b =
     (if rr_priority a \<noteq> rr_priority b then i32_less (rr_priority b) (rr_priority a)
      else rr_ruleId a < rr_ruleId b)"

definition sortAll :: "'c Bucket \<Rightarrow> 'c Bucket" where
  "sortAll b = \<lparr>exactEnforce = std_sort ruleLess (exactEnforce b),
                rangeEnforce = std_sort ruleLess (rangeEnforce b),
                exactWould = std_sort ruleLess (exactWould b),
                rangeWould = std_sort ruleLess (rangeWould b)\<rparr>"

text \<open>The loop over the range candidates below a matching exact rule of priority \<open>p\<close>.\<close>

fun scan_above :: "i32 \<Rightarrow> ('c RuleRef \<Rightarrow> bool) \<Rightarrow> 'c RuleRef list \<Rightarrow> 'c RuleRef option" where
  "scan_above p m [] = None"
| "scan_above p m (cand # cands) =
     (if \<not> i32_less p (rr_priority cand) then None
      else if m cand then Some cand
      else scan_above p m cands)"

definition bucket_best :: "('c RuleRef \<Rightarrow> bool) \<Rightarrow> 'c RuleRef list \<Rightarrow> 'c RuleRef list \<Rightarrow> 'c RuleRef option" where
  "bucket_best m exacts ranges =
     (let exact = (case exacts of [] \<Rightarrow> None | e # _ \<Rightarrow> if m e then Some e else None) in
      case exact of
        Some e \<Rightarrow> (case scan_above (rr_priority e) m ranges of Some c \<Rightarrow> Some c | None \<Rightarrow> Some e)
      | None \<Rightarrow> find m ranges)"

definition bestEnforce :: "('c RuleRef \<Rightarrow> bool) \<Rightarrow> 'c Bucket \<Rightarrow> 'c RuleRef option" where
  "bestEnforce m b = bucket_best m (exactEnforce b) (rangeEnforce b)"

definition bestWould :: "('c RuleRef \<Rightarrow> bool) \<Rightarrow> 'c Bucket \<Rightarrow> 'c RuleRef option" where
  "bestWould m b = bucket_best m (exactWould b) (rangeWould b)"

definition bestEnforceV6 :: "BucketV6 \<Rightarrow> PacketKeyV6 \<Rightarrow> RuleRefV6 option" where
  "bestEnforceV6 b k = bestEnforce (\<lambda>r. matchesV6 r k) b"

definition bestWouldV6 :: "BucketV6 \<Rightarrow> PacketKeyV6 \<Rightarrow> RuleRefV6 option" where
  "bestWouldV6 b k = bestWould (\<lambda>r. matchesV6 r k) b"

record ('ip, 'c) Subtable =
  st_sig :: MaskSig
  maxEnforcePriority :: i32
  maxWouldPriority :: i32
  st_buckets :: "'ip MaskedKey \<rightharpoonup> 'c Bucket"

record ('ip, 'c) UidView =
  subtables :: "('ip, 'c) Subtable list"
  enforceOrder :: "nat list"
  wouldOrder :: "nat list"
  usesCt :: bool

type_synonym SubtableV4 = "(u32, CidrV4) Subtable"
type_synonym SubtableV6 = "(ip6, CidrV6) Subtable"
type_synonym UidViewV4 = "(u32, CidrV4) UidView"
type_synonym UidViewV6 = "(ip6, CidrV6) UidView"

record Snapshot =
  snap_rulesEpoch :: u64
  byUid :: "u32 \<rightharpoonup> UidViewV4"
  byUid6 :: "u32 \<rightharpoonup> UidViewV6"

section \<open>Signatures and masked keys\<close>

definition maskSigForRule :: "RuleDef \<Rightarrow> MaskSig" where
  "maskSigForRule r = MaskSig
     (rd_dir r \<noteq> Dir_ANY) (rd_iface r \<noteq> Iface_ANY) (rd_ifindex r \<noteq> 0) (rd_proto r \<noteq> Proto_ANY)
     (rd_ctState r \<noteq> Ct_ANY) (rd_ctDir r \<noteq> CtDir_ANY)
     (if c4_any (rd_src r) then 255 else c4_prefix (rd_src r))
     (if c4_any (rd_dst r) then 255 else c4_prefix (rd_dst r))
     (port_kind (rd_sport r) = Port_EXACT) (port_kind (rd_dport r) = Port_EXACT)"

definition dirValue :: "Direction \<Rightarrow> u8" where
  "dirValue d = (if d = Dir_OUT then 1 else 0)"

definition maskedKeyFromPacket :: "MaskSig \<Rightarrow> PacketKeyV4 \<Rightarrow> MaskedKeyV4" where
  "maskedKeyFromPacket sig k =
     \<lparr>mk_dir = (if sig_dir sig then k_dir k else 0),
      mk_ifaceKind = (if sig_iface sig then k_ifaceKind k else 0),
      mk_proto = (if sig_proto sig then k_proto k else 0),
      mk_ctState = (if sig_ctState sig then k_ctState k else 0),
      mk_ctDir = (if sig_ctDir sig then k_ctDir k else 0),
      mk_ifindex = (if sig_ifindex sig then k_ifindex k else 0),
      mk_srcIpMasked = (if sig_srcPrefix sig = 255 then 0 else k_srcIp k AND maskFromPrefix (sig_srcPrefix sig)),
      mk_dstIpMasked = (if sig_dstPrefix sig = 255 then 0 else k_dstIp k AND maskFromPrefix (sig_dstPrefix sig)),
      mk_srcPort = (if sig_sportExact sig then k_srcPort k else 0),
      mk_dstPort = (if sig_dportExact sig then k_dstPort k else 0)\<rparr>"

definition maskedKeyFromRule :: "MaskSig \<Rightarrow> RuleDef \<Rightarrow> MaskedKeyV4" where
  "maskedKeyFromRule sig r =
     \<lparr>mk_dir = (if sig_dir sig then dirValue (rd_dir r) else 0),
      mk_ifaceKind = (if sig_iface sig then iface_u8 (rd_iface r) else 0),
      mk_proto = (if sig_proto sig then proto_u8 (rd_proto r) else 0),
      mk_ctState = (if sig_ctState sig then ct_u8 (rd_ctState r) else 0),
      mk_ctDir = (if sig_ctDir sig then ctdir_u8 (rd_ctDir r) else 0),
      mk_ifindex = (if sig_ifindex sig then rd_ifindex r else 0),
      mk_srcIpMasked = (if sig_srcPrefix sig = 255 then 0 else c4_addr (rd_src r) AND maskFromPrefix (sig_srcPrefix sig)),
      mk_dstIpMasked = (if sig_dstPrefix sig = 255 then 0 else c4_addr (rd_dst r) AND maskFromPrefix (sig_dstPrefix sig)),
      mk_srcPort = (if sig_sportExact sig then port_lo (rd_sport r) else 0),
      mk_dstPort = (if sig_dportExact sig then port_lo (rd_dport r) else 0)\<rparr>"

definition maskSigForRuleV6 :: "RuleDef \<Rightarrow> MaskSigV6" where
  "maskSigForRuleV6 r = MaskSig
     (rd_dir r \<noteq> Dir_ANY) (rd_iface r \<noteq> Iface_ANY) (rd_ifindex r \<noteq> 0) (rd_proto r \<noteq> Proto_ANY)
     (rd_ctState r \<noteq> Ct_ANY) (rd_ctDir r \<noteq> CtDir_ANY)
     (if c6_any (rd_src6 r) then 255 else c6_prefix (rd_src6 r))
     (if c6_any (rd_dst6 r) then 255 else c6_prefix (rd_dst6 r))
     (port_kind (rd_sport r) = Port_EXACT) (port_kind (rd_dport r) = Port_EXACT)"

text \<open>\<^verbatim>\<open>maskIpV6\<close>: bytes past the prefix are cleared, the byte the prefix ends in keeps its
  upper bits.\<close>

definition maskIpV6 :: "ip6 \<Rightarrow> u8 \<Rightarrow> ip6" where
  "maskIpV6 inp prefix =
     (if prefix = 0 then replicate 16 0
      else if 128 \<le> prefix then inp
      else
        let fullBytes = unat prefix div 8; remBits = unat prefix mod 8;
            start = fullBytes + (if remBits \<noteq> 0 then 1 else 0);
            out = map (\<lambda>i. if start \<le> i then 0 else inp ! i) [0..<16]
        in if remBits \<noteq> 0 \<and> fullBytes < 16
           then out[fullBytes := out ! fullBytes AND rem_mask remBits]
           else out)"

definition maskedKeyFromPacketV6 :: "MaskSigV6 \<Rightarrow> PacketKeyV6 \<Rightarrow> MaskedKeyV6" where
  "maskedKeyFromPacketV6 sig k =
     \<lparr>mk_dir = (if sig_dir sig then k_dir k else 0),
      mk_ifaceKind = (if sig_iface sig then k_ifaceKind k else 0),
      mk_proto = (if sig_proto sig then k_proto k else 0),
      mk_ctState = (if sig_ctState sig then k_ctState k else 0),
      mk_ctDir = (if sig_ctDir sig then k_ctDir k else 0),
      mk_ifindex = (if sig_ifindex sig then k_ifindex k else 0),
      mk_srcIpMasked = (if sig_srcPrefix sig = 255 then replicate 16 0 else maskIpV6 (k_srcIp k) (sig_srcPrefix sig)),
      mk_dstIpMasked = (if sig_dstPrefix sig = 255 then replicate 16 0 else maskIpV6 (k_dstIp k) (sig_dstPrefix sig)),
      mk_srcPort = (if sig_sportExact sig then k_srcPort k else 0),
      mk_dstPort = (if sig_dportExact sig then k_dstPort k else 0)\<rparr>"

definition maskedKeyFromRuleV6 :: "MaskSigV6 \<Rightarrow> RuleDef \<Rightarrow> MaskedKeyV6" where
  "maskedKeyFromRuleV6 sig r =
     \<lparr>mk_dir = (if sig_dir sig then dirValue (rd_dir r) else 0),
      mk_ifaceKind = (if sig_iface sig then iface_u8 (rd_iface r) else 0),
      mk_proto = (if sig_proto sig then proto_u8 (rd_proto r) else 0),
      mk_ctState = (if sig_ctState sig then ct_u8 (rd_ctState r) else 0),
      mk_ctDir = (if sig_ctDir sig then ctdir_u8 (rd_ctDir r) else 0),
      mk_ifindex = (if sig_ifindex sig then rd_ifindex r else 0),
      mk_srcIpMasked = (if sig_srcPrefix sig = 255 then replicate 16 0 else maskIpV6 (c6_addr (rd_src6 r)) (sig_srcPrefix sig)),
      mk_dstIpMasked = (if sig_dstPrefix sig = 255 then replicate 16 0 else maskIpV6 (c6_addr (rd_dst6 r)) (sig_dstPrefix sig)),
      mk_srcPort = (if sig_sportExact sig then port_lo (rd_sport r) else 0),
      mk_dstPort = (if sig_dportExact sig then port_lo (rd_dport r) else 0)\<rparr>"

section \<open>Lookup and evaluation\<close>

text \<open>The loop over the subtables in a given order: \<open>maxp\<close> reads the subtable's maximal
  priority, \<open>cand\<close> is the best rule of the bucket the packet falls into. \<^verbatim>\<open>bestPriority\<close>
  is the priority of the current best rule.\<close>

fun lookup_loop :: "('s \<Rightarrow> i32) \<Rightarrow> ('s \<Rightarrow> 'c RuleRef option) \<Rightarrow> 's list \<Rightarrow> 'c RuleRef option \<Rightarrow> 'c RuleRef option" where
  "lookup_loop maxp cand [] best = best"
| "lookup_loop maxp cand (st # sts) best =
     (if maxp st = kNoPriority then best
      else if (case best of Some b \<Rightarrow> i32_less (maxp st) (rr_priority b) | None \<Rightarrow> False) then best
      else lookup_loop maxp cand sts
             (case cand st of
                None \<Rightarrow> best
              | Some c \<Rightarrow>
                  (case best of
                     None \<Rightarrow> Some c
                   | Some b \<Rightarrow> if i32_less (rr_priority b) (rr_priority c) then Some c else best)))"

definition view_lookup ::
  "(('ip, 'c) Subtable \<Rightarrow> i32) \<Rightarrow> ('c Bucket \<Rightarrow> 'c RuleRef option) \<Rightarrow> (MaskSig \<Rightarrow> 'ip MaskedKey) \<Rightarrow>
   ('ip, 'c) UidView \<Rightarrow> nat list \<Rightarrow> 'c RuleRef option" where
  "view_lookup maxp best pkey view order =
     lookup_loop maxp
       (\<lambda>st. case st_buckets st (pkey (st_sig st)) of None \<Rightarrow> None | Some bucket \<Rightarrow> best bucket)
       (map (\<lambda>idx. subtables view ! idx) order) None"

definition lookupBestEnforce :: "Snapshot \<Rightarrow> PacketKeyV4 \<Rightarrow> RuleRefV4 option" where
  "lookupBestEnforce snap k =
     (case byUid snap (k_uid k) of
        None \<Rightarrow> None
      | Some view \<Rightarrow>
          view_lookup maxEnforcePriority (bestEnforce (\<lambda>r. matchesV4 r k))
            (\<lambda>sig. maskedKeyFromPacket sig k) view (enforceOrder view))"

definition lookupBestWould :: "Snapshot \<Rightarrow> PacketKeyV4 \<Rightarrow> RuleRefV4 option" where
  "lookupBestWould snap k =
     (case byUid snap (k_uid k) of
        None \<Rightarrow> None
      | Some view \<Rightarrow>
          view_lookup maxWouldPriority (bestWould (\<lambda>r. matchesV4 r k))
            (\<lambda>sig. maskedKeyFromPacket sig k) view (wouldOrder view))"

definition lookupBestEnforceV6 :: "Snapshot \<Rightarrow> PacketKeyV6 \<Rightarrow> RuleRefV6 option" where
  "lookupBestEnforceV6 snap k =
     (case byUid6 snap (k_uid k) of
        None \<Rightarrow> None
      | Some view \<Rightarrow>
          view_lookup maxEnforcePriority (\<lambda>b. bestEnforceV6 b k)
            (\<lambda>sig. maskedKeyFromPacketV6 sig k) view (enforceOrder view))"

definition lookupBestWouldV6 :: "Snapshot \<Rightarrow> PacketKeyV6 \<Rightarrow> RuleRefV6 option" where
  "lookupBestWouldV6 snap k =
     (case byUid6 snap (k_uid k) of
        None \<Rightarrow> None
      | Some view \<Rightarrow>
          view_lookup maxWouldPriority (\<lambda>b. bestWouldV6 b k)
            (\<lambda>sig. maskedKeyFromPacketV6 sig k) view (wouldOrder view))"

definition decide :: "'c RuleRef option \<Rightarrow> 'c RuleRef option \<Rightarrow> Decision" where
  "decide enforce would =
     (case enforce of
        Some r \<Rightarrow> \<lparr>d_kind = (if rr_action r = ALLOW then D_ALLOW else D_BLOCK),
                   d_ruleId = rr_ruleId r, d_stats = Some (rr_stats r)\<rparr>
      | None \<Rightarrow>
          (case would of
             Some r \<Rightarrow> \<lparr>d_kind = WOULD_BLOCK, d_ruleId = rr_ruleId r, d_stats = Some (rr_stats r)\<rparr>
           | None \<Rightarrow> noDecision))"

definition snap_evaluate :: "Snapshot \<Rightarrow> PacketKeyV4 \<Rightarrow> Decision" where
  "snap_evaluate snap k = decide (lookupBestEnforce snap k) (lookupBestWould snap k)"

definition snap_evaluateV6 :: "Snapshot \<Rightarrow> PacketKeyV6 \<Rightarrow> Decision" where
  "snap_evaluateV6 snap k = decide (lookupBestEnforceV6 snap k) (lookupBestWouldV6 snap k)"

end
