(* ===== verification/IpRulesCompile.thy ===== *)
theory IpRulesCompile
  imports IpRulesSnapshot
begin

text \<open>
  \<^verbatim>\<open>IpRulesEngine::compile\<close>: from the rule map to the classifier snapshot and the preflight
  report. The loop over the rules fills one table of subtables per uid and family
  (\<^verbatim>\<open>std::map\<close> keyed by uid, then by mask signature); the views sort the buckets and order the
  subtables; the report is checked against the recommended and the hard limits.
\<close>

section \<open>Limits\<close>

definition kRecommendedMaxRulesTotal :: nat where "kRecommendedMaxRulesTotal = 1000"
definition kHardMaxRulesTotal :: nat where "kHardMaxRulesTotal = 5000"
definition kRecommendedMaxSubtablesPerUid :: nat where "kRecommendedMaxSubtablesPerUid = 32"
definition kHardMaxSubtablesPerUid :: nat where "kHardMaxSubtablesPerUid = 64"
definition kRecommendedMaxRangeRulesPerBucket :: nat where "kRecommendedMaxRangeRulesPerBucket = 16"
definition kHardMaxRangeRulesPerBucket :: nat where "kHardMaxRangeRulesPerBucket = 64"

lemmas limit_defs = kRecommendedMaxRulesTotal_def kHardMaxRulesTotal_def
  kRecommendedMaxSubtablesPerUid_def kHardMaxSubtablesPerUid_def
  kRecommendedMaxRangeRulesPerBucket_def kHardMaxRangeRulesPerBucket_def

section \<open>Filling the tables\<close>

definition emptySubtable :: "('ip, 'c) Subtable" where
  "emptySubtable = \<lparr>st_sig = MaskSig False False False False False False 255 255 False False,
     maxEnforcePriority = kNoPriority, maxWouldPriority = kNoPriority, st_buckets = Map.empty\<rparr>"

definition makeRefV4 :: "RuleState \<Rightarrow> RuleRefV4" where
  "makeRefV4 s = (let d = st_def s in
     \<lparr>rr_ruleId = rd_ruleId d, rr_uid = rd_uid d, rr_clientRuleId = rd_clientRuleId d,
      rr_action = rd_action d, rr_priority = rd_priority d, rr_enforce = rd_enforce d,
      rr_log = rd_log d, rr_dir = rd_dir d, rr_iface = rd_iface d, rr_ifindex = rd_ifindex d,
      rr_proto = rd_proto d, rr_ctState = rd_ctState d, rr_ctDir = rd_ctDir d,
      rr_src = rd_src d, rr_dst = rd_dst d, rr_sport = rd_sport d, rr_dport = rd_dport d,
      rr_stats = st_stats s\<rparr>)"

definition makeRefV6 :: "RuleState \<Rightarrow> RuleRefV6" where
  "makeRefV6 s = (let d = st_def s in
     \<lparr>rr_ruleId = rd_ruleId d, rr_uid = rd_uid d, rr_clientRuleId = rd_clientRuleId d,
      rr_action = rd_action d, rr_priority = rd_priority d, rr_enforce = rd_enforce d,
      rr_log = rd_log d, rr_dir = rd_dir d, rr_iface = rd_iface d, rr_ifindex = rd_ifindex d,
      rr_proto = rd_proto d, rr_ctState = rd_ctState d, rr_ctDir = rd_ctDir d,
      rr_src = rd_src6 d, rr_dst = rd_dst6 d, rr_sport = rd_sport d, rr_dport = rd_dport d,
      rr_stats = st_stats s\<rparr>)"

text \<open>The reference goes to one of the four lists of its bucket.\<close>

definition bucket_add :: "bool \<Rightarrow> 'c RuleRef \<Rightarrow> 'c Bucket \<Rightarrow> 'c Bucket" where
  "bucket_add isRange ref b =
     (if rr_enforce ref then
        (if isRange then b\<lparr>rangeEnforce := rangeEnforce b @ [ref]\<rparr>
         else b\<lparr>exactEnforce := exactEnforce b @ [ref]\<rparr>)
      else
        (if isRange then b\<lparr>rangeWould := rangeWould b @ [ref]\<rparr>
         else b\<lparr>exactWould := exactWould b @ [ref]\<rparr>))"

definition subtable_add ::
  "MaskSig \<Rightarrow> 'ip MaskedKey \<Rightarrow> bool \<Rightarrow> 'c RuleRef \<Rightarrow> ('ip, 'c) Subtable \<Rightarrow> ('ip, 'c) Subtable" where
  "subtable_add sig mk isRange ref st =
     \<lparr>st_sig = sig,
      maxEnforcePriority = (if rr_enforce ref then i32_max (maxEnforcePriority st) (rr_priority ref)
                            else maxEnforcePriority st),
      maxWouldPriority = (if rr_enforce ref then maxWouldPriority st
                          else i32_max (maxWouldPriority st) (rr_priority ref)),
      st_buckets = (st_buckets st)(mk \<mapsto>
        bucket_add isRange ref (case st_buckets st mk of None \<Rightarrow> emptyBucket | Some b \<Rightarrow> b))\<rparr>"

type_synonym ('ip, 'c) tables = "(u32, (MaskSig, ('ip, 'c) Subtable) omap) omap"

definition tables_add ::
  "MaskSig \<Rightarrow> 'ip MaskedKey \<Rightarrow> bool \<Rightarrow> 'c RuleRef \<Rightarrow> ('ip, 'c) tables \<Rightarrow> ('ip, 'c) tables" where
  "tables_add sig mk isRange ref t =
     omap_upd (rr_uid ref) [] (omap_upd sig emptySubtable (subtable_add sig mk isRange ref)) t"

text \<open>The number of range candidates of a bucket, as the loop reads it back after inserting.\<close>

definition range_size :: "('ip, 'c) tables \<Rightarrow> u32 \<Rightarrow> MaskSig \<Rightarrow> 'ip MaskedKey \<Rightarrow> nat" where
  "range_size t uid sig mk =
     (case map_of t uid of
        None \<Rightarrow> 0
      | Some sm \<Rightarrow>
          (case map_of sm sig of
             None \<Rightarrow> 0
           | Some st \<Rightarrow>
               (case st_buckets st mk of
                  None \<Rightarrow> 0
                | Some b \<Rightarrow> length (rangeEnforce b) + length (rangeWould b))))"

record CompileAcc =
  ca_summary :: PreflightSummary
  ca_ipv4 :: PreflightSummary
  ca_ipv6 :: PreflightSummary
  uidTables4 :: "(u32, CidrV4) tables"
  uidTables6 :: "(ip6, CidrV6) tables"
  uidUsesCt4 :: "u32 set"
  uidUsesCt6 :: "u32 set"
  maxRangeBucket4 :: nat
  maxRangeBucket6 :: nat

definition emptyAcc :: CompileAcc where
  "emptyAcc = \<lparr>ca_summary = zeroSummary, ca_ipv4 = zeroSummary, ca_ipv6 = zeroSummary,
     uidTables4 = [], uidTables6 = [], uidUsesCt4 = {}, uidUsesCt6 = {},
     maxRangeBucket4 = 0, maxRangeBucket6 = 0\<rparr>"

definition ctConsumer :: "RuleDef \<Rightarrow> bool" where
  "ctConsumer d \<longleftrightarrow> rd_ctState d \<noteq> Ct_ANY \<or> rd_ctDir d \<noteq> CtDir_ANY"

text \<open>The counters one enabled rule adds to a summary.\<close>

definition summary_count :: "RuleDef \<Rightarrow> PreflightSummary \<Rightarrow> PreflightSummary" where
  "summary_count d s = s\<lparr>rulesTotal := rulesTotal s + 1,
     rangeRulesTotal := rangeRulesTotal s + (if hasRangePorts d then 1 else 0),
     ctRulesTotal := ctRulesTotal s + (if ctConsumer d then 1 else 0)\<rparr>"

definition compile_count :: "RuleDef \<Rightarrow> CompileAcc \<Rightarrow> CompileAcc" where
  "compile_count d acc =
     acc\<lparr>ca_summary := summary_count d (ca_summary acc),
         ca_ipv4 := (if rd_family d = IPV4 then summary_count d (ca_ipv4 acc) else ca_ipv4 acc),
         ca_ipv6 := (if rd_family d = IPV6 then summary_count d (ca_ipv6 acc) else ca_ipv6 acc),
         uidUsesCt4 := (if ctConsumer d \<and> rd_family d = IPV4 then insert (rd_uid d) (uidUsesCt4 acc)
                        else uidUsesCt4 acc),
         uidUsesCt6 := (if ctConsumer d \<and> rd_family d = IPV6 then insert (rd_uid d) (uidUsesCt6 acc)
                        else uidUsesCt6 acc)\<rparr>"

definition compile_v4 :: "RuleState \<Rightarrow> CompileAcc \<Rightarrow> CompileAcc" where
  "compile_v4 s acc =
     (let d = st_def s; sig = maskSigForRule d; mk = maskedKeyFromRule sig d;
          t = tables_add sig mk (hasRangePorts d) (makeRefV4 s) (uidTables4 acc)
      in acc\<lparr>uidTables4 := t,
             maxRangeBucket4 := (if hasRangePorts d
                                 then max (maxRangeBucket4 acc) (range_size t (rd_uid d) sig mk)
                                 else maxRangeBucket4 acc)\<rparr>)"

definition compile_v6 :: "RuleState \<Rightarrow> CompileAcc \<Rightarrow> CompileAcc" where
  "compile_v6 s acc =
     (let d = st_def s; sig = maskSigForRuleV6 d; mk = maskedKeyFromRuleV6 sig d;
          t = tables_add sig mk (hasRangePorts d) (makeRefV6 s) (uidTables6 acc)
      in acc\<lparr>uidTables6 := t,
             maxRangeBucket6 := (if hasRangePorts d
                                 then max (maxRangeBucket6 acc) (range_size t (rd_uid d) sig mk)
                                 else maxRangeBucket6 acc)\<rparr>)"

definition compile_rule :: "RuleState \<Rightarrow> CompileAcc \<Rightarrow> CompileAcc" where
  "compile_rule s acc =
     (let d = st_def s in
      if \<not> rd_enabled d then acc
      else
        let acc' = compile_count d acc in
        if rd_family d = IPV4 then compile_v4 s acc'
        else if rd_family d = IPV6 then compile_v6 s acc'
        else acc')"

section \<open>Views\<close>

definition sort_buckets :: "('ip, 'c) Subtable \<Rightarrow> ('ip, 'c) Subtable" where
  "sort_buckets st = st\<lparr>st_buckets := (\<lambda>mk. map_option sortAll (st_buckets st mk))\<rparr>"

definition order_less :: "(('ip, 'c) Subtable \<Rightarrow> i32) \<Rightarrow> ('ip, 'c) Subtable list \<Rightarrow> nat \<Rightarrow> nat \<Rightarrow> bool" where
  "order_less maxp sts a b =
     (let sa = sts ! a; sb = sts ! b in
      if maxp sa \<noteq> maxp sb then i32_less (maxp sb) (maxp sa)
      else MaskSigLess (st_sig sa) (st_sig sb))"

definition build_view :: "bool \<Rightarrow> (MaskSig, ('ip, 'c) Subtable) omap \<Rightarrow> ('ip, 'c) UidView" where
  "build_view ct sm =
     (let sts = map (\<lambda>p. sort_buckets (snd p)) sm; n = length sts in
      \<lparr>subtables = sts,
       enforceOrder = std_sort (order_less maxEnforcePriority sts) [0..<n],
       wouldOrder = std_sort (order_less maxWouldPriority sts) [0..<n],
       usesCt = ct\<rparr>)"

definition build_views :: "u32 set \<Rightarrow> ('ip, 'c) tables \<Rightarrow> (u32 \<rightharpoonup> ('ip, 'c) UidView)" where
  "build_views ct t = map_of (map (\<lambda>(uid, sm). (uid, build_view (uid \<in> ct) sm)) t)"

definition subtables_sum :: "('ip, 'c) tables \<Rightarrow> nat" where
  "subtables_sum t = sum_list (map (\<lambda>p. length (snd p)) t)"

definition subtables_max :: "('ip, 'c) tables \<Rightarrow> nat" where
  "subtables_max t = fold (\<lambda>p m. max m (length (snd p))) t 0"

section \<open>Limits of the report\<close>

text \<open>One \<^verbatim>\<open>if (value > hard) addIssue(violations) else if (value > recommended)
  addIssue(warnings)\<close> block: the violations and the warnings it adds.\<close>

definition check_limit ::
  "string \<Rightarrow> nat \<Rightarrow> nat \<Rightarrow> nat \<Rightarrow> string \<Rightarrow> PreflightIssue list \<times> PreflightIssue list" where
  "check_limit metric value hard recommended what =
     (if hard < value then
        ([\<lparr>iss_metric = metric, iss_value = value, iss_limit = hard,
           iss_message = what @ '' exceed hard limit''\<rparr>], [])
      else if recommended < value then
        ([], [\<lparr>iss_metric = metric, iss_value = value, iss_limit = recommended,
               iss_message = what @ '' exceed recommended limit''\<rparr>])
      else ([], []))"

definition report_issues ::
  "PreflightSummary \<Rightarrow> PreflightSummary \<Rightarrow> PreflightSummary \<Rightarrow> PreflightIssue list \<times> PreflightIssue list" where
  "report_issues s s4 s6 =
     (let checks =
        [check_limit ''rulesTotal'' (rulesTotal s) kHardMaxRulesTotal kRecommendedMaxRulesTotal
           ''active rules'',
         check_limit ''byFamily.ipv4.rulesTotal'' (rulesTotal s4) kHardMaxRulesTotal kRecommendedMaxRulesTotal
           ''active ipv4 rules'',
         check_limit ''byFamily.ipv6.rulesTotal'' (rulesTotal s6) kHardMaxRulesTotal kRecommendedMaxRulesTotal
           ''active ipv6 rules'',
         check_limit ''maxSubtablesPerUid'' (maxSubtablesPerUid s) kHardMaxSubtablesPerUid
           kRecommendedMaxSubtablesPerUid ''subtables per uid'',
         check_limit ''byFamily.ipv4.maxSubtablesPerUid'' (maxSubtablesPerUid s4) kHardMaxSubtablesPerUid
           kRecommendedMaxSubtablesPerUid ''ipv4 subtables per uid'',
         check_limit ''byFamily.ipv6.maxSubtablesPerUid'' (maxSubtablesPerUid s6) kHardMaxSubtablesPerUid
           kRecommendedMaxSubtablesPerUid ''ipv6 subtables per uid'',
         check_limit ''maxRangeRulesPerBucket'' (maxRangeRulesPerBucket s) kHardMaxRangeRulesPerBucket
           kRecommendedMaxRangeRulesPerBucket ''range candidates per bucket'',
         check_limit ''byFamily.ipv4.maxRangeRulesPerBucket'' (maxRangeRulesPerBucket s4)
           kHardMaxRangeRulesPerBucket kRecommendedMaxRangeRulesPerBucket ''ipv4 range candidates per bucket'',
         check_limit ''byFamily.ipv6.maxRangeRulesPerBucket'' (maxRangeRulesPerBucket s6)
           kHardMaxRangeRulesPerBucket kRecommendedMaxRangeRulesPerBucket ''ipv6 range candidates per bucket'']
      in (concat (map fst checks), concat (map snd checks)))"

definition make_report :: "CompileAcc \<Rightarrow> PreflightReport" where
  "make_report acc =
     (let s = (ca_summary acc)\<lparr>
            maxRangeRulesPerBucket := max (maxRangeBucket4 acc) (maxRangeBucket6 acc),
            ctUidsTotal := card (uidUsesCt4 acc \<union> uidUsesCt6 acc),
            subtablesTotal := subtables_sum (uidTables4 acc) + subtables_sum (uidTables6 acc),
            maxSubtablesPerUid := max (subtables_max (uidTables4 acc)) (subtables_max (uidTables6 acc))\<rparr>;
          s4 = (ca_ipv4 acc)\<lparr>
            maxRangeRulesPerBucket := maxRangeBucket4 acc,
            ctUidsTotal := card (uidUsesCt4 acc),
            subtablesTotal := subtables_sum (uidTables4 acc),
            maxSubtablesPerUid := subtables_max (uidTables4 acc)\<rparr>;
          s6 = (ca_ipv6 acc)\<lparr>
            maxRangeRulesPerBucket := maxRangeBucket6 acc,
            ctUidsTotal := card (uidUsesCt6 acc),
            subtablesTotal := subtables_sum (uidTables6 acc),
            maxSubtablesPerUid := subtables_max (uidTables6 acc)\<rparr>;
          issues = report_issues s s4 s6
      in \<lparr>rep_summary = s, rep_ipv4 = s4, rep_ipv6 = s6,
          rep_recommended = \<lparr>lim_maxRulesTotal = kRecommendedMaxRulesTotal,
             lim_maxSubtablesPerUid = kRecommendedMaxSubtablesPerUid,
             lim_maxRangeRulesPerBucket = kRecommendedMaxRangeRulesPerBucket\<rparr>,
          rep_hard = \<lparr>lim_maxRulesTotal = kHardMaxRulesTotal,
             lim_maxSubtablesPerUid = kHardMaxSubtablesPerUid,
             lim_maxRangeRulesPerBucket = kHardMaxRangeRulesPerBucket\<rparr>,
          rep_warnings = snd issues, rep_violations = fst issues\<rparr>)"

section \<open>compile\<close>

definition compile_acc :: "RulesMap \<Rightarrow> CompileAcc" where
  "compile_acc rules = fold (\<lambda>p. compile_rule (snd p)) rules emptyAcc"

definition compile_snapshot :: "RulesMap \<Rightarrow> u64 \<Rightarrow> Snapshot" where
  "compile_snapshot rules epoch =
     (let acc = compile_acc rules in
      \<lparr>snap_rulesEpoch = epoch,
       byUid = build_views (uidUsesCt4 acc) (uidTables4 acc),
       byUid6 = build_views (uidUsesCt6 acc) (uidTables6 acc)\<rparr>)"

definition compile :: "RulesMap \<Rightarrow> u64 \<Rightarrow> Snapshot \<times> PreflightReport" where
  "compile rules epoch = (compile_snapshot rules epoch, make_report (compile_acc rules))"

end
