(* ===== verification/IpRulesClassifier.thy ===== *)
theory IpRulesClassifier
  imports IpRulesCompile
begin

text \<open>
  Correctness of the compiled classifier. The tuple-space search (subtables by mask signature,
  buckets by masked key, early exits on the subtable's maximal priority) is compared with a linear
  scan over the active rules: the locale \<open>tuple_space\<close> states what the search needs of the
  matcher and of the key functions, proves the equivalence once for both decision classes, and is
  interpreted on the IPv4 and the IPv6 functions of the model.
\<close>

section \<open>Grouping folds over ordered association lists\<close>

lemma omap_wf_fold_upd: "omap_wf m \<Longrightarrow> omap_wf (fold (\<lambda>x. omap_upd (f x) d (g x)) xs m)"
  by (induction xs arbitrary: m) simp_all

lemma map_of_fold_upd:
  "omap_wf m \<Longrightarrow>
   map_of (fold (\<lambda>x. omap_upd (f x) d (g x)) xs m) k =
     (if filter (\<lambda>x. f x = k) xs = [] then map_of m k
      else Some (fold g (filter (\<lambda>x. f x = k) xs) (case map_of m k of None \<Rightarrow> d | Some v \<Rightarrow> v)))"
proof (induction xs arbitrary: m)
  case Nil
  then show ?case by simp
next
  case (Cons x xs)
  have "map_of (omap_upd (f x) d (g x) m) k =
      (if f x = k then Some (g x (case map_of m k of None \<Rightarrow> d | Some v \<Rightarrow> v)) else map_of m k)"
    using Cons.prems by (auto simp: omap_simps)
  then show ?case using Cons.IH [of "omap_upd (f x) d (g x) m"] Cons.prems by auto
qed

section \<open>Selection inside a bucket\<close>

definition ref_range :: "'c RuleRef \<Rightarrow> bool" where
  "ref_range r \<longleftrightarrow> port_isRange (rr_sport r) \<or> port_isRange (rr_dport r)"

definition rule_key :: "'c RuleRef \<Rightarrow> int \<times> u32" where
  "rule_key r = (- sint (rr_priority r), rr_ruleId r)"

definition bucket_key :: "'c RuleRef \<Rightarrow> int \<times> bool \<times> u32" where
  "bucket_key r = (- sint (rr_priority r), ref_range r, rr_ruleId r)"

lemma ruleLess_key: "ruleLess = (\<lambda>a b. rule_key a < rule_key b)"
  by (auto simp: fun_eq_iff ruleLess_def rule_key_def i32_less_def less_prod_def'
           dest: signed_word_eqI)

lemma std_sort_ruleLess: "std_sort ruleLess xs = sort_key rule_key xs"
  unfolding ruleLess_key by (rule std_sort_eq_sort_key)

lemma sorted_ruleLess: "sorted (map rule_key (std_sort ruleLess xs))"
  by (simp add: std_sort_ruleLess)

lemma scan_above_find: "scan_above p m xs = find m (takeWhile (\<lambda>c. i32_less p (rr_priority c)) xs)"
  by (induction xs) auto

lemma find_first_sorted:
  assumes "sorted (map f xs)" and "find m xs = Some c" and "y \<in> set xs" and "m y"
  shows "f c \<le> f y"
  using assms by (induction xs) (auto split: if_splits)

lemma takeWhile_sorted_priority:
  assumes "sorted (map rule_key xs)" and "x \<in> set xs" and "i32_less p (rr_priority x)"
  shows "x \<in> set (takeWhile (\<lambda>c. i32_less p (rr_priority c)) xs)"
  using assms by (induction xs) (auto simp: rule_key_def i32_less_def less_eq_prod_def)

lemma find_None_all: "find m xs = None \<longleftrightarrow> (\<forall>x \<in> set xs. \<not> m x)"
  by (auto simp: find_None_iff)

lemma find_Some_mem: "find m xs = Some c \<Longrightarrow> c \<in> set xs \<and> m c"
  by (induction xs) (auto split: if_splits)

lemma find_takeWhile: "find m (takeWhile P xs) = Some c \<Longrightarrow> find m xs = Some c"
  by (induction xs) (auto split: if_splits)

lemma rule_key_le_bucket:
  "rule_key c \<le> rule_key y \<Longrightarrow> ref_range c = ref_range y \<Longrightarrow> bucket_key c \<le> bucket_key y"
  by (auto simp: rule_key_def bucket_key_def less_eq_prod_def)

lemma bucket_best_least:
  assumes es: "sorted (map rule_key es)" "\<forall>e \<in> set es. \<not> ref_range e"
    and gs: "sorted (map rule_key gs)" "\<forall>g \<in> set gs. ref_range g"
    and uniform: "\<forall>e \<in> set es. \<forall>e' \<in> set es. m e = m e'"
  shows "case bucket_best m es gs of
           None \<Rightarrow> \<forall>x \<in> set es \<union> set gs. \<not> m x
         | Some r \<Rightarrow> r \<in> set es \<union> set gs \<and> m r \<and> (\<forall>y \<in> set es \<union> set gs. m y \<longrightarrow> bucket_key r \<le> bucket_key y)"
proof (cases "\<exists>e es'. es = e # es' \<and> m e")
  case False
  then have none: "\<forall>e \<in> set es. \<not> m e"
    using uniform by (cases es) auto
  then have best: "bucket_best m es gs = find m gs"
    by (cases es) (auto simp: bucket_best_def)
  show ?thesis
  proof (cases "find m gs")
    case None
    then have "\<forall>g \<in> set gs. \<not> m g" by (simp add: find_None_all)
    moreover have "bucket_best m es gs = None" using best None by simp
    ultimately show ?thesis using none by auto
  next
    case (Some c)
    then show ?thesis
      using none best find_Some_mem [OF Some] find_first_sorted [OF gs(1) Some] gs(2)
      by (auto intro!: rule_key_le_bucket)
  qed
next
  case True
  then obtain e es' where e: "es = e # es'" "m e" by blast
  let ?hi = "takeWhile (\<lambda>c. i32_less (rr_priority e) (rr_priority c)) gs"
  have least_e: "bucket_key e \<le> bucket_key y" if "y \<in> set es" for y
    using that es e by (auto intro!: rule_key_le_bucket)
  have best: "bucket_best m es gs = (case find m ?hi of Some c \<Rightarrow> Some c | None \<Rightarrow> Some e)"
    using e by (simp add: bucket_best_def scan_above_find)
  show ?thesis
  proof (cases "find m ?hi")
    case None
    have "bucket_key e \<le> bucket_key y" if y: "y \<in> set gs" "m y" for y
    proof -
      have "\<not> i32_less (rr_priority e) (rr_priority y)"
        using None takeWhile_sorted_priority [OF gs(1) y(1)] y(2) by (auto simp: find_None_all)
      then show ?thesis
        using es(2) gs(2) e(1) y(1) by (auto simp: bucket_key_def i32_less_def less_eq_prod_def)
    qed
    then show ?thesis using None best e least_e by auto
  next
    case (Some c)
    from find_Some_mem [OF Some] have c: "c \<in> set gs" "m c" "i32_less (rr_priority e) (rr_priority c)"
      by (auto dest: set_takeWhileD)
    have "find m gs = Some c"
      using Some by (rule find_takeWhile)
    then have gmin: "bucket_key c \<le> bucket_key y" if "y \<in> set gs" "m y" for y
      using that find_first_sorted [OF gs(1)] gs(2) c(1) by (auto intro!: rule_key_le_bucket)
    have "bucket_key c \<le> bucket_key e"
      using c(3) by (auto simp: bucket_key_def i32_less_def less_eq_prod_def)
    then have "bucket_key c \<le> bucket_key y" if "y \<in> set es" for y
      using least_e [OF that] by (rule order_trans)
    with gmin c Some best show ?thesis by auto
  qed
qed

section \<open>The loop over the subtables\<close>

definition better :: "'c RuleRef option \<Rightarrow> 'c RuleRef option \<Rightarrow> 'c RuleRef option" where
  "better best c =
     (case c of
        None \<Rightarrow> best
      | Some r \<Rightarrow> (case best of None \<Rightarrow> Some r
                   | Some b \<Rightarrow> if i32_less (rr_priority b) (rr_priority r) then Some r else best))"

lemma better_simps [simp]:
  "better best None = best"
  "better None c = c"
  "better (Some b) (Some r) = (if i32_less (rr_priority b) (rr_priority r) then Some r else Some b)"
  by (auto simp: better_def split: option.splits)

lemma foldl_better_keep:
  assumes "\<forall>c \<in> set cs. case c of None \<Rightarrow> True | Some r \<Rightarrow> \<not> i32_less (rr_priority b) (rr_priority r)"
  shows "foldl better (Some b) cs = Some b"
  using assms by (induction cs) (auto simp: better_def split: option.splits)

lemma foldl_better_none: "\<forall>c \<in> set cs. c = None \<Longrightarrow> foldl better best cs = best"
  by (induction cs arbitrary: best) (simp_all add: better_def)

text \<open>Neither early exit of the loop changes its result.\<close>

lemma lookup_loop_foldl:
  assumes "sorted_wrt (\<lambda>a b. sint (maxp b) \<le> sint (maxp a)) sts"
    and "\<forall>st \<in> set sts. \<forall>r. cand st = Some r \<longrightarrow> sint (rr_priority r) \<le> sint (maxp st)"
    and "\<forall>st \<in> set sts. maxp st = kNoPriority \<longrightarrow> cand st = None"
  shows "lookup_loop maxp cand sts best = foldl better best (map cand sts)"
  using assms
proof (induction sts arbitrary: best)
  case Nil
  then show ?case by simp
next
  case (Cons st sts)
  consider "maxp st = kNoPriority"
    | b where "maxp st \<noteq> kNoPriority" "best = Some b" "i32_less (maxp st) (rr_priority b)"
    | "maxp st \<noteq> kNoPriority" "\<forall>b. best = Some b \<longrightarrow> \<not> i32_less (maxp st) (rr_priority b)"
    by (cases best) auto
  then show ?case
  proof cases
    case 1
    have "maxp s = kNoPriority" if "s \<in> set sts" for s
      using Cons.prems(1) that 1 i32_lower [of "maxp s"] by (auto simp: eq_kNoPriority_iff)
    with Cons.prems(3) 1 have "\<forall>c \<in> set (map cand (st # sts)). c = None" by auto
    then have "foldl better best (map cand (st # sts)) = best"
      by (rule foldl_better_none)
    with 1 show ?thesis by simp
  next
    case (2 b)
    have "\<not> i32_less (rr_priority b) (rr_priority r)" if "cand s = Some r" "s \<in> set (st # sts)" for s r
      using Cons.prems(1,2) that 2(3) by (fastforce simp: i32_less_def)
    then have "foldl better (Some b) (map cand (st # sts)) = Some b"
      by (intro foldl_better_keep) (auto split: option.splits)
    with 2 show ?thesis by simp
  next
    case 3
    with Cons show ?thesis by (auto simp: better_def split: option.splits)
  qed
qed

text \<open>Folding \<open>better\<close> keeps the first candidate of the greatest priority.\<close>

lemma foldl_better_first:
  "case foldl better best cs of
     None \<Rightarrow> best = None \<and> (\<forall>c \<in> set cs. c = None)
   | Some r \<Rightarrow> \<exists>ys zs. best # cs = ys @ Some r # zs \<and>
                (\<forall>y. Some y \<in> set ys \<longrightarrow> sint (rr_priority y) < sint (rr_priority r)) \<and>
                (\<forall>z. Some z \<in> set zs \<longrightarrow> sint (rr_priority z) \<le> sint (rr_priority r))"
proof (induction cs rule: rev_induct)
  case Nil
  have "[Some r] = [] @ Some r # []" for r :: "'a RuleRef" by simp
  then show ?case by (cases best) (fastforce intro: exI [of _ "[]"])+
next
  case (snoc c cs)
  show ?case
  proof (cases "foldl better best cs")
    case None
    with snoc have "best = None" "\<forall>c \<in> set cs. c = None" by auto
    then show ?thesis using None
      by (cases c) (simp_all, rule exI [of _ "None # cs"], rule exI [of _ "[]"], auto)
  next
    case (Some r)
    with snoc obtain ys zs where split: "best # cs = ys @ Some r # zs"
      "\<forall>y. Some y \<in> set ys \<longrightarrow> sint (rr_priority y) < sint (rr_priority r)"
      "\<forall>z. Some z \<in> set zs \<longrightarrow> sint (rr_priority z) \<le> sint (rr_priority r)" by auto
    show ?thesis
    proof (cases "\<exists>n. c = Some n \<and> sint (rr_priority r) < sint (rr_priority n)")
      case True
      then obtain n where n: "c = Some n" "sint (rr_priority r) < sint (rr_priority n)" by blast
      have "\<forall>y. Some y \<in> set (best # cs) \<longrightarrow> sint (rr_priority y) < sint (rr_priority n)"
        using split n(2) by fastforce
      then show ?thesis using Some n
        by (simp add: i32_less_def) (rule exI [of _ "best # cs"], rule exI [of _ "[]"], auto)
    next
      case False
      then have "foldl better best (cs @ [c]) = Some r"
        using Some by (cases c) (auto simp: i32_less_def)
      moreover have "best # cs @ [c] = ys @ Some r # (zs @ [c])" using split(1) by simp
      ultimately show ?thesis using False split
        by simp (rule exI [of _ ys], rule exI [of _ "zs @ [c]"], auto)
    qed
  qed
qed

section \<open>Closed forms of the folded tables\<close>

definition ref_bucket :: "'c RuleRef list \<Rightarrow> 'c Bucket" where
  "ref_bucket rs =
     \<lparr>exactEnforce = filter (\<lambda>r. rr_enforce r \<and> \<not> ref_range r) rs,
      rangeEnforce = filter (\<lambda>r. rr_enforce r \<and> ref_range r) rs,
      exactWould = filter (\<lambda>r. \<not> rr_enforce r \<and> \<not> ref_range r) rs,
      rangeWould = filter (\<lambda>r. \<not> rr_enforce r \<and> ref_range r) rs\<rparr>"

definition prio_max :: "'c RuleRef list \<Rightarrow> i32" where
  "prio_max rs = fold (\<lambda>r m. i32_max m (rr_priority r)) rs kNoPriority"

lemma ref_bucket_snoc: "bucket_add (ref_range r) r (ref_bucket rs) = ref_bucket (rs @ [r])"
  by (simp add: ref_bucket_def bucket_add_def)

lemma ref_bucket_Nil [simp]: "ref_bucket [] = emptyBucket"
  by (simp add: ref_bucket_def emptyBucket_def)

lemma prio_max_snoc: "prio_max (rs @ [r]) = i32_max (prio_max rs) (rr_priority r)"
  by (simp add: prio_max_def)

lemma prio_max_ge: "r \<in> set rs \<Longrightarrow> sint (rr_priority r) \<le> sint (prio_max rs)"
  by (induction rs rule: rev_induct) (auto simp: prio_max_snoc sint_i32_max)

lemma prio_max_mem: "prio_max rs = kNoPriority \<or> (\<exists>r \<in> set rs. prio_max rs = rr_priority r)"
  by (induction rs rule: rev_induct) (auto simp: prio_max_snoc i32_max_def prio_max_def)

lemma prio_max_none: "prio_max rs = kNoPriority \<Longrightarrow> r \<in> set rs \<Longrightarrow> rr_priority r = kNoPriority"
  using prio_max_ge [of r rs] i32_lower [of "rr_priority r"] by (simp add: eq_kNoPriority_iff)

lemma map_sort_key: "map g (sort_key (\<lambda>x. f (g x)) xs) = sort_key f (map g xs)"
proof -
  have ins: "map g (insort_key (\<lambda>x. f (g x)) x ys) = insort_key f (g x) (map g ys)" for x ys
    by (induction ys) auto
  show ?thesis by (induction xs) (simp_all add: ins)
qed

definition order_key :: "(('ip, 'c) Subtable \<Rightarrow> i32) \<Rightarrow> ('ip, 'c) Subtable \<Rightarrow> int \<times> MaskSig" where
  "order_key maxp st = (- sint (maxp st), st_sig st)"

lemma order_less_key: "order_less maxp sts = (\<lambda>a b. order_key maxp (sts ! a) < order_key maxp (sts ! b))"
  by (auto simp: fun_eq_iff order_less_def order_key_def Let_def i32_less_def less_MaskSig_def
      less_prod_def' dest: signed_word_eqI)

lemma ordered_subtables:
  "map (\<lambda>i. sts ! i) (std_sort (order_less maxp sts) [0..<length sts]) = sort_key (order_key maxp) sts"
  unfolding order_less_key std_sort_eq_sort_key
  by (subst map_sort_key) (simp add: map_nth)

text \<open>The two decision classes share their proofs through a flag: enforced rules or
  would-block rules.\<close>

definition class_max :: "bool \<Rightarrow> ('ip, 'c) Subtable \<Rightarrow> i32" where
  "class_max e = (if e then maxEnforcePriority else maxWouldPriority)"

definition class_best :: "bool \<Rightarrow> ('c RuleRef \<Rightarrow> bool) \<Rightarrow> 'c Bucket \<Rightarrow> 'c RuleRef option" where
  "class_best e = (if e then bestEnforce else bestWould)"

definition class_order :: "bool \<Rightarrow> ('ip, 'c) UidView \<Rightarrow> nat list" where
  "class_order e = (if e then enforceOrder else wouldOrder)"

lemma class_best_ref_bucket:
  "class_best e m (sortAll (ref_bucket rs)) =
     bucket_best m (std_sort ruleLess (filter (\<lambda>r. rr_enforce r = e \<and> \<not> ref_range r) rs))
                   (std_sort ruleLess (filter (\<lambda>r. rr_enforce r = e \<and> ref_range r) rs))"
  by (cases e) (simp_all add: class_best_def bestEnforce_def bestWould_def sortAll_def ref_bucket_def)

lemma view_order:
  "map (\<lambda>i. subtables (build_view b sm) ! i) (class_order e (build_view b sm)) =
     sort_key (order_key (class_max e)) (map (\<lambda>p. sort_buckets (snd p)) sm)"
  by (cases e) (simp_all add: build_view_def Let_def class_order_def class_max_def
      ordered_subtables [of "map (\<lambda>p. sort_buckets (snd p)) sm", simplified])

lemma map_of_map_views: "map_of (map (\<lambda>(u, x). (u, f u x)) m) u = map_option (f u) (map_of m u)"
  by (induction m) auto

text \<open>The order in which the search prefers matching rules: priority, then the maximal priority of
  the rule's subtable, then the subtable's signature, then exact before range ports, then rule
  id.\<close>

definition sub_max :: "('c RuleRef \<Rightarrow> MaskSig) \<Rightarrow> bool \<Rightarrow> 'c RuleRef list \<Rightarrow> 'c RuleRef \<Rightarrow> i32" where
  "sub_max sig_of e refs r =
     prio_max (filter (\<lambda>x. rr_uid x = rr_uid r \<and> rr_enforce x = e \<and> sig_of x = sig_of r) refs)"

definition win_key :: "('c RuleRef \<Rightarrow> MaskSig) \<Rightarrow> bool \<Rightarrow> 'c RuleRef list \<Rightarrow> 'c RuleRef \<Rightarrow> int \<times> int \<times> MaskSig \<times> bool \<times> u32" where
  "win_key sig_of e refs r =
     (- sint (rr_priority r), - sint (sub_max sig_of e refs r), sig_of r, ref_range r, rr_ruleId r)"

text \<open>The reference semantics: scan all rules of the class that match and take the least.\<close>

definition scan_best ::
  "('c RuleRef \<Rightarrow> MaskSig) \<Rightarrow> bool \<Rightarrow> ('c RuleRef \<Rightarrow> bool) \<Rightarrow> 'c RuleRef list \<Rightarrow> 'c RuleRef option" where
  "scan_best sig_of e m refs =
     first_min (win_key sig_of e refs) (filter (\<lambda>r. rr_enforce r = e \<and> m r) refs)"

locale tuple_space =
  fixes matches :: "'c RuleRef \<Rightarrow> 'ip PacketKey \<Rightarrow> bool"
    and pkey :: "MaskSig \<Rightarrow> 'ip PacketKey \<Rightarrow> 'ip MaskedKey"
    and sig_of :: "'c RuleRef \<Rightarrow> MaskSig"
    and key_of :: "'c RuleRef \<Rightarrow> 'ip MaskedKey"
    and good :: "'c RuleRef \<Rightarrow> bool"
    and key_ok :: "'ip PacketKey \<Rightarrow> bool"
  assumes match_uid: "matches r k \<Longrightarrow> rr_uid r = k_uid k"
    and match_key: "good r \<Longrightarrow> key_ok k \<Longrightarrow> matches r k \<Longrightarrow> pkey (sig_of r) k = key_of r"
    and exact_uniform: "good r \<Longrightarrow> good r' \<Longrightarrow> key_ok k \<Longrightarrow> \<not> ref_range r \<Longrightarrow> \<not> ref_range r' \<Longrightarrow>
           rr_uid r = rr_uid r' \<Longrightarrow> sig_of r = sig_of r' \<Longrightarrow> key_of r = key_of r' \<Longrightarrow>
           matches r k = matches r' k"
begin

definition add_ref :: "'c RuleRef \<Rightarrow> ('ip, 'c) Subtable \<Rightarrow> ('ip, 'c) Subtable" where
  "add_ref r = subtable_add (sig_of r) (key_of r) (ref_range r) r"

definition fill :: "'c RuleRef list \<Rightarrow> ('ip, 'c) tables" where
  "fill refs = fold (\<lambda>r. tables_add (sig_of r) (key_of r) (ref_range r) r) refs []"

definition sub_of :: "'c RuleRef list \<Rightarrow> MaskSig \<Rightarrow> ('ip, 'c) Subtable" where
  "sub_of rs sg = fold add_ref (filter (\<lambda>r. sig_of r = sg) rs) emptySubtable"

definition sub_map :: "'c RuleRef list \<Rightarrow> (MaskSig, ('ip, 'c) Subtable) omap" where
  "sub_map rs = fold (\<lambda>r. omap_upd (sig_of r) emptySubtable (add_ref r)) rs []"

lemma fill_eq: "fill refs = fold (\<lambda>r. omap_upd (rr_uid r) [] (omap_upd (sig_of r) emptySubtable (add_ref r))) refs []"
  by (simp add: fill_def tables_add_def [abs_def] add_ref_def)

lemma fill_wf: "omap_wf (fill refs)"
  unfolding fill_eq by (rule omap_wf_fold_upd) simp

lemma map_of_fill:
  "map_of (fill refs) uid =
     (if filter (\<lambda>r. rr_uid r = uid) refs = [] then None
      else Some (sub_map (filter (\<lambda>r. rr_uid r = uid) refs)))"
  by (simp add: fill_eq map_of_fold_upd sub_map_def)

lemma sub_map_wf: "omap_wf (sub_map rs)"
  unfolding sub_map_def by (rule omap_wf_fold_upd) simp

lemma map_of_sub_map:
  "map_of (sub_map rs) sg =
     (if filter (\<lambda>r. sig_of r = sg) rs = [] then None else Some (sub_of rs sg))"
  by (simp add: sub_map_def map_of_fold_upd sub_of_def)

lemma fold_add_ref:
  assumes "rs \<noteq> []" and "\<forall>r \<in> set rs. sig_of r = sg"
  shows "fold add_ref rs emptySubtable =
    \<lparr>st_sig = sg,
     maxEnforcePriority = prio_max (filter rr_enforce rs),
     maxWouldPriority = prio_max (filter (\<lambda>r. \<not> rr_enforce r) rs),
     st_buckets = (\<lambda>mk. if filter (\<lambda>r. key_of r = mk) rs = [] then None
                        else Some (ref_bucket (filter (\<lambda>r. key_of r = mk) rs)))\<rparr>"
  using assms
proof (induction rs rule: rev_induct)
  case Nil
  then show ?case by simp
next
  case (snoc r rs)
  show ?case
  proof (cases "rs = []")
    case True
    with snoc.prems show ?thesis
      using ref_bucket_snoc [of r "[]"]
      by (auto simp: add_ref_def subtable_add_def emptySubtable_def prio_max_def fun_eq_iff)
  next
    case False
    with snoc show ?thesis
      by (auto simp: add_ref_def subtable_add_def prio_max_snoc ref_bucket_snoc fun_eq_iff
          ref_bucket_snoc [of r "[]", simplified])
  qed
qed

lemma class_max_sub_of:
  "filter (\<lambda>r. sig_of r = sg) rs \<noteq> [] \<Longrightarrow>
   class_max e (sub_of rs sg) = prio_max (filter (\<lambda>r. rr_enforce r = e \<and> sig_of r = sg) rs)"
  unfolding sub_of_def by (subst fold_add_ref [where sg = sg]) (auto simp: class_max_def conj_commute)

lemma st_sig_sub_of: "filter (\<lambda>r. sig_of r = sg) rs \<noteq> [] \<Longrightarrow> st_sig (sub_of rs sg) = sg"
  unfolding sub_of_def by (subst fold_add_ref [where sg = sg]) auto

lemma st_buckets_sub_of:
  "st_buckets (sub_of rs sg) mk =
     (if filter (\<lambda>r. sig_of r = sg \<and> key_of r = mk) rs = [] then None
      else Some (ref_bucket (filter (\<lambda>r. sig_of r = sg \<and> key_of r = mk) rs)))"
proof (cases "filter (\<lambda>r. sig_of r = sg) rs = []")
  case True
  then have "filter (\<lambda>r. sig_of r = sg \<and> key_of r = mk) rs = []" by (auto simp: filter_empty_conv)
  with True show ?thesis by (simp add: sub_of_def emptySubtable_def)
next
  case False
  then show ?thesis
    unfolding sub_of_def by (subst fold_add_ref [where sg = sg]) (auto simp: filter_empty_conv)
qed

text \<open>The candidate a packet finds in the subtable of a signature.\<close>

definition cand :: "bool \<Rightarrow> 'ip PacketKey \<Rightarrow> ('ip, 'c) Subtable \<Rightarrow> 'c RuleRef option" where
  "cand e k st =
     (case st_buckets st (pkey (st_sig st) k) of None \<Rightarrow> None | Some b \<Rightarrow> class_best e (\<lambda>r. matches r k) b)"

lemma cand_least:
  assumes good: "\<forall>r \<in> set rs. good r \<and> rr_uid r = k_uid k" and ok: "key_ok k"
    and sg: "filter (\<lambda>r. sig_of r = sg) rs \<noteq> []"
  shows "case cand e k (sort_buckets (sub_of rs sg)) of
      None \<Rightarrow> \<forall>y \<in> set rs. sig_of y = sg \<and> rr_enforce y = e \<longrightarrow> \<not> matches y k
    | Some r \<Rightarrow> r \<in> set rs \<and> sig_of r = sg \<and> rr_enforce r = e \<and> matches r k \<and>
        (\<forall>y \<in> set rs. sig_of y = sg \<and> rr_enforce y = e \<and> matches y k \<longrightarrow> bucket_key r \<le> bucket_key y)"
proof -
  let ?mk = "pkey sg k"
  define bs where "bs = filter (\<lambda>r. sig_of r = sg \<and> key_of r = ?mk) rs"
  define es where "es = std_sort ruleLess (filter (\<lambda>r. rr_enforce r = e \<and> \<not> ref_range r) bs)"
  define gs where "gs = std_sort ruleLess (filter (\<lambda>r. rr_enforce r = e \<and> ref_range r) bs)"
  have in_bs: "y \<in> set bs" if "y \<in> set rs" "sig_of y = sg" "matches y k" for y
    using that good ok match_key [of y k] by (auto simp: bs_def)
  have elems: "set es \<union> set gs = {y \<in> set bs. rr_enforce y = e}" by (auto simp: es_def gs_def)
  have cand_eq: "cand e k (sort_buckets (sub_of rs sg)) =
      (if bs = [] then None else bucket_best (\<lambda>r. matches r k) es gs)"
    using sg by (simp add: cand_def sort_buckets_def st_sig_sub_of st_buckets_sub_of
        class_best_ref_bucket bs_def es_def gs_def)
  have least: "case bucket_best (\<lambda>r. matches r k) es gs of
           None \<Rightarrow> \<forall>x \<in> set es \<union> set gs. \<not> matches x k
         | Some r \<Rightarrow> r \<in> set es \<union> set gs \<and> matches r k \<and>
             (\<forall>y \<in> set es \<union> set gs. matches y k \<longrightarrow> bucket_key r \<le> bucket_key y)"
  proof (rule bucket_best_least)
    show "sorted (map rule_key es)" "sorted (map rule_key gs)"
      unfolding es_def gs_def by (rule sorted_ruleLess)+
    show "\<forall>x \<in> set es. \<not> ref_range x" "\<forall>g \<in> set gs. ref_range g"
      by (auto simp: es_def gs_def)
    show "\<forall>a \<in> set es. \<forall>b \<in> set es. matches a k = matches b k"
      using good ok by (intro ballI exact_uniform) (auto simp: es_def bs_def)
  qed
  show ?thesis
  proof (cases "cand e k (sort_buckets (sub_of rs sg))")
    case None
    have "\<not> matches y k" if y: "y \<in> set rs" "sig_of y = sg" "rr_enforce y = e" for y
    proof
      assume m: "matches y k"
      then have "y \<in> set bs" using y in_bs by blast
      moreover from this have "bucket_best (\<lambda>r. matches r k) es gs = None"
        using None by (auto simp: cand_eq split: if_splits)
      ultimately show False using least y(3) m unfolding elems by simp
    qed
    then show ?thesis by (simp add: None)
  next
    case (Some r)
    then have best: "bucket_best (\<lambda>r. matches r k) es gs = Some r" by (simp add: cand_eq split: if_splits)
    from least have r: "r \<in> set bs" "rr_enforce r = e" "matches r k"
      and min: "\<forall>y \<in> set bs. rr_enforce y = e \<longrightarrow> matches y k \<longrightarrow> bucket_key r \<le> bucket_key y"
      unfolding best elems by simp_all
    have "r \<in> set rs" "sig_of r = sg" using r(1) by (simp_all add: bs_def)
    then show ?thesis using r min in_bs by (simp add: Some)
  qed
qed

definition search :: "u32 set \<Rightarrow> bool \<Rightarrow> 'c RuleRef list \<Rightarrow> 'ip PacketKey \<Rightarrow> 'c RuleRef option" where
  "search ct e refs k =
     (case build_views ct (fill refs) (k_uid k) of
        None \<Rightarrow> None
      | Some view \<Rightarrow> view_lookup (class_max e) (class_best e (\<lambda>r. matches r k)) (\<lambda>sg. pkey sg k)
                       view (class_order e view))"

lemma search_eq:
  "search ct e refs k =
     (let rs = filter (\<lambda>r. rr_uid r = k_uid k) refs in
      lookup_loop (class_max e) (cand e k)
        (sort_key (order_key (class_max e)) (map (\<lambda>p. sort_buckets (snd p)) (sub_map rs))) None)"
proof -
  have views: "build_views ct (fill refs) (k_uid k) =
      map_option (build_view (k_uid k \<in> ct)) (map_of (fill refs) (k_uid k))"
    unfolding build_views_def by (rule map_of_map_views)
  show ?thesis
    unfolding search_def views map_of_fill
    by (simp add: Let_def view_lookup_def view_order cand_def [abs_def] sub_map_def)
qed

lemma subtable_cases:
  assumes "st \<in> set (map (\<lambda>p. sort_buckets (snd p)) (sub_map rs))"
  obtains sg where "filter (\<lambda>r. sig_of r = sg) rs \<noteq> []" "st = sort_buckets (sub_of rs sg)"
    "st_sig st = sg"
    "class_max e st = prio_max (filter (\<lambda>r. rr_enforce r = e \<and> sig_of r = sg) rs)"
proof -
  from assms obtain sg s where "(sg, s) \<in> set (sub_map rs)" "st = sort_buckets s" by auto
  then have sg: "filter (\<lambda>r. sig_of r = sg) rs \<noteq> []" "s = sub_of rs sg"
    using sub_map_wf [of rs] by (auto simp: omap_in_set_iff map_of_sub_map split: if_splits)
  moreover have "class_max e (sort_buckets (sub_of rs sg)) = class_max e (sub_of rs sg)"
    by (simp add: class_max_def sort_buckets_def)
  ultimately show ?thesis
    using that \<open>st = sort_buckets s\<close> by (simp add: class_max_sub_of st_sig_sub_of sort_buckets_def)
qed

lemma subtable_exists:
  assumes "r \<in> set rs"
  shows "sort_buckets (sub_of rs (sig_of r)) \<in> set (map (\<lambda>p. sort_buckets (snd p)) (sub_map rs))"
proof -
  have "map_of (sub_map rs) (sig_of r) = Some (sub_of rs (sig_of r))"
    using assms by (auto simp: map_of_sub_map filter_empty_conv)
  then have "(sig_of r, sub_of rs (sig_of r)) \<in> set (sub_map rs)" by (rule map_of_SomeD)
  then show ?thesis by force
qed

lemma distinct_sigs: "distinct (map st_sig (map (\<lambda>p. sort_buckets (snd p)) (sub_map rs)))"
proof -
  have "map st_sig (map (\<lambda>p. sort_buckets (snd p)) (sub_map rs)) = map fst (sub_map rs)"
    using sub_map_wf [of rs]
    by (auto simp: omap_in_set_iff map_of_sub_map sort_buckets_def st_sig_sub_of split: if_splits)
  then show ?thesis using omap_wf_distinct [OF sub_map_wf [of rs]] by (simp only:)
qed

lemma search_foldl:
  assumes good: "\<forall>r \<in> set refs. good r" and ok: "key_ok k"
    and prio: "\<forall>r \<in> set refs. rr_priority r \<noteq> kNoPriority"
    and rs: "rs = filter (\<lambda>r. rr_uid r = k_uid k) refs"
    and sts: "sts = sort_key (order_key (class_max e)) (map (\<lambda>p. sort_buckets (snd p)) (sub_map rs))"
  shows "search ct e refs k = foldl better None (map (cand e k) sts)"
proof -
  have good': "\<forall>r \<in> set rs. good r \<and> rr_uid r = k_uid k" using good by (simp add: rs)
  have cand: "sint (rr_priority r) \<le> sint (class_max e st) \<and> class_max e st \<noteq> kNoPriority"
    if "st \<in> set sts" and c: "cand e k st = Some r" for st r
  proof -
    have mem: "st \<in> set (map (\<lambda>p. sort_buckets (snd p)) (sub_map rs))" using that sts by simp
    from subtable_cases [OF mem, of e] obtain sg where sg: "filter (\<lambda>r. sig_of r = sg) rs \<noteq> []"
      "st = sort_buckets (sub_of rs sg)"
      "class_max e st = prio_max (filter (\<lambda>r. rr_enforce r = e \<and> sig_of r = sg) rs)" by blast
    have r: "r \<in> set (filter (\<lambda>r. rr_enforce r = e \<and> sig_of r = sg) rs)"
      using cand_least [OF good' ok sg(1), of e] c by (simp add: sg(2))
    moreover have "rr_priority r \<noteq> kNoPriority" using r prio by (simp add: rs)
    ultimately show ?thesis using prio_max_ge prio_max_none sg(3) by metis
  qed
  have "sorted (map (order_key (class_max e)) sts)" by (simp add: sts)
  then have "sorted_wrt (\<lambda>a b. sint (class_max e b) \<le> sint (class_max e a)) sts"
    unfolding sorted_map by (rule sorted_wrt_mono_rel [rotated]) (auto simp: order_key_def less_eq_prod_def)
  then have "lookup_loop (class_max e) (cand e k) sts None = foldl better None (map (cand e k) sts)"
  proof (rule lookup_loop_foldl)
    show "\<forall>st \<in> set sts. \<forall>r. cand e k st = Some r \<longrightarrow> sint (rr_priority r) \<le> sint (class_max e st)"
      using cand by blast
    show "\<forall>st \<in> set sts. class_max e st = kNoPriority \<longrightarrow> cand e k st = None"
      using cand by (metis not_Some_eq)
  qed
  then show ?thesis by (simp add: search_eq Let_def rs sts)
qed

theorem search_least:
  assumes good: "\<forall>r \<in> set refs. good r" and ok: "key_ok k"
    and prio: "\<forall>r \<in> set refs. rr_priority r \<noteq> kNoPriority"
  shows "case search ct e refs k of
      None \<Rightarrow> \<forall>y \<in> set refs. rr_enforce y = e \<longrightarrow> \<not> matches y k
    | Some r \<Rightarrow> r \<in> set refs \<and> rr_enforce r = e \<and> matches r k \<and>
        (\<forall>y \<in> set refs. rr_enforce y = e \<and> matches y k \<longrightarrow> win_key sig_of e refs r \<le> win_key sig_of e refs y)"
proof -
  define rs where "rs = filter (\<lambda>r. rr_uid r = k_uid k) refs"
  define sts where "sts = sort_key (order_key (class_max e)) (map (\<lambda>p. sort_buckets (snd p)) (sub_map rs))"
  define T where "T = (\<lambda>r. sort_buckets (sub_of rs (sig_of r)))"
  have good': "\<forall>r \<in> set rs. good r \<and> rr_uid r = k_uid k" using good by (simp add: rs_def)
  note res = search_foldl [OF good ok prio rs_def sts_def, of ct]
  have sorted: "sorted (map (order_key (class_max e)) sts)" by (simp add: sts_def)
  have T: "T r \<in> set sts" if "r \<in> set rs" for r using subtable_exists [OF that] by (simp add: sts_def T_def)
  have nonempty: "filter (\<lambda>x. sig_of x = sig_of r) rs \<noteq> []" if "r \<in> set rs" for r
    using that by (auto simp: filter_empty_conv)
  have key: "order_key (class_max e) (T r) = (- sint (sub_max sig_of e refs r), sig_of r)" if "r \<in> set rs" for r
  proof -
    have "class_max e (T r) = class_max e (sub_of rs (sig_of r))" by (simp add: T_def class_max_def sort_buckets_def)
    then have "class_max e (T r) = sub_max sig_of e refs r"
      using that class_max_sub_of [OF nonempty [OF that]]
      by (simp add: sub_max_def rs_def conj_commute)
    then show ?thesis using st_sig_sub_of [OF nonempty [OF that]]
      by (simp add: order_key_def T_def sort_buckets_def)
  qed
  have least: "case cand e k (T x) of
      None \<Rightarrow> \<forall>y \<in> set rs. sig_of y = sig_of x \<and> rr_enforce y = e \<longrightarrow> \<not> matches y k
    | Some r \<Rightarrow> r \<in> set rs \<and> sig_of r = sig_of x \<and> rr_enforce r = e \<and> matches r k \<and>
        (\<forall>y \<in> set rs. sig_of y = sig_of x \<and> rr_enforce y = e \<and> matches y k \<longrightarrow> bucket_key r \<le> bucket_key y)"
    if "x \<in> set rs" for x
    unfolding T_def by (rule cand_least [OF good' ok nonempty [OF that]])
  have in_rs: "y \<in> set rs" if "y \<in> set refs" "matches y k" for y
    using that match_uid by (simp add: rs_def)
  have is_T: "\<exists>x \<in> set rs. st = T x" if "st \<in> set sts" for st
  proof -
    have "st \<in> set (map (\<lambda>p. sort_buckets (snd p)) (sub_map rs))" using that by (simp add: sts_def)
    from subtable_cases [OF this, of e] obtain sg where "filter (\<lambda>r. sig_of r = sg) rs \<noteq> []"
      "st = sort_buckets (sub_of rs sg)" by blast
    then show ?thesis by (auto simp: T_def filter_empty_conv)
  qed
  show ?thesis
  proof (cases "search ct e refs k")
    case None
    then have none: "\<forall>st \<in> set sts. cand e k st = None"
      using foldl_better_first [of None "map (cand e k) sts"] res by simp
    have "\<not> matches y k" if "y \<in> set refs" "rr_enforce y = e" for y
      using that none T [of y] least [of y] in_rs [of y] by auto
    then show ?thesis by (simp add: None)
  next
    case (Some r)
    then obtain ys zs where "None # map (cand e k) sts = ys @ Some r # zs"
      and before: "\<forall>y. Some y \<in> set ys \<longrightarrow> sint (rr_priority y) < sint (rr_priority r)"
      and after: "\<forall>z. Some z \<in> set zs \<longrightarrow> sint (rr_priority z) \<le> sint (rr_priority r)"
      using foldl_better_first [of None "map (cand e k) sts"] res by auto
    then obtain as st bs where split: "sts = as @ st # bs" "cand e k st = Some r"
      and ys: "ys = None # map (cand e k) as" "zs = map (cand e k) bs"
      by (auto simp: Cons_eq_append_conv map_eq_append_conv)
    obtain x where x: "x \<in> set rs" "st = T x" using is_T [of st] split(1) by auto
    have r: "r \<in> set rs" "sig_of r = sig_of x" "rr_enforce r = e" "matches r k"
      and rmin: "\<forall>y \<in> set rs. sig_of y = sig_of x \<and> rr_enforce y = e \<and> matches y k \<longrightarrow> bucket_key r \<le> bucket_key y"
      using least [OF x(1)] split(2) x(2) by simp_all
    have Tr: "T r = st" using r(2) x(2) by (simp add: T_def)
    have "win_key sig_of e refs r \<le> win_key sig_of e refs y" if y0: "y \<in> set refs" "rr_enforce y = e" "matches y k" for y
    proof -
      have y: "y \<in> set rs" using y0 in_rs by blast
      obtain c where c: "cand e k (T y) = Some c" "bucket_key c \<le> bucket_key y"
        using least [OF y] y y0(2,3) by (cases "cand e k (T y)") auto
      have pc: "sint (rr_priority y) \<le> sint (rr_priority c)"
        using c(2) by (auto simp: bucket_key_def less_eq_prod_def)
      consider "T y \<in> set as" | "sig_of y = sig_of r" | "T y \<in> set bs" "sig_of y \<noteq> sig_of r"
        using T [OF y] split(1) Tr key [OF y] key [OF r(1)] by auto
      then show ?thesis
      proof cases
        case 1
        then have "Some c \<in> set ys" using c(1) ys(1) by (force simp: image_iff)
        then have "sint (rr_priority y) < sint (rr_priority r)" using before pc by fastforce
        then show ?thesis by (simp add: win_key_def less_eq_prod_def)
      next
        case 2
        then have "bucket_key r \<le> bucket_key y" using rmin r(2) y y0 by simp
        moreover have "sub_max sig_of e refs y = sub_max sig_of e refs r"
          using 2 y r(1) by (simp add: sub_max_def rs_def)
        ultimately show ?thesis using 2 by (auto simp: win_key_def bucket_key_def less_eq_prod_def)
      next
        case 3
        then have "Some c \<in> set zs" using c(1) ys(2) by (force simp: image_iff)
        then have "sint (rr_priority y) \<le> sint (rr_priority r)" using after pc by fastforce
        moreover have "order_key (class_max e) st \<le> order_key (class_max e) (T y)"
          using sorted 3(1) by (auto simp: split(1) sorted_append)
        ultimately show ?thesis using 3(2) key [OF y] key [OF r(1)] Tr
          by (auto simp: win_key_def less_eq_prod_def)
      qed
    qed
    then show ?thesis using r by (simp add: Some rs_def)
  qed
qed

text \<open>The search is the linear scan for the least key among the matching rules of the class.\<close>

theorem search_scan_best:
  assumes "\<forall>r \<in> set refs. good r" and "key_ok k"
    and "\<forall>r \<in> set refs. rr_priority r \<noteq> kNoPriority" and inj: "inj_on rr_ruleId (set refs)"
  shows "search ct e refs k = scan_best sig_of e (\<lambda>r. matches r k) refs"
proof -
  note least = search_least [OF assms(1-3), where ct = ct and e = e]
  have inj': "inj_on (win_key sig_of e refs) (set (filter (\<lambda>r. rr_enforce r = e \<and> matches r k) refs))"
    using inj by (auto simp: inj_on_def win_key_def)
  show ?thesis
  proof (cases "search ct e refs k")
    case None
    then have "filter (\<lambda>r. rr_enforce r = e \<and> matches r k) refs = []"
      using least by (auto simp: filter_empty_conv)
    then show ?thesis by (simp add: None scan_best_def first_min_def)
  next
    case (Some r)
    then have "first_min (win_key sig_of e refs) (filter (\<lambda>r. rr_enforce r = e \<and> matches r k) refs) = Some r"
      unfolding first_min_Some_iff [OF inj'] using least by simp
    then show ?thesis by (simp add: Some scan_best_def)
  qed
qed

lemma fill_append_one: "fill (refs @ [r]) = tables_add (sig_of r) (key_of r) (ref_range r) r (fill refs)"
  by (simp add: fill_def)

end

section \<open>Signatures and keys of references\<close>

definition ref_sig :: "('c \<Rightarrow> u8) \<Rightarrow> 'c RuleRef \<Rightarrow> MaskSig" where
  "ref_sig pfx r = MaskSig
     (rr_dir r \<noteq> Dir_ANY) (rr_iface r \<noteq> Iface_ANY) (rr_ifindex r \<noteq> 0) (rr_proto r \<noteq> Proto_ANY)
     (rr_ctState r \<noteq> Ct_ANY) (rr_ctDir r \<noteq> CtDir_ANY) (pfx (rr_src r)) (pfx (rr_dst r))
     (port_kind (rr_sport r) = Port_EXACT) (port_kind (rr_dport r) = Port_EXACT)"

definition ref_mkey :: "('c \<Rightarrow> 'ip) \<Rightarrow> 'c RuleRef \<Rightarrow> 'ip MaskedKey" where
  "ref_mkey net r =
     \<lparr>mk_dir = (if rr_dir r \<noteq> Dir_ANY then dirValue (rr_dir r) else 0),
      mk_ifaceKind = (if rr_iface r \<noteq> Iface_ANY then iface_u8 (rr_iface r) else 0),
      mk_proto = (if rr_proto r \<noteq> Proto_ANY then proto_u8 (rr_proto r) else 0),
      mk_ctState = (if rr_ctState r \<noteq> Ct_ANY then ct_u8 (rr_ctState r) else 0),
      mk_ctDir = (if rr_ctDir r \<noteq> CtDir_ANY then ctdir_u8 (rr_ctDir r) else 0),
      mk_ifindex = rr_ifindex r,
      mk_srcIpMasked = net (rr_src r), mk_dstIpMasked = net (rr_dst r),
      mk_srcPort = (if port_kind (rr_sport r) = Port_EXACT then port_lo (rr_sport r) else 0),
      mk_dstPort = (if port_kind (rr_dport r) = Port_EXACT then port_lo (rr_dport r) else 0)\<rparr>"

definition ref_good :: "('c \<Rightarrow> bool) \<Rightarrow> 'c RuleRef \<Rightarrow> bool" where
  "ref_good cwf r \<longleftrightarrow> rr_dir r \<in> {Dir_ANY, Dir_IN, Dir_OUT} \<and> port_wf (rr_sport r) \<and> port_wf (rr_dport r) \<and>
     cwf (rr_src r) \<and> cwf (rr_dst r)"

definition pfx4 :: "CidrV4 \<Rightarrow> u8" where "pfx4 c = (if c4_any c then 255 else c4_prefix c)"
definition pfx6 :: "CidrV6 \<Rightarrow> u8" where "pfx6 c = (if c6_any c then 255 else c6_prefix c)"

definition net4 :: "CidrV4 \<Rightarrow> u32" where
  "net4 c = (if pfx4 c = 255 then 0 else c4_addr c AND maskFromPrefix (pfx4 c))"
definition net6 :: "CidrV6 \<Rightarrow> ip6" where
  "net6 c = (if pfx6 c = 255 then replicate 16 0 else maskIpV6 (c6_addr c) (pfx6 c))"

lemma exact_ports: "\<not> ref_range r \<Longrightarrow> ref_good cwf r \<Longrightarrow>
    port_kind (rr_sport r) \<in> {Port_ANY, Port_EXACT} \<and> port_kind (rr_dport r) \<in> {Port_ANY, Port_EXACT}"
  by (auto simp: ref_range_def ref_good_def port_wf_def port_isRange_def)

lemma if_False_conj: "(if b then False else c) \<longleftrightarrow> \<not> b \<and> c"
  by simp

lemma ref_matches_conj:
  "ref_matches cm r k \<longleftrightarrow> rr_uid r = k_uid k \<and>
     (k_portsAvailable k = 0 \<longrightarrow> port_isAny (rr_sport r) \<and> port_isAny (rr_dport r)) \<and>
     ((rr_dir r = Dir_IN \<longrightarrow> k_dir k = 0) \<and> (rr_dir r = Dir_OUT \<longrightarrow> k_dir k = 1)) \<and>
     (rr_iface r \<noteq> Iface_ANY \<longrightarrow> k_ifaceKind k = iface_u8 (rr_iface r)) \<and>
     (rr_ifindex r \<noteq> 0 \<longrightarrow> k_ifindex k = rr_ifindex r) \<and>
     (rr_proto r \<noteq> Proto_ANY \<longrightarrow> k_proto k = proto_u8 (rr_proto r)) \<and>
     (rr_ctState r \<noteq> Ct_ANY \<longrightarrow> k_ctState k = ct_u8 (rr_ctState r)) \<and>
     (rr_ctDir r \<noteq> CtDir_ANY \<longrightarrow> k_ctDir k = ctdir_u8 (rr_ctDir r)) \<and>
     cm (rr_src r) (k_srcIp k) \<and> cm (rr_dst r) (k_dstIp k) \<and>
     port_matches (rr_sport r) (k_srcPort k) \<and> port_matches (rr_dport r) (k_dstPort k)"
  unfolding ref_matches_def if_False_conj by (simp add: disj_imp)

text \<open>What remains of a match inside one bucket when no port range is involved.\<close>

lemma exact_match_iff:
  assumes "\<not> ref_range r" and "ref_good cwf r"
    and src: "cm (rr_src r) (k_srcIp k) \<longleftrightarrow> Ps (pfx (rr_src r)) (net (rr_src r))"
    and dst: "cm (rr_dst r) (k_dstIp k) \<longleftrightarrow> Pd (pfx (rr_dst r)) (net (rr_dst r))"
  shows "ref_matches cm r k \<longleftrightarrow> rr_uid r = k_uid k \<and>
    (let s = ref_sig pfx r; m = ref_mkey net r in
     (k_portsAvailable k = 0 \<longrightarrow> \<not> sig_sportExact s \<and> \<not> sig_dportExact s) \<and>
     (sig_dir s \<longrightarrow> k_dir k = mk_dir m) \<and> (sig_iface s \<longrightarrow> k_ifaceKind k = mk_ifaceKind m) \<and>
     (sig_ifindex s \<longrightarrow> k_ifindex k = mk_ifindex m) \<and> (sig_proto s \<longrightarrow> k_proto k = mk_proto m) \<and>
     (sig_ctState s \<longrightarrow> k_ctState k = mk_ctState m) \<and> (sig_ctDir s \<longrightarrow> k_ctDir k = mk_ctDir m) \<and>
     Ps (sig_srcPrefix s) (mk_srcIpMasked m) \<and> Pd (sig_dstPrefix s) (mk_dstIpMasked m) \<and>
     (sig_sportExact s \<longrightarrow> k_srcPort k = mk_srcPort m) \<and> (sig_dportExact s \<longrightarrow> k_dstPort k = mk_dstPort m))"
proof -
  have dir: "(rr_dir r = Dir_IN \<longrightarrow> k_dir k = 0) \<and> (rr_dir r = Dir_OUT \<longrightarrow> k_dir k = 1) \<longleftrightarrow>
      (rr_dir r \<noteq> Dir_ANY \<longrightarrow> k_dir k = dirValue (rr_dir r))"
    using assms(2) by (auto simp: ref_good_def dirValue_def)
  have ports: "port_matches p x \<longleftrightarrow> (port_kind p = Port_EXACT \<longrightarrow> x = port_lo p)"
    "port_isAny p \<longleftrightarrow> port_kind p \<noteq> Port_EXACT" if "port_kind p \<in> {Port_ANY, Port_EXACT}" for p x
    using that by (auto simp: port_matches_def port_isAny_def)
  show ?thesis
    unfolding ref_matches_conj dir src dst
    using exact_ports [OF assms(1,2)] by (simp add: ref_sig_def ref_mkey_def Let_def ports)
qed

lemma match_mkey:
  assumes "ref_matches cm r k" and "ref_good cwf r"
    and "cm (rr_src r) (k_srcIp k) \<Longrightarrow> cwf (rr_src r) \<Longrightarrow> fs = net (rr_src r)"
    and "cm (rr_dst r) (k_dstIp k) \<Longrightarrow> cwf (rr_dst r) \<Longrightarrow> fd = net (rr_dst r)"
  shows "\<lparr>mk_dir = (if sig_dir (ref_sig pfx r) then k_dir k else 0),
      mk_ifaceKind = (if sig_iface (ref_sig pfx r) then k_ifaceKind k else 0),
      mk_proto = (if sig_proto (ref_sig pfx r) then k_proto k else 0),
      mk_ctState = (if sig_ctState (ref_sig pfx r) then k_ctState k else 0),
      mk_ctDir = (if sig_ctDir (ref_sig pfx r) then k_ctDir k else 0),
      mk_ifindex = (if sig_ifindex (ref_sig pfx r) then k_ifindex k else 0),
      mk_srcIpMasked = fs, mk_dstIpMasked = fd,
      mk_srcPort = (if sig_sportExact (ref_sig pfx r) then k_srcPort k else 0),
      mk_dstPort = (if sig_dportExact (ref_sig pfx r) then k_dstPort k else 0)\<rparr> = ref_mkey net r"
proof -
  have "port_matches p x \<Longrightarrow> port_kind p = Port_EXACT \<Longrightarrow> x = port_lo p" for p x
    by (simp add: port_matches_def)
  then show ?thesis
    using assms unfolding ref_matches_conj ref_good_def
    by (auto simp: ref_sig_def ref_mkey_def dirValue_def)
qed

section \<open>IPv4\<close>

lemma cidrV4_matches_net:
  assumes "cidr4_wf c"
  shows "cidrV4_matches c ip \<longleftrightarrow> pfx4 c = 255 \<or> ip AND maskFromPrefix (pfx4 c) = net4 c"
proof (cases "c4_any c")
  case True
  then show ?thesis by (simp add: cidrV4_matches_def pfx4_def)
next
  case False
  with assms have "c4_prefix c \<noteq> 255" by (auto simp: cidr4_wf_def)
  with False show ?thesis by (simp add: cidrV4_matches_def cidrV4_mask_def pfx4_def net4_def Let_def)
qed

interpretation ts4: tuple_space matchesV4 maskedKeyFromPacket "ref_sig pfx4" "ref_mkey net4"
  "ref_good cidr4_wf" "\<lambda>_. True"
proof
  fix r r' and k :: PacketKeyV4
  show "rr_uid r = k_uid k" if "matchesV4 r k"
    using that by (simp add: matchesV4_def ref_matches_conj)
  show "maskedKeyFromPacket (ref_sig pfx4 r) k = ref_mkey net4 r"
    if "ref_good cidr4_wf r" "True" "matchesV4 r k"
    unfolding maskedKeyFromPacket_def
    by (rule match_mkey [OF that(3) [unfolded matchesV4_def] that(1)])
       (auto simp: cidrV4_matches_net ref_sig_def net4_def)
  show "matchesV4 r k = matchesV4 r' k"
    if g: "ref_good cidr4_wf r" "ref_good cidr4_wf r'" "True" "\<not> ref_range r" "\<not> ref_range r'"
      and eq: "rr_uid r = rr_uid r'" "ref_sig pfx4 r = ref_sig pfx4 r'" "ref_mkey net4 r = ref_mkey net4 r'"
  proof -
    have wf: "cidr4_wf (rr_src r)" "cidr4_wf (rr_dst r)" "cidr4_wf (rr_src r')" "cidr4_wf (rr_dst r')"
      using g by (auto simp: ref_good_def)
    note ex = exact_match_iff [where cm = cidrV4_matches and pfx = pfx4 and net = net4 and k = k and
      Ps = "\<lambda>p n. p = 255 \<or> k_srcIp k AND maskFromPrefix p = n" and
      Pd = "\<lambda>p n. p = 255 \<or> k_dstIp k AND maskFromPrefix p = n",
      OF _ _ cidrV4_matches_net cidrV4_matches_net]
    show ?thesis
      unfolding matchesV4_def ex [OF g(4,1) wf(1,2)] ex [OF g(5,2) wf(3,4)] eq ..
  qed
qed

section \<open>IPv6\<close>

text \<open>The masking of the source written byte by byte.\<close>

definition mask_byte :: "nat \<Rightarrow> nat \<Rightarrow> u8 \<Rightarrow> u8" where
  "mask_byte p i b =
     (if i < p div 8 then b else if i = p div 8 \<and> p mod 8 \<noteq> 0 then b AND rem_mask (p mod 8) else 0)"

lemma maskIpV6_nth:
  assumes "length ip = 16" and "p \<le> 128" and "i < 16"
  shows "maskIpV6 ip p ! i = mask_byte (unat p) i (ip ! i)"
proof -
  have "unat p \<le> 128" using assms(2) by (simp add: word_le_nat_alt)
  have p0: "p = 0 \<longleftrightarrow> unat p = 0" by (simp add: unat_eq_0)
  have p128: "128 \<le> p \<longleftrightarrow> 128 \<le> unat p" by (simp add: word_le_nat_alt)
  show ?thesis
  proof (cases "p = 0 \<or> 128 \<le> p")
    case True
    then show ?thesis using assms \<open>unat p \<le> 128\<close>
      by (auto simp: maskIpV6_def mask_byte_def p128)
  next
    case False
    then have "unat p div 8 < 16" using p128 by auto
    with False assms show ?thesis
      by (auto simp: maskIpV6_def mask_byte_def Let_def nth_list_update)
  qed
qed

lemma length_maskIpV6 [simp]: "length ip = 16 \<Longrightarrow> length (maskIpV6 ip p) = 16"
  by (simp add: maskIpV6_def Let_def)

lemma maskIpV6_eq_iff:
  assumes "length ip = 16" "length ip' = 16" "p \<le> 128"
  shows "maskIpV6 ip p = maskIpV6 ip' p \<longleftrightarrow>
    (\<forall>i < 16. mask_byte (unat p) i (ip ! i) = mask_byte (unat p) i (ip' ! i))"
  using assms by (auto simp: list_eq_iff_nth_eq maskIpV6_nth)

lemma mask_bytes_iff:
  "(\<forall>i < 16. mask_byte p i (a ! i) = mask_byte p i (b ! i)) \<longleftrightarrow>
   (\<forall>i < p div 8. i < 16 \<longrightarrow> a ! i = b ! i) \<and>
   (p mod 8 \<noteq> 0 \<and> p div 8 < 16 \<longrightarrow> a ! (p div 8) AND rem_mask (p mod 8) = b ! (p div 8) AND rem_mask (p mod 8))"
  (is "?L \<longleftrightarrow> ?R")
proof
  assume L: ?L
  have "a ! i = b ! i" if "i < p div 8" "i < 16" for i
    using L [rule_format, OF that(2)] that(1) by (simp add: mask_byte_def)
  moreover have "a ! (p div 8) AND rem_mask (p mod 8) = b ! (p div 8) AND rem_mask (p mod 8)"
    if "p mod 8 \<noteq> 0" "p div 8 < 16"
    using L [rule_format, OF that(2)] that(1) by (simp add: mask_byte_def)
  ultimately show ?R by blast
next
  assume ?R
  then show ?L by (simp add: mask_byte_def)
qed

lemma cidrV6_matches_net:
  assumes "cidr6_wf c" and "length ip = 16"
  shows "cidrV6_matches c ip \<longleftrightarrow> pfx6 c = 255 \<or> maskIpV6 ip (pfx6 c) = net6 c"
proof (cases "c6_any c")
  case True
  then show ?thesis by (simp add: cidrV6_matches_def pfx6_def)
next
  case False
  then have p: "c6_prefix c \<le> 128" and len: "length (c6_addr c) = 16" using assms by (auto simp: cidr6_wf_def)
  have n: "unat (c6_prefix c) \<le> 128" using p by (simp add: word_le_nat_alt)
  have ne: "c6_prefix c \<noteq> 255" using p by auto
  have "cidrV6_matches c ip \<longleftrightarrow>
    (\<forall>i < 16. mask_byte (unat (c6_prefix c)) i (ip ! i) = mask_byte (unat (c6_prefix c)) i (c6_addr c ! i))"
    unfolding mask_bytes_iff
    using False n by (auto simp: cidrV6_matches_def Let_def unat_eq_0 [symmetric])
  then show ?thesis using False ne maskIpV6_eq_iff [OF assms(2) len p]
    by (simp add: pfx6_def net6_def)
qed

interpretation ts6: tuple_space matchesV6 maskedKeyFromPacketV6 "ref_sig pfx6" "ref_mkey net6"
  "ref_good cidr6_wf" "\<lambda>k. length (k_srcIp k) = 16 \<and> length (k_dstIp k) = 16"
proof
  fix r r' and k :: PacketKeyV6
  let ?ok = "length (k_srcIp k) = 16 \<and> length (k_dstIp k) = 16"
  show "rr_uid r = k_uid k" if "matchesV6 r k"
    using that by (simp add: matchesV6_def ref_matches_conj)
  show "maskedKeyFromPacketV6 (ref_sig pfx6 r) k = ref_mkey net6 r"
    if "ref_good cidr6_wf r" ?ok "matchesV6 r k"
    unfolding maskedKeyFromPacketV6_def
    by (rule match_mkey [OF that(3) [unfolded matchesV6_def] that(1)])
       (use that(2) in \<open>auto simp: cidrV6_matches_net ref_sig_def net6_def\<close>)
  show "matchesV6 r k = matchesV6 r' k"
    if g: "ref_good cidr6_wf r" "ref_good cidr6_wf r'" ?ok "\<not> ref_range r" "\<not> ref_range r'"
      and eq: "rr_uid r = rr_uid r'" "ref_sig pfx6 r = ref_sig pfx6 r'" "ref_mkey net6 r = ref_mkey net6 r'"
  proof -
    have wf: "cidr6_wf (rr_src r)" "cidr6_wf (rr_dst r)" "cidr6_wf (rr_src r')" "cidr6_wf (rr_dst r')"
      using g by (auto simp: ref_good_def)
    have len: "length (k_srcIp k) = 16" "length (k_dstIp k) = 16" using g(3) by auto
    note ex = exact_match_iff [where cm = cidrV6_matches and pfx = pfx6 and net = net6 and k = k and
      Ps = "\<lambda>p n. p = 255 \<or> maskIpV6 (k_srcIp k) p = n" and
      Pd = "\<lambda>p n. p = 255 \<or> maskIpV6 (k_dstIp k) p = n",
      OF _ _ cidrV6_matches_net [OF _ len(1)] cidrV6_matches_net [OF _ len(2)]]
    show ?thesis
      unfolding matchesV6_def ex [OF g(4,1) wf(1,2)] ex [OF g(5,2) wf(3,4)] eq ..
  qed
qed

section \<open>From rules to references\<close>

text \<open>The references of the active rules of a family, in rule id order.\<close>

definition active :: "Family \<Rightarrow> u32 \<times> RuleState \<Rightarrow> bool" where
  "active fam p \<longleftrightarrow> rd_enabled (st_def (snd p)) \<and> rd_family (st_def (snd p)) = fam"

definition activeRefs4 :: "RulesMap \<Rightarrow> RuleRefV4 list" where
  "activeRefs4 rules = map (\<lambda>p. makeRefV4 (snd p)) (filter (active IPV4) rules)"

definition activeRefs6 :: "RulesMap \<Rightarrow> RuleRefV6 list" where
  "activeRefs6 rules = map (\<lambda>p. makeRefV6 (snd p)) (filter (active IPV6) rules)"

definition reference_v4 :: "RulesMap \<Rightarrow> PacketKeyV4 \<Rightarrow> Decision" where
  "reference_v4 rules k =
     (let refs = activeRefs4 rules; best = (\<lambda>e. scan_best (ref_sig pfx4) e (\<lambda>r. matchesV4 r k) refs)
      in decide (best True) (best False))"

definition reference_v6 :: "RulesMap \<Rightarrow> PacketKeyV6 \<Rightarrow> Decision" where
  "reference_v6 rules k =
     (let refs = activeRefs6 rules; best = (\<lambda>e. scan_best (ref_sig pfx6) e (\<lambda>r. matchesV6 r k) refs)
      in decide (best True) (best False))"

text \<open>What the engine keeps true of its rule map, as far as the classifier is concerned.\<close>

definition rules_ok :: "RulesMap \<Rightarrow> bool" where
  "rules_ok rules \<longleftrightarrow> omap_wf rules \<and>
     (\<forall>(rid, s) \<in> set rules. rd_ruleId (st_def s) = rid \<and> rule_wf (st_def s))"

definition priorities_ok :: "RulesMap \<Rightarrow> bool" where
  "priorities_ok rules \<longleftrightarrow> (\<forall>(rid, s) \<in> set rules. rd_priority (st_def s) \<noteq> kNoPriority)"

lemma ref_view4:
  "maskSigForRule (st_def s) = ref_sig pfx4 (makeRefV4 s)"
  "maskedKeyFromRule (ref_sig pfx4 (makeRefV4 s)) (st_def s) = ref_mkey net4 (makeRefV4 s)"
  "hasRangePorts (st_def s) = ref_range (makeRefV4 s)"
  by (simp_all add: maskSigForRule_def maskedKeyFromRule_def ref_sig_def ref_mkey_def makeRefV4_def
      Let_def pfx4_def net4_def hasRangePorts_def ref_range_def)

lemma ref_view6:
  "maskSigForRuleV6 (st_def s) = ref_sig pfx6 (makeRefV6 s)"
  "maskedKeyFromRuleV6 (ref_sig pfx6 (makeRefV6 s)) (st_def s) = ref_mkey net6 (makeRefV6 s)"
  "hasRangePorts (st_def s) = ref_range (makeRefV6 s)"
  by (simp_all add: maskSigForRuleV6_def maskedKeyFromRuleV6_def ref_sig_def ref_mkey_def makeRefV6_def
      Let_def pfx6_def net6_def hasRangePorts_def ref_range_def)

lemma compile_acc_snoc: "compile_acc (rules @ [p]) = compile_rule (snd p) (compile_acc rules)"
  by (simp add: compile_acc_def)

lemma uidTables4_compile: "uidTables4 (compile_acc rules) = ts4.fill (activeRefs4 rules)"
  by (induction rules rule: rev_induct)
     (simp_all add: compile_acc_snoc compile_rule_def compile_v4_def compile_v6_def compile_count_def Let_def
        active_def activeRefs4_def ts4.fill_append_one ref_view4,
      simp add: compile_acc_def emptyAcc_def ts4.fill_def)

lemma uidTables6_compile: "uidTables6 (compile_acc rules) = ts6.fill (activeRefs6 rules)"
  by (induction rules rule: rev_induct)
     (simp_all add: compile_acc_snoc compile_rule_def compile_v4_def compile_v6_def compile_count_def Let_def
        active_def activeRefs6_def ts6.fill_append_one ref_view6,
      simp add: compile_acc_def emptyAcc_def ts6.fill_def)

lemma class_simps:
  "class_max True = maxEnforcePriority" "class_max False = maxWouldPriority"
  "class_best True = bestEnforce" "class_best False = bestWould"
  "class_order True = enforceOrder" "class_order False = wouldOrder"
  by (simp_all add: class_max_def class_best_def class_order_def)

lemma lookup_search4:
  "lookupBestEnforce (compile_snapshot rules epoch) k =
     ts4.search (uidUsesCt4 (compile_acc rules)) True (activeRefs4 rules) k"
  "lookupBestWould (compile_snapshot rules epoch) k =
     ts4.search (uidUsesCt4 (compile_acc rules)) False (activeRefs4 rules) k"
  unfolding ts4.search_def class_simps
  by (simp_all add: lookupBestEnforce_def lookupBestWould_def compile_snapshot_def Let_def
      uidTables4_compile)

lemma lookup_search6:
  "lookupBestEnforceV6 (compile_snapshot rules epoch) k =
     ts6.search (uidUsesCt6 (compile_acc rules)) True (activeRefs6 rules) k"
  "lookupBestWouldV6 (compile_snapshot rules epoch) k =
     ts6.search (uidUsesCt6 (compile_acc rules)) False (activeRefs6 rules) k"
  unfolding ts6.search_def class_simps lookupBestEnforceV6_def lookupBestWouldV6_def
    bestEnforceV6_def bestWouldV6_def
  by (simp_all add: compile_snapshot_def Let_def uidTables6_compile)

lemma rules_okD:
  "rules_ok rules \<Longrightarrow> (rid, s) \<in> set rules \<Longrightarrow> rd_ruleId (st_def s) = rid \<and> rule_wf (st_def s)"
  by (auto simp: rules_ok_def)

lemma rules_ok_unique:
  assumes "rules_ok rules" and "(a, s) \<in> set rules" and "(b, t) \<in> set rules"
    and "rd_ruleId (st_def s) = rd_ruleId (st_def t)"
  shows "s = t"
proof -
  have "a = b" using rules_okD [OF assms(1,2)] rules_okD [OF assms(1,3)] assms(4) by simp
  then show ?thesis using assms by (simp add: rules_ok_def omap_in_set_iff)
qed

lemma makeRef_simps [simp]:
  "rr_ruleId (makeRefV4 s) = rd_ruleId (st_def s)" "rr_ruleId (makeRefV6 s) = rd_ruleId (st_def s)"
  "rr_uid (makeRefV4 s) = rd_uid (st_def s)" "rr_uid (makeRefV6 s) = rd_uid (st_def s)"
  "rr_priority (makeRefV4 s) = rd_priority (st_def s)" "rr_priority (makeRefV6 s) = rd_priority (st_def s)"
  "rr_enforce (makeRefV4 s) = rd_enforce (st_def s)" "rr_enforce (makeRefV6 s) = rd_enforce (st_def s)"
  "rr_action (makeRefV4 s) = rd_action (st_def s)" "rr_action (makeRefV6 s) = rd_action (st_def s)"
  "rr_stats (makeRefV4 s) = st_stats s" "rr_stats (makeRefV6 s) = st_stats s"
  by (simp_all add: makeRefV4_def makeRefV6_def Let_def)

lemma set_activeRefs:
  "set (activeRefs4 rules) = makeRefV4 ` {s. \<exists>rid. (rid, s) \<in> set rules \<and> rd_enabled (st_def s) \<and> rd_family (st_def s) = IPV4}"
  "set (activeRefs6 rules) = makeRefV6 ` {s. \<exists>rid. (rid, s) \<in> set rules \<and> rd_enabled (st_def s) \<and> rd_family (st_def s) = IPV6}"
  by (force simp: activeRefs4_def activeRefs6_def active_def)+

lemma refs_ok4:
  assumes "rules_ok rules" and "priorities_ok rules"
  shows "\<forall>r \<in> set (activeRefs4 rules). ref_good cidr4_wf r"
    "\<forall>r \<in> set (activeRefs4 rules). rr_priority r \<noteq> kNoPriority"
    "inj_on rr_ruleId (set (activeRefs4 rules))"
proof -
  show "inj_on rr_ruleId (set (activeRefs4 rules))"
    using rules_ok_unique [OF assms(1)] by (auto simp: inj_on_def activeRefs4_def)
  show "\<forall>r \<in> set (activeRefs4 rules). ref_good cidr4_wf r"
    using assms(1) by (fastforce simp: activeRefs4_def makeRefV4_def Let_def rules_ok_def rule_wf_def ref_good_def)
  show "\<forall>r \<in> set (activeRefs4 rules). rr_priority r \<noteq> kNoPriority"
    using assms(2) by (fastforce simp: activeRefs4_def makeRefV4_def Let_def priorities_ok_def)
qed

lemma refs_ok6:
  assumes "rules_ok rules" and "priorities_ok rules"
  shows "\<forall>r \<in> set (activeRefs6 rules). ref_good cidr6_wf r"
    "\<forall>r \<in> set (activeRefs6 rules). rr_priority r \<noteq> kNoPriority"
    "inj_on rr_ruleId (set (activeRefs6 rules))"
proof -
  show "inj_on rr_ruleId (set (activeRefs6 rules))"
    using rules_ok_unique [OF assms(1)] by (auto simp: inj_on_def activeRefs6_def)
  show "\<forall>r \<in> set (activeRefs6 rules). ref_good cidr6_wf r"
    using assms(1) by (fastforce simp: activeRefs6_def makeRefV6_def Let_def rules_ok_def rule_wf_def ref_good_def)
  show "\<forall>r \<in> set (activeRefs6 rules). rr_priority r \<noteq> kNoPriority"
    using assms(2) by (fastforce simp: activeRefs6_def makeRefV6_def Let_def priorities_ok_def)
qed

lemma evaluate_reference4:
  assumes "rules_ok rules" and "priorities_ok rules"
  shows "snap_evaluate (compile_snapshot rules epoch) k = reference_v4 rules k"
  using refs_ok4 [OF assms]
  by (simp add: snap_evaluate_def lookup_search4 reference_v4_def Let_def ts4.search_scan_best)

lemma evaluate_reference6:
  assumes "rules_ok rules" and "priorities_ok rules"
    and "length (k_srcIp k) = 16" and "length (k_dstIp k) = 16"
  shows "snap_evaluateV6 (compile_snapshot rules epoch) k = reference_v6 rules k"
  using refs_ok6 [OF assms(1,2)] assms(3,4)
  by (simp add: snap_evaluateV6_def lookup_search6 reference_v6_def Let_def ts6.search_scan_best)

section \<open>Consequences for single decisions\<close>

lemma scan_best_None: "scan_best sg e m refs = None \<longleftrightarrow> (\<forall>r \<in> set refs. rr_enforce r = e \<longrightarrow> \<not> m r)"
  by (auto simp: scan_best_def filter_empty_conv)

lemma scan_best_SomeD:
  assumes "scan_best sg e m refs = Some r"
  shows "r \<in> set refs" "rr_enforce r = e" "m r"
    "y \<in> set refs \<Longrightarrow> rr_enforce y = e \<Longrightarrow> m y \<Longrightarrow> sint (rr_priority y) \<le> sint (rr_priority r)"
  using first_min_SomeD [OF assms [unfolded scan_best_def]]
  by (auto simp: win_key_def less_eq_prod_def)

text \<open>A rule of the map applies to a packet: it is enabled, of the packet's family and matches.\<close>

definition applies4 :: "PacketKeyV4 \<Rightarrow> RuleState \<Rightarrow> bool" where
  "applies4 k s \<longleftrightarrow> rd_enabled (st_def s) \<and> rd_family (st_def s) = IPV4 \<and> matchesV4 (makeRefV4 s) k"

definition applies6 :: "PacketKeyV6 \<Rightarrow> RuleState \<Rightarrow> bool" where
  "applies6 k s \<longleftrightarrow> rd_enabled (st_def s) \<and> rd_family (st_def s) = IPV6 \<and> matchesV6 (makeRefV6 s) k"

text \<open>The contract of a decision, independent of the data structure and of the tie break.\<close>

definition decision_spec :: "(RuleState \<Rightarrow> bool) \<Rightarrow> RulesMap \<Rightarrow> Decision \<Rightarrow> bool" where
  "decision_spec app rules d \<longleftrightarrow>
     (let E = {s. \<exists>rid. (rid, s) \<in> set rules \<and> app s \<and> rd_enforce (st_def s)};
          W = {s. \<exists>rid. (rid, s) \<in> set rules \<and> app s \<and> \<not> rd_enforce (st_def s)};
          top = (\<lambda>S s. s \<in> S \<and> (\<forall>t \<in> S. sint (rd_priority (st_def t)) \<le> sint (rd_priority (st_def s))))
      in if E \<noteq> {} then
           (\<exists>s. top E s \<and> d = \<lparr>d_kind = (if rd_action (st_def s) = ALLOW then D_ALLOW else D_BLOCK),
                d_ruleId = rd_ruleId (st_def s), d_stats = Some (st_stats s)\<rparr>)
         else if W \<noteq> {} then
           (\<exists>s. top W s \<and> d = \<lparr>d_kind = WOULD_BLOCK, d_ruleId = rd_ruleId (st_def s), d_stats = Some (st_stats s)\<rparr>)
         else d = noDecision)"

lemma scan_decision_spec:
  assumes refs: "set refs = mk ` {s. \<exists>rid. (rid, s) \<in> set rules \<and> act s}"
    and app: "\<And>s. app s \<longleftrightarrow> act s \<and> m (mk s)"
    and mk: "\<And>s. rr_enforce (mk s) = rd_enforce (st_def s)" "\<And>s. rr_priority (mk s) = rd_priority (st_def s)"
      "\<And>s. rr_action (mk s) = rd_action (st_def s)" "\<And>s. rr_ruleId (mk s) = rd_ruleId (st_def s)"
      "\<And>s. rr_stats (mk s) = st_stats s"
  shows "decision_spec app rules (decide (scan_best sg True m refs) (scan_best sg False m refs))"
proof -
  define C where "C = (\<lambda>e. {s. \<exists>rid. (rid, s) \<in> set rules \<and> app s \<and> rd_enforce (st_def s) = e})"
  have none: "scan_best sg e m refs = None \<longleftrightarrow> C e = {}" for e
    unfolding scan_best_None refs C_def by (auto simp: app mk)
  have some: "\<exists>s. s \<in> C e \<and> r = mk s \<and> (\<forall>t \<in> C e. sint (rd_priority (st_def t)) \<le> sint (rd_priority (st_def s)))"
    if "scan_best sg e m refs = Some r" for e r
  proof -
    from scan_best_SomeD(1) [OF that] obtain s rid where s: "r = mk s" "(rid, s) \<in> set rules" "act s"
      unfolding refs by blast
    then have "s \<in> C e" using scan_best_SomeD(2,3) [OF that] by (auto simp: C_def app mk)
    moreover have "sint (rd_priority (st_def t)) \<le> sint (rd_priority (st_def s))" if "t \<in> C e" for t
      using scan_best_SomeD(4) [OF \<open>scan_best sg e m refs = Some r\<close>, of "mk t"] that s
      unfolding refs C_def by (auto simp: app mk)
    ultimately show ?thesis using s(1) by blast
  qed
  have sets: "C True = {s. \<exists>rid. (rid, s) \<in> set rules \<and> app s \<and> rd_enforce (st_def s)}"
    "C False = {s. \<exists>rid. (rid, s) \<in> set rules \<and> app s \<and> \<not> rd_enforce (st_def s)}"
    by (auto simp: C_def)
  show ?thesis
  proof (cases "scan_best sg True m refs")
    case (Some r)
    with some obtain s where s: "s \<in> C True" "r = mk s"
      "\<forall>t \<in> C True. sint (rd_priority (st_def t)) \<le> sint (rd_priority (st_def s))" by blast
    then have "C True \<noteq> {}" by blast
    with s show ?thesis unfolding decision_spec_def Let_def sets [symmetric]
      by (simp only: if_True not_False_eq_True) (rule exI [of _ s], simp add: decide_def Some mk)
  next
    case None
    then have E: "C True = {}" by (simp add: none)
    show ?thesis
    proof (cases "scan_best sg False m refs")
      case (Some r)
      with some obtain s where s: "s \<in> C False" "r = mk s"
        "\<forall>t \<in> C False. sint (rd_priority (st_def t)) \<le> sint (rd_priority (st_def s))" by blast
      then have "C False \<noteq> {}" by blast
      with s E show ?thesis unfolding decision_spec_def Let_def sets [symmetric]
        by simp (rule exI [of _ s], simp add: decide_def Some None mk)
    next
      case n: None
      then have "C False = {}" by (simp add: none)
      with E show ?thesis unfolding decision_spec_def Let_def sets [symmetric]
        by (simp add: decide_def None n)
    qed
  qed
qed

lemma reference_v4_spec: "decision_spec (applies4 k) rules (reference_v4 rules k)"
  unfolding reference_v4_def Let_def
  by (rule scan_decision_spec [where mk = makeRefV4 and act = "\<lambda>s. rd_enabled (st_def s) \<and> rd_family (st_def s) = IPV4"])
     (simp_all add: set_activeRefs applies4_def)

lemma reference_v6_spec: "decision_spec (applies6 k) rules (reference_v6 rules k)"
  unfolding reference_v6_def Let_def
  by (rule scan_decision_spec [where mk = makeRefV6 and act = "\<lambda>s. rd_enabled (st_def s) \<and> rd_family (st_def s) = IPV6"])
     (simp_all add: set_activeRefs applies6_def)

end
