(* ===== verification/IpRulesDecision.thy ===== *)
theory IpRulesDecision
  imports IpRulesClassifier
begin

text \<open>
  What the preflight report and the counters of \<^verbatim>\<open>compile\<close> say about the classifier that is
  published, and how the reserved priority value behaves.
\<close>

section \<open>Range candidates per bucket\<close>

definition tables_wf :: "('ip, 'c) tables \<Rightarrow> bool" where
  "tables_wf t \<longleftrightarrow> omap_wf t \<and> (\<forall>uid sm. map_of t uid = Some sm \<longrightarrow> omap_wf sm)"

lemma tables_wf_add: "tables_wf t \<Longrightarrow> tables_wf (tables_add sg mk isRange r t)"
  by (auto simp: tables_wf_def tables_add_def omap_simps split: option.splits)

definition subtable_range :: "('ip, 'c) Subtable \<Rightarrow> 'ip MaskedKey \<Rightarrow> nat" where
  "subtable_range st m =
     (case st_buckets st m of None \<Rightarrow> 0 | Some b \<Rightarrow> length (rangeEnforce b) + length (rangeWould b))"

definition submap_range :: "(MaskSig, ('ip, 'c) Subtable) omap \<Rightarrow> MaskSig \<Rightarrow> 'ip MaskedKey \<Rightarrow> nat" where
  "submap_range sm s m = (case map_of sm s of None \<Rightarrow> 0 | Some st \<Rightarrow> subtable_range st m)"

lemma range_size_eq:
  "range_size t u s m = (case map_of t u of None \<Rightarrow> 0 | Some sm \<Rightarrow> submap_range sm s m)"
  unfolding range_size_def submap_range_def subtable_range_def ..

lemma subtable_range_add:
  "subtable_range (subtable_add sg mk isRange r st) m =
     subtable_range st m + (if isRange \<and> m = mk then 1 else 0)"
  by (auto simp: subtable_range_def subtable_add_def bucket_add_def emptyBucket_def split: option.splits)

lemma submap_range_add:
  assumes "omap_wf sm"
  shows "submap_range (omap_upd sg emptySubtable (subtable_add sg mk isRange r) sm) s m =
     submap_range sm s m + (if isRange \<and> s = sg \<and> m = mk then 1 else 0)"
proof -
  have "subtable_range emptySubtable m = 0" by (simp add: subtable_range_def emptySubtable_def)
  then show ?thesis
    using assms by (auto simp: submap_range_def omap_simps subtable_range_add split: option.splits)
qed

lemma range_size_add:
  assumes "tables_wf t"
  shows "range_size (tables_add sg mk isRange r t) u s m =
     range_size t u s m + (if isRange \<and> u = rr_uid r \<and> s = sg \<and> m = mk then 1 else 0)"
proof -
  have "omap_wf t" and "\<And>sm. map_of t u = Some sm \<Longrightarrow> omap_wf sm" using assms by (auto simp: tables_wf_def)
  then show ?thesis
    using submap_range_add [of "[]" sg mk isRange r s m]
    by (cases "map_of t u") (auto simp: range_size_eq tables_add_def map_of_omap_upd submap_range_add
        submap_range_def [of "[]"])
qed

text \<open>The running maximum of \<^verbatim>\<open>compile\<close> bounds every bucket, although it is only updated by the
  rule that is being inserted.\<close>

definition acc_range_ok :: "CompileAcc \<Rightarrow> bool" where
  "acc_range_ok acc \<longleftrightarrow>
     tables_wf (uidTables4 acc) \<and> tables_wf (uidTables6 acc) \<and>
     (\<forall>u s m. range_size (uidTables4 acc) u s m \<le> maxRangeBucket4 acc) \<and>
     (\<forall>u s m. range_size (uidTables6 acc) u s m \<le> maxRangeBucket6 acc)"

lemma range_max_add:
  assumes "tables_wf t" and "\<forall>u s m. range_size t u s m \<le> b" and t': "t' = tables_add sg mk isRange r t"
    and "uid = rr_uid r"
  shows "range_size t' u s m \<le> (if isRange then max b (range_size t' uid sg mk) else b)"
proof -
  have "range_size t u s m \<le> b" using assms(2) by blast
  then show ?thesis
    using range_size_add [OF assms(1), of sg mk isRange r] assms(4) by (auto simp: t' max_def)
qed

lemma acc_range_ok_rule: "acc_range_ok acc \<Longrightarrow> acc_range_ok (compile_rule s acc)"
proof -
  assume ok: "acc_range_ok acc"
  define acc' where "acc' = compile_count (st_def s) acc"
  have ok': "acc_range_ok acc'" using ok by (simp add: acc'_def acc_range_ok_def compile_count_def)
  have "acc_range_ok (compile_v4 s acc')"
    using ok' range_max_add [where t = "uidTables4 acc'" and b = "maxRangeBucket4 acc'", OF _ _ refl]
    by (auto simp: acc_range_ok_def compile_v4_def Let_def tables_wf_add)
  moreover have "acc_range_ok (compile_v6 s acc')"
    using ok' range_max_add [where t = "uidTables6 acc'" and b = "maxRangeBucket6 acc'", OF _ _ refl]
    by (auto simp: acc_range_ok_def compile_v6_def Let_def tables_wf_add)
  ultimately show ?thesis using ok ok' by (simp add: compile_rule_def Let_def acc'_def)
qed

lemma acc_range_ok_compile: "acc_range_ok (compile_acc rules)"
proof (induction rules rule: rev_induct)
  case Nil
  then show ?case
    by (simp add: compile_acc_def emptyAcc_def acc_range_ok_def tables_wf_def range_size_def)
next
  case (snoc p rules)
  then show ?case by (simp add: compile_acc_snoc acc_range_ok_rule)
qed

section \<open>Bounds a successful preflight gives\<close>

lemma check_limit_ok: "fst (check_limit metric v hard rec what) = [] \<longleftrightarrow> v \<le> hard"
  by (simp add: check_limit_def not_less)

lemma report_ok_iff:
  "report_ok (make_report acc) \<longleftrightarrow>
     rulesTotal (ca_summary acc) \<le> kHardMaxRulesTotal \<and>
     rulesTotal (ca_ipv4 acc) \<le> kHardMaxRulesTotal \<and> rulesTotal (ca_ipv6 acc) \<le> kHardMaxRulesTotal \<and>
     subtables_max (uidTables4 acc) \<le> kHardMaxSubtablesPerUid \<and>
     subtables_max (uidTables6 acc) \<le> kHardMaxSubtablesPerUid \<and>
     maxRangeBucket4 acc \<le> kHardMaxRangeRulesPerBucket \<and> maxRangeBucket6 acc \<le> kHardMaxRangeRulesPerBucket"
  unfolding report_ok_def make_report_def report_issues_def Let_def
  by (simp add: check_limit_ok) blast

lemma subtables_max_ge:
  assumes "p \<in> set t"
  shows "length (snd p) \<le> subtables_max t"
proof -
  have "m \<le> fold (\<lambda>p m. max m (length (snd p))) t m \<and>
      (\<forall>p \<in> set t. length (snd p) \<le> fold (\<lambda>p m. max m (length (snd p))) t m)" for m
  proof (induction t arbitrary: m)
    case Nil
    then show ?case by simp
  next
    case (Cons q t)
    from Cons [of "max m (length (snd q))"] show ?case by auto
  qed
  then show ?thesis using assms by (simp add: subtables_max_def)
qed

lemma view_bounds:
  assumes wf: "tables_wf t" and range: "\<forall>u s m. range_size t u s m \<le> b"
    and view: "build_views ct t uid = Some view"
  shows "length (subtables view) \<le> subtables_max t"
    "st \<in> set (subtables view) \<Longrightarrow> st_buckets st mk = Some bk \<Longrightarrow>
       length (rangeEnforce bk) + length (rangeWould bk) \<le> b"
proof -
  from view obtain sm where sm: "map_of t uid = Some sm" and v: "view = build_view (uid \<in> ct) sm"
    unfolding build_views_def map_of_map_views by auto
  show "length (subtables view) \<le> subtables_max t"
    using subtables_max_ge [OF map_of_SomeD [OF sm]] by (simp add: v build_view_def Let_def)
  assume "st \<in> set (subtables view)" and bk: "st_buckets st mk = Some bk"
  then obtain sg s where s: "(sg, s) \<in> set sm" "st = sort_buckets s"
    by (auto simp: v build_view_def Let_def)
  have "map_of sm sg = Some s" using wf sm s(1) by (simp add: tables_wf_def omap_in_set_iff)
  moreover obtain bk0 where "st_buckets s mk = Some bk0" "bk = sortAll bk0"
    using bk s(2) by (auto simp: sort_buckets_def)
  ultimately show "length (rangeEnforce bk) + length (rangeWould bk) \<le> b"
    using range [rule_format, of uid sg mk] sm
    by (simp add: range_size_eq submap_range_def subtable_range_def sortAll_def)
qed

definition view_bounded :: "('ip, 'c) UidView \<Rightarrow> bool" where
  "view_bounded view \<longleftrightarrow> length (subtables view) \<le> 64 \<and>
     (\<forall>st \<in> set (subtables view). \<forall>mk b. st_buckets st mk = Some b \<longrightarrow>
        length (rangeEnforce b) + length (rangeWould b) \<le> 64)"

lemma view_bounded_build:
  assumes "tables_wf t" and "\<forall>u s m. range_size t u s m \<le> b" and "build_views ct t uid = Some view"
    and "subtables_max t \<le> 64" and "b \<le> 64"
  shows "view_bounded view"
  using view_bounds [OF assms(1-3)] assms(4,5) unfolding view_bounded_def by (meson order_trans)

lemma compile_counts:
  "rulesTotal (ca_summary (compile_acc rules)) = length (filter (\<lambda>p. rd_enabled (st_def (snd p))) rules)"
  by (induction rules rule: rev_induct)
     (simp_all add: compile_acc_snoc compile_rule_def compile_v4_def compile_v6_def compile_count_def
        summary_count_def Let_def, simp add: compile_acc_def emptyAcc_def zeroSummary_def)

section \<open>The reserved priority\<close>

lemma lookup_loop_reserved:
  "\<forall>st \<in> set sts. maxp st = kNoPriority \<Longrightarrow> lookup_loop maxp cand sts best = best"
  by (cases sts) auto

lemma prio_max_reserved: "\<forall>r \<in> set rs. rr_priority r = kNoPriority \<Longrightarrow> prio_max rs = kNoPriority"
  using prio_max_mem [of rs] by auto

context tuple_space
begin

lemma search_reserved:
  assumes "\<forall>r \<in> set refs. rr_uid r = k_uid k \<longrightarrow> rr_priority r = kNoPriority"
  shows "search ct e refs k = None"
proof -
  let ?rs = "filter (\<lambda>r. rr_uid r = k_uid k) refs"
  have "class_max e st = kNoPriority"
    if "st \<in> set (map (\<lambda>p. sort_buckets (snd p)) (sub_map ?rs))" for st
  proof -
    from subtable_cases [OF that, of e] obtain sg where
      "class_max e st = prio_max (filter (\<lambda>r. rr_enforce r = e \<and> sig_of r = sg) ?rs)" by blast
    moreover have "prio_max (filter (\<lambda>r. rr_enforce r = e \<and> sig_of r = sg) ?rs) = kNoPriority"
      using assms by (intro prio_max_reserved) auto
    ultimately show ?thesis by simp
  qed
  then show ?thesis by (simp add: search_eq Let_def lookup_loop_reserved)
qed

end

section \<open>Properties\<close>

text \<open>Two IPv4 rules of uid 10001 in different subtables, and a packet both match.\<close>

definition ex_block :: RuleState where
  "ex_block = \<lparr>st_def = rule_default\<lparr>rd_ruleId := 1, rd_uid := 10001, rd_action := BLOCK,
     rd_priority := 10, rd_dst := cidrV4 0x0A000000 8\<rparr>, st_stats = 0\<rparr>"

definition ex_allow :: RuleState where
  "ex_allow = \<lparr>st_def = rule_default\<lparr>rd_ruleId := 2, rd_uid := 10001, rd_action := ALLOW,
     rd_priority := 20, rd_proto := Proto_TCP, rd_dport := port_range 400 500\<rparr>, st_stats = 1\<rparr>"

definition ex_key :: PacketKeyV4 where
  "ex_key = \<lparr>k_uid = 10001, k_dir = 1, k_ifaceKind = 1, k_proto = 6, k_ifindex = 3,
     k_srcIp = 0xC0A80001, k_dstIp = 0x0A010203, k_srcPort = 50000, k_dstPort = 443,
     k_portsAvailable = 1, k_ctState = 1, k_ctDir = 1\<rparr>"

lemma ex_rules_ok: "rules_ok [(1, ex_block), (2, ex_allow)]"
  by (simp add: rules_ok_def omap_wf_def rule_wf_def ex_block_def ex_allow_def rule_default_def port_wf_def
      port_any_def port_range_def cidr4_wf_def cidr6_wf_def anyCidrV4_def anyCidrV6_def zero_ip6_def cidrV4_def)

lemma ex_priorities_ok: "priorities_ok [(1, ex_block), (2, ex_allow)]"
  by (simp add: priorities_ok_def kNoPriority_def ex_block_def ex_allow_def)

definition ex_rule6 :: RuleState where
  "ex_rule6 = \<lparr>st_def = rule_default\<lparr>rd_ruleId := 3, rd_uid := 10001, rd_family := IPV6,
     rd_action := BLOCK, rd_enforce := False, rd_log := True, rd_priority := 5,
     rd_dst6 := cidrV6 (0x20 # 0x01 # replicate 14 0) 12\<rparr>, st_stats = 2\<rparr>"

definition ex_key6 :: PacketKeyV6 where
  "ex_key6 = \<lparr>k_uid = 10001, k_dir = 0, k_ifaceKind = 2, k_proto = 17, k_ifindex = 4,
     k_srcIp = replicate 16 1, k_dstIp = 0x20 # 0x0F # replicate 14 7, k_srcPort = 53, k_dstPort = 53,
     k_portsAvailable = 1, k_ctState = 2, k_ctDir = 2\<rparr>"

lemma ex_rules6_ok: "rules_ok [(3, ex_rule6)]"
  by (simp add: rules_ok_def omap_wf_def rule_wf_def ex_rule6_def rule_default_def port_wf_def
      port_any_def cidr4_wf_def cidr6_wf_def anyCidrV4_def zero_ip6_def cidrV6_def)
     (simp add: anyCidrV6_def zero_ip6_def)

lemma ex_priorities6_ok: "priorities_ok [(3, ex_rule6)]"
  by (simp add: priorities_ok_def kNoPriority_def ex_rule6_def)





text \<open>A decision of the IPv4 classifier satisfies the contract of the decision layer: when an
  enabled, enforced IPv4 rule matches, the decision is the action of one of greatest priority among
  them (would-block rules are not consulted); otherwise a matching would-block rule of greatest
  priority is reported; otherwise there is no match.\<close>

theorem evaluate_v4_decision_spec:
  assumes "rules_ok rules" and "priorities_ok rules"
  shows "decision_spec (applies4 k) rules (snap_evaluate (fst (compile rules epoch)) k)"
  using reference_v4_spec [of k rules] evaluate_reference4 [OF assms, of epoch k]
  by (simp add: compile_def)

theorem evaluate_v4_decision_spec_witness:
  "decision_spec (applies4 ex_key) [(1, ex_block), (2, ex_allow)]
     (snap_evaluate (fst (compile [(1, ex_block), (2, ex_allow)] 7)) ex_key)"
  by (rule evaluate_v4_decision_spec [OF ex_rules_ok ex_priorities_ok])

text \<open>The same contract for the IPv6 classifier.\<close>

theorem evaluate_v6_decision_spec:
  assumes "rules_ok rules" and "priorities_ok rules"
    and "length (k_srcIp k) = 16" and "length (k_dstIp k) = 16"
  shows "decision_spec (applies6 k) rules (snap_evaluateV6 (fst (compile rules epoch)) k)"
  using reference_v6_spec [of k rules] evaluate_reference6 [OF assms, of epoch]
  by (simp add: compile_def)

theorem evaluate_v6_decision_spec_witness:
  "decision_spec (applies6 ex_key6) [(3, ex_rule6)] (snap_evaluateV6 (fst (compile [(3, ex_rule6)] 7)) ex_key6)"
  by (rule evaluate_v6_decision_spec [OF ex_rules6_ok ex_priorities6_ok]) (simp_all add: ex_key6_def)

text \<open>C31. When the preflight report has no violation, the published classifier is within the hard
  limits: at most 5000 enabled rules, per uid and family at most 64 subtables to visit, and in every
  bucket at most 64 range candidates to scan.\<close>

theorem preflight_ok_bounds:
  assumes "report_ok (snd (compile rules epoch))"
  shows "length (filter (\<lambda>p. rd_enabled (st_def (snd p))) rules) \<le> 5000 \<and>
    (\<forall>uid view. byUid (fst (compile rules epoch)) uid = Some view \<longrightarrow> view_bounded view) \<and>
    (\<forall>uid view. byUid6 (fst (compile rules epoch)) uid = Some view \<longrightarrow> view_bounded view)"
proof -
  note ok = assms [unfolded compile_def snd_conv report_ok_iff limit_defs]
  note acc = acc_range_ok_compile [of rules, unfolded acc_range_ok_def]
  have "view_bounded view" if "byUid (fst (compile rules epoch)) uid = Some view" for uid view
    using that acc ok
    by (intro view_bounded_build [where t = "uidTables4 (compile_acc rules)" and b = "maxRangeBucket4 (compile_acc rules)"])
       (simp_all add: compile_def compile_snapshot_def Let_def)
  moreover have "view_bounded view" if "byUid6 (fst (compile rules epoch)) uid = Some view" for uid view
    using that acc ok
    by (intro view_bounded_build [where t = "uidTables6 (compile_acc rules)" and b = "maxRangeBucket6 (compile_acc rules)"])
       (simp_all add: compile_def compile_snapshot_def Let_def)
  ultimately show ?thesis using ok by (simp add: compile_counts)
qed

lemma ex_report_ok: "report_ok (snd (compile [(1, ex_block), (2, ex_allow)] 7))"
  by code_simp

lemma ex_view: "map_option (\<lambda>v. length (subtables v)) (byUid (fst (compile [(1, ex_block), (2, ex_allow)] 7)) 10001) = Some 2"
  by code_simp

theorem preflight_ok_bounds_witness:
  "\<exists>view. byUid (fst (compile [(1, ex_block), (2, ex_allow)] 7)) 10001 = Some view \<and> view_bounded view"
  using preflight_ok_bounds [OF ex_report_ok] ex_view by auto

text \<open>Priority \<open>INT32_MIN\<close> is the engine's marker for "no rule": when every rule of a uid has it
  (the text parser and the validation accept it), no packet of the uid matches anything, even
  though the rules' predicates hold.\<close>

theorem min_priority_never_matches:
  assumes "\<forall>(rid, s) \<in> set rules. rd_uid (st_def s) = k_uid k \<longrightarrow> rd_priority (st_def s) = kNoPriority"
  shows "snap_evaluate (compile_snapshot rules epoch) k = noDecision"
proof -
  have "\<forall>r \<in> set (activeRefs4 rules). rr_uid r = k_uid k \<longrightarrow> rr_priority r = kNoPriority"
    using assms by (fastforce simp: set_activeRefs)
  then show ?thesis
    by (simp add: snap_evaluate_def lookup_search4 ts4.search_reserved decide_def)
qed

definition ex_min :: RuleState where
  "ex_min = \<lparr>st_def = rule_default\<lparr>rd_ruleId := 1, rd_uid := 10001, rd_action := BLOCK,
     rd_priority := 0x80000000\<rparr>, st_stats = 0\<rparr>"

theorem min_priority_never_matches_witness:
  "parsePriority ''-2147483648'' = Some (rd_priority (st_def ex_min)) \<and>
   validateRuleDef (st_def ex_min) = Inr () \<and> applies4 ex_key ex_min \<and>
   snap_evaluate (compile_snapshot [(1, ex_min)] 7) ex_key = noDecision"
proof (intro conjI)
  show "parsePriority ''-2147483648'' = Some (rd_priority (st_def ex_min))"
    by (simp add: parsePriority_def parseDecI32_def digit_val_def Let_def ex_min_def)
  show "validateRuleDef (st_def ex_min) = Inr ()" by code_simp
  show "applies4 ex_key ex_min" by code_simp
  show "snap_evaluate (compile_snapshot [(1, ex_min)] 7) ex_key = noDecision"
    by (rule min_priority_never_matches) (simp add: ex_min_def kNoPriority_def)
qed

definition ex_tie1 :: RuleState where
  "ex_tie1 = \<lparr>st_def = rule_default\<lparr>rd_ruleId := 1, rd_uid := 10001, rd_action := BLOCK,
     rd_priority := 5, rd_proto := Proto_TCP\<rparr>, st_stats = 0\<rparr>"

definition ex_tie2 :: RuleState where
  "ex_tie2 = \<lparr>st_def = rule_default\<lparr>rd_ruleId := 2, rd_uid := 10001, rd_action := ALLOW,
     rd_priority := 5\<rparr>, st_stats = 1\<rparr>"

text \<open>Equal priorities are not resolved by the rule id alone: of two rules with the same priority that
  both match, the one in the subtable that is searched first wins, here the rule with the greater
  id.\<close>

theorem tie_break_not_by_rule_id:
  "applies4 ex_key ex_tie1 \<and> applies4 ex_key ex_tie2 \<and>
   rd_priority (st_def ex_tie1) = rd_priority (st_def ex_tie2) \<and>
   snap_evaluate (compile_snapshot [(1, ex_tie1), (2, ex_tie2)] 1) ex_key =
     \<lparr>d_kind = D_ALLOW, d_ruleId = 2, d_stats = Some 1\<rparr>"
  by code_simp

end
