(* ===== verification/SaverFile.thy ===== *)
theory SaverFile
  imports Prelude
begin

text \<open>
  \<^verbatim>\<open>Saver\<close>: the binary save files of the daemon. Scalars are written in memory order
  (little endian on the supported targets), strings with a 32-bit length that counts the trailing
  NUL. A reader consumes a prefix of the file; \<open>None\<close> is a thrown exception (a short read or
  \<^verbatim>\<open>RestoreException\<close>). The locale \<open>field_codec\<close> is the contract between the writer and the
  reader of a field.
\<close>

section \<open>Bytes of a word\<close>

definition le_bytes :: "nat \<Rightarrow> 'a::len word \<Rightarrow> u8 list" where
  "le_bytes n w = map (\<lambda>i. ucast (drop_bit (8 * i) w)) [0..<n]"

fun le_word :: "u8 list \<Rightarrow> 'a::len word" where
  "le_word [] = 0"
| "le_word (b # bs) = ucast b OR push_bit 8 (le_word bs)"

section \<open>Readers\<close>

type_synonym 'a reader = "u8 list \<Rightarrow> ('a \<times> u8 list) option"

definition rret :: "'a \<Rightarrow> 'a reader" where
  "rret x bs = Some (x, bs)"

definition rfail :: "'a reader" where
  "rfail bs = None"

definition rbind :: "'a reader \<Rightarrow> ('a \<Rightarrow> 'b reader) \<Rightarrow> 'b reader" where
  "rbind r f bs = (case r bs of None \<Rightarrow> None | Some (x, bs') \<Rightarrow> f x bs')"

definition read_bytes :: "nat \<Rightarrow> u8 list reader" where
  "read_bytes n bs = (if length bs < n then None else Some (take n bs, drop n bs))"

definition read_u8 :: "u8 reader" where
  "read_u8 = rbind (read_bytes 1) (\<lambda>b. rret (le_word b))"

definition read_u16 :: "u16 reader" where
  "read_u16 = rbind (read_bytes 2) (\<lambda>b. rret (le_word b))"

definition read_u32 :: "u32 reader" where
  "read_u32 = rbind (read_bytes 4) (\<lambda>b. rret (le_word b))"

definition read_bool :: "bool reader" where
  "read_bool = rbind read_u8 (\<lambda>b. rret (b \<noteq> 0))"

definition byte_char :: "u8 \<Rightarrow> char" where "byte_char b = char_of (unat b)"
definition char_byte :: "char \<Rightarrow> u8" where "char_byte c = of_nat (of_char c)"

definition read_string :: "u32 \<Rightarrow> u32 \<Rightarrow> string reader" where
  "read_string mn mx =
     rbind read_u32 (\<lambda>len.
       if len < mn \<or> len > mx then rfail
       else rbind (read_bytes (unat len - 1)) (\<lambda>tmp.
              rbind read_u8 (\<lambda>term. if term \<noteq> 0 then rfail else rret (map byte_char tmp))))"

section \<open>Writers\<close>

definition write_u8 :: "u8 \<Rightarrow> u8 list" where "write_u8 w = le_bytes 1 w"
definition write_u16 :: "u16 \<Rightarrow> u8 list" where "write_u16 w = le_bytes 2 w"
definition write_u32 :: "u32 \<Rightarrow> u8 list" where "write_u32 w = le_bytes 4 w"
definition write_bool :: "bool \<Rightarrow> u8 list" where "write_bool b = [if b then 1 else 0]"

definition write_string :: "string \<Rightarrow> u8 list" where
  "write_string s = write_u32 (of_nat (length s) + 1) @ map char_byte s @ [0]"

section \<open>The file\<close>

text \<open>\<^verbatim>\<open>Saver::save\<close> writes a temporary file and renames it: when opening, writing, closing or
  renaming fails (\<open>ioOk\<close> is false), the save file keeps its former content.\<close>

definition saver_save :: "bool \<Rightarrow> u8 list \<Rightarrow> u8 list option \<Rightarrow> u8 list option" where
  "saver_save ioOk bytes file = (if ioOk then Some bytes else file)"

text \<open>\<^verbatim>\<open>Saver::restore\<close>: opening fails when there is no file or when the stream is still open
  from an earlier restore (it is never closed); otherwise the callback runs on the content and the
  stream stays open.\<close>

definition saver_restore :: "u8 list option \<Rightarrow> bool \<Rightarrow> u8 list option \<times> bool" where
  "saver_restore file inOpen =
     (if inOpen then (None, True)
      else case file of None \<Rightarrow> (None, False) | Some bytes \<Rightarrow> (Some bytes, True))"

definition saver_remove :: "u8 list option \<Rightarrow> u8 list option" where
  "saver_remove file = None"

section \<open>Codecs\<close>

lemma length_le_bytes [simp]: "length (le_bytes n w) = n"
  by (simp add: le_bytes_def)

lemma le_word_bytes_bit:
  "bit (le_word (map (\<lambda>i. ucast (drop_bit (8 * i) w)) [k..<k + n]) :: 'a::len word) j \<longleftrightarrow>
     j < 8 * n \<and> j < LENGTH('a) \<and> bit (w :: 'a word) (8 * k + j)"
proof (induction n arbitrary: k j)
  case 0
  then show ?case by simp
next
  case (Suc n)
  have split: "[k..<k + Suc n] = k # [Suc k..<Suc k + n]" by (simp add: upt_rec)
  show ?case
    unfolding split list.map le_word.simps
    using Suc.IH [of "Suc k" "j - 8"]
    by (auto simp: bit_simps bit_ucast_iff add.commute add.left_commute dest: bit_imp_le_length)
qed

lemma le_word_bytes:
  assumes "LENGTH('a) = 8 * n"
  shows "le_word (le_bytes n (w :: 'a::len word)) = w"
  using le_word_bytes_bit [of w 0 n]
  by (intro bit_word_eqI) (simp add: le_bytes_def assms)

locale field_codec =
  fixes enc :: "'a \<Rightarrow> u8 list" and dec :: "'a reader" and ok :: "'a \<Rightarrow> bool"
  assumes dec_enc: "ok x \<Longrightarrow> dec (enc x @ rest) = Some (x, rest)"
begin

lemma read_back: "ok x \<Longrightarrow> rbind dec f (enc x @ rest) = f x rest"
  by (simp add: rbind_def dec_enc)

end

lemma read_bytes_append [simp]: "length xs = n \<Longrightarrow> read_bytes n (xs @ rest) = Some (xs, rest)"
  by (simp add: read_bytes_def)

lemma word_codec:
  assumes "LENGTH('a::len) = 8 * n"
  shows "rbind (read_bytes n) (\<lambda>b. rret (le_word b)) (le_bytes n (w :: 'a word) @ rest) = Some (w, rest)"
  by (simp add: rbind_def rret_def le_word_bytes assms)

interpretation u8c: field_codec write_u8 read_u8 "\<lambda>_. True"
  by unfold_locales (simp add: write_u8_def read_u8_def word_codec)

interpretation u16c: field_codec write_u16 read_u16 "\<lambda>_. True"
  by unfold_locales (simp add: write_u16_def read_u16_def word_codec)

interpretation u32c: field_codec write_u32 read_u32 "\<lambda>_. True"
  by unfold_locales (simp add: write_u32_def read_u32_def word_codec)

interpretation boolc: field_codec write_bool read_bool "\<lambda>_. True"
proof
  fix x rest
  have "write_bool x = write_u8 (if x then 1 else 0)" by (simp add: write_bool_def write_u8_def le_bytes_def)
  then show "read_bool (write_bool x @ rest) = Some (x, rest)"
    by (simp add: read_bool_def u8c.read_back rret_def)
qed

interpretation bytesc: field_codec "\<lambda>xs. xs" "read_bytes n" "\<lambda>xs. length xs = n" for n
  by unfold_locales simp

lemma byte_char_byte: "byte_char (char_byte c) = c"
  by (simp add: byte_char_def char_byte_def unat_of_nat)

interpretation stringc: field_codec write_string "read_string mn mx"
  "\<lambda>s. mn \<le> of_nat (length s) + 1 \<and> of_nat (length s) + 1 \<le> mx \<and> length s + 1 < 2 ^ 32" for mn mx
proof
  fix s :: string and rest
  assume ok: "mn \<le> of_nat (length s) + 1 \<and> of_nat (length s) + 1 \<le> mx \<and> length s + 1 < 2 ^ 32"
  have len: "unat (of_nat (length s) + 1 :: u32) = length s + 1"
  proof -
    have "(of_nat (length s) + 1 :: u32) = of_nat (length s + 1)" by simp
    moreover have "(length s + 1) mod 2 ^ 32 = length s + 1" using ok by (intro mod_less) simp
    ultimately show ?thesis by (simp only: unat_of_nat) simp
  qed
  have nul: "0 # rest = write_u8 0 @ rest" by (simp add: write_u8_def le_bytes_def)
  have "rbind read_u8 (\<lambda>term. if term \<noteq> 0 then rfail else rret (map byte_char (map char_byte s))) (0 # rest) =
      Some (s, rest)"
    unfolding nul by (simp add: u8c.read_back rret_def comp_def byte_char_byte)
  moreover have "\<not> of_nat (length s) + 1 < mn" "\<not> mx < of_nat (length s) + 1" using ok by (simp_all add: not_less)
  ultimately show "read_string mn mx (write_string s @ rest) = Some (s, rest)"
    by (simp add: read_string_def write_string_def u32c.read_back len bytesc.read_back)
qed

end
