(* ===== verification/IpRulesStore.thy ===== *)
theory IpRulesStore
  imports IpRulesDecision SaverFile
begin

text \<open>
  The control plane of \<^verbatim>\<open>IpRulesEngine\<close>: the rule map with its epoch, its published snapshot
  and its counters, and every public operation that changes it. A mutating member returns its
  \<^verbatim>\<open>ApplyResult\<close> and the engine afterwards; the write lock it holds makes it one step. The
  counters (\<^verbatim>\<open>shared_ptr<RuleStats>\<close>) live in a store addressed by natural numbers, so that
  sharing and resetting them is visible. \<open>eng_file\<close> is the save file of the engine's
  \<^verbatim>\<open>Saver\<close>, \<open>eng_inOpen\<close> whether the saver's input stream is open.
\<close>

section \<open>State\<close>

record Engine =
  eng_rules :: RulesMap
  eng_nextRuleId :: u32
  eng_rulesEpoch :: u64
  eng_instanceId :: u64
  eng_snapshot :: Snapshot
  eng_lastPreflight :: PreflightReport
  eng_heap :: "addr \<Rightarrow> RuleStats"
  eng_nextAddr :: addr
  eng_file :: "u8 list option"
  eng_inOpen :: bool

text \<open>The constructor publishes the snapshot of the empty rule map at epoch 1.\<close>

definition engine_init :: "u64 \<Rightarrow> u8 list option \<Rightarrow> Engine" where
  "engine_init instanceId file =
     (let cr = compile [] 1 in
      \<lparr>eng_rules = [], eng_nextRuleId = 0, eng_rulesEpoch = 1, eng_instanceId = instanceId,
       eng_snapshot = fst cr, eng_lastPreflight = snd cr,
       eng_heap = (\<lambda>_. zeroStats), eng_nextAddr = 0, eng_file = file, eng_inOpen = False\<rparr>)"

text \<open>\<^verbatim>\<open>std::make_shared<RuleStats>()\<close>.\<close>

definition make_stats :: "Engine \<Rightarrow> addr \<times> Engine" where
  "make_stats e =
     (eng_nextAddr e, e\<lparr>eng_heap := (eng_heap e)(eng_nextAddr e := zeroStats),
                        eng_nextAddr := eng_nextAddr e + 1\<rparr>)"

section \<open>Reading\<close>

definition eng_preflight :: "Engine \<Rightarrow> PreflightReport" where
  "eng_preflight e = eng_lastPreflight e"

definition getRule :: "Engine \<Rightarrow> u32 \<Rightarrow> RuleDef option" where
  "getRule e ruleId = map_option st_def (map_of (eng_rules e) ruleId)"

definition ruleIdLess :: "RuleDef \<Rightarrow> RuleDef \<Rightarrow> bool" where
  "ruleIdLess a b \<longleftrightarrow> rd_ruleId a < rd_ruleId b"

definition listRules :: "Engine \<Rightarrow> u32 option \<Rightarrow> u32 option \<Rightarrow> RuleDef list" where
  "listRules e uidFilter ruleFilter =
     std_sort ruleIdLess
       (map (\<lambda>p. st_def (snd p))
         (filter (\<lambda>p. (case ruleFilter of Some r \<Rightarrow> fst p = r | None \<Rightarrow> True) \<and>
                      (case uidFilter of Some u \<Rightarrow> rd_uid (st_def (snd p)) = u | None \<Rightarrow> True))
           (eng_rules e)))"

record PolicySnapshot =
  ps_nextRuleId :: u32
  ps_rules :: "RuleDef list"

definition policySnapshot :: "Engine \<Rightarrow> PolicySnapshot" where
  "policySnapshot e =
     \<lparr>ps_nextRuleId = eng_nextRuleId e,
      ps_rules = std_sort ruleIdLess (map (\<lambda>p. st_def (snd p)) (eng_rules e))\<rparr>"

definition statsSnapshot :: "Engine \<Rightarrow> u32 \<Rightarrow> RuleStats option" where
  "statsSnapshot e ruleId = map_option (\<lambda>s. eng_heap e (st_stats s)) (map_of (eng_rules e) ruleId)"

section \<open>Publishing\<close>

definition preflightFailed :: "PreflightReport \<Rightarrow> ApplyResult" where
  "preflightFailed rep = \<lparr>res_ok = False, res_ruleId = None, res_error = ''preflight violations'',
     res_preflight = rep\<rparr>"

definition applyNewRules :: "RulesMap \<Rightarrow> u32 option \<Rightarrow> Engine \<Rightarrow> ApplyResult \<times> Engine" where
  "applyNewRules newRules newRuleId e =
     (let newEpoch = eng_rulesEpoch e + 1; cr = compile newRules newEpoch in
      if \<not> report_ok (snd cr) then (preflightFailed (snd cr), e)
      else
        (\<lparr>res_ok = True, res_ruleId = newRuleId, res_error = [], res_preflight = snd cr\<rparr>,
         e\<lparr>eng_rules := newRules,
           eng_nextRuleId := (case newRuleId of Some r \<Rightarrow> r + 1 | None \<Rightarrow> eng_nextRuleId e),
           eng_lastPreflight := snd cr,
           eng_rulesEpoch := newEpoch,
           eng_snapshot := fst cr\<rparr>))"

section \<open>Single rules\<close>

definition addFromKv :: "(string \<Rightarrow> u32 option) \<Rightarrow> u32 \<Rightarrow> string list \<Rightarrow> Engine \<Rightarrow> ApplyResult \<times> Engine" where
  "addFromKv pton4 uid kvTokens e =
     (let ruleId = eng_nextRuleId e;
          def0 = rule_default\<lparr>rd_ruleId := ruleId, rd_uid := uid,
                              rd_clientRuleId := legacyClientRuleId uid ruleId,
                              rd_enabled := True, rd_enforce := True, rd_log := False\<rparr>
      in case kv_loop pton4 kvTokens def0 of
           Inl err \<Rightarrow> (nokResult err, e)
         | Inr def \<Rightarrow>
             if \<not> has_key ''action'' kvTokens then (nokResult ''missing action'', e)
             else if \<not> has_key ''priority'' kvTokens then (nokResult ''missing priority'', e)
             else case validateRuleDef def of
                    Inl err \<Rightarrow> (nokResult err, e)
                  | Inr _ \<Rightarrow>
                      let (a, e') = make_stats e;
                          newRules = fst (omap_emplace ruleId \<lparr>st_def = def, st_stats = a\<rparr> (eng_rules e'))
                      in applyNewRules newRules (Some ruleId) e')"

definition updateFromKv :: "(string \<Rightarrow> u32 option) \<Rightarrow> u32 \<Rightarrow> string list \<Rightarrow> Engine \<Rightarrow> ApplyResult \<times> Engine" where
  "updateFromKv pton4 ruleId kvTokens e =
     (case map_of (eng_rules e) ruleId of
        None \<Rightarrow> (nokResult ''rule not found'', e)
      | Some st \<Rightarrow>
          (case kv_loop pton4 kvTokens (st_def st) of
             Inl err \<Rightarrow> (nokResult err, e)
           | Inr def \<Rightarrow>
               (case validateRuleDef def of
                  Inl err \<Rightarrow> (nokResult err, e)
                | Inr _ \<Rightarrow>
                    let (a, e') = make_stats e;
                        newRules = omap_upd ruleId st (\<lambda>_. \<lparr>st_def = def, st_stats = a\<rparr>) (eng_rules e')
                    in applyNewRules newRules None e')))"

definition removeRule :: "u32 \<Rightarrow> Engine \<Rightarrow> ApplyResult \<times> Engine" where
  "removeRule ruleId e =
     (case map_of (eng_rules e) ruleId of
        None \<Rightarrow> (nokResult ''rule not found'', e)
      | Some _ \<Rightarrow> applyNewRules (omap_erase ruleId (eng_rules e)) None e)"

definition enableRule :: "u32 \<Rightarrow> bool \<Rightarrow> Engine \<Rightarrow> ApplyResult \<times> Engine" where
  "enableRule ruleId enabled e =
     (case map_of (eng_rules e) ruleId of
        None \<Rightarrow> (nokResult ''rule not found'', e)
      | Some st \<Rightarrow>
          if rd_enabled (st_def st) = enabled then (okResult None, e)
          else
            let st1 = st\<lparr>st_def := (st_def st)\<lparr>rd_enabled := enabled\<rparr>\<rparr>;
                (st2, e') = (if \<not> rd_enabled (st_def st) \<and> enabled
                             then (let (a, e') = make_stats e in (st1\<lparr>st_stats := a\<rparr>, e'))
                             else (st1, e))
            in applyNewRules (omap_upd ruleId st2 (\<lambda>_. st2) (eng_rules e')) None e')"

section \<open>Atomic replacement of the rules of a uid\<close>

fun check_client_ids :: "string set \<Rightarrow> ApplyRule list \<Rightarrow> string option" where
  "check_client_ids seen [] = None"
| "check_client_ids seen (r # rs) =
     (if \<not> isValidClientRuleId (ar_clientRuleId r) then Some ''invalid clientRuleId''
      else if ar_clientRuleId r \<in> seen then Some ''duplicate clientRuleId''
      else check_client_ids (insert (ar_clientRuleId r) seen) rs)"

definition prevByClientId :: "u32 \<Rightarrow> RulesMap \<Rightarrow> (string \<rightharpoonup> RuleState)" where
  "prevByClientId uid rules =
     fold (\<lambda>p m. let st = snd p; cid = rd_clientRuleId (st_def st) in
             if rd_uid (st_def st) \<noteq> uid then m
             else if cid = [] then m
             else case m cid of Some _ \<Rightarrow> m | None \<Rightarrow> m(cid \<mapsto> st)) rules Map.empty"

definition sameMatch :: "RuleDef \<Rightarrow> RuleDef \<Rightarrow> bool" where
  "sameMatch a b \<longleftrightarrow>
     rd_family a = rd_family b \<and> rd_dir a = rd_dir b \<and> rd_iface a = rd_iface b \<and>
     rd_ifindex a = rd_ifindex b \<and> rd_proto a = rd_proto b \<and> rd_ctState a = rd_ctState b \<and>
     rd_ctDir a = rd_ctDir b \<and>
     c4_any (rd_src a) = c4_any (rd_src b) \<and> c4_addr (rd_src a) = c4_addr (rd_src b) \<and>
     c4_prefix (rd_src a) = c4_prefix (rd_src b) \<and>
     c4_any (rd_dst a) = c4_any (rd_dst b) \<and> c4_addr (rd_dst a) = c4_addr (rd_dst b) \<and>
     c4_prefix (rd_dst a) = c4_prefix (rd_dst b) \<and>
     c6_any (rd_src6 a) = c6_any (rd_src6 b) \<and> c6_addr (rd_src6 a) = c6_addr (rd_src6 b) \<and>
     c6_prefix (rd_src6 a) = c6_prefix (rd_src6 b) \<and>
     c6_any (rd_dst6 a) = c6_any (rd_dst6 b) \<and> c6_addr (rd_dst6 a) = c6_addr (rd_dst6 b) \<and>
     c6_prefix (rd_dst6 a) = c6_prefix (rd_dst6 b) \<and>
     port_kind (rd_sport a) = port_kind (rd_sport b) \<and> port_lo (rd_sport a) = port_lo (rd_sport b) \<and>
     port_hi (rd_sport a) = port_hi (rd_sport b) \<and>
     port_kind (rd_dport a) = port_kind (rd_dport b) \<and> port_lo (rd_dport a) = port_lo (rd_dport b) \<and>
     port_hi (rd_dport a) = port_hi (rd_dport b)"

definition sameBehavior :: "RuleDef \<Rightarrow> RuleDef \<Rightarrow> bool" where
  "sameBehavior a b \<longleftrightarrow>
     rd_action a = rd_action b \<and> rd_priority a = rd_priority b \<and> rd_enabled a = rd_enabled b \<and>
     rd_enforce a = rd_enforce b \<and> rd_log a = rd_log b"

definition def_of_apply :: "u32 \<Rightarrow> u32 \<Rightarrow> ApplyRule \<Rightarrow> RuleDef" where
  "def_of_apply ruleId uid r =
     \<lparr>rd_ruleId = ruleId, rd_uid = uid, rd_clientRuleId = ar_clientRuleId r,
      rd_family = ar_family r, rd_action = ar_action r, rd_priority = ar_priority r,
      rd_enabled = ar_enabled r, rd_enforce = ar_enforce r, rd_log = ar_log r,
      rd_dir = ar_dir r, rd_iface = ar_iface r, rd_ifindex = ar_ifindex r, rd_proto = ar_proto r,
      rd_src = ar_src r, rd_dst = ar_dst r, rd_src6 = ar_src6 r, rd_dst6 = ar_dst6 r,
      rd_sport = ar_sport r, rd_dport = ar_dport r, rd_ctState = ar_ctState r, rd_ctDir = ar_ctDir r\<rparr>"

text \<open>A rule whose client id was known keeps its rule id; a new one takes the next id. The counters
  are kept only when neither the match nor the behaviour of the rule changed.\<close>

definition assignRuleId :: "RuleState option \<Rightarrow> u32 \<Rightarrow> u32 option \<Rightarrow> u32 \<times> u32 \<times> u32 option" where
  "assignRuleId prev nextRuleId maxAlloc =
     (case prev of
        Some s \<Rightarrow> (rd_ruleId (st_def s), nextRuleId, maxAlloc)
      | None \<Rightarrow> (nextRuleId, nextRuleId + 1, Some nextRuleId))"

definition assignStats :: "RuleState option \<Rightarrow> RuleDef \<Rightarrow> Engine \<Rightarrow> addr \<times> Engine" where
  "assignStats prev def e =
     (case prev of
        Some s \<Rightarrow> (if sameMatch (st_def s) def \<and> sameBehavior (st_def s) def then (st_stats s, e)
                   else make_stats e)
      | None \<Rightarrow> make_stats e)"

text \<open>The loop over the new rules: the map under construction, the next rule id, the last id that
  was allocated, and the engine whose counter store grows.\<close>

fun replace_loop ::
  "(string \<rightharpoonup> RuleState) \<Rightarrow> u32 \<Rightarrow> ApplyRule list \<Rightarrow> RulesMap \<Rightarrow> u32 \<Rightarrow> u32 option \<Rightarrow> Engine \<Rightarrow>
   string + (RulesMap \<times> u32 option \<times> Engine)" where
  "replace_loop prev uid [] newRules nextRuleId maxAlloc e = Inr (newRules, maxAlloc, e)"
| "replace_loop prev uid (r # rs) newRules nextRuleId maxAlloc e =
     (case assignRuleId (prev (ar_clientRuleId r)) nextRuleId maxAlloc of
        (assigned, nextRuleId', maxAlloc') \<Rightarrow>
          (case validateRuleDef (def_of_apply assigned uid r) of
             Inl err \<Rightarrow> Inl err
           | Inr _ \<Rightarrow>
               (case assignStats (prev (ar_clientRuleId r)) (def_of_apply assigned uid r) e of
                  (a, e') \<Rightarrow>
                    (case omap_emplace assigned \<lparr>st_def = def_of_apply assigned uid r, st_stats = a\<rparr> newRules of
                       (newRules', inserted) \<Rightarrow>
                         if \<not> inserted then Inl ''internal error: duplicate ruleId''
                         else replace_loop prev uid rs newRules' nextRuleId' maxAlloc' e'))))"

definition replaceRulesForUid :: "u32 \<Rightarrow> ApplyRule list \<Rightarrow> Engine \<Rightarrow> ApplyResult \<times> Engine" where
  "replaceRulesForUid uid rules e =
     (case check_client_ids {} rules of
        Some err \<Rightarrow> (nokResult err, e)
      | None \<Rightarrow>
          (let prev = prevByClientId uid (eng_rules e);
               kept = filter (\<lambda>p. rd_uid (st_def (snd p)) \<noteq> uid) (eng_rules e)
           in case replace_loop prev uid rules kept (eng_nextRuleId e) None e of
                Inl err \<Rightarrow> (nokResult err, e)
              | Inr (newRules, maxAlloc, e') \<Rightarrow> applyNewRules newRules maxAlloc e'))"

section \<open>Whole rule sets\<close>

definition resetAll :: "Engine \<Rightarrow> Engine" where
  "resetAll e = snd (applyNewRules [] None (e\<lparr>eng_nextRuleId := 0, eng_file := saver_remove (eng_file e)\<rparr>))"

text \<open>The staging loop shared by \<^verbatim>\<open>validatePolicySnapshot\<close> and \<^verbatim>\<open>restorePolicySnapshot\<close>.\<close>

fun stage_loop ::
  "RuleDef list \<Rightarrow> RulesMap \<Rightarrow> u32 \<Rightarrow> Engine \<Rightarrow> string + (RulesMap \<times> u32 \<times> Engine)" where
  "stage_loop [] staged maxRuleId e = Inr (staged, maxRuleId, e)"
| "stage_loop (def # defs) staged maxRuleId e =
     (case validateRuleDef def of
        Inl err \<Rightarrow> Inl err
      | Inr _ \<Rightarrow>
          (let (a, e') = make_stats e;
               (staged', inserted) = omap_emplace (rd_ruleId def) \<lparr>st_def = def, st_stats = a\<rparr> staged
           in if \<not> inserted then Inl ''duplicate ruleId''
              else stage_loop defs staged' (max maxRuleId (rd_ruleId def)) e'))"

definition stage :: "PolicySnapshot \<Rightarrow> Engine \<Rightarrow> string + (RulesMap \<times> Engine)" where
  "stage snapshot e =
     (case stage_loop (ps_rules snapshot) [] 0 e of
        Inl err \<Rightarrow> Inl err
      | Inr (staged, maxRuleId, e') \<Rightarrow>
          if ps_rules snapshot \<noteq> [] \<and> ps_nextRuleId snapshot \<le> maxRuleId
          then Inl ''nextRuleId must be greater than all ruleId values''
          else Inr (staged, e'))"

definition validatePolicySnapshot :: "PolicySnapshot \<Rightarrow> Engine \<Rightarrow> ApplyResult" where
  "validatePolicySnapshot snapshot e =
     (case stage snapshot e of
        Inl err \<Rightarrow> nokResult err
      | Inr (staged, _) \<Rightarrow>
          (let cr = compile staged (eng_rulesEpoch e + 1) in
           if \<not> report_ok (snd cr) then preflightFailed (snd cr)
           else \<lparr>res_ok = True, res_ruleId = None, res_error = [], res_preflight = snd cr\<rparr>))"

definition restorePolicySnapshot :: "PolicySnapshot \<Rightarrow> Engine \<Rightarrow> ApplyResult \<times> Engine" where
  "restorePolicySnapshot snapshot e =
     (case stage snapshot e of
        Inl err \<Rightarrow> (nokResult err, e)
      | Inr (staged, e') \<Rightarrow>
          (let newEpoch = eng_rulesEpoch e' + 1; cr = compile staged newEpoch in
           if \<not> report_ok (snd cr) then (preflightFailed (snd cr), e')
           else
             (\<lparr>res_ok = True, res_ruleId = None, res_error = [], res_preflight = snd cr\<rparr>,
              e'\<lparr>eng_rules := staged, eng_nextRuleId := ps_nextRuleId snapshot,
                 eng_lastPreflight := snd cr, eng_rulesEpoch := newEpoch,
                 eng_snapshot := fst cr\<rparr>)))"

section \<open>Counting hits\<close>

definition observeEnforceHit :: "Decision \<Rightarrow> u32 \<Rightarrow> u64 \<Rightarrow> Engine \<Rightarrow> Engine" where
  "observeEnforceHit d bytes tsNs e =
     (if \<not> d_isEnforce d then e
      else case d_stats d of
             None \<Rightarrow> e
           | Some a \<Rightarrow>
               (let s = eng_heap e a in
                e\<lparr>eng_heap := (eng_heap e)(a := s\<lparr>hitPackets := hitPackets s + 1,
                    hitBytes := hitBytes s + ucast bytes, lastHitTsNs := tsNs\<rparr>)\<rparr>))"

definition observeWouldHitIfAccepted :: "Decision \<Rightarrow> bool \<Rightarrow> u32 \<Rightarrow> u64 \<Rightarrow> Engine \<Rightarrow> Engine" where
  "observeWouldHitIfAccepted d accepted bytes tsNs e =
     (if \<not> accepted \<or> \<not> d_isWould d then e
      else case d_stats d of
             None \<Rightarrow> e
           | Some a \<Rightarrow>
               (let s = eng_heap e a in
                e\<lparr>eng_heap := (eng_heap e)(a := s\<lparr>wouldHitPackets := wouldHitPackets s + 1,
                    wouldHitBytes := wouldHitBytes s + ucast bytes, lastWouldHitTsNs := tsNs\<rparr>)\<rparr>))"

end
