(* ===== verification/IpRulesInvariant.thy ===== *)
theory IpRulesInvariant
  imports IpRulesStore
begin

text \<open>
  The invariants of the control plane. The locale \<open>engine_op\<close> is the contract shared by the
  operations that change the rules; each of them is an interpretation, so that preservation of the
  invariant and the atomicity of refused operations are available for all of them.
\<close>

section \<open>Invariants\<close>

text \<open>Of the rule map: ordered by id, every rule under its own id, validated, with counters of its
  own below the allocation mark \<open>n\<close>.\<close>

definition rules_inv :: "addr \<Rightarrow> RulesMap \<Rightarrow> bool" where
  "rules_inv n m \<longleftrightarrow> omap_wf m \<and>
     (\<forall>rid s. map_of m rid = Some s \<longrightarrow>
        rd_ruleId (st_def s) = rid \<and> validateRuleDef (st_def s) = Inr () \<and> st_stats s < n) \<and>
     (\<forall>r1 s1 r2 s2. map_of m r1 = Some s1 \<longrightarrow> map_of m r2 = Some s2 \<longrightarrow> st_stats s1 = st_stats s2 \<longrightarrow> r1 = r2)"

text \<open>Of the engine: the published snapshot and the stored report are those of the current rules at
  the current epoch, and the rules respect the hard limits.\<close>

definition eng_inv :: "Engine \<Rightarrow> bool" where
  "eng_inv e \<longleftrightarrow> rules_inv (eng_nextAddr e) (eng_rules e) \<and>
     (eng_snapshot e, eng_lastPreflight e) = compile (eng_rules e) (eng_rulesEpoch e) \<and>
     report_ok (eng_lastPreflight e)"

definition rules_wf :: "RulesMap \<Rightarrow> bool" where
  "rules_wf m \<longleftrightarrow> (\<forall>rid s. map_of m rid = Some s \<longrightarrow> rule_wf (st_def s))"

definition ids_below :: "u32 \<Rightarrow> RulesMap \<Rightarrow> bool" where
  "ids_below n m \<longleftrightarrow> (\<forall>rid s. map_of m rid = Some s \<longrightarrow> rid < n)"

text \<open>What allocating counters changes.\<close>

definition heap_ext :: "Engine \<Rightarrow> Engine \<Rightarrow> bool" where
  "heap_ext e e' \<longleftrightarrow>
     e' = e\<lparr>eng_heap := eng_heap e', eng_nextAddr := eng_nextAddr e'\<rparr> \<and>
     eng_nextAddr e \<le> eng_nextAddr e' \<and>
     (\<forall>a < eng_nextAddr e. eng_heap e' a = eng_heap e a) \<and>
     (\<forall>a. eng_nextAddr e \<le> a \<and> a < eng_nextAddr e' \<longrightarrow> eng_heap e' a = zeroStats)"

lemma heap_ext_refl [simp]: "heap_ext e e"
  by (auto simp: heap_ext_def)

lemma heap_ext_same:
  assumes "heap_ext e e'"
  shows "eng_rules e' = eng_rules e" "eng_nextRuleId e' = eng_nextRuleId e" "eng_rulesEpoch e' = eng_rulesEpoch e"
    "eng_snapshot e' = eng_snapshot e" "eng_lastPreflight e' = eng_lastPreflight e" "eng_file e' = eng_file e"
    "eng_instanceId e' = eng_instanceId e" "eng_nextAddr e \<le> eng_nextAddr e'"
proof -
  define h n where "h = eng_heap e'" and "n = eng_nextAddr e'"
  then have "e' = e\<lparr>eng_heap := h, eng_nextAddr := n\<rparr>" and "eng_nextAddr e \<le> eng_nextAddr e'"
    using assms by (auto simp: heap_ext_def)
  then show "eng_rules e' = eng_rules e" "eng_nextRuleId e' = eng_nextRuleId e" "eng_rulesEpoch e' = eng_rulesEpoch e"
    "eng_snapshot e' = eng_snapshot e" "eng_lastPreflight e' = eng_lastPreflight e" "eng_file e' = eng_file e"
    "eng_instanceId e' = eng_instanceId e" "eng_nextAddr e \<le> eng_nextAddr e'"
    by simp_all
qed

lemma heap_ext_trans:
  assumes "heap_ext e e'" and "heap_ext e' e''"
  shows "heap_ext e e''"
proof -
  define h n h2 n2 where "h = eng_heap e'" and "n = eng_nextAddr e'" and "h2 = eng_heap e''" and "n2 = eng_nextAddr e''"
  then have e': "e' = e\<lparr>eng_heap := h, eng_nextAddr := n\<rparr>" and e'': "e'' = e'\<lparr>eng_heap := h2, eng_nextAddr := n2\<rparr>"
    using assms by (auto simp: heap_ext_def)
  have "e'' = e\<lparr>eng_heap := eng_heap e'', eng_nextAddr := eng_nextAddr e''\<rparr>" unfolding e'' e' by simp
  moreover have "eng_heap e'' a = zeroStats" if "eng_nextAddr e \<le> a" "a < eng_nextAddr e''" for a
    using assms that by (cases "a < eng_nextAddr e'") (auto simp: heap_ext_def)
  ultimately show ?thesis using assms unfolding heap_ext_def by auto
qed

lemma make_stats_ext:
  assumes "make_stats e = (a, e')"
  shows "heap_ext e e'" "a = eng_nextAddr e" "eng_nextAddr e' = eng_nextAddr e + 1" "eng_heap e' a = zeroStats"
  using assms by (auto simp: make_stats_def heap_ext_def)

lemma rules_invD:
  assumes "rules_inv n m"
  shows "omap_wf m" "map_of m r = Some s \<Longrightarrow> rd_ruleId (st_def s) = r"
    "map_of m r = Some s \<Longrightarrow> validateRuleDef (st_def s) = Inr ()" "map_of m r = Some s \<Longrightarrow> st_stats s < n"
    "map_of m r = Some s \<Longrightarrow> map_of m r' = Some s' \<Longrightarrow> st_stats s = st_stats s' \<Longrightarrow> r = r'"
  using assms unfolding rules_inv_def by blast+

lemma rules_inv_mono: "rules_inv n m \<Longrightarrow> n \<le> n' \<Longrightarrow> rules_inv n' m"
  unfolding rules_inv_def by (meson less_le_trans)

lemma rules_inv_upd:
  assumes inv: "rules_inv n m" and "rd_ruleId def = rid" and "validateRuleDef def = Inr ()" and "a < n"
    and "\<forall>r s. map_of m r = Some s \<longrightarrow> r \<noteq> rid \<longrightarrow> st_stats s \<noteq> a"
  shows "rules_inv n (omap_upd rid d (\<lambda>_. \<lparr>st_def = def, st_stats = a\<rparr>) m)"
proof -
  have wf: "omap_wf m" using inv by (simp add: rules_inv_def)
  then have lk: "map_of (omap_upd rid d (\<lambda>_. \<lparr>st_def = def, st_stats = a\<rparr>) m) =
      (map_of m)(rid \<mapsto> \<lparr>st_def = def, st_stats = a\<rparr>)" by (simp add: map_of_omap_upd)
  show ?thesis
    unfolding rules_inv_def lk using assms wf by (auto simp: rules_inv_def)
qed

lemma rules_inv_filter: "rules_inv n m \<Longrightarrow> rules_inv n (filter P m)"
  unfolding rules_inv_def by (auto simp: map_of_filter_omap split: option.splits if_splits)

lemma rules_inv_Nil [simp]: "rules_inv n []"
  by (simp add: rules_inv_def)

lemma omap_emplace_inserted:
  assumes "omap_emplace k v m = (m', True)"
  shows "map_of m k = None" "m' = omap_upd k v (\<lambda>_. v) m"
proof -
  show "map_of m k = None" using assms by (auto simp: omap_emplace_def split: option.splits)
  have "omap_upd k v id m = omap_upd k v (\<lambda>_. v) m" if "map_of m k = None"
    using that by (induction k v "id :: 'b \<Rightarrow> 'b" m rule: omap_upd.induct) auto
  then show "m' = omap_upd k v (\<lambda>_. v) m"
    using assms by (auto simp: omap_emplace_def split: option.splits)
qed

lemma rules_inv_emplace:
  assumes "rules_inv n m" and "omap_emplace rid \<lparr>st_def = def, st_stats = a\<rparr> m = (m', True)"
    and "rd_ruleId def = rid" and "validateRuleDef def = Inr ()" and "a < n"
    and "\<forall>r s. map_of m r = Some s \<longrightarrow> st_stats s \<noteq> a"
  shows "rules_inv n m'"
  using omap_emplace_inserted [OF assms(2)] assms by (auto intro: rules_inv_upd)

section \<open>Publishing keeps the invariant\<close>

lemma eng_inv_heap_ext: "eng_inv e \<Longrightarrow> heap_ext e e' \<Longrightarrow> eng_inv e'"
  by (auto simp: eng_inv_def heap_ext_same intro: rules_inv_mono dest: heap_ext_same(8))

lemma applyNewRules_inv:
  assumes "eng_inv e" and "rules_inv (eng_nextAddr e) newRules"
  shows "eng_inv (snd (applyNewRules newRules n e))"
  using assms by (auto simp: applyNewRules_def Let_def eng_inv_def)

lemma applyNewRules_ok:
  assumes "applyNewRules newRules n e = (res, e')" and "res_ok res"
  shows "eng_rules e' = newRules" "eng_rulesEpoch e' = eng_rulesEpoch e + 1" "eng_heap e' = eng_heap e"
    "eng_nextAddr e' = eng_nextAddr e" "eng_file e' = eng_file e" "eng_instanceId e' = eng_instanceId e"
    "eng_nextRuleId e' = (case n of Some r \<Rightarrow> r + 1 | None \<Rightarrow> eng_nextRuleId e)" "res_ruleId res = n"
  using assms by (auto simp: applyNewRules_def Let_def preflightFailed_def split: if_splits)

lemma applyNewRules_nok:
  "applyNewRules newRules n e = (res, e') \<Longrightarrow> \<not> res_ok res \<Longrightarrow> e' = e"
  by (auto simp: applyNewRules_def Let_def split: if_splits)

text \<open>What every operation that changes the rules promises: it keeps the invariant, a refused
  operation changes nothing that can be observed, and an accepted one either was a no-op or published
  the next epoch.\<close>

locale engine_op =
  fixes op :: "Engine \<Rightarrow> ApplyResult \<times> Engine"
  assumes op_inv: "eng_inv e \<Longrightarrow> op e = (res, e') \<Longrightarrow> eng_inv e'"
    and op_refused: "op e = (res, e') \<Longrightarrow> \<not> res_ok res \<Longrightarrow> heap_ext e e'"
    and op_epoch: "op e = (res, e') \<Longrightarrow> res_ok res \<Longrightarrow>
      e' = e \<or> eng_rulesEpoch e' = eng_rulesEpoch e + 1 \<and> eng_instanceId e' = eng_instanceId e"
begin

lemma refused_unobservable:
  assumes "eng_inv e" and "op e = (res, e')" and "\<not> res_ok res"
  shows "eng_rules e' = eng_rules e \<and> eng_nextRuleId e' = eng_nextRuleId e \<and>
    eng_rulesEpoch e' = eng_rulesEpoch e \<and> eng_snapshot e' = eng_snapshot e \<and>
    eng_lastPreflight e' = eng_lastPreflight e \<and> eng_file e' = eng_file e \<and>
    (\<forall>rid. statsSnapshot e' rid = statsSnapshot e rid)"
proof -
  have ext: "heap_ext e e'" using op_refused assms(2,3) by blast
  have "st_stats s < eng_nextAddr e" if "map_of (eng_rules e) rid = Some s" for rid s
    using assms(1) that by (auto simp: eng_inv_def rules_inv_def)
  then have "statsSnapshot e' rid = statsSnapshot e rid" for rid
    using ext by (cases "map_of (eng_rules e) rid")
      (auto simp: statsSnapshot_def heap_ext_same(1) [OF ext] heap_ext_def)
  then show ?thesis using heap_ext_same [OF ext] by simp
qed

end

text \<open>The ways an operation ends: refused before anything is built, a no-op, or a new map handed to
  \<^verbatim>\<open>applyNewRules\<close> after some counters were allocated.\<close>

definition op_outcome :: "Engine \<Rightarrow> ApplyResult \<Rightarrow> Engine \<Rightarrow> bool" where
  "op_outcome e res e' \<longleftrightarrow>
     (\<exists>n. res = nokResult n \<and> e' = e) \<or> (res = okResult None \<and> e' = e) \<or>
     (\<exists>e1 m n. heap_ext e e1 \<and> (eng_inv e \<longrightarrow> rules_inv (eng_nextAddr e1) m) \<and>
        applyNewRules m n e1 = (res, e'))"

lemma op_outcome_same [simp]: "op_outcome e (nokResult n) e" "op_outcome e (okResult None) e"
  by (auto simp: op_outcome_def)

lemma op_outcome_applyI:
  "heap_ext e e1 \<Longrightarrow> (eng_inv e \<Longrightarrow> rules_inv (eng_nextAddr e1) m) \<Longrightarrow> applyNewRules m n e1 = (res, e') \<Longrightarrow>
   op_outcome e res e'"
  unfolding op_outcome_def by blast

lemma op_outcomeE:
  assumes "op_outcome e res e'"
  obtains (refused) "\<not> res_ok res" "e' = e"
    | (noop) "res_ok res" "e' = e"
    | (publish) e1 m n where "heap_ext e e1" "eng_inv e \<longrightarrow> rules_inv (eng_nextAddr e1) m"
        "applyNewRules m n e1 = (res, e')"
proof -
  have "\<not> res_ok (nokResult n)" "res_ok (okResult None)" for n by (simp_all add: nokResult_def okResult_def)
  then show ?thesis using assms that unfolding op_outcome_def by blast
qed

lemma engine_opI:
  assumes outcome: "\<And>e res e'. op e = (res, e') \<Longrightarrow> op_outcome e res e'"
  shows "engine_op op"
proof
  fix e res e' assume op: "op e = (res, e')"
  show "eng_inv e'" if inv: "eng_inv e"
    using outcome [OF op]
  proof (cases rule: op_outcomeE)
    case (publish e1 m n)
    then show ?thesis using inv applyNewRules_inv [of e1 m n] eng_inv_heap_ext [OF inv] by simp
  qed (use inv in simp_all)
  show "heap_ext e e'" if nok: "\<not> res_ok res"
    using outcome [OF op]
  proof (cases rule: op_outcomeE)
    case (publish e1 m n)
    then show ?thesis using applyNewRules_nok [OF publish(3) nok] by simp
  qed simp_all
  show "e' = e \<or> eng_rulesEpoch e' = eng_rulesEpoch e + 1 \<and> eng_instanceId e' = eng_instanceId e" if ok: "res_ok res"
    using outcome [OF op]
  proof (cases rule: op_outcomeE)
    case (publish e1 m n)
    then show ?thesis using applyNewRules_ok(2,6) [OF publish(3) ok] heap_ext_same(3,7) by simp
  qed (use ok in simp_all)
qed

lemma kv_loop_ruleId: "kv_loop pton4 toks d = Inr d' \<Longrightarrow> rd_ruleId d' = rd_ruleId d"
  using kv_loop_id by blast

lemma rules_inv_make_stats:
  assumes "rules_inv (eng_nextAddr e) m" and "make_stats e = (a, e')"
  shows "rules_inv (eng_nextAddr e') m" "a < eng_nextAddr e'" "map_of m r = Some s \<Longrightarrow> st_stats s \<noteq> a"
  using make_stats_ext [OF assms(2)] rules_inv_mono [OF assms(1)] rules_invD(4) [OF assms(1), of r s] by auto

interpretation add_op: engine_op "addFromKv pton4 uid toks" for pton4 uid toks
proof (rule engine_opI)
  fix e res e' assume op: "addFromKv pton4 uid toks e = (res, e')"
  define def0 where "def0 = rule_default\<lparr>rd_ruleId := eng_nextRuleId e, rd_uid := uid,
      rd_clientRuleId := legacyClientRuleId uid (eng_nextRuleId e),
      rd_enabled := True, rd_enforce := True, rd_log := False\<rparr>"
  note op' = op [unfolded addFromKv_def Let_def, folded def0_def]
  show "op_outcome e res e'"
  proof (cases "\<exists>n. res = nokResult n \<and> e' = e")
    case False
    then obtain def where def: "kv_loop pton4 toks def0 = Inr def" "validateRuleDef def = Inr ()"
      and app: "(let (a, e1) = make_stats e in applyNewRules
          (fst (omap_emplace (eng_nextRuleId e) \<lparr>st_def = def, st_stats = a\<rparr> (eng_rules e1))) (Some (eng_nextRuleId e)) e1) = (res, e')"
      using op' by (auto split: sum.splits if_splits)
    obtain a e1 where ms: "make_stats e = (a, e1)" by fastforce
    have id: "rd_ruleId def = eng_nextRuleId e" using kv_loop_ruleId [OF def(1)] by (simp add: def0_def)
    have inv: "rules_inv (eng_nextAddr e1) (fst (omap_emplace (eng_nextRuleId e) \<lparr>st_def = def, st_stats = a\<rparr> (eng_rules e)))"
      if "eng_inv e"
    proof -
      have base: "rules_inv (eng_nextAddr e) (eng_rules e)" using that by (simp add: eng_inv_def)
      note fresh = rules_inv_make_stats [OF base ms]
      show ?thesis
      proof (cases "snd (omap_emplace (eng_nextRuleId e) \<lparr>st_def = def, st_stats = a\<rparr> (eng_rules e))")
        case True
        then show ?thesis using rules_inv_emplace [OF fresh(1) _ id def(2) fresh(2)] fresh(3)
          by (metis prod.collapse)
      next
        case False
        then show ?thesis using fresh(1) by (auto simp: omap_emplace_def split: option.splits)
      qed
    qed
    moreover have "eng_rules e1 = eng_rules e" using make_stats_ext(1) [OF ms] by (rule heap_ext_same)
    ultimately show ?thesis unfolding op_outcome_def using app ms make_stats_ext(1) [OF ms] by auto
  qed (simp add: op_outcome_def)
qed

interpretation update_op: engine_op "updateFromKv pton4 ruleId toks" for pton4 ruleId toks
proof (rule engine_opI)
  fix e res e' assume op: "updateFromKv pton4 ruleId toks e = (res, e')"
  show "op_outcome e res e'"
  proof (cases "\<exists>n. res = nokResult n \<and> e' = e")
    case False
    obtain a e1 where ms: "make_stats e = (a, e1)" by fastforce
    have rules: "eng_rules e1 = eng_rules e" using make_stats_ext(1) [OF ms] by (rule heap_ext_same)
    from False op obtain st def where st: "map_of (eng_rules e) ruleId = Some st"
      and def: "kv_loop pton4 toks (st_def st) = Inr def" "validateRuleDef def = Inr ()"
      and app: "applyNewRules (omap_upd ruleId st (\<lambda>_. \<lparr>st_def = def, st_stats = a\<rparr>) (eng_rules e)) None e1 = (res, e')"
      by (auto simp: updateFromKv_def ms rules split: option.splits sum.splits)
    have "rules_inv (eng_nextAddr e1) (omap_upd ruleId st (\<lambda>_. \<lparr>st_def = def, st_stats = a\<rparr>) (eng_rules e))"
      if "eng_inv e"
    proof -
      have base: "rules_inv (eng_nextAddr e) (eng_rules e)" using that by (simp add: eng_inv_def)
      note fresh = rules_inv_make_stats [OF base ms]
      have "rd_ruleId def = ruleId" using kv_loop_ruleId [OF def(1)] rules_invD(2) [OF base st] by simp
      then show ?thesis using def(2) fresh by (auto intro!: rules_inv_upd)
    qed
    then show ?thesis unfolding op_outcome_def using app make_stats_ext(1) [OF ms] by blast
  qed (simp add: op_outcome_def)
qed

interpretation remove_op: engine_op "removeRule ruleId" for ruleId
proof (rule engine_opI)
  fix e res e' assume op: "removeRule ruleId e = (res, e')"
  have "rules_inv (eng_nextAddr e) (omap_erase ruleId (eng_rules e))" if "eng_inv e"
    using that by (simp add: eng_inv_def omap_erase_def rules_inv_filter)
  with op show "op_outcome e res e'"
    by (cases "map_of (eng_rules e) ruleId")
       (auto simp: removeRule_def intro: op_outcome_applyI [OF heap_ext_refl])
qed

lemma validate_enabled [simp]: "validateRuleDef (d\<lparr>rd_enabled := b\<rparr>) = validateRuleDef d"
  by (simp add: validateRuleDef_def)

interpretation enable_op: engine_op "enableRule ruleId enabled" for ruleId enabled
proof (rule engine_opI)
  fix e res e' assume op: "enableRule ruleId enabled e = (res, e')"
  show "op_outcome e res e'"
  proof (cases "(\<exists>n. res = nokResult n \<and> e' = e) \<or> (res = okResult None \<and> e' = e)")
    case False
    obtain a0 e0 where ms: "make_stats e = (a0, e0)" by fastforce
    from False op obtain st where st: "map_of (eng_rules e) ruleId = Some st" "rd_enabled (st_def st) \<noteq> enabled"
      by (auto simp: enableRule_def split: option.splits if_splits)
    define a where "a = (if enabled then a0 else st_stats st)"
    define e1 where "e1 = (if enabled then e0 else e)"
    define def where "def = (st_def st)\<lparr>rd_enabled := enabled\<rparr>"
    have ext: "heap_ext e e1" using make_stats_ext(1) [OF ms] by (simp add: e1_def)
    have record_upd: "st\<lparr>st_def := d\<rparr> = \<lparr>st_def = d, st_stats = st_stats st\<rparr>" for d by simp
    have app: "applyNewRules (omap_upd ruleId \<lparr>st_def = def, st_stats = a\<rparr> (\<lambda>_. \<lparr>st_def = def, st_stats = a\<rparr>) (eng_rules e)) None e1 = (res, e')"
      using op st heap_ext_same(1) [OF make_stats_ext(1) [OF ms]]
      by (cases enabled) (auto simp: enableRule_def ms a_def e1_def def_def Let_def record_upd)
    have "rules_inv (eng_nextAddr e1) (omap_upd ruleId \<lparr>st_def = def, st_stats = a\<rparr> (\<lambda>_. \<lparr>st_def = def, st_stats = a\<rparr>) (eng_rules e))"
      if "eng_inv e"
    proof (rule rules_inv_upd)
      have base: "rules_inv (eng_nextAddr e) (eng_rules e)" using that by (simp add: eng_inv_def)
      show "rules_inv (eng_nextAddr e1) (eng_rules e)" using base heap_ext_same(8) [OF ext] by (rule rules_inv_mono)
      show "rd_ruleId def = ruleId" "validateRuleDef def = Inr ()"
        using rules_invD(2,3) [OF base st(1)] by (simp_all add: def_def)
      show "a < eng_nextAddr e1" "\<forall>r s. map_of (eng_rules e) r = Some s \<longrightarrow> r \<noteq> ruleId \<longrightarrow> st_stats s \<noteq> a"
        using rules_inv_make_stats [OF base ms] rules_invD(4,5) [OF base] st(1)
        by (auto simp: a_def e1_def)
    qed
    then show ?thesis unfolding op_outcome_def using app ext by blast
  qed (auto simp: op_outcome_def)
qed

section \<open>The replacement loop\<close>

lemma check_client_ids_None:
  "check_client_ids seen rs = None \<longleftrightarrow>
     (\<forall>r \<in> set rs. isValidClientRuleId (ar_clientRuleId r)) \<and> distinct (map ar_clientRuleId rs) \<and>
     ar_clientRuleId ` set rs \<inter> seen = {}"
  by (induction seen rs rule: check_client_ids.induct) auto

lemma prevByClientId_snoc:
  "prevByClientId uid (m @ [p]) =
     (let st = snd p; cid = rd_clientRuleId (st_def st); prev = prevByClientId uid m in
      if rd_uid (st_def st) \<noteq> uid then prev else if cid = [] then prev
      else case prev cid of Some _ \<Rightarrow> prev | None \<Rightarrow> prev(cid \<mapsto> st))"
  by (simp add: prevByClientId_def Let_def)

lemma prevByClientId_SomeD:
  "prevByClientId uid m cid = Some s \<Longrightarrow>
   s \<in> snd ` set m \<and> rd_uid (st_def s) = uid \<and> rd_clientRuleId (st_def s) = cid"
proof (induction m rule: rev_induct)
  case Nil
  then show ?case by (simp add: prevByClientId_def)
next
  case (snoc p m)
  then show ?case
    unfolding prevByClientId_snoc by (auto simp: Let_def split: if_splits option.splits)
qed

lemma prev_rule:
  assumes "rules_inv n m" and "prevByClientId uid m cid = Some s"
  shows "map_of m (rd_ruleId (st_def s)) = Some s" "rd_uid (st_def s) = uid" "rd_clientRuleId (st_def s) = cid"
proof -
  from prevByClientId_SomeD [OF assms(2)] obtain rid where "(rid, s) \<in> set m"
    "rd_uid (st_def s) = uid" "rd_clientRuleId (st_def s) = cid" by auto
  moreover from this have "map_of m rid = Some s" using rules_invD(1) [OF assms(1)] by (simp add: omap_in_set_iff)
  moreover from this have "rd_ruleId (st_def s) = rid" using rules_invD(2) [OF assms(1)] by blast
  ultimately show "map_of m (rd_ruleId (st_def s)) = Some s" "rd_uid (st_def s) = uid" "rd_clientRuleId (st_def s) = cid"
    by auto
qed

text \<open>One iteration: the counters the rule gets, the map with the rule inserted.\<close>

lemma replace_loop_step:
  assumes "replace_loop prev uid (r # rs) nr nx ma e = Inr res"
  obtains rid a e1 nr1 nx1 ma1 where
    "assignRuleId (prev (ar_clientRuleId r)) nx ma = (rid, nx1, ma1)"
    "validateRuleDef (def_of_apply rid uid r) = Inr ()"
    "assignStats (prev (ar_clientRuleId r)) (def_of_apply rid uid r) e = (a, e1)"
    "omap_emplace rid \<lparr>st_def = def_of_apply rid uid r, st_stats = a\<rparr> nr = (nr1, True)"
    "replace_loop prev uid rs nr1 nx1 ma1 e1 = Inr res"
  using assms by (auto split: prod.splits sum.splits if_splits)

lemma def_of_apply_simps [simp]:
  "rd_ruleId (def_of_apply rid uid r) = rid" "rd_uid (def_of_apply rid uid r) = uid"
  "rd_clientRuleId (def_of_apply rid uid r) = ar_clientRuleId r"
  by (simp_all add: def_of_apply_def)

lemma assignStats_cases:
  assumes "assignStats p def e = (a, e1)"
  shows "(\<exists>s. p = Some s \<and> sameMatch (st_def s) def \<and> sameBehavior (st_def s) def \<and> a = st_stats s \<and> e1 = e) \<or>
    (\<forall>s. p = Some s \<longrightarrow> \<not> (sameMatch (st_def s) def \<and> sameBehavior (st_def s) def)) \<and> make_stats e = (a, e1)"
  using assms by (auto simp: assignStats_def split: option.splits if_splits)

lemma assignStats_ext: "assignStats p def e = (a, e1) \<Longrightarrow> heap_ext e e1"
  using assignStats_cases make_stats_ext(1) heap_ext_refl by metis

lemma replace_loop_ext: "replace_loop prev uid rs nr nx ma e = Inr (nr', ma', e') \<Longrightarrow> heap_ext e e'"
proof (induction rs arbitrary: nr nx ma e)
  case Nil
  then show ?case by simp
next
  case (Cons r rs)
  from Cons.prems show ?case
    by (rule replace_loop_step) (metis Cons.IH assignStats_ext heap_ext_trans)
qed

text \<open>\<open>prev_ok\<close>: no rule of the map under construction uses the counters of a previous rule that
  may still be taken over, and no two previous rules share counters.\<close>

definition prev_ok :: "(string \<rightharpoonup> RuleState) \<Rightarrow> ApplyRule list \<Rightarrow> addr \<Rightarrow> RulesMap \<Rightarrow> bool" where
  "prev_ok prev rs n nr \<longleftrightarrow>
     (\<forall>r \<in> set rs. \<forall>s. prev (ar_clientRuleId r) = Some s \<longrightarrow>
        st_stats s < n \<and> (\<forall>rid t. map_of nr rid = Some t \<longrightarrow> st_stats t \<noteq> st_stats s)) \<and>
     (\<forall>c1 s1 c2 s2. prev c1 = Some s1 \<longrightarrow> prev c2 = Some s2 \<longrightarrow> st_stats s1 = st_stats s2 \<longrightarrow> c1 = c2)"

lemma replace_loop_inv:
  assumes "replace_loop prev uid rs nr nx ma e = Inr (nr', ma', e')"
    and "rules_inv (eng_nextAddr e) nr" and "distinct (map ar_clientRuleId rs)"
    and "prev_ok prev rs (eng_nextAddr e) nr"
  shows "rules_inv (eng_nextAddr e') nr'"
  using assms
proof (induction rs arbitrary: nr nx ma e)
  case Nil
  then show ?case by simp
next
  case (Cons r rs)
  from Cons.prems(1) obtain rid a e1 nr1 nx1 ma1 where
    val: "validateRuleDef (def_of_apply rid uid r) = Inr ()" and
    st: "assignStats (prev (ar_clientRuleId r)) (def_of_apply rid uid r) e = (a, e1)" and
    em: "omap_emplace rid \<lparr>st_def = def_of_apply rid uid r, st_stats = a\<rparr> nr = (nr1, True)" and
    loop: "replace_loop prev uid rs nr1 nx1 ma1 e1 = Inr (nr', ma', e')"
    by (rule replace_loop_step)
  have ext: "eng_nextAddr e \<le> eng_nextAddr e1" using assignStats_ext [OF st] heap_ext_same(8) by blast
  have a: "a < eng_nextAddr e1 \<and> (\<forall>q t. map_of nr q = Some t \<longrightarrow> st_stats t \<noteq> a) \<and>
      ((\<exists>s. prev (ar_clientRuleId r) = Some s \<and> a = st_stats s) \<or> eng_nextAddr e \<le> a)"
    using assignStats_cases [OF st]
  proof (elim disjE exE conjE)
    fix s assume "prev (ar_clientRuleId r) = Some s" "a = st_stats s" "e1 = e"
    then show ?thesis using Cons.prems(4) by (simp add: prev_ok_def)
  next
    assume ms: "make_stats e = (a, e1)"
    show ?thesis using rules_inv_make_stats(2,3) [OF Cons.prems(2) ms] make_stats_ext(2) [OF ms] by auto
  qed
  have inv1: "rules_inv (eng_nextAddr e1) nr1"
    using rules_inv_emplace [OF rules_inv_mono [OF Cons.prems(2) ext] em _ val] a by simp
  have lk: "map_of nr1 = (map_of nr)(rid \<mapsto> \<lparr>st_def = def_of_apply rid uid r, st_stats = a\<rparr>)"
    using omap_emplace_inserted [OF em] rules_invD(1) [OF Cons.prems(2)] by (simp add: map_of_omap_upd)
  have "prev_ok prev rs (eng_nextAddr e1) nr1"
    unfolding prev_ok_def
  proof (intro conjI ballI allI impI)
    fix q s assume q: "q \<in> set rs" "prev (ar_clientRuleId q) = Some s"
    have old: "st_stats s < eng_nextAddr e" "\<forall>i t. map_of nr i = Some t \<longrightarrow> st_stats t \<noteq> st_stats s"
      using Cons.prems(4) q by (auto simp: prev_ok_def)
    then show "st_stats s < eng_nextAddr e1" using ext by simp
    have "ar_clientRuleId q \<in> ar_clientRuleId ` set rs" using q(1) by (rule imageI)
    then have "ar_clientRuleId q \<noteq> ar_clientRuleId r" using Cons.prems(3) by auto
    then have "st_stats s \<noteq> a" using a old(1) q(2) Cons.prems(4) unfolding prev_ok_def
      by (metis leD)
    then show "st_stats t \<noteq> st_stats s" if "map_of nr1 i = Some t" for i t
      using that old(2) by (auto simp: lk split: if_splits)
  next
    show "c1 = c2" if "prev c1 = Some s1" "prev c2 = Some s2" "st_stats s1 = st_stats s2" for c1 s1 c2 s2
      using Cons.prems(4) that by (auto simp: prev_ok_def)
  qed
  then show ?case using Cons.IH [OF loop inv1] Cons.prems(3) by simp
qed

lemma prev_ok_init:
  assumes "rules_inv n m"
  shows "prev_ok (prevByClientId uid m) rs n (filter (\<lambda>p. rd_uid (st_def (snd p)) \<noteq> uid) m)"
  unfolding prev_ok_def
proof (intro conjI ballI allI impI)
  fix r s assume s: "prevByClientId uid m (ar_clientRuleId r) = Some s"
  note p = prev_rule [OF assms s]
  show "st_stats s < n" using rules_invD(4) [OF assms p(1)] .
  show "st_stats t \<noteq> st_stats s" if "map_of (filter (\<lambda>p. rd_uid (st_def (snd p)) \<noteq> uid) m) i = Some t" for i t
    using that p rules_invD(5) [OF assms p(1), of i t]
    by (auto simp: map_of_filter_omap [OF rules_invD(1) [OF assms]] split: option.splits if_splits)
next
  fix c1 s1 c2 s2
  assume c: "prevByClientId uid m c1 = Some s1" "prevByClientId uid m c2 = Some s2" "st_stats s1 = st_stats s2"
  note p1 = prev_rule [OF assms c(1)] and p2 = prev_rule [OF assms c(2)]
  from rules_invD(5) [OF assms p1(1) p2(1) c(3)] have "s1 = s2" using p1(1) p2(1) by (metis option.inject)
  then show "c1 = c2" using p1(3) p2(3) by simp
qed

interpretation replace_op: engine_op "replaceRulesForUid uid rules" for uid rules
proof (rule engine_opI)
  fix e res e' assume op: "replaceRulesForUid uid rules e = (res, e')"
  show "op_outcome e res e'"
  proof (cases "\<exists>n. res = nokResult n \<and> e' = e")
    case False
    let ?kept = "filter (\<lambda>p. rd_uid (st_def (snd p)) \<noteq> uid) (eng_rules e)"
    from False op obtain nr ma e1 where ids: "check_client_ids {} rules = None"
      and loop: "replace_loop (prevByClientId uid (eng_rules e)) uid rules ?kept (eng_nextRuleId e) None e = Inr (nr, ma, e1)"
      and app: "applyNewRules nr ma e1 = (res, e')"
      by (auto simp: replaceRulesForUid_def Let_def split: option.splits sum.splits)
    have "rules_inv (eng_nextAddr e1) nr" if "eng_inv e"
      using that ids loop by (auto simp: eng_inv_def check_client_ids_None
          intro!: replace_loop_inv [OF loop] rules_inv_filter prev_ok_init)
    then show ?thesis using op_outcome_applyI [OF replace_loop_ext [OF loop] _ app] by blast
  qed auto
qed

section \<open>Staging a whole policy\<close>

lemma stage_loop_step:
  assumes "stage_loop (def # defs) staged mx e = Inr res"
  obtains a e1 staged1 where "validateRuleDef def = Inr ()" "make_stats e = (a, e1)"
    "omap_emplace (rd_ruleId def) \<lparr>st_def = def, st_stats = a\<rparr> staged = (staged1, True)"
    "stage_loop defs staged1 (max mx (rd_ruleId def)) e1 = Inr res"
  using assms by (auto split: prod.splits sum.splits if_splits)

lemma stage_loop_inv:
  assumes "stage_loop defs staged mx e = Inr (m, mx', e')" and "rules_inv (eng_nextAddr e) staged"
  shows "rules_inv (eng_nextAddr e') m \<and> heap_ext e e'"
  using assms
proof (induction defs arbitrary: staged mx e)
  case Nil
  then show ?case by simp
next
  case (Cons def defs)
  from Cons.prems(1) obtain a e1 staged1 where v: "validateRuleDef def = Inr ()" and ms: "make_stats e = (a, e1)"
    and em: "omap_emplace (rd_ruleId def) \<lparr>st_def = def, st_stats = a\<rparr> staged = (staged1, True)"
    and loop: "stage_loop defs staged1 (max mx (rd_ruleId def)) e1 = Inr (m, mx', e')"
    by (rule stage_loop_step)
  note fresh = rules_inv_make_stats [OF Cons.prems(2) ms]
  have "rules_inv (eng_nextAddr e1) staged1"
    using rules_inv_emplace [OF fresh(1) em refl v fresh(2)] fresh(3) by blast
  then show ?case using Cons.IH [OF loop] make_stats_ext(1) [OF ms] heap_ext_trans by blast
qed

lemma stage_inv: "stage ps e = Inr (m, e') \<Longrightarrow> rules_inv (eng_nextAddr e') m \<and> heap_ext e e'"
  using stage_loop_inv [of "ps_rules ps" "[]" 0 e]
  by (auto simp: stage_def split: sum.splits if_splits)

interpretation restore_policy_op: engine_op "restorePolicySnapshot ps" for ps
proof
  fix e res e' assume op: "restorePolicySnapshot ps e = (res, e')"
  have "eng_inv e \<longrightarrow> eng_inv e'" and "\<not> res_ok res \<longrightarrow> heap_ext e e'"
    and "res_ok res \<longrightarrow> eng_rulesEpoch e' = eng_rulesEpoch e + 1 \<and> eng_instanceId e' = eng_instanceId e"
  proof (atomize (full), cases "stage ps e")
    case (Inl err)
    with op show "(eng_inv e \<longrightarrow> eng_inv e') \<and> (\<not> res_ok res \<longrightarrow> heap_ext e e') \<and>
        (res_ok res \<longrightarrow> eng_rulesEpoch e' = eng_rulesEpoch e + 1 \<and> eng_instanceId e' = eng_instanceId e)"
      by (auto simp: restorePolicySnapshot_def nokResult_def)
  next
    case (Inr x)
    then obtain m e1 where st: "stage ps e = Inr (m, e1)" by (cases x) auto
    note inv = stage_inv [OF st]
    have "eng_inv e1" if "eng_inv e" using eng_inv_heap_ext [OF that] inv by blast
    with op st inv show "(eng_inv e \<longrightarrow> eng_inv e') \<and> (\<not> res_ok res \<longrightarrow> heap_ext e e') \<and>
        (res_ok res \<longrightarrow> eng_rulesEpoch e' = eng_rulesEpoch e + 1 \<and> eng_instanceId e' = eng_instanceId e)"
      using heap_ext_same(3,7) [of e e1]
      by (auto simp: restorePolicySnapshot_def Let_def preflightFailed_def eng_inv_def split: if_splits)
  qed
  then show "eng_inv e \<Longrightarrow> eng_inv e'" "\<not> res_ok res \<Longrightarrow> heap_ext e e'"
    "res_ok res \<Longrightarrow> e' = e \<or> eng_rulesEpoch e' = eng_rulesEpoch e + 1 \<and> eng_instanceId e' = eng_instanceId e" by auto
qed

section \<open>Reset, initial state and counters\<close>

lemma compile_empty_ok: "report_ok (snd (compile [] epoch))"
  by (simp add: compile_def report_ok_iff limit_defs compile_acc_def emptyAcc_def zeroSummary_def subtables_max_def)

lemma resetAll_eq:
  "resetAll e = e\<lparr>eng_rules := [], eng_nextRuleId := 0, eng_rulesEpoch := eng_rulesEpoch e + 1,
     eng_snapshot := fst (compile [] (eng_rulesEpoch e + 1)),
     eng_lastPreflight := snd (compile [] (eng_rulesEpoch e + 1)), eng_file := None\<rparr>"
  by (simp add: resetAll_def applyNewRules_def saver_remove_def Let_def compile_empty_ok)

lemma eng_inv_reset: "eng_inv (resetAll e)"
  by (simp add: resetAll_eq eng_inv_def compile_empty_ok)

lemma eng_inv_init: "eng_inv (engine_init iid file)"
  by (simp add: engine_init_def Let_def eng_inv_def compile_empty_ok)

lemma observe_frame:
  "eng_rules (observeEnforceHit d b t e) = eng_rules e"
  "eng_rules (observeWouldHitIfAccepted d acc b t e) = eng_rules e"
  "eng_inv (observeEnforceHit d b t e) = eng_inv e"
  "eng_inv (observeWouldHitIfAccepted d acc b t e) = eng_inv e"
  by (simp_all add: observeEnforceHit_def observeWouldHitIfAccepted_def eng_inv_def Let_def split: option.splits)

end
