(* ===== verification/IpRulesPersist.thy ===== *)
theory IpRulesPersist
  imports IpRulesInvariant
begin

text \<open>
  \<^verbatim>\<open>IpRulesEngine::save\<close> and \<^verbatim>\<open>IpRulesEngine::restore\<close>: the save file of the rules (format
  version 4), field by field, and the restore that validates, compiles and publishes it or clears
  the rule set. Each field is an interpretation of \<open>field_codec\<close>; the round trip of a whole rule
  set follows, with the exact condition on the client rule ids.
\<close>

section \<open>Writing\<close>

definition write_cidr4 :: "CidrV4 \<Rightarrow> u8 list" where
  "write_cidr4 c = write_bool (c4_any c) @ write_u32 (c4_addr c) @ write_u8 (c4_prefix c)"

definition write_cidr6 :: "CidrV6 \<Rightarrow> u8 list" where
  "write_cidr6 c = write_bool (c6_any c) @ c6_addr c @ write_u8 (c6_prefix c)"

definition write_port :: "PortPredicate \<Rightarrow> u8 list" where
  "write_port p = write_u8 (port_kind_u8 (port_kind p)) @ write_u16 (port_lo p) @ write_u16 (port_hi p)"

definition write_rule :: "RuleDef \<Rightarrow> u8 list" where
  "write_rule d =
     write_u32 (rd_ruleId d) @ write_u32 (rd_uid d) @ write_string (rd_clientRuleId d) @
     write_u8 (family_u8 (rd_family d)) @ write_u8 (action_u8 (rd_action d)) @ write_u32 (rd_priority d) @
     write_bool (rd_enabled d) @ write_bool (rd_enforce d) @ write_bool (rd_log d) @
     write_u8 (dir_u8 (rd_dir d)) @ write_u8 (iface_u8 (rd_iface d)) @ write_u32 (rd_ifindex d) @
     write_u8 (proto_u8 (rd_proto d)) @
     write_cidr4 (rd_src d) @ write_cidr4 (rd_dst d) @ write_cidr6 (rd_src6 d) @ write_cidr6 (rd_dst6 d) @
     write_port (rd_sport d) @ write_port (rd_dport d) @
     write_u8 (ct_u8 (rd_ctState d)) @ write_u8 (ctdir_u8 (rd_ctDir d))"

definition write_rules_file :: "u32 \<Rightarrow> RuleDef list \<Rightarrow> u8 list" where
  "write_rules_file nextRuleId defs =
     write_u32 4 @ write_u32 nextRuleId @ write_u32 (of_nat (length defs)) @ concat (map write_rule defs)"

definition eng_save :: "bool \<Rightarrow> Engine \<Rightarrow> Engine" where
  "eng_save ioOk e =
     (let defs = std_sort ruleIdLess (map (\<lambda>p. st_def (snd p)) (eng_rules e)) in
      e\<lparr>eng_file := saver_save ioOk (write_rules_file (eng_nextRuleId e) defs) (eng_file e)\<rparr>)"

section \<open>Reading\<close>

definition maskV6HostBits :: "ip6 \<Rightarrow> u8 \<Rightarrow> ip6" where
  "maskV6HostBits addr prefix =
     (if prefix = 0 then replicate (length addr) 0
      else
        let i = unat prefix div 8; remBits = unat prefix mod 8 in
        if i \<ge> length addr then addr
        else if remBits \<noteq> 0 then
          take i addr @ (addr ! i AND rem_mask remBits) # replicate (length addr - (i + 1)) 0
        else take i addr @ replicate (length addr - i) 0)"

definition read_cidr4 :: "CidrV4 reader" where
  "read_cidr4 =
     rbind read_bool (\<lambda>any. rbind read_u32 (\<lambda>addr. rbind read_u8 (\<lambda>prefix.
       if \<not> any then
         (if prefix > 32 then rfail
          else rret \<lparr>c4_any = any, c4_addr = addr AND maskFromPrefix prefix, c4_prefix = prefix\<rparr>)
       else rret \<lparr>c4_any = any, c4_addr = addr, c4_prefix = prefix\<rparr>)))"

definition read_cidr6 :: "CidrV6 reader" where
  "read_cidr6 =
     rbind read_bool (\<lambda>any. rbind (read_bytes 16) (\<lambda>addr. rbind read_u8 (\<lambda>prefix.
       if \<not> any then
         (if prefix > 128 then rfail
          else rret \<lparr>c6_any = any, c6_addr = maskV6HostBits addr prefix, c6_prefix = prefix\<rparr>)
       else rret \<lparr>c6_any = any, c6_addr = replicate 16 0, c6_prefix = 0\<rparr>)))"

definition read_port :: "PortPredicate reader" where
  "read_port =
     rbind read_u8 (\<lambda>kind. rbind read_u16 (\<lambda>lo. rbind read_u16 (\<lambda>hi.
       rret \<lparr>port_kind = port_kind_of_u8 kind, port_lo = lo, port_hi = hi\<rparr>)))"

definition read_rule :: "RuleDef reader" where
  "read_rule =
     rbind read_u32 (\<lambda>ruleId. rbind read_u32 (\<lambda>uid. rbind (read_string 1 64) (\<lambda>clientRuleId.
       if \<not> isValidClientRuleId clientRuleId then rfail
       else
         rbind read_u8 (\<lambda>family. rbind read_u8 (\<lambda>action. rbind read_u32 (\<lambda>priority.
         rbind read_bool (\<lambda>enabled. rbind read_bool (\<lambda>enforce. rbind read_bool (\<lambda>log.
         rbind read_u8 (\<lambda>dir. rbind read_u8 (\<lambda>iface. rbind read_u32 (\<lambda>ifindex. rbind read_u8 (\<lambda>proto.
         rbind read_cidr4 (\<lambda>src. rbind read_cidr4 (\<lambda>dst.
         rbind read_cidr6 (\<lambda>src6. rbind read_cidr6 (\<lambda>dst6.
         rbind read_port (\<lambda>sport. rbind read_port (\<lambda>dport.
         rbind read_u8 (\<lambda>ctState. rbind read_u8 (\<lambda>ctDir.
           rret \<lparr>rd_ruleId = ruleId, rd_uid = uid, rd_clientRuleId = clientRuleId,
             rd_family = family_of_u8 family, rd_action = action_of_u8 action, rd_priority = priority,
             rd_enabled = enabled, rd_enforce = enforce, rd_log = log,
             rd_dir = dir_of_u8 dir, rd_iface = iface_of_u8 iface, rd_ifindex = ifindex,
             rd_proto = proto_of_u8 proto, rd_src = src, rd_dst = dst, rd_src6 = src6, rd_dst6 = dst6,
             rd_sport = sport, rd_dport = dport,
             rd_ctState = ct_of_u8 ctState, rd_ctDir = ctdir_of_u8 ctDir\<rparr>)))))))))))))))))))))"

fun restore_loop :: "nat \<Rightarrow> RulesMap \<Rightarrow> u32 \<Rightarrow> Engine \<Rightarrow> u8 list \<Rightarrow> (RulesMap \<times> u32 \<times> Engine) option" where
  "restore_loop 0 restored maxSeenId e bs = Some (restored, maxSeenId, e)"
| "restore_loop (Suc n) restored maxSeenId e bs =
     (case read_rule bs of
        None \<Rightarrow> None
      | Some (d, bs') \<Rightarrow>
          (case validateRuleDef d of
             Inl _ \<Rightarrow> None
           | Inr _ \<Rightarrow>
               (case make_stats e of
                  (a, e') \<Rightarrow>
                    restore_loop n (fst (omap_emplace (rd_ruleId d) \<lparr>st_def = d, st_stats = a\<rparr> restored))
                      (max maxSeenId (rd_ruleId d)) e' bs')))"

definition restore_rules :: "u8 list \<Rightarrow> Engine \<Rightarrow> (RulesMap \<times> u32 \<times> Engine) option" where
  "restore_rules bytes e =
     (case read_u32 bytes of
        None \<Rightarrow> None
      | Some (formatVersion, bs1) \<Rightarrow>
          if formatVersion \<noteq> 4 then None
          else
            (case read_u32 bs1 of
               None \<Rightarrow> None
             | Some (nextRuleId, bs2) \<Rightarrow>
                 (case read_u32 bs2 of
                    None \<Rightarrow> None
                  | Some (n, bs3) \<Rightarrow>
                      (case restore_loop (unat n) [] 0 e bs3 of
                         None \<Rightarrow> None
                       | Some (restored, maxSeenId, e') \<Rightarrow>
                           Some (restored,
                                 if 0 < n then max nextRuleId (maxSeenId + 1) else nextRuleId,
                                 e')))))"

definition eng_restore :: "Engine \<Rightarrow> Engine" where
  "eng_restore e =
     (case saver_restore (eng_file e) (eng_inOpen e) of
        (None, opened) \<Rightarrow> e\<lparr>eng_inOpen := opened\<rparr>
      | (Some bytes, opened) \<Rightarrow>
          (let e1 = e\<lparr>eng_inOpen := opened\<rparr> in
           case restore_rules bytes e1 of
             None \<Rightarrow> resetAll e1
           | Some (restored, nextRuleId, e2) \<Rightarrow>
               (let newEpoch = eng_rulesEpoch e2 + 1; cr = compile restored newEpoch in
                if \<not> report_ok (snd cr) then resetAll e1
                else e2\<lparr>eng_rules := restored, eng_nextRuleId := nextRuleId,
                        eng_lastPreflight := snd cr, eng_rulesEpoch := newEpoch,
                        eng_snapshot := fst cr\<rparr>)))"

section \<open>Codecs of the fields\<close>

definition cidr4_persistable :: "CidrV4 \<Rightarrow> bool" where
  "cidr4_persistable c \<longleftrightarrow>
     c4_any c \<or> c4_prefix c \<le> 32 \<and> c4_addr c AND maskFromPrefix (c4_prefix c) = c4_addr c"

definition cidr6_persistable :: "CidrV6 \<Rightarrow> bool" where
  "cidr6_persistable c \<longleftrightarrow> length (c6_addr c) = 16 \<and>
     (if c6_any c then c6_addr c = zero_ip6 \<and> c6_prefix c = 0
      else c6_prefix c \<le> 128 \<and> maskV6HostBits (c6_addr c) (c6_prefix c) = c6_addr c)"

text \<open>The rules that a save file can carry: canonical enumerators and addresses, and a client rule id
  of at most 63 characters.\<close>

definition rule_persistable :: "RuleDef \<Rightarrow> bool" where
  "rule_persistable d \<longleftrightarrow>
     isValidClientRuleId (rd_clientRuleId d) \<and> length (rd_clientRuleId d) < 64 \<and>
     family_of_u8 (family_u8 (rd_family d)) = rd_family d \<and> action_of_u8 (action_u8 (rd_action d)) = rd_action d \<and>
     dir_of_u8 (dir_u8 (rd_dir d)) = rd_dir d \<and> iface_of_u8 (iface_u8 (rd_iface d)) = rd_iface d \<and>
     proto_of_u8 (proto_u8 (rd_proto d)) = rd_proto d \<and>
     cidr4_persistable (rd_src d) \<and> cidr4_persistable (rd_dst d) \<and>
     cidr6_persistable (rd_src6 d) \<and> cidr6_persistable (rd_dst6 d) \<and>
     port_kind_of_u8 (port_kind_u8 (port_kind (rd_sport d))) = port_kind (rd_sport d) \<and>
     port_kind_of_u8 (port_kind_u8 (port_kind (rd_dport d))) = port_kind (rd_dport d) \<and>
     ct_of_u8 (ct_u8 (rd_ctState d)) = rd_ctState d \<and> ctdir_of_u8 (ctdir_u8 (rd_ctDir d)) = rd_ctDir d"

lemmas scalar_codecs = u8c.read_back u16c.read_back u32c.read_back boolc.read_back

interpretation cidr4c: field_codec write_cidr4 read_cidr4 cidr4_persistable
  by unfold_locales
     (auto simp: write_cidr4_def read_cidr4_def scalar_codecs cidr4_persistable_def rret_def not_less)

interpretation cidr6c: field_codec write_cidr6 read_cidr6 cidr6_persistable
  by unfold_locales
     (auto simp: write_cidr6_def read_cidr6_def scalar_codecs bytesc.read_back cidr6_persistable_def
        rret_def not_less zero_ip6_def split: if_splits)

interpretation portc: field_codec write_port read_port
  "\<lambda>p. port_kind_of_u8 (port_kind_u8 (port_kind p)) = port_kind p"
  by unfold_locales (auto simp: write_port_def read_port_def scalar_codecs rret_def)

interpretation rulec: field_codec write_rule read_rule rule_persistable
proof
  fix d rest
  assume ok: "rule_persistable d"
  have id: "(1 :: u32) \<le> of_nat (length (rd_clientRuleId d)) + 1 \<and> of_nat (length (rd_clientRuleId d)) + 1 \<le> (64 :: u32) \<and>
      length (rd_clientRuleId d) + 1 < 2 ^ 32"
  proof -
    have n: "length (rd_clientRuleId d) < 64" using ok by (simp add: rule_persistable_def)
    have "(of_nat (length (rd_clientRuleId d)) + 1 :: u32) = of_nat (length (rd_clientRuleId d) + 1)" by simp
    moreover have "unat (of_nat (length (rd_clientRuleId d) + 1) :: u32) = length (rd_clientRuleId d) + 1"
      unfolding unat_of_nat using n by (intro mod_less) simp
    ultimately show ?thesis using n by (simp only: word_le_nat_alt) simp
  qed
  show "read_rule (write_rule d @ rest) = Some (d, rest)"
    using ok id unfolding rule_persistable_def
    by (simp add: read_rule_def write_rule_def scalar_codecs stringc.read_back cidr4c.read_back cidr6c.read_back
        portc.read_back rret_def)
qed

section \<open>Restoring\<close>

lemma restore_loop_step:
  assumes "restore_loop (Suc n) m mx e bs = Some res"
  obtains d bs1 a e1 where "read_rule bs = Some (d, bs1)" "validateRuleDef d = Inr ()" "make_stats e = (a, e1)"
    "restore_loop n (fst (omap_emplace (rd_ruleId d) \<lparr>st_def = d, st_stats = a\<rparr> m)) (max mx (rd_ruleId d)) e1 bs1 = Some res"
  using assms by (auto split: option.splits prod.splits sum.splits)

lemma rules_inv_emplace_any:
  assumes "rules_inv (eng_nextAddr e) m" and "make_stats e = (a, e1)" and "validateRuleDef d = Inr ()"
  shows "rules_inv (eng_nextAddr e1) (fst (omap_emplace (rd_ruleId d) \<lparr>st_def = d, st_stats = a\<rparr> m))"
proof -
  note fresh = rules_inv_make_stats [OF assms(1,2)]
  show ?thesis
  proof (cases "snd (omap_emplace (rd_ruleId d) \<lparr>st_def = d, st_stats = a\<rparr> m)")
    case True
    then show ?thesis using rules_inv_emplace [OF fresh(1) _ refl assms(3) fresh(2)] fresh(3)
      by (metis prod.collapse)
  next
    case False
    then show ?thesis using fresh(1) by (auto simp: omap_emplace_def split: option.splits)
  qed
qed

lemma restore_loop_inv:
  "restore_loop n m mx e bs = Some (m', mx', e') \<Longrightarrow> rules_inv (eng_nextAddr e) m \<Longrightarrow>
   rules_inv (eng_nextAddr e') m' \<and> heap_ext e e'"
proof (induction n arbitrary: m mx e bs)
  case 0
  then show ?case by simp
next
  case (Suc n)
  from Suc.prems(1) show ?case
  proof (rule restore_loop_step)
    fix d bs1 a e1
    assume "validateRuleDef d = Inr ()" and ms: "make_stats e = (a, e1)"
      and loop: "restore_loop n (fst (omap_emplace (rd_ruleId d) \<lparr>st_def = d, st_stats = a\<rparr> m)) (max mx (rd_ruleId d)) e1 bs1 = Some (m', mx', e')"
    then show ?thesis
      using Suc.IH [OF loop rules_inv_emplace_any [OF Suc.prems(2) ms]] make_stats_ext(1) [OF ms] heap_ext_trans
      by blast
  qed
qed

lemma restore_rules_inv:
  "restore_rules bytes e = Some (m, nx, e') \<Longrightarrow> rules_inv (eng_nextAddr e') m \<and> heap_ext e e'"
  by (auto simp: restore_rules_def split: option.splits prod.splits if_splits dest!: restore_loop_inv)

lemma eng_inv_restore:
  assumes inv: "eng_inv e"
  shows "eng_inv (eng_restore e)"
proof -
  have inv1: "eng_inv (e\<lparr>eng_inOpen := b\<rparr>)" for b using inv by (simp add: eng_inv_def)
  obtain content opened where sr: "saver_restore (eng_file e) (eng_inOpen e) = (content, opened)" by fastforce
  show ?thesis
  proof (cases content)
    case None
    then show ?thesis using inv1 by (simp add: eng_restore_def sr)
  next
    case (Some bytes)
    show ?thesis
    proof (cases "restore_rules bytes (e\<lparr>eng_inOpen := opened\<rparr>)")
      case None
      then show ?thesis by (simp add: eng_restore_def sr Some Let_def eng_inv_reset)
    next
      case r: (Some res)
      then obtain m nx e2 where res: "restore_rules bytes (e\<lparr>eng_inOpen := opened\<rparr>) = Some (m, nx, e2)"
        by (cases res) auto
      then show ?thesis using restore_rules_inv [OF res]
        using eng_inv_reset by (simp add: eng_restore_def sr Some Let_def eng_inv_def)
    qed
  qed
qed

text \<open>Reading back what was written.\<close>

lemma restore_loop_write:
  assumes "\<forall>d \<in> set defs. rule_persistable d \<and> validateRuleDef d = Inr ()"
    and "rules_inv (eng_nextAddr e) m" and "distinct (map rd_ruleId defs)"
    and "\<forall>d \<in> set defs. map_of m (rd_ruleId d) = None"
  shows "\<exists>m' e'. restore_loop (length defs) m mx e (concat (map write_rule defs) @ rest) =
           Some (m', fold (\<lambda>d x. max x (rd_ruleId d)) defs mx, e') \<and>
         rules_inv (eng_nextAddr e') m' \<and> heap_ext e e' \<and>
         (\<forall>rid. map_option st_def (map_of m' rid) =
            (case find (\<lambda>d. rd_ruleId d = rid) defs of Some d \<Rightarrow> Some d | None \<Rightarrow> map_option st_def (map_of m rid))) \<and>
         (\<forall>rid s. map_of m' rid = Some s \<longrightarrow> map_of m rid = Some s \<or> eng_nextAddr e \<le> st_stats s)"
  using assms
proof (induction defs arbitrary: m mx e)
  case Nil
  then show ?case by (auto intro!: exI [of _ m])
next
  case (Cons d defs)
  obtain a e1 where ms: "make_stats e = (a, e1)" by fastforce
  note ext = make_stats_ext [OF ms]
  define m1 where "m1 = fst (omap_emplace (rd_ruleId d) \<lparr>st_def = d, st_stats = a\<rparr> m)"
  have inv1: "rules_inv (eng_nextAddr e1) m1"
    unfolding m1_def using rules_inv_emplace_any [OF Cons.prems(2) ms] Cons.prems(1) by simp
  have m1: "map_of m1 = (map_of m)(rd_ruleId d \<mapsto> \<lparr>st_def = d, st_stats = a\<rparr>)"
    using Cons.prems(2,4) rules_invD(1) by (auto simp: m1_def map_of_omap_emplace)
  have notid: "rd_ruleId q \<noteq> rd_ruleId d" if "q \<in> set defs" for q
    using imageI [OF that, of rd_ruleId] Cons.prems(3) by auto
  have step: "restore_loop (length (d # defs)) m mx e (concat (map write_rule (d # defs)) @ rest) =
      restore_loop (length defs) m1 (max mx (rd_ruleId d)) e1 (concat (map write_rule defs) @ rest)"
    using Cons.prems(1) by (simp add: rulec.dec_enc ms m1_def)
  have "\<exists>m' e'. restore_loop (length defs) m1 (max mx (rd_ruleId d)) e1 (concat (map write_rule defs) @ rest) =
           Some (m', fold (\<lambda>d x. max x (rd_ruleId d)) defs (max mx (rd_ruleId d)), e') \<and>
         rules_inv (eng_nextAddr e') m' \<and> heap_ext e1 e' \<and>
         (\<forall>rid. map_option st_def (map_of m' rid) =
            (case find (\<lambda>d. rd_ruleId d = rid) defs of Some d \<Rightarrow> Some d | None \<Rightarrow> map_option st_def (map_of m1 rid))) \<and>
         (\<forall>rid s. map_of m' rid = Some s \<longrightarrow> map_of m1 rid = Some s \<or> eng_nextAddr e1 \<le> st_stats s)"
    using Cons.prems inv1 notid by (intro Cons.IH) (auto simp: m1)
  then obtain m' e' where loop: "restore_loop (length defs) m1 (max mx (rd_ruleId d)) e1 (concat (map write_rule defs) @ rest) =
           Some (m', fold (\<lambda>d x. max x (rd_ruleId d)) defs (max mx (rd_ruleId d)), e')"
    and r: "rules_inv (eng_nextAddr e') m'" "heap_ext e1 e'"
    and lk: "\<And>rid. map_option st_def (map_of m' rid) =
            (case find (\<lambda>d. rd_ruleId d = rid) defs of Some d \<Rightarrow> Some d | None \<Rightarrow> map_option st_def (map_of m1 rid))"
    and fr: "\<And>rid s. map_of m' rid = Some s \<Longrightarrow> map_of m1 rid = Some s \<or> eng_nextAddr e1 \<le> st_stats s" by blast
  have notin: "find (\<lambda>x. rd_ruleId x = rd_ruleId d) defs = None"
    using notid by (auto simp: find_None_iff)
  have "map_option st_def (map_of m' rid) =
      (case find (\<lambda>d. rd_ruleId d = rid) (d # defs) of Some d \<Rightarrow> Some d | None \<Rightarrow> map_option st_def (map_of m rid))" for rid
    using lk [of rid] notin by (auto simp: m1 split: option.splits)
  moreover have "map_of m rid = Some s \<or> eng_nextAddr e \<le> st_stats s" if "map_of m' rid = Some s" for rid s
    using fr [OF that] ext(2,3) by (auto simp: m1 split: if_splits)
  ultimately show ?case
    unfolding step loop using r heap_ext_trans [OF ext(1)] by auto
qed

section \<open>The report does not depend on the counters\<close>

definition omap_rel :: "('v \<Rightarrow> 'w \<Rightarrow> bool) \<Rightarrow> ('k, 'v) omap \<Rightarrow> ('k, 'w) omap \<Rightarrow> bool" where
  "omap_rel R = list_all2 (\<lambda>p q. fst p = fst q \<and> R (snd p) (snd q))"

lemma omap_rel_upd:
  assumes "omap_rel R m m'" and "R d d'" and "\<And>v v'. R v v' \<Longrightarrow> R (f v) (f' v')"
  shows "omap_rel R (omap_upd k d f m) (omap_upd k d' f' m')"
  using assms(1) unfolding omap_rel_def
  by (induction rule: list_all2_induct) (auto simp: assms(2,3))

lemma omap_rel_map_of: "omap_rel R m m' \<Longrightarrow> rel_option R (map_of m k) (map_of m' k)"
  unfolding omap_rel_def by (induction rule: list_all2_induct) auto

definition tables_sim :: "('ip, 'c) tables \<Rightarrow> ('ip, 'c) tables \<Rightarrow> bool" where
  "tables_sim = omap_rel (omap_rel (\<lambda>st st'. subtable_range st = subtable_range st'))"

lemma tables_sim_add:
  assumes "tables_sim t t'" and "rr_uid r' = rr_uid r"
  shows "tables_sim (tables_add sg mk b r t) (tables_add sg mk b r' t')"
  unfolding tables_sim_def tables_add_def assms(2)
proof (rule omap_rel_upd)
  show "omap_rel (omap_rel (\<lambda>st st'. subtable_range st = subtable_range st')) t t'"
    using assms(1) by (simp add: tables_sim_def)
  show "omap_rel (\<lambda>st st'. subtable_range st = subtable_range st') [] []" by (simp add: omap_rel_def)
  show "omap_rel (\<lambda>st st'. subtable_range st = subtable_range st')
      (omap_upd sg emptySubtable (subtable_add sg mk b r) v) (omap_upd sg emptySubtable (subtable_add sg mk b r') v')"
    if "omap_rel (\<lambda>st st'. subtable_range st = subtable_range st') v v'" for v v'
    using that by (rule omap_rel_upd) (auto simp: subtable_range_add fun_eq_iff)
qed

lemma range_size_sim: "tables_sim t t' \<Longrightarrow> range_size t u s m = range_size t' u s m"
proof -
  assume "tables_sim t t'"
  then have "rel_option (omap_rel (\<lambda>st st'. subtable_range st = subtable_range st')) (map_of t u) (map_of t' u)"
    unfolding tables_sim_def by (rule omap_rel_map_of)
  then show ?thesis
  proof cases
    case (Some sm sm')
    then show ?thesis using omap_rel_map_of [OF Some(3), of s]
      by (auto simp: range_size_eq submap_range_def elim!: option.rel_cases)
  qed (simp add: range_size_eq)
qed

lemma subtables_sim:
  assumes "tables_sim t t'"
  shows "subtables_max t = subtables_max t'" "subtables_sum t = subtables_sum t'"
proof -
  have "map (\<lambda>p. length (snd p)) t = map (\<lambda>p. length (snd p)) t'"
    using assms unfolding tables_sim_def omap_rel_def
    by (induction rule: list_all2_induct) (auto dest: list_all2_lengthD)
  moreover have "subtables_max x = fold (\<lambda>n m. max m n) (map (\<lambda>p. length (snd p)) x) 0" for x :: "('a, 'b) tables"
    by (simp add: subtables_max_def fold_map comp_def)
  ultimately show "subtables_max t = subtables_max t'" "subtables_sum t = subtables_sum t'"
    by (simp_all add: subtables_sum_def)
qed

definition acc_sim :: "CompileAcc \<Rightarrow> CompileAcc \<Rightarrow> bool" where
  "acc_sim a b \<longleftrightarrow>
     ca_summary a = ca_summary b \<and> ca_ipv4 a = ca_ipv4 b \<and> ca_ipv6 a = ca_ipv6 b \<and>
     tables_sim (uidTables4 a) (uidTables4 b) \<and> tables_sim (uidTables6 a) (uidTables6 b) \<and>
     uidUsesCt4 a = uidUsesCt4 b \<and> uidUsesCt6 a = uidUsesCt6 b \<and>
     maxRangeBucket4 a = maxRangeBucket4 b \<and> maxRangeBucket6 a = maxRangeBucket6 b"

lemma acc_sim_rule:
  assumes "acc_sim a b" and "st_def s = st_def s'"
  shows "acc_sim (compile_rule s a) (compile_rule s' b)"
proof -
  define a' b' where "a' = compile_count (st_def s) a" and "b' = compile_count (st_def s) b"
  have sim: "acc_sim a' b'" using assms(1) by (simp add: acc_sim_def a'_def b'_def compile_count_def)
  have t4: "tables_sim (tables_add sg mk r (makeRefV4 s) (uidTables4 a')) (tables_add sg mk r (makeRefV4 s') (uidTables4 b'))"
    and t6: "tables_sim (tables_add sg' mk' r (makeRefV6 s) (uidTables6 a')) (tables_add sg' mk' r (makeRefV6 s') (uidTables6 b'))"
    for sg mk sg' mk' r
    using sim assms(2) by (auto simp: acc_sim_def intro!: tables_sim_add)
  have "acc_sim (compile_v4 s a') (compile_v4 s' b')" "acc_sim (compile_v6 s a') (compile_v6 s' b')"
    using sim assms(2) t4 t6 range_size_sim [OF t4] range_size_sim [OF t6]
    by (simp_all add: acc_sim_def compile_v4_def compile_v6_def Let_def)
  then show ?thesis
    using assms sim by (simp add: compile_rule_def Let_def a'_def b'_def)
qed

definition defs_view :: "RulesMap \<Rightarrow> (u32 \<times> RuleDef) list" where
  "defs_view m = map (\<lambda>p. (fst p, st_def (snd p))) m"

lemma report_of_defs:
  assumes "defs_view m = defs_view m'"
  shows "make_report (compile_acc m) = make_report (compile_acc m')"
proof -
  have "list_all2 (\<lambda>p q. st_def (snd p) = st_def (snd q)) m m'"
    using assms by (auto simp: defs_view_def list_all2_conv_all_nth list_eq_iff_nth_eq)
  then have "acc_sim (fold (\<lambda>p. compile_rule (snd p)) m a) (fold (\<lambda>p. compile_rule (snd p)) m' b)"
    if "acc_sim a b" for a b
    using that by (induction arbitrary: a b rule: list_all2_induct) (auto intro: acc_sim_rule)
  moreover have "acc_sim emptyAcc emptyAcc" by (simp add: acc_sim_def emptyAcc_def tables_sim_def omap_rel_def)
  ultimately have "acc_sim (compile_acc m) (compile_acc m')" by (simp add: compile_acc_def)
  moreover from this have "tables_sim (uidTables4 (compile_acc m)) (uidTables4 (compile_acc m'))"
    "tables_sim (uidTables6 (compile_acc m)) (uidTables6 (compile_acc m'))" by (simp_all add: acc_sim_def)
  note subtables_sim [OF this(1)] subtables_sim [OF this(2)]
  ultimately show ?thesis by (simp add: make_report_def acc_sim_def Let_def)
qed

section \<open>Round trip of the save file\<close>

lemma sorted_defs:
  assumes "rules_inv n m"
  shows "std_sort ruleIdLess (map (\<lambda>p. st_def (snd p)) m) = map (\<lambda>p. st_def (snd p)) m"
    "map rd_ruleId (map (\<lambda>p. st_def (snd p)) m) = map fst m"
proof -
  have wf: "omap_wf m" using rules_invD(1) [OF assms] .
  have "rd_ruleId (st_def (snd p)) = fst p" if "p \<in> set m" for p
    using that rules_invD(2) [OF assms] wf by (metis omap_in_set_iff prod.collapse)
  then show ids: "map rd_ruleId (map (\<lambda>p. st_def (snd p)) m) = map fst m" by simp
  have "sorted (map rd_ruleId (map (\<lambda>p. st_def (snd p)) m))"
    unfolding ids using wf by (simp add: omap_wf_def strict_sorted_iff)
  then show "std_sort ruleIdLess (map (\<lambda>p. st_def (snd p)) m) = map (\<lambda>p. st_def (snd p)) m"
    unfolding ruleIdLess_def [abs_def] std_sort_eq_sort_key by (rule sort_key_id_if_sorted)
qed

lemma find_defs:
  assumes "rules_inv n m"
  shows "find (\<lambda>d. rd_ruleId d = rid) (map (\<lambda>p. st_def (snd p)) m) = map_option st_def (map_of m rid)"
proof -
  have eq: "map rd_ruleId (map (\<lambda>p. st_def (snd p)) m) = map fst m" by (rule sorted_defs(2) [OF assms])
  have "map rd_ruleId (map (\<lambda>p. st_def (snd p)) xs) = map fst xs \<Longrightarrow>
      find (\<lambda>d. rd_ruleId d = rid) (map (\<lambda>p. st_def (snd p)) xs) = map_option st_def (map_of xs rid)" for xs :: RulesMap
    by (induction xs) auto
  then show ?thesis using eq .
qed

lemma defs_view_eqI:
  assumes "omap_wf m" and "omap_wf m'" and "\<And>rid. map_option st_def (map_of m rid) = map_option st_def (map_of m' rid)"
  shows "defs_view m = defs_view m'"
proof (rule omap_eqI)
  have "map fst (defs_view x) = map fst x" for x by (simp add: defs_view_def comp_def)
  then show "omap_wf (defs_view m)" "omap_wf (defs_view m')" using assms(1,2) by (simp_all add: omap_wf_def)
  have "map_of (defs_view x) rid = map_option st_def (map_of x rid)" for x rid
    unfolding defs_view_def by (induction x) auto
  then show "map_of (defs_view m) = map_of (defs_view m')" using assms(3) by auto
qed

lemma fold_max_below:
  "(\<forall>d \<in> set defs. rd_ruleId d < n) \<Longrightarrow> x < n \<Longrightarrow> fold (\<lambda>d x. max x (rd_ruleId d)) defs x < (n :: u32)"
  by (induction defs arbitrary: x) auto

text \<open>The engine that \<^verbatim>\<open>restore\<close> leaves, given the file of another engine.\<close>

lemma restore_saved:
  assumes inv: "eng_inv e" and below: "ids_below (eng_nextRuleId e) (eng_rules e)"
    and ok: "\<forall>rid s. map_of (eng_rules e) rid = Some s \<longrightarrow> rule_persistable (st_def s)"
    and small: "length (eng_rules e) < 2 ^ 32"
    and saved: "eng_file e0 = eng_file (eng_save True e)" and closed: "\<not> eng_inOpen e0"
  shows "defs_view (eng_rules (eng_restore e0)) = defs_view (eng_rules e) \<and>
    eng_nextRuleId (eng_restore e0) = eng_nextRuleId e \<and>
    eng_rulesEpoch (eng_restore e0) = eng_rulesEpoch e0 + 1 \<and>
    (\<forall>rid s. map_of (eng_rules (eng_restore e0)) rid = Some s \<longrightarrow> eng_heap (eng_restore e0) (st_stats s) = zeroStats)"
proof -
  define defs where "defs = map (\<lambda>p. st_def (snd p)) (eng_rules e)"
  have base: "rules_inv (eng_nextAddr e) (eng_rules e)" using inv by (simp add: eng_inv_def)
  note wf = rules_invD(1) [OF base]
  have ids: "map rd_ruleId defs = map fst (eng_rules e)" unfolding defs_def by (rule sorted_defs(2) [OF base])
  have len: "length defs = length (eng_rules e)" by (simp add: defs_def)
  have good: "\<forall>d \<in> set defs. rule_persistable d \<and> validateRuleDef d = Inr ()"
    using ok rules_invD(3) [OF base] wf by (auto simp: defs_def omap_in_set_iff)
  have dist: "distinct (map rd_ruleId defs)" unfolding ids by (rule omap_wf_distinct [OF wf])
  have bytes: "eng_file e0 = Some (write_rules_file (eng_nextRuleId e) defs)"
    unfolding saved by (simp add: eng_save_def Let_def saver_save_def sorted_defs(1) [OF base] defs_def)
  define e1 where "e1 = e0\<lparr>eng_inOpen := True\<rparr>"
  have none: "\<forall>d \<in> set defs. map_of ([] :: RulesMap) (rd_ruleId d) = None" by simp
  obtain m e2 where loop: "restore_loop (length defs) [] 0 e1 (concat (map write_rule defs) @ []) =
        Some (m, fold (\<lambda>d x. max x (rd_ruleId d)) defs 0, e2)"
    and m: "rules_inv (eng_nextAddr e2) m" "heap_ext e1 e2"
    and lk: "\<forall>rid. map_option st_def (map_of m rid) =
        (case find (\<lambda>d. rd_ruleId d = rid) defs of Some d \<Rightarrow> Some d | None \<Rightarrow> map_option st_def (map_of ([] :: RulesMap) rid))"
    and fresh: "\<forall>rid s. map_of m rid = Some s \<longrightarrow> map_of [] rid = Some s \<or> eng_nextAddr e1 \<le> st_stats s"
    using restore_loop_write [OF good rules_inv_Nil dist none] by blast
  have view: "defs_view m = defs_view (eng_rules e)"
    using lk by (intro defs_view_eqI [OF rules_invD(1) [OF m(1)] wf]) (simp add: defs_def find_defs [OF base] split: option.splits)
  have cnt: "unat (of_nat (length defs) :: u32) = length defs"
    unfolding unat_of_nat using small len by (intro mod_less) simp
  define next' where "next' = (if 0 < (of_nat (length defs) :: u32)
      then max (eng_nextRuleId e) (fold (\<lambda>d x. max x (rd_ruleId d)) defs 0 + 1) else eng_nextRuleId e)"
  have rr: "restore_rules (write_rules_file (eng_nextRuleId e) defs) e1 = Some (m, next', e2)"
    using loop by (simp add: restore_rules_def write_rules_file_def u32c.dec_enc cnt next'_def)
  have nx: "next' = eng_nextRuleId e"
  proof (cases "defs = []")
    case False
    have b: "\<forall>d \<in> set defs. rd_ruleId d < eng_nextRuleId e"
    proof
      fix d assume "d \<in> set defs"
      then have "rd_ruleId d \<in> set (map fst (eng_rules e))" unfolding ids [symmetric] by simp
      then obtain s where "(rd_ruleId d, s) \<in> set (eng_rules e)" by auto
      then show "rd_ruleId d < eng_nextRuleId e" using below wf by (auto simp: ids_below_def omap_in_set_iff)
    qed
    moreover have "0 < eng_nextRuleId e"
    proof -
      obtain d where "d \<in> set defs" using False by (meson list.set_sel(1))
      then have "rd_ruleId d < eng_nextRuleId e" using b by blast
      then show ?thesis using word_gt_0 [of "eng_nextRuleId e"] by auto
    qed
    ultimately have "fold (\<lambda>d x. max x (rd_ruleId d)) defs 0 < eng_nextRuleId e" by (intro fold_max_below) auto
    then have "fold (\<lambda>d x. max x (rd_ruleId d)) defs 0 + 1 \<le> eng_nextRuleId e" by (rule inc_le)
    then show ?thesis by (simp add: next'_def max_def)
  qed (simp add: next'_def)
  have report: "report_ok (snd (compile m ep))" for ep
    using inv report_of_defs [OF view] by (auto simp: eng_inv_def compile_def)
  have "eng_restore e0 = e2\<lparr>eng_rules := m, eng_nextRuleId := eng_nextRuleId e,
      eng_lastPreflight := snd (compile m (eng_rulesEpoch e2 + 1)), eng_rulesEpoch := eng_rulesEpoch e2 + 1,
      eng_snapshot := fst (compile m (eng_rulesEpoch e2 + 1))\<rparr>"
    unfolding eng_restore_def using closed
    by (simp add: saver_restore_def bytes e1_def [symmetric] rr nx report Let_def)
  moreover have "eng_heap e2 (st_stats s) = zeroStats" if "map_of m rid = Some s" for rid s
    using fresh that rules_invD(4) [OF m(1) that] m(2) by (auto simp: heap_ext_def)
  moreover have "eng_rulesEpoch e2 = eng_rulesEpoch e0" using heap_ext_same(3) [OF m(2)] by (simp add: e1_def)
  ultimately show ?thesis using view by simp
qed

lemma policy_of_view: "defs_view m = defs_view m' \<Longrightarrow> map (\<lambda>p. st_def (snd p)) m = map (\<lambda>p. st_def (snd p)) m'"
proof -
  have "map (\<lambda>p. st_def (snd p)) x = map snd (defs_view x)" for x by (simp add: defs_view_def comp_def)
  then show "defs_view m = defs_view m' \<Longrightarrow> map (\<lambda>p. st_def (snd p)) m = map (\<lambda>p. st_def (snd p)) m'" by simp
qed

section \<open>Client rule ids of 64 characters\<close>

lemma read_string_too_long:
  assumes "length s = 64"
  shows "read_string 1 64 (write_string s @ rest) = None"
  using assms by (simp add: read_string_def write_string_def u32c.read_back rfail_def)

lemma read_rule_too_long: "length (rd_clientRuleId d) = 64 \<Longrightarrow> read_rule (write_rule d @ rest) = None"
  using read_string_too_long [of "rd_clientRuleId d"]
  by (simp add: read_rule_def write_rule_def u32c.read_back)  (simp add: rbind_def)

lemma restore_loop_too_long:
  assumes "\<forall>d \<in> set defs. rule_persistable d \<or> length (rd_clientRuleId d) = 64"
    and "\<exists>d \<in> set defs. length (rd_clientRuleId d) = 64"
  shows "restore_loop (length defs) m mx e (concat (map write_rule defs) @ rest) = None"
  using assms
proof (induction defs arbitrary: m mx e)
  case Nil
  then show ?case by simp
next
  case (Cons d defs)
  show ?case
  proof (cases "length (rd_clientRuleId d) = 64")
    case True
    then show ?thesis by (simp add: read_rule_too_long)
  next
    case False
    obtain a e1 where "make_stats e = (a, e1)" by fastforce
    with False Cons show ?thesis by (simp add: rulec.dec_enc split: sum.splits)
  qed
qed

lemma restore_too_long:
  assumes inv: "eng_inv e"
    and ok: "\<forall>rid s. map_of (eng_rules e) rid = Some s \<longrightarrow>
        rule_persistable (st_def s) \<or> length (rd_clientRuleId (st_def s)) = 64"
    and long: "map_of (eng_rules e) rid0 = Some s0" "length (rd_clientRuleId (st_def s0)) = 64"
    and small: "length (eng_rules e) < 2 ^ 32"
    and saved: "eng_file e0 = eng_file (eng_save True e)" and closed: "\<not> eng_inOpen e0"
  shows "eng_restore e0 = resetAll (e0\<lparr>eng_inOpen := True\<rparr>)"
proof -
  define defs where "defs = map (\<lambda>p. st_def (snd p)) (eng_rules e)"
  have base: "rules_inv (eng_nextAddr e) (eng_rules e)" using inv by (simp add: eng_inv_def)
  note wf = rules_invD(1) [OF base]
  have bytes: "eng_file e0 = Some (write_rules_file (eng_nextRuleId e) defs)"
    unfolding saved by (simp add: eng_save_def Let_def saver_save_def sorted_defs(1) [OF base] defs_def)
  have cnt: "unat (of_nat (length defs) :: u32) = length defs"
    unfolding unat_of_nat using small by (intro mod_less) (simp add: defs_def)
  have "\<forall>d \<in> set defs. rule_persistable d \<or> length (rd_clientRuleId d) = 64"
    using ok wf by (auto simp: defs_def omap_in_set_iff) metis
  moreover have "\<exists>d \<in> set defs. length (rd_clientRuleId d) = 64"
    using long map_of_SomeD [OF long(1)] by (force simp: defs_def)
  ultimately have "restore_rules (write_rules_file (eng_nextRuleId e) defs) (e0\<lparr>eng_inOpen := True\<rparr>) = None"
    using restore_loop_too_long [of defs "[]" 0 _ "[]"]
    by (simp add: restore_rules_def write_rules_file_def u32c.dec_enc cnt)
  then show ?thesis unfolding eng_restore_def using closed by (simp add: saver_restore_def bytes Let_def)
qed

end
