(* ===== verification/IpRulesSystem.thy ===== *)
theory IpRulesSystem
  imports IpRulesPersist
begin

text \<open>
  The engine as a state machine: every public operation that changes the engine is a command, the
  reachable states are those a sequence of commands leads to. The invariants of the control plane
  hold in every reachable state, a command publishes at most one new epoch, and as long as the
  structured input is well formed and the id space is not exhausted the rules stay well formed and
  their ids fresh, so that the classifier theorems apply to what is published.
\<close>

section \<open>Commands\<close>

datatype Command =
    AddKv u32 "string list"
  | UpdateKv u32 "string list"
  | RemoveRule u32
  | EnableRule u32 bool
  | ReplaceRules u32 "ApplyRule list"
  | RestorePolicy PolicySnapshot
  | ResetAll
  | SaveRules bool
  | RestoreRules
  | EnforceHit Decision u32 u64
  | WouldHit Decision bool u32 u64

fun exec :: "(string \<Rightarrow> u32 option) \<Rightarrow> Command \<Rightarrow> Engine \<Rightarrow> Engine" where
  "exec pton4 (AddKv uid toks) e = snd (addFromKv pton4 uid toks e)"
| "exec pton4 (UpdateKv rid toks) e = snd (updateFromKv pton4 rid toks e)"
| "exec pton4 (RemoveRule rid) e = snd (removeRule rid e)"
| "exec pton4 (EnableRule rid b) e = snd (enableRule rid b e)"
| "exec pton4 (ReplaceRules uid rs) e = snd (replaceRulesForUid uid rs e)"
| "exec pton4 (RestorePolicy ps) e = snd (restorePolicySnapshot ps e)"
| "exec pton4 ResetAll e = resetAll e"
| "exec pton4 (SaveRules ioOk) e = eng_save ioOk e"
| "exec pton4 RestoreRules e = eng_restore e"
| "exec pton4 (EnforceHit d b t) e = observeEnforceHit d b t e"
| "exec pton4 (WouldHit d acc b t) e = observeWouldHitIfAccepted d acc b t e"

text \<open>The states the engine can be in.\<close>

inductive engine_reach :: "(string \<Rightarrow> u32 option) \<Rightarrow> Engine \<Rightarrow> bool" for pton4 where
  reach_init: "engine_reach pton4 (engine_init iid file0)"
| reach_step: "engine_reach pton4 e \<Longrightarrow> engine_reach pton4 (exec pton4 c e)"

text \<open>Typed input: what the control layer guarantees of rules it passes as structures, and the size of
  the rule id space.\<close>

definition apply_wf :: "ApplyRule \<Rightarrow> bool" where
  "apply_wf r \<longleftrightarrow> ar_dir r \<in> {Dir_ANY, Dir_IN, Dir_OUT} \<and> port_wf (ar_sport r) \<and> port_wf (ar_dport r) \<and>
     cidr4_wf (ar_src r) \<and> cidr4_wf (ar_dst r) \<and> cidr6_wf (ar_src6 r) \<and> cidr6_wf (ar_dst6 r)"

fun admissible :: "Command \<Rightarrow> Engine \<Rightarrow> bool" where
  "admissible (AddKv uid toks) e \<longleftrightarrow> unat (eng_nextRuleId e) + 1 < 2 ^ 32"
| "admissible (ReplaceRules uid rs) e \<longleftrightarrow>
     (\<forall>r \<in> set rs. apply_wf r) \<and> unat (eng_nextRuleId e) + length rs < 2 ^ 32"
| "admissible (RestorePolicy ps) e \<longleftrightarrow> (\<forall>d \<in> set (ps_rules ps). rule_wf d)"
| "admissible RestoreRules e \<longleftrightarrow>
     (\<forall>bytes m nx e'. eng_file e = Some bytes \<longrightarrow> restore_rules bytes (e\<lparr>eng_inOpen := True\<rparr>) = Some (m, nx, e') \<longrightarrow>
        rules_wf m \<and> ids_below nx m)"
| "admissible _ e \<longleftrightarrow> True"

inductive engine_run :: "(string \<Rightarrow> u32 option) \<Rightarrow> Engine \<Rightarrow> bool" for pton4 where
  run_init: "engine_run pton4 (engine_init iid file0)"
| run_step: "engine_run pton4 e \<Longrightarrow> admissible c e \<Longrightarrow> engine_run pton4 (exec pton4 c e)"

section \<open>The invariant holds in every reachable state\<close>

lemma eng_inv_exec: "eng_inv e \<Longrightarrow> eng_inv (exec pton4 c e)"
proof (cases c)
  case (SaveRules x)
  assume "eng_inv e"
  then show ?thesis by (simp add: SaveRules eng_save_def Let_def eng_inv_def)
qed (auto simp: eng_inv_reset eng_inv_restore observe_frame
      intro: add_op.op_inv [OF _ prod.collapse [symmetric]] update_op.op_inv [OF _ prod.collapse [symmetric]]
        remove_op.op_inv [OF _ prod.collapse [symmetric]] enable_op.op_inv [OF _ prod.collapse [symmetric]]
        replace_op.op_inv [OF _ prod.collapse [symmetric]] restore_policy_op.op_inv [OF _ prod.collapse [symmetric]])

lemma engine_reach_inv: "engine_reach pton4 e \<Longrightarrow> eng_inv e"
  by (induction rule: engine_reach.induct) (auto simp: eng_inv_init eng_inv_exec)

lemma engine_run_reach: "engine_run pton4 e \<Longrightarrow> engine_reach pton4 e"
  by (induction rule: engine_run.induct) (auto intro: engine_reach.intros)

section \<open>Epochs\<close>

text \<open>A command either leaves the published snapshot and its epoch alone or publishes at the next
  epoch.\<close>

definition epoch_step :: "Engine \<Rightarrow> Engine \<Rightarrow> bool" where
  "epoch_step e e' \<longleftrightarrow> eng_instanceId e' = eng_instanceId e \<and>
     (eng_rulesEpoch e' = eng_rulesEpoch e \<and> eng_snapshot e' = eng_snapshot e \<or>
      eng_rulesEpoch e' = eng_rulesEpoch e + 1)"

lemma heap_ext_epoch: "heap_ext e e' \<Longrightarrow> epoch_step e e'"
  by (simp add: epoch_step_def heap_ext_same)

context engine_op
begin

lemma op_epoch_step: "epoch_step e (snd (op e))"
proof (cases "op e")
  case (Pair res e')
  then show ?thesis
    using op_refused [OF Pair] op_epoch [OF Pair] heap_ext_epoch by (cases "res_ok res") (auto simp: epoch_step_def)
qed

end

lemma restore_epoch: "epoch_step e (eng_restore e)"
proof -
  obtain content opened where sr: "saver_restore (eng_file e) (eng_inOpen e) = (content, opened)" by fastforce
  let ?e1 = "e\<lparr>eng_inOpen := opened\<rparr>"
  have reset: "epoch_step e (resetAll ?e1)" by (simp add: epoch_step_def resetAll_eq)
  have publish: "epoch_step e (e2\<lparr>eng_rules := m, eng_nextRuleId := nx, eng_lastPreflight := rep,
      eng_rulesEpoch := eng_rulesEpoch e2 + 1, eng_snapshot := sn\<rparr>)"
    if "restore_rules bytes ?e1 = Some (m, nx, e2)" for bytes m nx e2 rep sn
    using restore_rules_inv [OF that] heap_ext_same(3,7) [of ?e1 e2] by (simp add: epoch_step_def)
  show ?thesis
  proof (cases content)
    case None
    then show ?thesis by (simp add: eng_restore_def sr epoch_step_def)
  next
    case (Some bytes)
    show ?thesis
      by (cases "restore_rules bytes ?e1")
         (auto simp: eng_restore_def sr Some Let_def reset intro!: publish)
  qed
qed

lemma epoch_step_exec: "epoch_step e (exec pton4 c e)"
proof (cases c)
  case RestoreRules
  then show ?thesis by (simp add: restore_epoch)
next
  case (EnforceHit d b t)
  then show ?thesis by (simp add: epoch_step_def observeEnforceHit_def Let_def split: option.splits)
next
  case (WouldHit d acc b t)
  then show ?thesis by (simp add: epoch_step_def observeWouldHitIfAccepted_def Let_def split: option.splits)
qed (auto simp: add_op.op_epoch_step update_op.op_epoch_step remove_op.op_epoch_step enable_op.op_epoch_step
      replace_op.op_epoch_step restore_policy_op.op_epoch_step, simp_all add: epoch_step_def resetAll_eq eng_save_def Let_def)

section \<open>Well-formed rules and fresh rule ids\<close>

lemma rules_wf_upd:
  "omap_wf m \<Longrightarrow> rules_wf m \<Longrightarrow> rule_wf (st_def s) \<Longrightarrow> rules_wf (omap_upd rid d (\<lambda>_. s) m)"
  by (auto simp: rules_wf_def omap_simps split: if_splits)

lemma rules_wf_emplace:
  "omap_wf m \<Longrightarrow> rules_wf m \<Longrightarrow> rule_wf (st_def s) \<Longrightarrow> rules_wf (fst (omap_emplace rid s m))"
  by (auto simp: rules_wf_def omap_simps split: if_splits)

lemma rules_wf_filter: "omap_wf m \<Longrightarrow> rules_wf m \<Longrightarrow> rules_wf (filter P m)"
  by (auto simp: rules_wf_def omap_simps split: option.splits if_splits)

lemma ids_below_filter: "omap_wf m \<Longrightarrow> ids_below n m \<Longrightarrow> ids_below n (filter P m)"
  by (auto simp: ids_below_def omap_simps split: option.splits if_splits)

lemma ids_below_emplace:
  "omap_wf m \<Longrightarrow> ids_below n m \<Longrightarrow> rid < n \<Longrightarrow> ids_below n (fst (omap_emplace rid s m))"
  by (auto simp: ids_below_def omap_simps split: if_splits)

lemma ids_below_upd: "omap_wf m \<Longrightarrow> ids_below n m \<Longrightarrow> rid < n \<Longrightarrow> ids_below n (omap_upd rid d f m)"
  by (auto simp: ids_below_def omap_simps split: if_splits)

lemma ids_below_mono: "ids_below n m \<Longrightarrow> n \<le> n' \<Longrightarrow> ids_below n' m"
  unfolding ids_below_def by (meson less_le_trans)

text \<open>Both facts about an engine, kept by a new map that has them.\<close>

definition eng_good :: "Engine \<Rightarrow> bool" where
  "eng_good e \<longleftrightarrow> rules_wf (eng_rules e) \<and> ids_below (eng_nextRuleId e) (eng_rules e)"

lemma eng_good_ext: "heap_ext e e' \<Longrightarrow> eng_good e \<Longrightarrow> eng_good e'"
  by (simp add: eng_good_def heap_ext_same)

lemma eng_good_apply:
  assumes "eng_good e" and "heap_ext e e1" and "rules_wf m"
    and "ids_below (case n of Some r \<Rightarrow> r + 1 | None \<Rightarrow> eng_nextRuleId e) m"
  shows "eng_good (snd (applyNewRules m n e1))"
  using assms eng_good_ext [OF assms(2,1)] by (auto simp: applyNewRules_def Let_def eng_good_def heap_ext_same split: option.splits)

lemma unat_plus1: "unat (x :: u32) + n < 2 ^ 32 \<Longrightarrow> 0 < n \<Longrightarrow> x < x + 1 \<and> unat (x + 1) = unat x + 1"
  by (simp add: unat_plus_if' word_less_nat_alt)

section \<open>The replacement loop assigns fresh ids\<close>

definition loop_ready :: "(string \<rightharpoonup> RuleState) \<Rightarrow> ApplyRule list \<Rightarrow> u32 \<Rightarrow> RulesMap \<Rightarrow> bool" where
  "loop_ready prev rs nx nr \<longleftrightarrow>
     omap_wf nr \<and> ids_below nx nr \<and> unat nx + length rs < 2 ^ 32 \<and> distinct (map ar_clientRuleId rs) \<and>
     (\<forall>r \<in> set rs. \<forall>s. prev (ar_clientRuleId r) = Some s \<longrightarrow>
        rd_ruleId (st_def s) < nx \<and> map_of nr (rd_ruleId (st_def s)) = None) \<and>
     (\<forall>c1 s1 c2 s2. prev c1 = Some s1 \<longrightarrow> prev c2 = Some s2 \<longrightarrow>
        rd_ruleId (st_def s1) = rd_ruleId (st_def s2) \<longrightarrow> c1 = c2)"

lemma ids_below_fresh: "ids_below n m \<Longrightarrow> n \<le> rid \<Longrightarrow> map_of m rid = None"
  unfolding ids_below_def by (metis leD not_Some_eq)

lemma loop_ready_insert:
  assumes ready: "loop_ready prev (r # rs) nx nr"
    and as: "assignRuleId (prev (ar_clientRuleId r)) nx ma = (rid, nx1, ma1)"
  shows "map_of nr rid = None" "loop_ready prev rs nx1 (fst (omap_emplace rid s nr))"
    "nx = (case ma of Some q \<Rightarrow> q + 1 | None \<Rightarrow> n0) \<Longrightarrow> nx1 = (case ma1 of Some q \<Rightarrow> q + 1 | None \<Rightarrow> n0)"
proof -
  have wf: "omap_wf nr" and below: "ids_below nx nr" and room: "unat nx + length (r # rs) < 2 ^ 32"
    using ready by (auto simp: loop_ready_def)
  have nx: "nx < nx + 1 \<and> unat (nx + 1) = unat nx + 1" using unat_plus1 [OF room] by simp
  have cases: "(\<exists>p. prev (ar_clientRuleId r) = Some p \<and> rid = rd_ruleId (st_def p) \<and> nx1 = nx \<and> ma1 = ma) \<or>
      (prev (ar_clientRuleId r) = None \<and> rid = nx \<and> nx1 = nx + 1 \<and> ma1 = Some nx)"
    using as by (auto simp: assignRuleId_def split: option.splits)
  show none: "map_of nr rid = None"
    using cases ready below ids_below_fresh [of nx nr nx] by (auto simp: loop_ready_def)
  show "nx = (case ma of Some q \<Rightarrow> q + 1 | None \<Rightarrow> n0) \<Longrightarrow> nx1 = (case ma1 of Some q \<Rightarrow> q + 1 | None \<Rightarrow> n0)"
    using cases by auto
  have le: "nx \<le> nx1" "rid < nx1" "unat nx1 \<le> unat nx + 1"
    using cases nx ready by (auto simp: loop_ready_def)
  have other: "rd_ruleId (st_def t) \<noteq> rid" if "q \<in> set rs" "prev (ar_clientRuleId q) = Some t" for q t
  proof -
    have "ar_clientRuleId q \<noteq> ar_clientRuleId r"
      using ready imageI [OF that(1), of ar_clientRuleId] by (auto simp: loop_ready_def)
    moreover have "rd_ruleId (st_def t) < nx" using ready that by (simp add: loop_ready_def)
    ultimately show ?thesis using cases ready that(2) unfolding loop_ready_def by (metis less_irrefl)
  qed
  have prevs: "rd_ruleId (st_def t) < nx1" if "q \<in> set rs" "prev (ar_clientRuleId q) = Some t" for q t
    using ready that le(1) less_le_trans [of "rd_ruleId (st_def t)" nx nx1] by (simp add: loop_ready_def)
  have "ids_below nx1 (fst (omap_emplace rid s nr))"
    using ids_below_emplace [OF wf ids_below_mono [OF below le(1)] le(2)] .
  then show "loop_ready prev rs nx1 (fst (omap_emplace rid s nr))"
    using ready other prevs le none unfolding loop_ready_def
    by (auto simp: map_of_omap_emplace)
qed

lemma validate_no_internal: "validateRuleDef d \<noteq> Inl ''internal error: duplicate ruleId''"
  by (simp add: validateRuleDef_def)

lemma replace_loop_no_duplicate:
  "loop_ready prev rs nx nr \<Longrightarrow> replace_loop prev uid rs nr nx ma e \<noteq> Inl ''internal error: duplicate ruleId''"
proof (induction rs arbitrary: nx nr ma e)
  case Nil
  then show ?case by simp
next
  case (Cons r rs)
  obtain rid nx1 ma1 where as: "assignRuleId (prev (ar_clientRuleId r)) nx ma = (rid, nx1, ma1)" by (metis prod_cases3)
  obtain a e1 where st: "assignStats (prev (ar_clientRuleId r)) (def_of_apply rid uid r) e = (a, e1)" by fastforce
  let ?s = "\<lparr>st_def = def_of_apply rid uid r, st_stats = a\<rparr>"
  note ready = loop_ready_insert [OF Cons.prems as]
  have em: "omap_emplace rid ?s nr = (fst (omap_emplace rid ?s nr), True)"
    using ready(1) by (simp add: omap_emplace_def)
  show ?case
    using Cons.IH [OF ready(2) [of ?s]] validate_no_internal
    by (cases "validateRuleDef (def_of_apply rid uid r)") (auto simp: as st, subst (asm) em, simp)
qed

lemma rule_wf_apply: "apply_wf r \<Longrightarrow> rule_wf (def_of_apply rid uid r)"
  by (simp add: apply_wf_def rule_wf_def def_of_apply_def)

lemma replace_loop_good:
  assumes "replace_loop prev uid rs nr nx ma e = Inr (nr', ma', e')"
    and "loop_ready prev rs nx nr" and "rules_wf nr" and "\<forall>r \<in> set rs. apply_wf r"
    and "nx = (case ma of Some q \<Rightarrow> q + 1 | None \<Rightarrow> n0)"
  shows "rules_wf nr' \<and> ids_below (case ma' of Some q \<Rightarrow> q + 1 | None \<Rightarrow> n0) nr'"
  using assms
proof (induction rs arbitrary: nr nx ma e)
  case Nil
  then show ?case by (auto simp: loop_ready_def)
next
  case (Cons r rs)
  from Cons.prems(1) show ?case
  proof (rule replace_loop_step)
    fix rid a e1 nr1 nx1 ma1
    let ?s = "\<lparr>st_def = def_of_apply rid uid r, st_stats = a\<rparr>"
    assume as: "assignRuleId (prev (ar_clientRuleId r)) nx ma = (rid, nx1, ma1)"
      and em: "omap_emplace rid ?s nr = (nr1, True)" and loop: "replace_loop prev uid rs nr1 nx1 ma1 e1 = Inr (nr', ma', e')"
    note ready = loop_ready_insert [OF Cons.prems(2) as]
    have "rules_wf nr1"
      using rules_wf_emplace [of nr ?s rid] Cons.prems(2,3,4) em by (simp add: loop_ready_def rule_wf_apply)
    then show ?thesis using Cons.IH [OF loop] ready(2) [of ?s] ready(3) [OF Cons.prems(5)] Cons.prems(4) em by simp
  qed
qed

section \<open>Admissible commands keep rules well formed and ids fresh\<close>

lemma loop_ready_init:
  assumes inv: "eng_inv e" and below: "ids_below (eng_nextRuleId e) (eng_rules e)"
    and "check_client_ids {} rs = None" and "unat (eng_nextRuleId e) + length rs < 2 ^ 32"
  shows "loop_ready (prevByClientId uid (eng_rules e)) rs (eng_nextRuleId e)
    (filter (\<lambda>p. rd_uid (st_def (snd p)) \<noteq> uid) (eng_rules e))"
proof -
  have base: "rules_inv (eng_nextAddr e) (eng_rules e)" using inv by (simp add: eng_inv_def)
  note wf = rules_invD(1) [OF base] and prev = prev_rule [OF base]
  have one: "rd_ruleId (st_def s) < eng_nextRuleId e \<and>
      map_of (filter (\<lambda>p. rd_uid (st_def (snd p)) \<noteq> uid) (eng_rules e)) (rd_ruleId (st_def s)) = None"
    if "prevByClientId uid (eng_rules e) c = Some s" for c s
    using prev [OF that] below by (simp add: ids_below_def map_of_filter_omap [OF wf])
  have two: "c1 = c2" if "prevByClientId uid (eng_rules e) c1 = Some s1" "prevByClientId uid (eng_rules e) c2 = Some s2"
    "rd_ruleId (st_def s1) = rd_ruleId (st_def s2)" for c1 s1 c2 s2
    using prev [OF that(1)] prev [OF that(2)] that(3) by (metis option.inject)
  show ?thesis
    unfolding loop_ready_def using assms(3,4) one two wf below
    by (auto simp: check_client_ids_None ids_below_filter)
qed

lemma replace_good:
  assumes inv: "eng_inv e" and good: "eng_good e" and "\<forall>r \<in> set rs. apply_wf r"
    and "unat (eng_nextRuleId e) + length rs < 2 ^ 32"
  shows "eng_good (snd (replaceRulesForUid uid rs e))"
proof (cases "check_client_ids {} rs")
  case (Some err)
  then show ?thesis using good by (simp add: replaceRulesForUid_def)
next
  case None
  let ?kept = "filter (\<lambda>p. rd_uid (st_def (snd p)) \<noteq> uid) (eng_rules e)"
  have base: "rules_inv (eng_nextAddr e) (eng_rules e)" using inv by (simp add: eng_inv_def)
  have ready: "loop_ready (prevByClientId uid (eng_rules e)) rs (eng_nextRuleId e) ?kept"
    using loop_ready_init [OF inv _ None assms(4)] good by (simp add: eng_good_def)
  have kept: "rules_wf ?kept" using rules_wf_filter [OF rules_invD(1) [OF base]] good by (simp add: eng_good_def)
  show ?thesis
  proof (cases "replace_loop (prevByClientId uid (eng_rules e)) uid rs ?kept (eng_nextRuleId e) None e")
    case (Inl err)
    then show ?thesis using None good by (simp add: replaceRulesForUid_def Let_def)
  next
    case (Inr res)
    then obtain nr ma e1 where loop: "replace_loop (prevByClientId uid (eng_rules e)) uid rs ?kept (eng_nextRuleId e) None e = Inr (nr, ma, e1)"
      by (cases res) auto
    have "rules_wf nr \<and> ids_below (case ma of Some q \<Rightarrow> q + 1 | None \<Rightarrow> eng_nextRuleId e) nr"
      using replace_loop_good [OF loop ready kept assms(3)] by simp
    then have "eng_good (snd (applyNewRules nr ma e1))"
      using eng_good_apply [OF good replace_loop_ext [OF loop]] by blast
    then show ?thesis using None loop by (simp add: replaceRulesForUid_def Let_def)
  qed
qed

lemma rule_wf_upd_ids [simp]:
  "rule_wf (d\<lparr>rd_ruleId := x\<rparr>) = rule_wf d" "rule_wf (d\<lparr>rd_uid := u\<rparr>) = rule_wf d"
  "rule_wf (d\<lparr>rd_clientRuleId := c\<rparr>) = rule_wf d" "rule_wf (d\<lparr>rd_enabled := b\<rparr>) = rule_wf d"
  "rule_wf (d\<lparr>rd_enforce := b\<rparr>) = rule_wf d" "rule_wf (d\<lparr>rd_log := b\<rparr>) = rule_wf d"
  by (simp_all add: rule_wf_def)

lemma add_good:
  assumes inv: "eng_inv e" and good: "eng_good e" and room: "unat (eng_nextRuleId e) + 1 < 2 ^ 32"
  shows "eng_good (snd (addFromKv pton4 uid toks e))"
proof -
  have wf: "omap_wf (eng_rules e)" using inv by (auto simp: eng_inv_def dest: rules_invD(1))
  have nx: "eng_nextRuleId e < eng_nextRuleId e + 1" using unat_plus1 [OF room] by simp
  obtain a e1 where ms: "make_stats e = (a, e1)" by fastforce
  note ext = make_stats_ext(1) [OF ms]
  have "eng_good (snd (applyNewRules (fst (omap_emplace (eng_nextRuleId e) \<lparr>st_def = def, st_stats = a\<rparr> (eng_rules e)))
      (Some (eng_nextRuleId e)) e1))" if "rule_wf def" for def
    using that good nx wf ids_below_mono [of "eng_nextRuleId e" "eng_rules e" "eng_nextRuleId e + 1"]
    by (intro eng_good_apply [OF good ext]) (auto simp: eng_good_def intro!: rules_wf_emplace ids_below_emplace)
  then show ?thesis
    using good kv_loop_wf [of "rule_default\<lparr>rd_ruleId := eng_nextRuleId e, rd_uid := uid,
        rd_clientRuleId := legacyClientRuleId uid (eng_nextRuleId e), rd_enabled := True, rd_enforce := True, rd_log := False\<rparr>"]
    by (auto simp: addFromKv_def Let_def ms heap_ext_same(1) [OF ext] split: sum.splits)
qed

lemma stage_loop_good:
  assumes "stage_loop defs staged mx e = Inr (m, mx', e')" and "omap_wf staged" and "\<forall>d \<in> set defs. rule_wf d"
    and "rules_wf staged" and "\<forall>rid s. map_of staged rid = Some s \<longrightarrow> rid \<le> mx"
  shows "rules_wf m \<and> (\<forall>rid s. map_of m rid = Some s \<longrightarrow> rid \<le> mx') \<and> (defs = [] \<longrightarrow> m = staged)"
  using assms
proof (induction defs arbitrary: staged mx e)
  case Nil
  then show ?case by auto
next
  case (Cons d defs)
  from Cons.prems(1) show ?case
  proof (rule stage_loop_step)
    fix a e1 staged1
    let ?s = "\<lparr>st_def = d, st_stats = a\<rparr>"
    assume em: "omap_emplace (rd_ruleId d) ?s staged = (staged1, True)"
      and loop: "stage_loop defs staged1 (max mx (rd_ruleId d)) e1 = Inr (m, mx', e')"
    have st1: "staged1 = fst (omap_emplace (rd_ruleId d) ?s staged)" using em by simp
    have "rules_wf staged1" unfolding st1 using Cons.prems by (intro rules_wf_emplace) auto
    moreover have "\<forall>rid s. map_of staged1 rid = Some s \<longrightarrow> rid \<le> max mx (rd_ruleId d)"
      unfolding st1 using Cons.prems(2,5) by (auto simp: map_of_omap_emplace le_max_iff_disj)
    moreover have "omap_wf staged1" unfolding st1 using Cons.prems(2) by simp
    ultimately show ?thesis using Cons.IH [OF loop] Cons.prems(3) by simp
  qed
qed

lemma restore_policy_good:
  assumes good: "eng_good e" and ok: "\<forall>d \<in> set (ps_rules ps). rule_wf d"
  shows "eng_good (snd (restorePolicySnapshot ps e))"
proof (cases "stage ps e")
  case (Inl err)
  then show ?thesis using good by (simp add: restorePolicySnapshot_def)
next
  case (Inr res)
  then obtain m e1 where st: "stage ps e = Inr (m, e1)" by (cases res) auto
  then obtain mx where loop: "stage_loop (ps_rules ps) [] 0 e = Inr (m, mx, e1)"
    and nxt: "ps_rules ps = [] \<or> mx < ps_nextRuleId ps"
    by (auto simp: stage_def not_le split: sum.splits if_splits)
  have m: "rules_wf m \<and> (\<forall>rid s. map_of m rid = Some s \<longrightarrow> rid \<le> mx) \<and> (ps_rules ps = [] \<longrightarrow> m = [])"
    using stage_loop_good [OF loop _ ok] by (simp add: rules_wf_def)
  then have "ids_below (ps_nextRuleId ps) m"
    using nxt by (auto simp: ids_below_def intro: le_less_trans)
  moreover have "eng_good e1" using eng_good_ext good stage_inv [OF st] by blast
  ultimately show ?thesis using m
    by (simp add: restorePolicySnapshot_def st Let_def eng_good_def)
qed

lemma restore_good:
  assumes good: "eng_good e" and adm: "admissible RestoreRules e"
  shows "eng_good (eng_restore e)"
proof -
  obtain content opened where sr: "saver_restore (eng_file e) (eng_inOpen e) = (content, opened)" by fastforce
  have reset: "eng_good (resetAll x)" for x by (simp add: eng_good_def resetAll_eq rules_wf_def ids_below_def)
  show ?thesis
  proof (cases content)
    case None
    then show ?thesis using good by (simp add: eng_restore_def sr eng_good_def)
  next
    case (Some bytes)
    then have f: "eng_file e = Some bytes" "opened = True"
      using sr by (auto simp: saver_restore_def split: if_splits option.splits)
    show ?thesis
    proof (cases "restore_rules bytes (e\<lparr>eng_inOpen := True\<rparr>)")
      case None
      then show ?thesis using reset by (simp add: eng_restore_def sr Some f(2) Let_def)
    next
      case r: (Some res)
      then obtain m nx e2 where res: "restore_rules bytes (e\<lparr>eng_inOpen := True\<rparr>) = Some (m, nx, e2)"
        by (cases res) auto
      then have "rules_wf m \<and> ids_below nx m" using adm f(1) by simp
      then show ?thesis using reset res
        by (simp add: eng_restore_def sr Some f(2) Let_def) (simp add: eng_good_def)
    qed
  qed
qed

lemma eng_good_exec:
  assumes inv: "eng_inv e" and good: "eng_good e" and adm: "admissible c e"
  shows "eng_good (exec pton4 c e)"
proof -
  have base: "rules_inv (eng_nextAddr e) (eng_rules e)" using inv by (simp add: eng_inv_def)
  note wf = rules_invD(1) [OF base]
  have bl: "ids_below (eng_nextRuleId e) (eng_rules e)" and rw: "rules_wf (eng_rules e)" using good by (auto simp: eng_good_def)
  have upd: "eng_good (snd (applyNewRules (omap_upd rid d (\<lambda>_. st2) (eng_rules e)) None e1))"
    if "heap_ext e e1" "map_of (eng_rules e) rid = Some st" "rule_wf (st_def st2)" for rid d st st2 e1
  proof -
    have "rid < eng_nextRuleId e" using bl that(2) by (auto simp: ids_below_def)
    then show ?thesis
      using rules_wf_upd [OF wf rw that(3)] ids_below_upd [OF wf bl] by (intro eng_good_apply [OF good that(1)]) simp_all
  qed
  obtain a e1 where ms: "make_stats e = (a, e1)" by fastforce
  note ext = make_stats_ext(1) [OF ms]
  show ?thesis
  proof (cases c)
    case (AddKv uid toks)
    then show ?thesis using add_good [OF inv good] adm by simp
  next
    case (UpdateKv rid toks)
    have "eng_good (snd (updateFromKv pton4 rid toks e))"
      using good rw
      by (auto simp: updateFromKv_def Let_def ms heap_ext_same(1) [OF ext] rules_wf_def intro!: upd [OF ext]
          elim!: kv_loop_wf [rotated] split: option.splits sum.splits)
    then show ?thesis by (simp add: UpdateKv)
  next
    case (RemoveRule rid)
    have "eng_good (snd (removeRule rid e))"
      using good wf bl rw by (auto simp: removeRule_def omap_erase_def intro!: eng_good_apply [OF good heap_ext_refl]
          rules_wf_filter ids_below_filter split: option.splits)
    then show ?thesis by (simp add: RemoveRule)
  next
    case (EnableRule rid b)
    have "eng_good (snd (enableRule rid b e))"
      using good rw
      by (auto simp: enableRule_def Let_def ms heap_ext_same(1) [OF ext] rules_wf_def
          intro!: upd [OF ext] upd [OF heap_ext_refl] split: option.splits)
    then show ?thesis by (simp add: EnableRule)
  next
    case (ReplaceRules uid rs)
    then show ?thesis using replace_good [OF inv good] adm by simp
  next
    case (RestorePolicy ps)
    then show ?thesis using restore_policy_good [OF good] adm by simp
  next
    case RestoreRules
    then show ?thesis using restore_good [OF good] adm by simp
  qed (use good in \<open>auto simp: eng_good_def resetAll_eq eng_save_def Let_def observe_frame rules_wf_def ids_below_def
        observeEnforceHit_def observeWouldHitIfAccepted_def split: option.splits\<close>)
qed

lemma engine_run_good: "engine_run pton4 e \<Longrightarrow> eng_good e"
proof (induction rule: engine_run.induct)
  case (run_init iid file0)
  then show ?case by (simp add: eng_good_def engine_init_def Let_def rules_wf_def ids_below_def)
next
  case (run_step e c)
  then show ?case using eng_good_exec engine_reach_inv engine_run_reach by blast
qed

lemma run_rules_ok:
  assumes "engine_run pton4 e"
  shows "rules_ok (eng_rules e)"
proof -
  have base: "rules_inv (eng_nextAddr e) (eng_rules e)"
    using engine_reach_inv [OF engine_run_reach [OF assms]] by (simp add: eng_inv_def)
  note wf = rules_invD(1) [OF base]
  have "rules_wf (eng_rules e)" using engine_run_good [OF assms] by (simp add: eng_good_def)
  then show ?thesis
    unfolding rules_ok_def using wf rules_invD(2) [OF base] by (auto simp: omap_in_set_iff rules_wf_def)
qed

section \<open>What a replacement does\<close>

text \<open>How the new map holds an applied rule: its definition, the id it had before, and counters that
  are the previous ones exactly when match and behaviour are unchanged, otherwise fresh ones between
  two allocation marks.\<close>

definition replaced_as :: "(string \<rightharpoonup> RuleState) \<Rightarrow> u32 \<Rightarrow> addr \<Rightarrow> addr \<Rightarrow> RulesMap \<Rightarrow> ApplyRule \<Rightarrow> bool" where
  "replaced_as prev uid lo hi m r \<longleftrightarrow>
     (\<exists>rid s. map_of m rid = Some s \<and> st_def s = def_of_apply rid uid r \<and>
        (\<forall>p. prev (ar_clientRuleId r) = Some p \<longrightarrow> rid = rd_ruleId (st_def p)) \<and>
        (if \<exists>p. prev (ar_clientRuleId r) = Some p \<and> sameMatch (st_def p) (st_def s) \<and> sameBehavior (st_def p) (st_def s)
         then st_stats s = st_stats (the (prev (ar_clientRuleId r)))
         else lo \<le> st_stats s \<and> st_stats s < hi))"

lemma replaced_as_mono: "replaced_as prev uid lo hi m r \<Longrightarrow> lo' \<le> lo \<Longrightarrow> replaced_as prev uid lo' hi m r"
  unfolding replaced_as_def by (elim ex_forward) (auto split: if_splits)

lemma replace_loop_result:
  assumes "replace_loop prev uid rs nr nx ma e = Inr (nr', ma', e')" and "omap_wf nr"
  shows "omap_wf nr'"
    "\<And>rid s. map_of nr rid = Some s \<Longrightarrow> map_of nr' rid = Some s"
    "\<And>rid s. map_of nr' rid = Some s \<Longrightarrow> map_of nr rid = Some s \<or> (\<exists>r \<in> set rs. st_def s = def_of_apply rid uid r)"
    "\<And>r. r \<in> set rs \<Longrightarrow> replaced_as prev uid (eng_nextAddr e) (eng_nextAddr e') nr' r"
  using assms
proof (atomize (full), induction rs arbitrary: nr nx ma e)
  case Nil
  then show ?case by simp
next
  case (Cons r rs)
  from Cons.prems(1) obtain rid a e1 nr1 nx1 ma1 where
    as: "assignRuleId (prev (ar_clientRuleId r)) nx ma = (rid, nx1, ma1)" and
    st: "assignStats (prev (ar_clientRuleId r)) (def_of_apply rid uid r) e = (a, e1)" and
    em: "omap_emplace rid \<lparr>st_def = def_of_apply rid uid r, st_stats = a\<rparr> nr = (nr1, True)" and
    loop: "replace_loop prev uid rs nr1 nx1 ma1 e1 = Inr (nr', ma', e')"
    by (rule replace_loop_step)
  let ?s = "\<lparr>st_def = def_of_apply rid uid r, st_stats = a\<rparr>"
  have wf1: "omap_wf nr1" using omap_emplace_inserted(2) [OF em] Cons.prems(2) by simp
  have lk: "map_of nr1 = (map_of nr)(rid \<mapsto> ?s)" and none: "map_of nr rid = None"
    using omap_emplace_inserted [OF em] Cons.prems(2) by (simp_all add: map_of_omap_upd)
  have ext: "heap_ext e e1" by (rule assignStats_ext [OF st])
  have ext': "heap_ext e1 e'" by (rule replace_loop_ext [OF loop])
  have rid: "\<forall>p. prev (ar_clientRuleId r) = Some p \<longrightarrow> rid = rd_ruleId (st_def p)"
    using as by (auto simp: assignRuleId_def)
  have stats: "if \<exists>p. prev (ar_clientRuleId r) = Some p \<and> sameMatch (st_def p) (def_of_apply rid uid r) \<and> sameBehavior (st_def p) (def_of_apply rid uid r)
      then a = st_stats (the (prev (ar_clientRuleId r))) else eng_nextAddr e \<le> a \<and> a < eng_nextAddr e'"
    using assignStats_cases [OF st] make_stats_ext(2,3) heap_ext_same(8) [OF ext'] by fastforce
  note IH = Cons.IH [OF loop wf1]
  have new: "map_of nr' rid = Some ?s" using IH by (simp add: lk)
  have "replaced_as prev uid (eng_nextAddr e) (eng_nextAddr e') nr' r"
    unfolding replaced_as_def by (rule exI [of _ rid], rule exI [of _ ?s]) (use new rid stats in simp)
  moreover have "replaced_as prev uid (eng_nextAddr e) (eng_nextAddr e') nr' q" if "q \<in> set rs" for q
    using replaced_as_mono [OF _ heap_ext_same(8) [OF ext]] IH that by blast
  moreover have "map_of nr' i = Some t" if "map_of nr i = Some t" for i t
  proof -
    have "map_of nr1 i = Some t" using that none by (auto simp: lk)
    then show ?thesis using IH by blast
  qed
  moreover have "map_of nr i = Some t \<or> (\<exists>q \<in> set (r # rs). st_def t = def_of_apply i uid q)" if "map_of nr' i = Some t" for i t
  proof -
    have "map_of nr1 i = Some t \<or> (\<exists>q \<in> set rs. st_def t = def_of_apply i uid q)" using IH that by blast
    then show ?thesis by (auto simp: lk split: if_splits)
  qed
  ultimately show ?case using IH by auto
qed

text \<open>The contract of \<^verbatim>\<open>replaceRulesForUid\<close>.\<close>

definition keeps_counters :: "Engine \<Rightarrow> u32 \<Rightarrow> ApplyRule \<Rightarrow> u32 \<Rightarrow> bool" where
  "keeps_counters e uid r rid \<longleftrightarrow>
     (\<exists>p. prevByClientId uid (eng_rules e) (ar_clientRuleId r) = Some p \<and>
        sameMatch (st_def p) (def_of_apply rid uid r) \<and> sameBehavior (st_def p) (def_of_apply rid uid r))"

definition replace_spec :: "u32 \<Rightarrow> ApplyRule list \<Rightarrow> Engine \<Rightarrow> Engine \<Rightarrow> bool" where
  "replace_spec uid rs e e' \<longleftrightarrow>
     (\<forall>rid s. rd_uid (st_def s) \<noteq> uid \<longrightarrow>
        (map_of (eng_rules e') rid = Some s \<longleftrightarrow> map_of (eng_rules e) rid = Some s)) \<and>
     (\<forall>rid s. map_of (eng_rules e') rid = Some s \<longrightarrow> rd_uid (st_def s) = uid \<longrightarrow>
        (\<exists>r \<in> set rs. st_def s = def_of_apply rid uid r)) \<and>
     (\<forall>r \<in> set rs. \<exists>rid. getRule e' rid = Some (def_of_apply rid uid r) \<and>
        (\<forall>p. prevByClientId uid (eng_rules e) (ar_clientRuleId r) = Some p \<longrightarrow> rid = rd_ruleId (st_def p)) \<and>
        statsSnapshot e' rid = (if keeps_counters e uid r rid then statsSnapshot e rid else Some zeroStats))"

lemma replace_meets_spec:
  assumes inv: "eng_inv e" and op: "replaceRulesForUid uid rs e = (res, e')" and ok: "res_ok res"
  shows "replace_spec uid rs e e'"
proof -
  define prev where "prev = prevByClientId uid (eng_rules e)"
  let ?kept = "filter (\<lambda>p. rd_uid (st_def (snd p)) \<noteq> uid) (eng_rules e)"
  have base: "rules_inv (eng_nextAddr e) (eng_rules e)" using inv by (simp add: eng_inv_def)
  note wf = rules_invD(1) [OF base]
  have "\<not> res_ok (nokResult n)" for n by (simp add: nokResult_def)
  then obtain nr ma e1 where loop: "replace_loop prev uid rs ?kept (eng_nextRuleId e) None e = Inr (nr, ma, e1)"
    and app: "applyNewRules nr ma e1 = (res, e')"
    using op ok by (auto simp: replaceRulesForUid_def prev_def Let_def split: option.splits sum.splits)
  have ext: "heap_ext e e1" by (rule replace_loop_ext [OF loop])
  have e': "eng_rules e' = nr" "eng_heap e' = eng_heap e1" using applyNewRules_ok(1,3) [OF app ok] by auto
  note res = replace_loop_result [OF loop omap_wf_filter [OF wf]]
  have kept: "map_of ?kept rid = Some s \<longleftrightarrow> map_of (eng_rules e) rid = Some s \<and> rd_uid (st_def s) \<noteq> uid" for rid s
    by (auto simp: map_of_filter_omap [OF wf] split: option.splits if_splits)
  have A: "map_of nr rid = Some s \<longleftrightarrow> map_of (eng_rules e) rid = Some s" if "rd_uid (st_def s) \<noteq> uid" for rid s
    using res(2) [of rid s] res(3) [of rid s] that kept by auto
  have B: "\<exists>r \<in> set rs. st_def s = def_of_apply rid uid r" if "map_of nr rid = Some s" "rd_uid (st_def s) = uid" for rid s
    using res(3) [OF that(1)] that(2) kept by auto
  have C: "\<exists>rid. getRule e' rid = Some (def_of_apply rid uid r) \<and>
        (\<forall>p. prev (ar_clientRuleId r) = Some p \<longrightarrow> rid = rd_ruleId (st_def p)) \<and>
        statsSnapshot e' rid = (if keeps_counters e uid r rid then statsSnapshot e rid else Some zeroStats)"
    if "r \<in> set rs" for r
  proof -
    from res(4) [OF that] obtain rid s where s: "map_of nr rid = Some s" "st_def s = def_of_apply rid uid r"
      and rid: "\<forall>p. prev (ar_clientRuleId r) = Some p \<longrightarrow> rid = rd_ruleId (st_def p)"
      and stats: "if keeps_counters e uid r rid then st_stats s = st_stats (the (prev (ar_clientRuleId r)))
         else eng_nextAddr e \<le> st_stats s \<and> st_stats s < eng_nextAddr e1"
      unfolding replaced_as_def keeps_counters_def prev_def [symmetric] by auto
    have "statsSnapshot e' rid = (if keeps_counters e uid r rid then statsSnapshot e rid else Some zeroStats)"
    proof (cases "keeps_counters e uid r rid")
      case True
      then obtain p where p: "prev (ar_clientRuleId r) = Some p" by (auto simp: keeps_counters_def prev_def)
      note old = prev_rule(1) [OF base p [unfolded prev_def]]
      have "st_stats p < eng_nextAddr e" by (rule rules_invD(4) [OF base old])
      then show ?thesis using True stats p old rid s ext by (simp add: statsSnapshot_def e' heap_ext_def)
    next
      case False
      then show ?thesis using stats s ext by (simp add: statsSnapshot_def e' heap_ext_def)
    qed
    moreover have "getRule e' rid = Some (def_of_apply rid uid r)" using s by (simp add: getRule_def e')
    ultimately show ?thesis using rid by blast
  qed
  show ?thesis unfolding replace_spec_def e'(1) using A B C [unfolded prev_def] by blast
qed

section \<open>Single-rule commands\<close>

lemma nok_not_ok [simp]: "\<not> res_ok (nokResult n)" "res_ok (okResult r)"
  by (simp_all add: nokResult_def okResult_def)

lemma stats_unchanged:
  assumes inv: "eng_inv e" and ext: "heap_ext e e1" and "eng_heap e' = eng_heap e1"
    and "map_of (eng_rules e') rid = map_of (eng_rules e) rid"
  shows "statsSnapshot e' rid = statsSnapshot e rid" "getRule e' rid = getRule e rid"
proof -
  have "st_stats s < eng_nextAddr e" if "map_of (eng_rules e) rid = Some s" for s
    using inv that by (auto simp: eng_inv_def dest: rules_invD(4))
  then show "statsSnapshot e' rid = statsSnapshot e rid"
    using assms(3,4) ext by (cases "map_of (eng_rules e) rid") (auto simp: statsSnapshot_def heap_ext_def)
  show "getRule e' rid = getRule e rid" using assms(4) by (simp add: getRule_def)
qed

lemma add_result:
  assumes inv: "eng_inv e" and below: "ids_below (eng_nextRuleId e) (eng_rules e)"
    and op: "addFromKv pton4 uid toks e = (res, e')" and ok: "res_ok res"
  shows "\<exists>def. kv_loop pton4 toks (rule_default\<lparr>rd_ruleId := eng_nextRuleId e, rd_uid := uid,
        rd_clientRuleId := legacyClientRuleId uid (eng_nextRuleId e)\<rparr>) = Inr def \<and>
      validateRuleDef def = Inr () \<and> res_ruleId res = Some (eng_nextRuleId e) \<and>
      getRule e' (eng_nextRuleId e) = Some def \<and> statsSnapshot e' (eng_nextRuleId e) = Some zeroStats \<and>
      (\<forall>rid. rid \<noteq> eng_nextRuleId e \<longrightarrow> getRule e' rid = getRule e rid \<and> statsSnapshot e' rid = statsSnapshot e rid)"
proof -
  let ?d0 = "rule_default\<lparr>rd_ruleId := eng_nextRuleId e, rd_uid := uid,
        rd_clientRuleId := legacyClientRuleId uid (eng_nextRuleId e)\<rparr>"
  have d0: "rule_default\<lparr>rd_ruleId := eng_nextRuleId e, rd_uid := uid,
        rd_clientRuleId := legacyClientRuleId uid (eng_nextRuleId e), rd_enabled := True, rd_enforce := True, rd_log := False\<rparr> = ?d0"
    by (simp add: rule_default_def)
  obtain a e1 where ms: "make_stats e = (a, e1)" by fastforce
  note ext = make_stats_ext [OF ms]
  have wf: "omap_wf (eng_rules e)" using inv by (auto simp: eng_inv_def dest: rules_invD(1))
  have none: "map_of (eng_rules e) (eng_nextRuleId e) = None" using ids_below_fresh [OF below] by simp
  from op ok obtain def where def: "kv_loop pton4 toks ?d0 = Inr def" "validateRuleDef def = Inr ()"
    and app: "applyNewRules (fst (omap_emplace (eng_nextRuleId e) \<lparr>st_def = def, st_stats = a\<rparr> (eng_rules e)))
      (Some (eng_nextRuleId e)) e1 = (res, e')"
    by (auto simp: addFromKv_def Let_def d0 ms heap_ext_same(1) [OF ext(1)] split: sum.splits if_splits)
  note r = applyNewRules_ok [OF app ok]
  have lk: "map_of (eng_rules e') = (map_of (eng_rules e))(eng_nextRuleId e \<mapsto> \<lparr>st_def = def, st_stats = a\<rparr>)"
    using none by (simp add: r(1) map_of_omap_emplace [OF wf])
  have "statsSnapshot e' (eng_nextRuleId e) = Some zeroStats" using ext(4) by (simp add: statsSnapshot_def lk r(3))
  moreover have "getRule e' rid = getRule e rid \<and> statsSnapshot e' rid = statsSnapshot e rid"
    if "rid \<noteq> eng_nextRuleId e" for rid
    using stats_unchanged [OF inv ext(1) r(3), of rid] that by (simp add: lk)
  ultimately show ?thesis using def r(8) by (auto simp: getRule_def lk)
qed

lemma update_result:
  assumes inv: "eng_inv e" and op: "updateFromKv pton4 ruleId toks e = (res, e')" and ok: "res_ok res"
  shows "\<exists>old def. getRule e ruleId = Some old \<and> kv_loop pton4 toks old = Inr def \<and> validateRuleDef def = Inr () \<and>
      getRule e' ruleId = Some def \<and> statsSnapshot e' ruleId = Some zeroStats \<and>
      (\<forall>rid. rid \<noteq> ruleId \<longrightarrow> getRule e' rid = getRule e rid \<and> statsSnapshot e' rid = statsSnapshot e rid)"
proof -
  obtain a e1 where ms: "make_stats e = (a, e1)" by fastforce
  note ext = make_stats_ext [OF ms]
  have wf: "omap_wf (eng_rules e)" using inv by (auto simp: eng_inv_def dest: rules_invD(1))
  from op ok obtain st def where st: "map_of (eng_rules e) ruleId = Some st"
    and def: "kv_loop pton4 toks (st_def st) = Inr def" "validateRuleDef def = Inr ()"
    and app: "applyNewRules (omap_upd ruleId st (\<lambda>_. \<lparr>st_def = def, st_stats = a\<rparr>) (eng_rules e)) None e1 = (res, e')"
    by (auto simp: updateFromKv_def ms heap_ext_same(1) [OF ext(1)] split: option.splits sum.splits)
  note r = applyNewRules_ok [OF app ok]
  have lk: "map_of (eng_rules e') = (map_of (eng_rules e))(ruleId \<mapsto> \<lparr>st_def = def, st_stats = a\<rparr>)"
    by (simp add: r(1) map_of_omap_upd [OF wf])
  have "statsSnapshot e' ruleId = Some zeroStats" using ext(4) by (simp add: statsSnapshot_def lk r(3))
  moreover have "getRule e' rid = getRule e rid \<and> statsSnapshot e' rid = statsSnapshot e rid" if "rid \<noteq> ruleId" for rid
    using stats_unchanged [OF inv ext(1) r(3), of rid] that by (simp add: lk)
  ultimately show ?thesis using st def by (auto simp: getRule_def lk)
qed

lemma enable_result:
  assumes inv: "eng_inv e" and op: "enableRule ruleId enabled e = (res, e')" and ok: "res_ok res"
  shows "\<exists>old. getRule e ruleId = Some old \<and> getRule e' ruleId = Some (old\<lparr>rd_enabled := enabled\<rparr>) \<and>
      statsSnapshot e' ruleId = (if \<not> rd_enabled old \<and> enabled then Some zeroStats else statsSnapshot e ruleId) \<and>
      (\<forall>rid. rid \<noteq> ruleId \<longrightarrow> getRule e' rid = getRule e rid \<and> statsSnapshot e' rid = statsSnapshot e rid)"
proof -
  from op ok obtain st where st: "map_of (eng_rules e) ruleId = Some st"
    by (auto simp: enableRule_def split: option.splits)
  show ?thesis
  proof (cases "rd_enabled (st_def st) = enabled")
    case True
    then have "e' = e" using op st by (simp add: enableRule_def)
    moreover have "(st_def st)\<lparr>rd_enabled := enabled\<rparr> = st_def st" using True by simp
    ultimately show ?thesis using st True by (auto simp: getRule_def)
  next
    case False
    obtain a0 e0 where ms: "make_stats e = (a0, e0)" by fastforce
    note ext0 = make_stats_ext [OF ms]
    define a where "a = (if enabled then a0 else st_stats st)"
    define e1 where "e1 = (if enabled then e0 else e)"
    let ?s = "\<lparr>st_def = (st_def st)\<lparr>rd_enabled := enabled\<rparr>, st_stats = a\<rparr>"
    have ext: "heap_ext e e1" using ext0(1) by (simp add: e1_def)
    have wf: "omap_wf (eng_rules e)" using inv by (auto simp: eng_inv_def dest: rules_invD(1))
    have record_upd: "st\<lparr>st_def := d\<rparr> = \<lparr>st_def = d, st_stats = st_stats st\<rparr>" for d by simp
    have app: "applyNewRules (omap_upd ruleId ?s (\<lambda>_. ?s) (eng_rules e)) None e1 = (res, e')"
      using op st False heap_ext_same(1) [OF ext0(1)]
      by (cases enabled) (auto simp: enableRule_def ms a_def e1_def Let_def record_upd)
    note r = applyNewRules_ok [OF app ok]
    have lk: "map_of (eng_rules e') = (map_of (eng_rules e))(ruleId \<mapsto> ?s)" by (simp add: r(1) map_of_omap_upd [OF wf])
    have "statsSnapshot e' ruleId = (if enabled then Some zeroStats else statsSnapshot e ruleId)"
      using ext0(4) st by (simp add: statsSnapshot_def lk r(3) a_def e1_def)
    moreover have "getRule e' rid = getRule e rid \<and> statsSnapshot e' rid = statsSnapshot e rid" if "rid \<noteq> ruleId" for rid
      using stats_unchanged [OF inv ext r(3), of rid] that by (simp add: lk)
    ultimately show ?thesis using st False by (auto simp: getRule_def lk)
  qed
qed

section \<open>Counting\<close>

lemma snapshot_inv: "eng_inv e \<Longrightarrow> eng_snapshot e = compile_snapshot (eng_rules e) (eng_rulesEpoch e)"
  by (auto simp: eng_inv_def compile_def)

lemma decision_stats:
  assumes "eng_inv e" and "decision_spec app (eng_rules e) d" and "d_matched d"
  shows "\<exists>s. map_of (eng_rules e) (d_ruleId d) = Some s \<and> d_stats d = Some (st_stats s) \<and> app s"
proof -
  have base: "rules_inv (eng_nextAddr e) (eng_rules e)" using assms(1) by (simp add: eng_inv_def)
  from assms(2,3) obtain rid s where s: "(rid, s) \<in> set (eng_rules e)" "app s" "d_ruleId d = rd_ruleId (st_def s)"
    "d_stats d = Some (st_stats s)"
    by (auto simp: decision_spec_def Let_def d_matched_def noDecision_def split: if_splits)
  moreover have "map_of (eng_rules e) rid = Some s" using s(1) rules_invD(1) [OF base] by (simp add: omap_in_set_iff)
  ultimately show ?thesis using rules_invD(2) [OF base, of rid s] by auto
qed

lemma hit_counts_one_rule:
  assumes inv: "eng_inv e" and s: "map_of (eng_rules e) (d_ruleId d) = Some s" and "d_stats d = Some (st_stats s)"
    and enf: "d_isEnforce d"
  shows "statsSnapshot (observeEnforceHit d bytes ts e) rid =
    (if rid = d_ruleId d
     then map_option (\<lambda>c. c\<lparr>hitPackets := hitPackets c + 1, hitBytes := hitBytes c + ucast bytes, lastHitTsNs := ts\<rparr>) (statsSnapshot e rid)
     else statsSnapshot e rid)"
proof -
  have base: "rules_inv (eng_nextAddr e) (eng_rules e)" using inv by (simp add: eng_inv_def)
  have "st_stats t \<noteq> st_stats s" if "map_of (eng_rules e) rid = Some t" "rid \<noteq> d_ruleId d" for t
    using rules_invD(5) [OF base that(1) s] that(2) by auto
  then show ?thesis
    using assms by (cases "map_of (eng_rules e) rid") (auto simp: observeEnforceHit_def Let_def statsSnapshot_def)
qed

lemma would_hit_counts_one_rule:
  assumes inv: "eng_inv e" and s: "map_of (eng_rules e) (d_ruleId d) = Some s" and "d_stats d = Some (st_stats s)"
    and enf: "d_isWould d"
  shows "statsSnapshot (observeWouldHitIfAccepted d accepted bytes ts e) rid =
    (if accepted \<and> rid = d_ruleId d
     then map_option (\<lambda>c. c\<lparr>wouldHitPackets := wouldHitPackets c + 1, wouldHitBytes := wouldHitBytes c + ucast bytes,
            lastWouldHitTsNs := ts\<rparr>) (statsSnapshot e rid)
     else statsSnapshot e rid)"
proof -
  have base: "rules_inv (eng_nextAddr e) (eng_rules e)" using inv by (simp add: eng_inv_def)
  have "st_stats t \<noteq> st_stats s" if "map_of (eng_rules e) rid = Some t" "rid \<noteq> d_ruleId d" for t
    using rules_invD(5) [OF base that(1) s] that(2) by auto
  then show ?thesis
    using assms by (cases "map_of (eng_rules e) rid") (auto simp: observeWouldHitIfAccepted_def Let_def statsSnapshot_def)
qed

section \<open>Checkpoints\<close>

lemma stage_loop_defs:
  assumes "\<forall>d \<in> set defs. validateRuleDef d = Inr ()"
    and "rules_inv (eng_nextAddr e) m" and "distinct (map rd_ruleId defs)"
    and "\<forall>d \<in> set defs. map_of m (rd_ruleId d) = None"
  shows "\<exists>m' e'. stage_loop defs m mx e = Inr (m', fold (\<lambda>d x. max x (rd_ruleId d)) defs mx, e') \<and>
         (\<forall>rid. map_option st_def (map_of m' rid) =
            (case find (\<lambda>d. rd_ruleId d = rid) defs of Some d \<Rightarrow> Some d | None \<Rightarrow> map_option st_def (map_of m rid)))"
  using assms
proof (induction defs arbitrary: m mx e)
  case Nil
  then show ?case by simp
next
  case (Cons d defs)
  obtain a e1 where ms: "make_stats e = (a, e1)" by fastforce
  let ?s = "\<lparr>st_def = d, st_stats = a\<rparr>"
  define m1 where "m1 = fst (omap_emplace (rd_ruleId d) ?s m)"
  have em: "omap_emplace (rd_ruleId d) ?s m = (m1, True)"
    using Cons.prems(4) by (simp add: m1_def omap_emplace_def)
  have inv1: "rules_inv (eng_nextAddr e1) m1"
    unfolding m1_def using rules_inv_emplace_any [OF Cons.prems(2) ms] Cons.prems(1) by simp
  have m1: "map_of m1 = (map_of m)(rd_ruleId d \<mapsto> ?s)"
    using Cons.prems(2,4) rules_invD(1) by (auto simp: m1_def map_of_omap_emplace)
  have notid: "rd_ruleId q \<noteq> rd_ruleId d" if "q \<in> set defs" for q
    using imageI [OF that, of rd_ruleId] Cons.prems(3) by auto
  then have notin: "find (\<lambda>x. rd_ruleId x = rd_ruleId d) defs = None" by (auto simp: find_None_iff)
  have "\<exists>m' e'. stage_loop defs m1 (max mx (rd_ruleId d)) e1 =
           Inr (m', fold (\<lambda>d x. max x (rd_ruleId d)) defs (max mx (rd_ruleId d)), e') \<and>
         (\<forall>rid. map_option st_def (map_of m' rid) =
            (case find (\<lambda>d. rd_ruleId d = rid) defs of Some d \<Rightarrow> Some d | None \<Rightarrow> map_option st_def (map_of m1 rid)))"
    using Cons.prems inv1 notid by (intro Cons.IH) (auto simp: m1)
  then obtain m' e' where loop: "stage_loop defs m1 (max mx (rd_ruleId d)) e1 =
           Inr (m', fold (\<lambda>d x. max x (rd_ruleId d)) defs (max mx (rd_ruleId d)), e')"
    and lk: "\<forall>rid. map_option st_def (map_of m' rid) =
            (case find (\<lambda>d. rd_ruleId d = rid) defs of Some d \<Rightarrow> Some d | None \<Rightarrow> map_option st_def (map_of m1 rid))" by blast
  have "map_option st_def (map_of m' rid) =
      (case find (\<lambda>d. rd_ruleId d = rid) (d # defs) of Some d \<Rightarrow> Some d | None \<Rightarrow> map_option st_def (map_of m rid))" for rid
    using lk [rule_format, of rid] notin by (auto simp: m1 split: option.splits)
  moreover have "stage_loop (d # defs) m mx e = Inr (m', fold (\<lambda>d x. max x (rd_ruleId d)) (d # defs) mx, e')"
    using Cons.prems(1) loop em by (simp add: ms)
  ultimately show ?case by blast
qed

lemma restore_checkpoint:
  assumes inv: "eng_inv e" and below: "ids_below (eng_nextRuleId e) (eng_rules e)"
  shows "\<exists>res e'. restorePolicySnapshot (policySnapshot e) e0 = (res, e') \<and> res_ok res \<and>
    policySnapshot e' = policySnapshot e \<and> eng_rulesEpoch e' = eng_rulesEpoch e0 + 1"
proof -
  define defs where "defs = map (\<lambda>p. st_def (snd p)) (eng_rules e)"
  have base: "rules_inv (eng_nextAddr e) (eng_rules e)" using inv by (simp add: eng_inv_def)
  note wf = rules_invD(1) [OF base]
  have ids: "map rd_ruleId defs = map fst (eng_rules e)" unfolding defs_def by (rule sorted_defs(2) [OF base])
  have ps: "policySnapshot e = \<lparr>ps_nextRuleId = eng_nextRuleId e, ps_rules = defs\<rparr>"
    by (simp add: policySnapshot_def defs_def sorted_defs(1) [OF base])
  have valid: "\<forall>d \<in> set defs. validateRuleDef d = Inr ()"
    using rules_invD(3) [OF base] wf by (auto simp: defs_def omap_in_set_iff)
  have dist: "distinct (map rd_ruleId defs)" unfolding ids by (rule omap_wf_distinct [OF wf])
  have none: "\<forall>d \<in> set defs. map_of ([] :: RulesMap) (rd_ruleId d) = None" by simp
  obtain m e1 where loop: "stage_loop defs [] 0 e0 = Inr (m, fold (\<lambda>d x. max x (rd_ruleId d)) defs 0, e1)"
    and lk: "\<forall>rid. map_option st_def (map_of m rid) =
        (case find (\<lambda>d. rd_ruleId d = rid) defs of Some d \<Rightarrow> Some d | None \<Rightarrow> map_option st_def (map_of ([] :: RulesMap) rid))"
    using stage_loop_defs [OF valid rules_inv_Nil dist none] by blast
  have mx: "defs = [] \<or> fold (\<lambda>d x. max x (rd_ruleId d)) defs 0 < eng_nextRuleId e"
  proof (cases "defs = []")
    case False
    have b: "\<forall>d \<in> set defs. rd_ruleId d < eng_nextRuleId e"
      using below rules_invD(2) [OF base] wf by (auto simp: defs_def ids_below_def omap_in_set_iff)
    moreover obtain d where "d \<in> set defs" using False by (meson list.set_sel(1))
    moreover from this b have "0 < eng_nextRuleId e"
      using word_gt_0 [of "eng_nextRuleId e"] by auto
    ultimately show ?thesis by (auto intro: fold_max_below)
  qed simp
  then have st: "stage (policySnapshot e) e0 = Inr (m, e1)"
    by (auto simp: stage_def ps loop not_le)
  have m: "rules_inv (eng_nextAddr e1) m" "heap_ext e0 e1" using stage_inv [OF st] by auto
  have view: "defs_view m = defs_view (eng_rules e)"
    using lk by (intro defs_view_eqI [OF rules_invD(1) [OF m(1)] wf]) (simp add: defs_def find_defs [OF base] split: option.splits)
  have report: "report_ok (snd (compile m ep))" for ep
    using inv report_of_defs [OF view] by (auto simp: eng_inv_def compile_def)
  define e' where "e' = e1\<lparr>eng_rules := m, eng_nextRuleId := eng_nextRuleId e,
      eng_lastPreflight := snd (compile m (eng_rulesEpoch e1 + 1)), eng_rulesEpoch := eng_rulesEpoch e1 + 1,
      eng_snapshot := fst (compile m (eng_rulesEpoch e1 + 1))\<rparr>"
  have "\<exists>res. restorePolicySnapshot (policySnapshot e) e0 = (res, e') \<and> res_ok res"
    unfolding restorePolicySnapshot_def st by (simp add: report Let_def e'_def ps)
  moreover have "policySnapshot e' = policySnapshot e"
    using policy_of_view [OF view] by (simp add: policySnapshot_def e'_def)
  moreover have "eng_rulesEpoch e' = eng_rulesEpoch e0 + 1" using heap_ext_same(3) [OF m(2)] by (simp add: e'_def)
  ultimately show ?thesis by blast
qed

end
