(* ===== verification/IpRulesGuarantees.thy ===== *)
theory IpRulesGuarantees
  imports IpRulesSystem
begin

text \<open>
  The guarantees of the control plane, as theorems over the reachable states of the engine and over
  its operations, each with a concrete instance.
\<close>

text \<open>Whether a command is accepted.\<close>

fun command_ok :: "(string \<Rightarrow> u32 option) \<Rightarrow> Command \<Rightarrow> Engine \<Rightarrow> bool" where
  "command_ok pton4 (AddKv uid toks) e = res_ok (fst (addFromKv pton4 uid toks e))"
| "command_ok pton4 (UpdateKv rid toks) e = res_ok (fst (updateFromKv pton4 rid toks e))"
| "command_ok pton4 (RemoveRule rid) e = res_ok (fst (removeRule rid e))"
| "command_ok pton4 (EnableRule rid b) e = res_ok (fst (enableRule rid b e))"
| "command_ok pton4 (ReplaceRules uid rs) e = res_ok (fst (replaceRulesForUid uid rs e))"
| "command_ok pton4 (RestorePolicy ps) e = res_ok (fst (restorePolicySnapshot ps e))"
| "command_ok pton4 _ e = True"

lemma refused_exec:
  assumes "eng_inv e" and "\<not> command_ok pton4 c e"
  shows "eng_rules (exec pton4 c e) = eng_rules e \<and> eng_nextRuleId (exec pton4 c e) = eng_nextRuleId e \<and>
    eng_rulesEpoch (exec pton4 c e) = eng_rulesEpoch e \<and> eng_snapshot (exec pton4 c e) = eng_snapshot e \<and>
    eng_lastPreflight (exec pton4 c e) = eng_lastPreflight e \<and> eng_file (exec pton4 c e) = eng_file e \<and>
    (\<forall>rid. statsSnapshot (exec pton4 c e) rid = statsSnapshot e rid)"
  using assms(2)
  by (cases c)
     (simp_all add: add_op.refused_unobservable [OF assms(1) prod.collapse [symmetric]]
       update_op.refused_unobservable [OF assms(1) prod.collapse [symmetric]]
       remove_op.refused_unobservable [OF assms(1) prod.collapse [symmetric]]
       enable_op.refused_unobservable [OF assms(1) prod.collapse [symmetric]]
       replace_op.refused_unobservable [OF assms(1) prod.collapse [symmetric]]
       restore_policy_op.refused_unobservable [OF assms(1) prod.collapse [symmetric]])

lemma replace_never_duplicate:
  assumes "engine_run pton4 e" and "unat (eng_nextRuleId e) + length rs < 2 ^ 32"
  shows "res_error (fst (replaceRulesForUid uid rs e)) \<noteq> ''internal error: duplicate ruleId''"
proof -
  let ?dup = "''internal error: duplicate ruleId''"
  have inv: "eng_inv e" by (rule engine_reach_inv [OF engine_run_reach [OF assms(1)]])
  have below: "ids_below (eng_nextRuleId e) (eng_rules e)" using engine_run_good [OF assms(1)] by (simp add: eng_good_def)
  have chk: "check_client_ids seen rs \<noteq> Some ?dup" for seen
    by (induction seen rs rule: check_client_ids.induct) auto
  have app: "res_error (fst (applyNewRules m n x)) \<noteq> ?dup" for m n x
    by (simp add: applyNewRules_def Let_def preflightFailed_def)
  show ?thesis
  proof (cases "check_client_ids {} rs")
    case (Some err)
    then show ?thesis using chk [of "{}"] by (auto simp: replaceRulesForUid_def nokResult_def)
  next
    case None
    note ready = loop_ready_init [OF inv below None assms(2), of uid]
    show ?thesis
      using replace_loop_no_duplicate [OF ready, of uid None e] None app
      by (auto simp: replaceRulesForUid_def Let_def nokResult_def split: sum.splits)
  qed
qed

section \<open>Concrete states\<close>

text \<open>Two rules applied to uid 10001 on a fresh engine (\<^verbatim>\<open>inet_pton\<close> is not needed for them).\<close>

definition noAddr :: "string \<Rightarrow> u32 option" where
  "noAddr s = None"

definition ex_apply :: "string \<Rightarrow> Action \<Rightarrow> i32 \<Rightarrow> ApplyRule" where
  "ex_apply cid act prio =
     \<lparr>ar_clientRuleId = cid, ar_family = IPV4, ar_action = act, ar_priority = prio,
      ar_enabled = True, ar_enforce = True, ar_log = False, ar_dir = Dir_ANY, ar_iface = Iface_ANY,
      ar_ifindex = 0, ar_proto = Proto_ANY, ar_src = anyCidrV4, ar_dst = anyCidrV4,
      ar_src6 = anyCidrV6, ar_dst6 = anyCidrV6, ar_sport = port_any, ar_dport = port_any,
      ar_ctState = Ct_ANY, ar_ctDir = CtDir_ANY\<rparr>"

definition ex_e0 :: Engine where
  "ex_e0 = engine_init 1 None"

definition ex_cmd :: Command where
  "ex_cmd = ReplaceRules 10001 [ex_apply ''a'' BLOCK 10, ex_apply ''b'' ALLOW 20]"

definition ex_e1 :: Engine where
  "ex_e1 = exec noAddr ex_cmd ex_e0"

lemma ex_apply_wf: "apply_wf (ex_apply cid act prio)"
  by (simp add: apply_wf_def ex_apply_def port_wf_def port_any_def cidr4_wf_def cidr6_wf_def anyCidrV4_def
      anyCidrV6_def zero_ip6_def)

lemma ex_e1_run: "engine_run noAddr ex_e1"
proof -
  have "engine_run noAddr ex_e0" unfolding ex_e0_def by (rule run_init)
  moreover have "admissible ex_cmd ex_e0"
    by (simp add: ex_cmd_def ex_e0_def engine_init_def Let_def ex_apply_wf)
  ultimately show ?thesis unfolding ex_e1_def by (rule run_step)
qed

definition ex_s0 :: RuleState where
  "ex_s0 = \<lparr>st_def = def_of_apply 0 10001 (ex_apply ''a'' BLOCK 10), st_stats = 0\<rparr>"

definition ex_s1 :: RuleState where
  "ex_s1 = \<lparr>st_def = def_of_apply 1 10001 (ex_apply ''b'' ALLOW 20), st_stats = 1\<rparr>"

lemma ex_e1_rules: "eng_rules ex_e1 = [(0, ex_s0), (1, ex_s1)]"
  by code_simp

lemma ex_e1_next: "eng_nextRuleId ex_e1 = 2"
  by code_simp

lemma ex_report: "report_ok (make_report (compile_acc [(0, ex_s0), (1, ex_s1)]))"
  by code_simp

lemma ex_valid: "validateRuleDef (def_of_apply rid uid (ex_apply c act prio)) = Inr ()"
  by (simp add: validateRuleDef_def def_of_apply_def ex_apply_def anyCidrV6_def port_isAny_def)

lemma ex_e1_inv: "eng_inv ex_e1"
  by (rule engine_reach_inv [OF engine_run_reach [OF ex_e1_run]])

lemma ex_e1_prio: "priorities_ok (eng_rules ex_e1)"
  by (simp add: priorities_ok_def ex_e1_rules ex_s0_def ex_s1_def def_of_apply_def ex_apply_def kNoPriority_def)

lemma ex_e1_good: "eng_good ex_e1"
  by (rule engine_run_good [OF ex_e1_run])

section \<open>Properties\<close>

text \<open>C3. In every state the engine can reach by public operations in any order, with any input, the
  published snapshot and the stored preflight report are exactly the compilation of the current
  rules at the current epoch, the rules respect the hard limits, every stored rule passed validation
  and is stored under its own id, and no two rules share counters.\<close>

theorem engine_state_coherent:
  assumes "engine_reach pton4 e"
  shows "eng_inv e"
  using assms by (rule engine_reach_inv)

theorem engine_state_coherent_witness: "eng_inv (exec noAddr (EnableRule 0 False) ex_e1)"
  by (rule engine_state_coherent, rule reach_step, rule engine_run_reach [OF ex_e1_run])

text \<open>End to end: in every state reached with well-formed structured input (and no rule at the
  reserved priority), evaluating an IPv4 packet against the published snapshot gives a decision that
  satisfies the contract of the decision layer for the rules the engine currently holds.\<close>

theorem engine_decides_v4:
  assumes "engine_run pton4 e" and "priorities_ok (eng_rules e)"
  shows "decision_spec (applies4 k) (eng_rules e) (snap_evaluate (eng_snapshot e) k)"
  using reference_v4_spec [of k "eng_rules e"] evaluate_reference4 [OF run_rules_ok [OF assms(1)] assms(2)]
    snapshot_inv [OF engine_reach_inv [OF engine_run_reach [OF assms(1)]]] by simp

theorem engine_decides_v4_witness:
  "decision_spec (applies4 ex_key) (eng_rules ex_e1) (snap_evaluate (eng_snapshot ex_e1) ex_key)"
  by (rule engine_decides_v4 [OF ex_e1_run ex_e1_prio])

text \<open>C25. A refused command (invalid text, failed validation, unknown rule, preflight violation, bad
  client rule id) changes nothing that can be observed: rules, next rule id, epoch, snapshot, report,
  save file and all counters are those of before.\<close>

theorem refused_command_changes_nothing:
  assumes "eng_inv e" and "\<not> command_ok pton4 c e"
  shows "let e' = exec pton4 c e in
    eng_rules e' = eng_rules e \<and> eng_nextRuleId e' = eng_nextRuleId e \<and>
    eng_rulesEpoch e' = eng_rulesEpoch e \<and> eng_snapshot e' = eng_snapshot e \<and>
    eng_lastPreflight e' = eng_lastPreflight e \<and> eng_file e' = eng_file e \<and>
    (\<forall>rid. statsSnapshot e' rid = statsSnapshot e rid)"
  using refused_exec [OF assms] by simp

theorem refused_command_changes_nothing_witness:
  "\<not> command_ok noAddr (RemoveRule 7) ex_e1 \<and> eng_rules (exec noAddr (RemoveRule 7) ex_e1) = eng_rules ex_e1"
proof -
  have "map_of (eng_rules ex_e1) 7 = None" by (simp add: ex_e1_rules)
  then have "\<not> command_ok noAddr (RemoveRule 7) ex_e1" by (simp add: removeRule_def)
  then show ?thesis using refused_command_changes_nothing [OF ex_e1_inv, of noAddr "RemoveRule 7"] by (simp add: Let_def)
qed

text \<open>Every command either leaves the published snapshot and its epoch as they were or publishes
  at the next epoch; the engine's instance id never changes. (This is what decision caches keyed by
  instance and epoch rely on.)\<close>

theorem command_publishes_next_epoch:
  "eng_instanceId (exec pton4 c e) = eng_instanceId e \<and>
   (eng_rulesEpoch (exec pton4 c e) = eng_rulesEpoch e \<and> eng_snapshot (exec pton4 c e) = eng_snapshot e \<or>
    eng_rulesEpoch (exec pton4 c e) = eng_rulesEpoch e + 1)"
  using epoch_step_exec [of e pton4 c] by (simp add: epoch_step_def)

text \<open>C6. The atomic replacement of a uid's rules: rules of other uids are untouched, the uid's rules
  are afterwards exactly the given ones, a rule whose client id was known keeps its rule id, and its
  counters survive exactly when neither its match nor its behaviour changed; all other given rules
  start with zero counters.\<close>

theorem replace_rules_contract:
  assumes "eng_inv e" and "replaceRulesForUid uid rs e = (res, e')" and "res_ok res"
  shows "replace_spec uid rs e e'"
  using assms by (rule replace_meets_spec)

theorem replace_rules_contract_witness:
  "replace_spec 10002 [] ex_e1 (snd (replaceRulesForUid 10002 [] ex_e1))"
proof (rule replace_rules_contract [OF ex_e1_inv prod.collapse [symmetric]])
  show "res_ok (fst (replaceRulesForUid 10002 [] ex_e1))"
    using ex_report by (simp add: replaceRulesForUid_def ex_e1_rules ex_s0_def ex_s1_def applyNewRules_def compile_def Let_def)
qed

text \<open>While the id space is not exhausted, a replacement never fails with the internal duplicate
  rule id error: ids of known rules are distinct and new ids are unused.\<close>

theorem replace_no_internal_error:
  assumes "engine_run pton4 e" and "unat (eng_nextRuleId e) + length rs < 2 ^ 32"
  shows "res_error (fst (replaceRulesForUid uid rs e)) \<noteq> ''internal error: duplicate ruleId''"
  using replace_never_duplicate [OF assms] .

theorem replace_no_internal_error_witness:
  "res_error (fst (replaceRulesForUid 10001 [ex_apply ''a'' ALLOW 1] ex_e1)) \<noteq> ''internal error: duplicate ruleId''"
  using replace_no_internal_error [OF ex_e1_run, of "[ex_apply ''a'' ALLOW 1]" 10001] ex_e1_next by simp

text \<open>Adding a rule from \<^verbatim>\<open>key=value\<close> tokens: an accepted rule is the parsed definition, valid,
  readable under the id that is reported, with zero counters; no other rule and no other counter
  changes.\<close>

theorem add_rule_result:
  assumes "engine_run pton4 e" and "addFromKv pton4 uid toks e = (res, e')" and "res_ok res"
  shows "\<exists>def. kv_loop pton4 toks (rule_default\<lparr>rd_ruleId := eng_nextRuleId e, rd_uid := uid,
        rd_clientRuleId := legacyClientRuleId uid (eng_nextRuleId e)\<rparr>) = Inr def \<and>
      validateRuleDef def = Inr () \<and> res_ruleId res = Some (eng_nextRuleId e) \<and>
      getRule e' (eng_nextRuleId e) = Some def \<and> statsSnapshot e' (eng_nextRuleId e) = Some zeroStats \<and>
      (\<forall>rid. rid \<noteq> eng_nextRuleId e \<longrightarrow> getRule e' rid = getRule e rid \<and> statsSnapshot e' rid = statsSnapshot e rid)"
proof -
  have "ids_below (eng_nextRuleId e) (eng_rules e)" using engine_run_good [OF assms(1)] by (simp add: eng_good_def)
  then show ?thesis using add_result engine_reach_inv [OF engine_run_reach [OF assms(1)]] assms(2,3) by blast
qed

lemma ex_e0_run: "engine_run noAddr ex_e0"
  unfolding ex_e0_def by (rule run_init)

definition ex_toks :: "string list" where
  "ex_toks = [''action=block'', ''priority=10'', ''dport=80-90'']"

lemma ex_toks_parse:
  "kv_loop noAddr ex_toks d = Inr (d\<lparr>rd_action := BLOCK, rd_priority := 10, rd_dport := port_range 80 90\<rparr>)"
  "has_key ''action'' ex_toks" "has_key ''priority'' ex_toks"
  by (simp_all add: ex_toks_def has_key_def splitKv_def split_at_def kv_apply_def kv_field_def parseAction_def
      parsePriority_def parseDecI32_def digit_val_def Let_def parsePortPredicate_def parseDecU_def)

lemma ex_add_report: "report_ok (make_report (compile_acc
    [(0, \<lparr>st_def = rule_default\<lparr>rd_ruleId := 0, rd_uid := 10001, rd_clientRuleId := x, rd_action := BLOCK,
        rd_priority := 10, rd_dport := port_range 80 90\<rparr>, st_stats = 0\<rparr>)]))"
  by code_simp

lemma ex_add_ok: "res_ok (fst (addFromKv noAddr 10001 ex_toks ex_e0))"
proof -
  have d: "rule_default\<lparr>rd_ruleId := 0, rd_uid := 10001, rd_clientRuleId := x, rd_enabled := True, rd_enforce := True,
      rd_log := False, rd_action := BLOCK, rd_priority := 10, rd_dport := port_range 80 90\<rparr> =
    rule_default\<lparr>rd_ruleId := 0, rd_uid := 10001, rd_clientRuleId := x, rd_action := BLOCK,
        rd_priority := 10, rd_dport := port_range 80 90\<rparr>" for x
    by (simp add: rule_default_def)
  have v: "validateRuleDef (rule_default\<lparr>rd_ruleId := 0, rd_uid := 10001, rd_clientRuleId := x, rd_action := BLOCK,
        rd_priority := 10, rd_dport := port_range 80 90\<rparr>) = Inr ()" for x
    by (simp add: validateRuleDef_def rule_default_def anyCidrV6_def)
  show ?thesis
    by (simp add: addFromKv_def ex_e0_def engine_init_def make_stats_def ex_toks_parse d v applyNewRules_def
        compile_def ex_add_report omap_emplace_def Let_def)
qed

theorem add_rule_result_witness:
  "let e' = snd (addFromKv noAddr 10001 ex_toks ex_e0) in
   statsSnapshot e' (eng_nextRuleId ex_e0) = Some zeroStats"
  using add_rule_result [OF ex_e0_run prod.collapse [symmetric] ex_add_ok] by (auto simp: Let_def)

text \<open>Updating a rule applies the tokens to the stored definition and resets the rule's counters;
  nothing else changes.\<close>

theorem update_rule_result:
  assumes "eng_inv e" and "updateFromKv pton4 ruleId toks e = (res, e')" and "res_ok res"
  shows "\<exists>old def. getRule e ruleId = Some old \<and> kv_loop pton4 toks old = Inr def \<and> validateRuleDef def = Inr () \<and>
      getRule e' ruleId = Some def \<and> statsSnapshot e' ruleId = Some zeroStats \<and>
      (\<forall>rid. rid \<noteq> ruleId \<longrightarrow> getRule e' rid = getRule e rid \<and> statsSnapshot e' rid = statsSnapshot e rid)"
  using assms by (rule update_result)

lemma ex_update_ok: "res_ok (fst (updateFromKv noAddr 1 [] ex_e1))"
proof -
  have "defs_view [(0, ex_s0), (1, \<lparr>st_def = def_of_apply 1 10001 (ex_apply ''b'' ALLOW 20), st_stats = a\<rparr>)] =
      defs_view [(0, ex_s0), (1, ex_s1)]" for a
    by (simp add: defs_view_def ex_s1_def)
  from report_of_defs [OF this]
  have "report_ok (make_report (compile_acc [(0, ex_s0),
      (1, \<lparr>st_def = def_of_apply 1 10001 (ex_apply ''b'' ALLOW 20), st_stats = a\<rparr>)]))" for a
    using ex_report by simp
  then show ?thesis
    by (simp add: updateFromKv_def ex_e1_rules ex_s1_def ex_valid make_stats_def applyNewRules_def compile_def Let_def)
qed

theorem update_rule_result_witness:
  "statsSnapshot (snd (updateFromKv noAddr 1 [] ex_e1)) 1 = Some zeroStats"
  using update_rule_result [OF ex_e1_inv prod.collapse [symmetric] ex_update_ok] by blast

text \<open>Enabling and disabling changes the flag only; the counters are reset exactly when a disabled
  rule is enabled.\<close>

theorem enable_rule_result:
  assumes "eng_inv e" and "enableRule ruleId enabled e = (res, e')" and "res_ok res"
  shows "\<exists>old. getRule e ruleId = Some old \<and> getRule e' ruleId = Some (old\<lparr>rd_enabled := enabled\<rparr>) \<and>
      statsSnapshot e' ruleId = (if \<not> rd_enabled old \<and> enabled then Some zeroStats else statsSnapshot e ruleId) \<and>
      (\<forall>rid. rid \<noteq> ruleId \<longrightarrow> getRule e' rid = getRule e rid \<and> statsSnapshot e' rid = statsSnapshot e rid)"
  using assms by (rule enable_result)

lemma ex_enable_ok: "res_ok (fst (enableRule 1 True ex_e1))"
  by (simp add: enableRule_def ex_e1_rules ex_s1_def def_of_apply_def ex_apply_def)

theorem enable_rule_result_witness:
  "statsSnapshot (snd (enableRule 1 True ex_e1)) 1 = statsSnapshot ex_e1 1"
  using enable_rule_result [OF ex_e1_inv prod.collapse [symmetric] ex_enable_ok]
  by (auto simp: getRule_def ex_e1_rules ex_s1_def def_of_apply_def ex_apply_def)

text \<open>Counting: when a packet is decided by an enforced rule and the hit is recorded, exactly the
  counters of the rule named in the decision advance (64-bit wrap-around), by one packet and the
  packet's bytes.\<close>

theorem enforce_hit_counts_deciding_rule:
  assumes "engine_run pton4 e" and "priorities_ok (eng_rules e)"
    and "d = snap_evaluate (eng_snapshot e) k" and "d_isEnforce d"
  shows "statsSnapshot (observeEnforceHit d bytes ts e) rid =
    (if rid = d_ruleId d
     then map_option (\<lambda>c. c\<lparr>hitPackets := hitPackets c + 1, hitBytes := hitBytes c + ucast bytes, lastHitTsNs := ts\<rparr>)
            (statsSnapshot e rid)
     else statsSnapshot e rid)"
proof -
  have inv: "eng_inv e" by (rule engine_reach_inv [OF engine_run_reach [OF assms(1)]])
  have "decision_spec (applies4 k) (eng_rules e) d"
    using reference_v4_spec [of k "eng_rules e"] evaluate_reference4 [OF run_rules_ok [OF assms(1)] assms(2)]
      snapshot_inv [OF inv] assms(3) by simp
  moreover have "d_matched d" using assms(4) by (auto simp: d_isEnforce_def d_matched_def)
  ultimately obtain s where "map_of (eng_rules e) (d_ruleId d) = Some s" "d_stats d = Some (st_stats s)"
    using decision_stats [OF inv] by blast
  then show ?thesis using hit_counts_one_rule [OF inv _ _ assms(4)] by blast
qed

lemma ex_decision0: "snap_evaluate (compile_snapshot [(0, ex_s0), (1, ex_s1)] 2) ex_key =
    \<lparr>d_kind = D_ALLOW, d_ruleId = 1, d_stats = Some 1\<rparr>"
  by code_simp

lemma ex_e1_epoch: "eng_rulesEpoch ex_e1 = 2"
  by code_simp

lemma ex_decision: "snap_evaluate (eng_snapshot ex_e1) ex_key = \<lparr>d_kind = D_ALLOW, d_ruleId = 1, d_stats = Some 1\<rparr>"
  using ex_decision0 by (simp add: snapshot_inv [OF ex_e1_inv] ex_e1_rules ex_e1_epoch)

theorem enforce_hit_counts_deciding_rule_witness:
  "statsSnapshot (observeEnforceHit (snap_evaluate (eng_snapshot ex_e1) ex_key) 100 5 ex_e1) 0 = statsSnapshot ex_e1 0"
  using enforce_hit_counts_deciding_rule [OF ex_e1_run ex_e1_prio refl, of ex_key 100 5 0] ex_decision
  by (simp add: d_isEnforce_def)

text \<open>Checkpoints: restoring the policy snapshot of a running engine into any engine is accepted and
  reproduces the policy (rule definitions, ids and the next id) at the next epoch.\<close>

theorem checkpoint_roundtrip:
  assumes "engine_run pton4 e"
  shows "\<exists>res e'. restorePolicySnapshot (policySnapshot e) e0 = (res, e') \<and> res_ok res \<and>
    policySnapshot e' = policySnapshot e \<and> eng_rulesEpoch e' = eng_rulesEpoch e0 + 1"
  using restore_checkpoint [OF engine_reach_inv [OF engine_run_reach [OF assms]]] engine_run_good [OF assms]
  by (simp add: eng_good_def)

theorem checkpoint_roundtrip_witness:
  "res_ok (fst (restorePolicySnapshot (policySnapshot ex_e1) ex_e0))"
  using checkpoint_roundtrip [OF ex_e1_run, of ex_e0] by auto

text \<open>Validating a policy snapshot answers exactly what restoring it would answer, with the same
  error or report.\<close>

theorem validate_agrees_with_restore:
  "fst (restorePolicySnapshot ps e) = validatePolicySnapshot ps e"
proof (cases "stage ps e")
  case (Inl err)
  then show ?thesis by (simp add: restorePolicySnapshot_def validatePolicySnapshot_def)
next
  case (Inr x)
  then obtain m e1 where st: "stage ps e = Inr (m, e1)" by (cases x) auto
  then show ?thesis
    using heap_ext_same(3) [of e e1] stage_inv [OF st]
    by (simp add: restorePolicySnapshot_def validatePolicySnapshot_def Let_def)
qed

text \<open>C5. Persistence: restoring the file that a running engine saved (into an engine that has not yet
  restored) gives the same policy, zero counters and the next epoch, provided the rules are in
  canonical form with client rule ids of at most 63 characters.\<close>

theorem save_restore_roundtrip:
  assumes "engine_run pton4 e"
    and "\<forall>rid s. map_of (eng_rules e) rid = Some s \<longrightarrow> rule_persistable (st_def s)"
    and "length (eng_rules e) < 2 ^ 32"
    and "eng_file e0 = eng_file (eng_save True e)" and "\<not> eng_inOpen e0"
  shows "policySnapshot (eng_restore e0) = policySnapshot e \<and>
    eng_rulesEpoch (eng_restore e0) = eng_rulesEpoch e0 + 1 \<and>
    (\<forall>rid. statsSnapshot (eng_restore e0) rid = map_option (\<lambda>_. zeroStats) (getRule e rid))"
proof -
  have inv: "eng_inv e" by (rule engine_reach_inv [OF engine_run_reach [OF assms(1)]])
  have below: "ids_below (eng_nextRuleId e) (eng_rules e)" using engine_run_good [OF assms(1)] by (simp add: eng_good_def)
  note r = restore_saved [OF inv below assms(2-5)]
  have "map_of (defs_view m) rid = map_option st_def (map_of m rid)" for m rid
    unfolding defs_view_def by (induction m) auto
  then have lk: "map_option st_def (map_of (eng_rules (eng_restore e0)) rid) = getRule e rid" for rid
    using r by (metis getRule_def)
  have "statsSnapshot (eng_restore e0) rid = map_option (\<lambda>_. zeroStats) (getRule e rid)" for rid
    unfolding lk [symmetric] using r
    by (cases "map_of (eng_rules (eng_restore e0)) rid") (auto simp: statsSnapshot_def)
  then show ?thesis using r policy_of_view [of "eng_rules (eng_restore e0)" "eng_rules e"]
    by (simp add: policySnapshot_def)
qed

definition ex_saved :: "Engine \<Rightarrow> Engine" where
  "ex_saved e = ex_e0\<lparr>eng_file := eng_file (eng_save True e)\<rparr>"

lemma ex_apply_persistable:
  "isValidClientRuleId c \<Longrightarrow> length c < 64 \<Longrightarrow> act \<in> {ALLOW, BLOCK} \<Longrightarrow>
   rule_persistable (def_of_apply rid uid (ex_apply c act prio))"
  by (auto simp: rule_persistable_def def_of_apply_def ex_apply_def family_of_u8_def action_of_u8_def dir_of_u8_def
      iface_of_u8_def proto_of_u8_def ct_of_u8_def ctdir_of_u8_def port_kind_of_u8_def port_any_def
      cidr4_persistable_def cidr6_persistable_def anyCidrV4_def anyCidrV6_def zero_ip6_def)

theorem save_restore_roundtrip_witness:
  "policySnapshot (eng_restore (ex_saved ex_e1)) = policySnapshot ex_e1"
proof -
  have "rule_persistable (st_def ex_s0)" "rule_persistable (st_def ex_s1)"
    by (auto simp: ex_s0_def ex_s1_def isValidClientRuleId_def is_alnum_def Let_def intro!: ex_apply_persistable)
  then have p: "\<forall>rid s. map_of (eng_rules ex_e1) rid = Some s \<longrightarrow> rule_persistable (st_def s)"
    by (simp add: ex_e1_rules)
  have l: "length (eng_rules ex_e1) < 2 ^ 32" by (simp add: ex_e1_rules)
  have f: "eng_file (ex_saved ex_e1) = eng_file (eng_save True ex_e1)" "\<not> eng_inOpen (ex_saved ex_e1)"
    by (simp_all add: ex_saved_def ex_e0_def engine_init_def Let_def)
  show ?thesis using save_restore_roundtrip [OF ex_e1_run p l f] by blast
qed

text \<open>A client rule id of 64 characters is valid for the control interface and is saved, but the
  restore rejects it (it counts the trailing NUL against the same limit of 64): restoring the saved
  file clears the whole rule set and deletes the file.\<close>

theorem restore_loses_rules_with_64_char_id:
  assumes "eng_inv e"
    and "\<forall>rid s. map_of (eng_rules e) rid = Some s \<longrightarrow>
        rule_persistable (st_def s) \<or> length (rd_clientRuleId (st_def s)) = 64"
    and "map_of (eng_rules e) rid0 = Some s0" and "length (rd_clientRuleId (st_def s0)) = 64"
    and "length (eng_rules e) < 2 ^ 32"
    and "eng_file e0 = eng_file (eng_save True e)" and "\<not> eng_inOpen e0"
  shows "eng_rules (eng_restore e0) = [] \<and> eng_file (eng_restore e0) = None"
  using restore_too_long [OF assms] by (simp add: resetAll_eq)

definition ex_long :: string where
  "ex_long = replicate 64 (CHR ''a'')"

definition ex_e2 :: Engine where
  "ex_e2 = exec noAddr (ReplaceRules 10001 [ex_apply ex_long BLOCK 10]) ex_e0"

lemma ex_e2_rules: "eng_rules ex_e2 = [(0, \<lparr>st_def = def_of_apply 0 10001 (ex_apply ex_long BLOCK 10), st_stats = 0\<rparr>)]"
  by code_simp

theorem restore_loses_rules_with_64_char_id_witness:
  "isValidClientRuleId ex_long \<and> eng_rules ex_e2 \<noteq> [] \<and> eng_rules (eng_restore (ex_saved ex_e2)) = []"
proof -
  have inv: "eng_inv ex_e2" unfolding ex_e2_def by (rule eng_inv_exec) (simp add: ex_e0_def eng_inv_init)
  have "length ex_long = 64" by (simp add: ex_long_def)
  then have long: "length (rd_clientRuleId (def_of_apply 0 10001 (ex_apply ex_long BLOCK 10))) = 64"
    by (simp add: ex_apply_def)
  have f: "eng_file (ex_saved ex_e2) = eng_file (eng_save True ex_e2)" "\<not> eng_inOpen (ex_saved ex_e2)"
    by (simp_all add: ex_saved_def ex_e0_def engine_init_def Let_def)
  have "eng_rules (eng_restore (ex_saved ex_e2)) = []"
    using restore_loses_rules_with_64_char_id [OF inv _ _ _ _ f, of 0] long by (simp add: ex_e2_rules)
  moreover have "isValidClientRuleId ex_long" by (simp add: isValidClientRuleId_def ex_long_def is_alnum_def list_all_iff Let_def)
  ultimately show ?thesis by (simp add: ex_e2_rules)
qed

end
