(* ===== verification/IpRulesHot.thy ===== *)
theory IpRulesHot
  imports IpRulesSystem
begin

text \<open>
  The hot path of the rules engine (\<^verbatim>\<open>src/src/IpRulesEngine.cpp\<close>, \<^verbatim>\<open>HotSnapshot\<close>;
  \<^verbatim>\<open>src/src/IpRulesCapsCache.hpp\<close>): the pinned snapshot, the hash of packet keys, the thread-local
  decision cache with its owner, epoch and key checks, and the packed per-app capability word. The
  locale \<open>decision_cache\<close> states what a direct-mapped cache needs of its hash; it is interpreted for
  the IPv4 table (1024 entries) and the IPv6 table (512 entries). The cache is shown transparent under
  every interleaving of control commands and packets.
\<close>

section \<open>Packet key hashes\<close>

definition mixHash :: "u64 \<Rightarrow> u64 \<Rightarrow> u64" where
  "mixHash h v = h XOR (v + 0x9e3779b97f4a7c15 + push_bit 6 h + drop_bit 2 h)"

text \<open>\<^verbatim>\<open>std::memcpy\<close> of eight bytes into a 64-bit integer (little endian).\<close>

definition word_at :: "nat \<Rightarrow> ip6 \<Rightarrow> u64" where
  "word_at i ip = le_word (take 8 (drop i ip))"

definition hashPacketKey :: "PacketKeyV4 \<Rightarrow> u64" where
  "hashPacketKey k = fold (\<lambda>v h. mixHash h v)
     [ucast (k_uid k), ucast (k_dir k), ucast (k_ifaceKind k), ucast (k_proto k), ucast (k_ifindex k),
      ucast (k_srcIp k), ucast (k_dstIp k), ucast (k_srcPort k), ucast (k_dstPort k),
      ucast (k_portsAvailable k), ucast (k_ctState k), ucast (k_ctDir k)] 0"

definition hashPacketKeyV6 :: "PacketKeyV6 \<Rightarrow> u64" where
  "hashPacketKeyV6 k = fold (\<lambda>v h. mixHash h v)
     [ucast (k_uid k), ucast (k_dir k), ucast (k_ifaceKind k), ucast (k_proto k), ucast (k_ifindex k),
      word_at 0 (k_srcIp k), word_at 8 (k_srcIp k), word_at 0 (k_dstIp k), word_at 8 (k_dstIp k),
      ucast (k_srcPort k), ucast (k_dstPort k),
      ucast (k_portsAvailable k), ucast (k_ctState k), ucast (k_ctDir k)] 0"

section \<open>The thread-local decision cache\<close>

record 'k CacheEntry =
  ce_epoch :: u64
  ce_key :: 'k
  ce_kind :: DecisionKind
  ce_ruleId :: u32
  ce_stats :: "addr option"

record 'k Cache =
  ownerInstanceId :: u64
  entries :: "'k CacheEntry list"

record HotSnapshot =
  hs_instanceId :: u64
  hs_snap :: "Snapshot option"

definition hotSnapshot :: "Engine \<Rightarrow> HotSnapshot" where
  "hotSnapshot e = \<lparr>hs_instanceId = eng_instanceId e, hs_snap = Some (eng_snapshot e)\<rparr>"

definition hot_rulesEpoch :: "HotSnapshot \<Rightarrow> u64" where
  "hot_rulesEpoch hs = (case hs_snap hs of Some sn \<Rightarrow> snap_rulesEpoch sn | None \<Rightarrow> 0)"

text \<open>The cached evaluation, for a table of \<open>n\<close> entries: take over the cache when it belongs to
  another engine, answer from the entry when epoch and key agree, otherwise evaluate and fill the
  entry.\<close>

definition cache_claim :: "u64 \<Rightarrow> 'k Cache \<Rightarrow> 'k Cache" where
  "cache_claim inst c =
     (if ownerInstanceId c \<noteq> inst
      then \<lparr>ownerInstanceId = inst, entries = map (\<lambda>e. e\<lparr>ce_epoch := 0\<rparr>) (entries c)\<rparr>
      else c)"

definition cached_evaluate ::
  "nat \<Rightarrow> ('k \<Rightarrow> u64) \<Rightarrow> (Snapshot \<Rightarrow> 'k \<Rightarrow> Decision) \<Rightarrow> HotSnapshot \<Rightarrow> 'k \<Rightarrow> 'k Cache \<Rightarrow> Decision \<times> 'k Cache" where
  "cached_evaluate n hash ev hs key c0 =
     (case hs_snap hs of
        None \<Rightarrow> (noDecision, c0)
      | Some sn \<Rightarrow>
          let c = cache_claim (hs_instanceId hs) c0;
              epoch = snap_rulesEpoch sn;
              idx = unat (hash key AND (of_nat n - 1));
              e = entries c ! idx
          in if ce_epoch e = epoch \<and> ce_key e = key
             then (\<lparr>d_kind = ce_kind e, d_ruleId = ce_ruleId e, d_stats = ce_stats e\<rparr>, c)
             else
               let d = ev sn key in
               (d, c\<lparr>entries := (entries c)[idx := \<lparr>ce_epoch = epoch, ce_key = key, ce_kind = d_kind d,
                      ce_ruleId = d_ruleId d, ce_stats = d_stats d\<rparr>]\<rparr>))"

definition hot_evaluate :: "HotSnapshot \<Rightarrow> PacketKeyV4 \<Rightarrow> PacketKeyV4 Cache \<Rightarrow> Decision \<times> PacketKeyV4 Cache" where
  "hot_evaluate = cached_evaluate 1024 hashPacketKey snap_evaluate"

definition hot_evaluateV6 :: "HotSnapshot \<Rightarrow> PacketKeyV6 \<Rightarrow> PacketKeyV6 Cache \<Rightarrow> Decision \<times> PacketKeyV6 Cache" where
  "hot_evaluateV6 = cached_evaluate 512 hashPacketKeyV6 snap_evaluateV6"

definition uidUsesCt :: "HotSnapshot \<Rightarrow> u32 \<Rightarrow> Family \<Rightarrow> bool" where
  "uidUsesCt hs uid family =
     (case hs_snap hs of
        None \<Rightarrow> False
      | Some sn \<Rightarrow>
          (case family of
             IPV4 \<Rightarrow> (case byUid sn uid of None \<Rightarrow> False | Some v \<Rightarrow> usesCt v)
           | IPV6 \<Rightarrow> (case byUid6 sn uid of None \<Rightarrow> False | Some v \<Rightarrow> usesCt v)
           | Family_raw _ \<Rightarrow> False))"

section \<open>The per-app capability cache\<close>

definition usesCtMaskIfFresh :: "u64 \<Rightarrow> u64 \<Rightarrow> u8 option" where
  "usesCtMaskIfFresh packed rulesEpoch =
     (let cachedEpoch = drop_bit 8 packed in
      if cachedEpoch \<noteq> rulesEpoch then None else Some (ucast (packed AND 0xFF)))"

definition setUsesCtMask :: "u64 \<Rightarrow> u8 \<Rightarrow> u64" where
  "setUsesCtMask rulesEpoch m = push_bit 8 rulesEpoch OR ucast m"

section \<open>Transparency of the decision cache\<close>

text \<open>An entry is right with respect to the snapshots an engine has published when it is unused or
  holds the decision of the snapshot of its epoch.\<close>

definition entry_ok :: "(Snapshot \<Rightarrow> 'k \<Rightarrow> Decision) \<Rightarrow> Snapshot set \<Rightarrow> 'k CacheEntry \<Rightarrow> bool" where
  "entry_ok ev H e \<longleftrightarrow> ce_epoch e = 0 \<or>
     (\<exists>sn \<in> H. snap_rulesEpoch sn = ce_epoch e \<and>
        ev sn (ce_key e) = \<lparr>d_kind = ce_kind e, d_ruleId = ce_ruleId e, d_stats = ce_stats e\<rparr>)"

definition epochs_ok :: "Snapshot set \<Rightarrow> bool" where
  "epochs_ok H \<longleftrightarrow> (\<forall>sn \<in> H. snap_rulesEpoch sn \<noteq> 0) \<and> inj_on snap_rulesEpoch H"

locale decision_cache =
  fixes n :: nat and hash :: "'k \<Rightarrow> u64" and ev :: "Snapshot \<Rightarrow> 'k \<Rightarrow> Decision"
  assumes index_bound: "unat (hash k AND (of_nat n - 1)) < n"
begin

definition cache_ok :: "u64 \<Rightarrow> Snapshot set \<Rightarrow> 'k Cache \<Rightarrow> bool" where
  "cache_ok inst H c \<longleftrightarrow> length (entries c) = n \<and>
     (ownerInstanceId c = inst \<longrightarrow> (\<forall>e \<in> set (entries c). entry_ok ev H e))"

lemma claim_ok: "cache_ok inst H c \<Longrightarrow> cache_ok inst H (cache_claim inst c) \<and> ownerInstanceId (cache_claim inst c) = inst"
  by (auto simp: cache_ok_def cache_claim_def entry_ok_def)

lemma cached_evaluate_correct:
  assumes ep: "epochs_ok H" and snap: "hs_snap hs = Some sn" and sn: "sn \<in> H" and ok: "cache_ok (hs_instanceId hs) H c0"
  shows "fst (cached_evaluate n hash ev hs key c0) = ev sn key"
    "cache_ok (hs_instanceId hs) H (snd (cached_evaluate n hash ev hs key c0))"
proof -
  define c where "c = cache_claim (hs_instanceId hs) c0"
  define idx where "idx = unat (hash key AND (of_nat n - 1))"
  let ?e = "entries c ! idx"
  have c: "cache_ok (hs_instanceId hs) H c" "ownerInstanceId c = hs_instanceId hs" using claim_ok [OF ok] by (auto simp: c_def)
  have len: "length (entries c) = n" using c(1) by (simp add: cache_ok_def)
  have idx: "idx < n" using index_bound by (simp add: idx_def)
  have eok: "entry_ok ev H ?e" using c len idx by (auto simp: cache_ok_def)
  have hit: "ev sn key = \<lparr>d_kind = ce_kind ?e, d_ruleId = ce_ruleId ?e, d_stats = ce_stats ?e\<rparr>"
    if "ce_epoch ?e = snap_rulesEpoch sn" "ce_key ?e = key"
  proof -
    have "ce_epoch ?e \<noteq> 0" using that(1) ep sn by (auto simp: epochs_ok_def)
    then obtain sn' where "sn' \<in> H" "snap_rulesEpoch sn' = ce_epoch ?e"
      "ev sn' (ce_key ?e) = \<lparr>d_kind = ce_kind ?e, d_ruleId = ce_ruleId ?e, d_stats = ce_stats ?e\<rparr>"
      using eok by (auto simp: entry_ok_def)
    then show ?thesis using that ep sn by (metis epochs_ok_def inj_onD)
  qed
  then show "fst (cached_evaluate n hash ev hs key c0) = ev sn key"
    by (simp add: cached_evaluate_def Let_def snap c_def [symmetric] idx_def [symmetric])
  have "entry_ok ev H \<lparr>ce_epoch = snap_rulesEpoch sn, ce_key = key, ce_kind = d_kind (ev sn key),
      ce_ruleId = d_ruleId (ev sn key), ce_stats = d_stats (ev sn key)\<rparr>"
    using sn by (auto simp: entry_ok_def)
  then have "cache_ok (hs_instanceId hs) H (c\<lparr>entries := (entries c)[idx := \<lparr>ce_epoch = snap_rulesEpoch sn, ce_key = key,
      ce_kind = d_kind (ev sn key), ce_ruleId = d_ruleId (ev sn key),
      ce_stats = d_stats (ev sn key)\<rparr>]\<rparr>)"
    using c by (auto simp: cache_ok_def dest!: set_update_subset_insert [THEN subsetD])
  then show "cache_ok (hs_instanceId hs) H (snd (cached_evaluate n hash ev hs key c0))"
    using c(1) by (simp add: cached_evaluate_def Let_def snap c_def [symmetric] idx_def [symmetric])
qed

lemma cache_ok_mono: "cache_ok inst H c \<Longrightarrow> H \<subseteq> H' \<Longrightarrow> cache_ok inst H' c"
  unfolding cache_ok_def entry_ok_def by blast

end

lemma mask_index_bound: "unat (h AND (2 ^ m - 1) :: u64) < 2 ^ m" if "m < 64"
proof -
  have "h AND (2 ^ m - 1) = take_bit m h" by (simp add: take_bit_eq_mask mask_eq_decr_exp)
  then show ?thesis using that by (simp add: unsigned_take_bit_eq)
qed

interpretation cache4: decision_cache 1024 hashPacketKey snap_evaluate
  by unfold_locales (use mask_index_bound [of 10] in simp)

interpretation cache6: decision_cache 512 hashPacketKeyV6 snap_evaluateV6
  by unfold_locales (use mask_index_bound [of 9] in simp)

section \<open>Evaluation interleaved with control commands\<close>

text \<open>One engine, one packet thread with its IPv4 cache, and the snapshots published so far. The
  thread evaluates against any snapshot it may have pinned, also one that has been superseded. The
  guard excludes the wrap-around of the 64-bit epoch.\<close>

definition emptyCache :: "nat \<Rightarrow> 'k \<Rightarrow> 'k Cache" where
  "emptyCache n k0 = \<lparr>ownerInstanceId = 0, entries = replicate n \<lparr>ce_epoch = 0, ce_key = k0, ce_kind = NOMATCH,
     ce_ruleId = 0, ce_stats = None\<rparr>\<rparr>"

inductive hot_reach :: "(string \<Rightarrow> u32 option) \<Rightarrow> Engine \<Rightarrow> Snapshot set \<Rightarrow> PacketKeyV4 Cache \<Rightarrow> bool" for pton4 where
  hot_init: "hot_reach pton4 (engine_init iid file0) {eng_snapshot (engine_init iid file0)} (emptyCache 1024 k0)"
| hot_command: "hot_reach pton4 e H c \<Longrightarrow> eng_rulesEpoch e + 1 \<noteq> 0 \<Longrightarrow>
    hot_reach pton4 (exec pton4 cmd e) (insert (eng_snapshot (exec pton4 cmd e)) H) c"
| hot_packet: "hot_reach pton4 e H c \<Longrightarrow> sn \<in> H \<Longrightarrow>
    hot_reach pton4 e H (snd (hot_evaluate \<lparr>hs_instanceId = eng_instanceId e, hs_snap = Some sn\<rparr> k c))"

definition hot_inv :: "Engine \<Rightarrow> Snapshot set \<Rightarrow> PacketKeyV4 Cache \<Rightarrow> bool" where
  "hot_inv e H c \<longleftrightarrow> eng_inv e \<and> epochs_ok H \<and> eng_snapshot e \<in> H \<and>
     (\<forall>sn \<in> H. snap_rulesEpoch sn \<le> eng_rulesEpoch e) \<and> cache4.cache_ok (eng_instanceId e) H c"

lemma epoch_of_snapshot: "eng_inv e \<Longrightarrow> snap_rulesEpoch (eng_snapshot e) = eng_rulesEpoch e"
  by (simp add: snapshot_inv compile_snapshot_def Let_def)

lemma hot_inv_command:
  assumes inv: "hot_inv e H c" and room: "eng_rulesEpoch e + 1 \<noteq> 0"
  shows "hot_inv (exec pton4 cmd e) (insert (eng_snapshot (exec pton4 cmd e)) H) c"
proof -
  let ?e' = "exec pton4 cmd e"
  have e': "eng_inv ?e'" using inv eng_inv_exec by (auto simp: hot_inv_def)
  have lt: "eng_rulesEpoch e < eng_rulesEpoch e + 1"
    using room unatSuc [of "eng_rulesEpoch e"] by (simp add: word_less_nat_alt add.commute)
  consider "eng_rulesEpoch ?e' = eng_rulesEpoch e" "eng_snapshot ?e' = eng_snapshot e"
    | "eng_rulesEpoch ?e' = eng_rulesEpoch e + 1"
    using epoch_step_exec [of e pton4 cmd] by (auto simp: epoch_step_def)
  then show ?thesis
  proof cases
    case 1
    then have "insert (eng_snapshot ?e') H = H" using inv by (auto simp: hot_inv_def)
    then show ?thesis using inv e' 1 epoch_step_exec [of e pton4 cmd] by (auto simp: hot_inv_def epoch_step_def)
  next
    case 2
    have old: "snap_rulesEpoch sn < eng_rulesEpoch e + 1" if "sn \<in> H" for sn
      using inv that lt by (auto simp: hot_inv_def intro: le_less_trans)
    have "epochs_ok (insert (eng_snapshot ?e') H)"
      using inv old room unfolding hot_inv_def epochs_ok_def
      by (auto simp: epoch_of_snapshot [OF e'] 2 inj_on_insert) fastforce
    then show ?thesis using inv e' 2 old epoch_of_snapshot [OF e'] epoch_step_exec [of e pton4 cmd]
      cache4.cache_ok_mono [of "eng_instanceId e" H c "insert (eng_snapshot ?e') H"]
      by (auto simp: hot_inv_def epoch_step_def intro: less_imp_le)
  qed
qed

lemma hot_reach_inv: "hot_reach pton4 e H c \<Longrightarrow> hot_inv e H c"
proof (induction rule: hot_reach.induct)
  case (hot_init iid file0 k0)
  have "eng_rulesEpoch (engine_init iid file0) = 1" by (simp add: engine_init_def Let_def)
  then show ?case
    by (auto simp: hot_inv_def eng_inv_init epochs_ok_def epoch_of_snapshot [OF eng_inv_init] cache4.cache_ok_def
        emptyCache_def entry_ok_def)
next
  case (hot_command e H c cmd)
  then show ?case by (blast intro: hot_inv_command)
next
  case (hot_packet e H c sn k)
  then show ?case
    using cache4.cached_evaluate_correct(2) [of H "\<lparr>hs_instanceId = eng_instanceId e, hs_snap = Some sn\<rparr>" sn c k]
    by (simp add: hot_inv_def hot_evaluate_def)
qed

section \<open>The packed capability word\<close>

lemma caps_roundtrip:
  assumes "unat ep < 2 ^ 56"
  shows "usesCtMaskIfFresh (setUsesCtMask ep m) ep' = (if ep' = ep then Some m else None)"
proof -
  have "unat (take_bit 56 ep) = unat ep" using assms by (simp add: unsigned_take_bit_eq take_bit_nat_eq_self)
  then have "take_bit 56 ep = ep" by (simp add: word_unat_eq_iff)
  then have small: "bit ep i \<Longrightarrow> i < 56" for i by (metis bit_take_bit_iff)
  have hi: "drop_bit 8 (setUsesCtMask ep m) = ep"
    by (rule bit_word_eqI) (auto simp: setUsesCtMask_def bit_simps bit_ucast_iff dest: bit_imp_le_length small)
  have ff: "x AND 0xFF = take_bit 8 x" for x :: u64 by (simp add: take_bit_eq_mask mask_eq_decr_exp)
  have lo: "ucast (setUsesCtMask ep m AND 0xFF) = m"
    unfolding ff by (rule bit_word_eqI) (auto simp: setUsesCtMask_def bit_simps bit_ucast_iff)
  show ?thesis by (simp add: usesCtMaskIfFresh_def Let_def hi lo)
qed

text \<open>C7. The decision cache is transparent: however control commands and packets interleave (the
  64-bit epoch not wrapping), evaluating a packet through the cache against a pinned snapshot gives
  the decision of that snapshot, also when the snapshot has been superseded or the slot holds an
  entry of another epoch or key.\<close>

theorem cache_transparent:
  assumes "hot_reach pton4 e H c" and "sn \<in> H"
  shows "fst (hot_evaluate \<lparr>hs_instanceId = eng_instanceId e, hs_snap = Some sn\<rparr> k c) = snap_evaluate sn k"
  using cache4.cached_evaluate_correct(1) [of H "\<lparr>hs_instanceId = eng_instanceId e, hs_snap = Some sn\<rparr>" sn c k]
    hot_reach_inv [OF assms(1)] assms(2)
  by (simp add: hot_inv_def hot_evaluate_def)

theorem cache_transparent_witness:
  "fst (hot_evaluate (hotSnapshot (engine_init 7 None)) ex_key (emptyCache 1024 ex_key)) =
     snap_evaluate (eng_snapshot (engine_init 7 None)) ex_key"
  using cache_transparent [OF hot_reach.hot_init [of "\<lambda>_. None" 7 None ex_key], of _ ex_key] by (simp add: hotSnapshot_def)

text \<open>The capability word of an app gives back the mask that was stored for an epoch and is
  stale for every other epoch, as long as the epoch fits the 56 bits the word has for it.\<close>

theorem caps_cache_fresh_iff_same_epoch:
  assumes "unat ep < 2 ^ 56"
  shows "usesCtMaskIfFresh (setUsesCtMask ep m) ep' = (if ep' = ep then Some m else None)"
  using assms by (rule caps_roundtrip)

theorem caps_cache_fresh_iff_same_epoch_witness:
  "usesCtMaskIfFresh (setUsesCtMask 5 3) 5 = Some 3 \<and> usesCtMaskIfFresh (setUsesCtMask 5 3) 6 = None"
  using caps_cache_fresh_iff_same_epoch [of 5 3 5] caps_cache_fresh_iff_same_epoch [of 5 3 6] by simp

end
