(* ===== verification/IpRulesExplain.thy ===== *)
theory IpRulesExplain
  imports IpRulesHot
begin

text \<open>
  Explanations of decisions (\<^verbatim>\<open>src/src/IpRulesEngine.cpp\<close>, \<^verbatim>\<open>explainEnforce\<close>, \<^verbatim>\<open>explainWould\<close>;
  \<^verbatim>\<open>src/src/ControlVNextStreamExplain.hpp\<close>, \<^verbatim>\<open>capCandidateSnapshots\<close>): the rule snapshots with their
  normalised match key, the collection of all matching candidates over the subtables, their order, and
  the cap on the number of candidates. They are shown to list exactly the matching rules and never to
  drop the deciding one.
\<close>

section \<open>Explaining a decision\<close>

record IpRulesRuleSnapshot =
  rs_ruleId :: u32
  rs_clientRuleId :: string
  rs_matchKey :: string
  rs_action :: string
  rs_enforce :: bool
  rs_log :: bool
  rs_family :: string
  rs_dir :: string
  rs_iface :: string
  rs_ifindex :: u32
  rs_proto :: string
  rs_ctState :: string
  rs_ctDirection :: string
  rs_src :: string
  rs_dst :: string
  rs_sport :: string
  rs_dport :: string
  rs_priority :: i32

definition matchKeyMk2 :: "string \<Rightarrow> ('c \<Rightarrow> string) \<Rightarrow> 'c RuleRef \<Rightarrow> string" where
  "matchKeyMk2 family cidr r =
     ''mk2'' @ ''|family='' @ family @
     ''|dir='' @ normalizeDirection (rr_dir r) @ ''|iface='' @ normalizeIfaceKind (rr_iface r) @
     ''|ifindex='' @ dec_string (unat (rr_ifindex r)) @ ''|proto='' @ normalizeProto (rr_proto r) @
     ''|ctstate='' @ normalizeCtState (rr_ctState r) @ ''|ctdir='' @ normalizeCtDirection (rr_ctDir r) @
     ''|src='' @ cidr (rr_src r) @ ''|dst='' @ cidr (rr_dst r) @
     ''|sport='' @ normalizePortPredicate (rr_sport r) @ ''|dport='' @ normalizePortPredicate (rr_dport r)"

definition ruleSnapshot :: "string \<Rightarrow> ('c \<Rightarrow> string) \<Rightarrow> 'c RuleRef \<Rightarrow> IpRulesRuleSnapshot" where
  "ruleSnapshot family cidr r =
     \<lparr>rs_ruleId = rr_ruleId r, rs_clientRuleId = rr_clientRuleId r, rs_matchKey = matchKeyMk2 family cidr r,
      rs_action = normalizeAction (rr_action r), rs_enforce = rr_enforce r, rs_log = rr_log r,
      rs_family = family, rs_dir = normalizeDirection (rr_dir r), rs_iface = normalizeIfaceKind (rr_iface r),
      rs_ifindex = rr_ifindex r, rs_proto = normalizeProto (rr_proto r),
      rs_ctState = normalizeCtState (rr_ctState r), rs_ctDirection = normalizeCtDirection (rr_ctDir r),
      rs_src = cidr (rr_src r), rs_dst = cidr (rr_dst r), rs_sport = normalizePortPredicate (rr_sport r),
      rs_dport = normalizePortPredicate (rr_dport r), rs_priority = rr_priority r\<rparr>"

definition explainLess :: "IpRulesRuleSnapshot \<Rightarrow> IpRulesRuleSnapshot \<Rightarrow> bool" where
  "explainLess a b =
     (if rs_priority a \<noteq> rs_priority b then i32_less (rs_priority b) (rs_priority a)
      else rs_ruleId a < rs_ruleId b)"

definition appendMatching ::
  "('c RuleRef \<Rightarrow> IpRulesRuleSnapshot) \<Rightarrow> ('c RuleRef \<Rightarrow> bool) \<Rightarrow> 'c RuleRef list \<Rightarrow>
   IpRulesRuleSnapshot list \<Rightarrow> IpRulesRuleSnapshot list" where
  "appendMatching snapOf m rules out = out @ map snapOf (filter m rules)"

text \<open>The loop over the subtables: \<open>cands\<close> gives the exact and the range candidates of a bucket.\<close>

fun explain_loop ::
  "(('ip, 'c) Subtable \<Rightarrow> i32) \<Rightarrow> ('c Bucket \<Rightarrow> 'c RuleRef list \<times> 'c RuleRef list) \<Rightarrow> (MaskSig \<Rightarrow> 'ip MaskedKey) \<Rightarrow>
   ('c RuleRef \<Rightarrow> IpRulesRuleSnapshot) \<Rightarrow> ('c RuleRef \<Rightarrow> bool) \<Rightarrow> ('ip, 'c) Subtable list \<Rightarrow>
   IpRulesRuleSnapshot list \<Rightarrow> IpRulesRuleSnapshot list" where
  "explain_loop maxp cands pkey snapOf m [] out = out"
| "explain_loop maxp cands pkey snapOf m (st # sts) out =
     (if maxp st = kNoPriority then out
      else explain_loop maxp cands pkey snapOf m sts
             (case st_buckets st (pkey (st_sig st)) of
                None \<Rightarrow> out
              | Some b \<Rightarrow> appendMatching snapOf m (snd (cands b)) (appendMatching snapOf m (fst (cands b)) out)))"

definition explain_view where
  "explain_view maxp cands pkey snapOf m view order =
     std_sort explainLess (explain_loop maxp cands pkey snapOf m (map (\<lambda>idx. subtables view ! idx) order) [])"

definition explainEnforce :: "(u32 \<Rightarrow> string option) \<Rightarrow> Snapshot \<Rightarrow> PacketKeyV4 \<Rightarrow> IpRulesRuleSnapshot list" where
  "explainEnforce ntop4 snap k =
     (case byUid snap (k_uid k) of
        None \<Rightarrow> []
      | Some view \<Rightarrow> explain_view maxEnforcePriority (\<lambda>b. (exactEnforce b, rangeEnforce b))
          (\<lambda>sig. maskedKeyFromPacket sig k) (ruleSnapshot ''ipv4'' (normalizeCidrV4 ntop4)) (\<lambda>r. matchesV4 r k)
          view (enforceOrder view))"

definition explainWould :: "(u32 \<Rightarrow> string option) \<Rightarrow> Snapshot \<Rightarrow> PacketKeyV4 \<Rightarrow> IpRulesRuleSnapshot list" where
  "explainWould ntop4 snap k =
     (case byUid snap (k_uid k) of
        None \<Rightarrow> []
      | Some view \<Rightarrow> explain_view maxWouldPriority (\<lambda>b. (exactWould b, rangeWould b))
          (\<lambda>sig. maskedKeyFromPacket sig k) (ruleSnapshot ''ipv4'' (normalizeCidrV4 ntop4)) (\<lambda>r. matchesV4 r k)
          view (wouldOrder view))"

definition explainEnforceV6 :: "(ip6 \<Rightarrow> string option) \<Rightarrow> Snapshot \<Rightarrow> PacketKeyV6 \<Rightarrow> IpRulesRuleSnapshot list" where
  "explainEnforceV6 ntop6 snap k =
     (case byUid6 snap (k_uid k) of
        None \<Rightarrow> []
      | Some view \<Rightarrow> explain_view maxEnforcePriority (\<lambda>b. (exactEnforce b, rangeEnforce b))
          (\<lambda>sig. maskedKeyFromPacketV6 sig k) (ruleSnapshot ''ipv6'' (normalizeCidrV6 ntop6)) (\<lambda>r. matchesV6 r k)
          view (enforceOrder view))"

definition explainWouldV6 :: "(ip6 \<Rightarrow> string option) \<Rightarrow> Snapshot \<Rightarrow> PacketKeyV6 \<Rightarrow> IpRulesRuleSnapshot list" where
  "explainWouldV6 ntop6 snap k =
     (case byUid6 snap (k_uid k) of
        None \<Rightarrow> []
      | Some view \<Rightarrow> explain_view maxWouldPriority (\<lambda>b. (exactWould b, rangeWould b))
          (\<lambda>sig. maskedKeyFromPacketV6 sig k) (ruleSnapshot ''ipv6'' (normalizeCidrV6 ntop6)) (\<lambda>r. matchesV6 r k)
          view (wouldOrder view))"

text \<open>\<^verbatim>\<open>capCandidateSnapshots\<close>: the list, whether it was truncated, and how many were omitted
  (a 32-bit count).\<close>

definition maxExplainCandidatesPerStage :: nat where
  "maxExplainCandidatesPerStage = 64"

function fill_up :: "nat \<Rightarrow> 'a list \<Rightarrow> 'a list \<Rightarrow> 'a list" where
  "fill_up n snapshots capped =
     (if length capped < n then fill_up n snapshots (capped @ [snapshots ! length capped]) else capped)"
  by auto
termination by (relation "measure (\<lambda>(n, _, capped). n - length capped)") auto

declare fill_up.simps [simp del]

definition capCandidateSnapshots ::
  "('a \<Rightarrow> u32) \<Rightarrow> u32 option \<Rightarrow> 'a list \<Rightarrow> 'a list \<times> bool \<times> u32 option" where
  "capCandidateSnapshots ruleIdOf winningRuleId snapshots =
     (if length snapshots \<le> maxExplainCandidatesPerStage then (snapshots, False, None)
      else
        let capped = take (maxExplainCandidatesPerStage - 1) snapshots;
            winnerAlreadyKept = (case winningRuleId of None \<Rightarrow> True | Some w \<Rightarrow> list_ex (\<lambda>s. ruleIdOf s = w) capped);
            capped' = (case winningRuleId of
                         Some w \<Rightarrow> (if winnerAlreadyKept then capped
                                    else case find (\<lambda>s. ruleIdOf s = w) snapshots of
                                           Some s \<Rightarrow> capped @ [s] | None \<Rightarrow> capped)
                       | None \<Rightarrow> capped)
        in (fill_up maxExplainCandidatesPerStage snapshots capped', True,
            Some (of_nat (length snapshots - maxExplainCandidatesPerStage))))"

text \<open>The hot-path wrappers cap what the snapshot explains; without a snapshot there is nothing to explain.\<close>

definition hot_explainEnforce ::
  "(u32 \<Rightarrow> string option) \<Rightarrow> HotSnapshot \<Rightarrow> PacketKeyV4 \<Rightarrow> u32 option \<Rightarrow>
   IpRulesRuleSnapshot list \<times> bool \<times> u32 option" where
  "hot_explainEnforce ntop4 hs k winner =
     (case hs_snap hs of
        None \<Rightarrow> ([], False, None)
      | Some sn \<Rightarrow> capCandidateSnapshots rs_ruleId winner (explainEnforce ntop4 sn k))"

definition hot_explainWould ::
  "(u32 \<Rightarrow> string option) \<Rightarrow> HotSnapshot \<Rightarrow> PacketKeyV4 \<Rightarrow> u32 option \<Rightarrow>
   IpRulesRuleSnapshot list \<times> bool \<times> u32 option" where
  "hot_explainWould ntop4 hs k winner =
     (case hs_snap hs of
        None \<Rightarrow> ([], False, None)
      | Some sn \<Rightarrow> capCandidateSnapshots rs_ruleId winner (explainWould ntop4 sn k))"

definition hot_explainEnforceV6 ::
  "(ip6 \<Rightarrow> string option) \<Rightarrow> HotSnapshot \<Rightarrow> PacketKeyV6 \<Rightarrow> u32 option \<Rightarrow>
   IpRulesRuleSnapshot list \<times> bool \<times> u32 option" where
  "hot_explainEnforceV6 ntop6 hs k winner =
     (case hs_snap hs of
        None \<Rightarrow> ([], False, None)
      | Some sn \<Rightarrow> capCandidateSnapshots rs_ruleId winner (explainEnforceV6 ntop6 sn k))"

definition hot_explainWouldV6 ::
  "(ip6 \<Rightarrow> string option) \<Rightarrow> HotSnapshot \<Rightarrow> PacketKeyV6 \<Rightarrow> u32 option \<Rightarrow>
   IpRulesRuleSnapshot list \<times> bool \<times> u32 option" where
  "hot_explainWouldV6 ntop6 hs k winner =
     (case hs_snap hs of
        None \<Rightarrow> ([], False, None)
      | Some sn \<Rightarrow> capCandidateSnapshots rs_ruleId winner (explainWouldV6 ntop6 sn k))"

section \<open>The cap keeps the winner\<close>

lemma fill_up_step: "length capped < n \<Longrightarrow> fill_up n s capped = fill_up n s (capped @ [s ! length capped])"
  by (subst fill_up.simps) simp

lemma fill_up_done: "n \<le> length capped \<Longrightarrow> fill_up n s capped = capped"
  by (subst fill_up.simps) simp

lemma cap_spec:
  assumes "capCandidateSnapshots ruleIdOf winner s = (out, truncated, omitted)"
  shows "length out = min 64 (length s) \<and> set out \<subseteq> set s \<and> take 63 out = take 63 s \<and>
    (truncated \<longleftrightarrow> 64 < length s) \<and>
    omitted = (if 64 < length s then Some (of_nat (length s - 64)) else None) \<and>
    (\<forall>w. winner = Some w \<longrightarrow> (\<exists>x \<in> set s. ruleIdOf x = w) \<longrightarrow> (\<exists>x \<in> set out. ruleIdOf x = w))"
proof (cases "length s \<le> 64")
  case True
  then show ?thesis using assms by (auto simp: capCandidateSnapshots_def maxExplainCandidatesPerStage_def)
next
  case False
  let ?c = "take 63 s"
  have len: "length ?c = 63" using False by simp
  have fill: "fill_up 64 s ?c = ?c @ [s ! 63]" using len by (simp add: fill_up_step fill_up_done)
  have full: "fill_up 64 s (?c @ [x]) = ?c @ [x]" for x using len by (simp add: fill_up_done)
  have last: "s ! 63 \<in> set s" using False by simp
  obtain x where out: "out = ?c @ [x]" "x \<in> set s" "truncated" "omitted = Some (of_nat (length s - 64))"
    and win: "\<forall>w. winner = Some w \<longrightarrow> (\<exists>y \<in> set s. ruleIdOf y = w) \<longrightarrow> (\<exists>y \<in> set (?c @ [x]). ruleIdOf y = w)"
  proof (cases "\<exists>w y. winner = Some w \<and> \<not> list_ex (\<lambda>s. ruleIdOf s = w) ?c \<and> find (\<lambda>s. ruleIdOf s = w) s = Some y")
    case True
    then obtain w y where w: "winner = Some w" "\<not> list_ex (\<lambda>s. ruleIdOf s = w) ?c" "find (\<lambda>s. ruleIdOf s = w) s = Some y" by blast
    have "y \<in> set s \<and> ruleIdOf y = w" using find_Some_mem [OF w(3)] .
    moreover have "out = ?c @ [y]" "truncated" "omitted = Some (of_nat (length s - 64))"
      using assms False w full by (auto simp: capCandidateSnapshots_def maxExplainCandidatesPerStage_def Let_def)
    ultimately show ?thesis using that w(1) by auto
  next
    case no: False
    have "out = ?c @ [s ! 63]" "truncated" "omitted = Some (of_nat (length s - 64))"
      using assms False no fill by (auto simp: capCandidateSnapshots_def maxExplainCandidatesPerStage_def Let_def split: option.splits if_splits)
    moreover have "\<forall>w. winner = Some w \<longrightarrow> (\<exists>y \<in> set s. ruleIdOf y = w) \<longrightarrow> (\<exists>y \<in> set ?c. ruleIdOf y = w)"
      using no by (fastforce simp: list_ex_iff find_None_iff)
    ultimately show ?thesis using that last by fastforce
  qed
  have "set out \<subseteq> set s" using out(1,2) by (auto dest: in_set_takeD)
  moreover have "take 63 out = take 63 s" "length out = 64" using len by (simp_all add: out(1))
  ultimately show ?thesis using False out(3,4) win by (simp add: out(1))
qed

section \<open>Explanations are complete\<close>

definition subtable_hits ::
  "('c Bucket \<Rightarrow> 'c RuleRef list \<times> 'c RuleRef list) \<Rightarrow> (MaskSig \<Rightarrow> 'ip MaskedKey) \<Rightarrow> ('c RuleRef \<Rightarrow> bool) \<Rightarrow>
   ('ip, 'c) Subtable \<Rightarrow> 'c RuleRef list" where
  "subtable_hits cands pkey m st =
     (case st_buckets st (pkey (st_sig st)) of None \<Rightarrow> [] | Some b \<Rightarrow> filter m (fst (cands b) @ snd (cands b)))"

lemma explain_loop_concat:
  "explain_loop maxp cands pkey snapOf m sts out =
     out @ map snapOf (concat (map (subtable_hits cands pkey m) (takeWhile (\<lambda>st. maxp st \<noteq> kNoPriority) sts)))"
  by (induction sts arbitrary: out) (auto simp: subtable_hits_def appendMatching_def split: option.splits)

definition class_cands :: "bool \<Rightarrow> 'c Bucket \<Rightarrow> 'c RuleRef list \<times> 'c RuleRef list" where
  "class_cands e b = (if e then (exactEnforce b, rangeEnforce b) else (exactWould b, rangeWould b))"

lemma mset_std_sort [simp]: "mset (std_sort lt xs) = mset xs"
proof -
  have "mset (std_insert lt x ys) = add_mset x (mset ys)" for x ys by (induction ys) auto
  then show ?thesis by (induction xs) auto
qed

lemma mset_class_cands:
  "mset (fst (class_cands e (sortAll (ref_bucket rs))) @ snd (class_cands e (sortAll (ref_bucket rs)))) =
   mset (filter (\<lambda>r. rr_enforce r = e) rs)"
proof -
  have "mset (filter (\<lambda>r. P r \<and> \<not> ref_range r) rs) + mset (filter (\<lambda>r. P r \<and> ref_range r) rs) = mset (filter P rs)" for P
    by (induction rs) auto
  then show ?thesis by (cases e) (simp_all add: class_cands_def sortAll_def ref_bucket_def)
qed

lemma mset_concat_by_key:
  assumes "distinct sgs" and "\<forall>r \<in> set rs. P r \<longrightarrow> f r \<in> set sgs"
  shows "mset (concat (map (\<lambda>sg. filter (\<lambda>r. f r = sg \<and> P r) rs) sgs)) = mset (filter P rs)"
  using assms(2)
proof (induction rs)
  case Nil
  then show ?case by (simp add: mset_concat comp_def)
next
  case (Cons r rs)
  have one: "mset (concat (map (\<lambda>sg. filter (\<lambda>x. f x = sg \<and> P x) (r # rs)) xs)) =
      (if P r \<and> f r \<in> set xs then {#r#} else {#}) + mset (concat (map (\<lambda>sg. filter (\<lambda>x. f x = sg \<and> P x) rs) xs))"
    if "distinct xs" for xs
    using that by (induction xs) auto
  show ?case using one [OF assms(1)] Cons by auto
qed

lemma mset_concat_map: "mset (concat (map f xs)) = (\<Sum>x \<in># mset xs. mset (f x))"
  by (induction xs) auto

lemma dropWhile_reserved:
  "sorted_wrt (\<lambda>a b. sint (maxp b) \<le> sint (maxp a)) sts \<Longrightarrow>
   st \<in> set (dropWhile (\<lambda>st. maxp st \<noteq> kNoPriority) sts) \<Longrightarrow> maxp st = kNoPriority"
proof (induction sts)
  case Nil
  then show ?case by simp
next
  case (Cons x xs)
  then show ?case using i32_lower [of "maxp st"] by (auto simp: eq_kNoPriority_iff split: if_splits)
qed

context tuple_space
begin

lemma subtable_hits_mset:
  assumes good: "\<forall>r \<in> set rs. good r" and ok: "key_ok k" and sg: "filter (\<lambda>r. sig_of r = sg) rs \<noteq> []"
  shows "mset (subtable_hits (class_cands e) (\<lambda>s. pkey s k) (\<lambda>r. matches r k) (sort_buckets (sub_of rs sg))) =
    mset (filter (\<lambda>r. sig_of r = sg \<and> rr_enforce r = e \<and> matches r k) rs)"
proof -
  let ?bs = "filter (\<lambda>r. sig_of r = sg \<and> key_of r = pkey sg k) rs"
  have "mset (subtable_hits (class_cands e) (\<lambda>s. pkey s k) (\<lambda>r. matches r k) (sort_buckets (sub_of rs sg))) =
      filter_mset (\<lambda>r. matches r k) (mset (filter (\<lambda>r. rr_enforce r = e) ?bs))"
  proof (cases "?bs = []")
    case True
    then show ?thesis using sg
      by (simp add: subtable_hits_def sort_buckets_def st_sig_sub_of st_buckets_sub_of del: filter_filter)
  next
    case False
    then show ?thesis using sg mset_class_cands [of e ?bs]
      by (simp add: subtable_hits_def sort_buckets_def st_sig_sub_of st_buckets_sub_of del: filter_filter
          flip: filter_union_mset)
  qed
  also have "\<dots> = mset (filter (\<lambda>r. sig_of r = sg \<and> key_of r = pkey sg k \<and> rr_enforce r = e \<and> matches r k) rs)"
    by (simp flip: mset_filter add: conj_commute conj_left_commute)
  also have "\<dots> = mset (filter (\<lambda>r. sig_of r = sg \<and> rr_enforce r = e \<and> matches r k) rs)"
    using good ok match_key by (intro arg_cong [where f = mset] filter_cong) auto
  finally show ?thesis .
qed

definition explain :: "u32 set \<Rightarrow> bool \<Rightarrow> ('c RuleRef \<Rightarrow> IpRulesRuleSnapshot) \<Rightarrow> 'c RuleRef list \<Rightarrow> 'ip PacketKey \<Rightarrow> IpRulesRuleSnapshot list" where
  "explain ct e snapOf refs k =
     (case build_views ct (fill refs) (k_uid k) of
        None \<Rightarrow> []
      | Some view \<Rightarrow> explain_view (class_max e) (class_cands e) (\<lambda>sg. pkey sg k) snapOf (\<lambda>r. matches r k)
                       view (class_order e view))"

lemma explain_eq:
  "explain ct e snapOf refs k =
     (let rs = filter (\<lambda>r. rr_uid r = k_uid k) refs in
      std_sort explainLess (explain_loop (class_max e) (class_cands e) (\<lambda>sg. pkey sg k) snapOf (\<lambda>r. matches r k)
        (sort_key (order_key (class_max e)) (map (\<lambda>p. sort_buckets (snd p)) (sub_map rs))) []))"
  unfolding explain_def build_views_def map_of_map_views map_of_fill
  by (simp add: Let_def explain_view_def view_order sub_map_def)

lemma explain_hits:
  assumes good: "\<forall>r \<in> set refs. good r" and ok: "key_ok k"
    and prio: "\<forall>r \<in> set refs. rr_priority r \<noteq> kNoPriority"
    and rs: "rs = filter (\<lambda>r. rr_uid r = k_uid k) refs"
    and sts: "sts = sort_key (order_key (class_max e)) (map (\<lambda>p. sort_buckets (snd p)) (sub_map rs))"
  shows "mset (concat (map (subtable_hits (class_cands e) (\<lambda>s. pkey s k) (\<lambda>r. matches r k))
      (takeWhile (\<lambda>st. class_max e st \<noteq> kNoPriority) sts))) = mset (filter (\<lambda>r. rr_enforce r = e \<and> matches r k) refs)"
proof -
  let ?hits = "subtable_hits (class_cands e) (\<lambda>s. pkey s k) (\<lambda>r. matches r k)"
  let ?all = "map (\<lambda>p. sort_buckets (snd p)) (sub_map rs)"
  let ?P = "\<lambda>r. rr_enforce r = e \<and> matches r k"
  have good': "\<forall>r \<in> set rs. good r" using good by (simp add: rs)
  have none: "?hits st = []" if "st \<in> set sts" "class_max e st = kNoPriority" for st
  proof -
    have "st \<in> set ?all" using that(1) by (simp add: sts)
    from subtable_cases [OF this, of e] obtain sg where sg: "filter (\<lambda>r. sig_of r = sg) rs \<noteq> []"
      "st = sort_buckets (sub_of rs sg)" "class_max e st = prio_max (filter (\<lambda>r. rr_enforce r = e \<and> sig_of r = sg) rs)" by blast
    have "\<not> (sig_of r = sg \<and> ?P r)" if r: "r \<in> set rs" for r
    proof
      assume a: "sig_of r = sg \<and> ?P r"
      have "rr_priority r = kNoPriority"
        by (rule prio_max_none [of "filter (\<lambda>r. rr_enforce r = e \<and> sig_of r = sg) rs"])
          (use r a sg(3) \<open>class_max e st = kNoPriority\<close> in simp_all)
      then show False using prio r by (simp add: rs)
    qed
    then have "filter (\<lambda>r. sig_of r = sg \<and> ?P r) rs = []" unfolding filter_empty_conv by blast
    then show ?thesis using subtable_hits_mset [OF good' ok sg(1), of e] sg(2) by simp
  qed
  have "sorted (map (order_key (class_max e)) sts)" by (simp add: sts)
  then have desc: "sorted_wrt (\<lambda>a b. sint (class_max e b) \<le> sint (class_max e a)) sts"
    unfolding sorted_map by (rule sorted_wrt_mono_rel [rotated]) (auto simp: order_key_def less_eq_prod_def)
  have "concat (map ?hits (dropWhile (\<lambda>st. class_max e st \<noteq> kNoPriority) sts)) = []"
    unfolding concat_eq_Nil_conv by (auto intro!: none dest: set_dropWhileD dropWhile_reserved [OF desc])
  then have "concat (map ?hits (takeWhile (\<lambda>st. class_max e st \<noteq> kNoPriority) sts)) = concat (map ?hits sts)"
    by (metis append.right_neutral concat_append map_append takeWhile_dropWhile_id)
  moreover have "mset (concat (map ?hits sts)) = mset (concat (map ?hits ?all))"
    by (simp add: mset_concat_map sts del: map_map)
  moreover have "mset (concat (map ?hits ?all)) = mset (concat (map (\<lambda>sg. filter (\<lambda>r. sig_of r = sg \<and> ?P r) rs) (map fst (sub_map rs))))"
  proof -
    have "mset (?hits (sort_buckets (snd p))) = mset (filter (\<lambda>r. sig_of r = fst p \<and> ?P r) rs)" if "p \<in> set (sub_map rs)" for p
    proof -
      have "map_of (sub_map rs) (fst p) = Some (snd p)" using that omap_in_set_iff [OF sub_map_wf] by (metis prod.collapse)
      then show ?thesis using subtable_hits_mset [OF good' ok, of "fst p" e] by (auto simp: map_of_sub_map split: if_splits)
    qed
    then show ?thesis unfolding mset_concat_map mset_map multiset.map_comp comp_def
      by (intro arg_cong [where f = sum_mset] image_mset_cong) simp
  qed
  moreover have "\<dots> = mset (filter ?P rs)"
  proof (rule mset_concat_by_key)
    show "distinct (map fst (sub_map rs))" by (rule omap_wf_distinct [OF sub_map_wf])
    have "sig_of r \<in> set (map fst (sub_map rs))" if "r \<in> set rs" for r
    proof -
      have "map_of (sub_map rs) (sig_of r) \<noteq> None" using that by (auto simp: map_of_sub_map filter_empty_conv)
      then show ?thesis by (simp add: map_of_eq_None_iff)
    qed
    then show "\<forall>r \<in> set rs. ?P r \<longrightarrow> sig_of r \<in> set (map fst (sub_map rs))" by blast
  qed
  moreover have "filter ?P rs = filter ?P refs"
    using match_uid by (auto simp: rs intro!: filter_cong)
  ultimately show ?thesis by simp
qed

text \<open>The explanation lists exactly the matching rules of the class, by priority and rule id.\<close>

theorem explain_complete:
  assumes "\<forall>r \<in> set refs. good r" and "key_ok k" and "\<forall>r \<in> set refs. rr_priority r \<noteq> kNoPriority"
    and inj: "inj_on rr_ruleId (set refs)"
    and snapOf: "\<And>r. rs_priority (snapOf r) = rr_priority r" "\<And>r. rs_ruleId (snapOf r) = rr_ruleId r"
  shows "explain ct e snapOf refs k =
    map snapOf (sort_key rule_key (filter (\<lambda>r. rr_enforce r = e \<and> matches r k) refs))"
proof -
  define L where "L = concat (map (subtable_hits (class_cands e) (\<lambda>s. pkey s k) (\<lambda>r. matches r k))
      (takeWhile (\<lambda>st. class_max e st \<noteq> kNoPriority) (sort_key (order_key (class_max e))
        (map (\<lambda>p. sort_buckets (snd p)) (sub_map (filter (\<lambda>r. rr_uid r = k_uid k) refs))))))"
  let ?F = "filter (\<lambda>r. rr_enforce r = e \<and> matches r k) refs"
  have L: "mset L = mset ?F" unfolding L_def by (rule explain_hits [OF assms(1-3) refl refl])
  have less: "explainLess = (\<lambda>a b. (- sint (rs_priority a), rs_ruleId a) < (- sint (rs_priority b), rs_ruleId b))"
    by (auto simp: fun_eq_iff explainLess_def i32_less_def less_prod_def' dest: signed_word_eqI)
  have "explain ct e snapOf refs k = sort_key (\<lambda>s. (- sint (rs_priority s), rs_ruleId s)) (map snapOf L)"
    unfolding explain_eq Let_def explain_loop_concat less std_sort_eq_sort_key L_def by simp
  also have "\<dots> = map snapOf (sort_key rule_key L)"
    using map_sort_key [of snapOf "\<lambda>s. (- sint (rs_priority s), rs_ruleId s)" L]
    by (simp add: snapOf rule_key_def [abs_def])
  also have "sort_key rule_key L = sort_key rule_key ?F"
  proof (rule sort_key_inj_key_eq)
    show "mset L = mset (sort_key rule_key ?F)" by (simp add: L)
    have "set L \<subseteq> set refs" using mset_eq_setD [OF L] by auto
    then show "inj_on rule_key (set L)" using inj by (auto simp: inj_on_def rule_key_def)
  qed simp
  finally show ?thesis .
qed

end

lemma class_cands_simps:
  "class_cands True = (\<lambda>b. (exactEnforce b, rangeEnforce b))"
  "class_cands False = (\<lambda>b. (exactWould b, rangeWould b))"
  by (simp_all add: fun_eq_iff class_cands_def)

lemma snapshot_keys [simp]:
  "rs_priority (ruleSnapshot fam n r) = rr_priority r" "rs_ruleId (ruleSnapshot fam n r) = rr_ruleId r"
  by (simp_all add: ruleSnapshot_def)

lemma explain_search4:
  "explainEnforce n4 (compile_snapshot rules epoch) k =
     ts4.explain (uidUsesCt4 (compile_acc rules)) True (ruleSnapshot ''ipv4'' (normalizeCidrV4 n4)) (activeRefs4 rules) k"
  "explainWould n4 (compile_snapshot rules epoch) k =
     ts4.explain (uidUsesCt4 (compile_acc rules)) False (ruleSnapshot ''ipv4'' (normalizeCidrV4 n4)) (activeRefs4 rules) k"
  unfolding ts4.explain_def class_simps class_cands_simps
  by (simp_all add: explainEnforce_def explainWould_def compile_snapshot_def Let_def uidTables4_compile)

lemma explain_search6:
  "explainEnforceV6 n6 (compile_snapshot rules epoch) k =
     ts6.explain (uidUsesCt6 (compile_acc rules)) True (ruleSnapshot ''ipv6'' (normalizeCidrV6 n6)) (activeRefs6 rules) k"
  "explainWouldV6 n6 (compile_snapshot rules epoch) k =
     ts6.explain (uidUsesCt6 (compile_acc rules)) False (ruleSnapshot ''ipv6'' (normalizeCidrV6 n6)) (activeRefs6 rules) k"
  unfolding ts6.explain_def class_simps class_cands_simps
  by (simp_all add: explainEnforceV6_def explainWouldV6_def compile_snapshot_def Let_def uidTables6_compile)

text \<open>The explanation of an IPv4 packet is complete and ordered: for the enforced and for the
  would-block rules it lists the snapshot of every enabled rule that matches the packet, nothing
  else and each once, by descending priority and ascending rule id.\<close>

theorem explain_v4_complete:
  assumes "rules_ok rules" and "priorities_ok rules"
  shows "explainEnforce ntop4 (compile_snapshot rules epoch) k =
      map (ruleSnapshot ''ipv4'' (normalizeCidrV4 ntop4))
        (sort_key rule_key (filter (\<lambda>r. rr_enforce r \<and> matchesV4 r k) (activeRefs4 rules))) \<and>
    explainWould ntop4 (compile_snapshot rules epoch) k =
      map (ruleSnapshot ''ipv4'' (normalizeCidrV4 ntop4))
        (sort_key rule_key (filter (\<lambda>r. \<not> rr_enforce r \<and> matchesV4 r k) (activeRefs4 rules)))"
  unfolding explain_search4
  using ts4.explain_complete [OF refs_ok4(1) [OF assms] TrueI refs_ok4(2,3) [OF assms] snapshot_keys]
  by simp

text \<open>The same for IPv6 packets.\<close>

theorem explain_v6_complete:
  assumes "rules_ok rules" and "priorities_ok rules"
    and "length (k_srcIp k) = 16" and "length (k_dstIp k) = 16"
  shows "explainEnforceV6 ntop6 (compile_snapshot rules epoch) k =
      map (ruleSnapshot ''ipv6'' (normalizeCidrV6 ntop6))
        (sort_key rule_key (filter (\<lambda>r. rr_enforce r \<and> matchesV6 r k) (activeRefs6 rules))) \<and>
    explainWouldV6 ntop6 (compile_snapshot rules epoch) k =
      map (ruleSnapshot ''ipv6'' (normalizeCidrV6 ntop6))
        (sort_key rule_key (filter (\<lambda>r. \<not> rr_enforce r \<and> matchesV6 r k) (activeRefs6 rules)))"
  unfolding explain_search6
  using ts6.explain_complete [OF refs_ok6(1) [OF assms(1,2)] conjI [OF assms(3,4)] refs_ok6(2,3) [OF assms(1,2)] snapshot_keys]
  by simp

theorem explain_v4_complete_witness:
  "map rs_ruleId (explainEnforce (\<lambda>_. None) (compile_snapshot [(1, ex_block), (2, ex_allow)] 7) ex_key) = [2, 1] \<and>
   explainWould (\<lambda>_. None) (compile_snapshot [(1, ex_block), (2, ex_allow)] 7) ex_key = []"
proof -
  have "map rr_ruleId (sort_key rule_key (filter (\<lambda>r. rr_enforce r \<and> matchesV4 r ex_key)
      (activeRefs4 [(1, ex_block), (2, ex_allow)]))) = [2, 1]"
    "filter (\<lambda>r. \<not> rr_enforce r \<and> matchesV4 r ex_key) (activeRefs4 [(1, ex_block), (2, ex_allow)]) = []"
    by code_simp+
  then show ?thesis unfolding explain_v4_complete [OF ex_rules_ok ex_priorities_ok, THEN conjunct1]
      explain_v4_complete [OF ex_rules_ok ex_priorities_ok, THEN conjunct2] by (simp add: comp_def)
qed

theorem explain_v6_complete_witness:
  "explainEnforceV6 (\<lambda>_. None) (compile_snapshot [(3, ex_rule6)] 7) ex_key6 = [] \<and>
   map rs_ruleId (explainWouldV6 (\<lambda>_. None) (compile_snapshot [(3, ex_rule6)] 7) ex_key6) = [3]"
proof -
  have len: "length (k_srcIp ex_key6) = 16" "length (k_dstIp ex_key6) = 16" by (simp_all add: ex_key6_def)
  note ex = explain_v6_complete [OF ex_rules6_ok ex_priorities6_ok len]
  have "filter (\<lambda>r. rr_enforce r \<and> matchesV6 r ex_key6) (activeRefs6 [(3, ex_rule6)]) = []"
    "map rr_ruleId (sort_key rule_key (filter (\<lambda>r. \<not> rr_enforce r \<and> matchesV6 r ex_key6) (activeRefs6 [(3, ex_rule6)]))) = [3]"
    by code_simp+
  then show ?thesis unfolding ex [THEN conjunct1] ex [THEN conjunct2] by (simp add: comp_def)
qed

lemma explain_v4_has_winner:
  assumes ok: "rules_ok rules" "priorities_ok rules"
    and d: "d_kind (snap_evaluate (compile_snapshot rules epoch) k) \<in> {D_ALLOW, D_BLOCK}"
  shows "\<exists>s \<in> set (explainEnforce ntop4 (compile_snapshot rules epoch) k).
    rs_ruleId s = d_ruleId (snap_evaluate (compile_snapshot rules epoch) k)"
proof -
  have ev: "snap_evaluate (compile_snapshot rules epoch) k = reference_v4 rules k" by (rule evaluate_reference4 [OF ok])
  let ?best = "\<lambda>e. scan_best (ref_sig pfx4) e (\<lambda>r. matchesV4 r k) (activeRefs4 rules)"
  have dec: "reference_v4 rules k = decide (?best True) (?best False)" by (simp add: reference_v4_def Let_def)
  obtain r where r: "?best True = Some r"
    using d unfolding ev dec by (cases "?best True"; cases "?best False") (auto simp: decide_def noDecision_def)
  then have "d_ruleId (reference_v4 rules k) = rr_ruleId r" by (simp add: dec decide_def)
  moreover note scan_best_SomeD(1-3) [OF r]
  ultimately show ?thesis
    unfolding ev explain_search4
      ts4.explain_complete [OF refs_ok4(1) [OF ok] TrueI refs_ok4(2,3) [OF ok] snapshot_keys]
    by (auto intro!: bexI [of _ r])
qed



end
