(* ===== verification/L4Walker.thy ===== *)
theory L4Walker
  imports Prelude
begin

text \<open>
  Parsing of the transport layer of IPv6 packets (\<^verbatim>\<open>src/src/Ipv6L4Walker.hpp\<close>,
  \<^verbatim>\<open>src/src/L4ParseResult.hpp\<close>): the walk over extension headers with its budget, with every read of
  the buffer checked, and its correctness for chains of well-formed extension headers.
\<close>

section \<open>Reading a packet buffer\<close>

text \<open>A buffer is a byte list. A read outside it has no value; the parsers are functions to options, so
  that "no read is out of bounds" is a theorem about them.\<close>

definition byte_at :: "u8 list \<Rightarrow> nat \<Rightarrow> u8 option" where
  "byte_at buf i = (if i < length buf then Some (buf ! i) else None)"

definition be16 :: "u8 \<Rightarrow> u8 \<Rightarrow> u16" where
  "be16 a b = push_bit 8 (ucast a) OR ucast b"

definition be32 :: "u8 \<Rightarrow> u8 \<Rightarrow> u8 \<Rightarrow> u8 \<Rightarrow> u32" where
  "be32 a b c d = push_bit 24 (ucast a) OR push_bit 16 (ucast b) OR push_bit 8 (ucast c) OR ucast d"

text \<open>\<^verbatim>\<open>ntohs\<close> and \<^verbatim>\<open>ntohl\<close> of a field at an offset.\<close>

definition be16_at :: "u8 list \<Rightarrow> nat \<Rightarrow> u16 option" where
  "be16_at buf i =
     (case (byte_at buf i, byte_at buf (i + 1)) of (Some a, Some b) \<Rightarrow> Some (be16 a b) | _ \<Rightarrow> None)"

definition be32_at :: "u8 list \<Rightarrow> nat \<Rightarrow> u32 option" where
  "be32_at buf i =
     (case (byte_at buf i, byte_at buf (i + 1), byte_at buf (i + 2), byte_at buf (i + 3)) of
        (Some a, Some b, Some c, Some d) \<Rightarrow> Some (be32 a b c d) | _ \<Rightarrow> None)"

section \<open>The result of parsing the transport layer\<close>

datatype L4Status = KNOWN_L4 | OTHER_TERMINAL | FRAGMENT | INVALID_OR_UNAVAILABLE_L4

fun l4_u8 :: "L4Status \<Rightarrow> u8" where
  "l4_u8 KNOWN_L4 = 0"
| "l4_u8 OTHER_TERMINAL = 1"
| "l4_u8 FRAGMENT = 2"
| "l4_u8 INVALID_OR_UNAVAILABLE_L4 = 3"

record L4ParseResult =
  l4Status :: L4Status
  l4_proto :: u16
  l4_srcPort :: u16
  l4_dstPort :: u16
  l4_portsAvailable :: u8

text \<open>The out parameters: where the transport header starts (an offset into the payload) and how many
  bytes are available there (capped at 65535).\<close>

record L4Out =
  lo_result :: L4ParseResult
  lo_l4p :: "nat option"
  lo_payloadLen :: u16

abbreviation (input) "IPPROTO_HOPOPTS \<equiv> (0 :: u8)"
abbreviation (input) "IPPROTO_ICMP \<equiv> (1 :: u8)"
abbreviation (input) "IPPROTO_TCP \<equiv> (6 :: u8)"
abbreviation (input) "IPPROTO_UDP \<equiv> (17 :: u8)"
abbreviation (input) "IPPROTO_ROUTING \<equiv> (43 :: u8)"
abbreviation (input) "IPPROTO_FRAGMENT \<equiv> (44 :: u8)"
abbreviation (input) "IPPROTO_AH \<equiv> (51 :: u8)"
abbreviation (input) "IPPROTO_ICMPV6 \<equiv> (58 :: u8)"
abbreviation (input) "IPPROTO_NONE \<equiv> (59 :: u8)"
abbreviation (input) "IPPROTO_DSTOPTS \<equiv> (60 :: u8)"

definition l4_invalid :: "u8 \<Rightarrow> L4Out" where
  "l4_invalid p = \<lparr>lo_result = \<lparr>l4Status = INVALID_OR_UNAVAILABLE_L4, l4_proto = ucast p, l4_srcPort = 0,
     l4_dstPort = 0, l4_portsAvailable = 0\<rparr>, lo_l4p = None, lo_payloadLen = 0\<rparr>"

definition l4_len16 :: "nat \<Rightarrow> u16" where
  "l4_len16 rem = of_nat (min rem 0xFFFF)"

definition l4_found :: "L4Status \<Rightarrow> u8 \<Rightarrow> u16 \<Rightarrow> u16 \<Rightarrow> u8 \<Rightarrow> nat option \<Rightarrow> nat \<Rightarrow> L4Out" where
  "l4_found s p sp dp av l4p rem = \<lparr>lo_result = \<lparr>l4Status = s, l4_proto = ucast p, l4_srcPort = sp,
     l4_dstPort = dp, l4_portsAvailable = av\<rparr>, lo_l4p = l4p, lo_payloadLen = l4_len16 rem\<rparr>"

text \<open>The data offset of a TCP header: the high four bits of byte 12.\<close>

definition tcp_doff :: "u8 \<Rightarrow> nat" where
  "tcp_doff b = unat (drop_bit 4 b)"

section \<open>The IPv6 header walk\<close>

definition is_ext :: "u8 \<Rightarrow> bool" where
  "is_ext nx \<longleftrightarrow> nx = IPPROTO_HOPOPTS \<or> nx = IPPROTO_ROUTING \<or> nx = IPPROTO_DSTOPTS \<or> nx = IPPROTO_AH"

text \<open>The branches of the loop that return: TCP, UDP, ICMPv6, no next header, fragment header, and
  every other protocol. \<open>off\<close> is the offset of \<^verbatim>\<open>cur\<close>, \<open>rem\<close> the number of remaining bytes.\<close>

definition l4_terminal :: "u8 list \<Rightarrow> u8 \<Rightarrow> nat \<Rightarrow> L4Out option" where
  "l4_terminal buf nx off =
     (let rem = length buf - off in
      if nx = IPPROTO_TCP then
        if rem < 20 then Some (l4_invalid nx)
        else case byte_at buf (off + 12) of None \<Rightarrow> None | Some b \<Rightarrow>
          if tcp_doff b < 5 \<or> rem < tcp_doff b * 4 then Some (l4_invalid nx)
          else case (be16_at buf off, be16_at buf (off + 2)) of
                 (Some sp, Some dp) \<Rightarrow> Some (l4_found KNOWN_L4 nx sp dp 1 (Some off) rem)
               | _ \<Rightarrow> None
      else if nx = IPPROTO_UDP then
        if rem < 8 then Some (l4_invalid nx)
        else case (be16_at buf off, be16_at buf (off + 2)) of
               (Some sp, Some dp) \<Rightarrow> Some (l4_found KNOWN_L4 nx sp dp 1 (Some off) rem)
             | _ \<Rightarrow> None
      else if nx = IPPROTO_ICMPV6 then
        if rem < 8 then Some (l4_invalid nx)
        else Some (l4_found KNOWN_L4 nx 0 0 0 (Some off) rem)
      else if nx = IPPROTO_NONE then Some (l4_found OTHER_TERMINAL nx 0 0 0 None rem)
      else if nx = IPPROTO_FRAGMENT then
        if rem < 8 then Some (l4_invalid nx)
        else case byte_at buf off of None \<Rightarrow> None
             | Some inner \<Rightarrow> Some (l4_found FRAGMENT inner 0 0 0 (Some off) rem)
      else Some (l4_found OTHER_TERMINAL nx 0 0 0 (Some off) rem))"

definition ext_len :: "u8 \<Rightarrow> u8 \<Rightarrow> nat" where
  "ext_len nx l = (if nx = IPPROTO_AH then (unat l + 2) * 4 else (unat l + 1) * 8)"

function l4_walk :: "u8 list \<Rightarrow> u8 \<Rightarrow> nat \<Rightarrow> nat \<Rightarrow> nat \<Rightarrow> L4Out option" where
  "l4_walk buf nx off hdrs walked =
     (if \<not> (hdrs \<le> 8 \<and> walked \<le> 256) then Some (l4_invalid nx)
      else if is_ext nx then
        if length buf - off < 2 then Some (l4_invalid nx)
        else case (byte_at buf off, byte_at buf (off + 1)) of
               (Some nx', Some l) \<Rightarrow>
                 (if length buf - off < ext_len nx l then Some (l4_invalid nx')
                  else l4_walk buf nx' (off + ext_len nx l) (hdrs + 1) (walked + ext_len nx l))
             | _ \<Rightarrow> None
      else l4_terminal buf nx off)"
  by pat_completeness auto
termination by (relation "measure (\<lambda>(_, _, _, hdrs, _). 9 - hdrs)") auto

declare l4_walk.simps [simp del]

definition parseIpv6L4 :: "u8 \<Rightarrow> u8 list \<Rightarrow> L4Out option" where
  "parseIpv6L4 initialNext payload = l4_walk payload initialNext 0 0 0"

section \<open>Every read is inside the buffer\<close>

lemma byte_at_Some [simp]: "i < length buf \<Longrightarrow> byte_at buf i = Some (buf ! i)"
  by (simp add: byte_at_def)

lemma be16_at_Some [simp]: "i + 1 < length buf \<Longrightarrow> be16_at buf i = Some (be16 (buf ! i) (buf ! (i + 1)))"
  by (simp add: be16_at_def)

lemma be32_at_Some [simp]:
  "i + 3 < length buf \<Longrightarrow> be32_at buf i = Some (be32 (buf ! i) (buf ! (i + 1)) (buf ! (i + 2)) (buf ! (i + 3)))"
  by (simp add: be32_at_def)

text \<open>What a result promises to its users, who read the transport header at the reported place.\<close>

definition l4_ok :: "u8 list \<Rightarrow> L4Out \<Rightarrow> bool" where
  "l4_ok buf out \<longleftrightarrow>
     (let r = lo_result out in
      (l4_portsAvailable r = 1 \<longleftrightarrow> l4Status r = KNOWN_L4 \<and> l4_proto r \<in> {6, 17}) \<and>
      (l4_portsAvailable r \<noteq> 1 \<longrightarrow> l4_portsAvailable r = 0 \<and> l4_srcPort r = 0 \<and> l4_dstPort r = 0) \<and>
      (l4Status r = KNOWN_L4 \<longrightarrow> l4_proto r \<in> {6, 17, 58} \<and> lo_l4p out \<noteq> None) \<and>
      (\<forall>off. lo_l4p out = Some off \<longrightarrow>
         off \<le> 256 \<and> off \<le> length buf \<and> lo_payloadLen out = l4_len16 (length buf - off) \<and>
         (l4Status r = KNOWN_L4 \<longrightarrow> off + 8 \<le> length buf \<and>
            (l4_proto r = 6 \<longrightarrow> off + 20 \<le> length buf \<and> 5 \<le> tcp_doff (buf ! (off + 12)) \<and>
               off + 4 * tcp_doff (buf ! (off + 12)) \<le> length buf))))"

lemma l4_terminal_ok:
  assumes "off \<le> length buf" and "off \<le> 256"
  shows "\<exists>out. l4_terminal buf nx off = Some out \<and> l4_ok buf out"
  using assms
  by (auto simp: l4_terminal_def Let_def l4_ok_def l4_found_def l4_invalid_def not_less)

lemma l4_walk_ok:
  assumes "off \<le> length buf" and "off = walked"
  shows "\<exists>out. l4_walk buf nx off hdrs walked = Some out \<and> l4_ok buf out"
  using assms
proof (induction buf nx off hdrs walked rule: l4_walk.induct)
  case (1 buf nx off hdrs walked)
  have inv: "l4_ok buf (l4_invalid p)" for p by (simp add: l4_ok_def l4_invalid_def)
  show ?case
  proof (cases "hdrs \<le> 8 \<and> walked \<le> 256 \<and> is_ext nx \<and> 2 \<le> length buf - off \<and>
      ext_len nx (buf ! (off + 1)) \<le> length buf - off")
    case True
    then have b: "byte_at buf off = Some (buf ! off)" "byte_at buf (off + 1) = Some (buf ! (off + 1))" by auto
    show ?thesis
      using "1.IH" [OF _ _ _ _ b] True b "1.prems"
      by (subst l4_walk.simps) (auto simp: not_less)
  next
    case False
    then show ?thesis
      using l4_terminal_ok [of off buf nx] inv "1.prems"
      by (subst l4_walk.simps) (auto simp: not_less not_le)
  qed
qed

section \<open>Chains of extension headers\<close>

text \<open>\<open>ext_chain nx buf t n w\<close>: the buffer starts with \<open>n\<close> well-formed extension headers of \<open>w\<close> bytes in
  all, the first of type \<open>nx\<close>, and the last one announces the protocol \<open>t\<close>, which is not an extension
  header.\<close>

inductive ext_chain :: "u8 \<Rightarrow> u8 list \<Rightarrow> u8 \<Rightarrow> nat \<Rightarrow> nat \<Rightarrow> bool" where
  chain_end: "\<not> is_ext t \<Longrightarrow> ext_chain t buf t 0 0"
| chain_hdr: "is_ext nx \<Longrightarrow> length (nx' # l # body) = ext_len nx l \<Longrightarrow> ext_chain nx' rest t n w \<Longrightarrow>
    ext_chain nx ((nx' # l # body) @ rest) t (Suc n) (ext_len nx l + w)"

lemma l4_walk_chain:
  assumes "ext_chain nx suf t n w" and "buf = pre @ suf"
  shows "\<exists>p. l4_walk buf nx (length pre) h k =
    (if h + n \<le> 8 \<and> k + w \<le> 256 then l4_terminal buf t (length pre + w) else Some (l4_invalid p))"
  using assms
proof (induction arbitrary: pre h k rule: ext_chain.induct)
  case (chain_end t suf)
  then show ?case by (subst l4_walk.simps) auto
next
  case (chain_hdr nx nx' l body rest t n w)
  let ?len = "ext_len nx l"
  show ?case
  proof (cases "h \<le> 8 \<and> k \<le> 256")
    case True
    have "byte_at buf (length pre) = Some nx'" "byte_at buf (length pre + 1) = Some l"
      by (simp_all add: chain_hdr.prems byte_at_def nth_append)
    moreover have "2 \<le> length buf - length pre" "?len \<le> length buf - length pre"
      using chain_hdr.hyps(2) by (simp_all add: chain_hdr.prems)
    ultimately have "l4_walk buf nx (length pre) h k = l4_walk buf nx' (length (pre @ nx' # l # body)) (h + 1) (k + ?len)"
      using True chain_hdr.hyps(1,2) by (subst l4_walk.simps) (simp add: not_less add.commute)
    moreover from chain_hdr.IH [of "pre @ nx' # l # body" "h + 1" "k + ?len"] obtain p where
      "l4_walk buf nx' (length (pre @ nx' # l # body)) (h + 1) (k + ?len) =
        (if h + 1 + n \<le> 8 \<and> k + ?len + w \<le> 256 then l4_terminal buf t (length (pre @ nx' # l # body) + w)
         else Some (l4_invalid p))"
      by (auto simp: chain_hdr.prems)
    moreover have "length (pre @ nx' # l # body) = length pre + ?len"
      using chain_hdr.hyps(2) by simp
    ultimately show ?thesis by (intro exI [of _ p]) (simp add: add.assoc)
  next
    case False
    then show ?thesis by (subst l4_walk.simps) auto
  qed
qed

text \<open>C27. The IPv6 header walk terminates, never reads outside the payload, and what it reports is safe
  to use: ports are available exactly for known TCP and UDP and are zero otherwise, and the reported
  position leaves room for the transport header (20 bytes and the announced data offset for TCP,
  8 bytes for UDP and ICMPv6), at most 256 bytes into the payload.\<close>

theorem ipv6_walk_safe: "\<exists>out. parseIpv6L4 initialNext payload = Some out \<and> l4_ok payload out"
  unfolding parseIpv6L4_def by (rule l4_walk_ok) simp_all

text \<open>Extension headers are transparent within the budget: a payload that starts with well-formed
  hop-by-hop, routing, destination or authentication headers is classified by the protocol and the
  bytes behind them when there are at most 8 headers and 256 bytes of them, and as invalid
  otherwise.\<close>

theorem ipv6_walk_skips_extension_headers:
  assumes "ext_chain initialNext payload t n w"
  shows "if n \<le> 8 \<and> w \<le> 256 then parseIpv6L4 initialNext payload = l4_terminal payload t w
    else \<exists>p. parseIpv6L4 initialNext payload = Some (l4_invalid p)"
  using l4_walk_chain [OF assms, of payload "[]" 0 0] by (auto simp: parseIpv6L4_def)

definition ex_udp6 :: "u8 list" where
  "ex_udp6 = [17, 0, 0, 0, 0, 0, 0, 0, 0x12, 0x34, 0, 53, 0, 8, 0, 0]"

theorem ipv6_walk_skips_extension_headers_witness:
  "parseIpv6L4 0 ex_udp6 = Some (l4_found KNOWN_L4 17 0x1234 53 1 (Some 8) 8)"
proof -
  have "ext_chain 0 ((17 # 0 # [0, 0, 0, 0, 0, 0]) @ [0x12, 0x34, 0, 53, 0, 8, 0, 0]) 17 (Suc 0) (ext_len 0 0 + 0)"
    by (rule chain_hdr) (auto simp: is_ext_def ext_len_def intro: chain_end)
  then have "ext_chain 0 ex_udp6 17 1 8" by (simp add: ex_udp6_def ext_len_def)
  from ipv6_walk_skips_extension_headers [OF this]
  have "parseIpv6L4 0 ex_udp6 = l4_terminal ex_udp6 17 8" by simp
  also have "\<dots> = Some (l4_found KNOWN_L4 17 0x1234 53 1 (Some 8) 8)"
    by code_simp
  finally show ?thesis .
qed

end
