(* ===== verification/TelemetryRing.thy ===== *)
theory TelemetryRing
  imports SaverFile
begin

text \<open>
  The telemetry export path: the fixed-offset little-endian records (\<^verbatim>\<open>FlowTelemetryAbi.hpp\<close>,
  \<^verbatim>\<open>FlowTelemetryRecords.cpp\<close>), the shared-memory ring (\<^verbatim>\<open>FlowTelemetryRing.cpp\<close>) and the session that owns
  it (\<^verbatim>\<open>FlowTelemetry.cpp\<close>). The mapped memory is a list of bytes and a slot is the run of
  \<open>slotBytes\<close> bytes at its index; a write is atomic here, and the slot state it tests stands for a
  concurrent producer that is still writing.
\<close>

section \<open>Fixed-offset little-endian fields\<close>

definition put_bytes :: "nat \<Rightarrow> u8 list \<Rightarrow> u8 list \<Rightarrow> u8 list" where
  "put_bytes off bs buf = take off buf @ bs @ drop (off + length bs) buf"

definition get_bytes :: "nat \<Rightarrow> nat \<Rightarrow> u8 list \<Rightarrow> u8 list" where
  "get_bytes off n buf = take n (drop off buf)"

definition writeU16Le :: "nat \<Rightarrow> u16 \<Rightarrow> u8 list \<Rightarrow> u8 list" where
  "writeU16Le off v out = put_bytes off (le_bytes 2 v) out"

definition writeU32Le :: "nat \<Rightarrow> u32 \<Rightarrow> u8 list \<Rightarrow> u8 list" where
  "writeU32Le off v out = put_bytes off (le_bytes 4 v) out"

definition writeU64Le :: "nat \<Rightarrow> u64 \<Rightarrow> u8 list \<Rightarrow> u8 list" where
  "writeU64Le off v out = put_bytes off (le_bytes 8 v) out"

definition readU16Le :: "u8 list \<Rightarrow> nat \<Rightarrow> u16" where
  "readU16Le buf off = le_word (get_bytes off 2 buf)"

definition readU32Le :: "u8 list \<Rightarrow> nat \<Rightarrow> u32" where
  "readU32Le buf off = le_word (get_bytes off 4 buf)"

definition readU64Le :: "u8 list \<Rightarrow> nat \<Rightarrow> u64" where
  "readU64Le buf off = le_word (get_bytes off 8 buf)"

section \<open>Flow records\<close>

text \<open>The enumerations of the record (kind, observation kind, directions, verdict, end reason) are kept
  as the bytes they are stored and cast as.\<close>

definition FlowRecordKind_Begin :: u8 where "FlowRecordKind_Begin = 1"
definition FlowRecordKind_Update :: u8 where "FlowRecordKind_Update = 2"
definition FlowRecordKind_End :: u8 where "FlowRecordKind_End = 3"
definition Observation_Normal :: u8 where "Observation_Normal = 0"
definition Observation_L3 :: u8 where "Observation_L3 = 1"
definition PacketDir_Unknown :: u8 where "PacketDir_Unknown = 0"
definition PacketDir_In :: u8 where "PacketDir_In = 1"
definition PacketDir_Out :: u8 where "PacketDir_Out = 2"
definition FlowVerdict_Allow :: u8 where "FlowVerdict_Allow = 1"
definition FlowVerdict_Block :: u8 where "FlowVerdict_Block = 2"
definition End_None :: u8 where "End_None = 0"
definition End_IdleTimeout :: u8 where "End_IdleTimeout = 1"
definition End_TcpEndDetected :: u8 where "End_TcpEndDetected = 2"
definition End_ResourceEvicted :: u8 where "End_ResourceEvicted = 3"
definition End_TelemetryDisabled :: u8 where "End_TelemetryDisabled = 4"

record FlowV1Fields =
  ff_kind :: u8
  ff_observationKind :: u8
  ff_ctState :: u8
  ff_ctDir :: u8
  ff_packetDir :: u8
  ff_flowOriginDir :: u8
  ff_verdict :: u8
  ff_reasonId :: u8
  ff_ifaceKindBit :: u8
  ff_l4Status :: u8
  ff_endReason :: u8
  ff_proto :: u8
  ff_isIpv6 :: bool
  ff_pickedUpMidStream :: bool
  ff_uidKnown :: bool
  ff_ifindexKnown :: bool
  ff_portsAvailable :: bool
  ff_srcPort :: u16
  ff_dstPort :: u16
  ff_icmpType :: u8
  ff_icmpCode :: u8
  ff_icmpId :: u16
  ff_timestampNs :: u64
  ff_firstSeenNs :: u64
  ff_lastSeenNs :: u64
  ff_flowInstanceId :: u64
  ff_recordSeq :: u64
  ff_uid :: u32
  ff_userId :: u32
  ff_ifindex :: u32
  ff_srcAddr :: "u8 list"
  ff_dstAddr :: "u8 list"
  ff_totalPackets :: u64
  ff_totalBytes :: u64
  ff_inPackets :: u64
  ff_inBytes :: u64
  ff_outPackets :: u64
  ff_outBytes :: u64
  ff_ruleId :: "u32 option"

definition flow_flags :: "FlowV1Fields \<Rightarrow> u8" where
  "flow_flags f =
     (if ff_isIpv6 f then 2 else 0) OR (if ff_ruleId f \<noteq> None then 1 else 0) OR
     (if ff_pickedUpMidStream f then 4 else 0) OR (if ff_uidKnown f then 8 else 0) OR
     (if ff_ifindexKnown f then 16 else 0) OR (if ff_portsAvailable f then 32 else 0)"

text \<open>The writes of \<^verbatim>\<open>encodeFlowV1\<close> in the order of the code: offset and bytes.\<close>

definition flow_writes :: "FlowV1Fields \<Rightarrow> (nat \<times> u8 list) list" where
  "flow_writes f =
     [(0, [1]), (1, [ff_kind f]), (2, [ff_observationKind f]), (3, [ff_ctState f]), (4, [ff_ctDir f]),
      (5, [ff_packetDir f]), (6, [ff_flowOriginDir f]), (7, [ff_verdict f]), (8, [ff_reasonId f]),
      (9, [ff_ifaceKindBit f]), (10, [ff_l4Status f]), (12, [ff_endReason f]), (13, [ff_proto f]),
      (14, le_bytes 2 (if ff_portsAvailable f then ff_srcPort f else 0)),
      (16, le_bytes 2 (if ff_portsAvailable f then ff_dstPort f else 0)),
      (18, [ff_icmpType f]), (19, [ff_icmpCode f]), (20, le_bytes 2 (ff_icmpId f)),
      (11, [flow_flags f]),
      (24, le_bytes 8 (ff_timestampNs f)), (32, le_bytes 8 (ff_firstSeenNs f)),
      (40, le_bytes 8 (ff_lastSeenNs f)), (48, le_bytes 8 (ff_flowInstanceId f)),
      (56, le_bytes 8 (ff_recordSeq f)),
      (64, le_bytes 4 (ff_uid f)), (68, le_bytes 4 (ff_userId f)), (72, le_bytes 4 (ff_ifindex f)),
      (76, ff_srcAddr f), (92, ff_dstAddr f),
      (108, le_bytes 8 (ff_totalPackets f)), (116, le_bytes 8 (ff_totalBytes f)),
      (124, le_bytes 8 (ff_inPackets f)), (132, le_bytes 8 (ff_inBytes f)),
      (140, le_bytes 8 (ff_outPackets f)), (148, le_bytes 8 (ff_outBytes f)),
      (156, le_bytes 4 (case ff_ruleId f of None \<Rightarrow> 0 | Some r \<Rightarrow> r))]"

definition put_all :: "(nat \<times> u8 list) list \<Rightarrow> u8 list \<Rightarrow> u8 list" where
  "put_all ws buf = fold (\<lambda>(off, bs). put_bytes off bs) ws buf"

definition kFlowV1Bytes :: nat where "kFlowV1Bytes = 160"

definition encodeFlowV1 :: "FlowV1Fields \<Rightarrow> u8 list option" where
  "encodeFlowV1 f =
     (let want = (if ff_isIpv6 f then 16 else 4) in
      if length (ff_srcAddr f) \<noteq> want \<or> length (ff_dstAddr f) \<noteq> want then None
      else Some (put_all (flow_writes f) (replicate kFlowV1Bytes 0)))"

text \<open>\<^verbatim>\<open>encodeDnsDecisionV1\<close>; the payload buffer of a slot has 1000 bytes, so that the bound on the
  total size never fails.\<close>

definition encodeDnsDecisionV1 :: "u64 \<Rightarrow> u32 \<Rightarrow> u32 \<Rightarrow> u8 \<Rightarrow> u32 option \<Rightarrow> u8 list \<Rightarrow> u8 list option" where
  "encodeDnsDecisionV1 timestampNs uid userId policySource ruleId queryName =
     (let want = length queryName;
          capped = (if 255 < want then 255 else want);
          flags = (if ruleId \<noteq> None then 1 else 0) OR (if capped < want then 2 else 0);
          totalBytes = 32 + capped
      in if 1000 < totalBytes then None
         else Some (put_all
           ([(0, [1]), (1, [flags]), (2, [policySource]), (4, le_bytes 2 (of_nat capped :: u16)),
             (8, le_bytes 8 timestampNs), (16, le_bytes 4 uid), (20, le_bytes 4 userId),
             (24, le_bytes 4 (case ruleId of None \<Rightarrow> 0 | Some r \<Rightarrow> r))] @
            (if capped \<noteq> 0 then [(32, take capped queryName)] else []))
           (replicate totalBytes 0)))"

section \<open>The shared-memory ring\<close>

datatype DropReason = Drop_None | ConsumerAbsent | SlotBusy | RecordTooLarge | Disabled | ResourcePressure

text \<open>Slot states and record types as stored: Empty 0, Writing 1, Committed 2; Flow 1, DnsDecision 2.
  The sizes are 32-bit values, as natural numbers below \<open>2 ^ 32\<close>.\<close>

definition kSlotHeaderBytes :: nat where "kSlotHeaderBytes = 24"

record Ring =
  rg_slotBytes :: nat
  rg_slotCount :: nat
  rg_storage :: "u8 list"
  rg_writeTicket :: u64
  rg_inited :: bool

definition ring_empty :: Ring where
  "ring_empty = \<lparr>rg_slotBytes = 1024, rg_slotCount = 16384, rg_storage = [], rg_writeTicket = 0, rg_inited = False\<rparr>"

fun mark_empty :: "nat \<Rightarrow> nat \<Rightarrow> u8 list \<Rightarrow> u8 list" where
  "mark_empty 0 sb st = st"
| "mark_empty (Suc i) sb st = writeU32Le (i * sb) 0 (mark_empty i sb st)"

definition ring_init :: "u8 list \<Rightarrow> nat \<Rightarrow> nat \<Rightarrow> Ring \<Rightarrow> bool \<times> Ring" where
  "ring_init storage slotBytes slotCount r =
     (if slotBytes = 0 \<or> slotCount = 0 then (False, r)
      else if slotBytes < kSlotHeaderBytes then (False, r)
      else if length storage < slotBytes * slotCount then (False, r)
      else (True, \<lparr>rg_slotBytes = slotBytes, rg_slotCount = slotCount,
             rg_storage = mark_empty slotCount slotBytes (take (slotBytes * slotCount) storage),
             rg_writeTicket = 0, rg_inited = True\<rparr>))"

definition maxPayloadBytes :: "Ring \<Rightarrow> nat" where
  "maxPayloadBytes r = rg_slotBytes r - kSlotHeaderBytes"

definition slotForTicket :: "Ring \<Rightarrow> u64 \<Rightarrow> nat" where
  "slotForTicket r ticket = (unat ticket mod rg_slotCount r) * rg_slotBytes r"

definition slotState :: "Ring \<Rightarrow> nat \<Rightarrow> u32" where
  "slotState r base = readU32Le (rg_storage r) base"

record WriteResult =
  wr_wrote :: bool
  wr_dropReason :: DropReason
  wr_ticket :: u64

text \<open>The bytes a committed record leaves in its slot.\<close>

definition fill_slot :: "nat \<Rightarrow> u16 \<Rightarrow> u64 \<Rightarrow> u8 list \<Rightarrow> u8 list \<Rightarrow> u8 list" where
  "fill_slot base type ticket payload st =
     (let s1 = writeU32Le base 1 st;
          s2 = writeU16Le (base + 4) type s1;
          s3 = writeU64Le (base + 8) ticket s2;
          s4 = writeU32Le (base + 16) (of_nat (length payload)) s3;
          s5 = (if payload \<noteq> [] then put_bytes (base + kSlotHeaderBytes) payload s4 else s4)
      in writeU32Le base 2 s5)"

definition tryWrite :: "u16 \<Rightarrow> u8 list \<Rightarrow> Ring \<Rightarrow> WriteResult \<times> Ring" where
  "tryWrite type payload r =
     (if \<not> rg_inited r then (\<lparr>wr_wrote = False, wr_dropReason = Disabled, wr_ticket = 0\<rparr>, r)
      else
        let ticket = rg_writeTicket r;
            r1 = r\<lparr>rg_writeTicket := ticket + 1\<rparr>;
            base = slotForTicket r1 ticket
        in if maxPayloadBytes r1 < length payload then
             (\<lparr>wr_wrote = False, wr_dropReason = RecordTooLarge, wr_ticket = ticket\<rparr>, r1)
           else if slotState r1 base \<noteq> 0 \<and> slotState r1 base \<noteq> 2 then
             (\<lparr>wr_wrote = False, wr_dropReason = SlotBusy, wr_ticket = ticket\<rparr>, r1)
           else
             (\<lparr>wr_wrote = True, wr_dropReason = Drop_None, wr_ticket = ticket\<rparr>,
              r1\<lparr>rg_storage := fill_slot base type ticket payload (rg_storage r1)\<rparr>))"

section \<open>Sessions and export\<close>

record TeleConfig =
  tc_slotBytes :: nat
  tc_ringDataBytes :: nat
  pollIntervalMs :: u32
  bytesThreshold :: u64
  packetsThreshold :: u64
  maxExportIntervalMs :: u32
  blockTtlMs :: u32
  pickupTtlMs :: u32
  invalidTtlMs :: u32
  maxFlowEntries :: u32
  maxEntriesPerUid :: u32

text \<open>The defaults of \<^verbatim>\<open>FlowTelemetry::Config\<close>.\<close>

definition teleConfig_default :: TeleConfig where
  "teleConfig_default = \<lparr>tc_slotBytes = 1024, tc_ringDataBytes = 16 * 1024 * 1024, pollIntervalMs = 1000,
     bytesThreshold = 128 * 1024, packetsThreshold = 128, maxExportIntervalMs = 5000, blockTtlMs = 10000,
     pickupTtlMs = 30000, invalidTtlMs = 3000, maxFlowEntries = 1000000, maxEntriesPerUid = 10000\<rparr>"

datatype Level = Level_Off | Level_Flow

record Session =
  ses_sessionId :: u64
  ses_level :: Level
  ses_cfg :: TeleConfig
  ses_ring :: Ring

text \<open>\<^verbatim>\<open>_session\<close> and \<^verbatim>\<open>_sessionOwner\<close> always agree; \<open>ft_nextSessionId\<close> is the counter of
  \<^verbatim>\<open>allocateSessionId\<close>, owners are numbers.\<close>

record FlowTelemetry =
  ft_session :: "Session option"
  ft_ownerKey :: "nat option"
  ft_nextSessionId :: u64
  recordsWritten :: u64
  recordsDropped :: u64
  lastDropReason :: DropReason
  ft_lastError :: string

text \<open>The hot path view: whether a flow session is active, and its configuration and id.\<close>

record HotPath =
  hp_cfg :: "TeleConfig option"
  hp_sessionId :: u64

definition hotPathFlow :: "FlowTelemetry \<Rightarrow> HotPath" where
  "hotPathFlow ft =
     (case ft_session ft of
        Some s \<Rightarrow> (if ses_level s = Level_Flow then \<lparr>hp_cfg = Some (ses_cfg s), hp_sessionId = ses_sessionId s\<rparr>
                   else \<lparr>hp_cfg = None, hp_sessionId = 0\<rparr>)
      | None \<Rightarrow> \<lparr>hp_cfg = None, hp_sessionId = 0\<rparr>)"

definition accountDrop :: "DropReason \<Rightarrow> FlowTelemetry \<Rightarrow> FlowTelemetry" where
  "accountDrop reason ft = ft\<lparr>recordsDropped := recordsDropped ft + 1, lastDropReason := reason\<rparr>"

definition exportRecordHot :: "HotPath \<Rightarrow> u16 \<Rightarrow> u8 list \<Rightarrow> FlowTelemetry \<Rightarrow> bool \<times> FlowTelemetry" where
  "exportRecordHot hot type payload ft =
     (case (hp_cfg hot, ft_session ft) of
        (Some _, Some s) \<Rightarrow>
          (if ses_level s \<noteq> Level_Flow then (False, accountDrop ConsumerAbsent ft)
           else
             let (res, ring) = tryWrite type payload (ses_ring s);
                 ft1 = ft\<lparr>ft_session := Some (s\<lparr>ses_ring := ring\<rparr>)\<rparr>
             in if \<not> wr_wrote res then (False, accountDrop (wr_dropReason res) ft1)
                else (True, ft1\<lparr>recordsWritten := recordsWritten ft1 + 1\<rparr>))
      | _ \<Rightarrow> (False, accountDrop ConsumerAbsent ft))"

definition accountResourcePressureDrop :: "FlowTelemetry \<Rightarrow> FlowTelemetry" where
  "accountResourcePressureDrop ft = accountDrop ResourcePressure ft"

definition computeSlotCountOrZero :: "nat \<Rightarrow> nat \<Rightarrow> nat" where
  "computeSlotCountOrZero ringDataBytes slotBytes =
     (if slotBytes = 0 \<or> ringDataBytes = 0 \<or> ringDataBytes mod slotBytes \<noteq> 0 then 0
      else let n = ringDataBytes div slotBytes in if n = 0 \<or> 0xFFFFFFFF < n then 0 else n)"

definition tele_close :: "nat option \<Rightarrow> FlowTelemetry \<Rightarrow> FlowTelemetry" where
  "tele_close ownerKey ft =
     (if ft_ownerKey ft \<noteq> ownerKey then ft else ft\<lparr>ft_session := None, ft_ownerKey := None\<rparr>)"

definition tele_resetAll :: "FlowTelemetry \<Rightarrow> FlowTelemetry" where
  "tele_resetAll ft = ft\<lparr>ft_session := None, ft_ownerKey := None, recordsWritten := 0, recordsDropped := 0,
     lastDropReason := Drop_None, ft_lastError := []\<rparr>"

definition isOwner :: "nat option \<Rightarrow> FlowTelemetry \<Rightarrow> bool" where
  "isOwner ownerKey ft \<longleftrightarrow> ft_ownerKey ft = ownerKey \<and> ft_session ft \<noteq> None"

definition hasActiveFlowConsumer :: "FlowTelemetry \<Rightarrow> bool" where
  "hasActiveFlowConsumer ft \<longleftrightarrow> (case ft_session ft of None \<Rightarrow> False | Some s \<Rightarrow> ses_level s = Level_Flow)"

definition exportRecord :: "u16 \<Rightarrow> u8 list \<Rightarrow> FlowTelemetry \<Rightarrow> bool \<times> FlowTelemetry" where
  "exportRecord type payload ft = exportRecordHot (hotPathFlow ft) type payload ft"

definition exportSyntheticTestRecord :: "FlowTelemetry \<Rightarrow> bool \<times> FlowTelemetry" where
  "exportSyntheticTestRecord ft = exportRecord 1 (map (\<lambda>c. of_nat (of_char c)) ''SNORTTES'') ft"

record HealthSnapshot =
  hs_enabled :: bool
  hs_consumerPresent :: bool
  hs_sessionId :: u64
  hs_slotBytes :: nat
  hs_slotCount :: nat
  hs_recordsWritten :: u64
  hs_recordsDropped :: u64
  hs_lastDropReason :: DropReason
  hs_lastError :: "string option"

definition healthSnapshot :: "FlowTelemetry \<Rightarrow> HealthSnapshot" where
  "healthSnapshot ft =
     (let out = \<lparr>hs_enabled = False, hs_consumerPresent = False, hs_sessionId = 0, hs_slotBytes = 0, hs_slotCount = 0,
            hs_recordsWritten = recordsWritten ft, hs_recordsDropped = recordsDropped ft,
            hs_lastDropReason = lastDropReason ft,
            hs_lastError = (if ft_lastError ft \<noteq> [] then Some (ft_lastError ft) else None)\<rparr>
      in case ft_session ft of
           None \<Rightarrow> out
         | Some s \<Rightarrow> out\<lparr>hs_enabled := (ses_level s = Level_Flow), hs_consumerPresent := True,
             hs_sessionId := ses_sessionId s, hs_slotBytes := tc_slotBytes (ses_cfg s),
             hs_slotCount := rg_slotCount (ses_ring s)\<rparr>)"

record OpenResult =
  or_actualLevel :: Level
  or_sessionId :: u64
  or_abiVersion :: u32
  or_slotBytes :: nat
  or_slotCount :: nat
  or_ringDataBytes :: nat
  or_maxPayloadBytes :: nat
  or_writeTicketSnapshot :: u64
  or_sharedMemoryFd :: int

definition openResult_default :: OpenResult where
  "openResult_default = \<lparr>or_actualLevel = Level_Off, or_sessionId = 0, or_abiVersion = 1, or_slotBytes = 0,
     or_slotCount = 0, or_ringDataBytes = 0, or_maxPayloadBytes = 0, or_writeTicketSnapshot = 0, or_sharedMemoryFd = -1\<rparr>"

text \<open>\<^verbatim>\<open>open\<close>: \<open>shm\<close> is what the operating system answers to the creation, truncation and mapping of
  the shared memory, an error text or the descriptor and the mapped bytes.\<close>

definition tele_open ::
  "nat option \<Rightarrow> bool \<Rightarrow> Level \<Rightarrow> TeleConfig option \<Rightarrow> (string + int \<times> u8 list) \<Rightarrow> FlowTelemetry \<Rightarrow>
     (string + OpenResult) \<times> FlowTelemetry" where
  "tele_open ownerKey canPassFd level overrideCfg shm ft =
     (if level = Level_Off then (Inr openResult_default, tele_close ownerKey ft)
      else if \<not> canPassFd then
        (Inl ''TELEMETRY.OPEN(level=flow) requires vNext Unix domain socket fd passing'', ft)
      else
        let cfg = (case overrideCfg of None \<Rightarrow> teleConfig_default | Some c \<Rightarrow> c);
            slotCount = computeSlotCountOrZero (tc_ringDataBytes cfg) (tc_slotBytes cfg) in
        if slotCount = 0 then
          (Inl ''invalid slotBytes/ringDataBytes: ringDataBytes must be a multiple of slotBytes'', ft)
        else case shm of
          Inl err \<Rightarrow> (Inl err, ft)
        | Inr (fd, storage) \<Rightarrow>
            let ft1 = ft\<lparr>ft_nextSessionId := ft_nextSessionId ft + 1\<rparr>;
                (ok, ring) = ring_init storage (tc_slotBytes cfg) slotCount ring_empty
            in if \<not> ok then (Inl ''telemetry ring init failed'', ft1)
               else (Inr \<lparr>or_actualLevel = level, or_sessionId = ft_nextSessionId ft, or_abiVersion = 1,
                       or_slotBytes = tc_slotBytes cfg, or_slotCount = slotCount,
                       or_ringDataBytes = tc_ringDataBytes cfg, or_maxPayloadBytes = maxPayloadBytes ring,
                       or_writeTicketSnapshot = rg_writeTicket ring, or_sharedMemoryFd = fd\<rparr>,
                     ft1\<lparr>ft_session := Some \<lparr>ses_sessionId = ft_nextSessionId ft, ses_level = level,
                       ses_cfg = cfg, ses_ring = ring\<rparr>, ft_ownerKey := ownerKey\<rparr>))"

section \<open>Reading fields back\<close>

lemma length_put_bytes [simp]: "off + length bs \<le> length buf \<Longrightarrow> length (put_bytes off bs buf) = length buf"
  by (simp add: put_bytes_def)

lemma get_put_same: "off + length bs \<le> length buf \<Longrightarrow> n = length bs \<Longrightarrow> get_bytes off n (put_bytes off bs buf) = bs"
  by (simp add: get_bytes_def put_bytes_def)

lemma get_put_other:
  assumes "off + length bs \<le> length buf" and "q + n \<le> off \<or> off + length bs \<le> q"
  shows "get_bytes q n (put_bytes off bs buf) = get_bytes q n buf"
proof (rule nth_equalityI)
  show "length (get_bytes q n (put_bytes off bs buf)) = length (get_bytes q n buf)"
    using assms(1) by (simp add: get_bytes_def)
  fix i
  assume "i < length (get_bytes q n (put_bytes off bs buf))"
  then have i: "i < n" "q + i < length buf" using assms(1) by (auto simp: get_bytes_def)
  have "put_bytes off bs buf ! (q + i) = buf ! (q + i)"
    using assms i by (auto simp: put_bytes_def nth_append)
  moreover have "q + i < length (put_bytes off bs buf)" using assms(1) i by simp
  ultimately show "get_bytes q n (put_bytes off bs buf) ! i = get_bytes q n buf ! i"
    using i assms(1) by (simp add: get_bytes_def)
qed

definition apart :: "nat \<times> u8 list \<Rightarrow> nat \<times> u8 list \<Rightarrow> bool" where
  "apart a b \<longleftrightarrow> fst a + length (snd a) \<le> fst b \<or> fst b + length (snd b) \<le> fst a"

lemma get_put_all_other:
  assumes "\<forall>w \<in> set ws. fst w + length (snd w) \<le> length buf" and "\<forall>w \<in> set ws. apart (q, bs) w" and "n = length bs"
  shows "length (put_all ws buf) = length buf \<and> get_bytes q n (put_all ws buf) = get_bytes q n buf"
  using assms
proof (induction ws arbitrary: buf)
  case Nil
  then show ?case by (simp add: put_all_def)
next
  case (Cons w ws)
  obtain off b where w: "w = (off, b)" by (cases w)
  have "off + length b \<le> length buf" "q + n \<le> off \<or> off + length b \<le> q"
    using Cons.prems by (auto simp: w apart_def)
  then show ?case
    using Cons.IH [of "put_bytes off b buf"] Cons.prems by (auto simp: put_all_def w get_put_other)
qed

lemma get_put_all:
  assumes "sorted_wrt apart ws" and "\<forall>w \<in> set ws. fst w + length (snd w) \<le> length buf"
    and "(off, bs) \<in> set ws" and "n = length bs"
  shows "get_bytes off n (put_all ws buf) = bs"
  using assms(1-3)
proof (induction ws arbitrary: buf)
  case Nil
  then show ?case by simp
next
  case (Cons w ws)
  obtain o' b' where w: "w = (o', b')" by (cases w)
  have step: "put_all (w # ws) buf = put_all ws (put_bytes o' b' buf)" by (simp add: put_all_def w)
  have len: "length (put_bytes o' b' buf) = length buf" using Cons.prems(2) by (simp add: w)
  show ?case
  proof (cases "(off, bs) \<in> set ws")
    case True
    then show ?thesis unfolding step using Cons.IH [of "put_bytes o' b' buf"] Cons.prems len by auto
  next
    case False
    then have eq: "off = o'" "bs = b'" using Cons.prems(3) by (auto simp: w)
    have "get_bytes off n (put_all ws (put_bytes o' b' buf)) = get_bytes off n (put_bytes o' b' buf)"
      using get_put_all_other [of ws "put_bytes o' b' buf" off bs n] Cons.prems len assms(4) by (auto simp: w eq)
    then show ?thesis unfolding step using Cons.prems(2) assms(4) by (simp add: eq w get_put_same)
  qed
qed

text \<open>How a consumer reads a flow record, with the offsets of the published layout.\<close>

definition decodeFlowV1 :: "u8 list \<Rightarrow> FlowV1Fields" where
  "decodeFlowV1 p =
     (let u8 = (\<lambda>off. hd (get_bytes off 1 p)); u16 = readU16Le p; u32 = readU32Le p; u64 = readU64Le p;
          fl = u8 11; addr = (\<lambda>off. get_bytes off (if bit fl 1 then 16 else 4) p) in
      \<lparr>ff_kind = u8 1, ff_observationKind = u8 2, ff_ctState = u8 3, ff_ctDir = u8 4, ff_packetDir = u8 5,
       ff_flowOriginDir = u8 6, ff_verdict = u8 7, ff_reasonId = u8 8, ff_ifaceKindBit = u8 9,
       ff_l4Status = u8 10, ff_endReason = u8 12, ff_proto = u8 13, ff_isIpv6 = bit fl 1,
       ff_pickedUpMidStream = bit fl 2, ff_uidKnown = bit fl 3, ff_ifindexKnown = bit fl 4,
       ff_portsAvailable = bit fl 5, ff_srcPort = u16 14, ff_dstPort = u16 16, ff_icmpType = u8 18,
       ff_icmpCode = u8 19, ff_icmpId = u16 20, ff_timestampNs = u64 24, ff_firstSeenNs = u64 32,
       ff_lastSeenNs = u64 40, ff_flowInstanceId = u64 48, ff_recordSeq = u64 56, ff_uid = u32 64,
       ff_userId = u32 68, ff_ifindex = u32 72, ff_srcAddr = addr 76, ff_dstAddr = addr 92,
       ff_totalPackets = u64 108, ff_totalBytes = u64 116, ff_inPackets = u64 124, ff_inBytes = u64 132,
       ff_outPackets = u64 140, ff_outBytes = u64 148,
       ff_ruleId = (if bit fl 0 then Some (u32 156) else None)\<rparr>)"

lemma flow_flags_bits:
  "bit (flow_flags f) 0 \<longleftrightarrow> ff_ruleId f \<noteq> None" "bit (flow_flags f) 1 \<longleftrightarrow> ff_isIpv6 f"
  "bit (flow_flags f) 2 \<longleftrightarrow> ff_pickedUpMidStream f" "bit (flow_flags f) 3 \<longleftrightarrow> ff_uidKnown f"
  "bit (flow_flags f) 4 \<longleftrightarrow> ff_ifindexKnown f" "bit (flow_flags f) 5 \<longleftrightarrow> ff_portsAvailable f"
  by (simp_all add: flow_flags_def bit_or_iff)

lemma flow_writes_apart:
  assumes "length (ff_srcAddr f) \<le> 16" and "length (ff_dstAddr f) \<le> 16"
  shows "sorted_wrt apart (flow_writes f)" "\<forall>w \<in> set (flow_writes f). fst w + length (snd w) \<le> length (replicate kFlowV1Bytes (0::u8))"
  using assms by (simp_all add: flow_writes_def apart_def kFlowV1Bytes_def)

lemma flow_field:
  assumes "encodeFlowV1 f = Some p" and "(off, bs) \<in> set (flow_writes f)" and "n = length bs"
  shows "get_bytes off n p = bs"
proof -
  have "length (ff_srcAddr f) \<le> 16" "length (ff_dstAddr f) \<le> 16" "p = put_all (flow_writes f) (replicate kFlowV1Bytes 0)"
    using assms(1) by (auto simp: encodeFlowV1_def Let_def split: if_splits)
  then show ?thesis using get_put_all [OF flow_writes_apart assms(2,3)] by simp
qed

lemma flow_bytes:
  assumes "encodeFlowV1 f = Some p"
  shows "get_bytes 0 1 p = [1]" "get_bytes 11 1 p = [flow_flags f]"
    "get_bytes 1 1 p = [ff_kind f]" "get_bytes 2 1 p = [ff_observationKind f]" "get_bytes 3 1 p = [ff_ctState f]"
    "get_bytes 4 1 p = [ff_ctDir f]" "get_bytes 5 1 p = [ff_packetDir f]" "get_bytes 6 1 p = [ff_flowOriginDir f]"
    "get_bytes 7 1 p = [ff_verdict f]" "get_bytes 8 1 p = [ff_reasonId f]" "get_bytes 9 1 p = [ff_ifaceKindBit f]"
    "get_bytes 10 1 p = [ff_l4Status f]" "get_bytes 12 1 p = [ff_endReason f]" "get_bytes 13 1 p = [ff_proto f]"
    "get_bytes 18 1 p = [ff_icmpType f]" "get_bytes 19 1 p = [ff_icmpCode f]"
  by (rule flow_field [OF assms]; simp add: flow_writes_def)+

lemma flow_words:
  assumes "encodeFlowV1 f = Some p"
  shows "readU16Le p 14 = (if ff_portsAvailable f then ff_srcPort f else 0)"
    "readU16Le p 16 = (if ff_portsAvailable f then ff_dstPort f else 0)" "readU16Le p 20 = ff_icmpId f"
    "readU64Le p 24 = ff_timestampNs f" "readU64Le p 32 = ff_firstSeenNs f" "readU64Le p 40 = ff_lastSeenNs f"
    "readU64Le p 48 = ff_flowInstanceId f" "readU64Le p 56 = ff_recordSeq f" "readU64Le p 108 = ff_totalPackets f"
    "readU64Le p 116 = ff_totalBytes f" "readU64Le p 124 = ff_inPackets f" "readU64Le p 132 = ff_inBytes f"
    "readU64Le p 140 = ff_outPackets f" "readU64Le p 148 = ff_outBytes f"
    "readU32Le p 64 = ff_uid f" "readU32Le p 68 = ff_userId f" "readU32Le p 72 = ff_ifindex f"
    "readU32Le p 156 = (case ff_ruleId f of None \<Rightarrow> 0 | Some r \<Rightarrow> r)"
proof -
  have w: "le_word (le_bytes 2 (x :: u16)) = x" "le_word (le_bytes 4 (y :: u32)) = y" "le_word (le_bytes 8 (z :: u64)) = z" for x y z
    by (simp_all add: le_word_bytes)
  note g = flow_field [OF assms]
  show "readU16Le p 14 = (if ff_portsAvailable f then ff_srcPort f else 0)"
    "readU16Le p 16 = (if ff_portsAvailable f then ff_dstPort f else 0)" "readU16Le p 20 = ff_icmpId f"
    unfolding readU16Le_def by (subst g, simp add: flow_writes_def, simp, simp only: w)+
  show "readU64Le p 24 = ff_timestampNs f" "readU64Le p 32 = ff_firstSeenNs f" "readU64Le p 40 = ff_lastSeenNs f"
    "readU64Le p 48 = ff_flowInstanceId f" "readU64Le p 56 = ff_recordSeq f" "readU64Le p 108 = ff_totalPackets f"
    "readU64Le p 116 = ff_totalBytes f" "readU64Le p 124 = ff_inPackets f" "readU64Le p 132 = ff_inBytes f"
    "readU64Le p 140 = ff_outPackets f" "readU64Le p 148 = ff_outBytes f"
    unfolding readU64Le_def by (subst g, simp add: flow_writes_def, simp, simp only: w)+
  show "readU32Le p 64 = ff_uid f" "readU32Le p 68 = ff_userId f" "readU32Le p 72 = ff_ifindex f"
    "readU32Le p 156 = (case ff_ruleId f of None \<Rightarrow> 0 | Some r \<Rightarrow> r)"
    unfolding readU32Le_def by (subst g, simp add: flow_writes_def, simp, simp only: w)+
qed

text \<open>Round trip of the telemetry flow record: a consumer that reads the published offsets of the
  bytes that \<^verbatim>\<open>encodeFlowV1\<close> produced gets every field back (the ports as zero when the
  flow has none), in a record of 160 bytes with version byte 1.\<close>

theorem flow_record_roundtrip:
  assumes "encodeFlowV1 f = Some p"
  shows "length p = 160 \<and> get_bytes 0 1 p = [1] \<and> decodeFlowV1 p =
    f\<lparr>ff_srcPort := (if ff_portsAvailable f then ff_srcPort f else 0),
      ff_dstPort := (if ff_portsAvailable f then ff_dstPort f else 0)\<rparr>"
proof -
  have len: "length (ff_srcAddr f) = (if ff_isIpv6 f then 16 else 4)" "length (ff_dstAddr f) = (if ff_isIpv6 f then 16 else 4)"
    and p: "p = put_all (flow_writes f) (replicate kFlowV1Bytes 0)"
    using assms by (auto simp: encodeFlowV1_def Let_def split: if_splits)
  have l: "length p = 160"
    using get_put_all_other [of "flow_writes f" "replicate kFlowV1Bytes 0" 1000 "[]" 0] flow_writes_apart(2) [of f] len
    by (simp add: p kFlowV1Bytes_def apart_def flow_writes_def)
  have addr: "get_bytes 76 (if ff_isIpv6 f then 16 else 4) p = ff_srcAddr f" "get_bytes 92 (if ff_isIpv6 f then 16 else 4) p = ff_dstAddr f"
    by (rule flow_field [OF assms]; simp add: flow_writes_def len)+
  have rid: "(if ff_ruleId f \<noteq> None then Some (case ff_ruleId f of None \<Rightarrow> 0 | Some r \<Rightarrow> r) else None) = ff_ruleId f"
    by (cases "ff_ruleId f") simp_all
  have "decodeFlowV1 p = f\<lparr>ff_srcPort := (if ff_portsAvailable f then ff_srcPort f else 0),
      ff_dstPort := (if ff_portsAvailable f then ff_dstPort f else 0)\<rparr>"
    unfolding decodeFlowV1_def Let_def flow_bytes [OF assms] flow_words [OF assms] list.sel flow_flags_bits addr rid
    by (rule FlowV1Fields.equality) simp_all
  then show ?thesis using l flow_bytes(1) [OF assms] by simp
qed

section \<open>The ring keeps the last records\<close>

definition ring_wf :: "Ring \<Rightarrow> bool" where
  "ring_wf r \<longleftrightarrow> rg_inited r \<and> kSlotHeaderBytes \<le> rg_slotBytes r \<and> rg_slotBytes r < 2 ^ 32 \<and> 0 < rg_slotCount r \<and>
     length (rg_storage r) = rg_slotBytes r * rg_slotCount r"

text \<open>No producer is in the middle of a slot.\<close>

definition ring_idle :: "Ring \<Rightarrow> bool" where
  "ring_idle r \<longleftrightarrow> (\<forall>i < rg_slotCount r. slotState r (i * rg_slotBytes r) \<in> {0, 2})"

text \<open>The slot of number \<open>i\<close> holds a complete record.\<close>

definition slot_holds :: "Ring \<Rightarrow> nat \<Rightarrow> u64 \<Rightarrow> u16 \<Rightarrow> u8 list \<Rightarrow> bool" where
  "slot_holds r i ticket type payload \<longleftrightarrow>
     (let base = i * rg_slotBytes r; st = rg_storage r in
      slotState r base = 2 \<and> readU16Le st (base + 4) = type \<and> readU64Le st (base + 8) = ticket \<and>
      readU32Le st (base + 16) = of_nat (length payload) \<and>
      get_bytes (base + kSlotHeaderBytes) (length payload) st = payload)"

definition slot_bytes :: "Ring \<Rightarrow> nat \<Rightarrow> u8 list" where
  "slot_bytes r i = get_bytes (i * rg_slotBytes r) (rg_slotBytes r) (rg_storage r)"

lemma slot_room:
  assumes "i < c" shows "i * sb + sb \<le> (sb * c :: nat)"
proof -
  have "Suc i * sb \<le> c * sb" using assms by (intro mult_le_mono1) simp
  then show ?thesis by (simp add: mult.commute add.commute)
qed

lemma slots_apart:
  assumes "i \<noteq> j" shows "i * sb + sb \<le> j * sb \<or> j * sb + sb \<le> (i * sb :: nat)"
proof -
  have "Suc i \<le> j \<or> Suc j \<le> i" using assms by auto
  then have "Suc i * sb \<le> j * sb \<or> Suc j * sb \<le> i * sb" using mult_le_mono1 by blast
  then show ?thesis by (simp add: add.commute)
qed

lemma get_bytes_sub: "a + n \<le> m \<Longrightarrow> get_bytes (b + a) n st = get_bytes a n (get_bytes b m st)"
  by (simp add: get_bytes_def drop_take add.commute)

text \<open>What a slot holds is decided by its own bytes.\<close>

lemma slot_holds_cong:
  assumes "slot_bytes r i = slot_bytes r' i" and "rg_slotBytes r' = rg_slotBytes r"
    and "kSlotHeaderBytes + length payload \<le> rg_slotBytes r"
  shows "slot_holds r i t ty payload = slot_holds r' i t ty payload"
proof -
  have *: "get_bytes (i * rg_slotBytes r + a) n (rg_storage r) = get_bytes (i * rg_slotBytes r + a) n (rg_storage r')"
    if "a + n \<le> rg_slotBytes r" for a n
    using assms(1,2) get_bytes_sub [OF that, of "i * rg_slotBytes r"] by (simp add: slot_bytes_def)
  show ?thesis
    using * [of 0 4] * [of 4 2] * [of 8 8] * [of 16 4] * [of kSlotHeaderBytes "length payload"] assms(2,3)
    by (simp add: slot_holds_def slotState_def readU16Le_def readU32Le_def readU64Le_def Let_def kSlotHeaderBytes_def)
qed

lemma slotState_cong:
  assumes "slot_bytes r i = slot_bytes r' i" and "rg_slotBytes r' = rg_slotBytes r" and "4 \<le> rg_slotBytes r"
  shows "slotState r (i * rg_slotBytes r) = slotState r' (i * rg_slotBytes r)"
  using assms get_bytes_sub [of 0 4 "rg_slotBytes r" "i * rg_slotBytes r"] by (simp add: slotState_def readU32Le_def slot_bytes_def)

lemma fill_slot_put_all:
  "fill_slot base ty ticket payload st =
     put_bytes base (le_bytes 4 (2::u32))
       (put_all [(base + 4, le_bytes 2 ty), (base + 8, le_bytes 8 ticket), (base + 16, le_bytes 4 (of_nat (length payload) :: u32)),
                 (base + kSlotHeaderBytes, payload)] (put_bytes base (le_bytes 4 (1::u32)) st))"
proof -
  have "(if payload \<noteq> [] then put_bytes off payload s else s) = put_bytes off payload s" for off s
    by (simp add: put_bytes_def)
  then show ?thesis
    unfolding fill_slot_def put_all_def Let_def writeU16Le_def writeU32Le_def writeU64Le_def by simp
qed

lemma fill_slot_facts:
  assumes "base + kSlotHeaderBytes + length payload \<le> length st"
  shows "length (fill_slot base ty ticket payload st) = length st" (is ?len)
    and "q + n \<le> base \<or> base + kSlotHeaderBytes + length payload \<le> q \<Longrightarrow>
      get_bytes q n (fill_slot base ty ticket payload st) = get_bytes q n st"
    and "readU32Le (fill_slot base ty ticket payload st) base = 2"
    and "readU16Le (fill_slot base ty ticket payload st) (base + 4) = ty"
    and "readU64Le (fill_slot base ty ticket payload st) (base + 8) = ticket"
    and "readU32Le (fill_slot base ty ticket payload st) (base + 16) = of_nat (length payload)"
    and "get_bytes (base + kSlotHeaderBytes) (length payload) (fill_slot base ty ticket payload st) = payload"
proof -
  let ?ws = "[(base + 4, le_bytes 2 ty), (base + 8, le_bytes 8 ticket), (base + 16, le_bytes 4 (of_nat (length payload) :: u32)),
                 (base + kSlotHeaderBytes, payload)]"
  let ?s1 = "put_bytes base (le_bytes 4 (1::u32)) st"
  have l1: "length ?s1 = length st" using assms by (simp add: kSlotHeaderBytes_def)
  have ap: "sorted_wrt apart ?ws" by (simp add: apart_def kSlotHeaderBytes_def)
  have room: "\<forall>w \<in> set ?ws. fst w + length (snd w) \<le> length ?s1" using assms l1 by (simp add: kSlotHeaderBytes_def)
  have l2: "length (put_all ?ws ?s1) = length st"
    using get_put_all_other [OF room, of "length st + base + 24 + length payload" "[]" 0] l1 by (simp add: apart_def kSlotHeaderBytes_def)
  show ?len using l2 assms by (simp add: fill_slot_put_all kSlotHeaderBytes_def)
  have w: "le_word (le_bytes 2 (x :: u16)) = x" "le_word (le_bytes 4 (y :: u32)) = y" "le_word (le_bytes 8 (z :: u64)) = z" for x y z
    by (simp_all add: le_word_bytes)
  have field: "get_bytes off m (fill_slot base ty ticket payload st) = bs"
    if "(off, bs) \<in> set ?ws" "m = length bs" for off m bs
  proof -
    have "off \<ge> base + 4" using that(1) by (auto simp: kSlotHeaderBytes_def)
    then have "get_bytes off m (fill_slot base ty ticket payload st) = get_bytes off m (put_all ?ws ?s1)"
      unfolding fill_slot_put_all using l2 assms by (intro get_put_other) (auto simp: kSlotHeaderBytes_def)
    then show ?thesis using get_put_all [OF ap room that] by simp
  qed
  show "readU16Le (fill_slot base ty ticket payload st) (base + 4) = ty"
    using field [of "base + 4" "le_bytes 2 ty" 2] w(1) by (simp add: readU16Le_def)
  show "readU64Le (fill_slot base ty ticket payload st) (base + 8) = ticket"
    using field [of "base + 8" "le_bytes 8 ticket" 8] w(3) by (simp add: readU64Le_def)
  show "readU32Le (fill_slot base ty ticket payload st) (base + 16) = of_nat (length payload)"
    using field [of "base + 16" "le_bytes 4 (of_nat (length payload) :: u32)" 4] w(2) by (simp add: readU32Le_def)
  show "get_bytes (base + kSlotHeaderBytes) (length payload) (fill_slot base ty ticket payload st) = payload"
    using field [of "base + kSlotHeaderBytes" payload "length payload"] by simp
  show "readU32Le (fill_slot base ty ticket payload st) base = 2"
    unfolding readU32Le_def fill_slot_put_all using l2 assms by (simp add: get_put_same w kSlotHeaderBytes_def)
  assume q: "q + n \<le> base \<or> base + kSlotHeaderBytes + length payload \<le> q"
  have "get_bytes q n (fill_slot base ty ticket payload st) = get_bytes q n (put_all ?ws ?s1)"
    unfolding fill_slot_put_all using l2 assms q by (intro get_put_other) (auto simp: kSlotHeaderBytes_def)
  also have "\<dots> = get_bytes q n ?s1"
    using get_put_all_other [OF room, of q "replicate n 0" n] q by (auto simp: apart_def kSlotHeaderBytes_def)
  also have "\<dots> = get_bytes q n st"
    using assms q by (intro get_put_other) (auto simp: kSlotHeaderBytes_def)
  finally show "get_bytes q n (fill_slot base ty ticket payload st) = get_bytes q n st" .
qed

lemma tryWrite_commits:
  assumes "ring_wf r" and "ring_idle r" and "kSlotHeaderBytes + length payload \<le> rg_slotBytes r"
    and r': "tryWrite ty payload r = (res, r')"
  defines "k \<equiv> unat (rg_writeTicket r) mod rg_slotCount r"
  shows "wr_wrote res \<and> wr_ticket res = rg_writeTicket r"
    and "slot_holds r' k (rg_writeTicket r) ty payload"
    and "\<forall>i < rg_slotCount r. i \<noteq> k \<longrightarrow> slot_bytes r' i = slot_bytes r i"
    and "ring_wf r'" and "ring_idle r'"
    and "rg_slotCount r' = rg_slotCount r \<and> rg_slotBytes r' = rg_slotBytes r \<and> rg_writeTicket r' = rg_writeTicket r + 1"
proof -
  have k: "k < rg_slotCount r" using assms(1) by (simp add: k_def ring_wf_def)
  have room: "k * rg_slotBytes r + kSlotHeaderBytes + length payload \<le> length (rg_storage r)"
    using slot_room [OF k, of "rg_slotBytes r"] assms(1,3) by (simp add: ring_wf_def)
  have st: "slotState r (k * rg_slotBytes r) \<in> {0, 2}" using assms(2) k by (simp add: ring_idle_def)
  have eq: "res = \<lparr>wr_wrote = True, wr_dropReason = Drop_None, wr_ticket = rg_writeTicket r\<rparr>"
    "r' = r\<lparr>rg_writeTicket := rg_writeTicket r + 1,
             rg_storage := fill_slot (k * rg_slotBytes r) ty (rg_writeTicket r) payload (rg_storage r)\<rparr>"
    using r' assms(1,3) st
    by (auto simp: tryWrite_def Let_def ring_wf_def maxPayloadBytes_def slotForTicket_def k_def slotState_def split: if_splits)
  show "wr_wrote res \<and> wr_ticket res = rg_writeTicket r" by (simp add: eq)
  show shape: "rg_slotCount r' = rg_slotCount r \<and> rg_slotBytes r' = rg_slotBytes r \<and> rg_writeTicket r' = rg_writeTicket r + 1"
    by (simp add: eq)
  note f = fill_slot_facts [OF room]
  show "ring_wf r'" using assms(1) by (simp add: ring_wf_def eq f(1))
  show h: "slot_holds r' k (rg_writeTicket r) ty payload"
    by (simp add: slot_holds_def eq f slotState_def)
  show other: "\<forall>i < rg_slotCount r. i \<noteq> k \<longrightarrow> slot_bytes r' i = slot_bytes r i"
  proof (intro allI impI)
    fix i assume "i < rg_slotCount r" "i \<noteq> k"
    then have "i * rg_slotBytes r + rg_slotBytes r \<le> k * rg_slotBytes r \<or>
        k * rg_slotBytes r + kSlotHeaderBytes + length payload \<le> i * rg_slotBytes r"
      using slots_apart [of i k "rg_slotBytes r"] assms(3) by auto
    then show "slot_bytes r' i = slot_bytes r i" using f(2) by (simp add: slot_bytes_def eq)
  qed
  show "ring_idle r'"
    unfolding ring_idle_def
  proof (intro allI impI)
    fix i assume i: "i < rg_slotCount r'"
    show "slotState r' (i * rg_slotBytes r') \<in> {0, 2}"
    proof (cases "i = k")
      case True then show ?thesis using h by (simp add: slot_holds_def Let_def)
    next
      case False
      then have "slotState r' (i * rg_slotBytes r') = slotState r (i * rg_slotBytes r)"
        using other i shape slotState_cong [of r' i r] assms(1) by (simp add: ring_wf_def kSlotHeaderBytes_def)
      then show ?thesis using assms(2) i shape by (simp add: ring_idle_def)
    qed
  qed
qed

lemma mark_empty_facts:
  assumes "n \<le> c" and "kSlotHeaderBytes \<le> sb" and "length st = sb * c"
  shows "length (mark_empty n sb st) = sb * c \<and> (\<forall>i < n. readU32Le (mark_empty n sb st) (i * sb) = 0)"
  using assms(1)
proof (induction n)
  case 0
  then show ?case using assms by simp
next
  case (Suc n)
  let ?st = "mark_empty n sb st"
  have room: "n * sb + 4 \<le> length ?st" using Suc slot_room [of n c sb] assms(2) by (simp add: kSlotHeaderBytes_def)
  have same: "readU32Le (mark_empty (Suc n) sb st) (n * sb) = 0"
    using room by (simp add: readU32Le_def writeU32Le_def get_put_same le_word_bytes)
  have "readU32Le (mark_empty (Suc n) sb st) (i * sb) = 0" if "i < n" for i
  proof -
    have "get_bytes (i * sb) 4 (put_bytes (n * sb) (le_bytes 4 (0 :: u32)) ?st) = get_bytes (i * sb) 4 ?st"
      using room slots_apart [of i n sb] that assms(2) by (intro get_put_other) (auto simp: kSlotHeaderBytes_def)
    then show ?thesis using Suc that by (simp add: readU32Le_def writeU32Le_def)
  qed
  then show ?case using same room Suc by (auto simp: less_Suc_eq writeU32Le_def)
qed

lemma ring_init_ready:
  assumes "ring_init storage slotBytes slotCount r0 = (True, r)" and "slotBytes < 2 ^ 32"
  shows "ring_wf r \<and> ring_idle r \<and> rg_writeTicket r = 0 \<and> rg_slotBytes r = slotBytes \<and> rg_slotCount r = slotCount"
proof -
  have r: "r = \<lparr>rg_slotBytes = slotBytes, rg_slotCount = slotCount,
             rg_storage = mark_empty slotCount slotBytes (take (slotBytes * slotCount) storage),
             rg_writeTicket = 0, rg_inited = True\<rparr>"
    and g: "kSlotHeaderBytes \<le> slotBytes" "0 < slotCount" "slotBytes * slotCount \<le> length storage"
    using assms(1) by (auto simp: ring_init_def split: if_splits)
  have m: "length (take (slotBytes * slotCount) storage) = slotBytes * slotCount" using g(3) by simp
  show ?thesis
    using mark_empty_facts [OF order_refl g(1) m] g assms(2)
    by (simp add: r ring_wf_def ring_idle_def slotState_def)
qed

text \<open>A sequence of writes.\<close>

fun write_all :: "(u16 \<times> u8 list) list \<Rightarrow> Ring \<Rightarrow> Ring" where
  "write_all [] r = r"
| "write_all ((ty, payload) # rs) r = write_all rs (snd (tryWrite ty payload r))"

text \<open>What the ring holds after \<open>n\<close> writes: the last \<open>slotCount\<close> of them, each in the slot of its ticket.\<close>

definition holds_last :: "(u16 \<times> u8 list) list \<Rightarrow> Ring \<Rightarrow> bool" where
  "holds_last rs r \<longleftrightarrow> (\<forall>i < length rs. length rs \<le> i + rg_slotCount r \<longrightarrow>
     slot_holds r (i mod rg_slotCount r) (of_nat i) (fst (rs ! i)) (snd (rs ! i)))"

lemma same_slot_far_apart:
  fixes i n :: nat
  assumes "i < n" and "i mod c = n mod c" shows "i + c \<le> n"
proof -
  have "c dvd n - i" using assms by (metis mod_eq_dvd_iff_nat less_imp_le)
  then show ?thesis using assms(1) dvd_imp_le [of c "n - i"] by simp
qed

lemma holds_last_step:
  assumes wf: "ring_wf r" "ring_idle r" and n: "rg_writeTicket r = of_nat (length done)" "length done < 2 ^ 64"
    and fit: "\<forall>x \<in> set (done @ [(ty, payload)]). kSlotHeaderBytes + length (snd x) \<le> rg_slotBytes r"
    and h: "holds_last done r"
  shows "holds_last (done @ [(ty, payload)]) (snd (tryWrite ty payload r))"
proof -
  let ?n = "length done" and ?c = "rg_slotCount r"
  obtain res r' where r': "tryWrite ty payload r = (res, r')" by (cases "tryWrite ty payload r")
  have fitp: "kSlotHeaderBytes + length payload \<le> rg_slotBytes r" using fit by simp
  note t = tryWrite_commits [OF wf fitp r']
  have un: "unat (rg_writeTicket r) = ?n" using n by (simp add: unat_of_nat)
  have c0: "0 < ?c" using wf by (simp add: ring_wf_def)
  have "slot_holds r' (i mod ?c) (of_nat i) (fst ((done @ [(ty, payload)]) ! i)) (snd ((done @ [(ty, payload)]) ! i))"
    if i: "i < Suc ?n" "Suc ?n \<le> i + ?c" for i
  proof (cases "i = ?n")
    case True
    then show ?thesis using t(2) un n(1) by simp
  next
    case False
    then have lt: "i < ?n" using i(1) by simp
    then have ne: "i mod ?c \<noteq> ?n mod ?c" using same_slot_far_apart [of i ?n ?c] i(2) by auto
    have sb: "slot_bytes r' (i mod ?c) = slot_bytes r (i mod ?c)" using t(3) ne un c0 by simp
    have "slot_holds r (i mod ?c) (of_nat i) (fst (done ! i)) (snd (done ! i))"
      using h lt i(2) by (simp add: holds_last_def)
    moreover have "kSlotHeaderBytes + length (snd (done ! i)) \<le> rg_slotBytes r" using fit lt by simp
    ultimately show ?thesis
      using slot_holds_cong [of r' "i mod ?c" r] sb t(6) lt by (simp add: nth_append)
  qed
  then show ?thesis using t(6) by (simp add: holds_last_def r')
qed

lemma write_all_holds_last:
  assumes "ring_wf r" "ring_idle r" and "rg_writeTicket r = of_nat (length done)" "length (done @ rs) \<le> 2 ^ 64"
    and "\<forall>x \<in> set (done @ rs). kSlotHeaderBytes + length (snd x) \<le> rg_slotBytes r"
    and "holds_last done r"
  shows "holds_last (done @ rs) (write_all rs r) \<and> rg_slotCount (write_all rs r) = rg_slotCount r"
  using assms
proof (induction rs arbitrary: r "done")
  case Nil
  then show ?case by simp
next
  case (Cons x rs)
  obtain ty payload where x: "x = (ty, payload)" by (cases x)
  obtain res r' where r': "tryWrite ty payload r = (res, r')" by (cases "tryWrite ty payload r")
  have fitp: "kSlotHeaderBytes + length payload \<le> rg_slotBytes r" using Cons.prems(5) by (simp add: x)
  note t = tryWrite_commits [OF Cons.prems(1,2) fitp r']
  have "holds_last (done @ [(ty, payload)]) r'"
    using holds_last_step [OF Cons.prems(1-3), of ty payload] Cons.prems(4-6) r' by (simp add: x)
  then show ?case
    using Cons.IH [of r' "done @ [(ty, payload)]"] t(4-6) Cons.prems(3-5) r' by (simp add: x add.commute)
qed

text \<open>C26. The telemetry ring keeps the newest records: in a freshly initialised ring, after any sequence of
  records that fit a slot (and no more than \<open>2 ^ 64\<close> of them), each of the last \<open>slotCount\<close> records
  is in the slot of its ticket, committed, with its type, ticket, payload size and payload intact, however
  often the ring wrapped around.\<close>

theorem ring_keeps_newest:
  assumes "ring_init storage slotBytes slotCount r0 = (True, r)" and "slotBytes < 2 ^ 32"
    and "\<forall>x \<in> set rs. length (snd x) \<le> slotBytes - kSlotHeaderBytes" and "length rs \<le> 2 ^ 64"
    and "i < length rs" and "length rs \<le> i + slotCount"
  shows "slot_holds (write_all rs r) (i mod slotCount) (of_nat i) (fst (rs ! i)) (snd (rs ! i))"
proof -
  have r: "ring_wf r" "ring_idle r" "rg_writeTicket r = 0" "rg_slotBytes r = slotBytes" "rg_slotCount r = slotCount"
    using ring_init_ready [OF assms(1,2)] by simp_all
  have "holds_last ([] @ rs) (write_all rs r) \<and> rg_slotCount (write_all rs r) = rg_slotCount r"
    using assms(3,4) r by (intro write_all_holds_last) (auto simp: ring_wf_def holds_last_def)
  then show ?thesis using assms(5,6) r(5) by (auto simp: holds_last_def)
qed

theorem ring_keeps_newest_witness:
  "let rs = [(1, [10]), (2, [20, 21]), (1, [30])] :: (u16 \<times> u8 list) list;
       r = snd (ring_init (replicate 64 0) 32 2 ring_empty)
   in slot_holds (write_all rs r) (2 mod 2) (of_nat 2) (fst (rs ! 2)) (snd (rs ! 2))"
  unfolding Let_def
  by (rule ring_keeps_newest [where storage = "replicate 64 0" and slotBytes = 32 and ?r0.0 = ring_empty])
    (simp_all add: ring_init_def kSlotHeaderBytes_def)

theorem flow_record_roundtrip_witness:
  "let f = \<lparr>ff_kind = 1, ff_observationKind = 0, ff_ctState = 1, ff_ctDir = 0, ff_packetDir = 2, ff_flowOriginDir = 2,
       ff_verdict = 1, ff_reasonId = 0, ff_ifaceKindBit = 1, ff_l4Status = 0, ff_endReason = 0, ff_proto = 6,
       ff_isIpv6 = False, ff_pickedUpMidStream = False, ff_uidKnown = True, ff_ifindexKnown = True, ff_portsAvailable = True,
       ff_srcPort = 40000, ff_dstPort = 443, ff_icmpType = 0, ff_icmpCode = 0, ff_icmpId = 0, ff_timestampNs = 77,
       ff_firstSeenNs = 70, ff_lastSeenNs = 77, ff_flowInstanceId = 5, ff_recordSeq = 1, ff_uid = 10001, ff_userId = 0,
       ff_ifindex = 3, ff_srcAddr = [10, 0, 0, 2], ff_dstAddr = [1, 2, 3, 4], ff_totalPackets = 1, ff_totalBytes = 60,
       ff_inPackets = 0, ff_inBytes = 0, ff_outPackets = 1, ff_outBytes = 60, ff_ruleId = Some 9\<rparr>;
     p = put_all (flow_writes f) (replicate kFlowV1Bytes 0) in
   length p = 160 \<and> get_bytes 0 1 p = [1] \<and> decodeFlowV1 p =
    f\<lparr>ff_srcPort := (if ff_portsAvailable f then ff_srcPort f else 0),
      ff_dstPort := (if ff_portsAvailable f then ff_dstPort f else 0)\<rparr>"
  unfolding Let_def by (rule flow_record_roundtrip) (simp add: encodeFlowV1_def)

text \<open>Every record offered to an open flow session is accounted for exactly once: the export returns true
  and counts one written record, or returns false, counts one dropped record and remembers why; a record
  that was counted as written sits complete in the slot of its ticket.\<close>

theorem export_accounts_every_record:
  assumes "ft_session ft = Some s" and "ses_level s = Level_Flow" and "ring_wf (ses_ring s)" and "ring_idle (ses_ring s)"
    and "exportRecordHot (hotPathFlow ft) type payload ft = (ok, ft')"
  shows "if length payload \<le> maxPayloadBytes (ses_ring s)
         then ok \<and> recordsWritten ft' = recordsWritten ft + 1 \<and> recordsDropped ft' = recordsDropped ft \<and>
           (\<exists>s'. ft_session ft' = Some s' \<and>
             slot_holds (ses_ring s') (unat (rg_writeTicket (ses_ring s)) mod rg_slotCount (ses_ring s))
               (rg_writeTicket (ses_ring s)) type payload)
         else \<not> ok \<and> recordsWritten ft' = recordsWritten ft \<and> recordsDropped ft' = recordsDropped ft + 1 \<and>
           lastDropReason ft' = RecordTooLarge"
proof -
  obtain res r' where r': "tryWrite type payload (ses_ring s) = (res, r')" by (cases "tryWrite type payload (ses_ring s)")
  have hot: "hp_cfg (hotPathFlow ft) = Some (ses_cfg s)" using assms(1,2) by (simp add: hotPathFlow_def)
  note e = assms(5) [unfolded exportRecordHot_def hot assms(1) option.case prod.case r' Let_def]
  show ?thesis
  proof (cases "length payload \<le> maxPayloadBytes (ses_ring s)")
    case True
    then have "kSlotHeaderBytes + length payload \<le> rg_slotBytes (ses_ring s)"
      using assms(3) unfolding ring_wf_def maxPayloadBytes_def by linarith
    from tryWrite_commits(1,2) [OF assms(3,4) this r'] True e assms(2) show ?thesis by auto
  next
    case False
    then have "\<not> wr_wrote res \<and> wr_dropReason res = RecordTooLarge"
      using r' assms(3) by (auto simp: tryWrite_def Let_def maxPayloadBytes_def ring_wf_def)
    then show ?thesis using e assms(2) False by (auto simp: accountDrop_def)
  qed
qed

definition sample_telemetry :: FlowTelemetry where
  "sample_telemetry = \<lparr>ft_session = Some \<lparr>ses_sessionId = 1, ses_level = Level_Flow,
       ses_cfg = \<lparr>tc_slotBytes = 32, tc_ringDataBytes = 64, pollIntervalMs = 1000, bytesThreshold = 0, packetsThreshold = 0,
         maxExportIntervalMs = 0, blockTtlMs = 0, pickupTtlMs = 0, invalidTtlMs = 0, maxFlowEntries = 8, maxEntriesPerUid = 8\<rparr>,
       ses_ring = snd (ring_init (replicate 64 0) 32 2 ring_empty)\<rparr>,
     ft_ownerKey = Some 7, ft_nextSessionId = 2, recordsWritten = 0, recordsDropped = 0, lastDropReason = Drop_None,
     ft_lastError = []\<rparr>"

theorem export_accounts_every_record_witness:
  "let (ok, ft') = exportRecordHot (hotPathFlow sample_telemetry) 1 [1, 2, 3] sample_telemetry in
     ok \<and> recordsWritten ft' = recordsWritten sample_telemetry + 1"
proof -
  let ?s = "the (ft_session sample_telemetry)"
  have s: "ft_session sample_telemetry = Some ?s" "ses_level ?s = Level_Flow" by (simp_all add: sample_telemetry_def)
  have "ring_init (replicate 64 0) 32 2 ring_empty = (True, ses_ring ?s)"
    by (simp add: sample_telemetry_def ring_init_def kSlotHeaderBytes_def)
  from ring_init_ready [OF this] have r: "ring_wf (ses_ring ?s)" "ring_idle (ses_ring ?s)" "rg_slotBytes (ses_ring ?s) = 32"
    by simp_all
  obtain ok ft' where e: "exportRecordHot (hotPathFlow sample_telemetry) 1 [1, 2, 3] sample_telemetry = (ok, ft')"
    by (cases "exportRecordHot (hotPathFlow sample_telemetry) 1 [1, 2, 3] sample_telemetry")
  have "length [1, 2, 3 :: u8] \<le> maxPayloadBytes (ses_ring ?s)" using r(3) by (simp add: maxPayloadBytes_def kSlotHeaderBytes_def)
  then show ?thesis using export_accounts_every_record [OF s r(1,2) e] e by simp
qed

end
