(* ===== verification/ConntrackTypes.thy ===== *)
theory ConntrackTypes
  imports TelemetryRing
begin

text \<open>
  The data of the connection tracker (\<^verbatim>\<open>src/src/Conntrack.hpp\<close>, \<^verbatim>\<open>src/src/Conntrack.cpp\<close>): packets, keys and
  entries, the validity tests, the timeouts and the TCP, ICMP and generic trackers. IPv4 and IPv6 share the
  definitions and differ in a record of family operations.
\<close>

section \<open>Packets, results and options\<close>

datatype ConnState = CT_ANY | CT_NEW | CT_ESTABLISHED | CT_INVALID

fun connState_u8 :: "ConnState \<Rightarrow> u8" where
  "connState_u8 CT_ANY = 0"
| "connState_u8 CT_NEW = 1"
| "connState_u8 CT_ESTABLISHED = 2"
| "connState_u8 CT_INVALID = 3"

datatype ConnDir = DIR_ANY | DIR_ORIG | DIR_REPLY

fun connDir_u8 :: "ConnDir \<Rightarrow> u8" where
  "connDir_u8 DIR_ANY = 0"
| "connDir_u8 DIR_ORIG = 1"
| "connDir_u8 DIR_REPLY = 2"

record TcpMeta =
  tcp_flags :: u8
  tcp_dataOffsetWords :: u8
  tcp_hasWscale :: bool
  tcp_wscale :: u8
  tcp_window :: u16
  tcp_seq :: u32
  tcp_ack :: u32

record IcmpMeta =
  icmp_type :: u8
  icmp_code :: u8
  icmp_id :: u16

text \<open>\<^verbatim>\<open>PacketV4\<close> and \<^verbatim>\<open>PacketV6\<close> differ in the type of an address only.\<close>

record 'ip CtPacket =
  pk_tsNs :: u64
  pk_uid :: u32
  pk_srcIp :: 'ip
  pk_dstIp :: 'ip
  pk_proto :: u8
  pk_isFragment :: bool
  pk_ipPayloadLen :: u16
  pk_srcPort :: u16
  pk_dstPort :: u16
  pk_hasTcp :: bool
  pk_tcp :: TcpMeta
  pk_hasIcmp :: bool
  pk_icmp :: IcmpMeta

record CtResult =
  r_state :: ConnState
  r_direction :: ConnDir

record PolicyView =
  v_result :: CtResult
  v_createOnAccept :: bool

record Options =
  maxEntries :: u32
  opt_shards :: u16
  bucketsPerShard :: u32
  sweepMaxBuckets :: u16
  sweepMaxEntries :: u16
  sweepMinIntervalMs :: u32

definition options_default :: Options where
  "options_default = \<lparr>maxEntries = 1000000, opt_shards = 64, bucketsPerShard = 4096, sweepMaxBuckets = 8,
     sweepMaxEntries = 64, sweepMinIntervalMs = 50\<rparr>"

section \<open>The address family\<close>

text \<open>\<^verbatim>\<open>ImplV6\<close> is the text of \<^verbatim>\<open>ImplV4\<close> with another address type and another set of ICMP types.
  The model is written once, with what differs as the fields of a record, and instantiated twice.\<close>

record 'ip AddrFamily =
  fam_icmpProto :: u8
  fam_reverseIcmpType :: "u8 \<Rightarrow> u8"
  fam_icmpNewType :: "u8 \<Rightarrow> bool"
  fam_hashIp :: "'ip \<Rightarrow> u64"
  fam_isIpv6 :: bool
  fam_addrBytes :: "'ip \<Rightarrow> u8 list"
  fam_addrLen :: nat

definition mix :: "u64 \<Rightarrow> u64" where
  "mix x0 = (let x1 = x0 XOR drop_bit 30 x0; x2 = x1 * 0xbf58476d1ce4e5b9; x3 = x2 XOR drop_bit 27 x2;
                 x4 = x3 * 0x94d049bb133111eb in x4 XOR drop_bit 31 x4)"

definition reverseIcmpType :: "u8 \<Rightarrow> u8" where
  "reverseIcmpType t =
     (if t = 8 then 0 else if t = 0 then 8 else if t = 13 then 14 else if t = 14 then 13
      else if t = 15 then 16 else if t = 16 then 15 else 0xFF)"

definition reverseIcmp6Type :: "u8 \<Rightarrow> u8" where
  "reverseIcmp6Type t = (if t = 128 then 129 else if t = 129 then 128 else 0xFF)"

definition ipV4_bytes :: "u32 \<Rightarrow> u8 list" where
  "ipV4_bytes ip = [ucast (drop_bit 24 ip AND 0xFF), ucast (drop_bit 16 ip AND 0xFF), ucast (drop_bit 8 ip AND 0xFF), ucast (ip AND 0xFF)]"

definition fam4 :: "u32 AddrFamily" where
  "fam4 = \<lparr>fam_icmpProto = 1, fam_reverseIcmpType = reverseIcmpType,
     fam_icmpNewType = (\<lambda>t. t = 8 \<or> t = 13 \<or> t = 15), fam_hashIp = (\<lambda>ip. mix (ucast ip)),
     fam_isIpv6 = False, fam_addrBytes = ipV4_bytes, fam_addrLen = 4\<rparr>"

definition fam6 :: "u8 list AddrFamily" where
  "fam6 = \<lparr>fam_icmpProto = 58, fam_reverseIcmpType = reverseIcmp6Type, fam_icmpNewType = (\<lambda>t. t = 128),
     fam_hashIp = (\<lambda>ip. mix (le_word (take 8 ip)) XOR mix (le_word (take 8 (drop 8 ip)))),
     fam_isIpv6 = True, fam_addrBytes = (\<lambda>ip. ip), fam_addrLen = 16\<rparr>"

section \<open>Keys and entries\<close>

record 'ip Endpoint =
  ep_ip :: 'ip
  ep_port :: u16
  ep_icmpType :: u8
  ep_icmpCode :: u8
  ep_icmpId :: u16

record 'ip Key =
  k_uid :: u32
  k_proto :: u8
  k_src :: "'ip Endpoint"
  k_dst :: "'ip Endpoint"

text \<open>The telemetry part of an entry. Its \<^verbatim>\<open>exportInProgress\<close> flag is a try-lock around single
  operations, which are atomic here, so that it is always free.\<close>

record TelemetryState =
  te_flowInstanceId :: u64
  te_sessionId :: u64
  te_recordSeq :: u64
  te_totalPackets :: u64
  te_totalBytes :: u64
  te_inPackets :: u64
  te_inBytes :: u64
  te_outPackets :: u64
  te_outBytes :: u64
  te_firstSeenNs :: u64
  te_lastSeenNs :: u64
  te_decisionKey :: u64
  te_decisionRuleId :: u32
  te_decisionRuleIdKnown :: bool
  te_lastExportPackets :: u64
  te_lastExportBytes :: u64
  te_lastExportTsNs :: u64
  te_lastExportDecisionKey :: u64
  te_lastExportRuleId :: u32
  te_lastExportRuleIdKnown :: bool
  te_lastUserId :: u32
  te_lastIfindex :: u32
  te_observationKind :: u8
  te_flowOriginDir :: u8
  te_lastPacketDir :: u8
  te_lastVerdict :: u8
  te_lastCtState :: u8
  te_lastCtDir :: u8
  te_lastReasonId :: u8
  te_lastIfaceKindBit :: u8
  te_lastL4Status :: u8
  te_lastUidKnown :: bool
  te_lastIfindexKnown :: bool
  te_lastPortsAvailable :: bool
  te_pickedUpMidStream :: bool
  te_lastIcmpType :: u8
  te_lastIcmpCode :: u8
  te_lastIcmpId :: u16

definition tele_zero :: TelemetryState where
  "tele_zero = \<lparr>te_flowInstanceId = 0, te_sessionId = 0, te_recordSeq = 0, te_totalPackets = 0, te_totalBytes = 0,
     te_inPackets = 0, te_inBytes = 0, te_outPackets = 0, te_outBytes = 0, te_firstSeenNs = 0, te_lastSeenNs = 0,
     te_decisionKey = 0, te_decisionRuleId = 0, te_decisionRuleIdKnown = False, te_lastExportPackets = 0,
     te_lastExportBytes = 0, te_lastExportTsNs = 0, te_lastExportDecisionKey = 0, te_lastExportRuleId = 0,
     te_lastExportRuleIdKnown = False, te_lastUserId = 0, te_lastIfindex = 0, te_observationKind = 0,
     te_flowOriginDir = 0, te_lastPacketDir = 0, te_lastVerdict = 0, te_lastCtState = 0, te_lastCtDir = 0,
     te_lastReasonId = 0, te_lastIfaceKindBit = 0, te_lastL4Status = 0, te_lastUidKnown = False,
     te_lastIfindexKnown = False, te_lastPortsAvailable = False, te_pickedUpMidStream = False,
     te_lastIcmpType = 0, te_lastIcmpCode = 0, te_lastIcmpId = 0\<rparr>"

text \<open>The links \<^verbatim>\<open>next\<close> and \<^verbatim>\<open>retiredNext\<close> are the positions in the lists below; the tracker states
  are the bytes the code stores (\<open>TcpPeerState\<close> 0 to 5, \<open>OtherState\<close> 0 to 2, \<open>IcmpState\<close> 0 and 1).\<close>

record 'ip Entry =
  en_key :: "'ip Key"
  en_revKey :: "'ip Key"
  en_expirationNs :: u64
  en_tele :: TelemetryState
  en_state0 :: u8
  en_state1 :: u8

abbreviation (input) "Tcp_CLOSED \<equiv> (0 :: u8)"
abbreviation (input) "Tcp_SYN_SENT \<equiv> (1 :: u8)"
abbreviation (input) "Tcp_ESTABLISHED \<equiv> (2 :: u8)"
abbreviation (input) "Tcp_CLOSING \<equiv> (3 :: u8)"
abbreviation (input) "Tcp_FIN_WAIT_2 \<equiv> (4 :: u8)"
abbreviation (input) "Tcp_TIME_WAIT \<equiv> (5 :: u8)"
abbreviation (input) "Other_FIRST \<equiv> (0 :: u8)"
abbreviation (input) "Other_MULTIPLE \<equiv> (1 :: u8)"
abbreviation (input) "Other_BIDIR \<equiv> (2 :: u8)"
abbreviation (input) "Icmp_FIRST \<equiv> (0 :: u8)"
abbreviation (input) "Icmp_REPLY \<equiv> (1 :: u8)"
abbreviation (input) "TH_FIN \<equiv> (0x01 :: u8)"
abbreviation (input) "TH_SYN \<equiv> (0x02 :: u8)"
abbreviation (input) "TH_RST \<equiv> (0x04 :: u8)"
abbreviation (input) "TH_PUSH \<equiv> (0x08 :: u8)"
abbreviation (input) "TH_ACK \<equiv> (0x10 :: u8)"
abbreviation (input) "TH_URG \<equiv> (0x20 :: u8)"
abbreviation (input) "P_TCP \<equiv> (6 :: u8)"
abbreviation (input) "P_UDP \<equiv> (17 :: u8)"

definition reverseKey :: "'ip Key \<Rightarrow> 'ip Key" where
  "reverseKey k = k\<lparr>k_src := k_dst k, k_dst := k_src k\<rparr>"

definition keyEq :: "'ip Key \<Rightarrow> 'ip Key \<Rightarrow> bool" where
  "keyEq a b \<longleftrightarrow> k_uid a = k_uid b \<and> k_proto a = k_proto b \<and>
     ep_ip (k_src a) = ep_ip (k_src b) \<and> ep_ip (k_dst a) = ep_ip (k_dst b) \<and>
     ep_port (k_src a) = ep_port (k_src b) \<and> ep_port (k_dst a) = ep_port (k_dst b) \<and>
     ep_icmpType (k_src a) = ep_icmpType (k_src b) \<and> ep_icmpType (k_dst a) = ep_icmpType (k_dst b) \<and>
     ep_icmpCode (k_src a) = ep_icmpCode (k_src b) \<and> ep_icmpCode (k_dst a) = ep_icmpCode (k_dst b) \<and>
     ep_icmpId (k_src a) = ep_icmpId (k_src b) \<and> ep_icmpId (k_dst a) = ep_icmpId (k_dst b)"

definition hashEndpoint :: "'ip AddrFamily \<Rightarrow> 'ip Endpoint \<Rightarrow> u64" where
  "hashEndpoint fam ep =
     fam_hashIp fam (ep_ip ep) XOR
     mix (push_bit 16 (ucast (ep_port ep)) OR push_bit 8 (ucast (ep_icmpType ep)) OR ucast (ep_icmpCode ep)) XOR
     mix (ucast (ep_icmpId ep))"

definition hashKey :: "'ip AddrFamily \<Rightarrow> 'ip Key \<Rightarrow> u64" where
  "hashKey fam k =
     hashEndpoint fam (k_src k) XOR hashEndpoint fam (k_dst k) XOR mix (ucast (k_uid k)) XOR mix (ucast (k_proto k))"

definition makeKey :: "'ip AddrFamily \<Rightarrow> 'ip CtPacket \<Rightarrow> 'ip Key option" where
  "makeKey fam pkt =
     (let ep0 = (\<lambda>ip. \<lparr>ep_ip = ip, ep_port = 0, ep_icmpType = 0, ep_icmpCode = 0, ep_icmpId = 0\<rparr>);
          out = \<lparr>k_uid = pk_uid pkt, k_proto = pk_proto pkt, k_src = ep0 (pk_srcIp pkt), k_dst = ep0 (pk_dstIp pkt)\<rparr>;
          ported = out\<lparr>k_src := (k_src out)\<lparr>ep_port := pk_srcPort pkt\<rparr>, k_dst := (k_dst out)\<lparr>ep_port := pk_dstPort pkt\<rparr>\<rparr>
      in if pk_proto pkt = P_TCP then
           if \<not> pk_hasTcp pkt then None
           else if pk_srcPort pkt = 0 \<or> pk_dstPort pkt = 0 then None else Some ported
         else if pk_proto pkt = P_UDP then
           if pk_srcPort pkt = 0 \<or> pk_dstPort pkt = 0 then None else Some ported
         else if pk_proto pkt = fam_icmpProto fam then
           if \<not> pk_hasIcmp pkt then None
           else let rtype = fam_reverseIcmpType fam (icmp_type (pk_icmp pkt)) in
             if rtype = 0xFF then None
             else if icmp_code (pk_icmp pkt) \<noteq> 0 then None
             else Some (out\<lparr>
               k_src := (k_src out)\<lparr>ep_icmpId := icmp_id (pk_icmp pkt), ep_icmpType := icmp_type (pk_icmp pkt),
                          ep_icmpCode := icmp_code (pk_icmp pkt)\<rparr>,
               k_dst := (k_dst out)\<lparr>ep_icmpId := icmp_id (pk_icmp pkt), ep_icmpType := rtype,
                          ep_icmpCode := icmp_code (pk_icmp pkt)\<rparr>\<rparr>)
         else Some out)"

definition makeObservationKey :: "'ip CtPacket \<Rightarrow> 'ip Key" where
  "makeObservationKey pkt =
     (let ep = (\<lambda>ip. \<lparr>ep_ip = ip, ep_port = 0,
                 ep_icmpType = (if pk_hasIcmp pkt then icmp_type (pk_icmp pkt) else 0), ep_icmpCode = 0xFE,
                 ep_icmpId = (if pk_hasIcmp pkt then icmp_id (pk_icmp pkt) else 0)\<rparr>)
      in \<lparr>k_uid = pk_uid pkt, k_proto = pk_proto pkt, k_src = ep (pk_srcIp pkt), k_dst = ep (pk_dstIp pkt)\<rparr>)"

section \<open>Validity of packets\<close>

definition computeTcpPayloadLen :: "'ip CtPacket \<Rightarrow> u16 option" where
  "computeTcpPayloadLen pkt =
     (if \<not> pk_hasTcp pkt then None
      else if tcp_dataOffsetWords (pk_tcp pkt) < 5 then None
      else let tcpHdrLen = (ucast (tcp_dataOffsetWords (pk_tcp pkt)) :: u16) * 4 in
        if pk_ipPayloadLen pkt < tcpHdrLen then None else Some (pk_ipPayloadLen pkt - tcpHdrLen))"

definition tcpInvalidFlags :: "u8 \<Rightarrow> bool" where
  "tcpInvalidFlags flags0 =
     (let flags = flags0 AND NOT 0x40 AND NOT 0x80 in
      if flags AND TH_SYN \<noteq> 0 \<and> flags AND (TH_RST OR TH_FIN) \<noteq> 0 then True
      else if flags AND TH_SYN = 0 \<and> flags AND TH_ACK = 0 \<and> flags AND TH_RST = 0 then True
      else flags AND TH_ACK = 0 \<and> flags AND (TH_FIN OR TH_PUSH OR TH_URG) \<noteq> 0)"

definition tcpValidNew :: "'ip CtPacket \<Rightarrow> bool" where
  "tcpValidNew pkt \<longleftrightarrow> pk_hasTcp pkt \<and> computeTcpPayloadLen pkt \<noteq> None \<and>
     (let flags = tcp_flags (pk_tcp pkt) in
      \<not> tcpInvalidFlags flags \<and> \<not> (flags AND TH_SYN \<noteq> 0 \<and> flags AND TH_ACK \<noteq> 0))"

definition tcpValidUpdate :: "'ip CtPacket \<Rightarrow> bool" where
  "tcpValidUpdate pkt \<longleftrightarrow> pk_hasTcp pkt \<and> computeTcpPayloadLen pkt \<noteq> None \<and> \<not> tcpInvalidFlags (tcp_flags (pk_tcp pkt))"

definition icmpValidNew :: "'ip AddrFamily \<Rightarrow> 'ip CtPacket \<Rightarrow> bool" where
  "icmpValidNew fam pkt \<longleftrightarrow> pk_hasIcmp pkt \<and> icmp_code (pk_icmp pkt) = 0 \<and> fam_icmpNewType fam (icmp_type (pk_icmp pkt))"

section \<open>Timeouts\<close>

definition u64_max :: u64 where "u64_max = 0xFFFFFFFFFFFFFFFF"

definition addTimeoutNs :: "u64 \<Rightarrow> u32 \<Rightarrow> u64" where
  "addTimeoutNs nowNs sec = (let d = ucast sec * 1000000000 in if u64_max - d < nowNs then u64_max else nowNs + d)"

definition addTimeoutMs :: "u64 \<Rightarrow> u32 \<Rightarrow> u64" where
  "addTimeoutMs nowNs ms = (let d = ucast ms * 1000000 in if u64_max - d < nowNs then u64_max else nowNs + d)"

abbreviation (input) "tp_tcpSynSent \<equiv> (30 :: u32)"
abbreviation (input) "tp_tcpSynRecv \<equiv> (30 :: u32)"
abbreviation (input) "tp_tcpEstablished \<equiv> (86400 :: u32)"
abbreviation (input) "tp_tcpFinWait \<equiv> (900 :: u32)"
abbreviation (input) "tp_tcpTimeWait \<equiv> (45 :: u32)"
abbreviation (input) "tp_tcpClose \<equiv> (30 :: u32)"
abbreviation (input) "tp_udpFirst \<equiv> (60 :: u32)"
abbreviation (input) "tp_udpSingle \<equiv> (60 :: u32)"
abbreviation (input) "tp_udpMultiple \<equiv> (30 :: u32)"
abbreviation (input) "tp_icmpFirst \<equiv> (60 :: u32)"
abbreviation (input) "tp_icmpReply \<equiv> (30 :: u32)"

definition timeoutForOtherState :: "u8 \<Rightarrow> u32" where
  "timeoutForOtherState s =
     (if s = Other_FIRST then tp_udpFirst else if s = Other_MULTIPLE then tp_udpMultiple
      else if s = Other_BIDIR then tp_udpSingle else tp_udpFirst)"

definition timeoutForIcmpState :: "u8 \<Rightarrow> u32" where
  "timeoutForIcmpState s = (if s = Icmp_FIRST then tp_icmpFirst else if s = Icmp_REPLY then tp_icmpReply else tp_icmpFirst)"

definition timeoutForTcpPeers :: "u8 \<Rightarrow> u8 \<Rightarrow> u32" where
  "timeoutForTcpPeers a b =
     (if Tcp_FIN_WAIT_2 \<le> a \<and> Tcp_FIN_WAIT_2 \<le> b then tp_tcpClose
      else if Tcp_CLOSING \<le> a \<and> Tcp_CLOSING \<le> b then tp_tcpFinWait
      else if a < Tcp_ESTABLISHED \<or> b < Tcp_ESTABLISHED then tp_tcpSynRecv
      else if Tcp_CLOSING \<le> a \<or> Tcp_CLOSING \<le> b then tp_tcpTimeWait
      else tp_tcpEstablished)"

section \<open>The connection trackers\<close>

definition entry_expired :: "'ip Entry \<Rightarrow> u64 \<Rightarrow> bool" where
  "entry_expired e nowNs \<longleftrightarrow> en_expirationNs e \<noteq> 0 \<and> en_expirationNs e \<le> nowNs"

definition bumpAtLeast :: "u8 \<Rightarrow> u8 \<Rightarrow> u8" where
  "bumpAtLeast st want = (if st < want then want else st)"

text \<open>The effect of TCP flags on the states of the sender and the receiver of the packet.\<close>

definition tcp_peers :: "u8 \<Rightarrow> u8 \<Rightarrow> u8 \<Rightarrow> u8 \<times> u8" where
  "tcp_peers flags src dst =
     (let src1 = (if flags AND TH_SYN \<noteq> 0 then bumpAtLeast src Tcp_SYN_SENT else src);
          src2 = (if flags AND TH_FIN \<noteq> 0 then bumpAtLeast src1 Tcp_CLOSING else src1);
          dst1 = (if flags AND TH_ACK \<noteq> 0 then
                    if dst = Tcp_SYN_SENT then bumpAtLeast dst Tcp_ESTABLISHED
                    else if dst = Tcp_CLOSING then bumpAtLeast dst Tcp_FIN_WAIT_2 else dst
                  else dst)
      in if flags AND TH_RST \<noteq> 0 then (Tcp_TIME_WAIT, Tcp_TIME_WAIT) else (src2, dst1))"

definition updateExisting :: "'ip AddrFamily \<Rightarrow> 'ip CtPacket \<Rightarrow> 'ip Entry \<Rightarrow> bool \<Rightarrow> ConnState \<times> 'ip Entry" where
  "updateExisting fam pkt e isReply =
     (if pk_proto pkt = P_TCP then
        if \<not> tcpValidUpdate pkt then (CT_INVALID, e)
        else
          let (p0, p1) = (if isReply
                          then (let (s, d) = tcp_peers (tcp_flags (pk_tcp pkt)) (en_state1 e) (en_state0 e) in (d, s))
                          else tcp_peers (tcp_flags (pk_tcp pkt)) (en_state0 e) (en_state1 e))
          in (CT_ESTABLISHED, e\<lparr>en_state0 := p0, en_state1 := p1,
                en_expirationNs := addTimeoutNs (pk_tsNs pkt) (timeoutForTcpPeers p0 p1)\<rparr>)
      else if pk_proto pkt = fam_icmpProto fam then
        let st = (if isReply \<and> en_state0 e = Icmp_FIRST then Icmp_REPLY else en_state0 e)
        in (if st = Icmp_REPLY then CT_ESTABLISHED else CT_NEW,
            e\<lparr>en_state0 := st, en_expirationNs := addTimeoutNs (pk_tsNs pkt) (timeoutForIcmpState st)\<rparr>)
      else
        let st = (if isReply \<and> en_state0 e \<noteq> Other_BIDIR then Other_BIDIR
                  else if \<not> isReply \<and> en_state0 e = Other_FIRST then Other_MULTIPLE else en_state0 e)
        in (if st = Other_BIDIR then CT_ESTABLISHED else CT_NEW,
            e\<lparr>en_state0 := st, en_expirationNs := addTimeoutNs (pk_tsNs pkt) (timeoutForOtherState st)\<rparr>))"

end
