(* ===== verification/ConntrackTable.thy ===== *)
theory ConntrackTable
  imports ConntrackTypes
begin

text \<open>
  The connection table: shards of hash buckets, sweeping, eviction, epochs and reclamation, and the two
  steps of tracking a packet, \<^verbatim>\<open>inspectForPolicy\<close> before the verdict and \<^verbatim>\<open>commitAccepted\<close> after it.
  Operations are atomic: the search under the shard lock, which repeats the search before it, is the
  same search, and memory for a new entry is always available.
\<close>

section \<open>The state of the table\<close>

record Shared =
  sc_totalEntries :: u32
  sc_nextFlowInstanceId :: u64

record 'ip Shard =
  sh_buckets :: "'ip Entry list list"
  sh_size :: u32
  sh_cursorBucket :: u32
  sh_lastHotSweepTsNs :: u64
  sh_retired :: "'ip Entry list list"

text \<open>Epoch slots: \<open>epo_tls t\<close> is the cached slot of thread \<open>t\<close> (absent, none left, or an index); a slot
  holds 255 when its thread is outside.\<close>

record Epoch =
  epo_slots :: "nat \<Rightarrow> u8"
  epo_used :: u32
  epo_global :: u8
  epo_exhausted :: bool
  epo_reclaiming :: bool
  epo_tls :: "nat \<Rightarrow> nat option option"

record 'ip Impl =
  im_opt :: Options
  im_shards :: "'ip Shard list"
  im_epoch :: Epoch
  im_totalEntries :: u32
  im_creates :: u64
  im_expiredRetires :: u64
  im_overflowDrops :: u64
  im_lastEpochAdvanceTsNs :: u64

text \<open>What an operation of one family reads and writes: the table, the counters shared by the two
  families, and the telemetry session its records go to.\<close>

record 'ip World =
  w_shared :: Shared
  w_impl :: "'ip Impl"
  w_tele :: FlowTelemetry

definition isPow2 :: "u32 \<Rightarrow> bool" where
  "isPow2 v \<longleftrightarrow> v \<noteq> 0 \<and> v AND (v - 1) = 0"

definition clampU32 :: "u32 \<Rightarrow> u32 \<Rightarrow> u32 \<Rightarrow> u32" where
  "clampU32 v lo hi = (if v < lo then lo else if hi < v then hi else v)"

definition normalize_options :: "Options \<Rightarrow> Options" where
  "normalize_options o' = o'\<lparr>
     opt_shards := ucast (clampU32 (ucast (opt_shards o')) 1 4096),
     bucketsPerShard := (if isPow2 (bucketsPerShard o') then bucketsPerShard o' else 4096),
     maxEntries := (if maxEntries o' = 0 then 1 else maxEntries o'),
     sweepMaxBuckets := (if sweepMaxBuckets o' = 0 then 1 else sweepMaxBuckets o'),
     sweepMaxEntries := (if sweepMaxEntries o' = 0 then 1 else sweepMaxEntries o')\<rparr>"

definition new_shard :: "nat \<Rightarrow> 'ip Shard" where
  "new_shard n = \<lparr>sh_buckets = replicate n [], sh_size = 0, sh_cursorBucket = 0, sh_lastHotSweepTsNs = 0,
     sh_retired = [[], [], []]\<rparr>"

definition new_epoch :: Epoch where
  "new_epoch = \<lparr>epo_slots = (\<lambda>_. 0xFF), epo_used = 0, epo_global = 0, epo_exhausted = False, epo_reclaiming = False,
     epo_tls = (\<lambda>_. None)\<rparr>"

definition new_impl :: "Options \<Rightarrow> 'ip Impl" where
  "new_impl opts = (let opt = normalize_options opts in
     \<lparr>im_opt = opt, im_shards = replicate (unat (opt_shards opt)) (new_shard (unat (bucketsPerShard opt))),
      im_epoch = new_epoch, im_totalEntries = 0, im_creates = 0, im_expiredRetires = 0, im_overflowDrops = 0,
      im_lastEpochAdvanceTsNs = 0\<rparr>)"

definition new_shared :: Shared where
  "new_shared = \<lparr>sc_totalEntries = 0, sc_nextFlowInstanceId = 1\<rparr>"

definition bucketMask :: "'ip Impl \<Rightarrow> u32" where
  "bucketMask im = bucketsPerShard (im_opt im) - 1"

definition shardIndex :: "'ip Impl \<Rightarrow> u64 \<Rightarrow> nat" where
  "shardIndex im h = unat h mod length (im_shards im)"

definition bucketIndex :: "'ip Impl \<Rightarrow> u64 \<Rightarrow> nat" where
  "bucketIndex im h = unat (ucast h AND bucketMask im)"

definition shard_at :: "'ip World \<Rightarrow> nat \<Rightarrow> 'ip Shard" where
  "shard_at w i = im_shards (w_impl w) ! i"

definition upd_shard :: "nat \<Rightarrow> ('ip Shard \<Rightarrow> 'ip Shard) \<Rightarrow> 'ip World \<Rightarrow> 'ip World" where
  "upd_shard i f w = w\<lparr>w_impl := (w_impl w)\<lparr>im_shards := (im_shards (w_impl w))[i := f (shard_at w i)]\<rparr>\<rparr>"

definition bucket_at :: "'ip World \<Rightarrow> nat \<Rightarrow> nat \<Rightarrow> 'ip Entry list" where
  "bucket_at w i b = sh_buckets (shard_at w i) ! b"

definition set_bucket :: "nat \<Rightarrow> nat \<Rightarrow> 'ip Entry list \<Rightarrow> 'ip World \<Rightarrow> 'ip World" where
  "set_bucket i b es = upd_shard i (\<lambda>s. s\<lparr>sh_buckets := (sh_buckets s)[b := es]\<rparr>)"

section \<open>Telemetry of an entry that ends\<close>

definition isKnownPacketDirection :: "u8 \<Rightarrow> bool" where
  "isKnownPacketDirection d \<longleftrightarrow> d = PacketDir_In \<or> d = PacketDir_Out"

text \<open>\<^verbatim>\<open>loadTelemetryCounters\<close>: total packets and bytes, incoming and outgoing packets and bytes.\<close>

definition loadTelemetryCounters :: "TelemetryState \<Rightarrow> bool \<Rightarrow> u64 \<times> u64 \<times> u64 \<times> u64 \<times> u64 \<times> u64" where
  "loadTelemetryCounters t derive =
     (if derive then te_inPackets t + te_outPackets t else te_totalPackets t,
      if derive then te_inBytes t + te_outBytes t else te_totalBytes t,
      te_inPackets t, te_inBytes t, te_outPackets t, te_outBytes t)"

definition endReasonForRetire :: "'ip Entry \<Rightarrow> u8 \<Rightarrow> u8" where
  "endReasonForRetire e requested =
     (if requested \<noteq> End_IdleTimeout \<or> k_proto (en_key e) \<noteq> P_TCP then requested
      else if Tcp_CLOSING \<le> en_state0 e \<or> Tcp_CLOSING \<le> en_state1 e then End_TcpEndDetected
      else requested)"

definition end_fields :: "'ip AddrFamily \<Rightarrow> 'ip Entry \<Rightarrow> u64 \<Rightarrow> u8 \<Rightarrow> FlowV1Fields" where
  "end_fields fam e nowNs reason =
     (let t = en_tele e; k = en_key e;
          (tp, tb, ip, ib, op, ob) = loadTelemetryCounters t (isKnownPacketDirection (te_lastPacketDir t))
      in \<lparr>ff_kind = FlowRecordKind_End, ff_observationKind = te_observationKind t, ff_ctState = te_lastCtState t,
          ff_ctDir = te_lastCtDir t, ff_packetDir = te_lastPacketDir t, ff_flowOriginDir = te_flowOriginDir t,
          ff_verdict = te_lastVerdict t, ff_reasonId = te_lastReasonId t, ff_ifaceKindBit = te_lastIfaceKindBit t,
          ff_l4Status = te_lastL4Status t, ff_endReason = reason, ff_proto = k_proto k, ff_isIpv6 = fam_isIpv6 fam,
          ff_pickedUpMidStream = te_pickedUpMidStream t, ff_uidKnown = te_lastUidKnown t,
          ff_ifindexKnown = te_lastIfindexKnown t, ff_portsAvailable = te_lastPortsAvailable t,
          ff_srcPort = ep_port (k_src k), ff_dstPort = ep_port (k_dst k), ff_icmpType = te_lastIcmpType t,
          ff_icmpCode = te_lastIcmpCode t, ff_icmpId = te_lastIcmpId t, ff_timestampNs = nowNs,
          ff_firstSeenNs = te_firstSeenNs t, ff_lastSeenNs = te_lastSeenNs t, ff_flowInstanceId = te_flowInstanceId t,
          ff_recordSeq = te_recordSeq t + 1, ff_uid = k_uid k, ff_userId = te_lastUserId t,
          ff_ifindex = te_lastIfindex t, ff_srcAddr = fam_addrBytes fam (ep_ip (k_src k)),
          ff_dstAddr = fam_addrBytes fam (ep_ip (k_dst k)), ff_totalPackets = tp, ff_totalBytes = tb,
          ff_inPackets = ip, ff_inBytes = ib, ff_outPackets = op, ff_outBytes = ob,
          ff_ruleId = (if te_decisionRuleIdKnown t then Some (te_decisionRuleId t) else None)\<rparr>)"

text \<open>What an exported record leaves behind in the entry.\<close>

definition mark_exported :: "FlowV1Fields \<Rightarrow> TelemetryState \<Rightarrow> TelemetryState" where
  "mark_exported f t = t\<lparr>te_recordSeq := ff_recordSeq f, te_lastExportPackets := ff_totalPackets f,
     te_lastExportBytes := ff_totalBytes f, te_lastExportTsNs := ff_timestampNs f,
     te_lastExportDecisionKey := te_decisionKey t, te_lastExportRuleId := te_decisionRuleId t,
     te_lastExportRuleIdKnown := te_decisionRuleIdKnown t\<rparr>"

definition export_fields :: "FlowV1Fields \<Rightarrow> HotPath \<Rightarrow> 'ip Entry \<Rightarrow> FlowTelemetry \<Rightarrow> bool \<times> 'ip Entry \<times> FlowTelemetry" where
  "export_fields f hot e ft =
     (case encodeFlowV1 f of
        None \<Rightarrow> (False, e, ft)
      | Some payload \<Rightarrow>
          let (ok, ft') = exportRecordHot hot 1 payload ft in
          if ok then (True, e\<lparr>en_tele := mark_exported f (en_tele e)\<rparr>, ft') else (False, e, ft'))"

definition exportTelemetryEndLocked ::
  "'ip AddrFamily \<Rightarrow> 'ip Entry \<Rightarrow> u64 \<Rightarrow> HotPath \<Rightarrow> u8 \<Rightarrow> FlowTelemetry \<Rightarrow> bool \<times> 'ip Entry \<times> FlowTelemetry" where
  "exportTelemetryEndLocked fam e nowNs hot requested ft =
     (if hp_cfg hot = None \<or> hp_sessionId hot = 0 then (False, e, ft)
      else if te_sessionId (en_tele e) \<noteq> hp_sessionId hot then (False, e, ft)
      else if te_flowInstanceId (en_tele e) = 0 \<or> te_lastExportTsNs (en_tele e) = 0 then (False, e, ft)
      else export_fields (end_fields fam e nowNs (endReasonForRetire e requested)) hot e ft)"

section \<open>Removing entries\<close>

definition retireUnlinkedLocked :: "nat \<Rightarrow> 'ip Entry \<Rightarrow> u8 \<Rightarrow> 'ip World \<Rightarrow> 'ip World" where
  "retireUnlinkedLocked i e retireEpoch w =
     (let w1 = upd_shard i (\<lambda>s. s\<lparr>sh_retired := (sh_retired s)[unat retireEpoch := e # sh_retired s ! unat retireEpoch],
                 sh_size := sh_size s - 1\<rparr>) w
      in w1\<lparr>w_impl := (w_impl w1)\<lparr>im_totalEntries := im_totalEntries (w_impl w1) - 1\<rparr>,
            w_shared := (w_shared w1)\<lparr>sc_totalEntries := sc_totalEntries (w_shared w1) - 1\<rparr>\<rparr>)"

text \<open>The cursor of a shard: the bucket to scan, and the world after the cursor moved on.\<close>

definition next_bucket :: "nat \<Rightarrow> 'ip World \<Rightarrow> nat \<times> 'ip World" where
  "next_bucket i w =
     (let mask = bucketMask (w_impl w); c = sh_cursorBucket (shard_at w i)
      in (unat (c AND mask), upd_shard i (\<lambda>s. s\<lparr>sh_cursorBucket := (c + 1) AND mask\<rparr>) w))"

text \<open>The loops count what is left of their budgets: \<open>ne\<close> entries to scan, \<open>rm\<close> entries to remove,
  \<open>nb\<close> buckets to scan. \<open>pre\<close> holds the entries passed, last first.\<close>

definition can_evict :: "HotPath \<Rightarrow> 'ip Entry \<Rightarrow> bool" where
  "can_evict hot e \<longleftrightarrow> te_sessionId (en_tele e) = hp_sessionId hot \<and> te_lastExportTsNs (en_tele e) \<noteq> 0"

fun evict_scan :: "HotPath \<Rightarrow> 'ip Entry list \<Rightarrow> 'ip Entry list \<Rightarrow> nat \<Rightarrow> ('ip Entry \<times> 'ip Entry list) option \<times> nat" where
  "evict_scan hot pre [] ne = (None, ne)"
| "evict_scan hot pre (e # es) ne =
     (if ne = 0 then (None, 0)
      else if can_evict hot e then (Some (e, rev pre @ es), ne - 1)
      else evict_scan hot (e # pre) es (ne - 1))"

fun evict_loop :: "'ip AddrFamily \<Rightarrow> nat \<Rightarrow> u64 \<Rightarrow> u8 \<Rightarrow> HotPath \<Rightarrow> nat \<Rightarrow> nat \<Rightarrow> 'ip World \<Rightarrow> bool \<times> 'ip World" where
  "evict_loop fam i nowNs retireEpoch hot 0 ne w = (False, w)"
| "evict_loop fam i nowNs retireEpoch hot (Suc nb) ne w =
     (if ne = 0 then (False, w)
      else let (bi, w1) = next_bucket i w in
        case evict_scan hot [] (bucket_at w1 i bi) ne of
          (Some (e, rest), _) \<Rightarrow>
            let w2 = set_bucket i bi rest w1;
                (_, e', ft) = exportTelemetryEndLocked fam e nowNs hot End_ResourceEvicted (w_tele w2)
            in (True, retireUnlinkedLocked i e' retireEpoch (w2\<lparr>w_tele := ft\<rparr>))
        | (None, ne') \<Rightarrow> evict_loop fam i nowNs retireEpoch hot nb ne' w1)"

definition evictOneLocked :: "'ip AddrFamily \<Rightarrow> nat \<Rightarrow> u64 \<Rightarrow> u8 \<Rightarrow> HotPath \<Rightarrow> 'ip World \<Rightarrow> bool \<times> 'ip World" where
  "evictOneLocked fam i nowNs retireEpoch hot w =
     (let opt = im_opt (w_impl w) in
      evict_loop fam i nowNs retireEpoch hot (unat (sweepMaxBuckets opt)) (unat (sweepMaxEntries opt)) w)"

definition sweep_retire :: "'ip AddrFamily \<Rightarrow> nat \<Rightarrow> u64 \<Rightarrow> u8 \<Rightarrow> HotPath \<Rightarrow> 'ip Entry \<Rightarrow> 'ip World \<Rightarrow> 'ip World" where
  "sweep_retire fam i nowNs retireEpoch hot e w =
     (let t = en_tele e;
          (e', ft) = (if hp_cfg hot \<noteq> None \<and> te_flowInstanceId t \<noteq> 0 \<and> te_lastExportTsNs t \<noteq> 0 \<and>
                         te_sessionId t = hp_sessionId hot
                      then snd (export_fields (end_fields fam e nowNs (endReasonForRetire e End_IdleTimeout)) hot e (w_tele w))
                      else (e, w_tele w));
          w1 = retireUnlinkedLocked i e' retireEpoch (w\<lparr>w_tele := ft\<rparr>)
      in w1\<lparr>w_impl := (w_impl w1)\<lparr>im_expiredRetires := im_expiredRetires (w_impl w1) + 1\<rparr>\<rparr>)"

fun sweep_bucket ::
  "'ip AddrFamily \<Rightarrow> nat \<Rightarrow> u64 \<Rightarrow> u8 \<Rightarrow> HotPath \<Rightarrow> 'ip Entry list \<Rightarrow> 'ip Entry list \<Rightarrow> nat \<Rightarrow> nat \<Rightarrow> 'ip World \<Rightarrow>
     'ip Entry list \<times> nat \<times> nat \<times> 'ip World" where
  "sweep_bucket fam i nowNs retireEpoch hot pre [] ne rm w = (rev pre, ne, rm, w)"
| "sweep_bucket fam i nowNs retireEpoch hot pre (e # es) ne rm w =
     (if rm = 0 \<or> ne = 0 then (rev pre @ e # es, ne, rm, w)
      else if entry_expired e nowNs
      then sweep_bucket fam i nowNs retireEpoch hot pre es (ne - 1) (rm - 1)
             (sweep_retire fam i nowNs retireEpoch hot e w)
      else sweep_bucket fam i nowNs retireEpoch hot (e # pre) es (ne - 1) rm w)"

fun sweep_loop ::
  "'ip AddrFamily \<Rightarrow> nat \<Rightarrow> u64 \<Rightarrow> u8 \<Rightarrow> HotPath \<Rightarrow> nat \<Rightarrow> nat \<Rightarrow> nat \<Rightarrow> 'ip World \<Rightarrow> nat \<times> 'ip World" where
  "sweep_loop fam i nowNs retireEpoch hot 0 ne rm w = (rm, w)"
| "sweep_loop fam i nowNs retireEpoch hot (Suc nb) ne rm w =
     (if rm = 0 then (rm, w)
      else let (bi, w1) = next_bucket i w;
               (es, ne', rm', w2) = sweep_bucket fam i nowNs retireEpoch hot [] (bucket_at w1 i bi) ne rm w1
           in sweep_loop fam i nowNs retireEpoch hot nb ne' rm' (set_bucket i bi es w2))"

text \<open>\<^verbatim>\<open>sweepLocked\<close>: the number of removed entries and the state after.\<close>

definition sweepLocked :: "'ip AddrFamily \<Rightarrow> nat \<Rightarrow> u64 \<Rightarrow> u8 \<Rightarrow> 'ip World \<Rightarrow> nat \<times> 'ip World" where
  "sweepLocked fam i nowNs retireEpoch w =
     (let opt = im_opt (w_impl w); ne = unat (sweepMaxEntries opt);
          (rm, w') = sweep_loop fam i nowNs retireEpoch (hotPathFlow (w_tele w)) (unat (sweepMaxBuckets opt)) ne ne w
      in (ne - rm, w'))"

section \<open>Epochs and reclamation\<close>

abbreviation (input) "kQuiescent \<equiv> (0xFF :: u8)"

definition slotForThread :: "nat \<Rightarrow> Epoch \<Rightarrow> nat option \<times> Epoch" where
  "slotForThread t ep =
     (case epo_tls ep t of
        Some s \<Rightarrow> (s, ep)
      | None \<Rightarrow>
          let idx = epo_used ep; ep1 = ep\<lparr>epo_used := idx + 1\<rparr> in
          if 1024 \<le> idx then (None, ep1\<lparr>epo_exhausted := True, epo_tls := (epo_tls ep1)(t := Some None)\<rparr>)
          else (Some (unat idx), ep1\<lparr>epo_tls := (epo_tls ep1)(t := Some (Some (unat idx)))\<rparr>))"

text \<open>Between the operations of the model no thread is reclaiming, so that \<^verbatim>\<open>enter\<close> leaves its loop in the
  first round.\<close>

definition epoch_enter :: "nat option \<Rightarrow> Epoch \<Rightarrow> Epoch" where
  "epoch_enter s ep = (case s of None \<Rightarrow> ep | Some i \<Rightarrow> ep\<lparr>epo_slots := (epo_slots ep)(i := epo_global ep)\<rparr>)"

definition epoch_exit :: "nat option \<Rightarrow> Epoch \<Rightarrow> Epoch" where
  "epoch_exit s ep = (case s of None \<Rightarrow> ep | Some i \<Rightarrow> ep\<lparr>epo_slots := (epo_slots ep)(i := kQuiescent)\<rparr>)"

definition beginAdvanceForReclaim :: "Epoch \<Rightarrow> u8 option \<times> Epoch" where
  "beginAdvanceForReclaim ep =
     (if epo_exhausted ep then (None, ep)
      else if epo_reclaiming ep then (None, ep)
      else if \<not> list_all (\<lambda>i. epo_slots ep i = kQuiescent) [0..<min (unat (epo_used ep)) 1024] then (None, ep)
      else let nx = (epo_global ep + 1) mod 3
           in (Some ((nx + 1) mod 3), ep\<lparr>epo_reclaiming := True, epo_global := nx\<rparr>))"

definition endReclaim :: "Epoch \<Rightarrow> Epoch" where
  "endReclaim ep = ep\<lparr>epo_reclaiming := False\<rparr>"

definition reclaimEpochAllShards :: "u8 \<Rightarrow> 'ip Impl \<Rightarrow> 'ip Impl" where
  "reclaimEpochAllShards r im =
     im\<lparr>im_shards := map (\<lambda>s. s\<lparr>sh_retired := (sh_retired s)[unat r := []]\<rparr>) (im_shards im)\<rparr>"

text \<open>The interval test that guards sweeping and reclaiming.\<close>

definition too_soon :: "u64 \<Rightarrow> u64 \<Rightarrow> u64 \<Rightarrow> bool" where
  "too_soon interval nowNs lastNs \<longleftrightarrow> lastNs < nowNs \<and> nowNs - lastNs < interval"

definition maybeAdvanceAndReclaim :: "u64 \<Rightarrow> 'ip World \<Rightarrow> 'ip World" where
  "maybeAdvanceAndReclaim nowNs w =
     (let im = w_impl w; minIntervalNs = ucast (sweepMinIntervalMs (im_opt im)) * 1000000 in
      if minIntervalNs \<noteq> 0 \<and> too_soon minIntervalNs nowNs (im_lastEpochAdvanceTsNs im) then w
      else case beginAdvanceForReclaim (im_epoch im) of
             (None, ep) \<Rightarrow> w\<lparr>w_impl := im\<lparr>im_epoch := ep\<rparr>\<rparr>
           | (Some r, ep) \<Rightarrow>
               w\<lparr>w_impl := reclaimEpochAllShards r (im\<lparr>im_lastEpochAdvanceTsNs := nowNs, im_epoch := endReclaim ep\<rparr>)\<rparr>)"

definition maybeHotSweep :: "'ip AddrFamily \<Rightarrow> nat \<Rightarrow> u64 \<Rightarrow> 'ip World \<Rightarrow> 'ip World" where
  "maybeHotSweep fam i nowNs w =
     (let intervalNs = ucast (sweepMinIntervalMs (im_opt (w_impl w))) * 1000000 in
      if intervalNs = 0 then w
      else if too_soon intervalNs nowNs (sh_lastHotSweepTsNs (shard_at w i)) then w
      else
        let w1 = upd_shard i (\<lambda>s. s\<lparr>sh_lastHotSweepTsNs := nowNs\<rparr>) w;
            (removed, w2) = sweepLocked fam i nowNs (epo_global (im_epoch (w_impl w1))) w1
        in if removed \<noteq> 0 then maybeAdvanceAndReclaim nowNs w2 else w2)"

definition with_epoch :: "(Epoch \<Rightarrow> Epoch) \<Rightarrow> 'ip World \<Rightarrow> 'ip World" where
  "with_epoch f w = w\<lparr>w_impl := (w_impl w)\<lparr>im_epoch := f (im_epoch (w_impl w))\<rparr>\<rparr>"

section \<open>Looking up a connection\<close>

fun find_index :: "('a \<Rightarrow> bool) \<Rightarrow> 'a list \<Rightarrow> nat option" where
  "find_index P [] = None"
| "find_index P (x # xs) = (if P x then Some 0 else map_option Suc (find_index P xs))"

text \<open>The traversal of a bucket stops at the first entry of the connection, in either direction; an
  expired one is a miss.\<close>

definition entry_matches :: "'ip Key \<Rightarrow> 'ip Entry \<Rightarrow> bool" where
  "entry_matches key e \<longleftrightarrow> keyEq (en_key e) key \<or> keyEq (en_revKey e) key"

definition live_entry :: "'ip Key \<Rightarrow> u64 \<Rightarrow> 'ip Entry list \<Rightarrow> nat option" where
  "live_entry key nowNs es =
     (case find_index (entry_matches key) es of
        None \<Rightarrow> None
      | Some j \<Rightarrow> if entry_expired (es ! j) nowNs then None else Some j)"

definition set_entry :: "nat \<Rightarrow> nat \<Rightarrow> nat \<Rightarrow> 'ip Entry \<Rightarrow> 'ip World \<Rightarrow> 'ip World" where
  "set_entry i b j e w = set_bucket i b ((bucket_at w i b)[j := e]) w"

abbreviation (input) "ct_invalid \<equiv> \<lparr>r_state = CT_INVALID, r_direction = DIR_ANY\<rparr>"

definition count_overflow :: "'ip World \<Rightarrow> 'ip World" where
  "count_overflow w = w\<lparr>w_impl := (w_impl w)\<lparr>im_overflowDrops := im_overflowDrops (w_impl w) + 1\<rparr>\<rparr>"

text \<open>The part of \<^verbatim>\<open>inspectForPolicy\<close> after a miss.\<close>

definition inspect_miss :: "'ip AddrFamily \<Rightarrow> 'ip CtPacket \<Rightarrow> nat \<Rightarrow> 'ip World \<Rightarrow> PolicyView \<times> 'ip World" where
  "inspect_miss fam pkt i w =
     (let (swept, w1) = sweepLocked fam i (pk_tsNs pkt) (epo_global (im_epoch (w_impl w))) w in
      if maxEntries (im_opt (w_impl w1)) \<le> sc_totalEntries (w_shared w1) then
        (\<lparr>v_result = ct_invalid, v_createOnAccept = False\<rparr>, count_overflow w1)
      else if pk_proto pkt = P_TCP \<and> \<not> tcpValidNew pkt then
        (\<lparr>v_result = ct_invalid, v_createOnAccept = False\<rparr>, w1)
      else if pk_proto pkt = fam_icmpProto fam \<and> \<not> icmpValidNew fam pkt then
        (\<lparr>v_result = ct_invalid, v_createOnAccept = False\<rparr>, w1)
      else
        (\<lparr>v_result = \<lparr>r_state = CT_NEW, r_direction = DIR_ORIG\<rparr>, v_createOnAccept = True\<rparr>,
         if swept \<noteq> 0 then maybeAdvanceAndReclaim (pk_tsNs pkt) w1 else w1))"

definition inspect_key :: "'ip AddrFamily \<Rightarrow> 'ip CtPacket \<Rightarrow> 'ip Key \<Rightarrow> nat \<Rightarrow> nat \<Rightarrow> 'ip World \<Rightarrow> PolicyView \<times> 'ip World" where
  "inspect_key fam pkt key i b w =
     (case live_entry key (pk_tsNs pkt) (bucket_at w i b) of
        Some j \<Rightarrow>
          let e = bucket_at w i b ! j;
              isReply = keyEq (en_revKey e) key;
              (st, e') = updateExisting fam pkt e isReply
          in (\<lparr>v_result = (if st = CT_INVALID then ct_invalid
                           else \<lparr>r_state = st, r_direction = (if isReply then DIR_REPLY else DIR_ORIG)\<rparr>),
               v_createOnAccept = False\<rparr>, set_entry i b j e' w)
      | None \<Rightarrow> inspect_miss fam pkt i w)"

definition inspectForPolicy :: "'ip AddrFamily \<Rightarrow> nat \<Rightarrow> 'ip CtPacket \<Rightarrow> 'ip World \<Rightarrow> PolicyView \<times> 'ip World" where
  "inspectForPolicy fam t pkt w =
     (if pk_isFragment pkt then (\<lparr>v_result = ct_invalid, v_createOnAccept = False\<rparr>, w)
      else case makeKey fam pkt of
        None \<Rightarrow> (\<lparr>v_result = ct_invalid, v_createOnAccept = False\<rparr>, w)
      | Some key \<Rightarrow>
          let h = hashKey fam key;
              i = shardIndex (w_impl w) h; b = bucketIndex (w_impl w) h;
              (s, ep) = slotForThread t (im_epoch (w_impl w));
              w1 = with_epoch (\<lambda>_. epoch_enter s ep) w;
              w2 = maybeHotSweep fam i (pk_tsNs pkt) w1;
              (view, w3) = inspect_key fam pkt key i b w2
          in (view, with_epoch (epoch_exit s) w3))"

section \<open>Creating a connection\<close>

definition new_entry :: "'ip AddrFamily \<Rightarrow> 'ip CtPacket \<Rightarrow> 'ip Key \<Rightarrow> u64 \<Rightarrow> 'ip Entry" where
  "new_entry fam pkt key flowId =
     \<lparr>en_key = key, en_revKey = reverseKey key,
      en_expirationNs = addTimeoutNs (pk_tsNs pkt)
        (if pk_proto pkt = P_TCP then tp_tcpSynSent else if pk_proto pkt = fam_icmpProto fam then tp_icmpFirst else tp_udpFirst),
      en_tele = tele_zero\<lparr>te_flowInstanceId := flowId, te_firstSeenNs := pk_tsNs pkt, te_lastSeenNs := pk_tsNs pkt\<rparr>,
      en_state0 = (if pk_proto pkt = P_TCP then Tcp_SYN_SENT else 0), en_state1 = 0\<rparr>"

text \<open>Linking a new entry at the head of its bucket, with the counters.\<close>

definition link_entry :: "nat \<Rightarrow> nat \<Rightarrow> 'ip Entry \<Rightarrow> 'ip World \<Rightarrow> 'ip World" where
  "link_entry i b e w =
     (let w1 = upd_shard i (\<lambda>s. s\<lparr>sh_buckets := (sh_buckets s)[b := e # sh_buckets s ! b], sh_size := sh_size s + 1\<rparr>) w
      in w1\<lparr>w_impl := (w_impl w1)\<lparr>im_totalEntries := im_totalEntries (w_impl w1) + 1, im_creates := im_creates (w_impl w1) + 1\<rparr>\<rparr>)"

definition take_flow_id :: "'ip World \<Rightarrow> u64 \<times> 'ip World" where
  "take_flow_id w = (sc_nextFlowInstanceId (w_shared w),
     w\<lparr>w_shared := (w_shared w)\<lparr>sc_nextFlowInstanceId := sc_nextFlowInstanceId (w_shared w) + 1\<rparr>\<rparr>)"

definition add_total :: "'ip World \<Rightarrow> 'ip World" where
  "add_total w = w\<lparr>w_shared := (w_shared w)\<lparr>sc_totalEntries := sc_totalEntries (w_shared w) + 1\<rparr>\<rparr>"

definition commit_key :: "'ip AddrFamily \<Rightarrow> 'ip CtPacket \<Rightarrow> 'ip Key \<Rightarrow> nat \<Rightarrow> nat \<Rightarrow> 'ip World \<Rightarrow> 'ip World" where
  "commit_key fam pkt key i b w =
     (if live_entry key (pk_tsNs pkt) (bucket_at w i b) \<noteq> None then w
      else
        let (swept, w1) = sweepLocked fam i (pk_tsNs pkt) (epo_global (im_epoch (w_impl w))) w in
        if pk_proto pkt = P_TCP \<and> \<not> tcpValidNew pkt then w1
        else if pk_proto pkt = fam_icmpProto fam \<and> \<not> icmpValidNew fam pkt then w1
        else if maxEntries (im_opt (w_impl w1)) \<le> sc_totalEntries (w_shared w1) then count_overflow w1
        else
          let (flowId, w2) = take_flow_id (add_total w1);
              w3 = link_entry i b (new_entry fam pkt key flowId) w2
          in if swept \<noteq> 0 then maybeAdvanceAndReclaim (pk_tsNs pkt) w3 else w3)"

definition commitAccepted :: "'ip AddrFamily \<Rightarrow> 'ip CtPacket \<Rightarrow> PolicyView \<Rightarrow> 'ip World \<Rightarrow> 'ip World" where
  "commitAccepted fam pkt view w =
     (if \<not> v_createOnAccept view \<or> r_state (v_result view) \<noteq> CT_NEW \<or> r_direction (v_result view) \<noteq> DIR_ORIG then w
      else case makeKey fam pkt of
        None \<Rightarrow> w
      | Some key \<Rightarrow>
          let h = hashKey fam key
          in commit_key fam pkt key (shardIndex (w_impl w) h) (bucketIndex (w_impl w) h) w)"

definition ct_update :: "'ip AddrFamily \<Rightarrow> nat \<Rightarrow> 'ip CtPacket \<Rightarrow> 'ip World \<Rightarrow> CtResult \<times> 'ip World" where
  "ct_update fam t pkt w =
     (let (view, w1) = inspectForPolicy fam t pkt w in (v_result view, commitAccepted fam pkt view w1))"

end
