(* ===== verification/ConntrackTelemetry.thy ===== *)
theory ConntrackTelemetry
  imports ConntrackTable
begin

text \<open>
  Flow telemetry of the connection table (\<^verbatim>\<open>observeFlowTelemetry\<close>, the end of a session), and the tracker of
  both families (\<^verbatim>\<open>class Conntrack\<close>).
\<close>

section \<open>Facts about a packet\<close>

datatype PacketReasonId = IFACE_BLOCK | IP_LEAK_BLOCK | ALLOW_DEFAULT | IP_RULE_ALLOW | IP_RULE_BLOCK

fun reason_u8 :: "PacketReasonId \<Rightarrow> u8" where
  "reason_u8 IFACE_BLOCK = 0"
| "reason_u8 IP_LEAK_BLOCK = 1"
| "reason_u8 ALLOW_DEFAULT = 2"
| "reason_u8 IP_RULE_ALLOW = 3"
| "reason_u8 IP_RULE_BLOCK = 4"

fun isBlockReason :: "PacketReasonId \<Rightarrow> bool" where
  "isBlockReason IFACE_BLOCK = True"
| "isBlockReason IP_LEAK_BLOCK = True"
| "isBlockReason IP_RULE_BLOCK = True"
| "isBlockReason ALLOW_DEFAULT = False"
| "isBlockReason IP_RULE_ALLOW = False"

record TelemetryPacketFacts =
  tf_packetDir :: u8
  tf_verdict :: u8
  tf_ifaceKindBit :: u8
  tf_l4Status :: u8
  tf_icmpType :: u8
  tf_icmpCode :: u8
  tf_icmpId :: u16
  tf_uidKnown :: bool
  tf_ifindexKnown :: bool
  tf_portsAvailable :: bool
  tf_userId :: u32
  tf_ifindex :: u32
  tf_reasonId :: PacketReasonId
  tf_ruleId :: "u32 option"
  tf_srcAddrNet :: "u8 list"
  tf_dstAddrNet :: "u8 list"
  tf_packetBytes :: u32

text \<open>\<^verbatim>\<open>L4Status::FRAGMENT\<close> is 2 and \<^verbatim>\<open>L4Status::INVALID_OR_UNAVAILABLE_L4\<close> is 3.\<close>

definition isL3ObservationStatus :: "u8 \<Rightarrow> bool" where
  "isL3ObservationStatus s \<longleftrightarrow> s = 2 \<or> s = 3"

definition isPickedUpMidStream :: "CtResult \<Rightarrow> bool" where
  "isPickedUpMidStream r \<longleftrightarrow> r_state r = CT_ESTABLISHED \<or> r_direction r = DIR_REPLY"

definition isLooseTcpPickup :: "'ip CtPacket \<Rightarrow> bool" where
  "isLooseTcpPickup pkt \<longleftrightarrow> pk_proto pkt = P_TCP \<and> pk_hasTcp pkt \<and> tcp_flags (pk_tcp pkt) AND TH_SYN = 0"

definition packDecisionKey :: "u8 \<Rightarrow> u8 \<Rightarrow> u8 \<Rightarrow> PacketReasonId \<Rightarrow> u8 \<Rightarrow> u32 option \<Rightarrow> u64" where
  "packDecisionKey ctState ctDir verdict reason ifaceKindBit ruleId =
     (let rid = (case ruleId of None \<Rightarrow> 0 | Some r \<Rightarrow> r) in
      ucast ctState OR push_bit 8 (ucast ctDir) OR push_bit 16 (ucast verdict) OR
      push_bit 24 (ucast (reason_u8 reason)) OR push_bit 32 (ucast ifaceKindBit) OR
      push_bit 40 (ucast (rid AND 0xFFFFFF)))"

definition clampCap :: "u64 \<Rightarrow> u64 \<Rightarrow> u64" where
  "clampCap a b = (if a = 0 then b else if b = 0 then a else if a < b then a else b)"

definition deltaAtLeast :: "u64 \<Rightarrow> u64 \<Rightarrow> u64 \<Rightarrow> bool" where
  "deltaAtLeast cur lastv threshold \<longleftrightarrow> threshold \<noteq> 0 \<and> lastv \<le> cur \<and> threshold \<le> cur - lastv"

section \<open>Telemetry sessions of an entry\<close>

definition resetTelemetryForSessionLocked ::
  "TelemetryState \<Rightarrow> u64 \<Rightarrow> HotPath \<Rightarrow> u64 \<Rightarrow> u8 \<Rightarrow> u8 \<Rightarrow> bool \<Rightarrow> bool \<Rightarrow> TelemetryState" where
  "resetTelemetryForSessionLocked t flowId hot pktTsNs packetDir observationKind inheritFirstSeen pickedUp =
     (let first0 = (if inheritFirstSeen then te_firstSeenNs t else 0);
          firstSeenNs = (if first0 = 0 then pktTsNs else first0)
      in tele_zero\<lparr>te_flowInstanceId := flowId, te_firstSeenNs := firstSeenNs, te_lastSeenNs := firstSeenNs,
           te_observationKind := observationKind, te_flowOriginDir := packetDir, te_pickedUpMidStream := pickedUp,
           te_sessionId := hp_sessionId hot\<rparr>)"

definition ensureTelemetrySession ::
  "HotPath \<Rightarrow> u64 \<Rightarrow> u8 \<Rightarrow> u8 \<Rightarrow> bool \<Rightarrow> CtResult \<Rightarrow> TelemetryState \<Rightarrow> 'ip World \<Rightarrow> TelemetryState \<times> 'ip World" where
  "ensureTelemetrySession hot pktTsNs packetDir observationKind l3Observation ctResult t w =
     (if te_sessionId t = hp_sessionId hot then (t, w)
      else
        let inheritFirstSeen = (te_sessionId t = 0);
            priorFirstSeen = te_firstSeenNs t;
            pickedUp = (\<not> l3Observation \<and>
              (isPickedUpMidStream ctResult \<or> (inheritFirstSeen \<and> priorFirstSeen \<noteq> 0 \<and> priorFirstSeen \<noteq> pktTsNs)));
            (flowId, w1) = take_flow_id w
        in (resetTelemetryForSessionLocked t flowId hot pktTsNs packetDir observationKind inheritFirstSeen pickedUp, w1))"

section \<open>Observing a packet\<close>

definition tele_new_entry ::
  "'ip AddrFamily \<Rightarrow> TeleConfig \<Rightarrow> u64 \<Rightarrow> 'ip CtPacket \<Rightarrow> 'ip Key \<Rightarrow> CtResult \<Rightarrow> TelemetryPacketFacts \<Rightarrow> bool \<Rightarrow> u64 \<Rightarrow> 'ip Entry" where
  "tele_new_entry fam cfg sessionId pkt key ctResult facts l3 flowId =
     (let pickedUp = (\<not> l3 \<and> (isLooseTcpPickup pkt \<or> isPickedUpMidStream ctResult)) in
      \<lparr>en_key = key, en_revKey = reverseKey key,
       en_expirationNs =
         (if l3 then addTimeoutMs (pk_tsNs pkt) (invalidTtlMs cfg)
          else if pk_proto pkt = P_TCP then
            (if pickedUp then addTimeoutMs (pk_tsNs pkt) (pickupTtlMs cfg) else addTimeoutNs (pk_tsNs pkt) tp_tcpSynSent)
          else if pk_proto pkt = fam_icmpProto fam then addTimeoutNs (pk_tsNs pkt) tp_icmpFirst
          else addTimeoutNs (pk_tsNs pkt) tp_udpFirst),
       en_tele = tele_zero\<lparr>te_flowInstanceId := flowId, te_sessionId := sessionId, te_firstSeenNs := pk_tsNs pkt,
         te_lastSeenNs := pk_tsNs pkt, te_flowOriginDir := tf_packetDir facts,
         te_observationKind := (if l3 then Observation_L3 else Observation_Normal),
         te_pickedUpMidStream := pickedUp\<rparr>,
       en_state0 = (if \<not> l3 \<and> pk_proto pkt = P_TCP then Tcp_SYN_SENT else 0), en_state1 = 0\<rparr>)"

definition resource_drop :: "'ip World \<Rightarrow> 'ip World" where
  "resource_drop w = w\<lparr>w_tele := accountResourcePressureDrop (w_tele w)\<rparr>"

text \<open>The miss branch: \<open>Some retired\<close> when an entry was created, at the head of its bucket, with whether
  any entry was retired on the way; \<open>None\<close> when the observation ends here.\<close>

definition observe_create ::
  "'ip AddrFamily \<Rightarrow> HotPath \<Rightarrow> TeleConfig \<Rightarrow> 'ip CtPacket \<Rightarrow> 'ip Key \<Rightarrow> nat \<Rightarrow> nat \<Rightarrow> CtResult \<Rightarrow>
     TelemetryPacketFacts \<Rightarrow> bool \<Rightarrow> 'ip World \<Rightarrow> bool option \<times> 'ip World" where
  "observe_create fam hot cfg pkt key i b ctResult facts l3 w =
     (let retireEpoch = epo_global (im_epoch (w_impl w));
          (swept, w1) = sweepLocked fam i (pk_tsNs pkt) retireEpoch w;
          cap = clampCap (ucast (maxEntries (im_opt (w_impl w1)))) (ucast (maxFlowEntries cfg));
          over = (cap \<noteq> 0 \<and> cap \<le> ucast (sc_totalEntries (w_shared w1)));
          (evicted, w2) = (if over then evictOneLocked fam i (pk_tsNs pkt) retireEpoch hot (count_overflow w1) else (False, w1))
      in if over \<and> \<not> evicted then (None, resource_drop w2)
         else if \<not> l3 \<and> pk_proto pkt = P_TCP \<and> \<not> tcpValidNew pkt then (None, w2)
         else if \<not> l3 \<and> pk_proto pkt = fam_icmpProto fam \<and> \<not> icmpValidNew fam pkt then (None, w2)
         else if cap \<noteq> 0 \<and> cap \<le> ucast (sc_totalEntries (w_shared w2)) then (None, resource_drop (count_overflow w2))
         else
           let (flowId, w3) = take_flow_id (add_total w2)
           in (Some (swept \<noteq> 0 \<or> evicted),
               link_entry i b (tele_new_entry fam cfg (hp_sessionId hot) pkt key ctResult facts l3 flowId) w3))"

text \<open>The updates of an observed entry: first seen time (returned), counters, last facts and decision.\<close>

definition tele_touch :: "'ip CtPacket \<Rightarrow> CtResult \<Rightarrow> TelemetryPacketFacts \<Rightarrow> bool \<Rightarrow> TelemetryState \<Rightarrow> u64 \<times> TelemetryState" where
  "tele_touch pkt ctResult facts l3 t =
     (let firstSeenNs = (if te_firstSeenNs t = 0 then pk_tsNs pkt else te_firstSeenNs t);
          picked = (if te_firstSeenNs t \<noteq> 0 \<and> te_firstSeenNs t \<noteq> pk_tsNs pkt \<and> te_lastExportTsNs t = 0 \<and> \<not> l3
                    then True else te_pickedUpMidStream t);
          inc = tf_packetDir facts = PacketDir_In; outg = tf_packetDir facts = PacketDir_Out;
          bytes = ucast (tf_packetBytes facts)
      in (firstSeenNs,
          t\<lparr>te_firstSeenNs := firstSeenNs, te_pickedUpMidStream := picked,
            te_flowOriginDir := (if tf_packetDir facts \<noteq> PacketDir_Unknown \<and> te_flowOriginDir t = PacketDir_Unknown
                                 then tf_packetDir facts else te_flowOriginDir t),
            te_totalPackets := te_totalPackets t + 1, te_totalBytes := te_totalBytes t + bytes,
            te_inPackets := (if inc then te_inPackets t + 1 else te_inPackets t),
            te_inBytes := (if inc then te_inBytes t + bytes else te_inBytes t),
            te_outPackets := (if outg then te_outPackets t + 1 else te_outPackets t),
            te_outBytes := (if outg then te_outBytes t + bytes else te_outBytes t),
            te_lastSeenNs := (if te_lastSeenNs t < pk_tsNs pkt then pk_tsNs pkt else te_lastSeenNs t),
            te_lastUserId := tf_userId facts, te_lastIfindex := tf_ifindex facts,
            te_lastPacketDir := tf_packetDir facts, te_lastVerdict := tf_verdict facts,
            te_lastCtState := connState_u8 (r_state ctResult), te_lastCtDir := connDir_u8 (r_direction ctResult),
            te_lastReasonId := reason_u8 (tf_reasonId facts), te_lastIfaceKindBit := tf_ifaceKindBit facts,
            te_lastL4Status := tf_l4Status facts, te_lastUidKnown := tf_uidKnown facts,
            te_lastIfindexKnown := tf_ifindexKnown facts, te_lastPortsAvailable := tf_portsAvailable facts,
            te_lastIcmpType := tf_icmpType facts, te_lastIcmpCode := tf_icmpCode facts,
            te_lastIcmpId := tf_icmpId facts,
            te_decisionKey := packDecisionKey (connState_u8 (r_state ctResult)) (connDir_u8 (r_direction ctResult))
              (tf_verdict facts) (tf_reasonId facts) (tf_ifaceKindBit facts) (tf_ruleId facts),
            te_decisionRuleId := (case tf_ruleId facts of None \<Rightarrow> 0 | Some r \<Rightarrow> r),
            te_decisionRuleIdKnown := (tf_ruleId facts \<noteq> None)\<rparr>))"

text \<open>The expiration of an observed entry. The sum for blocked packets is not saturating.\<close>

definition observe_expiration :: "TeleConfig \<Rightarrow> u64 \<Rightarrow> PacketReasonId \<Rightarrow> bool \<Rightarrow> u64 \<Rightarrow> u64" where
  "observe_expiration cfg tsNs reason l3 cur =
     (if l3 then addTimeoutMs tsNs (invalidTtlMs cfg)
      else if isBlockReason reason then
        let blockExp = tsNs + ucast (blockTtlMs cfg) * 1000000 in
        if cur = 0 \<or> blockExp < cur then blockExp else cur
      else cur)"

definition export_due :: "TeleConfig \<Rightarrow> TelemetryState \<Rightarrow> u64 \<Rightarrow> u64 \<Rightarrow> u64 \<Rightarrow> bool" where
  "export_due cfg t packets bytes tsNs \<longleftrightarrow>
     ((te_decisionKey t \<noteq> te_lastExportDecisionKey t \<or> te_decisionRuleId t \<noteq> te_lastExportRuleId t \<or>
       te_decisionRuleIdKnown t \<noteq> te_lastExportRuleIdKnown t) \<and> te_lastExportTsNs t \<noteq> 0) \<or>
     deltaAtLeast packets (te_lastExportPackets t) (packetsThreshold cfg) \<or>
     deltaAtLeast bytes (te_lastExportBytes t) (bytesThreshold cfg) \<or>
     te_lastExportTsNs t = 0 \<or>
     (maxExportIntervalMs cfg \<noteq> 0 \<and> te_lastExportTsNs t < tsNs \<and>
      ucast (maxExportIntervalMs cfg) * 1000000 \<le> tsNs - te_lastExportTsNs t)"

definition flow_fields :: "'ip AddrFamily \<Rightarrow> 'ip CtPacket \<Rightarrow> CtResult \<Rightarrow> TelemetryPacketFacts \<Rightarrow> u64 \<Rightarrow> TelemetryState \<Rightarrow> FlowV1Fields" where
  "flow_fields fam pkt ctResult facts firstSeenNs t =
     (let (tp, tb, ip, ib, op, ob) = loadTelemetryCounters t True;
          exportTsNs = (if te_lastSeenNs t \<noteq> 0 then te_lastSeenNs t else pk_tsNs pkt)
      in \<lparr>ff_kind = (if te_lastExportTsNs t = 0 then FlowRecordKind_Begin else FlowRecordKind_Update),
          ff_observationKind = te_observationKind t, ff_ctState = connState_u8 (r_state ctResult),
          ff_ctDir = connDir_u8 (r_direction ctResult), ff_packetDir = tf_packetDir facts,
          ff_flowOriginDir = te_flowOriginDir t, ff_verdict = tf_verdict facts,
          ff_reasonId = reason_u8 (tf_reasonId facts), ff_ifaceKindBit = tf_ifaceKindBit facts,
          ff_l4Status = tf_l4Status facts, ff_endReason = End_None, ff_proto = pk_proto pkt,
          ff_isIpv6 = fam_isIpv6 fam, ff_pickedUpMidStream = te_pickedUpMidStream t,
          ff_uidKnown = tf_uidKnown facts, ff_ifindexKnown = tf_ifindexKnown facts,
          ff_portsAvailable = tf_portsAvailable facts, ff_srcPort = pk_srcPort pkt, ff_dstPort = pk_dstPort pkt,
          ff_icmpType = tf_icmpType facts, ff_icmpCode = tf_icmpCode facts, ff_icmpId = tf_icmpId facts,
          ff_timestampNs = exportTsNs, ff_firstSeenNs = firstSeenNs, ff_lastSeenNs = te_lastSeenNs t,
          ff_flowInstanceId = te_flowInstanceId t, ff_recordSeq = te_recordSeq t + 1, ff_uid = pk_uid pkt,
          ff_userId = tf_userId facts, ff_ifindex = tf_ifindex facts, ff_srcAddr = tf_srcAddrNet facts,
          ff_dstAddr = tf_dstAddrNet facts, ff_totalPackets = tp, ff_totalBytes = tb, ff_inPackets = ip,
          ff_inBytes = ib, ff_outPackets = op, ff_outBytes = ob,
          ff_ruleId = (if te_decisionRuleIdKnown t then Some (te_decisionRuleId t) else None)\<rparr>)"

text \<open>What happens to the observed entry and to the telemetry session, after its session was ensured.\<close>

definition observe_entry ::
  "'ip AddrFamily \<Rightarrow> HotPath \<Rightarrow> TeleConfig \<Rightarrow> 'ip CtPacket \<Rightarrow> CtResult \<Rightarrow> TelemetryPacketFacts \<Rightarrow> bool \<Rightarrow>
     'ip Entry \<Rightarrow> FlowTelemetry \<Rightarrow> 'ip Entry \<times> FlowTelemetry" where
  "observe_entry fam hot cfg pkt ctResult facts l3 e ft =
     (let (firstSeenNs, t) = tele_touch pkt ctResult facts l3 (en_tele e);
          e1 = e\<lparr>en_tele := t,
                 en_expirationNs := observe_expiration cfg (pk_tsNs pkt) (tf_reasonId facts) l3 (en_expirationNs e)\<rparr>;
          f = flow_fields fam pkt ctResult facts firstSeenNs t
      in if \<not> export_due cfg t (te_totalPackets t) (te_totalBytes t) (pk_tsNs pkt) then (e1, ft)
         else if \<not> export_due cfg t (ff_totalPackets f) (ff_totalBytes f) (ff_timestampNs f) then (e1, ft)
         else snd (export_fields f hot e1 ft))"

definition observe_key ::
  "'ip AddrFamily \<Rightarrow> HotPath \<Rightarrow> TeleConfig \<Rightarrow> 'ip CtPacket \<Rightarrow> 'ip Key \<Rightarrow> nat \<Rightarrow> nat \<Rightarrow> CtResult \<Rightarrow>
     TelemetryPacketFacts \<Rightarrow> bool \<Rightarrow> 'ip World \<Rightarrow> 'ip World" where
  "observe_key fam hot cfg pkt key i b ctResult facts l3 w =
     (let (found, didRetire, w1) =
            (case live_entry key (pk_tsNs pkt) (bucket_at w i b) of
               Some j \<Rightarrow> (Some j, False, w)
             | None \<Rightarrow>
                 (case observe_create fam hot cfg pkt key i b ctResult facts l3 w of
                    (None, w') \<Rightarrow> (None, False, w')
                  | (Some r, w') \<Rightarrow> (Some 0, r, w')))
      in case found of
           None \<Rightarrow> w1
         | Some j \<Rightarrow>
             let e = bucket_at w1 i b ! j;
                 (t, w2) = ensureTelemetrySession hot (pk_tsNs pkt) (tf_packetDir facts)
                   (if l3 then Observation_L3 else Observation_Normal) l3 ctResult (en_tele e) w1;
                 (e', ft) = observe_entry fam hot cfg pkt ctResult facts l3 (e\<lparr>en_tele := t\<rparr>) (w_tele w2);
                 w3 = set_entry i b j e' (w2\<lparr>w_tele := ft\<rparr>)
             in if didRetire then maybeAdvanceAndReclaim (pk_tsNs pkt) w3 else w3)"

definition observeFlowTelemetry ::
  "'ip AddrFamily \<Rightarrow> nat \<Rightarrow> 'ip CtPacket \<Rightarrow> CtResult \<Rightarrow> HotPath \<Rightarrow> TelemetryPacketFacts \<Rightarrow> 'ip World \<Rightarrow> 'ip World" where
  "observeFlowTelemetry fam thread pkt ctResult hot facts w =
     (case hp_cfg hot of
        None \<Rightarrow> w
      | Some cfg \<Rightarrow>
          if length (tf_srcAddrNet facts) \<noteq> fam_addrLen fam \<or> length (tf_dstAddrNet facts) \<noteq> fam_addrLen fam then w
          else if \<not> isKnownPacketDirection (tf_packetDir facts) then w
          else
            let l3 = isL3ObservationStatus (tf_l4Status facts);
                key = (case makeKey fam pkt of Some k \<Rightarrow> Some k | None \<Rightarrow> if l3 then Some (makeObservationKey pkt) else None)
            in case key of
                 None \<Rightarrow> w
               | Some key \<Rightarrow>
                   let h = hashKey fam key;
                       i = shardIndex (w_impl w) h; b = bucketIndex (w_impl w) h;
                       (s, ep) = slotForThread thread (im_epoch (w_impl w));
                       w1 = observe_key fam hot cfg pkt key i b ctResult facts l3 (with_epoch (\<lambda>_. epoch_enter s ep) w)
                   in with_epoch (epoch_exit s) w1)"

section \<open>Closing a telemetry session\<close>

fun emit_bucket ::
  "'ip AddrFamily \<Rightarrow> u64 \<Rightarrow> HotPath \<Rightarrow> 'ip Entry list \<Rightarrow> nat \<Rightarrow> FlowTelemetry \<Rightarrow> 'ip Entry list \<times> nat \<times> nat \<times> FlowTelemetry" where
  "emit_bucket fam nowNs hot [] ne ft = ([], ne, 0, ft)"
| "emit_bucket fam nowNs hot (e # es) ne ft =
     (if ne = 0 then (e # es, ne, 0, ft)
      else
        let (ok, e', ft1) = (if can_evict hot e then exportTelemetryEndLocked fam e nowNs hot End_TelemetryDisabled ft
                             else (False, e, ft));
            (es', ne', emitted, ft2) = emit_bucket fam nowNs hot es (ne - 1) ft1
        in (e' # es', ne', (if ok then emitted + 1 else emitted), ft2))"

text \<open>\<open>scans\<close> is what is left of the buckets of the shard, \<open>nb\<close> of the bucket budget; the result has the
  next bucket, the budgets left and the number of records.\<close>

fun emit_buckets ::
  "'ip AddrFamily \<Rightarrow> nat \<Rightarrow> u64 \<Rightarrow> HotPath \<Rightarrow> nat \<Rightarrow> u32 \<Rightarrow> nat \<Rightarrow> nat \<Rightarrow> 'ip World \<Rightarrow> u32 \<times> nat \<times> nat \<times> nat \<times> 'ip World" where
  "emit_buckets fam i nowNs hot 0 bi nb ne w = (bi, nb, ne, 0, w)"
| "emit_buckets fam i nowNs hot (Suc scans) bi nb ne w =
     (if nb = 0 \<or> ne = 0 then (bi, nb, ne, 0, w)
      else
        let (es, ne', emitted, ft) = emit_bucket fam nowNs hot (bucket_at w i (unat bi)) ne (w_tele w);
            w1 = set_bucket i (unat bi) es (w\<lparr>w_tele := ft\<rparr>);
            (bi', nb', ne'', emitted', w2) =
              emit_buckets fam i nowNs hot scans ((bi + 1) AND bucketMask (w_impl w)) (nb - 1) ne' w1
        in (bi', nb', ne'', emitted + emitted', w2))"

fun emit_shards ::
  "'ip AddrFamily \<Rightarrow> u64 \<Rightarrow> HotPath \<Rightarrow> nat list \<Rightarrow> nat \<Rightarrow> nat \<Rightarrow> 'ip World \<Rightarrow> nat \<times> 'ip World" where
  "emit_shards fam nowNs hot [] nb ne w = (0, w)"
| "emit_shards fam nowNs hot (i # is) nb ne w =
     (if nb = 0 \<or> ne = 0 then (0, w)
      else
        let (bi, nb', ne', emitted, w1) =
              emit_buckets fam i nowNs hot (length (sh_buckets (shard_at w i)))
                (sh_cursorBucket (shard_at w i) AND bucketMask (w_impl w)) nb ne w;
            w2 = upd_shard i (\<lambda>s. s\<lparr>sh_cursorBucket := bi\<rparr>) w1;
            (emitted', w3) = emit_shards fam nowNs hot is nb' ne' w2
        in (emitted + emitted', w3))"

definition emitTelemetryDisabledEnds :: "'ip AddrFamily \<Rightarrow> u64 \<Rightarrow> HotPath \<Rightarrow> 'ip World \<Rightarrow> nat \<times> 'ip World" where
  "emitTelemetryDisabledEnds fam nowNs hot w =
     (if hp_cfg hot = None \<or> hp_sessionId hot = 0 then (0, w)
      else let opt = im_opt (w_impl w) in
        emit_shards fam nowNs hot [0..<length (im_shards (w_impl w))] (unat (sweepMaxBuckets opt)) (unat (sweepMaxEntries opt)) w)"

section \<open>The tracker of both families\<close>

record Conntrack =
  ct_shared :: Shared
  ct_impl4 :: "u32 Impl"
  ct_impl6 :: "u8 list Impl"

definition conntrack_new :: "Options \<Rightarrow> Conntrack" where
  "conntrack_new opts = \<lparr>ct_shared = new_shared, ct_impl4 = new_impl opts, ct_impl6 = new_impl opts\<rparr>"

definition conntrack_reset :: "Conntrack \<Rightarrow> Conntrack" where
  "conntrack_reset ct = conntrack_new (im_opt (ct_impl4 ct))"

definition on4 :: "(u32 World \<Rightarrow> 'r \<times> u32 World) \<Rightarrow> Conntrack \<times> FlowTelemetry \<Rightarrow> 'r \<times> Conntrack \<times> FlowTelemetry" where
  "on4 f cf = (let (r, w) = f \<lparr>w_shared = ct_shared (fst cf), w_impl = ct_impl4 (fst cf), w_tele = snd cf\<rparr>
     in (r, (fst cf)\<lparr>ct_shared := w_shared w, ct_impl4 := w_impl w\<rparr>, w_tele w))"

definition on6 :: "(u8 list World \<Rightarrow> 'r \<times> u8 list World) \<Rightarrow> Conntrack \<times> FlowTelemetry \<Rightarrow> 'r \<times> Conntrack \<times> FlowTelemetry" where
  "on6 f cf = (let (r, w) = f \<lparr>w_shared = ct_shared (fst cf), w_impl = ct_impl6 (fst cf), w_tele = snd cf\<rparr>
     in (r, (fst cf)\<lparr>ct_shared := w_shared w, ct_impl6 := w_impl w\<rparr>, w_tele w))"

definition inspectForPolicyV4 :: "nat \<Rightarrow> u32 CtPacket \<Rightarrow> Conntrack \<times> FlowTelemetry \<Rightarrow> PolicyView \<times> Conntrack \<times> FlowTelemetry" where
  "inspectForPolicyV4 t pkt = on4 (inspectForPolicy fam4 t pkt)"

definition inspectForPolicyV6 :: "nat \<Rightarrow> u8 list CtPacket \<Rightarrow> Conntrack \<times> FlowTelemetry \<Rightarrow> PolicyView \<times> Conntrack \<times> FlowTelemetry" where
  "inspectForPolicyV6 t pkt = on6 (inspectForPolicy fam6 t pkt)"

definition commitAcceptedV4 :: "u32 CtPacket \<Rightarrow> PolicyView \<Rightarrow> Conntrack \<times> FlowTelemetry \<Rightarrow> Conntrack \<times> FlowTelemetry" where
  "commitAcceptedV4 pkt view cf = snd (on4 (\<lambda>w. ((), commitAccepted fam4 pkt view w)) cf)"

definition commitAcceptedV6 :: "u8 list CtPacket \<Rightarrow> PolicyView \<Rightarrow> Conntrack \<times> FlowTelemetry \<Rightarrow> Conntrack \<times> FlowTelemetry" where
  "commitAcceptedV6 pkt view cf = snd (on6 (\<lambda>w. ((), commitAccepted fam6 pkt view w)) cf)"

definition updateV4 :: "nat \<Rightarrow> u32 CtPacket \<Rightarrow> Conntrack \<times> FlowTelemetry \<Rightarrow> CtResult \<times> Conntrack \<times> FlowTelemetry" where
  "updateV4 t pkt = on4 (ct_update fam4 t pkt)"

definition updateV6 :: "nat \<Rightarrow> u8 list CtPacket \<Rightarrow> Conntrack \<times> FlowTelemetry \<Rightarrow> CtResult \<times> Conntrack \<times> FlowTelemetry" where
  "updateV6 t pkt = on6 (ct_update fam6 t pkt)"

definition observeFlowTelemetryV4 ::
  "nat \<Rightarrow> u32 CtPacket \<Rightarrow> CtResult \<Rightarrow> HotPath \<Rightarrow> TelemetryPacketFacts \<Rightarrow> Conntrack \<times> FlowTelemetry \<Rightarrow> Conntrack \<times> FlowTelemetry" where
  "observeFlowTelemetryV4 t pkt ctResult hot facts cf =
     snd (on4 (\<lambda>w. ((), observeFlowTelemetry fam4 t pkt ctResult hot facts w)) cf)"

definition observeFlowTelemetryV6 ::
  "nat \<Rightarrow> u8 list CtPacket \<Rightarrow> CtResult \<Rightarrow> HotPath \<Rightarrow> TelemetryPacketFacts \<Rightarrow> Conntrack \<times> FlowTelemetry \<Rightarrow> Conntrack \<times> FlowTelemetry" where
  "observeFlowTelemetryV6 t pkt ctResult hot facts cf =
     snd (on6 (\<lambda>w. ((), observeFlowTelemetry fam6 t pkt ctResult hot facts w)) cf)"

definition exportTelemetryDisabledEnds :: "u64 \<Rightarrow> Conntrack \<times> FlowTelemetry \<Rightarrow> nat \<times> Conntrack \<times> FlowTelemetry" where
  "exportTelemetryDisabledEnds nowNs cf =
     (let hot = hotPathFlow (snd cf) in
      if hp_cfg hot = None \<or> hp_sessionId hot = 0 then (0, cf)
      else
        let (e4, cf1) = on4 (emitTelemetryDisabledEnds fam4 nowNs hot) cf;
            (e6, cf2) = on6 (emitTelemetryDisabledEnds fam6 nowNs hot) cf1
        in (e4 + e6, cf2))"

record FamilyMetrics =
  fm_totalEntries :: u64
  fm_creates :: u64
  fm_expiredRetires :: u64
  fm_overflowDrops :: u64

record MetricsSnapshot =
  ms_totalEntries :: u64
  ms_creates :: u64
  ms_expiredRetires :: u64
  ms_overflowDrops :: u64
  ms_ipv4 :: FamilyMetrics
  ms_ipv6 :: FamilyMetrics

definition family_metrics :: "'ip Impl \<Rightarrow> FamilyMetrics" where
  "family_metrics im = \<lparr>fm_totalEntries = ucast (im_totalEntries im), fm_creates = im_creates im,
     fm_expiredRetires = im_expiredRetires im, fm_overflowDrops = im_overflowDrops im\<rparr>"

definition metricsSnapshot :: "Conntrack \<Rightarrow> MetricsSnapshot" where
  "metricsSnapshot ct =
     (let f4 = family_metrics (ct_impl4 ct); f6 = family_metrics (ct_impl6 ct) in
      \<lparr>ms_totalEntries = fm_totalEntries f4 + fm_totalEntries f6, ms_creates = fm_creates f4 + fm_creates f6,
       ms_expiredRetires = fm_expiredRetires f4 + fm_expiredRetires f6,
       ms_overflowDrops = fm_overflowDrops f4 + fm_overflowDrops f6, ms_ipv4 = f4, ms_ipv6 = f6\<rparr>)"

section \<open>The functions of \<^verbatim>\<open>ImplV6\<close>\<close>

text \<open>The members of \<^verbatim>\<open>ImplV6\<close> that depend on the family are the instances at \<open>fam6\<close>.\<close>

definition makeKey6 :: "u8 list CtPacket \<Rightarrow> u8 list Key option" where
  "makeKey6 = makeKey fam6"

definition hashEndpoint6 :: "u8 list Endpoint \<Rightarrow> u64" where
  "hashEndpoint6 = hashEndpoint fam6"

definition hashKey6 :: "u8 list Key \<Rightarrow> u64" where
  "hashKey6 = hashKey fam6"

definition icmp6ValidNew :: "u8 list CtPacket \<Rightarrow> bool" where
  "icmp6ValidNew = icmpValidNew fam6"

definition exportTelemetryEndLocked6 :: "u8 list Entry \<Rightarrow> u64 \<Rightarrow> HotPath \<Rightarrow> u8 \<Rightarrow> FlowTelemetry \<Rightarrow> bool \<times> u8 list Entry \<times> FlowTelemetry" where
  "exportTelemetryEndLocked6 = exportTelemetryEndLocked fam6"

definition evictOneLocked6 :: "nat \<Rightarrow> u64 \<Rightarrow> u8 \<Rightarrow> HotPath \<Rightarrow> u8 list World \<Rightarrow> bool \<times> u8 list World" where
  "evictOneLocked6 = evictOneLocked fam6"

definition emitTelemetryDisabledEnds6 :: "u64 \<Rightarrow> HotPath \<Rightarrow> u8 list World \<Rightarrow> nat \<times> u8 list World" where
  "emitTelemetryDisabledEnds6 = emitTelemetryDisabledEnds fam6"

definition sweepLocked6 :: "nat \<Rightarrow> u64 \<Rightarrow> u8 \<Rightarrow> u8 list World \<Rightarrow> nat \<times> u8 list World" where
  "sweepLocked6 = sweepLocked fam6"

definition maybeHotSweep6 :: "nat \<Rightarrow> u64 \<Rightarrow> u8 list World \<Rightarrow> u8 list World" where
  "maybeHotSweep6 = maybeHotSweep fam6"

end
