(* ===== verification/ConntrackSweep.thy ===== *)
theory ConntrackSweep
  imports ConntrackTelemetry "HOL-Library.Sublist"
begin

text \<open>
  What the list operations of the connection table do to it: the invariant of a table in the middle of an
  operation (\<open>pend\<close>), and that sweeping and eviction keep it, remove expired (or evictable) entries only and
  stay within their budgets.
\<close>

section \<open>Keys\<close>

lemma reverseKey_invol [simp]: "reverseKey (reverseKey k) = k"
  by (simp add: reverseKey_def)

lemma keyEq_iff: "keyEq a b \<longleftrightarrow> (a :: 'ip Key) = b"
proof
  assume "keyEq a b"
  then have "k_src a = k_src b" "k_dst a = k_dst b" "k_uid a = k_uid b" "k_proto a = k_proto b"
    unfolding keyEq_def by (auto intro: Endpoint.equality)
  then show "a = b" by (auto intro: Key.equality)
qed (simp add: keyEq_def)

lemma reverseKey_inject [simp]: "reverseKey a = reverseKey b \<longleftrightarrow> a = b"
  by (metis reverseKey_invol)

lemma hashKey_reverse [simp]: "hashKey fam (reverseKey k) = hashKey fam k"
  by (simp add: hashKey_def reverseKey_def ac_simps)

lemma reverseKey_proto [simp]: "k_proto (reverseKey k) = k_proto k" "k_uid (reverseKey k) = k_uid k"
  by (simp_all add: reverseKey_def)

lemma makeKey_proto: "makeKey fam pkt = Some k \<Longrightarrow> k_proto k = pk_proto pkt \<and> k_uid k = pk_uid pkt"
  by (auto simp: makeKey_def Let_def split: if_splits)

section \<open>The world and its shards\<close>

lemma shard_at_upd [simp]:
  "shard_at (upd_shard i f w) j = (if j = i \<and> i < length (im_shards (w_impl w)) then f (shard_at w i) else shard_at w j)"
  by (auto simp: shard_at_def upd_shard_def list_update_beyond)

lemma upd_shard_frame [simp]:
  "w_shared (upd_shard i f w) = w_shared w" "w_tele (upd_shard i f w) = w_tele w"
  "im_opt (w_impl (upd_shard i f w)) = im_opt (w_impl w)"
  "length (im_shards (w_impl (upd_shard i f w))) = length (im_shards (w_impl w))"
  "im_epoch (w_impl (upd_shard i f w)) = im_epoch (w_impl w)"
  "im_totalEntries (w_impl (upd_shard i f w)) = im_totalEntries (w_impl w)"
  by (simp_all add: upd_shard_def)

text \<open>Number of live entries of a bucket list, a shard and a table.\<close>

definition n_shard :: "'ip Shard \<Rightarrow> nat" where
  "n_shard s = sum_list (map length (sh_buckets s))"

definition n_impl :: "'ip Impl \<Rightarrow> nat" where
  "n_impl im = sum_list (map n_shard (im_shards im))"

text \<open>The tracker state is one of the enumerators of the tracker of the protocol.\<close>

definition state_ok :: "'ip AddrFamily \<Rightarrow> 'ip Entry \<Rightarrow> bool" where
  "state_ok fam e \<longleftrightarrow>
     (if k_proto (en_key e) = P_TCP then en_state0 e \<le> Tcp_TIME_WAIT \<and> en_state1 e \<le> Tcp_TIME_WAIT
      else if k_proto (en_key e) = fam_icmpProto fam then en_state0 e \<le> Icmp_REPLY
      else en_state0 e \<le> Other_BIDIR)"

text \<open>An entry is where its hash says, and its key satisfies \<open>Q\<close>.\<close>

definition entry_ok :: "'ip AddrFamily \<Rightarrow> ('ip Key \<Rightarrow> bool) \<Rightarrow> 'ip Impl \<Rightarrow> nat \<Rightarrow> nat \<Rightarrow> 'ip Entry \<Rightarrow> bool" where
  "entry_ok fam Q im i b e \<longleftrightarrow>
     en_revKey e = reverseKey (en_key e) \<and> shardIndex im (hashKey fam (en_key e)) = i \<and>
     bucketIndex im (hashKey fam (en_key e)) = b \<and> state_ok fam e \<and> Q (en_key e)"

definition shard_ok :: "'ip AddrFamily \<Rightarrow> ('ip Key \<Rightarrow> bool) \<Rightarrow> 'ip Impl \<Rightarrow> nat \<Rightarrow> 'ip Shard \<Rightarrow> bool" where
  "shard_ok fam Q im i s \<longleftrightarrow>
     length (sh_buckets s) = unat (bucketsPerShard (im_opt im)) \<and> length (sh_retired s) = 3 \<and>
     (\<forall>b < length (sh_buckets s). \<forall>e \<in> set (sh_buckets s ! b). entry_ok fam Q im i b e)"

text \<open>The state in the middle of an operation on shard \<open>i\<close>: the counters lag behind the lists by \<open>d\<close>. \<open>k\<close>
  is the number of entries of the other family and the options of the tracker.\<close>

definition pend :: "'ip AddrFamily \<Rightarrow> ('ip Key \<Rightarrow> bool) \<Rightarrow> nat \<times> Options \<Rightarrow> nat \<Rightarrow> int \<Rightarrow> 'ip World \<Rightarrow> bool" where
  "pend fam Q k i d w \<longleftrightarrow>
     (let im = w_impl w in
      snd k = im_opt im \<and> i < length (im_shards im) \<and> bucketsPerShard (im_opt im) \<noteq> 0 \<and> maxEntries (im_opt im) \<noteq> 0 \<and> epo_global (im_epoch im) < 3 \<and>
      (\<forall>j < length (im_shards im). shard_ok fam Q im j (shard_at w j) \<and>
         uint (sh_size (shard_at w j)) + (if j = i then d else 0) = int (n_shard (shard_at w j))) \<and>
      uint (im_totalEntries im) + d = int (n_impl im) \<and>
      uint (sc_totalEntries (w_shared w)) + d = int (n_impl im + fst k) \<and>
      sc_totalEntries (w_shared w) \<le> maxEntries (im_opt im))"

lemma entry_ok_cong:
  "im_opt im' = im_opt im \<Longrightarrow> length (im_shards im') = length (im_shards im) \<Longrightarrow> entry_ok fam Q im' = entry_ok fam Q im"
  by (simp add: entry_ok_def fun_eq_iff shardIndex_def bucketIndex_def bucketMask_def)

lemma shard_ok_cong:
  "im_opt im' = im_opt im \<Longrightarrow> length (im_shards im') = length (im_shards im) \<Longrightarrow> shard_ok fam Q im' = shard_ok fam Q im"
  using entry_ok_cong [of im' im fam Q] unfolding shard_ok_def by (intro ext) simp

lemma sum_list_nat_update:
  fixes xs :: "nat list"
  assumes "i < length xs" shows "int (sum_list (xs[i := x])) = int (sum_list xs) + int x - int (xs ! i)"
proof -
  have "xs ! i \<le> sum_list xs" using assms elem_le_sum_list by blast
  moreover have "sum_list (xs[i := x]) = sum_list xs + x - xs ! i" by (rule sum_list_update [OF assms])
  ultimately show ?thesis by linarith
qed

lemma n_impl_upd:
  assumes "i < length (im_shards (w_impl w))"
  shows "int (n_impl (w_impl (upd_shard i f w))) = int (n_impl (w_impl w)) + int (n_shard (f (shard_at w i))) - int (n_shard (shard_at w i))"
  using assms sum_list_nat_update [of i "map n_shard (im_shards (w_impl w))" "n_shard (f (shard_at w i))"]
  by (simp add: n_impl_def upd_shard_def map_update shard_at_def)

lemma n_shard_le_n_impl: "i < length (im_shards (w_impl w)) \<Longrightarrow> n_shard (shard_at w i) \<le> n_impl (w_impl w)"
  unfolding n_impl_def shard_at_def by (metis elem_le_sum_list length_map nth_map)

lemma cursor_bound:
  assumes "n \<noteq> (0::u32)" shows "unat (c AND (n - 1)) < unat n"
proof -
  have "unat (c AND (n - 1)) \<le> unat (n - 1)" by (simp add: word_and_le1 word_le_nat_alt [symmetric])
  moreover have "0 < unat n" using assms by (simp add: unat_gt_0)
  ultimately show ?thesis using unat_minus_one [OF assms] by linarith
qed

lemma bucketIndex_bound: "bucketsPerShard (im_opt im) \<noteq> 0 \<Longrightarrow> bucketIndex im h < unat (bucketsPerShard (im_opt im))"
  unfolding bucketIndex_def bucketMask_def by (rule cursor_bound)

lemma u32_dec:
  fixes x :: u32 assumes "0 < uint x" shows "uint (x - 1) = uint x - 1"
  using assms uint_sub_lem [of 1 x] by simp

lemma pend_shard:
  assumes "pend fam Q k i d w" and "j < length (im_shards (w_impl w))"
  shows "shard_ok fam Q (w_impl w) j (shard_at w j)"
    and "uint (sh_size (shard_at w j)) + (if j = i then d else 0) = int (n_shard (shard_at w j))"
  using assms unfolding pend_def Let_def by blast+

lemma pendD:
  assumes "pend fam Q k i d w"
  shows "i < length (im_shards (w_impl w))" "bucketsPerShard (im_opt (w_impl w)) \<noteq> 0" "epo_global (im_epoch (w_impl w)) < 3"
    and "uint (im_totalEntries (w_impl w)) + d = int (n_impl (w_impl w))"
    and "uint (sc_totalEntries (w_shared w)) + d = int (n_impl (w_impl w) + fst k)"
    and "sc_totalEntries (w_shared w) \<le> maxEntries (im_opt (w_impl w))" and "maxEntries (im_opt (w_impl w)) \<noteq> 0"
    and "snd k = im_opt (w_impl w)"
  using assms unfolding pend_def Let_def by blast+

text \<open>Changing a shard without touching its entries or counters.\<close>

lemma pend_upd_shard_same:
  assumes "pend fam Q k i d w"
    and "\<And>s. sh_buckets (f s) = sh_buckets s" "\<And>s. sh_size (f s) = sh_size s" "\<And>s. length (sh_retired (f s)) = length (sh_retired s)"
  shows "pend fam Q k i d (upd_shard j f w)"
proof -
  have n: "n_shard (f s) = n_shard s" for s by (simp add: n_shard_def assms)
  have "n_impl (w_impl (upd_shard j f w)) = n_impl (w_impl w)"
  proof (cases "j < length (im_shards (w_impl w))")
    case True then show ?thesis using n_impl_upd [OF True, of f] n by simp
  next
    case False then show ?thesis by (simp add: upd_shard_def list_update_beyond)
  qed
  moreover have "shard_ok fam Q im j (f s) = shard_ok fam Q im j s" for im j s by (simp add: shard_ok_def assms)
  ultimately show ?thesis
    using assms(1) shard_ok_cong [of "w_impl (upd_shard j f w)" "w_impl w" fam Q]
    by (auto simp: pend_def Let_def n assms)
qed

lemma pend_set_bucket:
  assumes p: "pend fam Q k i d w" and b: "b < length (sh_buckets (shard_at w i))"
    and es: "\<forall>e \<in> set es. entry_ok fam Q (w_impl w) i b e"
  shows "pend fam Q k i (d + int (length es) - int (length (bucket_at w i b))) (set_bucket i b es w)"
proof -
  let ?f = "\<lambda>s :: 'a Shard. s\<lparr>sh_buckets := (sh_buckets s)[b := es]\<rparr>"
  have i: "i < length (im_shards (w_impl w))" using p by (simp add: pend_def Let_def)
  have n: "int (n_shard (?f (shard_at w i))) = int (n_shard (shard_at w i)) + int (length es) - int (length (bucket_at w i b))"
    using sum_list_nat_update [of b "map length (sh_buckets (shard_at w i))" "length es"] b
    by (simp add: n_shard_def map_update bucket_at_def)
  have "shard_ok fam Q (w_impl w) i (shard_at w i)" using p i by (simp add: pend_def Let_def)
  then have ok: "shard_ok fam Q (w_impl w) i (?f (shard_at w i))"
    using es b unfolding shard_ok_def by (simp add: nth_list_update)
  have c: "shard_ok fam Q (w_impl (upd_shard i ?f w)) = shard_ok fam Q (w_impl w)" by (rule shard_ok_cong) simp_all
  have sz: "uint (sh_size (shard_at w i)) + d = int (n_shard (shard_at w i))" using pend_shard(2) [OF p i] by simp
  show ?thesis
    using p ok n sz n_impl_upd [OF i, of ?f] unfolding pend_def set_bucket_def Let_def c
    by (auto simp: i)
qed

lemma pend_retire:
  assumes p: "pend fam Q k i d w" and d: "d < int (n_shard (shard_at w i))"
  shows "pend fam Q k i (d + 1) (retireUnlinkedLocked i e r w)"
    and "bucket_at (retireUnlinkedLocked i e r w) j b = bucket_at w j b"
    and "n_shard (shard_at (retireUnlinkedLocked i e r w) j) = n_shard (shard_at w j)"
    and "im_opt (w_impl (retireUnlinkedLocked i e r w)) = im_opt (w_impl w)"
    and "length (im_shards (w_impl (retireUnlinkedLocked i e r w))) = length (im_shards (w_impl w))"
proof -
  let ?f = "\<lambda>s :: 'a Shard. s\<lparr>sh_retired := (sh_retired s)[unat r := e # sh_retired s ! unat r], sh_size := sh_size s - 1\<rparr>"
  have i: "i < length (im_shards (w_impl w))" using p by (simp add: pend_def Let_def)
  have c: "shard_ok fam Q (w_impl (retireUnlinkedLocked i e r w)) = shard_ok fam Q (w_impl w)"
    by (rule shard_ok_cong) (simp_all add: retireUnlinkedLocked_def Let_def)
  have at: "shard_at (retireUnlinkedLocked i e r w) j = (if j = i then ?f (shard_at w i) else shard_at w j)" for j
    using i shard_at_upd [of i ?f w j] by (simp add: retireUnlinkedLocked_def Let_def shard_at_def)
  have nf: "n_shard (?f s) = n_shard s" for s by (simp add: n_shard_def)
  have ni: "n_impl (w_impl (retireUnlinkedLocked i e r w)) = n_impl (w_impl w)"
    using n_impl_upd [OF i, of ?f] by (simp add: retireUnlinkedLocked_def Let_def n_impl_def nf)
  have pos: "0 < uint (sh_size (shard_at w i))" "0 < uint (im_totalEntries (w_impl w))" "0 < uint (sc_totalEntries (w_shared w))"
    using p d i n_shard_le_n_impl [OF i] by (force simp: pend_def Let_def)+
  have le: "sc_totalEntries (w_shared w) - 1 \<le> sc_totalEntries (w_shared w)"
    using u32_dec [OF pos(3)] by (simp add: word_le_def)
  have okf: "shard_ok fam Q im j (?f s) = shard_ok fam Q im j s" for im j s by (simp add: shard_ok_def)
  show "pend fam Q k i (d + 1) (retireUnlinkedLocked i e r w)"
    using p pos unfolding pend_def Let_def c ni at
    using le order_trans [OF le] by (auto simp: okf nf retireUnlinkedLocked_def Let_def u32_dec)
  show "bucket_at (retireUnlinkedLocked i e r w) j b = bucket_at w j b" by (simp add: bucket_at_def at)
  show "n_shard (shard_at (retireUnlinkedLocked i e r w) j) = n_shard (shard_at w j)" by (simp add: at nf)
  show "im_opt (w_impl (retireUnlinkedLocked i e r w)) = im_opt (w_impl w)"
    "length (im_shards (w_impl (retireUnlinkedLocked i e r w))) = length (im_shards (w_impl w))"
    by (simp_all add: retireUnlinkedLocked_def Let_def)
qed

section \<open>Sweeping and eviction\<close>

lemma bucket_set_tele [simp]:
  "shard_at (w\<lparr>w_tele := ft\<rparr>) = shard_at w" "bucket_at (w\<lparr>w_tele := ft\<rparr>) = bucket_at w"
  by (simp_all add: shard_at_def bucket_at_def fun_eq_iff)

lemma pend_frame:
  "pend fam Q k i d (w\<lparr>w_tele := ft\<rparr>) = pend fam Q k i d w"
  "pend fam Q k i d (w\<lparr>w_impl := (w_impl w)\<lparr>im_expiredRetires := x\<rparr>\<rparr>) = pend fam Q k i d w"
  "pend fam Q k i d (w\<lparr>w_impl := (w_impl w)\<lparr>im_overflowDrops := x\<rparr>\<rparr>) = pend fam Q k i d w"
  "pend fam Q k i d (w\<lparr>w_shared := (w_shared w)\<lparr>sc_nextFlowInstanceId := y\<rparr>\<rparr>) = pend fam Q k i d w"
proof -
  have c: "shard_ok fam Q ((w_impl w)\<lparr>im_expiredRetires := x\<rparr>) = shard_ok fam Q (w_impl w)"
    "shard_ok fam Q ((w_impl w)\<lparr>im_overflowDrops := x\<rparr>) = shard_ok fam Q (w_impl w)"
    by (rule shard_ok_cong; simp)+
  show "pend fam Q k i d (w\<lparr>w_tele := ft\<rparr>) = pend fam Q k i d w"
    "pend fam Q k i d (w\<lparr>w_impl := (w_impl w)\<lparr>im_expiredRetires := x\<rparr>\<rparr>) = pend fam Q k i d w"
    "pend fam Q k i d (w\<lparr>w_impl := (w_impl w)\<lparr>im_overflowDrops := x\<rparr>\<rparr>) = pend fam Q k i d w"
    "pend fam Q k i d (w\<lparr>w_shared := (w_shared w)\<lparr>sc_nextFlowInstanceId := y\<rparr>\<rparr>) = pend fam Q k i d w"
    unfolding pend_def Let_def by (simp_all add: shard_at_def n_impl_def c)
qed

lemma sweep_retire_eq:
  obtains e' ft where "sweep_retire fam i nowNs r hot e w =
    (let w1 = retireUnlinkedLocked i e' r (w\<lparr>w_tele := ft\<rparr>)
     in w1\<lparr>w_impl := (w_impl w1)\<lparr>im_expiredRetires := im_expiredRetires (w_impl w1) + 1\<rparr>\<rparr>)"
  unfolding sweep_retire_def Let_def by (simp only: case_prod_beta)

lemma pend_sweep_retire:
  assumes p: "pend fam Q k i d w" and d: "d < int (n_shard (shard_at w i))"
  shows "pend fam Q k i (d + 1) (sweep_retire fam i nowNs r hot e w)"
    and "bucket_at (sweep_retire fam i nowNs r hot e w) j b = bucket_at w j b"
    and "n_shard (shard_at (sweep_retire fam i nowNs r hot e w) j) = n_shard (shard_at w j)"
    and "im_opt (w_impl (sweep_retire fam i nowNs r hot e w)) = im_opt (w_impl w)"
    and "length (im_shards (w_impl (sweep_retire fam i nowNs r hot e w))) = length (im_shards (w_impl w))"
proof -
  obtain e' ft where eq: "sweep_retire fam i nowNs r hot e w =
    (let w1 = retireUnlinkedLocked i e' r (w\<lparr>w_tele := ft\<rparr>)
     in w1\<lparr>w_impl := (w_impl w1)\<lparr>im_expiredRetires := im_expiredRetires (w_impl w1) + 1\<rparr>\<rparr>)" by (rule sweep_retire_eq)
  have p': "pend fam Q k i d (w\<lparr>w_tele := ft\<rparr>)" "d < int (n_shard (shard_at (w\<lparr>w_tele := ft\<rparr>) i))"
    using p d by (simp_all add: pend_frame)
  note f = pend_retire [OF p', of e' r]
  show "pend fam Q k i (d + 1) (sweep_retire fam i nowNs r hot e w)" using f(1) by (simp add: eq Let_def pend_frame)
  show "bucket_at (sweep_retire fam i nowNs r hot e w) j b = bucket_at w j b"
    "n_shard (shard_at (sweep_retire fam i nowNs r hot e w) j) = n_shard (shard_at w j)"
    "im_opt (w_impl (sweep_retire fam i nowNs r hot e w)) = im_opt (w_impl w)"
    "length (im_shards (w_impl (sweep_retire fam i nowNs r hot e w))) = length (im_shards (w_impl w))"
    using f(2-5) by (simp_all add: eq Let_def bucket_at_def shard_at_def)
qed

text \<open>What a sweep of a bucket does: it keeps the entries it does not remove in order, removes expired ones
  only, and at most as many as the budgets allow.\<close>

lemma sweep_bucket_pend:
  assumes "pend fam Q k i d w" and "d + int (length es) \<le> int (n_shard (shard_at w i))"
    and "sweep_bucket fam i nowNs r hot pre es ne rm w = (es', ne', rm', w')"
  shows "pend fam Q k i (d + int (length pre + length es) - int (length es')) w' \<and>
    (\<forall>j b. bucket_at w' j b = bucket_at w j b) \<and> n_shard (shard_at w' i) = n_shard (shard_at w i) \<and>
    im_opt (w_impl w') = im_opt (w_impl w) \<and> length (im_shards (w_impl w')) = length (im_shards (w_impl w)) \<and>
    length es' + (rm - rm') = length pre + length es \<and> rm' \<le> rm \<and>
    (\<exists>ys. es' = rev pre @ ys \<and> subseq ys es \<and> set es \<subseteq> set ys \<union> {e. entry_expired e nowNs} \<and>
       filter (\<lambda>e. \<not> entry_expired e nowNs) ys = filter (\<lambda>e. \<not> entry_expired e nowNs) es)"
  using assms
proof (induction fam i nowNs r hot pre es ne rm w arbitrary: d rule: sweep_bucket.induct)
  case (1 fam i nowNs r hot pre ne rm w)
  then show ?case by auto
next
  case (2 fam i nowNs r hot pre e es ne rm w)
  show ?case
  proof (cases "rm = 0 \<or> ne = 0")
    case True
    then show ?thesis using 2(3-5) by (auto intro!: exI [of _ "e # es"])
  next
    case b: False
    show ?thesis
    proof (cases "entry_expired e nowNs")
      case True
      have d: "d < int (n_shard (shard_at w i))" using 2(4) by simp
      note f = pend_sweep_retire [OF 2(3) d, of nowNs r hot e]
      have run: "sweep_bucket fam i nowNs r hot pre es (ne - 1) (rm - 1) (sweep_retire fam i nowNs r hot e w) = (es', ne', rm', w')"
        using 2(5) b True by simp
      have "d + 1 + int (length es) \<le> int (n_shard (shard_at (sweep_retire fam i nowNs r hot e w) i))"
        using 2(4) f(3) by simp
      from 2(1) [OF b True f(1) this run] b True show ?thesis using f(2-5)
        by (auto simp: algebra_simps intro: list_emb.intros)
    next
      case False
      have run: "sweep_bucket fam i nowNs r hot (e # pre) es (ne - 1) rm w = (es', ne', rm', w')"
        using 2(5) b False by simp
      have len: "d + int (length es) \<le> int (n_shard (shard_at w i))" using 2(4) by simp
      from 2(2) [OF b False 2(3) len run] obtain ys where ys: "es' = rev (e # pre) @ ys" "subseq ys es"
        "set es \<subseteq> set ys \<union> {e. entry_expired e nowNs}"
        "filter (\<lambda>e. \<not> entry_expired e nowNs) ys = filter (\<lambda>e. \<not> entry_expired e nowNs) es" by blast
      have "\<exists>ys. es' = rev pre @ ys \<and> subseq ys (e # es) \<and> set (e # es) \<subseteq> set ys \<union> {e. entry_expired e nowNs} \<and>
          filter (\<lambda>e. \<not> entry_expired e nowNs) ys = filter (\<lambda>e. \<not> entry_expired e nowNs) (e # es)"
        using ys False by (intro exI [of _ "e # ys"]) auto
      with 2(2) [OF b False 2(3) len run] show ?thesis by (simp add: algebra_simps)
    qed
  qed
qed

text \<open>What every operation on the lists keeps: the options, the number of shards and the epochs.\<close>

definition same_shape :: "'ip World \<Rightarrow> 'ip World \<Rightarrow> bool" where
  "same_shape w w' \<longleftrightarrow> im_opt (w_impl w') = im_opt (w_impl w) \<and>
     length (im_shards (w_impl w')) = length (im_shards (w_impl w)) \<and> im_epoch (w_impl w') = im_epoch (w_impl w)"

lemma same_shape_trans: "same_shape a b \<Longrightarrow> same_shape b c \<Longrightarrow> same_shape a c"
  by (simp add: same_shape_def)

lemma same_shape_simps [simp]:
  "same_shape w w" "same_shape w (upd_shard i f w)" "same_shape w (set_bucket i b es w)"
  "same_shape w (retireUnlinkedLocked i e r w)" "same_shape w (w\<lparr>w_tele := ft\<rparr>)"
  "same_shape w (sweep_retire fam i nowNs r hot e w)" "same_shape w (snd (next_bucket i w))"
  "same_shape w (count_overflow w)" "same_shape w (add_total w)" "same_shape w (link_entry i b e w)"
  "same_shape w (snd (take_flow_id w))"
  by (simp_all add: same_shape_def set_bucket_def retireUnlinkedLocked_def sweep_retire_def next_bucket_def Let_def
      count_overflow_def add_total_def link_entry_def take_flow_id_def split_beta)

lemma same_shape_sweep_bucket:
  "same_shape w (snd (snd (snd (sweep_bucket fam i nowNs r hot pre es ne rm w))))"
proof (induction fam i nowNs r hot pre es ne rm w rule: sweep_bucket.induct)
  case (2 fam i nowNs r hot pre e es ne rm w)
  then show ?case using same_shape_trans [OF same_shape_simps(6)] by auto
qed simp

lemma bucket_at_set [simp]:
  "bucket_at (set_bucket i b es w) j c =
     (if j = i \<and> c = b \<and> i < length (im_shards (w_impl w)) \<and> b < length (sh_buckets (shard_at w i)) then es else bucket_at w j c)"
  by (auto simp: bucket_at_def set_bucket_def list_update_beyond)

text \<open>The promise of a sweep at time \<open>nowNs\<close>: every bucket loses expired entries only, the rest stays in
  order.\<close>

definition swept :: "u64 \<Rightarrow> 'ip World \<Rightarrow> 'ip World \<Rightarrow> bool" where
  "swept nowNs w w' \<longleftrightarrow> same_shape w w' \<and>
     (\<forall>j b. subseq (bucket_at w' j b) (bucket_at w j b) \<and>
       filter (\<lambda>e. \<not> entry_expired e nowNs) (bucket_at w' j b) = filter (\<lambda>e. \<not> entry_expired e nowNs) (bucket_at w j b))"

lemma swept_trans: "swept n a b \<Longrightarrow> swept n b c \<Longrightarrow> swept n a c"
  by (auto simp: swept_def intro: same_shape_trans) (meson subseq_order.order_trans)

lemma swept_refl [simp]: "swept n w w"
  by (simp add: swept_def)

lemma next_bucket_facts:
  assumes "pend fam Q k i d w" and "next_bucket i w = (bi, w1)"
  shows "pend fam Q k i d w1" and "bi < length (sh_buckets (shard_at w1 i))" and "\<forall>j b. bucket_at w1 j b = bucket_at w j b"
proof -
  let ?f = "\<lambda>s :: 'a Shard. s\<lparr>sh_cursorBucket := (sh_cursorBucket (shard_at w i) + 1) AND bucketMask (w_impl w)\<rparr>"
  have w1: "w1 = upd_shard i ?f w" and bi: "bi = unat (sh_cursorBucket (shard_at w i) AND bucketMask (w_impl w))"
    using assms(2) by (auto simp: next_bucket_def Let_def)
  show "pend fam Q k i d w1" unfolding w1 by (rule pend_upd_shard_same [OF assms(1)]) simp_all
  show "\<forall>j b. bucket_at w1 j b = bucket_at w j b" by (simp add: w1 bucket_at_def)
  have "length (sh_buckets (shard_at w i)) = unat (bucketsPerShard (im_opt (w_impl w)))"
    using pend_shard(1) [OF assms(1) pendD(1) [OF assms(1)]] by (simp add: shard_ok_def)
  then show "bi < length (sh_buckets (shard_at w1 i))"
    using cursor_bound [OF pendD(2) [OF assms(1)]] by (simp add: bi w1 bucketMask_def)
qed

lemma bucket_le_shard: "b < length (sh_buckets s) \<Longrightarrow> length (sh_buckets s ! b) \<le> n_shard s"
  unfolding n_shard_def by (metis elem_le_sum_list length_map nth_map)

lemma pend_bucket_entries:
  assumes "pend fam Q k i d w" and "j < length (im_shards (w_impl w))" and "b < length (sh_buckets (shard_at w j))"
    and "e \<in> set (bucket_at w j b)"
  shows "entry_ok fam Q (w_impl w) j b e"
  using pend_shard(1) [OF assms(1,2)] assms(3,4) by (simp add: shard_ok_def bucket_at_def)

lemma sweep_loop_pend:
  assumes "pend fam Q k i 0 w" and "sweep_loop fam i nowNs r hot nb ne rm w = (rm', w')"
  shows "pend fam Q k i 0 w' \<and> swept nowNs w w' \<and> rm' \<le> rm"
  using assms
proof (induction nb arbitrary: ne rm w)
  case 0
  then show ?case by simp
next
  case (Suc nb)
  show ?case
  proof (cases "rm = 0")
    case True
    then show ?thesis using Suc.prems by simp
  next
    case False
    obtain bi w1 where nbk: "next_bucket i w = (bi, w1)" by (cases "next_bucket i w")
    obtain es ne' rm1 w2 where sb: "sweep_bucket fam i nowNs r hot [] (bucket_at w1 i bi) ne rm w1 = (es, ne', rm1, w2)"
      by (cases "sweep_bucket fam i nowNs r hot [] (bucket_at w1 i bi) ne rm w1") auto
    note f1 = next_bucket_facts [OF Suc.prems(1) nbk]
    have room: "0 + int (length (bucket_at w1 i bi)) \<le> int (n_shard (shard_at w1 i))"
      using bucket_le_shard [OF f1(2)] by (simp add: bucket_at_def)
    from sweep_bucket_pend [OF f1(1) room sb] have f2:
      "pend fam Q k i (int (length (bucket_at w1 i bi)) - int (length es)) w2"
      "\<forall>j b. bucket_at w2 j b = bucket_at w1 j b" "n_shard (shard_at w2 i) = n_shard (shard_at w1 i)"
      "im_opt (w_impl w2) = im_opt (w_impl w1)" "length (im_shards (w_impl w2)) = length (im_shards (w_impl w1))" "rm1 \<le> rm"
      "subseq es (bucket_at w1 i bi)"
      "filter (\<lambda>e. \<not> entry_expired e nowNs) es = filter (\<lambda>e. \<not> entry_expired e nowNs) (bucket_at w1 i bi)"
      by auto
    have i2: "i < length (im_shards (w_impl w2))" using pendD(1) [OF f2(1)] .
    have len: "length (sh_buckets (shard_at w2 i)) = length (sh_buckets (shard_at w1 i))"
      using pend_shard(1) [OF f2(1) i2] pend_shard(1) [OF f1(1) pendD(1) [OF f1(1)]] f2(4) by (simp add: shard_ok_def)
    have "set es \<subseteq> set (bucket_at w2 i bi)" using f2(2,7) by (auto elim: list_emb_set)
    then have "\<forall>e \<in> set es. entry_ok fam Q (w_impl w2) i bi e"
      using pend_bucket_entries [OF f2(1) i2] f1(2) len by (simp add: subset_iff)
    then have p3: "pend fam Q k i 0 (set_bucket i bi es w2)"
      using pend_set_bucket [OF f2(1), of bi es] f1(2) len f2(2) by simp
    have sh: "same_shape w (set_bucket i bi es w2)"
      using same_shape_simps(7) [of w i] same_shape_sweep_bucket [of w1 fam i nowNs r hot "[]" "bucket_at w1 i bi" ne rm]
        same_shape_trans [OF _ same_shape_simps(3) [of w2 i bi es]] nbk sb by (auto intro: same_shape_trans)
    have sw: "swept nowNs w (set_bucket i bi es w2)"
      using sh f1(3) f2(2,7,8) by (auto simp: swept_def)
    have run: "sweep_loop fam i nowNs r hot nb ne' rm1 (set_bucket i bi es w2) = (rm', w')"
      using Suc.prems(2) False nbk sb by simp
    from Suc.IH [OF p3 run] sw f2(6) show ?thesis using swept_trans by fastforce
  qed
qed

lemma sweepLocked_pend:
  assumes "pend fam Q k i 0 w" and "sweepLocked fam i nowNs r w = (n, w')"
  shows "pend fam Q k i 0 w'" and "swept nowNs w w'" and "n \<le> unat (sweepMaxEntries (im_opt (w_impl w)))"
  using assms sweep_loop_pend [OF assms(1)] by (auto simp: sweepLocked_def Let_def split: prod.splits)

lemma evict_scan_parts:
  assumes "evict_scan hot pre es ne = (Some (e, rest), ne')"
  shows "\<exists>xs ys. es = xs @ e # ys \<and> rest = rev pre @ xs @ ys \<and> can_evict hot e"
  using assms
proof (induction hot pre es ne rule: evict_scan.induct)
  case (2 hot pre a es ne)
  show ?case
  proof (cases "ne = 0 \<or> can_evict hot a")
    case True
    then show ?thesis using 2(2) by (auto split: if_splits intro: exI [of _ "[]"])
  next
    case False
    then obtain xs ys where "es = xs @ e # ys" "rest = rev (a # pre) @ xs @ ys" "can_evict hot e"
      using 2 by auto
    then show ?thesis by (intro exI [of _ "a # xs"] exI [of _ ys]) simp
  qed
qed simp

lemma evict_loop_pend:
  assumes "pend fam Q k i 0 w" and "evict_loop fam i nowNs r hot nb ne w = (ok, w')"
  shows "pend fam Q k i 0 w' \<and> same_shape w w'"
  using assms
proof (induction nb arbitrary: ne w)
  case 0
  then show ?case by simp
next
  case (Suc nb)
  obtain bi w1 where nbk: "next_bucket i w = (bi, w1)" by (cases "next_bucket i w")
  note f1 = next_bucket_facts [OF Suc.prems(1) nbk]
  have sh1: "same_shape w w1" using same_shape_simps(7) [of w i] nbk by simp
  obtain found ne' where sc: "evict_scan hot [] (bucket_at w1 i bi) ne = (found, ne')"
    by (cases "evict_scan hot [] (bucket_at w1 i bi) ne")
  show ?case
  proof (cases "ne = 0 \<or> found = None")
    case True
    then show ?thesis
      using Suc.prems Suc.IH [OF f1(1), of ne'] nbk sc sh1 by (auto intro: same_shape_trans split: if_splits)
  next
    case False
    then obtain e rest where found: "found = Some (e, rest)" by auto
    then obtain xs ys where parts: "bucket_at w1 i bi = xs @ e # ys" "rest = xs @ ys"
      using evict_scan_parts sc by fastforce
    let ?w2 = "set_bucket i bi rest w1"
    have ents: "\<forall>x \<in> set rest. entry_ok fam Q (w_impl w1) i bi x"
      using pend_bucket_entries [OF f1(1) pendD(1) [OF f1(1)] f1(2)] by (simp add: parts)
    have p2: "pend fam Q k i (-1) ?w2"
      using pend_set_bucket [OF f1(1,2) ents] by (simp add: parts)
    obtain ok' e' ft where ex: "exportTelemetryEndLocked fam e nowNs hot End_ResourceEvicted (w_tele ?w2) = (ok', e', ft)"
      by (cases "exportTelemetryEndLocked fam e nowNs hot End_ResourceEvicted (w_tele ?w2)") auto
    have w': "w' = retireUnlinkedLocked i e' r (?w2\<lparr>w_tele := ft\<rparr>)"
      using Suc.prems(2) False nbk sc found ex by auto
    have "pend fam Q k i (-1) (?w2\<lparr>w_tele := ft\<rparr>)" using p2 by (simp add: pend_frame)
    from pend_retire(1) [OF this, of e' r] have "pend fam Q k i 0 w'" by (simp add: w')
    moreover have "same_shape w1 w'" unfolding w' by (simp add: same_shape_def set_bucket_def retireUnlinkedLocked_def Let_def)
    ultimately show ?thesis using sh1 by (auto intro: same_shape_trans)
  qed
qed

section \<open>The invariant of the table\<close>

text \<open>\<open>world_ok\<close>: every entry lives in the shard and bucket of its hash, with its reverse key and a legal
  tracker state, the counters of shards, table and tracker are exact, and the total is within the limit.\<close>

definition world_ok :: "'ip AddrFamily \<Rightarrow> ('ip Key \<Rightarrow> bool) \<Rightarrow> nat \<times> Options \<Rightarrow> 'ip World \<Rightarrow> bool" where
  "world_ok fam Q k w \<longleftrightarrow> pend fam Q k 0 0 w"

lemma world_ok_pend: "i < length (im_shards (w_impl w)) \<Longrightarrow> pend fam Q k i 0 w \<longleftrightarrow> world_ok fam Q k w"
proof -
  assume "i < length (im_shards (w_impl w))"
  then have "0 < length (im_shards (w_impl w))" by (cases "im_shards (w_impl w)") auto
  moreover have "(if j = i then 0 else 0) = (0::int)" for j by simp
  ultimately show "pend fam Q k i 0 w \<longleftrightarrow> world_ok fam Q k w"
    using \<open>i < _\<close> unfolding world_ok_def pend_def Let_def by (simp only: if_cancel)
qed

lemma world_ok_shape: "world_ok fam Q k w \<Longrightarrow> same_shape w w' \<Longrightarrow> i < length (im_shards (w_impl w)) \<Longrightarrow> i < length (im_shards (w_impl w'))"
  by (simp add: same_shape_def)

lemma world_ok_sweep:
  assumes "world_ok fam Q k w" and "i < length (im_shards (w_impl w))" and "sweepLocked fam i nowNs r w = (n, w')"
  shows "world_ok fam Q k w'" and "swept nowNs w w'" and "n \<le> unat (sweepMaxEntries (im_opt (w_impl w)))"
    and "same_shape w w'"
proof -
  have p: "pend fam Q k i 0 w" using assms(1,2) world_ok_pend by blast
  note f = sweepLocked_pend [OF p assms(3)]
  show "swept nowNs w w'" "n \<le> unat (sweepMaxEntries (im_opt (w_impl w)))" using f by simp_all
  then show "same_shape w w'" by (simp add: swept_def)
  show "world_ok fam Q k w'" using f(1) world_ok_pend pendD(1) by blast
qed

lemma world_ok_evict:
  assumes "world_ok fam Q k w" and "i < length (im_shards (w_impl w))" and "evictOneLocked fam i nowNs r hot w = (ok, w')"
  shows "world_ok fam Q k w' \<and> same_shape w w'"
proof -
  have p: "pend fam Q k i 0 w" using assms(1,2) world_ok_pend by blast
  from evict_loop_pend [OF p] assms(3) have "pend fam Q k i 0 w'" "same_shape w w'"
    by (auto simp: evictOneLocked_def Let_def)
  then show ?thesis using world_ok_pend pendD(1) by blast
qed

lemma world_ok_frame [simp]:
  "world_ok fam Q k (w\<lparr>w_tele := ft\<rparr>) = world_ok fam Q k w" "world_ok fam Q k (count_overflow w) = world_ok fam Q k w"
  "world_ok fam Q k (resource_drop w) = world_ok fam Q k w" "world_ok fam Q k (snd (take_flow_id w)) = world_ok fam Q k w"
  by (simp_all add: world_ok_def pend_frame count_overflow_def resource_drop_def take_flow_id_def)

lemma world_ok_set_bucket:
  assumes "world_ok fam Q k w" and "i < length (im_shards (w_impl w))" and "b < length (sh_buckets (shard_at w i))"
    and "\<forall>e \<in> set es. entry_ok fam Q (w_impl w) i b e" and "length es = length (bucket_at w i b)"
  shows "world_ok fam Q k (set_bucket i b es w)"
proof -
  have "pend fam Q k i 0 w" using assms(1,2) world_ok_pend by blast
  from pend_set_bucket [OF this assms(3,4)] assms(2,5) show ?thesis
    by (simp add: world_ok_pend set_bucket_def)
qed

lemma world_ok_entries:
  assumes "world_ok fam Q k w" and "i < length (im_shards (w_impl w))" and "b < length (sh_buckets (shard_at w i))"
    and "e \<in> set (bucket_at w i b)"
  shows "entry_ok fam Q (w_impl w) i b e"
  using assms pend_bucket_entries world_ok_def by blast

lemma world_ok_buckets:
  assumes "world_ok fam Q k w" and "i < length (im_shards (w_impl w))"
  shows "length (sh_buckets (shard_at w i)) = unat (bucketsPerShard (im_opt (w_impl w)))"
  using pend_shard(1) [of fam Q k 0 0 w i] assms by (simp add: world_ok_def shard_ok_def)

lemma world_ok_link:
  assumes ok: "world_ok fam Q k w" and i: "i < length (im_shards (w_impl w))" and b: "b < length (sh_buckets (shard_at w i))"
    and e: "entry_ok fam Q (w_impl w) i b e" and room: "sc_totalEntries (w_shared w) < maxEntries (im_opt (w_impl w))"
  shows "world_ok fam Q k (link_entry i b e (snd (take_flow_id (add_total w))))"
proof -
  let ?f = "\<lambda>s :: 'a Shard. s\<lparr>sh_buckets := (sh_buckets s)[b := e # sh_buckets s ! b], sh_size := sh_size s + 1\<rparr>"
  let ?w = "link_entry i b e (snd (take_flow_id (add_total w)))"
  have p: "pend fam Q k i 0 w" using ok i world_ok_pend by blast
  have at: "shard_at ?w j = (if j = i then ?f (shard_at w i) else shard_at w j)" for j
    using i shard_at_upd [of i ?f w j] by (simp add: link_entry_def take_flow_id_def add_total_def Let_def shard_at_def upd_shard_def)
  have n: "n_shard (?f (shard_at w i)) = n_shard (shard_at w i) + 1"
    using sum_list_nat_update [of b "map length (sh_buckets (shard_at w i))" "length (e # sh_buckets (shard_at w i) ! b)"] b
    by (simp add: n_shard_def map_update)
  have ni: "n_impl (w_impl ?w) = n_impl (w_impl w) + 1"
    using n_impl_upd [OF i, of ?f] n by (simp add: n_impl_def link_entry_def take_flow_id_def add_total_def Let_def upd_shard_def shard_at_def)
  have c: "shard_ok fam Q (w_impl ?w) = shard_ok fam Q (w_impl w)"
    by (rule shard_ok_cong) (simp_all add: link_entry_def take_flow_id_def add_total_def Let_def)
  have okf: "shard_ok fam Q (w_impl w) i (?f (shard_at w i))"
    using pend_shard(1) [OF p i] b e unfolding shard_ok_def by (auto simp: nth_list_update)
  have inc: "uint (x + 1) = uint x + 1" if "uint x < uint (maxEntries (im_opt (w_impl w)))" for x :: u32
    using that uint_lt2p [of "maxEntries (im_opt (w_impl w))"] by (simp add: uint_word_ariths mod_pos_pos_trivial)
  have room': "uint (sc_totalEntries (w_shared w)) < uint (maxEntries (im_opt (w_impl w)))" using room by (simp add: word_less_def)
  have sz: "uint (sh_size (shard_at w i)) = int (n_shard (shard_at w i))" using pend_shard(2) [OF p i] by simp
  have small: "uint (sh_size (shard_at w i)) < uint (maxEntries (im_opt (w_impl w)))"
    "uint (im_totalEntries (w_impl w)) < uint (maxEntries (im_opt (w_impl w)))"
    using sz pendD(4,5) [OF p] room' n_shard_le_n_impl [OF i] by linarith+
  have le: "sc_totalEntries (w_shared w) + 1 \<le> maxEntries (im_opt (w_impl w))"
    using inc [OF room'] room' by (simp add: word_le_def)
  have "pend fam Q k i 0 ?w"
    unfolding pend_def Let_def c ni
  proof (intro conjI allI impI)
    fix j assume j: "j < length (im_shards (w_impl ?w))"
    then have j': "j < length (im_shards (w_impl w))" by (simp add: link_entry_def take_flow_id_def add_total_def Let_def)
    show "shard_ok fam Q (w_impl w) j (shard_at ?w j)" using okf pend_shard(1) [OF p j'] by (simp add: at)
    show "uint (sh_size (shard_at ?w j)) + (if j = i then 0 else 0) = int (n_shard (shard_at ?w j))"
      using pend_shard(2) [OF p j'] sz inc [OF small(1)] n by (simp add: at)
  qed (use i pendD [OF p] inc [OF small(2)] inc [OF room'] le in
      \<open>simp_all add: link_entry_def take_flow_id_def add_total_def Let_def\<close>)
  then show ?thesis using world_ok_pend pendD(1) by blast
qed

end
