(* ===== verification/ConntrackInvariant.thy ===== *)
theory ConntrackInvariant
  imports ConntrackSweep
begin

text \<open>
  Every operation of the connection tracker keeps the invariant of the table (\<open>world_ok\<close>).
\<close>

section \<open>Looking up\<close>

lemma find_index_Some:
  "find_index P xs = Some j \<Longrightarrow> j < length xs \<and> P (xs ! j) \<and> (\<forall>i < j. \<not> P (xs ! i))"
proof (induction xs arbitrary: j)
  case (Cons x xs)
  then show ?case by (cases j) (auto split: if_splits simp: less_Suc_eq_0_disj)
qed simp

lemma find_index_None: "find_index P xs = None \<longleftrightarrow> (\<forall>x \<in> set xs. \<not> P x)"
  by (induction xs) auto

lemma live_entry_Some:
  assumes "live_entry key nowNs es = Some j"
  shows "j < length es" and "entry_matches key (es ! j)" and "\<not> entry_expired (es ! j) nowNs"
    and "es ! j \<in> set es" and "\<forall>i < j. \<not> entry_matches key (es ! i)"
  using assms find_index_Some [of "entry_matches key" es j] by (auto simp: live_entry_def split: option.splits if_splits)

section \<open>The trackers keep the tracker states legal\<close>

lemma updateExisting_frame:
  assumes "updateExisting fam pkt e isReply = (st, e')"
  shows "en_key e' = en_key e" "en_revKey e' = en_revKey e" "en_tele e' = en_tele e"
  using assms by (auto simp: updateExisting_def Let_def split: if_splits prod.splits)

lemma tcp_peers_le:
  assumes "a \<le> Tcp_TIME_WAIT" "b \<le> Tcp_TIME_WAIT" "tcp_peers flags a b = (a', b')"
  shows "a' \<le> Tcp_TIME_WAIT \<and> b' \<le> Tcp_TIME_WAIT"
  using assms by (auto simp: tcp_peers_def bumpAtLeast_def Let_def split: if_splits)

lemma updateExisting_tcp:
  assumes "pk_proto pkt = P_TCP" and "tcpValidUpdate pkt" and "updateExisting fam pkt e isReply = (st, e')"
    and "tcp_peers (tcp_flags (pk_tcp pkt)) (if isReply then en_state1 e else en_state0 e)
           (if isReply then en_state0 e else en_state1 e) = (snd_st, rcv_st)"
  shows "st = CT_ESTABLISHED" and "en_state0 e' = (if isReply then rcv_st else snd_st)" and "en_state1 e' = (if isReply then snd_st else rcv_st)"
    and "en_expirationNs e' = addTimeoutNs (pk_tsNs pkt) (timeoutForTcpPeers (en_state0 e') (en_state1 e'))"
  using assms by (cases isReply; auto simp: updateExisting_def)+

lemma updateExisting_state_ok:
  assumes "state_ok fam e" and "k_proto (en_key e) = pk_proto pkt" and "updateExisting fam pkt e isReply = (st, e')"
  shows "state_ok fam e'"
proof -
  have k: "en_key e' = en_key e" using updateExisting_frame [OF assms(3)] by simp
  show ?thesis
  proof (cases "pk_proto pkt = P_TCP")
    case tcp: True
    show ?thesis
    proof (cases "tcpValidUpdate pkt")
      case True
      obtain a b where ab: "tcp_peers (tcp_flags (pk_tcp pkt)) (if isReply then en_state1 e else en_state0 e)
           (if isReply then en_state0 e else en_state1 e) = (a, b)" by (meson surj_pair)
      have "a \<le> Tcp_TIME_WAIT \<and> b \<le> Tcp_TIME_WAIT"
        by (rule tcp_peers_le [OF _ _ ab]) (use assms(1,2) tcp in \<open>simp_all add: state_ok_def\<close>)
      then show ?thesis using updateExisting_tcp(2,3) [OF tcp True assms(3) ab] assms(2) tcp k by (simp add: state_ok_def)
    next
      case False
      then show ?thesis using assms tcp by (simp add: updateExisting_def)
    qed
  next
    case False
    then show ?thesis
      using assms by (auto simp: state_ok_def updateExisting_def Let_def split: if_splits)
  qed
qed

lemma entry_ok_match:
  assumes "entry_ok fam Q im i b e" and "entry_matches key e"
  shows "key = en_key e \<or> key = reverseKey (en_key e)" "k_proto (en_key e) = k_proto key"
  using assms by (auto simp: entry_ok_def entry_matches_def keyEq_iff)

section \<open>Epochs\<close>

lemma world_ok_with_epoch:
  assumes "world_ok fam Q k w" and "epo_global (f (im_epoch (w_impl w))) < 3"
  shows "world_ok fam Q k (with_epoch f w)"
proof -
  have c: "shard_ok fam Q ((w_impl w)\<lparr>im_epoch := f (im_epoch (w_impl w))\<rparr>) = shard_ok fam Q (w_impl w)"
    by (rule shard_ok_cong) simp_all
  show ?thesis
    using assms unfolding world_ok_def pend_def Let_def with_epoch_def by (simp add: c shard_at_def n_impl_def)
qed

lemma slotForThread_global [simp]: "epo_global (snd (slotForThread t ep)) = epo_global ep"
  by (simp add: slotForThread_def Let_def split: option.splits)

lemma epoch_global_simps [simp]:
  "epo_global (epoch_enter s ep) = epo_global ep" "epo_global (epoch_exit s ep) = epo_global ep"
  by (simp_all add: epoch_enter_def epoch_exit_def split: option.splits)

lemma world_ok_reclaim:
  assumes "world_ok fam Q k w"
  shows "world_ok fam Q k (maybeAdvanceAndReclaim nowNs w)"
proof (cases "beginAdvanceForReclaim (im_epoch (w_impl w))")
  case (Pair found ep)
  let ?g = "\<lambda>s :: 'a Shard. \<lambda>r. s\<lparr>sh_retired := (sh_retired s)[unat r := []]\<rparr>"
  have g3: "(x mod 3 :: u8) < 3" for x by (simp add: word_less_nat_alt unat_mod)
  have ep: "epo_global ep < 3"
    using Pair assms g3 by (auto simp: beginAdvanceForReclaim_def Let_def world_ok_def pend_def split: if_splits)
  have n: "n_shard (?g s r) = n_shard s" for s r by (simp add: n_shard_def)
  have okg: "shard_ok fam Q im j (?g s r) = shard_ok fam Q im j s" for im j s r by (simp add: shard_ok_def)
  have c: "shard_ok fam Q (reclaimEpochAllShards r (im\<lparr>im_lastEpochAdvanceTsNs := x, im_epoch := y\<rparr>)) = shard_ok fam Q im" for r im x y
    by (rule shard_ok_cong) (simp_all add: reclaimEpochAllShards_def)
  have at: "im_shards (reclaimEpochAllShards r im) = map (\<lambda>s. ?g s r) (im_shards im)" for r im
    by (simp add: reclaimEpochAllShards_def)
  have "world_ok fam Q k (w\<lparr>w_impl := reclaimEpochAllShards r ((w_impl w)\<lparr>im_lastEpochAdvanceTsNs := nowNs, im_epoch := endReclaim ep\<rparr>)\<rparr>)" for r
    using assms ep unfolding world_ok_def pend_def Let_def
    by (simp add: c at shard_at_def n_impl_def okg n comp_def) (simp add: reclaimEpochAllShards_def endReclaim_def)
  moreover have "world_ok fam Q k (w\<lparr>w_impl := (w_impl w)\<lparr>im_epoch := ep\<rparr>\<rparr>)"
    using world_ok_with_epoch [OF assms, of "\<lambda>_. ep"] ep by (simp add: with_epoch_def)
  ultimately show ?thesis using assms Pair by (auto simp: maybeAdvanceAndReclaim_def Let_def split: option.splits)
qed

text \<open>Reclamation changes retired lists and epochs only.\<close>

definition same_table :: "'ip World \<Rightarrow> 'ip World \<Rightarrow> bool" where
  "same_table w w' \<longleftrightarrow> im_opt (w_impl w') = im_opt (w_impl w) \<and>
     length (im_shards (w_impl w')) = length (im_shards (w_impl w)) \<and> (\<forall>j < length (im_shards (w_impl w)). \<forall>b. bucket_at w' j b = bucket_at w j b) \<and>
     w_shared w' = w_shared w \<and> w_tele w' = w_tele w"

lemma same_table_reclaim: "same_table w (maybeAdvanceAndReclaim nowNs w)"
  by (auto simp: same_table_def maybeAdvanceAndReclaim_def Let_def reclaimEpochAllShards_def bucket_at_def shard_at_def
      split: option.splits prod.splits)

lemma same_table_with_epoch: "same_table w (with_epoch f w)"
  by (simp add: same_table_def with_epoch_def bucket_at_def shard_at_def)

section \<open>Every operation keeps the invariant\<close>

lemma world_ok_hot_sweep:
  assumes "world_ok fam Q k w" and "i < length (im_shards (w_impl w))"
  shows "world_ok fam Q k (maybeHotSweep fam i nowNs w)"
    and "length (im_shards (w_impl (maybeHotSweep fam i nowNs w))) = length (im_shards (w_impl w))"
    and "im_opt (w_impl (maybeHotSweep fam i nowNs w)) = im_opt (w_impl w)"
proof -
  let ?w1 = "upd_shard i (\<lambda>s. s\<lparr>sh_lastHotSweepTsNs := nowNs\<rparr>) w"
  have w1: "world_ok fam Q k ?w1"
    using pend_upd_shard_same [of fam Q k 0 0 w "\<lambda>s. s\<lparr>sh_lastHotSweepTsNs := nowNs\<rparr>" i] assms(1) by (simp add: world_ok_def)
  obtain n w2 where s: "sweepLocked fam i nowNs (epo_global (im_epoch (w_impl ?w1))) ?w1 = (n, w2)"
    by (cases "sweepLocked fam i nowNs (epo_global (im_epoch (w_impl ?w1))) ?w1")
  have i1: "i < length (im_shards (w_impl ?w1))" using assms(2) by simp
  note f = world_ok_sweep [OF w1 i1 s]
  have eq: "maybeHotSweep fam i nowNs w \<in> {w, w2, maybeAdvanceAndReclaim nowNs w2}"
    using s by (simp add: maybeHotSweep_def Let_def)
  show "world_ok fam Q k (maybeHotSweep fam i nowNs w)" using eq assms(1) f(1) world_ok_reclaim [OF f(1)] by auto
  show "length (im_shards (w_impl (maybeHotSweep fam i nowNs w))) = length (im_shards (w_impl w))"
    "im_opt (w_impl (maybeHotSweep fam i nowNs w)) = im_opt (w_impl w)"
    using eq f(4) same_table_reclaim [of w2 nowNs] by (auto simp: same_shape_def same_table_def)
qed

lemma index_bounds:
  assumes "world_ok fam Q k w"
  shows "shardIndex (w_impl w) h < length (im_shards (w_impl w))"
    and "bucketIndex (w_impl w) h < length (sh_buckets (shard_at w (shardIndex (w_impl w) h)))"
proof -
  have "0 < length (im_shards (w_impl w))" using assms by (simp add: world_ok_def pend_def Let_def)
  then show i: "shardIndex (w_impl w) h < length (im_shards (w_impl w))" by (simp add: shardIndex_def)
  have "bucketsPerShard (im_opt (w_impl w)) \<noteq> 0" using assms by (simp add: world_ok_def pend_def Let_def)
  then show "bucketIndex (w_impl w) h < length (sh_buckets (shard_at w (shardIndex (w_impl w) h)))"
    using world_ok_buckets [OF assms i] bucketIndex_bound by simp
qed

lemma index_cong:
  assumes "im_opt (w_impl w') = im_opt (w_impl w)" and "length (im_shards (w_impl w')) = length (im_shards (w_impl w))"
  shows "shardIndex (w_impl w') h = shardIndex (w_impl w) h" "bucketIndex (w_impl w') h = bucketIndex (w_impl w) h"
  using assms by (simp_all add: shardIndex_def bucketIndex_def bucketMask_def)

lemma world_ok_set_entry:
  assumes "world_ok fam Q k w" and "i < length (im_shards (w_impl w))" and "b < length (sh_buckets (shard_at w i))"
    and "entry_ok fam Q (w_impl w) i b e"
  shows "world_ok fam Q k (set_entry i b j e w)"
  unfolding set_entry_def
proof (rule world_ok_set_bucket [OF assms(1-3)])
  show "\<forall>x \<in> set ((bucket_at w i b)[j := e]). entry_ok fam Q (w_impl w) i b x"
    using world_ok_entries [OF assms(1-3)] assms(4) set_update_subset_insert [of "bucket_at w i b" j e] by auto
qed simp

lemma world_ok_inspect_miss:
  assumes "world_ok fam Q k w" and "i < length (im_shards (w_impl w))"
  shows "world_ok fam Q k (snd (inspect_miss fam pkt i w))"
proof -
  obtain n w1 where s: "sweepLocked fam i (pk_tsNs pkt) (epo_global (im_epoch (w_impl w))) w = (n, w1)"
    by (cases "sweepLocked fam i (pk_tsNs pkt) (epo_global (im_epoch (w_impl w))) w")
  note f = world_ok_sweep [OF assms s]
  show ?thesis using f(1) world_ok_reclaim [OF f(1)] s by (auto simp: inspect_miss_def Let_def)
qed

lemma world_ok_inspect:
  assumes "world_ok fam Q k w"
  shows "world_ok fam Q k (snd (inspectForPolicy fam t pkt w))"
proof (cases "pk_isFragment pkt \<or> makeKey fam pkt = None")
  case True
  then show ?thesis using assms by (auto simp: inspectForPolicy_def)
next
  case False
  then obtain key where key: "makeKey fam pkt = Some key" by auto
  obtain s ep where sl: "slotForThread t (im_epoch (w_impl w)) = (s, ep)" by (cases "slotForThread t (im_epoch (w_impl w))")
  let ?h = "hashKey fam key"
  let ?i = "shardIndex (w_impl w) ?h" and ?b = "bucketIndex (w_impl w) ?h"
  let ?w1 = "with_epoch (\<lambda>_. epoch_enter s ep) w"
  let ?w2 = "maybeHotSweep fam ?i (pk_tsNs pkt) ?w1"
  have g: "epo_global ep < 3"
    using slotForThread_global [of t "im_epoch (w_impl w)"] assms by (simp add: sl world_ok_def pend_def Let_def)
  have w1: "world_ok fam Q k ?w1" by (rule world_ok_with_epoch [OF assms]) (simp add: g)
  have i1: "?i < length (im_shards (w_impl ?w1))" using index_bounds(1) [OF assms] by (simp add: with_epoch_def)
  note f = world_ok_hot_sweep [OF w1 i1, of "pk_tsNs pkt"]
  have ix: "shardIndex (w_impl ?w2) ?h = ?i" "bucketIndex (w_impl ?w2) ?h = ?b"
    using index_cong [of ?w2 w ?h] f(2,3) by (simp_all add: with_epoch_def)
  note bd = index_bounds [OF f(1), of ?h, unfolded ix]
  have ik: "world_ok fam Q k (snd (inspect_key fam pkt key ?i ?b ?w2))"
  proof (cases "live_entry key (pk_tsNs pkt) (bucket_at ?w2 ?i ?b)")
    case None
    then show ?thesis using world_ok_inspect_miss [OF f(1) bd(1)] by (simp add: inspect_key_def)
  next
    case (Some j)
    let ?e = "bucket_at ?w2 ?i ?b ! j"
    note l = live_entry_Some [OF Some]
    have eok: "entry_ok fam Q (w_impl ?w2) ?i ?b ?e" using world_ok_entries [OF f(1) bd l(4)] .
    obtain st e' where u: "updateExisting fam pkt ?e (keyEq (en_revKey ?e) key) = (st, e')"
      by (cases "updateExisting fam pkt ?e (keyEq (en_revKey ?e) key)")
    have "k_proto (en_key ?e) = pk_proto pkt" using entry_ok_match(2) [OF eok l(2)] makeKey_proto [OF key] by simp
    then have "entry_ok fam Q (w_impl ?w2) ?i ?b e'"
      using eok updateExisting_frame [OF u] updateExisting_state_ok [OF _ _ u] by (simp add: entry_ok_def)
    then show ?thesis using world_ok_set_entry [OF f(1) bd] Some u by (simp add: inspect_key_def Let_def)
  qed
  let ?w3 = "snd (inspect_key fam pkt key ?i ?b ?w2)"
  have "world_ok fam Q k (with_epoch (epoch_exit s) ?w3)"
    using ik by (intro world_ok_with_epoch) (simp_all add: world_ok_def pend_def Let_def)
  then show ?thesis using False key sl by (simp add: inspectForPolicy_def Let_def split_beta)
qed

lemma new_entry_ok:
  assumes "makeKey fam pkt = Some key" and "Q key"
  shows "entry_ok fam Q im (shardIndex im (hashKey fam key)) (bucketIndex im (hashKey fam key)) (new_entry fam pkt key flowId)"
  using assms makeKey_proto [OF assms(1)] by (simp add: entry_ok_def new_entry_def state_ok_def)

lemma world_ok_create:
  assumes "world_ok fam Q k w" and "sc_totalEntries (w_shared w) < maxEntries (im_opt (w_impl w))"
    and "\<And>flowId. entry_ok fam Q (w_impl w) i b (mk flowId)"
    and "i < length (im_shards (w_impl w))" and "b < length (sh_buckets (shard_at w i))"
    and "take_flow_id (add_total w) = (flowId, w2)"
  shows "world_ok fam Q k (link_entry i b (mk flowId) w2)"
  using world_ok_link [OF assms(1,4,5) assms(3) assms(2), of flowId] assms(6) by simp

lemma same_shape_index:
  assumes "same_shape w w'"
  shows "shardIndex (w_impl w') h = shardIndex (w_impl w) h" "bucketIndex (w_impl w') h = bucketIndex (w_impl w) h"
    "entry_ok fam Q (w_impl w') = entry_ok fam Q (w_impl w)" "im_opt (w_impl w') = im_opt (w_impl w)"
    "length (im_shards (w_impl w')) = length (im_shards (w_impl w))"
  using assms index_cong [of w' w h] entry_ok_cong [of "w_impl w'" "w_impl w" fam Q] by (simp_all add: same_shape_def)

lemma world_ok_commit:
  assumes ok: "world_ok fam Q k w" and Q: "\<And>key. makeKey fam pkt = Some key \<Longrightarrow> Q key"
  shows "world_ok fam Q k (commitAccepted fam pkt view w)"
proof (cases "makeKey fam pkt")
  case None
  then show ?thesis using ok by (simp add: commitAccepted_def)
next
  case (Some key)
  let ?i = "shardIndex (w_impl w) (hashKey fam key)" and ?b = "bucketIndex (w_impl w) (hashKey fam key)"
  note bd = index_bounds [OF ok, of "hashKey fam key"]
  obtain n w1 where s: "sweepLocked fam ?i (pk_tsNs pkt) (epo_global (im_epoch (w_impl w))) w = (n, w1)"
    by (cases "sweepLocked fam ?i (pk_tsNs pkt) (epo_global (im_epoch (w_impl w))) w")
  note f = world_ok_sweep [OF ok bd(1) s]
  note sh = same_shape_index [OF f(4)]
  obtain flowId w2 where tk: "take_flow_id (add_total w1) = (flowId, w2)" by (cases "take_flow_id (add_total w1)")
  let ?w3 = "link_entry ?i ?b (new_entry fam pkt key flowId) w2"
  have w3: "world_ok fam Q k ?w3" if "sc_totalEntries (w_shared w1) < maxEntries (im_opt (w_impl w1))"
  proof (rule world_ok_create [OF f(1) that _ _ _ tk])
    show "entry_ok fam Q (w_impl w1) ?i ?b (new_entry fam pkt key flowId)" for flowId
      using new_entry_ok [of fam pkt key Q "w_impl w", OF Some Q [OF Some]] by (simp add: sh)
    show "?i < length (im_shards (w_impl w1))" using bd by (simp add: sh)
    show "?b < length (sh_buckets (shard_at w1 ?i))" using index_bounds(2) [OF f(1), of "hashKey fam key"] by (simp add: sh)
  qed
  have "world_ok fam Q k (commit_key fam pkt key ?i ?b w)"
    using ok f(1) w3 world_ok_reclaim [OF w3] s tk by (auto simp: commit_key_def Let_def not_le)
  then show ?thesis using ok Some by (simp add: commitAccepted_def Let_def)
qed

lemma clampCap_bounds:
  assumes "(m :: u32) \<noteq> 0"
  shows "clampCap (ucast m) (ucast (b :: u32)) \<noteq> 0"
    and "ucast (n :: u32) < clampCap (ucast m) (ucast b) \<Longrightarrow> n < m"
proof -
  have u: "uint (ucast x :: u64) = uint x" for x :: u32
    by (rule uint_up_ucast) (simp add: is_up)
  have z: "(ucast m :: u64) \<noteq> 0" using assms u [of m] by (metis uint_0_iff)
  show "clampCap (ucast m) (ucast b) \<noteq> 0" by (cases "(ucast b :: u64) = 0") (simp_all add: clampCap_def z)
  have "clampCap (ucast m) (ucast b) \<le> ucast m" by (auto simp: clampCap_def z not_less)
  then show "ucast n < clampCap (ucast m) (ucast b) \<Longrightarrow> n < m"
    using u [of m] u [of n] by (simp add: word_less_def word_le_def)
qed

lemma world_ok_observe_create:
  assumes ok: "world_ok fam Q k w" and "Q key" and "k_proto key = pk_proto pkt"
    and "observe_create fam hot cfg pkt key (shardIndex (w_impl w) (hashKey fam key)) (bucketIndex (w_impl w) (hashKey fam key))
           ctResult facts l3 w = (res, w')"
  shows "world_ok fam Q k w' \<and> same_shape w w'"
proof -
  let ?i = "shardIndex (w_impl w) (hashKey fam key)" and ?b = "bucketIndex (w_impl w) (hashKey fam key)"
  let ?r = "epo_global (im_epoch (w_impl w))"
  note bd = index_bounds [OF ok, of "hashKey fam key"]
  obtain n w1 where s: "sweepLocked fam ?i (pk_tsNs pkt) ?r w = (n, w1)" by (cases "sweepLocked fam ?i (pk_tsNs pkt) ?r w")
  note f1 = world_ok_sweep [OF ok bd(1) s]
  let ?cap = "clampCap (ucast (maxEntries (im_opt (w_impl w1)))) (ucast (maxFlowEntries cfg))"
  define over where "over = (?cap \<noteq> 0 \<and> ?cap \<le> ucast (sc_totalEntries (w_shared w1)))"
  obtain ev w2 where e: "(if over then evictOneLocked fam ?i (pk_tsNs pkt) ?r hot (count_overflow w1) else (False, w1)) = (ev, w2)"
    by (meson surj_pair)
  have sh1: "same_shape w1 (count_overflow w1)" by simp
  have f2: "world_ok fam Q k w2 \<and> same_shape w w2"
  proof (cases over)
    case True
    have "world_ok fam Q k (count_overflow w1)" "?i < length (im_shards (w_impl (count_overflow w1)))"
      using f1(1) bd(1) same_shape_index(5) [OF f1(4)] same_shape_index(5) [OF sh1] by simp_all
    from world_ok_evict [OF this] e True have "world_ok fam Q k w2" "same_shape (count_overflow w1) w2" by auto
    then show ?thesis using same_shape_trans [OF f1(4) same_shape_trans [OF sh1]] by simp
  next
    case False
    then show ?thesis using f1 e by simp
  qed
  note sh = same_shape_index [OF conjunct2 [OF f2]]
  obtain flowId w3 where tk: "take_flow_id (add_total w2) = (flowId, w3)" by (cases "take_flow_id (add_total w2)")
  have sh3: "same_shape w (link_entry ?i ?b en w3)" for en
    using f2 same_shape_simps(9,10,11) tk by (metis same_shape_trans snd_conv)
  have "maxEntries (im_opt (w_impl w1)) \<noteq> 0" using pendD(7) f1(1) unfolding world_ok_def by blast
  from clampCap_bounds(1) [OF this, of "maxFlowEntries cfg"] clampCap_bounds(2) [OF this, of _ "maxFlowEntries cfg"] same_shape_index(4) [OF f1(4)]
  have cap0: "?cap \<noteq> 0" and cap: "\<not> ?cap \<le> ucast (sc_totalEntries (w_shared w2)) \<Longrightarrow> sc_totalEntries (w_shared w2) < maxEntries (im_opt (w_impl w2))"
    by (simp_all add: sh not_le)
  have w4: "world_ok fam Q k (link_entry ?i ?b (tele_new_entry fam cfg sid pkt key ctResult facts l3 flowId) w3)"
    if "\<not> ?cap \<le> ucast (sc_totalEntries (w_shared w2))" for sid
  proof (rule world_ok_create [OF conjunct1 [OF f2] cap [OF that] _ _ _ tk])
    show "entry_ok fam Q (w_impl w2) ?i ?b (tele_new_entry fam cfg sid pkt key ctResult facts l3 flowId)" for flowId
      using assms(2,3) by (simp add: sh entry_ok_def tele_new_entry_def state_ok_def Let_def)
    show "?i < length (im_shards (w_impl w2))" using bd by (simp add: sh)
    show "?b < length (sh_buckets (shard_at w2 ?i))" using index_bounds(2) [OF conjunct1 [OF f2], of "hashKey fam key"] by (simp add: sh)
  qed
  have rd: "same_shape w2 (resource_drop w2)" "same_shape w2 (resource_drop (count_overflow w2))"
    by (simp_all add: resource_drop_def count_overflow_def same_shape_def)
  have "w' \<in> {w2, resource_drop w2, resource_drop (count_overflow w2)} \<or>
      (\<not> ?cap \<le> ucast (sc_totalEntries (w_shared w2)) \<and>
       w' = link_entry ?i ?b (tele_new_entry fam cfg (hp_sessionId hot) pkt key ctResult facts l3 flowId) w3)"
    using assms(4) s e tk cap0 unfolding observe_create_def Let_def over_def
    by (auto split: if_splits)
  then show ?thesis using f2 w4 sh3 rd by (auto intro: same_shape_trans)
qed

lemma observe_entry_frame:
  assumes "observe_entry fam hot cfg pkt ctResult facts l3 e ft = (e', ft')"
  shows "en_key e' = en_key e" "en_revKey e' = en_revKey e" "en_state0 e' = en_state0 e" "en_state1 e' = en_state1 e"
  using assms by (auto simp: observe_entry_def export_fields_def Let_def split: prod.splits if_splits option.splits)

lemma world_ok_set_tele [simp]: "same_shape w (w\<lparr>w_shared := sc, w_tele := ft\<rparr>)"
  by (simp add: same_shape_def)

lemma ensure_session_frame:
  assumes "ensureTelemetrySession hot ts d ob l3 ctResult t w = (t', w')"
  shows "world_ok fam Q k w' = world_ok fam Q k w" "bucket_at w' = bucket_at w" "same_shape w w'" "shard_at w' = shard_at w"
  using assms world_ok_frame(4) [of fam Q k w]
  by (auto simp: ensureTelemetrySession_def Let_def take_flow_id_def same_shape_def bucket_at_def shard_at_def fun_eq_iff split: if_splits)

lemma world_ok_observe_key:
  fixes fam :: "'ip AddrFamily"
  assumes ok: "world_ok fam Q k w" and Q: "Q key" "k_proto key = pk_proto pkt"
  shows "world_ok fam Q k (observe_key fam hot cfg pkt key (shardIndex (w_impl w) (hashKey fam key))
           (bucketIndex (w_impl w) (hashKey fam key)) ctResult facts l3 w)"
proof -
  let ?i = "shardIndex (w_impl w) (hashKey fam key)" and ?b = "bucketIndex (w_impl w) (hashKey fam key)"
  obtain found didRetire w1 where fd: "(case live_entry key (pk_tsNs pkt) (bucket_at w ?i ?b) of
               Some j \<Rightarrow> (Some j, False, w)
             | None \<Rightarrow>
                 (case observe_create fam hot cfg pkt key ?i ?b ctResult facts l3 w of
                    (None, w') \<Rightarrow> (None, False, w')
                  | (Some r, w') \<Rightarrow> (Some 0, r, w'))) = (found, didRetire, w1)"
    by (meson prod_cases3)
  obtain res w' where oc: "observe_create fam hot cfg pkt key ?i ?b ctResult facts l3 w = (res, w')"
    by (cases "observe_create fam hot cfg pkt key ?i ?b ctResult facts l3 w")
  have w1: "world_ok fam Q k w1" "same_shape w w1"
    using fd ok world_ok_observe_create [OF ok Q oc] by (auto simp: oc split: option.splits)
  note sh = same_shape_index [OF w1(2)]
  note bd = index_bounds [OF w1(1), of "hashKey fam key", unfolded sh]
  show ?thesis
  proof (cases found)
    case None
    then show ?thesis using w1 fd by (simp add: observe_key_def)
  next
    case (Some j)
    let ?e = "bucket_at w1 ?i ?b ! j"
    obtain t w2 where en: "ensureTelemetrySession hot (pk_tsNs pkt) (tf_packetDir facts)
        (if l3 then Observation_L3 else Observation_Normal) l3 ctResult (en_tele ?e) w1 = (t, w2)" by (meson surj_pair)
    obtain e' ft where oe: "observe_entry fam hot cfg pkt ctResult facts l3 (?e\<lparr>en_tele := t\<rparr>) (w_tele w2) = (e', ft)"
      by (meson surj_pair)
    note ef = ensure_session_frame [OF en]
    let ?w2 = "w2\<lparr>w_tele := ft\<rparr>"
    have w2: "world_ok fam Q k ?w2" using ef(1) [of fam Q k] w1(1) by simp
    have bd2: "?i < length (im_shards (w_impl ?w2))" "?b < length (sh_buckets (shard_at ?w2 ?i))"
      using bd same_shape_index(5) [OF ef(3)] ef(4) sh(5) by simp_all
    have "world_ok fam Q k (set_entry ?i ?b j e' ?w2)"
    proof (cases "j < length (bucket_at w1 ?i ?b)")
      case True
      then have "entry_ok fam Q (w_impl w1) ?i ?b ?e" using world_ok_entries [OF w1(1) _ bd(2)] bd(1) sh(5) by simp
      then have "entry_ok fam Q (w_impl w1) ?i ?b e'"
        using observe_entry_frame [OF oe] by (simp add: entry_ok_def state_ok_def)
      then have "entry_ok fam Q (w_impl ?w2) ?i ?b e'" using same_shape_index(3) [OF ef(3), of fam Q] by simp
      then show ?thesis by (rule world_ok_set_entry [OF w2 bd2])
    next
      case False
      then have "set_entry ?i ?b j e' ?w2 = set_bucket ?i ?b (bucket_at ?w2 ?i ?b) ?w2"
        using ef(2) by (simp add: set_entry_def list_update_beyond)
      then show ?thesis using world_ok_set_bucket [OF w2 bd2] world_ok_entries [OF w2 bd2] by simp
    qed
    then show ?thesis using fd Some en oe by (auto simp: observe_key_def Let_def intro: world_ok_reclaim)
  qed
qed

text \<open>The key an observation uses.\<close>

definition observation_key :: "'ip AddrFamily \<Rightarrow> 'ip CtPacket \<Rightarrow> TelemetryPacketFacts \<Rightarrow> 'ip Key option" where
  "observation_key fam pkt facts =
     (case makeKey fam pkt of Some k \<Rightarrow> Some k
      | None \<Rightarrow> if isL3ObservationStatus (tf_l4Status facts) then Some (makeObservationKey pkt) else None)"

lemma observation_key_proto: "observation_key fam pkt facts = Some key \<Longrightarrow> k_proto key = pk_proto pkt"
  using makeKey_proto [of fam pkt] by (auto simp: observation_key_def makeObservationKey_def Let_def split: option.splits if_splits)

lemma world_ok_observe:
  assumes ok: "world_ok fam Q k w" and Q: "\<And>key. observation_key fam pkt facts = Some key \<Longrightarrow> Q key"
  shows "world_ok fam Q k (observeFlowTelemetry fam t pkt ctResult hot facts w)"
proof (cases "observation_key fam pkt facts")
  case None
  then show ?thesis using ok by (simp add: observeFlowTelemetry_def Let_def observation_key_def split: option.splits)
next
  case (Some key)
  obtain s ep where sl: "slotForThread t (im_epoch (w_impl w)) = (s, ep)" by (cases "slotForThread t (im_epoch (w_impl w))")
  let ?w1 = "with_epoch (\<lambda>_. epoch_enter s ep) w"
  have g: "epo_global ep < 3"
    using slotForThread_global [of t "im_epoch (w_impl w)"] ok by (simp add: sl world_ok_def pend_def Let_def)
  have w1: "world_ok fam Q k ?w1" by (rule world_ok_with_epoch [OF ok]) (simp add: g)
  have ix: "shardIndex (w_impl ?w1) = shardIndex (w_impl w)" "bucketIndex (w_impl ?w1) = bucketIndex (w_impl w)"
    by (simp_all add: with_epoch_def shardIndex_def bucketIndex_def bucketMask_def fun_eq_iff)
  have w2: "world_ok fam Q k (observe_key fam hot cfg pkt key (shardIndex (w_impl w) (hashKey fam key))
           (bucketIndex (w_impl w) (hashKey fam key)) ctResult facts l3 ?w1)" for cfg l3
    using world_ok_observe_key [OF w1 Q [OF Some] observation_key_proto [OF Some], of hot cfg ctResult facts l3] by (simp add: ix)
  have "world_ok fam Q k (with_epoch (epoch_exit s) x)" if "world_ok fam Q k x" for x
    using that by (intro world_ok_with_epoch) (simp_all add: world_ok_def pend_def Let_def)
  then show ?thesis
    using ok Some sl w2 by (simp add: observeFlowTelemetry_def Let_def observation_key_def [symmetric] split: option.splits)
qed

section \<open>Ends of a telemetry session\<close>

definition same_conn :: "'ip Entry \<Rightarrow> 'ip Entry \<Rightarrow> bool" where
  "same_conn e e' \<longleftrightarrow> en_key e' = en_key e \<and> en_revKey e' = en_revKey e \<and> en_state0 e' = en_state0 e \<and>
     en_state1 e' = en_state1 e \<and> en_expirationNs e' = en_expirationNs e"

lemma same_conn_end:
  "exportTelemetryEndLocked fam e nowNs hot r ft = (ok, e', ft') \<Longrightarrow> same_conn e e'"
  by (auto simp: exportTelemetryEndLocked_def export_fields_def same_conn_def Let_def split: if_splits option.splits prod.splits)

lemma emit_bucket_conn:
  "emit_bucket fam nowNs hot es ne ft = (es', ne', n, ft') \<Longrightarrow> list_all2 same_conn es es'"
proof (induction fam nowNs hot es ne ft arbitrary: es' ne' n ft' rule: emit_bucket.induct)
  case (2 fam nowNs hot e es ne ft)
  have rfl: "same_conn x x" for x :: "'a Entry" by (simp add: same_conn_def)
  show ?case
  proof (cases "ne = 0")
    case True
    then show ?thesis using 2(2) by (auto simp: list.rel_refl rfl)
  next
    case False
    obtain ok e' ft1 where e: "(if can_evict hot e then exportTelemetryEndLocked fam e nowNs hot End_TelemetryDisabled ft
        else (False, e, ft)) = (ok, e', ft1)" by (meson prod_cases3)
    obtain es1 ne1 n1 ft2 where r: "emit_bucket fam nowNs hot es (ne - 1) ft1 = (es1, ne1, n1, ft2)" by (meson prod_cases4)
    have "same_conn e e'" using e rfl same_conn_end by (auto split: if_splits)
    moreover have "list_all2 same_conn es es1" using 2(1) [OF False e [symmetric] refl refl r] by simp
    ultimately show ?thesis using 2(2) False e r by auto
  qed
qed simp

lemma entry_ok_same_conn: "same_conn e e' \<Longrightarrow> entry_ok fam Q im i b e \<Longrightarrow> entry_ok fam Q im i b e'"
  by (simp add: same_conn_def entry_ok_def state_ok_def)

lemma world_ok_emit_buckets:
  assumes "world_ok fam Q k w" and "i < length (im_shards (w_impl w))" and "unat bi < unat (bucketsPerShard (im_opt (w_impl w)))"
    and "emit_buckets fam i nowNs hot scans bi nb ne w = (bi', nb', ne', n, w')"
  shows "world_ok fam Q k w' \<and> same_shape w w'"
  using assms
proof (induction scans arbitrary: bi nb ne w n bi' nb' ne' w')
  case 0
  then show ?case by simp
next
  case (Suc scans)
  show ?case
  proof (cases "nb = 0 \<or> ne = 0")
    case True
    then show ?thesis using Suc.prems by auto
  next
    case False
    obtain es ne1 n1 ft where e: "emit_bucket fam nowNs hot (bucket_at w i (unat bi)) ne (w_tele w) = (es, ne1, n1, ft)"
      by (meson prod_cases4)
    let ?w1 = "set_bucket i (unat bi) es (w\<lparr>w_tele := ft\<rparr>)"
    obtain b2 nb2 ne2 n2 w2 where r: "emit_buckets fam i nowNs hot scans ((bi + 1) AND bucketMask (w_impl w)) (nb - 1) ne1 ?w1 = (b2, nb2, ne2, n2, w2)"
      by (meson prod_cases5)
    have bd: "unat bi < length (sh_buckets (shard_at w i))" using world_ok_buckets [OF Suc.prems(1,2)] Suc.prems(3) by simp
    note rel = emit_bucket_conn [OF e]
    have ents: "\<forall>x \<in> set es. entry_ok fam Q (w_impl w) i (unat bi) x"
    proof
      fix x assume "x \<in> set es"
      then obtain y where "y \<in> set (bucket_at w i (unat bi))" "same_conn y x"
        using rel by (metis in_set_conv_nth list_all2_conv_all_nth)
      then show "entry_ok fam Q (w_impl w) i (unat bi) x" using world_ok_entries [OF Suc.prems(1,2) bd] entry_ok_same_conn by blast
    qed
    have w1: "world_ok fam Q k ?w1"
      using world_ok_set_bucket [of fam Q k "w\<lparr>w_tele := ft\<rparr>" i "unat bi" es] Suc.prems(1,2) bd ents list_all2_lengthD [OF rel] by simp
    have sh1: "same_shape w ?w1" by (simp add: same_shape_def set_bucket_def)
    have i1: "i < length (im_shards (w_impl ?w1))" "im_opt (w_impl ?w1) = im_opt (w_impl w)" using Suc.prems(2) by (simp_all add: set_bucket_def)
    have "bucketsPerShard (im_opt (w_impl w)) \<noteq> 0" using Suc.prems(1) pendD(2) unfolding world_ok_def by blast
    from cursor_bound [OF this] have "unat ((bi + 1) AND bucketMask (w_impl w)) < unat (bucketsPerShard (im_opt (w_impl ?w1)))"
      by (simp add: bucketMask_def i1)
    from Suc.IH [OF w1 i1(1) this r] have "world_ok fam Q k w2 \<and> same_shape w w2" using same_shape_trans [OF sh1] by simp
    then show ?thesis using Suc.prems(4) False e r by simp
  qed
qed

lemma world_ok_emit_shards:
  assumes "world_ok fam Q k w" and "\<forall>i \<in> set is. i < length (im_shards (w_impl w))"
    and "emit_shards fam nowNs hot is nb ne w = (n, w')"
  shows "world_ok fam Q k w'"
  using assms
proof (induction "is" arbitrary: nb ne w n w')
  case (Cons i "is")
  show ?case
  proof (cases "nb = 0 \<or> ne = 0")
    case True
    then show ?thesis using Cons.prems by auto
  next
    case False
    obtain bi nb1 ne1 n1 w1 where e: "emit_buckets fam i nowNs hot (length (sh_buckets (shard_at w i)))
        (sh_cursorBucket (shard_at w i) AND bucketMask (w_impl w)) nb ne w = (bi, nb1, ne1, n1, w1)" by (meson prod_cases5)
    let ?w2 = "upd_shard i (\<lambda>s. s\<lparr>sh_cursorBucket := bi\<rparr>) w1"
    obtain n2 w3 where r: "emit_shards fam nowNs hot is nb1 ne1 ?w2 = (n2, w3)" by (meson surj_pair)
    have "bucketsPerShard (im_opt (w_impl w)) \<noteq> 0" using Cons.prems(1) pendD(2) unfolding world_ok_def by blast
    from cursor_bound [OF this] have "unat (sh_cursorBucket (shard_at w i) AND bucketMask (w_impl w)) < unat (bucketsPerShard (im_opt (w_impl w)))"
      by (simp add: bucketMask_def)
    from world_ok_emit_buckets [OF Cons.prems(1) _ this e] Cons.prems(2)
    have w1: "world_ok fam Q k w1" "same_shape w w1" by simp_all
    have w2: "world_ok fam Q k ?w2"
      using pend_upd_shard_same [of fam Q k 0 0 w1 "\<lambda>s. s\<lparr>sh_cursorBucket := bi\<rparr>" i] w1(1) by (simp add: world_ok_def)
    have "\<forall>j \<in> set is. j < length (im_shards (w_impl ?w2))" using Cons.prems(2) w1(2) by (simp add: same_shape_def)
    from Cons.IH [OF w2 this r] show ?thesis using Cons.prems(3) False e r by simp
  qed
qed simp

lemma world_ok_emit: "world_ok fam Q k w \<Longrightarrow> world_ok fam Q k (snd (emitTelemetryDisabledEnds fam nowNs hot w))"
  by (auto simp: emitTelemetryDisabledEnds_def Let_def split_beta
      intro: world_ok_emit_shards [where w = w, OF _ _ surjective_pairing])

section \<open>A new table\<close>

lemma clampU32_range: "1 \<le> clampU32 x 1 4096" "clampU32 x 1 4096 \<le> 4096"
  unfolding clampU32_def word_less_nat_alt word_le_nat_alt by simp_all

lemma normalized_options:
  "bucketsPerShard (normalize_options opt) \<noteq> 0" "maxEntries (normalize_options opt) \<noteq> 0"
  "0 < unat (opt_shards (normalize_options opt))" "sweepMaxEntries (normalize_options opt) \<noteq> 0"
  "sweepMaxBuckets (normalize_options opt) \<noteq> 0"
proof -
  show "bucketsPerShard (normalize_options opt) \<noteq> 0" by (simp add: normalize_options_def isPow2_def)
  show "maxEntries (normalize_options opt) \<noteq> 0" "sweepMaxEntries (normalize_options opt) \<noteq> 0" "sweepMaxBuckets (normalize_options opt) \<noteq> 0"
    by (simp_all add: normalize_options_def)
  define c where "c = clampU32 (ucast (opt_shards opt)) 1 4096"
  have c: "1 \<le> c" "c \<le> 4096" unfolding c_def by (rule clampU32_range)+
  then have "1 \<le> unat c" "unat c \<le> 4096" by (simp_all add: word_le_nat_alt)
  then have "unat (ucast c :: u16) = unat c" by (simp add: unsigned_ucast_eq take_bit_nat_eq_self)
  then show "0 < unat (opt_shards (normalize_options opt))" using \<open>1 \<le> unat c\<close> by (simp add: normalize_options_def c_def)
qed

lemma normalize_idem: "normalize_options (normalize_options opt) = normalize_options opt"
proof -
  have "clampU32 (ucast (ucast (clampU32 (ucast (x :: u16)) 1 4096) :: u16)) 1 4096 = clampU32 (ucast x) 1 4096" for x
  proof -
    define c where "c = clampU32 (ucast x) 1 4096"
    have c: "1 \<le> c" "c \<le> 4096" unfolding c_def by (rule clampU32_range)+
    then have "unat c \<le> 4096" by (simp add: word_le_nat_alt)
    then have "ucast (ucast c :: u16) = c" by (intro word_unat_eq_iff [THEN iffD2]) (simp add: unsigned_ucast_eq unsigned_take_bit_eq take_bit_nat_eq_self)
    then show ?thesis using c by (simp add: c_def [symmetric]) (auto simp: clampU32_def)
  qed
  then show ?thesis by (simp add: normalize_options_def isPow2_def)
qed

lemma world_ok_new:
  "world_ok fam Q (0, normalize_options opts) \<lparr>w_shared = new_shared, w_impl = new_impl opts, w_tele = ft\<rparr>"
proof -
  have n: "n_shard (new_shard m) = 0" for m by (simp add: n_shard_def new_shard_def sum_list_replicate)
  have s: "shard_ok fam Q (new_impl opts) j (new_shard (unat (bucketsPerShard (normalize_options opts))))" for j
    by (simp add: shard_ok_def new_shard_def new_impl_def Let_def)
  let ?im = "new_impl opts :: 'a Impl" and ?o = "normalize_options opts"
  have im: "im_opt ?im = ?o" "im_shards ?im = replicate (unat (opt_shards ?o)) (new_shard (unat (bucketsPerShard ?o)))"
    "im_epoch ?im = new_epoch" "im_totalEntries ?im = 0" by (simp_all add: new_impl_def Let_def)
  have z: "sh_size (new_shard m) = 0" for m by (simp add: new_shard_def)
  show ?thesis
    unfolding world_ok_def pend_def Let_def
    by (simp add: shard_at_def im s n z n_impl_def normalized_options new_shared_def new_epoch_def sum_list_replicate)
qed

end
