(* ===== verification/ConntrackRuns.thy ===== *)
theory ConntrackRuns
  imports ConntrackInvariant
begin

text \<open>
  Lookups across sweeps, what inspection reports for a connection in the table, and runs of the tracker of
  both families: the invariant of every reachable state and the establishment of a connection by its reply.
\<close>

section \<open>Sweeping does not disturb live connections\<close>

lemma subseq_filter_length: "subseq xs ys \<Longrightarrow> length (filter P xs) \<le> length (filter P ys)"
  using subseq_filter [of xs ys P] list_emb_length by blast

lemma kept_prefix:
  assumes "subseq es' es" and "filter P es' = filter P es" and "es = xs @ e # ys" and "P e"
  shows "\<exists>xs' ys'. es' = xs' @ e # ys' \<and> subseq xs' xs"
  using assms
proof (induction xs arbitrary: es es')
  case Nil
  then show ?case
  proof (cases es')
    case (Cons a es'')
    show ?thesis
    proof (cases "a = e")
      case True
      then show ?thesis using Cons by (intro exI [of _ "[]"] exI [of _ es'']) auto
    next
      case False
      then have "subseq es' ys" using Nil Cons by (auto elim: list_emb.cases)
      then show ?thesis using Nil subseq_filter_length [of es' ys P] by simp
    qed
  qed auto
next
  case (Cons x xs)
  show ?case
  proof (cases "subseq es' (xs @ e # ys)")
    case True
    have "length (filter P es') \<le> length (filter P (xs @ e # ys))" using subseq_filter_length [OF True] .
    then have "\<not> P x" using Cons.prems by (auto split: if_splits)
    then have "filter P es' = filter P (xs @ e # ys)" using Cons.prems by simp
    from Cons.IH [OF True this refl Cons.prems(4)] show ?thesis by auto
  next
    case False
    then obtain es'' where es': "es' = x # es''" "subseq es'' (xs @ e # ys)"
      using Cons.prems(1,3) by (auto elim: list_emb.cases)
    then have "filter P es'' = filter P (xs @ e # ys)" using Cons.prems(2,3) by (auto split: if_splits)
    from Cons.IH [OF es'(2) this refl Cons.prems(4)] obtain xs' ys' where "es'' = xs' @ e # ys'" "subseq xs' xs" by blast
    then show ?thesis using es' by (intro exI [of _ "x # xs'"] exI [of _ ys']) auto
  qed
qed

lemma find_index_append:
  "\<forall>x \<in> set xs. \<not> P x \<Longrightarrow> P e \<Longrightarrow> find_index P (xs @ e # ys) = Some (length xs)"
  by (induction xs) auto

lemma live_entry_swept:
  assumes "subseq es' es" and "filter (\<lambda>e. \<not> entry_expired e nowNs) es' = filter (\<lambda>e. \<not> entry_expired e nowNs) es"
    and "live_entry key nowNs es = Some j"
  shows "\<exists>j'. live_entry key nowNs es' = Some j' \<and> es' ! j' = es ! j"
proof -
  note l = live_entry_Some [OF assms(3)]
  let ?e = "es ! j"
  have es: "es = take j es @ ?e # drop (Suc j) es" using l(1) by (simp add: id_take_nth_drop)
  have no: "\<forall>x \<in> set (take j es). \<not> entry_matches key x"
    using l(1,5) by (auto simp: in_set_conv_nth)
  from kept_prefix [OF assms(1,2) es] l(3) obtain xs' ys' where es': "es' = xs' @ ?e # ys'" "subseq xs' (take j es)" by auto
  have "\<forall>x \<in> set xs'. \<not> entry_matches key x" using es'(2) no by (auto elim: list_emb_set)
  from find_index_append [of xs' "entry_matches key" ?e ys', OF this l(2)]
  have "live_entry key nowNs es' = Some (length xs')" using l(3) es'(1) by (simp add: live_entry_def)
  then show ?thesis using es'(1) by auto
qed

lemma live_entry_head:
  assumes "entry_matches key e" and "\<not> entry_expired e nowNs"
  shows "live_entry key nowNs (e # es) = Some 0"
  using assms by (simp add: live_entry_def)

lemma hot_sweep_live:
  assumes ok: "world_ok fam Q k w" and i: "i < length (im_shards (w_impl w))"
    and live: "live_entry key nowNs (bucket_at w i b) = Some j"
  shows "\<exists>j'. live_entry key nowNs (bucket_at (maybeHotSweep fam i nowNs w) i b) = Some j' \<and>
    bucket_at (maybeHotSweep fam i nowNs w) i b ! j' = bucket_at w i b ! j"
proof -
  let ?w1 = "upd_shard i (\<lambda>s. s\<lparr>sh_lastHotSweepTsNs := nowNs\<rparr>) w"
  have w1: "world_ok fam Q k ?w1"
    using pend_upd_shard_same [of fam Q k 0 0 w "\<lambda>s. s\<lparr>sh_lastHotSweepTsNs := nowNs\<rparr>" i] ok by (simp add: world_ok_def)
  obtain n w2 where s: "sweepLocked fam i nowNs (epo_global (im_epoch (w_impl ?w1))) ?w1 = (n, w2)"
    by (cases "sweepLocked fam i nowNs (epo_global (im_epoch (w_impl ?w1))) ?w1")
  have i1: "i < length (im_shards (w_impl ?w1))" using i by simp
  note f = world_ok_sweep [OF w1 i1 s]
  have b1: "bucket_at ?w1 i b = bucket_at w i b" by (simp add: bucket_at_def)
  have w2: "\<exists>j'. live_entry key nowNs (bucket_at w2 i b) = Some j' \<and> bucket_at w2 i b ! j' = bucket_at w i b ! j"
  proof (rule live_entry_swept)
    show "subseq (bucket_at w2 i b) (bucket_at w i b)"
      "filter (\<lambda>e. \<not> entry_expired e nowNs) (bucket_at w2 i b) = filter (\<lambda>e. \<not> entry_expired e nowNs) (bucket_at w i b)"
      using f(2) unfolding swept_def b1 [symmetric] by blast+
  qed (rule live)
  have i2: "i < length (im_shards (w_impl w2))" using f(4) i by (simp add: same_shape_def)
  have "bucket_at (maybeAdvanceAndReclaim nowNs w2) i b = bucket_at w2 i b"
    using same_table_reclaim [of w2 nowNs] i2 by (simp add: same_table_def)
  then have eq: "maybeHotSweep fam i nowNs w = w \<or> bucket_at (maybeHotSweep fam i nowNs w) i b = bucket_at w2 i b"
    using s by (auto simp: maybeHotSweep_def Let_def)
  then show ?thesis using w2 live by auto
qed

text \<open>What the inspection of a packet reports when its connection is in the table.\<close>

definition hit_view :: "'ip AddrFamily \<Rightarrow> 'ip CtPacket \<Rightarrow> 'ip Key \<Rightarrow> 'ip Entry \<Rightarrow> PolicyView" where
  "hit_view fam pkt key e =
     (let isReply = keyEq (en_revKey e) key; st = fst (updateExisting fam pkt e isReply)
      in \<lparr>v_result = (if st = CT_INVALID then ct_invalid
            else \<lparr>r_state = st, r_direction = (if isReply then DIR_REPLY else DIR_ORIG)\<rparr>), v_createOnAccept = False\<rparr>)"

lemma inspect_hit:
  assumes ok: "world_ok fam Q k w" and fr: "\<not> pk_isFragment pkt" and key: "makeKey fam pkt = Some key"
    and live: "live_entry key (pk_tsNs pkt) (bucket_at w (shardIndex (w_impl w) (hashKey fam key)) (bucketIndex (w_impl w) (hashKey fam key))) = Some j"
    and e: "e = bucket_at w (shardIndex (w_impl w) (hashKey fam key)) (bucketIndex (w_impl w) (hashKey fam key)) ! j"
  shows "fst (inspectForPolicy fam t pkt w) = hit_view fam pkt key e"
proof -
  let ?i = "shardIndex (w_impl w) (hashKey fam key)" and ?b = "bucketIndex (w_impl w) (hashKey fam key)"
  obtain s ep where sl: "slotForThread t (im_epoch (w_impl w)) = (s, ep)" by (cases "slotForThread t (im_epoch (w_impl w))")
  let ?w1 = "with_epoch (\<lambda>_. epoch_enter s ep) w"
  have g: "epo_global ep < 3"
    using slotForThread_global [of t "im_epoch (w_impl w)"] ok by (simp add: sl world_ok_def pend_def Let_def)
  have w1: "world_ok fam Q k ?w1" by (rule world_ok_with_epoch [OF ok]) (simp add: g)
  have i1: "?i < length (im_shards (w_impl ?w1))" using index_bounds(1) [OF ok] by (simp add: with_epoch_def)
  have b1: "bucket_at ?w1 ?i ?b = bucket_at w ?i ?b" by (simp add: with_epoch_def bucket_at_def shard_at_def)
  from hot_sweep_live [OF w1 i1, of key "pk_tsNs pkt" ?b j] live b1 obtain j' where
    "live_entry key (pk_tsNs pkt) (bucket_at (maybeHotSweep fam ?i (pk_tsNs pkt) ?w1) ?i ?b) = Some j'"
    "bucket_at (maybeHotSweep fam ?i (pk_tsNs pkt) ?w1) ?i ?b ! j' = e" using e by auto
  then show ?thesis
    using fr key sl by (simp add: inspectForPolicy_def inspect_key_def hit_view_def Let_def split_beta)
qed

lemma inspect_miss_view:
  assumes "fst (inspectForPolicy fam t pkt w) = view" and "makeKey fam pkt = Some key"
    and "r_state (v_result view) = CT_ESTABLISHED \<or> r_direction (v_result view) = DIR_REPLY"
    and ok: "world_ok fam Q k w"
  shows "Q key \<or> Q (reverseKey key)"
proof -
  let ?i = "shardIndex (w_impl w) (hashKey fam key)" and ?b = "bucketIndex (w_impl w) (hashKey fam key)"
  obtain s ep where sl: "slotForThread t (im_epoch (w_impl w)) = (s, ep)" by (cases "slotForThread t (im_epoch (w_impl w))")
  let ?w1 = "with_epoch (\<lambda>_. epoch_enter s ep) w"
  let ?w2 = "maybeHotSweep fam ?i (pk_tsNs pkt) ?w1"
  have g: "epo_global ep < 3"
    using slotForThread_global [of t "im_epoch (w_impl w)"] ok by (simp add: sl world_ok_def pend_def Let_def)
  have w1: "world_ok fam Q k ?w1" by (rule world_ok_with_epoch [OF ok]) (simp add: g)
  have i1: "?i < length (im_shards (w_impl ?w1))" using index_bounds(1) [OF ok] by (simp add: with_epoch_def)
  note f = world_ok_hot_sweep [OF w1 i1, of "pk_tsNs pkt"]
  have ix: "shardIndex (w_impl ?w2) (hashKey fam key) = ?i" "bucketIndex (w_impl ?w2) (hashKey fam key) = ?b"
    using index_cong [of ?w2 w] f(2,3) by (simp_all add: with_epoch_def)
  note bd = index_bounds [OF f(1), of "hashKey fam key", unfolded ix]
  show ?thesis
  proof (cases "live_entry key (pk_tsNs pkt) (bucket_at ?w2 ?i ?b)")
    case None
    then have "view \<in> {\<lparr>v_result = ct_invalid, v_createOnAccept = False\<rparr>,
        \<lparr>v_result = \<lparr>r_state = CT_NEW, r_direction = DIR_ORIG\<rparr>, v_createOnAccept = True\<rparr>}"
      using assms(1,2) sl by (auto simp: inspectForPolicy_def inspect_key_def inspect_miss_def Let_def split_beta split: if_splits)
    then show ?thesis using assms(3) by auto
  next
    case (Some j)
    note l = live_entry_Some [OF Some]
    have ent: "entry_ok fam Q (w_impl ?w2) ?i ?b (bucket_at ?w2 ?i ?b ! j)" using world_ok_entries [OF f(1) bd l(4)] .
    let ?e = "bucket_at ?w2 ?i ?b ! j"
    have "en_key ?e = key \<or> en_key ?e = reverseKey key" using entry_ok_match(1) [OF ent l(2)] by (metis reverseKey_invol)
    moreover have "Q (en_key ?e)" using ent by (simp add: entry_ok_def)
    ultimately show ?thesis by auto
  qed
qed

section \<open>What a new connection looks like afterwards\<close>

lemma sum_list_le:
  fixes xs ys :: "nat list"
  assumes "length xs = length ys" and "\<And>i. i < length xs \<Longrightarrow> xs ! i \<le> ys ! i"
  shows "sum_list xs \<le> sum_list ys"
  using assms by (intro sum_list_mono2) simp_all

lemma n_impl_swept:
  assumes "swept nowNs w w'" and "world_ok fam Q k w" and "world_ok fam Q k w'"
  shows "n_impl (w_impl w') \<le> n_impl (w_impl w)"
  unfolding n_impl_def
proof (rule sum_list_le)
  have sh: "same_shape w w'" using assms(1) by (simp add: swept_def)
  then show len: "length (map n_shard (im_shards (w_impl w'))) = length (map n_shard (im_shards (w_impl w)))"
    by (simp add: same_shape_def)
  fix j assume "j < length (map n_shard (im_shards (w_impl w')))"
  then have j: "j < length (im_shards (w_impl w'))" "j < length (im_shards (w_impl w))" using len by simp_all
  have "n_shard (shard_at w' j) \<le> n_shard (shard_at w j)"
    unfolding n_shard_def
  proof (rule sum_list_le)
    show "length (map length (sh_buckets (shard_at w' j))) = length (map length (sh_buckets (shard_at w j)))"
      using world_ok_buckets [OF assms(2) j(2)] world_ok_buckets [OF assms(3) j(1)] sh by (simp add: same_shape_def)
    fix b assume "b < length (map length (sh_buckets (shard_at w' j)))"
    moreover have "subseq (bucket_at w' j b) (bucket_at w j b)" using assms(1) unfolding swept_def by blast
    ultimately show "map length (sh_buckets (shard_at w' j)) ! b \<le> map length (sh_buckets (shard_at w j)) ! b"
      using world_ok_buckets [OF assms(2) j(2)] world_ok_buckets [OF assms(3) j(1)] sh list_emb_length
      by (fastforce simp: bucket_at_def same_shape_def)
  qed
  then show "map n_shard (im_shards (w_impl w')) ! j \<le> map n_shard (im_shards (w_impl w)) ! j"
    using j by (simp add: shard_at_def)
qed

lemma total_swept:
  assumes "swept nowNs w w'" and "world_ok fam Q k w" and "world_ok fam Q k w'"
  shows "sc_totalEntries (w_shared w') \<le> sc_totalEntries (w_shared w)"
  using n_impl_swept [OF assms] pendD(5) [of fam Q k 0 0 w] pendD(5) [of fam Q k 0 0 w'] assms(2,3)
  by (simp add: world_ok_def word_le_def)

lemma bucket_at_link:
  assumes "i < length (im_shards (w_impl w))" and "b < length (sh_buckets (shard_at w i))"
  shows "bucket_at (link_entry i b e (snd (take_flow_id (add_total w)))) i b = e # bucket_at w i b"
proof -
  let ?f = "\<lambda>s :: 'a Shard. s\<lparr>sh_buckets := (sh_buckets s)[b := e # sh_buckets s ! b], sh_size := sh_size s + 1\<rparr>"
  have "shard_at (link_entry i b e (snd (take_flow_id (add_total w)))) i = ?f (shard_at w i)"
    using assms(1) shard_at_upd [of i ?f w i] by (simp add: link_entry_def take_flow_id_def add_total_def Let_def shard_at_def upd_shard_def)
  then show ?thesis using assms(2) by (simp add: bucket_at_def)
qed

lemma commit_head:
  assumes ok: "world_ok fam Q k w" and key: "makeKey fam pkt = Some key"
    and view: "v_createOnAccept view" "r_state (v_result view) = CT_NEW" "r_direction (v_result view) = DIR_ORIG"
    and miss: "live_entry key (pk_tsNs pkt) (bucket_at w (shardIndex (w_impl w) (hashKey fam key)) (bucketIndex (w_impl w) (hashKey fam key))) = None"
    and valid: "pk_proto pkt = P_TCP \<longrightarrow> tcpValidNew pkt" "pk_proto pkt = fam_icmpProto fam \<longrightarrow> icmpValidNew fam pkt"
    and room: "sc_totalEntries (w_shared w) < maxEntries (im_opt (w_impl w))"
  shows "\<exists>flowId es. bucket_at (commitAccepted fam pkt view w) (shardIndex (w_impl w) (hashKey fam key)) (bucketIndex (w_impl w) (hashKey fam key))
      = new_entry fam pkt key flowId # es"
    and "im_opt (w_impl (commitAccepted fam pkt view w)) = im_opt (w_impl w)"
    and "length (im_shards (w_impl (commitAccepted fam pkt view w))) = length (im_shards (w_impl w))"
proof -
  let ?i = "shardIndex (w_impl w) (hashKey fam key)" and ?b = "bucketIndex (w_impl w) (hashKey fam key)"
  note bd = index_bounds [OF ok, of "hashKey fam key"]
  obtain n w1 where s: "sweepLocked fam ?i (pk_tsNs pkt) (epo_global (im_epoch (w_impl w))) w = (n, w1)"
    by (cases "sweepLocked fam ?i (pk_tsNs pkt) (epo_global (im_epoch (w_impl w))) w")
  note f = world_ok_sweep [OF ok bd(1) s]
  note sh = same_shape_index [OF f(4)]
  have room1: "\<not> maxEntries (im_opt (w_impl w1)) \<le> sc_totalEntries (w_shared w1)"
    using total_swept [OF f(2) ok f(1)] room by (simp add: sh not_le)
  obtain flowId w2 where tk: "take_flow_id (add_total w1) = (flowId, w2)" by (cases "take_flow_id (add_total w1)")
  let ?w3 = "link_entry ?i ?b (new_entry fam pkt key flowId) w2"
  have i1: "?i < length (im_shards (w_impl w1))" "?b < length (sh_buckets (shard_at w1 ?i))"
    using index_bounds [OF f(1), of "hashKey fam key"] by (simp_all add: sh)
  have head: "bucket_at ?w3 ?i ?b = new_entry fam pkt key flowId # bucket_at w1 ?i ?b"
    using bucket_at_link [OF i1, of "new_entry fam pkt key flowId"] tk by simp
  have sh3: "same_shape w1 ?w3"
    using same_shape_simps(9) [of w1] same_shape_simps(11) [of "add_total w1"] same_shape_simps(10) [of w2] tk
    by (metis same_shape_trans snd_conv)
  have eq: "commitAccepted fam pkt view w = ?w3 \<or> commitAccepted fam pkt view w = maybeAdvanceAndReclaim (pk_tsNs pkt) ?w3"
    using key view miss valid room1 s tk by (auto simp: commitAccepted_def commit_key_def Let_def)
  have i3: "?i < length (im_shards (w_impl ?w3))" using i1(1) sh3 by (simp add: same_shape_def)
  have rc: "bucket_at (maybeAdvanceAndReclaim (pk_tsNs pkt) ?w3) ?i ?b = bucket_at ?w3 ?i ?b"
    using same_table_reclaim [of ?w3 "pk_tsNs pkt"] i3 by (simp add: same_table_def)
  show "\<exists>flowId es. bucket_at (commitAccepted fam pkt view w) ?i ?b = new_entry fam pkt key flowId # es"
    using eq head rc by auto
  show "im_opt (w_impl (commitAccepted fam pkt view w)) = im_opt (w_impl w)"
    "length (im_shards (w_impl (commitAccepted fam pkt view w))) = length (im_shards (w_impl w))"
    using eq same_table_reclaim [of ?w3 "pk_tsNs pkt"] sh3 f(4) by (auto simp: same_table_def same_shape_def)
qed

lemma reply_established:
  assumes "world_ok fam Q k w" and "makeKey fam pkt = Some key" and "Q key"
    and "v_createOnAccept view" and "v_result view = \<lparr>r_state = CT_NEW, r_direction = DIR_ORIG\<rparr>"
    and "live_entry key (pk_tsNs pkt) (bucket_at w (shardIndex (w_impl w) (hashKey fam key)) (bucketIndex (w_impl w) (hashKey fam key))) = None"
    and "pk_proto pkt = P_TCP \<longrightarrow> tcpValidNew pkt" and "pk_proto pkt = fam_icmpProto fam \<longrightarrow> icmpValidNew fam pkt"
    and "sc_totalEntries (w_shared w) < maxEntries (im_opt (w_impl w))"
    and "makeKey fam reply = Some (reverseKey key)" and "\<not> pk_isFragment reply"
    and "pk_tsNs reply < addTimeoutNs (pk_tsNs pkt) (if pk_proto pkt = P_TCP then 30 else 60)"
    and "pk_proto pkt = P_TCP \<longrightarrow> tcpValidUpdate reply"
  shows "fst (inspectForPolicy fam t reply (commitAccepted fam pkt view w)) =
    \<lparr>v_result = \<lparr>r_state = CT_ESTABLISHED, r_direction = DIR_REPLY\<rparr>, v_createOnAccept = False\<rparr>"
proof -
  let ?w = "commitAccepted fam pkt view w"
  have v: "r_state (v_result view) = CT_NEW" "r_direction (v_result view) = DIR_ORIG" using assms(5) by simp_all
  note c = commit_head [OF assms(1,2,4) v assms(6-9)]
  obtain flowId es where head: "bucket_at ?w (shardIndex (w_impl w) (hashKey fam key)) (bucketIndex (w_impl w) (hashKey fam key)) =
      new_entry fam pkt key flowId # es" using c(1) by blast
  let ?e = "new_entry fam pkt key flowId"
  have ok: "world_ok fam Q k ?w" by (rule world_ok_commit [OF assms(1)]) (use assms(2,3) in simp)
  have ix: "shardIndex (w_impl ?w) (hashKey fam (reverseKey key)) = shardIndex (w_impl w) (hashKey fam key)"
    "bucketIndex (w_impl ?w) (hashKey fam (reverseKey key)) = bucketIndex (w_impl w) (hashKey fam key)"
    using index_cong [OF c(2,3)] by simp_all
  have m: "entry_matches (reverseKey key) ?e" by (simp add: entry_matches_def new_entry_def keyEq_iff)
  have x: "\<not> entry_expired ?e (pk_tsNs reply)"
    using assms(12) by (auto simp: entry_expired_def new_entry_def not_le split: if_splits)
  have live: "live_entry (reverseKey key) (pk_tsNs reply) (bucket_at ?w (shardIndex (w_impl ?w) (hashKey fam (reverseKey key)))
      (bucketIndex (w_impl ?w) (hashKey fam (reverseKey key)))) = Some 0"
    unfolding ix head using live_entry_head [OF m x] .
  have "fst (inspectForPolicy fam t reply ?w) = hit_view fam reply (reverseKey key) ?e"
    by (rule inspect_hit [OF ok assms(11,10) live]) (simp only: ix head nth_Cons_0)
  moreover have pr: "pk_proto reply = pk_proto pkt" using makeKey_proto [OF assms(2)] makeKey_proto [OF assms(10)] by simp
  moreover have "fst (updateExisting fam reply ?e True) = CT_ESTABLISHED"
    using assms(13) pr by (simp add: updateExisting_def new_entry_def Let_def split_beta)
  ultimately show ?thesis by (simp add: hit_view_def Let_def new_entry_def keyEq_iff)
qed

text \<open>A sample packet.\<close>

definition ex_udp4 :: "u64 \<Rightarrow> u32 \<Rightarrow> u16 \<Rightarrow> u32 \<Rightarrow> u16 \<Rightarrow> u32 CtPacket" where
  "ex_udp4 ts sip sport dip dport = \<lparr>pk_tsNs = ts, pk_uid = 10001, pk_srcIp = sip, pk_dstIp = dip, pk_proto = 17,
     pk_isFragment = False, pk_ipPayloadLen = 20, pk_srcPort = sport, pk_dstPort = dport, pk_hasTcp = False,
     pk_tcp = \<lparr>tcp_flags = 0, tcp_dataOffsetWords = 0, tcp_hasWscale = False, tcp_wscale = 0, tcp_window = 0, tcp_seq = 0, tcp_ack = 0\<rparr>,
     pk_hasIcmp = False, pk_icmp = \<lparr>icmp_type = 0, icmp_code = 0, icmp_id = 0\<rparr>\<rparr>"

definition ex_tcp4 :: "u64 \<Rightarrow> u8 \<Rightarrow> u32 CtPacket" where
  "ex_tcp4 ts flags = (ex_udp4 ts 0x0A000002 40000 0x01020304 443)\<lparr>pk_proto := 6, pk_hasTcp := True,
     pk_tcp := \<lparr>tcp_flags = flags, tcp_dataOffsetWords = 5, tcp_hasWscale = False, tcp_wscale = 0, tcp_window = 0, tcp_seq = 0, tcp_ack = 0\<rparr>\<rparr>"

definition ex_world :: "FlowTelemetry \<Rightarrow> u32 World" where
  "ex_world ft = \<lparr>w_shared = new_shared, w_impl = new_impl options_default, w_tele = ft\<rparr>"

definition new_view :: PolicyView where
  "new_view = \<lparr>v_result = \<lparr>r_state = CT_NEW, r_direction = DIR_ORIG\<rparr>, v_createOnAccept = True\<rparr>"

lemma new_world_empty:
  "live_entry key ts (bucket_at \<lparr>w_shared = new_shared, w_impl = (new_impl opts :: 'ip Impl), w_tele = ft\<rparr> (shardIndex (new_impl opts :: 'ip Impl) h)
     (bucketIndex (new_impl opts :: 'ip Impl) h)) = None"
proof -
  let ?w = "\<lparr>w_shared = new_shared, w_impl = (new_impl opts :: 'ip Impl), w_tele = ft\<rparr>"
  let ?fam = "undefined :: 'ip AddrFamily"
  have ok: "world_ok ?fam (\<lambda>_. True) (0, normalize_options opts) ?w" by (rule world_ok_new)
  have im: "im_shards (new_impl opts :: 'ip Impl) = replicate (unat (opt_shards (normalize_options opts))) (new_shard (unat (bucketsPerShard (normalize_options opts))))"
    by (simp add: new_impl_def Let_def)
  have i: "shardIndex (w_impl ?w) h < unat (opt_shards (normalize_options opts))" using index_bounds(1) [OF ok, of h] by (simp add: im)
  then have sh: "shard_at ?w (shardIndex (w_impl ?w) h) = new_shard (unat (bucketsPerShard (normalize_options opts)))"
    by (simp add: shard_at_def im)
  then have "bucket_at ?w (shardIndex (w_impl ?w) h) (bucketIndex (w_impl ?w) h) = []"
    using index_bounds(2) [OF ok, of h] by (simp add: bucket_at_def new_shard_def)
  then show ?thesis by (simp add: live_entry_def)
qed

lemma ex_world_ok: "world_ok fam4 Q (0, normalize_options options_default) (ex_world ft)"
  unfolding ex_world_def by (rule world_ok_new)

lemma ex_world_empty: "live_entry key ts (bucket_at (ex_world ft) (shardIndex (w_impl (ex_world ft)) h) (bucketIndex (w_impl (ex_world ft)) h)) = None"
  using new_world_empty by (simp add: ex_world_def)

lemma ex_world_room: "sc_totalEntries (w_shared (ex_world ft)) < maxEntries (im_opt (w_impl (ex_world ft)))"
  by (simp add: ex_world_def new_shared_def new_impl_def normalize_options_def options_default_def Let_def)



section \<open>Runs of the tracker of both families\<close>

text \<open>One call on the tracker; \<open>Telemetry\<close> stands for any change the control plane makes to the telemetry
  session between packets.\<close>

datatype CtOp =
    Inspect4 nat "u32 CtPacket"
  | Inspect6 nat "u8 list CtPacket"
  | Commit4 "u32 CtPacket" PolicyView
  | Commit6 "u8 list CtPacket" PolicyView
  | Observe4 nat "u32 CtPacket" CtResult TelemetryPacketFacts
  | Observe6 nat "u8 list CtPacket" CtResult TelemetryPacketFacts
  | DisabledEnds u64
  | Telemetry FlowTelemetry
  | Reset

fun ct_exec :: "CtOp \<Rightarrow> Conntrack \<times> FlowTelemetry \<Rightarrow> Conntrack \<times> FlowTelemetry" where
  "ct_exec (Inspect4 t pkt) cf = snd (inspectForPolicyV4 t pkt cf)"
| "ct_exec (Inspect6 t pkt) cf = snd (inspectForPolicyV6 t pkt cf)"
| "ct_exec (Commit4 pkt view) cf = commitAcceptedV4 pkt view cf"
| "ct_exec (Commit6 pkt view) cf = commitAcceptedV6 pkt view cf"
| "ct_exec (Observe4 t pkt r facts) cf = observeFlowTelemetryV4 t pkt r (hotPathFlow (snd cf)) facts cf"
| "ct_exec (Observe6 t pkt r facts) cf = observeFlowTelemetryV6 t pkt r (hotPathFlow (snd cf)) facts cf"
| "ct_exec (DisabledEnds nowNs) cf = snd (exportTelemetryDisabledEnds nowNs cf)"
| "ct_exec (Telemetry ft) cf = (fst cf, ft)"
| "ct_exec Reset cf = (conntrack_reset (fst cf), snd cf)"

definition ct_run :: "CtOp list \<Rightarrow> Conntrack \<times> FlowTelemetry \<Rightarrow> Conntrack \<times> FlowTelemetry" where
  "ct_run ops cf = fold ct_exec ops cf"

definition world4 :: "Conntrack \<times> FlowTelemetry \<Rightarrow> u32 World" where
  "world4 cf = \<lparr>w_shared = ct_shared (fst cf), w_impl = ct_impl4 (fst cf), w_tele = snd cf\<rparr>"

definition world6 :: "Conntrack \<times> FlowTelemetry \<Rightarrow> u8 list World" where
  "world6 cf = \<lparr>w_shared = ct_shared (fst cf), w_impl = ct_impl6 (fst cf), w_tele = snd cf\<rparr>"

definition ct_ok :: "Options \<Rightarrow> (u32 Key \<Rightarrow> bool) \<Rightarrow> (u8 list Key \<Rightarrow> bool) \<Rightarrow> Conntrack \<times> FlowTelemetry \<Rightarrow> bool" where
  "ct_ok opt Q4 Q6 cf \<longleftrightarrow>
     world_ok fam4 Q4 (n_impl (ct_impl6 (fst cf)), opt) (world4 cf) \<and>
     world_ok fam6 Q6 (n_impl (ct_impl4 (fst cf)), opt) (world6 cf)"

lemma world_ok_mono: "world_ok fam Q k w \<Longrightarrow> (\<And>x. Q x \<Longrightarrow> Q' x) \<Longrightarrow> world_ok fam Q' k w"
  unfolding world_ok_def pend_def shard_ok_def entry_ok_def Let_def by blast

text \<open>The other family sees the change of the shared total.\<close>

lemma world_ok_other:
  assumes mine: "world_ok fam Q (n_impl im', opt) w" and other: "world_ok fam' Q' k w'" "snd k = opt" "w_impl w' = im'"
  shows "world_ok fam' Q' (n_impl (w_impl w), opt) (w'\<lparr>w_shared := w_shared w, w_tele := ft\<rparr>)"
proof -
  have t: "uint (sc_totalEntries (w_shared w)) = int (n_impl (w_impl w) + n_impl im')"
    "sc_totalEntries (w_shared w) \<le> maxEntries opt"
    using pendD(5,6,8) [of fam Q "(n_impl im', opt)" 0 0 w] mine by (simp_all add: world_ok_def)
  show ?thesis
    using other t unfolding world_ok_def pend_def Let_def by (simp add: shard_at_def)
qed

lemma on4_ok:
  assumes "ct_ok opt Q4 Q6 cf" and "\<And>k w. world_ok fam4 Q4 k w \<Longrightarrow> world_ok fam4 Q4' k (snd (f w))"
  shows "ct_ok opt Q4' Q6 (snd (on4 f cf))"
proof -
  obtain r w where f: "f (world4 cf) = (r, w)" by (cases "f (world4 cf)")
  have w: "world_ok fam4 Q4' (n_impl (ct_impl6 (fst cf)), opt) w"
    using assms(2) [of _ "world4 cf"] assms(1) f by (simp add: ct_ok_def)
  have eq: "snd (on4 f cf) = ((fst cf)\<lparr>ct_shared := w_shared w, ct_impl4 := w_impl w\<rparr>, w_tele w)"
    using f by (simp add: on4_def world4_def Let_def)
  have "world4 (snd (on4 f cf)) = w" by (simp add: eq world4_def)
  moreover have "world6 (snd (on4 f cf)) = (world6 cf)\<lparr>w_shared := w_shared w, w_tele := w_tele w\<rparr>" by (simp add: eq world6_def)
  moreover have "world_ok fam6 Q6 (n_impl (w_impl w), opt) ((world6 cf)\<lparr>w_shared := w_shared w, w_tele := w_tele w\<rparr>)"
    by (rule world_ok_other [OF w, where k = "(n_impl (ct_impl4 (fst cf)), opt)"])
       (use assms(1) in \<open>simp_all add: ct_ok_def world6_def\<close>)
  ultimately show ?thesis using w unfolding ct_ok_def by (simp add: eq)
qed

lemma on6_ok:
  assumes "ct_ok opt Q4 Q6 cf" and "\<And>k w. world_ok fam6 Q6 k w \<Longrightarrow> world_ok fam6 Q6' k (snd (f w))"
  shows "ct_ok opt Q4 Q6' (snd (on6 f cf))"
proof -
  obtain r w where f: "f (world6 cf) = (r, w)" by (cases "f (world6 cf)")
  have w: "world_ok fam6 Q6' (n_impl (ct_impl4 (fst cf)), opt) w"
    using assms(2) [of _ "world6 cf"] assms(1) f by (simp add: ct_ok_def)
  have eq: "snd (on6 f cf) = ((fst cf)\<lparr>ct_shared := w_shared w, ct_impl6 := w_impl w\<rparr>, w_tele w)"
    using f by (simp add: on6_def world6_def Let_def)
  have "world6 (snd (on6 f cf)) = w" by (simp add: eq world6_def)
  moreover have "world4 (snd (on6 f cf)) = (world4 cf)\<lparr>w_shared := w_shared w, w_tele := w_tele w\<rparr>" by (simp add: eq world4_def)
  moreover have "world_ok fam4 Q4 (n_impl (w_impl w), opt) ((world4 cf)\<lparr>w_shared := w_shared w, w_tele := w_tele w\<rparr>)"
    by (rule world_ok_other [OF w, where k = "(n_impl (ct_impl6 (fst cf)), opt)"])
       (use assms(1) in \<open>simp_all add: ct_ok_def world4_def\<close>)
  ultimately show ?thesis using w unfolding ct_ok_def by (simp add: eq)
qed

lemma n_impl_new: "n_impl (new_impl opts) = 0"
  by (simp add: n_impl_def new_impl_def n_shard_def new_shard_def Let_def sum_list_replicate)

lemma ct_ok_new: "ct_ok (normalize_options opts) Q4 Q6 (conntrack_new opts, ft)"
  using world_ok_new [of fam4 Q4 opts ft] world_ok_new [of fam6 Q6 opts ft]
  by (simp add: ct_ok_def world4_def world6_def conntrack_new_def n_impl_new)

lemma ct_ok_opt: "ct_ok opt Q4 Q6 cf \<Longrightarrow> im_opt (ct_impl4 (fst cf)) = opt"
  using pendD(8) [of fam4 Q4 "(n_impl (ct_impl6 (fst cf)), opt)" 0 0 "world4 cf"] by (simp add: ct_ok_def world_ok_def world4_def)

lemma ct_ok_mono:
  "ct_ok opt Q4 Q6 cf \<Longrightarrow> (\<And>x. Q4 x \<Longrightarrow> Q4' x) \<Longrightarrow> (\<And>x. Q6 x \<Longrightarrow> Q6' x) \<Longrightarrow> ct_ok opt Q4' Q6' cf"
  unfolding ct_ok_def using world_ok_mono [of fam4 Q4 _ _ Q4'] world_ok_mono [of fam6 Q6 _ _ Q6'] by blast

text \<open>The keys an operation may bring into the table.\<close>

fun op_keys4 :: "CtOp \<Rightarrow> u32 Key set" where
  "op_keys4 (Commit4 pkt view) = (if v_createOnAccept view then set_option (makeKey fam4 pkt) else {})"
| "op_keys4 (Observe4 t pkt r facts) = set_option (observation_key fam4 pkt facts)"
| "op_keys4 _ = {}"

fun op_keys6 :: "CtOp \<Rightarrow> u8 list Key set" where
  "op_keys6 (Commit6 pkt view) = (if v_createOnAccept view then set_option (makeKey fam6 pkt) else {})"
| "op_keys6 (Observe6 t pkt r facts) = set_option (observation_key fam6 pkt facts)"
| "op_keys6 _ = {}"

lemma commit_no_create: "\<not> v_createOnAccept view \<Longrightarrow> commitAccepted fam pkt view w = w"
  by (simp add: commitAccepted_def)

lemma world_ok_commit':
  assumes "world_ok fam Q k w" and "\<And>key. v_createOnAccept view \<Longrightarrow> makeKey fam pkt = Some key \<Longrightarrow> Q key"
  shows "world_ok fam Q k (commitAccepted fam pkt view w)"
  using assms world_ok_commit [OF assms(1), of pkt view] commit_no_create [of view fam pkt w] by (cases "v_createOnAccept view") auto

lemma ct_ok_exec:
  assumes ok: "ct_ok opt Q4 Q6 cf" and n: "normalize_options opt = opt"
    and Q: "\<And>key. key \<in> op_keys4 c \<Longrightarrow> Q4 key" "\<And>key. key \<in> op_keys6 c \<Longrightarrow> Q6 key"
  shows "ct_ok opt Q4 Q6 (ct_exec c cf)"
proof (cases c)
  case (Inspect4 t pkt)
  show ?thesis unfolding Inspect4 by (simp add: inspectForPolicyV4_def on4_ok [OF ok] world_ok_inspect)
next
  case (Inspect6 t pkt)
  show ?thesis unfolding Inspect6 by (simp add: inspectForPolicyV6_def on6_ok [OF ok] world_ok_inspect)
next
  case (Commit4 pkt view)
  show ?thesis unfolding Commit4 ct_exec.simps commitAcceptedV4_def
    by (rule on4_ok [OF ok]) (use Q Commit4 in \<open>auto intro!: world_ok_commit'\<close>)
next
  case (Commit6 pkt view)
  show ?thesis unfolding Commit6 ct_exec.simps commitAcceptedV6_def
    by (rule on6_ok [OF ok]) (use Q Commit6 in \<open>auto intro!: world_ok_commit'\<close>)
next
  case (Observe4 t pkt r facts)
  show ?thesis unfolding Observe4 ct_exec.simps observeFlowTelemetryV4_def
    by (rule on4_ok [OF ok]) (use Q Observe4 in \<open>auto intro!: world_ok_observe\<close>)
next
  case (Observe6 t pkt r facts)
  show ?thesis unfolding Observe6 ct_exec.simps observeFlowTelemetryV6_def
    by (rule on6_ok [OF ok]) (use Q Observe6 in \<open>auto intro!: world_ok_observe\<close>)
next
  case (DisabledEnds nowNs)
  let ?hot = "hotPathFlow (snd cf)"
  have "ct_ok opt Q4 Q6 (snd (on6 (emitTelemetryDisabledEnds fam6 nowNs ?hot) (snd (on4 (emitTelemetryDisabledEnds fam4 nowNs ?hot) cf))))"
    by (rule on6_ok [OF on4_ok [OF ok]]) (simp_all add: world_ok_emit)
  then show ?thesis using ok by (auto simp: DisabledEnds exportTelemetryDisabledEnds_def Let_def split_beta)
next
  case (Telemetry ft)
  have "world4 (fst cf, ft) = (world4 cf)\<lparr>w_tele := ft\<rparr>" "world6 (fst cf, ft) = (world6 cf)\<lparr>w_tele := ft\<rparr>"
    by (simp_all add: world4_def world6_def)
  then show ?thesis using ok by (simp add: Telemetry ct_ok_def)
next
  case Reset
  then show ?thesis using ct_ok_new [of opt Q4 Q6 "snd cf"] ct_ok_opt [OF ok] n by (simp add: conntrack_reset_def)
qed

lemma ct_ok_run:
  assumes "ct_ok opt Q4 Q6 cf" and "normalize_options opt = opt"
    and "\<And>c key. c \<in> set ops \<Longrightarrow> key \<in> op_keys4 c \<Longrightarrow> Q4 key" "\<And>c key. c \<in> set ops \<Longrightarrow> key \<in> op_keys6 c \<Longrightarrow> Q6 key"
  shows "ct_ok opt Q4 Q6 (ct_run ops cf)"
  using assms
proof (induction ops arbitrary: cf)
  case (Cons c ops)
  have "ct_ok opt Q4 Q6 (ct_exec c cf)" by (rule ct_ok_exec [OF Cons.prems(1,2)]) (use Cons.prems(3,4) in auto)
  then have "ct_ok opt Q4 Q6 (ct_run ops (ct_exec c cf))"
    by (rule Cons.IH [OF _ Cons.prems(2)]) (use Cons.prems(3,4) in \<open>auto simp del: op_keys4.simps op_keys6.simps\<close>)
  then show ?case by (simp add: ct_run_def)
qed (simp add: ct_run_def)

section \<open>The guarantees of the tracker\<close>

definition table_inv :: "'ip AddrFamily \<Rightarrow> Options \<Rightarrow> 'ip Impl \<Rightarrow> bool" where
  "table_inv fam opt im \<longleftrightarrow>
     im_opt im = opt \<and> unat (im_totalEntries im) = n_impl im \<and> epo_global (im_epoch im) < 3 \<and>
     (\<forall>i < length (im_shards im). let s = im_shards im ! i in
        length (sh_buckets s) = unat (bucketsPerShard opt) \<and> unat (sh_size s) = n_shard s \<and>
        (\<forall>b < length (sh_buckets s). \<forall>e \<in> set (sh_buckets s ! b). entry_ok fam (\<lambda>_. True) im i b e))"

lemma table_inv_world: "world_ok fam Q (k, opt) w \<Longrightarrow> table_inv fam opt (w_impl w)"
proof -
  assume ok: "world_ok fam Q (k, opt) w"
  then have p: "pend fam Q (k, opt) 0 0 w" by (simp add: world_ok_def)
  have "entry_ok fam Q im i b e \<Longrightarrow> entry_ok fam (\<lambda>_. True) im i b e" for im i b e by (simp add: entry_ok_def)
  moreover have "unat x = n \<longleftrightarrow> uint x = int n" for x :: u32 and n by (metis of_nat_eq_iff uint_nat)
  ultimately show ?thesis
    using pendD(3,4,8) [OF p] pend_shard [OF p] unfolding table_inv_def Let_def shard_ok_def shard_at_def by auto
qed

text \<open>C4. Invariant of the connection tracker, for both families and for every sequence of inspections, commits,
  telemetry observations, session ends, telemetry reconfigurations and resets: every entry is in the
  shard and the bucket of its hash, carries its own reverse key and a legal state of its protocol's
  tracker; the sizes of the shards, the totals of the families and the shared total are exactly the
  numbers of entries; and the shared total never exceeds the configured limit.\<close>

theorem conntrack_invariant:
  "let ct = fst (ct_run ops (conntrack_new opts, ft)); opt = normalize_options opts in
   table_inv fam4 opt (ct_impl4 ct) \<and> table_inv fam6 opt (ct_impl6 ct) \<and>
   unat (sc_totalEntries (ct_shared ct)) = n_impl (ct_impl4 ct) + n_impl (ct_impl6 ct) \<and>
   n_impl (ct_impl4 ct) + n_impl (ct_impl6 ct) \<le> unat (maxEntries opt)"
proof -
  let ?cf = "ct_run ops (conntrack_new opts, ft)" and ?opt = "normalize_options opts"
  have "ct_ok ?opt (\<lambda>_. True) (\<lambda>_. True) ?cf" by (rule ct_ok_run [OF ct_ok_new]) (simp_all add: normalize_idem)
  then have ok: "world_ok fam4 (\<lambda>_. True) (n_impl (ct_impl6 (fst ?cf)), ?opt) (world4 ?cf)"
    "world_ok fam6 (\<lambda>_. True) (n_impl (ct_impl4 (fst ?cf)), ?opt) (world6 ?cf)" by (simp_all add: ct_ok_def)
  have t: "uint (sc_totalEntries (ct_shared (fst ?cf))) = int (n_impl (ct_impl4 (fst ?cf)) + n_impl (ct_impl6 (fst ?cf)))"
    "sc_totalEntries (ct_shared (fst ?cf)) \<le> maxEntries ?opt"
    using pendD(5,6,8) [OF ok(1) [unfolded world_ok_def]] by (simp_all add: world4_def)
  have u: "unat (sc_totalEntries (ct_shared (fst ?cf))) = n_impl (ct_impl4 (fst ?cf)) + n_impl (ct_impl6 (fst ?cf))"
    using t(1) by (metis of_nat_eq_iff uint_nat)
  then show ?thesis
    using table_inv_world [OF ok(1)] table_inv_world [OF ok(2)] t(2)
    by (simp add: Let_def world4_def world6_def word_le_nat_alt)
qed

end
