(* ===== verification/ConntrackGuarantees.thy ===== *)
theory ConntrackGuarantees
  imports ConntrackRuns
begin

text \<open>
  The guarantees of the connection tracker: who establishes a connection, what sweeping may remove, the TCP
  tracker, both directions of a connection, the effect of telemetry on later packets and the reclamation
  inside an inspection.
\<close>

section \<open>Which packets establish connections\<close>

lemma ct_run_ok:
  "ct_ok (normalize_options opts) (\<lambda>key. \<exists>c \<in> set ops. key \<in> op_keys4 c) (\<lambda>key. \<exists>c \<in> set ops. key \<in> op_keys6 c)
     (ct_run ops (conntrack_new opts, ft))"
  by (rule ct_ok_run [OF ct_ok_new]) (auto simp: normalize_idem simp del: op_keys4.simps op_keys6.simps)

lemma op_keys4_commit:
  "key \<in> op_keys4 c \<Longrightarrow> \<forall>t p r f. c \<noteq> Observe4 t p r f \<Longrightarrow>
     \<exists>p v. c = Commit4 p v \<and> v_createOnAccept v \<and> makeKey fam4 p = Some key"
  by (cases c) (auto split: if_splits)

lemma world4_on4: "world4 (snd (on4 f cf)) = snd (f (world4 cf))" "fst (on4 f cf) = fst (f (world4 cf))"
  by (simp_all add: on4_def world4_def Let_def split_beta)

lemma world4_ops:
  "world4 (commitAcceptedV4 p v cf) = commitAccepted fam4 p v (world4 cf)"
  "fst (inspectForPolicyV4 t pkt cf) = fst (inspectForPolicy fam4 t pkt (world4 cf))"
  "world4 (conntrack_new options_default, ft) = ex_world ft"
  by (simp_all add: commitAcceptedV4_def inspectForPolicyV4_def world4_on4 ex_world_def conntrack_new_def)
     (simp add: world4_def)

text \<open>C9. A connection is established by an accepted packet only: without flow telemetry, when the inspection of an
  IPv4 packet reports an established connection or the reply direction, an earlier commit of an accepted
  packet with the same key or its reverse is in the history, since inspections, sweeps, resets and the
  other family never create an entry.\<close>

theorem established_only_after_accept:
  assumes "\<forall>c \<in> set ops. \<forall>t p r f. c \<noteq> Observe4 t p r f" and "makeKey fam4 pkt = Some key"
    and "inspectForPolicyV4 t pkt (ct_run ops (conntrack_new opts, ft)) = (view, cf')"
    and "r_state (v_result view) = CT_ESTABLISHED \<or> r_direction (v_result view) = DIR_REPLY"
  shows "\<exists>p v. Commit4 p v \<in> set ops \<and> v_createOnAccept v \<and> makeKey fam4 p \<in> {Some key, Some (reverseKey key)}"
proof -
  let ?cf = "ct_run ops (conntrack_new opts, ft)" and ?Q = "\<lambda>key. \<exists>c \<in> set ops. key \<in> op_keys4 c"
  have ok: "world_ok fam4 ?Q (n_impl (ct_impl6 (fst ?cf)), normalize_options opts) (world4 ?cf)"
    using ct_run_ok [of opts ops ft] by (simp add: ct_ok_def)
  have "fst (inspectForPolicy fam4 t pkt (world4 ?cf)) = view"
    using arg_cong [OF assms(3), of fst] by (simp add: world4_ops)
  from inspect_miss_view [OF this assms(2,4) ok] obtain key' where "key' \<in> {key, reverseKey key}" "?Q key'" by blast
  with assms(1) op_keys4_commit show ?thesis by fastforce
qed

theorem established_only_after_accept_witness:
  "let pkt = ex_udp4 9000 0x01020304 53 0x0A000002 40000; ops = [Commit4 (ex_udp4 5000 0x0A000002 40000 0x01020304 53) new_view] in
   \<exists>p v. Commit4 p v \<in> set ops \<and> v_createOnAccept v \<and>
     makeKey fam4 p \<in> {Some (the (makeKey fam4 pkt)), Some (reverseKey (the (makeKey fam4 pkt)))}"
proof -
  let ?p = "ex_udp4 5000 0x0A000002 40000 0x01020304 53" and ?r = "ex_udp4 9000 0x01020304 53 0x0A000002 40000"
  let ?cf = "ct_run [Commit4 ?p new_view] (conntrack_new options_default, sample_telemetry)"
  obtain key where key: "makeKey fam4 ?p = Some key" "makeKey fam4 ?r = Some (reverseKey key)"
    by (simp add: makeKey_def ex_udp4_def Let_def reverseKey_def)
  obtain view cf' where i: "inspectForPolicyV4 0 ?r ?cf = (view, cf')" by (cases "inspectForPolicyV4 0 ?r ?cf")
  have "fst (inspectForPolicy fam4 0 ?r (commitAccepted fam4 ?p new_view (ex_world sample_telemetry))) =
      \<lparr>v_result = \<lparr>r_state = CT_ESTABLISHED, r_direction = DIR_REPLY\<rparr>, v_createOnAccept = False\<rparr>"
    by (rule reply_established [OF ex_world_ok [where Q = "\<lambda>_. True"] key(1) _ _ _ ex_world_empty _ _ ex_world_room key(2)])
       (simp_all add: new_view_def ex_udp4_def fam4_def addTimeoutNs_def u64_max_def)
  then have "view = \<lparr>v_result = \<lparr>r_state = CT_ESTABLISHED, r_direction = DIR_REPLY\<rparr>, v_createOnAccept = False\<rparr>"
    using arg_cong [OF i, of fst] by (simp add: ct_run_def world4_ops)
  then show ?thesis
    using established_only_after_accept [OF _ key(2) i] key by (simp add: Let_def)
qed

section \<open>Sweeping\<close>



section \<open>The TCP tracker\<close>

lemma u64_max_top: "x \<le> u64_max"
proof -
  have eq: "u64_max = - 1" by (simp add: u64_max_def)
  show ?thesis unfolding eq by (rule word_order.extremum)
qed

lemma addTimeoutNs_ge: "nowNs \<le> addTimeoutNs nowNs sec"
proof -
  define d :: u64 where "d = ucast sec * 1000000000"
  show ?thesis
  proof (cases "u64_max - d < nowNs")
    case True
    then show ?thesis using u64_max_top by (simp add: addTimeoutNs_def Let_def d_def [symmetric])
  next
    case False
    have dm: "unat d \<le> unat u64_max" using u64_max_top [of d] by (simp add: word_le_nat_alt)
    have "unat (u64_max - d) = unat u64_max - unat d" using u64_max_top by (rule unat_sub)
    then have "unat nowNs + unat d < 2 ^ 64" using False dm by (simp add: word_less_nat_alt u64_max_def)
    then have "unat (nowNs + d) = unat nowNs + unat d" using unat_add_lem [of nowNs d] by simp
    then show ?thesis using False by (simp add: addTimeoutNs_def Let_def d_def [symmetric] word_le_nat_alt)
  qed
qed

lemma tcp_peers_mono:
  assumes "a \<le> Tcp_TIME_WAIT" "b \<le> Tcp_TIME_WAIT" "tcp_peers flags a b = (a', b')"
  shows "a \<le> a' \<and> b \<le> b' \<and> (flags AND TH_RST \<noteq> 0 \<longrightarrow> a' = Tcp_TIME_WAIT \<and> b' = Tcp_TIME_WAIT)"
proof -
  have bump: "x \<le> bumpAtLeast x y" for x y by (simp add: bumpAtLeast_def less_imp_le)
  define a1 where "a1 = (if flags AND TH_SYN \<noteq> 0 then bumpAtLeast a 1 else a)"
  define a2 where "a2 = (if flags AND TH_FIN \<noteq> 0 then bumpAtLeast a1 3 else a1)"
  have "a \<le> a1" "a1 \<le> a2" by (simp_all add: a1_def a2_def bump)
  then have "a \<le> a2" by (rule order_trans)
  moreover have "a' = (if flags AND TH_RST \<noteq> 0 then 5 else a2)"
    using assms(3) by (auto simp: tcp_peers_def Let_def a1_def a2_def)
  moreover have "b \<le> b' \<and> (flags AND TH_RST \<noteq> 0 \<longrightarrow> b' = 5)"
    using assms(2,3) bump by (auto simp: tcp_peers_def Let_def split: if_splits)
  ultimately show ?thesis using assms(1) by auto
qed

text \<open>The TCP tracker only moves forward: for every valid segment of a tracked connection, in either direction,
  neither peer state decreases, both stay legal, a reset moves both to \<^verbatim>\<open>TIME_WAIT\<close>, the connection is
  reported established, and the new expiration is not in the past, also at the end of the clock's range.\<close>

theorem tcp_tracker_monotone:
  assumes "pk_proto pkt = P_TCP" and "tcpValidUpdate pkt" and "en_state0 e \<le> Tcp_TIME_WAIT" and "en_state1 e \<le> Tcp_TIME_WAIT"
    and "updateExisting fam pkt e isReply = (st, e')"
  shows "st = CT_ESTABLISHED \<and> en_state0 e \<le> en_state0 e' \<and> en_state1 e \<le> en_state1 e' \<and>
    en_state0 e' \<le> Tcp_TIME_WAIT \<and> en_state1 e' \<le> Tcp_TIME_WAIT \<and>
    (tcp_flags (pk_tcp pkt) AND TH_RST \<noteq> 0 \<longrightarrow> en_state0 e' = Tcp_TIME_WAIT \<and> en_state1 e' = Tcp_TIME_WAIT) \<and>
    pk_tsNs pkt \<le> en_expirationNs e'"
proof -
  obtain a b where ab: "tcp_peers (tcp_flags (pk_tcp pkt)) (if isReply then en_state1 e else en_state0 e)
           (if isReply then en_state0 e else en_state1 e) = (a, b)" by (meson surj_pair)
  note u = updateExisting_tcp [OF assms(1,2,5) ab]
  have le: "(if isReply then en_state1 e else en_state0 e) \<le> Tcp_TIME_WAIT" "(if isReply then en_state0 e else en_state1 e) \<le> Tcp_TIME_WAIT"
    using assms(3,4) by simp_all
  show ?thesis
    using tcp_peers_mono [OF le ab] tcp_peers_le [OF le ab] u addTimeoutNs_ge by (cases isReply) simp_all
qed

theorem tcp_tracker_monotone_witness:
  "let e = (new_entry fam4 (ex_tcp4 5000 0x02) (the (makeKey fam4 (ex_tcp4 5000 0x02))) 1);
       e' = snd (updateExisting fam4 (ex_tcp4 9000 0x12) e True) in
   en_state0 e \<le> en_state0 e' \<and> en_state1 e \<le> en_state1 e' \<and> en_state0 e' = 2 \<and> en_state1 e' = 1"
proof -
  let ?e = "new_entry fam4 (ex_tcp4 5000 0x02) (the (makeKey fam4 (ex_tcp4 5000 0x02))) 1"
  obtain st e' where u: "updateExisting fam4 (ex_tcp4 9000 0x12) ?e True = (st, e')" by (meson surj_pair)
  have v: "pk_proto (ex_tcp4 9000 0x12) = 6" "tcpValidUpdate (ex_tcp4 9000 0x12)"
    by (simp_all add: ex_tcp4_def ex_udp4_def tcpValidUpdate_def computeTcpPayloadLen_def tcpInvalidFlags_def Let_def)
  have s: "en_state0 ?e = 1" "en_state1 ?e = 0" by (simp_all add: new_entry_def ex_tcp4_def ex_udp4_def)
  have "en_state0 e' = 2 \<and> en_state1 e' = 1"
    using u v s by (auto simp: updateExisting_def tcp_peers_def bumpAtLeast_def ex_tcp4_def Let_def)
  then show ?thesis using tcp_tracker_monotone [OF v _ _ u] u s by (simp add: Let_def)
qed

section \<open>Both directions of a connection\<close>

definition reverse_packet :: "'ip AddrFamily \<Rightarrow> 'ip CtPacket \<Rightarrow> 'ip CtPacket" where
  "reverse_packet fam pkt = pkt\<lparr>pk_srcIp := pk_dstIp pkt, pk_dstIp := pk_srcIp pkt, pk_srcPort := pk_dstPort pkt,
     pk_dstPort := pk_srcPort pkt,
     pk_icmp := (pk_icmp pkt)\<lparr>icmp_type := fam_reverseIcmpType fam (icmp_type (pk_icmp pkt))\<rparr>\<rparr>"

lemma makeKey_reverse_packet:
  assumes "makeKey fam pkt = Some key"
    and "\<And>t. fam_reverseIcmpType fam t \<noteq> 0xFF \<Longrightarrow> t \<noteq> 0xFF \<and> fam_reverseIcmpType fam (fam_reverseIcmpType fam t) = t"
  shows "makeKey fam (reverse_packet fam pkt) = Some (reverseKey key)"
proof -
  let ?t = "icmp_type (pk_icmp pkt)"
  have r: "fam_reverseIcmpType fam ?t \<noteq> 0xFF \<Longrightarrow> ?t \<noteq> 0xFF \<and> fam_reverseIcmpType fam (fam_reverseIcmpType fam ?t) = ?t"
    by (rule assms(2))
  show ?thesis
    using assms(1) r by (auto simp: makeKey_def reverse_packet_def reverseKey_def Let_def split: if_splits)
qed

text \<open>Both directions of a connection meet in the same place: for IPv4 and for IPv6, when a packet has a
  connection key, the packet with swapped addresses and ports (and the ICMP reply type for the request
  type, and conversely) has the reverse key, which hashes to the same shard and the same bucket.\<close>

theorem reverse_packet_same_bucket:
  "(makeKey fam4 pkt4 = Some key4 \<longrightarrow> makeKey fam4 (reverse_packet fam4 pkt4) = Some (reverseKey key4) \<and>
     shardIndex im4 (hashKey fam4 (reverseKey key4)) = shardIndex im4 (hashKey fam4 key4) \<and>
     bucketIndex im4 (hashKey fam4 (reverseKey key4)) = bucketIndex im4 (hashKey fam4 key4)) \<and>
   (makeKey fam6 pkt6 = Some key6 \<longrightarrow> makeKey fam6 (reverse_packet fam6 pkt6) = Some (reverseKey key6) \<and>
     shardIndex im6 (hashKey fam6 (reverseKey key6)) = shardIndex im6 (hashKey fam6 key6) \<and>
     bucketIndex im6 (hashKey fam6 (reverseKey key6)) = bucketIndex im6 (hashKey fam6 key6))"
proof -
  have r4: "fam_reverseIcmpType fam4 t \<noteq> 0xFF \<Longrightarrow> t \<noteq> 0xFF \<and> fam_reverseIcmpType fam4 (fam_reverseIcmpType fam4 t) = t" for t
    by (auto simp: fam4_def reverseIcmpType_def split: if_splits)
  have r6: "fam_reverseIcmpType fam6 t \<noteq> 0xFF \<Longrightarrow> t \<noteq> 0xFF \<and> fam_reverseIcmpType fam6 (fam_reverseIcmpType fam6 t) = t" for t
    by (auto simp: fam6_def reverseIcmp6Type_def split: if_splits)
  have "makeKey fam4 pkt4 = Some key4 \<Longrightarrow> makeKey fam4 (reverse_packet fam4 pkt4) = Some (reverseKey key4)"
    by (rule makeKey_reverse_packet [OF _ r4])
  moreover have "makeKey fam6 pkt6 = Some key6 \<Longrightarrow> makeKey fam6 (reverse_packet fam6 pkt6) = Some (reverseKey key6)"
    by (rule makeKey_reverse_packet [OF _ r6])
  ultimately show ?thesis unfolding hashKey_reverse by blast
qed

theorem reverse_packet_same_bucket_witness:
  "let p = ex_udp4 5000 0x0A000002 40000 0x01020304 53 in
   makeKey fam4 p \<noteq> None \<and> makeKey fam4 (reverse_packet fam4 p) = Some (reverseKey (the (makeKey fam4 p)))"
proof -
  let ?p = "ex_udp4 5000 0x0A000002 40000 0x01020304 53"
  have k: "makeKey fam4 ?p = Some (the (makeKey fam4 ?p))" by (simp add: makeKey_def ex_udp4_def Let_def)
  then have "makeKey fam4 (reverse_packet fam4 ?p) = Some (reverseKey (the (makeKey fam4 ?p)))"
    using reverse_packet_same_bucket [of ?p "the (makeKey fam4 ?p)"] by blast
  moreover have "makeKey fam4 ?p \<noteq> None" by (subst k) simp
  ultimately show ?thesis unfolding Let_def by blast
qed

section \<open>Telemetry and the verdict of later packets\<close>

lemma observe_create_head:
  assumes ok: "world_ok fam Q k w" and i: "i = shardIndex (w_impl w) (hashKey fam key)" and b: "b = bucketIndex (w_impl w) (hashKey fam key)"
    and valid: "pk_proto pkt = P_TCP \<longrightarrow> tcpValidNew pkt" "pk_proto pkt = fam_icmpProto fam \<longrightarrow> icmpValidNew fam pkt"
    and room: "ucast (sc_totalEntries (w_shared w)) < clampCap (ucast (maxEntries (im_opt (w_impl w)))) (ucast (maxFlowEntries cfg))"
  shows "\<exists>r flowId es w'. observe_create fam hot cfg pkt key i b ctResult facts False w = (Some r, w') \<and>
    bucket_at w' i b = tele_new_entry fam cfg (hp_sessionId hot) pkt key ctResult facts False flowId # es"
proof -
  let ?r = "epo_global (im_epoch (w_impl w))"
  note bd = index_bounds [OF ok, of "hashKey fam key", folded i b]
  obtain n w1 where s: "sweepLocked fam i (pk_tsNs pkt) ?r w = (n, w1)" by (cases "sweepLocked fam i (pk_tsNs pkt) ?r w")
  note f1 = world_ok_sweep [OF ok bd(1) s]
  note sh = same_shape_index [OF f1(4)]
  have "(ucast (sc_totalEntries (w_shared w1)) :: u64) \<le> ucast (sc_totalEntries (w_shared w))"
    using total_swept [OF f1(2) ok f1(1)] by (simp add: word_le_nat_alt unsigned_ucast_eq take_bit_nat_eq_self unsigned_less [THEN less_trans])
  then have nover: "\<not> clampCap (ucast (maxEntries (im_opt (w_impl w1)))) (ucast (maxFlowEntries cfg)) \<le> ucast (sc_totalEntries (w_shared w1))"
    using room by (simp add: sh not_le)
  obtain flowId w3 where tk: "take_flow_id (add_total w1) = (flowId, w3)" by (cases "take_flow_id (add_total w1)")
  let ?e = "tele_new_entry fam cfg (hp_sessionId hot) pkt key ctResult facts False flowId"
  have bd1: "i < length (im_shards (w_impl w1))" "b < length (sh_buckets (shard_at w1 i))"
    using index_bounds [OF f1(1), of "hashKey fam key"] by (simp_all add: sh i b)
  have "observe_create fam hot cfg pkt key i b ctResult facts False w = (Some (n \<noteq> 0), link_entry i b ?e w3)"
    using s tk nover valid by (auto simp: observe_create_def Let_def)
  moreover have "bucket_at (link_entry i b ?e w3) i b = ?e # bucket_at w1 i b"
    using bucket_at_link [OF bd1, of ?e] tk by simp
  ultimately show ?thesis by blast
qed

lemma observe_entry_expiration:
  assumes "observe_entry fam hot cfg pkt ctResult facts l3 e ft = (e', ft')"
  shows "en_expirationNs e' = observe_expiration cfg (pk_tsNs pkt) (tf_reasonId facts) l3 (en_expirationNs e)"
  using assms by (auto simp: observe_entry_def export_fields_def Let_def split: prod.splits if_splits option.splits)

lemma observe_key_head:
  fixes fam :: "'ip AddrFamily"
  assumes ok: "world_ok fam Q k w" and Q: "Q key" "k_proto key = pk_proto pkt"
    and i: "i = shardIndex (w_impl w) (hashKey fam key)" and b: "b = bucketIndex (w_impl w) (hashKey fam key)"
    and miss: "live_entry key (pk_tsNs pkt) (bucket_at w i b) = None"
    and valid: "pk_proto pkt = P_TCP \<longrightarrow> tcpValidNew pkt" "pk_proto pkt = fam_icmpProto fam \<longrightarrow> icmpValidNew fam pkt"
    and room: "ucast (sc_totalEntries (w_shared w)) < clampCap (ucast (maxEntries (im_opt (w_impl w)))) (ucast (maxFlowEntries cfg))"
  shows "\<exists>e es flowId w'. observe_key fam hot cfg pkt key i b ctResult facts False w = w' \<and> bucket_at w' i b = e # es \<and>
    en_key e = key \<and> en_revKey e = reverseKey key \<and>
    en_expirationNs e = observe_expiration cfg (pk_tsNs pkt) (tf_reasonId facts) False
      (en_expirationNs (tele_new_entry fam cfg (hp_sessionId hot) pkt key ctResult facts False flowId)) \<and>
    im_opt (w_impl w') = im_opt (w_impl w) \<and> length (im_shards (w_impl w')) = length (im_shards (w_impl w))"
proof -
  obtain r flowId es w1 where oc: "observe_create fam hot cfg pkt key i b ctResult facts False w = (Some r, w1)"
    and head: "bucket_at w1 i b = tele_new_entry fam cfg (hp_sessionId hot) pkt key ctResult facts False flowId # es"
    using observe_create_head [OF ok i b valid room] by blast
  let ?e = "tele_new_entry fam cfg (hp_sessionId hot) pkt key ctResult facts False flowId"
  have w1: "world_ok fam Q k w1" "same_shape w w1" using world_ok_observe_create [OF ok Q oc [unfolded i b]] by simp_all
  note sh = same_shape_index [OF w1(2)]
  note bd = index_bounds [OF w1(1), of "hashKey fam key", unfolded sh, folded i b]
  have en: "ensureTelemetrySession hot (pk_tsNs pkt) (tf_packetDir facts) ob False ctResult (en_tele ?e) w1 = (en_tele ?e, w1)" for ob
    by (simp add: ensureTelemetrySession_def tele_new_entry_def Let_def)
  obtain e' ft where oe: "observe_entry fam hot cfg pkt ctResult facts False ?e (w_tele w1) = (e', ft)" by (meson surj_pair)
  let ?w3 = "set_entry i b 0 e' (w1\<lparr>w_tele := ft\<rparr>)"
  have same: "?e\<lparr>en_tele := en_tele ?e\<rparr> = ?e" by simp
  have eq: "observe_key fam hot cfg pkt key i b ctResult facts False w = (if r then maybeAdvanceAndReclaim (pk_tsNs pkt) ?w3 else ?w3)"
    using miss oc head en oe same by (simp add: observe_key_def Let_def)
  have i3: "i < length (im_shards (w_impl ?w3))" using bd(1) sh(5) by (simp add: set_entry_def set_bucket_def)
  have b3: "bucket_at ?w3 i b = e' # es" using bd sh(5) head by (simp add: set_entry_def)
  have b4: "bucket_at (maybeAdvanceAndReclaim (pk_tsNs pkt) ?w3) i b = e' # es"
    using same_table_reclaim [of ?w3 "pk_tsNs pkt"] i3 b3 by (simp add: same_table_def)
  have shape: "im_opt (w_impl ?w3) = im_opt (w_impl w)" "length (im_shards (w_impl ?w3)) = length (im_shards (w_impl w))"
    using sh(4,5) by (simp_all add: set_entry_def set_bucket_def)
  have ek: "en_key e' = key" "en_revKey e' = reverseKey key"
    using observe_entry_frame [OF oe] by (simp_all add: tele_new_entry_def Let_def)
  show ?thesis
    using eq b3 b4 shape ek observe_entry_expiration [OF oe] same_table_reclaim [of ?w3 "pk_tsNs pkt"]
    by (cases r) (auto simp: same_table_def)
qed

text \<open>C33. Telemetry changes what later packets look like: while a flow telemetry session is active, the observation
  of a TCP packet that was blocked leaves an entry in the connection table, so that its retransmission is
  inspected as an established connection, although no packet of the connection was ever accepted.\<close>

theorem blocked_packet_becomes_established:
  fixes fam :: "'ip AddrFamily"
  assumes "world_ok fam Q k w" and "Q key" and "hp_cfg hot = Some cfg"
    and "length (tf_srcAddrNet facts) = fam_addrLen fam" and "length (tf_dstAddrNet facts) = fam_addrLen fam"
    and "isKnownPacketDirection (tf_packetDir facts)" and "\<not> isL3ObservationStatus (tf_l4Status facts)"
    and "isBlockReason (tf_reasonId facts)"
    and "makeKey fam pkt = Some key" and "pk_proto pkt = P_TCP" and "fam_icmpProto fam \<noteq> P_TCP" and "tcpValidNew pkt"
    and "live_entry key (pk_tsNs pkt) (bucket_at w (shardIndex (w_impl w) (hashKey fam key)) (bucketIndex (w_impl w) (hashKey fam key))) = None"
    and "ucast (sc_totalEntries (w_shared w)) < clampCap (ucast (maxEntries (im_opt (w_impl w)))) (ucast (maxFlowEntries cfg))"
    and "makeKey fam again = Some key" and "reverseKey key \<noteq> key" and "\<not> pk_isFragment again" and "tcpValidUpdate again"
    and "pk_tsNs again < observe_expiration cfg (pk_tsNs pkt) (tf_reasonId facts) False
           (en_expirationNs (tele_new_entry fam cfg (hp_sessionId hot) pkt key ctResult facts False 0))"
  shows "fst (inspectForPolicy fam t again (observeFlowTelemetry fam t pkt ctResult hot facts w)) =
    \<lparr>v_result = \<lparr>r_state = CT_ESTABLISHED, r_direction = DIR_ORIG\<rparr>, v_createOnAccept = False\<rparr>"
proof -
  let ?i = "shardIndex (w_impl w) (hashKey fam key)" and ?b = "bucketIndex (w_impl w) (hashKey fam key)"
  obtain s ep where sl: "slotForThread t (im_epoch (w_impl w)) = (s, ep)" by (cases "slotForThread t (im_epoch (w_impl w))")
  let ?w1 = "with_epoch (\<lambda>_. epoch_enter s ep) w"
  let ?w' = "observeFlowTelemetry fam t pkt ctResult hot facts w"
  have g: "epo_global ep < 3"
    using slotForThread_global [of t "im_epoch (w_impl w)"] assms(1) by (simp add: sl world_ok_def pend_def Let_def)
  have w1: "world_ok fam Q k ?w1" by (rule world_ok_with_epoch [OF assms(1)]) (simp add: g)
  have fr: "bucket_at ?w1 = bucket_at w" "im_opt (w_impl ?w1) = im_opt (w_impl w)" "w_shared ?w1 = w_shared w"
    "shardIndex (w_impl ?w1) = shardIndex (w_impl w)" "bucketIndex (w_impl ?w1) = bucketIndex (w_impl w)"
    "length (im_shards (w_impl ?w1)) = length (im_shards (w_impl w))"
    by (simp_all add: with_epoch_def bucket_at_def shard_at_def fun_eq_iff shardIndex_def bucketIndex_def bucketMask_def)
  have pr: "k_proto key = pk_proto pkt" using makeKey_proto [OF assms(9)] by simp
  obtain e es flowId w2 where ok2: "observe_key fam hot cfg pkt key ?i ?b ctResult facts False ?w1 = w2" "bucket_at w2 ?i ?b = e # es"
    "en_key e = key" "en_revKey e = reverseKey key"
    "en_expirationNs e = observe_expiration cfg (pk_tsNs pkt) (tf_reasonId facts) False
      (en_expirationNs (tele_new_entry fam cfg (hp_sessionId hot) pkt key ctResult facts False flowId))"
    "im_opt (w_impl w2) = im_opt (w_impl ?w1)" "length (im_shards (w_impl w2)) = length (im_shards (w_impl ?w1))"
    using observe_key_head [OF w1 assms(2) pr, of ?i ?b cfg hot ctResult facts] assms(10-14) by (auto simp: fr)
  have w': "?w' = with_epoch (epoch_exit s) w2"
    using assms(3-9) sl ok2(1) by (simp add: observeFlowTelemetry_def Let_def)
  have ok': "world_ok fam Q k ?w'"
    by (rule world_ok_observe [OF assms(1)]) (use assms(2,9) in \<open>simp add: observation_key_def\<close>)
  have ix: "shardIndex (w_impl ?w') (hashKey fam key) = ?i" "bucketIndex (w_impl ?w') (hashKey fam key) = ?b"
    using index_cong [of ?w' w] ok2(6,7) fr by (simp_all add: w' with_epoch_def)
  have head: "bucket_at ?w' ?i ?b = e # es" using ok2(2) by (simp add: w' with_epoch_def bucket_at_def shard_at_def)
  have exp: "en_expirationNs (tele_new_entry fam cfg (hp_sessionId hot) pkt key ctResult facts False flowId) =
      en_expirationNs (tele_new_entry fam cfg (hp_sessionId hot) pkt key ctResult facts False 0)"
    by (simp add: tele_new_entry_def Let_def)
  have "\<not> entry_expired e (pk_tsNs again)" using assms(19) ok2(5) exp by (simp add: entry_expired_def not_le)
  then have "live_entry key (pk_tsNs again) (bucket_at ?w' (shardIndex (w_impl ?w') (hashKey fam key)) (bucketIndex (w_impl ?w') (hashKey fam key))) = Some 0"
    unfolding ix head by (intro live_entry_head) (simp_all add: entry_matches_def ok2(3) keyEq_iff)
  from inspect_hit [OF ok' assms(17,15) this, of e] have "fst (inspectForPolicy fam t again ?w') = hit_view fam again key e"
    by (simp add: ix head)
  moreover have "fst (updateExisting fam again e False) = CT_ESTABLISHED"
    using assms(18) makeKey_proto [OF assms(15)] pr assms(10) by (simp add: updateExisting_def split_beta)
  ultimately show ?thesis using assms(16) by (simp add: hit_view_def Let_def keyEq_iff ok2(4))
qed

definition ex_facts :: TelemetryPacketFacts where
  "ex_facts = \<lparr>tf_packetDir = 2, tf_verdict = 2, tf_ifaceKindBit = 1, tf_l4Status = 0, tf_icmpType = 0, tf_icmpCode = 0,
     tf_icmpId = 0, tf_uidKnown = True, tf_ifindexKnown = True, tf_portsAvailable = True, tf_userId = 0, tf_ifindex = 3,
     tf_reasonId = IP_RULE_BLOCK, tf_ruleId = Some 9, tf_srcAddrNet = [10, 0, 0, 2], tf_dstAddrNet = [1, 2, 3, 4],
     tf_packetBytes = 60\<rparr>"

definition ex_hot :: HotPath where
  "ex_hot = \<lparr>hp_cfg = Some teleConfig_default, hp_sessionId = 1\<rparr>"

theorem blocked_packet_becomes_established_witness:
  "fst (inspectForPolicy fam4 0 (ex_tcp4 1000005000 0x02)
     (observeFlowTelemetry fam4 0 (ex_tcp4 5000 0x02) \<lparr>r_state = CT_NEW, r_direction = DIR_ORIG\<rparr> ex_hot ex_facts (ex_world sample_telemetry))) =
    \<lparr>v_result = \<lparr>r_state = CT_ESTABLISHED, r_direction = DIR_ORIG\<rparr>, v_createOnAccept = False\<rparr>"
proof -
  let ?p = "ex_tcp4 5000 0x02" and ?a = "ex_tcp4 1000005000 0x02"
  obtain key where key: "makeKey fam4 ?p = Some key" "makeKey fam4 ?a = Some key" "reverseKey key \<noteq> key"
    by (simp add: makeKey_def ex_tcp4_def ex_udp4_def Let_def reverseKey_def)
  have v: "tcpValidNew ?p" "tcpValidUpdate ?a"
    by (simp_all add: ex_tcp4_def ex_udp4_def tcpValidNew_def tcpValidUpdate_def computeTcpPayloadLen_def tcpInvalidFlags_def Let_def)
  have room: "ucast (sc_totalEntries (w_shared (ex_world sample_telemetry))) <
      clampCap (ucast (maxEntries (im_opt (w_impl (ex_world sample_telemetry))))) (ucast (maxFlowEntries teleConfig_default))"
    by (simp add: ex_world_def new_shared_def new_impl_def normalize_options_def options_default_def Let_def teleConfig_default_def clampCap_def)
  show ?thesis
    by (rule blocked_packet_becomes_established [OF ex_world_ok [where Q = "\<lambda>_. True"] _ _ _ _ _ _ _ key(1) _ _ v(1) ex_world_empty room key(2,3) _ v(2)])
       (simp_all add: ex_hot_def ex_facts_def fam4_def isKnownPacketDirection_def PacketDir_In_def PacketDir_Out_def
          isL3ObservationStatus_def ex_tcp4_def ex_udp4_def observe_expiration_def teleConfig_default_def
          tele_new_entry_def isLooseTcpPickup_def isPickedUpMidStream_def addTimeoutNs_def u64_max_def Let_def)
qed

section \<open>Reclamation from inside an inspection\<close>

text \<open>The state of the epochs between operations: nobody reclaims, every cached slot was handed out, and a thread
  without a slot has exhausted them.\<close>

definition epoch_ok :: "Epoch \<Rightarrow> bool" where
  "epoch_ok ep \<longleftrightarrow> \<not> epo_reclaiming ep \<and> epo_used ep < 0xFFFFFFFF \<and>
     (\<forall>t i. epo_tls ep t = Some (Some i) \<longrightarrow> i < min (unat (epo_used ep)) 1024) \<and>
     (\<forall>t. epo_tls ep t = Some None \<longrightarrow> epo_exhausted ep)"

text \<open>A thread that is inside an operation.\<close>

definition inside :: "nat option \<Rightarrow> Epoch \<Rightarrow> bool" where
  "inside s ep \<longleftrightarrow> (case s of None \<Rightarrow> epo_exhausted ep
     | Some i \<Rightarrow> i < min (unat (epo_used ep)) 1024 \<and> epo_slots ep i \<noteq> kQuiescent)"

lemma inside_no_advance: "inside s ep \<Longrightarrow> beginAdvanceForReclaim ep = (None, ep)"
  by (auto simp: inside_def beginAdvanceForReclaim_def list_all_iff split: option.splits)

lemma inside_no_reclaim: "inside s (im_epoch (w_impl w)) \<Longrightarrow> maybeAdvanceAndReclaim nowNs w = w"
  using inside_no_advance [of s "im_epoch (w_impl w)"] by (simp add: maybeAdvanceAndReclaim_def Let_def)

lemma inside_enter:
  assumes "epoch_ok ep" and "epo_global ep < 3" and "slotForThread t ep = (s, ep')"
  shows "inside s (epoch_enter s ep')"
proof (cases "epo_tls ep t")
  case None
  have g: "epo_global ep \<noteq> 0xFF" using assms(2) by auto
  have "unat (epo_used ep + 1) = unat (epo_used ep) + 1"
    using assms(1) unat_add_lem [of "epo_used ep" 1] by (simp add: epoch_ok_def word_less_nat_alt)
  then show ?thesis
    using None assms g by (auto simp: slotForThread_def Let_def inside_def epoch_enter_def word_le_nat_alt split: if_splits)
next
  case (Some sl)
  have g: "epo_global ep \<noteq> 0xFF" using assms(2) by auto
  show ?thesis using Some assms g by (auto simp: slotForThread_def epoch_ok_def inside_def epoch_enter_def split: option.splits)
qed

lemma sweep_epoch:
  assumes "world_ok fam Q k w" and "i < length (im_shards (w_impl w))"
  shows "im_epoch (w_impl (snd (sweepLocked fam i nowNs r w))) = im_epoch (w_impl w)"
  using world_ok_sweep(4) [OF assms surjective_pairing] by (simp add: same_shape_def)

lemma hot_sweep_epoch:
  assumes ok: "world_ok fam Q k w" and i: "i < length (im_shards (w_impl w))" and ins: "inside s (im_epoch (w_impl w))"
  shows "im_epoch (w_impl (maybeHotSweep fam i nowNs w)) = im_epoch (w_impl w)"
proof -
  let ?w1 = "upd_shard i (\<lambda>s. s\<lparr>sh_lastHotSweepTsNs := nowNs\<rparr>) w"
  have w1: "world_ok fam Q k ?w1"
    using pend_upd_shard_same [of fam Q k 0 0 w "\<lambda>s. s\<lparr>sh_lastHotSweepTsNs := nowNs\<rparr>" i] ok by (simp add: world_ok_def)
  obtain n w2 where s: "sweepLocked fam i nowNs (epo_global (im_epoch (w_impl ?w1))) ?w1 = (n, w2)"
    by (cases "sweepLocked fam i nowNs (epo_global (im_epoch (w_impl ?w1))) ?w1")
  have e: "im_epoch (w_impl w2) = im_epoch (w_impl w)"
    using sweep_epoch [OF w1, of i nowNs "epo_global (im_epoch (w_impl ?w1))"] i s by simp
  have "maybeAdvanceAndReclaim nowNs w2 = w2" by (rule inside_no_reclaim [of s]) (simp add: e ins)
  then show ?thesis using s e by (auto simp: maybeHotSweep_def Let_def)
qed

lemma inspect_key_epoch:
  assumes ok: "world_ok fam Q k w" and i: "i < length (im_shards (w_impl w))" and ins: "inside s (im_epoch (w_impl w))"
  shows "im_epoch (w_impl (snd (inspect_key fam pkt key i b w))) = im_epoch (w_impl w)"
proof -
  obtain n w1 where s: "sweepLocked fam i (pk_tsNs pkt) (epo_global (im_epoch (w_impl w))) w = (n, w1)"
    by (cases "sweepLocked fam i (pk_tsNs pkt) (epo_global (im_epoch (w_impl w))) w")
  have e: "im_epoch (w_impl w1) = im_epoch (w_impl w)"
    using sweep_epoch [OF ok i, of "pk_tsNs pkt" "epo_global (im_epoch (w_impl w))"] s by simp
  have "maybeAdvanceAndReclaim (pk_tsNs pkt) w1 = w1" by (rule inside_no_reclaim [of s]) (simp add: e ins)
  then show ?thesis
    using s e by (auto simp: inspect_key_def inspect_miss_def count_overflow_def set_entry_def set_bucket_def Let_def split_beta
        split: option.splits)
qed

text \<open>C37. Reclamation never succeeds inside an inspection: \<^verbatim>\<open>inspectForPolicy\<close> calls
  \<^verbatim>\<open>maybeAdvanceAndReclaim\<close> while its own epoch slot is entered (or the slots are exhausted), so the scan for
  quiescent slots fails and the epoch never advances, however much was swept.\<close>

theorem inspect_never_reclaims:
  assumes "world_ok fam Q k w" and "epoch_ok (im_epoch (w_impl w))"
  shows "epo_global (im_epoch (w_impl (snd (inspectForPolicy fam t pkt w)))) = epo_global (im_epoch (w_impl w))"
proof (cases "pk_isFragment pkt \<or> makeKey fam pkt = None")
  case True
  then show ?thesis by (auto simp: inspectForPolicy_def)
next
  case False
  then obtain key where key: "makeKey fam pkt = Some key" by auto
  obtain s ep where sl: "slotForThread t (im_epoch (w_impl w)) = (s, ep)" by (cases "slotForThread t (im_epoch (w_impl w))")
  let ?i = "shardIndex (w_impl w) (hashKey fam key)" and ?b = "bucketIndex (w_impl w) (hashKey fam key)"
  let ?w1 = "with_epoch (\<lambda>_. epoch_enter s ep) w"
  let ?w2 = "maybeHotSweep fam ?i (pk_tsNs pkt) ?w1"
  have ge: "epo_global ep = epo_global (im_epoch (w_impl w))" using slotForThread_global [of t "im_epoch (w_impl w)"] by (simp add: sl)
  have g: "epo_global (im_epoch (w_impl w)) < 3" using pendD(3) [OF assms(1) [unfolded world_ok_def]] .
  have w1: "world_ok fam Q k ?w1" by (rule world_ok_with_epoch [OF assms(1)]) (simp add: g ge)
  have i1: "?i < length (im_shards (w_impl ?w1))" using index_bounds(1) [OF assms(1)] by (simp add: with_epoch_def)
  have ins: "inside s (im_epoch (w_impl ?w1))" using inside_enter [OF assms(2) g sl] by (simp add: with_epoch_def)
  have e2: "im_epoch (w_impl ?w2) = im_epoch (w_impl ?w1)" by (rule hot_sweep_epoch [OF w1 i1 ins])
  note f = world_ok_hot_sweep [OF w1 i1, of "pk_tsNs pkt"]
  have "im_epoch (w_impl (snd (inspect_key fam pkt key ?i ?b ?w2))) = im_epoch (w_impl ?w1)"
    using inspect_key_epoch [OF f(1), of ?i s pkt key ?b] i1 f(2) ins e2 by simp
  then show ?thesis using False key sl ge by (simp add: inspectForPolicy_def Let_def split_beta with_epoch_def)
qed

theorem inspect_never_reclaims_witness:
  "epo_global (im_epoch (w_impl (snd (inspectForPolicy fam4 0 (ex_tcp4 5000 0x02) (ex_world sample_telemetry))))) =
     epo_global (im_epoch (w_impl (ex_world sample_telemetry)))"
  by (rule inspect_never_reclaims [OF ex_world_ok [where Q = "\<lambda>_. True"]])
     (simp add: ex_world_def new_impl_def new_epoch_def epoch_ok_def Let_def)

end
