(* ===== verification/StatsCounters.thy ===== *)
theory StatsCounters
  imports Prelude
begin

text \<open>
  The counters of the daemon: the daily statistics of apps and domains (\<^verbatim>\<open>src/src/Stats.cpp\<close>,
  \<^verbatim>\<open>AppStats.cpp\<close>, \<^verbatim>\<open>DomainStats.cpp\<close>), the traffic counters of an app (\<^verbatim>\<open>TrafficCounters.hpp\<close>), the
  sharded reason counters of the packet path (\<^verbatim>\<open>ReasonMetrics.hpp\<close>) and the counters of the domain policy
  sources (\<^verbatim>\<open>DomainPolicySourcesMetrics.hpp\<close>). Counters are 64-bit words and wrap around. The calendar day,
  which the code computes from the local time, is an argument.
\<close>

section \<open>Views, types, colours and verdicts\<close>

text \<open>The enumerations index arrays, so that a view and a type are natural numbers with the source's values;
  colours and verdicts are datatypes with their index.\<close>

abbreviation (input) "DAY0 \<equiv> (0 :: nat)"
abbreviation (input) "V_ALL \<equiv> (7 :: nat)"
abbreviation (input) "V_WEEK \<equiv> (8 :: nat)"
abbreviation (input) "nbViews \<equiv> (9 :: nat)"
abbreviation (input) "nbDays \<equiv> (7 :: nat)"
abbreviation (input) "nbTypes \<equiv> (5 :: nat)"

datatype StatType = T_DNS | T_RXP | T_RXB | T_TXP | T_TXB

datatype Color = ALLC | BLACK | WHITE | GREY

datatype Block = ALLB | B_BLOCK | B_AUTH

definition all_types :: "StatType list" where "all_types = [T_DNS, T_RXP, T_RXB, T_TXP, T_TXB]"

definition all_colors :: "Color list" where "all_colors = [ALLC, BLACK, WHITE, GREY]"

definition all_blocks :: "Block list" where "all_blocks = [ALLB, B_BLOCK, B_AUTH]"

text \<open>One slot of \<^verbatim>\<open>_stats\<close>: \<^verbatim>\<open>uint64_t[nbTypes][nbColors][nbBlocks]\<close> for apps,
  \<^verbatim>\<open>uint64_t[nbTypes][nbBlocks]\<close> for domains.\<close>

type_synonym AppCell = "StatType \<Rightarrow> Color \<Rightarrow> Block \<Rightarrow> u64"
type_synonym DomCell = "StatType \<Rightarrow> Block \<Rightarrow> u64"

text \<open>\<^verbatim>\<open>StatsTPL\<close>: the seven days and \<^verbatim>\<open>ALL\<close> (\<open>nbViews - 1\<close> slots), and the day of the last shift.\<close>

record 'c Stats =
  views :: "'c list"
  stat_timestamp :: int

type_synonym AppStats = "AppCell Stats"
type_synonym DomainStats = "DomCell Stats"

definition stats_new :: "'c \<Rightarrow> int \<Rightarrow> 'c Stats" where
  "stats_new z today = \<lparr>views = replicate (nbViews - 1) z, stat_timestamp = today\<rparr>"

definition app_zero :: AppCell where "app_zero = (\<lambda>_ _ _. 0)"

definition dom_zero :: DomCell where "dom_zero = (\<lambda>_ _. 0)"

section \<open>Shifting the days\<close>

text \<open>The two loops of \<^verbatim>\<open>shift\<close> share their index \<open>i\<close>, which runs down from the last day; the argument here is
  \<open>i + 1\<close>.\<close>

fun shift_copy :: "int \<Rightarrow> nat \<Rightarrow> 'c list \<Rightarrow> nat \<times> 'c list" where
  "shift_copy diff 0 vs = (0, vs)"
| "shift_copy diff (Suc i) vs =
     (if 0 \<le> int i - diff then shift_copy diff i (vs[i := vs ! nat (int i - diff)]) else (Suc i, vs))"

fun shift_clear :: "'c \<Rightarrow> nat \<Rightarrow> 'c list \<Rightarrow> 'c list" where
  "shift_clear z 0 vs = vs"
| "shift_clear z (Suc i) vs = shift_clear z i (vs[i := z])"

definition stats_shift :: "'c \<Rightarrow> int \<Rightarrow> 'c Stats \<Rightarrow> 'c Stats" where
  "stats_shift z today s =
     (if stat_timestamp s < today
      then let (i, vs) = shift_copy (today - stat_timestamp s) nbDays (views s)
           in \<lparr>views = shift_clear z i vs, stat_timestamp = today\<rparr>
      else s)"

section \<open>App statistics\<close>

definition cell_add :: "StatType \<Rightarrow> Color \<Rightarrow> Block \<Rightarrow> u64 \<Rightarrow> AppCell \<Rightarrow> AppCell" where
  "cell_add ts cs bs val c = c(ts := (c ts)(cs := (c ts cs)(bs := c ts cs bs + val)))"

definition app_slot_update :: "StatType \<Rightarrow> Color \<Rightarrow> Block \<Rightarrow> u64 \<Rightarrow> AppCell \<Rightarrow> AppCell" where
  "app_slot_update ts cs bs val c =
     cell_add ts ALLC ALLB val (cell_add ts cs ALLB val (cell_add ts ALLC bs val (cell_add ts cs bs val c)))"

definition appstats_update :: "int \<Rightarrow> StatType \<Rightarrow> Color \<Rightarrow> Block \<Rightarrow> u64 \<Rightarrow> AppStats \<Rightarrow> AppStats" where
  "appstats_update today ts cs bs val s0 =
     (let s = stats_shift app_zero today s0; f = app_slot_update ts cs bs val in
      s\<lparr>views := (views s)[DAY0 := f (views s ! DAY0), V_ALL := f (views s ! V_ALL)]\<rparr>)"

definition appstats_stat :: "AppStats \<Rightarrow> nat \<Rightarrow> StatType \<Rightarrow> Color \<Rightarrow> Block \<Rightarrow> u64" where
  "appstats_stat s view ts cs bs =
     (if view = V_WEEK then (\<Sum>i\<leftarrow>[0..<nbDays]. (views s ! i) ts cs bs) else (views s ! view) ts cs bs)"

definition appstats_resetDay :: "nat \<Rightarrow> AppStats \<Rightarrow> AppStats" where
  "appstats_resetDay day s =
     s\<lparr>views := (views s)[V_ALL := (\<lambda>ts cs bs. (views s ! V_ALL) ts cs bs - (views s ! day) ts cs bs), day := app_zero]\<rparr>"

section \<open>Domain statistics\<close>

definition dom_slot_update :: "StatType \<Rightarrow> Block \<Rightarrow> u64 \<Rightarrow> DomCell \<Rightarrow> DomCell" where
  "dom_slot_update ts bs val c =
     (let c1 = c(ts := (c ts)(bs := c ts bs + val)) in c1(ts := (c1 ts)(ALLB := c1 ts ALLB + val)))"

definition domstats_update :: "int \<Rightarrow> StatType \<Rightarrow> Block \<Rightarrow> u64 \<Rightarrow> DomainStats \<Rightarrow> DomainStats" where
  "domstats_update today ts bs val s0 =
     (let s = stats_shift dom_zero today s0; f = dom_slot_update ts bs val in
      s\<lparr>views := (views s)[DAY0 := f (views s ! DAY0), V_ALL := f (views s ! V_ALL)]\<rparr>)"

definition domstats_stat :: "DomainStats \<Rightarrow> nat \<Rightarrow> StatType \<Rightarrow> Block \<Rightarrow> u64" where
  "domstats_stat s view ts bs =
     (if view = V_WEEK then (\<Sum>i\<leftarrow>[0..<nbDays]. (views s ! i) ts bs) else (views s ! view) ts bs)"

definition domstats_resetDay :: "nat \<Rightarrow> DomainStats \<Rightarrow> DomainStats" where
  "domstats_resetDay day s =
     s\<lparr>views := (views s)[V_ALL := (\<lambda>ts bs. (views s ! V_ALL) ts bs - (views s ! day) ts bs), day := dom_zero]\<rparr>"

definition hasBlocked :: "int \<Rightarrow> nat \<Rightarrow> DomainStats \<Rightarrow> bool \<times> DomainStats" where
  "hasBlocked today view s0 =
     (let s = stats_shift dom_zero today s0 in (list_ex (\<lambda>ts. domstats_stat s view ts B_BLOCK \<noteq> 0) all_types, s))"

definition hasAccepted :: "int \<Rightarrow> nat \<Rightarrow> DomainStats \<Rightarrow> bool \<times> DomainStats" where
  "hasAccepted today view s0 =
     (let s = stats_shift dom_zero today s0 in (list_ex (\<lambda>ts. domstats_stat s view ts B_AUTH \<noteq> 0) all_types, s))"

section \<open>Operations of the template\<close>

definition appstats_hasData :: "int \<Rightarrow> nat \<Rightarrow> AppStats \<Rightarrow> bool \<times> AppStats" where
  "appstats_hasData today view s0 =
     (let s = stats_shift app_zero today s0 in (list_ex (\<lambda>ts. appstats_stat s view ts ALLC ALLB \<noteq> 0) all_types, s))"

definition domstats_hasData :: "int \<Rightarrow> nat \<Rightarrow> DomainStats \<Rightarrow> bool \<times> DomainStats" where
  "domstats_hasData today view s0 =
     (let s = stats_shift dom_zero today s0 in (list_ex (\<lambda>ts. domstats_stat s view ts ALLB \<noteq> 0) all_types, s))"

text \<open>\<^verbatim>\<open>reset()\<close> clears every slot and keeps the timestamp; \<^verbatim>\<open>reset(view)\<close> shifts first.\<close>

definition stats_clear :: "'c \<Rightarrow> 'c Stats \<Rightarrow> 'c Stats" where
  "stats_clear z s = s\<lparr>views := replicate (nbViews - 1) z\<rparr>"

definition stats_reset :: "'c \<Rightarrow> (nat \<Rightarrow> 'c Stats \<Rightarrow> 'c Stats) \<Rightarrow> int \<Rightarrow> nat \<Rightarrow> 'c Stats \<Rightarrow> 'c Stats" where
  "stats_reset z resetDay today view s0 =
     (let s = stats_shift z today s0 in
      if view = V_ALL then stats_clear z s
      else if view = V_WEEK then fold resetDay [0..<nbDays] s
      else resetDay view s)"

definition appstats_reset :: "int \<Rightarrow> nat \<Rightarrow> AppStats \<Rightarrow> AppStats" where
  "appstats_reset = stats_reset app_zero appstats_resetDay"

definition domstats_reset :: "int \<Rightarrow> nat \<Rightarrow> DomainStats \<Rightarrow> DomainStats" where
  "domstats_reset = stats_reset dom_zero domstats_resetDay"

section \<open>Migrations\<close>

text \<open>An access of the array \<^verbatim>\<open>_stats\<close> with a bounds check: \<open>None\<close> is an access outside of it.\<close>

definition upd_view :: "nat \<Rightarrow> ('c \<Rightarrow> 'c) \<Rightarrow> 'c Stats \<Rightarrow> 'c Stats option" where
  "upd_view v f s = (if v < length (views s) then Some (s\<lparr>views := (views s)[v := f (views s ! v)]\<rparr>) else None)"

definition v1v2_cell :: "DomCell \<Rightarrow> DomCell" where
  "v1v2_cell c = (\<lambda>ts bs. case bs of B_AUTH \<Rightarrow> c ts B_AUTH + c ts B_BLOCK | B_BLOCK \<Rightarrow> 0 | ALLB \<Rightarrow> c ts ALLB)"

fun v1v2_loop :: "nat list \<Rightarrow> DomainStats \<Rightarrow> DomainStats option" where
  "v1v2_loop [] s = Some s"
| "v1v2_loop (v # vs) s = (case upd_view v v1v2_cell s of None \<Rightarrow> None | Some s' \<Rightarrow> v1v2_loop vs s')"

text \<open>\<^verbatim>\<open>for (size_t vs = 0; vs < nbViews; ++vs)\<close>.\<close>

definition domstats_migrateV1V2 :: "DomainStats \<Rightarrow> DomainStats option" where
  "domstats_migrateV1V2 s = v1v2_loop [0..<nbViews] s"

definition domstats_migrateV4V5 :: "DomainStats \<Rightarrow> DomainStats \<Rightarrow> DomainStats" where
  "domstats_migrateV4V5 old s =
     s\<lparr>views := map (\<lambda>v. (\<lambda>ts bs. (views s ! v) ts bs + domstats_stat old v ts bs)) [0..<nbViews - 1]\<rparr>"

definition v4v5_cell :: "DomCell \<Rightarrow> Color \<Rightarrow> Color \<Rightarrow> AppCell \<Rightarrow> AppCell" where
  "v4v5_cell d cs1 cs2 c =
     (\<lambda>ts cs bs.
        let val = d ts bs;
            c1 = (c ts)(cs1 := (c ts cs1)(bs := c ts cs1 bs - (if val \<le> c ts cs1 bs then val else 0)));
            c2 = c1(cs2 := (c1 cs2)(bs := c1 cs2 bs + val))
        in c2 cs bs)"

definition appstats_migrateV4V5 :: "DomainStats \<Rightarrow> Color \<Rightarrow> Color \<Rightarrow> AppStats \<Rightarrow> AppStats" where
  "appstats_migrateV4V5 ds cs1 cs2 s =
     s\<lparr>views := map (\<lambda>v. v4v5_cell (domstats_stat ds v) cs1 cs2 (views s ! v)) [0..<nbViews - 1]\<rparr>"

section \<open>Traffic counters\<close>

record TrafficCounters =
  tc_allow :: "StatType \<Rightarrow> u64"
  tc_block :: "StatType \<Rightarrow> u64"

definition traffic_reset :: "TrafficCounters" where
  "traffic_reset = \<lparr>tc_allow = (\<lambda>_. 0), tc_block = (\<lambda>_. 0)\<rparr>"

definition bump :: "'k \<Rightarrow> u64 \<Rightarrow> ('k \<Rightarrow> u64) \<Rightarrow> 'k \<Rightarrow> u64" where
  "bump k n f = f(k := f k + n)"

definition observeDns :: "bool \<Rightarrow> TrafficCounters \<Rightarrow> TrafficCounters" where
  "observeDns blocked t =
     (if blocked then t\<lparr>tc_block := bump T_DNS 1 (tc_block t)\<rparr> else t\<lparr>tc_allow := bump T_DNS 1 (tc_allow t)\<rparr>)"

definition observePacket :: "bool \<Rightarrow> bool \<Rightarrow> u64 \<Rightarrow> TrafficCounters \<Rightarrow> TrafficCounters" where
  "observePacket inbound accepted bytes t =
     (let pktIdx = (if inbound then T_RXP else T_TXP); bytesIdx = (if inbound then T_RXB else T_TXB);
          f = (\<lambda>b. bump bytesIdx bytes (bump pktIdx 1 b))
      in if accepted then t\<lparr>tc_allow := f (tc_allow t)\<rparr> else t\<lparr>tc_block := f (tc_block t)\<rparr>)"

text \<open>The snapshot is the pair of the two arrays; \<^verbatim>\<open>takeAndReset\<close> also clears them.\<close>

definition traffic_snapshot :: "TrafficCounters \<Rightarrow> StatType \<Rightarrow> u64 \<times> u64" where
  "traffic_snapshot t k = (tc_allow t k, tc_block t k)"

definition takeAndReset :: "TrafficCounters \<Rightarrow> (StatType \<Rightarrow> u64 \<times> u64) \<times> TrafficCounters" where
  "takeAndReset t = (traffic_snapshot t, traffic_reset)"

section \<open>Sharded counters\<close>

text \<open>\<^verbatim>\<open>ReasonMetrics\<close> and \<^verbatim>\<open>DomainPolicySourcesMetrics\<close> spread their counters over sixteen shards; a thread
  is given a shard round robin when it first observes (\<open>sm_slot\<close> is the thread-local cache). Both have two
  arrays per shard, indexed by \<open>'k\<close>.\<close>

record 'k ShardedMetrics =
  sm_shards :: "(('k \<Rightarrow> u64) \<times> ('k \<Rightarrow> u64)) list"
  sm_nextShard :: u32
  sm_slot :: "nat \<Rightarrow> nat option"

abbreviation (input) "kShardCount \<equiv> (16 :: nat)"

definition metrics_new :: "'k ShardedMetrics" where
  "metrics_new = \<lparr>sm_shards = replicate kShardCount (\<lambda>_. 0, \<lambda>_. 0), sm_nextShard = 0, sm_slot = (\<lambda>_. None)\<rparr>"

definition metrics_reset :: "'k ShardedMetrics \<Rightarrow> 'k ShardedMetrics" where
  "metrics_reset m = m\<lparr>sm_shards := map (\<lambda>_. (\<lambda>_. 0, \<lambda>_. 0)) (sm_shards m)\<rparr>"

definition shardIndexForThread :: "nat \<Rightarrow> 'k ShardedMetrics \<Rightarrow> nat \<times> 'k ShardedMetrics" where
  "shardIndexForThread thread m =
     (case sm_slot m thread of
        Some idx \<Rightarrow> (idx, m)
      | None \<Rightarrow>
          let idx = unat (sm_nextShard m) mod kShardCount in
          (idx, m\<lparr>sm_nextShard := sm_nextShard m + 1, sm_slot := (sm_slot m)(thread \<mapsto> idx)\<rparr>))"

definition metrics_observe ::
  "nat \<Rightarrow> (('k \<Rightarrow> u64) \<times> ('k \<Rightarrow> u64) \<Rightarrow> ('k \<Rightarrow> u64) \<times> ('k \<Rightarrow> u64)) \<Rightarrow> 'k ShardedMetrics \<Rightarrow> 'k ShardedMetrics" where
  "metrics_observe thread f m0 =
     (let (idx, m) = shardIndexForThread thread m0 in m\<lparr>sm_shards := (sm_shards m)[idx := f (sm_shards m ! idx)]\<rparr>)"

definition metrics_snapshot :: "'k ShardedMetrics \<Rightarrow> 'k \<Rightarrow> u64 \<times> u64" where
  "metrics_snapshot m k = ((\<Sum>s\<leftarrow>sm_shards m. fst s k), (\<Sum>s\<leftarrow>sm_shards m. snd s k))"

section \<open>Runs of app statistics\<close>

datatype StatOp = S_update StatType Color Block u64 | S_hasData nat | S_reset nat

fun stat_step :: "int \<times> StatOp \<Rightarrow> AppStats \<Rightarrow> AppStats" where
  "stat_step (today, S_update ts cs bs val) s = appstats_update today ts cs bs val s"
| "stat_step (today, S_hasData view) s = snd (appstats_hasData today view s)"
| "stat_step (today, S_reset view) s = appstats_reset today view s"

text \<open>Callers pass a proper colour and verdict, and a view of the enumeration.\<close>

fun stat_op_ok :: "StatOp \<Rightarrow> bool" where
  "stat_op_ok (S_update ts cs bs val) \<longleftrightarrow> cs \<noteq> ALLC \<and> bs \<noteq> ALLB"
| "stat_op_ok (S_hasData view) \<longleftrightarrow> view \<le> V_WEEK"
| "stat_op_ok (S_reset view) \<longleftrightarrow> view \<le> V_WEEK"

definition stat_run :: "(int \<times> StatOp) list \<Rightarrow> AppStats \<Rightarrow> AppStats" where
  "stat_run ops = fold stat_step ops"

section \<open>The totals of a slot\<close>

text \<open>The row \<^verbatim>\<open>ALLC\<close> of a slot is the sum of the colours and its column \<^verbatim>\<open>ALLB\<close> the sum of the verdicts.\<close>

definition cell_totals :: "AppCell \<Rightarrow> bool" where
  "cell_totals c \<longleftrightarrow>
     (\<forall>ts bs. c ts ALLC bs = c ts BLACK bs + c ts WHITE bs + c ts GREY bs) \<and>
     (\<forall>ts cs. c ts cs ALLB = c ts cs B_BLOCK + c ts cs B_AUTH)"

definition stats_ok :: "AppStats \<Rightarrow> bool" where
  "stats_ok s \<longleftrightarrow> length (views s) = 8 \<and> (\<forall>v < 8. cell_totals (views s ! v))"

lemma cell_totals_zero [simp]: "cell_totals app_zero"
  by (simp add: cell_totals_def app_zero_def)

lemma cell_totals_add:
  "cell_totals c \<Longrightarrow> cell_totals d \<Longrightarrow> cell_totals (\<lambda>ts cs bs. c ts cs bs + d ts cs bs)"
  by (simp add: cell_totals_def algebra_simps)

lemma cell_totals_diff:
  "cell_totals c \<Longrightarrow> cell_totals d \<Longrightarrow> cell_totals (\<lambda>ts cs bs. c ts cs bs - d ts cs bs)"
  by (simp add: cell_totals_def algebra_simps)

lemma cell_totals_update:
  assumes "cell_totals c" and "cs \<noteq> ALLC" and "bs \<noteq> ALLB"
  shows "cell_totals (app_slot_update ts cs bs val c)"
  using assms
  by (cases cs; cases bs) (simp_all add: cell_totals_def app_slot_update_def cell_add_def algebra_simps)

lemma shift_copy_inv:
  "length vs = n \<Longrightarrow> m \<le> n \<Longrightarrow> \<forall>v \<in> set vs. P v \<Longrightarrow> 0 < diff \<Longrightarrow> shift_copy diff m vs = (i, vs') \<Longrightarrow>
   length vs' = n \<and> i \<le> n \<and> (\<forall>v \<in> set vs'. P v)"
proof (induction m arbitrary: vs)
  case 0
  then show ?case by simp
next
  case (Suc m)
  show ?case
  proof (cases "0 \<le> int m - diff")
    case True
    have "nat (int m - diff) < n" using Suc.prems True by linarith
    then have "\<forall>v \<in> set (vs[m := vs ! nat (int m - diff)]). P v"
      using Suc.prems set_update_subset_insert [of vs m] by (auto dest: nth_mem)
    then show ?thesis using Suc True by (intro Suc.IH [of "vs[m := vs ! nat (int m - diff)]"]) auto
  qed (use Suc.prems in auto)
qed

lemma shift_clear_inv: "P z \<Longrightarrow> \<forall>v \<in> set vs. P v \<Longrightarrow> length (shift_clear z i vs) = length vs \<and> (\<forall>v \<in> set (shift_clear z i vs). P v)"
proof (induction i arbitrary: vs)
  case (Suc i)
  have "\<forall>v \<in> set (vs[i := z]). P v" using Suc.prems set_update_subset_insert [of vs i z] by auto
  then show ?case using Suc.IH [of "vs[i := z]"] Suc.prems(1) by simp
qed simp

lemma stats_ok_iff: "stats_ok s \<longleftrightarrow> length (views s) = 8 \<and> (\<forall>v \<in> set (views s). cell_totals v)"
  unfolding stats_ok_def by (metis in_set_conv_nth)

lemma stats_ok_shift: "stats_ok s \<Longrightarrow> stats_ok (stats_shift app_zero today s)"
proof -
  assume ok: "stats_ok s"
  show "stats_ok (stats_shift app_zero today s)"
  proof (cases "stat_timestamp s < today")
    case True
    obtain i vs where c: "shift_copy (today - stat_timestamp s) nbDays (views s) = (i, vs)" by fastforce
    have "length vs = 8 \<and> i \<le> 8 \<and> (\<forall>v \<in> set vs. cell_totals v)"
      by (rule shift_copy_inv [OF _ _ _ _ c]) (use ok True in \<open>auto simp: stats_ok_iff\<close>)
    then show ?thesis
      using True c shift_clear_inv [of cell_totals app_zero vs i] by (simp add: stats_shift_def stats_ok_iff)
  qed (use ok in \<open>simp add: stats_shift_def\<close>)
qed

lemma stats_ok_set:
  assumes "stats_ok s" and "cell_totals c"
  shows "stats_ok (s\<lparr>views := (views s)[i := c]\<rparr>)"
  using assms set_update_subset_insert [of "views s" i c] by (auto simp: stats_ok_iff)

lemma stats_ok_resetDay: "stats_ok s \<Longrightarrow> day < 8 \<Longrightarrow> stats_ok (appstats_resetDay day s)"
  using stats_ok_set [OF stats_ok_set, of s "\<lambda>ts cs bs. (views s ! 7) ts cs bs - (views s ! day) ts cs bs" app_zero 7 day]
  by (simp add: appstats_resetDay_def stats_ok_def cell_totals_diff)

lemma stats_ok_clear: "stats_ok (stats_clear app_zero s)"
  by (simp add: stats_ok_iff stats_clear_def)

lemma stats_ok_new: "stats_ok (stats_new app_zero today)"
  by (simp add: stats_ok_iff stats_new_def)

lemma stats_ok_week: "stats_ok s \<Longrightarrow> \<forall>d \<in> set ds. d < 8 \<Longrightarrow> stats_ok (fold appstats_resetDay ds s)"
  by (induction ds arbitrary: s) (auto intro: stats_ok_resetDay)

lemma stats_ok_update:
  assumes ok: "stats_ok s" and "cs \<noteq> ALLC" and "bs \<noteq> ALLB"
  shows "stats_ok (appstats_update today ts cs bs val s)"
proof -
  let ?s = "stats_shift app_zero today s"
  have ok': "stats_ok ?s" by (rule stats_ok_shift [OF ok])
  then have "cell_totals (app_slot_update ts cs bs val (views ?s ! 0))" "cell_totals (app_slot_update ts cs bs val (views ?s ! 7))"
    using assms(2,3) by (auto simp: stats_ok_def intro: cell_totals_update)
  then show ?thesis
    using stats_ok_set [OF stats_ok_set [OF ok']] by (simp add: appstats_update_def Let_def)
qed

lemma stats_ok_step: "stats_ok s \<Longrightarrow> stat_op_ok (snd op) \<Longrightarrow> stats_ok (stat_step op s)"
proof (cases op)
  case (Pair today x)
  assume ok: "stats_ok s" "stat_op_ok (snd op)"
  show ?thesis
  proof (cases x)
    case (S_update ts cs bs val)
    then show ?thesis using ok Pair by (simp add: stats_ok_update)
  next
    case (S_hasData view)
    then show ?thesis using ok Pair by (simp add: appstats_hasData_def Let_def stats_ok_shift)
  next
    case (S_reset view)
    then show ?thesis using ok Pair
      by (auto simp: appstats_reset_def stats_reset_def Let_def stats_ok_clear stats_ok_shift
          intro!: stats_ok_week stats_ok_resetDay)
  qed
qed

lemma stats_ok_run: "stats_ok s \<Longrightarrow> \<forall>op \<in> set ops. stat_op_ok (snd op) \<Longrightarrow> stats_ok (stat_run ops s)"
  unfolding stat_run_def by (induction ops arbitrary: s) (auto intro: stats_ok_step)

lemma totals_of_view:
  assumes "stats_ok s" and "view \<le> V_WEEK"
  shows "cell_totals (appstats_stat s view)"
proof (cases "view = V_WEEK")
  case True
  have "cell_totals (\<lambda>ts cs bs. \<Sum>i\<leftarrow>ds. (views s ! i) ts cs bs)" if "\<forall>d \<in> set ds. d < 8" for ds
    using that
  proof (induction ds)
    case (Cons d ds)
    then show ?case using assms(1) cell_totals_add [of "views s ! d"] by (simp add: stats_ok_def)
  qed (simp add: cell_totals_def)
  from this [of "[0..<7]"] show ?thesis
    by (simp add: appstats_stat_def [abs_def] True del: upt_Suc sum_list.Cons list.map)
qed (use assms in \<open>simp add: appstats_stat_def [abs_def] stats_ok_def\<close>)

section \<open>Sharding is invisible in the snapshot\<close>

definition metrics_wf :: "'k ShardedMetrics \<Rightarrow> bool" where
  "metrics_wf m \<longleftrightarrow> length (sm_shards m) = kShardCount \<and> (\<forall>t i. sm_slot m t = Some i \<longrightarrow> i < kShardCount)"

text \<open>An observation adds \<open>x\<close> and \<open>y\<close> to the two counters of a key.\<close>

definition add_both :: "'k \<Rightarrow> u64 \<Rightarrow> u64 \<Rightarrow> ('k \<Rightarrow> u64) \<times> ('k \<Rightarrow> u64) \<Rightarrow> ('k \<Rightarrow> u64) \<times> ('k \<Rightarrow> u64)" where
  "add_both k x y s = (bump k x (fst s), bump k y (snd s))"

lemma sum_list_update:
  "i < length xs \<Longrightarrow> (\<Sum>x\<leftarrow>xs[i := y]. g x) = (\<Sum>x\<leftarrow>xs. g x) - g (xs ! i) + (g y :: u64)"
  by (induction xs arbitrary: i) (auto split: nat.split simp: algebra_simps)

lemma metrics_wf_new [simp]: "metrics_wf metrics_new"
  by (simp add: metrics_wf_def metrics_new_def)

lemma metrics_wf_reset [simp]: "metrics_wf m \<Longrightarrow> metrics_wf (metrics_reset m)"
  by (simp add: metrics_wf_def metrics_reset_def)

lemma shard_of_thread:
  assumes "metrics_wf m" and "shardIndexForThread t m = (idx, m')"
  shows "idx < kShardCount \<and> sm_shards m' = sm_shards m \<and> metrics_wf m'"
proof (cases "sm_slot m t")
  case None
  have "idx = unat (sm_nextShard m) mod kShardCount"
    and m': "m' = m\<lparr>sm_nextShard := sm_nextShard m + 1, sm_slot := (sm_slot m)(t \<mapsto> idx)\<rparr>"
    using assms(2) by (auto simp: shardIndexForThread_def None Let_def)
  then have "idx < kShardCount" by simp
  then show ?thesis using assms(1) by (simp add: m' metrics_wf_def)
next
  case (Some i)
  then show ?thesis using assms by (simp add: shardIndexForThread_def metrics_wf_def)
qed

lemma metrics_wf_observe:
  assumes "metrics_wf m"
  shows "metrics_wf (metrics_observe t f m)"
proof -
  obtain idx m' where i: "shardIndexForThread t m = (idx, m')" by fastforce
  show ?thesis using shard_of_thread [OF assms i] by (auto simp: metrics_observe_def i metrics_wf_def)
qed

lemma metrics_snapshot_observe:
  assumes "metrics_wf m"
  shows "metrics_snapshot (metrics_observe t (add_both r x y) m) k =
    (if k = r then (fst (metrics_snapshot m k) + x, snd (metrics_snapshot m k) + y) else metrics_snapshot m k)"
proof -
  obtain idx m' where i: "shardIndexForThread t m = (idx, m')" by fastforce
  note shard = shard_of_thread [OF assms i]
  have "idx < length (sm_shards m)" using shard assms by (simp add: metrics_wf_def)
  then show ?thesis using shard
    by (simp add: metrics_observe_def i metrics_snapshot_def sum_list_update add_both_def bump_def)
qed

text \<open>In every view, the week included, the statistics of an app add up: after any sequence of updates,
  resets and reads on any days, the total over colours is the sum of the three colours and the total over
  verdicts the sum of blocked and authorized (modulo \<open>2\<^sup>6\<^sup>4\<close>).\<close>

theorem stats_totals_consistent:
  assumes "\<forall>op \<in> set ops. stat_op_ok (snd op)" and "view \<le> V_WEEK"
  shows "let stat = appstats_stat (stat_run ops (stats_new app_zero day0)) view in
    stat ts ALLC bs = stat ts BLACK bs + stat ts WHITE bs + stat ts GREY bs \<and>
    stat ts cs ALLB = stat ts cs B_BLOCK + stat ts cs B_AUTH"
  using totals_of_view [OF stats_ok_run [OF stats_ok_new [of day0] assms(1)] assms(2)]
  unfolding cell_totals_def Let_def by blast

theorem stats_totals_consistent_witness:
  "let stat = appstats_stat (stat_run [(20000, S_update T_RXB BLACK B_BLOCK 40), (20001, S_update T_RXB GREY B_AUTH 2),
       (20003, S_reset 3)] (stats_new app_zero 20000)) V_WEEK in
    stat T_RXB ALLC ALLB = stat T_RXB BLACK ALLB + stat T_RXB WHITE ALLB + stat T_RXB GREY ALLB \<and>
    stat T_RXB ALLC ALLB = 2"
proof -
  let ?ops = "[(20000, S_update T_RXB BLACK B_BLOCK 40), (20001, S_update T_RXB GREY B_AUTH 2), (20003, S_reset 3)]"
  have "appstats_stat (stat_run ?ops (stats_new app_zero 20000)) V_WEEK T_RXB ALLC ALLB = 2" by code_simp
  then show ?thesis
    using stats_totals_consistent [of ?ops V_WEEK 20000 T_RXB ALLB ALLC] by (simp add: Let_def)
qed

text \<open>The migration of version 1 statistics leaves the array: it loops over the nine views although the
  array has one slot less, the week being computed, so that it always ends in an access out of bounds.\<close>

theorem migrate_v1_out_of_bounds:
  "domstats_migrateV1V2 (fold (\<lambda>(today, ts, bs, val). domstats_update today ts bs val) us (stats_new dom_zero day0)) = None"
proof -
  have len: "length (views (domstats_update today ts bs val s)) = length (views s)" for today ts bs val and s :: DomainStats
  proof -
    obtain i vs where c: "shift_copy (today - stat_timestamp s) nbDays (views s) = (i, vs)" by fastforce
    have gen: "shift_copy d m ws = (j, ws') \<Longrightarrow> length ws' = length ws" for d m j and ws ws' :: "DomCell list"
      by (induction d m ws rule: shift_copy.induct) (auto split: if_splits)
    show ?thesis using gen [OF c] c shift_clear_inv [of "\<lambda>_. True" dom_zero vs i]
      by (auto simp: domstats_update_def stats_shift_def Let_def)
  qed
  have "length (views (fold (\<lambda>(today, ts, bs, val). domstats_update today ts bs val) us s)) = length (views s)" for s
    by (induction us arbitrary: s) (auto simp: len)
  then have n: "length (views (fold (\<lambda>(today, ts, bs, val). domstats_update today ts bs val) us (stats_new dom_zero day0))) = 8"
    by (simp add: stats_new_def)
  have "v1v2_loop vs s = None" if "8 \<in> set vs" "length (views s) = 8" for vs s
    using that by (induction vs s rule: v1v2_loop.induct) (auto simp: upd_view_def split: option.splits)
  from this [OF _ n] show ?thesis by (simp add: domstats_migrateV1V2_def del: upt_Suc v1v2_loop.simps)
qed

end
