(* ===== verification/DomainLists.thy ===== *)
theory DomainLists
  imports Prelude "HOL-Library.AList"
begin

text \<open>
  Domain lists (\<^verbatim>\<open>src/src/DomainList.hpp\<close>, \<^verbatim>\<open>src/src/DomainList.cpp\<close>): the lists of blocked or allowed domains with
  their masks, the files they are kept in, and the aggregated snapshot that lookups read. An \<^verbatim>\<open>unordered_map\<close> is
  an association list with distinct keys; its order carries no meaning. The directory of list files is a map from
  file names to contents, and the failures of the file system are an argument of the operations.
\<close>

section \<open>Masks by domain\<close>

type_synonym DomsSet = "(string \<times> u8) list"
type_synonym DomsMap = "(string \<times> DomsSet) list"

text \<open>\<^verbatim>\<open>emplace\<close>, then \<^verbatim>\<open>|=\<close> when the key was there.\<close>

definition merge_domain :: "u8 \<Rightarrow> string \<Rightarrow> DomsSet \<Rightarrow> DomsSet" where
  "merge_domain m d s =
     (case map_of s d of None \<Rightarrow> s @ [(d, m)] | Some m0 \<Rightarrow> AList.update d (m0 OR m) s)"

text \<open>\<^verbatim>\<open>emplace\<close> alone.\<close>

definition emplace_domain :: "u8 \<Rightarrow> string \<Rightarrow> DomsSet \<Rightarrow> DomsSet \<times> bool" where
  "emplace_domain m d s = (case map_of s d of None \<Rightarrow> (s @ [(d, m)], True) | Some _ \<Rightarrow> (s, False))"

record DomainList =
  domainsByListId :: DomsMap
  aggSnapshot :: "DomsSet option"

definition dl_new :: DomainList where
  "dl_new = \<lparr>domainsByListId = [], aggSnapshot = None\<rparr>"

definition validListId :: "string \<Rightarrow> bool" where
  "validListId listId \<longleftrightarrow> listId \<noteq> [] \<and> length listId \<le> 64 \<and>
     list_all (\<lambda>c. let n = (of_char c :: nat) in
       48 \<le> n \<and> n \<le> 57 \<or> 65 \<le> n \<and> n \<le> 70 \<or> 97 \<le> n \<and> n \<le> 102 \<or> c = CHR ''-'') listId"

definition rebuildAggSnapshotLocked :: "DomainList \<Rightarrow> DomainList" where
  "rebuildAggSnapshotLocked dl =
     dl\<lparr>aggSnapshot := Some (fold (\<lambda>p snap. fold (\<lambda>kv. merge_domain (snd kv) (fst kv)) (snd p) snap) (domainsByListId dl) [])\<rparr>"

section \<open>Lookup\<close>

text \<open>\<^verbatim>\<open>find_first_of\<close> from a position and \<^verbatim>\<open>find_last_of\<close>; \<open>None\<close> is \<^verbatim>\<open>npos\<close>.\<close>

fun find_from :: "char \<Rightarrow> nat \<Rightarrow> string \<Rightarrow> nat option" where
  "find_from c pos [] = None"
| "find_from c 0 (x # xs) = (if x = c then Some 0 else map_option Suc (find_from c 0 xs))"
| "find_from c (Suc pos) (x # xs) = map_option Suc (find_from c pos xs)"

fun find_last :: "char \<Rightarrow> string \<Rightarrow> nat option" where
  "find_last c [] = None"
| "find_last c (x # xs) =
     (case find_last c xs of Some i \<Rightarrow> Some (Suc i) | None \<Rightarrow> if x = c then Some 0 else None)"

lemma find_from_bounds: "find_from c pos xs = Some i \<Longrightarrow> pos \<le> i \<and> i < length xs"
  by (induction c pos xs arbitrary: i rule: find_from.induct) (auto split: if_splits)

text \<open>The loop over the suffixes. When \<open>first\<close> is \<^verbatim>\<open>npos\<close> and \<open>last\<close> is not, \<^verbatim>\<open>substr(first + 1)\<close> is the whole
  string and the search starts over at its beginning; the caller never gets there.\<close>

function suffix_loop :: "DomsSet \<Rightarrow> string \<Rightarrow> nat option \<Rightarrow> nat option \<Rightarrow> u8 option" where
  "suffix_loop snap q first lst =
     (if first = lst then Some 0
      else case first of
             None \<Rightarrow> None
           | Some i \<Rightarrow>
               (case map_of snap (drop (i + 1) q) of
                  Some m \<Rightarrow> Some m
                | None \<Rightarrow> suffix_loop snap q (find_from CHR ''.'' (i + 1) q) lst))"
  by pat_completeness auto
termination
  by (relation "measure (\<lambda>(_, q, first, _). case first of None \<Rightarrow> 0 | Some i \<Rightarrow> Suc (length q - i))")
     (auto split: option.splits dest: find_from_bounds)

declare suffix_loop.simps [simp del]

definition query_of :: "string \<Rightarrow> string" where
  "query_of d = (if d \<noteq> [] \<and> last d = CHR ''.'' then butlast d else d)"

definition dl_blockMask :: "DomainList \<Rightarrow> string \<Rightarrow> u8 option" where
  "dl_blockMask dl d =
     (case aggSnapshot dl of
        None \<Rightarrow> Some 0
      | Some snap \<Rightarrow>
          if d = ''.'' then Some 0
          else let q = query_of d in
            (case map_of snap q of
               Some m \<Rightarrow> Some m
             | None \<Rightarrow> suffix_loop snap q (find_from CHR ''.'' 0 q) (find_last CHR ''.'' q)))"

section \<open>Files\<close>

type_synonym Files = "string \<Rightarrow> string option"

record IoFaults =
  io_open :: bool
  io_write :: bool
  io_rename :: bool

definition no_faults :: IoFaults where
  "no_faults = \<lparr>io_open = True, io_write = True, io_rename = True\<rparr>"

definition fs_rename :: "bool \<Rightarrow> string \<Rightarrow> string \<Rightarrow> Files \<Rightarrow> Files option" where
  "fs_rename ok old new fs =
     (case fs old of None \<Rightarrow> None | Some c \<Rightarrow> if ok then Some (fs(old := None, new := Some c)) else None)"

text \<open>\<^verbatim>\<open>in >> hostname\<close>: the words between white space.\<close>

definition is_space :: "char \<Rightarrow> bool" where
  "is_space c \<longleftrightarrow> (let n = (of_char c :: nat) in n = 32 \<or> 9 \<le> n \<and> n \<le> 13)"

fun words_acc :: "string \<Rightarrow> string \<Rightarrow> string list" where
  "words_acc w [] = (if w = [] then [] else [w])"
| "words_acc w (c # cs) =
     (if is_space c then (if w = [] then words_acc [] cs else w # words_acc [] cs) else words_acc (w @ [c]) cs)"

definition words :: "string \<Rightarrow> string list" where
  "words = words_acc []"

definition disabled_name :: "string \<Rightarrow> string" where
  "disabled_name listId = listId @ ''.disabled''"

definition line :: "string \<Rightarrow> string" where
  "line d = d @ [CHR 0x0A]"

definition load_domains :: "u8 \<Rightarrow> string \<Rightarrow> DomsSet \<Rightarrow> DomsSet" where
  "load_domains m content s = fold (merge_domain m) (words content) s"

section \<open>Operations\<close>

definition dl_get :: "DomainList \<Rightarrow> string \<Rightarrow> DomsSet" where
  "dl_get dl listId = (case map_of (domainsByListId dl) listId of Some s \<Rightarrow> s | None \<Rightarrow> [])"

definition dl_set :: "string \<Rightarrow> DomsSet \<Rightarrow> DomainList \<Rightarrow> DomainList" where
  "dl_set listId s dl = rebuildAggSnapshotLocked (dl\<lparr>domainsByListId := AList.update listId s (domainsByListId dl)\<rparr>)"

definition dl_size :: "DomainList \<Rightarrow> u32" where
  "dl_size dl = (\<Sum>p\<leftarrow>domainsByListId dl. of_nat (length (snd p)))"

definition dl_read :: "string \<Rightarrow> u8 \<Rightarrow> Files \<Rightarrow> DomainList \<Rightarrow> DomainList" where
  "dl_read listId m fs dl =
     (if \<not> validListId listId then dl
      else case fs listId of
        None \<Rightarrow> dl
      | Some content \<Rightarrow>
          rebuildAggSnapshotLocked
            (case map_of (domainsByListId dl) listId of
               Some _ \<Rightarrow> dl
             | None \<Rightarrow> dl\<lparr>domainsByListId := domainsByListId dl @ [(listId, load_domains m content [])]\<rparr>))"

text \<open>\<^verbatim>\<open>write\<close> appends the new domains to the file. The list is erased and created before the file is opened.\<close>

fun write_loop :: "u8 \<Rightarrow> string list \<Rightarrow> DomsSet \<Rightarrow> string \<Rightarrow> u32 \<Rightarrow> DomsSet \<times> string \<times> u32" where
  "write_loop m [] s out added = (s, out, added)"
| "write_loop m (d # ds) s out added =
     (let (s', inserted) = emplace_domain m d s in
      if inserted then write_loop m ds s' (out @ line d) (added + 1) else write_loop m ds s' out added)"

definition dl_write :: "string \<Rightarrow> string list \<Rightarrow> u8 \<Rightarrow> bool \<Rightarrow> IoFaults \<Rightarrow> DomainList \<times> Files \<Rightarrow> u32 \<times> DomainList \<times> Files" where
  "dl_write listId domains m clear io st =
     (let (dl, fs) = st in
      if \<not> validListId listId then (0, dl, fs)
      else
        let dl1 = (if clear then dl\<lparr>domainsByListId := AList.delete listId (domainsByListId dl)\<rparr> else dl);
            fs1 = (if clear \<and> io_open io then fs(listId := Some []) else fs);
            target = dl_get dl1 listId;
            dl2 = dl1\<lparr>domainsByListId := AList.update listId target (domainsByListId dl1)\<rparr>
        in if \<not> io_open io then (0, dl2, fs1)
           else
             let old = (case fs1 listId of Some c \<Rightarrow> c | None \<Rightarrow> []);
                 (s, out, added) = write_loop m domains target old 0
             in (added,
                 rebuildAggSnapshotLocked (dl2\<lparr>domainsByListId := AList.update listId s (domainsByListId dl2)\<rparr>),
                 fs1(listId := Some out)))"

record ImportResult =
  imp_ok :: bool
  imp_imported :: u32
  imp_total :: u32

definition importFailed :: ImportResult where
  "importFailed = \<lparr>imp_ok = False, imp_imported = 0, imp_total = 0\<rparr>"

fun import_loop :: "u8 \<Rightarrow> string list \<Rightarrow> DomsSet \<Rightarrow> u32 \<Rightarrow> DomsSet \<times> u32" where
  "import_loop m [] s imported = (s, imported)"
| "import_loop m (d # ds) s imported =
     import_loop m ds (merge_domain m d s) (if map_of s d = None then imported + 1 else imported)"

definition import_base :: "string \<Rightarrow> u8 \<Rightarrow> bool \<Rightarrow> bool \<Rightarrow> string \<Rightarrow> Files \<Rightarrow> DomainList \<Rightarrow> DomsSet" where
  "import_base listId m clear enabled finalPath fs dl =
     (if clear then []
      else case (if enabled then map_of (domainsByListId dl) listId else None) of
             Some s \<Rightarrow> s
           | None \<Rightarrow> (case fs finalPath of Some content \<Rightarrow> load_domains m content [] | None \<Rightarrow> []))"

definition importAtomic ::
  "string \<Rightarrow> string list \<Rightarrow> u8 \<Rightarrow> bool \<Rightarrow> bool \<Rightarrow> string \<Rightarrow> IoFaults \<Rightarrow> DomainList \<times> Files \<Rightarrow> ImportResult \<times> DomainList \<times> Files" where
  "importAtomic listId domains m clear enabled now io st =
     (let (dl, fs) = st in
      if \<not> validListId listId then (importFailed, dl, fs)
      else
        let finalPath = (if enabled then listId else disabled_name listId);
            tmpPath = finalPath @ ''.tmp.'' @ now;
            (merged, imported) = import_loop m domains (import_base listId m clear enabled finalPath fs dl) 0
        in if \<not> io_open io \<or> \<not> io_write io then (importFailed, dl, fs(tmpPath := None))
           else
             let fs1 = fs(tmpPath := Some (concat (map (\<lambda>kv. line (fst kv)) merged))) in
             case fs_rename (io_rename io) tmpPath finalPath fs1 of
               None \<Rightarrow> (importFailed, dl, fs1(tmpPath := None))
             | Some fs2 \<Rightarrow>
                 (\<lparr>imp_ok = True, imp_imported = imported, imp_total = of_nat (length merged)\<rparr>,
                  (if enabled then dl_set listId merged dl else dl), fs2))"

definition eraseUnlocked :: "string \<Rightarrow> DomainList \<Rightarrow> bool \<times> DomainList" where
  "eraseUnlocked listId dl =
     (case map_of (domainsByListId dl) listId of
        Some _ \<Rightarrow> (True, dl\<lparr>domainsByListId := AList.delete listId (domainsByListId dl)\<rparr>)
      | None \<Rightarrow> (False, dl))"

definition dl_erase :: "string \<Rightarrow> DomainList \<Rightarrow> bool \<times> DomainList" where
  "dl_erase listId dl =
     (if \<not> validListId listId then (False, dl)
      else let (erased, dl') = eraseUnlocked listId dl in
        (erased, if erased then rebuildAggSnapshotLocked dl' else dl'))"

definition dl_reset :: "DomainList \<Rightarrow> DomainList" where
  "dl_reset dl = rebuildAggSnapshotLocked (dl\<lparr>domainsByListId := []\<rparr>)"

definition dl_enable :: "string \<Rightarrow> u8 \<Rightarrow> IoFaults \<Rightarrow> DomainList \<times> Files \<Rightarrow> bool \<times> DomainList \<times> Files" where
  "dl_enable listId m io st =
     (let (dl, fs) = st in
      if \<not> validListId listId then (False, dl, fs)
      else case fs_rename (io_rename io) (disabled_name listId) listId fs of
             None \<Rightarrow> (False, dl, fs)
           | Some fs' \<Rightarrow>
               let s = (case fs' listId of Some content \<Rightarrow> if io_open io then load_domains m content [] else [] | None \<Rightarrow> [])
               in (True, dl_set listId s dl, fs'))"

definition dl_disable :: "string \<Rightarrow> IoFaults \<Rightarrow> DomainList \<times> Files \<Rightarrow> bool \<times> DomainList \<times> Files" where
  "dl_disable listId io st =
     (let (dl, fs) = st in
      if \<not> validListId listId then (False, dl, fs)
      else case fs_rename (io_rename io) listId (disabled_name listId) fs of
             None \<Rightarrow> (False, dl, fs)
           | Some fs' \<Rightarrow> (True, rebuildAggSnapshotLocked (snd (eraseUnlocked listId dl)), fs'))"

definition dl_changeBlockMask :: "string \<Rightarrow> u8 \<Rightarrow> DomainList \<Rightarrow> DomainList" where
  "dl_changeBlockMask listId m dl =
     (case map_of (domainsByListId dl) listId of
        None \<Rightarrow> dl
      | Some s \<Rightarrow>
          rebuildAggSnapshotLocked
            (dl\<lparr>domainsByListId := AList.update listId (map (\<lambda>kv. (fst kv, m)) s) (domainsByListId dl)\<rparr>))"

definition dl_remove :: "string \<Rightarrow> DomainList \<times> Files \<Rightarrow> bool \<times> DomainList \<times> Files" where
  "dl_remove listId st =
     (let (dl, fs) = st in
      if \<not> validListId listId then (False, dl, fs)
      else
        let dl' = snd (dl_erase listId dl) in
        if fs listId \<noteq> None then (True, dl', fs(listId := None))
        else if fs (disabled_name listId) \<noteq> None then (True, dl', fs(disabled_name listId := None))
        else (False, dl', fs))"

section \<open>The aggregated snapshot\<close>

definition or_all :: "u8 list \<Rightarrow> u8" where
  "or_all ms = foldr (OR) ms 0"

definition entry_masks :: "DomsSet \<Rightarrow> string \<Rightarrow> u8 list" where
  "entry_masks s d = map snd (filter (\<lambda>kv. fst kv = d) s)"

text \<open>The masks all lists give a domain.\<close>

definition list_masks :: "DomsMap \<Rightarrow> string \<Rightarrow> u8 list" where
  "list_masks ls d = concat (map (\<lambda>p. entry_masks (snd p) d) ls)"

definition mask_or :: "u8 option \<Rightarrow> u8 list \<Rightarrow> u8 option" where
  "mask_or r ms = (case r of None \<Rightarrow> if ms = [] then None else Some (or_all ms) | Some m \<Rightarrow> Some (m OR or_all ms))"

definition agg_lookup :: "DomainList \<Rightarrow> string \<Rightarrow> u8 option" where
  "agg_lookup dl d = (case aggSnapshot dl of None \<Rightarrow> None | Some s \<Rightarrow> map_of s d)"

definition snapshot_coherent :: "DomainList \<Rightarrow> bool" where
  "snapshot_coherent dl \<longleftrightarrow> (\<forall>d. agg_lookup dl d = mask_or None (list_masks (domainsByListId dl) d))"

lemma mask_or_Nil [simp]: "mask_or r [] = r"
  by (cases r) (simp_all add: mask_or_def or_all_def)

lemma mask_or_Cons: "mask_or r (m # ms) = mask_or (Some (case r of None \<Rightarrow> m | Some m0 \<Rightarrow> m0 OR m)) ms"
  by (cases r) (simp_all add: mask_or_def or_all_def or.assoc)

lemma mask_or_append: "mask_or r (xs @ ys) = mask_or (mask_or r xs) ys"
  by (induction xs arbitrary: r) (simp_all add: mask_or_Cons)

lemma map_of_merge:
  "map_of (merge_domain m k s) d = (if d = k then mask_or (map_of s k) [m] else map_of s d)"
  by (cases "map_of s k"; cases "map_of s d") (auto simp: merge_domain_def mask_or_Cons update_conv' map_add_def)

lemma map_of_fold_merge:
  "map_of (fold (\<lambda>kv. merge_domain (snd kv) (fst kv)) kvs s) d = mask_or (map_of s d) (entry_masks kvs d)"
proof (induction kvs arbitrary: s)
  case (Cons kv kvs)
  then show ?case by (simp add: entry_masks_def map_of_merge mask_or_Cons)
qed (simp add: entry_masks_def)

lemma map_of_fold_lists:
  "map_of (fold (\<lambda>p snap. fold (\<lambda>kv. merge_domain (snd kv) (fst kv)) (snd p) snap) ls s) d =
     mask_or (map_of s d) (list_masks ls d)"
proof (induction ls arbitrary: s)
  case (Cons p ls)
  then show ?case by (simp add: list_masks_def map_of_fold_merge mask_or_append)
qed (simp add: list_masks_def)

lemma coherent_rebuild [simp]: "snapshot_coherent (rebuildAggSnapshotLocked dl)"
  by (simp add: snapshot_coherent_def agg_lookup_def rebuildAggSnapshotLocked_def map_of_fold_lists)

lemma coherent_new [simp]: "snapshot_coherent dl_new"
  by (simp add: snapshot_coherent_def agg_lookup_def dl_new_def list_masks_def)

lemma alist_update_new: "map_of xs k = None \<Longrightarrow> AList.update k v xs = xs @ [(k, v)]"
  by (induction xs) (auto split: if_splits)

lemma list_masks_touch: "list_masks (AList.update listId (dl_get dl listId) (domainsByListId dl)) d = list_masks (domainsByListId dl) d"
proof (cases "map_of (domainsByListId dl) listId")
  case None
  then show ?thesis by (simp add: dl_get_def alist_update_new list_masks_def entry_masks_def)
next
  case (Some s)
  then show ?thesis by (simp add: dl_get_def update_triv)
qed

section \<open>Runs of a domain list\<close>

datatype DlOp =
    Dl_set string DomsSet
  | Dl_read string u8
  | Dl_write string "string list" u8 bool IoFaults
  | Dl_import string "string list" u8 bool bool string IoFaults
  | Dl_erase string
  | Dl_reset
  | Dl_enable string u8 IoFaults
  | Dl_disable string IoFaults
  | Dl_changeBlockMask string u8
  | Dl_remove string

fun dl_step :: "DlOp \<Rightarrow> DomainList \<times> Files \<Rightarrow> DomainList \<times> Files" where
  "dl_step (Dl_set l s) st = (dl_set l s (fst st), snd st)"
| "dl_step (Dl_read l m) st = (dl_read l m (snd st) (fst st), snd st)"
| "dl_step (Dl_write l ds m clear io) st = snd (dl_write l ds m clear io st)"
| "dl_step (Dl_import l ds m clear enabled now io) st = snd (importAtomic l ds m clear enabled now io st)"
| "dl_step (Dl_erase l) st = (snd (dl_erase l (fst st)), snd st)"
| "dl_step Dl_reset st = (dl_reset (fst st), snd st)"
| "dl_step (Dl_enable l m io) st = snd (dl_enable l m io st)"
| "dl_step (Dl_disable l io) st = snd (dl_disable l io st)"
| "dl_step (Dl_changeBlockMask l m) st = (dl_changeBlockMask l m (fst st), snd st)"
| "dl_step (Dl_remove l) st = snd (dl_remove l st)"

text \<open>The operation that does not keep the snapshot: a clearing \<^verbatim>\<open>write\<close> whose file cannot be opened.\<close>

fun failed_clear :: "DlOp \<Rightarrow> bool" where
  "failed_clear (Dl_write l ds m clear io) \<longleftrightarrow> clear \<and> \<not> io_open io"
| "failed_clear _ \<longleftrightarrow> False"

definition dl_run :: "DlOp list \<Rightarrow> DomainList \<times> Files \<Rightarrow> DomainList \<times> Files" where
  "dl_run ops = fold dl_step ops"

lemma coherent_write:
  assumes "snapshot_coherent dl" and "\<not> (clear \<and> \<not> io_open io)"
  shows "snapshot_coherent (fst (snd (dl_write l ds m clear io (dl, fs))))"
proof (cases "validListId l \<and> io_open io")
  case True
  then show ?thesis by (auto simp: dl_write_def Let_def split: prod.splits)
next
  case False
  then show ?thesis using assms
    by (auto simp: dl_write_def Let_def snapshot_coherent_def agg_lookup_def list_masks_touch)
qed

lemma coherent_ops:
  assumes "snapshot_coherent dl"
  shows "snapshot_coherent (dl_set l s dl)" and "snapshot_coherent (dl_read l m fs dl)"
    and "snapshot_coherent (fst (snd (importAtomic l ds m clear enabled now io (dl, fs))))"
    and "snapshot_coherent (snd (dl_erase l dl))" and "snapshot_coherent (dl_reset dl)"
    and "snapshot_coherent (fst (snd (dl_enable l m io (dl, fs))))"
    and "snapshot_coherent (fst (snd (dl_disable l io (dl, fs))))"
    and "snapshot_coherent (dl_changeBlockMask l m dl)"
    and "snapshot_coherent (fst (snd (dl_remove l (dl, fs))))"
proof -
  show set: "snapshot_coherent (dl_set l s dl)" for l s by (simp add: dl_set_def)
  show "snapshot_coherent (dl_read l m fs dl)" using assms by (simp add: dl_read_def split: option.splits)
  show "snapshot_coherent (fst (snd (importAtomic l ds m clear enabled now io (dl, fs))))"
    using assms set by (auto simp: importAtomic_def Let_def split: prod.splits option.splits)
  show erase: "snapshot_coherent (snd (dl_erase l dl))"
    using assms by (auto simp: dl_erase_def eraseUnlocked_def split: option.splits)
  show "snapshot_coherent (dl_reset dl)" by (simp add: dl_reset_def)
  show "snapshot_coherent (fst (snd (dl_enable l m io (dl, fs))))"
    using assms set by (auto simp: dl_enable_def Let_def split: option.splits)
  show "snapshot_coherent (fst (snd (dl_disable l io (dl, fs))))"
    using assms by (auto simp: dl_disable_def split: option.splits)
  show "snapshot_coherent (dl_changeBlockMask l m dl)"
    using assms by (simp add: dl_changeBlockMask_def split: option.splits)
  show "snapshot_coherent (fst (snd (dl_remove l (dl, fs))))"
    using assms erase by (simp add: dl_remove_def Let_def)
qed

lemma coherent_step: "snapshot_coherent (fst st) \<Longrightarrow> \<not> failed_clear op \<Longrightarrow> snapshot_coherent (fst (dl_step op st))"
  by (cases st; cases op) (simp_all add: coherent_ops coherent_write)

lemma coherent_run: "snapshot_coherent (fst st) \<Longrightarrow> \<forall>op \<in> set ops. \<not> failed_clear op \<Longrightarrow> snapshot_coherent (fst (dl_run ops st))"
  unfolding dl_run_def by (induction ops arbitrary: st) (simp_all add: coherent_step)

section \<open>Suffix search\<close>

text \<open>What follows a dot and itself has a dot, from the longest to the shortest.\<close>

fun dot_suffixes :: "string \<Rightarrow> string list" where
  "dot_suffixes [] = []"
| "dot_suffixes (c # cs) = (if c = CHR ''.'' \<and> CHR ''.'' \<in> set cs then cs # dot_suffixes cs else dot_suffixes cs)"

definition first_mask :: "(string \<Rightarrow> u8 option) \<Rightarrow> string list \<Rightarrow> u8" where
  "first_mask look ss = (case find (\<lambda>s. look s \<noteq> None) ss of None \<Rightarrow> 0 | Some s \<Rightarrow> the (look s))"

lemma first_mask_simps [simp]:
  "first_mask look [] = 0"
  "first_mask look (s # ss) = (case look s of Some m \<Rightarrow> m | None \<Rightarrow> first_mask look ss)"
  by (auto simp: first_mask_def split: option.splits)

lemma dot_suffixes_none: "CHR ''.'' \<notin> set q \<Longrightarrow> dot_suffixes q = []"
  by (induction q) auto

lemma find_from_none: "find_from c pos q = None \<longleftrightarrow> c \<notin> set (drop pos q)"
  by (induction c pos q rule: find_from.induct) (auto split: if_splits)

lemma find_from_at: "find_from c pos q = Some i \<Longrightarrow> q ! i = c \<and> c \<notin> set (take (i - pos) (drop pos q))"
  by (induction c pos q arbitrary: i rule: find_from.induct) (auto split: if_splits simp: Suc_diff_le)

lemma find_last_none: "find_last c q = None \<longleftrightarrow> c \<notin> set q"
  by (induction q) (auto split: option.splits if_splits)

lemma find_last_at: "find_last c q = Some l \<Longrightarrow> l < length q \<and> q ! l = c \<and> c \<notin> set (drop (l + 1) q)"
  by (induction q arbitrary: l) (auto split: option.splits if_splits simp: find_last_none)

lemma dot_suffixes_skip: "CHR ''.'' \<notin> set xs \<Longrightarrow> dot_suffixes (xs @ ys) = dot_suffixes ys"
  by (induction xs) auto

lemma dot_suffixes_from:
  assumes "find_from CHR ''.'' pos q = Some i"
  shows "dot_suffixes (drop pos q) =
    (if CHR ''.'' \<in> set (drop (i + 1) q) then drop (i + 1) q # dot_suffixes (drop (i + 1) q) else [])"
proof -
  note b = find_from_bounds [OF assms] and a = find_from_at [OF assms]
  have "drop pos q = take (i - pos) (drop pos q) @ drop i q"
    using b by (metis append_take_drop_id drop_drop le_add_diff_inverse2)
  moreover have "drop i q = CHR ''.'' # drop (i + 1) q" using a b by (metis Cons_nth_drop_Suc Suc_eq_plus1)
  ultimately have "dot_suffixes (drop pos q) = dot_suffixes (CHR ''.'' # drop (i + 1) q)"
    using a dot_suffixes_skip by metis
  then show ?thesis by (simp add: dot_suffixes_none)
qed

lemma dot_in_drop:
  assumes "find_last c q = Some l" and "pos \<le> l"
  shows "c \<in> set (drop pos q)"
proof -
  have "drop pos q ! (l - pos) = c" "l - pos < length (drop pos q)" using find_last_at [OF assms(1)] assms(2) by auto
  then show ?thesis using nth_mem by metis
qed

lemma suffix_loop_correct:
  assumes "find_last CHR ''.'' q = Some l" and "pos \<le> l"
  shows "suffix_loop snap q (find_from CHR ''.'' pos q) (Some l) = Some (first_mask (map_of snap) (dot_suffixes (drop pos q)))"
  using assms(2)
proof (induction "length q - pos" arbitrary: pos rule: less_induct)
  case less
  note l = find_last_at [OF assms(1)]
  have "CHR ''.'' \<in> set (drop pos q)" using dot_in_drop [OF assms(1) less.prems] .
  then obtain i where i: "find_from CHR ''.'' pos q = Some i" using find_from_none [of "CHR ''.''" pos q] by auto
  note b = find_from_bounds [OF i] and at = find_from_at [OF i]
  have il: "i \<le> l"
  proof (rule ccontr)
    assume "\<not> i \<le> l"
    then have "q ! i \<in> set (drop (l + 1) q)" using b by (auto simp: in_set_conv_nth intro!: exI [of _ "i - (l + 1)"])
    then show False using at l by simp
  qed
  show ?case
  proof (cases "i = l")
    case True
    then show ?thesis using l i by (simp add: suffix_loop.simps [of snap q "Some l"] dot_suffixes_from)
  next
    case False
    then have lt: "i < l" using il by simp
    have mem: "CHR ''.'' \<in> set (drop (i + 1) q)" using dot_in_drop [OF assms(1), of "i + 1"] lt by simp
    have "suffix_loop snap q (find_from CHR ''.'' (i + 1) q) (Some l) =
        Some (first_mask (map_of snap) (dot_suffixes (drop (i + 1) q)))"
      by (rule less.hyps) (use b lt in linarith)+
    then show ?thesis using False mem
      by (simp add: i suffix_loop.simps [of snap q "Some i"] dot_suffixes_from [OF i] split: option.split)
  qed
qed

lemma suffix_search:
  "suffix_loop snap q (find_from CHR ''.'' 0 q) (find_last CHR ''.'' q) = Some (first_mask (map_of snap) (dot_suffixes q))"
proof (cases "find_last CHR ''.'' q")
  case None
  then have "CHR ''.'' \<notin> set q" by (simp add: find_last_none)
  then show ?thesis
    using None find_from_none [of "CHR ''.''" 0 q] by (simp add: suffix_loop.simps [of snap q None] dot_suffixes_none)
next
  case (Some l)
  then show ?thesis using suffix_loop_correct [of q l 0] by simp
qed

lemma blockMask_search:
  "dl_blockMask dl name = Some (if name = ''.'' then 0 else first_mask (agg_lookup dl) (query_of name # dot_suffixes (query_of name)))"
proof (cases "aggSnapshot dl")
  case None
  have "first_mask (\<lambda>_. None) ss = 0" for ss by (induction ss) simp_all
  then show ?thesis by (simp add: dl_blockMask_def None agg_lookup_def [abs_def])
next
  case (Some snap)
  then show ?thesis
    by (simp add: dl_blockMask_def agg_lookup_def [abs_def] Let_def suffix_search split: option.split)
qed

section \<open>List files\<close>

definition plain_word :: "string \<Rightarrow> bool" where
  "plain_word d \<longleftrightarrow> d \<noteq> [] \<and> (\<forall>c \<in> set d. \<not> is_space c)"

lemma words_acc_word: "\<forall>c \<in> set d. \<not> is_space c \<Longrightarrow> words_acc w (d @ rest) = words_acc (w @ d) rest"
  by (induction d arbitrary: w) auto

lemma words_line: "plain_word d \<Longrightarrow> words_acc [] (line d @ rest) = d # words_acc [] rest"
  using words_acc_word [of d "[]" "[CHR 0x0A] @ rest"] by (simp add: line_def plain_word_def is_space_def)

lemma words_lines: "\<forall>d \<in> set ds. plain_word d \<Longrightarrow> words (concat (map line ds)) = ds"
proof -
  have "words_acc [] (concat (map line ds)) = ds" if "\<forall>d \<in> set ds. plain_word d"
    using that by (induction ds) (simp_all add: words_line)
  then show "\<forall>d \<in> set ds. plain_word d \<Longrightarrow> words (concat (map line ds)) = ds" by (simp add: words_def)
qed

lemma keys_merge: "map fst (merge_domain m d s) = (if d \<in> fst ` set s then map fst s else map fst s @ [d])"
  by (auto simp: merge_domain_def update_keys map_of_eq_None_iff split: option.splits)

lemma keys_fold_merge:
  "set (map fst (fold (merge_domain m) ds s)) = fst ` set s \<union> set ds"
  "distinct (map fst s) \<Longrightarrow> distinct (map fst (fold (merge_domain m) ds s))"
proof -
  have key_set: "fst ` set (merge_domain m d s) = insert d (fst ` set s)" for d s
    using arg_cong [OF keys_merge [of m d s], of set] by (auto split: if_splits)
  show "set (map fst (fold (merge_domain m) ds s)) = fst ` set s \<union> set ds"
    by (induction ds arbitrary: s) (auto simp: key_set)
  have key_distinct: "distinct (map fst s) \<Longrightarrow> distinct (map fst (merge_domain m d s))" for d s
    by (simp add: keys_merge)
  show "distinct (map fst s) \<Longrightarrow> distinct (map fst (fold (merge_domain m) ds s))"
    by (induction ds arbitrary: s) (simp_all add: key_distinct)
qed

lemma import_loop_fold: "fst (import_loop m ds s n) = fold (merge_domain m) ds s"
  by (induction m ds s n rule: import_loop.induct) simp_all

lemma merge_same: "\<forall>kv \<in> set s. snd kv = m \<Longrightarrow> kv \<in> set (merge_domain m d s) \<Longrightarrow> snd kv = m"
proof (cases "map_of s d")
  case (Some m0)
  assume "\<forall>kv \<in> set s. snd kv = m" "kv \<in> set (merge_domain m d s)"
  moreover from this(1) have "m0 = m" using map_of_SomeD [OF Some] by fastforce
  ultimately show ?thesis using Some update_triv [OF Some] by (simp add: merge_domain_def)
qed (auto simp: merge_domain_def)

lemma load_same: "\<forall>kv \<in> set s. snd kv = m \<Longrightarrow> \<forall>kv \<in> set (fold (merge_domain m) ds s). snd kv = m"
proof (induction ds arbitrary: s)
  case (Cons d ds)
  have "\<forall>kv \<in> set (merge_domain m d s). snd kv = m" using merge_same [OF Cons.prems] by blast
  then show ?case by (simp add: Cons.IH)
qed simp

lemma words_plain: "d \<in> set (words s) \<Longrightarrow> plain_word d"
proof -
  have "\<forall>d \<in> set (words_acc w s). plain_word d" if "\<forall>c \<in> set w. \<not> is_space c" for w
    using that
  proof (induction s arbitrary: w)
    case Nil
    then show ?case by (simp add: plain_word_def)
  next
    case (Cons c s)
    have rest: "\<forall>d \<in> set (words_acc [] s). plain_word d" using Cons.IH [of "[]"] by simp
    have more: "\<forall>d \<in> set (words_acc (w @ [c]) s). plain_word d" if "\<not> is_space c"
      by (rule Cons.IH) (use Cons.prems that in auto)
    have "plain_word w" if "w \<noteq> []" using Cons.prems that unfolding plain_word_def by blast
    then show ?case using rest more by (cases "is_space c"; cases "w = []") auto
  qed
  from this [of "[]"] show "d \<in> set (words s) \<Longrightarrow> plain_word d" by (simp add: words_def)
qed

lemma load_lookup: "map_of (load_domains m content []) = (\<lambda>d. if d \<in> set (words content) then Some m else None)"
proof
  fix d
  let ?s = "load_domains m content []"
  have keys: "fst ` set ?s = set (words content)" using keys_fold_merge(1) [of m "words content" "[]"] by (simp add: load_domains_def)
  have same: "snd kv = m" if "kv \<in> set ?s" for kv
    using load_same [of "[]" m "words content"] that by (simp add: load_domains_def)
  show "map_of ?s d = (if d \<in> set (words content) then Some m else None)"
  proof (cases "map_of ?s d")
    case None
    then show ?thesis using keys by (simp add: map_of_eq_None_iff)
  next
    case (Some x)
    then have "(d, x) \<in> set ?s" by (rule map_of_SomeD)
    then show ?thesis using Some keys same [of "(d, x)"] by force
  qed
qed

lemma import_base_plain:
  assumes "\<forall>d \<in> fst ` set (dl_get dl l). plain_word d" and "d \<in> fst ` set (import_base l m clear True p fs dl)"
  shows "plain_word d"
proof -
  have load: "plain_word d" if "d \<in> fst ` set (load_domains m content [])" for content
    using that keys_fold_merge(1) [of m "words content" "[]"] words_plain by (auto simp: load_domains_def)
  show ?thesis using assms load by (auto simp: import_base_def dl_get_def split: if_splits option.splits)
qed

lemma import_effect:
  assumes "validListId l" and "importAtomic l ds m clear True now no_faults (dl, fs) = (res, dl', fs')"
  defines "merged \<equiv> fold (merge_domain m) ds (import_base l m clear True l fs dl)"
  shows "imp_ok res" and "dl_get dl' l = merged" and "fs' l = Some (concat (map line (map fst merged)))"
proof -
  obtain merged' n where il: "import_loop m ds (import_base l m clear True l fs dl) 0 = (merged', n)" by fastforce
  have "merged' = merged" using arg_cong [OF il, of fst] by (simp add: import_loop_fold merged_def)
  then have "res = \<lparr>imp_ok = True, imp_imported = n, imp_total = of_nat (length merged)\<rparr> \<and>
      dl' = dl_set l merged dl \<and> fs' l = Some (concat (map (\<lambda>kv. line (fst kv)) merged))"
    using assms(1,2) il by (auto simp: importAtomic_def no_faults_def fs_rename_def)
  then show "imp_ok res" and "dl_get dl' l = merged" and "fs' l = Some (concat (map line (map fst merged)))"
    by (simp_all add: dl_set_def dl_get_def rebuildAggSnapshotLocked_def update_conv' comp_def)
qed

section \<open>Guarantees\<close>

text \<open>What a domain list answers for a name, in every state that a sequence of operations (reading, writing,
  importing, enabling, disabling, recolouring and removing lists) leads to: the mask that the lists together give
  to the name without its trailing dot or, failing that, to its longest suffix that follows a dot and has itself
  a dot; 0 when there is none. The search always ends. The last label alone is never looked up, although the
  comment in the code says so.\<close>

theorem domain_lookup_longest_suffix:
  assumes "\<forall>op \<in> set ops. \<not> failed_clear op"
  shows "let dl = fst (dl_run ops (dl_new, fs)) in
    dl_blockMask dl name = Some (if name = ''.'' then 0
      else first_mask (\<lambda>s. mask_or None (list_masks (domainsByListId dl) s)) (query_of name # dot_suffixes (query_of name)))"
proof -
  let ?dl = "fst (dl_run ops (dl_new, fs))"
  have "snapshot_coherent ?dl" using coherent_run [of "(dl_new, fs)" ops] assms by simp
  then have "agg_lookup ?dl = (\<lambda>s. mask_or None (list_masks (domainsByListId ?dl) s))"
    by (simp add: snapshot_coherent_def fun_eq_iff)
  then show ?thesis unfolding Let_def blockMask_search by simp
qed

definition ex_import :: DlOp where
  "ex_import = Dl_import ''a1'' [''com'', ''ads.example.com'', ''example.com''] 8 True True ''7'' no_faults"

theorem domain_lookup_longest_suffix_witness:
  "(let dl = fst (dl_run [ex_import] (dl_new, \<lambda>_. None)) in
    dl_blockMask dl ''x.example.com.'' = Some 8 \<and> dl_blockMask dl ''other.com'' = Some 0 \<and> dl_blockMask dl ''com'' = Some 8)"
proof -
  have no: "\<forall>op \<in> set [ex_import]. \<not> failed_clear op" by (simp add: ex_import_def)
  let ?dl = "fst (dl_run [ex_import] (dl_new, \<lambda>_. None))"
  have dl: "domainsByListId ?dl = [(''a1'', [(''com'', 8), (''ads.example.com'', 8), (''example.com'', 8)])]"
    by code_simp
  show ?thesis
    using domain_lookup_longest_suffix [OF no, of "\<lambda>_. None" "''x.example.com.''"]
      domain_lookup_longest_suffix [OF no, of "\<lambda>_. None" "''other.com''"]
      domain_lookup_longest_suffix [OF no, of "\<lambda>_. None" "''com''"]
    by (simp add: Let_def dl query_of_def list_masks_def entry_masks_def mask_or_def or_all_def)
qed

text \<open>A list survives a restart: after a successful import of an enabled list, reading its file into an empty
  \<^verbatim>\<open>DomainList\<close> gives exactly the domains of the list in memory, the imported ones among them, each with the mask
  the list is read with.\<close>

theorem import_read_roundtrip:
  assumes "validListId l" and "\<forall>d \<in> set ds. plain_word d" and "\<forall>d \<in> fst ` set (dl_get dl l). plain_word d"
    and "importAtomic l ds m clear True now no_faults (dl, fs) = (res, dl', fs')"
  shows "imp_ok res \<and> set ds \<subseteq> fst ` set (dl_get dl' l) \<and>
    map_of (dl_get (dl_read l m' fs' dl_new) l) = (\<lambda>d. if d \<in> fst ` set (dl_get dl' l) then Some m' else None)"
proof -
  let ?base = "import_base l m clear True l fs dl"
  let ?merged = "fold (merge_domain m) ds ?base"
  note eff = import_effect [OF assms(1,4)]
  have keys: "fst ` set ?merged = fst ` set ?base \<union> set ds" using keys_fold_merge(1) [of m ds ?base] by simp
  then have "\<forall>d \<in> set (map fst ?merged). plain_word d"
    using import_base_plain [OF assms(3), of _ m clear l fs] assms(2) by (metis Un_iff list.set_map)
  then have "words (concat (map line (map fst ?merged))) = map fst ?merged" by (rule words_lines)
  then have "dl_get (dl_read l m' fs' dl_new) l = load_domains m' (concat (map line (map fst ?merged))) []"
    and "map_of (load_domains m' (concat (map line (map fst ?merged))) []) =
      (\<lambda>d. if d \<in> set (map fst ?merged) then Some m' else None)"
    using assms(1) eff(3) by (simp_all add: dl_read_def dl_new_def dl_get_def rebuildAggSnapshotLocked_def load_lookup)
  then show ?thesis using eff(1,2) keys by simp
qed

theorem import_read_roundtrip_witness:
  "\<exists>res dl' fs'. importAtomic ''a1'' [''b.c'', ''d.e''] 1 False True ''7'' no_faults (dl_new, [''a1'' \<mapsto> ''old.org'']) = (res, dl', fs') \<and>
     map_of (dl_get (dl_read ''a1'' 4 fs' dl_new) ''a1'') ''d.e'' = Some 4"
proof -
  obtain res dl' fs' where i: "importAtomic ''a1'' [''b.c'', ''d.e''] 1 False True ''7'' no_faults (dl_new, [''a1'' \<mapsto> ''old.org'']) = (res, dl', fs')"
    using prod_cases3 by blast
  have "map_of (dl_get (dl_read ''a1'' 4 fs' dl_new) ''a1'') ''d.e'' = Some 4"
    using import_read_roundtrip [OF _ _ _ i, of 4]
    by (auto simp: validListId_def plain_word_def is_space_def dl_get_def dl_new_def)
  then show ?thesis using i by blast
qed

end
