(* ===== verification/DomainTypes.thy ===== *)
theory DomainTypes
  imports IpRulesExplain StatsCounters DomainLists
begin

text \<open>
  The objects of the domain policy: pattern rules and the rule sets compiled from them (\<^verbatim>\<open>src/src/Rule.cpp\<close>,
  \<^verbatim>\<open>CustomRules.cpp\<close>), sets of domains (\<^verbatim>\<open>CustomList.cpp\<close>), domains (\<^verbatim>\<open>Domain.hpp\<close>) and apps (\<^verbatim>\<open>App.hpp\<close>), and the
  state the managers share. Rules, domains and apps are reached through \<^verbatim>\<open>shared_ptr\<close>, compared by address and
  changed in place: they live in stores. The regular expressions of \<^verbatim>\<open>std::regex\<close> with the flag \<^verbatim>\<open>extended\<close> are an
  argument \<open>rx\<close>: the matcher a pattern compiles to, or \<open>None\<close> when the constructor throws.
\<close>

section \<open>Rules\<close>

datatype RuleType = R_DOMAIN | R_WILDCARD | R_REGEX

type_synonym matcher = "string \<Rightarrow> bool"
type_synonym regex = "string \<Rightarrow> matcher option"

record Rule =
  ru_id :: u32
  ru_type :: RuleType
  ru_rule :: string
  ru_regex :: string
  ru_valid :: bool
  ru_allowHits :: u64
  ru_blockHits :: u64

definition is_meta :: "char \<Rightarrow> bool" where
  "is_meta c \<longleftrightarrow> c \<in> set ''.^$|()[]{}*+?'' \<or> c = CHR 0x5C"

definition glob_char :: "char \<Rightarrow> string" where
  "glob_char c =
     (if c = CHR ''*'' then ''.*'' else if c = CHR ''?'' then ''.''
      else if is_meta c then [CHR 0x5C, c] else [c])"

definition rule_create :: "regex \<Rightarrow> RuleType \<Rightarrow> string \<Rightarrow> Rule \<Rightarrow> Rule" where
  "rule_create rx type rule r =
     (let re = (if type = R_WILDCARD then concat (map glob_char rule) else rule) in
      r\<lparr>ru_type := type, ru_rule := rule, ru_regex := re, ru_valid := rx re \<noteq> None\<rparr>)"

definition rule_new :: "regex \<Rightarrow> RuleType \<Rightarrow> u32 \<Rightarrow> string \<Rightarrow> Rule" where
  "rule_new rx type rid rule =
     rule_create rx type rule
       \<lparr>ru_id = rid, ru_type = type, ru_rule = rule, ru_regex = [], ru_valid = False, ru_allowHits = 0, ru_blockHits = 0\<rparr>"

definition resetHits :: "Rule \<Rightarrow> Rule" where
  "resetHits r = r\<lparr>ru_allowHits := 0, ru_blockHits := 0\<rparr>"

definition rule_update :: "regex \<Rightarrow> RuleType \<Rightarrow> string \<Rightarrow> Rule \<Rightarrow> Rule" where
  "rule_update rx type rule r = resetHits (rule_create rx type rule r)"

definition observeAllowHit :: "Rule \<Rightarrow> Rule" where
  "observeAllowHit r = r\<lparr>ru_allowHits := ru_allowHits r + 1\<rparr>"

definition observeBlockHit :: "Rule \<Rightarrow> Rule" where
  "observeBlockHit r = r\<lparr>ru_blockHits := ru_blockHits r + 1\<rparr>"

section \<open>Compiled rule sets\<close>

text \<open>An \<^verbatim>\<open>unordered_set\<close> of addresses is a list without duplicates; its order carries no meaning. \<open>cr_regexSnap\<close>
  is the published alternation of all rules, \<open>cr_attribSnap\<close> the published rules one by one.\<close>

record CustomRules =
  cr_rules :: "addr list"
  cr_regexSnap :: matcher
  cr_attribSnap :: "(u32 \<times> matcher) list"
  cr_saved :: bool

text \<open>\<^verbatim>\<open>std::regex("")\<close> matches the empty string only.\<close>

definition emptyRegex :: matcher where
  "emptyRegex s \<longleftrightarrow> s = []"

definition customRules_new :: CustomRules where
  "customRules_new = \<lparr>cr_rules = [], cr_regexSnap = emptyRegex, cr_attribSnap = [], cr_saved = False\<rparr>"

fun join_bar :: "string list \<Rightarrow> string" where
  "join_bar [] = []"
| "join_bar [p] = p"
| "join_bar (p # q # ps) = p @ [CHR ''|''] @ join_bar (q # ps)"

definition attrib_entries :: "regex \<Rightarrow> (addr \<Rightarrow> Rule) \<Rightarrow> addr list \<Rightarrow> (u32 \<times> matcher) list" where
  "attrib_entries rx heap rs =
     concat (map (\<lambda>a. case rx (ru_regex (heap a)) of Some m \<Rightarrow> [(ru_id (heap a), m)] | None \<Rightarrow> []) rs)"

definition rebuildRegexSnapshotLocked :: "regex \<Rightarrow> (addr \<Rightarrow> Rule) \<Rightarrow> CustomRules \<Rightarrow> CustomRules" where
  "rebuildRegexSnapshotLocked rx heap cr =
     (let vs = filter (\<lambda>a. ru_valid (heap a)) (cr_rules cr) in
      cr\<lparr>cr_regexSnap := (case rx (join_bar (map (\<lambda>a. ru_regex (heap a)) vs)) of Some m \<Rightarrow> m | None \<Rightarrow> emptyRegex),
         cr_attribSnap := std_sort (\<lambda>a b. fst a < fst b) (attrib_entries rx heap vs)\<rparr>)"

definition set_insert :: "'a \<Rightarrow> 'a list \<Rightarrow> 'a list" where
  "set_insert x xs = (if x \<in> set xs then xs else xs @ [x])"

definition cr_add :: "regex \<Rightarrow> (addr \<Rightarrow> Rule) \<Rightarrow> addr \<Rightarrow> bool \<Rightarrow> CustomRules \<Rightarrow> CustomRules" where
  "cr_add rx heap rule cmpl cr =
     (let cr' = cr\<lparr>cr_rules := set_insert rule (cr_rules cr), cr_saved := False\<rparr> in
      if cmpl then rebuildRegexSnapshotLocked rx heap cr' else cr')"

definition cr_remove :: "regex \<Rightarrow> (addr \<Rightarrow> Rule) \<Rightarrow> addr \<Rightarrow> bool \<Rightarrow> CustomRules \<Rightarrow> CustomRules" where
  "cr_remove rx heap rule cmpl cr =
     (let cr' = cr\<lparr>cr_rules := filter (\<lambda>a. a \<noteq> rule) (cr_rules cr), cr_saved := False\<rparr> in
      if cmpl then rebuildRegexSnapshotLocked rx heap cr' else cr')"

definition cr_build :: "regex \<Rightarrow> (addr \<Rightarrow> Rule) \<Rightarrow> CustomRules \<Rightarrow> CustomRules" where
  "cr_build = rebuildRegexSnapshotLocked"

definition cr_reset :: "regex \<Rightarrow> (addr \<Rightarrow> Rule) \<Rightarrow> CustomRules \<Rightarrow> CustomRules" where
  "cr_reset rx heap cr = rebuildRegexSnapshotLocked rx heap (cr\<lparr>cr_saved := False, cr_rules := []\<rparr>)"

definition cr_match :: "CustomRules \<Rightarrow> string \<Rightarrow> bool" where
  "cr_match cr name = cr_regexSnap cr name"

definition matchFirstRuleId :: "CustomRules \<Rightarrow> string \<Rightarrow> u32 option" where
  "matchFirstRuleId cr name = map_option fst (find (\<lambda>e. snd e name) (cr_attribSnap cr))"

definition snapshotRuleIds :: "(addr \<Rightarrow> Rule) \<Rightarrow> CustomRules \<Rightarrow> u32 list" where
  "snapshotRuleIds heap cr = map (\<lambda>a. ru_id (heap a)) (cr_rules cr)"

section \<open>Domains, apps and the shared state\<close>

record Domain =
  do_name :: string
  do_blockMask :: u8
  do_color :: Color
  do_stats :: DomainStats
  do_ipv4 :: "u8 list list"
  do_ipv6 :: "u8 list list"
  do_timestampIP :: int

definition domain_new :: "string \<Rightarrow> int \<Rightarrow> Domain" where
  "domain_new name today = \<lparr>do_name = name, do_blockMask = 0, do_color = GREY, do_stats = stats_new dom_zero today,
     do_ipv4 = [], do_ipv6 = [], do_timestampIP = 0\<rparr>"

datatype DomainPolicySource = CUSTOM_WHITELIST | CUSTOM_BLACKLIST | CUSTOM_RULE_WHITE | CUSTOM_RULE_BLACK
  | DOMAIN_DEVICE_WIDE_AUTHORIZED | DOMAIN_DEVICE_WIDE_BLOCKED | MASK_FALLBACK

record App =
  a_uid :: u32
  a_saveFile :: string
  a_name :: string
  a_names :: "string list"
  a_saved :: bool
  a_stats :: AppStats
  a_domStats :: "Color \<Rightarrow> addr \<Rightarrow> DomainStats option"
  a_tracked :: bool
  a_blockMask :: u8
  a_blockIface :: u8
  a_useCustomList :: bool
  a_ipRulesCaps :: u64
  a_customBlacklist :: "addr list"
  a_customWhitelist :: "addr list"
  a_blackRules :: CustomRules
  a_whiteRules :: CustomRules
  a_sources :: "(DomainPolicySource \<Rightarrow> u64) \<times> (DomainPolicySource \<Rightarrow> u64)"
  a_traffic :: TrafficCounters

text \<open>The settings the policy reads.\<close>

record Settings =
  set_blockEnabled :: bool
  set_blockMask :: u8
  set_blockIface :: u8
  set_reverseDns :: bool
  set_ipRulesEnabled :: bool

text \<open>\<^verbatim>\<open>RulesManager::Custom\<close>: where a rule is used. \<^verbatim>\<open>ALLC\<close> stands for "not device wide".\<close>

record Custom =
  cu_color :: Color
  cu_blacklist :: "addr list"
  cu_whitelist :: "addr list"

definition custom_new :: Custom where
  "custom_new = \<lparr>cu_color = ALLC, cu_blacklist = [], cu_whitelist = []\<rparr>"

record RulesManager =
  rm_rules :: "(u32, addr) omap"
  rm_customs :: "addr \<Rightarrow> Custom option"
  rm_idCount :: u32

record DomainManager =
  dm_byName :: "(string \<times> addr) list"
  dm_byIPv4 :: "u8 list \<Rightarrow> addr option"
  dm_byIPv6 :: "u8 list \<Rightarrow> addr option"
  dm_blacklist :: DomainList
  dm_whitelist :: DomainList
  dm_files :: Files
  dm_customBlacklist :: "addr list"
  dm_customWhitelist :: "addr list"
  dm_blackRules :: CustomRules
  dm_whiteRules :: CustomRules
  dm_anonymousDom :: addr
  dm_sources :: "DomainPolicySource ShardedMetrics"

record AppManager =
  am_stats :: AppStats
  am_byUid :: "(u32, addr) omap"
  am_byName :: "(string \<times> addr) list"
  am_files :: Files

record Policy =
  p_settings :: Settings
  p_ruleHeap :: "addr \<Rightarrow> Rule"
  p_nextRule :: addr
  p_domHeap :: "addr \<Rightarrow> Domain"
  p_nextDom :: addr
  p_appHeap :: "addr \<Rightarrow> App"
  p_nextApp :: addr
  p_rm :: RulesManager
  p_dm :: DomainManager
  p_am :: AppManager

definition upd_app :: "addr \<Rightarrow> (App \<Rightarrow> App) \<Rightarrow> Policy \<Rightarrow> Policy" where
  "upd_app a f p = p\<lparr>p_appHeap := (p_appHeap p)(a := f (p_appHeap p a))\<rparr>"

definition upd_domain :: "addr \<Rightarrow> (Domain \<Rightarrow> Domain) \<Rightarrow> Policy \<Rightarrow> Policy" where
  "upd_domain d f p = p\<lparr>p_domHeap := (p_domHeap p)(d := f (p_domHeap p d))\<rparr>"

definition upd_rule :: "addr \<Rightarrow> (Rule \<Rightarrow> Rule) \<Rightarrow> Policy \<Rightarrow> Policy" where
  "upd_rule r f p = p\<lparr>p_ruleHeap := (p_ruleHeap p)(r := f (p_ruleHeap p r))\<rparr>"

definition upd_rm :: "(RulesManager \<Rightarrow> RulesManager) \<Rightarrow> Policy \<Rightarrow> Policy" where
  "upd_rm f p = p\<lparr>p_rm := f (p_rm p)\<rparr>"

definition upd_dm :: "(DomainManager \<Rightarrow> DomainManager) \<Rightarrow> Policy \<Rightarrow> Policy" where
  "upd_dm f p = p\<lparr>p_dm := f (p_dm p)\<rparr>"

definition upd_am :: "(AppManager \<Rightarrow> AppManager) \<Rightarrow> Policy \<Rightarrow> Policy" where
  "upd_am f p = p\<lparr>p_am := f (p_am p)\<rparr>"

text \<open>\<^verbatim>\<open>customList(color)\<close> and \<^verbatim>\<open>customRules(color)\<close> of an app and of the device.\<close>

definition app_customList :: "Color \<Rightarrow> App \<Rightarrow> addr list" where
  "app_customList color a = (if color = BLACK then a_customBlacklist a else a_customWhitelist a)"

definition app_customRules :: "Color \<Rightarrow> App \<Rightarrow> CustomRules" where
  "app_customRules color a = (if color = BLACK then a_blackRules a else a_whiteRules a)"

definition dm_customList :: "Color \<Rightarrow> DomainManager \<Rightarrow> addr list" where
  "dm_customList color d = (if color = BLACK then dm_customBlacklist d else dm_customWhitelist d)"

definition dm_customRules :: "Color \<Rightarrow> DomainManager \<Rightarrow> CustomRules" where
  "dm_customRules color d = (if color = BLACK then dm_blackRules d else dm_whiteRules d)"

definition app_onList :: "Color \<Rightarrow> (addr list \<Rightarrow> addr list) \<Rightarrow> App \<Rightarrow> App" where
  "app_onList color f a =
     (if color = BLACK then a\<lparr>a_customBlacklist := f (a_customBlacklist a)\<rparr>
      else a\<lparr>a_customWhitelist := f (a_customWhitelist a)\<rparr>)"

definition app_onRules :: "Color \<Rightarrow> (CustomRules \<Rightarrow> CustomRules) \<Rightarrow> App \<Rightarrow> App" where
  "app_onRules color f a =
     (if color = BLACK then a\<lparr>a_blackRules := f (a_blackRules a)\<rparr> else a\<lparr>a_whiteRules := f (a_whiteRules a)\<rparr>)"

definition dm_onList :: "Color \<Rightarrow> (addr list \<Rightarrow> addr list) \<Rightarrow> DomainManager \<Rightarrow> DomainManager" where
  "dm_onList color f d =
     (if color = BLACK then d\<lparr>dm_customBlacklist := f (dm_customBlacklist d)\<rparr>
      else d\<lparr>dm_customWhitelist := f (dm_customWhitelist d)\<rparr>)"

definition dm_onRules :: "Color \<Rightarrow> (CustomRules \<Rightarrow> CustomRules) \<Rightarrow> DomainManager \<Rightarrow> DomainManager" where
  "dm_onRules color f d =
     (if color = BLACK then d\<lparr>dm_blackRules := f (dm_blackRules d)\<rparr> else d\<lparr>dm_whiteRules := f (dm_whiteRules d)\<rparr>)"

end
