(* ===== verification/DomainRules.thy ===== *)
theory DomainRules
  imports DomainTypes
begin

text \<open>
  The registry of pattern rules (\<^verbatim>\<open>src/src/RulesManager.cpp\<close>): rules by id, and for each rule the rule sets of the
  device and of the apps it is used in; the commands that move rules between rule sets (\<^verbatim>\<open>cmdAddCustomRule\<close>,
  \<^verbatim>\<open>cmdRemoveCustomRule\<close> of \<^verbatim>\<open>Control.cpp\<close>, the rules of \<^verbatim>\<open>DOMAINPOLICY.APPLY\<close>). Every member holds the registry's
  mutex, so that each is one step.
\<close>

section \<open>Lookup and creation\<close>

definition rm_find :: "u32 \<Rightarrow> Policy \<Rightarrow> addr option" where
  "rm_find ruleId p = map_of (rm_rules (p_rm p)) ruleId"

text \<open>\<^verbatim>\<open>try_emplace(id, std::make_shared<Rule>(...))\<close>: the object is made in any case.\<close>

definition rm_make :: "regex \<Rightarrow> u32 \<Rightarrow> RuleType \<Rightarrow> string \<Rightarrow> Policy \<Rightarrow> Policy" where
  "rm_make rx rid type rule p =
     (let a = p_nextRule p;
          p1 = p\<lparr>p_ruleHeap := (p_ruleHeap p)(a := rule_new rx type rid rule), p_nextRule := a + 1\<rparr>
      in upd_rm (\<lambda>rm. rm\<lparr>rm_rules := fst (omap_emplace rid a (rm_rules rm))\<rparr>) p1)"

definition rm_addRule :: "regex \<Rightarrow> RuleType \<Rightarrow> string \<Rightarrow> Policy \<Rightarrow> u32 \<times> Policy" where
  "rm_addRule rx type ruleRaw p =
     (let rid = rm_idCount (p_rm p) in
      (rid, upd_rm (\<lambda>rm. rm\<lparr>rm_idCount := rm_idCount rm + 1\<rparr>) (rm_make rx rid type ruleRaw p)))"

definition ensureNextRuleIdAtLeast :: "u32 \<Rightarrow> Policy \<Rightarrow> Policy" where
  "ensureNextRuleIdAtLeast nextId p =
     (if rm_idCount (p_rm p) < nextId then upd_rm (\<lambda>rm. rm\<lparr>rm_idCount := nextId\<rparr>) p else p)"

section \<open>Rule sets of apps and of the device\<close>

definition app_addCustomRule :: "regex \<Rightarrow> addr \<Rightarrow> bool \<Rightarrow> Color \<Rightarrow> addr \<Rightarrow> Policy \<Rightarrow> Policy" where
  "app_addCustomRule rx rule cmpl color app p =
     upd_app app (\<lambda>a. app_onRules color (cr_add rx (p_ruleHeap p) rule cmpl) (a\<lparr>a_saved := False\<rparr>)) p"

definition app_removeCustomRule :: "regex \<Rightarrow> addr \<Rightarrow> bool \<Rightarrow> Color \<Rightarrow> addr \<Rightarrow> Policy \<Rightarrow> Policy" where
  "app_removeCustomRule rx rule cmpl color app p =
     upd_app app (\<lambda>a. app_onRules color (cr_remove rx (p_ruleHeap p) rule cmpl) (a\<lparr>a_saved := False\<rparr>)) p"

definition app_buildCustomRules :: "regex \<Rightarrow> Color \<Rightarrow> addr \<Rightarrow> Policy \<Rightarrow> Policy" where
  "app_buildCustomRules rx color app p = upd_app app (app_onRules color (cr_build rx (p_ruleHeap p))) p"

definition dm_addCustomRule :: "regex \<Rightarrow> addr \<Rightarrow> bool \<Rightarrow> Color \<Rightarrow> Policy \<Rightarrow> Policy" where
  "dm_addCustomRule rx rule cmpl color p = upd_dm (dm_onRules color (cr_add rx (p_ruleHeap p) rule cmpl)) p"

definition dm_removeCustomRule :: "regex \<Rightarrow> addr \<Rightarrow> bool \<Rightarrow> Color \<Rightarrow> Policy \<Rightarrow> Policy" where
  "dm_removeCustomRule rx rule cmpl color p = upd_dm (dm_onRules color (cr_remove rx (p_ruleHeap p) rule cmpl)) p"

definition dm_buildCustomRules :: "regex \<Rightarrow> Color \<Rightarrow> Policy \<Rightarrow> Policy" where
  "dm_buildCustomRules rx color p = upd_dm (dm_onRules color (cr_build rx (p_ruleHeap p))) p"

text \<open>\<^verbatim>\<open>_customs[rule]\<close>, which creates the entry when it is missing.\<close>

definition custom_of :: "addr \<Rightarrow> Policy \<Rightarrow> Custom" where
  "custom_of rule p = (case rm_customs (p_rm p) rule of Some c \<Rightarrow> c | None \<Rightarrow> custom_new)"

definition set_custom :: "addr \<Rightarrow> Custom \<Rightarrow> Policy \<Rightarrow> Policy" where
  "set_custom rule c = upd_rm (\<lambda>rm. rm\<lparr>rm_customs := (rm_customs rm)(rule \<mapsto> c)\<rparr>)"

definition erase_custom :: "addr \<Rightarrow> Policy \<Rightarrow> Policy" where
  "erase_custom rule = upd_rm (\<lambda>rm. rm\<lparr>rm_customs := (rm_customs rm)(rule := None)\<rparr>)"

definition custom_list :: "Color \<Rightarrow> Custom \<Rightarrow> addr list" where
  "custom_list color c = (if color = BLACK then cu_blacklist c else cu_whitelist c)"

definition custom_onList :: "Color \<Rightarrow> (addr list \<Rightarrow> addr list) \<Rightarrow> Custom \<Rightarrow> Custom" where
  "custom_onList color f c =
     (if color = BLACK then c\<lparr>cu_blacklist := f (cu_blacklist c)\<rparr> else c\<lparr>cu_whitelist := f (cu_whitelist c)\<rparr>)"

section \<open>Changing and removing rules\<close>

text \<open>Everything that uses a rule is compiled again after it changed.\<close>

definition rebuild_users :: "regex \<Rightarrow> addr \<Rightarrow> Policy \<Rightarrow> Policy" where
  "rebuild_users rx rule p =
     (let c = custom_of rule p;
          p0 = set_custom rule c p;
          p1 = (if cu_color c \<noteq> ALLC then dm_buildCustomRules rx (cu_color c) p0 else p0);
          p2 = fold (app_buildCustomRules rx BLACK) (cu_blacklist c) p1
      in fold (app_buildCustomRules rx WHITE) (cu_whitelist c) p2)"

definition rm_updateRule :: "regex \<Rightarrow> u32 \<Rightarrow> RuleType \<Rightarrow> string \<Rightarrow> Policy \<Rightarrow> Policy" where
  "rm_updateRule rx ruleId type ruleRaw p =
     (case rm_find ruleId p of
        None \<Rightarrow> p
      | Some rule \<Rightarrow> rebuild_users rx rule (upd_rule rule (rule_update rx type ruleRaw) p))"

definition upsertRuleWithId :: "regex \<Rightarrow> u32 \<Rightarrow> RuleType \<Rightarrow> string \<Rightarrow> Policy \<Rightarrow> Policy" where
  "upsertRuleWithId rx ruleId type ruleRaw p =
     (case rm_find ruleId p of
        Some rule \<Rightarrow> rebuild_users rx rule (upd_rule rule (rule_update rx type ruleRaw) p)
      | None \<Rightarrow>
          let p1 = rm_make rx ruleId type ruleRaw p in
          if rm_idCount (p_rm p1) \<le> ruleId then upd_rm (\<lambda>rm. rm\<lparr>rm_idCount := ruleId + 1\<rparr>) p1 else p1)"

definition rm_removeRule :: "regex \<Rightarrow> u32 \<Rightarrow> Policy \<Rightarrow> Policy" where
  "rm_removeRule rx ruleId p =
     (case rm_find ruleId p of
        None \<Rightarrow> p
      | Some rule \<Rightarrow>
          let c = custom_of rule p;
              p1 = (if cu_color c \<noteq> ALLC then dm_removeCustomRule rx rule True (cu_color c) p else p);
              p2 = fold (app_removeCustomRule rx rule True BLACK) (cu_blacklist c) p1;
              p3 = fold (app_removeCustomRule rx rule True WHITE) (cu_whitelist c) p2
          in erase_custom rule
               (upd_rm (\<lambda>rm. rm\<lparr>rm_rules := omap_erase (ru_id (p_ruleHeap p rule)) (rm_rules rm)\<rparr>) p3))"

definition rm_reset :: "Policy \<Rightarrow> Policy" where
  "rm_reset = upd_rm (\<lambda>rm. \<lparr>rm_rules = [], rm_customs = (\<lambda>_. None), rm_idCount = 0\<rparr>)"

section \<open>Using rules\<close>

text \<open>\<open>None\<close> is the null app: the rule sets of the device.\<close>

definition rm_addCustom :: "regex \<Rightarrow> addr option \<Rightarrow> u32 \<Rightarrow> Color \<Rightarrow> bool \<Rightarrow> Policy \<Rightarrow> Policy" where
  "rm_addCustom rx app ruleId color cmpl p =
     (case rm_find ruleId p of
        None \<Rightarrow> p
      | Some rule \<Rightarrow>
          let c = custom_of rule p in
          (case app of
             None \<Rightarrow> dm_addCustomRule rx rule cmpl color (set_custom rule (c\<lparr>cu_color := color\<rparr>) p)
           | Some a \<Rightarrow> app_addCustomRule rx rule cmpl color a (set_custom rule (custom_onList color (set_insert a) c) p)))"

definition rm_removeCustom :: "regex \<Rightarrow> addr option \<Rightarrow> u32 \<Rightarrow> Color \<Rightarrow> Policy \<Rightarrow> Policy" where
  "rm_removeCustom rx app ruleId color p =
     (case rm_find ruleId p of
        None \<Rightarrow> p
      | Some rule \<Rightarrow>
          let c0 = custom_of rule p;
              (c, p1) = (case app of
                 None \<Rightarrow> (c0\<lparr>cu_color := ALLC\<rparr>, dm_removeCustomRule rx rule True color p)
               | Some a \<Rightarrow> (custom_onList color (filter (\<lambda>b. b \<noteq> a)) c0, app_removeCustomRule rx rule True color a p))
          in if cu_color c = ALLC \<and> cu_blacklist c = [] \<and> cu_whitelist c = []
             then erase_custom rule p1 else set_custom rule c p1)"

section \<open>Reading the registry\<close>

record BaselineRule =
  br_ruleId :: u32
  br_type :: RuleType
  br_pattern :: string

definition snapshotBaseline :: "Policy \<Rightarrow> BaselineRule list" where
  "snapshotBaseline p =
     map (\<lambda>e. \<lparr>br_ruleId = fst e, br_type = ru_type (p_ruleHeap p (snd e)), br_pattern = ru_rule (p_ruleHeap p (snd e))\<rparr>)
       (rm_rules (p_rm p))"

definition nextRuleIdSnapshot :: "Policy \<Rightarrow> u32" where
  "nextRuleIdSnapshot p = rm_idCount (p_rm p)"

definition snapshotBaselineRuleStats :: "Policy \<Rightarrow> (u32 \<times> u64 \<times> u64) list" where
  "snapshotBaselineRuleStats p =
     map (\<lambda>e. (fst e, ru_allowHits (p_ruleHeap p (snd e)), ru_blockHits (p_ruleHeap p (snd e)))) (rm_rules (p_rm p))"

definition resetRuleHits :: "Policy \<Rightarrow> Policy" where
  "resetRuleHits p = fold (\<lambda>e. upd_rule (snd e) resetHits) (rm_rules (p_rm p)) p"

record CustomRuleConflict =
  cf_ruleId :: u32
  cf_device :: bool
  cf_appUids :: "u32 list"

definition conflictsForRemoval :: "u32 list \<Rightarrow> Policy \<Rightarrow> CustomRuleConflict list" where
  "conflictsForRemoval ruleIds p =
     concat (map (\<lambda>rid.
       case rm_find rid p of
         None \<Rightarrow> []
       | Some rule \<Rightarrow>
           (case rm_customs (p_rm p) rule of
              None \<Rightarrow> []
            | Some c \<Rightarrow>
                let device = (cu_color c \<noteq> ALLC);
                    uids = sort (remdups (map (\<lambda>a. a_uid (p_appHeap p a)) (cu_blacklist c @ cu_whitelist c)))
                in if \<not> device \<and> uids = [] then []
                   else [\<lparr>cf_ruleId = rid, cf_device = device, cf_appUids = uids\<rparr>])) ruleIds)"

section \<open>Commands\<close>

definition opposite :: "Color \<Rightarrow> Color" where
  "opposite color = (if color = BLACK then WHITE else BLACK)"

definition cmdAddCustomRule :: "regex \<Rightarrow> addr option \<Rightarrow> u32 \<Rightarrow> Color \<Rightarrow> Policy \<Rightarrow> Policy" where
  "cmdAddCustomRule rx app ruleId color p =
     rm_addCustom rx app ruleId color True (rm_removeCustom rx app ruleId (opposite color) p)"

definition cmdRemoveCustomRule :: "regex \<Rightarrow> addr option \<Rightarrow> u32 \<Rightarrow> Color \<Rightarrow> Policy \<Rightarrow> Policy" where
  "cmdRemoveCustomRule = rm_removeCustom"

text \<open>\<^verbatim>\<open>applyRules\<close> of \<^verbatim>\<open>DOMAINPOLICY.APPLY\<close>: the rules of one colour become exactly the desired ones.\<close>

definition current_rules :: "addr option \<Rightarrow> Color \<Rightarrow> Policy \<Rightarrow> u32 list" where
  "current_rules app color p =
     snapshotRuleIds (p_ruleHeap p)
       (case app of None \<Rightarrow> dm_customRules color (p_dm p) | Some a \<Rightarrow> app_customRules color (p_appHeap p a))"

definition applyRules :: "regex \<Rightarrow> addr option \<Rightarrow> Color \<Rightarrow> u32 list \<Rightarrow> Policy \<Rightarrow> Policy" where
  "applyRules rx app color desiredIds p =
     (let current = current_rules app color p;
          p1 = fold (\<lambda>rid. rm_removeCustom rx app rid color) (filter (\<lambda>rid. rid \<notin> set desiredIds) current) p
      in fold (\<lambda>rid. rm_addCustom rx app rid color True)
           (filter (\<lambda>rid. rid \<notin> set current) (remdups desiredIds)) p1)"

definition domainpolicy_apply_rules :: "regex \<Rightarrow> addr option \<Rightarrow> u32 list \<Rightarrow> u32 list \<Rightarrow> Policy \<Rightarrow> Policy" where
  "domainpolicy_apply_rules rx app allowRuleIds blockRuleIds p =
     applyRules rx app BLACK blockRuleIds (applyRules rx app WHITE allowRuleIds p)"

end
