(* ===== verification/DomainPolicy.thy ===== *)
theory DomainPolicy
  imports DomainRules
begin

text \<open>
  The decision for an app and a domain (\<^verbatim>\<open>App::blocked\<close> and its variants with attribution, \<^verbatim>\<open>src/src/App.cpp\<close>;
  \<^verbatim>\<open>DomainManager::blocked\<close> and \<^verbatim>\<open>authorized\<close>, \<^verbatim>\<open>src/src/DomainManager.cpp\<close>), the explained evaluation of tracked
  apps (\<^verbatim>\<open>evaluateDomainPolicyDebug\<close>) and the operations of the domain registry.
\<close>

section \<open>Device-wide decisions\<close>

definition name_of :: "Policy \<Rightarrow> addr \<Rightarrow> string" where
  "name_of p d = do_name (p_domHeap p d)"

definition dm_authorized :: "Policy \<Rightarrow> addr \<Rightarrow> bool" where
  "dm_authorized p d \<longleftrightarrow> d \<in> set (dm_customWhitelist (p_dm p)) \<or> cr_match (dm_whiteRules (p_dm p)) (name_of p d)"

definition dm_blocked :: "Policy \<Rightarrow> addr \<Rightarrow> bool" where
  "dm_blocked p d \<longleftrightarrow> d \<in> set (dm_customBlacklist (p_dm p)) \<or>
     cr_match (dm_blackRules (p_dm p)) (name_of p d) \<and> \<not> cr_match (dm_whiteRules (p_dm p)) (name_of p d)"

definition authorizedRuleId :: "Policy \<Rightarrow> addr \<Rightarrow> u32 option" where
  "authorizedRuleId p d =
     (if d \<in> set (dm_customWhitelist (p_dm p)) then None else matchFirstRuleId (dm_whiteRules (p_dm p)) (name_of p d))"

definition blockedRuleId :: "Policy \<Rightarrow> addr \<Rightarrow> u32 option" where
  "blockedRuleId p d =
     (if d \<in> set (dm_customBlacklist (p_dm p)) then None
      else if \<not> cr_match (dm_blackRules (p_dm p)) (name_of p d) \<or> cr_match (dm_whiteRules (p_dm p)) (name_of p d) then None
      else matchFirstRuleId (dm_blackRules (p_dm p)) (name_of p d))"

section \<open>The decision for an app\<close>

definition app_blocked :: "Policy \<Rightarrow> addr \<Rightarrow> addr option \<Rightarrow> bool \<times> Color" where
  "app_blocked p app dom0 =
     (case dom0 of
        None \<Rightarrow> (False, GREY)
      | Some d \<Rightarrow>
          if \<not> set_blockEnabled (p_settings p) then (False, GREY)
          else
            let a = p_appHeap p app; cs = do_color (p_domHeap p d); n = name_of p d;
                fallback = (a_blockMask a AND do_blockMask (p_domHeap p d) \<noteq> 0, cs)
            in if a_useCustomList a then
                 if d \<in> set (a_customWhitelist a) then (False, cs)
                 else if d \<in> set (a_customBlacklist a) then (True, cs)
                 else if cr_match (a_whiteRules a) n then (False, cs)
                 else if cr_match (a_blackRules a) n then (True, cs)
                 else if dm_authorized p d then (False, cs)
                 else if dm_blocked p d then (True, cs)
                 else fallback
               else fallback)"

record BlockedWithSource =
  bs_blocked :: bool
  bs_color :: Color
  bs_source :: DomainPolicySource
  bs_ruleId :: "u32 option"

text \<open>\<^verbatim>\<open>blockedWithSource\<close> has no rule id; its field is \<open>None\<close> throughout.\<close>

definition blockedWithSource :: "Policy \<Rightarrow> addr \<Rightarrow> addr option \<Rightarrow> BlockedWithSource" where
  "blockedWithSource p app dom0 =
     (let r = (\<lambda>b c s. \<lparr>bs_blocked = b, bs_color = c, bs_source = s, bs_ruleId = None\<rparr>) in
      case dom0 of
        None \<Rightarrow> r False GREY MASK_FALLBACK
      | Some d \<Rightarrow>
          if \<not> set_blockEnabled (p_settings p) then r False GREY MASK_FALLBACK
          else
            let a = p_appHeap p app; cs = do_color (p_domHeap p d); n = name_of p d;
                fallback = r (a_blockMask a AND do_blockMask (p_domHeap p d) \<noteq> 0) cs MASK_FALLBACK
            in if a_useCustomList a then
                 if d \<in> set (a_customWhitelist a) then r False cs CUSTOM_WHITELIST
                 else if d \<in> set (a_customBlacklist a) then r True cs CUSTOM_BLACKLIST
                 else if cr_match (a_whiteRules a) n then r False cs CUSTOM_RULE_WHITE
                 else if cr_match (a_blackRules a) n then r True cs CUSTOM_RULE_BLACK
                 else if dm_authorized p d then r False cs DOMAIN_DEVICE_WIDE_AUTHORIZED
                 else if dm_blocked p d then r True cs DOMAIN_DEVICE_WIDE_BLOCKED
                 else fallback
               else fallback)"

definition blockedWithSourceAndRuleId :: "Policy \<Rightarrow> addr \<Rightarrow> addr option \<Rightarrow> BlockedWithSource" where
  "blockedWithSourceAndRuleId p app dom0 =
     (let r = (\<lambda>b c s i. \<lparr>bs_blocked = b, bs_color = c, bs_source = s, bs_ruleId = i\<rparr>) in
      case dom0 of
        None \<Rightarrow> r False GREY MASK_FALLBACK None
      | Some d \<Rightarrow>
          if \<not> set_blockEnabled (p_settings p) then r False GREY MASK_FALLBACK None
          else
            let a = p_appHeap p app; cs = do_color (p_domHeap p d); n = name_of p d;
                fallback = r (a_blockMask a AND do_blockMask (p_domHeap p d) \<noteq> 0) cs MASK_FALLBACK None
            in if a_useCustomList a then
                 if d \<in> set (a_customWhitelist a) then r False cs CUSTOM_WHITELIST None
                 else if d \<in> set (a_customBlacklist a) then r True cs CUSTOM_BLACKLIST None
                 else if cr_match (a_whiteRules a) n then r False cs CUSTOM_RULE_WHITE (matchFirstRuleId (a_whiteRules a) n)
                 else if cr_match (a_blackRules a) n then r True cs CUSTOM_RULE_BLACK (matchFirstRuleId (a_blackRules a) n)
                 else if dm_authorized p d then r False cs DOMAIN_DEVICE_WIDE_AUTHORIZED (authorizedRuleId p d)
                 else if dm_blocked p d then r True cs DOMAIN_DEVICE_WIDE_BLOCKED (blockedRuleId p d)
                 else fallback
               else fallback)"

section \<open>Explained evaluation\<close>

record DnsRuleSnapshot =
  drs_ruleId :: u32
  drs_type :: string
  drs_pattern :: string
  drs_scope :: string
  drs_action :: string

record DnsListEntrySnapshot =
  dle_type :: string
  dle_pattern :: string
  dle_scope :: string
  dle_action :: string

record DnsMaskEvidence =
  dme_domMask :: u32
  dme_appMask :: u32
  dme_effectiveMask :: u32
  dme_blocked :: bool

record DnsStage =
  dst_name :: string
  dst_enabled :: bool
  dst_evaluated :: bool
  dst_matched :: bool
  dst_outcome :: string
  dst_winner :: bool
  dst_skipReason :: "string option"
  dst_ruleIds :: "u32 list"
  dst_ruleSnapshots :: "DnsRuleSnapshot list"
  dst_listEntries :: "DnsListEntrySnapshot list"
  dst_truncated :: bool
  dst_omitted :: "u32 option"
  dst_maskFallback :: "DnsMaskEvidence option"

definition stage_new :: "string \<Rightarrow> bool \<Rightarrow> DnsStage" where
  "stage_new name enabled = \<lparr>dst_name = name, dst_enabled = enabled, dst_evaluated = False, dst_matched = False,
     dst_outcome = [], dst_winner = False, dst_skipReason = None, dst_ruleIds = [], dst_ruleSnapshots = [],
     dst_listEntries = [], dst_truncated = False, dst_omitted = None, dst_maskFallback = None\<rparr>"

fun ruleTypeStr :: "RuleType \<Rightarrow> string" where
  "ruleTypeStr R_DOMAIN = ''domain''"
| "ruleTypeStr R_WILDCARD = ''wildcard''"
| "ruleTypeStr R_REGEX = ''regex''"

definition cl_matching :: "Policy \<Rightarrow> addr option \<Rightarrow> string \<Rightarrow> string \<Rightarrow> addr list \<Rightarrow> DnsListEntrySnapshot list" where
  "cl_matching p dom0 scope action lst =
     (case dom0 of
        None \<Rightarrow> []
      | Some d \<Rightarrow> if d \<in> set lst
          then [\<lparr>dle_type = ''domain'', dle_pattern = name_of p d, dle_scope = scope, dle_action = action\<rparr>] else [])"

definition rule_snapshots :: "Policy \<Rightarrow> string \<Rightarrow> string \<Rightarrow> string \<Rightarrow> (u32 \<times> matcher) list \<Rightarrow> DnsRuleSnapshot list" where
  "rule_snapshots p scope action n es =
     concat (map (\<lambda>e. if snd e n then
         (case rm_find (fst e) p of
            None \<Rightarrow> []
          | Some a \<Rightarrow> [\<lparr>drs_ruleId = ru_id (p_ruleHeap p a), drs_type = ruleTypeStr (ru_type (p_ruleHeap p a)),
                        drs_pattern = ru_rule (p_ruleHeap p a), drs_scope = scope, drs_action = action\<rparr>])
       else []) es)"

definition cr_matching ::
  "Policy \<Rightarrow> addr option \<Rightarrow> string \<Rightarrow> string \<Rightarrow> u32 option \<Rightarrow> CustomRules \<Rightarrow> DnsRuleSnapshot list \<times> bool \<times> u32 option" where
  "cr_matching p dom0 scope action winningRuleId cr =
     (case dom0 of
        None \<Rightarrow> ([], False, None)
      | Some d \<Rightarrow>
          if cr_attribSnap cr = [] then ([], False, None)
          else capCandidateSnapshots drs_ruleId winningRuleId
                 (std_sort (\<lambda>a b. drs_ruleId a < drs_ruleId b)
                   (rule_snapshots p scope action (name_of p d) (cr_attribSnap cr))))"

text \<open>The decision so far, whether a stage has won, and the stages appended.\<close>

record DebugState =
  db_blocked :: bool
  db_source :: DomainPolicySource
  db_ruleId :: "u32 option"
  db_short :: bool
  db_stages :: "DnsStage list"

definition setDecision :: "bool \<Rightarrow> DomainPolicySource \<Rightarrow> u32 option \<Rightarrow> DebugState \<Rightarrow> DebugState" where
  "setDecision blocked source rid st = st\<lparr>db_blocked := blocked, db_source := source, db_ruleId := rid\<rparr>"

definition appendStage :: "DnsStage \<Rightarrow> DebugState \<Rightarrow> DebugState" where
  "appendStage s st =
     (let s' = (if \<not> dst_enabled s then s\<lparr>dst_evaluated := False, dst_skipReason := Some ''disabled''\<rparr>
                else if db_short st then s\<lparr>dst_evaluated := False, dst_matched := False, dst_winner := False,
                       dst_outcome := ''none'', dst_skipReason := Some ''shortCircuited''\<rparr>
                else s)
      in st\<lparr>db_short := db_short st \<or> dst_winner s', db_stages := db_stages st @ [s']\<rparr>)"

definition firstRuleId :: "DnsStage \<Rightarrow> u32 option" where
  "firstRuleId s = (case dst_ruleSnapshots s of [] \<Rightarrow> None | r # _ \<Rightarrow> Some (drs_ruleId r))"

text \<open>A stage with list entries and rules (either may be empty) that wins when something matches.\<close>

definition fill_stage ::
  "DnsListEntrySnapshot list \<Rightarrow> DnsRuleSnapshot list \<times> bool \<times> u32 option \<Rightarrow> string \<Rightarrow> DnsStage \<Rightarrow> DnsStage" where
  "fill_stage les rs action s =
     (let matched = (les \<noteq> [] \<or> fst rs \<noteq> []) in
      s\<lparr>dst_evaluated := True, dst_listEntries := les, dst_ruleSnapshots := fst rs, dst_truncated := fst (snd rs),
        dst_omitted := snd (snd rs), dst_ruleIds := map drs_ruleId (fst rs), dst_matched := matched,
        dst_outcome := (if matched then action else ''none''), dst_winner := matched\<rparr>)"

definition run_stage ::
  "string \<Rightarrow> bool \<Rightarrow> DnsListEntrySnapshot list \<Rightarrow> DnsRuleSnapshot list \<times> bool \<times> u32 option \<Rightarrow> string \<Rightarrow> DomainPolicySource \<Rightarrow> bool \<Rightarrow>
   DebugState \<Rightarrow> DebugState" where
  "run_stage name enabled les rs action source blocked st =
     (let s0 = stage_new name enabled in
      if enabled \<and> \<not> db_short st then
        let s = fill_stage les rs action s0;
            st1 = (if dst_winner s then setDecision blocked source (if les = [] then firstRuleId s else None) st else st)
        in appendStage s st1
      else appendStage s0 st)"

definition mask_stage :: "bool \<Rightarrow> u32 \<Rightarrow> u32 \<Rightarrow> DebugState \<Rightarrow> DebugState" where
  "mask_stage enabled domMask appMask st =
     (let s0 = stage_new ''maskFallback'' enabled in
      if enabled \<and> \<not> db_short st then
        let eff = appMask AND domMask;
            s = s0\<lparr>dst_evaluated := True, dst_matched := True, dst_outcome := (if eff \<noteq> 0 then ''block'' else ''allow''),
                   dst_winner := True,
                   dst_maskFallback := Some \<lparr>dme_domMask = domMask, dme_appMask = appMask, dme_effectiveMask = eff,
                     dme_blocked = (eff \<noteq> 0)\<rparr>\<rparr>
        in appendStage s (setDecision (eff \<noteq> 0) MASK_FALLBACK None st)
      else appendStage s0 st)"

record DebugResult =
  dr_blocked :: bool
  dr_color :: Color
  dr_source :: DomainPolicySource
  dr_ruleId :: "u32 option"
  dr_getips :: bool
  dr_useCustomList :: bool
  dr_domMask :: u32
  dr_appMask :: u32
  dr_stages :: "DnsStage list"

definition no_rules :: "DnsRuleSnapshot list \<times> bool \<times> u32 option" where
  "no_rules = ([], False, None)"

definition evaluateDomainPolicyDebug :: "Policy \<Rightarrow> addr \<Rightarrow> addr option \<Rightarrow> bool \<Rightarrow> bool \<Rightarrow> DebugResult" where
  "evaluateDomainPolicyDebug p app dom0 blockEnabled getBlackIPs =
     (let a = p_appHeap p app; dm = p_dm p;
          domMask = (case dom0 of Some d \<Rightarrow> ucast (do_blockMask (p_domHeap p d)) | None \<Rightarrow> 0);
          appMask = ucast (a_blockMask a);
          custom = (blockEnabled \<and> a_useCustomList a);
          st0 = \<lparr>db_blocked = False, db_source = MASK_FALLBACK, db_ruleId = None, db_short = False, db_stages = []\<rparr>;
          st1 = run_stage ''app.custom.allowList'' custom (cl_matching p dom0 ''APP'' ''allow'' (a_customWhitelist a)) no_rules
                  ''allow'' CUSTOM_WHITELIST False st0;
          st2 = run_stage ''app.custom.blockList'' custom (cl_matching p dom0 ''APP'' ''block'' (a_customBlacklist a)) no_rules
                  ''block'' CUSTOM_BLACKLIST True st1;
          st3 = run_stage ''app.custom.allowRules'' custom [] (cr_matching p dom0 ''APP'' ''allow'' None (a_whiteRules a))
                  ''allow'' CUSTOM_RULE_WHITE False st2;
          st4 = run_stage ''app.custom.blockRules'' custom [] (cr_matching p dom0 ''APP'' ''block'' None (a_blackRules a))
                  ''block'' CUSTOM_RULE_BLACK True st3;
          st5 = run_stage ''deviceWide.allow'' custom (cl_matching p dom0 ''DEVICE_WIDE'' ''allow'' (dm_customWhitelist dm))
                  (cr_matching p dom0 ''DEVICE_WIDE'' ''allow'' None (dm_whiteRules dm)) ''allow'' DOMAIN_DEVICE_WIDE_AUTHORIZED False st4;
          st6 = run_stage ''deviceWide.block'' custom (cl_matching p dom0 ''DEVICE_WIDE'' ''block'' (dm_customBlacklist dm))
                  (cr_matching p dom0 ''DEVICE_WIDE'' ''block'' None (dm_blackRules dm)) ''block'' DOMAIN_DEVICE_WIDE_BLOCKED True st5;
          st7 = mask_stage blockEnabled domMask appMask st6
      in \<lparr>dr_blocked = db_blocked st7,
          dr_color = (case dom0 of Some d \<Rightarrow> if blockEnabled then do_color (p_domHeap p d) else GREY | None \<Rightarrow> GREY),
          dr_source = db_source st7, dr_ruleId = db_ruleId st7, dr_getips = (\<not> db_blocked st7 \<or> getBlackIPs),
          dr_useCustomList = a_useCustomList a, dr_domMask = domMask, dr_appMask = appMask, dr_stages = db_stages st7\<rparr>)"

fun dnsScopeStr :: "DomainPolicySource \<Rightarrow> string" where
  "dnsScopeStr DOMAIN_DEVICE_WIDE_AUTHORIZED = ''DEVICE_WIDE''"
| "dnsScopeStr DOMAIN_DEVICE_WIDE_BLOCKED = ''DEVICE_WIDE''"
| "dnsScopeStr MASK_FALLBACK = ''FALLBACK''"
| "dnsScopeStr _ = ''APP''"

end
