(* ===== verification/DomainInvariant.thy ===== *)
theory DomainInvariant
  imports DomainPolicy
begin

text \<open>
  The invariant of the rule registry: every compiled rule set (of the device or of an app, allowing or blocking)
  holds exactly the registered rules whose registry entry names it, and its two published snapshots match the
  names these rules match. The places a rule can be used in are treated alike (\<open>slot_rules\<close>, \<open>uses\<close>): \<open>None\<close> is the
  device, \<open>Some a\<close> an app.
\<close>

section \<open>What regular expressions are assumed to do\<close>

text \<open>The alternation of patterns that compile compiles and matches what one of them matches; the empty pattern,
  when it compiles, matches nothing but the empty string.\<close>

definition ere_laws :: "regex \<Rightarrow> bool" where
  "ere_laws rx \<longleftrightarrow>
     (\<forall>ps. ps \<noteq> [] \<and> (\<forall>q \<in> set ps. rx q \<noteq> None) \<longrightarrow>
        (\<exists>m. rx (join_bar ps) = Some m \<and> (\<forall>s. m s \<longleftrightarrow> (\<exists>q \<in> set ps. \<exists>k. rx q = Some k \<and> k s)))) \<and>
     (\<forall>m s. rx [] = Some m \<and> m s \<longrightarrow> s = [])"

definition rule_hits :: "regex \<Rightarrow> (addr \<Rightarrow> Rule) \<Rightarrow> addr \<Rightarrow> string \<Rightarrow> bool" where
  "rule_hits rx heap r n \<longleftrightarrow> (case rx (ru_regex (heap r)) of Some m \<Rightarrow> m n | None \<Rightarrow> False)"

section \<open>A compiled rule set\<close>

definition attrib_of :: "regex \<Rightarrow> (addr \<Rightarrow> Rule) \<Rightarrow> addr list \<Rightarrow> (u32 \<times> matcher) list" where
  "attrib_of rx heap rs = std_sort (\<lambda>a b. fst a < fst b) (attrib_entries rx heap rs)"

definition set_ok :: "regex \<Rightarrow> (addr \<Rightarrow> Rule) \<Rightarrow> CustomRules \<Rightarrow> bool" where
  "set_ok rx heap cr \<longleftrightarrow> distinct (cr_rules cr) \<and>
     (\<forall>n. n \<noteq> [] \<longrightarrow> (cr_regexSnap cr n \<longleftrightarrow> (\<exists>r \<in> set (cr_rules cr). rule_hits rx heap r n))) \<and>
     cr_attribSnap cr = attrib_of rx heap (cr_rules cr)"

definition valid_ok :: "regex \<Rightarrow> Rule \<Rightarrow> bool" where
  "valid_ok rx r \<longleftrightarrow> ru_valid r = (rx (ru_regex r) \<noteq> None)"

lemma attrib_entries_filter:
  "\<forall>r \<in> set rs. valid_ok rx (heap r) \<Longrightarrow> attrib_entries rx heap (filter (\<lambda>a. ru_valid (heap a)) rs) = attrib_entries rx heap rs"
  by (induction rs) (auto simp: attrib_entries_def valid_ok_def)

lemma cr_rules_rebuild [simp]: "cr_rules (rebuildRegexSnapshotLocked rx heap cr) = cr_rules cr"
  by (simp add: rebuildRegexSnapshotLocked_def Let_def)

lemma rebuild_ok:
  assumes laws: "ere_laws rx" and "distinct (cr_rules cr)" and valid: "\<forall>r \<in> set (cr_rules cr). valid_ok rx (heap r)"
  shows "set_ok rx heap (rebuildRegexSnapshotLocked rx heap cr)"
proof -
  let ?vs = "filter (\<lambda>a. ru_valid (heap a)) (cr_rules cr)"
  let ?ps = "map (\<lambda>a. ru_regex (heap a)) ?vs"
  have compiled: "\<forall>q \<in> set ?ps. rx q \<noteq> None" using valid by (auto simp: valid_ok_def)
  have hits: "rule_hits rx heap r n \<longleftrightarrow> r \<in> set ?vs \<and> (\<exists>k. rx (ru_regex (heap r)) = Some k \<and> k n)"
    if "r \<in> set (cr_rules cr)" for r n
    using that valid by (auto simp: rule_hits_def valid_ok_def split: option.splits)
  have "cr_regexSnap (rebuildRegexSnapshotLocked rx heap cr) n \<longleftrightarrow> (\<exists>r \<in> set (cr_rules cr). rule_hits rx heap r n)"
    if "n \<noteq> []" for n
  proof (cases "?ps = []")
    case True
    then have "\<not> (\<exists>r \<in> set (cr_rules cr). rule_hits rx heap r n)" using hits by auto
    moreover have "\<not> m n" if "rx [] = Some m" for m using laws that \<open>n \<noteq> []\<close> unfolding ere_laws_def by blast
    then have "\<not> cr_regexSnap (rebuildRegexSnapshotLocked rx heap cr) n"
      using True \<open>n \<noteq> []\<close> by (auto simp: rebuildRegexSnapshotLocked_def Let_def emptyRegex_def split: option.split)
    ultimately show ?thesis by simp
  next
    case False
    then obtain m where m: "rx (join_bar ?ps) = Some m" "\<And>s. m s \<longleftrightarrow> (\<exists>q \<in> set ?ps. \<exists>k. rx q = Some k \<and> k s)"
      using spec [OF conjunct1 [OF laws [unfolded ere_laws_def]], of ?ps] compiled by blast
    have "m n \<longleftrightarrow> (\<exists>r \<in> set (cr_rules cr). rule_hits rx heap r n)" unfolding m(2) using hits by auto
    then show ?thesis using m(1) by (simp add: rebuildRegexSnapshotLocked_def Let_def)
  qed
  then show ?thesis
    using assms(2) attrib_entries_filter [OF valid]
    by (simp add: set_ok_def attrib_of_def) (simp add: rebuildRegexSnapshotLocked_def Let_def)
qed

lemma set_ok_new: "set_ok rx heap customRules_new"
  by (simp add: set_ok_def customRules_new_def emptyRegex_def attrib_of_def attrib_entries_def)

definition same_rule :: "Rule \<Rightarrow> Rule \<Rightarrow> bool" where
  "same_rule r r' \<longleftrightarrow> ru_id r = ru_id r' \<and> ru_regex r = ru_regex r' \<and> ru_valid r = ru_valid r'"

lemma set_ok_cong:
  assumes "\<forall>r \<in> set (cr_rules cr). same_rule (heap r) (heap' r)"
  shows "set_ok rx heap cr = set_ok rx heap' cr"
proof -
  have "rule_hits rx heap r n = rule_hits rx heap' r n" if "r \<in> set (cr_rules cr)" for r n
    using assms that by (simp add: rule_hits_def same_rule_def)
  moreover have "attrib_entries rx heap (cr_rules cr) = attrib_entries rx heap' (cr_rules cr)"
    unfolding attrib_entries_def by (rule arg_cong [where f = concat]) (use assms in \<open>auto simp: same_rule_def split: option.split\<close>)
  ultimately show ?thesis by (simp add: set_ok_def attrib_of_def)
qed

lemma set_ok_add:
  assumes "ere_laws rx" and "set_ok rx heap cr" and "\<forall>x \<in> insert r (set (cr_rules cr)). valid_ok rx (heap x)"
  shows "set_ok rx heap (cr_add rx heap r True cr)"
  unfolding cr_add_def Let_def if_True
  by (rule rebuild_ok) (use assms in \<open>auto simp: set_insert_def set_ok_def\<close>)

lemma set_ok_remove:
  assumes "ere_laws rx" and "set_ok rx heap cr" and "\<forall>x \<in> set (cr_rules cr). valid_ok rx (heap x)"
  shows "set_ok rx heap (cr_remove rx heap r True cr)"
  unfolding cr_remove_def Let_def if_True
  by (rule rebuild_ok) (use assms in \<open>auto simp: set_ok_def\<close>)

lemma cr_rules_add [simp]: "set (cr_rules (cr_add rx heap r True cr)) = insert r (set (cr_rules cr))"
  by (auto simp: cr_add_def set_insert_def)

lemma cr_rules_remove [simp]: "set (cr_rules (cr_remove rx heap r True cr)) = set (cr_rules cr) - {r}"
  by (auto simp: cr_remove_def)

section \<open>Slots\<close>

definition slot_rules :: "addr option \<Rightarrow> Color \<Rightarrow> Policy \<Rightarrow> CustomRules" where
  "slot_rules s c p = (case s of None \<Rightarrow> dm_customRules c (p_dm p) | Some a \<Rightarrow> app_customRules c (p_appHeap p a))"

definition uses :: "addr option \<Rightarrow> Color \<Rightarrow> addr \<Rightarrow> Policy \<Rightarrow> bool" where
  "uses s c r p \<longleftrightarrow> (case s of None \<Rightarrow> cu_color (custom_of r p) = c | Some a \<Rightarrow> a \<in> set (custom_list c (custom_of r p)))"

definition bw :: "Color \<Rightarrow> bool" where
  "bw c \<longleftrightarrow> c = BLACK \<or> c = WHITE"

definition registered :: "Policy \<Rightarrow> addr \<Rightarrow> bool" where
  "registered p r \<longleftrightarrow> (\<exists>rid. rm_find rid p = Some r)"

definition reg_inv :: "regex \<Rightarrow> Policy \<Rightarrow> bool" where
  "reg_inv rx p \<longleftrightarrow> omap_wf (rm_rules (p_rm p)) \<and>
     (\<forall>rid r. rm_find rid p = Some r \<longrightarrow> ru_id (p_ruleHeap p r) = rid \<and> r < p_nextRule p \<and> valid_ok rx (p_ruleHeap p r)) \<and>
     (\<forall>r c. rm_customs (p_rm p) r = Some c \<longrightarrow> registered p r) \<and>
     (\<forall>s c. bw c \<longrightarrow> set_ok rx (p_ruleHeap p) (slot_rules s c p) \<and> (\<forall>r. r \<in> set (cr_rules (slot_rules s c p)) \<longleftrightarrow> uses s c r p))"

lemma slot_rules_dm:
  "bw c \<Longrightarrow> bw color \<Longrightarrow> slot_rules s c (upd_dm (dm_onRules color f) p) =
     (if s = None \<and> c = color then f (slot_rules s c p) else slot_rules s c p)"
  by (auto simp: bw_def slot_rules_def upd_dm_def dm_onRules_def dm_customRules_def split: option.splits)

lemma slot_rules_app:
  "bw c \<Longrightarrow> bw color \<Longrightarrow> slot_rules s c (upd_app a (app_onRules color f) p) =
     (if s = Some a \<and> c = color then f (slot_rules s c p) else slot_rules s c p)"
  by (auto simp: bw_def slot_rules_def upd_app_def app_onRules_def app_customRules_def split: option.splits)

lemma slot_rules_app_saved:
  "bw c \<Longrightarrow> bw color \<Longrightarrow> slot_rules s c (upd_app a (\<lambda>x. app_onRules color f (x\<lparr>a_saved := b\<rparr>)) p) =
     (if s = Some a \<and> c = color then f (slot_rules s c p) else slot_rules s c p)"
  by (auto simp: bw_def slot_rules_def upd_app_def app_onRules_def app_customRules_def split: option.splits)

lemma slot_rules_rm [simp]:
  "slot_rules s c (upd_rm f p) = slot_rules s c p" "slot_rules s c (upd_rule r g p) = slot_rules s c p"
  by (simp_all add: slot_rules_def upd_rm_def upd_rule_def split: option.splits)

lemma slot_rules_custom [simp]:
  "slot_rules s c (set_custom r u p) = slot_rules s c p" "slot_rules s c (erase_custom r p) = slot_rules s c p"
  by (simp_all add: set_custom_def erase_custom_def)

lemmas frame_defs = upd_rm_def upd_dm_def upd_app_def upd_rule_def set_custom_def erase_custom_def

lemma frame_dm [simp]:
  "p_rm (upd_dm f p) = p_rm p" "p_ruleHeap (upd_dm f p) = p_ruleHeap p" "p_nextRule (upd_dm f p) = p_nextRule p"
  "p_rm (upd_app a g p) = p_rm p" "p_ruleHeap (upd_app a g p) = p_ruleHeap p" "p_nextRule (upd_app a g p) = p_nextRule p"
  "p_ruleHeap (upd_rm h p) = p_ruleHeap p" "p_nextRule (upd_rm h p) = p_nextRule p"
  "p_ruleHeap (set_custom r u p) = p_ruleHeap p" "p_nextRule (set_custom r u p) = p_nextRule p"
  "p_ruleHeap (erase_custom r p) = p_ruleHeap p" "p_nextRule (erase_custom r p) = p_nextRule p"
  "p_rm (upd_rule r k p) = p_rm p" "p_nextRule (upd_rule r k p) = p_nextRule p"
  by (simp_all add: frame_defs)

lemma custom_of_cong: "p_rm p = p_rm p' \<Longrightarrow> custom_of r p = custom_of r p'"
  by (simp add: custom_of_def)

lemma uses_cong: "rm_customs (p_rm p) = rm_customs (p_rm p') \<Longrightarrow> uses s c r p = uses s c r p'"
  by (simp add: uses_def custom_of_def split: option.split)

lemma rm_find_cong: "rm_rules (p_rm p) = rm_rules (p_rm p') \<Longrightarrow> rm_find rid p = rm_find rid p'"
  by (simp add: rm_find_def)

lemma rm_rules_custom [simp]:
  "rm_rules (p_rm (set_custom r u p)) = rm_rules (p_rm p)" "rm_rules (p_rm (erase_custom r p)) = rm_rules (p_rm p)"
  "rm_customs (p_rm (set_custom r u p)) = (rm_customs (p_rm p))(r \<mapsto> u)"
  "rm_customs (p_rm (erase_custom r p)) = (rm_customs (p_rm p))(r := None)"
  by (simp_all add: frame_defs)

lemma uses_unregistered: "reg_inv rx p \<Longrightarrow> bw c \<Longrightarrow> uses s c r p \<Longrightarrow> registered p r"
  by (cases "rm_customs (p_rm p) r")
     (auto simp: bw_def reg_inv_def uses_def custom_of_def custom_new_def custom_list_def split: option.splits)

text \<open>The shape of every preservation proof: the rules of the heap that are in use stay well formed, the registry
  stays in step and each slot has the rules that use it.\<close>

lemma reg_invI:
  assumes "omap_wf (rm_rules (p_rm p))"
    and "\<And>rid r. rm_find rid p = Some r \<Longrightarrow> ru_id (p_ruleHeap p r) = rid \<and> r < p_nextRule p \<and> valid_ok rx (p_ruleHeap p r)"
    and "\<And>r c. rm_customs (p_rm p) r = Some c \<Longrightarrow> registered p r"
    and "\<And>s c. bw c \<Longrightarrow> set_ok rx (p_ruleHeap p) (slot_rules s c p)"
    and "\<And>s c r. bw c \<Longrightarrow> r \<in> set (cr_rules (slot_rules s c p)) \<longleftrightarrow> uses s c r p"
  shows "reg_inv rx p"
  using assms unfolding reg_inv_def by blast

lemma reg_invD:
  assumes "reg_inv rx p"
  shows "omap_wf (rm_rules (p_rm p))"
    and "rm_find rid p = Some r \<Longrightarrow> ru_id (p_ruleHeap p r) = rid \<and> r < p_nextRule p \<and> valid_ok rx (p_ruleHeap p r)"
    and "rm_customs (p_rm p) r = Some u \<Longrightarrow> registered p r"
    and "bw c \<Longrightarrow> set_ok rx (p_ruleHeap p) (slot_rules s c p)"
    and "bw c \<Longrightarrow> r \<in> set (cr_rules (slot_rules s c p)) \<longleftrightarrow> uses s c r p"
  using assms unfolding reg_inv_def by blast+

lemma slot_valid:
  assumes "reg_inv rx p" and "bw c" and "r \<in> set (cr_rules (slot_rules s c p))"
  shows "registered p r \<and> valid_ok rx (p_ruleHeap p r)"
proof -
  have "uses s c r p" using reg_invD(5) [OF assms(1,2)] assms(3) by blast
  then have "registered p r" by (rule uses_unregistered [OF assms(1,2)])
  then show ?thesis using reg_invD(2) [OF assms(1)] unfolding registered_def by blast
qed

section \<open>Effects of the operations\<close>

definition add_effect :: "addr option \<Rightarrow> Color \<Rightarrow> addr \<Rightarrow> regex \<Rightarrow> Policy \<Rightarrow> Policy \<Rightarrow> bool" where
  "add_effect s0 color r rx p p' \<longleftrightarrow>
     p_ruleHeap p' = p_ruleHeap p \<and> p_nextRule p' = p_nextRule p \<and> rm_rules (p_rm p') = rm_rules (p_rm p) \<and>
     (\<forall>q u. rm_customs (p_rm p') q = Some u \<longrightarrow> q = r \<or> rm_customs (p_rm p) q = Some u) \<and>
     (\<forall>s c. bw c \<longrightarrow> slot_rules s c p' =
        (if s = s0 \<and> c = color then cr_add rx (p_ruleHeap p) r True (slot_rules s c p) else slot_rules s c p)) \<and>
     (\<forall>s c q. bw c \<longrightarrow> uses s c q p' =
        (if q = r \<and> s = s0 then c = color \<or> s \<noteq> None \<and> uses s c q p else uses s c q p))"

definition remove_effect :: "addr option \<Rightarrow> Color \<Rightarrow> addr \<Rightarrow> regex \<Rightarrow> Policy \<Rightarrow> Policy \<Rightarrow> bool" where
  "remove_effect s0 color r rx p p' \<longleftrightarrow>
     p_ruleHeap p' = p_ruleHeap p \<and> p_nextRule p' = p_nextRule p \<and> rm_rules (p_rm p') = rm_rules (p_rm p) \<and>
     (\<forall>q u. rm_customs (p_rm p') q = Some u \<longrightarrow> q = r \<or> rm_customs (p_rm p) q = Some u) \<and>
     (\<forall>s c. bw c \<longrightarrow> slot_rules s c p' =
        (if s = s0 \<and> c = color then cr_remove rx (p_ruleHeap p) r True (slot_rules s c p) else slot_rules s c p)) \<and>
     (\<forall>s c q. bw c \<longrightarrow> uses s c q p' =
        (if q = r \<and> s = s0 then s \<noteq> None \<and> c \<noteq> color \<and> uses s c q p else uses s c q p))"

lemma custom_of_upd:
  "custom_of q (set_custom r u p) = (if q = r then u else custom_of q p)"
  "custom_of q (erase_custom r p) = (if q = r then custom_new else custom_of q p)"
  by (simp_all add: custom_of_def)

lemma custom_of_frame [simp]:
  "custom_of q (upd_dm f p) = custom_of q p" "custom_of q (upd_app a g p) = custom_of q p"
  "custom_of q (upd_rule r k p) = custom_of q p"
  by (simp_all add: custom_of_def)

lemma uses_frame [simp]:
  "uses s c q (upd_dm f p) = uses s c q p" "uses s c q (upd_app a g p) = uses s c q p"
  "uses s c q (upd_rule r k p) = uses s c q p"
  by (simp_all add: uses_def split: option.split)

lemma rm_addCustom_effect:
  assumes "rm_find rid p = Some r" and "bw color"
  shows "add_effect s0 color r rx p (rm_addCustom rx s0 rid color True p)"
proof (cases s0)
  case None
  let ?u = "(custom_of r p)\<lparr>cu_color := color\<rparr>"
  have p': "rm_addCustom rx None rid color True p = upd_dm (dm_onRules color (cr_add rx (p_ruleHeap p) r True)) (set_custom r ?u p)"
    using assms by (simp add: rm_addCustom_def dm_addCustomRule_def Let_def)
  have "uses s c q (set_custom r ?u p) = (if q = r \<and> s = None then c = color else uses s c q p)" for s c q
    by (simp add: uses_def custom_of_upd custom_list_def eq_commute split: option.split)
  then show ?thesis using assms(2) None by (simp add: add_effect_def p' slot_rules_dm)
next
  case (Some a)
  let ?u = "custom_onList color (set_insert a) (custom_of r p)"
  have p': "rm_addCustom rx (Some a) rid color True p =
      upd_app a (\<lambda>x. app_onRules color (cr_add rx (p_ruleHeap p) r True) (x\<lparr>a_saved := False\<rparr>)) (set_custom r ?u p)"
    using assms by (simp add: rm_addCustom_def app_addCustomRule_def Let_def)
  have "uses s c q (set_custom r ?u p) = (if q = r \<and> s = Some a then c = color \<or> uses s c q p else uses s c q p)" if "bw c" for s c q
    using that assms(2)
    by (auto simp: bw_def uses_def custom_of_upd custom_list_def custom_onList_def set_insert_def split: option.split)
  then show ?thesis using assms(2) Some by (simp add: add_effect_def p' slot_rules_app_saved)
qed

lemma rm_removeCustom_effect:
  assumes "rm_find rid p = Some r" and "bw color"
  shows "remove_effect s0 color r rx p (rm_removeCustom rx s0 rid color p)"
proof -
  let ?f = "cr_remove rx (p_ruleHeap p) r True"
  define u where "u = (case s0 of None \<Rightarrow> (custom_of r p)\<lparr>cu_color := ALLC\<rparr>
    | Some a \<Rightarrow> custom_onList color (filter (\<lambda>b. b \<noteq> a)) (custom_of r p))"
  define p1 where "p1 = (case s0 of None \<Rightarrow> upd_dm (dm_onRules color ?f) p
    | Some a \<Rightarrow> upd_app a (\<lambda>x. app_onRules color ?f (x\<lparr>a_saved := False\<rparr>)) p)"
  let ?empty = "cu_color u = ALLC \<and> cu_blacklist u = [] \<and> cu_whitelist u = []"
  have p': "rm_removeCustom rx s0 rid color p = (if ?empty then erase_custom r p1 else set_custom r u p1)"
    using assms by (cases s0) (auto simp: rm_removeCustom_def dm_removeCustomRule_def app_removeCustomRule_def Let_def u_def p1_def)
  have frame: "p_ruleHeap p1 = p_ruleHeap p" "p_nextRule p1 = p_nextRule p" "p_rm p1 = p_rm p"
    by (simp_all add: p1_def split: option.split)
  have rules: "slot_rules s c p1 = (if s = s0 \<and> c = color then ?f (slot_rules s c p) else slot_rules s c p)" if "bw c" for s c
    using that assms(2) by (cases s0) (simp_all add: p1_def slot_rules_dm slot_rules_app_saved)
  have custom: "custom_of q (if ?empty then erase_custom r p1 else set_custom r u p1) = (if q = r then u else custom_of q p)" for q
    using custom_of_cong [OF frame(3)] by (auto simp: custom_of_upd custom_new_def)
  have "uses s c q (rm_removeCustom rx s0 rid color p) =
      (if q = r \<and> s = s0 then s \<noteq> None \<and> c \<noteq> color \<and> uses s c q p else uses s c q p)" if "bw c" for s c q
    unfolding p' uses_def custom using that assms(2)
    by (cases s0) (auto simp: bw_def u_def custom_list_def custom_onList_def split: option.split)
  then show ?thesis using rules frame by (auto simp: remove_effect_def p' split: if_splits)
qed

lemma registered_cong: "rm_rules (p_rm p) = rm_rules (p_rm p') \<Longrightarrow> registered p r = registered p' r"
  by (simp add: registered_def rm_find_def)

lemma reg_inv_frame:
  assumes inv: "reg_inv rx p" and r: "rm_find rid p = Some r"
    and heap: "p_ruleHeap p' = p_ruleHeap p" "p_nextRule p' = p_nextRule p" "rm_rules (p_rm p') = rm_rules (p_rm p)"
    and customs: "\<And>q u. rm_customs (p_rm p') q = Some u \<Longrightarrow> q = r \<or> rm_customs (p_rm p) q = Some u"
    and sets: "\<And>s c. bw c \<Longrightarrow> set_ok rx (p_ruleHeap p) (slot_rules s c p')"
    and members: "\<And>s c q. bw c \<Longrightarrow> q \<in> set (cr_rules (slot_rules s c p')) \<longleftrightarrow> uses s c q p'"
  shows "reg_inv rx p'"
proof (rule reg_invI)
  have find: "rm_find i p' = rm_find i p" for i using heap(3) by (simp add: rm_find_def)
  show "omap_wf (rm_rules (p_rm p'))" using reg_invD(1) [OF inv] heap by simp
  show "ru_id (p_ruleHeap p' q) = i \<and> q < p_nextRule p' \<and> valid_ok rx (p_ruleHeap p' q)" if "rm_find i p' = Some q" for i q
    using reg_invD(2) [OF inv] that heap find by simp
  show "registered p' q" if "rm_customs (p_rm p') q = Some u" for q u
  proof -
    have "registered p r" using r unfolding registered_def by blast
    then show ?thesis unfolding registered_cong [OF heap(3)] using customs [OF that] reg_invD(3) [OF inv] by blast
  qed
qed (use heap sets members in auto)

text \<open>A device-wide rule may only be added to, or removed from, the colour the registry has for it.\<close>

lemma reg_inv_add:
  assumes laws: "ere_laws rx" and inv: "reg_inv rx p" and r: "rm_find rid p = Some r"
    and eff: "add_effect s0 color r rx p p'"
    and guard: "s0 = None \<longrightarrow> cu_color (custom_of r p) \<in> {ALLC, color}"
  shows "reg_inv rx p'"
proof (rule reg_inv_frame [OF inv r])
  note e = eff [unfolded add_effect_def]
  show "p_ruleHeap p' = p_ruleHeap p" "p_nextRule p' = p_nextRule p" "rm_rules (p_rm p') = rm_rules (p_rm p)" using e by blast+
  show "q = r \<or> rm_customs (p_rm p) q = Some u" if "rm_customs (p_rm p') q = Some u" for q u using e that by blast
  fix s c assume c: "bw c"
  have rules: "slot_rules s c p' = (if s = s0 \<and> c = color then cr_add rx (p_ruleHeap p) r True (slot_rules s c p) else slot_rules s c p)"
    using e c by blast
  have "set_ok rx (p_ruleHeap p) (cr_add rx (p_ruleHeap p) r True (slot_rules s c p))"
    by (rule set_ok_add [OF laws reg_invD(4) [OF inv c]]) (use slot_valid [OF inv c] reg_invD(2) [OF inv r] in blast)
  then show "set_ok rx (p_ruleHeap p) (slot_rules s c p')" unfolding rules using reg_invD(4) [OF inv c, of s] by auto
  show "q \<in> set (cr_rules (slot_rules s c p')) \<longleftrightarrow> uses s c q p'" for q
  proof -
    have "uses s c q p' = (if q = r \<and> s = s0 then c = color \<or> s \<noteq> None \<and> uses s c q p else uses s c q p)" using e c by blast
    moreover have "uses s c r p \<Longrightarrow> c = color" if "s = None" "s0 = None" using guard that c by (auto simp: bw_def uses_def)
    ultimately show ?thesis unfolding rules using reg_invD(5) [OF inv c, of q s] by (cases s) auto
  qed
qed

lemma reg_inv_remove:
  assumes laws: "ere_laws rx" and inv: "reg_inv rx p" and r: "rm_find rid p = Some r"
    and eff: "remove_effect s0 color r rx p p'"
    and guard: "s0 = None \<longrightarrow> cu_color (custom_of r p) \<in> {ALLC, color}"
  shows "reg_inv rx p'"
proof (rule reg_inv_frame [OF inv r])
  note e = eff [unfolded remove_effect_def]
  show "p_ruleHeap p' = p_ruleHeap p" "p_nextRule p' = p_nextRule p" "rm_rules (p_rm p') = rm_rules (p_rm p)" using e by blast+
  show "q = r \<or> rm_customs (p_rm p) q = Some u" if "rm_customs (p_rm p') q = Some u" for q u using e that by blast
  fix s c assume c: "bw c"
  have rules: "slot_rules s c p' = (if s = s0 \<and> c = color then cr_remove rx (p_ruleHeap p) r True (slot_rules s c p) else slot_rules s c p)"
    using e c by blast
  have "set_ok rx (p_ruleHeap p) (cr_remove rx (p_ruleHeap p) r True (slot_rules s c p))"
    by (rule set_ok_remove [OF laws reg_invD(4) [OF inv c]]) (use slot_valid [OF inv c] in blast)
  then show "set_ok rx (p_ruleHeap p) (slot_rules s c p')" unfolding rules using reg_invD(4) [OF inv c, of s] by auto
  show "q \<in> set (cr_rules (slot_rules s c p')) \<longleftrightarrow> uses s c q p'" for q
  proof -
    have "uses s c q p' = (if q = r \<and> s = s0 then s \<noteq> None \<and> c \<noteq> color \<and> uses s c q p else uses s c q p)" using e c by blast
    moreover have "uses s c r p \<Longrightarrow> c = color" if "s = None" "s0 = None" using guard that c by (auto simp: bw_def uses_def)
    ultimately show ?thesis unfolding rules using reg_invD(5) [OF inv c, of q s] by (cases s) auto
  qed
qed

text \<open>The command of the legacy control removes a rule from the other colour first, so that it needs no guard.\<close>

lemma reg_inv_move:
  assumes laws: "ere_laws rx" and inv: "reg_inv rx p" and r: "rm_find rid p = Some r" and color: "bw color"
    and rem: "remove_effect s0 (opposite color) r rx p p1" and add: "add_effect s0 color r rx p1 p'"
  shows "reg_inv rx p'"
proof (rule reg_inv_frame [OF inv r])
  note d = rem [unfolded remove_effect_def] and e = add [unfolded add_effect_def]
  have opp: "bw (opposite color)" "opposite color \<noteq> color" using color by (auto simp: bw_def opposite_def)
  show heap: "p_ruleHeap p' = p_ruleHeap p" "p_nextRule p' = p_nextRule p" "rm_rules (p_rm p') = rm_rules (p_rm p)"
    using d e by (metis, metis, metis)
  show "q = r \<or> rm_customs (p_rm p) q = Some u" if "rm_customs (p_rm p') q = Some u" for q u using d e that by blast
  fix s c assume c: "bw c"
  have rules: "slot_rules s c p' = (if s = s0 then
      if c = color then cr_add rx (p_ruleHeap p) r True (slot_rules s c p) else cr_remove rx (p_ruleHeap p) r True (slot_rules s c p)
      else slot_rules s c p)"
    using d e c color by (auto simp: bw_def opposite_def)
  note valid = slot_valid [OF inv c, of _ s] reg_invD(2) [OF inv r] and ok = reg_invD(4) [OF inv c, of s]
  have "set_ok rx (p_ruleHeap p) (cr_add rx (p_ruleHeap p) r True (slot_rules s c p))"
    by (rule set_ok_add [OF laws ok]) (use valid in blast)
  moreover have "set_ok rx (p_ruleHeap p) (cr_remove rx (p_ruleHeap p) r True (slot_rules s c p))"
    by (rule set_ok_remove [OF laws ok]) (use valid in blast)
  ultimately show "set_ok rx (p_ruleHeap p) (slot_rules s c p')" unfolding rules using ok by auto
  show "q \<in> set (cr_rules (slot_rules s c p')) \<longleftrightarrow> uses s c q p'" for q
  proof -
    have "uses s c q p' = (if q = r \<and> s = s0 then c = color \<or> s \<noteq> None \<and> uses s c q p1 else uses s c q p1)" using e c by blast
    moreover have "uses s c q p1 = (if q = r \<and> s = s0 then s \<noteq> None \<and> c \<noteq> opposite color \<and> uses s c q p else uses s c q p)"
      using d c by blast
    moreover have "c \<noteq> color \<longrightarrow> c = opposite color" using c color by (auto simp: bw_def opposite_def)
    ultimately show ?thesis unfolding rules using reg_invD(5) [OF inv c, of q s] opp by (cases s) auto
  qed
qed

section \<open>Creating, changing and removing rules\<close>

lemma fresh_not_used: "reg_inv rx p \<Longrightarrow> bw c \<Longrightarrow> r \<in> set (cr_rules (slot_rules s c p)) \<Longrightarrow> r < p_nextRule p"
  using slot_valid reg_invD(2) unfolding registered_def by metis

lemma rule_new_fields: "ru_id (rule_new rx t rid q) = rid" "valid_ok rx (rule_new rx t rid q)"
  by (simp_all add: rule_new_def rule_create_def valid_ok_def Let_def)

lemma rule_update_fields: "ru_id (rule_update rx t q r) = ru_id r" "valid_ok rx (rule_update rx t q r)"
  by (simp_all add: rule_update_def rule_create_def resetHits_def valid_ok_def Let_def)

lemma reg_inv_make:
  assumes inv: "reg_inv rx p"
  shows "reg_inv rx (rm_make rx rid t q p)"
proof -
  let ?p' = "rm_make rx rid t q p" and ?a = "p_nextRule p"
  have slots: "slot_rules s c ?p' = slot_rules s c p" for s c
    by (simp add: rm_make_def Let_def) (simp add: slot_rules_def split: option.split)
  have heap: "p_ruleHeap ?p' = (p_ruleHeap p)(?a := rule_new rx t rid q)" "p_nextRule ?p' = ?a + 1"
    "rm_customs (p_rm ?p') = rm_customs (p_rm p)" "rm_rules (p_rm ?p') = fst (omap_emplace rid ?a (rm_rules (p_rm p)))"
    by (simp_all add: rm_make_def Let_def upd_rm_def)
  have use: "uses s c r ?p' = uses s c r p" for s c r by (rule uses_cong [OF heap(3)])
  note wf = reg_invD(1) [OF inv]
  have find: "rm_find i ?p' = (if i = rid \<and> rm_find rid p = None then Some ?a else rm_find i p)" for i
    using wf by (simp add: rm_find_def heap(4) map_of_omap_emplace)
  show ?thesis
  proof (rule reg_invI)
    show "omap_wf (rm_rules (p_rm ?p'))" using wf heap(4) by simp
    show "ru_id (p_ruleHeap ?p' r) = i \<and> r < p_nextRule ?p' \<and> valid_ok rx (p_ruleHeap ?p' r)" if "rm_find i ?p' = Some r" for i r
    proof (cases "i = rid \<and> rm_find rid p = None")
      case True
      then show ?thesis using that by (simp add: find heap rule_new_fields)
    next
      case False
      then have "rm_find i p = Some r" using that find [of i] by (auto split: if_splits)
      then show ?thesis using reg_invD(2) [OF inv] heap by fastforce
    qed
    show "registered ?p' r" if "rm_customs (p_rm ?p') r = Some u" for r u
    proof -
      have "rm_customs (p_rm p) r = Some u" using that heap(3) by simp
      then obtain i where "rm_find i p = Some r" using reg_invD(3) [OF inv] unfolding registered_def by blast
      then have "rm_find i ?p' = Some r" using find [of i] by auto
      then show ?thesis unfolding registered_def by blast
    qed
    show "set_ok rx (p_ruleHeap ?p') (slot_rules s c ?p')" if c: "bw c" for s c
    proof -
      have "\<forall>r \<in> set (cr_rules (slot_rules s c p)). same_rule (p_ruleHeap p r) (p_ruleHeap ?p' r)"
        using fresh_not_used [OF inv c] heap(1) by (fastforce simp: same_rule_def)
      then show ?thesis using reg_invD(4) [OF inv c] slots set_ok_cong by metis
    qed
    show "r \<in> set (cr_rules (slot_rules s c ?p')) \<longleftrightarrow> uses s c r ?p'" if "bw c" for s c r
      using reg_invD(5) [OF inv that] slots use by simp
  qed
qed

lemma reg_inv_idCount:
  assumes "reg_inv rx p"
  shows "reg_inv rx (upd_rm (\<lambda>rm. rm\<lparr>rm_idCount := n\<rparr>) p)"
proof -
  let ?p' = "upd_rm (\<lambda>rm. rm\<lparr>rm_idCount := n\<rparr>) p"
  have rm: "rm_rules (p_rm ?p') = rm_rules (p_rm p)" "rm_customs (p_rm ?p') = rm_customs (p_rm p)" by (simp_all add: upd_rm_def)
  have "uses s c r ?p' = uses s c r p" for s c r by (rule uses_cong [OF rm(2)])
  moreover have "registered ?p' r = registered p r" for r by (rule registered_cong [OF rm(1)])
  moreover have "rm_find i ?p' = rm_find i p" for i by (rule rm_find_cong [OF rm(1)])
  ultimately show ?thesis using assms rm by (simp add: reg_inv_def)
qed

lemma fold_build_apps:
  assumes "bw color" and "bw c"
  shows "slot_rules s c (fold (app_buildCustomRules rx color) as p) =
      (if c = color \<and> (\<exists>a \<in> set as. s = Some a) then cr_build rx (p_ruleHeap p) (slot_rules s c p) else slot_rules s c p)"
    and "p_rm (fold (app_buildCustomRules rx color) as p) = p_rm p \<and> p_ruleHeap (fold (app_buildCustomRules rx color) as p) = p_ruleHeap p \<and>
      p_nextRule (fold (app_buildCustomRules rx color) as p) = p_nextRule p"
proof -
  have idem: "cr_build rx h (cr_build rx h cr) = cr_build rx h cr" for h cr
    by (simp add: cr_build_def rebuildRegexSnapshotLocked_def Let_def)
  show "slot_rules s c (fold (app_buildCustomRules rx color) as p) =
      (if c = color \<and> (\<exists>a \<in> set as. s = Some a) then cr_build rx (p_ruleHeap p) (slot_rules s c p) else slot_rules s c p)"
  proof (induction as arbitrary: p)
    case (Cons a as)
    let ?p = "app_buildCustomRules rx color a p"
    have step: "slot_rules s c ?p = (if s = Some a \<and> c = color then cr_build rx (p_ruleHeap p) (slot_rules s c p) else slot_rules s c p)"
      and heap: "p_ruleHeap ?p = p_ruleHeap p"
      using assms by (simp_all add: app_buildCustomRules_def slot_rules_app)
    show ?case
      apply (unfold fold_Cons comp_apply, subst Cons.IH [of ?p], unfold step heap)
      apply (cases "s = Some a \<and> c = color")
      subgoal by (simp add: idem del: bex_simps)
      subgoal by (cases s) auto
      done
  qed simp
  show "p_rm (fold (app_buildCustomRules rx color) as p) = p_rm p \<and> p_ruleHeap (fold (app_buildCustomRules rx color) as p) = p_ruleHeap p \<and>
      p_nextRule (fold (app_buildCustomRules rx color) as p) = p_nextRule p"
    by (induction as arbitrary: p) (auto simp: app_buildCustomRules_def)
qed

lemma fold_remove_apps:
  assumes "bw color" and "bw c"
  shows "slot_rules s c (fold (app_removeCustomRule rx r True color) as p) =
      (if c = color \<and> (\<exists>a \<in> set as. s = Some a) then cr_remove rx (p_ruleHeap p) r True (slot_rules s c p) else slot_rules s c p)"
    and "p_rm (fold (app_removeCustomRule rx r True color) as p) = p_rm p \<and> p_ruleHeap (fold (app_removeCustomRule rx r True color) as p) = p_ruleHeap p \<and>
      p_nextRule (fold (app_removeCustomRule rx r True color) as p) = p_nextRule p"
proof -
  have idem: "cr_remove rx h r True (cr_remove rx h r True cr) = cr_remove rx h r True cr" for h cr
    by (simp add: cr_remove_def rebuildRegexSnapshotLocked_def Let_def)
  show "slot_rules s c (fold (app_removeCustomRule rx r True color) as p) =
      (if c = color \<and> (\<exists>a \<in> set as. s = Some a) then cr_remove rx (p_ruleHeap p) r True (slot_rules s c p) else slot_rules s c p)"
  proof (induction as arbitrary: p)
    case (Cons a as)
    let ?p = "app_removeCustomRule rx r True color a p"
    have step: "slot_rules s c ?p = (if s = Some a \<and> c = color then cr_remove rx (p_ruleHeap p) r True (slot_rules s c p) else slot_rules s c p)"
      and heap: "p_ruleHeap ?p = p_ruleHeap p"
      using assms by (simp_all add: app_removeCustomRule_def slot_rules_app_saved)
    show ?case
      apply (unfold fold_Cons comp_apply, subst Cons.IH [of ?p], unfold step heap)
      apply (cases "s = Some a \<and> c = color")
      subgoal by (simp add: idem del: bex_simps)
      subgoal by (cases s) auto
      done
  qed simp
  show "p_rm (fold (app_removeCustomRule rx r True color) as p) = p_rm p \<and> p_ruleHeap (fold (app_removeCustomRule rx r True color) as p) = p_ruleHeap p \<and>
      p_nextRule (fold (app_removeCustomRule rx r True color) as p) = p_nextRule p"
    by (induction as arbitrary: p) (auto simp: app_removeCustomRule_def)
qed

text \<open>The colours the registry records are those of rule sets.\<close>

definition colors_ok :: "Policy \<Rightarrow> bool" where
  "colors_ok p \<longleftrightarrow> (\<forall>r. cu_color (custom_of r p) \<in> {ALLC, BLACK, WHITE})"

lemma uses_list: "bw c \<Longrightarrow> uses (Some a) c r p \<longleftrightarrow> (c = BLACK \<and> a \<in> set (cu_blacklist (custom_of r p)) \<or> c = WHITE \<and> a \<in> set (cu_whitelist (custom_of r p)))"
  by (auto simp: uses_def custom_list_def bw_def)

lemma bw_simps [simp]: "bw BLACK" "bw WHITE" "\<not> bw ALLC" "\<not> bw GREY"
  by (simp_all add: bw_def)

lemma rebuild_users_effect:
  assumes "colors_ok p" and c: "bw c"
  shows "slot_rules s c (rebuild_users rx r p) =
    (if uses s c r p then cr_build rx (p_ruleHeap p) (slot_rules s c p) else slot_rules s c p)"
proof -
  let ?c = "custom_of r p"
  define p0 where "p0 = set_custom r ?c p"
  define p1 where "p1 = (if cu_color ?c \<noteq> ALLC then dm_buildCustomRules rx (cu_color ?c) p0 else p0)"
  define p2 where "p2 = fold (app_buildCustomRules rx BLACK) (cu_blacklist ?c) p1"
  have p': "rebuild_users rx r p = fold (app_buildCustomRules rx WHITE) (cu_whitelist ?c) p2"
    by (simp add: rebuild_users_def Let_def p0_def p1_def p2_def)
  have h: "p_ruleHeap p1 = p_ruleHeap p" "p_ruleHeap p2 = p_ruleHeap p"
    using fold_build_apps(2) [of BLACK c rx "cu_blacklist ?c" p1] c by (auto simp: p0_def p1_def p2_def dm_buildCustomRules_def)
  have s1: "slot_rules s c p1 = (if s = None \<and> uses s c r p then cr_build rx (p_ruleHeap p) (slot_rules s c p) else slot_rules s c p)"
  proof (cases "cu_color ?c = ALLC")
    case True
    then show ?thesis using c by (auto simp: p1_def p0_def uses_def bw_def)
  next
    case False
    then have "bw (cu_color ?c)" using assms(1) unfolding colors_ok_def bw_def by blast
    then show ?thesis using False c by (auto simp: p1_def p0_def dm_buildCustomRules_def slot_rules_dm uses_def)
  qed
  show ?thesis unfolding p' p2_def
    using fold_build_apps(1) [of WHITE c s rx "cu_whitelist ?c" p2] fold_build_apps(1) [of BLACK c s rx "cu_blacklist ?c" p1] c s1 h
    by (cases s) (auto simp: p2_def uses_list)
qed

lemma rebuild_users_frame:
  "p_ruleHeap (rebuild_users rx r p) = p_ruleHeap p" "p_nextRule (rebuild_users rx r p) = p_nextRule p"
  "p_rm (rebuild_users rx r p) = p_rm (set_custom r (custom_of r p) p)"
  using fold_build_apps(2) [of BLACK BLACK] fold_build_apps(2) [of WHITE WHITE]
  by (auto simp: rebuild_users_def Let_def dm_buildCustomRules_def)

lemma removeRule_effect:
  assumes r: "rm_find rid p = Some r" and "colors_ok p" and c: "bw c"
  shows "slot_rules s c (rm_removeRule rx rid p) =
    (if uses s c r p then cr_remove rx (p_ruleHeap p) r True (slot_rules s c p) else slot_rules s c p)"
proof -
  let ?c = "custom_of r p"
  define p1 where "p1 = (if cu_color ?c \<noteq> ALLC then dm_removeCustomRule rx r True (cu_color ?c) p else p)"
  define p2 where "p2 = fold (app_removeCustomRule rx r True BLACK) (cu_blacklist ?c) p1"
  have p': "slot_rules s c (rm_removeRule rx rid p) = slot_rules s c (fold (app_removeCustomRule rx r True WHITE) (cu_whitelist ?c) p2)"
    by (simp add: rm_removeRule_def r Let_def p1_def p2_def)
  have h: "p_ruleHeap p1 = p_ruleHeap p" "p_ruleHeap p2 = p_ruleHeap p"
    using fold_remove_apps(2) [of BLACK c rx r "cu_blacklist ?c" p1] c by (auto simp: p1_def p2_def dm_removeCustomRule_def)
  have s1: "slot_rules s c p1 = (if s = None \<and> uses s c r p then cr_remove rx (p_ruleHeap p) r True (slot_rules s c p) else slot_rules s c p)"
  proof (cases "cu_color ?c = ALLC")
    case True
    then show ?thesis using c by (auto simp: p1_def uses_def bw_def)
  next
    case False
    then have "bw (cu_color ?c)" using assms(2) unfolding colors_ok_def bw_def by blast
    then show ?thesis using False c by (auto simp: p1_def dm_removeCustomRule_def slot_rules_dm uses_def)
  qed
  show ?thesis unfolding p' p2_def
    using fold_remove_apps(1) [of WHITE c s rx r "cu_whitelist ?c" p2] fold_remove_apps(1) [of BLACK c s rx r "cu_blacklist ?c" p1] c s1 h
    by (cases s) (auto simp: p2_def uses_list)
qed

lemma removeRule_frame:
  assumes r: "rm_find rid p = Some r"
  shows "p_ruleHeap (rm_removeRule rx rid p) = p_ruleHeap p" "p_nextRule (rm_removeRule rx rid p) = p_nextRule p"
    "rm_rules (p_rm (rm_removeRule rx rid p)) = omap_erase (ru_id (p_ruleHeap p r)) (rm_rules (p_rm p))"
    "rm_customs (p_rm (rm_removeRule rx rid p)) = (rm_customs (p_rm p))(r := None)"
  using fold_remove_apps(2) [of BLACK BLACK rx r] fold_remove_apps(2) [of WHITE WHITE rx r]
  by (auto simp: rm_removeRule_def r Let_def dm_removeCustomRule_def upd_rm_def erase_custom_def)

lemma cr_rules_build [simp]: "cr_rules (cr_build rx h cr) = cr_rules cr"
  by (simp add: cr_build_def)

lemma reg_inv_update:
  assumes laws: "ere_laws rx" and inv: "reg_inv rx p" and col: "colors_ok p" and r: "rm_find rid p = Some r"
  shows "reg_inv rx (rebuild_users rx r (upd_rule r (rule_update rx t q) p))"
proof -
  define p1 where "p1 = upd_rule r (rule_update rx t q) p"
  let ?p' = "rebuild_users rx r p1"
  have rm1: "p_rm p1 = p_rm p" "p_nextRule p1 = p_nextRule p" by (simp_all add: p1_def)
  have heap: "p_ruleHeap p1 = (p_ruleHeap p)(r := rule_update rx t q (p_ruleHeap p r))" by (simp add: p1_def upd_rule_def)
  have col1: "colors_ok p1" using col custom_of_cong [OF rm1(1)] by (simp add: colors_ok_def)
  have use1: "uses s c x p1 = uses s c x p" for s c x using rm1 by (intro uses_cong) simp
  have slot1: "slot_rules s c p1 = slot_rules s c p" for s c by (simp add: p1_def)
  have frame: "p_ruleHeap ?p' = p_ruleHeap p1" "p_nextRule ?p' = p_nextRule p" "rm_rules (p_rm ?p') = rm_rules (p_rm p)"
    "rm_customs (p_rm ?p') = (rm_customs (p_rm p))(r \<mapsto> custom_of r p)"
    using rebuild_users_frame [of rx r p1] rm1 custom_of_cong [OF rm1(1)] by simp_all
  have use: "uses s c x ?p' = uses s c x p" for s c x
    using custom_of_cong [OF rm1(1)] by (simp add: uses_def custom_of_def frame split: option.split)
  note find = rm_find_cong [OF frame(3)] and reg = registered_cong [OF frame(3)]
  have slots: "slot_rules s c ?p' = (if uses s c r p then cr_build rx (p_ruleHeap p1) (slot_rules s c p) else slot_rules s c p)"
    if "bw c" for s c using rebuild_users_effect [OF col1 that] use1 slot1 by simp
  have "reg_inv rx ?p'"
  proof (rule reg_invI)
    show "omap_wf (rm_rules (p_rm ?p'))" using reg_invD(1) [OF inv] frame by simp
    show "ru_id (p_ruleHeap ?p' x) = i \<and> x < p_nextRule ?p' \<and> valid_ok rx (p_ruleHeap ?p' x)" if "rm_find i ?p' = Some x" for i x
      using reg_invD(2) [OF inv, of i x] that find frame heap by (auto simp: rule_update_fields)
    show "registered ?p' x" if "rm_customs (p_rm ?p') x = Some u" for x u
    proof (cases "x = r")
      case True
      then show ?thesis using r reg unfolding registered_def by auto
    next
      case False
      then show ?thesis using that frame reg reg_invD(3) [OF inv] by simp
    qed
    fix s c assume c: "bw c"
    note sv = slot_valid [OF inv c, of _ s] and ok = reg_invD(4) [OF inv c, of s]
    show "set_ok rx (p_ruleHeap ?p') (slot_rules s c ?p')"
    proof (cases "uses s c r p")
      case True
      have "\<forall>x \<in> set (cr_rules (slot_rules s c p)). valid_ok rx (p_ruleHeap p1 x)" using sv heap by (simp add: rule_update_fields)
      then show ?thesis using True ok slots [OF c] frame(1)
        by (simp add: cr_build_def rebuild_ok [OF laws] set_ok_def [of rx "p_ruleHeap p"])
    next
      case False
      then have "r \<notin> set (cr_rules (slot_rules s c p))" using reg_invD(5) [OF inv c] by blast
      then have "\<forall>x \<in> set (cr_rules (slot_rules s c p)). same_rule (p_ruleHeap p x) (p_ruleHeap p1 x)"
        using heap by (auto simp: same_rule_def)
      then show ?thesis using ok False slots [OF c] frame(1) set_ok_cong by simp
    qed
    show "x \<in> set (cr_rules (slot_rules s c ?p')) \<longleftrightarrow> uses s c x ?p'" for x
      using reg_invD(5) [OF inv c, of x s] use slots [OF c] by simp
  qed
  then show ?thesis by (simp add: p1_def)
qed

lemma reg_inv_removeRule:
  assumes laws: "ere_laws rx" and inv: "reg_inv rx p" and col: "colors_ok p"
  shows "reg_inv rx (rm_removeRule rx rid p)"
proof (cases "rm_find rid p")
  case None
  then show ?thesis using inv by (simp add: rm_removeRule_def)
next
  case (Some r)
  let ?p' = "rm_removeRule rx rid p"
  note frame = removeRule_frame [OF Some, of rx] and slots = removeRule_effect [OF Some col]
  have id: "ru_id (p_ruleHeap p r) = rid" using reg_invD(2) [OF inv Some] by simp
  have find: "rm_find i ?p' = (if i = rid then None else rm_find i p)" for i
    by (simp add: rm_find_def frame id map_of_omap_erase)
  have inj: "i = rid" if "rm_find i p = Some r" for i using reg_invD(2) [OF inv that] id by simp
  have use: "uses s c x ?p' = (x \<noteq> r \<and> uses s c x p)" if "bw c" for s c x
    using that by (auto simp: uses_def custom_of_def frame custom_new_def custom_list_def bw_def split: option.split)
  show ?thesis
  proof (rule reg_invI)
    show "omap_wf (rm_rules (p_rm ?p'))" using reg_invD(1) [OF inv] frame by simp
    show "ru_id (p_ruleHeap ?p' x) = i \<and> x < p_nextRule ?p' \<and> valid_ok rx (p_ruleHeap ?p' x)" if "rm_find i ?p' = Some x" for i x
      using reg_invD(2) [OF inv, of i x] that find frame by (simp split: if_splits)
    show "registered ?p' x" if "rm_customs (p_rm ?p') x = Some u" for x u
    proof -
      have "x \<noteq> r" and "rm_customs (p_rm p) x = Some u" using that frame by (auto split: if_splits)
      then obtain i where i: "rm_find i p = Some x" using reg_invD(3) [OF inv] unfolding registered_def by blast
      then have "i \<noteq> rid" using Some \<open>x \<noteq> r\<close> by auto
      then have "rm_find i ?p' = Some x" using i find by simp
      then show ?thesis unfolding registered_def by blast
    qed
    fix s c assume c: "bw c"
    note sv = slot_valid [OF inv c, of _ s] and ok = reg_invD(4) [OF inv c, of s]
    show "set_ok rx (p_ruleHeap ?p') (slot_rules s c ?p')"
      using ok slots [OF c, of s rx] frame(1) set_ok_remove [OF laws ok, of r] sv by simp
    show "x \<in> set (cr_rules (slot_rules s c ?p')) \<longleftrightarrow> uses s c x ?p'" for x
      using reg_invD(5) [OF inv c, of x s] use [OF c] slots [OF c, of s rx] reg_invD(5) [OF inv c, of r s] by auto
  qed
qed

end
