(* ===== verification/DomainGuarantees.thy ===== *)
theory DomainGuarantees
  imports DomainInvariant
begin

text \<open>
  Runs of the rule registry and what they guarantee: rule sets follow the registry, and the four evaluations of the
  domain policy (\<^verbatim>\<open>App::blocked\<close>, \<^verbatim>\<open>blockedWithSource\<close>, \<^verbatim>\<open>blockedWithSourceAndRuleId\<close>, \<^verbatim>\<open>evaluateDomainPolicyDebug\<close>)
  agree. A device-wide rule that changes its colour without being removed from the old one first leaves the registry
  behind.
\<close>

section \<open>Runs\<close>

lemma colors_ok_upd:
  "colors_ok p \<Longrightarrow> cu_color u \<in> {ALLC, BLACK, WHITE} \<Longrightarrow> custom_of x p' = (if x = r then u else custom_of x p) \<Longrightarrow>
   cu_color (custom_of x p') \<in> {ALLC, BLACK, WHITE}"
  by (auto simp: colors_ok_def)

lemma colors_ok_rm: "colors_ok p \<Longrightarrow> rm_customs (p_rm p') = rm_customs (p_rm p) \<Longrightarrow> colors_ok p'"
  by (simp add: colors_ok_def custom_of_def)

lemma cu_color_onList [simp]: "cu_color (custom_onList color f u) = cu_color u"
  by (simp add: custom_onList_def)

lemma colors_ok_add:
  assumes "colors_ok p" and "bw color"
  shows "colors_ok (rm_addCustom rx s rid color b p)"
proof (cases "rm_find rid p")
  case (Some r)
  have "cu_color (custom_of r p) \<in> {ALLC, BLACK, WHITE}" using assms unfolding colors_ok_def by blast
  then show ?thesis using assms Some
    by (cases s) (auto simp: rm_addCustom_def Let_def colors_ok_def custom_of_def dm_addCustomRule_def app_addCustomRule_def bw_def split: option.splits)
qed (use assms in \<open>simp add: rm_addCustom_def\<close>)

lemma colors_ok_remove:
  assumes "colors_ok p"
  shows "colors_ok (rm_removeCustom rx s rid color p)"
proof (cases "rm_find rid p")
  case (Some r)
  have "cu_color (custom_of r p) \<in> {ALLC, BLACK, WHITE}" using assms unfolding colors_ok_def by blast
  then show ?thesis using assms Some
    by (cases s) (auto simp: rm_removeCustom_def Let_def colors_ok_def custom_of_def custom_new_def
        dm_removeCustomRule_def app_removeCustomRule_def split: option.splits)
qed (use assms in \<open>simp add: rm_removeCustom_def\<close>)

text \<open>What a device-wide rule needs before it is added to, or removed from, a colour.\<close>

definition color_free :: "addr option \<Rightarrow> u32 \<Rightarrow> Color \<Rightarrow> Policy \<Rightarrow> bool" where
  "color_free s rid color p \<longleftrightarrow>
     (s = None \<longrightarrow> (case rm_find rid p of None \<Rightarrow> True | Some r \<Rightarrow> cu_color (custom_of r p) \<in> {ALLC, color}))"

definition same_rules :: "Policy \<Rightarrow> Policy \<Rightarrow> bool" where
  "same_rules p p' \<longleftrightarrow> p_rm p' = p_rm p \<and> p_ruleHeap p' = p_ruleHeap p \<and> p_nextRule p' = p_nextRule p \<and>
     (\<forall>s c. slot_rules s c p' = slot_rules s c p)"

definition policy_start :: "Policy \<Rightarrow> bool" where
  "policy_start p \<longleftrightarrow> rm_rules (p_rm p) = [] \<and> rm_customs (p_rm p) = (\<lambda>_. None) \<and> (\<forall>s c. slot_rules s c p = customRules_new)"

inductive rule_run :: "regex \<Rightarrow> Policy \<Rightarrow> bool" for rx where
  start: "policy_start p \<Longrightarrow> rule_run rx p"
| add: "rule_run rx p \<Longrightarrow> rule_run rx (snd (rm_addRule rx t q p))"
| update: "rule_run rx p \<Longrightarrow> rule_run rx (rm_updateRule rx rid t q p)"
| upsert: "rule_run rx p \<Longrightarrow> rule_run rx (upsertRuleWithId rx rid t q p)"
| ensure: "rule_run rx p \<Longrightarrow> rule_run rx (ensureNextRuleIdAtLeast n p)"
| remove: "rule_run rx p \<Longrightarrow> rule_run rx (rm_removeRule rx rid p)"
| addCustom: "rule_run rx p \<Longrightarrow> bw color \<Longrightarrow> color_free s rid color p \<Longrightarrow> rule_run rx (rm_addCustom rx s rid color True p)"
| removeCustom: "rule_run rx p \<Longrightarrow> bw color \<Longrightarrow> color_free s rid color p \<Longrightarrow> rule_run rx (rm_removeCustom rx s rid color p)"
| move: "rule_run rx p \<Longrightarrow> bw color \<Longrightarrow> rule_run rx (cmdAddCustomRule rx s rid color p)"
| others: "rule_run rx p \<Longrightarrow> same_rules p p' \<Longrightarrow> rule_run rx p'"

lemma reg_inv_same:
  assumes "reg_inv rx p" and "same_rules p p'"
  shows "reg_inv rx p'"
proof -
  note e = assms(2) [unfolded same_rules_def]
  have "uses s c r p' = uses s c r p" for s c r using e by (intro uses_cong) simp
  moreover have "rm_find i p' = rm_find i p" for i using e by (intro rm_find_cong) simp
  moreover have "registered p' r = registered p r" for r using e by (intro registered_cong) simp
  ultimately show ?thesis using assms(1) e by (simp add: reg_inv_def)
qed

lemma uses_start: "policy_start p \<Longrightarrow> bw c \<Longrightarrow> \<not> uses s c r p"
  by (auto simp: policy_start_def uses_def custom_of_def custom_new_def custom_list_def split: option.split)

lemma reg_inv_start:
  assumes "policy_start p"
  shows "reg_inv rx p \<and> colors_ok p"
proof
  note e = assms [unfolded policy_start_def]
  show "colors_ok p" using e by (simp add: colors_ok_def custom_of_def custom_new_def)
  show "reg_inv rx p"
    by (rule reg_invI) (use e uses_start [OF assms] set_ok_new in \<open>simp_all add: rm_find_def customRules_new_def [THEN arg_cong, of cr_rules]\<close>)
qed

lemma make_customs [simp]: "rm_customs (p_rm (rm_make rx rid t q p)) = rm_customs (p_rm p)"
  by (simp add: rm_make_def Let_def upd_rm_def)

lemma idCount_customs [simp]: "rm_customs (p_rm (upd_rm (\<lambda>rm. rm\<lparr>rm_idCount := f rm\<rparr>) p)) = rm_customs (p_rm p)"
  by (simp add: upd_rm_def)

lemma reg_inv_idCount': "reg_inv rx p \<Longrightarrow> reg_inv rx (upd_rm (\<lambda>rm. rm\<lparr>rm_idCount := f rm\<rparr>) p)"
  using reg_inv_idCount [of rx p "f (p_rm p)"] by (simp add: upd_rm_def)

lemma run_inv:
  assumes "ere_laws rx" and "rule_run rx p"
  shows "reg_inv rx p \<and> colors_ok p"
  using assms(2)
proof (induction rule: rule_run.induct)
  case (start p)
  then show ?case by (rule reg_inv_start)
next
  case (add p t q)
  then show ?case by (auto simp: rm_addRule_def Let_def intro!: reg_inv_idCount' reg_inv_make elim!: colors_ok_rm)
next
  case (update p rid t q)
  show ?case
  proof (cases "rm_find rid p")
    case (Some r)
    have "colors_ok (rebuild_users rx r (upd_rule r (rule_update rx t q) p))"
      using update.IH custom_of_cong [of "upd_rule r (rule_update rx t q) p" p] by (simp add: colors_ok_def custom_of_def rebuild_users_frame)
    then show ?thesis using reg_inv_update [OF assms(1) _ _ Some] update.IH Some by (simp add: rm_updateRule_def)
  qed (use update.IH in \<open>simp add: rm_updateRule_def\<close>)
next
  case (upsert p rid t q)
  show ?case
  proof (cases "rm_find rid p")
    case None
    then show ?thesis using upsert.IH
      by (auto simp: upsertRuleWithId_def Let_def intro!: reg_inv_idCount' reg_inv_make elim!: colors_ok_rm)
  next
    case (Some r)
    have "colors_ok (rebuild_users rx r (upd_rule r (rule_update rx t q) p))"
      using upsert.IH by (simp add: colors_ok_def custom_of_def rebuild_users_frame)
    then show ?thesis using reg_inv_update [OF assms(1) _ _ Some] upsert.IH Some by (simp add: upsertRuleWithId_def)
  qed
next
  case (ensure p n)
  then show ?case by (auto simp: ensureNextRuleIdAtLeast_def intro!: reg_inv_idCount' elim!: colors_ok_rm)
next
  case (remove p rid)
  have "colors_ok (rm_removeRule rx rid p)"
  proof (cases "rm_find rid p")
    case (Some r)
    then show ?thesis using remove.IH by (simp add: colors_ok_def custom_of_def removeRule_frame custom_new_def)
  qed (use remove.IH in \<open>simp add: rm_removeRule_def\<close>)
  then show ?case using reg_inv_removeRule [OF assms(1)] remove.IH by blast
next
  case (addCustom p color s rid)
  have "reg_inv rx (rm_addCustom rx s rid color True p)"
  proof (cases "rm_find rid p")
    case (Some r)
    show ?thesis
      by (rule reg_inv_add [OF assms(1) _ Some rm_addCustom_effect [OF Some]])
        (use addCustom Some in \<open>auto simp: color_free_def\<close>)
  qed (use addCustom in \<open>simp add: rm_addCustom_def\<close>)
  then show ?case using colors_ok_add addCustom by blast
next
  case (removeCustom p color s rid)
  have "reg_inv rx (rm_removeCustom rx s rid color p)"
  proof (cases "rm_find rid p")
    case (Some r)
    show ?thesis
      by (rule reg_inv_remove [OF assms(1) _ Some rm_removeCustom_effect [OF Some]])
        (use removeCustom Some in \<open>auto simp: color_free_def\<close>)
  qed (use removeCustom in \<open>simp add: rm_removeCustom_def\<close>)
  then show ?case using colors_ok_remove removeCustom by blast
next
  case (move p color s rid)
  let ?p1 = "rm_removeCustom rx s rid (opposite color) p"
  have "reg_inv rx (cmdAddCustomRule rx s rid color p)"
  proof (cases "rm_find rid p")
    case (Some r)
    have opp: "bw (opposite color)" using move by (auto simp: bw_def opposite_def)
    note rem = rm_removeCustom_effect [OF Some opp, of s rx]
    have Some': "rm_find rid ?p1 = Some r" using rem Some by (simp add: remove_effect_def rm_find_def)
    show ?thesis unfolding cmdAddCustomRule_def
      using reg_inv_move [OF assms(1) conjunct1 [OF move.IH] Some move.hyps(2) rem rm_addCustom_effect [OF Some' move.hyps(2)]] .
  next
    case None
    then show ?thesis using move by (simp add: cmdAddCustomRule_def rm_removeCustom_def rm_addCustom_def)
  qed
  then show ?case using colors_ok_add colors_ok_remove move unfolding cmdAddCustomRule_def by blast
next
  case (others p p')
  then show ?case using reg_inv_same by (auto simp: same_rules_def intro: colors_ok_rm)
qed


section \<open>Rule sets follow the registry\<close>

lemma reg_matches:
  assumes inv: "reg_inv rx p" and c: "bw c" and n: "n \<noteq> []"
  shows "cr_match (slot_rules s c p) n \<longleftrightarrow> (\<exists>r. registered p r \<and> uses s c r p \<and> rule_hits rx (p_ruleHeap p) r n)"
proof -
  have "cr_match (slot_rules s c p) n \<longleftrightarrow> (\<exists>r \<in> set (cr_rules (slot_rules s c p)). rule_hits rx (p_ruleHeap p) r n)"
    using reg_invD(4) [OF inv c, of s] n unfolding set_ok_def cr_match_def by blast
  then show ?thesis using reg_invD(5) [OF inv c, of _ s] uses_unregistered [OF inv c, of s] by blast
qed

text \<open>An engine of literal patterns with alternation, for concrete runs.\<close>

fun split_bar :: "string \<Rightarrow> string list" where
  "split_bar [] = [[]]"
| "split_bar (c # cs) = (if c = CHR ''|'' then [] # split_bar cs
     else case split_bar cs of [] \<Rightarrow> [[c]] | x # xs \<Rightarrow> (c # x) # xs)"

definition rx_lit :: regex where
  "rx_lit q = Some (\<lambda>s. s \<in> set (split_bar q))"

lemma split_bar_nonempty: "split_bar q \<noteq> []"
  by (induction q) (auto split: list.split)

lemma split_bar_append: "split_bar (a @ CHR ''|'' # b) = split_bar a @ split_bar b"
  by (induction a) (auto simp: split_bar_nonempty split: list.split)

lemma split_join_bar: "ps \<noteq> [] \<Longrightarrow> set (split_bar (join_bar ps)) = (\<Union>q \<in> set ps. set (split_bar q))"
  by (induction ps rule: join_bar.induct) (auto simp: split_bar_append)

lemma rx_lit_laws: "ere_laws rx_lit"
  by (auto simp: ere_laws_def rx_lit_def split_join_bar)

definition policy_init :: Policy where
  "policy_init = \<lparr>p_settings = \<lparr>set_blockEnabled = True, set_blockMask = 0, set_blockIface = 0, set_reverseDns = False, set_ipRulesEnabled = False\<rparr>,
     p_ruleHeap = (\<lambda>_. rule_new rx_lit R_DOMAIN 0 []), p_nextRule = 0,
     p_domHeap = (\<lambda>_. domain_new ''x'' 0), p_nextDom = 1,
     p_appHeap = (\<lambda>_. \<lparr>a_uid = 10000, a_saveFile = ''a'', a_name = ''a'', a_names = [], a_saved = True, a_stats = stats_new app_zero 0,
       a_domStats = (\<lambda>_ _. None), a_tracked = False, a_blockMask = 1, a_blockIface = 0, a_useCustomList = True,
       a_ipRulesCaps = 0, a_customBlacklist = [], a_customWhitelist = [], a_blackRules = customRules_new,
       a_whiteRules = customRules_new, a_sources = (\<lambda>_. 0, \<lambda>_. 0), a_traffic = traffic_reset\<rparr>), p_nextApp = 1,
     p_rm = \<lparr>rm_rules = [], rm_customs = (\<lambda>_. None), rm_idCount = 0\<rparr>,
     p_dm = \<lparr>dm_byName = [(''x'', 0)], dm_byIPv4 = (\<lambda>_. None), dm_byIPv6 = (\<lambda>_. None), dm_blacklist = dl_new,
       dm_whitelist = dl_new, dm_files = (\<lambda>_. None), dm_customBlacklist = [], dm_customWhitelist = [],
       dm_blackRules = customRules_new, dm_whiteRules = customRules_new, dm_anonymousDom = 0, dm_sources = metrics_new\<rparr>,
     p_am = \<lparr>am_stats = stats_new app_zero 0, am_byUid = [], am_byName = [], am_files = (\<lambda>_. None)\<rparr>\<rparr>"


lemma policy_init_start: "policy_start policy_init"
  by (auto simp: policy_start_def policy_init_def slot_rules_def dm_customRules_def app_customRules_def split: option.split)

text \<open>A rule that blocks \<open>x\<close> for the whole device.\<close>

definition policy_rule :: Policy where
  "policy_rule = snd (rm_addRule rx_lit R_DOMAIN ''x'' policy_init)"

definition policy_black :: Policy where
  "policy_black = rm_addCustom rx_lit None 0 BLACK True policy_rule"

lemma policy_rule_fields:
  "p_rm policy_rule = \<lparr>rm_rules = [(0, 0)], rm_customs = (\<lambda>_. None), rm_idCount = 1\<rparr>"
  "p_ruleHeap policy_rule 0 = rule_new rx_lit R_DOMAIN 0 ''x''"
  "dm_whiteRules (p_dm policy_rule) = customRules_new" "dm_blackRules (p_dm policy_rule) = customRules_new"
  "dm_customWhitelist (p_dm policy_rule) = []" "dm_customBlacklist (p_dm policy_rule) = []"
  by (simp_all add: policy_rule_def policy_init_def rm_addRule_def rm_make_def upd_rm_def omap_emplace_def Let_def)

lemma rule_x: "ru_id (rule_new rx_lit t i q) = i" "ru_valid (rule_new rx_lit t i q)"
  "ru_regex (rule_new rx_lit R_DOMAIN i q) = q"
  by (simp_all add: rule_new_def rule_create_def rx_lit_def Let_def)

lemma policy_rule_find: "rm_find 0 policy_rule = Some 0"
  by (simp add: rm_find_def policy_rule_fields)

lemma policy_rule_run: "rule_run rx_lit policy_rule"
  unfolding policy_rule_def by (rule rule_run.add [OF rule_run.start [OF policy_init_start]])

lemma policy_black_run: "rule_run rx_lit policy_black"
  unfolding policy_black_def
proof (rule rule_run.addCustom [OF policy_rule_run])
  show "color_free None 0 BLACK policy_rule"
    by (simp add: color_free_def policy_rule_find) (simp add: custom_of_def policy_rule_fields custom_new_def)
qed simp

lemma policy_black_fields:
  "p_rm policy_black = \<lparr>rm_rules = [(0, 0)], rm_customs = [0 \<mapsto> custom_new\<lparr>cu_color := BLACK\<rparr>], rm_idCount = 1\<rparr>"
  "p_ruleHeap policy_black 0 = rule_new rx_lit R_DOMAIN 0 ''x''"
  "dm_whiteRules (p_dm policy_black) = customRules_new" "dm_blackRules (p_dm policy_black) = cr_add rx_lit (p_ruleHeap policy_rule) 0 True customRules_new"
  "dm_customWhitelist (p_dm policy_black) = []" "dm_customBlacklist (p_dm policy_black) = []"
  "p_appHeap policy_black = p_appHeap policy_rule" "p_domHeap policy_black = p_domHeap policy_rule"
  "p_settings policy_black = p_settings policy_rule"
  by (simp_all add: policy_black_def rm_addCustom_def policy_rule_find dm_addCustomRule_def upd_dm_def dm_onRules_def frame_defs
      custom_of_def policy_rule_fields Let_def)

lemma policy_black_rules:
  "custom_of 0 policy_black = custom_new\<lparr>cu_color := BLACK\<rparr>" "rm_find 0 policy_black = Some 0" "registered policy_black 0"
  unfolding registered_def by (auto simp: custom_of_def rm_find_def policy_black_fields)

text \<open>C10. In every state reached by creating, changing, numbering and removing pattern rules and by adding them to and
  removing them from rule sets - a device-wide rule only to and from the colour the registry has for it or through the
  command that leaves the other colour first -, the compiled rule set of the device or an app of a colour matches a
  (non-empty) name exactly when a registered rule that the registry assigns to this set matches it. So a removed or
  changed rule leaves no trace and no rule set is stale.\<close>

theorem rule_sets_follow_registry:
  assumes "ere_laws rx" and "rule_run rx p" and "bw c" and "n \<noteq> []"
  shows "cr_match (slot_rules s c p) n \<longleftrightarrow> (\<exists>r. registered p r \<and> uses s c r p \<and> rule_hits rx (p_ruleHeap p) r n)"
  using reg_matches [OF conjunct1 [OF run_inv [OF assms(1,2)]] assms(3,4)] .

theorem rule_sets_follow_registry_witness: "cr_match (dm_blackRules (p_dm policy_black)) ''x''"
proof -
  have "uses None BLACK 0 policy_black" by (simp add: uses_def policy_black_rules)
  moreover have "rule_hits rx_lit (p_ruleHeap policy_black) 0 ''x''" by (simp add: rule_hits_def policy_black_fields rule_x) (simp add: rx_lit_def)
  ultimately have "cr_match (slot_rules None BLACK policy_black) ''x''"
    using rule_sets_follow_registry [OF rx_lit_laws policy_black_run, of BLACK "''x''" None] policy_black_rules(3) bw_simps(1) by blast
  then show ?thesis by (simp add: slot_rules_def dm_customRules_def)
qed

text \<open>The state after \<^verbatim>\<open>DOMAINPOLICY.APPLY\<close> asks for the rule to allow instead.\<close>

lemma moved:
  defines "w \<equiv> rm_addCustom rx_lit None 0 WHITE True policy_black"
  defines "p \<equiv> domainpolicy_apply_rules rx_lit None [0] [] policy_black"
  shows "p = rm_removeCustom rx_lit None 0 BLACK w" and "rm_find 0 w = Some 0" and "custom_of 0 w = custom_new\<lparr>cu_color := WHITE\<rparr>"
    and "rm_find 0 p = Some 0" and "custom_of 0 p = custom_new" and "p_ruleHeap p = p_ruleHeap policy_black"
    and "dm_whiteRules (p_dm p) = cr_add rx_lit (p_ruleHeap policy_black) 0 True customRules_new" and "rm_customs (p_rm p) 0 = None"
proof -
  note add = w_def rm_addCustom_def policy_black_rules dm_addCustomRule_def frame_defs dm_onRules_def Let_def
  show find: "rm_find 0 w = Some 0" by (simp add: add) (simp add: rm_find_def policy_black_fields)
  show custom: "custom_of 0 w = custom_new\<lparr>cu_color := WHITE\<rparr>" by (simp add: add) (simp add: custom_of_def)
  have w: "dm_whiteRules (p_dm w) = cr_add rx_lit (p_ruleHeap policy_black) 0 True customRules_new"
    "p_ruleHeap w = p_ruleHeap policy_black" "rm_rules (p_rm w) = [(0, 0)]" "dm_blackRules (p_dm w) = dm_blackRules (p_dm policy_black)"
    by (simp_all add: add policy_black_fields)
  have allow: "applyRules rx_lit None WHITE [0] policy_black = w"
    by (simp add: applyRules_def current_rules_def dm_customRules_def snapshotRuleIds_def policy_black_fields customRules_new_def
        Let_def w_def)
  show p: "p = rm_removeCustom rx_lit None 0 BLACK w"
    by (simp add: p_def domainpolicy_apply_rules_def allow)
       (simp add: applyRules_def current_rules_def dm_customRules_def snapshotRuleIds_def w policy_black_fields rule_x Let_def cr_add_def set_insert_def customRules_new_def)
  note rem = p rm_removeCustom_def find custom dm_removeCustomRule_def frame_defs dm_onRules_def Let_def
  show "rm_find 0 p = Some 0" by (simp add: rem custom_new_def) (simp add: rm_find_def w)
  show "custom_of 0 p = custom_new" "rm_customs (p_rm p) 0 = None" by (simp_all add: rem custom_new_def) (simp add: custom_of_def custom_new_def)
  show "p_ruleHeap p = p_ruleHeap policy_black" "dm_whiteRules (p_dm p) = cr_add rx_lit (p_ruleHeap policy_black) 0 True customRules_new"
    by (simp_all add: rem w custom_new_def)
qed


section \<open>The evaluations agree\<close>

lemma cap_None_hd: "(fst (capCandidateSnapshots f None s) = [] \<longleftrightarrow> s = []) \<and> (s \<noteq> [] \<longrightarrow> hd (fst (capCandidateSnapshots f None s)) = hd s)"
proof -
  obtain out tr om where e: "capCandidateSnapshots f None s = (out, tr, om)" by (metis prod_cases3)
  note c = cap_spec [OF e]
  have "hd out = hd (take 63 out)" "hd s = hd (take 63 s)" if "s \<noteq> []" by simp_all
  then show ?thesis using c e by (cases out; cases s) auto
qed

lemma find_filter_hd: "find P xs = (case filter P xs of [] \<Rightarrow> None | x # _ \<Rightarrow> Some x)"
  by (induction xs) auto

text \<open>The attribution of a set that follows the registry: the matching entries, and each is known to the registry.\<close>

lemma attrib_matching:
  assumes inv: "reg_inv rx p" and c: "bw c" and e: "e \<in> set (cr_attribSnap (slot_rules s c p))"
  shows "\<exists>r. rm_find (fst e) p = Some r \<and> ru_id (p_ruleHeap p r) = fst e \<and> rx (ru_regex (p_ruleHeap p r)) = Some (snd e) \<and>
    r \<in> set (cr_rules (slot_rules s c p))"
proof -
  have "e \<in> set (attrib_entries rx (p_ruleHeap p) (cr_rules (slot_rules s c p)))"
    using e reg_invD(4) [OF inv c, of s] by (simp add: set_ok_def attrib_of_def)
  then obtain r m where r: "r \<in> set (cr_rules (slot_rules s c p))" "rx (ru_regex (p_ruleHeap p r)) = Some m" "e = (ru_id (p_ruleHeap p r), m)"
    by (auto simp: attrib_entries_def split: option.splits)
  then obtain i where "rm_find i p = Some r" using slot_valid [OF inv c] unfolding registered_def by blast
  then show ?thesis using r reg_invD(2) [OF inv] by auto
qed

lemma match_attrib:
  assumes inv: "reg_inv rx p" and c: "bw c" and n: "n \<noteq> []"
  shows "cr_match (slot_rules s c p) n \<longleftrightarrow> filter (\<lambda>e. snd e n) (cr_attribSnap (slot_rules s c p)) \<noteq> []"
proof -
  let ?cr = "slot_rules s c p"
  note ok = reg_invD(4) [OF inv c, of s, unfolded set_ok_def]
  have "cr_match ?cr n \<longleftrightarrow> (\<exists>r \<in> set (cr_rules ?cr). rule_hits rx (p_ruleHeap p) r n)" using ok n unfolding cr_match_def by blast
  also have "\<dots> \<longleftrightarrow> (\<exists>e \<in> set (cr_attribSnap ?cr). snd e n)"
  proof -
    have "set (cr_attribSnap ?cr) = (\<Union>r \<in> set (cr_rules ?cr). case rx (ru_regex (p_ruleHeap p r)) of None \<Rightarrow> {} | Some m \<Rightarrow> {(ru_id (p_ruleHeap p r), m)})"
      using ok unfolding attrib_of_def attrib_entries_def
      by (simp, intro SUP_cong refl) (simp split: option.split)
    then show ?thesis unfolding rule_hits_def by (force split: option.splits)
  qed
  finally show ?thesis by (simp add: filter_empty_conv)
qed

lemma rule_snapshots_ids:
  assumes inv: "reg_inv rx p" and c: "bw c"
  shows "map drs_ruleId (rule_snapshots p sc ac n (cr_attribSnap (slot_rules s c p))) =
    map fst (filter (\<lambda>e. snd e n) (cr_attribSnap (slot_rules s c p)))"
proof -
  have "map drs_ruleId (rule_snapshots p sc ac n es) = map fst (filter (\<lambda>e. snd e n) es)"
    if "\<forall>e \<in> set es. \<exists>r. rm_find (fst e) p = Some r \<and> ru_id (p_ruleHeap p r) = fst e" for es
    using that by (induction es) (auto simp: rule_snapshots_def)
  then show ?thesis using attrib_matching [OF inv c] by blast
qed

lemma cr_matching_first:
  assumes inv: "reg_inv rx p" and c: "bw c" and n: "name_of p d \<noteq> []"
    and cr_def: "cr = slot_rules s c p"
  shows "fst (cr_matching p (Some d) sc ac None cr) \<noteq> [] \<longleftrightarrow> cr_match cr (name_of p d)"
    and "cr_match cr (name_of p d) \<longrightarrow>
      Some (drs_ruleId (hd (fst (cr_matching p (Some d) sc ac None cr)))) = matchFirstRuleId cr (name_of p d)"
proof -
  let ?n = "name_of p d" and ?es = "cr_attribSnap cr"
  define rs where "rs = rule_snapshots p sc ac ?n ?es"
  have ids: "map drs_ruleId rs = map fst (filter (\<lambda>e. snd e ?n) ?es)" using rule_snapshots_ids [OF inv c] by (simp add: rs_def cr_def)
  have "sorted (map fst ?es)"
    using reg_invD(4) [OF inv c, of s] by (simp add: cr_def set_ok_def attrib_of_def std_sort_eq_sort_key [of fst])
  then have "sorted (map drs_ruleId rs)" unfolding ids by (rule sorted_filter)
  then have sort: "std_sort (\<lambda>a b. drs_ruleId a < drs_ruleId b) rs = rs"
    unfolding std_sort_eq_sort_key [of drs_ruleId] by (rule sort_key_id_if_sorted)
  have m: "fst (cr_matching p (Some d) sc ac None cr) = (if ?es = [] then [] else fst (capCandidateSnapshots drs_ruleId None rs))"
    by (simp add: cr_matching_def sort rs_def [symmetric])
  have nil: "rs = [] \<longleftrightarrow> filter (\<lambda>e. snd e ?n) ?es = []" using ids by (metis Nil_is_map_conv)
  show first: "fst (cr_matching p (Some d) sc ac None cr) \<noteq> [] \<longleftrightarrow> cr_match cr ?n"
    unfolding cr_def match_attrib [OF inv c n] using m nil cap_None_hd [of drs_ruleId rs] by (auto simp: cr_def)
  show "cr_match cr ?n \<longrightarrow> Some (drs_ruleId (hd (fst (cr_matching p (Some d) sc ac None cr)))) = matchFirstRuleId cr ?n"
  proof
  assume match: "cr_match cr ?n"
  then have ne: "filter (\<lambda>e. snd e ?n) ?es \<noteq> []" using match_attrib [OF inv c n] by (simp add: cr_def)
  then have "hd (fst (cr_matching p (Some d) sc ac None cr)) = hd rs" using m nil cap_None_hd [of drs_ruleId rs] by auto
  moreover have "drs_ruleId (hd rs) = fst (hd (filter (\<lambda>e. snd e ?n) ?es))" using ids ne nil by (metis list.map_sel(1))
  ultimately show "Some (drs_ruleId (hd (fst (cr_matching p (Some d) sc ac None cr)))) = matchFirstRuleId cr ?n"
    using ne by (auto simp: matchFirstRuleId_def find_filter_hd split: list.splits)
  qed
qed

text \<open>What a stage does to the decision: a stage that is enabled and matches decides, unless one before it has.\<close>

definition decision :: "DebugState \<Rightarrow> (bool \<times> DomainPolicySource \<times> u32 option) \<times> bool" where
  "decision st = ((db_blocked st, db_source st, db_ruleId st), db_short st)"

definition decide_stage :: "bool \<Rightarrow> bool \<Rightarrow> 'v \<Rightarrow> 'v \<times> bool \<Rightarrow> 'v \<times> bool" where
  "decide_stage en matched v x = (if en \<and> \<not> snd x \<and> matched then (v, True) else x)"

lemma decide_stage_simps [simp]:
  "decide_stage en False v x = x" "decide_stage False m v x = x" "decide_stage True True v (w, False) = (v, True)" "decide_stage en m v (w, True) = (w, True)"
  by (simp_all add: decide_stage_def)

lemma decision_run_stage:
  "decision (run_stage nm en les rs ac src b st) =
     decide_stage en (les \<noteq> [] \<or> fst rs \<noteq> []) (b, src, if les = [] then Some (drs_ruleId (hd (fst rs))) else None) (decision st)"
  by (auto simp: decide_stage_def decision_def run_stage_def Let_def fill_stage_def setDecision_def appendStage_def stage_new_def firstRuleId_def
      split: list.split)

lemma decision_mask_stage:
  "decision (mask_stage en dm am st) = decide_stage en True (am AND dm \<noteq> 0, MASK_FALLBACK, None) (decision st)"
  by (auto simp: decide_stage_def decision_def mask_stage_def Let_def setDecision_def appendStage_def stage_new_def)

lemma ucast_and_zero: "(ucast (a :: u8) AND ucast b :: u32) = 0 \<longleftrightarrow> a AND b = 0"
proof -
  have "(ucast a AND ucast b :: u32) = ucast (a AND b)" by (simp add: bit_eq_iff bit_simps) 
  moreover have "ucast (a AND b) = (0 :: u32) \<longleftrightarrow> a AND b = 0" by transfer simp
  ultimately show ?thesis by simp
qed

text \<open>The stages of the explained evaluation, as decisions in order.\<close>

definition app_stages :: "Policy \<Rightarrow> addr \<Rightarrow> addr \<Rightarrow> bool \<Rightarrow> (bool \<times> DomainPolicySource \<times> u32 option) \<times> bool" where
  "app_stages p app d en =
     (let a = p_appHeap p app; n = name_of p d; custom = (en \<and> a_useCustomList a) in
      decide_stage en True (a_blockMask a AND do_blockMask (p_domHeap p d) \<noteq> 0, MASK_FALLBACK, None)
     (decide_stage custom (d \<in> set (dm_customBlacklist (p_dm p)) \<or> cr_match (dm_blackRules (p_dm p)) n)
        (True, DOMAIN_DEVICE_WIDE_BLOCKED, if d \<in> set (dm_customBlacklist (p_dm p)) then None else matchFirstRuleId (dm_blackRules (p_dm p)) n)
     (decide_stage custom (d \<in> set (dm_customWhitelist (p_dm p)) \<or> cr_match (dm_whiteRules (p_dm p)) n)
        (False, DOMAIN_DEVICE_WIDE_AUTHORIZED, if d \<in> set (dm_customWhitelist (p_dm p)) then None else matchFirstRuleId (dm_whiteRules (p_dm p)) n)
     (decide_stage custom (cr_match (a_blackRules a) n) (True, CUSTOM_RULE_BLACK, matchFirstRuleId (a_blackRules a) n)
     (decide_stage custom (cr_match (a_whiteRules a) n) (False, CUSTOM_RULE_WHITE, matchFirstRuleId (a_whiteRules a) n)
     (decide_stage custom (d \<in> set (a_customBlacklist a)) (True, CUSTOM_BLACKLIST, None)
     (decide_stage custom (d \<in> set (a_customWhitelist a)) (False, CUSTOM_WHITELIST, None)
        ((False, MASK_FALLBACK, None), False))))))))"

lemma decide_stage_cong: "m = m' \<Longrightarrow> (m' \<Longrightarrow> v = v') \<Longrightarrow> x = x' \<Longrightarrow> decide_stage en m v x = decide_stage en m' v' x'"
  by (auto simp: decide_stage_def)

lemma list_stage_cong:
  "decide_stage en (cl_matching p (Some d) sc ac l \<noteq> [] \<or> fst no_rules \<noteq> []) (b, src, if cl_matching p (Some d) sc ac l = [] then q else None) x =
   decide_stage en (d \<in> set l) (b, src, None) x"
  by (auto simp: cl_matching_def no_rules_def intro!: decide_stage_cong)

lemma both_stage_cong:
  assumes "fst rs \<noteq> [] \<longleftrightarrow> m" and "m \<longrightarrow> Some (drs_ruleId (hd (fst rs))) = v"
  shows "decide_stage en (cl_matching p (Some d) sc ac l \<noteq> [] \<or> fst rs \<noteq> [])
      (b, src, if cl_matching p (Some d) sc ac l = [] then Some (drs_ruleId (hd (fst rs))) else None) x =
    decide_stage en (d \<in> set l \<or> m) (b, src, if d \<in> set l then None else v) x"
  using assms by (auto simp: cl_matching_def intro!: decide_stage_cong)

lemma rule_stage_cong:
  assumes "fst rs \<noteq> [] \<longleftrightarrow> m" and "m \<longrightarrow> Some (drs_ruleId (hd (fst rs))) = v"
  shows "decide_stage en ([] \<noteq> ([] :: 'a list) \<or> fst rs \<noteq> []) (b, src, if [] = ([] :: 'a list) then Some (drs_ruleId (hd (fst rs))) else None) x =
    decide_stage en m (b, src, v) x"
  using assms by (auto intro!: decide_stage_cong)

lemma debug_stages:
  assumes inv: "reg_inv rx p" and n: "name_of p d \<noteq> []" and r: "r = evaluateDomainPolicyDebug p app (Some d) en getBlackIPs"
  shows "(dr_blocked r, dr_source r, dr_ruleId r) = fst (app_stages p app d en)"
proof -
  have slots: "a_whiteRules (p_appHeap p app) = slot_rules (Some app) WHITE p" "a_blackRules (p_appHeap p app) = slot_rules (Some app) BLACK p"
    "dm_whiteRules (p_dm p) = slot_rules None WHITE p" "dm_blackRules (p_dm p) = slot_rules None BLACK p"
    by (simp_all add: slot_rules_def app_customRules_def dm_customRules_def)
  note aw = cr_matching_first [OF inv bw_simps(2) n slots(1)] and ab = cr_matching_first [OF inv bw_simps(1) n slots(2)]
   and dw = cr_matching_first [OF inv bw_simps(2) n slots(3)] and db = cr_matching_first [OF inv bw_simps(1) n slots(4)]
  have dec: "(db_blocked st, db_source st, db_ruleId st) = fst (decision st)" for st by (simp add: decision_def)
  have start: "decision \<lparr>db_blocked = False, db_source = MASK_FALLBACK, db_ruleId = None, db_short = False, db_stages = []\<rparr> =
    ((False, MASK_FALLBACK, None), False)" by (simp add: decision_def)
  show ?thesis
    unfolding r evaluateDomainPolicyDebug_def Let_def DebugResult.simps dec app_stages_def decision_run_stage decision_mask_stage start
      list_stage_cong rule_stage_cong [OF aw] rule_stage_cong [OF ab] both_stage_cong [OF dw] both_stage_cong [OF db] ucast_and_zero option.case
    by (rule refl)
qed

lemma blocked_stages:
  assumes "set_blockEnabled (p_settings p) = en" and b: "b = blockedWithSourceAndRuleId p app (Some d)"
  shows "(bs_blocked b, bs_source b, bs_ruleId b) = fst (app_stages p app d en)"
proof (cases "en \<and> a_useCustomList (p_appHeap p app)")
  case False
  then show ?thesis using assms by (cases en) (simp_all add: blockedWithSourceAndRuleId_def app_stages_def Let_def)
next
  case True
  let ?a = "p_appHeap p app" and ?n = "name_of p d"
  note defs = blockedWithSourceAndRuleId_def app_stages_def Let_def dm_authorized_def dm_blocked_def authorizedRuleId_def blockedRuleId_def
  consider "d \<in> set (a_customWhitelist ?a)"
    | "d \<notin> set (a_customWhitelist ?a)" "d \<in> set (a_customBlacklist ?a)"
    | "d \<notin> set (a_customWhitelist ?a)" "d \<notin> set (a_customBlacklist ?a)" "cr_match (a_whiteRules ?a) ?n"
    | "d \<notin> set (a_customWhitelist ?a)" "d \<notin> set (a_customBlacklist ?a)" "\<not> cr_match (a_whiteRules ?a) ?n" "cr_match (a_blackRules ?a) ?n"
    | "d \<notin> set (a_customWhitelist ?a)" "d \<notin> set (a_customBlacklist ?a)" "\<not> cr_match (a_whiteRules ?a) ?n" "\<not> cr_match (a_blackRules ?a) ?n"
    by blast
  then show ?thesis
  proof cases
    case 5
    then show ?thesis using True assms
      by (cases "cr_match (dm_whiteRules (p_dm p)) ?n"; cases "cr_match (dm_blackRules (p_dm p)) ?n") (simp_all add: defs)
  qed (use True assms in \<open>simp_all add: defs\<close>)
qed


end
