(* ===== verification/DomainOps.thy ===== *)
theory DomainOps
  imports DomainGuarantees
begin

text \<open>
  The registry of domains (\<^verbatim>\<open>src/src/DomainManager.cpp\<close>, \<^verbatim>\<open>DomainManager.hpp\<close>, \<^verbatim>\<open>Domain.cpp\<close>): domains by name and by
  address, their colour and mask from the domain lists, the custom domains of the device and of the apps, and the
  operations on the domain lists. The clock (\<open>now\<close>, \<open>today\<close>) and the failures of the file system are arguments.
\<close>

section \<open>Domains by name\<close>

definition dm_find :: "string \<Rightarrow> Policy \<Rightarrow> addr option" where
  "dm_find name p = map_of (dm_byName (p_dm p)) name"

text \<open>\<^verbatim>\<open>try_emplace(name, std::make_shared<Domain>(name))\<close>: the object is made in any case.\<close>

definition dm_create :: "int \<Rightarrow> string \<Rightarrow> Policy \<Rightarrow> addr \<times> Policy" where
  "dm_create today name p =
     (let a = p_nextDom p;
          p1 = p\<lparr>p_domHeap := (p_domHeap p)(a := domain_new name today), p_nextDom := a + 1\<rparr>
      in case dm_find name p of
           Some d \<Rightarrow> (d, p1)
         | None \<Rightarrow> (a, upd_dm (\<lambda>m. m\<lparr>dm_byName := dm_byName m @ [(name, a)]\<rparr>) p1))"

text \<open>\<^verbatim>\<open>blockMask\<close> of a list; the search always ends (\<open>blockMask_search\<close>).\<close>

definition list_mask :: "DomainList \<Rightarrow> string \<Rightarrow> u8" where
  "list_mask dl name = (case dl_blockMask dl name of Some m \<Rightarrow> m | None \<Rightarrow> 0)"

definition standardListBit :: u8 where "standardListBit = 1"
definition reinforcedListBit :: u8 where "reinforcedListBit = 8"
definition customListBit :: u8 where "customListBit = 128"

definition domain_class :: "DomainList \<Rightarrow> DomainList \<Rightarrow> string \<Rightarrow> Color \<times> u8" where
  "domain_class blacklist whitelist name =
     (if list_mask whitelist name = 0 then
        let m = list_mask blacklist name in
        (if m AND standardListBit \<noteq> 0 then BLACK else if m AND reinforcedListBit \<noteq> 0 then WHITE else GREY, m)
      else (GREY, 0))"

definition initDomain :: "addr \<Rightarrow> Policy \<Rightarrow> Policy" where
  "initDomain d p =
     (let (cs, m) = domain_class (dm_blacklist (p_dm p)) (dm_whitelist (p_dm p)) (name_of p d)
      in upd_domain d (\<lambda>x. x\<lparr>do_color := cs, do_blockMask := m\<rparr>) p)"

definition dm_make :: "int \<Rightarrow> string \<Rightarrow> Policy \<Rightarrow> addr \<times> Policy" where
  "dm_make today name p =
     (let (d, p1) = (case dm_find name p of Some d \<Rightarrow> (d, p) | None \<Rightarrow> dm_create today name p)
      in (d, initDomain d p1))"

definition fixDomainsColors :: "Policy \<Rightarrow> Policy" where
  "fixDomainsColors p = fold (\<lambda>e. initDomain (snd e)) (dm_byName (p_dm p)) p"

section \<open>Domains by address\<close>

definition maxAgeIP :: int where "maxAgeIP = 14400"

definition validIP :: "int \<Rightarrow> Domain \<Rightarrow> bool" where
  "validIP now d \<longleftrightarrow> now - do_timestampIP d \<le> maxAgeIP"

definition dom_updateStats :: "int \<Rightarrow> StatType \<Rightarrow> Block \<Rightarrow> u64 \<Rightarrow> Domain \<Rightarrow> Domain" where
  "dom_updateStats today ts bs val d = d\<lparr>do_stats := domstats_update today ts bs val (do_stats d)\<rparr>"

definition clearIPs :: "Domain \<Rightarrow> Domain" where
  "clearIPs d = d\<lparr>do_ipv4 := [], do_ipv6 := []\<rparr>"

definition dm_byIP :: "bool \<Rightarrow> DomainManager \<Rightarrow> u8 list \<Rightarrow> addr option" where
  "dm_byIP v4 m = (if v4 then dm_byIPv4 m else dm_byIPv6 m)"

definition dm_onIP :: "bool \<Rightarrow> ((u8 list \<Rightarrow> addr option) \<Rightarrow> u8 list \<Rightarrow> addr option) \<Rightarrow> DomainManager \<Rightarrow> DomainManager" where
  "dm_onIP v4 f m = (if v4 then m\<lparr>dm_byIPv4 := f (dm_byIPv4 m)\<rparr> else m\<lparr>dm_byIPv6 := f (dm_byIPv6 m)\<rparr>)"

definition dm_findIP :: "bool \<Rightarrow> u8 list \<Rightarrow> Policy \<Rightarrow> addr option" where
  "dm_findIP v4 ip p = dm_byIP v4 (p_dm p) ip"

definition try_emplace_ip :: "u8 list \<Rightarrow> addr \<Rightarrow> (u8 list \<Rightarrow> addr option) \<Rightarrow> u8 list \<Rightarrow> addr option" where
  "try_emplace_ip ip d f = (case f ip of None \<Rightarrow> f(ip \<mapsto> d) | Some _ \<Rightarrow> f)"

definition dm_addIP :: "bool \<Rightarrow> addr \<Rightarrow> u8 list \<Rightarrow> Policy \<Rightarrow> Policy" where
  "dm_addIP v4 d ip = upd_dm (dm_onIP v4 (try_emplace_ip ip d))"

definition withAddedIPLocked :: "int \<Rightarrow> bool \<Rightarrow> u8 list \<Rightarrow> Domain \<Rightarrow> Domain" where
  "withAddedIPLocked now v4 ip d =
     (let d1 = d\<lparr>do_timestampIP := now\<rparr> in
      if v4 then d1\<lparr>do_ipv4 := set_insert ip (do_ipv4 d)\<rparr> else d1\<lparr>do_ipv6 := set_insert ip (do_ipv6 d)\<rparr>)"

definition addIPBoth :: "int \<Rightarrow> bool \<Rightarrow> addr \<Rightarrow> u8 list \<Rightarrow> Policy \<Rightarrow> Policy" where
  "addIPBoth now v4 d ip p = dm_addIP v4 d ip (upd_domain d (withAddedIPLocked now v4 ip) p)"

definition erase_ips :: "u8 list list \<Rightarrow> (u8 list \<Rightarrow> addr option) \<Rightarrow> u8 list \<Rightarrow> addr option" where
  "erase_ips ips f = fold (\<lambda>ip g. g(ip := None)) ips f"

definition removeIPs :: "addr \<Rightarrow> Policy \<Rightarrow> Policy" where
  "removeIPs d p =
     (let x = p_domHeap p d in
      upd_domain d (\<lambda>x. x\<lparr>do_ipv4 := [], do_ipv6 := []\<rparr>)
        (upd_dm (\<lambda>m. dm_onIP False (erase_ips (do_ipv6 x)) (dm_onIP True (erase_ips (do_ipv4 x)) m)) p))"

section \<open>Custom domains\<close>

definition dm_addCustomDomain :: "int \<Rightarrow> string \<Rightarrow> Color \<Rightarrow> Policy \<Rightarrow> Policy" where
  "dm_addCustomDomain today name color p =
     (let (d, p1) = dm_make today name p in upd_dm (dm_onList color (set_insert d)) p1)"

definition dm_removeCustomDomain :: "string \<Rightarrow> Color \<Rightarrow> Policy \<Rightarrow> Policy" where
  "dm_removeCustomDomain name color p =
     (case dm_find name p of
        None \<Rightarrow> p
      | Some d \<Rightarrow> upd_dm (dm_onList color (filter (\<lambda>x. x \<noteq> d))) p)"

definition app_addCustomDomain :: "int \<Rightarrow> addr \<Rightarrow> string \<Rightarrow> Color \<Rightarrow> Policy \<Rightarrow> Policy" where
  "app_addCustomDomain today app name color p =
     (let (d, p1) = dm_make today name (upd_app app (\<lambda>a. a\<lparr>a_saved := False\<rparr>) p)
      in upd_app app (app_onList color (set_insert d)) p1)"

definition app_removeCustomDomain :: "addr \<Rightarrow> string \<Rightarrow> Color \<Rightarrow> Policy \<Rightarrow> Policy" where
  "app_removeCustomDomain app name color p =
     (let p1 = upd_app app (\<lambda>a. a\<lparr>a_saved := False\<rparr>) p in
      case dm_find name p1 of
        None \<Rightarrow> p1
      | Some d \<Rightarrow> upd_app app (app_onList color (filter (\<lambda>x. x \<noteq> d))) p1)"

definition custom_domains :: "addr option \<Rightarrow> Color \<Rightarrow> Policy \<Rightarrow> addr list" where
  "custom_domains app color p =
     (case app of None \<Rightarrow> dm_customList color (p_dm p) | Some a \<Rightarrow> app_customList color (p_appHeap p a))"

definition snapshotCustomDomains :: "addr option \<Rightarrow> Color \<Rightarrow> Policy \<Rightarrow> string list" where
  "snapshotCustomDomains app color p = map (name_of p) (custom_domains app color p)"

definition addCustomDomain :: "int \<Rightarrow> addr option \<Rightarrow> string \<Rightarrow> Color \<Rightarrow> Policy \<Rightarrow> Policy" where
  "addCustomDomain today app name color =
     (case app of None \<Rightarrow> dm_addCustomDomain today name color | Some a \<Rightarrow> app_addCustomDomain today a name color)"

definition removeCustomDomain :: "addr option \<Rightarrow> string \<Rightarrow> Color \<Rightarrow> Policy \<Rightarrow> Policy" where
  "removeCustomDomain app name color =
     (case app of None \<Rightarrow> dm_removeCustomDomain name color | Some a \<Rightarrow> app_removeCustomDomain a name color)"

text \<open>\<^verbatim>\<open>applyDomains\<close> of \<^verbatim>\<open>DOMAINPOLICY.APPLY\<close>, and the whole command after its arguments are checked.\<close>

definition applyDomains :: "int \<Rightarrow> addr option \<Rightarrow> Color \<Rightarrow> string list \<Rightarrow> Policy \<Rightarrow> Policy" where
  "applyDomains today app color desired p =
     (let current = snapshotCustomDomains app color p;
          p1 = fold (\<lambda>d. removeCustomDomain app d color) (filter (\<lambda>d. d \<notin> set desired) current) p
      in fold (\<lambda>d. addCustomDomain today app d color) (filter (\<lambda>d. d \<notin> set current) (remdups desired)) p1)"

definition domainpolicy_apply ::
  "regex \<Rightarrow> int \<Rightarrow> addr option \<Rightarrow> string list \<Rightarrow> u32 list \<Rightarrow> string list \<Rightarrow> u32 list \<Rightarrow> Policy \<Rightarrow> Policy" where
  "domainpolicy_apply rx today app allowDomains allowRuleIds blockDomains blockRuleIds p =
     domainpolicy_apply_rules rx app allowRuleIds blockRuleIds
       (applyDomains today app BLACK blockDomains (applyDomains today app WHITE allowDomains p))"

section \<open>Domain lists\<close>

definition snapshotDomainListContents :: "string \<Rightarrow> Color \<Rightarrow> Policy \<Rightarrow> string list" where
  "snapshotDomainListContents listId color p =
     map fst (dl_get (if color = BLACK then dm_blacklist (p_dm p) else dm_whitelist (p_dm p)) listId)"

text \<open>An operation on the list of a colour and the files; other colours have no list (\<open>default\<close>).\<close>

definition dm_onDomainList :: "Color \<Rightarrow> 'r \<Rightarrow> (DomainList \<times> Files \<Rightarrow> 'r \<times> DomainList \<times> Files) \<Rightarrow> Policy \<Rightarrow> 'r \<times> Policy" where
  "dm_onDomainList color none f p =
     (let m = p_dm p in
      if color = BLACK then
        let (r, dl, fs) = f (dm_blacklist m, dm_files m) in (r, p\<lparr>p_dm := m\<lparr>dm_blacklist := dl, dm_files := fs\<rparr>\<rparr>)
      else if color = WHITE then
        let (r, dl, fs) = f (dm_whitelist m, dm_files m) in (r, p\<lparr>p_dm := m\<lparr>dm_whitelist := dl, dm_files := fs\<rparr>\<rparr>)
      else (none, p))"

record BlockingList =
  bl_id :: string
  bl_name :: string
  bl_url :: string
  bl_color :: Color
  bl_blockMask :: u8
  bl_updatedAt :: int
  bl_outdated :: bool
  bl_etag :: string
  bl_enabled :: bool
  bl_domainsCount :: u32

definition dm_start :: "IoFaults \<Rightarrow> BlockingList list \<Rightarrow> Policy \<Rightarrow> Policy" where
  "dm_start io = fold (\<lambda>bl p. snd
     (if bl_enabled bl
      then dm_onDomainList (bl_color bl) () (\<lambda>(dl, fs). ((), dl_read (bl_id bl) (bl_blockMask bl) fs dl, fs)) p
      else dm_onDomainList (bl_color bl) () (\<lambda>st. ((), snd (dl_disable (bl_id bl) io st))) p))"

definition addDomainsToList :: "IoFaults \<Rightarrow> string \<Rightarrow> u8 \<Rightarrow> bool \<Rightarrow> string list \<Rightarrow> Color \<Rightarrow> Policy \<Rightarrow> u32 \<times> Policy" where
  "addDomainsToList io listId m clear domains color = dm_onDomainList color 0 (dl_write listId domains m clear io)"

definition importDomainsToListAtomic ::
  "IoFaults \<Rightarrow> string \<Rightarrow> string \<Rightarrow> u8 \<Rightarrow> bool \<Rightarrow> string list \<Rightarrow> Color \<Rightarrow> bool \<Rightarrow> Policy \<Rightarrow> ImportResult \<times> Policy" where
  "importDomainsToListAtomic io now listId m clear domains color enabled =
     dm_onDomainList color importFailed (importAtomic listId domains m clear enabled now io)"

definition removeDomainList :: "string \<Rightarrow> Color \<Rightarrow> Policy \<Rightarrow> bool \<times> Policy" where
  "removeDomainList listId color = dm_onDomainList color False (dl_remove listId)"

definition enableList :: "IoFaults \<Rightarrow> string \<Rightarrow> u8 \<Rightarrow> Color \<Rightarrow> Policy \<Rightarrow> bool \<times> Policy" where
  "enableList io listId m color = dm_onDomainList color False (dl_enable listId m io)"

definition disableList :: "IoFaults \<Rightarrow> string \<Rightarrow> Color \<Rightarrow> Policy \<Rightarrow> bool \<times> Policy" where
  "disableList io listId color = dm_onDomainList color False (dl_disable listId io)"

definition changeBlockMask :: "string \<Rightarrow> u8 \<Rightarrow> Color \<Rightarrow> Policy \<Rightarrow> Policy" where
  "changeBlockMask listId m color p =
     snd (dm_onDomainList color () (\<lambda>(dl, fs). ((), dl_changeBlockMask listId m dl, fs)) p)"

definition getDomainsCount :: "Color \<Rightarrow> Policy \<Rightarrow> u32" where
  "getDomainsCount color p =
     (if color = BLACK then dl_size (dm_blacklist (p_dm p))
      else if color = WHITE then dl_size (dm_whitelist (p_dm p)) else 0)"

definition switchListColor :: "string \<Rightarrow> Color \<Rightarrow> Policy \<Rightarrow> Policy" where
  "switchListColor listId color p =
     (let m = p_dm p; b = dm_blacklist m; w = dm_whitelist m in
      if color = BLACK then
        p\<lparr>p_dm := m\<lparr>dm_blacklist := dl_set listId (dl_get w listId) b, dm_whitelist := snd (dl_erase listId w)\<rparr>\<rparr>
      else if color = WHITE then
        p\<lparr>p_dm := m\<lparr>dm_whitelist := dl_set listId (dl_get b listId) w, dm_blacklist := snd (dl_erase listId b)\<rparr>\<rparr>
      else p)"

section \<open>Resets\<close>

definition names_reset :: "Policy \<Rightarrow> Policy" where
  "names_reset p = upd_dm (\<lambda>m. m\<lparr>dm_byIPv4 := (\<lambda>_. None), dm_byIPv6 := (\<lambda>_. None),
     dm_byName := [(name_of p (dm_anonymousDom m), dm_anonymousDom m)]\<rparr>) p"

definition resetPolicyForCheckpointRestore :: "regex \<Rightarrow> Policy \<Rightarrow> Policy" where
  "resetPolicyForCheckpointRestore rx p =
     upd_dm (\<lambda>m. m\<lparr>dm_sources := metrics_reset (dm_sources m), dm_customBlacklist := [], dm_customWhitelist := [],
        dm_blackRules := cr_reset rx (p_ruleHeap p) (dm_blackRules m),
        dm_whiteRules := cr_reset rx (p_ruleHeap p) (dm_whiteRules m),
        dm_blacklist := dl_reset (dm_blacklist m), dm_whitelist := dl_reset (dm_whitelist m)\<rparr>) (names_reset p)"

text \<open>\<open>regular\<close> are the files of the directory that \<^verbatim>\<open>readdir\<close> reports as regular; \<^verbatim>\<open>std::remove\<close> succeeds.\<close>

definition dm_reset :: "regex \<Rightarrow> (string \<Rightarrow> bool) \<Rightarrow> Policy \<Rightarrow> Policy" where
  "dm_reset rx regular p =
     upd_dm (\<lambda>m. m\<lparr>dm_files := (\<lambda>f. if regular f then None else dm_files m f)\<rparr>) (resetPolicyForCheckpointRestore rx p)"

definition resetRuntimeAssociationsForCheckpoint :: "Policy \<Rightarrow> Policy" where
  "resetRuntimeAssociationsForCheckpoint p =
     fold (\<lambda>e. upd_domain (snd e) clearIPs) (dm_byName (p_dm p))
       (upd_dm (\<lambda>m. m\<lparr>dm_byIPv4 := (\<lambda>_. None), dm_byIPv6 := (\<lambda>_. None)\<rparr>) p)"

end
