(* ===== verification/DomainRegistry.thy ===== *)
theory DomainRegistry
  imports DomainOps
begin

text \<open>
  Correctness of the domain registry: its invariant over every run, the class a domain gets from the lists, and that
  \<^verbatim>\<open>DOMAINPOLICY.APPLY\<close> leaves exactly the domains and rules it was asked for.
\<close>

section \<open>The invariant of the domain registry\<close>

definition dom_ips :: "bool \<Rightarrow> Domain \<Rightarrow> u8 list list" where
  "dom_ips v4 d = (if v4 then do_ipv4 d else do_ipv6 d)"

definition dom_inv :: "Policy \<Rightarrow> bool" where
  "dom_inv p \<longleftrightarrow> distinct (map fst (dm_byName (p_dm p))) \<and>
     (\<forall>n d. dm_find n p = Some d \<longrightarrow> name_of p d = n \<and> d < p_nextDom p) \<and>
     (\<forall>v4 ip d. dm_findIP v4 ip p = Some d \<longrightarrow> ip \<in> set (dom_ips v4 (p_domHeap p d)) \<and> d < p_nextDom p) \<and>
     (\<forall>app c d. bw c \<longrightarrow> d \<in> set (custom_domains app c p) \<longrightarrow> dm_find (name_of p d) p = Some d) \<and>
     dm_find (name_of p (dm_anonymousDom (p_dm p))) p = Some (dm_anonymousDom (p_dm p))"

lemma dom_invI:
  assumes "distinct (map fst (dm_byName (p_dm p)))"
    and "\<And>n d. dm_find n p = Some d \<Longrightarrow> name_of p d = n \<and> d < p_nextDom p"
    and "\<And>v4 ip d. dm_findIP v4 ip p = Some d \<Longrightarrow> ip \<in> set (dom_ips v4 (p_domHeap p d)) \<and> d < p_nextDom p"
    and "\<And>app c d. bw c \<Longrightarrow> d \<in> set (custom_domains app c p) \<Longrightarrow> dm_find (name_of p d) p = Some d"
    and "dm_find (name_of p (dm_anonymousDom (p_dm p))) p = Some (dm_anonymousDom (p_dm p))"
  shows "dom_inv p"
  using assms unfolding dom_inv_def by blast

lemma dom_invD:
  assumes "dom_inv p"
  shows "distinct (map fst (dm_byName (p_dm p)))"
    and "dm_find n p = Some d \<Longrightarrow> name_of p d = n \<and> d < p_nextDom p"
    and "dm_findIP v4 ip p = Some d \<Longrightarrow> ip \<in> set (dom_ips v4 (p_domHeap p d)) \<and> d < p_nextDom p"
    and "bw c \<Longrightarrow> d \<in> set (custom_domains app c p) \<Longrightarrow> dm_find (name_of p d) p = Some d"
    and "dm_find (name_of p (dm_anonymousDom (p_dm p))) p = Some (dm_anonymousDom (p_dm p))"
  using assms unfolding dom_inv_def by blast+

text \<open>What most operations keep: the names and addresses of the registry, and the custom lists.\<close>

definition dom_frame :: "Policy \<Rightarrow> Policy \<Rightarrow> bool" where
  "dom_frame p p' \<longleftrightarrow> dm_byName (p_dm p') = dm_byName (p_dm p) \<and> (\<forall>v4. dm_byIP v4 (p_dm p') = dm_byIP v4 (p_dm p)) \<and>
     dm_anonymousDom (p_dm p') = dm_anonymousDom (p_dm p) \<and> p_nextDom p' = p_nextDom p \<and>
     (\<forall>d. do_name (p_domHeap p' d) = do_name (p_domHeap p d) \<and> do_ipv4 (p_domHeap p' d) = do_ipv4 (p_domHeap p d) \<and>
        do_ipv6 (p_domHeap p' d) = do_ipv6 (p_domHeap p d)) \<and>
     (\<forall>app c. bw c \<longrightarrow> custom_domains app c p' = custom_domains app c p)"

lemma dom_frame_refl [simp]: "dom_frame p p"
  by (simp add: dom_frame_def)

lemma dom_frame_trans: "dom_frame p q \<Longrightarrow> dom_frame q r \<Longrightarrow> dom_frame p r"
  by (simp add: dom_frame_def)

lemma dom_frame_names: "dom_frame p p' \<Longrightarrow> name_of p' d = name_of p d" "dom_frame p p' \<Longrightarrow> dm_find n p' = dm_find n p"
  "dom_frame p p' \<Longrightarrow> dm_findIP v4 ip p' = dm_findIP v4 ip p"
  by (simp_all add: dom_frame_def name_of_def dm_find_def dm_findIP_def)

lemma dom_inv_frame:
  assumes inv: "dom_inv p" and f: "dom_frame p p'"
  shows "dom_inv p'"
proof (rule dom_invI)
  note e = f [unfolded dom_frame_def]
  show "distinct (map fst (dm_byName (p_dm p')))" using e dom_invD(1) [OF inv] by simp
  show "name_of p' d = n \<and> d < p_nextDom p'" if "dm_find n p' = Some d" for n d
    using that dom_invD(2) [OF inv] e by (simp add: dom_frame_names [OF f])
  show "ip \<in> set (dom_ips v4 (p_domHeap p' d)) \<and> d < p_nextDom p'" if "dm_findIP v4 ip p' = Some d" for v4 ip d
    using that dom_invD(3) [OF inv, of v4 ip d] e by (simp add: dom_frame_names [OF f] dom_ips_def split: if_splits)
  show "dm_find (name_of p' d) p' = Some d" if "bw c" "d \<in> set (custom_domains app c p')" for app c d
    using that dom_invD(4) [OF inv] e by (simp add: dom_frame_names [OF f])
  show "dm_find (name_of p' (dm_anonymousDom (p_dm p'))) p' = Some (dm_anonymousDom (p_dm p'))"
    using dom_invD(5) [OF inv] e by (simp add: dom_frame_names [OF f])
qed

lemma custom_domains_frame [simp]:
  "custom_domains app c (upd_domain d f p) = custom_domains app c p"
  by (simp add: custom_domains_def upd_domain_def split: option.split)

lemma frame_domain:
  assumes "\<And>x. do_name (f x) = do_name x \<and> do_ipv4 (f x) = do_ipv4 x \<and> do_ipv6 (f x) = do_ipv6 x"
  shows "dom_frame p (upd_domain d f p)"
  using assms by (simp add: dom_frame_def) (simp add: upd_domain_def)

lemma frame_initDomain: "dom_frame p (initDomain d p)"
  unfolding initDomain_def by (auto intro!: frame_domain split: prod.split)

lemma frame_fixDomainsColors: "dom_frame p (fixDomainsColors p)"
proof -
  have "dom_frame q (fold (\<lambda>e. initDomain (snd e)) es q)" for es q
    by (induction es arbitrary: q) (auto intro: dom_frame_trans frame_initDomain)
  then show ?thesis by (simp add: fixDomainsColors_def)
qed

text \<open>Creating a domain.\<close>

lemma dm_create_fields:
  assumes inv: "dom_inv p" and new: "dm_find n p = None" and e: "dm_create today n p = (d, p')"
  shows "d = p_nextDom p" and "dm_find m p' = (if m = n then Some d else dm_find m p)" and "p_nextDom p' = p_nextDom p + 1"
    and "p_domHeap p' = (p_domHeap p)(d := domain_new n today)" and "dm_findIP v4 ip p' = dm_findIP v4 ip p"
    and "custom_domains app c p' = custom_domains app c p" and "dm_anonymousDom (p_dm p') = dm_anonymousDom (p_dm p)"
    and "map fst (dm_byName (p_dm p')) = map fst (dm_byName (p_dm p)) @ [n]"
proof -
  have d: "d = p_nextDom p" and p': "p' = upd_dm (\<lambda>m. m\<lparr>dm_byName := dm_byName m @ [(n, d)]\<rparr>)
      (p\<lparr>p_domHeap := (p_domHeap p)(d := domain_new n today), p_nextDom := d + 1\<rparr>)"
    using e new by (auto simp: dm_create_def Let_def)
  show "d = p_nextDom p" by (rule d)
  show "dm_find m p' = (if m = n then Some d else dm_find m p)"
    using new by (auto simp: p' dm_find_def upd_dm_def map_add_def split: option.split)
  show "p_nextDom p' = p_nextDom p + 1" "p_domHeap p' = (p_domHeap p)(d := domain_new n today)"
    "dm_findIP v4 ip p' = dm_findIP v4 ip p" "custom_domains app c p' = custom_domains app c p"
    "dm_anonymousDom (p_dm p') = dm_anonymousDom (p_dm p)" "map fst (dm_byName (p_dm p')) = map fst (dm_byName (p_dm p)) @ [n]"
    using d by (simp_all add: p' upd_dm_def dm_findIP_def dm_byIP_def custom_domains_def dm_customList_def split: option.split)
qed

lemma dom_inv_create:
  assumes inv: "dom_inv p" and new: "dm_find n p = None" and e: "dm_create today n p = (d, p')"
  shows "dom_inv p'" and "\<And>x. x < p_nextDom p \<Longrightarrow> p_domHeap p' x = p_domHeap p x" and "name_of p' d = n"
proof -
  note f = dm_create_fields [OF inv new e]
  show old: "p_domHeap p' x = p_domHeap p x" if "x < p_nextDom p" for x using that f(1,4) by simp
  show name: "name_of p' d = n" using f(4) by (simp add: name_of_def domain_new_def)
  have keep: "name_of p' x = name_of p x" if "x < p_nextDom p" for x using old [OF that] by (simp add: name_of_def)
  show "dom_inv p'"
  proof (rule dom_invI)
    have "n \<notin> set (map fst (dm_byName (p_dm p)))" using new by (auto simp: dm_find_def map_of_eq_None_iff)
    then show "distinct (map fst (dm_byName (p_dm p')))" using dom_invD(1) [OF inv] f(8) by simp
    show "name_of p' x = m \<and> x < p_nextDom p'" if "dm_find m p' = Some x" for m x
    proof (cases "m = n")
      case True
      then show ?thesis using that f name by simp
    next
      case False
      then have "dm_find m p = Some x" using that f(2) by simp
      then show ?thesis using dom_invD(2) [OF inv] keep f(3) by fastforce
    qed
    show "ip \<in> set (dom_ips v4 (p_domHeap p' x)) \<and> x < p_nextDom p'" if "dm_findIP v4 ip p' = Some x" for v4 ip x
      using that dom_invD(3) [OF inv, of v4 ip x] old f(3,5) by fastforce
    have find: "dm_find (name_of p' x) p' = Some x" if "dm_find (name_of p x) p = Some x" for x
    proof -
      have "x < p_nextDom p" "name_of p x \<noteq> n" using dom_invD(2) [OF inv that] that new by auto
      then show ?thesis using keep f(2) that by simp
    qed
    show "dm_find (name_of p' x) p' = Some x" if "bw c" "x \<in> set (custom_domains app c p')" for app c x
      using find dom_invD(4) [OF inv that(1)] that(2) f(6) by simp
    show "dm_find (name_of p' (dm_anonymousDom (p_dm p'))) p' = Some (dm_anonymousDom (p_dm p'))"
      using find dom_invD(5) [OF inv] f(7) by simp
  qed
qed

text \<open>Making a domain: it is registered under its name with the class of the lists, and nothing else about the
  registry changes.\<close>

lemma dm_make_spec:
  assumes inv: "dom_inv p" and e: "dm_make today n p = (d, p')"
  shows "dom_inv p'" and "dm_find n p' = Some d" and "name_of p' d = n"
    and "(do_color (p_domHeap p' d), do_blockMask (p_domHeap p' d)) = domain_class (dm_blacklist (p_dm p)) (dm_whitelist (p_dm p)) n"
    and "\<And>m x. dm_find m p = Some x \<Longrightarrow> dm_find m p' = Some x \<and> name_of p' x = name_of p x"
    and "\<And>app c. bw c \<Longrightarrow> custom_domains app c p' = custom_domains app c p"
proof -
  obtain p1 where p1: "(case dm_find n p of Some d \<Rightarrow> (d, p) | None \<Rightarrow> dm_create today n p) = (d, p1)" "p' = initDomain d p1"
    using e by (auto simp: dm_make_def Let_def split: prod.splits)
  have base: "dom_inv p1 \<and> dm_find n p1 = Some d \<and> name_of p1 d = n \<and>
      dm_blacklist (p_dm p1) = dm_blacklist (p_dm p) \<and> dm_whitelist (p_dm p1) = dm_whitelist (p_dm p) \<and>
      (\<forall>m x. dm_find m p = Some x \<longrightarrow> dm_find m p1 = Some x \<and> name_of p1 x = name_of p x) \<and>
      (\<forall>app c. custom_domains app c p1 = custom_domains app c p)"
  proof (cases "dm_find n p")
    case (Some x)
    then show ?thesis using p1 inv dom_invD(2) [OF inv] by auto
  next
    case None
    then have e1: "dm_create today n p = (d, p1)" using p1 by simp
    note f = dm_create_fields [OF inv None e1] and g = dom_inv_create [OF inv None e1]
    have "dm_find m p1 = Some x \<and> name_of p1 x = name_of p x" if "dm_find m p = Some x" for m x
      using that dom_invD(2) [OF inv that] None f(2) g(2) by (auto simp: name_of_def)
    moreover have "dm_blacklist (p_dm p1) = dm_blacklist (p_dm p) \<and> dm_whitelist (p_dm p1) = dm_whitelist (p_dm p)"
      using e1 None by (auto simp: dm_create_def Let_def upd_dm_def)
    ultimately show ?thesis using f g by simp
  qed
  have fr: "dom_frame p1 p'" unfolding p1(2) by (rule frame_initDomain)
  show "dom_inv p'" using dom_inv_frame [OF _ fr] base by blast
  show "dm_find n p' = Some d" "name_of p' d = n" using base by (simp_all add: dom_frame_names [OF fr])
  show "\<And>m x. dm_find m p = Some x \<Longrightarrow> dm_find m p' = Some x \<and> name_of p' x = name_of p x"
    using base by (simp add: dom_frame_names [OF fr])
  show "\<And>app c. bw c \<Longrightarrow> custom_domains app c p' = custom_domains app c p" using fr base unfolding dom_frame_def by simp
  show "(do_color (p_domHeap p' d), do_blockMask (p_domHeap p' d)) = domain_class (dm_blacklist (p_dm p)) (dm_whitelist (p_dm p)) n"
    using base by (simp add: p1(2) initDomain_def upd_domain_def split: prod.split)
qed

text \<open>Addresses.\<close>

lemma erase_ips: "erase_ips ips f ip = (if ip \<in> set ips then None else f ip)"
  unfolding erase_ips_def by (induction ips arbitrary: f) auto

lemma dm_byIP_on: "dm_byIP v (dm_onIP w f m) = (if v = w then f (dm_byIP v m) else dm_byIP v m)"
  by (auto simp: dm_byIP_def dm_onIP_def)

lemma dm_onIP_fields [simp]:
  "dm_byName (dm_onIP v f m) = dm_byName m" "dm_anonymousDom (dm_onIP v f m) = dm_anonymousDom m"
  "dm_customBlacklist (dm_onIP v f m) = dm_customBlacklist m" "dm_customWhitelist (dm_onIP v f m) = dm_customWhitelist m"
  by (simp_all add: dm_onIP_def)

text \<open>Operations that keep names and custom lists; only the addresses have to be checked.\<close>

lemma dom_inv_ips:
  assumes inv: "dom_inv p"
    and "dm_byName (p_dm p') = dm_byName (p_dm p)" "dm_anonymousDom (p_dm p') = dm_anonymousDom (p_dm p)"
    and "p_nextDom p' = p_nextDom p" "\<And>d. do_name (p_domHeap p' d) = do_name (p_domHeap p d)"
    and "\<And>app c. bw c \<Longrightarrow> custom_domains app c p' = custom_domains app c p"
    and ips: "\<And>v4 ip d. dm_findIP v4 ip p' = Some d \<Longrightarrow> ip \<in> set (dom_ips v4 (p_domHeap p' d)) \<and> d < p_nextDom p'"
  shows "dom_inv p'"
proof (rule dom_invI)
  have names: "name_of p' d = name_of p d" "dm_find n p' = dm_find n p" for d n using assms(2,5) by (simp_all add: name_of_def dm_find_def)
  show "distinct (map fst (dm_byName (p_dm p')))" using dom_invD(1) [OF inv] assms(2) by simp
  show "name_of p' d = n \<and> d < p_nextDom p'" if "dm_find n p' = Some d" for n d
    using that names dom_invD(2) [OF inv] assms(4) by simp
  show "dm_find (name_of p' d) p' = Some d" if "bw c" "d \<in> set (custom_domains app c p')" for app c d
    using that names dom_invD(4) [OF inv] assms(6) by simp
  show "dm_find (name_of p' (dm_anonymousDom (p_dm p'))) p' = Some (dm_anonymousDom (p_dm p'))"
    using names dom_invD(5) [OF inv] assms(3) by simp
qed (rule ips)

lemma dom_inv_addIPBoth:
  assumes inv: "dom_inv p" and d: "d < p_nextDom p"
  shows "dom_inv (addIPBoth now v4 d ip p)"
proof (rule dom_inv_ips [OF inv])
  let ?p' = "addIPBoth now v4 d ip p"
  note defs = addIPBoth_def dm_addIP_def upd_dm_def upd_domain_def
  show "dm_byName (p_dm ?p') = dm_byName (p_dm p)" "dm_anonymousDom (p_dm ?p') = dm_anonymousDom (p_dm p)" "p_nextDom ?p' = p_nextDom p"
    by (simp_all add: defs)
  show "do_name (p_domHeap ?p' x) = do_name (p_domHeap p x)" for x by (simp add: defs withAddedIPLocked_def Let_def)
  show "custom_domains app c ?p' = custom_domains app c p" for app c by (simp add: defs custom_domains_def dm_customList_def split: option.split)
  have heap: "p_domHeap ?p' = (p_domHeap p)(d := withAddedIPLocked now v4 ip (p_domHeap p d))" by (simp add: defs)
  have grow: "set (dom_ips v (p_domHeap p x)) \<subseteq> set (dom_ips v (p_domHeap ?p' x))" for v x
    by (auto simp: heap dom_ips_def withAddedIPLocked_def Let_def set_insert_def)
  have new: "ip \<in> set (dom_ips v4 (p_domHeap ?p' d))" by (simp add: heap dom_ips_def withAddedIPLocked_def Let_def set_insert_def)
  show "i \<in> set (dom_ips v (p_domHeap ?p' x)) \<and> x < p_nextDom ?p'" if "dm_findIP v i ?p' = Some x" for v i x
  proof (cases "dm_findIP v i p")
    case (Some y)
    then have "x = y" using that by (auto simp: defs dm_findIP_def dm_byIP_on try_emplace_ip_def split: option.splits if_splits)
    have "p_nextDom ?p' = p_nextDom p" by (simp add: defs)
    then show ?thesis using dom_invD(3) [OF inv Some] grow [of v y] \<open>x = y\<close> by auto
  next
    case None
    then have "x = d \<and> v = v4 \<and> i = ip" using that by (auto simp: defs dm_findIP_def dm_byIP_on try_emplace_ip_def split: option.splits if_splits)
    then show ?thesis using new d by (simp add: defs)
  qed
qed

lemma dom_inv_removeIPs:
  assumes inv: "dom_inv p"
  shows "dom_inv (removeIPs d p)"
proof (rule dom_inv_ips [OF inv])
  let ?p' = "removeIPs d p"
  note defs = removeIPs_def upd_dm_def upd_domain_def Let_def
  show "dm_byName (p_dm ?p') = dm_byName (p_dm p)" "dm_anonymousDom (p_dm ?p') = dm_anonymousDom (p_dm p)" "p_nextDom ?p' = p_nextDom p"
    by (simp_all add: defs)
  show "do_name (p_domHeap ?p' x) = do_name (p_domHeap p x)" for x by (simp add: defs)
  show "custom_domains app c ?p' = custom_domains app c p" for app c by (simp add: defs custom_domains_def dm_customList_def split: option.split)
  show "i \<in> set (dom_ips v (p_domHeap ?p' x)) \<and> x < p_nextDom ?p'" if "dm_findIP v i ?p' = Some x" for v i x
  proof -
    have "dm_findIP v i p = Some x" "i \<notin> set (dom_ips v (p_domHeap p d))"
      using that by (auto simp: defs dm_findIP_def dm_byIP_on erase_ips dom_ips_def split: if_splits)
    then show ?thesis using dom_invD(3) [OF inv] by (auto simp: defs)
  qed
qed

text \<open>Custom domains, as sets of names.\<close>

lemma custom_domains_upd:
  "bw c \<Longrightarrow> bw color \<Longrightarrow> custom_domains app c (upd_dm (dm_onList color f) p) =
     (if app = None \<and> c = color then f (custom_domains app c p) else custom_domains app c p)"
  "bw c \<Longrightarrow> bw color \<Longrightarrow> custom_domains app c (upd_app a (app_onList color f) p) =
     (if app = Some a \<and> c = color then f (custom_domains app c p) else custom_domains app c p)"
  "custom_domains app c (upd_app a (\<lambda>x. x\<lparr>a_saved := b\<rparr>) p) = custom_domains app c p"
  by (auto simp: bw_def custom_domains_def upd_dm_def upd_app_def dm_onList_def app_onList_def dm_customList_def app_customList_def split: option.splits)

lemma frame_saved: "dom_frame p (upd_app a (\<lambda>x. x\<lparr>a_saved := b\<rparr>) p)"
  by (simp add: dom_frame_def custom_domains_upd) (simp add: upd_app_def)

text \<open>Adding to or removing from a custom list.\<close>

definition list_effect :: "addr option \<Rightarrow> Color \<Rightarrow> (addr list \<Rightarrow> addr list) \<Rightarrow> Policy \<Rightarrow> Policy \<Rightarrow> bool" where
  "list_effect app color f p p' \<longleftrightarrow>
     p_domHeap p' = p_domHeap p \<and> p_nextDom p' = p_nextDom p \<and> dm_byName (p_dm p') = dm_byName (p_dm p) \<and>
     (\<forall>v4. dm_byIP v4 (p_dm p') = dm_byIP v4 (p_dm p)) \<and> dm_anonymousDom (p_dm p') = dm_anonymousDom (p_dm p) \<and>
     (\<forall>a c. bw c \<longrightarrow> custom_domains a c p' = (if a = app \<and> c = color then f (custom_domains a c p) else custom_domains a c p))"

lemma list_effect_upd:
  "bw color \<Longrightarrow> list_effect None color f p (upd_dm (dm_onList color f) p)"
  "bw color \<Longrightarrow> list_effect (Some a) color f p (upd_app a (app_onList color f) p)"
  by (simp_all add: list_effect_def custom_domains_upd) (simp_all add: upd_dm_def upd_app_def dm_onList_def dm_byIP_def)

lemma dom_inv_list:
  assumes inv: "dom_inv p" and e: "list_effect app color f p p'"
    and mem: "\<And>d. d \<in> set (f (custom_domains app color p)) \<Longrightarrow> dm_find (name_of p d) p = Some d"
  shows "dom_inv p'"
proof (rule dom_invI)
  note e = e [unfolded list_effect_def]
  have names: "name_of p' d = name_of p d" "dm_find n p' = dm_find n p" "dm_findIP v ip p' = dm_findIP v ip p" for d n v ip
    using e by (simp_all add: name_of_def dm_find_def dm_findIP_def)
  show "distinct (map fst (dm_byName (p_dm p')))" using dom_invD(1) [OF inv] e by simp
  show "name_of p' d = n \<and> d < p_nextDom p'" if "dm_find n p' = Some d" for n d using that names dom_invD(2) [OF inv] e by simp
  show "ip \<in> set (dom_ips v (p_domHeap p' d)) \<and> d < p_nextDom p'" if "dm_findIP v ip p' = Some d" for v ip d
    using that names dom_invD(3) [OF inv] e by simp
  show "dm_find (name_of p' d) p' = Some d" if "bw c" "d \<in> set (custom_domains a c p')" for a c d
    using that names dom_invD(4) [OF inv that(1)] mem e by (auto split: if_splits)
  show "dm_find (name_of p' (dm_anonymousDom (p_dm p'))) p' = Some (dm_anonymousDom (p_dm p'))"
    using names dom_invD(5) [OF inv] e by simp
qed

lemma snapshot_set: "set (snapshotCustomDomains app c p) = name_of p ` set (custom_domains app c p)"
  by (simp add: snapshotCustomDomains_def)

lemma removeCustomDomain_spec:
  assumes inv: "dom_inv p" and color: "bw color" and p': "p' = removeCustomDomain app n color p"
  shows "dom_inv p'" and "bw c \<Longrightarrow> set (snapshotCustomDomains a c p') =
    (if a = app \<and> c = color then set (snapshotCustomDomains a c p) - {n} else set (snapshotCustomDomains a c p))"
proof -
  obtain q where q: "dom_frame p q" and eff: "case dm_find n p of None \<Rightarrow> p' = q
      | Some d \<Rightarrow> list_effect app color (filter (\<lambda>x. x \<noteq> d)) q p'"
  proof (cases app)
    case None
    then show ?thesis
      using that [of p] list_effect_upd(1) [OF color] by (auto simp: p' removeCustomDomain_def dm_removeCustomDomain_def split: option.splits)
  next
    case (Some b)
    let ?q = "upd_app b (\<lambda>x. x\<lparr>a_saved := False\<rparr>) p"
    have "dm_find n ?q = dm_find n p" by (simp add: dm_find_def upd_app_def)
    then show ?thesis
      using that [of ?q, OF frame_saved] list_effect_upd(2) [OF color] Some
      by (auto simp: p' removeCustomDomain_def app_removeCustomDomain_def Let_def split: option.splits)
  qed
  have qinv: "dom_inv q" using dom_inv_frame [OF inv q] .
  have same: "custom_domains a c q = custom_domains a c p" "name_of q = name_of p" if "bw c" for a c
    using q that by (auto simp: dom_frame_def name_of_def)
  have snap_q: "set (snapshotCustomDomains a c q) = set (snapshotCustomDomains a c p)" if "bw c" for a c
    using same [OF that] by (simp add: snapshot_set)
  show "dom_inv p'"
  proof (cases "dm_find n p")
    case (Some d)
    then have e: "list_effect app color (filter (\<lambda>x. x \<noteq> d)) q p'" using eff by simp
    show ?thesis by (rule dom_inv_list [OF qinv e]) (use dom_invD(4) [OF qinv color] in auto)
  qed (use eff qinv in auto)
  show "set (snapshotCustomDomains a c p') =
    (if a = app \<and> c = color then set (snapshotCustomDomains a c p) - {n} else set (snapshotCustomDomains a c p))" if c: "bw c"
  proof (cases "dm_find n p")
    case None
    then have "n \<notin> set (snapshotCustomDomains app color p)" using dom_invD(4) [OF inv color] by (auto simp: snapshot_set)
    then show ?thesis using eff None snap_q [OF c] by auto
  next
    case (Some d)
    then have e: "list_effect app color (filter (\<lambda>x. x \<noteq> d)) q p'" using eff by simp
    have "name_of p' = name_of q" using e by (simp add: list_effect_def name_of_def fun_eq_iff)
    then have name: "name_of p' = name_of p" using same(2) [OF c] by simp
    have only: "name_of p x = n \<longleftrightarrow> x = d" if "x \<in> set (custom_domains app color p)" for x
      using dom_invD(4) [OF inv color that] Some conjunct1 [OF dom_invD(2) [OF inv Some]] by (metis option.inject)
    have "name_of p ` (set L - {d}) = name_of p ` set L - {n}" if "L = custom_domains app color p" for L
      using only unfolding that by blast
    moreover have "custom_domains a c p' = (if a = app \<and> c = color then filter (\<lambda>x. x \<noteq> d) (custom_domains a c p) else custom_domains a c p)"
      using e c same(1) [OF c] unfolding list_effect_def by metis
    moreover have "set (filter (\<lambda>x. x \<noteq> d) L) = set L - {d}" for L by auto
    ultimately show ?thesis unfolding snapshot_set name by simp
  qed
qed

lemma addCustomDomain_spec:
  assumes inv: "dom_inv p" and color: "bw color" and p': "p' = addCustomDomain today app n color p"
  shows "dom_inv p'" and "bw c \<Longrightarrow> set (snapshotCustomDomains a c p') =
    (if a = app \<and> c = color then insert n (set (snapshotCustomDomains a c p)) else set (snapshotCustomDomains a c p))"
proof -
  obtain q d r where q: "dom_frame p q" and make: "dm_make today n q = (d, r)" and e: "list_effect app color (set_insert d) r p'"
  proof (cases app)
    case None
    obtain d r where "dm_make today n p = (d, r)" by fastforce
    then show ?thesis using that [of p d r] list_effect_upd(1) [OF color] None
      by (simp add: p' addCustomDomain_def dm_addCustomDomain_def)
  next
    case (Some b)
    let ?q = "upd_app b (\<lambda>x. x\<lparr>a_saved := False\<rparr>) p"
    obtain d r where "dm_make today n ?q = (d, r)" by fastforce
    then show ?thesis using that [of ?q d r, OF frame_saved] list_effect_upd(2) [OF color] Some
      by (simp add: p' addCustomDomain_def app_addCustomDomain_def)
  qed
  have qinv: "dom_inv q" using dom_inv_frame [OF inv q] .
  note m = dm_make_spec [OF qinv make]
  have find: "dm_find (name_of r x) r = Some x" if "x \<in> set (set_insert d (custom_domains app color r))" for x
    using that m(2,3) dom_invD(4) [OF m(1) color] by (auto simp: set_insert_def split: if_splits)
  show "dom_inv p'" by (rule dom_inv_list [OF m(1) e find])
  show "set (snapshotCustomDomains a c p') =
    (if a = app \<and> c = color then insert n (set (snapshotCustomDomains a c p)) else set (snapshotCustomDomains a c p))" if c: "bw c"
  proof -
    have lists: "custom_domains a c r = custom_domains a c p" using m(6) [OF c] q c by (simp add: dom_frame_def)
    have "name_of p' = name_of r" using e by (simp add: list_effect_def name_of_def fun_eq_iff)
    moreover have "name_of r x = name_of p x" if "x \<in> set (custom_domains a c p)" for x
    proof -
      have "dm_find (name_of q x) q = Some x" using dom_invD(4) [OF qinv c, of x a] that q c by (simp add: dom_frame_def)
      then show ?thesis using m(5) dom_frame_names(1) [OF q] by metis
    qed
    ultimately have "name_of p' ` set (custom_domains a c r) = set (snapshotCustomDomains a c p)"
      unfolding snapshot_set lists by (simp cong: image_cong)
    moreover have "name_of p' d = n" using \<open>name_of p' = name_of r\<close> m(3) by simp
    moreover have "custom_domains a c p' = (if a = app \<and> c = color then set_insert d (custom_domains a c r) else custom_domains a c r)"
      using e c unfolding list_effect_def by blast
    ultimately show ?thesis unfolding snapshot_set by (auto simp: set_insert_def)
  qed
qed

section \<open>Exactly the domains asked for\<close>

lemma fold_removeCustomDomain:
  assumes "dom_inv p" and color: "bw color"
  shows "dom_inv (fold (\<lambda>d. removeCustomDomain app d color) ds p) \<and> (\<forall>a c. bw c \<longrightarrow>
    set (snapshotCustomDomains a c (fold (\<lambda>d. removeCustomDomain app d color) ds p)) =
      (if a = app \<and> c = color then set (snapshotCustomDomains a c p) - set ds else set (snapshotCustomDomains a c p)))"
  using assms(1)
proof (induction ds arbitrary: p)
  case (Cons d ds)
  note r = removeCustomDomain_spec [where app = app and n = d, OF Cons.prems color refl]
  show ?case using Cons.IH [OF r(1)] r(2) by (auto split: if_splits)
qed simp

lemma fold_addCustomDomain:
  assumes "dom_inv p" and color: "bw color"
  shows "dom_inv (fold (\<lambda>d. addCustomDomain today app d color) ds p) \<and> (\<forall>a c. bw c \<longrightarrow>
    set (snapshotCustomDomains a c (fold (\<lambda>d. addCustomDomain today app d color) ds p)) =
      (if a = app \<and> c = color then set (snapshotCustomDomains a c p) \<union> set ds else set (snapshotCustomDomains a c p)))"
  using assms(1)
proof (induction ds arbitrary: p)
  case (Cons d ds)
  note r = addCustomDomain_spec [where app = app and n = d and today = today, OF Cons.prems color refl]
  show ?case using Cons.IH [OF r(1)] r(2) by (auto split: if_splits)
qed simp

lemma applyDomains_spec:
  assumes inv: "dom_inv p" and color: "bw color"
  shows "dom_inv (applyDomains today app color desired p)"
    and "bw c \<Longrightarrow> set (snapshotCustomDomains a c (applyDomains today app color desired p)) =
      (if a = app \<and> c = color then set desired else set (snapshotCustomDomains a c p))"
proof -
  define cur where "cur = snapshotCustomDomains app color p"
  define p1 where "p1 = fold (\<lambda>d. removeCustomDomain app d color) (filter (\<lambda>d. d \<notin> set desired) cur) p"
  have p': "applyDomains today app color desired p =
      fold (\<lambda>d. addCustomDomain today app d color) (filter (\<lambda>d. d \<notin> set cur) (remdups desired)) p1"
    by (simp add: applyDomains_def Let_def cur_def p1_def)
  note r = fold_removeCustomDomain [OF inv color, of app "filter (\<lambda>d. d \<notin> set desired) cur", folded p1_def]
  note a = fold_addCustomDomain [OF conjunct1 [OF r] color, of today app "filter (\<lambda>d. d \<notin> set cur) (remdups desired)", folded p']
  show "dom_inv (applyDomains today app color desired p)" using a by blast
  show "set (snapshotCustomDomains a c (applyDomains today app color desired p)) =
      (if a = app \<and> c = color then set desired else set (snapshotCustomDomains a c p))" if "bw c"
    using a r that by (auto simp: cur_def)
qed

section \<open>Exactly the rules asked for\<close>

definition rules_wf :: "Policy \<Rightarrow> bool" where
  "rules_wf p \<longleftrightarrow> (\<forall>rid r. rm_find rid p = Some r \<longrightarrow> ru_id (p_ruleHeap p r) = rid) \<and>
     (\<forall>s c r. bw c \<longrightarrow> r \<in> set (cr_rules (slot_rules s c p)) \<longrightarrow> rm_find (ru_id (p_ruleHeap p r)) p = Some r)"

lemma rules_wf_reg: "reg_inv rx p \<Longrightarrow> rules_wf p"
  unfolding rules_wf_def using reg_invD(2) slot_valid unfolding registered_def by metis

lemma current_rules_slot: "set (current_rules app c p) = (\<lambda>r. ru_id (p_ruleHeap p r)) ` set (cr_rules (slot_rules app c p))"
  by (simp add: current_rules_def slot_rules_def snapshotRuleIds_def split: option.split)

lemma rules_wf_add:
  assumes wf: "rules_wf p" and r: "rm_find rid p = Some r" and e: "add_effect app color r rx p p'"
  shows "rules_wf p'" and "bw c \<Longrightarrow> set (current_rules a c p') =
    (if a = app \<and> c = color then insert rid (set (current_rules a c p)) else set (current_rules a c p))"
proof -
  note e = e [unfolded add_effect_def]
  have heap: "p_ruleHeap p' = p_ruleHeap p" "\<And>i. rm_find i p' = rm_find i p" using e by (simp_all add: rm_find_def)
  have id: "ru_id (p_ruleHeap p r) = rid" using wf r unfolding rules_wf_def by blast
  have slot: "set (cr_rules (slot_rules s c p')) = (if s = app \<and> c = color then insert r (set (cr_rules (slot_rules s c p)))
      else set (cr_rules (slot_rules s c p)))" if "bw c" for s c
    using e that by auto
  show "rules_wf p'"
    using wf id r unfolding rules_wf_def heap by (auto simp: slot split: if_splits)
  show "set (current_rules a c p') =
    (if a = app \<and> c = color then insert rid (set (current_rules a c p)) else set (current_rules a c p))" if "bw c"
    using id by (simp add: current_rules_slot slot [OF that] heap(1))
qed

lemma rules_wf_remove:
  assumes wf: "rules_wf p" and r: "rm_find rid p = Some r" and e: "remove_effect app color r rx p p'" and color: "bw color"
  shows "rules_wf p'" and "bw c \<Longrightarrow> set (current_rules a c p') =
    (if a = app \<and> c = color then set (current_rules a c p) - {rid} else set (current_rules a c p))"
proof -
  note e = e [unfolded remove_effect_def]
  have heap: "p_ruleHeap p' = p_ruleHeap p" "\<And>i. rm_find i p' = rm_find i p" using e by (simp_all add: rm_find_def)
  have slot: "set (cr_rules (slot_rules s c p')) = (if s = app \<and> c = color then set (cr_rules (slot_rules s c p)) - {r}
      else set (cr_rules (slot_rules s c p)))" if "bw c" for s c
    using e that by auto
  show "rules_wf p'"
    using wf unfolding rules_wf_def heap by (auto simp: slot split: if_splits)
  have only: "ru_id (p_ruleHeap p x) = rid \<longleftrightarrow> x = r" if "x \<in> set (cr_rules (slot_rules app color p))" for x
    using wf r color that unfolding rules_wf_def by (metis option.inject)
  have "(\<lambda>x. ru_id (p_ruleHeap p x)) ` (set (cr_rules (slot_rules app color p)) - {r}) =
      (\<lambda>x. ru_id (p_ruleHeap p x)) ` set (cr_rules (slot_rules app color p)) - {rid}"
    using only by blast
  then show "set (current_rules a c p') =
    (if a = app \<and> c = color then set (current_rules a c p) - {rid} else set (current_rules a c p))" if "bw c"
    by (simp add: current_rules_slot slot [OF that] heap(1))
qed

lemma known_add: "rm_find i (rm_addCustom rx app rid color True p) = rm_find i p"
  by (cases app) (simp_all add: rm_addCustom_def rm_find_def Let_def dm_addCustomRule_def app_addCustomRule_def split: option.split)

lemma known_remove: "rm_find i (rm_removeCustom rx app rid color p) = rm_find i p"
  by (cases app) (simp_all add: rm_removeCustom_def rm_find_def Let_def dm_removeCustomRule_def app_removeCustomRule_def split: option.split)

lemma fold_removeCustom:
  assumes "rules_wf p" and color: "bw color" and "\<forall>i \<in> set is. rm_find i p \<noteq> None"
  shows "rules_wf (fold (\<lambda>i. rm_removeCustom rx app i color) is p) \<and>
    (\<forall>i. rm_find i (fold (\<lambda>i. rm_removeCustom rx app i color) is p) = rm_find i p) \<and>
    (\<forall>a c. bw c \<longrightarrow> set (current_rules a c (fold (\<lambda>i. rm_removeCustom rx app i color) is p)) =
      (if a = app \<and> c = color then set (current_rules a c p) - set is else set (current_rules a c p)))"
  using assms(1,3)
proof (induction "is" arbitrary: p)
  case (Cons i "is")
  obtain r where r: "rm_find i p = Some r" using Cons.prems(2) by auto
  note w = rules_wf_remove [OF Cons.prems(1) r rm_removeCustom_effect [OF r color, of app rx] color]
  show ?case using Cons.IH [OF w(1)] w(2) Cons.prems(2) by (auto simp: known_remove split: if_splits)
qed simp

lemma fold_addCustom:
  assumes "rules_wf p" and color: "bw color" and "\<forall>i \<in> set is. rm_find i p \<noteq> None"
  shows "rules_wf (fold (\<lambda>i. rm_addCustom rx app i color True) is p) \<and>
    (\<forall>i. rm_find i (fold (\<lambda>i. rm_addCustom rx app i color True) is p) = rm_find i p) \<and>
    (\<forall>a c. bw c \<longrightarrow> set (current_rules a c (fold (\<lambda>i. rm_addCustom rx app i color True) is p)) =
      (if a = app \<and> c = color then set (current_rules a c p) \<union> set is else set (current_rules a c p)))"
  using assms(1,3)
proof (induction "is" arbitrary: p)
  case (Cons i "is")
  obtain r where r: "rm_find i p = Some r" using Cons.prems(2) by auto
  note w = rules_wf_add [OF Cons.prems(1) r rm_addCustom_effect [OF r color, of app rx]]
  show ?case using Cons.IH [OF w(1)] w(2) Cons.prems(2) by (auto simp: known_add split: if_splits)
qed simp

lemma applyRules_spec:
  assumes wf: "rules_wf p" and color: "bw color" and known: "\<forall>i \<in> set desired. rm_find i p \<noteq> None"
  shows "rules_wf (applyRules rx app color desired p)" and "rm_find i (applyRules rx app color desired p) = rm_find i p"
    and "bw c \<Longrightarrow> set (current_rules a c (applyRules rx app color desired p)) =
      (if a = app \<and> c = color then set desired else set (current_rules a c p))"
proof -
  define cur where "cur = current_rules app color p"
  define p1 where "p1 = fold (\<lambda>i. rm_removeCustom rx app i color) (filter (\<lambda>i. i \<notin> set desired) cur) p"
  have p': "applyRules rx app color desired p =
      fold (\<lambda>i. rm_addCustom rx app i color True) (filter (\<lambda>i. i \<notin> set cur) (remdups desired)) p1"
    by (simp add: applyRules_def Let_def cur_def p1_def)
  have "\<forall>i \<in> set cur. rm_find i p \<noteq> None" using wf color unfolding cur_def current_rules_slot rules_wf_def by auto
  then have r: "rules_wf p1 \<and> (\<forall>i. rm_find i p1 = rm_find i p) \<and> (\<forall>a c. bw c \<longrightarrow> set (current_rules a c p1) =
      (if a = app \<and> c = color then set (current_rules a c p) - set (filter (\<lambda>i. i \<notin> set desired) cur) else set (current_rules a c p)))"
    unfolding p1_def by (intro fold_removeCustom [OF wf color]) auto
  note a = fold_addCustom [of p1 color "filter (\<lambda>i. i \<notin> set cur) (remdups desired)" rx app, folded p']
  have a: "rules_wf (applyRules rx app color desired p) \<and> (\<forall>i. rm_find i (applyRules rx app color desired p) = rm_find i p1) \<and>
    (\<forall>a c. bw c \<longrightarrow> set (current_rules a c (applyRules rx app color desired p)) =
      (if a = app \<and> c = color then set (current_rules a c p1) \<union> set (filter (\<lambda>i. i \<notin> set cur) (remdups desired))
       else set (current_rules a c p1)))"
    by (rule a) (use r color known in auto)
  show "rules_wf (applyRules rx app color desired p)" "rm_find i (applyRules rx app color desired p) = rm_find i p" using a r by auto
  show "set (current_rules a c (applyRules rx app color desired p)) =
      (if a = app \<and> c = color then set desired else set (current_rules a c p))" if "bw c"
    using a r that by (auto simp: cur_def)
qed

section \<open>Rules and domains do not interfere\<close>

lemma same_rules_refl [simp]: "same_rules p p"
  by (simp add: same_rules_def)

lemma same_rules_trans: "same_rules p q \<Longrightarrow> same_rules q r \<Longrightarrow> same_rules p r"
  by (simp add: same_rules_def)

lemma same_rules_make: "same_rules p (snd (dm_make today n p))"
  by (auto simp: same_rules_def dm_make_def dm_create_def initDomain_def upd_dm_def upd_domain_def slot_rules_def dm_customRules_def
      Let_def split: option.split prod.split)

lemma same_rules_lists:
  "same_rules p (upd_dm (dm_onList color f) p)" "same_rules p (upd_app a (app_onList color f) p)" "same_rules p (upd_app a (\<lambda>x. x\<lparr>a_saved := b\<rparr>) p)"
  by (auto simp: same_rules_def upd_dm_def upd_app_def slot_rules_def dm_onList_def app_onList_def dm_customRules_def app_customRules_def split: option.split)

lemma same_rules_custom:
  "same_rules p (addCustomDomain today app n color p)" "same_rules p (removeCustomDomain app n color p)"
proof -
  have make: "same_rules p r" if "dm_make today n p = (d, r)" for p d r using same_rules_make [of p today n] that by simp
  show "same_rules p (addCustomDomain today app n color p)"
    by (cases app) (auto simp: addCustomDomain_def dm_addCustomDomain_def app_addCustomDomain_def
      intro: same_rules_trans [OF make same_rules_lists(1)] same_rules_trans [OF same_rules_trans [OF same_rules_lists(3) make] same_rules_lists(2)] split: prod.split)
  show "same_rules p (removeCustomDomain app n color p)"
    by (cases app) (auto simp: removeCustomDomain_def dm_removeCustomDomain_def app_removeCustomDomain_def Let_def
      intro: same_rules_lists same_rules_trans [OF same_rules_lists(3) same_rules_lists(2)] split: option.split)
qed

lemma same_rules_fold: "(\<And>x q. same_rules q (f x q)) \<Longrightarrow> same_rules p (fold f xs p)"
  by (induction xs arbitrary: p) (auto intro: same_rules_trans)

lemma same_rules_applyDomains: "same_rules p (applyDomains today app color desired p)"
  unfolding applyDomains_def Let_def by (intro same_rules_trans [OF same_rules_fold same_rules_fold] same_rules_custom)

lemma rules_wf_same:
  assumes "rules_wf p" and s: "same_rules p p'"
  shows "rules_wf p'" and "current_rules a c p' = current_rules a c p" and "rm_find i p' = rm_find i p"
proof -
  note e = s [unfolded same_rules_def]
  show "rm_find i p' = rm_find i p" for i using e by (simp add: rm_find_def)
  then show "rules_wf p'" using assms(1) e unfolding rules_wf_def by simp
  show "current_rules a c p' = current_rules a c p"
    using e by (simp add: current_rules_def slot_rules_def [symmetric])
qed

text \<open>Rules leave the domains alone.\<close>

definition same_domains :: "Policy \<Rightarrow> Policy \<Rightarrow> bool" where
  "same_domains p p' \<longleftrightarrow> p_domHeap p' = p_domHeap p \<and> (\<forall>app c. custom_domains app c p' = custom_domains app c p)"

lemma same_domains_rules: "same_domains p (rm_addCustom rx app i color True p)" "same_domains p (rm_removeCustom rx app i color p)"
  by (cases app; auto simp: same_domains_def rm_addCustom_def rm_removeCustom_def Let_def dm_addCustomRule_def app_addCustomRule_def
      dm_removeCustomRule_def app_removeCustomRule_def frame_defs custom_domains_def dm_onRules_def app_onRules_def dm_customList_def
      app_customList_def split: option.split)+

lemma same_domains_applyRules: "same_domains p (applyRules rx app color desired p)"
proof -
  have fold: "same_domains p (fold f xs p)" if "\<And>x q. same_domains q (f x q)" for p and f :: "u32 \<Rightarrow> Policy \<Rightarrow> Policy" and xs
  proof (induction xs arbitrary: p)
    case (Cons x xs)
    then show ?case using that [of p x] Cons [of "f x p"] by (simp add: same_domains_def)
  qed (simp add: same_domains_def)
  show ?thesis unfolding applyRules_def Let_def
    using fold [where f = "\<lambda>i. rm_removeCustom rx app i color", OF same_domains_rules(2)] fold [where f = "\<lambda>i. rm_addCustom rx app i color True", OF same_domains_rules(1)]
    by (simp add: same_domains_def)
qed

lemma snapshot_same: "same_domains p p' \<Longrightarrow> snapshotCustomDomains a c p' = snapshotCustomDomains a c p"
  by (simp add: same_domains_def snapshotCustomDomains_def name_of_def [abs_def])


section \<open>Runs of the domain registry\<close>

definition domains_start :: "Policy \<Rightarrow> bool" where
  "domains_start p \<longleftrightarrow> (let d = dm_anonymousDom (p_dm p) in
     dm_byName (p_dm p) = [(name_of p d, d)] \<and> d < p_nextDom p \<and> (\<forall>v4 ip. dm_findIP v4 ip p = None) \<and>
     (\<forall>app c. custom_domains app c p = []))"

inductive dom_run :: "Policy \<Rightarrow> bool" where
  start: "domains_start p \<Longrightarrow> dom_run p"
| make: "dom_run p \<Longrightarrow> dom_run (snd (dm_make today n p))"
| fix_colors: "dom_run p \<Longrightarrow> dom_run (fixDomainsColors p)"
| add_ip: "dom_run p \<Longrightarrow> dm_find n p = Some d \<Longrightarrow> dom_run (addIPBoth now v4 d ip p)"
| remove_ips: "dom_run p \<Longrightarrow> dom_run (removeIPs d p)"
| add_custom: "dom_run p \<Longrightarrow> bw color \<Longrightarrow> dom_run (addCustomDomain today app n color p)"
| remove_custom: "dom_run p \<Longrightarrow> bw color \<Longrightarrow> dom_run (removeCustomDomain app n color p)"
| forget_ips: "dom_run p \<Longrightarrow> dom_run (resetRuntimeAssociationsForCheckpoint p)"
| others: "dom_run p \<Longrightarrow> dom_frame p p' \<Longrightarrow> dom_run p'"

lemma dom_inv_forget: "dom_inv p \<Longrightarrow> dom_inv (resetRuntimeAssociationsForCheckpoint p)"
proof -
  assume inv: "dom_inv p"
  define q where "q = upd_dm (\<lambda>m. m\<lparr>dm_byIPv4 := (\<lambda>_. None), dm_byIPv6 := (\<lambda>_. None)\<rparr>) p"
  have qinv: "dom_inv q"
    by (rule dom_inv_ips [OF inv]) (auto simp: q_def upd_dm_def dm_findIP_def dm_byIP_def custom_domains_def dm_customList_def split: option.split if_splits)
  have none: "dm_findIP v ip q = None" for v ip by (simp add: q_def dm_findIP_def dm_byIP_def upd_dm_def)
  have step: "dom_inv (upd_domain d clearIPs r) \<and> (\<forall>v ip. dm_findIP v ip (upd_domain d clearIPs r) = None)"
    if "dom_inv r" "\<forall>v ip. dm_findIP v ip r = None" for d r
  proof
    show f: "\<forall>v ip. dm_findIP v ip (upd_domain d clearIPs r) = None" using that by (simp add: dm_findIP_def upd_domain_def)
    show "dom_inv (upd_domain d clearIPs r)"
      by (rule dom_inv_ips [OF that(1)]) (use f in \<open>auto simp: upd_domain_def clearIPs_def custom_domains_def split: option.split\<close>)
  qed
  have "dom_inv (fold (\<lambda>e. upd_domain (snd e) clearIPs) es r)" if "dom_inv r" "\<forall>v ip. dm_findIP v ip r = None"
    for es :: "(string \<times> addr) list" and r
    using that
  proof (induction es arbitrary: r)
    case (Cons e es)
    then show ?case using step [of r "snd e"] by simp
  qed simp
  then show "dom_inv (resetRuntimeAssociationsForCheckpoint p)"
    using qinv none by (simp add: resetRuntimeAssociationsForCheckpoint_def q_def)
qed

lemma dom_run_inv: "dom_run p \<Longrightarrow> dom_inv p"
proof (induction rule: dom_run.induct)
  case (start p)
  then show ?case
    by (intro dom_invI) (auto simp: domains_start_def Let_def dm_find_def split: if_splits)
next
  case (make p today n)
  then show ?case using dm_make_spec(1) [of p today n] by (metis prod.collapse)
next
  case (add_ip p n d now v4 ip)
  then show ?case using dom_inv_addIPBoth dom_invD(2) by blast
qed (auto intro: dom_inv_frame [OF _ frame_fixDomainsColors] dom_inv_removeIPs addCustomDomain_spec(1) removeCustomDomain_spec(1)
      dom_inv_forget dom_inv_frame)



lemma policy_init_domains: "dom_run policy_init"
  by (rule dom_run.start)
     (auto simp: domains_start_def policy_init_def Let_def name_of_def domain_new_def dm_findIP_def dm_byIP_def custom_domains_def
       dm_customList_def app_customList_def split: option.split)

lemma policy_rule_domains: "dom_run policy_rule"
proof (rule dom_run.others [OF policy_init_domains])
  show "dom_frame policy_init policy_rule"
    by (auto simp: dom_frame_def policy_rule_def rm_addRule_def rm_make_def upd_rm_def Let_def custom_domains_def split: option.split)
qed



end
