(* ===== verification/AppOps.thy ===== *)
theory AppOps
  imports DomainRegistry
begin

text \<open>
  Apps and their registry (\<^verbatim>\<open>src/src/App.cpp\<close>, \<^verbatim>\<open>App.hpp\<close>, \<^verbatim>\<open>src/src/AppManager.cpp\<close>): creation and renaming, the index by
  uid and by name, statistics and traffic, the settings of an app, and the resets. The save files of the apps are the
  map \<open>am_files\<close>.
\<close>

section \<open>Masks\<close>

definition isValidBlockingListMask :: "u32 \<Rightarrow> bool" where
  "isValidBlockingListMask m \<longleftrightarrow> m = 1 \<or> m = 2 \<or> m = 4 \<or> m = 8 \<or> m = 16 \<or> m = 32 \<or> m = 64"

definition extraListBitsMask :: u8 where "extraListBitsMask = 2 OR 4 OR 16 OR 32 OR 64"
definition supportedListBitsMask :: u8 where "supportedListBitsMask = standardListBit OR reinforcedListBit OR extraListBitsMask"
definition supportedAppBitsMask :: u8 where "supportedAppBitsMask = supportedListBitsMask OR customListBit"

definition isValidAppBlockMask :: "u32 \<Rightarrow> bool" where
  "isValidAppBlockMask m \<longleftrightarrow> \<not> 255 < m \<and> m AND NOT (ucast supportedAppBitsMask) = 0"

definition normalizeAppBlockMask :: "u8 \<Rightarrow> u8" where
  "normalizeAppBlockMask m = (if m AND reinforcedListBit \<noteq> 0 then m OR standardListBit else m)"

section \<open>Names and files\<close>

definition userId :: "u32 \<Rightarrow> u32" where "userId uid = uid div 100000"
definition appId :: "u32 \<Rightarrow> u32" where "appId uid = uid mod 100000"

definition saveDir :: string where "saveDir = ''/data/snort/save/''"
definition systemAppPrefix :: string where "systemAppPrefix = ''system_''"

text \<open>The path check of \<^verbatim>\<open>userSaveRoot\<close> always holds: the root starts with \<^verbatim>\<open>/data/snort/\<close>.\<close>

definition userSaveRoot :: "u32 \<Rightarrow> string" where
  "userSaveRoot u =
     (let safeUserId = (if u < 10000 then u else 9999);
          root = saveDir @ ''user'' @ dec_string (unat safeUserId) @ ''/''
      in if take 12 root \<noteq> ''/data/snort/'' then saveDir else root)"

definition userSaveDirPackages :: "u32 \<Rightarrow> string" where
  "userSaveDirPackages u = (if u = 0 then saveDir @ ''packages/'' else userSaveRoot u @ ''packages/'')"

definition userSaveDirSystem :: "u32 \<Rightarrow> string" where
  "userSaveDirSystem u = (if u = 0 then saveDir @ ''system/'' else userSaveRoot u @ ''system/'')"

section \<open>Apps\<close>

definition app_new :: "int \<Rightarrow> u32 \<Rightarrow> string \<Rightarrow> string list \<Rightarrow> string \<Rightarrow> u8 \<Rightarrow> u8 \<Rightarrow> bool \<Rightarrow> App" where
  "app_new today uid name names saveFile blockMask blockIface useCustom =
     \<lparr>a_uid = uid, a_saveFile = saveFile, a_name = name, a_names = names, a_saved = False,
      a_stats = stats_new app_zero today, a_domStats = (\<lambda>_ _. None), a_tracked = False, a_blockMask = blockMask,
      a_blockIface = blockIface, a_useCustomList = useCustom, a_ipRulesCaps = 0, a_customBlacklist = [],
      a_customWhitelist = [], a_blackRules = customRules_new, a_whiteRules = customRules_new,
      a_sources = (\<lambda>_. 0, \<lambda>_. 0), a_traffic = traffic_reset\<rparr>"

definition anonymous_name :: "u32 \<Rightarrow> string" where
  "anonymous_name uid = systemAppPrefix @ dec_string (unat uid)"

definition app_anonymous :: "int \<Rightarrow> u32 \<Rightarrow> string list \<Rightarrow> App" where
  "app_anonymous today uid names =
     app_new today uid (anonymous_name uid) names (userSaveDirSystem (userId uid) @ dec_string (unat uid))
       (standardListBit + customListBit) 0 True"

definition app_named :: "Settings \<Rightarrow> int \<Rightarrow> u32 \<Rightarrow> string \<Rightarrow> App" where
  "app_named st today uid name =
     app_new today uid name [] (userSaveDirPackages (userId uid) @ name) (set_blockMask st) (set_blockIface st)
       (set_blockMask st AND customListBit \<noteq> 0)"

definition isAnonymous :: "App \<Rightarrow> bool" where
  "isAnonymous a \<longleftrightarrow> take (length systemAppPrefix) (a_name a) = systemAppPrefix"

definition upgradeName :: "bool \<Rightarrow> string \<Rightarrow> App \<Rightarrow> Files \<Rightarrow> bool \<times> App \<times> Files" where
  "upgradeName renameOk newName a fs =
     (if \<not> isAnonymous a then (False, a, fs)
      else
        let oldPath = userSaveDirSystem (userId (a_uid a)) @ dec_string (unat (a_uid a));
            newPath = userSaveDirPackages (userId (a_uid a)) @ newName;
            fs' = (case fs_rename renameOk oldPath newPath fs of Some f \<Rightarrow> f | None \<Rightarrow> fs)
        in (True, a\<lparr>a_name := newName, a_names := [], a_saveFile := newPath, a_saved := False\<rparr>, fs'))"

definition upgradeName_vec :: "bool \<Rightarrow> string list \<Rightarrow> App \<Rightarrow> Files \<Rightarrow> bool \<times> App \<times> Files" where
  "upgradeName_vec renameOk newNames a fs = (case newNames of [] \<Rightarrow> (False, a, fs) | n # _ \<Rightarrow> upgradeName renameOk n a fs)"

definition set_app_blockMask :: "u8 \<Rightarrow> App \<Rightarrow> App" where
  "set_app_blockMask m a = a\<lparr>a_saved := False, a_blockMask := normalizeAppBlockMask m\<rparr>"

definition set_app_blockIface :: "u8 \<Rightarrow> App \<Rightarrow> App" where
  "set_app_blockIface m a = a\<lparr>a_saved := False, a_blockIface := m\<rparr>"

definition set_app_tracked :: "bool \<Rightarrow> App \<Rightarrow> App" where
  "set_app_tracked b a = a\<lparr>a_saved := False, a_tracked := b\<rparr>"

definition set_app_useCustomList :: "bool \<Rightarrow> App \<Rightarrow> App" where
  "set_app_useCustomList b a = a\<lparr>a_saved := False, a_useCustomList := b\<rparr>"

definition applyCheckpointPolicyConfig :: "u8 \<Rightarrow> u8 \<Rightarrow> bool \<Rightarrow> App \<Rightarrow> App" where
  "applyCheckpointPolicyConfig m i b a =
     a\<lparr>a_saved := False, a_blockMask := normalizeAppBlockMask m, a_blockIface := i, a_useCustomList := b\<rparr>"

definition clearCheckpointDomainPolicy :: "regex \<Rightarrow> (addr \<Rightarrow> Rule) \<Rightarrow> App \<Rightarrow> App" where
  "clearCheckpointDomainPolicy rx heap a =
     a\<lparr>a_saved := False, a_customBlacklist := [], a_customWhitelist := [],
       a_blackRules := cr_reset rx heap (a_blackRules a), a_whiteRules := cr_reset rx heap (a_whiteRules a)\<rparr>"

definition observeDomainPolicySource :: "DomainPolicySource \<Rightarrow> bool \<Rightarrow> App \<Rightarrow> App" where
  "observeDomainPolicySource src blocked a =
     (let (al, bl) = a_sources a in a\<lparr>a_sources := (if blocked then (al, bump src 1 bl) else (bump src 1 al, bl))\<rparr>)"

definition observeTrafficDns :: "bool \<Rightarrow> App \<Rightarrow> App" where
  "observeTrafficDns blocked a = a\<lparr>a_traffic := observeDns blocked (a_traffic a)\<rparr>"

definition observeTrafficPacket :: "bool \<Rightarrow> bool \<Rightarrow> u64 \<Rightarrow> App \<Rightarrow> App" where
  "observeTrafficPacket input accepted bytes a = a\<lparr>a_traffic := observePacket input accepted bytes (a_traffic a)\<rparr>"

text \<open>\<^verbatim>\<open>App::updateStats\<close>: the app, the domain and the pair of both (in the map of the colour).\<close>

definition app_updateStats :: "int \<Rightarrow> addr \<Rightarrow> addr \<Rightarrow> StatType \<Rightarrow> Color \<Rightarrow> Block \<Rightarrow> u64 \<Rightarrow> Policy \<Rightarrow> Policy" where
  "app_updateStats today app d ts cs bs val p =
     upd_app app (\<lambda>a.
       let old = (case a_domStats a cs d of Some s \<Rightarrow> s | None \<Rightarrow> stats_new dom_zero today) in
       a\<lparr>a_saved := False, a_stats := appstats_update today ts cs bs val (a_stats a),
         a_domStats := (a_domStats a)(cs := (a_domStats a cs)(d \<mapsto> domstats_update today ts bs val old))\<rparr>)
     (upd_domain d (dom_updateStats today ts bs val) p)"

definition app_reset :: "int \<Rightarrow> nat \<Rightarrow> App \<Rightarrow> App" where
  "app_reset today view a =
     a\<lparr>a_saved := False, a_stats := appstats_reset today view (a_stats a),
       a_domStats := (\<lambda>cs d. if view = V_ALL then None else map_option (domstats_reset today view) (a_domStats a cs d))\<rparr>"

section \<open>The registry of apps\<close>

definition am_find :: "u32 \<Rightarrow> Policy \<Rightarrow> addr option" where
  "am_find uid p = map_of (am_byUid (p_am p)) uid"

definition am_findName :: "string \<Rightarrow> Policy \<Rightarrow> addr option" where
  "am_findName name p = map_of (am_byName (p_am p)) name"

definition findByName :: "string \<Rightarrow> u32 \<Rightarrow> Policy \<Rightarrow> addr option" where
  "findByName name user p =
     map_option snd (find (\<lambda>e. userId (a_uid (p_appHeap p (snd e))) = user \<and> a_name (p_appHeap p (snd e)) = name) (am_byUid (p_am p)))"

definition snapshotByUid :: "u32 option \<Rightarrow> Policy \<Rightarrow> addr list" where
  "snapshotByUid user p =
     filter (\<lambda>a. case user of None \<Rightarrow> True | Some u \<Rightarrow> userId (a_uid (p_appHeap p a)) = u) (map snd (am_byUid (p_am p)))"

definition alloc_app :: "App \<Rightarrow> Policy \<Rightarrow> addr \<times> Policy" where
  "alloc_app a p = (p_nextApp p, p\<lparr>p_appHeap := (p_appHeap p)(p_nextApp p := a), p_nextApp := p_nextApp p + 1\<rparr>)"

definition am_prepare :: "int \<Rightarrow> u32 \<Rightarrow> Policy \<Rightarrow> addr \<times> Policy" where
  "am_prepare today uid = alloc_app (app_anonymous today uid [])"

text \<open>\<^verbatim>\<open>emplace\<close> keeps the entry that is there.\<close>

definition emplace_name :: "string \<Rightarrow> addr \<Rightarrow> (string \<times> addr) list \<Rightarrow> (string \<times> addr) list" where
  "emplace_name n a m = (if map_of m n = None then m @ [(n, a)] else m)"

definition erase_name :: "string \<Rightarrow> (string \<times> addr) list \<Rightarrow> (string \<times> addr) list" where
  "erase_name n = filter (\<lambda>e. fst e \<noteq> n)"

definition am_publishPrepared :: "u32 \<Rightarrow> addr option \<Rightarrow> Policy \<Rightarrow> addr option \<times> Policy" where
  "am_publishPrepared uid prepared p =
     (case am_find uid p of
        Some a \<Rightarrow> (Some a, p)
      | None \<Rightarrow>
          (case prepared of
             None \<Rightarrow> (None, p)
           | Some a \<Rightarrow> (Some a, upd_am (\<lambda>m. m\<lparr>am_byUid := fst (omap_emplace uid a (am_byUid m)),
                am_byName := emplace_name (a_name (p_appHeap p a)) a (am_byName m)\<rparr>) p)))"

definition am_make :: "int \<Rightarrow> u32 \<Rightarrow> Policy \<Rightarrow> addr option \<times> Policy" where
  "am_make today uid p =
     (case am_find uid p of
        Some a \<Rightarrow> (Some a, p)
      | None \<Rightarrow> let (a, p1) = am_prepare today uid p in am_publishPrepared uid (Some a) p1)"

text \<open>\<^verbatim>\<open>create(uid, names...)\<close>, for a single name and for a vector; the object is made in any case.\<close>

definition am_create :: "bool \<Rightarrow> App \<Rightarrow> (App \<Rightarrow> Files \<Rightarrow> bool \<times> App \<times> Files) \<Rightarrow> u32 \<Rightarrow> Policy \<Rightarrow> addr \<times> Policy" where
  "am_create renameOk fresh upgrade uid p =
     (let (a0, p1) = alloc_app fresh p in
      case am_find uid p of
        None \<Rightarrow> (a0, upd_am (\<lambda>m. m\<lparr>am_byUid := fst (omap_emplace uid a0 (am_byUid m)),
                  am_byName := emplace_name (a_name fresh) a0 (am_byName m)\<rparr>) p1)
      | Some a \<Rightarrow>
          let old = p_appHeap p a; (upgraded, new, fs) = upgrade old (am_files (p_am p)) in
          if upgraded
          then (a, upd_am (\<lambda>m. m\<lparr>am_files := fs, am_byName := emplace_name (a_name new) a (erase_name (a_name old) (am_byName m))\<rparr>)
                     (upd_app a (\<lambda>_. new) p1))
          else (a, p1))"

definition install :: "bool \<Rightarrow> int \<Rightarrow> u32 \<Rightarrow> string list \<Rightarrow> Policy \<Rightarrow> Policy" where
  "install renameOk today uid names p =
     snd (if length names = 1
          then am_create renameOk (app_named (p_settings p) today uid (hd names)) (upgradeName renameOk (hd names)) uid p
          else am_create renameOk (app_anonymous today uid names) (upgradeName_vec renameOk names) uid p)"

definition removeFile :: "addr \<Rightarrow> Policy \<Rightarrow> Policy" where
  "removeFile a p =
     upd_am (\<lambda>m. m\<lparr>am_files := (am_files m)(a_saveFile (p_appHeap p a) := None)\<rparr>) (upd_app a (\<lambda>x. x\<lparr>a_saved := False\<rparr>) p)"

definition am_remove :: "u32 \<Rightarrow> Policy \<Rightarrow> Policy" where
  "am_remove uid p =
     (case am_find uid p of
        None \<Rightarrow> p
      | Some a \<Rightarrow> upd_am (\<lambda>m. m\<lparr>am_byUid := omap_erase uid (am_byUid m),
                      am_byName := erase_name (a_name (p_appHeap p a)) (am_byName m)\<rparr>) (removeFile a p))"

definition am_updateStats :: "int \<Rightarrow> addr option \<Rightarrow> addr \<Rightarrow> bool \<Rightarrow> Color \<Rightarrow> StatType \<Rightarrow> u64 \<Rightarrow> Policy \<Rightarrow> Policy" where
  "am_updateStats today dom0 app blocked cs ts val p =
     (let bs = (if blocked then B_BLOCK else B_AUTH);
          d = (case dom0 of Some d \<Rightarrow> d | None \<Rightarrow> dm_anonymousDom (p_dm p))
      in app_updateStats today app d ts cs bs val
           (upd_am (\<lambda>m. m\<lparr>am_stats := appstats_update today ts cs bs val (am_stats m)\<rparr>) p))"

definition all_apps :: "(App \<Rightarrow> App) \<Rightarrow> Policy \<Rightarrow> Policy" where
  "all_apps f p = fold (\<lambda>e. upd_app (snd e) f) (am_byUid (p_am p)) p"

definition am_resetView :: "int \<Rightarrow> nat \<Rightarrow> Policy \<Rightarrow> Policy" where
  "am_resetView today view = all_apps (app_reset today view)"

definition am_resetViewUser :: "int \<Rightarrow> nat \<Rightarrow> u32 option \<Rightarrow> Policy \<Rightarrow> Policy" where
  "am_resetViewUser today view user p = fold (\<lambda>a. upd_app a (app_reset today view)) (snapshotByUid user p) p"

definition am_resetDomainPolicySources :: "Policy \<Rightarrow> Policy" where
  "am_resetDomainPolicySources = all_apps (\<lambda>a. a\<lparr>a_sources := (\<lambda>_. 0, \<lambda>_. 0)\<rparr>)"

definition am_resetTraffic :: "Policy \<Rightarrow> Policy" where
  "am_resetTraffic = all_apps (\<lambda>a. a\<lparr>a_traffic := traffic_reset\<rparr>)"

text \<open>\<^verbatim>\<open>_stats.reset()\<close> clears all views.\<close>

definition am_reset :: "Policy \<Rightarrow> Policy" where
  "am_reset p =
     upd_am (\<lambda>m. m\<lparr>am_stats := stats_clear app_zero (am_stats m), am_byUid := [], am_byName := []\<rparr>)
       (fold (\<lambda>e. removeFile (snd e)) (am_byUid (p_am p)) p)"

definition am_resetCheckpointRuntimeMetrics :: "int \<Rightarrow> Policy \<Rightarrow> Policy" where
  "am_resetCheckpointRuntimeMetrics today p =
     all_apps (\<lambda>a. (app_reset today V_ALL a)\<lparr>a_sources := (\<lambda>_. 0, \<lambda>_. 0), a_traffic := traffic_reset\<rparr>)
       (upd_am (\<lambda>m. m\<lparr>am_stats := stats_clear app_zero (am_stats m)\<rparr>) p)"

end
