(* ===== verification/PacketWorld.thy ===== *)
theory PacketWorld
  imports L4Walker ConntrackGuarantees IpRulesGuarantees AppOps
begin

text \<open>
  What surrounds the packet decision: hosts (\<^verbatim>\<open>src/src/Host.cpp\<close>, \<^verbatim>\<open>HostManager.hpp\<close>), the classification of network
  interfaces (\<^verbatim>\<open>PacketManager.cpp\<close>), the activity of the top app (\<^verbatim>\<open>ActivityManager.cpp\<close>), the plan of the packet queues
  (\<^verbatim>\<open>NfqueueTopology.hpp\<close>), and the state of the daemon these and the engines form.
\<close>

section \<open>Hosts\<close>

record Host =
  ho_name :: string
  ho_resolved :: bool
  ho_ipv4 :: "u8 list list"
  ho_ipv6 :: "u8 list list"
  ho_domain :: "addr option"

definition host_new :: Host where
  "host_new = \<lparr>ho_name = [], ho_resolved = False, ho_ipv4 = [], ho_ipv6 = [], ho_domain = None\<rparr>"

record HostManager =
  hm_heap :: "addr \<Rightarrow> Host"
  hm_next :: addr
  hm_anonymousHost :: addr
  hm_hosts :: "addr list"
  hm_byName :: "(string \<times> addr list) list"
  hm_byIPv4 :: "u8 list \<Rightarrow> addr option"
  hm_byIPv6 :: "u8 list \<Rightarrow> addr option"

definition host_addIP :: "bool \<Rightarrow> u8 list \<Rightarrow> Host \<Rightarrow> Host" where
  "host_addIP v4 ip h = (if v4 then h\<lparr>ho_ipv4 := ho_ipv4 h @ [ip]\<rparr> else h\<lparr>ho_ipv6 := ho_ipv6 h @ [ip]\<rparr>)"

definition upd_host :: "addr \<Rightarrow> (Host \<Rightarrow> Host) \<Rightarrow> HostManager \<Rightarrow> HostManager" where
  "upd_host a f m = m\<lparr>hm_heap := (hm_heap m)(a := f (hm_heap m a))\<rparr>"

definition hm_find :: "bool \<Rightarrow> u8 list \<Rightarrow> HostManager \<Rightarrow> addr option" where
  "hm_find v4 ip m = (if v4 then hm_byIPv4 m else hm_byIPv6 m) ip"

text \<open>\<^verbatim>\<open>emplace(ip, host)\<close> and \<^verbatim>\<open>_byName.try_emplace(name).first->second.push_back(host)\<close>.\<close>

definition hm_index :: "bool \<Rightarrow> u8 list \<Rightarrow> addr \<Rightarrow> HostManager \<Rightarrow> HostManager" where
  "hm_index v4 ip a m =
     (let m1 = m\<lparr>hm_hosts := hm_hosts m @ [a]\<rparr> in
      if v4 then m1\<lparr>hm_byIPv4 := try_emplace_ip ip a (hm_byIPv4 m)\<rparr> else m1\<lparr>hm_byIPv6 := try_emplace_ip ip a (hm_byIPv6 m)\<rparr>)"

definition hm_addName :: "string \<Rightarrow> addr \<Rightarrow> HostManager \<Rightarrow> HostManager" where
  "hm_addName name a m =
     m\<lparr>hm_byName := AList.update name ((case map_of (hm_byName m) name of Some hs \<Rightarrow> hs | None \<Rightarrow> []) @ [a]) (hm_byName m)\<rparr>"

text \<open>\<open>ptr\<close> is the result of \<^verbatim>\<open>getnameinfo\<close> with \<^verbatim>\<open>NI_NAMEREQD\<close> for the address.\<close>

definition hm_prepare :: "string option \<Rightarrow> bool \<Rightarrow> u8 list \<Rightarrow> Policy \<Rightarrow> HostManager \<Rightarrow> addr \<times> HostManager" where
  "hm_prepare ptr v4 ip p m =
     (let a = hm_next m;
          h = (host_addIP v4 ip host_new)\<lparr>ho_domain := dm_findIP v4 ip p\<rparr>;
          h1 = (if set_reverseDns (p_settings p)
                then (case ptr of Some n \<Rightarrow> h\<lparr>ho_name := n, ho_resolved := True\<rparr> | None \<Rightarrow> h\<lparr>ho_resolved := True\<rparr>) else h)
      in (a, m\<lparr>hm_heap := (hm_heap m)(a := h1), hm_next := a + 1\<rparr>))"

definition hm_publishPrepared :: "bool \<Rightarrow> u8 list \<Rightarrow> addr option \<Rightarrow> HostManager \<Rightarrow> addr option \<times> HostManager" where
  "hm_publishPrepared v4 ip prepared m =
     (case hm_find v4 ip m of
        Some a \<Rightarrow> (Some a, m)
      | None \<Rightarrow>
          (case prepared of
             None \<Rightarrow> (None, m)
           | Some a \<Rightarrow>
               let m1 = hm_index v4 ip a m in
               (Some a, if ho_name (hm_heap m a) \<noteq> [] then hm_addName (ho_name (hm_heap m a)) a m1 else m1)))"

definition hm_make :: "string option \<Rightarrow> bool \<Rightarrow> u8 list \<Rightarrow> Policy \<Rightarrow> HostManager \<Rightarrow> addr option \<times> HostManager" where
  "hm_make ptr v4 ip p m =
     (case hm_find v4 ip m of
        Some a \<Rightarrow> (Some a, m)
      | None \<Rightarrow> let (a, m1) = hm_prepare ptr v4 ip p m in hm_publishPrepared v4 ip (Some a) m1)"

definition hm_create :: "string option \<Rightarrow> bool \<Rightarrow> bool \<Rightarrow> u8 list \<Rightarrow> Policy \<Rightarrow> HostManager \<Rightarrow> addr \<times> HostManager" where
  "hm_create ptr allowReverseDns v4 ip p m =
     (let (a, m1) = (case hm_find v4 ip m of
            Some a \<Rightarrow> (a, m)
          | None \<Rightarrow>
              let a = hm_next m; h = (host_addIP v4 ip host_new)\<lparr>ho_domain := dm_findIP v4 ip p\<rparr>
              in (a, (hm_index v4 ip a m)\<lparr>hm_heap := (hm_heap m)(a := h), hm_next := a + 1\<rparr>))
      in if allowReverseDns \<and> set_reverseDns (p_settings p) \<and> \<not> ho_resolved (hm_heap m1 a) then
           let m2 = (case ptr of
                 Some n \<Rightarrow> hm_addName n a (upd_host a (\<lambda>h. h\<lparr>ho_name := n\<rparr>) m1)
               | None \<Rightarrow> m1)
           in (a, upd_host a (\<lambda>h. h\<lparr>ho_resolved := True\<rparr>) m2)
         else (a, m1))"

definition hm_setDomain :: "bool \<Rightarrow> addr \<Rightarrow> u8 list \<Rightarrow> Policy \<Rightarrow> HostManager \<Rightarrow> HostManager" where
  "hm_setDomain v4 a ip p = upd_host a (\<lambda>h. h\<lparr>ho_domain := dm_findIP v4 ip p\<rparr>)"

definition hm_reset :: "HostManager \<Rightarrow> HostManager" where
  "hm_reset m = m\<lparr>hm_hosts := [], hm_byName := [], hm_byIPv4 := (\<lambda>_. None), hm_byIPv6 := (\<lambda>_. None)\<rparr>"

section \<open>Interfaces\<close>

text \<open>\<open>if_nameindex\<close> gives the interfaces with their index and what \<^verbatim>\<open>/sys/class/net\<close> says about them (the type, when the
  file can be read, and whether the directory \<^verbatim>\<open>wireless\<close> exists), or fails (\<open>None\<close>).\<close>

record NetIface =
  if_index :: u32
  if_type :: "u32 option"
  if_wireless :: bool

definition classify_iface :: "NetIface \<Rightarrow> u8" where
  "classify_iface i =
     (case if_type i of
        None \<Rightarrow> 128
      | Some t \<Rightarrow>
          if t = 1 then (if if_wireless i then 1 else 128)
          else if t = 512 \<or> t = 519 then 2
          else if t = 65534 then 4 else 128)"

record Ifaces =
  if_snap :: "u8 list option"
  if_lastRefreshNs :: int

definition refreshIfaces :: "NetIface list option \<Rightarrow> int \<Rightarrow> Ifaces \<Rightarrow> Ifaces" where
  "refreshIfaces sys nowNs s =
     (case sys of
        None \<Rightarrow> s\<lparr>if_lastRefreshNs := nowNs\<rparr>
      | Some is0 \<Rightarrow>
          let is = takeWhile (\<lambda>i. if_index i \<noteq> 0) is0;
              maxIndex = fold (\<lambda>i m. if m < if_index i then if_index i else m) is 0
          in \<lparr>if_snap = Some (fold (\<lambda>i v. v[unat (if_index i) := classify_iface i]) is (replicate (unat maxIndex + 1) 0)),
              if_lastRefreshNs = nowNs\<rparr>)"

definition iface_lookup :: "u32 \<Rightarrow> Ifaces \<Rightarrow> u8 option" where
  "iface_lookup iface s =
     (case if_snap s of Some v \<Rightarrow> if unat iface < length v then Some (v ! unat iface) else None | None \<Rightarrow> None)"

definition kIfaceRefreshCooldownNs :: int where "kIfaceRefreshCooldownNs = 200000000"
definition kIfacePassiveRefreshNs :: int where "kIfacePassiveRefreshNs = 30000000000"

text \<open>\<open>lockFree\<close> is whether \<^verbatim>\<open>try_lock\<close> gets the refresh mutex.\<close>

definition ifaceBit :: "NetIface list option \<Rightarrow> int \<Rightarrow> bool \<Rightarrow> u32 \<Rightarrow> Ifaces \<Rightarrow> u8 \<times> Ifaces" where
  "ifaceBit sys nowNs lockFree iface s =
     (case iface_lookup iface s of
        Some b \<Rightarrow> (b, s)
      | None \<Rightarrow>
          let s1 = (if kIfaceRefreshCooldownNs \<le> nowNs - if_lastRefreshNs s \<and> lockFree then refreshIfaces sys nowNs s else s)
          in ((case iface_lookup iface s1 of Some b \<Rightarrow> b | None \<Rightarrow> 0), s1))"

definition refreshIfacesPassive :: "NetIface list option \<Rightarrow> int \<Rightarrow> bool \<Rightarrow> Ifaces \<Rightarrow> Ifaces" where
  "refreshIfacesPassive sys nowNs lockFree s =
     (if nowNs - if_lastRefreshNs s < kIfacePassiveRefreshNs then s
      else if lockFree then refreshIfaces sys nowNs s else s)"

section \<open>Activity\<close>

record Activity =
  ac_topApp :: "addr option"
  ac_timestampMs :: int

text \<open>The new state and what is streamed: nothing, or an activity of the given app (\<open>None\<close> for no app).\<close>

definition act_make :: "addr option \<Rightarrow> Activity \<Rightarrow> addr option option \<times> Activity" where
  "act_make app s = (Some app, s\<lparr>ac_topApp := app\<rparr>)"

definition act_update :: "int \<Rightarrow> addr option \<Rightarrow> bool \<Rightarrow> Activity \<Rightarrow> addr option option \<times> Activity" where
  "act_update nowMs app force s =
     (if app = None then (Some None, s)
      else if app = ac_topApp s then
        (if force \<or> 500 \<le> nowMs - ac_timestampMs s then (Some app, s\<lparr>ac_timestampMs := nowMs\<rparr>) else (None, s))
      else (None, s))"

definition act_reset :: "int \<Rightarrow> Activity \<Rightarrow> Activity" where
  "act_reset nowMs s = \<lparr>ac_topApp = None, ac_timestampMs = nowMs\<rparr>"

section \<open>Queues\<close>

datatype NfqueueTopology = SplitInOut | SharedFlowPool
datatype NfqueuePacketDirection = Nfq_Input | Nfq_Output

fun nfqueueTopologyToString :: "NfqueueTopology \<Rightarrow> string" where
  "nfqueueTopologyToString SplitInOut = ''split-in-out''"
| "nfqueueTopologyToString SharedFlowPool = ''shared-flow-pool''"

definition parseNfqueueTopology :: "string \<Rightarrow> NfqueueTopology option" where
  "parseNfqueueTopology v =
     (if v = ''split-in-out'' then Some SplitInOut else if v = ''shared-flow-pool'' then Some SharedFlowPool else None)"

record NfqueueRange =
  nq_first :: u32
  nq_count :: u32

record NfqueueQueuePlan =
  qp_input :: NfqueueRange
  qp_output :: NfqueueRange
  qp_listeners :: NfqueueRange

definition makeNfqueueQueuePlan :: "NfqueueTopology \<Rightarrow> u32 \<Rightarrow> u32 \<Rightarrow> NfqueueQueuePlan" where
  "makeNfqueueQueuePlan t firstQueue queueCount =
     (let all = \<lparr>nq_first = firstQueue, nq_count = queueCount\<rparr> in
      if t = SharedFlowPool then \<lparr>qp_input = all, qp_output = all, qp_listeners = all\<rparr>
      else
        let inputCount = queueCount div 2; outputCount = queueCount - inputCount in
        \<lparr>qp_input = \<lparr>nq_first = firstQueue, nq_count = inputCount\<rparr>,
         qp_output = \<lparr>nq_first = firstQueue + inputCount, nq_count = outputCount\<rparr>, qp_listeners = all\<rparr>)"

definition nfqueueHookToDirection :: "u8 \<Rightarrow> NfqueuePacketDirection option" where
  "nfqueueHookToDirection hook = (if hook = 1 then Some Nfq_Input else if hook = 3 then Some Nfq_Output else None)"

text \<open>\<^verbatim>\<open>PacketListener::start\<close>: an even number of at least four queues per family, IPv6 after IPv4.\<close>

definition listener_threads :: "u32 \<Rightarrow> u32" where
  "listener_threads hw = (if hw < 4 then 4 else if hw mod 2 \<noteq> 0 then hw + 1 else hw)"

definition listener_plan :: "NfqueueTopology \<Rightarrow> u32 \<Rightarrow> bool \<Rightarrow> NfqueueQueuePlan" where
  "listener_plan t hw v4 = (let n = listener_threads hw in makeNfqueueQueuePlan t (if v4 then 0 else n) n)"

section \<open>The state of the daemon\<close>

record Daemon =
  dn_policy :: Policy
  dn_hosts :: HostManager
  dn_activity :: Activity
  dn_ifaces :: Ifaces
  dn_engine :: Engine
  dn_ct :: Conntrack
  dn_tele :: FlowTelemetry
  dn_reasons :: "PacketReasonId ShardedMetrics"
  dn_cache4 :: "PacketKeyV4 Cache"
  dn_cache6 :: "PacketKeyV6 Cache"

definition on_policy :: "(Policy \<Rightarrow> Policy) \<Rightarrow> Daemon \<Rightarrow> Daemon" where
  "on_policy f w = w\<lparr>dn_policy := f (dn_policy w)\<rparr>"

definition on_ct :: "(Conntrack \<times> FlowTelemetry \<Rightarrow> Conntrack \<times> FlowTelemetry) \<Rightarrow> Daemon \<Rightarrow> Daemon" where
  "on_ct f w = (let cf = f (dn_ct w, dn_tele w) in w\<lparr>dn_ct := fst cf, dn_tele := snd cf\<rparr>)"

text \<open>\<^verbatim>\<open>AppManager::updateStats\<close> with the notification of the activity stream.\<close>

definition updateStats :: "int \<Rightarrow> int \<Rightarrow> addr option \<Rightarrow> addr \<Rightarrow> bool \<Rightarrow> Color \<Rightarrow> StatType \<Rightarrow> u64 \<Rightarrow> Daemon \<Rightarrow> Daemon" where
  "updateStats today nowMs dom0 app blocked cs ts val w =
     (let w1 = on_policy (am_updateStats today dom0 app blocked cs ts val) w
      in w1\<lparr>dn_activity := snd (act_update nowMs (Some app) False (dn_activity w1))\<rparr>)"

definition pm_reset :: "Daemon \<Rightarrow> Daemon" where
  "pm_reset w = w\<lparr>dn_reasons := metrics_reset (dn_reasons w), dn_engine := resetAll (dn_engine w), dn_ct := conntrack_reset (dn_ct w)\<rparr>"

definition pm_resetCheckpointRuntimeEpoch :: "Daemon \<Rightarrow> Daemon" where
  "pm_resetCheckpointRuntimeEpoch w = w\<lparr>dn_reasons := metrics_reset (dn_reasons w), dn_ct := conntrack_reset (dn_ct w)\<rparr>"

end
