(* ===== verification/PacketPath.thy ===== *)
theory PacketPath
  imports PacketWorld
begin

text \<open>
  The decision for a packet (\<^verbatim>\<open>PacketManager::make\<close>, \<^verbatim>\<open>src/src/PacketManager.hpp\<close>): the block of interfaces, the IP rules
  with connection tracking, the default verdict, and what is recorded on the way - reasons, traffic, statistics, rule
  hits, flow telemetry, the event with its explanation. The template argument is a record of the operations that depend
  on the address family.
\<close>

section \<open>Events\<close>

record PktIfaceEvidence =
  pie_appIfaceMask :: u32
  pie_packetIfaceKindBit :: u32
  pie_evaluatedIntersection :: u32
  pie_packetIfaceKind :: string
  pie_blocked :: bool
  pie_shortCircuitReason :: "string option"

record PktStage =
  ps_name :: string
  ps_enabled :: bool
  ps_evaluated :: bool
  ps_matched :: bool
  ps_outcome :: string
  ps_winner :: bool
  ps_skipReason :: "string option"
  ps_ruleIds :: "u32 list"
  ps_ruleSnapshots :: "IpRulesRuleSnapshot list"
  ps_truncated :: bool
  ps_omitted :: "u32 option"
  ps_ifaceBlock :: "PktIfaceEvidence option"

text \<open>The four stages \<^verbatim>\<open>ifaceBlock\<close>, \<^verbatim>\<open>iprules.enforce\<close>, \<^verbatim>\<open>domainIpLeak\<close>, \<^verbatim>\<open>iprules.would\<close>.\<close>

record PktStages =
  sg_iface :: PktStage
  sg_enforce :: PktStage
  sg_domain :: PktStage
  sg_would :: PktStage

definition stage_init :: "string \<Rightarrow> bool \<Rightarrow> bool \<Rightarrow> string \<Rightarrow> PktStage" where
  "stage_init name enabled evaluated outcome =
     \<lparr>ps_name = name, ps_enabled = enabled, ps_evaluated = evaluated, ps_matched = False, ps_outcome = outcome,
      ps_winner = False, ps_skipReason = None, ps_ruleIds = [], ps_ruleSnapshots = [], ps_truncated = False,
      ps_omitted = None, ps_ifaceBlock = None\<rparr>"

definition stages_init :: "Settings \<Rightarrow> PktStages" where
  "stages_init s =
     \<lparr>sg_iface = stage_init ''ifaceBlock'' (set_blockEnabled s) True ''allow'',
      sg_enforce = stage_init ''iprules.enforce'' (set_ipRulesEnabled s) False ''none'',
      sg_domain = stage_init ''domainIpLeak'' (set_blockEnabled s) False ''none'',
      sg_would = stage_init ''iprules.would'' (set_ipRulesEnabled s) False ''none''\<rparr>"

definition stage_list :: "PktStages \<Rightarrow> PktStage list" where
  "stage_list s = [sg_iface s, sg_enforce s, sg_domain s, sg_would s]"

definition map_stages :: "(PktStage \<Rightarrow> PktStage) \<Rightarrow> PktStages \<Rightarrow> PktStages" where
  "map_stages f s = \<lparr>sg_iface = f (sg_iface s), sg_enforce = f (sg_enforce s), sg_domain = f (sg_domain s), sg_would = f (sg_would s)\<rparr>"

definition shortCircuited :: "PktStage \<Rightarrow> PktStage" where
  "shortCircuited s = s\<lparr>ps_evaluated := False, ps_matched := False, ps_winner := False, ps_outcome := ''none'',
     ps_skipReason := Some ''shortCircuited'', ps_ruleIds := [], ps_ruleSnapshots := [], ps_truncated := False, ps_omitted := None\<rparr>"

fun markAfter :: "string \<Rightarrow> bool \<Rightarrow> PktStage list \<Rightarrow> PktStage list" where
  "markAfter win after [] = []"
| "markAfter win after (s # ss) =
     (if after \<and> ps_enabled s then shortCircuited s
      else if \<not> ps_enabled s then s\<lparr>ps_skipReason := Some ''disabled''\<rparr> else s)
     # markAfter win (after \<or> ps_name s = win) ss"

definition stages_of :: "PktStage list \<Rightarrow> PktStages" where
  "stages_of ss = \<lparr>sg_iface = ss ! 0, sg_enforce = ss ! 1, sg_domain = ss ! 2, sg_would = ss ! 3\<rparr>"

definition markPacketStagesShortCircuitedAfter :: "string \<Rightarrow> PktStages \<Rightarrow> PktStages" where
  "markPacketStagesShortCircuitedAfter win s = stages_of (markAfter win False (stage_list s))"

text \<open>The event: \<open>ev_flow\<close> groups the fields of \<^verbatim>\<open>PktEvent\<close> that describe the packet, the rest is \<^verbatim>\<open>PktExplainSnapshot\<close>.\<close>

record PktFlow =
  fl_srcIp :: "u8 list"
  fl_dstIp :: "u8 list"
  fl_ipVersion :: u8
  fl_ifindex :: u32
  fl_proto :: u16
  fl_l4Status :: L4Status
  fl_srcPort :: u16
  fl_dstPort :: u16
  fl_length :: u16
  fl_ifaceKindBit :: u8
  fl_input :: bool

record PktInputs =
  pi_blockEnabled :: bool
  pi_iprulesEnabled :: bool
  pi_direction :: string
  pi_ipVersion :: u8
  pi_protocol :: string
  pi_l4Status :: string
  pi_ifindex :: u32
  pi_ifaceKindBit :: u8
  pi_ifaceKind :: string
  pi_conntrackEvaluated :: bool
  pi_conntrackState :: "string option"
  pi_conntrackDirection :: "string option"

record PktFinal =
  pn_accepted :: bool
  pn_reasonId :: PacketReasonId
  pn_ruleId :: "u32 option"
  pn_wouldRuleId :: "u32 option"
  pn_wouldDrop :: bool

record PktEvent =
  ev_ts :: "u64 \<times> u64"
  ev_uid :: u32
  ev_userId :: u32
  ev_app :: string
  ev_host :: addr
  ev_flow :: PktFlow
  ev_accepted :: bool
  ev_reasonId :: PacketReasonId
  ev_ruleId :: "u32 option"
  ev_wouldRuleId :: "u32 option"
  ev_inputs :: PktInputs
  ev_final :: PktFinal
  ev_stages :: "PktStage list"

fun l4StatusStr :: "L4Status \<Rightarrow> string" where
  "l4StatusStr KNOWN_L4 = ''known-l4''"
| "l4StatusStr OTHER_TERMINAL = ''other-terminal''"
| "l4StatusStr FRAGMENT = ''fragment''"
| "l4StatusStr INVALID_OR_UNAVAILABLE_L4 = ''invalid-or-unavailable-l4''"

definition protocolStr :: "u16 \<Rightarrow> string" where
  "protocolStr p = (if p = 6 then ''tcp'' else if p = 17 then ''udp'' else if p = 1 \<or> p = 58 then ''icmp'' else ''other'')"

definition ifaceKindStr :: "u8 \<Rightarrow> string" where
  "ifaceKindStr b = (if b = 1 then ''wifi'' else if b = 2 then ''data'' else if b = 4 then ''vpn''
     else if b = 128 then ''unmanaged'' else ''unknown'')"

definition ctStateStr :: "u8 \<Rightarrow> string" where
  "ctStateStr s = (if s = 1 then ''new'' else if s = 2 then ''established'' else if s = 3 then ''invalid'' else ''any'')"

definition ctDirectionStr :: "u8 \<Rightarrow> string" where
  "ctDirectionStr d = (if d = 1 then ''orig'' else if d = 2 then ''reply'' else ''any'')"

section \<open>Arguments\<close>

text \<open>\<open>pa_src\<close> and \<open>pa_dst\<close> are the bytes of an \<^verbatim>\<open>Address<IP>\<close>: 4 for IPv4, 16 for IPv6.\<close>

record 'ip PktArgs =
  pa_src :: "u8 list"
  pa_dst :: "u8 list"
  pa_app :: addr
  pa_host :: addr
  pa_input :: bool
  pa_iface :: u32
  pa_uidKnown :: bool
  pa_ifindexKnown :: bool
  pa_ts :: "u64 \<times> u64"
  pa_l4 :: L4ParseResult
  pa_len :: u16
  pa_ifaceKindBit :: u8
  pa_appIfaceMask :: u8
  pa_ctPkt :: "'ip CtPacket option"
  pa_wantEvent :: bool

text \<open>The thread, the wall clock in seconds, the calendar day and the monotonic clock in milliseconds.\<close>

record Env =
  en_thread :: nat
  en_now :: int
  en_today :: int
  en_nowMs :: int

record 'ip PktFamily =
  pf_v4 :: bool
  pf_family :: Family
  pf_maskBit :: u8
  pf_addr :: "u8 list \<Rightarrow> 'ip"
  pf_inspect :: "nat \<Rightarrow> 'ip CtPacket \<Rightarrow> Conntrack \<times> FlowTelemetry \<Rightarrow> PolicyView \<times> Conntrack \<times> FlowTelemetry"
  pf_commit :: "'ip CtPacket \<Rightarrow> PolicyView \<Rightarrow> Conntrack \<times> FlowTelemetry \<Rightarrow> Conntrack \<times> FlowTelemetry"
  pf_observe :: "nat \<Rightarrow> 'ip CtPacket \<Rightarrow> CtResult \<Rightarrow> HotPath \<Rightarrow> TelemetryPacketFacts \<Rightarrow> Conntrack \<times> FlowTelemetry \<Rightarrow> Conntrack \<times> FlowTelemetry"
  pf_evaluate :: "HotSnapshot \<Rightarrow> 'ip PacketKey \<Rightarrow> Daemon \<Rightarrow> Decision \<times> Daemon"
  pf_explainEnforce :: "HotSnapshot \<Rightarrow> 'ip PacketKey \<Rightarrow> u32 option \<Rightarrow> IpRulesRuleSnapshot list \<times> bool \<times> u32 option"
  pf_explainWould :: "HotSnapshot \<Rightarrow> 'ip PacketKey \<Rightarrow> u32 option \<Rightarrow> IpRulesRuleSnapshot list \<times> bool \<times> u32 option"

text \<open>\<^verbatim>\<open>v4HostFromNetBytes\<close>.\<close>

definition v4HostFromNetBytes :: "u8 list \<Rightarrow> u32" where
  "v4HostFromNetBytes b =
     push_bit 24 (ucast (b ! 0)) OR push_bit 16 (ucast (b ! 1)) OR push_bit 8 (ucast (b ! 2)) OR ucast (b ! 3)"

definition pktFam4 :: "(u32 \<Rightarrow> string option) \<Rightarrow> u32 PktFamily" where
  "pktFam4 ntop4 =
     \<lparr>pf_v4 = True, pf_family = IPV4, pf_maskBit = 1, pf_addr = v4HostFromNetBytes, pf_inspect = inspectForPolicyV4,
      pf_commit = commitAcceptedV4, pf_observe = observeFlowTelemetryV4,
      pf_evaluate = (\<lambda>hs k w. let (d, c) = hot_evaluate hs k (dn_cache4 w) in (d, w\<lparr>dn_cache4 := c\<rparr>)),
      pf_explainEnforce = hot_explainEnforce ntop4, pf_explainWould = hot_explainWould ntop4\<rparr>"

definition pktFam6 :: "(ip6 \<Rightarrow> string option) \<Rightarrow> u8 list PktFamily" where
  "pktFam6 ntop6 =
     \<lparr>pf_v4 = False, pf_family = IPV6, pf_maskBit = 2, pf_addr = (\<lambda>b. take 16 b), pf_inspect = inspectForPolicyV6,
      pf_commit = commitAcceptedV6, pf_observe = observeFlowTelemetryV6,
      pf_evaluate = (\<lambda>hs k w. let (d, c) = hot_evaluateV6 hs k (dn_cache6 w) in (d, w\<lparr>dn_cache6 := c\<rparr>)),
      pf_explainEnforce = hot_explainEnforceV6 ntop6, pf_explainWould = hot_explainWouldV6 ntop6\<rparr>"

section \<open>Connection tracking on demand\<close>

definition l4AllowsCt :: "L4ParseResult \<Rightarrow> bool" where
  "l4AllowsCt l4 \<longleftrightarrow> l4Status l4 \<noteq> FRAGMENT \<and> l4Status l4 \<noteq> INVALID_OR_UNAVAILABLE_L4"

text \<open>\<^verbatim>\<open>ensureCtPolicyView\<close>: the view, when there is one, and the state; the table is inspected at most once.\<close>

definition ensureCtPolicyView ::
  "'ip PktFamily \<Rightarrow> Env \<Rightarrow> 'ip PktArgs \<Rightarrow> PolicyView option \<Rightarrow> Daemon \<Rightarrow> PolicyView option \<times> Daemon" where
  "ensureCtPolicyView F env a view w =
     (case view of
        Some v \<Rightarrow> (Some v, w)
      | None \<Rightarrow>
          if \<not> l4AllowsCt (pa_l4 a) then (None, w)
          else case pa_ctPkt a of
                 None \<Rightarrow> (None, w)
               | Some pkt \<Rightarrow>
                   let (v, ct, tele) = pf_inspect F (en_thread env) pkt (dn_ct w, dn_tele w)
                   in (Some v, w\<lparr>dn_ct := ct, dn_tele := tele\<rparr>))"

definition currentCtResult :: "PolicyView option \<Rightarrow> CtResult" where
  "currentCtResult view = (case view of Some v \<Rightarrow> v_result v | None \<Rightarrow> \<lparr>r_state = CT_INVALID, r_direction = DIR_ANY\<rparr>)"

definition commit_view :: "'ip PktFamily \<Rightarrow> 'ip PktArgs \<Rightarrow> bool \<Rightarrow> PolicyView option \<Rightarrow> Daemon \<Rightarrow> Daemon" where
  "commit_view F a verdict view w =
     (case (verdict, view, pa_ctPkt a) of
        (True, Some v, Some pkt) \<Rightarrow> on_ct (pf_commit F pkt v) w
      | _ \<Rightarrow> w)"

definition telemetry_facts :: "'ip PktArgs \<Rightarrow> 'ip CtPacket \<Rightarrow> u32 \<Rightarrow> bool \<Rightarrow> PacketReasonId \<Rightarrow> u32 option \<Rightarrow> TelemetryPacketFacts" where
  "telemetry_facts a pkt uid accepted reason rid =
     \<lparr>tf_packetDir = (if pa_input a then PacketDir_In else PacketDir_Out),
      tf_verdict = (if accepted then FlowVerdict_Allow else FlowVerdict_Block),
      tf_ifaceKindBit = pa_ifaceKindBit a, tf_l4Status = l4_u8 (l4Status (pa_l4 a)),
      tf_icmpType = (if pk_hasIcmp pkt then icmp_type (pk_icmp pkt) else 0),
      tf_icmpCode = (if pk_hasIcmp pkt then icmp_code (pk_icmp pkt) else 0),
      tf_icmpId = (if pk_hasIcmp pkt then icmp_id (pk_icmp pkt) else 0),
      tf_uidKnown = pa_uidKnown a, tf_ifindexKnown = pa_ifindexKnown a,
      tf_portsAvailable = (l4_portsAvailable (pa_l4 a) \<noteq> 0), tf_userId = userId uid, tf_ifindex = pa_iface a,
      tf_reasonId = reason, tf_ruleId = rid, tf_srcAddrNet = pa_src a, tf_dstAddrNet = pa_dst a,
      tf_packetBytes = ucast (pa_len a)\<rparr>"

definition observeTelemetryFlow ::
  "'ip PktFamily \<Rightarrow> Env \<Rightarrow> 'ip PktArgs \<Rightarrow> HotPath \<Rightarrow> bool \<Rightarrow> PacketReasonId \<Rightarrow> u32 option \<Rightarrow> CtResult \<Rightarrow> Daemon \<Rightarrow> Daemon" where
  "observeTelemetryFlow F env a hot accepted reason rid ctRes w =
     (if hp_cfg hot = None then w
      else case pa_ctPkt a of
             None \<Rightarrow> w
           | Some pkt \<Rightarrow>
               on_ct (pf_observe F (en_thread env) pkt ctRes hot
                 (telemetry_facts a pkt (a_uid (p_appHeap (dn_policy w) (pa_app a))) accepted reason rid)) w)"

section \<open>The IP rules of a packet\<close>

definition ipRulesProtoTok :: "L4ParseResult \<Rightarrow> u8" where
  "ipRulesProtoTok l4 =
     (let p = l4_proto l4 in
      if p = 6 then proto_u8 Proto_TCP
      else if p = 17 then proto_u8 Proto_UDP
      else if p = 1 \<or> p = 58 then proto_u8 Proto_ICMP
      else if l4Status l4 = INVALID_OR_UNAVAILABLE_L4 then proto_u8 Proto_UNKNOWN
      else proto_u8 Proto_OTHER)"

definition packet_key :: "'ip PktFamily \<Rightarrow> 'ip PktArgs \<Rightarrow> u32 \<Rightarrow> u8 \<times> u8 \<Rightarrow> 'ip PacketKey" where
  "packet_key F a uid ct =
     \<lparr>k_uid = uid, k_dir = (if pa_input a then 0 else 1), k_ifaceKind = pa_ifaceKindBit a, k_proto = ipRulesProtoTok (pa_l4 a),
      k_ifindex = pa_iface a, k_srcIp = pf_addr F (pa_src a), k_dstIp = pf_addr F (pa_dst a), k_srcPort = l4_srcPort (pa_l4 a),
      k_dstPort = l4_dstPort (pa_l4 a), k_portsAvailable = l4_portsAvailable (pa_l4 a), k_ctState = fst ct, k_ctDir = snd ct\<rparr>"

text \<open>Whether the rules of the app look at connection tracking: the cached mask of the app, when it is of this epoch,
  otherwise computed and stored.\<close>

definition caps_mask :: "HotSnapshot \<Rightarrow> u32 \<Rightarrow> u8" where
  "caps_mask hs uid = (if uidUsesCt hs uid IPV4 then 1 else 0) OR (if uidUsesCt hs uid IPV6 then 2 else 0)"

definition uses_ct :: "'ip PktFamily \<Rightarrow> 'ip PktArgs \<Rightarrow> HotSnapshot \<Rightarrow> Daemon \<Rightarrow> bool \<times> Daemon" where
  "uses_ct F a hs w =
     (let epoch = hot_rulesEpoch hs; app = p_appHeap (dn_policy w) (pa_app a) in
      if epoch = 0 then (False, w)
      else case usesCtMaskIfFresh (a_ipRulesCaps app) epoch of
             Some m \<Rightarrow> (m AND pf_maskBit F \<noteq> 0, w)
           | None \<Rightarrow>
               let m = caps_mask hs (a_uid app) in
               (m AND pf_maskBit F \<noteq> 0,
                on_policy (upd_app (pa_app a) (\<lambda>x. x\<lparr>a_ipRulesCaps := setUsesCtMask epoch m\<rparr>)) w))"

definition captureIpRulesExplain :: "'ip PktFamily \<Rightarrow> HotSnapshot \<Rightarrow> 'ip PacketKey \<Rightarrow> Decision \<Rightarrow> PktStages \<Rightarrow> PktStages" where
  "captureIpRulesExplain F hs k d sg =
     (let isEnf = (d_kind d = D_ALLOW \<or> d_kind d = D_BLOCK);
          (rs, tr, om) = pf_explainEnforce F hs k (if isEnf then Some (d_ruleId d) else None);
          m = (rs \<noteq> []);
          e = (sg_enforce sg)\<lparr>ps_evaluated := True, ps_ruleSnapshots := rs, ps_truncated := tr, ps_omitted := om,
                 ps_ruleIds := map rs_ruleId rs, ps_matched := m,
                 ps_outcome := (if d_kind d = D_ALLOW then ''allow'' else if d_kind d = D_BLOCK then ''block''
                                else if m then ''shadowed'' else ''none''),
                 ps_winner := isEnf\<rparr>;
          sg1 = sg\<lparr>sg_enforce := e\<rparr>
      in if d_kind d = WOULD_BLOCK then
           let (rs', tr', om') = pf_explainWould F hs k (Some (d_ruleId d)); m' = (rs' \<noteq> []) in
           sg1\<lparr>sg_would := (sg_would sg)\<lparr>ps_ruleSnapshots := rs', ps_truncated := tr', ps_omitted := om',
                  ps_ruleIds := map rs_ruleId rs', ps_matched := m', ps_outcome := (if m' then ''wouldBlock'' else ''none'')\<rparr>\<rparr>
         else sg1)"

text \<open>The part of \<^verbatim>\<open>make\<close> under \<^verbatim>\<open>if (settings.ipRulesEnabled())\<close>, up to the decision.\<close>

record RulesStage =
  rg_decision :: Decision
  rg_view :: "PolicyView option"
  rg_ct :: "(u8 \<times> u8) option"
  rg_stages :: PktStages
  rg_world :: Daemon

definition rules_stage :: "'ip PktFamily \<Rightarrow> Env \<Rightarrow> 'ip PktArgs \<Rightarrow> bool \<Rightarrow> bool \<Rightarrow> PktStages \<Rightarrow> Daemon \<Rightarrow> RulesStage" where
  "rules_stage F env a teleActive explain sg w =
     (let hs = hotSnapshot (dn_engine w);
          (uses0, w1) = uses_ct F a hs w;
          uid = a_uid (p_appHeap (dn_policy w) (pa_app a));
          (view, w2) = (if (uses0 \<or> teleActive) \<and> l4AllowsCt (pa_l4 a) then ensureCtPolicyView F env a None w1 else (None, w1));
          ct = (if uses0 \<or> teleActive
                then Some (case view of Some v \<Rightarrow> (connState_u8 (r_state (v_result v)), connDir_u8 (r_direction (v_result v)))
                                      | None \<Rightarrow> (connState_u8 CT_INVALID, 0))
                else None);
          k = packet_key F a uid (case ct of Some c \<Rightarrow> c | None \<Rightarrow> (0, 0));
          (d, w3) = pf_evaluate F hs k w2
      in \<lparr>rg_decision = d, rg_view = view, rg_ct = ct,
          rg_stages = (if explain then captureIpRulesExplain F hs k d sg else sg), rg_world = w3\<rparr>)"

section \<open>Recording a verdict\<close>

text \<open>\<^verbatim>\<open>_reasonMetrics.observe\<close> and \<^verbatim>\<open>app->observeTrafficPacket\<close>.\<close>

definition record_verdict :: "Env \<Rightarrow> 'ip PktArgs \<Rightarrow> bool \<Rightarrow> PacketReasonId \<Rightarrow> Daemon \<Rightarrow> Daemon" where
  "record_verdict env a verdict reason w =
     on_policy (upd_app (pa_app a) (observeTrafficPacket (pa_input a) verdict (ucast (pa_len a))))
       (w\<lparr>dn_reasons := metrics_observe (en_thread env) (add_both reason 1 (ucast (pa_len a))) (dn_reasons w)\<rparr>)"

text \<open>The statistics of a tracked app: one packet and its bytes.\<close>

definition tracked_stats :: "Env \<Rightarrow> 'ip PktArgs \<Rightarrow> bool \<Rightarrow> addr option \<Rightarrow> bool \<Rightarrow> Color \<Rightarrow> Daemon \<Rightarrow> Daemon" where
  "tracked_stats env a tracked dom0 blocked cs w =
     (if tracked then
        updateStats (en_today env) (en_nowMs env) dom0 (pa_app a) blocked cs (if pa_input a then T_RXB else T_TXB) (ucast (pa_len a))
          (updateStats (en_today env) (en_nowMs env) dom0 (pa_app a) blocked cs (if pa_input a then T_RXP else T_TXP) 1 w)
      else w)"

definition skip_disabled :: "PktStage \<Rightarrow> PktStage" where
  "skip_disabled s = (if \<not> ps_enabled s \<and> ps_skipReason s = None then s\<lparr>ps_skipReason := Some ''disabled''\<rparr> else s)"

definition fillStreamEvent ::
  "'ip PktFamily \<Rightarrow> 'ip PktArgs \<Rightarrow> Policy \<Rightarrow> PktStages \<Rightarrow> (u8 \<times> u8) option \<Rightarrow> bool \<Rightarrow> PacketReasonId \<Rightarrow> u32 option \<Rightarrow> u32 option \<Rightarrow> PktEvent" where
  "fillStreamEvent F a p sg ct accepted reason ruleId wouldRuleId =
     (let app = p_appHeap p (pa_app a); n = (if pf_v4 F then 4 else 16) in
      \<lparr>ev_ts = pa_ts a, ev_uid = a_uid app, ev_userId = userId (a_uid app), ev_app = a_name app, ev_host = pa_host a,
       ev_flow = \<lparr>fl_srcIp = take n (pa_src a) @ replicate (16 - n) 0, fl_dstIp = take n (pa_dst a) @ replicate (16 - n) 0,
         fl_ipVersion = (if pf_v4 F then 4 else 6), fl_ifindex = pa_iface a, fl_proto = l4_proto (pa_l4 a),
         fl_l4Status = l4Status (pa_l4 a), fl_srcPort = l4_srcPort (pa_l4 a), fl_dstPort = l4_dstPort (pa_l4 a),
         fl_length = pa_len a, fl_ifaceKindBit = pa_ifaceKindBit a, fl_input = pa_input a\<rparr>,
       ev_accepted = accepted, ev_reasonId = reason, ev_ruleId = ruleId, ev_wouldRuleId = wouldRuleId,
       ev_inputs = \<lparr>pi_blockEnabled = set_blockEnabled (p_settings p), pi_iprulesEnabled = set_ipRulesEnabled (p_settings p),
         pi_direction = (if pa_input a then ''in'' else ''out''), pi_ipVersion = (if pf_v4 F then 4 else 6),
         pi_protocol = protocolStr (l4_proto (pa_l4 a)), pi_l4Status = l4StatusStr (l4Status (pa_l4 a)), pi_ifindex = pa_iface a,
         pi_ifaceKindBit = pa_ifaceKindBit a, pi_ifaceKind = ifaceKindStr (pa_ifaceKindBit a), pi_conntrackEvaluated = (ct \<noteq> None),
         pi_conntrackState = map_option (\<lambda>c. ctStateStr (fst c)) ct, pi_conntrackDirection = map_option (\<lambda>c. ctDirectionStr (snd c)) ct\<rparr>,
       ev_final = \<lparr>pn_accepted = accepted, pn_reasonId = reason, pn_ruleId = ruleId, pn_wouldRuleId = wouldRuleId,
         pn_wouldDrop = (wouldRuleId \<noteq> None)\<rparr>,
       ev_stages = stage_list (map_stages skip_disabled sg)\<rparr>)"

text \<open>The packet object of the legacy stream.\<close>

record LegacyPacket =
  lp_verdict :: bool
  lp_reasonId :: PacketReasonId
  lp_ruleId :: "u32 option"
  lp_wouldRuleId :: "u32 option"

record PktOut =
  po_verdict :: bool
  po_tracked :: bool
  po_event :: "PktEvent option"
  po_packet :: "LegacyPacket option"

definition finish ::
  "'ip PktFamily \<Rightarrow> 'ip PktArgs \<Rightarrow> bool \<Rightarrow> bool \<Rightarrow> PktStages \<Rightarrow> (u8 \<times> u8) option \<Rightarrow> bool \<Rightarrow> PacketReasonId \<Rightarrow> u32 option \<Rightarrow> u32 option \<Rightarrow>
   Daemon \<Rightarrow> PktOut \<times> Daemon" where
  "finish F a tracked explain sg ct verdict reason ruleId wouldRuleId w =
     (\<lparr>po_verdict = verdict, po_tracked = tracked,
       po_event = (if explain then Some (fillStreamEvent F a (dn_policy w) sg ct verdict reason ruleId wouldRuleId) else None),
       po_packet = (if tracked then Some \<lparr>lp_verdict = verdict, lp_reasonId = reason, lp_ruleId = ruleId,
                      lp_wouldRuleId = wouldRuleId\<rparr> else None)\<rparr>, w)"

section \<open>The three outcomes\<close>

definition iface_evidence :: "'ip PktArgs \<Rightarrow> bool \<Rightarrow> string option \<Rightarrow> PktIfaceEvidence" where
  "iface_evidence a blocked reason =
     \<lparr>pie_appIfaceMask = ucast (pa_appIfaceMask a), pie_packetIfaceKindBit = ucast (pa_ifaceKindBit a),
      pie_evaluatedIntersection = ucast (pa_appIfaceMask a AND pa_ifaceKindBit a),
      pie_packetIfaceKind = ifaceKindStr (pa_ifaceKindBit a), pie_blocked = blocked, pie_shortCircuitReason = reason\<rparr>"

definition on_iface :: "(PktStage \<Rightarrow> PktStage) \<Rightarrow> PktStages \<Rightarrow> PktStages" where
  "on_iface f sg = sg\<lparr>sg_iface := f (sg_iface sg)\<rparr>"

definition iface_drop ::
  "'ip PktFamily \<Rightarrow> Env \<Rightarrow> 'ip PktArgs \<Rightarrow> HotPath \<Rightarrow> bool \<Rightarrow> bool \<Rightarrow> PktStages \<Rightarrow> Daemon \<Rightarrow> PktOut \<times> Daemon" where
  "iface_drop F env a hot tracked explain sg w =
     (let sg1 = markPacketStagesShortCircuitedAfter ''ifaceBlock''
            (on_iface (\<lambda>s. s\<lparr>ps_matched := True, ps_outcome := ''block'', ps_winner := True,
               ps_ifaceBlock := Some (iface_evidence a True (Some ''shortCircuited''))\<rparr>) sg);
          w1 = record_verdict env a False IFACE_BLOCK w;
          w2 = tracked_stats env a tracked None True GREY w1;
          (view, w3) = (if hp_cfg hot \<noteq> None then ensureCtPolicyView F env a None w2 else (None, w2));
          w4 = observeTelemetryFlow F env a hot False IFACE_BLOCK None (currentCtResult view) w3
      in finish F a tracked explain sg1 None False IFACE_BLOCK None None w4)"

definition tsNs :: "'ip PktArgs \<Rightarrow> u64" where
  "tsNs a = fst (pa_ts a) * 1000000000 + snd (pa_ts a)"

definition enforce_verdict ::
  "'ip PktFamily \<Rightarrow> Env \<Rightarrow> 'ip PktArgs \<Rightarrow> HotPath \<Rightarrow> bool \<Rightarrow> bool \<Rightarrow> RulesStage \<Rightarrow> PktOut \<times> Daemon" where
  "enforce_verdict F env a hot tracked explain rg =
     (let d = rg_decision rg; verdict = (d_kind d = D_ALLOW);
          reason = (if verdict then IP_RULE_ALLOW else IP_RULE_BLOCK);
          w1 = commit_view F a verdict (rg_view rg) (rg_world rg);
          w2 = w1\<lparr>dn_engine := observeEnforceHit d (ucast (pa_len a)) (tsNs a) (dn_engine w1)\<rparr>;
          w3 = record_verdict env a verdict reason w2;
          w4 = tracked_stats env a tracked None (\<not> verdict) GREY w3;
          w5 = observeTelemetryFlow F env a hot verdict reason (Some (d_ruleId d)) (currentCtResult (rg_view rg)) w4
      in finish F a tracked explain (markPacketStagesShortCircuitedAfter ''iprules.enforce'' (rg_stages rg)) (rg_ct rg)
           verdict reason (Some (d_ruleId d)) None w5)"

text \<open>\<^verbatim>\<open>settings.blockIPLeaks()\<close> is the frozen value \<^verbatim>\<open>false\<close>.\<close>

definition legacyBlockIPLeaksFrozenValue :: bool where "legacyBlockIPLeaksFrozenValue = False"

definition would_stage :: "bool \<Rightarrow> PktStage \<Rightarrow> PktStage" where
  "would_stage hasWould s =
     (if hasWould then s\<lparr>ps_evaluated := True, ps_matched := True, ps_outcome := ''wouldBlock'', ps_winner := False\<rparr>
      else if ps_enabled s then s\<lparr>ps_evaluated := True, ps_matched := False, ps_outcome := ''none''\<rparr>
      else s\<lparr>ps_skipReason := Some ''disabled''\<rparr>)"

definition default_stages :: "bool \<Rightarrow> bool \<Rightarrow> PktStages \<Rightarrow> PktStages" where
  "default_stages leak hasWould sg =
     (let sg1 = sg\<lparr>sg_domain := (sg_domain sg)\<lparr>ps_evaluated := True, ps_matched := leak,
            ps_outcome := (if leak then ''block'' else ''allow''), ps_winner := True\<rparr>\<rparr>
      in if leak then markPacketStagesShortCircuitedAfter ''domainIpLeak'' sg1
         else sg1\<lparr>sg_would := would_stage hasWould (sg_would sg1)\<rparr>)"

definition host_domain :: "Env \<Rightarrow> 'ip PktArgs \<Rightarrow> Daemon \<Rightarrow> addr option" where
  "host_domain env a w =
     (case ho_domain (hm_heap (dn_hosts w) (pa_host a)) of
        Some d \<Rightarrow> if validIP (en_now env) (p_domHeap (dn_policy w) d) then Some d else None
      | None \<Rightarrow> None)"

definition default_verdict ::
  "'ip PktFamily \<Rightarrow> Env \<Rightarrow> 'ip PktArgs \<Rightarrow> HotPath \<Rightarrow> bool \<Rightarrow> bool \<Rightarrow> Decision option \<Rightarrow> PolicyView option \<Rightarrow> (u8 \<times> u8) option \<Rightarrow> PktStages \<Rightarrow>
   Daemon \<Rightarrow> PktOut \<times> Daemon" where
  "default_verdict F env a hot tracked explain would view0 ct sg w =
     (let dom0 = host_domain env a w;
          (blocked, cs) = app_blocked (dn_policy w) (pa_app a) dom0;
          leak = (legacyBlockIPLeaksFrozenValue \<and> blocked \<and> dom0 \<noteq> None);
          verdict = (\<not> leak);
          reason = (if leak then IP_LEAK_BLOCK else ALLOW_DEFAULT);
          sg1 = (if explain then default_stages leak (would \<noteq> None) sg else sg);
          (view, w1) = (if hp_cfg hot \<noteq> None then ensureCtPolicyView F env a view0 w else (view0, w));
          w2 = commit_view F a verdict view w1;
          w3 = observeTelemetryFlow F env a hot verdict reason None (currentCtResult view) w2;
          (wouldRuleId, w4) = (case would of
             Some d \<Rightarrow> if verdict then (Some (d_ruleId d), w3\<lparr>dn_engine :=
                           observeWouldHitIfAccepted d True (ucast (pa_len a)) (tsNs a) (dn_engine w3)\<rparr>)
                       else (None, w3)
           | None \<Rightarrow> (None, w3));
          w5 = record_verdict env a verdict reason w4;
          w6 = tracked_stats env a tracked dom0 (\<not> verdict) cs w5
      in finish F a tracked explain sg1 ct verdict reason None wouldRuleId w6)"

definition make :: "'ip PktFamily \<Rightarrow> Env \<Rightarrow> 'ip PktArgs \<Rightarrow> Daemon \<Rightarrow> PktOut \<times> Daemon" where
  "make F env a w =
     (let tracked = a_tracked (p_appHeap (dn_policy w) (pa_app a));
          hot = hotPathFlow (dn_tele w);
          explain = (tracked \<and> pa_wantEvent a);
          ifaceBlocked = (pa_appIfaceMask a AND pa_ifaceKindBit a \<noteq> 0);
          sg0 = on_iface (\<lambda>s. s\<lparr>ps_ifaceBlock := Some (iface_evidence a ifaceBlocked None)\<rparr>)
                  (stages_init (p_settings (dn_policy w)))
      in if ifaceBlocked then iface_drop F env a hot tracked explain sg0 w
         else if set_ipRulesEnabled (p_settings (dn_policy w)) then
           let rg = rules_stage F env a (hp_cfg hot \<noteq> None) explain sg0 w; d = rg_decision rg in
           if d_kind d = D_ALLOW \<or> d_kind d = D_BLOCK then enforce_verdict F env a hot tracked explain rg
           else default_verdict F env a hot tracked explain (if d_kind d = WOULD_BLOCK then Some d else None) (rg_view rg) (rg_ct rg)
                  (rg_stages rg) (rg_world rg)
         else default_verdict F env a hot tracked explain None None None sg0 w)"

end
