(* ===== verification/CtUse.thy ===== *)
theory CtUse
  imports PacketPath
begin

text \<open>
  When a packet's decision depends on connection tracking. \<^verbatim>\<open>IpRulesEngine::compile\<close> marks the uids
  whose rules look at it, \<^verbatim>\<open>PacketManager::make\<close> asks for the mark before it inspects the table. For an unmarked uid the
  decision is the same whatever the two connection tracking fields of the key hold, so leaving them out, or filling them
  in because telemetry is on, changes no verdict.
\<close>

section \<open>The marked uids\<close>

definition ref_ct :: "'c RuleRef \<Rightarrow> bool" where
  "ref_ct r \<longleftrightarrow> rr_ctState r \<noteq> Ct_ANY \<or> rr_ctDir r \<noteq> CtDir_ANY"

lemma ref_ct_make [simp]: "ref_ct (makeRefV4 s) \<longleftrightarrow> ctConsumer (st_def s)" "ref_ct (makeRefV6 s) \<longleftrightarrow> ctConsumer (st_def s)"
  by (simp_all add: ref_ct_def ctConsumer_def makeRefV4_def makeRefV6_def Let_def)

lemma rr_uid_make: "rr_uid (makeRefV4 s) = rd_uid (st_def s)" "rr_uid (makeRefV6 s) = rd_uid (st_def s)"
  by (simp_all add: makeRefV4_def makeRefV6_def Let_def)

lemma activeRefs_snoc:
  "set (activeRefs4 (rules @ [p])) = (if active IPV4 p then {makeRefV4 (snd p)} else {}) \<union> set (activeRefs4 rules)"
  "set (activeRefs6 (rules @ [p])) = (if active IPV6 p then {makeRefV6 (snd p)} else {}) \<union> set (activeRefs6 rules)"
  by (simp_all add: activeRefs4_def activeRefs6_def)

lemma uidUsesCt_compile:
  "uid \<in> uidUsesCt4 (compile_acc rules) \<longleftrightarrow> (\<exists>r \<in> set (activeRefs4 rules). rr_uid r = uid \<and> ref_ct r)"
  "uid \<in> uidUsesCt6 (compile_acc rules) \<longleftrightarrow> (\<exists>r \<in> set (activeRefs6 rules). rr_uid r = uid \<and> ref_ct r)"
  by (induction rules rule: rev_induct)
     (simp_all add: compile_acc_snoc compile_rule_def compile_v4_def compile_v6_def compile_count_def Let_def active_def
        activeRefs_snoc rr_uid_make,
      auto simp: compile_acc_def emptyAcc_def activeRefs4_def activeRefs6_def)

lemma unmarked_no_ct:
  assumes snap: "hs_snap hs = Some (compile_snapshot rules ep)"
  shows "\<not> uidUsesCt hs uid IPV4 \<Longrightarrow> r4 \<in> set (activeRefs4 rules) \<Longrightarrow> rr_uid r4 = uid \<Longrightarrow> \<not> ref_ct r4"
    and "\<not> uidUsesCt hs uid IPV6 \<Longrightarrow> r6 \<in> set (activeRefs6 rules) \<Longrightarrow> rr_uid r6 = uid \<Longrightarrow> \<not> ref_ct r6"
proof -
  have view: "usesCt (build_view ct sm) = ct" for ct sm by (simp add: build_view_def Let_def)
  note simps = uidUsesCt_def snap compile_snapshot_def Let_def build_views_def map_of_map_views uidTables4_compile
    uidTables6_compile ts4.map_of_fill ts6.map_of_fill view uidUsesCt_compile filter_empty_conv
  show "\<not> ref_ct r4" if "\<not> uidUsesCt hs uid IPV4" "r4 \<in> set (activeRefs4 rules)" "rr_uid r4 = uid"
    using that by (auto simp: simps split: if_splits)
  show "\<not> ref_ct r6" if "\<not> uidUsesCt hs uid IPV6" "r6 \<in> set (activeRefs6 rules)" "rr_uid r6 = uid"
    using that by (auto simp: simps split: if_splits)
qed

section \<open>Keys that differ in connection tracking\<close>

definition with_ct :: "u8 \<times> u8 \<Rightarrow> 'ip PacketKey \<Rightarrow> 'ip PacketKey" where
  "with_ct c k = k\<lparr>k_ctState := fst c, k_ctDir := snd c\<rparr>"

lemma with_ct_key: "packet_key F a uid c = with_ct c (packet_key F a uid (0, 0))"
  by (simp add: packet_key_def with_ct_def)

lemma k_uid_with_ct [simp]: "k_uid (with_ct c k) = k_uid k"
  by (simp add: with_ct_def)

lemma ref_matches_with_ct: "(rr_uid r = k_uid k \<Longrightarrow> \<not> ref_ct r) \<Longrightarrow> ref_matches cm r (with_ct c k) = ref_matches cm r k"
  by (auto simp: ref_matches_conj with_ct_def ref_ct_def)

lemma scan_best_cong: "(\<And>r. r \<in> set refs \<Longrightarrow> m r = m' r) \<Longrightarrow> scan_best s e m refs = scan_best s e m' refs"
  unfolding scan_best_def by (metis (no_types, lifting) filter_cong)

lemma reference4_with_ct:
  assumes "hs_snap hs = Some (compile_snapshot rules ep)" and "\<not> uidUsesCt hs (k_uid k) IPV4"
  shows "reference_v4 rules (with_ct c k) = reference_v4 rules k"
proof -
  have "matchesV4 r (with_ct c k) = matchesV4 r k" if "r \<in> set (activeRefs4 rules)" for r
    unfolding matchesV4_def using unmarked_no_ct(1) [OF assms that] by (rule ref_matches_with_ct)
  then have "scan_best (ref_sig pfx4) e (\<lambda>r. matchesV4 r (with_ct c k)) (activeRefs4 rules) =
      scan_best (ref_sig pfx4) e (\<lambda>r. matchesV4 r k) (activeRefs4 rules)" for e
    by (rule scan_best_cong)
  then show ?thesis by (simp add: reference_v4_def Let_def)
qed

lemma reference6_with_ct:
  assumes "hs_snap hs = Some (compile_snapshot rules ep)" and "\<not> uidUsesCt hs (k_uid k) IPV6"
  shows "reference_v6 rules (with_ct c k) = reference_v6 rules k"
proof -
  have "matchesV6 r (with_ct c k) = matchesV6 r k" if "r \<in> set (activeRefs6 rules)" for r
    unfolding matchesV6_def using unmarked_no_ct(2) [OF assms that] by (rule ref_matches_with_ct)
  then have "scan_best (ref_sig pfx6) e (\<lambda>r. matchesV6 r (with_ct c k)) (activeRefs6 rules) =
      scan_best (ref_sig pfx6) e (\<lambda>r. matchesV6 r k) (activeRefs6 rules)" for e
    by (rule scan_best_cong)
  then show ?thesis by (simp add: reference_v6_def Let_def)
qed

section \<open>The capability mask of an app\<close>

lemma caps_mask_bits: "caps_mask hs uid AND 1 \<noteq> 0 \<longleftrightarrow> uidUsesCt hs uid IPV4" "caps_mask hs uid AND 2 \<noteq> 0 \<longleftrightarrow> uidUsesCt hs uid IPV6"
  by (simp_all add: caps_mask_def)

end
