(* ===== verification/PacketInvariant.thy ===== *)
theory PacketInvariant
  imports CtUse
begin

text \<open>
  What the packet path keeps of the state it shares with the control plane: the thread's decision caches and the
  capability words of the apps agree with the snapshots that have been published, whatever packets and commands do in
  between. The locale \<open>packet_family\<close> holds what the path needs of the operations of an address family; it is
  interpreted for IPv4 and IPv6.
\<close>

section \<open>Steps that leave the shared state alone\<close>

definition app_kept :: "App \<Rightarrow> App \<Rightarrow> bool" where
  "app_kept x y \<longleftrightarrow> a_uid y = a_uid x \<and> a_ipRulesCaps y = a_ipRulesCaps x \<and> a_traffic y = a_traffic x"

definition apps_kept :: "Policy \<Rightarrow> Policy \<Rightarrow> bool" where
  "apps_kept p q \<longleftrightarrow> (\<forall>x. app_kept (p_appHeap p x) (p_appHeap q x)) \<and> p_settings q = p_settings p"

text \<open>Nothing but statistics, activity, connection tracking and telemetry changes.\<close>

definition quiet :: "Daemon \<Rightarrow> Daemon \<Rightarrow> bool" where
  "quiet w w' \<longleftrightarrow> apps_kept (dn_policy w) (dn_policy w') \<and> dn_engine w' = dn_engine w \<and> dn_reasons w' = dn_reasons w \<and>
     dn_cache4 w' = dn_cache4 w \<and> dn_cache6 w' = dn_cache6 w"

lemma app_kept_refl [simp]: "app_kept x x"
  by (simp add: app_kept_def)

lemma quiet_refl [simp]: "quiet w w"
  by (simp add: quiet_def apps_kept_def)

lemma quiet_trans: "quiet w1 w2 \<Longrightarrow> quiet w2 w3 \<Longrightarrow> quiet w1 w3"
  by (simp add: quiet_def apps_kept_def app_kept_def)

lemma quiet_ct [simp]: "quiet w (w\<lparr>dn_ct := ct, dn_tele := tele\<rparr>)"
  by (simp add: quiet_def apps_kept_def)

lemma quiet_on_ct [simp]: "quiet w (on_ct f w)"
  by (simp add: on_ct_def Let_def)

lemma quiet_ensure: "quiet w (snd (ensureCtPolicyView F env a v w))"
  by (simp add: ensureCtPolicyView_def split: option.splits prod.splits)

lemma quiet_commit: "quiet w (commit_view F a verdict v w)"
  by (simp add: commit_view_def split: option.splits bool.splits)

lemma quiet_telemetry: "quiet w (observeTelemetryFlow F env a hot acc r rid c w)"
  by (simp add: observeTelemetryFlow_def split: option.splits)

lemma apps_kept_updateStats: "apps_kept p (am_updateStats today d app b cs ts v p)"
  by (simp add: am_updateStats_def Let_def app_updateStats_def upd_app_def upd_domain_def upd_am_def apps_kept_def app_kept_def)

lemma quiet_updateStats: "quiet w (updateStats today now d app b cs ts v w)"
  using apps_kept_updateStats by (simp add: updateStats_def Let_def on_policy_def quiet_def)

lemma quiet_tracked: "quiet w (tracked_stats env a tracked d b cs w)"
  unfolding tracked_stats_def using quiet_trans [OF quiet_updateStats quiet_updateStats] by simp

lemmas quiet_steps = quiet_ensure quiet_commit quiet_telemetry quiet_tracked

section \<open>The invariant\<close>

text \<open>A capability word is unused or holds the mask of the published snapshot of its epoch.\<close>

definition caps_ok :: "u64 \<Rightarrow> Snapshot set \<Rightarrow> App \<Rightarrow> bool" where
  "caps_ok inst H x \<longleftrightarrow> drop_bit 8 (a_ipRulesCaps x) = 0 \<or>
     (\<exists>sn \<in> H. usesCtMaskIfFresh (a_ipRulesCaps x) (snap_rulesEpoch sn) =
        Some (caps_mask \<lparr>hs_instanceId = inst, hs_snap = Some sn\<rparr> (a_uid x)))"

definition caches_ok :: "Snapshot set \<Rightarrow> Daemon \<Rightarrow> bool" where
  "caches_ok H w \<longleftrightarrow> cache4.cache_ok (eng_instanceId (dn_engine w)) H (dn_cache4 w) \<and>
     cache6.cache_ok (eng_instanceId (dn_engine w)) H (dn_cache6 w)"

definition daemon_inv :: "Snapshot set \<Rightarrow> Daemon \<Rightarrow> bool" where
  "daemon_inv H w \<longleftrightarrow> eng_inv (dn_engine w) \<and> epochs_ok H \<and> eng_snapshot (dn_engine w) \<in> H \<and>
     (\<forall>sn \<in> H. snap_rulesEpoch sn \<le> eng_rulesEpoch (dn_engine w)) \<and> unat (eng_rulesEpoch (dn_engine w)) < 2 ^ 56 \<and>
     caches_ok H w \<and> (\<forall>x. caps_ok (eng_instanceId (dn_engine w)) H (p_appHeap (dn_policy w) x)) \<and> metrics_wf (dn_reasons w)"

lemma caps_ok_kept: "caps_ok inst H x \<Longrightarrow> a_uid y = a_uid x \<Longrightarrow> a_ipRulesCaps y = a_ipRulesCaps x \<Longrightarrow> caps_ok inst H y"
  by (simp add: caps_ok_def)

lemma caps_ok_fresh: "a_ipRulesCaps x = 0 \<Longrightarrow> caps_ok inst H x"
  by (simp add: caps_ok_def)

lemma caps_ok_mono: "caps_ok inst H x \<Longrightarrow> H \<subseteq> H' \<Longrightarrow> caps_ok inst H' x"
  unfolding caps_ok_def by blast

lemma caps_ok_read:
  assumes "caps_ok inst H x" and "epochs_ok H" and "sn \<in> H" and "usesCtMaskIfFresh (a_ipRulesCaps x) (snap_rulesEpoch sn) = Some m"
  shows "m = caps_mask \<lparr>hs_instanceId = inst, hs_snap = Some sn\<rparr> (a_uid x)"
proof -
  have ep: "drop_bit 8 (a_ipRulesCaps x) = snap_rulesEpoch sn"
    using assms(4) by (simp add: usesCtMaskIfFresh_def Let_def split: if_splits)
  moreover have "snap_rulesEpoch sn \<noteq> 0" using assms(2,3) by (auto simp: epochs_ok_def)
  ultimately obtain sn' where sn': "sn' \<in> H" "usesCtMaskIfFresh (a_ipRulesCaps x) (snap_rulesEpoch sn') =
      Some (caps_mask \<lparr>hs_instanceId = inst, hs_snap = Some sn'\<rparr> (a_uid x))"
    using assms(1) by (auto simp: caps_ok_def)
  then have "snap_rulesEpoch sn' = snap_rulesEpoch sn" using ep by (simp add: usesCtMaskIfFresh_def Let_def split: if_splits)
  then have "sn' = sn" using assms(2,3) sn'(1) by (auto simp: epochs_ok_def inj_on_def)
  then show ?thesis using sn'(2) assms(4) by simp
qed

text \<open>Steps that keep the engine's snapshot, the caches and, for every app, uid and capability word.\<close>

lemma daemon_inv_step:
  assumes "daemon_inv H w"
    and "eng_inv (dn_engine w') = eng_inv (dn_engine w)" "eng_snapshot (dn_engine w') = eng_snapshot (dn_engine w)"
      "eng_rulesEpoch (dn_engine w') = eng_rulesEpoch (dn_engine w)" "eng_instanceId (dn_engine w') = eng_instanceId (dn_engine w)"
    and "caches_ok H w'" "\<And>x. caps_ok (eng_instanceId (dn_engine w)) H (p_appHeap (dn_policy w') x)" "metrics_wf (dn_reasons w')"
  shows "daemon_inv H w'"
  using assms by (simp add: daemon_inv_def)

lemma daemon_inv_quiet: "daemon_inv H w \<Longrightarrow> quiet w w' \<Longrightarrow> daemon_inv H w'"
  by (rule daemon_inv_step [where w = w])
     (auto simp: quiet_def daemon_inv_def caches_ok_def apps_kept_def app_kept_def intro: caps_ok_kept)

lemma daemon_inv_record: "daemon_inv H w \<Longrightarrow> daemon_inv H (record_verdict env a v r w)"
  by (rule daemon_inv_step [where w = w])
     (auto simp: record_verdict_def on_policy_def upd_app_def observeTrafficPacket_def daemon_inv_def caches_ok_def metrics_wf_observe
        intro: caps_ok_kept)

lemma observe_same:
  "eng_snapshot (observeEnforceHit d b t e) = eng_snapshot e" "eng_snapshot (observeWouldHitIfAccepted d acc b t e) = eng_snapshot e"
  "eng_rulesEpoch (observeEnforceHit d b t e) = eng_rulesEpoch e" "eng_rulesEpoch (observeWouldHitIfAccepted d acc b t e) = eng_rulesEpoch e"
  "eng_instanceId (observeEnforceHit d b t e) = eng_instanceId e" "eng_instanceId (observeWouldHitIfAccepted d acc b t e) = eng_instanceId e"
  by (simp_all add: observeEnforceHit_def observeWouldHitIfAccepted_def Let_def split: option.splits)

lemma daemon_inv_hit:
  "daemon_inv H w \<Longrightarrow> daemon_inv H (w\<lparr>dn_engine := observeEnforceHit d b t (dn_engine w)\<rparr>)"
  "daemon_inv H w \<Longrightarrow> daemon_inv H (w\<lparr>dn_engine := observeWouldHitIfAccepted d acc b t (dn_engine w)\<rparr>)"
  by (rule daemon_inv_step [where w = w]; simp add: observe_same observe_frame daemon_inv_def caches_ok_def)+

section \<open>The capability word\<close>

lemma hotSnapshot_sel [simp]: "hs_snap (hotSnapshot e) = Some (eng_snapshot e)" "hs_instanceId (hotSnapshot e) = eng_instanceId e"
  by (simp_all add: hotSnapshot_def)

lemma uses_ct_correct:
  assumes inv: "daemon_inv H w"
  shows "fst (uses_ct F a (hotSnapshot (dn_engine w)) w) \<longleftrightarrow>
      caps_mask (hotSnapshot (dn_engine w)) (a_uid (p_appHeap (dn_policy w) (pa_app a))) AND pf_maskBit F \<noteq> 0"
    and "daemon_inv H (snd (uses_ct F a (hotSnapshot (dn_engine w)) w))"
proof -
  let ?e = "dn_engine w" and ?x = "p_appHeap (dn_policy w) (pa_app a)"
  let ?hs = "hotSnapshot ?e"
  have ep: "hot_rulesEpoch ?hs = eng_rulesEpoch ?e" "snap_rulesEpoch (eng_snapshot ?e) = eng_rulesEpoch ?e"
    using inv epoch_of_snapshot by (simp_all add: hot_rulesEpoch_def daemon_inv_def)
  have nz: "eng_rulesEpoch ?e \<noteq> 0" and mem: "eng_snapshot ?e \<in> H"
    using inv ep by (auto simp: daemon_inv_def epochs_ok_def)
  have hs: "\<lparr>hs_instanceId = eng_instanceId ?e, hs_snap = Some (eng_snapshot ?e)\<rparr> = ?hs" by (simp add: hotSnapshot_def)
  have cached: "m = caps_mask ?hs (a_uid ?x)" if "usesCtMaskIfFresh (a_ipRulesCaps ?x) (eng_rulesEpoch ?e) = Some m" for m
    using caps_ok_read [OF _ _ mem, of "eng_instanceId ?e" ?x m] inv that ep by (simp add: daemon_inv_def hs)
  show "fst (uses_ct F a ?hs w) \<longleftrightarrow> caps_mask ?hs (a_uid ?x) AND pf_maskBit F \<noteq> 0"
    using cached nz by (auto simp: uses_ct_def Let_def ep split: option.splits)
  have small: "unat (eng_rulesEpoch ?e) < 2 ^ 56" using inv by (simp add: daemon_inv_def)
  have stored: "caps_ok (eng_instanceId ?e) H (?x\<lparr>a_ipRulesCaps := setUsesCtMask (eng_rulesEpoch ?e) (caps_mask ?hs (a_uid ?x))\<rparr>)"
    using mem ep by (auto simp: caps_ok_def caps_roundtrip [OF small] hs intro!: bexI [OF _ mem])
  have "daemon_inv H (on_policy (upd_app (pa_app a) (\<lambda>x. x\<lparr>a_ipRulesCaps := setUsesCtMask (eng_rulesEpoch ?e) (caps_mask ?hs (a_uid ?x))\<rparr>)) w)"
    using inv stored by (intro daemon_inv_step [OF inv]) (auto simp: on_policy_def upd_app_def daemon_inv_def caches_ok_def)
  then show "daemon_inv H (snd (uses_ct F a ?hs w))"
    using inv by (auto simp: uses_ct_def Let_def ep split: option.splits)
qed

section \<open>A packet of either family\<close>

text \<open>What the path needs of a family: evaluation is that of the current snapshot and touches only the caches, the
  reference decision agrees with it and does not look at connection tracking for an unmarked uid.\<close>

locale packet_family =
  fixes F :: "'ip PktFamily" and fam :: Family and scan :: "RulesMap \<Rightarrow> 'ip PacketKey \<Rightarrow> Decision" and key_ok :: "'ip PacketKey \<Rightarrow> bool"
  assumes mask_bit: "caps_mask hs uid AND pf_maskBit F \<noteq> 0 \<longleftrightarrow> uidUsesCt hs uid fam"
    and evaluate_frame: "\<exists>c4 c6. snd (pf_evaluate F hs k w) = w\<lparr>dn_cache4 := c4, dn_cache6 := c6\<rparr>"
    and evaluate_ok: "daemon_inv H w \<Longrightarrow> caches_ok H (snd (pf_evaluate F (hotSnapshot (dn_engine w)) k w))"
    and evaluate_scan: "daemon_inv H w \<Longrightarrow> rules_ok (eng_rules (dn_engine w)) \<Longrightarrow> priorities_ok (eng_rules (dn_engine w)) \<Longrightarrow> key_ok k \<Longrightarrow>
      fst (pf_evaluate F (hotSnapshot (dn_engine w)) k w) = scan (eng_rules (dn_engine w)) k"
    and scan_ct: "hs_snap hs = Some (compile_snapshot rules ep) \<Longrightarrow> \<not> uidUsesCt hs (k_uid k) fam \<Longrightarrow>
      scan rules (with_ct c k) = scan rules k"
    and key_ok_ct: "key_ok (with_ct c k) = key_ok k"
begin

lemma daemon_inv_evaluate:
  assumes "daemon_inv H w"
  shows "daemon_inv H (snd (pf_evaluate F (hotSnapshot (dn_engine w)) k w))"
proof -
  obtain c4 c6 where w': "snd (pf_evaluate F (hotSnapshot (dn_engine w)) k w) = w\<lparr>dn_cache4 := c4, dn_cache6 := c6\<rparr>"
    using evaluate_frame by blast
  show ?thesis using assms evaluate_ok [OF assms, of k] unfolding w'
    by (intro daemon_inv_step [OF assms]) (auto simp: daemon_inv_def)
qed

end

end
