(* ===== verification/PacketVerdict.thy ===== *)
theory PacketVerdict
  imports PacketInvariant
begin

text \<open>
  What \<^verbatim>\<open>PacketManager::make\<close> does with a packet, as a specification over the rule map: the interface mask first,
  then the decision of a scan over the active rules with the connection tracking fields always filled in, then the
  default. The detailed path - cached evaluation, lazy inspection, capability words, explanation, telemetry - implements
  it, and records every packet once.
\<close>

section \<open>The specification\<close>

definition iface_blocked :: "'ip PktArgs \<Rightarrow> bool" where
  "iface_blocked a \<longleftrightarrow> pa_appIfaceMask a AND pa_ifaceKindBit a \<noteq> 0"

definition packet_uid :: "'ip PktArgs \<Rightarrow> Daemon \<Rightarrow> u32" where
  "packet_uid a w = a_uid (p_appHeap (dn_policy w) (pa_app a))"

text \<open>State and direction of the packet's connection, invalid when the packet cannot be tracked.\<close>

definition tracked_ct :: "'ip PktFamily \<Rightarrow> Env \<Rightarrow> 'ip PktArgs \<Rightarrow> Daemon \<Rightarrow> u8 \<times> u8" where
  "tracked_ct F env a w =
     (case (l4AllowsCt (pa_l4 a), pa_ctPkt a) of
        (True, Some pkt) \<Rightarrow> let r = v_result (fst (pf_inspect F (en_thread env) pkt (dn_ct w, dn_tele w)))
                          in (connState_u8 (r_state r), connDir_u8 (r_direction r))
      | _ \<Rightarrow> (connState_u8 CT_INVALID, 0))"

definition packet_decision :: "'ip PktFamily \<Rightarrow> (RulesMap \<Rightarrow> 'ip PacketKey \<Rightarrow> Decision) \<Rightarrow> Env \<Rightarrow> 'ip PktArgs \<Rightarrow> Daemon \<Rightarrow> Decision" where
  "packet_decision F scan env a w =
     (if iface_blocked a \<or> \<not> set_ipRulesEnabled (p_settings (dn_policy w)) then noDecision
      else scan (eng_rules (dn_engine w)) (packet_key F a (packet_uid a w) (tracked_ct F env a w)))"

definition packet_reason :: "'ip PktArgs \<Rightarrow> Decision \<Rightarrow> PacketReasonId" where
  "packet_reason a d =
     (if iface_blocked a then IFACE_BLOCK else if d_kind d = D_ALLOW then IP_RULE_ALLOW
      else if d_kind d = D_BLOCK then IP_RULE_BLOCK else ALLOW_DEFAULT)"

definition packet_accepted :: "'ip PktArgs \<Rightarrow> Decision \<Rightarrow> bool" where
  "packet_accepted a d \<longleftrightarrow> \<not> iface_blocked a \<and> d_kind d \<noteq> D_BLOCK"

definition packet_ruleId :: "Decision \<Rightarrow> u32 option" where
  "packet_ruleId d = (if d_kind d = D_ALLOW \<or> d_kind d = D_BLOCK then Some (d_ruleId d) else None)"

definition packet_wouldRuleId :: "Decision \<Rightarrow> u32 option" where
  "packet_wouldRuleId d = (if d_kind d = WOULD_BLOCK then Some (d_ruleId d) else None)"

text \<open>The hit counters the packet moves.\<close>

definition packet_hits :: "'ip PktArgs \<Rightarrow> Decision \<Rightarrow> Engine \<Rightarrow> Engine" where
  "packet_hits a d e =
     (if d_kind d = D_ALLOW \<or> d_kind d = D_BLOCK then observeEnforceHit d (ucast (pa_len a)) (tsNs a) e
      else if d_kind d = WOULD_BLOCK then observeWouldHitIfAccepted d True (ucast (pa_len a)) (tsNs a) e
      else e)"

definition packet_winner :: "'ip PktArgs \<Rightarrow> Decision \<Rightarrow> string" where
  "packet_winner a d =
     (if iface_blocked a then ''ifaceBlock'' else if packet_ruleId d \<noteq> None then ''iprules.enforce'' else ''domainIpLeak'')"

section \<open>Accounting\<close>

definition traffic_of :: "Daemon \<Rightarrow> addr \<Rightarrow> TrafficCounters" where
  "traffic_of w = (\<lambda>x. a_traffic (p_appHeap (dn_policy w) x))"

definition calm :: "Daemon \<Rightarrow> Daemon \<Rightarrow> bool" where
  "calm w w' \<longleftrightarrow> dn_reasons w' = dn_reasons w \<and> traffic_of w' = traffic_of w"

definition accounted :: "Env \<Rightarrow> 'ip PktArgs \<Rightarrow> bool \<Rightarrow> PacketReasonId \<Rightarrow> Daemon \<Rightarrow> Daemon \<Rightarrow> bool" where
  "accounted env a verdict reason w w' \<longleftrightarrow>
     dn_reasons w' = metrics_observe (en_thread env) (add_both reason 1 (ucast (pa_len a))) (dn_reasons w) \<and>
     traffic_of w' = (traffic_of w)(pa_app a := observePacket (pa_input a) verdict (ucast (pa_len a)) (traffic_of w (pa_app a)))"

lemma quiet_calm: "quiet w w' \<Longrightarrow> calm w w'"
  by (auto simp: quiet_def calm_def traffic_of_def apps_kept_def app_kept_def)

lemma calm_trans: "calm w1 w2 \<Longrightarrow> calm w2 w3 \<Longrightarrow> calm w1 w3"
  by (simp add: calm_def)

lemma calm_engine [simp]: "calm w (w\<lparr>dn_engine := e\<rparr>)"
  by (simp add: calm_def traffic_of_def)

lemma record_accounted: "accounted env a v r w (record_verdict env a v r w)"
  by (auto simp: accounted_def record_verdict_def on_policy_def upd_app_def observeTrafficPacket_def traffic_of_def)

lemma calm_accounted: "calm w w1 \<Longrightarrow> accounted env a v r w1 w2 \<Longrightarrow> accounted env a v r w w2"
  by (simp add: calm_def accounted_def)

lemma accounted_calm: "accounted env a v r w w1 \<Longrightarrow> calm w1 w2 \<Longrightarrow> accounted env a v r w w2"
  by (simp add: calm_def accounted_def)

section \<open>The engine along the path\<close>

lemma quiet_engine: "quiet w w' \<Longrightarrow> dn_engine w' = dn_engine w"
  by (simp add: quiet_def)

lemma record_engine [simp]: "dn_engine (record_verdict env a v r w) = dn_engine w"
  by (simp add: record_verdict_def on_policy_def)

lemma finish_simps [simp]:
  "snd (finish F a tr ex sg ct v r rid wid w) = w" "po_verdict (fst (finish F a tr ex sg ct v r rid wid w)) = v"
  "po_event (fst (finish F a tr ex sg ct v r rid wid w)) =
     (if ex then Some (fillStreamEvent F a (dn_policy w) sg ct v r rid wid) else None)"
  by (simp_all add: finish_def)

text \<open>The effect of one outcome on the state: accounted once, the engine as given, the invariant kept.\<close>

definition effect :: "Snapshot set \<Rightarrow> Env \<Rightarrow> 'ip PktArgs \<Rightarrow> bool \<Rightarrow> PacketReasonId \<Rightarrow> Engine \<Rightarrow> Daemon \<Rightarrow> Daemon \<Rightarrow> bool" where
  "effect H env a verdict reason e w w' \<longleftrightarrow> accounted env a verdict reason w w' \<and> dn_engine w' = e \<and> daemon_inv H w'"

lemma effect_record:
  assumes "calm w w1" "daemon_inv H w1" "quiet (record_verdict env a v r w1) w2"
  shows "effect H env a v r (dn_engine w1) w w2"
  using assms quiet_engine [OF assms(3)] daemon_inv_quiet [OF daemon_inv_record assms(3)]
    accounted_calm [OF calm_accounted [OF assms(1) record_accounted] quiet_calm [OF assms(3)]]
  by (simp add: effect_def)

lemma iface_drop_effect:
  assumes "daemon_inv H w"
  shows "effect H env a False IFACE_BLOCK (dn_engine w) w (snd (iface_drop F env a hot tr ex sg w))"
proof -
  let ?w1 = "record_verdict env a False IFACE_BLOCK w"
  let ?w2 = "tracked_stats env a tr None True GREY ?w1"
  let ?p = "if hp_cfg hot \<noteq> None then ensureCtPolicyView F env a None ?w2 else (None, ?w2)"
  let ?w4 = "observeTelemetryFlow F env a hot False IFACE_BLOCK None (currentCtResult (fst ?p)) (snd ?p)"
  have "quiet ?w2 (snd ?p)" by (simp add: quiet_ensure)
  then have q: "quiet ?w1 ?w4" by (meson quiet_trans quiet_telemetry quiet_tracked)
  have "snd (iface_drop F env a hot tr ex sg w) = ?w4"
    by (simp only: iface_drop_def Let_def case_prod_beta finish_simps)
  then show ?thesis using effect_record [OF _ assms q] by (simp add: calm_def)
qed

lemma enforce_effect:
  assumes "daemon_inv H (rg_world rg)" "calm w (rg_world rg)" "dn_engine (rg_world rg) = e"
  shows "effect H env a (d_kind (rg_decision rg) = D_ALLOW) (if d_kind (rg_decision rg) = D_ALLOW then IP_RULE_ALLOW else IP_RULE_BLOCK)
    (observeEnforceHit (rg_decision rg) (ucast (pa_len a)) (tsNs a) e) w (snd (enforce_verdict F env a hot tr ex rg))"
proof -
  let ?d = "rg_decision rg"
  let ?v = "d_kind ?d = D_ALLOW"
  let ?r = "if ?v then IP_RULE_ALLOW else IP_RULE_BLOCK"
  let ?w1 = "commit_view F a ?v (rg_view rg) (rg_world rg)"
  let ?w2 = "?w1\<lparr>dn_engine := observeEnforceHit ?d (ucast (pa_len a)) (tsNs a) (dn_engine ?w1)\<rparr>"
  let ?w5 = "observeTelemetryFlow F env a hot ?v ?r (Some (d_ruleId ?d)) (currentCtResult (rg_view rg))
    (tracked_stats env a tr None (\<not> ?v) GREY (record_verdict env a ?v ?r ?w2))"
  have q1: "quiet (rg_world rg) ?w1" by (rule quiet_commit)
  have c: "calm w ?w2" using calm_trans [OF calm_trans [OF assms(2) quiet_calm [OF q1]] calm_engine] .
  have i: "daemon_inv H ?w2" by (rule daemon_inv_hit(1) [OF daemon_inv_quiet [OF assms(1) q1]])
  have q: "quiet (record_verdict env a ?v ?r ?w2) ?w5" by (meson quiet_trans quiet_telemetry quiet_tracked)
  have "snd (enforce_verdict F env a hot tr ex rg) = ?w5" by (simp only: enforce_verdict_def Let_def finish_simps)
  then show ?thesis using effect_record [OF c i q] quiet_engine [OF q1] assms(3) by simp
qed

lemma default_effect:
  assumes "daemon_inv H w0" "calm w w0" "dn_engine w0 = e"
  shows "effect H env a True ALLOW_DEFAULT
    (case would of Some d \<Rightarrow> observeWouldHitIfAccepted d True (ucast (pa_len a)) (tsNs a) e | None \<Rightarrow> e)
    w (snd (default_verdict F env a hot tr ex would view0 ct sg w0))"
proof -
  let ?dom = "host_domain env a w0"
  let ?cs = "snd (app_blocked (dn_policy w0) (pa_app a) ?dom)"
  define p where "p = (if hp_cfg hot \<noteq> None then ensureCtPolicyView F env a view0 w0 else (view0, w0))"
  define w3 where "w3 = observeTelemetryFlow F env a hot True ALLOW_DEFAULT None (currentCtResult (fst p)) (commit_view F a True (fst p) (snd p))"
  let ?e = "case would of Some d \<Rightarrow> observeWouldHitIfAccepted d True (ucast (pa_len a)) (tsNs a) e | None \<Rightarrow> e"
  let ?w4 = "case would of Some d \<Rightarrow> w3\<lparr>dn_engine := observeWouldHitIfAccepted d True (ucast (pa_len a)) (tsNs a) (dn_engine w3)\<rparr> | None \<Rightarrow> w3"
  let ?w6 = "tracked_stats env a tr ?dom False ?cs (record_verdict env a True ALLOW_DEFAULT ?w4)"
  have "quiet w0 (snd p)" by (simp add: p_def quiet_ensure)
  then have q3: "quiet w0 w3" unfolding w3_def by (meson quiet_trans quiet_telemetry quiet_commit)
  have i3: "daemon_inv H w3" by (rule daemon_inv_quiet [OF assms(1) q3])
  have c3: "calm w w3" by (rule calm_trans [OF assms(2) quiet_calm [OF q3]])
  have c: "calm w ?w4" using c3 calm_trans [OF c3 calm_engine] by (simp split: option.splits)
  have i: "daemon_inv H ?w4" using i3 daemon_inv_hit(2) [OF i3] by (simp split: option.splits)
  have e: "dn_engine ?w4 = ?e" using quiet_engine [OF q3] assms(3) by (simp split: option.splits)
  have "snd (default_verdict F env a hot tr ex would view0 ct sg w0) = ?w6"
    unfolding default_verdict_def Let_def case_prod_beta finish_simps legacyBlockIPLeaksFrozenValue_def
    unfolding p_def [symmetric] by (cases would) (simp_all add: w3_def)
  then show ?thesis using effect_record [OF c i quiet_tracked] e by simp
qed

section \<open>The rules stage\<close>

lemma uses_ct_frame:
  "dn_ct (snd (uses_ct F a hs w)) = dn_ct w" "dn_tele (snd (uses_ct F a hs w)) = dn_tele w"
  "dn_engine (snd (uses_ct F a hs w)) = dn_engine w" "calm w (snd (uses_ct F a hs w))"
  "packet_uid a (snd (uses_ct F a hs w)) = packet_uid a w"
  by (simp_all add: uses_ct_def Let_def on_policy_def upd_app_def calm_def traffic_of_def packet_uid_def fun_eq_iff split: option.splits)

lemma tracked_ct_cong: "dn_ct w' = dn_ct w \<Longrightarrow> dn_tele w' = dn_tele w \<Longrightarrow> tracked_ct F env a w' = tracked_ct F env a w"
  by (simp only: tracked_ct_def)

lemma ensure_ct:
  "ensureCtPolicyView F env a None w = (v, w') \<Longrightarrow> l4AllowsCt (pa_l4 a) \<Longrightarrow>
     (case v of Some v \<Rightarrow> (connState_u8 (r_state (v_result v)), connDir_u8 (r_direction (v_result v)))
      | None \<Rightarrow> (connState_u8 CT_INVALID, 0)) = tracked_ct F env a w"
  by (auto simp: ensureCtPolicyView_def tracked_ct_def Let_def split: option.splits prod.splits)

text \<open>The four values the stage computes, without the explanation.\<close>

definition rules_view :: "'ip PktFamily \<Rightarrow> Env \<Rightarrow> 'ip PktArgs \<Rightarrow> bool \<Rightarrow> Daemon \<Rightarrow> PolicyView option \<times> Daemon" where
  "rules_view F env a need w = (if need \<and> l4AllowsCt (pa_l4 a) then ensureCtPolicyView F env a None w else (None, w))"

definition rules_ct :: "bool \<Rightarrow> PolicyView option \<Rightarrow> (u8 \<times> u8) option" where
  "rules_ct need view = (if need
     then Some (case view of Some v \<Rightarrow> (connState_u8 (r_state (v_result v)), connDir_u8 (r_direction (v_result v)))
                           | None \<Rightarrow> (connState_u8 CT_INVALID, 0))
     else None)"

lemma rules_view_ct:
  assumes "need"
  shows "rules_ct need (fst (rules_view F env a need w)) = Some (tracked_ct F env a w)"
proof (cases "l4AllowsCt (pa_l4 a)")
  case True
  then show ?thesis
    using ensure_ct [OF prod.collapse [symmetric] True, of F env w] assms by (simp add: rules_view_def rules_ct_def)
next
  case False
  then show ?thesis using assms by (simp add: rules_view_def rules_ct_def tracked_ct_def)
qed

lemma rules_stage_eq:
  fixes w teleActive
  assumes "hs = hotSnapshot (dn_engine w)" and "u = uses_ct F a hs w" and "need = (fst u \<or> teleActive)"
    and "v = rules_view F env a need (snd u)"
    and "k = packet_key F a (packet_uid a w) (case rules_ct need (fst v) of Some c \<Rightarrow> c | None \<Rightarrow> (0, 0))"
    and "rg = rules_stage F env a teleActive ex sg w"
  shows "rg_decision rg = fst (pf_evaluate F hs k (snd v))" "rg_world rg = snd (pf_evaluate F hs k (snd v))"
  unfolding assms rules_stage_def Let_def rules_view_def rules_ct_def packet_uid_def by (simp_all add: case_prod_beta)

lemma outcome_verdicts [simp]:
  "po_verdict (fst (iface_drop F env a hot tr ex sg w)) = False"
  "po_verdict (fst (enforce_verdict F env a hot tr ex rg)) = (d_kind (rg_decision rg) = D_ALLOW)"
  "po_verdict (fst (default_verdict F env a hot tr ex would view0 ct sg w)) = True"
  by (simp_all only: iface_drop_def enforce_verdict_def default_verdict_def Let_def case_prod_beta finish_simps
      legacyBlockIPLeaksFrozenValue_def) simp

definition make_stages :: "'ip PktArgs \<Rightarrow> Settings \<Rightarrow> PktStages" where
  "make_stages a s = on_iface (\<lambda>x. x\<lparr>ps_ifaceBlock := Some (iface_evidence a (iface_blocked a) None)\<rparr>) (stages_init s)"

lemma make_outcome:
  "make F env a w =
     (let tracked = a_tracked (p_appHeap (dn_policy w) (pa_app a)); hot = hotPathFlow (dn_tele w); ex = (tracked \<and> pa_wantEvent a);
          sg = make_stages a (p_settings (dn_policy w))
      in if iface_blocked a then iface_drop F env a hot tracked ex sg w
         else if set_ipRulesEnabled (p_settings (dn_policy w)) then
           let rg = rules_stage F env a (hp_cfg hot \<noteq> None) ex sg w; d = rg_decision rg in
           if d_kind d = D_ALLOW \<or> d_kind d = D_BLOCK then enforce_verdict F env a hot tracked ex rg
           else default_verdict F env a hot tracked ex (if d_kind d = WOULD_BLOCK then Some d else None) (rg_view rg) (rg_ct rg)
                  (rg_stages rg) (rg_world rg)
         else default_verdict F env a hot tracked ex None None None sg w)"
  unfolding make_def make_stages_def iface_blocked_def Let_def by (rule refl)

text \<open>The decision the code reaches.\<close>

definition make_rules :: "'ip PktFamily \<Rightarrow> Env \<Rightarrow> 'ip PktArgs \<Rightarrow> Daemon \<Rightarrow> RulesStage" where
  "make_rules F env a w = rules_stage F env a (hp_cfg (hotPathFlow (dn_tele w)) \<noteq> None)
     (a_tracked (p_appHeap (dn_policy w) (pa_app a)) \<and> pa_wantEvent a) (make_stages a (p_settings (dn_policy w))) w"

definition make_decision :: "'ip PktFamily \<Rightarrow> Env \<Rightarrow> 'ip PktArgs \<Rightarrow> Daemon \<Rightarrow> Decision" where
  "make_decision F env a w =
     (if iface_blocked a \<or> \<not> set_ipRulesEnabled (p_settings (dn_policy w)) then noDecision
      else rg_decision (make_rules F env a w))"

context packet_family
begin

lemma rules_stage_effect:
  assumes inv: "daemon_inv H w" and rg: "rg = rules_stage F env a teleActive ex sg w"
  shows "daemon_inv H (rg_world rg)" "calm w (rg_world rg)" "dn_engine (rg_world rg) = dn_engine w"
    and "rules_ok (eng_rules (dn_engine w)) \<Longrightarrow> priorities_ok (eng_rules (dn_engine w)) \<Longrightarrow>
      key_ok (packet_key F a (packet_uid a w) (0, 0)) \<Longrightarrow>
      rg_decision rg = scan (eng_rules (dn_engine w)) (packet_key F a (packet_uid a w) (tracked_ct F env a w))"
proof -
  define hs u need v k where
    "hs = hotSnapshot (dn_engine w)" and
    "u = uses_ct F a hs w" and
    "need = (fst u \<or> teleActive)" and
    "v = rules_view F env a need (snd u)" and
    "k = packet_key F a (packet_uid a w) (case rules_ct need (fst v) of Some c \<Rightarrow> c | None \<Rightarrow> (0, 0))"
  note stage = rules_stage_eq [OF hs_def u_def need_def v_def k_def rg]
  have iu: "daemon_inv H (snd u)" using uses_ct_correct(2) [OF inv] by (simp add: u_def hs_def)
  have qv: "quiet (snd u) (snd v)" by (simp add: v_def rules_view_def quiet_ensure)
  have iv: "daemon_inv H (snd v)" by (rule daemon_inv_quiet [OF iu qv])
  have ev: "dn_engine (snd v) = dn_engine w" using quiet_engine [OF qv] uses_ct_frame(3) by (simp add: u_def)
  have hv: "hs = hotSnapshot (dn_engine (snd v))" by (simp add: ev hs_def)
  obtain c4 c6 where last: "snd (pf_evaluate F hs k (snd v)) = (snd v)\<lparr>dn_cache4 := c4, dn_cache6 := c6\<rparr>"
    using evaluate_frame by blast
  show "daemon_inv H (rg_world rg)" using daemon_inv_evaluate [OF iv] by (simp add: stage hv)
  show "dn_engine (rg_world rg) = dn_engine w" by (simp add: stage last ev)
  have "calm w (snd u)" unfolding u_def by (rule uses_ct_frame(4))
  then have "calm w (snd v)" by (rule calm_trans [OF _ quiet_calm [OF qv]])
  then show "calm w (rg_world rg)" unfolding stage last by (simp add: calm_def traffic_of_def)
  assume ok: "rules_ok (eng_rules (dn_engine w))" "priorities_ok (eng_rules (dn_engine w))"
    and key: "key_ok (packet_key F a (packet_uid a w) (0, 0))"
  have "key_ok k" using key key_ok_ct unfolding k_def by (subst with_ct_key) simp
  then have d: "rg_decision rg = scan (eng_rules (dn_engine w)) k"
    using evaluate_scan [OF iv, unfolded ev, OF ok] by (simp add: stage hs_def)
  show "rg_decision rg = scan (eng_rules (dn_engine w)) (packet_key F a (packet_uid a w) (tracked_ct F env a w))"
  proof (cases need)
    case True
    have "tracked_ct F env a (snd u) = tracked_ct F env a w"
      unfolding u_def by (rule tracked_ct_cong) (rule uses_ct_frame)+
    then show ?thesis using rules_view_ct [OF True, of F env a "snd u"] d by (simp add: k_def v_def)
  next
    case False
    have snap: "hs_snap hs = Some (compile_snapshot (eng_rules (dn_engine w)) (eng_rulesEpoch (dn_engine w)))"
      using inv snapshot_inv by (simp add: hs_def daemon_inv_def)
    have "\<not> uidUsesCt hs (packet_uid a w) fam"
      using False uses_ct_correct(1) [OF inv, of F a] mask_bit by (auto simp: need_def u_def hs_def packet_uid_def)
    then have "scan (eng_rules (dn_engine w)) (with_ct c (packet_key F a (packet_uid a w) (0, 0))) =
        scan (eng_rules (dn_engine w)) (packet_key F a (packet_uid a w) (0, 0))" for c
      using scan_ct [OF snap, of "packet_key F a (packet_uid a w) (0, 0)" c] by (simp add: packet_key_def)
    then have eq: "scan (eng_rules (dn_engine w)) (packet_key F a (packet_uid a w) c) =
        scan (eng_rules (dn_engine w)) (packet_key F a (packet_uid a w) (0, 0))" for c
      by (subst with_ct_key)
    show ?thesis using eq [of "tracked_ct F env a w"] False d by (simp add: k_def rules_ct_def)
  qed
qed

lemma make_effect_code:
  assumes inv: "daemon_inv H w" and d: "d = make_decision F env a w"
  shows "po_verdict (fst (make F env a w)) = packet_accepted a d"
    and "effect H env a (packet_accepted a d) (packet_reason a d) (packet_hits a d (dn_engine w)) w (snd (make F env a w))"
proof -
  let ?s = "p_settings (dn_policy w)"
  let ?P = "\<lambda>m. po_verdict (fst m) = packet_accepted a d \<and>
    effect H env a (packet_accepted a d) (packet_reason a d) (packet_hits a d (dn_engine w)) w (snd m)"
  have calm: "calm w w" by (simp add: calm_def)
  have "?P (make F env a w)"
  proof (cases "iface_blocked a \<or> \<not> set_ipRulesEnabled ?s")
    case True
    then have d: "d = noDecision" by (simp add: d make_decision_def)
    show ?thesis
      using True iface_drop_effect [OF inv, of env a F] default_effect [OF inv calm refl, of env a None F]
      by (auto simp: make_outcome d packet_reason_def packet_accepted_def packet_hits_def noDecision_def Let_def)
  next
    case False
    define rg where "rg = make_rules F env a w"
    note rs = rules_stage_effect [OF inv rg_def [unfolded make_rules_def]]
    have dd: "rg_decision rg = d" using False by (simp add: d make_decision_def rg_def)
    have m: "make F env a w = (if d_kind d = D_ALLOW \<or> d_kind d = D_BLOCK
        then enforce_verdict F env a (hotPathFlow (dn_tele w)) (a_tracked (p_appHeap (dn_policy w) (pa_app a)))
          (a_tracked (p_appHeap (dn_policy w) (pa_app a)) \<and> pa_wantEvent a) rg
        else default_verdict F env a (hotPathFlow (dn_tele w)) (a_tracked (p_appHeap (dn_policy w) (pa_app a)))
          (a_tracked (p_appHeap (dn_policy w) (pa_app a)) \<and> pa_wantEvent a)
          (if d_kind d = WOULD_BLOCK then Some d else None) (rg_view rg) (rg_ct rg) (rg_stages rg) (rg_world rg))"
      unfolding make_outcome Let_def make_rules_def [symmetric] rg_def [symmetric] dd using False by simp
    show ?thesis
    proof (cases "d_kind d = D_ALLOW \<or> d_kind d = D_BLOCK")
      case True
      then show ?thesis using False enforce_effect [OF rs(1,2,3), of env a F] unfolding m
        by (auto simp: dd packet_reason_def packet_accepted_def packet_hits_def)
    next
      case nodec: False
      show ?thesis
        using False nodec default_effect [OF rs(1,2,3), of env a "Some d" F] default_effect [OF rs(1,2,3), of env a None F] unfolding m
        by (cases "d_kind d = WOULD_BLOCK") (simp_all add: packet_reason_def packet_accepted_def packet_hits_def)
    qed
  qed
  then show "po_verdict (fst (make F env a w)) = packet_accepted a d"
    and "effect H env a (packet_accepted a d) (packet_reason a d) (packet_hits a d (dn_engine w)) w (snd (make F env a w))"
    by blast+
qed

lemma make_decision_spec:
  assumes inv: "daemon_inv H w" and ok: "rules_ok (eng_rules (dn_engine w))" "priorities_ok (eng_rules (dn_engine w))"
    and key: "key_ok (packet_key F a (packet_uid a w) (0, 0))"
  shows "make_decision F env a w = packet_decision F scan env a w"
  using rules_stage_effect(4) [OF inv make_rules_def ok key] by (simp add: make_decision_def packet_decision_def)

text \<open>The detailed path implements the specification.\<close>

lemmas make_effect = make_effect_code [OF _ make_decision_spec [symmetric]]

end

end
