(* ===== verification/PacketEvent.thy ===== *)
theory PacketEvent
  imports PacketVerdict
begin

text \<open>
  The event of a packet and its explanation agree with the verdict: same outcome, reason and rules in the event and in
  its summary, exactly one stage marked as the winner, namely the one the reason names, and every enabled stage after a
  terminal winner reported as short-circuited.
\<close>

section \<open>The shape of the stages\<close>

definition stage_names :: "PktStages \<Rightarrow> bool" where
  "stage_names sg \<longleftrightarrow> map ps_name (stage_list sg) = [''ifaceBlock'', ''iprules.enforce'', ''domainIpLeak'', ''iprules.would'']"

definition stage_winners :: "PktStages \<Rightarrow> bool list" where
  "stage_winners sg = map ps_winner (stage_list sg)"

lemmas stage_simps = stage_names_def stage_winners_def stage_list_def on_iface_def map_stages_def

lemma make_stages_shape: "stage_names (make_stages a s)" "stage_winners (make_stages a s) = [False, False, False, False]"
  by (simp_all add: make_stages_def stages_init_def stage_init_def stage_simps)

lemma skip_disabled_sel [simp]: "ps_name (skip_disabled s) = ps_name s" "ps_winner (skip_disabled s) = ps_winner s"
  by (simp_all add: skip_disabled_def)

lemma capture_shape:
  assumes "stage_names sg" and "stage_winners sg = [False, False, False, False]"
  shows "stage_names (captureIpRulesExplain F hs k d sg)"
    "stage_winners (captureIpRulesExplain F hs k d sg) = [False, d_kind d = D_ALLOW \<or> d_kind d = D_BLOCK, False, False]"
  using assms by (simp_all add: captureIpRulesExplain_def Let_def stage_simps split: prod.splits)

lemma short_sel [simp]: "ps_name (shortCircuited s) = ps_name s" "ps_winner (shortCircuited s) = False" "ps_enabled (shortCircuited s) = ps_enabled s"
  by (simp_all add: shortCircuited_def)

definition stage_mark :: "bool \<Rightarrow> PktStage \<Rightarrow> PktStage" where
  "stage_mark after s = (if after \<and> ps_enabled s then shortCircuited s
      else if \<not> ps_enabled s then s\<lparr>ps_skipReason := Some ''disabled''\<rparr> else s)"

lemma stage_mark_sel [simp]:
  "ps_name (stage_mark b s) = ps_name s" "\<not> ps_winner s \<Longrightarrow> \<not> ps_winner (stage_mark b s)"
  "ps_winner (stage_mark False s) = ps_winner s"
  by (simp_all add: stage_mark_def)

lemma mark_after:
  assumes "stage_names sg"
  shows "markPacketStagesShortCircuitedAfter win sg =
    \<lparr>sg_iface = stage_mark False (sg_iface sg), sg_enforce = stage_mark (win = ''ifaceBlock'') (sg_enforce sg),
     sg_domain = stage_mark (win \<in> {''ifaceBlock'', ''iprules.enforce''}) (sg_domain sg),
     sg_would = stage_mark (win \<in> {''ifaceBlock'', ''iprules.enforce'', ''domainIpLeak''}) (sg_would sg)\<rparr>"
  using assms by (auto simp: markPacketStagesShortCircuitedAfter_def stage_simps stages_of_def stage_mark_def)

section \<open>The event\<close>

definition event_agrees :: "bool \<Rightarrow> PacketReasonId \<Rightarrow> u32 option \<Rightarrow> u32 option \<Rightarrow> string \<Rightarrow> PktEvent \<Rightarrow> bool" where
  "event_agrees accepted reason rid wid win ev \<longleftrightarrow>
     ev_accepted ev = accepted \<and> ev_reasonId ev = reason \<and> ev_ruleId ev = rid \<and> ev_wouldRuleId ev = wid \<and>
     ev_final ev = \<lparr>pn_accepted = accepted, pn_reasonId = reason, pn_ruleId = rid, pn_wouldRuleId = wid, pn_wouldDrop = (wid \<noteq> None)\<rparr> \<and>
     map ps_name (filter ps_winner (ev_stages ev)) = [win]"

lemma fill_agrees:
  assumes "stage_names sg"
    and "stage_winners sg = map (\<lambda>n. n = win) [''ifaceBlock'', ''iprules.enforce'', ''domainIpLeak'', ''iprules.would'']"
    and "win \<in> {''ifaceBlock'', ''iprules.enforce'', ''domainIpLeak''}"
  shows "event_agrees v r rid wid win (fillStreamEvent F a p sg ct v r rid wid)"
  using assms by (auto simp: event_agrees_def fillStreamEvent_def Let_def stage_simps)

lemma iface_drop_event:
  assumes "stage_names sg" "stage_winners sg = [False, False, False, False]"
    and "po_event (fst (iface_drop F env a hot tr ex sg w)) = Some ev"
  shows "event_agrees False IFACE_BLOCK None None ''ifaceBlock'' ev"
proof -
  define sg1 where "sg1 = markPacketStagesShortCircuitedAfter ''ifaceBlock''
    (on_iface (\<lambda>s. s\<lparr>ps_matched := True, ps_outcome := ''block'', ps_winner := True,
       ps_ifaceBlock := Some (iface_evidence a True (Some ''shortCircuited''))\<rparr>) sg)"
  have "stage_names sg1" and "stage_winners sg1 = [True, False, False, False]"
    using assms(1,2) unfolding sg1_def by (subst mark_after; simp add: stage_simps)+
  moreover obtain p where "ev = fillStreamEvent F a p sg1 None False IFACE_BLOCK None None"
    using assms(3) by (auto simp: iface_drop_def Let_def case_prod_beta sg1_def split: if_splits)
  ultimately show ?thesis using fill_agrees [of sg1 "''ifaceBlock''"] by simp
qed

lemma enforce_event:
  assumes "stage_names (rg_stages rg)" "stage_winners (rg_stages rg) = [False, True, False, False]"
    and "po_event (fst (enforce_verdict F env a hot tr ex rg)) = Some ev" and d: "d = rg_decision rg"
  shows "event_agrees (d_kind d = D_ALLOW) (if d_kind d = D_ALLOW then IP_RULE_ALLOW else IP_RULE_BLOCK) (Some (d_ruleId d)) None ''iprules.enforce'' ev"
proof -
  define sg1 where "sg1 = markPacketStagesShortCircuitedAfter ''iprules.enforce'' (rg_stages rg)"
  have "stage_names sg1" and "stage_winners sg1 = [False, True, False, False]"
    using assms(1,2) unfolding sg1_def by (subst mark_after; simp add: stage_simps)+
  moreover obtain p where "ev = fillStreamEvent F a p sg1 (rg_ct rg) (d_kind d = D_ALLOW)
      (if d_kind d = D_ALLOW then IP_RULE_ALLOW else IP_RULE_BLOCK) (Some (d_ruleId d)) None"
    using assms(3) by (auto simp: enforce_verdict_def Let_def sg1_def d split: if_splits)
  ultimately show ?thesis by (simp only:) (rule fill_agrees; simp)
qed

lemma default_event:
  assumes "ex \<Longrightarrow> stage_names sg" "ex \<Longrightarrow> stage_winners sg = [False, False, False, False]"
    and "po_event (fst (default_verdict F env a hot tr ex would v0 ct sg w)) = Some ev"
  shows "event_agrees True ALLOW_DEFAULT None (map_option d_ruleId would) ''domainIpLeak'' ev"
proof -
  have ex using assms(3) unfolding default_verdict_def Let_def case_prod_beta finish_simps by (simp split: if_splits)
  define sg1 where "sg1 = default_stages False (would \<noteq> None) sg"
  have w: "ps_name (would_stage b s) = ps_name s" "\<not> ps_winner s \<Longrightarrow> \<not> ps_winner (would_stage b s)" for b s
    by (simp_all add: would_stage_def)
  have "stage_names sg1" and "stage_winners sg1 = [False, False, True, False]"
    using assms(1,2) \<open>ex\<close> unfolding sg1_def by (simp_all add: default_stages_def Let_def stage_simps w)
  moreover obtain p where "ev = fillStreamEvent F a p sg1 ct True ALLOW_DEFAULT None (map_option d_ruleId would)"
    using assms(3) unfolding default_verdict_def Let_def case_prod_beta finish_simps legacyBlockIPLeaksFrozenValue_def
    by (auto simp: sg1_def split: if_splits option.splits)
  ultimately show ?thesis using fill_agrees [of sg1 "''domainIpLeak''"] by simp
qed

lemma rules_stage_stages:
  "rg_stages (rules_stage F env a t ex sg w) = sg \<and> \<not> ex \<or>
   (\<exists>hs k. rg_stages (rules_stage F env a t ex sg w) = captureIpRulesExplain F hs k (rg_decision (rules_stage F env a t ex sg w)) sg)"
  unfolding rules_stage_def Let_def case_prod_beta by simp metis

section \<open>Every event\<close>

lemma make_event:
  assumes ev: "po_event (fst (make F env a w)) = Some ev" and d: "d = make_decision F env a w"
  shows "event_agrees (packet_accepted a d) (packet_reason a d) (packet_ruleId d) (packet_wouldRuleId d) (packet_winner a d) ev"
proof (cases "iface_blocked a \<or> \<not> set_ipRulesEnabled (p_settings (dn_policy w))")
  case True
  then have d: "d = noDecision" by (simp add: d make_decision_def)
  note defs = packet_accepted_def packet_reason_def packet_ruleId_def packet_wouldRuleId_def packet_winner_def noDecision_def
  note shape = make_stages_shape [of a "p_settings (dn_policy w)"]
  show ?thesis
  proof (cases "iface_blocked a")
    case True
    then show ?thesis using iface_drop_event [OF shape] ev by (simp add: make_outcome d defs Let_def)
  next
    case False
    then show ?thesis using True default_event [OF shape, where would = None] ev by (simp add: make_outcome d defs Let_def)
  qed
next
  case False
  define ex where "ex = (a_tracked (p_appHeap (dn_policy w) (pa_app a)) \<and> pa_wantEvent a)"
  define rg where "rg = make_rules F env a w"
  note shape = make_stages_shape [of a "p_settings (dn_policy w)"]
  note defs = packet_accepted_def packet_reason_def packet_ruleId_def packet_wouldRuleId_def packet_winner_def
  have dd: "rg_decision rg = d" using False by (simp add: d make_decision_def rg_def)
  have st: "stage_names (rg_stages rg)" "ex \<Longrightarrow> stage_winners (rg_stages rg) = [False, d_kind d = D_ALLOW \<or> d_kind d = D_BLOCK, False, False]"
    using rules_stage_stages [of F env a _ ex "make_stages a (p_settings (dn_policy w))" w] capture_shape [OF shape] shape dd
    unfolding rg_def make_rules_def ex_def [symmetric] by metis+
  have ev: "po_event (fst (if d_kind d = D_ALLOW \<or> d_kind d = D_BLOCK
      then enforce_verdict F env a (hotPathFlow (dn_tele w)) (a_tracked (p_appHeap (dn_policy w) (pa_app a))) ex rg
      else default_verdict F env a (hotPathFlow (dn_tele w)) (a_tracked (p_appHeap (dn_policy w) (pa_app a))) ex
        (if d_kind d = WOULD_BLOCK then Some d else None) (rg_view rg) (rg_ct rg) (rg_stages rg) (rg_world rg))) = Some ev"
    using ev False unfolding make_outcome Let_def make_rules_def [symmetric] rg_def [symmetric] dd unfolding ex_def [symmetric] by simp
  show ?thesis
  proof (cases "d_kind d = D_ALLOW \<or> d_kind d = D_BLOCK")
    case True
    then have e: "po_event (fst (enforce_verdict F env a (hotPathFlow (dn_tele w)) (a_tracked (p_appHeap (dn_policy w) (pa_app a))) ex rg)) = Some ev"
      using ev by simp
    then have ex unfolding enforce_verdict_def Let_def finish_simps by (simp split: if_splits)
    then show ?thesis using enforce_event [OF st(1) _ e dd [symmetric]] st(2) True False by (auto simp: defs)
  next
    case nodec: False
    show ?thesis using default_event [OF st(1) _ ev [unfolded if_not_P [OF nodec]]] st(2) False nodec by (auto simp: defs)
  qed
qed

end
