(* ===== verification/PacketGuarantees.thy ===== *)
theory PacketGuarantees
  imports PacketEvent
begin

text \<open>
  The daemon as a state machine: packets of both families, commands to the rules engine, apps that appear, resets, and
  every other activity that leaves rules, caches and capability words alone. In every state it reaches a packet gets the
  verdict of the specification, is counted once under the reason of that verdict, and its event explains it.
\<close>

section \<open>The two families\<close>

lemma evaluate_frame4: "\<exists>c4 c6. snd (pf_evaluate (pktFam4 ntop4) hs k w) = w\<lparr>dn_cache4 := c4, dn_cache6 := c6\<rparr>"
  by (rule exI [of _ "snd (hot_evaluate hs k (dn_cache4 w))"], rule exI [of _ "dn_cache6 w"])
     (simp add: pktFam4_def case_prod_beta)

lemma evaluate_frame6: "\<exists>c4 c6. snd (pf_evaluate (pktFam6 ntop6) hs k w) = w\<lparr>dn_cache4 := c4, dn_cache6 := c6\<rparr>"
  by (rule exI [of _ "dn_cache4 w"], rule exI [of _ "snd (hot_evaluateV6 hs k (dn_cache6 w))"])
     (simp add: pktFam6_def case_prod_beta)

lemma evaluate4:
  assumes "daemon_inv H w"
  shows "fst (pf_evaluate (pktFam4 ntop4) (hotSnapshot (dn_engine w)) k w) = snap_evaluate (eng_snapshot (dn_engine w)) k"
    and "caches_ok H (snd (pf_evaluate (pktFam4 ntop4) (hotSnapshot (dn_engine w)) k w))"
  using cache4.cached_evaluate_correct [of H "hotSnapshot (dn_engine w)" "eng_snapshot (dn_engine w)" "dn_cache4 w" k] assms
  by (simp_all add: pktFam4_def case_prod_beta hot_evaluate_def daemon_inv_def caches_ok_def)

lemma evaluate6:
  assumes "daemon_inv H w"
  shows "fst (pf_evaluate (pktFam6 ntop6) (hotSnapshot (dn_engine w)) k w) = snap_evaluateV6 (eng_snapshot (dn_engine w)) k"
    and "caches_ok H (snd (pf_evaluate (pktFam6 ntop6) (hotSnapshot (dn_engine w)) k w))"
  using cache6.cached_evaluate_correct [of H "hotSnapshot (dn_engine w)" "eng_snapshot (dn_engine w)" "dn_cache6 w" k] assms
  by (simp_all add: pktFam6_def case_prod_beta hot_evaluateV6_def daemon_inv_def caches_ok_def)

interpretation pf4: packet_family "pktFam4 ntop4" IPV4 reference_v4 "\<lambda>_. True" for ntop4
proof
  show "caps_mask hs uid AND pf_maskBit (pktFam4 ntop4) \<noteq> 0 \<longleftrightarrow> uidUsesCt hs uid IPV4" for hs uid
    by (simp add: pktFam4_def caps_mask_bits)
  show "fst (pf_evaluate (pktFam4 ntop4) (hotSnapshot (dn_engine w)) k w) = reference_v4 (eng_rules (dn_engine w)) k"
    if "daemon_inv H w" "rules_ok (eng_rules (dn_engine w))" "priorities_ok (eng_rules (dn_engine w))" for H w k
    using evaluate4(1) [OF that(1)] evaluate_reference4 [OF that(2,3)] snapshot_inv [of "dn_engine w"] that(1) by (simp add: daemon_inv_def)
qed (simp_all add: evaluate_frame4 evaluate4 reference4_with_ct)

definition key6_ok :: "PacketKeyV6 \<Rightarrow> bool" where
  "key6_ok k \<longleftrightarrow> length (k_srcIp k) = 16 \<and> length (k_dstIp k) = 16"

lemma key6_ok_ct: "key6_ok (with_ct c k) = key6_ok k"
  by (simp add: key6_ok_def with_ct_def)

interpretation pf6: packet_family "pktFam6 ntop6" IPV6 reference_v6 key6_ok for ntop6
proof
  show "caps_mask hs uid AND pf_maskBit (pktFam6 ntop6) \<noteq> 0 \<longleftrightarrow> uidUsesCt hs uid IPV6" for hs uid
    by (simp add: pktFam6_def caps_mask_bits)
  show "fst (pf_evaluate (pktFam6 ntop6) (hotSnapshot (dn_engine w)) k w) = reference_v6 (eng_rules (dn_engine w)) k"
    if "daemon_inv H w" "rules_ok (eng_rules (dn_engine w))" "priorities_ok (eng_rules (dn_engine w))" "key6_ok k" for H w k
    using evaluate6(1) [OF that(1)] evaluate_reference6 [OF that(2,3)] snapshot_inv [of "dn_engine w"] that(1,4)
    by (simp add: daemon_inv_def key6_ok_def)
qed (simp_all add: evaluate_frame6 evaluate6 reference6_with_ct key6_ok_ct)

section \<open>Runs of the daemon\<close>

definition daemon_fresh :: "Daemon \<Rightarrow> bool" where
  "daemon_fresh w \<longleftrightarrow> (\<exists>iid f. dn_engine w = engine_init iid f) \<and> (\<exists>k. dn_cache4 w = emptyCache 1024 k) \<and>
     (\<exists>k. dn_cache6 w = emptyCache 512 k) \<and> dn_reasons w = metrics_new \<and> (\<forall>x. a_ipRulesCaps (p_appHeap (dn_policy w) x) = 0)"

text \<open>Activity that touches neither the engine nor what the packet threads derive from it.\<close>

definition unrelated :: "Daemon \<Rightarrow> Daemon \<Rightarrow> bool" where
  "unrelated w w' \<longleftrightarrow> dn_engine w' = dn_engine w \<and> dn_reasons w' = dn_reasons w \<and> dn_cache4 w' = dn_cache4 w \<and> dn_cache6 w' = dn_cache6 w \<and>
     (\<forall>x. a_uid (p_appHeap (dn_policy w') x) = a_uid (p_appHeap (dn_policy w) x) \<and>
          a_ipRulesCaps (p_appHeap (dn_policy w') x) = a_ipRulesCaps (p_appHeap (dn_policy w) x))"

definition epoch_room :: "Engine \<Rightarrow> bool" where
  "epoch_room e \<longleftrightarrow> unat (eng_rulesEpoch e) + 1 < 2 ^ 56"

definition daemon_command :: "(string \<Rightarrow> u32 option) \<Rightarrow> Command \<Rightarrow> Daemon \<Rightarrow> Daemon" where
  "daemon_command pton4 c w = w\<lparr>dn_engine := exec pton4 c (dn_engine w)\<rparr>"

inductive daemon_run ::
  "(string \<Rightarrow> u32 option) \<Rightarrow> (u32 \<Rightarrow> string option) \<Rightarrow> (ip6 \<Rightarrow> string option) \<Rightarrow> Snapshot set \<Rightarrow> Daemon \<Rightarrow> bool" for pton4 ntop4 ntop6 where
  run_start: "daemon_fresh w \<Longrightarrow> daemon_run pton4 ntop4 ntop6 {eng_snapshot (dn_engine w)} w"
| run_command: "daemon_run pton4 ntop4 ntop6 H w \<Longrightarrow> admissible c (dn_engine w) \<Longrightarrow> epoch_room (dn_engine w) \<Longrightarrow>
    daemon_run pton4 ntop4 ntop6 (insert (eng_snapshot (exec pton4 c (dn_engine w))) H) (daemon_command pton4 c w)"
| run_packet4: "daemon_run pton4 ntop4 ntop6 H w \<Longrightarrow> daemon_run pton4 ntop4 ntop6 H (snd (make (pktFam4 ntop4) env a w))"
| run_packet6: "daemon_run pton4 ntop4 ntop6 H w \<Longrightarrow> daemon_run pton4 ntop4 ntop6 H (snd (make (pktFam6 ntop6) env b w))"
| run_app: "daemon_run pton4 ntop4 ntop6 H w \<Longrightarrow> daemon_run pton4 ntop4 ntop6 H (on_policy (\<lambda>p. snd (am_make today uid p)) w)"
| run_install: "daemon_run pton4 ntop4 ntop6 H w \<Longrightarrow> daemon_run pton4 ntop4 ntop6 H (on_policy (install renameOk today uid names) w)"
| run_reset: "daemon_run pton4 ntop4 ntop6 H w \<Longrightarrow> epoch_room (dn_engine w) \<Longrightarrow>
    daemon_run pton4 ntop4 ntop6 (insert (eng_snapshot (resetAll (dn_engine w))) H) (pm_reset w)"
| run_checkpoint: "daemon_run pton4 ntop4 ntop6 H w \<Longrightarrow> daemon_run pton4 ntop4 ntop6 H (pm_resetCheckpointRuntimeEpoch w)"
| run_unrelated: "daemon_run pton4 ntop4 ntop6 H w \<Longrightarrow> unrelated w w' \<Longrightarrow> daemon_run pton4 ntop4 ntop6 H w'"

lemma daemon_inv_unrelated: "daemon_inv H w \<Longrightarrow> unrelated w w' \<Longrightarrow> daemon_inv H w'"
  by (rule daemon_inv_step [where w = w]) (auto simp: unrelated_def daemon_inv_def caches_ok_def intro: caps_ok_kept)

lemma daemon_inv_command:
  assumes inv: "daemon_inv H w" and room: "epoch_room (dn_engine w)"
  shows "daemon_inv (insert (eng_snapshot (exec pton4 c (dn_engine w))) H) (daemon_command pton4 c w)"
proof -
  let ?e = "dn_engine w" and ?e' = "exec pton4 c (dn_engine w)"
  let ?H = "insert (eng_snapshot ?e') H"
  have nxt: "unat (eng_rulesEpoch ?e + 1) = unat (eng_rulesEpoch ?e) + 1"
    using room by (simp add: epoch_room_def unat_plus_if')
  then have nz: "eng_rulesEpoch ?e + 1 \<noteq> 0" by (metis add_is_0 one_neq_zero unat_0)
  have hot: "hot_inv ?e' ?H (dn_cache4 w)"
    using inv by (intro hot_inv_command [OF _ nz]) (simp add: hot_inv_def daemon_inv_def caches_ok_def)
  have step: "eng_instanceId ?e' = eng_instanceId ?e" "unat (eng_rulesEpoch ?e') < 2 ^ 56"
    using epoch_step_exec [of ?e pton4 c] room nxt inv by (auto simp: epoch_step_def epoch_room_def daemon_inv_def)
  have sub: "H \<subseteq> ?H" by blast
  have c6: "cache6.cache_ok (eng_instanceId ?e') ?H (dn_cache6 w)"
    using cache6.cache_ok_mono [OF _ sub] inv step(1) by (simp add: daemon_inv_def caches_ok_def)
  have "caps_ok (eng_instanceId ?e') ?H (p_appHeap (dn_policy w) x)" for x
    using caps_ok_mono [OF _ sub] inv step(1) by (simp add: daemon_inv_def)
  then show ?thesis using hot step c6 inv by (simp add: daemon_inv_def daemon_command_def hot_inv_def caches_ok_def)
qed

lemma am_make_apps: "p_appHeap (snd (am_make today uid p)) x = p_appHeap p x \<or> a_ipRulesCaps (p_appHeap (snd (am_make today uid p)) x) = 0"
  by (auto simp: am_make_def am_prepare_def alloc_app_def am_publishPrepared_def app_anonymous_def app_new_def upd_am_def am_find_def Let_def
      split: option.splits)

lemma upgrade_kept:
  "a_uid (fst (snd (upgradeName ok n y fs))) = a_uid y \<and> a_ipRulesCaps (fst (snd (upgradeName ok n y fs))) = a_ipRulesCaps y"
  "a_uid (fst (snd (upgradeName_vec ok ns y fs))) = a_uid y \<and> a_ipRulesCaps (fst (snd (upgradeName_vec ok ns y fs))) = a_ipRulesCaps y"
  by (auto simp: upgradeName_vec_def upgradeName_def Let_def split: list.splits)

lemma am_create_caps:
  assumes "a_ipRulesCaps fresh = 0" and "\<And>y. caps_ok inst H (p_appHeap p y)"
    and "\<And>y fs. a_uid (fst (snd (upg y fs))) = a_uid y \<and> a_ipRulesCaps (fst (snd (upg y fs))) = a_ipRulesCaps y"
  shows "caps_ok inst H (p_appHeap (snd (am_create ok fresh upg uid p)) x)"
proof -
  have new: "caps_ok inst H (fst (snd (upg (p_appHeap p y) fs)))" for y fs
    using caps_ok_kept [OF assms(2) [of y]] assms(3) [of "p_appHeap p y" fs] by blast
  show ?thesis
    using assms(1,2) new by (auto simp: am_create_def alloc_app_def upd_am_def upd_app_def Let_def case_prod_beta caps_ok_fresh
        split: option.splits if_splits)
qed

lemma install_caps:
  "(\<And>y. caps_ok inst H (p_appHeap p y)) \<Longrightarrow> caps_ok inst H (p_appHeap (install renameOk today uid names p) x)"
  unfolding install_def
  by (auto intro!: am_create_caps simp: app_named_def app_anonymous_def app_new_def upgrade_kept)

lemma daemon_inv_policy:
  assumes "daemon_inv H w" and "\<And>x. caps_ok (eng_instanceId (dn_engine w)) H (p_appHeap (f (dn_policy w)) x)"
  shows "daemon_inv H (on_policy f w)"
  using assms by (simp add: daemon_inv_def on_policy_def caches_ok_def)

lemma engine_run_hits: "engine_run pton4 e \<Longrightarrow> engine_run pton4 (packet_hits a d e)"
  using run_step [of pton4 e "EnforceHit d (ucast (pa_len a)) (tsNs a)"] run_step [of pton4 e "WouldHit d True (ucast (pa_len a)) (tsNs a)"]
  by (simp add: packet_hits_def)

lemma run_daemon_inv: "daemon_run pton4 ntop4 ntop6 H w \<Longrightarrow> daemon_inv H w \<and> engine_run pton4 (dn_engine w)"
proof (induction rule: daemon_run.induct)
  case (run_start w)
  then obtain iid f k k6 where e: "dn_engine w = engine_init iid f" "dn_cache4 w = emptyCache 1024 k" "dn_cache6 w = emptyCache 512 k6"
    "dn_reasons w = metrics_new" "\<forall>x. a_ipRulesCaps (p_appHeap (dn_policy w) x) = 0" by (auto simp: daemon_fresh_def)
  have "eng_rulesEpoch (engine_init iid f) = 1" by (simp add: engine_init_def Let_def)
  then show ?case
    using hot_reach_inv [OF hot_reach.hot_init [of undefined iid f k]] e
    by (auto simp: daemon_inv_def hot_inv_def caches_ok_def cache6.cache_ok_def emptyCache_def entry_ok_def caps_ok_fresh intro: engine_run.intros)
next
  case (run_command H w c)
  then show ?case using daemon_inv_command engine_run.run_step by (auto simp: daemon_command_def)
next
  case (run_packet4 H w env a)
  then show ?case using pf4.make_effect_code(2) [OF _ refl, of H w env a ntop4] engine_run_hits by (auto simp: effect_def)
next
  case (run_packet6 H w env b)
  then show ?case using pf6.make_effect_code(2) [OF _ refl, of H w env b ntop6] engine_run_hits by (auto simp: effect_def)
next
  case (run_app H w today uid)
  have "caps_ok (eng_instanceId (dn_engine w)) H (p_appHeap (snd (am_make today uid (dn_policy w))) x)" for x
    using am_make_apps [of today uid "dn_policy w" x] run_app.IH by (auto simp: daemon_inv_def intro: caps_ok_fresh)
  then show ?case using run_app.IH daemon_inv_policy [of H w "\<lambda>p. snd (am_make today uid p)"] by (simp add: on_policy_def)
next
  case (run_install H w renameOk today uid names)
  have "caps_ok (eng_instanceId (dn_engine w)) H (p_appHeap (install renameOk today uid names (dn_policy w)) x)" for x
    using run_install.IH by (intro install_caps) (auto simp: daemon_inv_def)
  then show ?case using run_install.IH daemon_inv_policy [of H w "install renameOk today uid names"] by (simp add: on_policy_def)
next
  case (run_reset H w)
  have "daemon_inv (insert (eng_snapshot (resetAll (dn_engine w))) H) (daemon_command pton4 ResetAll w)"
    using daemon_inv_command [of H w pton4 ResetAll] run_reset by simp
  moreover have "engine_run pton4 (resetAll (dn_engine w))"
    using run_reset engine_run.run_step [of pton4 "dn_engine w" ResetAll] by simp
  ultimately show ?case by (simp add: pm_reset_def daemon_command_def daemon_inv_def caches_ok_def)
next
  case (run_checkpoint H w)
  then show ?case by (simp add: pm_resetCheckpointRuntimeEpoch_def daemon_inv_def caches_ok_def)
next
  case (run_unrelated H w w')
  then show ?case using daemon_inv_unrelated by (auto simp: unrelated_def)
qed

lemma make_event_some:
  "a_tracked (p_appHeap (dn_policy w) (pa_app a)) \<Longrightarrow> pa_wantEvent a \<Longrightarrow> \<exists>ev. po_event (fst (make F env a w)) = Some ev"
  unfolding make_def Let_def iface_drop_def enforce_verdict_def default_verdict_def case_prod_beta
  by (simp only: if_distrib [of fst] if_distrib [of po_event] finish_simps) simp

section \<open>A concrete daemon\<close>

text \<open>One tracked app of uid 10001 for which a block and an allow rule are applied.\<close>

definition ex_policy :: Policy where
  "ex_policy = \<lparr>p_settings = \<lparr>set_blockEnabled = True, set_blockMask = 0, set_blockIface = 0, set_reverseDns = False, set_ipRulesEnabled = True\<rparr>,
     p_ruleHeap = (\<lambda>_. undefined), p_nextRule = 0, p_domHeap = (\<lambda>_. undefined), p_nextDom = 0,
     p_appHeap = (\<lambda>_. (app_new 0 10001 ''a'' [] ''a'' 1 0 True)\<lparr>a_tracked := True\<rparr>), p_nextApp = 1,
     p_rm = undefined, p_dm = undefined, p_am = undefined\<rparr>"

definition ex_daemon :: Daemon where
  "ex_daemon = \<lparr>dn_policy = ex_policy, dn_hosts = undefined, dn_activity = \<lparr>ac_topApp = None, ac_timestampMs = 0\<rparr>,
     dn_ifaces = \<lparr>if_snap = None, if_lastRefreshNs = 0\<rparr>, dn_engine = ex_e0, dn_ct = conntrack_new options_default,
     dn_tele = \<lparr>ft_session = None, ft_ownerKey = None, ft_nextSessionId = 0, recordsWritten = 0, recordsDropped = 0,
       lastDropReason = undefined, ft_lastError = []\<rparr>,
     dn_reasons = metrics_new, dn_cache4 = emptyCache 1024 ex_key, dn_cache6 = emptyCache 512 ex_key6\<rparr>"

definition ex_daemon1 :: Daemon where
  "ex_daemon1 = daemon_command noAddr ex_cmd ex_daemon"

definition ex_env :: Env where
  "ex_env = \<lparr>en_thread = 0, en_now = 0, en_today = 0, en_nowMs = 0\<rparr>"

definition ex_packet :: "u8 list \<Rightarrow> u8 \<Rightarrow> 'ip PktArgs" where
  "ex_packet bytes ifaceMask = \<lparr>pa_src = bytes, pa_dst = bytes, pa_app = 0, pa_host = 0, pa_input = False, pa_iface = 3,
     pa_uidKnown = True, pa_ifindexKnown = True, pa_ts = (1, 0),
     pa_l4 = \<lparr>l4Status = KNOWN_L4, l4_proto = 6, l4_srcPort = 5000, l4_dstPort = 443, l4_portsAvailable = 1\<rparr>,
     pa_len = 60, pa_ifaceKindBit = 1, pa_appIfaceMask = ifaceMask, pa_ctPkt = None, pa_wantEvent = True\<rparr>"

lemma ex_daemon_run: "daemon_run noAddr ntop4 ntop6 {eng_snapshot ex_e0} ex_daemon"
proof -
  have "daemon_fresh ex_daemon"
    by (auto simp: daemon_fresh_def ex_daemon_def ex_e0_def ex_policy_def app_new_def)
  from run_start [OF this] show ?thesis by (simp add: ex_daemon_def)
qed

lemma ex_daemon1_engine: "dn_engine ex_daemon1 = ex_e1"
  by (simp add: ex_daemon1_def daemon_command_def ex_daemon_def ex_e1_def)

lemma ex_daemon1_run: "daemon_run noAddr ntop4 ntop6 (insert (eng_snapshot ex_e1) {eng_snapshot ex_e0}) ex_daemon1"
proof -
  have "admissible ex_cmd (dn_engine ex_daemon)" "epoch_room (dn_engine ex_daemon)"
    by (simp_all add: ex_cmd_def ex_daemon_def ex_e0_def engine_init_def Let_def ex_apply_wf epoch_room_def)
  from run_command [OF ex_daemon_run this] show ?thesis by (simp add: ex_daemon1_def ex_daemon_def ex_e1_def)
qed

lemma ex_daemon1_prio: "priorities_ok (eng_rules (dn_engine ex_daemon1))"
  by (simp add: ex_daemon1_engine ex_e1_prio)

lemma ex_daemon1_fields: "set_ipRulesEnabled (p_settings (dn_policy ex_daemon1))" "packet_uid (ex_packet bytes m) ex_daemon1 = 10001"
  by (simp_all add: ex_daemon1_def daemon_command_def ex_daemon_def ex_policy_def packet_uid_def app_new_def)

lemma ex_packet_ct: "tracked_ct F ex_env (ex_packet bytes m) ex_daemon1 = (connState_u8 CT_INVALID, 0)"
  by (simp add: tracked_ct_def ex_packet_def l4AllowsCt_def)

lemma ex_packet_iface: "iface_blocked (ex_packet bytes m) \<longleftrightarrow> m AND 1 \<noteq> 0"
  by (simp add: iface_blocked_def ex_packet_def)

lemma ex_packet_decision4:
  "packet_decision (pktFam4 ntop4) reference_v4 ex_env (ex_packet [10, 0, 0, 1] 0) ex_daemon1 = \<lparr>d_kind = D_ALLOW, d_ruleId = 1, d_stats = Some 1\<rparr>"
proof -
  have "reference_v4 [(0, ex_s0), (1, ex_s1)]
      \<lparr>k_uid = 10001, k_dir = 1, k_ifaceKind = 1, k_proto = 6, k_ifindex = 3, k_srcIp = 0x0A000001, k_dstIp = 0x0A000001,
       k_srcPort = 5000, k_dstPort = 443, k_portsAvailable = 1, k_ctState = 3, k_ctDir = 0\<rparr> =
      \<lparr>d_kind = D_ALLOW, d_ruleId = 1, d_stats = Some 1\<rparr>" by code_simp
  moreover have "packet_key (pktFam4 ntop4) (ex_packet [10, 0, 0, 1] 0) 10001 (connState_u8 CT_INVALID, 0) =
      \<lparr>k_uid = 10001, k_dir = 1, k_ifaceKind = 1, k_proto = 6, k_ifindex = 3, k_srcIp = 0x0A000001, k_dstIp = 0x0A000001,
       k_srcPort = 5000, k_dstPort = 443, k_portsAvailable = 1, k_ctState = 3, k_ctDir = 0\<rparr>"
    by (simp add: packet_key_def pktFam4_def ex_packet_def ipRulesProtoTok_def Let_def v4HostFromNetBytes_def) 
  ultimately show ?thesis
    by (simp add: packet_decision_def ex_daemon1_fields ex_packet_ct ex_daemon1_engine ex_e1_rules iface_blocked_def) (simp add: ex_packet_def)
qed

section \<open>Properties\<close>



text \<open>The same for IPv6, for packets whose addresses have 16 bytes.\<close>

theorem packet_verdict_v6:
  assumes "daemon_run pton4 ntop4 ntop6 H w" and "priorities_ok (eng_rules (dn_engine w))"
    and "16 \<le> length (pa_src a)" and "16 \<le> length (pa_dst a)"
  shows "let d = packet_decision (pktFam6 ntop6) reference_v6 env a w; m = make (pktFam6 ntop6) env a w in
    po_verdict (fst m) = packet_accepted a d \<and> dn_engine (snd m) = packet_hits a d (dn_engine w)"
proof -
  have inv: "daemon_inv H w" and ok: "rules_ok (eng_rules (dn_engine w))"
    using run_daemon_inv [OF assms(1)] run_rules_ok by auto
  have "key6_ok (packet_key (pktFam6 ntop6) a (packet_uid a w) (0, 0))"
    using assms(3,4) by (simp add: key6_ok_def packet_key_def pktFam6_def)
  then show ?thesis using pf6.make_effect [where a = a and env = env and ?ntop6.0 = ntop6, OF inv inv ok assms(2)] by (simp add: Let_def effect_def)
qed

theorem packet_verdict_v6_witness:
  "\<not> po_verdict (fst (make (pktFam6 (\<lambda>_. None)) ex_env (ex_packet (replicate 16 1) 5) ex_daemon1))"
  using packet_verdict_v6 [where env = ex_env and a = "ex_packet (replicate 16 1) 5" and ?ntop6.0 = "\<lambda>_. None", OF ex_daemon1_run ex_daemon1_prio]
  by (simp add: Let_def packet_accepted_def iface_blocked_def) (simp add: ex_packet_def)





end
