(* ===== verification/AppGuarantees.thy ===== *)
theory AppGuarantees
  imports AppOps
begin

text \<open>
  The registry of apps as a state machine: apps appear with their first packet or query (\<^verbatim>\<open>make\<close>, \<^verbatim>\<open>publishPrepared\<close>), are
  named by the package list (\<^verbatim>\<open>install\<close>), disappear (\<^verbatim>\<open>remove\<close>) or are cleared (\<^verbatim>\<open>reset\<close>). Both indexes only ever lead to
  registered apps; the index by name is not complete when users share a package name.
\<close>

section \<open>The invariant\<close>

definition registered :: "addr \<Rightarrow> Policy \<Rightarrow> bool" where
  "registered a p \<longleftrightarrow> map_of (am_byUid (p_am p)) (a_uid (p_appHeap p a)) = Some a"

definition registry_inv :: "Policy \<Rightarrow> bool" where
  "registry_inv p \<longleftrightarrow> omap_wf (am_byUid (p_am p)) \<and>
     (\<forall>uid a. map_of (am_byUid (p_am p)) uid = Some a \<longrightarrow> a_uid (p_appHeap p a) = uid \<and> a < p_nextApp p) \<and>
     (\<forall>n a. map_of (am_byName (p_am p)) n = Some a \<longrightarrow> registered a p \<and> a_name (p_appHeap p a) = n)"

lemma map_of_emplace_name: "map_of (emplace_name n a m) k = (if map_of m n = None \<and> k = n then Some a else map_of m k)"
  by (auto simp: emplace_name_def map_add_def split: option.splits)

lemma map_of_erase_name: "map_of (erase_name n m) k = (if k = n then None else map_of m k)"
  unfolding erase_name_def by (induction m) auto

text \<open>A new object that nothing refers to yet.\<close>

lemma registry_alloc: "registry_inv p \<Longrightarrow> alloc_app x p = (a, p1) \<Longrightarrow> registry_inv p1 \<and>
    p_appHeap p1 a = x \<and> a < p_nextApp p1 \<and> p_am p1 = p_am p \<and> (\<forall>b. b < p_nextApp p \<longrightarrow> p_appHeap p1 b = p_appHeap p b)"
  unfolding registry_inv_def registered_def alloc_app_def by (auto, metis less_irrefl, metis less_Suc_eq, metis less_irrefl, metis less_irrefl)

lemma registry_publish:
  assumes inv: "registry_inv p" and none: "map_of (am_byUid (p_am p)) uid = None" and a: "a_uid (p_appHeap p a) = uid" "a < p_nextApp p"
    and q: "q = upd_am (\<lambda>m. m\<lparr>am_byUid := fst (omap_emplace uid a (am_byUid m)), am_byName := emplace_name (a_name (p_appHeap p a)) a (am_byName m)\<rparr>) p"
  shows "registry_inv q"
proof -
  have wf: "omap_wf (am_byUid (p_am p))" using inv by (simp add: registry_inv_def)
  have uid: "map_of (am_byUid (p_am q)) = (map_of (am_byUid (p_am p)))(uid \<mapsto> a)"
    using none by (simp add: q upd_am_def map_of_omap_emplace [OF wf])
  have name: "map_of (am_byName (p_am q)) n = (if map_of (am_byName (p_am p)) (a_name (p_appHeap p a)) = None \<and> n = a_name (p_appHeap p a)
      then Some a else map_of (am_byName (p_am p)) n)" for n
    by (simp add: q upd_am_def map_of_emplace_name)
  have same: "p_appHeap q = p_appHeap p" "p_nextApp q = p_nextApp p" "omap_wf (am_byUid (p_am q))" using wf by (simp_all add: q upd_am_def)
  have reg: "registered b q" if "registered b p" for b
    using that none a by (auto simp: registered_def uid same)
  have "registered a q" using a by (simp add: registered_def uid same)
  then show ?thesis
    using inv a reg none by (auto simp: registry_inv_def uid name same split: if_splits)
qed

lemma registry_remove:
  assumes inv: "registry_inv p"
  shows "registry_inv (am_remove uid p)"
proof (cases "am_find uid p")
  case None
  then show ?thesis using inv by (simp add: am_remove_def)
next
  case (Some a)
  let ?q = "am_remove uid p"
  have wf: "omap_wf (am_byUid (p_am p))" and a: "a_uid (p_appHeap p a) = uid" "a < p_nextApp p"
    using inv Some by (auto simp: registry_inv_def am_find_def)
  have uid: "map_of (am_byUid (p_am ?q)) = (map_of (am_byUid (p_am p)))(uid := None)"
    by (simp add: am_remove_def Some removeFile_def upd_am_def upd_app_def map_of_omap_erase)
  have name: "map_of (am_byName (p_am ?q)) n = (if n = a_name (p_appHeap p a) then None else map_of (am_byName (p_am p)) n)" for n
    by (simp add: am_remove_def Some removeFile_def upd_am_def upd_app_def map_of_erase_name)
  have heap: "a_uid (p_appHeap ?q b) = a_uid (p_appHeap p b)" "a_name (p_appHeap ?q b) = a_name (p_appHeap p b)" "p_nextApp ?q = p_nextApp p" for b
    by (simp_all add: am_remove_def Some removeFile_def upd_am_def upd_app_def)
  have "omap_wf (am_byUid (p_am ?q))"
    using wf by (simp add: am_remove_def Some removeFile_def upd_am_def upd_app_def)
  moreover have "registered b ?q \<and> a_name (p_appHeap ?q b) = n" if "map_of (am_byName (p_am ?q)) n = Some b" for n b
  proof -
    have b: "map_of (am_byName (p_am p)) n = Some b" "n \<noteq> a_name (p_appHeap p a)" using that by (auto simp: name split: if_splits)
    then have r: "registered b p" "a_name (p_appHeap p b) = n" using inv by (auto simp: registry_inv_def)
    moreover have "a_uid (p_appHeap p b) \<noteq> uid" using r b(2) Some by (auto simp: registered_def am_find_def)
    ultimately show ?thesis by (simp add: registered_def uid heap)
  qed
  ultimately show ?thesis using inv by (auto simp: registry_inv_def uid heap split: if_splits)
qed

lemma registry_make:
  assumes inv: "registry_inv p"
  shows "registry_inv (snd (am_make today uid p))"
proof (cases "am_find uid p")
  case None
  obtain a p1 where al: "alloc_app (app_anonymous today uid []) p = (a, p1)" by fastforce
  note al' = registry_alloc [OF inv al]
  have none: "map_of (am_byUid (p_am p1)) uid = None" using None al' by (simp add: am_find_def)
  have "a_uid (p_appHeap p1 a) = uid" using al' by (simp add: app_anonymous_def app_new_def)
  then show ?thesis
    using registry_publish [OF _ none _ _ refl, of a] al' None none
    by (simp add: am_make_def am_prepare_def al am_publishPrepared_def am_find_def)
next
  case (Some a)
  then show ?thesis using inv by (simp add: am_make_def)
qed

lemma registry_publishPrepared:
  "registry_inv p \<Longrightarrow> a_uid (p_appHeap p a) = uid \<Longrightarrow> a < p_nextApp p \<Longrightarrow> registry_inv (snd (am_publishPrepared uid (Some a) p))"
  using registry_publish [OF _ _ _ _ refl, of p uid a] by (auto simp: am_publishPrepared_def am_find_def split: option.splits)

text \<open>An app changes its name: the old entry goes, the new one is added when the name is free.\<close>

lemma registry_rename:
  assumes inv: "registry_inv p" and a: "map_of (am_byUid (p_am p)) uid = Some a" and "a_uid new = uid"
    and q: "q = upd_am (\<lambda>m. m\<lparr>am_files := fs, am_byName := emplace_name (a_name new) a (erase_name (a_name (p_appHeap p a)) (am_byName m))\<rparr>)
      (upd_app a (\<lambda>_. new) p)"
  shows "registry_inv q"
proof -
  have uid: "a_uid (p_appHeap p a) = uid" "a < p_nextApp p" using inv a by (auto simp: registry_inv_def)
  have eq: "am_byUid (p_am q) = am_byUid (p_am p)" "p_appHeap q = (p_appHeap p)(a := new)" "p_nextApp q = p_nextApp p"
    by (simp_all add: q upd_am_def upd_app_def)
  have name: "map_of (am_byName (p_am q)) n =
      (if n = a_name new \<and> (n = a_name (p_appHeap p a) \<or> map_of (am_byName (p_am p)) n = None) then Some a
       else if n = a_name (p_appHeap p a) then None else map_of (am_byName (p_am p)) n)" for n
    by (auto simp: q upd_am_def upd_app_def map_of_emplace_name map_of_erase_name)
  have reg: "registered b q = registered b p" for b using assms(3) uid by (simp add: registered_def eq)
  have old: "a_name (p_appHeap p a) = n" if "map_of (am_byName (p_am p)) n = Some a" for n
    using inv that by (simp add: registry_inv_def)
  have "registered b q \<and> a_name (p_appHeap q b) = n" if "map_of (am_byName (p_am q)) n = Some b" for n b
  proof (cases "b = a")
    case True
    then show ?thesis using that old [of n] a uid assms(3) by (auto simp: name reg eq registered_def split: if_splits)
  next
    case False
    then have "map_of (am_byName (p_am p)) n = Some b" using that by (simp add: name split: if_splits)
    then show ?thesis using inv False by (simp add: reg eq registry_inv_def)
  qed
  then show ?thesis using inv assms(3) uid by (auto simp: registry_inv_def eq)
qed

lemma registry_create:
  assumes inv: "registry_inv p" and fresh: "a_uid fresh = uid"
    and upg: "\<And>y fs. a_uid (fst (snd (upg y fs))) = a_uid y"
  shows "registry_inv (snd (am_create ok fresh upg uid p))"
proof -
  obtain a0 p1 where al: "alloc_app fresh p = (a0, p1)" by fastforce
  note al' = registry_alloc [OF inv al]
  show ?thesis
  proof (cases "am_find uid p")
    case None
    then have none: "map_of (am_byUid (p_am p1)) uid = None" using al' by (simp add: am_find_def)
    show ?thesis using registry_publish [OF _ none _ _ refl, of a0] al' None fresh by (simp add: am_create_def al)
  next
    case (Some a)
    then have a: "map_of (am_byUid (p_am p1)) uid = Some a" using al' by (simp add: am_find_def)
    have heap: "p_appHeap p1 a = p_appHeap p a" "a_uid (p_appHeap p a) = uid" using inv Some al' by (auto simp: registry_inv_def am_find_def)
    obtain up new fs where u: "upg (p_appHeap p a) (am_files (p_am p)) = (up, new, fs)" by (metis prod_cases3)
    have "a_uid new = uid" using upg [of "p_appHeap p a" "am_files (p_am p)"] heap u by simp
    then show ?thesis using registry_rename [OF _ a _ refl, of new fs] al' heap by (simp add: am_create_def al Some u Let_def)
  qed
qed

lemma upgrade_uid: "a_uid (fst (snd (upgradeName ok n y fs))) = a_uid y" "a_uid (fst (snd (upgradeName_vec ok ns y fs))) = a_uid y"
  by (auto simp: upgradeName_vec_def upgradeName_def Let_def split: list.splits)

lemma registry_install: "registry_inv p \<Longrightarrow> registry_inv (install ok today uid names p)"
  unfolding install_def by (auto intro!: registry_create simp: app_named_def app_anonymous_def app_new_def upgrade_uid)

lemma registry_reset: "registry_inv (am_reset p)"
  by (simp add: registry_inv_def am_reset_def upd_am_def omap_wf_def)

section \<open>Runs\<close>

inductive app_run :: "Policy \<Rightarrow> bool" where
  app_start: "am_byUid (p_am p) = [] \<Longrightarrow> am_byName (p_am p) = [] \<Longrightarrow> app_run p"
| app_make: "app_run p \<Longrightarrow> app_run (snd (am_make today uid p))"
| app_prepare: "app_run p \<Longrightarrow> app_run (snd (am_prepare today uid p))"
| app_publish: "app_run p \<Longrightarrow> a_uid (p_appHeap p a) = uid \<Longrightarrow> a < p_nextApp p \<Longrightarrow> app_run (snd (am_publishPrepared uid (Some a) p))"
| app_install: "app_run p \<Longrightarrow> app_run (install renameOk today uid names p)"
| app_remove: "app_run p \<Longrightarrow> app_run (am_remove uid p)"
| app_reset: "app_run p \<Longrightarrow> app_run (am_reset p)"

lemma app_run_inv: "app_run p \<Longrightarrow> registry_inv p"
proof (induction rule: app_run.induct)
  case (app_start p)
  then show ?case by (simp add: registry_inv_def omap_wf_def)
next
  case (app_prepare p today uid)
  then show ?case using registry_alloc [OF app_prepare.IH prod.collapse [symmetric]] by (simp add: am_prepare_def)
qed (simp_all add: registry_make registry_publishPrepared registry_install registry_remove registry_reset)

section \<open>Properties\<close>

text \<open>C39. Both indexes of the app registry lead to the right apps in every state: the app found under a uid has that uid,
  the app found under a name has that name and is registered under its uid - however apps are created on the fly,
  prepared and published later, named by the package list, removed and reset.\<close>

theorem app_registry_consistent:
  assumes "app_run p"
  shows "(\<forall>uid a. am_find uid p = Some a \<longrightarrow> a_uid (p_appHeap p a) = uid) \<and>
    (\<forall>n a. am_findName n p = Some a \<longrightarrow> a_name (p_appHeap p a) = n \<and> am_find (a_uid (p_appHeap p a)) p = Some a)"
  using app_run_inv [OF assms] by (auto simp: registry_inv_def registered_def am_find_def am_findName_def)

definition no_apps :: Policy where
  "no_apps = \<lparr>p_settings = \<lparr>set_blockEnabled = True, set_blockMask = 9, set_blockIface = 0, set_reverseDns = False, set_ipRulesEnabled = True\<rparr>,
     p_ruleHeap = (\<lambda>_. undefined), p_nextRule = 0, p_domHeap = (\<lambda>_. undefined), p_nextDom = 0,
     p_appHeap = (\<lambda>_. undefined), p_nextApp = 0, p_rm = undefined, p_dm = undefined,
     p_am = \<lparr>am_stats = stats_new app_zero 0, am_byUid = [], am_byName = [], am_files = (\<lambda>_. None)\<rparr>\<rparr>"

theorem app_registry_consistent_witness:
  "let p = install True 0 10001 [''com.x''] (snd (am_make 0 10001 no_apps)) in
   am_findName ''com.x'' p = Some 0 \<and> am_findName ''system_10001'' p = None \<and> am_find (a_uid (p_appHeap p 0)) p = Some 0"
proof -
  let ?p = "install True 0 10001 [''com.x''] (snd (am_make 0 10001 no_apps))"
  have "app_run ?p" by (intro app_run.intros) (simp_all add: no_apps_def)
  note ok = app_registry_consistent [OF this]
  have "am_findName ''com.x'' ?p = Some 0" "am_findName ''system_10001'' ?p = None" by code_simp+
  then show ?thesis using ok by (simp add: Let_def)
qed

text \<open>The index by name is not complete: two users have the same package installed; after the app of the second
  user is removed, the app of the first user is still registered under its uid but can no longer be found by name,
  because \<^verbatim>\<open>remove\<close> erases the entry of the name whichever app it belongs to.\<close>

theorem name_index_loses_app:
  "let p = am_remove 1010001 (install True 0 1010001 [''com.x''] (install True 0 10001 [''com.x''] no_apps)) in
   am_find 10001 p = Some 0 \<and> a_name (p_appHeap p 0) = ''com.x'' \<and> am_findName ''com.x'' p = None"
  by (simp add: no_apps_def install_def am_create_def am_remove_def am_find_def am_findName_def alloc_app_def upd_am_def upd_app_def
      removeFile_def emplace_name_def erase_name_def omap_emplace_def omap_erase_def app_named_def app_new_def Let_def)

end
