(* ===== verification/ControlCodec.thy ===== *)
theory ControlCodec
  imports IpRulesText
begin

text \<open>
  The wire format of the control protocol: \<^verbatim>\<open>ControlVNextCodec.hpp\<close> and \<^verbatim>\<open>ControlVNextCodec.cpp\<close>.
  The netstring decoder is a record with the decoder's fields, its parsing loop a recursive function
  that terminates because every frame it takes shortens the buffer, and feeding it bytes is explicit
  state passing. JSON values are a datatype with the kinds \<^verbatim>\<open>rapidjson::Value\<close> distinguishes; an
  object keeps its members in their order, and \<^verbatim>\<open>FindMember\<close> takes the first one of a name. The
  text parser and the writers of RapidJSON itself are not part of the sources: \<^verbatim>\<open>parseStrictJsonObject\<close>
  takes the parser as an argument.

  Sizes are natural numbers. The sums of the decoder stay below the largest frame plus its header, so
  that the 64-bit additions of the source do not wrap (\<open>decoder_sums_fit\<close>).
\<close>

section \<open>The netstring decoder\<close>

datatype NetstringErrorCode =
  NE_InvalidHeader | NE_LeadingZero | NE_FrameTooLarge | NE_MissingTerminator | NE_InvalidLength

record NetstringError =
  ne_code :: NetstringErrorCode
  ne_message :: string

record NetstringDecoder =
  nd_maxFrameBytes :: nat
  nd_maxHeaderDigits :: nat
  nd_buffer :: string
  nd_frames :: "string list"
  nd_expectedLen :: "nat option"
  nd_headerBytes :: nat

definition isDigit :: "char \<Rightarrow> bool" where
  "isDigit ch \<longleftrightarrow> 48 \<le> (of_char ch :: nat) \<and> (of_char ch :: nat) \<le> 57"

fun decimalDigits :: "nat \<Rightarrow> nat" where
  "decimalDigits value = (if 10 \<le> value then Suc (decimalDigits (value div 10)) else 1)"

declare decimalDigits.simps [simp del]

definition newDecoder :: "nat \<Rightarrow> NetstringDecoder" where
  "newDecoder maxFrameBytes =
     \<lparr>nd_maxFrameBytes = maxFrameBytes, nd_maxHeaderDigits = decimalDigits maxFrameBytes,
      nd_buffer = [], nd_frames = [], nd_expectedLen = None, nd_headerBytes = 0\<rparr>"

definition netstring_error :: "NetstringErrorCode \<Rightarrow> string \<Rightarrow> NetstringError" where
  "netstring_error code msg = \<lparr>ne_code = code, ne_message = msg\<rparr>"

text \<open>The first half of an iteration of \<^verbatim>\<open>parseAvailable\<close>: fail, wait for more bytes, or go on with
  the expected length known.\<close>

datatype HeaderStep = HeaderFail NetstringError | HeaderWait | HeaderReady NetstringDecoder nat

definition partial_header :: "NetstringDecoder \<Rightarrow> HeaderStep" where
  "partial_header d =
     (let b = nd_buffer d in
      if \<not> list_all isDigit b
      then HeaderFail (netstring_error NE_InvalidHeader ''netstring header contains non-digit'')
      else if 1 < length b \<and> hd b = CHR ''0''
      then HeaderFail (netstring_error NE_LeadingZero ''netstring header has leading zero'')
      else if nd_maxHeaderDigits d < length b
      then HeaderFail (netstring_error NE_FrameTooLarge ''netstring header exceeds max frame size'')
      else HeaderWait)"

definition full_header :: "NetstringDecoder \<Rightarrow> string \<Rightarrow> HeaderStep" where
  "full_header d lenStr =
     (if lenStr = [] then HeaderFail (netstring_error NE_InvalidHeader ''netstring header is empty'')
      else if \<not> list_all isDigit lenStr
      then HeaderFail (netstring_error NE_InvalidHeader ''netstring header contains non-digit'')
      else if 1 < length lenStr \<and> hd lenStr = CHR ''0''
      then HeaderFail (netstring_error NE_LeadingZero ''netstring header has leading zero'')
      else case parseDecU 64 lenStr of
             None \<Rightarrow> HeaderFail (netstring_error NE_InvalidLength ''netstring header length parse failed'')
           | Some declaredLen \<Rightarrow>
               if nd_maxFrameBytes d < declaredLen
               then HeaderFail (netstring_error NE_FrameTooLarge ''netstring frame too large'')
               else HeaderReady (d\<lparr>nd_expectedLen := Some declaredLen,
                                    nd_headerBytes := length lenStr + 1\<rparr>) declaredLen)"

definition parseHeader :: "NetstringDecoder \<Rightarrow> HeaderStep" where
  "parseHeader d =
     (case nd_expectedLen d of
        Some declaredLen \<Rightarrow> HeaderReady d declaredLen
      | None \<Rightarrow>
          if nd_buffer d = [] then HeaderWait
          else case split_at (CHR '':'') (nd_buffer d) of
                 None \<Rightarrow> partial_header d
               | Some (lenStr, _) \<Rightarrow> full_header d lenStr)"

text \<open>The second half: the frame is complete or not, its terminator is there or not.\<close>

definition needBytes :: "NetstringDecoder \<Rightarrow> nat \<Rightarrow> nat" where
  "needBytes d declaredLen = nd_headerBytes d + declaredLen + 1"

definition take_frame :: "NetstringDecoder \<Rightarrow> nat \<Rightarrow> NetstringDecoder" where
  "take_frame d declaredLen =
     d\<lparr>nd_frames := nd_frames d @ [take declaredLen (drop (nd_headerBytes d) (nd_buffer d))],
       nd_buffer := drop (needBytes d declaredLen) (nd_buffer d),
       nd_expectedLen := None, nd_headerBytes := 0\<rparr>"

lemma parseHeader_Ready_buffer:
  "parseHeader d = HeaderReady d' n \<Longrightarrow> nd_buffer d' = nd_buffer d"
  by (auto simp: parseHeader_def partial_header_def full_header_def Let_def
      split: option.splits if_splits prod.splits)

function parseAvailable :: "NetstringDecoder \<Rightarrow> NetstringError option \<times> NetstringDecoder" where
  "parseAvailable d =
     (case parseHeader d of
        HeaderFail e \<Rightarrow> (Some e, d)
      | HeaderWait \<Rightarrow> (None, d)
      | HeaderReady d' declaredLen \<Rightarrow>
          if length (nd_buffer d') < needBytes d' declaredLen then (None, d')
          else if nd_buffer d' ! (nd_headerBytes d' + declaredLen) \<noteq> CHR '',''
          then (Some (netstring_error NE_MissingTerminator ''netstring missing ',' terminator''), d')
          else parseAvailable (take_frame d' declaredLen))"
  by pat_completeness auto

termination
  by (relation "measure (\<lambda>d. length (nd_buffer d))")
    (auto simp: take_frame_def needBytes_def dest: parseHeader_Ready_buffer)

declare parseAvailable.simps [simp del]

definition feed :: "NetstringDecoder \<Rightarrow> string \<Rightarrow> NetstringError option \<times> NetstringDecoder" where
  "feed d bytes =
     (if bytes = [] then (None, d)
      else parseAvailable (d\<lparr>nd_buffer := nd_buffer d @ bytes\<rparr>))"

definition pop :: "NetstringDecoder \<Rightarrow> string option \<times> NetstringDecoder" where
  "pop d =
     (case nd_frames d of
        [] \<Rightarrow> (None, d)
      | f # fs \<Rightarrow> (Some f, d\<lparr>nd_frames := fs\<rparr>))"

definition queued :: "NetstringDecoder \<Rightarrow> nat" where
  "queued d = length (nd_frames d)"

definition bufferedBytes :: "NetstringDecoder \<Rightarrow> nat" where
  "bufferedBytes d = length (nd_buffer d)"

definition encodeNetstring :: "string \<Rightarrow> string" where
  "encodeNetstring payload = dec_string (length payload) @ '':'' @ payload @ '',''"

text \<open>The bytes of a connection arrive in pieces; the session stops at the first error.\<close>

fun feed_chunks :: "NetstringDecoder \<Rightarrow> string list \<Rightarrow> NetstringError option \<times> NetstringDecoder" where
  "feed_chunks d [] = (None, d)"
| "feed_chunks d (c # cs) =
     (case feed d c of
        (Some e, d') \<Rightarrow> (Some e, d')
      | (None, d') \<Rightarrow> feed_chunks d' cs)"

section \<open>JSON values and envelopes\<close>

text \<open>The kinds of \<^verbatim>\<open>rapidjson::Value\<close>. An integer literal is kept as the integer it denotes, a
  literal with a fraction or an exponent as its text: \<^verbatim>\<open>IsUint\<close> is false on it.\<close>

datatype JsonValue =
  JNull | JBool bool | JInt int | JReal string | JString string
  | JArray "JsonValue list" | JObject "(string \<times> JsonValue) list"

fun IsObject :: "JsonValue \<Rightarrow> bool" where
  "IsObject (JObject _) = True"
| "IsObject _ = False"

fun members :: "JsonValue \<Rightarrow> (string \<times> JsonValue) list" where
  "members (JObject ms) = ms"
| "members _ = []"

definition FindMember :: "JsonValue \<Rightarrow> string \<Rightarrow> JsonValue option" where
  "FindMember v name = map_of (members v) name"

fun GetUint :: "JsonValue \<Rightarrow> u32 option" where
  "GetUint (JInt i) = (if 0 \<le> i \<and> i < 2 ^ 32 then Some (word_of_int i) else None)"
| "GetUint _ = None"

fun GetInt :: "JsonValue \<Rightarrow> i32 option" where
  "GetInt (JInt i) = (if - (2 ^ 31) \<le> i \<and> i < 2 ^ 31 then Some (word_of_int i) else None)"
| "GetInt _ = None"

fun GetString :: "JsonValue \<Rightarrow> string option" where
  "GetString (JString s) = Some s"
| "GetString _ = None"

fun GetBool :: "JsonValue \<Rightarrow> bool option" where
  "GetBool (JBool b) = Some b"
| "GetBool _ = None"

record JsonError =
  je_message :: string
  je_offset :: nat

text \<open>\<^verbatim>\<open>Document::Parse\<close> is the argument: the value, or the message and offset of its error.\<close>

definition parseStrictJsonObject ::
    "(string \<Rightarrow> JsonError + JsonValue) \<Rightarrow> string \<Rightarrow> JsonError + JsonValue" where
  "parseStrictJsonObject parse json =
     (case parse json of
        Inl e \<Rightarrow> Inl e
      | Inr v \<Rightarrow>
          if \<not> IsObject v
          then Inl \<lparr>je_message = ''top-level JSON value must be an object'', je_offset = 0\<rparr>
          else Inr v)"

definition findUnknownKey :: "JsonValue \<Rightarrow> string list \<Rightarrow> string option" where
  "findUnknownKey object allowedKeys =
     (if \<not> IsObject object then None
      else map_option fst (find (\<lambda>m. fst m \<notin> set allowedKeys) (members object)))"

record EnvelopeError =
  ee_code :: string
  ee_message :: string

record RequestView =
  rq_id :: u32
  rq_cmd :: string
  rq_args :: JsonValue

record ResponseView =
  rs_id :: u32
  rs_ok :: bool
  rs_result :: "JsonValue option"
  rs_error :: "JsonValue option"

record EventView =
  ev_type :: string

definition makeSyntaxError :: "string \<Rightarrow> EnvelopeError" where
  "makeSyntaxError msg = \<lparr>ee_code = ''SYNTAX_ERROR'', ee_message = msg\<rparr>"

definition makeMissingArg :: "string \<Rightarrow> EnvelopeError" where
  "makeMissingArg msg = \<lparr>ee_code = ''MISSING_ARGUMENT'', ee_message = msg\<rparr>"

definition makeInvalidArg :: "string \<Rightarrow> EnvelopeError" where
  "makeInvalidArg msg = \<lparr>ee_code = ''INVALID_ARGUMENT'', ee_message = msg\<rparr>"

definition parseRequestEnvelope :: "JsonValue \<Rightarrow> EnvelopeError + RequestView" where
  "parseRequestEnvelope root =
     (if \<not> IsObject root then Inl (makeSyntaxError ''request must be a JSON object'')
      else case findUnknownKey root [''id'', ''cmd'', ''args''] of
        Some unknown \<Rightarrow> Inl (makeSyntaxError (''unknown request key: '' @ unknown))
      | None \<Rightarrow>
      (case FindMember root ''id'' of
        None \<Rightarrow> Inl (makeMissingArg ''missing request.id'')
      | Some idV \<Rightarrow>
      (case GetUint idV of
        None \<Rightarrow> Inl (makeInvalidArg ''request.id must be u32'')
      | Some reqId \<Rightarrow>
      (case FindMember root ''cmd'' of
        None \<Rightarrow> Inl (makeMissingArg ''missing request.cmd'')
      | Some cmdV \<Rightarrow>
      (case GetString cmdV of
        None \<Rightarrow> Inl (makeInvalidArg ''request.cmd must be string'')
      | Some cmd \<Rightarrow>
      (case FindMember root ''args'' of
        None \<Rightarrow> Inl (makeMissingArg ''missing request.args'')
      | Some args \<Rightarrow>
          if \<not> IsObject args then Inl (makeInvalidArg ''request.args must be object'')
          else Inr \<lparr>rq_id = reqId, rq_cmd = cmd, rq_args = args\<rparr>))))))"

text \<open>The checks on \<^verbatim>\<open>result\<close> and \<^verbatim>\<open>error\<close> of a response.\<close>

definition response_payload_error :: "bool \<Rightarrow> JsonValue option \<Rightarrow> JsonValue option \<Rightarrow> EnvelopeError option" where
  "response_payload_error ok result err =
     (if ok then
        (if err \<noteq> None then Some (makeSyntaxError ''ok=true response must not contain error'') else None)
      else case err of
        None \<Rightarrow> Some (makeMissingArg ''ok=false response must contain error'')
      | Some e \<Rightarrow>
          if result \<noteq> None then Some (makeSyntaxError ''ok=false response must not contain result'')
          else if \<not> IsObject e then Some (makeInvalidArg ''response.error must be object'')
          else None)"

definition parseResponseEnvelope :: "JsonValue \<Rightarrow> EnvelopeError + ResponseView" where
  "parseResponseEnvelope root =
     (if \<not> IsObject root then Inl (makeSyntaxError ''response must be a JSON object'')
      else case findUnknownKey root [''id'', ''ok'', ''result'', ''error''] of
        Some unknown \<Rightarrow> Inl (makeSyntaxError (''unknown response key: '' @ unknown))
      | None \<Rightarrow>
      (case FindMember root ''id'' of
        None \<Rightarrow> Inl (makeMissingArg ''missing response.id'')
      | Some idV \<Rightarrow>
      (case GetUint idV of
        None \<Rightarrow> Inl (makeInvalidArg ''response.id must be u32'')
      | Some rspId \<Rightarrow>
      (case FindMember root ''ok'' of
        None \<Rightarrow> Inl (makeMissingArg ''missing response.ok'')
      | Some okV \<Rightarrow>
      (case GetBool okV of
        None \<Rightarrow> Inl (makeInvalidArg ''response.ok must be boolean'')
      | Some ok \<Rightarrow>
          let result = FindMember root ''result''; err = FindMember root ''error'' in
          case response_payload_error ok result err of
            Some e \<Rightarrow> Inl e
          | None \<Rightarrow> Inr \<lparr>rs_id = rspId, rs_ok = ok, rs_result = result, rs_error = err\<rparr>)))))"

definition parseEventEnvelope :: "JsonValue \<Rightarrow> EnvelopeError + EventView" where
  "parseEventEnvelope root =
     (if \<not> IsObject root then Inl (makeSyntaxError ''event must be a JSON object'')
      else if FindMember root ''id'' \<noteq> None \<or> FindMember root ''ok'' \<noteq> None
      then Inl (makeSyntaxError ''event must not contain id/ok'')
      else case FindMember root ''type'' of
        None \<Rightarrow> Inl (makeMissingArg ''missing event.type'')
      | Some typeV \<Rightarrow>
      (case GetString typeV of
        None \<Rightarrow> Inl (makeInvalidArg ''event.type must be string'')
      | Some ty \<Rightarrow> Inr \<lparr>ev_type = ty\<rparr>))"

definition JUint :: "u32 \<Rightarrow> JsonValue" where
  "JUint n = JInt (uint n)"

definition makeRequest :: "u32 \<Rightarrow> string \<Rightarrow> JsonValue \<Rightarrow> JsonValue" where
  "makeRequest reqId cmd args = JObject [(''id'', JUint reqId), (''cmd'', JString cmd), (''args'', args)]"

definition makeOkResponse :: "u32 \<Rightarrow> JsonValue option \<Rightarrow> JsonValue" where
  "makeOkResponse rspId result =
     JObject ([(''id'', JUint rspId), (''ok'', JBool True)] @
              (case result of None \<Rightarrow> [] | Some v \<Rightarrow> [(''result'', v)]))"

definition makeErrorResponse :: "u32 \<Rightarrow> string \<Rightarrow> string \<Rightarrow> JsonValue" where
  "makeErrorResponse rspId code msg =
     JObject [(''id'', JUint rspId), (''ok'', JBool False),
              (''error'', JObject [(''code'', JString code), (''message'', JString msg)])]"

section \<open>Facts about headers\<close>

lemma split_at_SomeD: "split_at c s = Some (a, b) \<Longrightarrow> s = a @ c # b \<and> c \<notin> set a"
proof -
  assume *: "split_at c s = Some (a, b)"
  then obtain x where d: "dropWhile (\<lambda>x. x \<noteq> c) s = x # b" and t: "takeWhile (\<lambda>x. x \<noteq> c) s = a"
    unfolding split_at_def by (cases "dropWhile (\<lambda>x. x \<noteq> c) s") auto
  have "x = c" using hd_dropWhile [of "\<lambda>x. x \<noteq> c" s] d by auto
  then show ?thesis using d t takeWhile_dropWhile_id [of "\<lambda>x. x \<noteq> c" s]
    by (auto dest: set_takeWhileD)
qed

lemma split_at_append_Some: "split_at c s = Some (a, b) \<Longrightarrow> split_at c (s @ ys) = Some (a, b @ ys)"
  using split_at_SomeD [of c s a b] split_at_append [of c a "b @ ys"] by simp

lemma split_at_NoneD: "split_at c s = None \<Longrightarrow> c \<notin> set s"
  by (auto simp: split_at_def dropWhile_eq_Nil_conv split: list.splits)

lemma isDigit_val: "isDigit c \<longleftrightarrow> digit_val c = Some (of_char c - 48)"
  by (auto simp: isDigit_def digit_val_def Let_def)

lemma isDigit_dec_string: "list_all isDigit (dec_string n)"
  using dec_string_digits by (fastforce simp: list_all_iff isDigit_def digit_char_def)

lemma digits_val_all: "list_all isDigit s \<Longrightarrow> \<exists>n. digits_val acc s = Some n"
  by (induction s arbitrary: acc) (auto simp: isDigit_val)

lemma digits_val_lower: "digits_val acc s = Some n \<Longrightarrow> acc * 10 ^ length s \<le> n"
proof (induction s arbitrary: acc)
  case (Cons c s)
  then obtain d where "digits_val (acc * 10 + d) s = Some n" by (auto split: option.splits)
  from Cons.IH [OF this] have "(acc * 10 + d) * 10 ^ length s \<le> n" .
  then show ?case by (simp add: algebra_simps)
qed simp

lemma decimalDigits_bound: "m < 10 ^ decimalDigits m"
proof (induction m rule: decimalDigits.induct)
  case (1 m)
  show ?case
  proof (cases "10 \<le> m")
    case True
    then have "m div 10 < 10 ^ decimalDigits (m div 10)" using 1 by blast
    then have "m < 10 * 10 ^ decimalDigits (m div 10)" by linarith
    then show ?thesis using True by (simp add: decimalDigits.simps [of m])
  qed (simp add: decimalDigits.simps [of m])
qed

text \<open>A header without leading zero and with more digits than the largest frame length exceeds it.\<close>

lemma long_header_exceeds:
  assumes "list_all isDigit s" "hd s \<noteq> CHR ''0''" "decimalDigits m < length s" "digits_val 0 s = Some n"
  shows "m < n"
proof (cases s)
  case (Cons c cs)
  have "(of_char c :: nat) \<noteq> 48"
    using assms(2) Cons of_char_eq_iff [where 'a = nat, of c "CHR ''0''"] by simp
  then have d: "1 \<le> (of_char c :: nat) - 48" and "isDigit c"
    using assms(1) Cons by (auto simp: isDigit_def)
  then have "digits_val (of_char c - 48) cs = Some n"
    using assms(4) Cons by (simp add: isDigit_val)
  from digits_val_lower [OF this] d have "10 ^ length cs \<le> n"
    using mult_le_mono1 [OF d, of "10 ^ length cs"] by linarith
  moreover have "(10::nat) ^ decimalDigits m \<le> 10 ^ length cs"
    using assms(3) Cons by (intro power_increasing) auto
  ultimately show ?thesis using decimalDigits_bound [of m] by linarith
qed (use assms in simp)

lemma dec_string_no_leading_zero: "10 \<le> n \<Longrightarrow> hd (dec_string n) \<noteq> CHR ''0''"
proof (induction n rule: dec_string.induct)
  case (1 n)
  show ?case
  proof (cases "n div 10 < 10")
    case True
    have "n div 10 \<noteq> 0" using 1(2) by (simp add: div_eq_0_iff)
    then have "digit_char (n div 10) \<noteq> CHR ''0''"
      using of_char_eq_iff [where 'a = nat, of "digit_char (n div 10)" "CHR ''0''"] True
      by (simp add: digit_char_def)
    then show ?thesis using True 1(2) by (simp add: dec_string.simps [of n] dec_string.simps [of "n div 10"])
  next
    case False
    then have "hd (dec_string (n div 10)) \<noteq> CHR ''0''" using 1 by linarith
    then show ?thesis using 1(2) by (simp add: dec_string.simps [of n])
  qed
qed

lemma length_dec_string_1: "1 < length (dec_string n) \<Longrightarrow> 10 \<le> n"
  by (cases "n < 10") (auto simp: dec_string.simps [of n])

lemma digit_char_of_val: "digit_val c = Some d \<Longrightarrow> c = digit_char d \<and> d < 10"
  by (auto simp: digit_val_def digit_char_def Let_def split: if_splits)

text \<open>The only header the decoder takes for a length is the one the encoder writes.\<close>

lemma header_text_unique:
  assumes "s \<noteq> []" "\<not> (1 < length s \<and> hd s = CHR ''0'')" "digits_val 0 s = Some n"
  shows "s = dec_string n"
  using assms
proof (induction s arbitrary: n rule: rev_induct)
  case (snoc c xs)
  then obtain k d where k: "digits_val 0 xs = Some k" and d: "digit_val c = Some d" and n: "n = k * 10 + d"
    by (auto simp: digits_val_append split: option.splits)
  note c = digit_char_of_val [OF d]
  show ?case
  proof (cases "xs = []")
    case True
    then show ?thesis using k n c by (simp add: dec_string.simps [of d])
  next
    case False
    then have "hd xs \<noteq> CHR ''0''" using snoc.prems(2) by simp
    then have xs: "xs = dec_string k" using snoc.IH [OF False _ k] by blast
    have "hd (dec_string 0) = CHR ''0''" by code_simp
    then have "k \<noteq> 0" using \<open>hd xs \<noteq> CHR ''0''\<close> xs by metis
    then show ?thesis using n c xs by (simp add: dec_string.simps [of "k * 10 + d"])
  qed
qed simp

lemma length_dec_string: "length (dec_string n) = decimalDigits n"
  by (induction n rule: dec_string.induct) (simp add: dec_string.simps decimalDigits.simps)

lemma decimalDigits_mono: "n \<le> m \<Longrightarrow> decimalDigits n \<le> decimalDigits m"
proof (induction m arbitrary: n rule: decimalDigits.induct)
  case (1 m)
  show ?case
  proof (cases "10 \<le> n")
    case True
    then show ?thesis using 1 div_le_mono [of n m 10]
      by (simp add: decimalDigits.simps [of n] decimalDigits.simps [of m])
  next
    case False
    then show ?thesis by (simp add: decimalDigits.simps [of n] decimalDigits.simps [of m])
  qed
qed

section \<open>Feeding in pieces\<close>

abbreviation app_bytes :: "NetstringDecoder \<Rightarrow> string \<Rightarrow> NetstringDecoder" where
  "app_bytes d ys \<equiv> d\<lparr>nd_buffer := nd_buffer d @ ys\<rparr>"

definition decoder_wf :: "NetstringDecoder \<Rightarrow> bool" where
  "decoder_wf d \<longleftrightarrow>
     nd_maxHeaderDigits d = decimalDigits (nd_maxFrameBytes d) \<and>
     list_all (\<lambda>f. length f \<le> nd_maxFrameBytes d) (nd_frames d) \<and>
     (case nd_expectedLen d of
        None \<Rightarrow> True
      | Some n \<Rightarrow> n \<le> nd_maxFrameBytes d \<and> nd_headerBytes d = length (dec_string n) + 1 \<and>
                  (\<exists>post. nd_buffer d = dec_string n @ '':'' @ post))"

lemma parseHeader_Ready_append:
  assumes "parseHeader d = HeaderReady d' n"
  shows "parseHeader (app_bytes d ys) = HeaderReady (app_bytes d' ys) n"
proof (cases "nd_expectedLen d")
  case None
  then obtain a b where s: "split_at (CHR '':'') (nd_buffer d) = Some (a, b)"
      and f: "full_header d a = HeaderReady d' n" and ne: "nd_buffer d \<noteq> []"
    using assms by (auto simp: parseHeader_def partial_header_def Let_def split: option.splits if_splits)
  have "full_header (app_bytes d ys) a = HeaderReady (app_bytes d' ys) n"
    using f by (auto simp: full_header_def split: option.splits if_splits)
  then show ?thesis using None ne by (simp add: parseHeader_def split_at_append_Some [OF s])
next
  case (Some k)
  then show ?thesis using assms by (simp add: parseHeader_def)
qed

lemma parseHeader_Ready_expected: "parseHeader d = HeaderReady d' n \<Longrightarrow> nd_expectedLen d' = Some n"
  by (auto simp: parseHeader_def partial_header_def full_header_def Let_def
      split: option.splits if_splits prod.splits)

lemma take_frame_append:
  "needBytes d n \<le> length (nd_buffer d) \<Longrightarrow> take_frame (app_bytes d ys) n = app_bytes (take_frame d n) ys"
  by (simp add: take_frame_def needBytes_def)

lemma parse_append_ok:
  "parseAvailable d = (None, d1) \<Longrightarrow> parseAvailable (app_bytes d ys) = parseAvailable (app_bytes d1 ys)"
proof (induction d arbitrary: d1 rule: parseAvailable.induct)
  case (1 d)
  show ?case
  proof (cases "parseHeader d")
    case (HeaderFail e)
    then show ?thesis using "1.prems" by (simp add: parseAvailable.simps [of d])
  next
    case HeaderWait
    then show ?thesis using "1.prems" by (simp add: parseAvailable.simps [of d])
  next
    case (HeaderReady d' n)
    note R = parseHeader_Ready_append [OF HeaderReady, of ys]
    have E: "parseHeader (app_bytes d' ys) = HeaderReady (app_bytes d' ys) n"
      using parseHeader_Ready_expected [OF HeaderReady] by (simp add: parseHeader_def)
    have same: "parseAvailable (app_bytes d ys) = parseAvailable (app_bytes d' ys)"
      using R E by (simp add: parseAvailable.simps [of "app_bytes d ys"] parseAvailable.simps [of "app_bytes d' ys"])
    show ?thesis
    proof (cases "length (nd_buffer d') < needBytes d' n")
      case True
      then show ?thesis using "1.prems" HeaderReady same by (simp add: parseAvailable.simps [of d])
    next
      case False
      then have t: "nd_buffer d' ! (nd_headerBytes d' + n) = CHR '',''"
          and p: "parseAvailable (take_frame d' n) = (None, d1)"
        using "1.prems" HeaderReady by (auto simp: parseAvailable.simps [of d] split: if_splits)
      have len: "needBytes d' n \<le> length (nd_buffer d')" using False by simp
      have "parseAvailable (app_bytes d' ys) = parseAvailable (app_bytes (take_frame d' n) ys)"
        using E t len unfolding take_frame_append [OF len, symmetric]
        by (simp add: parseAvailable.simps [of "app_bytes d' ys"] needBytes_def nth_append)
      then show ?thesis using "1.IH" [OF HeaderReady False _ p] t same by simp
    qed
  qed
qed

lemma bad_prefix_fails:
  assumes wf: "decoder_wf d" and bad: "partial_header d = HeaderFail e"
    and pre: "\<exists>zs. lenStr = nd_buffer d @ zs"
  shows "\<exists>e'. full_header d lenStr = HeaderFail e'"
proof (rule ccontr)
  assume *: "\<not> ?thesis"
  from pre obtain zs where zs: "lenStr = nd_buffer d @ zs" by blast
  from * obtain n where ok: "lenStr \<noteq> []" "list_all isDigit lenStr"
      "\<not> (1 < length lenStr \<and> hd lenStr = CHR ''0'')" "parseDecU 64 lenStr = Some n" "n \<le> nd_maxFrameBytes d"
    by (auto simp: full_header_def split: if_splits option.splits)
  have v: "digits_val 0 lenStr = Some n"
    using ok(4) by (auto simp: parseDecU_def split: if_splits option.splits)
  have dig: "list_all isDigit (nd_buffer d)" using ok(2) zs by simp
  have lead: "\<not> (1 < length (nd_buffer d) \<and> hd (nd_buffer d) = CHR ''0'')"
    using ok(3) zs by (auto simp: hd_append split: if_splits)
  have "nd_maxHeaderDigits d < length (nd_buffer d)"
    using bad dig lead by (auto simp: partial_header_def Let_def split: if_splits)
  then have long: "decimalDigits (nd_maxFrameBytes d) < length lenStr" using wf zs by (simp add: decoder_wf_def)
  moreover have "1 \<le> decimalDigits (nd_maxFrameBytes d)"
    by (simp add: decimalDigits.simps [of "nd_maxFrameBytes d"])
  ultimately have "hd lenStr \<noteq> CHR ''0''" using ok(3) by linarith
  from long_header_exceeds [OF ok(2) this long v] ok(5) show False by simp
qed

lemma parseHeader_Fail_append:
  assumes wf: "decoder_wf d" and bad: "parseHeader d = HeaderFail e"
  shows "\<exists>e'. parseHeader (app_bytes d ys) = HeaderFail e'"
proof -
  have exp: "nd_expectedLen d = None" and ne: "nd_buffer d \<noteq> []"
    using bad by (auto simp: parseHeader_def split: option.splits if_splits)
  show ?thesis
  proof (cases "split_at (CHR '':'') (nd_buffer d)")
    case (Some ab)
    obtain a b where ab: "ab = (a, b)" by (cases ab)
    have "full_header d a = HeaderFail e" using bad exp ne Some ab by (simp add: parseHeader_def)
    then have "full_header (app_bytes d ys) a = HeaderFail e"
      by (auto simp: full_header_def split: option.splits if_splits)
    then show ?thesis using exp ne split_at_append_Some [OF Some [unfolded ab]] by (simp add: parseHeader_def)
  next
    case None
    then have part: "partial_header d = HeaderFail e" using bad exp ne by (simp add: parseHeader_def)
    show ?thesis
    proof (cases "split_at (CHR '':'') (nd_buffer d @ ys)")
      case split: (Some ab)
      obtain a b where ab: "ab = (a, b)" by (cases ab)
      note S = split_at_SomeD [OF split [unfolded ab]]
      have "\<exists>zs. a = nd_buffer d @ zs"
      proof -
        have "CHR '':'' \<notin> set (nd_buffer d)" using None by (rule split_at_NoneD)
        then show ?thesis using S
          by (auto simp: append_eq_append_conv2 append_eq_Cons_conv)
      qed
      from bad_prefix_fails [OF wf part this] obtain e' where "full_header d a = HeaderFail e'" by blast
      then have "full_header (app_bytes d ys) a = HeaderFail e'"
        by (auto simp: full_header_def split: option.splits if_splits)
      then show ?thesis using exp ne split ab by (simp add: parseHeader_def)
    next
      case split: None
      have "\<exists>e'. partial_header (app_bytes d ys) = HeaderFail e'"
        using part ne by (auto simp: partial_header_def Let_def split: if_splits)
      then show ?thesis using exp ne split by (simp add: parseHeader_def)
    qed
  qed
qed

lemma decoder_wf_Ready:
  assumes wf: "decoder_wf d" and R: "parseHeader d = HeaderReady d' n"
  shows "decoder_wf d'"
proof (cases "nd_expectedLen d")
  case None
  then obtain a b where s: "split_at (CHR '':'') (nd_buffer d) = Some (a, b)"
      and f: "full_header d a = HeaderReady d' n"
    using R by (auto simp: parseHeader_def partial_header_def Let_def split: option.splits if_splits)
  have h: "a \<noteq> []" "\<not> (1 < length a \<and> hd a = CHR ''0'')" "parseDecU 64 a = Some n" "n \<le> nd_maxFrameBytes d"
      "d' = d\<lparr>nd_expectedLen := Some n, nd_headerBytes := length a + 1\<rparr>"
    using f by (auto simp: full_header_def split: option.splits if_splits)
  have "a = dec_string n"
    using header_text_unique [OF h(1,2)] h(3) by (auto simp: parseDecU_def split: if_splits option.splits)
  then show ?thesis using wf h split_at_SomeD [OF s] by (simp add: decoder_wf_def)
next
  case (Some k)
  then show ?thesis using assms by (simp add: parseHeader_def)
qed

text \<open>The frame taken off a well-formed buffer is the text the encoder writes for it.\<close>

lemma take_frame_encodes:
  assumes wf: "decoder_wf d" and E: "nd_expectedLen d = Some n"
    and len: "needBytes d n \<le> length (nd_buffer d)"
    and t: "nd_buffer d ! (nd_headerBytes d + n) = CHR '',''"
  shows "\<exists>f. length f \<le> nd_maxFrameBytes d \<and> nd_frames (take_frame d n) = nd_frames d @ [f] \<and>
             nd_buffer d = encodeNetstring f @ nd_buffer (take_frame d n)"
proof -
  from wf E obtain post where b: "nd_buffer d = dec_string n @ '':'' @ post"
      and h: "nd_headerBytes d = length (dec_string n) + 1" and n: "n \<le> nd_maxFrameBytes d"
    by (auto simp: decoder_wf_def)
  define f where "f = take n post"
  have lp: "n < length post" using len b h by (simp add: needBytes_def)
  have "post ! n = CHR '',''" using t b h by (simp add: nth_append)
  then have post: "post = f @ '','' @ drop (Suc n) post"
    using lp id_take_nth_drop [OF lp] by (simp add: f_def)
  have lf: "length f = n" using lp by (simp add: f_def)
  have tk: "nd_frames (take_frame d n) = nd_frames d @ [f]"
    by (simp add: take_frame_def b h f_def)
  have dr: "nd_buffer (take_frame d n) = drop (Suc n) post"
    by (simp add: take_frame_def needBytes_def b h)
  have "nd_buffer d = dec_string n @ '':'' @ f @ '','' @ drop (Suc n) post"
    using b post by simp
  then have "nd_buffer d = encodeNetstring f @ nd_buffer (take_frame d n)"
    by (simp add: encodeNetstring_def dr lf)
  then show ?thesis using tk lf n by blast
qed

lemma parse_append_err:
  "decoder_wf d \<Longrightarrow> parseAvailable d = (Some e, d1) \<Longrightarrow>
     \<exists>e' d2. parseAvailable (app_bytes d ys) = (Some e', d2)"
proof (induction d arbitrary: d1 rule: parseAvailable.induct)
  case (1 d)
  show ?case
  proof (cases "parseHeader d")
    case (HeaderFail e)
    then show ?thesis using parseHeader_Fail_append [OF "1.prems"(1) HeaderFail, of ys]
      by (auto simp: parseAvailable.simps [of "app_bytes d ys"])
  next
    case HeaderWait
    then show ?thesis using "1.prems" by (simp add: parseAvailable.simps [of d])
  next
    case (HeaderReady d' n)
    note R = parseHeader_Ready_append [OF HeaderReady, of ys]
    have wf': "decoder_wf d'" by (rule decoder_wf_Ready [OF "1.prems"(1) HeaderReady])
    have len: "needBytes d' n \<le> length (nd_buffer d')"
      using "1.prems" HeaderReady by (auto simp: parseAvailable.simps [of d] split: if_splits)
    show ?thesis
    proof (cases "nd_buffer d' ! (nd_headerBytes d' + n) = CHR '',''")
      case t: True
      then have p: "parseAvailable (take_frame d' n) = (Some e, d1)"
        using "1.prems" HeaderReady len by (simp add: parseAvailable.simps [of d])
      have "decoder_wf (take_frame d' n)"
      proof -
        from take_frame_encodes [OF wf' parseHeader_Ready_expected [OF HeaderReady] len t] wf'
        show ?thesis by (auto simp: decoder_wf_def take_frame_def)
      qed
      from "1.IH" [OF HeaderReady _ _ this p] len t
      show ?thesis using R unfolding take_frame_append [OF len, symmetric]
        by (simp add: parseAvailable.simps [of "app_bytes d ys"] needBytes_def nth_append)
    next
      case False
      then show ?thesis using R len
        by (simp add: parseAvailable.simps [of "app_bytes d ys"] needBytes_def nth_append)
    qed
  qed
qed

text \<open>What a parse without error did: it kept the decoder well-formed, took frames whose encodings
  are exactly the bytes that left the buffer, and stopped where nothing more can be taken.\<close>

lemma parse_ok_effect:
  "decoder_wf d \<Longrightarrow> parseAvailable d = (None, d1) \<Longrightarrow>
     decoder_wf d1 \<and> nd_maxFrameBytes d1 = nd_maxFrameBytes d \<and>
     length (nd_buffer d1) \<le> decimalDigits (nd_maxFrameBytes d) + 1 + nd_maxFrameBytes d \<and>
     (\<exists>fs. nd_frames d1 = nd_frames d @ fs \<and>
           nd_buffer d = concat (map encodeNetstring fs) @ nd_buffer d1)"
proof (induction d arbitrary: d1 rule: parseAvailable.induct)
  case (1 d)
  show ?case
  proof (cases "parseHeader d")
    case (HeaderReady d' n)
    have wf': "decoder_wf d'" by (rule decoder_wf_Ready [OF "1.prems"(1) HeaderReady])
    have same: "nd_buffer d' = nd_buffer d" "nd_frames d' = nd_frames d" "nd_maxFrameBytes d' = nd_maxFrameBytes d"
      using HeaderReady by (auto simp: parseHeader_def partial_header_def full_header_def Let_def
          split: option.splits if_splits)
    show ?thesis
    proof (cases "length (nd_buffer d') < needBytes d' n")
      case True
      moreover have "needBytes d' n \<le> decimalDigits (nd_maxFrameBytes d) + 2 + nd_maxFrameBytes d"
        using wf' same(3) parseHeader_Ready_expected [OF HeaderReady]
          decimalDigits_mono [of n "nd_maxFrameBytes d"]
        by (auto simp: needBytes_def decoder_wf_def length_dec_string)
      ultimately show ?thesis using "1.prems" HeaderReady wf' same by (simp add: parseAvailable.simps [of d])
    next
      case False
      then have t: "nd_buffer d' ! (nd_headerBytes d' + n) = CHR '',''"
          and p: "parseAvailable (take_frame d' n) = (None, d1)"
        using "1.prems" HeaderReady by (auto simp: parseAvailable.simps [of d] split: if_splits)
      from False have len: "needBytes d' n \<le> length (nd_buffer d')" by simp
      from take_frame_encodes [OF wf' parseHeader_Ready_expected [OF HeaderReady] len t]
      obtain f where f: "length f \<le> nd_maxFrameBytes d'" "nd_frames (take_frame d' n) = nd_frames d' @ [f]"
          "nd_buffer d' = encodeNetstring f @ nd_buffer (take_frame d' n)" by blast
      have wft: "decoder_wf (take_frame d' n)" using f(1,2) wf' by (simp add: decoder_wf_def take_frame_def)
      from "1.IH" [OF HeaderReady False _ wft p] t obtain fs where
        IH: "decoder_wf d1" "nd_maxFrameBytes d1 = nd_maxFrameBytes (take_frame d' n)"
          "length (nd_buffer d1) \<le> decimalDigits (nd_maxFrameBytes (take_frame d' n)) + 1 +
             nd_maxFrameBytes (take_frame d' n)"
          "nd_frames d1 = nd_frames (take_frame d' n) @ fs"
          "nd_buffer (take_frame d' n) = concat (map encodeNetstring fs) @ nd_buffer d1" by blast
      have "nd_frames d1 = nd_frames d @ (f # fs) \<and>
            nd_buffer d = concat (map encodeNetstring (f # fs)) @ nd_buffer d1"
        using IH(4,5) f(2,3) same by simp
      then show ?thesis using IH(1,2,3) same by (auto simp: take_frame_def)
    qed
  next
    case HeaderWait
    then have "nd_buffer d = [] \<or> length (nd_buffer d) \<le> nd_maxHeaderDigits d"
      by (auto simp: parseHeader_def partial_header_def full_header_def Let_def
          split: option.splits if_splits)
    then show ?thesis using "1.prems" HeaderWait by (auto simp: parseAvailable.simps [of d] decoder_wf_def)
  qed (use "1.prems" in \<open>simp add: parseAvailable.simps [of d]\<close>)
qed

lemma parse_quiescent: "parseAvailable d = (None, d1) \<Longrightarrow> parseAvailable d1 = (None, d1)"
  using parse_append_ok [of d d1 "[]"] by simp

lemma feed_parse: "parseAvailable d = (None, d) \<Longrightarrow> feed d bytes = parseAvailable (app_bytes d bytes)"
  by (simp add: feed_def)

lemma decoder_wf_app: "decoder_wf d \<Longrightarrow> decoder_wf (app_bytes d ys)"
  by (auto simp: decoder_wf_def split: option.splits)

lemma feed_chunks_whole:
  assumes "decoder_wf d" "parseAvailable d = (None, d)"
  shows "(fst (feed_chunks d cs) = None \<longleftrightarrow> fst (feed d (concat cs)) = None) \<and>
         (fst (feed d (concat cs)) = None \<longrightarrow> feed_chunks d cs = feed d (concat cs))"
  using assms
proof (induction cs arbitrary: d)
  case Nil
  then show ?case by (simp add: feed_def)
next
  case (Cons c cs)
  have F: "feed d c = parseAvailable (app_bytes d c)" and
    W: "feed d (concat (c # cs)) = parseAvailable (app_bytes (app_bytes d c) (concat cs))"
    using feed_parse [OF Cons.prems(2)] by simp_all
  have wf: "decoder_wf (app_bytes d c)" by (rule decoder_wf_app [OF Cons.prems(1)])
  obtain r d1 where p: "parseAvailable (app_bytes d c) = (r, d1)" by fastforce
  show ?case
  proof (cases r)
    case None
    note p0 = p [unfolded None]
    note q = parse_quiescent [OF p0]
    have "feed d (concat (c # cs)) = feed d1 (concat cs)"
      unfolding W parse_append_ok [OF p0] feed_parse [OF q] ..
    moreover have "feed_chunks d (c # cs) = feed_chunks d1 cs" using F p0 by simp
    ultimately show ?thesis using Cons.IH [OF _ q] parse_ok_effect [OF wf p0] by simp
  next
    case (Some e)
    then have "\<exists>e' d2. feed d (concat (c # cs)) = (Some e', d2)"
      using parse_append_err [OF wf p [unfolded Some]] W by simp
    then show ?thesis using F p Some by auto
  qed
qed

lemma newDecoder_start: "decoder_wf (newDecoder m)" "parseAvailable (newDecoder m) = (None, newDecoder m)"
  by (simp_all add: decoder_wf_def newDecoder_def parseAvailable.simps parseHeader_def)

lemma feed_chunks_effect:
  assumes "feed_chunks (newDecoder m) cs = (None, d)"
  shows "decoder_wf d \<and> nd_maxFrameBytes d = m \<and> length (nd_buffer d) \<le> decimalDigits m + 1 + m \<and>
         concat cs = concat (map encodeNetstring (nd_frames d)) @ nd_buffer d"
proof -
  have "feed (newDecoder m) (concat cs) = (None, d)"
    using feed_chunks_whole [OF newDecoder_start, of m cs] assms by simp
  then have p: "parseAvailable (app_bytes (newDecoder m) (concat cs)) = (None, d)"
    using feed_parse [OF newDecoder_start(2), of m "concat cs"] by simp
  from parse_ok_effect [OF decoder_wf_app [OF newDecoder_start(1)] p] parse_quiescent [OF p]
  show ?thesis by (auto simp: newDecoder_def)
qed

text \<open>No sum of the decoder reaches \<^verbatim>\<open>2 ^ 64\<close> as long as the limit leaves room for a header.\<close>

lemma decoder_sums_fit:
  assumes "decoder_wf d" "nd_expectedLen d = Some n" "nd_maxFrameBytes d + 22 < 2 ^ 64"
  shows "needBytes d n < 2 ^ 64"
proof -
  have "nd_maxFrameBytes d < 2 ^ 64" using assms(3) by linarith
  then have "decimalDigits (nd_maxFrameBytes d) \<le> decimalDigits (2 ^ 64)"
    by (intro decimalDigits_mono) simp
  moreover have "decimalDigits (2 ^ 64) = 20" by code_simp
  moreover have "length (dec_string n) \<le> decimalDigits (nd_maxFrameBytes d)"
    using assms(1,2) decimalDigits_mono [of n "nd_maxFrameBytes d"]
    by (simp add: decoder_wf_def length_dec_string)
  ultimately show ?thesis using assms by (auto simp: decoder_wf_def needBytes_def)
qed

section \<open>Encoding and decoding\<close>

lemma parse_encoded_frame:
  assumes "nd_expectedLen d = None" "nd_headerBytes d = 0" "length p \<le> nd_maxFrameBytes d" "nd_maxFrameBytes d < 2 ^ 64"
  shows "parseAvailable (d\<lparr>nd_buffer := encodeNetstring p @ rest\<rparr>) =
         parseAvailable (d\<lparr>nd_frames := nd_frames d @ [p], nd_buffer := rest\<rparr>)"
proof -
  let ?h = "dec_string (length p)" and ?d = "d\<lparr>nd_buffer := encodeNetstring p @ rest\<rparr>"
  let ?r = "?d\<lparr>nd_expectedLen := Some (length p), nd_headerBytes := length ?h + 1\<rparr>"
  have "split_at (CHR '':'') (?h @ CHR '':'' # p @ '','' @ rest) = Some (?h, p @ '','' @ rest)"
    by (rule split_at_append, rule dec_string_no_sep) (simp add: digit_val_def)
  moreover have "parseDecU 64 ?h = Some (length p)"
    by (rule parseDecU_dec_string) (use assms in linarith)
  ultimately have "parseHeader ?d = HeaderReady ?r (length p)"
    using assms dec_string_no_leading_zero length_dec_string_1 [of "length p"]
    by (auto simp: parseHeader_def full_header_def isDigit_dec_string encodeNetstring_def)
  moreover have "take_frame ?r (length p) = d\<lparr>nd_frames := nd_frames d @ [p], nd_buffer := rest\<rparr>"
    using assms by (simp add: take_frame_def needBytes_def encodeNetstring_def)
  ultimately show ?thesis
    by (subst parseAvailable.simps) (simp add: needBytes_def encodeNetstring_def nth_append)
qed

lemma parse_encoded_frames:
  assumes "nd_expectedLen d = None" "nd_headerBytes d = 0" "list_all (\<lambda>p. length p \<le> nd_maxFrameBytes d) ps"
    "nd_maxFrameBytes d < 2 ^ 64"
  shows "parseAvailable (d\<lparr>nd_buffer := concat (map encodeNetstring ps)\<rparr>) =
         (None, d\<lparr>nd_frames := nd_frames d @ ps, nd_buffer := []\<rparr>)"
  using assms
proof (induction ps arbitrary: d)
  case Nil
  then show ?case by (simp add: parseAvailable.simps parseHeader_def)
next
  case (Cons p ps)
  let ?d = "d\<lparr>nd_frames := nd_frames d @ [p]\<rparr>"
  have "parseAvailable (d\<lparr>nd_buffer := concat (map encodeNetstring (p # ps))\<rparr>) =
        parseAvailable (?d\<lparr>nd_buffer := concat (map encodeNetstring ps)\<rparr>)"
    using parse_encoded_frame [of d p "concat (map encodeNetstring ps)"] Cons.prems by simp
  then show ?case using Cons.IH [of ?d] Cons.prems by simp
qed

text \<open>C22. Whatever frames a peer encodes, no longer than the limit, and however the connection cuts
  their bytes into pieces, the decoder reports no error and queues exactly these frames in this
  order, with nothing left over.\<close>

theorem netstring_roundtrip:
  assumes "m < 2 ^ 64" and "list_all (\<lambda>p. length p \<le> m) ps"
    and "concat cs = concat (map encodeNetstring ps)"
  shows "feed_chunks (newDecoder m) cs = (None, (newDecoder m)\<lparr>nd_frames := ps\<rparr>)"
proof -
  have "feed (newDecoder m) (concat cs) = parseAvailable (app_bytes (newDecoder m) (concat cs))"
    by (rule feed_parse [OF newDecoder_start(2)])
  also have "\<dots> = (None, (newDecoder m)\<lparr>nd_frames := ps\<rparr>)"
    using parse_encoded_frames [of "newDecoder m" ps] assms by (simp add: newDecoder_def)
  finally show ?thesis using feed_chunks_whole [OF newDecoder_start, of m cs] by simp
qed

theorem netstring_roundtrip_witness:
  "feed_chunks (newDecoder 100) [''2:h'', ''i,0:'', '','', ''3:a,b,''] =
     (None, (newDecoder 100)\<lparr>nd_frames := [''hi'', [], ''a,b'']\<rparr>)"
  by (rule netstring_roundtrip [of 100 "[''hi'', [], ''a,b'']"]) (simp_all, code_simp)

lemma netstring_fed:
  assumes "feed_chunks (newDecoder m) cs = (None, d)"
  shows "concat cs = concat (map encodeNetstring (nd_frames d)) @ nd_buffer d"
    and "list_all (\<lambda>f. length f \<le> m) (nd_frames d)" and "bufferedBytes d \<le> decimalDigits m + 1 + m"
  using feed_chunks_effect [OF assms] by (auto simp: decoder_wf_def bufferedBytes_def)

text \<open>C23. Conversely the decoder invents and loses nothing: as long as no error is reported, the bytes
  received so far are the encodings of the queued frames followed by the buffered bytes, every queued
  frame respects the limit, and what stays buffered is less than one frame of the largest size with
  its header.\<close>

theorem netstring_decode_exact:
  assumes "feed_chunks (newDecoder m) cs = (None, d)"
  shows "concat cs = concat (map encodeNetstring (nd_frames d)) @ nd_buffer d \<and>
         list_all (\<lambda>f. length f \<le> m) (nd_frames d) \<and>
         bufferedBytes d \<le> decimalDigits m + 1 + m"
  using netstring_fed [OF assms] by blast

theorem netstring_decode_exact_witness:
  "bufferedBytes (snd (feed_chunks (newDecoder 100) [''2:h'', ''i,12'', '':''])) \<le> decimalDigits 100 + 1 + 100"
proof -
  let ?cs = "[''2:h'', ''i,12'', '':'']"
  have "fst (feed_chunks (newDecoder 100) ?cs) = None" by code_simp
  then have "feed_chunks (newDecoder 100) ?cs = (None, snd (feed_chunks (newDecoder 100) ?cs))"
    by (metis prod.collapse)
  from netstring_decode_exact [OF this] show ?thesis by blast
qed

text \<open>Whether the decoder accepts a byte stream does not depend on how the stream is cut: the
  pieces are fed without error exactly when the whole is, and then the decoder ends in the same
  state.\<close>

theorem netstring_chunking_irrelevant:
  "(fst (feed_chunks (newDecoder m) cs) = None \<longleftrightarrow> fst (feed (newDecoder m) (concat cs)) = None) \<and>
   (fst (feed (newDecoder m) (concat cs)) = None \<longrightarrow>
      feed_chunks (newDecoder m) cs = feed (newDecoder m) (concat cs))"
  by (rule feed_chunks_whole [OF newDecoder_start])

theorem netstring_chunking_irrelevant_witness:
  "feed_chunks (newDecoder 9) [''1'', '':x,''] = feed (newDecoder 9) ''1:x,''"
proof -
  have "fst (feed (newDecoder 9) (concat [''1'', '':x,''])) = None" by code_simp
  then show ?thesis using netstring_chunking_irrelevant [of 9 "[''1'', '':x,'']"] by simp
qed

text \<open>No complete frame is left waiting: when bytes were fed without an error, the buffer does not
  begin with the encoding of a frame within the limit, so that every frame a peer has completely sent
  is in the queue.\<close>

theorem netstring_no_frame_waits:
  assumes "m < 2 ^ 64" and fed: "feed_chunks (newDecoder m) cs = (None, d)" and f: "length f \<le> m"
  shows "nd_buffer d \<noteq> encodeNetstring f @ rest"
proof
  assume b: "nd_buffer d = encodeNetstring f @ rest"
  let ?ps = "nd_frames d @ [f]"
  note E = netstring_fed [OF fed]
  have ps: "list_all (\<lambda>p. length p \<le> m) ?ps" using E(2) f by simp
  have whole: "concat cs = concat (map encodeNetstring ?ps) @ rest" using E(1) b by simp
  have "feed (newDecoder m) (concat cs) = (None, d)"
    using feed_chunks_whole [OF newDecoder_start, of m cs] fed by simp
  then have "parseAvailable (app_bytes (newDecoder m) (concat cs)) = (None, d)"
    using feed_parse [OF newDecoder_start(2), of m "concat cs"] by simp
  moreover have "parseAvailable (app_bytes (newDecoder m) (concat (map encodeNetstring ?ps))) =
      (None, (newDecoder m)\<lparr>nd_frames := ?ps\<rparr>)"
    using parse_encoded_frames [of "newDecoder m" ?ps] ps assms(1) by (simp add: newDecoder_def)
  from parse_append_ok [OF this, of rest] whole
  have "parseAvailable (app_bytes (newDecoder m) (concat cs)) =
      parseAvailable (app_bytes ((newDecoder m)\<lparr>nd_frames := ?ps\<rparr>) rest)" by simp
  ultimately have p: "parseAvailable (app_bytes ((newDecoder m)\<lparr>nd_frames := ?ps\<rparr>) rest) = (None, d)" by simp
  have "decoder_wf (app_bytes ((newDecoder m)\<lparr>nd_frames := ?ps\<rparr>) rest)"
    using ps by (simp add: decoder_wf_def newDecoder_def)
  from parse_ok_effect [OF this p] obtain fs where "nd_frames d = ?ps @ fs" by auto
  then show False by simp
qed

theorem netstring_no_frame_waits_witness:
  "nd_buffer (snd (feed_chunks (newDecoder 100) [''2:hi,3:ab''])) \<noteq> encodeNetstring ''ab'' @ []"
proof -
  let ?cs = "[''2:hi,3:ab'']"
  have "fst (feed_chunks (newDecoder 100) ?cs) = None" by code_simp
  then have "feed_chunks (newDecoder 100) ?cs = (None, snd (feed_chunks (newDecoder 100) ?cs))"
    by (metis prod.collapse)
  then show ?thesis by (rule netstring_no_frame_waits [rotated 1]) simp_all
qed

section \<open>Envelopes\<close>

lemma GetUint_JUint [simp]: "GetUint (JUint n) = Some n"
  using uint_bounded [of n] by (simp add: JUint_def)

lemma parse_makeRequest:
  "parseRequestEnvelope (makeRequest reqId cmd args) =
     (if IsObject args then Inr \<lparr>rq_id = reqId, rq_cmd = cmd, rq_args = args\<rparr>
      else Inl (makeInvalidArg ''request.args must be object''))"
  by (simp add: parseRequestEnvelope_def makeRequest_def findUnknownKey_def FindMember_def)

lemma parse_makeOkResponse:
  "parseResponseEnvelope (makeOkResponse rspId result) =
     Inr \<lparr>rs_id = rspId, rs_ok = True, rs_result = result, rs_error = None\<rparr>"
  by (cases result) (simp_all add: parseResponseEnvelope_def makeOkResponse_def findUnknownKey_def
      FindMember_def response_payload_error_def)

lemma parse_makeErrorResponse:
  "parseResponseEnvelope (makeErrorResponse rspId code msg) =
     Inr \<lparr>rs_id = rspId, rs_ok = False, rs_result = None,
          rs_error = Some (JObject [(''code'', JString code), (''message'', JString msg)])\<rparr>"
  by (simp add: parseResponseEnvelope_def makeErrorResponse_def findUnknownKey_def
      FindMember_def response_payload_error_def)

lemma findUnknownKey_None:
  "IsObject v \<Longrightarrow> findUnknownKey v ks = None \<longleftrightarrow> fst ` set (members v) \<subseteq> set ks"
  by (auto simp: findUnknownKey_def find_None_iff)

text \<open>The three envelopes are told apart: no document is accepted both as a request and as a
  response, or as an event and one of the others.\<close>

lemma request_has_cmd: "parseRequestEnvelope v = Inr r \<Longrightarrow>
    IsObject v \<and> FindMember v ''cmd'' \<noteq> None \<and> FindMember v ''id'' \<noteq> None"
  by (auto simp: parseRequestEnvelope_def split: if_splits option.splits)

lemma response_no_cmd: "parseResponseEnvelope v = Inr r \<Longrightarrow>
    FindMember v ''cmd'' = None \<and> FindMember v ''id'' \<noteq> None"
proof -
  assume R: "parseResponseEnvelope v = Inr r"
  then have obj: "IsObject v" and known: "findUnknownKey v [''id'', ''ok'', ''result'', ''error''] = None"
    and idm: "FindMember v ''id'' \<noteq> None"
    by (auto simp: parseResponseEnvelope_def split: if_splits option.splits)
  from known have "''cmd'' \<notin> fst ` set (members v)" by (auto simp: findUnknownKey_None [OF obj])
  then show ?thesis using idm by (simp add: FindMember_def map_of_eq_None_iff)
qed

lemma event_no_id: "parseEventEnvelope v = Inr r \<Longrightarrow> FindMember v ''id'' = None"
  by (auto simp: parseEventEnvelope_def split: if_splits option.splits)

lemma envelopes_disjoint:
  "\<not> (\<exists>a b. parseRequestEnvelope v = Inr a \<and> parseResponseEnvelope v = Inr b) \<and>
   \<not> (\<exists>a b. parseRequestEnvelope v = Inr a \<and> parseEventEnvelope v = Inr b) \<and>
   \<not> (\<exists>a b. parseResponseEnvelope v = Inr a \<and> parseEventEnvelope v = Inr b)"
  using request_has_cmd [of v] response_no_cmd [of v] event_no_id [of v] by metis

text \<open>The envelopes the program builds are read back as they were built: a request with object
  arguments, a response with or without result, an error response with its code and message; and no
  document at all is accepted in two of the three roles request, response and event.\<close>

theorem envelope_roundtrip:
  "(IsObject args \<longrightarrow> parseRequestEnvelope (makeRequest n cmd args) =
      Inr \<lparr>rq_id = n, rq_cmd = cmd, rq_args = args\<rparr>) \<and>
   parseResponseEnvelope (makeOkResponse n result) =
      Inr \<lparr>rs_id = n, rs_ok = True, rs_result = result, rs_error = None\<rparr> \<and>
   parseResponseEnvelope (makeErrorResponse n code msg) =
      Inr \<lparr>rs_id = n, rs_ok = False, rs_result = None,
           rs_error = Some (JObject [(''code'', JString code), (''message'', JString msg)])\<rparr> \<and>
   \<not> (\<exists>a b. parseRequestEnvelope v = Inr a \<and> parseResponseEnvelope v = Inr b) \<and>
   \<not> (\<exists>a b. parseRequestEnvelope v = Inr a \<and> parseEventEnvelope v = Inr b) \<and>
   \<not> (\<exists>a b. parseResponseEnvelope v = Inr a \<and> parseEventEnvelope v = Inr b)"
  using envelopes_disjoint [of v]
  by (auto simp: parse_makeRequest parse_makeOkResponse parse_makeErrorResponse)

theorem envelope_roundtrip_witness:
  "parseRequestEnvelope (makeRequest 7 ''HELLO'' (JObject [])) =
     Inr \<lparr>rq_id = 7, rq_cmd = ''HELLO'', rq_args = JObject []\<rparr>"
  using envelope_roundtrip [of "JObject []" 7 "''HELLO''" None "''C''" "''m''" JNull] by simp

end
