(* ===== verification/ControlIpRules.thy ===== *)
theory ControlIpRules
  imports ControlCodec IpRulesStore AppOps
begin

text \<open>
  The IPRULES commands of the control protocol (\<^verbatim>\<open>ControlVNextSessionCommandsIpRules.cpp\<close>,
  \<^verbatim>\<open>ControlVNextSessionSelectors.hpp\<close>): the app selector, the reading of a rule from its JSON object
  with every error it can report, the check for duplicated match keys, and the commands PREFLIGHT,
  PRINT and APPLY as functions of the request, the registry of apps and the rule engine. The file has
  its own copies of the field parsers and printers of the engine; they are translated again here and
  compared with the engine's in \<open>ControlIpRulesGuarantees\<close>. \<^verbatim>\<open>inet_pton\<close> and \<^verbatim>\<open>inet_ntop\<close> are the
  functions of an \<open>Inet\<close> record, an argument of what uses them.
\<close>

record Inet =
  pton4 :: "string \<Rightarrow> u32 option"
  ntop4 :: "u32 \<Rightarrow> string option"
  pton6 :: "string \<Rightarrow> ip6 option"
  ntop6 :: "ip6 \<Rightarrow> string option"

section \<open>Fields\<close>

definition err_bind :: "'e + 'a \<Rightarrow> ('a \<Rightarrow> 'e + 'b) \<Rightarrow> 'e + 'b" where
  "err_bind x f = (case x of Inl e \<Rightarrow> Inl e | Inr a \<Rightarrow> f a)"

lemma err_bind_simps [simp]: "err_bind (Inl e) f = Inl e" "err_bind (Inr a) f = f a"
  by (simp_all add: err_bind_def)

lemma err_bind_Inr: "err_bind x f = Inr y \<longleftrightarrow> (\<exists>a. x = Inr a \<and> f a = Inr y)"
  by (cases x) auto

definition isValidToggleValue :: "JsonValue \<Rightarrow> u32 option" where
  "isValidToggleValue v =
     (case GetUint v of
        None \<Rightarrow> None
      | Some n \<Rightarrow> if 1 < n then None else Some n)"

definition ctl_parseCidrV4 :: "Inet \<Rightarrow> string \<Rightarrow> CidrV4 option" where
  "ctl_parseCidrV4 inet v =
     (if v = ''any'' then Some anyCidrV4
      else case split_at (CHR ''/'') v of
        None \<Rightarrow> None
      | Some (ipStr, prefixStr) \<Rightarrow>
          if ipStr = [] \<or> prefixStr = [] then None
          else case parseDecU 32 prefixStr of
            None \<Rightarrow> None
          | Some prefix \<Rightarrow>
              if 32 < prefix then None
              else case pton4 inet ipStr of
                None \<Rightarrow> None
              | Some a \<Rightarrow> let prefixLen = of_nat prefix in Some (cidrV4 (a AND maskFromPrefix prefixLen) prefixLen))"

text \<open>Clearing the host bits of an IPv6 network address.\<close>

definition mask_ip6 :: "u8 \<Rightarrow> ip6 \<Rightarrow> ip6" where
  "mask_ip6 prefixLen bytes =
     (if prefixLen < 128 then
        let fullBytes = unat prefixLen div 8; remBits = unat prefixLen mod 8 in
        if remBits \<noteq> 0
        then take fullBytes bytes @ [(bytes ! fullBytes) AND rem_mask remBits] @
               replicate (length bytes - (fullBytes + 1)) 0
        else take fullBytes bytes @ replicate (length bytes - fullBytes) 0
      else bytes)"

definition ctl_parseCidrV6 :: "Inet \<Rightarrow> string \<Rightarrow> CidrV6 option" where
  "ctl_parseCidrV6 inet v =
     (if v = ''any'' then Some anyCidrV6
      else case split_at (CHR ''/'') v of
        None \<Rightarrow> None
      | Some (ipStr, prefixStr) \<Rightarrow>
          if ipStr = [] \<or> prefixStr = [] then None
          else case parseDecU 32 prefixStr of
            None \<Rightarrow> None
          | Some prefix \<Rightarrow>
              if 128 < prefix then None
              else case pton6 inet ipStr of
                None \<Rightarrow> None
              | Some bytes \<Rightarrow> let prefixLen = of_nat prefix in Some (cidrV6 (mask_ip6 prefixLen bytes) prefixLen))"

definition formatCidrV4 :: "Inet \<Rightarrow> CidrV4 \<Rightarrow> string" where
  "formatCidrV4 inet c =
     (if c4_any c then ''any''
      else case ntop4 inet (c4_addr c) of
        None \<Rightarrow> ''any''
      | Some buf \<Rightarrow> buf @ ''/'' @ dec_string (unat (c4_prefix c)))"

definition formatCidrV6 :: "Inet \<Rightarrow> CidrV6 \<Rightarrow> string" where
  "formatCidrV6 inet c =
     (if c6_any c then ''any''
      else case ntop6 inet (c6_addr c) of
        None \<Rightarrow> ''any''
      | Some buf \<Rightarrow> buf @ ''/'' @ dec_string (unat (c6_prefix c)))"

definition ctl_parsePortPredicate :: "string \<Rightarrow> PortPredicate option" where
  "ctl_parsePortPredicate v =
     (if v = ''any'' then Some port_any
      else case split_at (CHR ''-'') v of
        Some (loStr, hiStr) \<Rightarrow>
          (if loStr = [] \<or> hiStr = [] then None
           else case (parseDecU 32 loStr, parseDecU 32 hiStr) of
             (Some lo, Some hi) \<Rightarrow>
               if 65535 < lo \<or> 65535 < hi \<or> hi < lo then None else Some (port_range (of_nat lo) (of_nat hi))
           | _ \<Rightarrow> None)
      | None \<Rightarrow>
          (case parseDecU 32 v of
             None \<Rightarrow> None
           | Some p \<Rightarrow> if 65535 < p then None else Some (port_exact (of_nat p))))"

definition formatPortPredicate :: "PortPredicate \<Rightarrow> string" where
  "formatPortPredicate p =
     (case port_kind p of
        Port_ANY \<Rightarrow> ''any''
      | Port_EXACT \<Rightarrow> dec_string (unat (port_lo p))
      | Port_RANGE \<Rightarrow> dec_string (unat (port_lo p)) @ ''-'' @ dec_string (unat (port_hi p))
      | Port_raw _ \<Rightarrow> ''any'')"

definition ctl_parseAction :: "string \<Rightarrow> Action option" where
  "ctl_parseAction s = (if s = ''allow'' then Some ALLOW else if s = ''block'' then Some BLOCK else None)"

definition parseFamily :: "string \<Rightarrow> Family option" where
  "parseFamily s = (if s = ''ipv4'' then Some IPV4 else if s = ''ipv6'' then Some IPV6 else None)"

fun familyStr :: "Family \<Rightarrow> string" where
  "familyStr IPV4 = ''ipv4''" | "familyStr IPV6 = ''ipv6''" | "familyStr (Family_raw _) = ''ipv4''"

fun actionStr :: "Action \<Rightarrow> string" where
  "actionStr ALLOW = ''allow''" | "actionStr BLOCK = ''block''" | "actionStr (Action_raw _) = ''allow''"

definition ctl_parseDirection :: "string \<Rightarrow> Direction option" where
  "ctl_parseDirection s =
     (if s = ''any'' then Some Dir_ANY else if s = ''in'' then Some Dir_IN
      else if s = ''out'' then Some Dir_OUT else None)"

fun directionStr :: "Direction \<Rightarrow> string" where
  "directionStr Dir_ANY = ''any''" | "directionStr Dir_IN = ''in''" | "directionStr Dir_OUT = ''out''"
| "directionStr (Dir_raw _) = ''any''"

definition parseIface :: "string \<Rightarrow> IfaceKind option" where
  "parseIface s =
     (if s = ''any'' then Some Iface_ANY else if s = ''wifi'' then Some Iface_WIFI
      else if s = ''data'' then Some Iface_DATA else if s = ''vpn'' then Some Iface_VPN
      else if s = ''unmanaged'' then Some Iface_UNMANAGED else None)"

fun ifaceStr :: "IfaceKind \<Rightarrow> string" where
  "ifaceStr Iface_ANY = ''any''" | "ifaceStr Iface_WIFI = ''wifi''" | "ifaceStr Iface_DATA = ''data''"
| "ifaceStr Iface_VPN = ''vpn''" | "ifaceStr Iface_UNMANAGED = ''unmanaged''" | "ifaceStr (Iface_raw _) = ''any''"

definition ctl_parseProto :: "string \<Rightarrow> Proto option" where
  "ctl_parseProto s =
     (if s = ''any'' then Some Proto_ANY else if s = ''tcp'' then Some Proto_TCP
      else if s = ''udp'' then Some Proto_UDP else if s = ''icmp'' then Some Proto_ICMP
      else if s = ''other'' then Some Proto_OTHER else None)"

fun protoStr :: "Proto \<Rightarrow> string" where
  "protoStr Proto_ANY = ''any''" | "protoStr Proto_TCP = ''tcp''" | "protoStr Proto_UDP = ''udp''"
| "protoStr Proto_ICMP = ''icmp''" | "protoStr Proto_OTHER = ''other''" | "protoStr Proto_UNKNOWN = ''unknown''"
| "protoStr (Proto_raw _) = ''any''"

definition ctl_parseCtState :: "string \<Rightarrow> CtState option" where
  "ctl_parseCtState s =
     (if s = ''any'' then Some Ct_ANY else if s = ''new'' then Some Ct_NEW
      else if s = ''established'' then Some Ct_ESTABLISHED else if s = ''invalid'' then Some Ct_INVALID else None)"

fun ctl_ctStateStr :: "CtState \<Rightarrow> string" where
  "ctl_ctStateStr Ct_ANY = ''any''" | "ctl_ctStateStr Ct_NEW = ''new''" | "ctl_ctStateStr Ct_ESTABLISHED = ''established''"
| "ctl_ctStateStr Ct_INVALID = ''invalid''" | "ctl_ctStateStr (Ct_raw _) = ''any''"

definition ctl_parseCtDirection :: "string \<Rightarrow> CtDirection option" where
  "ctl_parseCtDirection s =
     (if s = ''any'' then Some CtDir_ANY else if s = ''orig'' then Some CtDir_ORIG
      else if s = ''reply'' then Some CtDir_REPLY else None)"

fun ctDirStr :: "CtDirection \<Rightarrow> string" where
  "ctDirStr CtDir_ANY = ''any''" | "ctDirStr CtDir_ORIG = ''orig''" | "ctDirStr CtDir_REPLY = ''reply''"
| "ctDirStr (CtDir_raw _) = ''any''"

section \<open>The match key\<close>

text \<open>The template of the source is used at a rule of the payload and at a rule of the engine.\<close>

definition match_key :: "Inet \<Rightarrow> Family \<Rightarrow> Direction \<Rightarrow> IfaceKind \<Rightarrow> u32 \<Rightarrow> Proto \<Rightarrow> CtState \<Rightarrow> CtDirection \<Rightarrow>
    CidrV4 \<Rightarrow> CidrV6 \<Rightarrow> CidrV4 \<Rightarrow> CidrV6 \<Rightarrow> PortPredicate \<Rightarrow> PortPredicate \<Rightarrow> string" where
  "match_key inet family dir iface ifindex proto cs cd src src6 dst dst6 sport dport =
     ''mk2'' @ ''|family='' @ familyStr family @ ''|dir='' @ directionStr dir @ ''|iface='' @ ifaceStr iface @
     ''|ifindex='' @ dec_string (unat ifindex) @ ''|proto='' @ protoStr proto @
     ''|ctstate='' @ ctl_ctStateStr cs @ ''|ctdir='' @ ctDirStr cd @
     ''|src='' @ (if family = IPV4 then formatCidrV4 inet src else formatCidrV6 inet src6) @
     ''|dst='' @ (if family = IPV4 then formatCidrV4 inet dst else formatCidrV6 inet dst6) @
     ''|sport='' @ formatPortPredicate sport @ ''|dport='' @ formatPortPredicate dport"

definition apply_matchKeyMk2 :: "Inet \<Rightarrow> ApplyRule \<Rightarrow> string" where
  "apply_matchKeyMk2 inet r =
     match_key inet (ar_family r) (ar_dir r) (ar_iface r) (ar_ifindex r) (ar_proto r) (ar_ctState r) (ar_ctDir r)
       (ar_src r) (ar_src6 r) (ar_dst r) (ar_dst6 r) (ar_sport r) (ar_dport r)"

definition def_matchKeyMk2 :: "Inet \<Rightarrow> RuleDef \<Rightarrow> string" where
  "def_matchKeyMk2 inet r =
     match_key inet (rd_family r) (rd_dir r) (rd_iface r) (rd_ifindex r) (rd_proto r) (rd_ctState r) (rd_ctDir r)
       (rd_src r) (rd_src6 r) (rd_dst r) (rd_dst6 r) (rd_sport r) (rd_dport r)"

section \<open>Reading a rule\<close>

text \<open>The members of a rule are read one after the other; the first thing wrong is the answer.\<close>

definition member_of :: "string \<Rightarrow> JsonValue \<Rightarrow> string \<Rightarrow> EnvelopeError + JsonValue" where
  "member_of pre v key =
     (case FindMember v key of
        None \<Rightarrow> Inl (makeMissingArg (''missing '' @ pre @ key))
      | Some x \<Rightarrow> Inr x)"

definition string_member :: "string \<Rightarrow> JsonValue \<Rightarrow> string \<Rightarrow> EnvelopeError + string" where
  "string_member pre v key =
     err_bind (member_of pre v key) (\<lambda>x.
       case GetString x of
         None \<Rightarrow> Inl (makeInvalidArg (pre @ key @ '' must be string''))
       | Some s \<Rightarrow> Inr s)"

definition parsed_member ::
    "string \<Rightarrow> JsonValue \<Rightarrow> string \<Rightarrow> (string \<Rightarrow> 'a option) \<Rightarrow> string \<Rightarrow> EnvelopeError + 'a" where
  "parsed_member pre v key parse expected =
     err_bind (string_member pre v key) (\<lambda>s.
       case parse s of
         None \<Rightarrow> Inl (makeInvalidArg (pre @ key @ '' must be '' @ expected))
       | Some a \<Rightarrow> Inr a)"

definition valued_member ::
    "JsonValue \<Rightarrow> string \<Rightarrow> (JsonValue \<Rightarrow> 'a option) \<Rightarrow> string \<Rightarrow> EnvelopeError + 'a" where
  "valued_member v key get expected =
     err_bind (member_of ''rule.'' v key) (\<lambda>x.
       case get x of
         None \<Rightarrow> Inl (makeInvalidArg (''rule.'' @ key @ '' must be '' @ expected))
       | Some a \<Rightarrow> Inr a)"

definition client_id_member :: "string set \<Rightarrow> JsonValue \<Rightarrow> EnvelopeError + string" where
  "client_id_member seen rule =
     err_bind (string_member ''rule.'' rule ''clientRuleId'') (\<lambda>s.
       if \<not> isValidClientRuleId s
       then Inl (makeInvalidArg ''rule.clientRuleId must match [A-Za-z0-9._:-]{1,64}'')
       else if s \<in> seen then Inl (makeInvalidArg ''duplicate rule.clientRuleId'')
       else Inr s)"

definition ct_member :: "JsonValue \<Rightarrow> EnvelopeError + JsonValue" where
  "ct_member rule =
     err_bind (member_of ''rule.'' rule ''ct'') (\<lambda>ct.
       if \<not> IsObject ct then Inl (makeInvalidArg ''rule.ct must be object'')
       else case findUnknownKey ct [''state'', ''direction''] of
         Some unknown \<Rightarrow> Inl (makeSyntaxError (''unknown ct key: '' @ unknown))
       | None \<Rightarrow> Inr ct)"

text \<open>An address member, of the rule's family; the CIDR of the other family stays \<^verbatim>\<open>any\<close>.\<close>

definition cidr_member :: "Inet \<Rightarrow> Family \<Rightarrow> JsonValue \<Rightarrow> string \<Rightarrow> EnvelopeError + (CidrV4 \<times> CidrV6)" where
  "cidr_member inet family rule key =
     (if family = IPV4
      then err_bind (parsed_member ''rule.'' rule key (ctl_parseCidrV4 inet) ''any or CIDR a.b.c.d/prefix'')
             (\<lambda>c. Inr (c, anyCidrV6))
      else err_bind (parsed_member ''rule.'' rule key (ctl_parseCidrV6 inet) ''any or IPv6 CIDR'')
             (\<lambda>c. Inr (anyCidrV4, c)))"

definition allowed_rule_keys :: "string list" where
  "allowed_rule_keys =
     [''clientRuleId'', ''action'', ''priority'', ''enabled'', ''enforce'', ''log'', ''family'', ''dir'', ''iface'',
      ''ifindex'', ''proto'', ''ct'', ''src'', ''dst'', ''sport'', ''dport'']"

text \<open>The checks on the keys of the object.\<close>

definition rule_shape_error :: "JsonValue \<Rightarrow> EnvelopeError option" where
  "rule_shape_error rule =
     (if \<not> IsObject rule then Some (makeInvalidArg ''rules[] items must be objects'')
      else if FindMember rule ''ruleId'' \<noteq> None then Some (makeInvalidArg ''rule must not include ruleId'')
      else if FindMember rule ''matchKey'' \<noteq> None then Some (makeInvalidArg ''rule must not include matchKey'')
      else if FindMember rule ''stats'' \<noteq> None then Some (makeInvalidArg ''rule must not include stats'')
      else case findUnknownKey rule allowed_rule_keys of
        Some unknown \<Rightarrow> Some (makeSyntaxError (''unknown rule key: '' @ unknown))
      | None \<Rightarrow> None)"

definition port_proto_error :: "Proto \<Rightarrow> PortPredicate \<Rightarrow> PortPredicate \<Rightarrow> EnvelopeError option" where
  "port_proto_error proto sport dport =
     (if (proto = Proto_ICMP \<or> proto = Proto_OTHER) \<and> (\<not> port_isAny sport \<or> \<not> port_isAny dport)
      then Some (makeInvalidArg (if proto = Proto_ICMP then ''proto=icmp requires sport=any and dport=any''
                                 else ''proto=other requires sport=any and dport=any''))
      else None)"

definition parse_rule :: "Inet \<Rightarrow> string set \<Rightarrow> JsonValue \<Rightarrow> EnvelopeError + ApplyRule" where
  "parse_rule inet seen rule =
     (case rule_shape_error rule of Some e \<Rightarrow> Inl e | None \<Rightarrow>
      err_bind (client_id_member seen rule) (\<lambda>clientRuleId.
      err_bind (parsed_member ''rule.'' rule ''action'' ctl_parseAction ''allow|block'') (\<lambda>action.
      err_bind (valued_member rule ''priority'' GetInt ''i32'') (\<lambda>priority.
      err_bind (valued_member rule ''enabled'' isValidToggleValue ''0|1'') (\<lambda>enabled.
      err_bind (valued_member rule ''enforce'' isValidToggleValue ''0|1'') (\<lambda>enforce.
      err_bind (valued_member rule ''log'' isValidToggleValue ''0|1'') (\<lambda>log.
      err_bind (parsed_member ''rule.'' rule ''family'' parseFamily ''ipv4|ipv6'') (\<lambda>family.
      err_bind (parsed_member ''rule.'' rule ''dir'' ctl_parseDirection ''any|in|out'') (\<lambda>dir.
      err_bind (parsed_member ''rule.'' rule ''iface'' parseIface ''any|wifi|data|vpn|unmanaged'') (\<lambda>iface.
      err_bind (valued_member rule ''ifindex'' GetUint ''u32'') (\<lambda>ifindex.
      err_bind (parsed_member ''rule.'' rule ''proto'' ctl_parseProto ''any|tcp|udp|icmp|other'') (\<lambda>proto.
      err_bind (ct_member rule) (\<lambda>ct.
      err_bind (parsed_member ''rule.ct.'' ct ''state'' ctl_parseCtState ''any|new|established|invalid'') (\<lambda>ctState.
      err_bind (parsed_member ''rule.ct.'' ct ''direction'' ctl_parseCtDirection ''any|orig|reply'') (\<lambda>ctDir.
      err_bind (cidr_member inet family rule ''src'') (\<lambda>src.
      err_bind (cidr_member inet family rule ''dst'') (\<lambda>dst.
      err_bind (parsed_member ''rule.'' rule ''sport'' ctl_parsePortPredicate ''any|N|lo-hi'') (\<lambda>sport.
      err_bind (parsed_member ''rule.'' rule ''dport'' ctl_parsePortPredicate ''any|N|lo-hi'') (\<lambda>dport.
      case port_proto_error proto sport dport of Some e \<Rightarrow> Inl e | None \<Rightarrow>
      Inr \<lparr>ar_clientRuleId = clientRuleId, ar_family = family, ar_action = action, ar_priority = priority,
           ar_enabled = (enabled = 1), ar_enforce = (enforce = 1), ar_log = (log = 1), ar_dir = dir,
           ar_iface = iface, ar_ifindex = ifindex, ar_proto = proto, ar_src = fst src, ar_dst = fst dst,
           ar_src6 = snd src, ar_dst6 = snd dst, ar_sport = sport, ar_dport = dport,
           ar_ctState = ctState, ar_ctDir = ctDir\<rparr>)))))))))))))))))))"

fun parse_rules :: "Inet \<Rightarrow> string set \<Rightarrow> JsonValue list \<Rightarrow> EnvelopeError + ApplyRule list" where
  "parse_rules inet seen [] = Inr []"
| "parse_rules inet seen (v # vs) =
     err_bind (parse_rule inet seen v) (\<lambda>r.
     err_bind (parse_rules inet (insert (ar_clientRuleId r) seen) vs) (\<lambda>rs. Inr (r # rs)))"

section \<open>Duplicated match keys\<close>

definition duplicatedMatchKeys :: "Inet \<Rightarrow> ApplyRule list \<Rightarrow> string list" where
  "duplicatedMatchKeys inet rules =
     (let keys = map (apply_matchKeyMk2 inet) rules
      in std_sort string_less (filter (\<lambda>k. 1 < length (filter ((=) k) keys)) (remdups keys)))"

definition JFlag :: "bool \<Rightarrow> JsonValue" where
  "JFlag b = JInt (if b then 1 else 0)"

definition conflict_rule :: "ApplyRule \<Rightarrow> JsonValue" where
  "conflict_rule r =
     JObject [(''clientRuleId'', JString (ar_clientRuleId r)), (''action'', JString (actionStr (ar_action r))),
              (''priority'', JInt (sint (ar_priority r))), (''enabled'', JFlag (ar_enabled r)),
              (''enforce'', JFlag (ar_enforce r)), (''log'', JFlag (ar_log r))]"

definition conflict_json :: "Inet \<Rightarrow> u32 \<Rightarrow> ApplyRule list \<Rightarrow> string \<Rightarrow> JsonValue" where
  "conflict_json inet uid rules mk =
     JObject [(''uid'', JUint uid), (''matchKey'', JString mk),
              (''rules'', JArray (map conflict_rule (filter (\<lambda>r. apply_matchKeyMk2 inet r = mk) rules)))]"

definition kMaxConflicts :: nat where "kMaxConflicts = 64"

text \<open>\<^verbatim>\<open>response["error"].AddMember\<close> on a fresh error response.\<close>

fun add_error_members :: "(string \<times> JsonValue) list \<Rightarrow> JsonValue \<Rightarrow> JsonValue" where
  "add_error_members ms (JObject [i, ok, (k, JObject e)]) = JObject [i, ok, (k, JObject (e @ ms))]"
| "add_error_members ms v = v"

definition conflict_response :: "Inet \<Rightarrow> u32 \<Rightarrow> u32 \<Rightarrow> ApplyRule list \<Rightarrow> string list \<Rightarrow> JsonValue" where
  "conflict_response inet reqId uid rules dups =
     add_error_members
       [(''conflicts'', JArray (map (conflict_json inet uid rules) (take kMaxConflicts dups))),
        (''truncated'', JBool (kMaxConflicts < length dups))]
       (makeErrorResponse reqId ''INVALID_ARGUMENT'' ''iprules conflict: duplicated matchKey'')"

section \<open>Reports\<close>

definition summary_json :: "PreflightSummary \<Rightarrow> JsonValue" where
  "summary_json s =
     JObject [(''rulesTotal'', JInt (int (rulesTotal s))), (''rangeRulesTotal'', JInt (int (rangeRulesTotal s))),
              (''ctRulesTotal'', JInt (int (ctRulesTotal s))), (''ctUidsTotal'', JInt (int (ctUidsTotal s))),
              (''subtablesTotal'', JInt (int (subtablesTotal s))),
              (''maxSubtablesPerUid'', JInt (int (maxSubtablesPerUid s))),
              (''maxRangeRulesPerBucket'', JInt (int (maxRangeRulesPerBucket s)))]"

definition limits_json :: "PreflightLimitSet \<Rightarrow> JsonValue" where
  "limits_json l =
     JObject [(''maxRulesTotal'', JInt (int (lim_maxRulesTotal l))),
              (''maxSubtablesPerUid'', JInt (int (lim_maxSubtablesPerUid l))),
              (''maxRangeRulesPerBucket'', JInt (int (lim_maxRangeRulesPerBucket l)))]"

definition issue_json :: "PreflightIssue \<Rightarrow> JsonValue" where
  "issue_json it =
     JObject [(''metric'', JString (iss_metric it)), (''value'', JInt (int (iss_value it))),
              (''limit'', JInt (int (iss_limit it))), (''message'', JString (iss_message it))]"

definition addPreflightReport :: "PreflightReport \<Rightarrow> (string \<times> JsonValue) list" where
  "addPreflightReport rep =
     [(''summary'', summary_json (rep_summary rep)),
      (''byFamily'', JObject [(''ipv4'', summary_json (rep_ipv4 rep)), (''ipv6'', summary_json (rep_ipv6 rep))]),
      (''limits'', JObject [(''recommended'', limits_json (rep_recommended rep)), (''hard'', limits_json (rep_hard rep))]),
      (''warnings'', JArray (map issue_json (rep_warnings rep))),
      (''violations'', JArray (map issue_json (rep_violations rep)))]"

section \<open>Selecting an app\<close>

definition env_response :: "u32 \<Rightarrow> EnvelopeError \<Rightarrow> JsonValue" where
  "env_response reqId e = makeErrorResponse reqId (ee_code e) (ee_message e)"

definition candidate_json :: "Policy \<Rightarrow> addr \<Rightarrow> JsonValue" where
  "candidate_json p a =
     JObject [(''uid'', JUint (a_uid (p_appHeap p a))), (''userId'', JUint (userId (a_uid (p_appHeap p a)))),
              (''app'', JString (a_name (p_appHeap p a)))]"

definition selector_not_found :: "u32 \<Rightarrow> JsonValue" where
  "selector_not_found reqId =
     add_error_members [(''candidates'', JArray [])]
       (makeErrorResponse reqId ''SELECTOR_NOT_FOUND'' ''app selector not found'')"

definition resolveAppSelector :: "u32 \<Rightarrow> JsonValue \<Rightarrow> Policy \<Rightarrow> JsonValue + addr" where
  "resolveAppSelector reqId selector p =
     (case findUnknownKey selector [''uid'', ''pkg'', ''userId''] of
        Some unknown \<Rightarrow> Inl (makeErrorResponse reqId ''SYNTAX_ERROR'' (''unknown selector key: '' @ unknown))
      | None \<Rightarrow>
      (case (FindMember selector ''uid'', FindMember selector ''pkg'', FindMember selector ''userId'') of
        (Some u, None, None) \<Rightarrow>
          (case GetUint u of
             None \<Rightarrow> Inl (makeErrorResponse reqId ''INVALID_ARGUMENT'' ''selector.uid must be u32'')
           | Some uid \<Rightarrow>
               (case am_find uid p of
                  None \<Rightarrow> Inl (selector_not_found reqId)
                | Some a \<Rightarrow> Inr a))
      | (Some _, _, _) \<Rightarrow>
          Inl (makeErrorResponse reqId ''INVALID_ARGUMENT'' ''selector must be either {uid} or {pkg,userId}'')
      | (None, Some pk, Some us) \<Rightarrow>
          (case GetString pk of
             None \<Rightarrow> Inl (makeErrorResponse reqId ''INVALID_ARGUMENT'' ''selector.pkg must be string'')
           | Some pkg \<Rightarrow>
               (case GetUint us of
                  None \<Rightarrow> Inl (makeErrorResponse reqId ''INVALID_ARGUMENT'' ''selector.userId must be u32'')
                | Some user \<Rightarrow>
                    let found = filter (\<lambda>a. a_name (p_appHeap p a) = pkg) (snapshotByUid (Some user) p) in
                    if found = [] then Inl (selector_not_found reqId)
                    else if length found = 1 then Inr (hd found)
                    else
                      let sorted = std_sort (\<lambda>a b. a_uid (p_appHeap p a) < a_uid (p_appHeap p b)) found
                      in Inl (add_error_members [(''candidates'', JArray (map (candidate_json p) sorted))]
                            (makeErrorResponse reqId ''SELECTOR_AMBIGUOUS'' ''app selector ambiguous''))))
      | (None, None, None) \<Rightarrow>
          Inl (makeErrorResponse reqId ''MISSING_ARGUMENT'' ''selector requires uid or pkg+userId'')
      | _ \<Rightarrow> Inl (makeErrorResponse reqId ''MISSING_ARGUMENT'' ''selector requires pkg and userId'')))"

section \<open>The commands\<close>

text \<open>The \<^verbatim>\<open>app\<close> argument shared by PRINT and APPLY.\<close>

definition app_arg :: "u32 \<Rightarrow> JsonValue \<Rightarrow> JsonValue + JsonValue" where
  "app_arg reqId args =
     (case FindMember args ''app'' of
        None \<Rightarrow> Inl (makeErrorResponse reqId ''MISSING_ARGUMENT'' ''missing args.app'')
      | Some app \<Rightarrow>
          if \<not> IsObject app then Inl (makeErrorResponse reqId ''INVALID_ARGUMENT'' ''args.app must be object'')
          else Inr app)"

definition unknown_args :: "u32 \<Rightarrow> JsonValue \<Rightarrow> string list \<Rightarrow> JsonValue option" where
  "unknown_args reqId args allowed =
     map_option (\<lambda>k. makeErrorResponse reqId ''SYNTAX_ERROR'' (''unknown args key: '' @ k)) (findUnknownKey args allowed)"

definition handle_preflight :: "u32 \<Rightarrow> JsonValue \<Rightarrow> Engine \<Rightarrow> JsonValue" where
  "handle_preflight reqId args e =
     (case unknown_args reqId args [] of
        Some r \<Rightarrow> r
      | None \<Rightarrow> makeOkResponse reqId (Some (JObject (addPreflightReport (eng_preflight e)))))"

definition src_text :: "Inet \<Rightarrow> RuleDef \<Rightarrow> string" where
  "src_text inet r = (if rd_family r = IPV4 then formatCidrV4 inet (rd_src r) else formatCidrV6 inet (rd_src6 r))"

definition dst_text :: "Inet \<Rightarrow> RuleDef \<Rightarrow> string" where
  "dst_text inet r = (if rd_family r = IPV4 then formatCidrV4 inet (rd_dst r) else formatCidrV6 inet (rd_dst6 r))"

definition stats_json :: "RuleStats \<Rightarrow> JsonValue" where
  "stats_json s =
     JObject [(''hitPackets'', JInt (uint (hitPackets s))), (''hitBytes'', JInt (uint (hitBytes s))),
              (''lastHitTsNs'', JInt (uint (lastHitTsNs s))), (''wouldHitPackets'', JInt (uint (wouldHitPackets s))),
              (''wouldHitBytes'', JInt (uint (wouldHitBytes s))), (''lastWouldHitTsNs'', JInt (uint (lastWouldHitTsNs s)))]"

definition rule_fields :: "Inet \<Rightarrow> RuleDef \<Rightarrow> (string \<times> JsonValue) list" where
  "rule_fields inet r =
     [(''action'', JString (actionStr (rd_action r))), (''priority'', JInt (sint (rd_priority r))),
      (''enabled'', JFlag (rd_enabled r)), (''enforce'', JFlag (rd_enforce r)), (''log'', JFlag (rd_log r)),
      (''family'', JString (familyStr (rd_family r))), (''dir'', JString (directionStr (rd_dir r))),
      (''iface'', JString (ifaceStr (rd_iface r))), (''ifindex'', JUint (rd_ifindex r)),
      (''proto'', JString (protoStr (rd_proto r))),
      (''ct'', JObject [(''state'', JString (ctl_ctStateStr (rd_ctState r))),
                        (''direction'', JString (ctDirStr (rd_ctDir r)))]),
      (''src'', JString (src_text inet r)), (''dst'', JString (dst_text inet r)),
      (''sport'', JString (formatPortPredicate (rd_sport r))), (''dport'', JString (formatPortPredicate (rd_dport r)))]"

definition print_item :: "Inet \<Rightarrow> Engine \<Rightarrow> RuleDef \<Rightarrow> JsonValue" where
  "print_item inet e r =
     JObject ([(''ruleId'', JUint (rd_ruleId r)), (''clientRuleId'', JString (rd_clientRuleId r)),
               (''matchKey'', JString (def_matchKeyMk2 inet r))] @ rule_fields inet r @
              [(''stats'', stats_json (case statsSnapshot e (rd_ruleId r) of None \<Rightarrow> zeroStats | Some s \<Rightarrow> s))])"

definition handle_print :: "Inet \<Rightarrow> Policy \<Rightarrow> u32 \<Rightarrow> JsonValue \<Rightarrow> Engine \<Rightarrow> JsonValue" where
  "handle_print inet p reqId args e =
     (case unknown_args reqId args [''app''] of
        Some r \<Rightarrow> r
      | None \<Rightarrow>
      (case app_arg reqId args of
        Inl r \<Rightarrow> r
      | Inr sel \<Rightarrow>
      (case resolveAppSelector reqId sel p of
        Inl r \<Rightarrow> r
      | Inr a \<Rightarrow>
          let uid = a_uid (p_appHeap p a); rules = std_sort ruleIdLess (listRules e (Some uid) None) in
          makeOkResponse reqId (Some (JObject [(''uid'', JUint uid), (''rules'', JArray (map (print_item inet e) rules))])))))"

definition committed_item :: "Inet \<Rightarrow> RuleDef \<Rightarrow> JsonValue" where
  "committed_item inet r =
     JObject [(''clientRuleId'', JString (rd_clientRuleId r)), (''ruleId'', JUint (rd_ruleId r)),
              (''matchKey'', JString (def_matchKeyMk2 inet r))]"

text \<open>The rules are read and checked; then the engine replaces the rules of the uid.\<close>

definition apply_rules :: "Inet \<Rightarrow> u32 \<Rightarrow> u32 \<Rightarrow> JsonValue list \<Rightarrow> Engine \<Rightarrow> JsonValue \<times> Engine" where
  "apply_rules inet reqId uid items e =
     (case parse_rules inet {} items of
        Inl err \<Rightarrow> (env_response reqId err, e)
      | Inr rules \<Rightarrow>
          let dups = duplicatedMatchKeys inet rules in
          if dups \<noteq> [] then (conflict_response inet reqId uid rules dups, e)
          else
            case replaceRulesForUid uid rules e of (res, e') \<Rightarrow>
            if \<not> res_ok res then
              (let response = makeErrorResponse reqId ''INVALID_ARGUMENT'' (res_error res) in
               if \<not> report_ok (res_preflight res)
               then add_error_members [(''preflight'', JObject (addPreflightReport (res_preflight res)))] response
               else response, e')
            else
              (makeOkResponse reqId (Some (JObject [(''uid'', JUint uid),
                 (''rules'', JArray (map (committed_item inet) (std_sort ruleIdLess (listRules e' (Some uid) None))))])),
               e'))"

definition handle_apply :: "Inet \<Rightarrow> Policy \<Rightarrow> u32 \<Rightarrow> JsonValue \<Rightarrow> Engine \<Rightarrow> JsonValue \<times> Engine" where
  "handle_apply inet p reqId args e =
     (case unknown_args reqId args [''app'', ''rules''] of
        Some r \<Rightarrow> (r, e)
      | None \<Rightarrow>
      (case app_arg reqId args of
        Inl r \<Rightarrow> (r, e)
      | Inr sel \<Rightarrow>
      (case FindMember args ''rules'' of
        None \<Rightarrow> (makeErrorResponse reqId ''MISSING_ARGUMENT'' ''missing args.rules'', e)
      | Some (JArray items) \<Rightarrow>
          (case resolveAppSelector reqId sel p of
             Inl r \<Rightarrow> (r, e)
           | Inr a \<Rightarrow> apply_rules inet reqId (a_uid (p_appHeap p a)) items e)
      | Some _ \<Rightarrow> (makeErrorResponse reqId ''INVALID_ARGUMENT'' ''args.rules must be array'', e))))"

definition handleIpRulesCommand ::
    "Inet \<Rightarrow> Policy \<Rightarrow> RequestView \<Rightarrow> Engine \<Rightarrow> JsonValue option \<times> Engine" where
  "handleIpRulesCommand inet p request e =
     (if rq_cmd request = ''IPRULES.PREFLIGHT''
      then (Some (handle_preflight (rq_id request) (rq_args request) e), e)
      else if rq_cmd request = ''IPRULES.PRINT''
      then (Some (handle_print inet p (rq_id request) (rq_args request) e), e)
      else if rq_cmd request = ''IPRULES.APPLY''
      then map_prod Some id (handle_apply inet p (rq_id request) (rq_args request) e)
      else (None, e))"

end
