(* ===== verification/ControlIpRulesGuarantees.thy ===== *)
theory ControlIpRulesGuarantees
  imports ControlIpRules AppGuarantees IpRulesGuarantees IpRulesExplain
begin

text \<open>
  What the IPRULES commands guarantee: their copies of the field parsers and printers agree with the
  engine's, a rule that was accepted and printed is read back as the same rule, every response is a
  well-formed envelope, and an APPLY either replaces the rules of the selected app as the engine
  promises, with distinct match keys, or changes nothing.
\<close>

section \<open>The two copies of the field syntax\<close>

lemma ctl_parse_agrees:
  "ctl_parseAction s = parseAction s" "ctl_parseDirection s = parseDirection s" "parseIface s = parseIfaceKind s"
  "ctl_parseProto s = parseProto s" "ctl_parseCtState s = parseCtState s"
  "ctl_parseCtDirection s = parseCtDirection s" "ctl_parsePortPredicate s = parsePortPredicate s"
  by (simp_all add: ctl_parseAction_def parseAction_def ctl_parseDirection_def parseDirection_def parseIface_def
      parseIfaceKind_def ctl_parseProto_def parseProto_def ctl_parseCtState_def parseCtState_def
      ctl_parseCtDirection_def parseCtDirection_def ctl_parsePortPredicate_def parsePortPredicate_def
      not_le cong: option.case_cong prod.case_cong)

lemma ctl_parseCidrV4_agrees: "ctl_parseCidrV4 inet s = parseCidrV4 (pton4 inet) s"
  unfolding ctl_parseCidrV4_def parseCidrV4_def cidrV4_def Let_def by (rule refl)

lemma format_agrees:
  "formatCidrV4 inet c = normalizeCidrV4 (ntop4 inet) c" "formatCidrV6 inet c6 = normalizeCidrV6 (ntop6 inet) c6"
  "formatPortPredicate q = normalizePortPredicate q" "directionStr d = normalizeDirection d"
  "ifaceStr i = normalizeIfaceKind i" "ctl_ctStateStr s = normalizeCtState s" "ctDirStr x = normalizeCtDirection x"
  "p \<noteq> Proto_UNKNOWN \<Longrightarrow> protoStr p = normalizeProto p"
  by (simp_all add: formatCidrV4_def normalizeCidrV4_def formatCidrV6_def normalizeCidrV6_def
      formatPortPredicate_def normalizePortPredicate_def)
    (cases d, simp_all, cases i, simp_all, cases s, simp_all, cases x, simp_all, cases p, simp_all)

lemma match_key_agrees:
  assumes "rd_proto (st_def s) \<noteq> Proto_UNKNOWN"
  shows "rd_family (st_def s) = IPV4 \<Longrightarrow>
      def_matchKeyMk2 inet (st_def s) = matchKeyMk2 ''ipv4'' (normalizeCidrV4 (ntop4 inet)) (makeRefV4 s)"
    and "rd_family (st_def s) = IPV6 \<Longrightarrow>
      def_matchKeyMk2 inet (st_def s) = matchKeyMk2 ''ipv6'' (normalizeCidrV6 (ntop6 inet)) (makeRefV6 s)"
  using assms
  by (simp_all add: def_matchKeyMk2_def match_key_def matchKeyMk2_def makeRefV4_def makeRefV6_def Let_def format_agrees)

section \<open>Reading back what was printed\<close>

text \<open>The documented behaviour of \<^verbatim>\<open>inet_ntop\<close> and \<^verbatim>\<open>inet_pton\<close> that printing relies on: an address
  prints to a text without a slash that reads as the address, and a read IPv6 address has 16 bytes.\<close>

definition inet_ok :: "Inet \<Rightarrow> bool" where
  "inet_ok inet \<longleftrightarrow>
     (\<forall>a. \<exists>s. ntop4 inet a = Some s \<and> s \<noteq> [] \<and> CHR ''/'' \<notin> set s \<and> pton4 inet s = Some a) \<and>
     (\<forall>a. length a = 16 \<longrightarrow>
        (\<exists>s. ntop6 inet a = Some s \<and> s \<noteq> [] \<and> CHR ''/'' \<notin> set s \<and> pton6 inet s = Some a)) \<and>
     (\<forall>s a. pton6 inet s = Some a \<longrightarrow> length a = 16)"

definition cidr4_canonical :: "CidrV4 \<Rightarrow> bool" where
  "cidr4_canonical c \<longleftrightarrow> c = anyCidrV4 \<or> (\<exists>a p. p \<le> 32 \<and> c = cidrV4 (a AND maskFromPrefix p) p)"

definition cidr6_canonical :: "CidrV6 \<Rightarrow> bool" where
  "cidr6_canonical c \<longleftrightarrow> c = anyCidrV6 \<or> (\<exists>a p. p \<le> 128 \<and> length a = 16 \<and> c = cidrV6 (mask_ip6 p a) p)"

definition apply_canonical :: "ApplyRule \<Rightarrow> bool" where
  "apply_canonical r \<longleftrightarrow>
     isValidClientRuleId (ar_clientRuleId r) \<and> ar_action r \<in> {ALLOW, BLOCK} \<and>
     ar_dir r \<in> {Dir_ANY, Dir_IN, Dir_OUT} \<and>
     ar_iface r \<in> {Iface_ANY, Iface_WIFI, Iface_DATA, Iface_VPN, Iface_UNMANAGED} \<and>
     ar_proto r \<in> {Proto_ANY, Proto_TCP, Proto_UDP, Proto_ICMP, Proto_OTHER} \<and>
     ar_ctState r \<in> {Ct_ANY, Ct_NEW, Ct_ESTABLISHED, Ct_INVALID} \<and>
     ar_ctDir r \<in> {CtDir_ANY, CtDir_ORIG, CtDir_REPLY} \<and>
     port_canonical (ar_sport r) \<and> port_canonical (ar_dport r) \<and>
     (ar_family r = IPV4 \<and> cidr4_canonical (ar_src r) \<and> cidr4_canonical (ar_dst r) \<and>
        ar_src6 r = anyCidrV6 \<and> ar_dst6 r = anyCidrV6 \<or>
      ar_family r = IPV6 \<and> cidr6_canonical (ar_src6 r) \<and> cidr6_canonical (ar_dst6 r) \<and>
        ar_src r = anyCidrV4 \<and> ar_dst r = anyCidrV4) \<and>
     port_proto_error (ar_proto r) (ar_sport r) (ar_dport r) = None"

lemma apply_canonicalD:
  assumes "apply_canonical r"
  shows "isValidClientRuleId (ar_clientRuleId r)" "ar_action r \<in> {ALLOW, BLOCK}"
    "ar_dir r \<in> {Dir_ANY, Dir_IN, Dir_OUT}"
    "ar_iface r \<in> {Iface_ANY, Iface_WIFI, Iface_DATA, Iface_VPN, Iface_UNMANAGED}"
    "ar_proto r \<in> {Proto_ANY, Proto_TCP, Proto_UDP, Proto_ICMP, Proto_OTHER}"
    "ar_ctState r \<in> {Ct_ANY, Ct_NEW, Ct_ESTABLISHED, Ct_INVALID}"
    "ar_ctDir r \<in> {CtDir_ANY, CtDir_ORIG, CtDir_REPLY}"
    "port_canonical (ar_sport r)" "port_canonical (ar_dport r)"
    "ar_family r = IPV4 \<and> cidr4_canonical (ar_src r) \<and> cidr4_canonical (ar_dst r) \<and>
        ar_src6 r = anyCidrV6 \<and> ar_dst6 r = anyCidrV6 \<or>
      ar_family r = IPV6 \<and> cidr6_canonical (ar_src6 r) \<and> cidr6_canonical (ar_dst6 r) \<and>
        ar_src r = anyCidrV4 \<and> ar_dst r = anyCidrV4"
    "port_proto_error (ar_proto r) (ar_sport r) (ar_dport r) = None"
  using assms by (simp_all only: apply_canonical_def)

lemma length_mask_ip6: "length a = 16 \<Longrightarrow> length (mask_ip6 p a) = 16"
  by (auto simp: mask_ip6_def Let_def word_less_nat_alt)

lemma mask_ip6_idem:
  assumes "length a = 16" shows "mask_ip6 p (mask_ip6 p a) = mask_ip6 p a"
proof (cases "p < 128")
  case True
  then have f: "unat p div 8 < 16" by (simp add: word_less_nat_alt)
  show ?thesis
  proof (cases "unat p mod 8 = 0")
    case nz: False
    have "mask_ip6 p a = take (unat p div 8) a @ [(a ! (unat p div 8)) AND rem_mask (unat p mod 8)] @
        replicate (16 - (unat p div 8 + 1)) 0"
      using True nz assms by (simp add: mask_ip6_def Let_def)
    then show ?thesis using True nz f assms
      by (simp add: mask_ip6_def Let_def nth_append and.assoc)
  next
    case z: True
    then show ?thesis using True f assms by (simp add: mask_ip6_def Let_def)
  qed
qed (simp add: mask_ip6_def)

lemma slash_text: "CHR ''/'' \<notin> set s \<Longrightarrow> s @ CHR ''/'' # t \<noteq> ''any'' \<and> split_at (CHR ''/'') (s @ CHR ''/'' # t) = Some (s, t)"
proof -
  assume s: "CHR ''/'' \<notin> set s"
  have "CHR ''/'' \<in> set (s @ CHR ''/'' # t)" "CHR ''/'' \<notin> set ''any''" by simp_all
  then have "s @ CHR ''/'' # t \<noteq> ''any''" by metis
  then show ?thesis using split_at_append [OF s] by simp
qed

lemma ctl_parseCidrV4_format:
  assumes "inet_ok inet" "cidr4_canonical c"
  shows "ctl_parseCidrV4 inet (formatCidrV4 inet c) = Some c"
proof (cases "c = anyCidrV4")
  case True
  then show ?thesis by (simp add: ctl_parseCidrV4_def formatCidrV4_def anyCidrV4_def)
next
  case False
  then obtain a p where p: "p \<le> 32" and c: "c = cidrV4 (a AND maskFromPrefix p) p"
    using assms(2) by (auto simp: cidr4_canonical_def)
  from assms(1) obtain s where s: "ntop4 inet (a AND maskFromPrefix p) = Some s" "s \<noteq> []" "CHR ''/'' \<notin> set s"
      "pton4 inet s = Some (a AND maskFromPrefix p)"
    unfolding inet_ok_def by blast
  have t: "formatCidrV4 inet c = s @ CHR ''/'' # dec_string (unat p)" by (simp add: formatCidrV4_def c cidrV4_def s)
  have u: "unat p \<le> 32" using p by (simp add: word_le_nat_alt)
  moreover have "parseDecU 32 (dec_string (unat p)) = Some (unat p)"
    by (rule parseDecU_dec_string) (use u in simp)
  ultimately show ?thesis using slash_text [OF s(3), of "dec_string (unat p)"]
    unfolding ctl_parseCidrV4_def t by (simp add: s c Let_def and.assoc)
qed

lemma ctl_parseCidrV6_format:
  assumes "inet_ok inet" "cidr6_canonical c"
  shows "ctl_parseCidrV6 inet (formatCidrV6 inet c) = Some c"
proof (cases "c = anyCidrV6")
  case True
  then show ?thesis by (simp add: ctl_parseCidrV6_def formatCidrV6_def anyCidrV6_def)
next
  case False
  then obtain a p where p: "p \<le> 128" "length a = 16" and c: "c = cidrV6 (mask_ip6 p a) p"
    using assms(2) by (auto simp: cidr6_canonical_def)
  from assms(1) length_mask_ip6 [OF p(2)] obtain s where s: "ntop6 inet (mask_ip6 p a) = Some s" "s \<noteq> []"
      "CHR ''/'' \<notin> set s" "pton6 inet s = Some (mask_ip6 p a)"
    unfolding inet_ok_def by blast
  have t: "formatCidrV6 inet c = s @ CHR ''/'' # dec_string (unat p)" by (simp add: formatCidrV6_def c cidrV6_def s)
  have u: "unat p \<le> 128" using p(1) by (simp add: word_le_nat_alt)
  moreover have "parseDecU 32 (dec_string (unat p)) = Some (unat p)"
    by (rule parseDecU_dec_string) (use u in simp)
  ultimately show ?thesis using slash_text [OF s(3), of "dec_string (unat p)"]
    unfolding ctl_parseCidrV6_def t by (simp add: s c Let_def mask_ip6_idem [OF p(2)])
qed

lemma ctl_parseCidr_canonical:
  "ctl_parseCidrV4 inet s = Some c \<Longrightarrow> cidr4_canonical c"
  "inet_ok inet \<Longrightarrow> ctl_parseCidrV6 inet s = Some c6 \<Longrightarrow> cidr6_canonical c6"
proof -
  have c4: "cidr4_canonical (cidrV4 (a AND maskFromPrefix (of_nat n)) (of_nat n))" if "n \<le> 32" for a and n :: nat
  proof -
    have "(of_nat n :: u8) \<le> 32" using that by (simp add: word_le_nat_alt unat_of_nat)
    then show ?thesis unfolding cidr4_canonical_def by blast
  qed
  have c6: "cidr6_canonical (cidrV6 (mask_ip6 (of_nat n) a) (of_nat n))" if "n \<le> 128" "length a = 16" for a and n :: nat
  proof -
    have "(of_nat n :: u8) \<le> 128" using that by (simp add: word_le_nat_alt unat_of_nat)
    then show ?thesis using that(2) unfolding cidr6_canonical_def by blast
  qed
  show "ctl_parseCidrV4 inet s = Some c \<Longrightarrow> cidr4_canonical c"
    by (auto simp: ctl_parseCidrV4_def Let_def cidr4_canonical_def [of anyCidrV4] intro!: c4
        split: if_splits option.splits)
  show "inet_ok inet \<Longrightarrow> ctl_parseCidrV6 inet s = Some c6 \<Longrightarrow> cidr6_canonical c6"
    unfolding inet_ok_def
    by (auto simp: ctl_parseCidrV6_def Let_def cidr6_canonical_def [of anyCidrV6] intro!: c6
        split: if_splits option.splits)
qed

lemma parse_print_enum:
  "a \<in> {ALLOW, BLOCK} \<Longrightarrow> ctl_parseAction (actionStr a) = Some a"
  "f \<in> {IPV4, IPV6} \<Longrightarrow> parseFamily (familyStr f) = Some f"
  "d \<in> {Dir_ANY, Dir_IN, Dir_OUT} \<Longrightarrow> ctl_parseDirection (directionStr d) = Some d"
  "i \<in> {Iface_ANY, Iface_WIFI, Iface_DATA, Iface_VPN, Iface_UNMANAGED} \<Longrightarrow> parseIface (ifaceStr i) = Some i"
  "p \<in> {Proto_ANY, Proto_TCP, Proto_UDP, Proto_ICMP, Proto_OTHER} \<Longrightarrow> ctl_parseProto (protoStr p) = Some p"
  "s \<in> {Ct_ANY, Ct_NEW, Ct_ESTABLISHED, Ct_INVALID} \<Longrightarrow> ctl_parseCtState (ctl_ctStateStr s) = Some s"
  "x \<in> {CtDir_ANY, CtDir_ORIG, CtDir_REPLY} \<Longrightarrow> ctl_parseCtDirection (ctDirStr x) = Some x"
  by (auto simp: ctl_parseAction_def parseFamily_def ctl_parseDirection_def parseIface_def ctl_parseProto_def
      ctl_parseCtState_def ctl_parseCtDirection_def)

lemma parsed_enum:
  "ctl_parseAction t = Some a \<Longrightarrow> a \<in> {ALLOW, BLOCK}"
  "parseFamily t = Some f \<Longrightarrow> f \<in> {IPV4, IPV6}"
  "ctl_parseDirection t = Some d \<Longrightarrow> d \<in> {Dir_ANY, Dir_IN, Dir_OUT}"
  "parseIface t = Some i \<Longrightarrow> i \<in> {Iface_ANY, Iface_WIFI, Iface_DATA, Iface_VPN, Iface_UNMANAGED}"
  "ctl_parseProto t = Some p \<Longrightarrow> p \<in> {Proto_ANY, Proto_TCP, Proto_UDP, Proto_ICMP, Proto_OTHER}"
  "ctl_parseCtState t = Some s \<Longrightarrow> s \<in> {Ct_ANY, Ct_NEW, Ct_ESTABLISHED, Ct_INVALID}"
  "ctl_parseCtDirection t = Some x \<Longrightarrow> x \<in> {CtDir_ANY, CtDir_ORIG, CtDir_REPLY}"
  by (auto simp: ctl_parseAction_def parseFamily_def ctl_parseDirection_def parseIface_def ctl_parseProto_def
      ctl_parseCtState_def ctl_parseCtDirection_def split: if_splits)

lemma parse_format_port:
  "port_canonical q \<Longrightarrow> ctl_parsePortPredicate (formatPortPredicate q) = Some q"
  "ctl_parsePortPredicate t = Some q \<Longrightarrow> port_canonical q"
  by (simp_all add: ctl_parse_agrees format_agrees parsePortPredicate_normalize parsePortPredicate_canonical)

lemma get_flags:
  "isValidToggleValue (JFlag b) = Some (if b then 1 else 0)"
  "GetInt (JInt (sint (n :: i32))) = Some n"
  using sint_ge [of n] sint_lt [of n]
  by (simp_all add: isValidToggleValue_def JFlag_def)

lemma parsed_member_Inr:
  "parsed_member pre v k parse ex = Inr a \<longleftrightarrow> (\<exists>s. FindMember v k = Some (JString s) \<and> parse s = Some a)"
proof -
  have G: "GetString x = Some s \<longleftrightarrow> x = JString s" for x s by (cases x) auto
  show ?thesis
    by (auto simp: parsed_member_def string_member_def member_of_def err_bind_def G
        split: option.splits sum.splits)
qed

lemma parsed_memberE: "parsed_member pre v k parse ex = Inr a \<Longrightarrow> (\<And>s. parse s = Some a \<Longrightarrow> P) \<Longrightarrow> P"
  by (auto simp: parsed_member_Inr)

lemma valued_member_Inr:
  "valued_member v k get ex = Inr a \<longleftrightarrow> (\<exists>x. FindMember v k = Some x \<and> get x = Some a)"
  by (auto simp: valued_member_def member_of_def err_bind_def split: option.splits sum.splits)

lemma client_id_member_Inr:
  "client_id_member seen v = Inr s \<longleftrightarrow>
     FindMember v ''clientRuleId'' = Some (JString s) \<and> isValidClientRuleId s \<and> s \<notin> seen"
proof -
  have G: "GetString x = Some s \<longleftrightarrow> x = JString s" for x s by (cases x) auto
  show ?thesis
    by (auto simp: client_id_member_def string_member_def member_of_def err_bind_def G
        split: option.splits sum.splits if_splits)
qed

lemma cidr_member_Inr:
  "cidr_member inet f v k = Inr c \<longleftrightarrow>
     (\<exists>s. FindMember v k = Some (JString s) \<and>
        (if f = IPV4 then ctl_parseCidrV4 inet s = Some (fst c) \<and> snd c = anyCidrV6
         else ctl_parseCidrV6 inet s = Some (snd c) \<and> fst c = anyCidrV4))"
  by (cases c) (auto simp: cidr_member_def err_bind_Inr parsed_member_Inr)

lemmas member_Inr = parsed_member_Inr valued_member_Inr client_id_member_Inr cidr_member_Inr

lemma option_case_Inl_Inr: "(case x of Some e \<Rightarrow> Inl e | None \<Rightarrow> y) = Inr r \<longleftrightarrow> x = None \<and> y = Inr r"
  by (cases x) auto

lemma cidr_member_canonical:
  assumes "inet_ok inet" "cidr_member inet f v k = Inr c"
  shows "f = IPV4 \<Longrightarrow> cidr4_canonical (fst c) \<and> snd c = anyCidrV6"
    and "f \<noteq> IPV4 \<Longrightarrow> cidr6_canonical (snd c) \<and> fst c = anyCidrV4"
  using assms ctl_parseCidr_canonical by (auto simp: cidr_member_Inr)

lemma parse_rule_canonical:
  assumes ok: "inet_ok inet" and p: "parse_rule inet seen v = Inr r"
  shows "apply_canonical r \<and> ar_clientRuleId r \<notin> seen"
proof -
  from p obtain cid act pri en enf lg fam dir ifc ifx pro ct cs cd src dst sp dp where
    cid: "client_id_member seen v = Inr cid" and
    act: "parsed_member ''rule.'' v ''action'' ctl_parseAction ''allow|block'' = Inr act" and
    fam: "parsed_member ''rule.'' v ''family'' parseFamily ''ipv4|ipv6'' = Inr fam" and
    dir: "parsed_member ''rule.'' v ''dir'' ctl_parseDirection ''any|in|out'' = Inr dir" and
    ifc: "parsed_member ''rule.'' v ''iface'' parseIface ''any|wifi|data|vpn|unmanaged'' = Inr ifc" and
    pro: "parsed_member ''rule.'' v ''proto'' ctl_parseProto ''any|tcp|udp|icmp|other'' = Inr pro" and
    cs: "parsed_member ''rule.ct.'' ct ''state'' ctl_parseCtState ''any|new|established|invalid'' = Inr cs" and
    cd: "parsed_member ''rule.ct.'' ct ''direction'' ctl_parseCtDirection ''any|orig|reply'' = Inr cd" and
    src: "cidr_member inet fam v ''src'' = Inr src" and
    dst: "cidr_member inet fam v ''dst'' = Inr dst" and
    sp: "parsed_member ''rule.'' v ''sport'' ctl_parsePortPredicate ''any|N|lo-hi'' = Inr sp" and
    dp: "parsed_member ''rule.'' v ''dport'' ctl_parsePortPredicate ''any|N|lo-hi'' = Inr dp" and
    pp: "port_proto_error pro sp dp = None" and
    r: "r = \<lparr>ar_clientRuleId = cid, ar_family = fam, ar_action = act, ar_priority = pri,
           ar_enabled = en, ar_enforce = enf, ar_log = lg, ar_dir = dir,
           ar_iface = ifc, ar_ifindex = ifx, ar_proto = pro, ar_src = fst src, ar_dst = fst dst,
           ar_src6 = snd src, ar_dst6 = snd dst, ar_sport = sp, ar_dport = dp,
           ar_ctState = cs, ar_ctDir = cd\<rparr>"
    unfolding parse_rule_def option_case_Inl_Inr err_bind_Inr by blast
  have fam46: "fam \<in> {IPV4, IPV6}" using fam by (auto simp: parsed_member_Inr dest: parsed_enum)
  have fields: "act \<in> {ALLOW, BLOCK}" "dir \<in> {Dir_ANY, Dir_IN, Dir_OUT}"
    "ifc \<in> {Iface_ANY, Iface_WIFI, Iface_DATA, Iface_VPN, Iface_UNMANAGED}"
    "pro \<in> {Proto_ANY, Proto_TCP, Proto_UDP, Proto_ICMP, Proto_OTHER}"
    "cs \<in> {Ct_ANY, Ct_NEW, Ct_ESTABLISHED, Ct_INVALID}" "cd \<in> {CtDir_ANY, CtDir_ORIG, CtDir_REPLY}"
    "port_canonical sp" "port_canonical dp"
    by (rule parsed_memberE [OF act], erule parsed_enum, rule parsed_memberE [OF dir], erule parsed_enum,
        rule parsed_memberE [OF ifc], erule parsed_enum, rule parsed_memberE [OF pro], erule parsed_enum,
        rule parsed_memberE [OF cs], erule parsed_enum, rule parsed_memberE [OF cd], erule parsed_enum,
        rule parsed_memberE [OF sp], erule parse_format_port, rule parsed_memberE [OF dp], erule parse_format_port)
  have cidrs: "fam = IPV4 \<and> cidr4_canonical (fst src) \<and> cidr4_canonical (fst dst) \<and> snd src = anyCidrV6 \<and> snd dst = anyCidrV6 \<or>
      fam = IPV6 \<and> cidr6_canonical (snd src) \<and> cidr6_canonical (snd dst) \<and> fst src = anyCidrV4 \<and> fst dst = anyCidrV4"
    using fam46 cidr_member_canonical [OF ok src] cidr_member_canonical [OF ok dst] by blast
  have "isValidClientRuleId cid" "cid \<notin> seen" using cid by (simp_all add: client_id_member_Inr)
  then show ?thesis
    unfolding apply_canonical_def r ApplyRule.select_convs by (intro conjI fields cidrs pp)
qed

text \<open>The members of a printed rule without its id, match key and counters.\<close>

definition rule_object :: "Inet \<Rightarrow> RuleDef \<Rightarrow> JsonValue" where
  "rule_object inet d = JObject ((''clientRuleId'', JString (rd_clientRuleId d)) # rule_fields inet d)"

lemma rule_object_members:
  "FindMember (rule_object inet d) ''clientRuleId'' = Some (JString (rd_clientRuleId d))"
  "FindMember (rule_object inet d) ''action'' = Some (JString (actionStr (rd_action d)))"
  "FindMember (rule_object inet d) ''priority'' = Some (JInt (sint (rd_priority d)))"
  "FindMember (rule_object inet d) ''enabled'' = Some (JFlag (rd_enabled d))"
  "FindMember (rule_object inet d) ''enforce'' = Some (JFlag (rd_enforce d))"
  "FindMember (rule_object inet d) ''log'' = Some (JFlag (rd_log d))"
  "FindMember (rule_object inet d) ''family'' = Some (JString (familyStr (rd_family d)))"
  "FindMember (rule_object inet d) ''dir'' = Some (JString (directionStr (rd_dir d)))"
  "FindMember (rule_object inet d) ''iface'' = Some (JString (ifaceStr (rd_iface d)))"
  "FindMember (rule_object inet d) ''ifindex'' = Some (JUint (rd_ifindex d))"
  "FindMember (rule_object inet d) ''proto'' = Some (JString (protoStr (rd_proto d)))"
  "FindMember (rule_object inet d) ''ct'' =
     Some (JObject [(''state'', JString (ctl_ctStateStr (rd_ctState d))), (''direction'', JString (ctDirStr (rd_ctDir d)))])"
  "FindMember (rule_object inet d) ''src'' = Some (JString (src_text inet d))"
  "FindMember (rule_object inet d) ''dst'' = Some (JString (dst_text inet d))"
  "FindMember (rule_object inet d) ''sport'' = Some (JString (formatPortPredicate (rd_sport d)))"
  "FindMember (rule_object inet d) ''dport'' = Some (JString (formatPortPredicate (rd_dport d)))"
  by (simp_all add: FindMember_def rule_object_def rule_fields_def)

lemma rule_object_shape: "rule_shape_error (rule_object inet d) = None"
  by (simp add: rule_shape_error_def FindMember_def findUnknownKey_def allowed_rule_keys_def rule_object_def rule_fields_def)

lemma def_of_apply_fields:
  "rd_family (def_of_apply i u r) = ar_family r" "rd_action (def_of_apply i u r) = ar_action r"
  "rd_priority (def_of_apply i u r) = ar_priority r" "rd_enabled (def_of_apply i u r) = ar_enabled r"
  "rd_enforce (def_of_apply i u r) = ar_enforce r" "rd_log (def_of_apply i u r) = ar_log r"
  "rd_dir (def_of_apply i u r) = ar_dir r" "rd_iface (def_of_apply i u r) = ar_iface r"
  "rd_ifindex (def_of_apply i u r) = ar_ifindex r" "rd_proto (def_of_apply i u r) = ar_proto r"
  "rd_src (def_of_apply i u r) = ar_src r" "rd_dst (def_of_apply i u r) = ar_dst r"
  "rd_src6 (def_of_apply i u r) = ar_src6 r" "rd_dst6 (def_of_apply i u r) = ar_dst6 r"
  "rd_sport (def_of_apply i u r) = ar_sport r" "rd_dport (def_of_apply i u r) = ar_dport r"
  "rd_ctState (def_of_apply i u r) = ar_ctState r" "rd_ctDir (def_of_apply i u r) = ar_ctDir r"
  by (simp_all add: def_of_apply_def)

lemma parse_rule_object:
  assumes ok: "inet_ok inet" and can: "apply_canonical r" and new: "ar_clientRuleId r \<notin> seen"
  shows "parse_rule inet seen (rule_object inet (def_of_apply rid uid r)) = Inr r"
proof -
  let ?d = "def_of_apply rid uid r" and ?v = "rule_object inet (def_of_apply rid uid r)"
  note M = rule_object_members [of inet ?d, unfolded def_of_apply_fields src_text_def dst_text_def]
  have fam: "ar_family r \<in> {IPV4, IPV6}" using apply_canonicalD(10) [OF can] by blast
  have ct: "ct_member ?v = Inr (JObject [(''state'', JString (ctl_ctStateStr (ar_ctState r))),
      (''direction'', JString (ctDirStr (ar_ctDir r)))])"
    using M(12) by (simp add: ct_member_def member_of_def findUnknownKey_def)
  consider (four) "ar_family r = IPV4" "cidr4_canonical (ar_src r)" "cidr4_canonical (ar_dst r)"
      "ar_src6 r = anyCidrV6" "ar_dst6 r = anyCidrV6"
    | (six) "ar_family r = IPV6" "cidr6_canonical (ar_src6 r)" "cidr6_canonical (ar_dst6 r)"
      "ar_src r = anyCidrV4" "ar_dst r = anyCidrV4"
    using apply_canonicalD(10) [OF can] by blast
  then have addrs: "cidr_member inet (ar_family r) ?v ''src'' = Inr (ar_src r, ar_src6 r) \<and>
      cidr_member inet (ar_family r) ?v ''dst'' = Inr (ar_dst r, ar_dst6 r)"
    by cases (simp_all add: cidr_member_Inr M(13,14) ctl_parseCidrV4_format [OF ok] ctl_parseCidrV6_format [OF ok])
  note src = addrs [THEN conjunct1] and dst = addrs [THEN conjunct2]
  have enums: "ctl_parseAction (actionStr (ar_action r)) = Some (ar_action r)"
      "parseFamily (familyStr (ar_family r)) = Some (ar_family r)"
      "ctl_parseDirection (directionStr (ar_dir r)) = Some (ar_dir r)"
      "parseIface (ifaceStr (ar_iface r)) = Some (ar_iface r)"
      "ctl_parseProto (protoStr (ar_proto r)) = Some (ar_proto r)"
      "ctl_parseCtState (ctl_ctStateStr (ar_ctState r)) = Some (ar_ctState r)"
      "ctl_parseCtDirection (ctDirStr (ar_ctDir r)) = Some (ar_ctDir r)"
      "ctl_parsePortPredicate (formatPortPredicate (ar_sport r)) = Some (ar_sport r)"
      "ctl_parsePortPredicate (formatPortPredicate (ar_dport r)) = Some (ar_dport r)"
    by (rule parse_print_enum parse_format_port, rule apply_canonicalD [OF can] fam)+
  have strings: "client_id_member seen ?v = Inr (ar_clientRuleId r)"
      "parsed_member ''rule.'' ?v ''action'' ctl_parseAction ''allow|block'' = Inr (ar_action r)"
      "parsed_member ''rule.'' ?v ''family'' parseFamily ''ipv4|ipv6'' = Inr (ar_family r)"
      "parsed_member ''rule.'' ?v ''dir'' ctl_parseDirection ''any|in|out'' = Inr (ar_dir r)"
      "parsed_member ''rule.'' ?v ''iface'' parseIface ''any|wifi|data|vpn|unmanaged'' = Inr (ar_iface r)"
      "parsed_member ''rule.'' ?v ''proto'' ctl_parseProto ''any|tcp|udp|icmp|other'' = Inr (ar_proto r)"
      "parsed_member ''rule.'' ?v ''sport'' ctl_parsePortPredicate ''any|N|lo-hi'' = Inr (ar_sport r)"
      "parsed_member ''rule.'' ?v ''dport'' ctl_parsePortPredicate ''any|N|lo-hi'' = Inr (ar_dport r)"
    using apply_canonicalD(1) [OF can] new enums by (simp_all add: client_id_member_Inr parsed_member_Inr M)
  have vals: "valued_member ?v ''priority'' GetInt ''i32'' = Inr (ar_priority r)"
      "valued_member ?v ''enabled'' isValidToggleValue ''0|1'' = Inr (if ar_enabled r then 1 else 0)"
      "valued_member ?v ''enforce'' isValidToggleValue ''0|1'' = Inr (if ar_enforce r then 1 else 0)"
      "valued_member ?v ''log'' isValidToggleValue ''0|1'' = Inr (if ar_log r then 1 else 0)"
      "valued_member ?v ''ifindex'' GetUint ''u32'' = Inr (ar_ifindex r)"
    by (simp_all add: valued_member_Inr get_flags M del: GetInt.simps)
  have ctm: "parsed_member ''rule.ct.'' (JObject [(''state'', JString (ctl_ctStateStr (ar_ctState r))),
        (''direction'', JString (ctDirStr (ar_ctDir r)))]) ''state'' ctl_parseCtState ''any|new|established|invalid'' =
        Inr (ar_ctState r)"
      "parsed_member ''rule.ct.'' (JObject [(''state'', JString (ctl_ctStateStr (ar_ctState r))),
        (''direction'', JString (ctDirStr (ar_ctDir r)))]) ''direction'' ctl_parseCtDirection ''any|orig|reply'' =
        Inr (ar_ctDir r)"
    using enums by (simp_all add: parsed_member_Inr FindMember_def)
  have "port_proto_error (ar_proto r) (ar_sport r) (ar_dport r) = None" by (rule apply_canonicalD [OF can])
  then show ?thesis
    unfolding parse_rule_def rule_object_shape strings vals ct err_bind_simps option.case ctm src dst by simp
qed

section \<open>Accepted rules are well-formed\<close>

lemma cidr_canonical_wf: "cidr4_canonical c \<Longrightarrow> cidr4_wf c" "cidr6_canonical c6 \<Longrightarrow> cidr6_wf c6"
  by (auto simp: cidr4_canonical_def cidr4_wf_def anyCidrV4_def cidrV4_def cidr6_canonical_def cidr6_wf_def
      anyCidrV6_def cidrV6_def zero_ip6_def length_mask_ip6)

lemma apply_canonical_wf:
  assumes "apply_canonical r" shows "apply_wf r"
proof -
  note D = apply_canonicalD [OF assms]
  have any: "cidr4_wf anyCidrV4" "cidr6_wf anyCidrV6"
    by (simp_all add: cidr4_wf_def cidr6_wf_def anyCidrV4_def anyCidrV6_def zero_ip6_def)
  then have "cidr4_wf (ar_src r) \<and> cidr4_wf (ar_dst r) \<and> cidr6_wf (ar_src6 r) \<and> cidr6_wf (ar_dst6 r)"
    using D(10) cidr_canonical_wf by metis
  then show ?thesis unfolding apply_wf_def using D(3) port_canonical_wf [OF D(8)] port_canonical_wf [OF D(9)] by blast
qed

lemma parse_rules_canonical:
  assumes "inet_ok inet"
  shows "parse_rules inet seen vs = Inr rs \<Longrightarrow>
    length rs = length vs \<and> (\<forall>r \<in> set rs. apply_canonical r \<and> ar_clientRuleId r \<notin> seen) \<and>
    distinct (map ar_clientRuleId rs)"
proof (induction vs arbitrary: seen rs)
  case (Cons v vs)
  then obtain r rs' where r: "parse_rule inet seen v = Inr r"
    and rs': "parse_rules inet (insert (ar_clientRuleId r) seen) vs = Inr rs'" and rs: "rs = r # rs'"
    by (auto simp: err_bind_Inr)
  from Cons.IH [OF rs'] parse_rule_canonical [OF assms r] show ?case by (auto simp: rs)
qed simp

lemma distinct_of_counts: "\<forall>k \<in> set xs. \<not> 1 < length (filter ((=) k) xs) \<Longrightarrow> distinct xs"
proof (induction xs)
  case (Cons x xs)
  have "filter ((=) x) xs = []" using Cons.prems by simp
  then have "x \<notin> set xs" by (auto simp: filter_empty_conv)
  moreover have "\<forall>k \<in> set xs. \<not> 1 < length (filter ((=) k) xs)" using Cons.prems by (auto split: if_splits)
  ultimately show ?case using Cons.IH by simp
qed simp

lemma no_duplicated_keys: "duplicatedMatchKeys inet rules = [] \<Longrightarrow> distinct (map (apply_matchKeyMk2 inet) rules)"
proof (rule distinct_of_counts)
  let ?ks = "map (apply_matchKeyMk2 inet) rules"
  assume "duplicatedMatchKeys inet rules = []"
  then have "filter (\<lambda>k. 1 < length (filter ((=) k) ?ks)) (remdups ?ks) = []"
    by (metis duplicatedMatchKeys_def length_0_conv length_std_sort)
  then show "\<forall>k \<in> set ?ks. \<not> 1 < length (filter ((=) k) ?ks)"
    unfolding filter_empty_conv set_remdups .
qed

section \<open>Responses\<close>

definition error_reply :: "u32 \<Rightarrow> JsonValue \<Rightarrow> bool" where
  "error_reply n resp \<longleftrightarrow> (\<exists>c m ms. resp = add_error_members ms (makeErrorResponse n c m))"

lemma error_replyI [intro, simp]:
  "error_reply n (makeErrorResponse n c m)"
  "error_reply n (add_error_members ms (makeErrorResponse n c m))"
  unfolding error_reply_def by (rule exI [of _ c], rule exI [of _ m], rule exI [of _ "[]"], simp add: makeErrorResponse_def) blast

lemma error_reply_parses:
  "error_reply n resp \<Longrightarrow> \<exists>v. parseResponseEnvelope resp = Inr \<lparr>rs_id = n, rs_ok = False, rs_result = None, rs_error = Some v\<rparr>"
  by (auto simp: error_reply_def makeErrorResponse_def parseResponseEnvelope_def findUnknownKey_def
      FindMember_def response_payload_error_def)

lemma resolve_error: "resolveAppSelector n sel p = Inl resp \<Longrightarrow> error_reply n resp"
  by (auto simp: resolveAppSelector_def selector_not_found_def Let_def split: option.splits if_splits)

lemma app_arg_error: "app_arg n args = Inl resp \<Longrightarrow> error_reply n resp"
  by (auto simp: app_arg_def split: option.splits if_splits)

lemma app_arg_Inr: "app_arg n args = Inr sel \<Longrightarrow> FindMember args ''app'' = Some sel"
  by (auto simp: app_arg_def split: option.splits if_splits)

lemma unknown_args_error: "unknown_args n args ks = Some resp \<Longrightarrow> error_reply n resp"
  by (auto simp: unknown_args_def)

definition same_policy :: "Engine \<Rightarrow> Engine \<Rightarrow> bool" where
  "same_policy e e' \<longleftrightarrow>
     eng_rules e' = eng_rules e \<and> eng_nextRuleId e' = eng_nextRuleId e \<and>
     eng_rulesEpoch e' = eng_rulesEpoch e \<and> eng_snapshot e' = eng_snapshot e \<and>
     eng_lastPreflight e' = eng_lastPreflight e \<and> eng_file e' = eng_file e \<and>
     (\<forall>rid. statsSnapshot e' rid = statsSnapshot e rid)"

lemma same_policy_refl [simp]: "same_policy e e"
  by (simp add: same_policy_def)

lemma same_policy_refused:
  assumes "eng_inv e" "replaceRulesForUid uid rules e = (res, e')" "\<not> res_ok res"
  shows "same_policy e e'"
  using refused_exec [OF assms(1), of "\<lambda>_. None" "ReplaceRules uid rules"] assms(2,3)
  by (simp add: same_policy_def)

definition committed_json :: "Inet \<Rightarrow> u32 \<Rightarrow> Engine \<Rightarrow> JsonValue" where
  "committed_json inet uid e =
     JObject [(''uid'', JUint uid),
              (''rules'', JArray (map (committed_item inet) (std_sort ruleIdLess (listRules e (Some uid) None))))]"

lemma apply_rules_cases:
  assumes inv: "eng_inv e" and ap: "apply_rules inet n uid items e = (resp, e')"
  obtains (committed) rules where "parse_rules inet {} items = Inr rules" "distinct (map (apply_matchKeyMk2 inet) rules)"
      "replace_spec uid rules e e'" "e' = snd (replaceRulesForUid uid rules e)"
      "resp = makeOkResponse n (Some (committed_json inet uid e'))"
    | (refused) "error_reply n resp" "same_policy e e'"
        "e' = e \<or> (\<exists>rules. parse_rules inet {} items = Inr rules \<and> e' = snd (replaceRulesForUid uid rules e))"
proof (cases "parse_rules inet {} items")
  case (Inl err)
  then show thesis using ap refused by (auto simp: apply_rules_def env_response_def)
next
  case (Inr rules)
  show thesis
  proof (cases "duplicatedMatchKeys inet rules = []")
    case False
    then show thesis using ap refused Inr by (auto simp: apply_rules_def conflict_response_def Let_def)
  next
    case True
    obtain res e1 where op: "replaceRulesForUid uid rules e = (res, e1)" by fastforce
    show thesis
    proof (cases "res_ok res")
      case ok: True
      then have "e' = e1" "resp = makeOkResponse n (Some (committed_json inet uid e1))"
        using ap Inr True op by (auto simp: apply_rules_def Let_def committed_json_def)
      then show thesis
        using committed [OF Inr no_duplicated_keys [OF True]] replace_meets_spec [OF inv op ok] op by simp
    next
      case bad: False
      then have "e' = e1" "error_reply n resp"
        using ap Inr True op by (auto simp: apply_rules_def Let_def)
      then show thesis using refused same_policy_refused [OF inv op bad] Inr op by force
    qed
  qed
qed

lemma handle_apply_cases:
  assumes inv: "eng_inv e" and ap: "handle_apply inet p n args e = (resp, e')"
  obtains (committed) sel a items rules where "FindMember args ''app'' = Some sel"
      "resolveAppSelector n sel p = Inr a" "FindMember args ''rules'' = Some (JArray items)"
      "parse_rules inet {} items = Inr rules" "distinct (map (apply_matchKeyMk2 inet) rules)"
      "replace_spec (a_uid (p_appHeap p a)) rules e e'"
      "e' = snd (replaceRulesForUid (a_uid (p_appHeap p a)) rules e)"
      "resp = makeOkResponse n (Some (committed_json inet (a_uid (p_appHeap p a)) e'))"
    | (refused) "error_reply n resp" "same_policy e e'"
        "e' = e \<or> (\<exists>uid items rules. FindMember args ''rules'' = Some (JArray items) \<and>
           parse_rules inet {} items = Inr rules \<and> e' = snd (replaceRulesForUid uid rules e))"
proof (cases "unknown_args n args [''app'', ''rules'']")
  case (Some r)
  then show thesis using ap refused unknown_args_error by (auto simp: handle_apply_def)
next
  case None
  show thesis
  proof (cases "app_arg n args")
    case (Inl r)
    then show thesis using ap refused None app_arg_error by (auto simp: handle_apply_def)
  next
    case (Inr sel)
    show thesis
    proof (cases "\<exists>items. FindMember args ''rules'' = Some (JArray items)")
      case False
      then have "error_reply n resp \<and> e' = e"
        using ap None Inr by (auto simp: handle_apply_def split: option.splits JsonValue.splits)
      then show thesis using refused by simp
    next
      case True
      then obtain items where items: "FindMember args ''rules'' = Some (JArray items)" by blast
      show thesis
      proof (cases "resolveAppSelector n sel p")
        case (Inl r)
        then show thesis using ap None Inr items refused resolve_error by (auto simp: handle_apply_def)
      next
        case res: (Inr a)
        then have "apply_rules inet n (a_uid (p_appHeap p a)) items e = (resp, e')"
          using ap None Inr items by (simp add: handle_apply_def)
        then show thesis
          by (cases rule: apply_rules_cases [OF inv])
            (use committed [OF app_arg_Inr [OF Inr] res items] refused items in blast)+
      qed
    qed
  qed
qed

section \<open>Concrete instances\<close>

text \<open>A notation for addresses that satisfies what is relied on: decimal for IPv4, two letters for
  each byte of IPv6.\<close>

definition nibbles :: "u8 \<Rightarrow> string" where
  "nibbles b = [char_of (97 + unat b div 16), char_of (97 + unat b mod 16)]"

fun unnibble :: "string \<Rightarrow> u8 list option" where
  "unnibble [] = Some []"
| "unnibble [_] = None"
| "unnibble (a # b # s) =
     map_option ((#) (of_nat ((of_char a - 97) * 16 + (of_char b - 97)))) (unnibble s)"

definition ex_inet :: Inet where
  "ex_inet =
     \<lparr>pton4 = (\<lambda>s. map_option of_nat (parseDecU 32 s)), ntop4 = (\<lambda>a. Some (dec_string (unat a))),
      pton6 = (\<lambda>s. case unnibble s of Some a \<Rightarrow> if length a = 16 then Some a else None | None \<Rightarrow> None),
      ntop6 = (\<lambda>a. Some (concat (map nibbles a)))\<rparr>"

lemma unnibble_nibbles: "unnibble (concat (map nibbles a)) = Some a"
proof (induction a)
  case (Cons b a)
  have "unat b < 2 ^ LENGTH(8)" by (rule unsigned_less)
  then have hi: "unat b div 16 < 16" and lo: "unat b mod 16 < 16" by simp_all
  then have "(of_char (char_of (97 + unat b div 16)) :: nat) = 97 + unat b div 16"
    "(of_char (char_of (97 + unat b mod 16)) :: nat) = 97 + unat b mod 16"
    by simp_all
  then have "unnibble (concat (map nibbles (b # a))) =
      map_option ((#) (of_nat (unat b div 16 * 16 + unat b mod 16))) (unnibble (concat (map nibbles a)))"
    by (simp only: nibbles_def list.map concat.simps append.simps unnibble.simps add_diff_cancel_left')
  moreover have "(of_nat (unat b div 16 * 16 + unat b mod 16) :: u8) = b" by (simp only: div_mult_mod_eq) simp
  ultimately show ?case using Cons by (simp only: option.map)
qed simp

lemma nibbles_no_slash: "CHR ''/'' \<notin> set (concat (map nibbles a))"
proof -
  have C: "char_of n \<noteq> CHR ''/''" if "97 \<le> n" "n < 256" for n :: nat
  proof
    assume "char_of n = CHR ''/''"
    then have "(of_char (char_of n) :: nat) = of_char CHR ''/''" by simp
    then show False using that by simp
  qed
  have "CHR ''/'' \<notin> set (nibbles b)" for b
  proof -
    have "unat b < 2 ^ LENGTH(8)" by (rule unsigned_less)
    then have "unat b div 16 < 16" "unat b mod 16 < 16" by simp_all
    then have "char_of (97 + unat b div 16) \<noteq> CHR ''/''" "char_of (97 + unat b mod 16) \<noteq> CHR ''/''"
      by (intro C; linarith)+
    then show ?thesis by (auto simp: nibbles_def)
  qed
  then show ?thesis by simp
qed

lemma ex_inet_ok: "inet_ok ex_inet"
proof -
  have "\<exists>s. ntop4 ex_inet a = Some s \<and> s \<noteq> [] \<and> CHR ''/'' \<notin> set s \<and> pton4 ex_inet s = Some a" for a
  proof -
    have "unat a < 2 ^ LENGTH(32)" by (rule unsigned_less)
    then have "parseDecU 32 (dec_string (unat a)) = Some (unat a)" by (intro parseDecU_dec_string) simp
    moreover have "CHR ''/'' \<notin> set (dec_string (unat a))" by (rule dec_string_no_sep) (simp add: digit_val_def)
    ultimately show ?thesis by (simp add: ex_inet_def)
  qed
  moreover have "\<exists>s. ntop6 ex_inet a = Some s \<and> s \<noteq> [] \<and> CHR ''/'' \<notin> set s \<and> pton6 ex_inet s = Some a"
    if "length a = 16" for a
  proof -
    have "concat (map nibbles a) \<noteq> []" using that by (cases a) (simp_all add: nibbles_def)
    then show ?thesis using that nibbles_no_slash [of a] by (simp add: ex_inet_def unnibble_nibbles)
  qed
  moreover have "pton6 ex_inet s = Some a \<Longrightarrow> length a = 16" for s a
    by (auto simp: ex_inet_def split: option.splits if_splits)
  ultimately show ?thesis unfolding inet_ok_def by blast
qed

definition ex_ctl_policy :: Policy where
  "ex_ctl_policy = install True 0 10001 [''com.x''] no_apps"

definition ex_rule_json :: "string \<Rightarrow> string \<Rightarrow> JsonValue" where
  "ex_rule_json cid dport =
     JObject [(''clientRuleId'', JString cid), (''action'', JString ''block''), (''priority'', JInt 10),
       (''enabled'', JInt 1), (''enforce'', JInt 1), (''log'', JInt 0), (''family'', JString ''ipv4''),
       (''dir'', JString ''out''), (''iface'', JString ''wifi''), (''ifindex'', JInt 0), (''proto'', JString ''tcp''),
       (''ct'', JObject [(''state'', JString ''any''), (''direction'', JString ''any'')]), (''src'', JString ''any''),
       (''dst'', JString ''16909060/24''), (''sport'', JString ''any''), (''dport'', JString dport)]"

definition ex_args :: "JsonValue list \<Rightarrow> JsonValue" where
  "ex_args rules = JObject [(''app'', JObject [(''uid'', JInt 10001)]), (''rules'', JArray rules)]"

definition ex_request :: RequestView where
  "ex_request = \<lparr>rq_id = 5, rq_cmd = ''IPRULES.APPLY'', rq_args = ex_args [ex_rule_json ''a'' ''443'']\<rparr>"

section \<open>Properties\<close>

text \<open>The control protocol's copies of the field parsers and printers agree with the engine's own:
  the same texts are accepted with the same meaning, fields print alike, and the match key a PRINT or
  APPLY reports for a stored rule is the one the explanation of a decision shows for it.\<close>

theorem control_text_agrees_with_engine:
  "ctl_parseAction t = parseAction t \<and> ctl_parseDirection t = parseDirection t \<and> parseIface t = parseIfaceKind t \<and>
   ctl_parseProto t = parseProto t \<and> ctl_parseCtState t = parseCtState t \<and>
   ctl_parseCtDirection t = parseCtDirection t \<and> ctl_parsePortPredicate t = parsePortPredicate t \<and>
   ctl_parseCidrV4 inet t = parseCidrV4 (pton4 inet) t \<and>
   (rd_proto (st_def s) \<noteq> Proto_UNKNOWN \<longrightarrow>
     (rd_family (st_def s) = IPV4 \<longrightarrow> def_matchKeyMk2 inet (st_def s) =
        rs_matchKey (ruleSnapshot ''ipv4'' (normalizeCidrV4 (ntop4 inet)) (makeRefV4 s))) \<and>
     (rd_family (st_def s) = IPV6 \<longrightarrow> def_matchKeyMk2 inet (st_def s) =
        rs_matchKey (ruleSnapshot ''ipv6'' (normalizeCidrV6 (ntop6 inet)) (makeRefV6 s))))"
  using match_key_agrees [of s inet] by (simp add: ctl_parse_agrees ctl_parseCidrV4_agrees ruleSnapshot_def)

theorem control_text_agrees_with_engine_witness:
  "def_matchKeyMk2 ex_inet (st_def ex_s0) =
     rs_matchKey (ruleSnapshot ''ipv4'' (normalizeCidrV4 (ntop4 ex_inet)) (makeRefV4 ex_s0))"
proof -
  have "rd_proto (st_def ex_s0) \<noteq> Proto_UNKNOWN" "rd_family (st_def ex_s0) = IPV4"
    by (simp_all add: ex_s0_def ex_apply_def def_of_apply_def)
  then show ?thesis using control_text_agrees_with_engine [of "[]" ex_inet ex_s0] by simp
qed

text \<open>C30. What is printed can be applied again: for every rule that APPLY accepts, under whatever id
  and uid the engine stores it, the fields PRINT shows for the stored rule (all but the id, the match
  key and the counters, which APPLY refuses) are read back as the very same rule.\<close>

theorem printed_rule_reads_back:
  assumes "inet_ok inet" and "parse_rule inet seen v = Inr r"
  shows "parse_rule inet seen (rule_object inet (def_of_apply rid uid r)) = Inr r"
  using parse_rule_object [OF assms(1)] parse_rule_canonical [OF assms] by blast

theorem printed_rule_reads_back_witness:
  "\<exists>r. parse_rule ex_inet {} (ex_rule_json ''a'' ''443'') = Inr r \<and>
       parse_rule ex_inet {} (rule_object ex_inet (def_of_apply 3 10001 r)) = Inr r"
proof -
  have "case parse_rule ex_inet {} (ex_rule_json ''a'' ''443'') of Inl _ \<Rightarrow> False | Inr _ \<Rightarrow> True" by code_simp
  then obtain r where r: "parse_rule ex_inet {} (ex_rule_json ''a'' ''443'') = Inr r" by (auto split: sum.splits)
  show ?thesis using printed_rule_reads_back [OF ex_inet_ok r] r by blast
qed

text \<open>C16. The APPLY command, whatever its arguments: the reply is a well-formed response to the request.
  When it reports success, the arguments selected a registered app and gave a list of rules all of
  which were read, no two with the same match key; the rules of that app's uid are now these rules as
  the engine's replacement promises, those of other uids untouched; and the reply lists the committed
  rules with their ids and match keys. When it reports an error, nothing observable of the policy
  changed.\<close>

theorem apply_command_contract:
  assumes "eng_inv e" and "handle_apply inet p n args e = (resp, e')"
  shows "\<exists>r. parseResponseEnvelope resp = Inr r \<and> rs_id r = n \<and>
    (if rs_ok r then
       \<exists>sel a items rules. FindMember args ''app'' = Some sel \<and> resolveAppSelector n sel p = Inr a \<and>
         FindMember args ''rules'' = Some (JArray items) \<and> parse_rules inet {} items = Inr rules \<and>
         distinct (map (apply_matchKeyMk2 inet) rules) \<and>
         replace_spec (a_uid (p_appHeap p a)) rules e e' \<and>
         rs_result r = Some (committed_json inet (a_uid (p_appHeap p a)) e')
     else same_policy e e')"
proof (cases rule: handle_apply_cases [OF assms])
  case (1 sel a items rules)
  then show ?thesis by (auto simp: parse_makeOkResponse)
next
  case 2
  then show ?thesis using error_reply_parses [of n resp] by auto
qed

theorem apply_command_contract_witness:
  "\<exists>a rules. replace_spec (a_uid (p_appHeap ex_ctl_policy a)) rules ex_e1
     (snd (handle_apply ex_inet ex_ctl_policy 5 (ex_args [ex_rule_json ''a'' ''443'']) ex_e1))"
proof -
  let ?out = "handle_apply ex_inet ex_ctl_policy 5 (ex_args [ex_rule_json ''a'' ''443'']) ex_e1"
  from apply_command_contract [OF ex_e1_inv prod.collapse [of ?out, symmetric]]
  obtain r where r: "parseResponseEnvelope (fst ?out) = Inr r"
    and c: "rs_ok r \<Longrightarrow> \<exists>a rules. replace_spec (a_uid (p_appHeap ex_ctl_policy a)) rules ex_e1 (snd ?out)"
    by (auto split: if_splits)
  have "(case parseResponseEnvelope (fst ?out) of Inl _ \<Rightarrow> False | Inr r \<Rightarrow> rs_ok r)" by code_simp
  then show ?thesis using r c by simp
qed

text \<open>C21. Every command of the protocol keeps the engine within the states its guarantees are about:
  whatever a client sends, the rules that reach the engine are well-formed, so an engine state reached
  by admissible commands is still such a state afterwards (as long as the id space is not exhausted).\<close>

theorem commands_keep_engine_reachable:
  assumes "engine_run pton e" and "inet_ok inet"
    and "\<forall>items. FindMember (rq_args req) ''rules'' = Some (JArray items) \<longrightarrow>
           unat (eng_nextRuleId e) + length items < 2 ^ 32"
  shows "engine_run pton (snd (handleIpRulesCommand inet p req e))"
proof -
  have inv: "eng_inv e" by (rule engine_reach_inv [OF engine_run_reach [OF assms(1)]])
  have step: "engine_run pton (snd (replaceRulesForUid uid rules e))"
    if "FindMember (rq_args req) ''rules'' = Some (JArray items)" "parse_rules inet {} items = Inr rules" for uid items rules
  proof -
    have "admissible (ReplaceRules uid rules) e"
      using parse_rules_canonical [OF assms(2) that(2)] assms(3) that(1) by (auto intro: apply_canonical_wf)
    from run_step [OF assms(1) this] show ?thesis by simp
  qed
  obtain resp e' where ap: "handle_apply inet p (rq_id req) (rq_args req) e = (resp, e')" by fastforce
  have "engine_run pton e'"
    by (cases rule: handle_apply_cases [OF inv ap]) (use step assms(1) in blast)+
  then show ?thesis using assms(1) ap by (simp add: handleIpRulesCommand_def)
qed

theorem commands_keep_engine_reachable_witness:
  "engine_run noAddr (snd (handleIpRulesCommand ex_inet ex_ctl_policy ex_request ex_e1)) \<and>
   length (eng_rules (snd (handleIpRulesCommand ex_inet ex_ctl_policy ex_request ex_e1))) = 1"
proof
  show "engine_run noAddr (snd (handleIpRulesCommand ex_inet ex_ctl_policy ex_request ex_e1))"
    by (rule commands_keep_engine_reachable [OF ex_e1_run ex_inet_ok])
      (simp add: ex_request_def ex_args_def FindMember_def ex_e1_next)
  show "length (eng_rules (snd (handleIpRulesCommand ex_inet ex_ctl_policy ex_request ex_e1))) = 1"
    by code_simp
qed

end
