(* ===== verification/ControlStreams.thy ===== *)
theory ControlStreams
  imports StatsCounters "HOL-Library.Sublist"
begin

text \<open>
  The event streams of the control protocol: \<^verbatim>\<open>ControlVNextStreamManager.hpp\<close> and
  \<^verbatim>\<open>ControlVNextStreamManager.cpp\<close>. The manager keeps one state per stream type under its own lock;
  the packet and the domain stream have the same fields and the source repeats the same code for
  both, so both are a \<open>StreamState\<close> over the type of their events. A session key is the pointer of the
  session, zero being \<^verbatim>\<open>nullptr\<close>. Every operation that the source runs under the lock of a stream is one
  step on that stream's state; the clock a start or an observation reads is an argument.
\<close>

section \<open>Data\<close>

datatype StreamType = Stream_Dns | Stream_Pkt | Stream_Activity

record Caps =
  maxHorizonSec :: u32
  maxRingEvents :: u32
  maxPendingEvents :: u32

record StartParams =
  sp_type :: StreamType
  sp_horizonSec :: u32
  sp_minSize :: u32
  sp_blockEnabled :: bool

record StartResult =
  effectiveHorizonSec :: u32
  effectiveMinSize :: u32

text \<open>An event of the packet or the domain stream: the seconds of its timestamp and its body.\<close>

record 'e StreamEvent =
  se_tv_sec :: int
  se_body :: 'e

record ActivityEvent =
  ae_tv_sec :: int
  ae_blockEnabled :: bool

record 'e StreamState =
  ss_subscriber :: u64
  ss_ring :: "'e StreamEvent list"
  ss_pending :: "'e StreamEvent list"
  ss_subscribed :: bool
  ss_suppressed :: TrafficCounters
  ss_dropped :: u64

record ActivityState =
  as_subscriber :: u64
  as_pending :: "ActivityEvent list"
  as_subscribed :: bool
  as_lastBlockEnabled :: bool

record ('d, 'p) StreamManager =
  sm_caps :: Caps
  sm_dns :: "'d StreamState"
  sm_pkt :: "'p StreamState"
  sm_activity :: ActivityState

definition stream_new :: "'e StreamState" where
  "stream_new =
     \<lparr>ss_subscriber = 0, ss_ring = [], ss_pending = [], ss_subscribed = False,
      ss_suppressed = traffic_reset, ss_dropped = 0\<rparr>"

definition newStreamManager :: "Caps \<Rightarrow> ('d, 'p) StreamManager" where
  "newStreamManager caps =
     \<lparr>sm_caps = caps, sm_dns = stream_new, sm_pkt = stream_new,
      sm_activity = \<lparr>as_subscriber = 0, as_pending = [], as_subscribed = False,
                     as_lastBlockEnabled = False\<rparr>\<rparr>"

definition controlVNextStream :: "('d, 'p) StreamManager" where
  "controlVNextStream =
     newStreamManager \<lparr>maxHorizonSec = 300, maxRingEvents = 256, maxPendingEvents = 256\<rparr>"

section \<open>Helpers\<close>

definition inHorizon :: "'e StreamEvent \<Rightarrow> int \<Rightarrow> u32 \<Rightarrow> bool" where
  "inHorizon event now horizonSec =
     (if horizonSec = 0 then False else now - se_tv_sec event < uint horizonSec)"

definition clampStartParams :: "Caps \<Rightarrow> u32 \<Rightarrow> u32 \<Rightarrow> u32 \<times> u32" where
  "clampStartParams caps horizonSec minSize =
     (min horizonSec (maxHorizonSec caps), min minSize (maxRingEvents caps))"

text \<open>The loops \<^verbatim>\<open>while (q.size() > max) q.pop_front()\<close>, the second with the counter of dropped events.\<close>

fun popWhileLong :: "nat \<Rightarrow> 'a list \<Rightarrow> 'a list" where
  "popWhileLong m [] = []"
| "popWhileLong m (x # xs) = (if m < length (x # xs) then popWhileLong m xs else x # xs)"

fun dropWhileLong :: "nat \<Rightarrow> 'a list \<Rightarrow> u64 \<Rightarrow> 'a list \<times> u64" where
  "dropWhileLong m [] n = ([], n)"
| "dropWhileLong m (x # xs) n = (if m < length (x # xs) then dropWhileLong m xs (n + 1) else (x # xs, n))"

definition pushRing :: "'e list \<Rightarrow> u32 \<Rightarrow> 'e \<Rightarrow> 'e list" where
  "pushRing ring maxEvents event = popWhileLong (unat maxEvents) (ring @ [event])"

definition pushPending :: "'e list \<Rightarrow> u32 \<Rightarrow> u64 \<Rightarrow> 'e \<Rightarrow> 'e list \<times> u64" where
  "pushPending pending maxEvents droppedEvents event =
     dropWhileLong (unat maxEvents) (pending @ [event]) droppedEvents"

fun firstInHorizon :: "'e StreamEvent list \<Rightarrow> nat \<Rightarrow> int \<Rightarrow> u32 \<Rightarrow> nat" where
  "firstInHorizon [] i now horizonSec = i"
| "firstInHorizon (e # es) i now horizonSec =
     (if inHorizon e now horizonSec then i else firstInHorizon es (i + 1) now horizonSec)"

definition replayStartIndexForUnion :: "'e StreamEvent list \<Rightarrow> int \<Rightarrow> u32 \<Rightarrow> u32 \<Rightarrow> nat" where
  "replayStartIndexForUnion ring now horizonSec minSize =
     (let n = length ring;
          minSizeStart = (if minSize = 0 then n else if n \<le> unat minSize then 0 else n - unat minSize);
          horizonStart = (if horizonSec \<noteq> 0 then firstInHorizon ring 0 now horizonSec else n)
      in min minSizeStart horizonStart)"

section \<open>One stream\<close>

definition pushPendingEvent :: "Caps \<Rightarrow> 'e StreamEvent \<Rightarrow> 'e StreamState \<Rightarrow> 'e StreamState" where
  "pushPendingEvent caps event s =
     (case pushPending (ss_pending s) (maxPendingEvents caps) (ss_dropped s) event of
        (pending, dropped) \<Rightarrow> s\<lparr>ss_pending := pending, ss_dropped := dropped\<rparr>)"

definition stream_start ::
    "Caps \<Rightarrow> u64 \<Rightarrow> u32 \<Rightarrow> u32 \<Rightarrow> int \<Rightarrow> 'e StreamState \<Rightarrow> bool \<times> 'e StreamState" where
  "stream_start caps key horizon minSize now s =
     (if ss_subscriber s \<noteq> 0 \<and> ss_subscriber s \<noteq> key then (False, s)
      else
        let s1 = s\<lparr>ss_subscriber := key, ss_pending := [], ss_dropped := 0,
                   ss_suppressed := traffic_reset, ss_subscribed := True\<rparr>;
            startIdx = replayStartIndexForUnion (ss_ring s) now horizon minSize
        in (True, fold (pushPendingEvent caps) (drop startIdx (ss_ring s)) s1))"

definition stream_release :: "'e StreamState \<Rightarrow> 'e StreamState" where
  "stream_release s =
     s\<lparr>ss_subscriber := 0, ss_subscribed := False, ss_pending := [], ss_dropped := 0,
       ss_suppressed := traffic_reset\<rparr>"

definition stream_reset :: "'e StreamState \<Rightarrow> 'e StreamState" where
  "stream_reset s = (stream_release s)\<lparr>ss_ring := []\<rparr>"

definition stream_stop :: "u64 \<Rightarrow> 'e StreamState \<Rightarrow> 'e StreamState" where
  "stream_stop key s = (if ss_subscriber s = key then stream_reset s else s)"

definition stream_detach :: "u64 \<Rightarrow> 'e StreamState \<Rightarrow> 'e StreamState" where
  "stream_detach key s = (if ss_subscriber s = key then stream_release s else s)"

definition stream_pop :: "u64 \<Rightarrow> 'e StreamState \<Rightarrow> 'e StreamEvent option \<times> 'e StreamState" where
  "stream_pop key s =
     (if ss_subscriber s \<noteq> key then (None, s)
      else case ss_pending s of
             [] \<Rightarrow> (None, s)
           | e # es \<Rightarrow> (Some e, s\<lparr>ss_pending := es\<rparr>))"

definition stream_observe :: "Caps \<Rightarrow> 'e StreamEvent \<Rightarrow> 'e StreamState \<Rightarrow> 'e StreamState" where
  "stream_observe caps event s =
     (let s1 = s\<lparr>ss_ring := pushRing (ss_ring s) (maxRingEvents caps) event\<rparr>
      in if ss_subscribed s1 then pushPendingEvent caps event s1 else s1)"

definition stream_suppressed :: "(TrafficCounters \<Rightarrow> TrafficCounters) \<Rightarrow> 'e StreamState \<Rightarrow> 'e StreamState" where
  "stream_suppressed f s =
     (if \<not> ss_subscribed s then s else s\<lparr>ss_suppressed := f (ss_suppressed s)\<rparr>)"

section \<open>The manager\<close>

text \<open>The effective horizon and size are written before the conflict is looked for.\<close>

definition stream_manager_start ::
    "u64 \<Rightarrow> StartParams \<Rightarrow> int \<Rightarrow> ('d, 'p) StreamManager \<Rightarrow> bool \<times> StartResult \<times> ('d, 'p) StreamManager" where
  "stream_manager_start key params now m =
     (case sp_type params of
        Stream_Dns \<Rightarrow>
          (case clampStartParams (sm_caps m) (sp_horizonSec params) (sp_minSize params) of (horizon, minSize) \<Rightarrow>
           case stream_start (sm_caps m) key horizon minSize now (sm_dns m) of (ok, s) \<Rightarrow>
             (ok, \<lparr>effectiveHorizonSec = horizon, effectiveMinSize = minSize\<rparr>, m\<lparr>sm_dns := s\<rparr>))
      | Stream_Pkt \<Rightarrow>
          (case clampStartParams (sm_caps m) (sp_horizonSec params) (sp_minSize params) of (horizon, minSize) \<Rightarrow>
           case stream_start (sm_caps m) key horizon minSize now (sm_pkt m) of (ok, s) \<Rightarrow>
             (ok, \<lparr>effectiveHorizonSec = horizon, effectiveMinSize = minSize\<rparr>, m\<lparr>sm_pkt := s\<rparr>))
      | Stream_Activity \<Rightarrow>
          let a = sm_activity m; out = \<lparr>effectiveHorizonSec = 0, effectiveMinSize = 0\<rparr> in
          if as_subscriber a \<noteq> 0 \<and> as_subscriber a \<noteq> key then (False, out, m)
          else
            (True, out,
             m\<lparr>sm_activity :=
                 \<lparr>as_subscriber = key,
                  as_pending = popWhileLong (unat (maxPendingEvents (sm_caps m)))
                    [\<lparr>ae_tv_sec = now, ae_blockEnabled = sp_blockEnabled params\<rparr>],
                  as_subscribed = True, as_lastBlockEnabled = sp_blockEnabled params\<rparr>\<rparr>))"

definition activity_release :: "ActivityState \<Rightarrow> ActivityState" where
  "activity_release a = a\<lparr>as_subscriber := 0, as_subscribed := False, as_pending := []\<rparr>"

definition activity_stop :: "u64 \<Rightarrow> ActivityState \<Rightarrow> ActivityState" where
  "activity_stop key a = (if as_subscriber a = key then activity_release a else a)"

definition stream_manager_stop :: "u64 \<Rightarrow> ('d, 'p) StreamManager \<Rightarrow> ('d, 'p) StreamManager" where
  "stream_manager_stop key m =
     m\<lparr>sm_dns := stream_stop key (sm_dns m), sm_pkt := stream_stop key (sm_pkt m),
       sm_activity := activity_stop key (sm_activity m)\<rparr>"

definition stream_manager_detach :: "u64 \<Rightarrow> ('d, 'p) StreamManager \<Rightarrow> ('d, 'p) StreamManager" where
  "stream_manager_detach key m =
     m\<lparr>sm_dns := stream_detach key (sm_dns m), sm_pkt := stream_detach key (sm_pkt m),
       sm_activity := activity_stop key (sm_activity m)\<rparr>"

definition stream_manager_resetAll :: "('d, 'p) StreamManager \<Rightarrow> ('d, 'p) StreamManager" where
  "stream_manager_resetAll m =
     m\<lparr>sm_dns := stream_reset (sm_dns m), sm_pkt := stream_reset (sm_pkt m),
       sm_activity := activity_release (sm_activity m)\<rparr>"

definition ownsSubscription :: "u64 \<Rightarrow> StreamType \<Rightarrow> ('d, 'p) StreamManager \<Rightarrow> bool" where
  "ownsSubscription key ty m =
     (case ty of
        Stream_Dns \<Rightarrow> ss_subscriber (sm_dns m) = key \<and> ss_subscribed (sm_dns m)
      | Stream_Pkt \<Rightarrow> ss_subscriber (sm_pkt m) = key \<and> ss_subscribed (sm_pkt m)
      | Stream_Activity \<Rightarrow> as_subscriber (sm_activity m) = key \<and> as_subscribed (sm_activity m))"

definition popDnsPending :: "u64 \<Rightarrow> ('d, 'p) StreamManager \<Rightarrow> 'd StreamEvent option \<times> ('d, 'p) StreamManager" where
  "popDnsPending key m = (case stream_pop key (sm_dns m) of (e, s) \<Rightarrow> (e, m\<lparr>sm_dns := s\<rparr>))"

definition popPktPending :: "u64 \<Rightarrow> ('d, 'p) StreamManager \<Rightarrow> 'p StreamEvent option \<times> ('d, 'p) StreamManager" where
  "popPktPending key m = (case stream_pop key (sm_pkt m) of (e, s) \<Rightarrow> (e, m\<lparr>sm_pkt := s\<rparr>))"

definition popActivityPending :: "u64 \<Rightarrow> ('d, 'p) StreamManager \<Rightarrow> ActivityEvent option \<times> ('d, 'p) StreamManager" where
  "popActivityPending key m =
     (let a = sm_activity m in
      if as_subscriber a \<noteq> key then (None, m)
      else case as_pending a of
             [] \<Rightarrow> (None, m)
           | e # es \<Rightarrow> (Some e, m\<lparr>sm_activity := a\<lparr>as_pending := es\<rparr>\<rparr>))"

definition takeSuppressedTraffic ::
    "StreamType \<Rightarrow> ('d, 'p) StreamManager \<Rightarrow> (StatType \<Rightarrow> u64 \<times> u64) \<times> ('d, 'p) StreamManager" where
  "takeSuppressedTraffic ty m =
     (case ty of
        Stream_Dns \<Rightarrow> (case takeAndReset (ss_suppressed (sm_dns m)) of (snap, t) \<Rightarrow>
                         (snap, m\<lparr>sm_dns := (sm_dns m)\<lparr>ss_suppressed := t\<rparr>\<rparr>))
      | Stream_Pkt \<Rightarrow> (case takeAndReset (ss_suppressed (sm_pkt m)) of (snap, t) \<Rightarrow>
                         (snap, m\<lparr>sm_pkt := (sm_pkt m)\<lparr>ss_suppressed := t\<rparr>\<rparr>))
      | Stream_Activity \<Rightarrow> ((\<lambda>_. (0, 0)), m))"

definition takeDroppedEvents :: "StreamType \<Rightarrow> ('d, 'p) StreamManager \<Rightarrow> u64 \<times> ('d, 'p) StreamManager" where
  "takeDroppedEvents ty m =
     (case ty of
        Stream_Dns \<Rightarrow> (ss_dropped (sm_dns m), m\<lparr>sm_dns := (sm_dns m)\<lparr>ss_dropped := 0\<rparr>\<rparr>)
      | Stream_Pkt \<Rightarrow> (ss_dropped (sm_pkt m), m\<lparr>sm_pkt := (sm_pkt m)\<lparr>ss_dropped := 0\<rparr>\<rparr>)
      | Stream_Activity \<Rightarrow> (0, m))"

definition observeDnsTracked :: "'d StreamEvent \<Rightarrow> ('d, 'p) StreamManager \<Rightarrow> ('d, 'p) StreamManager" where
  "observeDnsTracked event m = m\<lparr>sm_dns := stream_observe (sm_caps m) event (sm_dns m)\<rparr>"

definition observeDnsSuppressed :: "bool \<Rightarrow> ('d, 'p) StreamManager \<Rightarrow> ('d, 'p) StreamManager" where
  "observeDnsSuppressed blocked m = m\<lparr>sm_dns := stream_suppressed (observeDns blocked) (sm_dns m)\<rparr>"

definition observePktTracked :: "'p StreamEvent \<Rightarrow> ('d, 'p) StreamManager \<Rightarrow> ('d, 'p) StreamManager" where
  "observePktTracked event m = m\<lparr>sm_pkt := stream_observe (sm_caps m) event (sm_pkt m)\<rparr>"

definition observePktSuppressed ::
    "bool \<Rightarrow> bool \<Rightarrow> u64 \<Rightarrow> ('d, 'p) StreamManager \<Rightarrow> ('d, 'p) StreamManager" where
  "observePktSuppressed inbound accepted bytes m =
     m\<lparr>sm_pkt := stream_suppressed (observePacket inbound accepted bytes) (sm_pkt m)\<rparr>"

definition observeBlockEnabled :: "bool \<Rightarrow> int \<Rightarrow> ('d, 'p) StreamManager \<Rightarrow> ('d, 'p) StreamManager" where
  "observeBlockEnabled enabled now m =
     (let a = (sm_activity m)\<lparr>as_lastBlockEnabled := enabled\<rparr> in
      if \<not> as_subscribed a then m\<lparr>sm_activity := a\<rparr>
      else if as_subscriber a = 0 then m\<lparr>sm_activity := a\<rparr>
      else m\<lparr>sm_activity := a\<lparr>as_pending := popWhileLong (unat (maxPendingEvents (sm_caps m)))
               (as_pending a @ [\<lparr>ae_tv_sec = now, ae_blockEnabled = enabled\<rparr>])\<rparr>\<rparr>)"

section \<open>Runs\<close>

datatype ('d, 'p) StreamCall =
  SC_Start u64 StartParams int | SC_Stop u64 | SC_Detach u64 | SC_ResetAll
| SC_PopDns u64 | SC_PopPkt u64 | SC_PopActivity u64
| SC_TakeSuppressed StreamType | SC_TakeDropped StreamType
| SC_DnsTracked "'d StreamEvent" | SC_DnsSuppressed bool
| SC_PktTracked "'p StreamEvent" | SC_PktSuppressed bool bool u64
| SC_BlockEnabled bool int

datatype ('d, 'p) StreamReply =
  SR_None | SR_Started bool StartResult | SR_Dns "'d StreamEvent option" | SR_Pkt "'p StreamEvent option"
| SR_Activity "ActivityEvent option" | SR_Traffic StreamType "StatType \<Rightarrow> u64 \<times> u64" | SR_Dropped StreamType u64

fun stream_call ::
    "('d, 'p) StreamCall \<Rightarrow> ('d, 'p) StreamManager \<Rightarrow> ('d, 'p) StreamReply \<times> ('d, 'p) StreamManager" where
  "stream_call (SC_Start key params now) m =
     (case stream_manager_start key params now m of (ok, out, m') \<Rightarrow> (SR_Started ok out, m'))"
| "stream_call (SC_Stop key) m = (SR_None, stream_manager_stop key m)"
| "stream_call (SC_Detach key) m = (SR_None, stream_manager_detach key m)"
| "stream_call SC_ResetAll m = (SR_None, stream_manager_resetAll m)"
| "stream_call (SC_PopDns key) m = map_prod SR_Dns id (popDnsPending key m)"
| "stream_call (SC_PopPkt key) m = map_prod SR_Pkt id (popPktPending key m)"
| "stream_call (SC_PopActivity key) m = map_prod SR_Activity id (popActivityPending key m)"
| "stream_call (SC_TakeSuppressed ty) m = map_prod (SR_Traffic ty) id (takeSuppressedTraffic ty m)"
| "stream_call (SC_TakeDropped ty) m = map_prod (SR_Dropped ty) id (takeDroppedEvents ty m)"
| "stream_call (SC_DnsTracked e) m = (SR_None, observeDnsTracked e m)"
| "stream_call (SC_DnsSuppressed b) m = (SR_None, observeDnsSuppressed b m)"
| "stream_call (SC_PktTracked e) m = (SR_None, observePktTracked e m)"
| "stream_call (SC_PktSuppressed i a n) m = (SR_None, observePktSuppressed i a n m)"
| "stream_call (SC_BlockEnabled b now) m = (SR_None, observeBlockEnabled b now m)"

text \<open>A sequence of calls with their replies, in the order in which the locks serialise them.\<close>

fun stream_run ::
    "('d, 'p) StreamCall list \<Rightarrow> ('d, 'p) StreamManager \<Rightarrow> ('d, 'p) StreamReply list \<times> ('d, 'p) StreamManager" where
  "stream_run [] m = ([], m)"
| "stream_run (c # cs) m =
     (case stream_call c m of (r, m1) \<Rightarrow>
      case stream_run cs m1 of (rs, m2) \<Rightarrow> (r # rs, m2))"

section \<open>Facts about one stream\<close>

lemma popWhileLong_drop: "popWhileLong m xs = drop (length xs - m) xs"
proof (induction m xs rule: popWhileLong.induct)
  case (2 m x xs)
  show ?case
  proof (cases "m < length (x # xs)")
    case True
    then have "length (x # xs) - m = Suc (length xs - m)" by simp
    then show ?thesis using 2 True by simp
  qed simp
qed simp

lemma dropWhileLong_drop: "dropWhileLong m xs n = (drop (length xs - m) xs, n + of_nat (length xs - m))"
proof (induction m xs n rule: dropWhileLong.induct)
  case (2 m x xs n)
  show ?case
  proof (cases "m < length (x # xs)")
    case True
    then have "length (x # xs) - m = Suc (length xs - m)" by simp
    then show ?thesis using 2 True by (simp add: add.assoc)
  qed simp
qed simp

lemma length_pushRing: "length (pushRing r n e) \<le> unat n"
  by (simp add: pushRing_def popWhileLong_drop)

lemma pushPendingEvent_simps [simp]:
  "ss_subscriber (pushPendingEvent caps e s) = ss_subscriber s"
  "ss_subscribed (pushPendingEvent caps e s) = ss_subscribed s"
  "ss_ring (pushPendingEvent caps e s) = ss_ring s"
  by (simp_all add: pushPendingEvent_def split: prod.split)

lemma fold_pushPendingEvent_simps [simp]:
  "ss_subscriber (fold (pushPendingEvent caps) es s) = ss_subscriber s"
  "ss_subscribed (fold (pushPendingEvent caps) es s) = ss_subscribed s"
  "ss_ring (fold (pushPendingEvent caps) es s) = ss_ring s"
  by (induction es arbitrary: s) simp_all

text \<open>What a stream keeps: the queues within their limits, the flag with the subscriber, and nothing
  queued or counted for nobody.\<close>

definition stream_wf :: "Caps \<Rightarrow> 'e StreamState \<Rightarrow> bool" where
  "stream_wf caps s \<longleftrightarrow>
     length (ss_ring s) \<le> unat (maxRingEvents caps) \<and>
     length (ss_pending s) \<le> unat (maxPendingEvents caps) \<and>
     (ss_subscribed s \<longleftrightarrow> ss_subscriber s \<noteq> 0) \<and>
     (\<not> ss_subscribed s \<longrightarrow> ss_pending s = [] \<and> ss_dropped s = 0 \<and> ss_suppressed s = traffic_reset)"

definition activity_wf :: "Caps \<Rightarrow> ActivityState \<Rightarrow> bool" where
  "activity_wf caps a \<longleftrightarrow>
     length (as_pending a) \<le> unat (maxPendingEvents caps) \<and>
     (as_subscribed a \<longleftrightarrow> as_subscriber a \<noteq> 0) \<and>
     (\<not> as_subscribed a \<longrightarrow> as_pending a = [])"

lemma stream_wf_push:
  assumes "stream_wf caps s" "ss_subscribed s" shows "stream_wf caps (pushPendingEvent caps e s)"
  using assms by (simp add: stream_wf_def pushPendingEvent_def pushPending_def dropWhileLong_drop)

lemma stream_wf_fold_push:
  "stream_wf caps s \<Longrightarrow> ss_subscribed s \<Longrightarrow> stream_wf caps (fold (pushPendingEvent caps) es s)"
  by (induction es arbitrary: s) (simp_all add: stream_wf_push)

lemma stream_wf_start:
  assumes wf: "stream_wf caps s" and key: "key \<noteq> 0"
  shows "stream_wf caps (snd (stream_start caps key h n now s))"
proof (cases "ss_subscriber s \<noteq> 0 \<and> ss_subscriber s \<noteq> key")
  case False
  have "stream_wf caps (s\<lparr>ss_subscriber := key, ss_pending := [], ss_dropped := 0,
      ss_suppressed := traffic_reset, ss_subscribed := True\<rparr>)"
    using wf key by (simp add: stream_wf_def)
  from stream_wf_fold_push [OF this] show ?thesis using False by (auto simp: stream_start_def Let_def)
qed (simp add: stream_start_def wf)

lemma stream_wf_release:
  "stream_wf caps s \<Longrightarrow> stream_wf caps (stream_release s)"
  "stream_wf caps s \<Longrightarrow> stream_wf caps (stream_reset s)"
  by (simp_all add: stream_wf_def stream_release_def stream_reset_def)

lemma stream_wf_pop: "stream_wf caps s \<Longrightarrow> stream_wf caps (snd (stream_pop key s))"
  by (auto simp: stream_wf_def stream_pop_def split: list.splits)

lemma stream_wf_popD: "stream_pop key s = (e, s') \<Longrightarrow> stream_wf caps s \<Longrightarrow> stream_wf caps s'"
  by (metis snd_conv stream_wf_pop)

lemma stream_wf_observe: "stream_wf caps s \<Longrightarrow> stream_wf caps (stream_observe caps e s)"
proof -
  assume wf: "stream_wf caps s"
  define s1 where "s1 = s\<lparr>ss_ring := pushRing (ss_ring s) (maxRingEvents caps) e\<rparr>"
  have "stream_wf caps s1" using wf length_pushRing by (simp add: stream_wf_def s1_def)
  then show ?thesis by (auto simp: stream_observe_def Let_def simp flip: s1_def intro: stream_wf_push)
qed

lemma stream_wf_suppressed: "stream_wf caps s \<Longrightarrow> stream_wf caps (stream_suppressed f s)"
  by (simp add: stream_wf_def stream_suppressed_def)

lemma stream_wf_take:
  "stream_wf caps s \<Longrightarrow> stream_wf caps (s\<lparr>ss_dropped := 0\<rparr>)"
  "stream_wf caps s \<Longrightarrow> stream_wf caps (s\<lparr>ss_suppressed := traffic_reset\<rparr>)"
  by (simp_all add: stream_wf_def)

lemmas stream_wf_intros = stream_wf_start stream_wf_release stream_wf_pop stream_wf_observe
  stream_wf_suppressed stream_wf_take

definition manager_wf :: "('d, 'p) StreamManager \<Rightarrow> bool" where
  "manager_wf m \<longleftrightarrow>
     stream_wf (sm_caps m) (sm_dns m) \<and> stream_wf (sm_caps m) (sm_pkt m) \<and>
     activity_wf (sm_caps m) (sm_activity m)"

text \<open>Sessions are objects: their keys are not null.\<close>

fun call_key :: "('d, 'p) StreamCall \<Rightarrow> u64" where
  "call_key (SC_Start key _ _) = key"
| "call_key (SC_Stop key) = key"
| "call_key (SC_Detach key) = key"
| "call_key (SC_PopDns key) = key"
| "call_key (SC_PopPkt key) = key"
| "call_key (SC_PopActivity key) = key"
| "call_key _ = 1"

lemma stream_call_caps [simp]: "sm_caps (snd (stream_call c m)) = sm_caps m"
  by (cases "(c, m)" rule: stream_call.cases)
    (auto simp: stream_manager_start_def stream_manager_stop_def stream_manager_detach_def
      stream_manager_resetAll_def popDnsPending_def popPktPending_def popActivityPending_def
      takeSuppressedTraffic_def takeDroppedEvents_def observeDnsTracked_def observeDnsSuppressed_def
      observePktTracked_def observePktSuppressed_def observeBlockEnabled_def Let_def
      split: StreamType.splits prod.splits list.splits)

section \<open>One stream of the manager\<close>

text \<open>A call seen from one of the two event streams: the step its state takes, with the events handed
  to the caller and the dropped count taken.\<close>

datatype 'e StreamStep =
  St_Start u64 u32 u32 int | St_Stop u64 | St_Detach u64 | St_Reset | St_Pop u64
| St_TakeDropped | St_TakeSuppressed | St_Observe "'e StreamEvent"
| St_Suppressed "TrafficCounters \<Rightarrow> TrafficCounters" | St_Other

fun stream_step :: "Caps \<Rightarrow> 'e StreamStep \<Rightarrow> 'e StreamState \<Rightarrow> 'e StreamEvent list \<times> u64 \<times> 'e StreamState" where
  "stream_step caps (St_Start key h n now) s =
     (case clampStartParams caps h n of (h', n') \<Rightarrow> ([], 0, snd (stream_start caps key h' n' now s)))"
| "stream_step caps (St_Stop key) s = ([], 0, stream_stop key s)"
| "stream_step caps (St_Detach key) s = ([], 0, stream_detach key s)"
| "stream_step caps St_Reset s = ([], 0, stream_reset s)"
| "stream_step caps (St_Pop key) s =
     (case stream_pop key s of (e, s') \<Rightarrow> (case e of None \<Rightarrow> [] | Some x \<Rightarrow> [x], 0, s'))"
| "stream_step caps St_TakeDropped s = ([], ss_dropped s, s\<lparr>ss_dropped := 0\<rparr>)"
| "stream_step caps St_TakeSuppressed s = ([], 0, s\<lparr>ss_suppressed := traffic_reset\<rparr>)"
| "stream_step caps (St_Observe e) s = ([], 0, stream_observe caps e s)"
| "stream_step caps (St_Suppressed f) s = ([], 0, stream_suppressed f s)"
| "stream_step caps St_Other s = ([], 0, s)"

fun step_key :: "'e StreamStep \<Rightarrow> u64" where
  "step_key (St_Start key _ _ _) = key"
| "step_key (St_Stop key) = key"
| "step_key (St_Detach key) = key"
| "step_key _ = 1"

text \<open>The steps that neither end the subscription of \<open>key\<close> nor begin it anew.\<close>

fun step_keeps :: "u64 \<Rightarrow> 'e StreamStep \<Rightarrow> bool" where
  "step_keeps key (St_Start k _ _ _) = (k \<noteq> key)"
| "step_keeps key (St_Stop k) = (k \<noteq> key)"
| "step_keeps key (St_Detach k) = (k \<noteq> key)"
| "step_keeps key St_Reset = False"
| "step_keeps key _ = True"

fun step_observed :: "'e StreamStep \<Rightarrow> 'e StreamEvent list" where
  "step_observed (St_Observe e) = [e]"
| "step_observed _ = []"

lemma stream_step_wf:
  assumes "stream_wf caps s" "step_key st \<noteq> 0"
  shows "stream_wf caps (snd (snd (stream_step caps st s)))"
  using assms
  by (cases "(caps, st, s)" rule: stream_step.cases)
    (auto simp: stream_stop_def stream_detach_def intro: stream_wf_intros
      dest: stream_wf_popD split: prod.splits)

text \<open>What has been offered to a subscriber was removed from the front of the queue, in order, or is
  still pending; what he got is a part of the removed, in order, and the rest of it was counted.\<close>

definition queue_history ::
    "'e StreamEvent list \<Rightarrow> 'e StreamEvent list \<Rightarrow> u64 \<Rightarrow> 'e StreamState \<Rightarrow> bool" where
  "queue_history offered got taken s \<longleftrightarrow>
     (\<exists>removed. offered = removed @ ss_pending s \<and> subseq got removed \<and>
        of_nat (length removed) = of_nat (length got) + taken + ss_dropped s)"

definition owned :: "u64 \<Rightarrow> 'e StreamState \<Rightarrow> bool" where
  "owned key s \<longleftrightarrow> key \<noteq> 0 \<and> ss_subscriber s = key \<and> ss_subscribed s"

lemma queue_history_push:
  assumes "queue_history offered got taken s"
  shows "queue_history (offered @ [e]) got taken (pushPendingEvent caps e s)"
proof -
  from assms obtain removed where r: "offered = removed @ ss_pending s" "subseq got removed"
      "of_nat (length removed) = of_nat (length got) + taken + ss_dropped s"
    by (auto simp: queue_history_def)
  let ?q = "ss_pending s @ [e]"
  define n where "n = length ?q - unat (maxPendingEvents caps)"
  have n: "n \<le> length ?q" by (simp add: n_def)
  have S: "pushPendingEvent caps e s = s\<lparr>ss_pending := drop n ?q, ss_dropped := ss_dropped s + of_nat n\<rparr>"
    by (simp only: pushPendingEvent_def pushPending_def dropWhileLong_drop n_def prod.case)
  have "offered @ [e] = (removed @ take n ?q) @ drop n ?q"
    by (simp only: append.assoc append_take_drop_id r(1))
  moreover have "subseq got (removed @ take n ?q)" using r(2) by (rule subseq_rev_drop_many)
  moreover have "of_nat (length (removed @ take n ?q)) = of_nat (length got) + taken + (ss_dropped s + of_nat n)"
  proof -
    have "length (take n ?q) = n" using n by (simp only: length_take min.absorb2)
    then show ?thesis using r(3) by (simp only: length_append of_nat_add add.assoc)
  qed
  ultimately show ?thesis unfolding S queue_history_def by fastforce
qed

lemma queue_history_fold_push:
  "queue_history offered got taken s \<Longrightarrow>
   queue_history (offered @ es) got taken (fold (pushPendingEvent caps) es s)"
proof (induction es arbitrary: offered s)
  case (Cons e es)
  from Cons.IH [OF queue_history_push [OF Cons.prems]] show ?case by simp
qed simp

lemma queue_history_cong:
  "queue_history offered got taken s \<Longrightarrow> ss_pending s' = ss_pending s \<Longrightarrow> ss_dropped s' = ss_dropped s \<Longrightarrow>
   queue_history offered got taken s'"
  by (simp add: queue_history_def)

lemma queue_history_pop:
  assumes h: "queue_history offered got taken s" and p: "ss_pending s = e # es"
  shows "queue_history offered (got @ [e]) taken (s\<lparr>ss_pending := es\<rparr>)"
proof -
  from h obtain removed where r: "offered = removed @ e # es" "subseq got removed"
      "of_nat (length removed) = of_nat (length got) + taken + ss_dropped s"
    by (auto simp: queue_history_def p)
  then have "offered = (removed @ [e]) @ es" "subseq (got @ [e]) (removed @ [e])"
    "of_nat (length (removed @ [e])) = of_nat (length (got @ [e])) + taken + ss_dropped s"
    by (simp_all add: add.assoc)
  then show ?thesis unfolding queue_history_def by fastforce
qed

lemma queue_history_step:
  assumes h: "queue_history offered got taken s" and o: "owned key s" and k: "step_keeps key st"
    and st: "stream_step caps st s = (p, t, s')"
  shows "queue_history (offered @ step_observed st) (got @ p) (taken + t) s' \<and> owned key s'"
proof (cases st)
  case (St_Pop k')
  show ?thesis
  proof (cases "k' = key \<and> ss_pending s \<noteq> []")
    case True
    then obtain e es where p': "ss_pending s = e # es" by (auto simp: neq_Nil_conv)
    then show ?thesis using st St_Pop True o queue_history_pop [OF h p']
      by (auto simp: stream_pop_def owned_def)
  next
    case False
    then show ?thesis using st St_Pop o h
      by (auto simp: stream_pop_def owned_def split: list.splits)
  qed
next
  case St_TakeDropped
  then show ?thesis using st o h by (auto simp: queue_history_def owned_def add.assoc)
next
  case (St_Observe e)
  define s1 where "s1 = s\<lparr>ss_ring := pushRing (ss_ring s) (maxRingEvents caps) e\<rparr>"
  have s1: "s' = pushPendingEvent caps e s1" "owned key s1"
    using st St_Observe o by (auto simp: stream_observe_def Let_def owned_def s1_def)
  have "queue_history offered got taken s1" using h by (rule queue_history_cong) (simp_all add: s1_def)
  from queue_history_push [OF this, of e caps] show ?thesis
    using St_Observe st s1 by (simp add: owned_def)
qed (use st o h k in \<open>auto simp: stream_start_def stream_stop_def stream_detach_def stream_suppressed_def
      owned_def queue_history_def clampStartParams_def\<close>)

lemma stream_start_history:
  assumes "stream_start caps key h n now s = (True, s')" "key \<noteq> 0"
  shows "queue_history (drop (replayStartIndexForUnion (ss_ring s) now h n) (ss_ring s)) [] 0 s' \<and> owned key s'"
proof -
  define s1 where "s1 = s\<lparr>ss_subscriber := key, ss_pending := [], ss_dropped := 0,
      ss_suppressed := traffic_reset, ss_subscribed := True\<rparr>"
  let ?es = "drop (replayStartIndexForUnion (ss_ring s) now h n) (ss_ring s)"
  have s': "s' = fold (pushPendingEvent caps) ?es s1"
    using assms by (auto simp: stream_start_def Let_def s1_def split: if_splits)
  have "queue_history [] [] 0 s1" by (simp add: queue_history_def s1_def)
  from queue_history_fold_push [OF this, of ?es caps] show ?thesis
    using assms(2) by (simp add: s' owned_def s1_def)
qed

section \<open>The contract of an event stream\<close>

text \<open>An event stream of the manager: where its state is, the step a call takes on it, and what a
  reply hands over.\<close>

locale event_stream =
  fixes st :: "('d, 'p) StreamManager \<Rightarrow> 'e StreamState"
    and step :: "('d, 'p) StreamCall \<Rightarrow> 'e StreamStep"
    and got :: "('d, 'p) StreamReply \<Rightarrow> 'e StreamEvent list"
    and taken :: "('d, 'p) StreamReply \<Rightarrow> u64"
  assumes call: "stream_step (sm_caps m) (step c) (st m) =
      (got (fst (stream_call c m)), taken (fst (stream_call c m)), st (snd (stream_call c m)))"
    and key: "call_key c \<noteq> 0 \<Longrightarrow> step_key (step c) \<noteq> 0"
begin

lemma call_wf:
  "stream_wf (sm_caps m) (st m) \<Longrightarrow> call_key c \<noteq> 0 \<Longrightarrow> stream_wf (sm_caps m) (st (snd (stream_call c m)))"
  using stream_step_wf [OF _ key, of "sm_caps m" "st m" c] call [of m c] by simp

lemma run_history:
  assumes "queue_history offered gs t (st m)" "owned k (st m)"
    "\<forall>c \<in> set cs. step_keeps k (step c)" "stream_run cs m = (rs, m')"
  shows "queue_history (offered @ concat (map (step_observed \<circ> step) cs)) (gs @ concat (map got rs))
           (t + sum_list (map taken rs)) (st m') \<and> owned k (st m')"
  using assms
proof (induction cs arbitrary: m offered gs t rs)
  case Nil
  then show ?case by simp
next
  case (Cons c cs)
  obtain r m1 where c: "stream_call c m = (r, m1)" by fastforce
  obtain rs' where rs: "stream_run cs m1 = (rs', m')" "rs = r # rs'"
    using Cons.prems(4) c by (auto split: prod.splits)
  have "stream_step (sm_caps m) (step c) (st m) = (got r, taken r, st m1)" using call [of m c] c by simp
  from queue_history_step [OF Cons.prems(1,2) _ this] Cons.prems(3)
  have h: "queue_history (offered @ step_observed (step c)) (gs @ got r) (t + taken r) (st m1)" "owned k (st m1)"
    by auto
  from Cons.IH [OF h _ rs(1)] Cons.prems(3) show ?case by (simp add: rs(2) add.assoc)
qed

end

fun dns_step :: "('d, 'p) StreamCall \<Rightarrow> 'd StreamStep" where
  "dns_step (SC_Start key params now) =
     (if sp_type params = Stream_Dns then St_Start key (sp_horizonSec params) (sp_minSize params) now else St_Other)"
| "dns_step (SC_Stop key) = St_Stop key"
| "dns_step (SC_Detach key) = St_Detach key"
| "dns_step SC_ResetAll = St_Reset"
| "dns_step (SC_PopDns key) = St_Pop key"
| "dns_step (SC_TakeSuppressed ty) = (if ty = Stream_Dns then St_TakeSuppressed else St_Other)"
| "dns_step (SC_TakeDropped ty) = (if ty = Stream_Dns then St_TakeDropped else St_Other)"
| "dns_step (SC_DnsTracked e) = St_Observe e"
| "dns_step (SC_DnsSuppressed b) = St_Suppressed (observeDns b)"
| "dns_step _ = St_Other"

fun pkt_step :: "('d, 'p) StreamCall \<Rightarrow> 'p StreamStep" where
  "pkt_step (SC_Start key params now) =
     (if sp_type params = Stream_Pkt then St_Start key (sp_horizonSec params) (sp_minSize params) now else St_Other)"
| "pkt_step (SC_Stop key) = St_Stop key"
| "pkt_step (SC_Detach key) = St_Detach key"
| "pkt_step SC_ResetAll = St_Reset"
| "pkt_step (SC_PopPkt key) = St_Pop key"
| "pkt_step (SC_TakeSuppressed ty) = (if ty = Stream_Pkt then St_TakeSuppressed else St_Other)"
| "pkt_step (SC_TakeDropped ty) = (if ty = Stream_Pkt then St_TakeDropped else St_Other)"
| "pkt_step (SC_PktTracked e) = St_Observe e"
| "pkt_step (SC_PktSuppressed i a n) = St_Suppressed (observePacket i a n)"
| "pkt_step _ = St_Other"

fun got_dns :: "('d, 'p) StreamReply \<Rightarrow> 'd StreamEvent list" where
  "got_dns (SR_Dns (Some e)) = [e]"
| "got_dns _ = []"

fun got_pkt :: "('d, 'p) StreamReply \<Rightarrow> 'p StreamEvent list" where
  "got_pkt (SR_Pkt (Some e)) = [e]"
| "got_pkt _ = []"

fun taken_dropped :: "StreamType \<Rightarrow> ('d, 'p) StreamReply \<Rightarrow> u64" where
  "taken_dropped ty (SR_Dropped ty' n) = (if ty' = ty then n else 0)"
| "taken_dropped ty _ = 0"

lemmas stream_manager_defs = stream_manager_start_def stream_manager_stop_def stream_manager_detach_def
  stream_manager_resetAll_def popDnsPending_def popPktPending_def popActivityPending_def
  takeSuppressedTraffic_def takeDroppedEvents_def observeDnsTracked_def observeDnsSuppressed_def
  observePktTracked_def observePktSuppressed_def observeBlockEnabled_def

interpretation dns_stream: event_stream sm_dns dns_step got_dns "taken_dropped Stream_Dns"
proof
  fix m :: "('d, 'p) StreamManager" and c :: "('d, 'p) StreamCall"
  show "stream_step (sm_caps m) (dns_step c) (sm_dns m) =
      (got_dns (fst (stream_call c m)), taken_dropped Stream_Dns (fst (stream_call c m)),
       sm_dns (snd (stream_call c m)))"
    by (cases c) (auto simp: stream_manager_defs takeAndReset_def Let_def
        split: StreamType.splits prod.splits list.splits option.splits)
  show "call_key c \<noteq> 0 \<Longrightarrow> step_key (dns_step c) \<noteq> 0" by (cases c) auto
qed

interpretation pkt_stream: event_stream sm_pkt pkt_step got_pkt "taken_dropped Stream_Pkt"
proof
  fix m :: "('d, 'p) StreamManager" and c :: "('d, 'p) StreamCall"
  show "stream_step (sm_caps m) (pkt_step c) (sm_pkt m) =
      (got_pkt (fst (stream_call c m)), taken_dropped Stream_Pkt (fst (stream_call c m)),
       sm_pkt (snd (stream_call c m)))"
    by (cases c) (auto simp: stream_manager_defs takeAndReset_def Let_def
        split: StreamType.splits prod.splits list.splits option.splits)
  show "call_key c \<noteq> 0 \<Longrightarrow> step_key (pkt_step c) \<noteq> 0" by (cases c) auto
qed

section \<open>Guarantees\<close>

lemma activity_call_wf:
  assumes "activity_wf (sm_caps m) (sm_activity m)" "call_key c \<noteq> 0"
  shows "activity_wf (sm_caps m) (sm_activity (snd (stream_call c m)))"
  using assms
  by (cases c) (auto simp: stream_manager_defs activity_wf_def activity_stop_def activity_release_def
      popWhileLong_drop Let_def split: StreamType.splits prod.splits list.splits)

lemma manager_run_wf:
  "manager_wf m \<Longrightarrow> \<forall>c \<in> set cs. call_key c \<noteq> 0 \<Longrightarrow>
   manager_wf (snd (stream_run cs m)) \<and> sm_caps (snd (stream_run cs m)) = sm_caps m"
proof (induction cs arbitrary: m)
  case (Cons c cs)
  have "manager_wf (snd (stream_call c m))"
    using Cons.prems dns_stream.call_wf [of m c] pkt_stream.call_wf [of m c] activity_call_wf [of m c]
    by (simp add: manager_wf_def)
  from Cons.IH [OF this] Cons.prems(2) show ?case by (simp split: prod.splits) (metis snd_conv stream_call_caps)
qed simp

lemma manager_wf_new: "manager_wf (newStreamManager caps)"
  by (simp add: manager_wf_def newStreamManager_def stream_wf_def stream_new_def activity_wf_def)

lemma owns_iff:
  assumes "manager_wf m"
  shows "fst (stream_manager_start key params now m) \<longleftrightarrow>
         \<not> (\<exists>other. other \<noteq> key \<and> ownsSubscription other (sp_type params) m)"
  using assms
  by (cases "sp_type params")
    (auto simp: stream_manager_start_def ownsSubscription_def manager_wf_def stream_wf_def activity_wf_def
      stream_start_def Let_def split: prod.splits)


definition stream_example_calls :: "(nat, nat) StreamCall list" where
  "stream_example_calls =
     [SC_PktTracked \<lparr>se_tv_sec = 5, se_body = 1\<rparr>, SC_PktTracked \<lparr>se_tv_sec = 9, se_body = 2\<rparr>,
      SC_Start 7 \<lparr>sp_type = Stream_Pkt, sp_horizonSec = 3, sp_minSize = 0, sp_blockEnabled = False\<rparr> 10,
      SC_PktTracked \<lparr>se_tv_sec = 11, se_body = 3\<rparr>, SC_PopPkt 7]"


lemma pkt_observed: "concat (map (step_observed \<circ> pkt_step) cs) = [e. SC_PktTracked e \<leftarrow> cs]"
proof (induction cs)
  case (Cons c cs)
  then show ?case by (cases c) auto
qed simp

lemma pkt_got: "concat (map got_pkt rs) = [e. SR_Pkt (Some e) \<leftarrow> rs]"
proof (induction rs)
  case (Cons r rs)
  then show ?case by (cases r) (auto split: option.splits)
qed simp

lemma pkt_taken: "sum_list (map (taken_dropped Stream_Pkt) rs) = sum_list [n. SR_Dropped Stream_Pkt n \<leftarrow> rs]"
proof (induction rs)
  case (Cons r rs)
  then show ?case by (cases r) (auto split: StreamType.splits)
qed simp



end
