(* ===== verification/CheckpointBundle.thy ===== *)
theory CheckpointBundle
  imports ControlCodec AppOps
begin

text \<open>
  Policy checkpoints, the document (\<^verbatim>\<open>src/src/PolicyCheckpoint.hpp\<close>, \<^verbatim>\<open>PolicyCheckpoint.cpp\<close>): the bundle of everything
  the policy consists of, its JSON form and the readers of that form. A reader returns the error status, or the value
  that the source writes to its output parameter. JSON values are those of \<open>ControlCodec\<close>.
\<close>

section \<open>Status\<close>

record CpError =
  ce_code :: string
  ce_message :: string

definition errStatus :: "string \<Rightarrow> string \<Rightarrow> CpError + 'a" where
  "errStatus code message = Inl \<lparr>ce_code = code, ce_message = message\<rparr>"

text \<open>\<^verbatim>\<open>if (auto st = ...; !st.ok) return st;\<close> before the rest.\<close>

definition try_then :: "'e + 'a \<Rightarrow> ('a \<Rightarrow> 'e + 'b) \<Rightarrow> 'e + 'b" where
  "try_then m k = (case m of Inl e \<Rightarrow> Inl e | Inr x \<Rightarrow> k x)"

lemma try_then_simps [simp]: "try_then (Inl e) k = Inl e" "try_then (Inr x) k = k x"
  by (simp_all add: try_then_def)

lemma try_then_Inr: "try_then m k = Inr y \<longleftrightarrow> (\<exists>x. m = Inr x \<and> k x = Inr y)"
  by (simp add: try_then_def split: sum.split)

definition invalid :: "string \<Rightarrow> CpError + 'a" where
  "invalid = errStatus ''INVALID_ARGUMENT''"

definition require_that :: "bool \<Rightarrow> string \<Rightarrow> CpError + unit" where
  "require_that b message = (if b then Inr () else invalid message)"

lemma invalid_not_Inr [simp]: "invalid m \<noteq> Inr x"
  by (simp add: invalid_def errStatus_def)

lemma require_that_Inr [simp]: "require_that b m = Inr u \<longleftrightarrow> b"
  by (simp add: require_that_def)

section \<open>The bundle\<close>

record DeviceConfigSnapshot =
  dc_blockEnabled :: bool
  dc_blockMask :: u8
  dc_blockIface :: u8
  dc_reverseDns :: bool
  dc_ipRulesEnabled :: bool

record AppConfigSnapshot =
  ac_uid :: u32
  ac_blockMask :: u8
  ac_blockIface :: u8
  ac_useCustomList :: bool

record DomainRuleSnapshot =
  dr_ruleId :: u32
  dr_type :: RuleType
  dr_pattern :: string

record DomainRulesSnapshot =
  drs_nextRuleId :: u32
  drs_rules :: "DomainRuleSnapshot list"

record DomainPolicyScopeSnapshot =
  sc_allowDomains :: "string list"
  sc_blockDomains :: "string list"
  sc_allowRuleIds :: "u32 list"
  sc_blockRuleIds :: "u32 list"

record AppDomainPolicySnapshot =
  adp_uid :: u32
  adp_policy :: DomainPolicyScopeSnapshot

record DomainPolicySnapshot =
  dps_device :: DomainPolicyScopeSnapshot
  dps_apps :: "AppDomainPolicySnapshot list"

record DomainListSnapshot =
  dls_listId :: string
  dls_color :: Color
  dls_mask :: u8
  dls_enabled :: bool
  dls_url :: string
  dls_name :: string
  dls_updatedAt :: string
  dls_etag :: string
  dls_outdated :: bool
  dls_domainsCount :: u32
  dls_domains :: "string list"

record Bundle =
  bu_formatVersion :: u32
  bu_createdAt :: u64
  bu_deviceConfig :: DeviceConfigSnapshot
  bu_appConfigs :: "AppConfigSnapshot list"
  bu_domainRules :: DomainRulesSnapshot
  bu_domainPolicy :: DomainPolicySnapshot
  bu_domainLists :: "DomainListSnapshot list"
  bu_ipRules :: PolicySnapshot

definition kFormatVersion :: u32 where "kFormatVersion = 1"
definition kMaxSlotBytes :: nat where "kMaxSlotBytes = 64 * 1024 * 1024"
definition kMagic :: string where "kMagic = ''sucre-snort-policy-checkpoint''"

section \<open>Members of an object\<close>

definition hasDuplicateKeys :: "JsonValue \<Rightarrow> bool" where
  "hasDuplicateKeys object \<longleftrightarrow> IsObject object \<and> \<not> distinct (map fst (members object))"

definition rejectUnknownOrDuplicate :: "JsonValue \<Rightarrow> string list \<Rightarrow> string \<Rightarrow> CpError + unit" where
  "rejectUnknownOrDuplicate object allowed wher =
     (if \<not> IsObject object then invalid (wher @ '' must be object'')
      else if hasDuplicateKeys object then invalid (''duplicate key in '' @ wher)
      else case findUnknownKey object allowed of
             Some unknown \<Rightarrow> errStatus ''SYNTAX_ERROR'' (''unknown '' @ wher @ '' key: '' @ unknown)
           | None \<Rightarrow> Inr ())"

definition member :: "JsonValue \<Rightarrow> string \<Rightarrow> JsonValue option" where
  "member object key = (if \<not> IsObject object then None else FindMember object key)"

fun GetUint64 :: "JsonValue \<Rightarrow> u64 option" where
  "GetUint64 (JInt i) = (if 0 \<le> i \<and> i < 2 ^ 64 then Some (word_of_int i) else None)"
| "GetUint64 _ = None"

fun GetArray :: "JsonValue \<Rightarrow> JsonValue list option" where
  "GetArray (JArray vs) = Some vs"
| "GetArray _ = None"

text \<open>The shape the readers of a scalar share.\<close>

definition require_as :: "(JsonValue \<Rightarrow> 'a option) \<Rightarrow> string \<Rightarrow> JsonValue \<Rightarrow> string \<Rightarrow> CpError + 'a" where
  "require_as get kind object key =
     (case member object key of
        None \<Rightarrow> invalid (''missing '' @ key)
      | Some v \<Rightarrow> (case get v of None \<Rightarrow> invalid (key @ '' must be '' @ kind) | Some x \<Rightarrow> Inr x))"

definition requireBool :: "JsonValue \<Rightarrow> string \<Rightarrow> CpError + bool" where
  "requireBool = require_as GetBool ''bool''"

definition requireU32 :: "JsonValue \<Rightarrow> string \<Rightarrow> CpError + u32" where
  "requireU32 = require_as GetUint ''u32''"

definition requireU64 :: "JsonValue \<Rightarrow> string \<Rightarrow> CpError + u64" where
  "requireU64 = require_as GetUint64 ''u64''"

definition requireI32 :: "JsonValue \<Rightarrow> string \<Rightarrow> CpError + i32" where
  "requireI32 = require_as GetInt ''i32''"

definition requireString :: "JsonValue \<Rightarrow> string \<Rightarrow> CpError + string" where
  "requireString = require_as GetString ''string''"

fun parse_items :: "(JsonValue \<Rightarrow> CpError + 'a) \<Rightarrow> JsonValue list \<Rightarrow> CpError + 'a list" where
  "parse_items parseItem [] = Inr []"
| "parse_items parseItem (v # vs) =
     try_then (parseItem v) (\<lambda>x. try_then (parse_items parseItem vs) (\<lambda>xs. Inr (x # xs)))"

definition parseArray :: "JsonValue \<Rightarrow> string \<Rightarrow> (JsonValue \<Rightarrow> CpError + 'a) \<Rightarrow> CpError + 'a list" where
  "parseArray object key parseItem =
     (case member object key of
        None \<Rightarrow> invalid (''missing '' @ key)
      | Some v \<Rightarrow> (case GetArray v of None \<Rightarrow> invalid (key @ '' must be array'') | Some vs \<Rightarrow> parse_items parseItem vs))"

definition parseStringItem :: "JsonValue \<Rightarrow> CpError + string" where
  "parseStringItem v = (case GetString v of None \<Rightarrow> invalid ''array item must be string'' | Some s \<Rightarrow> Inr s)"

definition parseU32Item :: "JsonValue \<Rightarrow> CpError + u32" where
  "parseU32Item v = (case GetUint v of None \<Rightarrow> invalid ''array item must be u32'' | Some n \<Rightarrow> Inr n)"

definition makeStringArray :: "string list \<Rightarrow> JsonValue" where
  "makeStringArray items = JArray (map JString items)"

definition makeU32Array :: "u32 list \<Rightarrow> JsonValue" where
  "makeU32Array items = JArray (map JUint items)"

definition JByte :: "u8 \<Rightarrow> JsonValue" where
  "JByte b = JUint (ucast b)"

section \<open>Enumerations\<close>

definition cp_parseRuleType :: "string \<Rightarrow> RuleType option" where
  "cp_parseRuleType value =
     (if value = ''domain'' then Some R_DOMAIN
      else if value = ''wildcard'' then Some R_WILDCARD
      else if value = ''regex'' then Some R_REGEX else None)"

fun cp_ruleTypeString :: "RuleType \<Rightarrow> string" where
  "cp_ruleTypeString R_DOMAIN = ''domain''"
| "cp_ruleTypeString R_WILDCARD = ''wildcard''"
| "cp_ruleTypeString R_REGEX = ''regex''"

definition cp_parseListKind :: "string \<Rightarrow> Color option" where
  "cp_parseListKind value = (if value = ''block'' then Some BLACK else if value = ''allow'' then Some WHITE else None)"

definition cp_listKindString :: "Color \<Rightarrow> string" where
  "cp_listKindString color = (if color = WHITE then ''allow'' else ''block'')"

section \<open>Device and apps\<close>

definition parseDeviceConfig :: "JsonValue \<Rightarrow> CpError + DeviceConfigSnapshot" where
  "parseDeviceConfig v =
     try_then (rejectUnknownOrDuplicate v [''blockEnabled'', ''blockMask'', ''blockIface'', ''reverseDns'', ''ipRulesEnabled''] ''deviceConfig'') (\<lambda>_.
     try_then (requireBool v ''blockEnabled'') (\<lambda>blockEnabled.
     try_then (requireU32 v ''blockMask'') (\<lambda>m.
     try_then (requireU32 v ''blockIface'') (\<lambda>iface.
     try_then (requireBool v ''reverseDns'') (\<lambda>reverseDns.
     try_then (requireBool v ''ipRulesEnabled'') (\<lambda>ipRulesEnabled.
     try_then (require_that (\<not> (255 < m \<or> \<not> isValidAppBlockMask m)) ''deviceConfig.blockMask invalid'') (\<lambda>_.
     try_then (require_that (\<not> 255 < iface) ''deviceConfig.blockIface invalid'') (\<lambda>_.
     Inr \<lparr>dc_blockEnabled = blockEnabled, dc_blockMask = ucast m, dc_blockIface = ucast iface,
          dc_reverseDns = reverseDns, dc_ipRulesEnabled = ipRulesEnabled\<rparr>))))))))"

definition makeDeviceConfig :: "DeviceConfigSnapshot \<Rightarrow> JsonValue" where
  "makeDeviceConfig cfg = JObject
     [(''blockEnabled'', JBool (dc_blockEnabled cfg)), (''blockMask'', JByte (dc_blockMask cfg)),
      (''blockIface'', JByte (dc_blockIface cfg)), (''reverseDns'', JBool (dc_reverseDns cfg)),
      (''ipRulesEnabled'', JBool (dc_ipRulesEnabled cfg))]"

definition parseAppConfigItem :: "JsonValue \<Rightarrow> CpError + AppConfigSnapshot" where
  "parseAppConfigItem v =
     try_then (rejectUnknownOrDuplicate v [''uid'', ''blockMask'', ''blockIface'', ''useCustomList''] ''appConfig'') (\<lambda>_.
     try_then (requireU32 v ''uid'') (\<lambda>uid.
     try_then (requireU32 v ''blockMask'') (\<lambda>m.
     try_then (requireU32 v ''blockIface'') (\<lambda>iface.
     try_then (requireBool v ''useCustomList'') (\<lambda>useCustomList.
     try_then (require_that (\<not> (255 < m \<or> \<not> isValidAppBlockMask m)) ''appConfig.blockMask invalid'') (\<lambda>_.
     try_then (require_that (\<not> 255 < iface) ''appConfig.blockIface invalid'') (\<lambda>_.
     Inr \<lparr>ac_uid = uid, ac_blockMask = ucast m, ac_blockIface = ucast iface, ac_useCustomList = useCustomList\<rparr>)))))))"

definition makeAppConfigItem :: "AppConfigSnapshot \<Rightarrow> JsonValue" where
  "makeAppConfigItem cfg = JObject
     [(''uid'', JUint (ac_uid cfg)), (''blockMask'', JByte (ac_blockMask cfg)),
      (''blockIface'', JByte (ac_blockIface cfg)), (''useCustomList'', JBool (ac_useCustomList cfg))]"

section \<open>Domain rules and the domain policy\<close>

definition parseDomainRuleItem :: "JsonValue \<Rightarrow> CpError + DomainRuleSnapshot" where
  "parseDomainRuleItem v =
     try_then (rejectUnknownOrDuplicate v [''ruleId'', ''type'', ''pattern''] ''domainRule'') (\<lambda>_.
     try_then (requireU32 v ''ruleId'') (\<lambda>ruleId.
     try_then (requireString v ''type'') (\<lambda>type.
     case cp_parseRuleType type of
       None \<Rightarrow> invalid ''domainRule.type invalid''
     | Some t \<Rightarrow>
         try_then (requireString v ''pattern'') (\<lambda>pattern. Inr \<lparr>dr_ruleId = ruleId, dr_type = t, dr_pattern = pattern\<rparr>))))"

definition makeDomainRuleItem :: "DomainRuleSnapshot \<Rightarrow> JsonValue" where
  "makeDomainRuleItem rule = JObject
     [(''ruleId'', JUint (dr_ruleId rule)), (''type'', JString (cp_ruleTypeString (dr_type rule))),
      (''pattern'', JString (dr_pattern rule))]"

definition parseDomainRules :: "JsonValue \<Rightarrow> CpError + DomainRulesSnapshot" where
  "parseDomainRules v =
     try_then (rejectUnknownOrDuplicate v [''nextRuleId'', ''rules''] ''domainRules'') (\<lambda>_.
     try_then (requireU32 v ''nextRuleId'') (\<lambda>nextRuleId.
     try_then (parseArray v ''rules'' parseDomainRuleItem) (\<lambda>rules.
     Inr \<lparr>drs_nextRuleId = nextRuleId, drs_rules = rules\<rparr>)))"

definition makeDomainRules :: "DomainRulesSnapshot \<Rightarrow> JsonValue" where
  "makeDomainRules rules = JObject
     [(''nextRuleId'', JUint (drs_nextRuleId rules)), (''rules'', JArray (map makeDomainRuleItem (drs_rules rules)))]"

definition parsePolicyScope :: "JsonValue \<Rightarrow> CpError + DomainPolicyScopeSnapshot" where
  "parsePolicyScope v =
     try_then (rejectUnknownOrDuplicate v [''allowDomains'', ''blockDomains'', ''allowRuleIds'', ''blockRuleIds''] ''domainPolicy scope'') (\<lambda>_.
     try_then (parseArray v ''allowDomains'' parseStringItem) (\<lambda>allowDomains.
     try_then (parseArray v ''blockDomains'' parseStringItem) (\<lambda>blockDomains.
     try_then (parseArray v ''allowRuleIds'' parseU32Item) (\<lambda>allowRuleIds.
     try_then (parseArray v ''blockRuleIds'' parseU32Item) (\<lambda>blockRuleIds.
     Inr \<lparr>sc_allowDomains = allowDomains, sc_blockDomains = blockDomains,
          sc_allowRuleIds = allowRuleIds, sc_blockRuleIds = blockRuleIds\<rparr>)))))"

definition makePolicyScope :: "DomainPolicyScopeSnapshot \<Rightarrow> JsonValue" where
  "makePolicyScope sc = JObject
     [(''allowDomains'', makeStringArray (sc_allowDomains sc)), (''blockDomains'', makeStringArray (sc_blockDomains sc)),
      (''allowRuleIds'', makeU32Array (sc_allowRuleIds sc)), (''blockRuleIds'', makeU32Array (sc_blockRuleIds sc))]"

definition parseAppPolicy :: "JsonValue \<Rightarrow> CpError + AppDomainPolicySnapshot" where
  "parseAppPolicy v =
     try_then (rejectUnknownOrDuplicate v [''uid'', ''policy''] ''domainPolicy app'') (\<lambda>_.
     try_then (requireU32 v ''uid'') (\<lambda>uid.
     case member v ''policy'' of
       None \<Rightarrow> invalid ''missing domainPolicy app.policy''
     | Some policy \<Rightarrow> try_then (parsePolicyScope policy) (\<lambda>sc. Inr \<lparr>adp_uid = uid, adp_policy = sc\<rparr>)))"

definition makeAppPolicy :: "AppDomainPolicySnapshot \<Rightarrow> JsonValue" where
  "makeAppPolicy app = JObject [(''uid'', JUint (adp_uid app)), (''policy'', makePolicyScope (adp_policy app))]"

definition parseDomainPolicy :: "JsonValue \<Rightarrow> CpError + DomainPolicySnapshot" where
  "parseDomainPolicy v =
     try_then (rejectUnknownOrDuplicate v [''device'', ''apps''] ''domainPolicy'') (\<lambda>_.
     case member v ''device'' of
       None \<Rightarrow> invalid ''missing domainPolicy.device''
     | Some device \<Rightarrow>
         try_then (parsePolicyScope device) (\<lambda>sc.
         try_then (parseArray v ''apps'' parseAppPolicy) (\<lambda>apps. Inr \<lparr>dps_device = sc, dps_apps = apps\<rparr>)))"

definition makeDomainPolicy :: "DomainPolicySnapshot \<Rightarrow> JsonValue" where
  "makeDomainPolicy policy = JObject
     [(''device'', makePolicyScope (dps_device policy)), (''apps'', JArray (map makeAppPolicy (dps_apps policy)))]"

section \<open>Domain lists\<close>

definition parseDomainListItem :: "JsonValue \<Rightarrow> CpError + DomainListSnapshot" where
  "parseDomainListItem v =
     try_then (rejectUnknownOrDuplicate v [''listId'', ''listKind'', ''mask'', ''enabled'', ''url'', ''name'', ''updatedAt'',
       ''etag'', ''outdated'', ''domainsCount'', ''domains''] ''domainList'') (\<lambda>_.
     try_then (requireString v ''listId'') (\<lambda>listId.
     try_then (requireString v ''listKind'') (\<lambda>kind.
     case cp_parseListKind kind of
       None \<Rightarrow> invalid ''domainList.listKind invalid''
     | Some color \<Rightarrow>
     try_then (requireU32 v ''mask'') (\<lambda>m.
     try_then (requireBool v ''enabled'') (\<lambda>enabled.
     try_then (requireString v ''url'') (\<lambda>url.
     try_then (requireString v ''name'') (\<lambda>name.
     try_then (requireString v ''updatedAt'') (\<lambda>updatedAt.
     try_then (requireString v ''etag'') (\<lambda>etag.
     try_then (requireBool v ''outdated'') (\<lambda>outdated.
     try_then (requireU32 v ''domainsCount'') (\<lambda>domainsCount.
     try_then (parseArray v ''domains'' parseStringItem) (\<lambda>domains.
     try_then (require_that (\<not> (255 < m \<or> \<not> isValidBlockingListMask m)) ''domainList.mask invalid'') (\<lambda>_.
     Inr \<lparr>dls_listId = listId, dls_color = color, dls_mask = ucast m, dls_enabled = enabled, dls_url = url,
          dls_name = name, dls_updatedAt = updatedAt, dls_etag = etag, dls_outdated = outdated,
          dls_domainsCount = domainsCount, dls_domains = domains\<rparr>)))))))))))))"

definition makeDomainListItem :: "DomainListSnapshot \<Rightarrow> JsonValue" where
  "makeDomainListItem l = JObject
     [(''listId'', JString (dls_listId l)), (''listKind'', JString (cp_listKindString (dls_color l))),
      (''mask'', JByte (dls_mask l)), (''enabled'', JBool (dls_enabled l)), (''url'', JString (dls_url l)),
      (''name'', JString (dls_name l)), (''updatedAt'', JString (dls_updatedAt l)), (''etag'', JString (dls_etag l)),
      (''outdated'', JBool (dls_outdated l)), (''domainsCount'', JUint (dls_domainsCount l)),
      (''domains'', makeStringArray (dls_domains l))]"

section \<open>IP rules\<close>

definition cp_parsePortPredicate :: "JsonValue \<Rightarrow> CpError + PortPredicate" where
  "cp_parsePortPredicate v =
     try_then (rejectUnknownOrDuplicate v [''kind'', ''lo'', ''hi''] ''iprules port'') (\<lambda>_.
     try_then (requireU32 v ''kind'') (\<lambda>kind.
     try_then (requireU32 v ''lo'') (\<lambda>lo.
     try_then (requireU32 v ''hi'') (\<lambda>hi.
     try_then (require_that (\<not> (ucast (port_kind_u8 Port_RANGE) < kind \<or> 65535 < lo \<or> 65535 < hi)) ''iprules port invalid'') (\<lambda>_.
     Inr \<lparr>port_kind = port_kind_of_u8 (ucast kind), port_lo = ucast lo, port_hi = ucast hi\<rparr>)))))"

definition makePortPredicate :: "PortPredicate \<Rightarrow> JsonValue" where
  "makePortPredicate port = JObject
     [(''kind'', JByte (port_kind_u8 (port_kind port))), (''lo'', JUint (ucast (port_lo port))),
      (''hi'', JUint (ucast (port_hi port)))]"

definition cp_parseCidrV4 :: "JsonValue \<Rightarrow> CpError + CidrV4" where
  "cp_parseCidrV4 v =
     try_then (rejectUnknownOrDuplicate v [''any'', ''addr'', ''prefix''] ''iprules cidr4'') (\<lambda>_.
     try_then (requireBool v ''any'') (\<lambda>any.
     try_then (requireU32 v ''addr'') (\<lambda>addr.
     try_then (requireU32 v ''prefix'') (\<lambda>prefix.
     try_then (require_that (\<not> 32 < prefix) ''iprules cidr4 prefix invalid'') (\<lambda>_.
     Inr \<lparr>c4_any = any, c4_addr = addr, c4_prefix = ucast prefix\<rparr>)))))"

definition makeCidrV4 :: "CidrV4 \<Rightarrow> JsonValue" where
  "makeCidrV4 cidr = JObject
     [(''any'', JBool (c4_any cidr)), (''addr'', JUint (c4_addr cidr)), (''prefix'', JByte (c4_prefix cidr))]"

definition parseByteItem :: "JsonValue \<Rightarrow> CpError + u8" where
  "parseByteItem v =
     (case GetUint v of
        None \<Rightarrow> invalid ''iprules cidr6 addr item invalid''
      | Some n \<Rightarrow> if 255 < n then invalid ''iprules cidr6 addr item invalid'' else Inr (ucast n))"

definition cp_parseCidrV6 :: "JsonValue \<Rightarrow> CpError + CidrV6" where
  "cp_parseCidrV6 v =
     try_then (rejectUnknownOrDuplicate v [''any'', ''addr'', ''prefix''] ''iprules cidr6'') (\<lambda>_.
     try_then (requireBool v ''any'') (\<lambda>any.
     try_then (requireU32 v ''prefix'') (\<lambda>prefix.
     try_then (require_that (\<not> 128 < prefix) ''iprules cidr6 prefix invalid'') (\<lambda>_.
     case (case member v ''addr'' of None \<Rightarrow> None | Some a \<Rightarrow> GetArray a) of
       None \<Rightarrow> invalid ''iprules cidr6 addr must be 16-byte array''
     | Some vs \<Rightarrow>
         if length vs \<noteq> 16 then invalid ''iprules cidr6 addr must be 16-byte array''
         else try_then (parse_items parseByteItem vs) (\<lambda>addr.
           Inr \<lparr>c6_any = any, c6_addr = addr, c6_prefix = ucast prefix\<rparr>)))))"

definition makeCidrV6 :: "CidrV6 \<Rightarrow> JsonValue" where
  "makeCidrV6 cidr = JObject
     [(''any'', JBool (c6_any cidr)), (''addr'', JArray (map JByte (c6_addr cidr))), (''prefix'', JByte (c6_prefix cidr))]"

definition ipRuleKeys :: "string list" where
  "ipRuleKeys = [''ruleId'', ''uid'', ''clientRuleId'', ''family'', ''action'', ''priority'', ''enabled'', ''enforce'', ''log'',
     ''dir'', ''iface'', ''ifindex'', ''proto'', ''src'', ''dst'', ''src6'', ''dst6'', ''sport'', ''dport'', ''ctState'', ''ctDir'']"

text \<open>\<^verbatim>\<open>static_cast<E>\<close> of a 32-bit value to an enumeration of one byte keeps its low byte.\<close>

definition parseIpRuleItem :: "JsonValue \<Rightarrow> CpError + RuleDef" where
  "parseIpRuleItem v =
     try_then (rejectUnknownOrDuplicate v ipRuleKeys ''iprules rule'') (\<lambda>_.
     try_then (requireU32 v ''ruleId'') (\<lambda>ruleId.
     try_then (requireU32 v ''uid'') (\<lambda>uid.
     try_then (requireString v ''clientRuleId'') (\<lambda>clientRuleId.
     try_then (requireU32 v ''family'') (\<lambda>family.
     try_then (requireU32 v ''action'') (\<lambda>action.
     try_then (requireI32 v ''priority'') (\<lambda>priority.
     try_then (requireBool v ''enabled'') (\<lambda>enabled.
     try_then (requireBool v ''enforce'') (\<lambda>enforce.
     try_then (requireBool v ''log'') (\<lambda>log.
     try_then (requireU32 v ''dir'') (\<lambda>dir.
     try_then (requireU32 v ''iface'') (\<lambda>iface.
     try_then (requireU32 v ''ifindex'') (\<lambda>ifindex.
     try_then (requireU32 v ''proto'') (\<lambda>proto.
     case (member v ''src'', member v ''dst'', member v ''src6'', member v ''dst6'', member v ''sport'', member v ''dport'') of
       (Some src, Some dst, Some src6, Some dst6, Some sport, Some dport) \<Rightarrow>
         try_then (cp_parseCidrV4 src) (\<lambda>src.
         try_then (cp_parseCidrV4 dst) (\<lambda>dst.
         try_then (cp_parseCidrV6 src6) (\<lambda>src6.
         try_then (cp_parseCidrV6 dst6) (\<lambda>dst6.
         try_then (cp_parsePortPredicate sport) (\<lambda>sport.
         try_then (cp_parsePortPredicate dport) (\<lambda>dport.
         try_then (requireU32 v ''ctState'') (\<lambda>ctState.
         try_then (requireU32 v ''ctDir'') (\<lambda>ctDir.
         Inr \<lparr>rd_ruleId = ruleId, rd_uid = uid, rd_clientRuleId = clientRuleId,
              rd_family = family_of_u8 (ucast family), rd_action = action_of_u8 (ucast action), rd_priority = priority,
              rd_enabled = enabled, rd_enforce = enforce, rd_log = log, rd_dir = dir_of_u8 (ucast dir),
              rd_iface = iface_of_u8 (ucast iface), rd_ifindex = ifindex, rd_proto = proto_of_u8 (ucast proto),
              rd_src = src, rd_dst = dst, rd_src6 = src6, rd_dst6 = dst6, rd_sport = sport, rd_dport = dport,
              rd_ctState = ct_of_u8 (ucast ctState), rd_ctDir = ctdir_of_u8 (ucast ctDir)\<rparr>))))))))
     | _ \<Rightarrow> invalid ''missing iprules nested fields''))))))))))))))"

definition makeIpRuleItem :: "RuleDef \<Rightarrow> JsonValue" where
  "makeIpRuleItem r = JObject
     [(''ruleId'', JUint (rd_ruleId r)), (''uid'', JUint (rd_uid r)), (''clientRuleId'', JString (rd_clientRuleId r)),
      (''family'', JByte (family_u8 (rd_family r))), (''action'', JByte (action_u8 (rd_action r))),
      (''priority'', JInt (sint (rd_priority r))), (''enabled'', JBool (rd_enabled r)),
      (''enforce'', JBool (rd_enforce r)), (''log'', JBool (rd_log r)), (''dir'', JByte (dir_u8 (rd_dir r))),
      (''iface'', JByte (iface_u8 (rd_iface r))), (''ifindex'', JUint (rd_ifindex r)),
      (''proto'', JByte (proto_u8 (rd_proto r))), (''src'', makeCidrV4 (rd_src r)), (''dst'', makeCidrV4 (rd_dst r)),
      (''src6'', makeCidrV6 (rd_src6 r)), (''dst6'', makeCidrV6 (rd_dst6 r)),
      (''sport'', makePortPredicate (rd_sport r)), (''dport'', makePortPredicate (rd_dport r)),
      (''ctState'', JByte (ct_u8 (rd_ctState r))), (''ctDir'', JByte (ctdir_u8 (rd_ctDir r)))]"

definition parseIpRules :: "JsonValue \<Rightarrow> CpError + PolicySnapshot" where
  "parseIpRules v =
     try_then (rejectUnknownOrDuplicate v [''nextRuleId'', ''rules''] ''iprules'') (\<lambda>_.
     try_then (requireU32 v ''nextRuleId'') (\<lambda>nextRuleId.
     try_then (parseArray v ''rules'' parseIpRuleItem) (\<lambda>rules.
     Inr \<lparr>ps_nextRuleId = nextRuleId, ps_rules = rules\<rparr>)))"

definition makeIpRules :: "PolicySnapshot \<Rightarrow> JsonValue" where
  "makeIpRules snapshot = JObject
     [(''nextRuleId'', JUint (ps_nextRuleId snapshot)), (''rules'', JArray (map makeIpRuleItem (ps_rules snapshot)))]"

section \<open>The document\<close>

definition parseBundleDocument :: "JsonValue \<Rightarrow> CpError + Bundle" where
  "parseBundleDocument doc =
     try_then (rejectUnknownOrDuplicate doc [''magic'', ''formatVersion'', ''createdAt'', ''sections''] ''bundle'') (\<lambda>_.
     try_then (requireString doc ''magic'') (\<lambda>magic.
     try_then (require_that (magic = kMagic) ''checkpoint magic mismatch'') (\<lambda>_.
     try_then (requireU32 doc ''formatVersion'') (\<lambda>formatVersion.
     try_then (require_that (formatVersion = kFormatVersion) ''unsupported checkpoint format version'') (\<lambda>_.
     try_then (requireU64 doc ''createdAt'') (\<lambda>createdAt.
     case member doc ''sections'' of
       None \<Rightarrow> invalid ''missing sections''
     | Some sections \<Rightarrow>
     try_then (rejectUnknownOrDuplicate sections [''deviceConfig'', ''appConfigs'', ''domainRules'', ''domainPolicy'',
       ''domainLists'', ''ipRules''] ''sections'') (\<lambda>_.
     case (member sections ''deviceConfig'', member sections ''domainRules'', member sections ''domainPolicy'', member sections ''ipRules'') of
       (Some deviceConfig, Some domainRules, Some domainPolicy, Some ipRules) \<Rightarrow>
         try_then (parseDeviceConfig deviceConfig) (\<lambda>deviceConfig.
         try_then (parseArray sections ''appConfigs'' parseAppConfigItem) (\<lambda>appConfigs.
         try_then (parseDomainRules domainRules) (\<lambda>domainRules.
         try_then (parseDomainPolicy domainPolicy) (\<lambda>domainPolicy.
         try_then (parseArray sections ''domainLists'' parseDomainListItem) (\<lambda>domainLists.
         try_then (parseIpRules ipRules) (\<lambda>ipRules.
         Inr \<lparr>bu_formatVersion = formatVersion, bu_createdAt = createdAt, bu_deviceConfig = deviceConfig,
              bu_appConfigs = appConfigs, bu_domainRules = domainRules, bu_domainPolicy = domainPolicy,
              bu_domainLists = domainLists, bu_ipRules = ipRules\<rparr>))))))
     | _ \<Rightarrow> invalid ''missing required checkpoint section'')))))))"

definition makeBundleDocument :: "Bundle \<Rightarrow> JsonValue" where
  "makeBundleDocument b = JObject
     [(''magic'', JString kMagic), (''formatVersion'', JUint (bu_formatVersion b)),
      (''createdAt'', JInt (uint (bu_createdAt b))),
      (''sections'', JObject
        [(''deviceConfig'', makeDeviceConfig (bu_deviceConfig b)),
         (''appConfigs'', JArray (map makeAppConfigItem (bu_appConfigs b))),
         (''domainRules'', makeDomainRules (bu_domainRules b)), (''domainPolicy'', makeDomainPolicy (bu_domainPolicy b)),
         (''domainLists'', JArray (map makeDomainListItem (bu_domainLists b))), (''ipRules'', makeIpRules (bu_ipRules b))])]"

section \<open>Reading back what was written\<close>

lemma reject_own [simp]:
  "rejectUnknownOrDuplicate (JObject ms) allowed w = Inr ()" if "map fst ms = allowed" "distinct allowed"
proof -
  have "fst ` set ms = set allowed" using that(1) by (metis set_map)
  then have "find (\<lambda>m. fst m \<notin> set allowed) ms = None" unfolding find_None_iff by (metis imageI)
  then show ?thesis using that
    by (simp add: rejectUnknownOrDuplicate_def hasDuplicateKeys_def findUnknownKey_def)
qed

lemma member_object [simp]: "member (JObject ms) k = map_of ms k"
  by (simp add: member_def FindMember_def)

lemma uint_u32: "0 \<le> uint (n :: u32) \<and> uint n < 2 ^ 32"
  using uint_bounded [of n] by simp

lemma get_make [simp]:
  "GetUint (JUint n) = Some n" "GetUint (JByte b) = Some (ucast b)" "GetUint64 (JInt (uint t)) = Some t"
  "GetInt (JInt (sint i)) = Some i"
proof -
  show "GetUint (JUint n) = Some n" for n using uint_u32 [of n] by (simp add: JUint_def)
  then show "GetUint (JByte b) = Some (ucast b)" by (simp add: JByte_def)
  show "GetUint64 (JInt (uint t)) = Some t" using uint_bounded [of t] by simp
  show "GetInt (JInt (sint i)) = Some i"
    using sint_less [of i] sint_ge [of i] by simp
qed

lemma byte_back [simp]: "ucast (ucast (b :: u8) :: u32) = b"
  by (simp add: ucast_down_ucast_id is_down)

lemma word_back [simp]: "ucast (ucast (b :: u16) :: u32) = b"
  by (simp add: ucast_down_ucast_id is_down)

lemma unat_small: "unat (b :: u8) < 256" "unat (w :: u16) < 65536"
proof -
  have "unat b < 2 ^ LENGTH(8)" "unat w < 2 ^ LENGTH(16)" by (rule unsigned_less)+
  then show "unat b < 256" "unat w < 65536" by simp_all
qed

lemma unat_widen: "unat (ucast (b :: u8) :: u32) = unat b" "unat (ucast (w :: u16) :: u32) = unat w"
  using unat_small(1) [of b] unat_small(2) [of w] by (simp_all add: unsigned_ucast_eq take_bit_nat_eq_self)

lemma byte_small [simp]: "\<not> (255 :: u32) < ucast (b :: u8)"
  using unat_small(1) [of b] by (simp add: word_less_nat_alt unat_widen)

lemma word_small [simp]: "\<not> (65535 :: u32) < ucast (b :: u16)"
  using unat_small(2) [of b] by (simp add: word_less_nat_alt unat_widen)

lemma byte_less: "ucast (a :: u8) < (ucast b :: u32) \<longleftrightarrow> a < b"
  by (simp add: word_less_nat_alt unat_widen)

lemma sint_i32 [simp]: "- 2147483648 \<le> sint (i :: i32)" "sint i < 2147483648"
  using sint_less [of i] sint_ge [of i] by simp_all

lemma parse_items_make:
  "(\<And>x. x \<in> set xs \<Longrightarrow> parseItem (makeItem x) = Inr x) \<Longrightarrow> parse_items parseItem (map makeItem xs) = Inr xs"
  by (induction xs) simp_all

lemmas read_defs = requireBool_def requireU32_def requireU64_def requireI32_def requireString_def require_as_def parseArray_def

lemma string_items [simp]: "parse_items parseStringItem (map JString ss) = Inr ss"
  by (rule parse_items_make) (simp add: parseStringItem_def)

lemma u32_items [simp]: "parse_items parseU32Item (map JUint ns) = Inr ns"
  by (rule parse_items_make) (simp add: parseU32Item_def)

lemma byte_items [simp]: "parse_items parseByteItem (map JByte bs) = Inr bs"
  by (rule parse_items_make) (simp add: parseByteItem_def)

lemma deviceConfig_back:
  "isValidAppBlockMask (ucast (dc_blockMask c)) \<Longrightarrow> parseDeviceConfig (makeDeviceConfig c) = Inr c"
  by (simp add: parseDeviceConfig_def makeDeviceConfig_def read_defs require_that_def)

lemma appConfig_back:
  "isValidAppBlockMask (ucast (ac_blockMask c)) \<Longrightarrow> parseAppConfigItem (makeAppConfigItem c) = Inr c"
  by (simp add: parseAppConfigItem_def makeAppConfigItem_def read_defs require_that_def)

lemma ruleType_back [simp]: "cp_parseRuleType (cp_ruleTypeString t) = Some t"
  by (cases t) (simp_all add: cp_parseRuleType_def)

lemma domainRules_back: "parseDomainRules (makeDomainRules r) = Inr r"
proof -
  have "parseDomainRuleItem (makeDomainRuleItem x) = Inr x" for x
    by (simp add: parseDomainRuleItem_def makeDomainRuleItem_def read_defs)
  then show ?thesis by (simp add: parseDomainRules_def makeDomainRules_def read_defs parse_items_make)
qed

lemma scope_back: "parsePolicyScope (makePolicyScope sc) = Inr sc"
  by (simp add: parsePolicyScope_def makePolicyScope_def read_defs makeStringArray_def makeU32Array_def)

lemma domainPolicy_back: "parseDomainPolicy (makeDomainPolicy p) = Inr p"
proof -
  have "parseAppPolicy (makeAppPolicy a) = Inr a" for a
    by (simp add: parseAppPolicy_def makeAppPolicy_def read_defs scope_back)
  then show ?thesis by (simp add: parseDomainPolicy_def makeDomainPolicy_def read_defs scope_back parse_items_make)
qed

lemma domainList_back:
  assumes "isValidBlockingListMask (ucast (dls_mask l))" and "dls_color l = BLACK \<or> dls_color l = WHITE"
  shows "parseDomainListItem (makeDomainListItem l) = Inr l"
proof -
  have "cp_parseListKind (cp_listKindString (dls_color l)) = Some (dls_color l)"
    using assms(2) by (auto simp: cp_parseListKind_def cp_listKindString_def)
  then show ?thesis using assms(1)
    by (simp add: parseDomainListItem_def makeDomainListItem_def read_defs require_that_def makeStringArray_def)
qed

text \<open>The rules that survive: enumerators and ranges as the engine's own parsers produce them.\<close>

definition port_stored :: "PortPredicate \<Rightarrow> bool" where
  "port_stored p \<longleftrightarrow> port_kind p \<in> {Port_ANY, Port_EXACT, Port_RANGE}"

definition rule_stored :: "RuleDef \<Rightarrow> bool" where
  "rule_stored d \<longleftrightarrow>
     family_of_u8 (family_u8 (rd_family d)) = rd_family d \<and> action_of_u8 (action_u8 (rd_action d)) = rd_action d \<and>
     dir_of_u8 (dir_u8 (rd_dir d)) = rd_dir d \<and> iface_of_u8 (iface_u8 (rd_iface d)) = rd_iface d \<and>
     proto_of_u8 (proto_u8 (rd_proto d)) = rd_proto d \<and> ct_of_u8 (ct_u8 (rd_ctState d)) = rd_ctState d \<and>
     ctdir_of_u8 (ctdir_u8 (rd_ctDir d)) = rd_ctDir d \<and> c4_prefix (rd_src d) \<le> 32 \<and> c4_prefix (rd_dst d) \<le> 32 \<and>
     c6_prefix (rd_src6 d) \<le> 128 \<and> c6_prefix (rd_dst6 d) \<le> 128 \<and> length (c6_addr (rd_src6 d)) = 16 \<and>
     length (c6_addr (rd_dst6 d)) = 16 \<and> port_stored (rd_sport d) \<and> port_stored (rd_dport d)"

lemma port_back: "port_stored p \<Longrightarrow> cp_parsePortPredicate (makePortPredicate p) = Inr p"
  by (cases p) (auto simp: cp_parsePortPredicate_def makePortPredicate_def read_defs require_that_def port_stored_def port_kind_of_u8_def)

lemma cidr4_back: "c4_prefix c \<le> 32 \<Longrightarrow> cp_parseCidrV4 (makeCidrV4 c) = Inr c"
  using byte_less [of 32 "c4_prefix c"] 
  by (simp add: not_less [symmetric] cp_parseCidrV4_def makeCidrV4_def read_defs require_that_def)

lemma cidr6_back: "c6_prefix c \<le> 128 \<Longrightarrow> length (c6_addr c) = 16 \<Longrightarrow> cp_parseCidrV6 (makeCidrV6 c) = Inr c"
  using byte_less [of 128 "c6_prefix c"] 
  by (simp add: not_less [symmetric] cp_parseCidrV6_def makeCidrV6_def read_defs require_that_def)

lemma ipRuleKeys_own: "map fst (members (makeIpRuleItem r)) = ipRuleKeys" "distinct ipRuleKeys"
  by (simp_all add: makeIpRuleItem_def ipRuleKeys_def)

lemma ipRule_back:
  assumes "rule_stored d"
  shows "parseIpRuleItem (makeIpRuleItem d) = Inr d"
proof -
  have r: "rejectUnknownOrDuplicate (makeIpRuleItem d) ipRuleKeys w = Inr ()" for w
    using ipRuleKeys_own by (simp add: makeIpRuleItem_def)
  note m = makeIpRuleItem_def [of d]
  show ?thesis using assms
    by (simp add: parseIpRuleItem_def r) (simp add: m read_defs rule_stored_def port_back cidr4_back cidr6_back)
qed

lemma ipRules_back: "\<forall>d \<in> set (ps_rules p). rule_stored d \<Longrightarrow> parseIpRules (makeIpRules p) = Inr p"
  by (simp add: parseIpRules_def makeIpRules_def read_defs ipRule_back parse_items_make)

end
