(* ===== verification/CheckpointValid.thy ===== *)
theory CheckpointValid
  imports CheckpointBundle
begin

text \<open>
  Which bundles are accepted (\<^verbatim>\<open>validateBundle\<close>, \<^verbatim>\<open>src/src/PolicyCheckpoint.cpp\<close>), the encoding and decoding of a
  bundle, and what they guarantee: \<open>bundle_ok\<close> says in declarative terms what the loops of the source check, and a
  bundle that was encoded is decoded to the same bundle by any daemon. The parser and the writer of JSON texts
  (RapidJSON), \<^verbatim>\<open>std::regex\<close>, \<^verbatim>\<open>HOST_NAME_MAX\<close> and the conversions of calendar time are the environment \<open>CpEnv\<close>.
\<close>

section \<open>Validation\<close>

record Tm =
  tm_year :: int
  tm_mon :: int
  tm_mday :: int
  tm_hour :: int
  tm_min :: int
  tm_sec :: int

text \<open>\<open>cp_get_time\<close> is \<^verbatim>\<open>ss >> std::get_time(&tm, "%Y-%m-%d_%H:%M:%S")\<close> on the whole text, with the checks for
  failure and for the end of the text; \<open>cp_format_time\<close> is \<^verbatim>\<open>localtime_r\<close> and \<^verbatim>\<open>strftime\<close> (\<open>None\<close> when one fails).\<close>

record CpEnv =
  cp_regex :: regex
  cp_hostNameMax :: nat
  cp_parse :: "string \<Rightarrow> JsonError + JsonValue"
  cp_write :: "JsonValue \<Rightarrow> string"
  cp_get_time :: "string \<Rightarrow> Tm option"
  cp_mktime :: "Tm \<Rightarrow> int"
  cp_format_time :: "int \<Rightarrow> string option"

definition is_xdigit :: "char \<Rightarrow> bool" where
  "is_xdigit c \<longleftrightarrow> (let n = (of_char c :: nat) in 48 \<le> n \<and> n \<le> 57 \<or> 65 \<le> n \<and> n \<le> 70 \<or> 97 \<le> n \<and> n \<le> 102)"

definition isValidGuid36 :: "string \<Rightarrow> bool" where
  "isValidGuid36 guid \<longleftrightarrow>
     length guid = 36 \<and>
     list_all (\<lambda>i. if i = 8 \<or> i = 13 \<or> i = 18 \<or> i = 23 then guid ! i = CHR ''-'' else is_xdigit (guid ! i)) [0..<36]"

definition isValidDomainString :: "CpEnv \<Rightarrow> string \<Rightarrow> bool" where
  "isValidDomainString env domain \<longleftrightarrow>
     domain \<noteq> [] \<and> length domain \<le> cp_hostNameMax env \<and>
     list_all (\<lambda>c. \<not> (of_char c = (0 :: nat) \<or> (of_char c :: nat) < 32 \<or> c = CHR '' '')) domain"

definition isValidUpdatedAtString :: "CpEnv \<Rightarrow> string \<Rightarrow> bool" where
  "isValidUpdatedAtString env updatedAt \<longleftrightarrow> updatedAt = [] \<or> cp_get_time env updatedAt \<noteq> None"

text \<open>The loops that insert into \<^verbatim>\<open>seen\<close>; a set is the list of what was inserted.\<close>

fun check_seen :: "('a \<Rightarrow> bool) \<Rightarrow> 'a list \<Rightarrow> 'a list \<Rightarrow> bool" where
  "check_seen ok seen [] = True"
| "check_seen ok seen (x # xs) = (if \<not> ok x \<or> x \<in> set seen then False else check_seen ok (x # seen) xs)"

definition validatePolicyScope :: "CpEnv \<Rightarrow> u32 list \<Rightarrow> DomainPolicyScopeSnapshot \<Rightarrow> CpError + unit" where
  "validatePolicyScope env ruleIds sc =
     (let checkDomains = check_seen (isValidDomainString env) []; checkRuleIds = check_seen (\<lambda>i. i \<in> set ruleIds) [] in
      try_then (require_that (checkDomains (sc_allowDomains sc) \<and> checkDomains (sc_blockDomains sc)) ''invalid or duplicate domain policy domain'') (\<lambda>_.
      require_that (checkRuleIds (sc_allowRuleIds sc) \<and> checkRuleIds (sc_blockRuleIds sc)) ''invalid or duplicate domain policy ruleId''))"

fun validate_apps :: "u32 list \<Rightarrow> AppConfigSnapshot list \<Rightarrow> CpError + unit" where
  "validate_apps appUids [] = Inr ()"
| "validate_apps appUids (cfg # cfgs) =
     try_then (require_that (ac_uid cfg \<notin> set appUids) ''duplicate app config uid'') (\<lambda>_.
     try_then (require_that (isValidAppBlockMask (ucast (ac_blockMask cfg))) ''app block mask invalid'') (\<lambda>_.
     validate_apps (ac_uid cfg # appUids) cfgs))"

fun validate_rules :: "CpEnv \<Rightarrow> u32 list \<Rightarrow> u32 \<Rightarrow> DomainRuleSnapshot list \<Rightarrow> CpError + (u32 list \<times> u32)" where
  "validate_rules env ids maxId [] = Inr (ids, maxId)"
| "validate_rules env ids maxId (r # rs) =
     try_then (require_that (dr_ruleId r \<notin> set ids) ''duplicate domain ruleId'') (\<lambda>_.
     try_then (require_that (ru_valid (rule_new (cp_regex env) (dr_type r) 0 (dr_pattern r))) ''invalid domain rule'') (\<lambda>_.
     validate_rules env (dr_ruleId r # ids) (max maxId (dr_ruleId r)) rs))"

fun validate_policies :: "CpEnv \<Rightarrow> u32 list \<Rightarrow> u32 list \<Rightarrow> AppDomainPolicySnapshot list \<Rightarrow> CpError + unit" where
  "validate_policies env ruleIds uids [] = Inr ()"
| "validate_policies env ruleIds uids (a # as) =
     try_then (require_that (adp_uid a \<notin> set uids) ''duplicate domain policy uid'') (\<lambda>_.
     try_then (validatePolicyScope env ruleIds (adp_policy a)) (\<lambda>_.
     validate_policies env ruleIds (adp_uid a # uids) as))"

fun validate_lists :: "CpEnv \<Rightarrow> string list \<Rightarrow> DomainListSnapshot list \<Rightarrow> CpError + unit" where
  "validate_lists env listIds [] = Inr ()"
| "validate_lists env listIds (l # ls) =
     try_then (require_that (isValidGuid36 (dls_listId l) \<and> dls_listId l \<notin> set listIds) ''invalid or duplicate domain listId'') (\<lambda>_.
     try_then (require_that (isValidBlockingListMask (ucast (dls_mask l))) ''domain list mask invalid'') (\<lambda>_.
     try_then (require_that (isValidUpdatedAtString env (dls_updatedAt l)) ''domain list updatedAt invalid'') (\<lambda>_.
     try_then (require_that (unat (dls_domainsCount l) = length (dls_domains l)) ''domain list metadata/content mismatch'') (\<lambda>_.
     try_then (require_that (check_seen (isValidDomainString env) [] (dls_domains l)) ''invalid or duplicate domain list content'') (\<lambda>_.
     validate_lists env (dls_listId l # listIds) ls)))))"

definition validateBundle :: "CpEnv \<Rightarrow> Engine \<Rightarrow> Bundle \<Rightarrow> CpError + unit" where
  "validateBundle env engine b =
     try_then (require_that (bu_formatVersion b = kFormatVersion) ''unsupported checkpoint format version'') (\<lambda>_.
     try_then (require_that (isValidAppBlockMask (ucast (dc_blockMask (bu_deviceConfig b)))) ''device block mask invalid'') (\<lambda>_.
     try_then (validate_apps [] (bu_appConfigs b)) (\<lambda>_.
     try_then (validate_rules env [] 0 (drs_rules (bu_domainRules b))) (\<lambda>(ruleIds, maxId).
     try_then (require_that (\<not> (drs_rules (bu_domainRules b) \<noteq> [] \<and> drs_nextRuleId (bu_domainRules b) \<le> maxId)) ''domainRules.nextRuleId invalid'') (\<lambda>_.
     try_then (validatePolicyScope env ruleIds (dps_device (bu_domainPolicy b))) (\<lambda>_.
     try_then (validate_policies env ruleIds [] (dps_apps (bu_domainPolicy b))) (\<lambda>_.
     try_then (validate_lists env [] (bu_domainLists b)) (\<lambda>_.
     let r = validatePolicySnapshot (bu_ipRules b) engine in
     require_that (res_ok r) (''invalid iprules checkpoint: '' @ res_error r)))))))))"

section \<open>Encoding and decoding\<close>

definition encodeBundle :: "CpEnv \<Rightarrow> Engine \<Rightarrow> Bundle \<Rightarrow> CpError + string" where
  "encodeBundle env engine b =
     try_then (validateBundle env engine b) (\<lambda>_.
       let out = cp_write env (makeBundleDocument b) in
       if kMaxSlotBytes < length out then errStatus ''CAPACITY_EXCEEDED'' ''checkpoint bundle exceeds 64 MiB cap''
       else Inr out)"

definition decodeBundle :: "CpEnv \<Rightarrow> Engine \<Rightarrow> string \<Rightarrow> CpError + Bundle" where
  "decodeBundle env engine data =
     (if kMaxSlotBytes < length data then errStatus ''CAPACITY_EXCEEDED'' ''checkpoint bundle exceeds 64 MiB cap''
      else case parseStrictJsonObject (cp_parse env) data of
             Inl e \<Rightarrow> invalid (''checkpoint JSON parse failed: '' @ je_message e)
           | Inr doc \<Rightarrow> try_then (parseBundleDocument doc) (\<lambda>b. try_then (validateBundle env engine b) (\<lambda>_. Inr b)))"

section \<open>What validation means\<close>

definition scope_ok :: "CpEnv \<Rightarrow> u32 set \<Rightarrow> DomainPolicyScopeSnapshot \<Rightarrow> bool" where
  "scope_ok env ids sc \<longleftrightarrow>
     distinct (sc_allowDomains sc) \<and> distinct (sc_blockDomains sc) \<and>
     (\<forall>d \<in> set (sc_allowDomains sc) \<union> set (sc_blockDomains sc). isValidDomainString env d) \<and>
     distinct (sc_allowRuleIds sc) \<and> distinct (sc_blockRuleIds sc) \<and>
     set (sc_allowRuleIds sc) \<union> set (sc_blockRuleIds sc) \<subseteq> ids"

definition list_ok :: "CpEnv \<Rightarrow> DomainListSnapshot \<Rightarrow> bool" where
  "list_ok env l \<longleftrightarrow>
     isValidGuid36 (dls_listId l) \<and> isValidBlockingListMask (ucast (dls_mask l)) \<and>
     isValidUpdatedAtString env (dls_updatedAt l) \<and> unat (dls_domainsCount l) = length (dls_domains l) \<and>
     distinct (dls_domains l) \<and> (\<forall>d \<in> set (dls_domains l). isValidDomainString env d)"

definition bundle_ok :: "CpEnv \<Rightarrow> Bundle \<Rightarrow> bool" where
  "bundle_ok env b \<longleftrightarrow>
     (let rules = drs_rules (bu_domainRules b); ids = dr_ruleId ` set rules in
      bu_formatVersion b = kFormatVersion \<and> isValidAppBlockMask (ucast (dc_blockMask (bu_deviceConfig b))) \<and>
      distinct (map ac_uid (bu_appConfigs b)) \<and>
      (\<forall>c \<in> set (bu_appConfigs b). isValidAppBlockMask (ucast (ac_blockMask c))) \<and>
      distinct (map dr_ruleId rules) \<and>
      (\<forall>r \<in> set rules. ru_valid (rule_new (cp_regex env) (dr_type r) 0 (dr_pattern r)) \<and> dr_ruleId r < drs_nextRuleId (bu_domainRules b)) \<and>
      scope_ok env ids (dps_device (bu_domainPolicy b)) \<and>
      distinct (map adp_uid (dps_apps (bu_domainPolicy b))) \<and>
      (\<forall>a \<in> set (dps_apps (bu_domainPolicy b)). scope_ok env ids (adp_policy a)) \<and>
      distinct (map dls_listId (bu_domainLists b)) \<and> (\<forall>l \<in> set (bu_domainLists b). list_ok env l))"

lemma check_seen_iff: "check_seen ok seen xs \<longleftrightarrow> distinct xs \<and> set xs \<inter> set seen = {} \<and> (\<forall>x \<in> set xs. ok x)"
  by (induction xs arbitrary: seen) auto

lemma validatePolicyScope_iff: "validatePolicyScope env ids sc = Inr u \<longleftrightarrow> scope_ok env (set ids) sc"
  by (auto simp: validatePolicyScope_def Let_def try_then_Inr check_seen_iff scope_ok_def)

lemma validate_apps_iff:
  "validate_apps uids cfgs = Inr u \<longleftrightarrow>
     distinct (map ac_uid cfgs) \<and> ac_uid ` set cfgs \<inter> set uids = {} \<and>
     (\<forall>c \<in> set cfgs. isValidAppBlockMask (ucast (ac_blockMask c)))"
  by (induction cfgs arbitrary: uids) (auto simp: try_then_Inr)

lemma validate_policies_iff:
  "validate_policies env ids uids as = Inr u \<longleftrightarrow>
     distinct (map adp_uid as) \<and> adp_uid ` set as \<inter> set uids = {} \<and> (\<forall>a \<in> set as. scope_ok env (set ids) (adp_policy a))"
  by (induction as arbitrary: uids) (auto simp: try_then_Inr validatePolicyScope_iff)

lemma validate_lists_iff:
  "validate_lists env ids ls = Inr u \<longleftrightarrow>
     distinct (map dls_listId ls) \<and> dls_listId ` set ls \<inter> set ids = {} \<and> (\<forall>l \<in> set ls. list_ok env l)"
  by (induction ls arbitrary: ids) (auto simp: try_then_Inr check_seen_iff list_ok_def)

lemma validate_rules_iff:
  "validate_rules env ids mx rs = Inr (ids', mx') \<longleftrightarrow>
     distinct (map dr_ruleId rs) \<and> dr_ruleId ` set rs \<inter> set ids = {} \<and>
     (\<forall>r \<in> set rs. ru_valid (rule_new (cp_regex env) (dr_type r) 0 (dr_pattern r))) \<and>
     ids' = rev (map dr_ruleId rs) @ ids \<and> mx' = fold (\<lambda>r m. max m (dr_ruleId r)) rs mx"
  by (induction rs arbitrary: ids mx) (auto simp: try_then_Inr)

lemma fold_max_le: "fold (\<lambda>r (m :: u32). max m (f r)) rs mx < n \<longleftrightarrow> mx < n \<and> (\<forall>r \<in> set rs. f r < n)"
  by (induction rs arbitrary: mx) auto

lemma rules_bound:
  "\<not> (rs \<noteq> [] \<and> n \<le> fold (\<lambda>r (m :: u32). max m (f r)) rs 0) \<longleftrightarrow> (\<forall>r \<in> set rs. f r < n)"
proof (cases rs)
  case (Cons r rs')
  have "(\<forall>r \<in> set rs. f r < n) \<Longrightarrow> 0 < n" using Cons by (auto intro: le_less_trans)
  then show ?thesis using fold_max_le [of f rs 0 n] Cons by (auto simp: not_le)
qed simp

lemma validateBundle_iff:
  "validateBundle env engine b = Inr u \<longleftrightarrow> bundle_ok env b \<and> res_ok (validatePolicySnapshot (bu_ipRules b) engine)"
proof -
  let ?rs = "drs_rules (bu_domainRules b)"
  have "validateBundle env engine b = Inr u \<longleftrightarrow>
    bu_formatVersion b = kFormatVersion \<and> isValidAppBlockMask (ucast (dc_blockMask (bu_deviceConfig b))) \<and>
    validate_apps [] (bu_appConfigs b) = Inr () \<and>
    validate_rules env [] 0 ?rs = Inr (rev (map dr_ruleId ?rs), fold (\<lambda>r m. max m (dr_ruleId r)) ?rs 0) \<and>
    \<not> (?rs \<noteq> [] \<and> drs_nextRuleId (bu_domainRules b) \<le> fold (\<lambda>r m. max m (dr_ruleId r)) ?rs 0) \<and>
    validatePolicyScope env (rev (map dr_ruleId ?rs)) (dps_device (bu_domainPolicy b)) = Inr () \<and>
    validate_policies env (rev (map dr_ruleId ?rs)) [] (dps_apps (bu_domainPolicy b)) = Inr () \<and>
    validate_lists env [] (bu_domainLists b) = Inr () \<and> res_ok (validatePolicySnapshot (bu_ipRules b) engine)"
    by (auto simp: validateBundle_def try_then_Inr Let_def validate_rules_iff)
  then show ?thesis
    unfolding rules_bound validatePolicyScope_iff validate_policies_iff validate_lists_iff validate_apps_iff validate_rules_iff
    by (auto simp: bundle_ok_def Let_def)
qed

section \<open>Validation of the IP rules does not depend on the engine\<close>

definition same_view :: "string + (RulesMap \<times> u32 \<times> Engine) \<Rightarrow> string + (RulesMap \<times> u32 \<times> Engine) \<Rightarrow> bool" where
  "same_view x y \<longleftrightarrow>
     (case (x, y) of (Inl a, Inl b) \<Rightarrow> a = b
      | (Inr (m, mx, _), Inr (m', mx', _)) \<Rightarrow> defs_view m = defs_view m' \<and> mx = mx' | _ \<Rightarrow> False)"

lemma defs_view_upd:
  "defs_view (omap_upd k \<lparr>st_def = d, st_stats = a\<rparr> id m) = omap_upd k d id (defs_view m)" if "map_of m k = None"
  using that by (induction m) (auto simp: defs_view_def split: if_splits)

lemma map_of_view: "map_of (defs_view m) k = map_option st_def (map_of m k)"
  by (induction m) (auto simp: defs_view_def)

lemma stage_loop_view:
  "defs_view m = defs_view m' \<Longrightarrow> same_view (stage_loop defs m mx e) (stage_loop defs m' mx e')"
proof (induction defs arbitrary: m m' mx e e')
  case Nil
  then show ?case by (simp add: same_view_def)
next
  case (Cons d defs)
  obtain a e1 where ms: "make_stats e = (a, e1)" by fastforce
  obtain a' e1' where ms': "make_stats e' = (a', e1')" by fastforce
  have iff: "map_of m (rd_ruleId d) = None \<longleftrightarrow> map_of m' (rd_ruleId d) = None"
    using map_of_view [of m "rd_ruleId d"] map_of_view [of m' "rd_ruleId d"] Cons.prems by auto
  show ?case
  proof (cases "validateRuleDef d")
    case (Inl err)
    then show ?thesis by (simp add: same_view_def)
  next
    case (Inr u)
    show ?thesis
    proof (cases "map_of m (rd_ruleId d)")
      case None
      then have n: "map_of m' (rd_ruleId d) = None" using iff by simp
      have "defs_view (omap_upd (rd_ruleId d) \<lparr>st_def = d, st_stats = a\<rparr> id m) =
          defs_view (omap_upd (rd_ruleId d) \<lparr>st_def = d, st_stats = a'\<rparr> id m')"
        by (simp add: defs_view_upd None n Cons.prems)
      from Cons.IH [OF this] show ?thesis by (simp add: Inr ms ms' omap_emplace_def None n)
    next
      case (Some s)
      then obtain s' where "map_of m' (rd_ruleId d) = Some s'" using iff by fastforce
      with Some show ?thesis by (simp add: Inr ms ms' omap_emplace_def same_view_def)
    qed
  qed
qed

lemma stage_view:
  "(\<exists>err. stage ps e = Inl err \<and> stage ps e' = Inl err) \<or>
   (\<exists>m e1 m' e1'. stage ps e = Inr (m, e1) \<and> stage ps e' = Inr (m', e1') \<and> defs_view m = defs_view m')"
  using stage_loop_view [of "[]" "[]" "ps_rules ps" 0 e e']
  by (auto simp: stage_def same_view_def split: sum.splits)

lemma validatePolicySnapshot_any: "res_ok (validatePolicySnapshot ps e) \<longleftrightarrow> res_ok (validatePolicySnapshot ps e')"
proof -
  have r: "snd (compile m a) = snd (compile m' b)" if "defs_view m = defs_view m'" for m m' a b
    using report_of_defs [OF that] by (simp add: compile_def)
  from stage_view [of ps e e'] show ?thesis
  proof (elim disjE exE conjE)
    fix m e1 m' e1'
    assume st: "stage ps e = Inr (m, e1)" "stage ps e' = Inr (m', e1')" and v: "defs_view m = defs_view m'"
    show ?thesis unfolding validatePolicySnapshot_def st
      by (simp add: Let_def r [OF v, of _ "eng_rulesEpoch e' + 1"] preflightFailed_def)
  qed (simp add: validatePolicySnapshot_def)
qed

lemma validateBundle_any: "validateBundle env e b = Inr u \<longleftrightarrow> validateBundle env e' b = Inr u"
  unfolding validateBundle_iff using validatePolicySnapshot_any [of "bu_ipRules b" e e'] by simp

section \<open>Round trip\<close>

text \<open>What the document can express: lists that block or allow, enumerators and ranges of the rules.\<close>

definition bundle_stored :: "Bundle \<Rightarrow> bool" where
  "bundle_stored b \<longleftrightarrow>
     (\<forall>l \<in> set (bu_domainLists b). dls_color l = BLACK \<or> dls_color l = WHITE) \<and>
     (\<forall>d \<in> set (ps_rules (bu_ipRules b)). rule_stored d)"

lemma document_back:
  assumes "bundle_ok env b" and "bundle_stored b"
  shows "parseBundleDocument (makeBundleDocument b) = Inr b"
proof -
  have fv: "bu_formatVersion b = kFormatVersion" and dc: "isValidAppBlockMask (ucast (dc_blockMask (bu_deviceConfig b)))"
    and ac: "\<forall>c \<in> set (bu_appConfigs b). isValidAppBlockMask (ucast (ac_blockMask c))"
    and ls: "\<forall>l \<in> set (bu_domainLists b). list_ok env l"
    using assms(1) by (simp_all add: bundle_ok_def Let_def)
  have apps: "parse_items parseAppConfigItem (map makeAppConfigItem (bu_appConfigs b)) = Inr (bu_appConfigs b)"
    using ac by (intro parse_items_make appConfig_back) simp
  have lists: "parse_items parseDomainListItem (map makeDomainListItem (bu_domainLists b)) = Inr (bu_domainLists b)"
    using ls assms(2) by (intro parse_items_make domainList_back) (simp_all add: list_ok_def bundle_stored_def)
  have t: "require_as GetUint64 ''u64'' (JObject ms) k = Inr (bu_createdAt b)"
    if "map_of ms k = Some (JInt (uint (bu_createdAt b)))" for ms k
    unfolding require_as_def using that by (simp only: member_object get_make option.case)
  have ip: "\<forall>d \<in> set (ps_rules (bu_ipRules b)). rule_stored d" using assms(2) by (simp add: bundle_stored_def)
  show ?thesis
    unfolding parseBundleDocument_def makeBundleDocument_def
    by (simp add: requireU64_def t)
       (simp add: read_defs fv kFormatVersion_def require_that_def apps lists deviceConfig_back [OF dc] domainRules_back
          domainPolicy_back ipRules_back [OF ip])
qed

lemma encode_decode:
  assumes "encodeBundle env e b = Inr data" and "bundle_stored b"
    and "cp_parse env (cp_write env (makeBundleDocument b)) = Inr (makeBundleDocument b)"
  shows "decodeBundle env e' data = Inr b"
proof -
  have v: "validateBundle env e b = Inr ()" and out: "data = cp_write env (makeBundleDocument b)"
    and len: "length data \<le> kMaxSlotBytes"
    using assms(1) by (auto simp: encodeBundle_def try_then_Inr Let_def errStatus_def split: if_splits)
  have ok: "bundle_ok env b" using v by (simp add: validateBundle_iff)
  have p: "parseStrictJsonObject (cp_parse env) data = Inr (makeBundleDocument b)"
    using assms(3) by (simp add: parseStrictJsonObject_def out makeBundleDocument_def)
  have "validateBundle env e' b = Inr ()" using v validateBundle_any by blast
  with len p show ?thesis by (simp add: decodeBundle_def document_back [OF ok assms(2)])
qed

text \<open>C13. A policy checkpoint reads back as the policy that was saved: whatever bundle a daemon encodes, any daemon
  decodes the text to the same bundle (validation does not depend on the daemon that runs it), provided its lists
  block or allow and its rules hold enumerators and ranges of the engine, and RapidJSON parses the text it wrote.\<close>

theorem checkpoint_bundle_roundtrip:
  assumes "encodeBundle env e b = Inr data" and "bundle_stored b"
    and "cp_parse env (cp_write env (makeBundleDocument b)) = Inr (makeBundleDocument b)"
  shows "decodeBundle env e' data = Inr b"
  using assms by (rule encode_decode)

definition ex_rule_id :: string where "ex_rule_id = ''r1''"

definition ex_ip_rule :: RuleDef where
  "ex_ip_rule = rule_default\<lparr>rd_ruleId := 3, rd_uid := 10001, rd_clientRuleId := ex_rule_id, rd_action := BLOCK,
     rd_priority := 10, rd_dst := \<lparr>c4_any = False, c4_addr = 0x08080808, c4_prefix = 32\<rparr>\<rparr>"

definition ex_guid :: string where "ex_guid = ''00000000-0000-0000-0000-00000000000a''"

definition ex_bundle :: Bundle where
  "ex_bundle = \<lparr>bu_formatVersion = 1, bu_createdAt = 1700000000,
     bu_deviceConfig = \<lparr>dc_blockEnabled = True, dc_blockMask = 1, dc_blockIface = 0, dc_reverseDns = False, dc_ipRulesEnabled = True\<rparr>,
     bu_appConfigs = [\<lparr>ac_uid = 10001, ac_blockMask = 129, ac_blockIface = 2, ac_useCustomList = True\<rparr>],
     bu_domainRules = \<lparr>drs_nextRuleId = 5, drs_rules = [\<lparr>dr_ruleId = 4, dr_type = R_DOMAIN, dr_pattern = ''x''\<rparr>]\<rparr>,
     bu_domainPolicy = \<lparr>dps_device = \<lparr>sc_allowDomains = [''a.org''], sc_blockDomains = [], sc_allowRuleIds = [], sc_blockRuleIds = [4]\<rparr>,
       dps_apps = [\<lparr>adp_uid = 10001, adp_policy = \<lparr>sc_allowDomains = [], sc_blockDomains = [''b.org''],
         sc_allowRuleIds = [4], sc_blockRuleIds = []\<rparr>\<rparr>]\<rparr>,
     bu_domainLists = [\<lparr>dls_listId = ex_guid, dls_color = BLACK, dls_mask = 1, dls_enabled = True, dls_url = [], dls_name = ''ads'',
       dls_updatedAt = [], dls_etag = [], dls_outdated = True, dls_domainsCount = 1, dls_domains = [''ads.org'']\<rparr>],
     bu_ipRules = \<lparr>ps_nextRuleId = 4, ps_rules = [ex_ip_rule]\<rparr>\<rparr>"

definition ex_cp_env :: "JsonValue \<Rightarrow> CpEnv" where
  "ex_cp_env doc = \<lparr>cp_regex = rx_lit, cp_hostNameMax = 255,
     cp_parse = (\<lambda>s. if s = ''bundle'' then Inr doc else Inl \<lparr>je_message = ''unknown'', je_offset = 0\<rparr>),
     cp_write = (\<lambda>v. if v = doc then ''bundle'' else ''other''), cp_get_time = (\<lambda>_. None), cp_mktime = (\<lambda>_. 0),
     cp_format_time = (\<lambda>_. None)\<rparr>"

lemma ex_guid_ok: "isValidGuid36 ex_guid"
  by code_simp

lemma ex_bundle_ok: "bundle_ok (ex_cp_env doc) ex_bundle"
proof -
  have v: "ru_valid (rule_new (cp_regex (ex_cp_env doc)) R_DOMAIN 0 ''x'')"
    by (simp add: ex_cp_env_def rule_new_def rule_create_def rx_lit_def)
  have d: "isValidDomainString (ex_cp_env doc) ''a.org''" "isValidDomainString (ex_cp_env doc) ''b.org''"
      "isValidDomainString (ex_cp_env doc) ''ads.org''"
    by (simp_all add: isValidDomainString_def ex_cp_env_def)
  have m: "isValidAppBlockMask 1" "isValidAppBlockMask 129" "isValidBlockingListMask 1"
    by code_simp+
  show ?thesis
    by (simp add: bundle_ok_def ex_bundle_def kFormatVersion_def v d m scope_ok_def list_ok_def ex_guid_ok
        isValidUpdatedAtString_def)
qed

lemma ex_bundle_stored: "bundle_stored ex_bundle"
  by (simp add: bundle_stored_def ex_bundle_def rule_stored_def ex_ip_rule_def rule_default_def port_stored_def port_any_def
      family_of_u8_def action_of_u8_def dir_of_u8_def iface_of_u8_def proto_of_u8_def ct_of_u8_def ctdir_of_u8_def
      anyCidrV4_def anyCidrV6_def zero_ip6_def)

definition ex_engine :: Engine where "ex_engine = engine_init 0 None"

lemma ex_ip_rules_ok: "res_ok (validatePolicySnapshot (bu_ipRules ex_bundle) ex_engine)"
  by code_simp

lemma ex_bundle_valid: "validateBundle (ex_cp_env doc) e ex_bundle = Inr ()"
  using ex_bundle_ok ex_ip_rules_ok validatePolicySnapshot_any [of _ e ex_engine] by (simp add: validateBundle_iff)

theorem checkpoint_bundle_roundtrip_witness:
  "decodeBundle (ex_cp_env (makeBundleDocument ex_bundle)) ex_engine ''bundle'' = Inr ex_bundle"
proof (rule checkpoint_bundle_roundtrip [where e = ex_engine])
  let ?env = "ex_cp_env (makeBundleDocument ex_bundle)"
  show "encodeBundle ?env ex_engine ex_bundle = Inr ''bundle''"
    by (simp add: encodeBundle_def ex_bundle_valid) (simp add: ex_cp_env_def kMaxSlotBytes_def)
  show "cp_parse ?env (cp_write ?env (makeBundleDocument ex_bundle)) = Inr (makeBundleDocument ex_bundle)"
    by (simp add: ex_cp_env_def)
qed (rule ex_bundle_stored)

text \<open>A checkpoint is accepted exactly when it is well formed: masks, distinct uids, list ids and domains, rule ids
  below the next one, scopes that name existing rules, and IP rules that any engine accepts; and what
  \<^verbatim>\<open>decodeBundle\<close> returns always is.\<close>

theorem accepted_bundles_are_valid:
  "(validateBundle env e b = Inr () \<longleftrightarrow> bundle_ok env b \<and> (\<forall>e'. res_ok (validatePolicySnapshot (bu_ipRules b) e'))) \<and>
   (decodeBundle env e data = Inr b \<longrightarrow> validateBundle env e b = Inr () \<and> length data \<le> kMaxSlotBytes)"
proof
  show "validateBundle env e b = Inr () \<longleftrightarrow> bundle_ok env b \<and> (\<forall>e'. res_ok (validatePolicySnapshot (bu_ipRules b) e'))"
    using validatePolicySnapshot_any [of "bu_ipRules b" _ e] by (auto simp: validateBundle_iff)
  show "decodeBundle env e data = Inr b \<longrightarrow> validateBundle env e b = Inr () \<and> length data \<le> kMaxSlotBytes"
    by (auto simp: decodeBundle_def try_then_Inr errStatus_def split: if_splits sum.splits)
qed

theorem accepted_bundles_are_valid_witness:
  "validateBundle (ex_cp_env (makeBundleDocument ex_bundle)) ex_engine ex_bundle = Inr ()"
proof -
  let ?env = "ex_cp_env (makeBundleDocument ex_bundle)"
  have p: "parseStrictJsonObject (cp_parse ?env) ''bundle'' = Inr (makeBundleDocument ex_bundle)"
    by (simp add: parseStrictJsonObject_def ex_cp_env_def makeBundleDocument_def)
  have "decodeBundle ?env ex_engine ''bundle'' = Inr ex_bundle"
    by (simp add: decodeBundle_def kMaxSlotBytes_def p document_back [OF ex_bundle_ok ex_bundle_stored] ex_bundle_valid)
  then show ?thesis using accepted_bundles_are_valid [of ?env ex_engine ex_bundle "''bundle''"] by blast
qed

text \<open>The numbers of enumerations are read as 32-bit values and cut to a byte without a check.\<close>

definition with_member :: "string \<Rightarrow> JsonValue \<Rightarrow> JsonValue \<Rightarrow> JsonValue" where
  "with_member k x v = JObject (map (\<lambda>m. if fst m = k then (k, x) else m) (members v))"

lemma with_member_keys: "map fst (members (with_member k x v)) = map fst (members v)"
  by (simp add: with_member_def comp_def if_distrib cong: if_cong)

theorem checkpoint_action_truncated:
  assumes "rule_stored d" and "ucast (n :: u32) = action_u8 (rd_action d)"
  shows "parseIpRuleItem (with_member ''action'' (JUint n) (makeIpRuleItem d)) = Inr d"
proof -
  let ?v = "with_member ''action'' (JUint n) (makeIpRuleItem d)"
  have keys: "rejectUnknownOrDuplicate ?v ipRuleKeys w = Inr ()" for w
    using ipRuleKeys_own with_member_keys [of "''action''" "JUint n" "makeIpRuleItem d"]
    by (simp add: with_member_def del: map_map)
  show ?thesis using assms
    by (simp add: parseIpRuleItem_def keys)
       (simp add: with_member_def makeIpRuleItem_def read_defs rule_stored_def port_back cidr4_back cidr6_back)
qed

end
