(* ===== verification/CheckpointFiles.thy ===== *)
theory CheckpointFiles
  imports CheckpointValid
begin

text \<open>
  The files of policy checkpoints (\<^verbatim>\<open>src/src/PolicyCheckpoint.cpp\<close>): the slots, written through a temporary file, and
  the directory of domain list files, replaced as a whole through a stage and a backup directory. A directory is a map
  from names to contents; which system calls succeed is an argument (\<open>SlotIo\<close>, \<open>StageIo\<close>), and the suffix of
  process id and clock that makes temporary names unique is an argument too.
\<close>

section \<open>Slots\<close>

record SlotMetadata =
  sm_slot :: u32
  sm_present :: bool
  sm_formatVersion :: u32
  sm_sizeBytes :: nat
  sm_createdAt :: u64

definition kSlotCount :: u32 where "kSlotCount = 3"

definition isValidSlot :: "u32 \<Rightarrow> bool" where
  "isValidSlot slot \<longleftrightarrow> slot < kSlotCount"

definition slotPath :: "u32 \<Rightarrow> string" where
  "slotPath slot = ''slot'' @ dec_string (unat slot) @ ''.bundle''"

definition tmpSlotPath :: "string \<Rightarrow> u32 \<Rightarrow> string" where
  "tmpSlotPath sfx slot = slotPath slot @ ''.tmp.'' @ sfx"

text \<open>\<open>sio_written\<close> is \<open>None\<close> when everything is written, or how many bytes were before the write failed;
  \<open>sio_read\<close> is what reading a file of the given content delivers.\<close>

record SlotIo =
  sio_mkdir :: bool
  sio_stat :: bool
  sio_open :: bool
  sio_read :: "string \<Rightarrow> string option"
  sio_written :: "nat option"
  sio_rename :: bool
  sio_unlink :: bool

definition io_works :: SlotIo where
  "io_works = \<lparr>sio_mkdir = True, sio_stat = True, sio_open = True, sio_read = Some, sio_written = None, sio_rename = True, sio_unlink = True\<rparr>"

definition internal :: "string \<Rightarrow> CpError + 'a" where
  "internal = errStatus ''INTERNAL_ERROR''"

definition statFile :: "SlotIo \<Rightarrow> string \<Rightarrow> Files \<Rightarrow> nat option" where
  "statFile io path fs = (if sio_stat io then map_option length (fs path) else None)"

text \<open>\<^verbatim>\<open>errno\<close> is \<^verbatim>\<open>ENOENT\<close> when \<^verbatim>\<open>stat\<close> itself works and the file is not there.\<close>

definition readFileBounded :: "SlotIo \<Rightarrow> string \<Rightarrow> Files \<Rightarrow> CpError + (string \<times> nat)" where
  "readFileBounded io path fs =
     (case statFile io path fs of
        None \<Rightarrow> if sio_stat io then errStatus ''NOT_FOUND'' ''checkpoint slot is empty'' else internal ''failed to stat checkpoint slot''
      | Some sizeBytes \<Rightarrow>
          if kMaxSlotBytes < sizeBytes then errStatus ''CAPACITY_EXCEEDED'' ''checkpoint slot exceeds 64 MiB cap''
          else if \<not> sio_open io then internal ''failed to open checkpoint slot''
          else case sio_read io (the (fs path)) of
                 None \<Rightarrow> internal ''failed to read checkpoint slot''
               | Some out \<Rightarrow>
                   if length out \<noteq> sizeBytes then invalid ''checkpoint slot read was truncated'' else Inr (out, sizeBytes))"

definition unlink_tmp :: "SlotIo \<Rightarrow> string \<Rightarrow> Files \<Rightarrow> Files" where
  "unlink_tmp io tmp fs = (if sio_unlink io then fs(tmp := None) else fs)"

definition writeSlotAtomically :: "SlotIo \<Rightarrow> string \<Rightarrow> u32 \<Rightarrow> string \<Rightarrow> Files \<Rightarrow> (CpError + unit) \<times> Files" where
  "writeSlotAtomically io sfx slot data fs =
     (let tmp = tmpSlotPath sfx slot in
      if kMaxSlotBytes < length data then (errStatus ''CAPACITY_EXCEEDED'' ''checkpoint bundle exceeds 64 MiB cap'', fs)
      else if \<not> sio_mkdir io then (internal ''failed to create directory'', fs)
      else if \<not> sio_open io then (internal ''failed to open checkpoint temp file'', fs)
      else case sio_written io of
        Some n \<Rightarrow> (internal ''failed to write checkpoint temp file'', unlink_tmp io tmp (fs(tmp := Some (take n data))))
      | None \<Rightarrow>
          let fs1 = fs(tmp := Some data) in
          case statFile io tmp fs1 of
            None \<Rightarrow> (internal ''failed to stat checkpoint temp file'', unlink_tmp io tmp fs1)
          | Some tmpSize \<Rightarrow>
              if kMaxSlotBytes < tmpSize
              then (errStatus ''CAPACITY_EXCEEDED'' ''checkpoint temp file exceeds 64 MiB cap'', unlink_tmp io tmp fs1)
              else case fs_rename (sio_rename io) tmp (slotPath slot) fs1 of
                     None \<Rightarrow> (internal ''failed to commit checkpoint slot'', unlink_tmp io tmp fs1)
                   | Some fs2 \<Rightarrow> (Inr (), fs2))"

definition slotMetadata :: "u32 \<Rightarrow> Bundle \<Rightarrow> nat \<Rightarrow> SlotMetadata" where
  "slotMetadata slot b sizeBytes =
     \<lparr>sm_slot = slot, sm_present = True, sm_formatVersion = bu_formatVersion b, sm_sizeBytes = sizeBytes, sm_createdAt = bu_createdAt b\<rparr>"

definition emptyMetadata :: "u32 \<Rightarrow> SlotMetadata" where
  "emptyMetadata slot = \<lparr>sm_slot = slot, sm_present = False, sm_formatVersion = 0, sm_sizeBytes = 0, sm_createdAt = 0\<rparr>"

text \<open>One element of \<^verbatim>\<open>listSlots\<close>; a slot that cannot be read or decoded is present with version and time zero.\<close>

definition listSlot :: "CpEnv \<Rightarrow> SlotIo \<Rightarrow> Engine \<Rightarrow> Files \<Rightarrow> u32 \<Rightarrow> SlotMetadata" where
  "listSlot env io engine fs slot =
     (case statFile io (slotPath slot) fs of
        None \<Rightarrow> emptyMetadata slot
      | Some sizeBytes \<Rightarrow>
          let meta = (emptyMetadata slot)\<lparr>sm_present := True, sm_sizeBytes := sizeBytes\<rparr> in
          if sizeBytes \<le> kMaxSlotBytes then
            case try_then (readFileBounded io (slotPath slot) fs) (\<lambda>(data, _). decodeBundle env engine data) of
              Inl _ \<Rightarrow> meta
            | Inr b \<Rightarrow> meta\<lparr>sm_formatVersion := bu_formatVersion b, sm_createdAt := bu_createdAt b\<rparr>
          else meta)"

definition listSlots :: "CpEnv \<Rightarrow> SlotIo \<Rightarrow> Engine \<Rightarrow> Files \<Rightarrow> SlotMetadata list" where
  "listSlots env io engine fs = map (listSlot env io engine fs) [0, 1, 2]"

definition clearSlot :: "SlotIo \<Rightarrow> u32 \<Rightarrow> Files \<Rightarrow> (CpError + SlotMetadata) \<times> Files" where
  "clearSlot io slot fs =
     (if \<not> isValidSlot slot then (invalid ''slot must be 0, 1, or 2'', fs)
      else if \<not> sio_mkdir io then (internal ''failed to create directory'', fs)
      else if fs (slotPath slot) \<noteq> None \<and> \<not> sio_unlink io then (internal ''failed to clear checkpoint slot'', fs)
      else (Inr (emptyMetadata slot), fs(slotPath slot := None)))"

text \<open>\<^verbatim>\<open>saveCurrentPolicyToSlot\<close> after the live policy was captured as \<open>b\<close>.\<close>

definition saveBundleToSlot ::
  "CpEnv \<Rightarrow> SlotIo \<Rightarrow> string \<Rightarrow> Engine \<Rightarrow> u32 \<Rightarrow> Bundle \<Rightarrow> Files \<Rightarrow> (CpError + SlotMetadata) \<times> Files" where
  "saveBundleToSlot env io sfx engine slot b fs =
     (if \<not> isValidSlot slot then (invalid ''slot must be 0, 1, or 2'', fs)
      else case try_then (validateBundle env engine b) (\<lambda>_. encodeBundle env engine b) of
        Inl e \<Rightarrow> (Inl e, fs)
      | Inr encoded \<Rightarrow>
          let (st, fs') = writeSlotAtomically io sfx slot encoded fs in
          (try_then st (\<lambda>_. Inr (slotMetadata slot b (length encoded))), fs'))"

definition readSlot :: "CpEnv \<Rightarrow> SlotIo \<Rightarrow> Engine \<Rightarrow> u32 \<Rightarrow> Files \<Rightarrow> CpError + (Bundle \<times> SlotMetadata)" where
  "readSlot env io engine slot fs =
     (if \<not> isValidSlot slot then invalid ''slot must be 0, 1, or 2''
      else try_then (readFileBounded io (slotPath slot) fs) (\<lambda>(data, sizeBytes).
           try_then (decodeBundle env engine data) (\<lambda>b. Inr (b, slotMetadata slot b sizeBytes))))"

section \<open>The directory of domain list files\<close>

type_synonym Dirs = "string \<Rightarrow> Files option"

record RestoreStaging =
  stg_stageDir :: string
  stg_backupDir :: string
  stg_published :: bool

definition noStaging :: RestoreStaging where
  "noStaging = \<lparr>stg_stageDir = [], stg_backupDir = [], stg_published = False\<rparr>"

datatype WriteOutcome = W_Ok | W_OpenFailed | W_WriteFailed | W_CommitFailed

text \<open>Which calls of the staging succeed; removing a tree always does. \<open>st_write\<close> is by the name of the file.\<close>

record StageIo =
  st_clear :: bool
  st_create :: bool
  st_write :: "string \<Rightarrow> WriteOutcome"
  st_parent :: bool
  st_exists :: bool
  st_backup :: bool
  st_publish :: bool
  st_undo :: bool
  st_list :: bool

definition domainListsFinalDir :: string where
  "domainListsFinalDir = saveDir @ ''domains_lists''"

definition tmpSiblingPath :: "string \<Rightarrow> string \<Rightarrow> string" where
  "tmpSiblingPath sfx path = path @ ''.tmp.'' @ sfx"

definition domainListFileName :: "DomainListSnapshot \<Rightarrow> string" where
  "domainListFileName l = dls_listId l @ (if dls_enabled l then [] else ''.disabled'')"

definition domainListData :: "DomainListSnapshot \<Rightarrow> string" where
  "domainListData l = concat (map line (dls_domains l))"

definition removeTree :: "string \<Rightarrow> Dirs \<Rightarrow> Dirs" where
  "removeTree path dirs = (if path = [] then dirs else dirs(path := None))"

definition dir_rename :: "bool \<Rightarrow> string \<Rightarrow> string \<Rightarrow> Dirs \<Rightarrow> Dirs option" where
  "dir_rename ok old new dirs =
     (case dirs old of None \<Rightarrow> None | Some d \<Rightarrow> if ok then Some (dirs(old := None, new := Some d)) else None)"

fun writeFileAtomically :: "WriteOutcome \<Rightarrow> string \<Rightarrow> string \<Rightarrow> Files \<Rightarrow> CpError + Files" where
  "writeFileAtomically W_Ok name data fs = Inr (fs(name := Some data))"
| "writeFileAtomically W_OpenFailed name data fs = internal ''failed to open checkpoint staging file''"
| "writeFileAtomically W_WriteFailed name data fs = internal ''failed to write checkpoint staging file''"
| "writeFileAtomically W_CommitFailed name data fs = internal ''failed to commit checkpoint staging file''"

fun write_lists :: "(string \<Rightarrow> WriteOutcome) \<Rightarrow> DomainListSnapshot list \<Rightarrow> Files \<Rightarrow> CpError + Files" where
  "write_lists out [] fs = Inr fs"
| "write_lists out (l # ls) fs =
     try_then (writeFileAtomically (out (domainListFileName l)) (domainListFileName l) (domainListData l) fs) (write_lists out ls)"

definition prepareDomainListFiles ::
  "StageIo \<Rightarrow> string \<Rightarrow> DomainListSnapshot list \<Rightarrow> Dirs \<Rightarrow> (CpError + unit) \<times> RestoreStaging \<times> Dirs" where
  "prepareDomainListFiles io sfx snapshots dirs =
     (let stage = tmpSiblingPath sfx (domainListsFinalDir @ ''.stage'');
          staging = noStaging\<lparr>stg_stageDir := stage\<rparr>
      in if \<not> st_clear io then (internal ''failed to clear checkpoint staging directory'', staging, dirs)
         else if \<not> st_create io then (internal ''failed to create checkpoint staging directory'', staging, removeTree stage dirs)
         else case write_lists (st_write io) snapshots Map.empty of
                Inl e \<Rightarrow> (Inl e, noStaging, removeTree stage dirs)
              | Inr fs \<Rightarrow> (Inr (), staging, dirs(stage := Some fs)))"

definition rollbackDomainListFiles :: "StageIo \<Rightarrow> RestoreStaging \<Rightarrow> Dirs \<Rightarrow> RestoreStaging \<times> Dirs" where
  "rollbackDomainListFiles io staging dirs =
     (noStaging,
      if stg_published staging then
        (let dirs1 = removeTree domainListsFinalDir dirs in
         if stg_backupDir staging \<noteq> [] then
           (case dir_rename (st_undo io) (stg_backupDir staging) domainListsFinalDir dirs1 of Some d \<Rightarrow> d | None \<Rightarrow> dirs1)
         else dirs1)
      else removeTree (stg_stageDir staging) dirs)"

definition commitDomainListFiles :: "RestoreStaging \<Rightarrow> Dirs \<Rightarrow> RestoreStaging \<times> Dirs" where
  "commitDomainListFiles staging dirs = (noStaging, removeTree (stg_backupDir staging) dirs)"

definition publishDomainListFiles ::
  "StageIo \<Rightarrow> string \<Rightarrow> RestoreStaging \<Rightarrow> Dirs \<Rightarrow> (CpError + unit) \<times> RestoreStaging \<times> Dirs" where
  "publishDomainListFiles io sfx staging dirs =
     (if stg_stageDir staging = [] then (internal ''checkpoint domain list staging missing'', staging, dirs)
      else if \<not> st_parent io then (internal ''failed to create checkpoint domain list parent'', staging, dirs)
      else if \<not> st_exists io then (internal ''failed to stat checkpoint domain list directory'', staging, dirs)
      else
        let final = domainListsFinalDir; backup = tmpSiblingPath sfx (final @ ''.backup'');
            (backedUp, staging1, dirs1) =
              (if dirs final = None then (True, staging, dirs)
               else case dir_rename (st_backup io) final backup (removeTree backup dirs) of
                      None \<Rightarrow> (False, staging\<lparr>stg_backupDir := []\<rparr>, removeTree backup dirs)
                    | Some d \<Rightarrow> (True, staging\<lparr>stg_backupDir := backup\<rparr>, d))
        in if \<not> backedUp then (internal ''failed to stage previous domain list directory'', staging1, dirs1)
           else case dir_rename (st_publish io) (stg_stageDir staging1) final dirs1 of
             Some d \<Rightarrow> (Inr (), staging1\<lparr>stg_published := True\<rparr>, d)
           | None \<Rightarrow>
               (internal ''failed to publish checkpoint domain list directory'', staging1\<lparr>stg_backupDir := []\<rparr>,
                if stg_backupDir staging1 \<noteq> [] then
                  (case dir_rename (st_undo io) (stg_backupDir staging1) final dirs1 of Some d \<Rightarrow> d | None \<Rightarrow> dirs1)
                else dirs1))"

definition cleanupStaleDomainListFiles :: "StageIo \<Rightarrow> DomainListSnapshot list \<Rightarrow> Files \<Rightarrow> Files" where
  "cleanupStaleDomainListFiles io snapshots fs =
     (let keep = concat (map (\<lambda>l. [dls_listId l, disabled_name (dls_listId l)]) snapshots) in
      if \<not> st_list io then fs else (\<lambda>name. if name \<in> set keep then fs name else None))"

definition stageBundleForRestore ::
  "CpEnv \<Rightarrow> StageIo \<Rightarrow> string \<Rightarrow> Engine \<Rightarrow> Bundle \<Rightarrow> RestoreStaging \<Rightarrow> Dirs \<Rightarrow> (CpError + unit) \<times> RestoreStaging \<times> Dirs" where
  "stageBundleForRestore env io sfx engine b staging dirs =
     (let (staging1, dirs1) = rollbackDomainListFiles io staging dirs in
      case validateBundle env engine b of
        Inl e \<Rightarrow> (Inl e, staging1, dirs1)
      | Inr _ \<Rightarrow> prepareDomainListFiles io sfx (bu_domainLists b) dirs1)"

section \<open>Slots are written as a whole\<close>

lemma slotPath_dot: "takeWhile (\<lambda>c. c \<noteq> CHR ''.'') (slotPath s @ x) = ''slot'' @ dec_string (unat s)"
proof -
  have n: "CHR ''.'' \<notin> set (dec_string (unat s))" by (rule dec_string_no_sep) (simp add: digit_val_def Let_def)
  then have "takeWhile (\<lambda>c. c \<noteq> CHR ''.'') (dec_string (unat s) @ CHR ''.'' # y) = dec_string (unat s)" for y
    by (subst takeWhile_append2) auto
  then show ?thesis by (simp add: slotPath_def)
qed

lemma slotPath_inj: "slotPath s @ x = slotPath s' @ y \<longleftrightarrow> s = s' \<and> x = y"
proof
  assume a: "slotPath s @ x = slotPath s' @ y"
  then have "''slot'' @ dec_string (unat s) = ''slot'' @ dec_string (unat s')" using slotPath_dot by metis
  then have "s = s'" using dec_string_inj [of "unat s" "unat s'"] by (simp add: word_unat_eq_iff)
  then show "s = s' \<and> x = y" using a by simp
qed simp

lemma slot_not_tmp [simp]: "slotPath s \<noteq> tmpSlotPath sfx s'"
  using slotPath_inj [of s "[]" s' "''.tmp.'' @ sfx"] by (simp add: tmpSlotPath_def)

lemma slotPath_eq [simp]: "slotPath s = slotPath s' \<longleftrightarrow> s = s'"
  using slotPath_inj [of s "[]" s' "[]"] by simp

lemma write_slot:
  assumes "writeSlotAtomically io sfx slot data fs = (r, fs')"
  shows "fs' (slotPath s) = (if r = Inr () \<and> s = slot then Some data else fs (slotPath s))"
    and "r = Inr () \<Longrightarrow> length data \<le> kMaxSlotBytes"
  using assms
  by (auto simp: writeSlotAtomically_def Let_def internal_def errStatus_def unlink_tmp_def fs_rename_def statFile_def
      split: if_splits option.splits)

text \<open>C14. Saving to a slot is all or nothing: it changes no other slot, when it is refused or fails at any call the
  slot holds what it held before, and when it succeeds reading the slot returns the saved bundle and the reported
  metadata, in any daemon.\<close>

theorem checkpoint_slot_roundtrip:
  assumes "saveBundleToSlot env io sfx e slot b fs = (r, fs')" and "bundle_stored b"
    and "cp_parse env (cp_write env (makeBundleDocument b)) = Inr (makeBundleDocument b)"
  shows "(\<forall>s. s \<noteq> slot \<longrightarrow> fs' (slotPath s) = fs (slotPath s)) \<and>
    (case r of Inl _ \<Rightarrow> fs' (slotPath slot) = fs (slotPath slot)
     | Inr meta \<Rightarrow> readSlot env io_works e' slot fs' = Inr (b, meta) \<and> listSlot env io_works e' fs' slot = meta)"
proof (cases "isValidSlot slot \<and> (\<exists>out. encodeBundle env e b = Inr out)")
  case False
  then show ?thesis using assms(1)
    by (auto simp: saveBundleToSlot_def invalid_def errStatus_def try_then_def split: if_splits sum.splits)
next
  case True
  then obtain out where valid: "isValidSlot slot" and enc: "encodeBundle env e b = Inr out" by blast
  have v: "validateBundle env e b = Inr ()" using enc by (auto simp: encodeBundle_def try_then_Inr)
  obtain st fs1 where w: "writeSlotAtomically io sfx slot out fs = (st, fs1)" by fastforce
  have eq: "fs1 = fs'" "r = try_then st (\<lambda>_. Inr (slotMetadata slot b (length out)))"
    using assms(1) by (simp_all add: saveBundleToSlot_def valid v enc w)
  note ws = write_slot [OF w]
  show ?thesis
  proof (cases st)
    case (Inl err)
    then show ?thesis using ws(1) eq by simp
  next
    case (Inr u)
    then have len: "length out \<le> kMaxSlotBytes" and cnt: "fs' (slotPath slot) = Some out" using ws eq by simp_all
    have rd: "readFileBounded io_works (slotPath slot) fs' = Inr (out, length out)"
      using len cnt by (simp add: readFileBounded_def statFile_def io_works_def)
    have dec: "decodeBundle env e' out = Inr b" by (rule encode_decode [OF enc assms(2,3)])
    have "listSlot env io_works e' fs' slot = slotMetadata slot b (length out)"
      using len cnt by (simp add: listSlot_def rd dec statFile_def io_works_def [symmetric])
         (simp add: io_works_def slotMetadata_def emptyMetadata_def)
    then show ?thesis using Inr eq ws(1) by (simp add: readSlot_def valid rd dec)
  qed
qed

theorem checkpoint_slot_roundtrip_witness:
  "\<exists>meta fs'. saveBundleToSlot (ex_cp_env (makeBundleDocument ex_bundle)) io_works ''1.2'' ex_engine 1 ex_bundle Map.empty = (Inr meta, fs') \<and>
     readSlot (ex_cp_env (makeBundleDocument ex_bundle)) io_works ex_engine 1 fs' = Inr (ex_bundle, meta)"
proof -
  let ?env = "ex_cp_env (makeBundleDocument ex_bundle)"
  have enc: "encodeBundle ?env ex_engine ex_bundle = Inr ''bundle''"
    by (simp add: encodeBundle_def ex_bundle_valid) (simp add: ex_cp_env_def kMaxSlotBytes_def)
  have js: "cp_parse ?env (cp_write ?env (makeBundleDocument ex_bundle)) = Inr (makeBundleDocument ex_bundle)"
    by (simp add: ex_cp_env_def)
  have "\<exists>meta fs'. saveBundleToSlot ?env io_works ''1.2'' ex_engine 1 ex_bundle Map.empty = (Inr meta, fs')"
    by (simp add: saveBundleToSlot_def isValidSlot_def kSlotCount_def ex_bundle_valid enc writeSlotAtomically_def io_works_def
        kMaxSlotBytes_def statFile_def fs_rename_def)
  then obtain meta fs' where s: "saveBundleToSlot ?env io_works ''1.2'' ex_engine 1 ex_bundle Map.empty = (Inr meta, fs')" by blast
  show ?thesis using checkpoint_slot_roundtrip [OF s ex_bundle_stored js, of ex_engine] s by auto
qed

section \<open>The directory of lists is replaced as a whole\<close>

definition list_files :: "DomainListSnapshot list \<Rightarrow> Files" where
  "list_files ls = fold (\<lambda>l fs. fs(domainListFileName l := Some (domainListData l))) ls Map.empty"

lemma write_lists_Inr:
  "write_lists out ls fs = Inr fs' \<Longrightarrow> fs' = fold (\<lambda>l fs. fs(domainListFileName l := Some (domainListData l))) ls fs"
proof (induction ls arbitrary: fs)
  case (Cons l ls)
  from Cons.prems obtain fs1 where w: "writeFileAtomically (out (domainListFileName l)) (domainListFileName l) (domainListData l) fs = Inr fs1"
    and rest: "write_lists out ls fs1 = Inr fs'" by (auto simp: try_then_Inr)
  from w have "fs1 = fs(domainListFileName l := Some (domainListData l))"
    by (cases "out (domainListFileName l)") (auto simp: internal_def errStatus_def)
  then show ?case using Cons.IH [OF rest] by simp
qed simp

lemma paths_differ:
  "tmpSiblingPath x (domainListsFinalDir @ ''.stage'') \<noteq> domainListsFinalDir"
  "tmpSiblingPath x (domainListsFinalDir @ ''.backup'') \<noteq> domainListsFinalDir"
  "tmpSiblingPath x (domainListsFinalDir @ ''.stage'') \<noteq> tmpSiblingPath y (domainListsFinalDir @ ''.backup'')"
  "tmpSiblingPath x p \<noteq> []" "domainListsFinalDir \<noteq> []"
  by (simp_all add: tmpSiblingPath_def domainListsFinalDir_def)

lemma publish_rollback:
  assumes "prepareDomainListFiles io sfx ls dirs = (Inr (), stg, d1)"
    and "publishDomainListFiles io2 sfx2 stg d1 = (r, stg2, d2)" and "st_undo io2"
  shows "(r = Inr () \<longrightarrow> snd (commitDomainListFiles stg2 d2) domainListsFinalDir = Some (list_files ls)) \<and>
    snd (rollbackDomainListFiles io2 stg2 d2) domainListsFinalDir = dirs domainListsFinalDir"
proof -
  let ?stage = "tmpSiblingPath sfx (domainListsFinalDir @ ''.stage'')"
  have stg: "stg = noStaging\<lparr>stg_stageDir := ?stage\<rparr>" and d1: "d1 = dirs(?stage := Some (list_files ls))"
    using assms(1) write_lists_Inr
    by (auto simp: prepareDomainListFiles_def Let_def internal_def errStatus_def list_files_def split: if_splits sum.splits)
  note p = paths_differ paths_differ(1) [symmetric] paths_differ(2) [symmetric] paths_differ(3) [symmetric]
  show ?thesis
  proof (cases "dirs domainListsFinalDir")
    case None
    then show ?thesis using assms(2,3) p
      by (auto simp: publishDomainListFiles_def stg d1 Let_def internal_def errStatus_def dir_rename_def noStaging_def
          rollbackDomainListFiles_def commitDomainListFiles_def removeTree_def split: if_splits option.splits)
  next
    case (Some d)
    then show ?thesis using assms(2,3) p
      by (auto simp: publishDomainListFiles_def stg d1 Let_def internal_def errStatus_def dir_rename_def noStaging_def
          rollbackDomainListFiles_def commitDomainListFiles_def removeTree_def split: if_splits option.splits)
  qed
qed

text \<open>A restore replaces the directory of domain list files as a whole: once the stage is prepared, publishing and
  committing leaves exactly the files of the checkpoint; when publishing fails, or the restore is rolled back after it,
  the directory is what it was, provided a directory that was moved away can be moved back.\<close>

theorem list_directory_all_or_nothing:
  assumes "prepareDomainListFiles io sfx ls dirs = (Inr (), stg, d1)"
    and "publishDomainListFiles io2 sfx2 stg d1 = (r, stg2, d2)" and "st_undo io2"
  shows "(r = Inr () \<longrightarrow> snd (commitDomainListFiles stg2 d2) domainListsFinalDir = Some (list_files ls)) \<and>
    snd (rollbackDomainListFiles io2 stg2 d2) domainListsFinalDir = dirs domainListsFinalDir"
  using assms by (rule publish_rollback)

definition stage_io :: StageIo where
  "stage_io = \<lparr>st_clear = True, st_create = True, st_write = (\<lambda>_. W_Ok), st_parent = True, st_exists = True, st_backup = True,
     st_publish = True, st_undo = True, st_list = True\<rparr>"

theorem list_directory_all_or_nothing_witness:
  "\<exists>stg d1 stg2 d2. prepareDomainListFiles stage_io ''1'' (bu_domainLists ex_bundle) (\<lambda>_. None) = (Inr (), stg, d1) \<and>
     publishDomainListFiles stage_io ''2'' stg d1 = (Inr (), stg2, d2) \<and>
     snd (commitDomainListFiles stg2 d2) domainListsFinalDir = Some (list_files (bu_domainLists ex_bundle))"
proof -
  have "\<exists>stg d1. prepareDomainListFiles stage_io ''1'' (bu_domainLists ex_bundle) (\<lambda>_. None) = (Inr (), stg, d1) \<and>
      stg_stageDir stg \<noteq> [] \<and> d1 (stg_stageDir stg) \<noteq> None \<and> d1 domainListsFinalDir = None"
    using paths_differ(1) [of "''1''"] paths_differ(4) by (simp add: prepareDomainListFiles_def stage_io_def ex_bundle_def noStaging_def Let_def)
  then obtain stg d1 where prep: "prepareDomainListFiles stage_io ''1'' (bu_domainLists ex_bundle) (\<lambda>_. None) = (Inr (), stg, d1)"
    and st: "stg_stageDir stg \<noteq> []" "d1 (stg_stageDir stg) \<noteq> None" "d1 domainListsFinalDir = None" by blast
  have "\<exists>stg2 d2. publishDomainListFiles stage_io ''2'' stg d1 = (Inr (), stg2, d2)"
    using st by (auto simp: publishDomainListFiles_def stage_io_def dir_rename_def Let_def)
  then obtain stg2 d2 where pub: "publishDomainListFiles stage_io ''2'' stg d1 = (Inr (), stg2, d2)" by blast
  show ?thesis using list_directory_all_or_nothing [OF prep pub] prep pub by (auto simp: stage_io_def)
qed

end
