(* ===== verification/CheckpointLive.thy ===== *)
theory CheckpointLive
  imports CheckpointFiles PacketWorld
begin

text \<open>
  Capturing the live policy in a bundle and restoring it (\<^verbatim>\<open>captureLivePolicy\<close>, \<^verbatim>\<open>restoreBundleToLivePolicy\<close>,
  \<^verbatim>\<open>src/src/PolicyCheckpoint.cpp\<close>; \<^verbatim>\<open>snortCheckpointSave\<close>, \<^verbatim>\<open>snortCheckpointRestore\<close>, \<^verbatim>\<open>src/src/sucre-snort.cpp\<close>): the
  composition of the rules engine, the registries of apps, rules and domains, the settings and the blocking lists. The
  commands hold the control mutex and the save mutex, so that each is one step.
\<close>

section \<open>State\<close>

text \<open>The blocking lists are an \<^verbatim>\<open>unordered_map\<close>: an association list whose order carries no meaning. The files of the
  final directory of domain lists are those of the domain registry (\<open>dm_files\<close>); \<open>cw_dirs\<close> says whether it exists.\<close>

record CpWorld =
  cw_daemon :: Daemon
  cw_lists :: "(string \<times> BlockingList) list"
  cw_dirs :: Dirs
  cw_slots :: Files

definition cw_policy :: "CpWorld \<Rightarrow> Policy" where
  "cw_policy w = dn_policy (cw_daemon w)"

definition cw_engine :: "CpWorld \<Rightarrow> Engine" where
  "cw_engine w = dn_engine (cw_daemon w)"

definition live_dirs :: "CpWorld \<Rightarrow> Dirs" where
  "live_dirs w = (cw_dirs w)(domainListsFinalDir :=
     (if cw_dirs w domainListsFinalDir = None then None else Some (dm_files (p_dm (cw_policy w)))))"

definition with_policy :: "(Policy \<Rightarrow> Policy) \<Rightarrow> CpWorld \<Rightarrow> CpWorld" where
  "with_policy f w = w\<lparr>cw_daemon := on_policy f (cw_daemon w)\<rparr>"

definition with_dirs :: "Dirs \<Rightarrow> CpWorld \<Rightarrow> CpWorld" where
  "with_dirs d w = with_policy (upd_dm (\<lambda>m. m\<lparr>dm_files := (case d domainListsFinalDir of Some f \<Rightarrow> f | None \<Rightarrow> Map.empty)\<rparr>)) (w\<lparr>cw_dirs := d\<rparr>)"

section \<open>Blocking lists\<close>

definition bl_replaceAllForCheckpointRestore :: "(string \<times> BlockingList) list \<Rightarrow> CpWorld \<Rightarrow> CpWorld" where
  "bl_replaceAllForCheckpointRestore newLists w = w\<lparr>cw_lists := newLists\<rparr>"

definition bl_getLists :: "CpWorld \<Rightarrow> BlockingList list" where
  "bl_getLists w = map snd (cw_lists w)"

definition parseUpdatedAtTime :: "CpEnv \<Rightarrow> string \<Rightarrow> CpError + int" where
  "parseUpdatedAtTime env updatedAt =
     (if updatedAt = [] then Inr 0
      else case cp_get_time env updatedAt of
             None \<Rightarrow> invalid ''domain list updatedAt invalid''
           | Some tm \<Rightarrow> Inr (cp_mktime env tm))"

definition bl_of_snapshot :: "DomainListSnapshot \<Rightarrow> int \<Rightarrow> BlockingList" where
  "bl_of_snapshot l updatedAt =
     \<lparr>bl_id = dls_listId l, bl_name = dls_name l, bl_url = dls_url l, bl_color = dls_color l, bl_blockMask = dls_mask l,
      bl_updatedAt = updatedAt, bl_outdated = dls_outdated l, bl_etag = dls_etag l, bl_enabled = dls_enabled l,
      bl_domainsCount = dls_domainsCount l\<rparr>"

fun build_lists :: "CpEnv \<Rightarrow> DomainListSnapshot list \<Rightarrow> (string \<times> BlockingList) list \<Rightarrow> CpError + (string \<times> BlockingList) list" where
  "build_lists env [] out = Inr out"
| "build_lists env (l # ls) out =
     try_then (parseUpdatedAtTime env (dls_updatedAt l)) (\<lambda>t.
     build_lists env ls (if map_of out (dls_listId l) = None then out @ [(dls_listId l, bl_of_snapshot l t)] else out))"

definition buildBlockingListsForRestore :: "CpEnv \<Rightarrow> DomainListSnapshot list \<Rightarrow> CpError + (string \<times> BlockingList) list" where
  "buildBlockingListsForRestore env snapshots = build_lists env snapshots []"

section \<open>Capture\<close>

definition formatUpdatedAt :: "CpEnv \<Rightarrow> int \<Rightarrow> string" where
  "formatUpdatedAt env updatedAt =
     (if updatedAt = 0 then [] else case cp_format_time env updatedAt of None \<Rightarrow> [] | Some s \<Rightarrow> s)"

definition sortPolicyScope :: "DomainPolicyScopeSnapshot \<Rightarrow> DomainPolicyScopeSnapshot" where
  "sortPolicyScope sc =
     \<lparr>sc_allowDomains = std_sort string_less (sc_allowDomains sc), sc_blockDomains = std_sort string_less (sc_blockDomains sc),
      sc_allowRuleIds = std_sort (<) (sc_allowRuleIds sc), sc_blockRuleIds = std_sort (<) (sc_blockRuleIds sc)\<rparr>"

definition capture_scope :: "addr option \<Rightarrow> Policy \<Rightarrow> DomainPolicyScopeSnapshot" where
  "capture_scope app p = sortPolicyScope
     \<lparr>sc_allowDomains = snapshotCustomDomains app WHITE p, sc_blockDomains = snapshotCustomDomains app BLACK p,
      sc_allowRuleIds = current_rules app WHITE p, sc_blockRuleIds = current_rules app BLACK p\<rparr>"

definition capture_app :: "Policy \<Rightarrow> addr \<Rightarrow> AppConfigSnapshot" where
  "capture_app p a =
     (let x = p_appHeap p a in
      \<lparr>ac_uid = a_uid x, ac_blockMask = a_blockMask x, ac_blockIface = a_blockIface x, ac_useCustomList = a_useCustomList x\<rparr>)"

definition capture_list :: "CpEnv \<Rightarrow> Policy \<Rightarrow> BlockingList \<Rightarrow> DomainListSnapshot" where
  "capture_list env p bl =
     (let domains = std_sort string_less (snapshotDomainListContents (bl_id bl) (bl_color bl) p) in
      \<lparr>dls_listId = bl_id bl, dls_color = bl_color bl, dls_mask = bl_blockMask bl, dls_enabled = bl_enabled bl,
       dls_url = bl_url bl, dls_name = bl_name bl, dls_updatedAt = formatUpdatedAt env (bl_updatedAt bl), dls_etag = bl_etag bl,
       dls_outdated = bl_outdated bl, dls_domainsCount = of_nat (length domains), dls_domains = domains\<rparr>)"

definition list_before :: "BlockingList \<Rightarrow> BlockingList \<Rightarrow> bool" where
  "list_before a b =
     (if bl_color a \<noteq> bl_color b then string_less (cp_listKindString (bl_color a)) (cp_listKindString (bl_color b))
      else string_less (bl_id a) (bl_id b))"

definition captureLivePolicy :: "CpEnv \<Rightarrow> u64 \<Rightarrow> CpWorld \<Rightarrow> Bundle" where
  "captureLivePolicy env now w =
     (let p = cw_policy w; st = p_settings p; apps = snapshotByUid None p in
      \<lparr>bu_formatVersion = kFormatVersion, bu_createdAt = now,
       bu_deviceConfig = \<lparr>dc_blockEnabled = set_blockEnabled st, dc_blockMask = set_blockMask st, dc_blockIface = set_blockIface st,
         dc_reverseDns = set_reverseDns st, dc_ipRulesEnabled = set_ipRulesEnabled st\<rparr>,
       bu_appConfigs = std_sort (\<lambda>a b. ac_uid a < ac_uid b) (map (capture_app p) apps),
       bu_domainRules = \<lparr>drs_nextRuleId = nextRuleIdSnapshot p,
         drs_rules = map (\<lambda>r. \<lparr>dr_ruleId = br_ruleId r, dr_type = br_type r, dr_pattern = br_pattern r\<rparr>)
           (std_sort (\<lambda>a b. br_ruleId a < br_ruleId b) (snapshotBaseline p))\<rparr>,
       bu_domainPolicy = \<lparr>dps_device = capture_scope None p,
         dps_apps = std_sort (\<lambda>a b. adp_uid a < adp_uid b)
           (map (\<lambda>a. \<lparr>adp_uid = a_uid (p_appHeap p a), adp_policy = capture_scope (Some a) p\<rparr>) apps)\<rparr>,
       bu_domainLists = map (capture_list env p) (std_sort list_before (bl_getLists w)),
       bu_ipRules = policySnapshot (cw_engine w)\<rparr>)"

section \<open>Restore\<close>

text \<open>\<^verbatim>\<open>applyCheckpointPolicyConfig\<close> also sets three legacy settings to constants that nothing modelled here reads.\<close>

definition settings_applyCheckpointPolicyConfig :: "DeviceConfigSnapshot \<Rightarrow> Settings \<Rightarrow> Settings" where
  "settings_applyCheckpointPolicyConfig dc st =
     st\<lparr>set_blockEnabled := dc_blockEnabled dc, set_blockMask := normalizeAppBlockMask (dc_blockMask dc),
        set_blockIface := dc_blockIface dc, set_reverseDns := dc_reverseDns dc, set_ipRulesEnabled := dc_ipRulesEnabled dc\<rparr>"

definition restore_app :: "regex \<Rightarrow> u8 \<Rightarrow> u8 \<Rightarrow> bool \<Rightarrow> addr \<Rightarrow> Policy \<Rightarrow> Policy" where
  "restore_app rx m i custom a p =
     upd_app a (\<lambda>x. clearCheckpointDomainPolicy rx (p_ruleHeap p) (applyCheckpointPolicyConfig m i custom x)) p"

text \<open>\<^verbatim>\<open>appManager.make(uid)\<close>, then an operation on the app.\<close>

definition on_made_app :: "int \<Rightarrow> u32 \<Rightarrow> (addr \<Rightarrow> Policy \<Rightarrow> Policy) \<Rightarrow> Policy \<Rightarrow> Policy" where
  "on_made_app today uid f p = (let (a, p1) = am_make today uid p in case a of None \<Rightarrow> p1 | Some a \<Rightarrow> f a p1)"

definition addPolicyScope :: "regex \<Rightarrow> int \<Rightarrow> DomainPolicyScopeSnapshot \<Rightarrow> addr option \<Rightarrow> Policy \<Rightarrow> Policy" where
  "addPolicyScope rx today sc app p =
     (let p1 = fold (\<lambda>d. addCustomDomain today app d WHITE) (sc_allowDomains sc) p;
          p2 = fold (\<lambda>d. addCustomDomain today app d BLACK) (sc_blockDomains sc) p1;
          p3 = fold (\<lambda>i. rm_addCustom rx app i WHITE True) (sc_allowRuleIds sc) p2
      in fold (\<lambda>i. rm_addCustom rx app i BLACK True) (sc_blockRuleIds sc) p3)"

definition restore_apps :: "regex \<Rightarrow> int \<Rightarrow> Bundle \<Rightarrow> Policy \<Rightarrow> Policy" where
  "restore_apps rx today b p =
     (let p1 = p\<lparr>p_settings := settings_applyCheckpointPolicyConfig (bu_deviceConfig b) (p_settings p)\<rparr>;
          st = p_settings p1;
          p2 = fold (restore_app rx (set_blockMask st) (set_blockIface st) False) (snapshotByUid None p1) p1
      in fold (\<lambda>cfg. on_made_app today (ac_uid cfg)
           (restore_app rx (ac_blockMask cfg) (ac_blockIface cfg) (ac_useCustomList cfg))) (bu_appConfigs b) p2)"

definition restore_domain_rules :: "regex \<Rightarrow> Bundle \<Rightarrow> Policy \<Rightarrow> Policy" where
  "restore_domain_rules rx b p =
     ensureNextRuleIdAtLeast (drs_nextRuleId (bu_domainRules b))
       (fold (\<lambda>r. upsertRuleWithId rx (dr_ruleId r) (dr_type r) (dr_pattern r)) (drs_rules (bu_domainRules b)) (rm_reset p))"

definition restore_scopes :: "regex \<Rightarrow> int \<Rightarrow> Bundle \<Rightarrow> Policy \<Rightarrow> Policy" where
  "restore_scopes rx today b p =
     fold (\<lambda>a. on_made_app today (adp_uid a) (\<lambda>app. addPolicyScope rx today (adp_policy a) (Some app)))
       (dps_apps (bu_domainPolicy b)) (addPolicyScope rx today (dps_device (bu_domainPolicy b)) None p)"

record RestoreIo =
  ri_stage :: StageIo
  ri_faults :: IoFaults
  ri_suffix :: string
  ri_today :: int

text \<open>The steps after the IP rules are in place; nothing in them can fail.\<close>

definition restore_live :: "CpEnv \<Rightarrow> RestoreIo \<Rightarrow> Bundle \<Rightarrow> (string \<times> BlockingList) list \<Rightarrow> CpWorld \<Rightarrow> CpWorld" where
  "restore_live env io b restoredLists w2 =
     (let rx = cp_regex env; today = ri_today io;
          w3 = with_policy (\<lambda>p. resetPolicyForCheckpointRestore rx (restore_apps rx today b p)) w2;
          w4 = bl_replaceAllForCheckpointRestore restoredLists w3;
          w5 = with_policy (restore_domain_rules rx b) w4;
          w6 = with_policy (dm_start (ri_faults io) (bl_getLists w5)) w5;
          w7 = with_policy (restore_scopes rx today b) w6
      in with_policy (upd_dm (\<lambda>m. m\<lparr>dm_files := cleanupStaleDomainListFiles (ri_stage io) (bu_domainLists b) (dm_files m)\<rparr>)) w7)"

definition restoreBundleToLivePolicy ::
  "CpEnv \<Rightarrow> RestoreIo \<Rightarrow> Bundle \<Rightarrow> RestoreStaging \<Rightarrow> CpWorld \<Rightarrow> (CpError + unit) \<times> RestoreStaging \<times> CpWorld" where
  "restoreBundleToLivePolicy env io b staging w =
     (let fail = (\<lambda>err staging w. let (staging', d) = rollbackDomainListFiles (ri_stage io) staging (live_dirs w)
                                  in (Inl err, staging', with_dirs d w))
      in case try_then (validateBundle env (cw_engine w) b) (\<lambda>_. buildBlockingListsForRestore env (bu_domainLists b)) of
           Inl err \<Rightarrow> fail err staging w
         | Inr restoredLists \<Rightarrow>
             let (st, staging1, d) = publishDomainListFiles (ri_stage io) (ri_suffix io) staging (live_dirs w); w1 = with_dirs d w in
             case st of
               Inl err \<Rightarrow> fail err staging1 w1
             | Inr _ \<Rightarrow>
                 let (ipRestore, engine) = restorePolicySnapshot (bu_ipRules b) (cw_engine w1);
                     w2 = w1\<lparr>cw_daemon := (cw_daemon w1)\<lparr>dn_engine := engine\<rparr>\<rparr>
                 in if \<not> res_ok ipRestore
                    then fail \<lparr>ce_code = ''INVALID_ARGUMENT'', ce_message = ''failed to restore iprules checkpoint: '' @ res_error ipRestore\<rparr> staging1 w2
                    else
                      let w8 = restore_live env io b restoredLists w2;
                          (staging2, d2) = commitDomainListFiles staging1 (live_dirs w8)
                      in (Inr (), staging2, with_dirs d2 w8))"

section \<open>The commands\<close>

definition snortCheckpointSave :: "CpEnv \<Rightarrow> SlotIo \<Rightarrow> string \<Rightarrow> u64 \<Rightarrow> u32 \<Rightarrow> CpWorld \<Rightarrow> (CpError + SlotMetadata) \<times> CpWorld" where
  "snortCheckpointSave env io sfx now slot w =
     (let (r, fs) = saveBundleToSlot env io sfx (cw_engine w) slot (captureLivePolicy env now w) (cw_slots w)
      in (r, w\<lparr>cw_slots := fs\<rparr>))"

definition snortCheckpointClear :: "SlotIo \<Rightarrow> u32 \<Rightarrow> CpWorld \<Rightarrow> (CpError + SlotMetadata) \<times> CpWorld" where
  "snortCheckpointClear io slot w = (let (r, fs) = clearSlot io slot (cw_slots w) in (r, w\<lparr>cw_slots := fs\<rparr>))"

text \<open>What a restore does to the runtime state of the daemon; streams, the DNS listener and the save files are left out.\<close>

definition checkpoint_runtime_reset :: "int \<Rightarrow> u64 \<Rightarrow> Daemon \<Rightarrow> Daemon" where
  "checkpoint_runtime_reset today nowNs w =
     (let w1 = on_ct (\<lambda>cf. snd (exportTelemetryDisabledEnds nowNs cf)) w;
          w2 = w1\<lparr>dn_tele := tele_resetAll (dn_tele w1)\<rparr>;
          w3 = on_policy (\<lambda>p. resetRuleHits (resetRuntimeAssociationsForCheckpoint
                 (upd_dm (\<lambda>m. m\<lparr>dm_sources := metrics_reset (dm_sources m)\<rparr>) (am_resetCheckpointRuntimeMetrics today p)))) w2;
          w4 = pm_resetCheckpointRuntimeEpoch w3
      in w4\<lparr>dn_hosts := hm_reset (dn_hosts w4)\<rparr>)"

definition snortCheckpointRestore ::
  "CpEnv \<Rightarrow> SlotIo \<Rightarrow> string \<Rightarrow> RestoreIo \<Rightarrow> u64 \<Rightarrow> u32 \<Rightarrow> CpWorld \<Rightarrow> (CpError + SlotMetadata) \<times> CpWorld" where
  "snortCheckpointRestore env io sfx rio nowNs slot w =
     (case readSlot env io (cw_engine w) slot (cw_slots w) of
        Inl e \<Rightarrow> (Inl e, w)
      | Inr (b, meta) \<Rightarrow>
          let (st, staging, d) = stageBundleForRestore env (ri_stage rio) sfx (cw_engine w) b noStaging (live_dirs w);
              w1 = with_dirs d w
          in case st of
               Inl e \<Rightarrow> (Inl e, w1)
             | Inr _ \<Rightarrow>
                 let (r, _, w2) = restoreBundleToLivePolicy env rio b staging w1 in
                 case r of
                   Inl e \<Rightarrow> (Inl e, w2)
                 | Inr _ \<Rightarrow> (Inr meta, w2\<lparr>cw_daemon := checkpoint_runtime_reset (ri_today rio) nowNs (cw_daemon w2)\<rparr>))"

end
