(* ===== verification/CheckpointScopes.thy ===== *)
theory CheckpointScopes
  imports CheckpointLive AppGuarantees
begin

text \<open>
  What the restore steps on apps and scopes do to the policy: each adds to the custom domains and rules of one app or
  of the device and leaves everything else alone; an app is made when its uid is not registered yet.
\<close>

section \<open>Frames\<close>

text \<open>What the scopes never touch: settings, the registry of apps and their configuration, the rules of the registry
  and the domain lists.\<close>

definition scope_frame :: "Policy \<Rightarrow> Policy \<Rightarrow> bool" where
  "scope_frame p p' \<longleftrightarrow>
     p_settings p' = p_settings p \<and> p_am p' = p_am p \<and> p_nextApp p' = p_nextApp p \<and> capture_app p' = capture_app p \<and>
     rm_rules (p_rm p') = rm_rules (p_rm p) \<and> rm_idCount (p_rm p') = rm_idCount (p_rm p) \<and> p_ruleHeap p' = p_ruleHeap p \<and>
     dm_blacklist (p_dm p') = dm_blacklist (p_dm p) \<and> dm_whitelist (p_dm p') = dm_whitelist (p_dm p) \<and>
     (\<forall>a. a_name (p_appHeap p' a) = a_name (p_appHeap p a))"

lemma scope_frame_refl [simp]: "scope_frame p p"
  by (simp add: scope_frame_def)

lemma scope_frame_trans: "scope_frame p q \<Longrightarrow> scope_frame q r \<Longrightarrow> scope_frame p r"
  by (simp add: scope_frame_def)

lemma scope_frame_fold: "(\<And>x q. scope_frame q (f x q)) \<Longrightarrow> scope_frame p (fold f xs p)"
  by (induction xs arbitrary: p) (auto intro: scope_frame_trans)

lemma frame_make: "scope_frame p (snd (dm_make today n p))"
  by (auto simp: scope_frame_def dm_make_def dm_create_def initDomain_def upd_dm_def upd_domain_def capture_app_def fun_eq_iff Let_def
      split: option.split prod.split)

lemma frame_app: "(\<And>x. a_uid (f x) = a_uid x \<and> a_blockMask (f x) = a_blockMask x \<and> a_blockIface (f x) = a_blockIface x \<and>
    a_useCustomList (f x) = a_useCustomList x \<and> a_name (f x) = a_name x) \<Longrightarrow> scope_frame p (upd_app a f p)"
  by (simp add: scope_frame_def upd_app_def capture_app_def fun_eq_iff Let_def)

lemma scope_frame_dm: "(\<And>m. dm_blacklist (f m) = dm_blacklist m \<and> dm_whitelist (f m) = dm_whitelist m) \<Longrightarrow> scope_frame p (upd_dm f p)"
  by (simp add: scope_frame_def upd_dm_def capture_app_def fun_eq_iff)

lemma frame_addCustomDomain: "scope_frame p (addCustomDomain today app n color p)"
proof (cases app)
  case None
  obtain d q where m: "dm_make today n p = (d, q)" by fastforce
  have "scope_frame p q" using frame_make [of p today n] m by simp
  moreover have "scope_frame q (upd_dm (dm_onList color (set_insert d)) q)" by (rule scope_frame_dm) (simp add: dm_onList_def)
  ultimately show ?thesis using None by (auto simp: addCustomDomain_def dm_addCustomDomain_def m intro: scope_frame_trans)
next
  case (Some a)
  let ?p = "upd_app a (\<lambda>x. x\<lparr>a_saved := False\<rparr>) p"
  obtain d q where m: "dm_make today n ?p = (d, q)" by fastforce
  have "scope_frame p ?p" by (rule frame_app) simp
  moreover have "scope_frame ?p q" using frame_make [of ?p today n] m by simp
  moreover have "scope_frame q (upd_app a (app_onList color (set_insert d)) q)" by (rule frame_app) (simp add: app_onList_def)
  ultimately show ?thesis using Some by (auto simp: addCustomDomain_def app_addCustomDomain_def m intro: scope_frame_trans)
qed

lemma frame_custom: "scope_frame p (set_custom r u p)"
  by (simp add: scope_frame_def set_custom_def upd_rm_def capture_app_def fun_eq_iff)

lemma frame_addCustom: "scope_frame p (rm_addCustom rx app i color True p)"
proof (cases "rm_find i p")
  case (Some r)
  have dm: "scope_frame q (dm_addCustomRule rx r True color q)" for q
    unfolding dm_addCustomRule_def by (rule scope_frame_dm) (simp add: dm_onRules_def)
  have ap: "scope_frame q (app_addCustomRule rx r True color a q)" for q a
    unfolding app_addCustomRule_def by (rule frame_app) (simp add: app_onRules_def)
  show ?thesis using Some
    by (cases app) (auto simp: rm_addCustom_def Let_def intro: scope_frame_trans [OF frame_custom dm] scope_frame_trans [OF frame_custom ap])
qed (simp add: rm_addCustom_def)

lemma frame_addPolicyScope: "scope_frame p (addPolicyScope rx today sc app p)"
  unfolding addPolicyScope_def Let_def
  by (rule scope_frame_trans [OF scope_frame_trans [OF scope_frame_trans]];
      rule scope_frame_fold frame_addCustomDomain frame_addCustom)
     (rule frame_addCustomDomain frame_addCustom)+

section \<open>A scope\<close>

text \<open>The custom domains and rule ids of a place, by colour.\<close>

definition place_sets :: "Policy \<Rightarrow> addr option \<Rightarrow> Color \<Rightarrow> string set \<times> u32 set" where
  "place_sets p app c = (set (snapshotCustomDomains app c p), set (current_rules app c p))"

definition scope_sets :: "DomainPolicyScopeSnapshot \<Rightarrow> Color \<Rightarrow> string set \<times> u32 set" where
  "scope_sets sc c = (if c = WHITE then (set (sc_allowDomains sc), set (sc_allowRuleIds sc))
     else (set (sc_blockDomains sc), set (sc_blockRuleIds sc)))"

definition join_sets :: "string set \<times> u32 set \<Rightarrow> string set \<times> u32 set \<Rightarrow> string set \<times> u32 set" where
  "join_sets x y = (fst x \<union> fst y, snd x \<union> snd y)"

definition places_ok :: "Policy \<Rightarrow> bool" where
  "places_ok p \<longleftrightarrow> dom_inv p \<and> rules_wf p"

lemma rules_frame_domains: "dom_frame p (rm_addCustom rx app i color True p)"
  by (cases app) (auto simp: dom_frame_def rm_addCustom_def Let_def dm_addCustomRule_def app_addCustomRule_def frame_defs
      custom_domains_def dm_onRules_def app_onRules_def dm_customList_def app_customList_def dm_byIP_def split: option.split)

lemma fold_frame_domains: "dom_frame p (fold (\<lambda>i. rm_addCustom rx app i color True) is p)"
  by (induction "is" arbitrary: p) (auto intro: dom_frame_trans rules_frame_domains)

lemma snapshot_frame: "dom_frame p p' \<Longrightarrow> bw c \<Longrightarrow> snapshotCustomDomains a c p' = snapshotCustomDomains a c p"
  by (simp add: snapshotCustomDomains_def dom_frame_def name_of_def [abs_def])

lemma scope_effect:
  assumes ok: "places_ok p" and known: "\<forall>i \<in> set (sc_allowRuleIds sc) \<union> set (sc_blockRuleIds sc). rm_find i p \<noteq> None"
    and p': "p' = addPolicyScope rx today sc app p"
  shows "places_ok p'" and "rm_find i p' = rm_find i p"
    and "bw c \<Longrightarrow> place_sets p' a c = (if a = app then join_sets (place_sets p a c) (scope_sets sc c) else place_sets p a c)"
proof -
  have inv: "dom_inv p" and wf: "rules_wf p" using ok by (simp_all add: places_ok_def)
  have white: "bw WHITE" and black: "bw BLACK" by simp_all
  define p1 where "p1 = fold (\<lambda>d. addCustomDomain today app d WHITE) (sc_allowDomains sc) p"
  define p2 where "p2 = fold (\<lambda>d. addCustomDomain today app d BLACK) (sc_blockDomains sc) p1"
  define p3 where "p3 = fold (\<lambda>i. rm_addCustom rx app i WHITE True) (sc_allowRuleIds sc) p2"
  have p4: "p' = fold (\<lambda>i. rm_addCustom rx app i BLACK True) (sc_blockRuleIds sc) p3"
    by (simp add: p' addPolicyScope_def Let_def p1_def p2_def p3_def)
  note d1 = fold_addCustomDomain [OF inv white, of today app "sc_allowDomains sc", folded p1_def]
  note d2 = fold_addCustomDomain [OF conjunct1 [OF d1] black, of today app "sc_blockDomains sc", folded p2_def]
  have sr: "same_rules p p2" unfolding p2_def p1_def
    by (intro same_rules_trans [OF same_rules_fold same_rules_fold] same_rules_custom)
  note w2 = rules_wf_same [OF wf sr]
  have k2: "\<forall>i \<in> set (sc_allowRuleIds sc). rm_find i p2 \<noteq> None" "\<forall>i \<in> set (sc_blockRuleIds sc). rm_find i p2 \<noteq> None"
    using known w2(3) by auto
  note r1 = fold_addCustom [OF w2(1) white k2(1), where rx = rx and app = app, folded p3_def]
  have k3: "\<forall>i \<in> set (sc_blockRuleIds sc). rm_find i p3 \<noteq> None" using k2(2) r1 by simp
  note r2 = fold_addCustom [OF conjunct1 [OF r1] black k3, where rx = rx and app = app, folded p4]
  have df: "dom_frame p2 p'" unfolding p4 p3_def by (intro dom_frame_trans [OF fold_frame_domains fold_frame_domains])
  show "places_ok p'" using dom_inv_frame [OF conjunct1 [OF d2] df] r2 by (simp add: places_ok_def)
  show "rm_find i p' = rm_find i p" using r1 r2 w2(3) by simp
  show "place_sets p' a c = (if a = app then join_sets (place_sets p a c) (scope_sets sc c) else place_sets p a c)" if c: "bw c"
  proof -
    have doms: "set (snapshotCustomDomains a c p') =
        (if a = app then set (snapshotCustomDomains a c p) \<union> fst (scope_sets sc c) else set (snapshotCustomDomains a c p))"
      using c d1 d2 snapshot_frame [OF df c] by (auto simp: scope_sets_def bw_def)
    have rules: "set (current_rules a c p') =
        (if a = app then set (current_rules a c p) \<union> snd (scope_sets sc c) else set (current_rules a c p))"
      using c r1 r2 w2(2) by (auto simp: scope_sets_def bw_def)
    show ?thesis by (simp add: place_sets_def join_sets_def doms rules)
  qed
qed

section \<open>Making the app of a scope\<close>

text \<open>Apps that are not registered have no domains and no rules.\<close>

definition no_stale_apps :: "Policy \<Rightarrow> bool" where
  "no_stale_apps p \<longleftrightarrow> (\<forall>a c. (\<forall>u. am_find u p \<noteq> Some a) \<longrightarrow> bw c \<longrightarrow> place_sets p (Some a) c = ({}, {}))"

definition apps_ok :: "Policy \<Rightarrow> bool" where
  "apps_ok p \<longleftrightarrow> places_ok p \<and> registry_inv p \<and> no_stale_apps p"

definition app_frame :: "Policy \<Rightarrow> Policy \<Rightarrow> bool" where
  "app_frame p p' \<longleftrightarrow>
     p_settings p' = p_settings p \<and> rm_rules (p_rm p') = rm_rules (p_rm p) \<and> rm_idCount (p_rm p') = rm_idCount (p_rm p) \<and>
     p_ruleHeap p' = p_ruleHeap p \<and> dm_blacklist (p_dm p') = dm_blacklist (p_dm p) \<and> dm_whitelist (p_dm p') = dm_whitelist (p_dm p) \<and>
     (\<forall>u x. am_find u p = Some x \<longrightarrow> am_find u p' = Some x \<and> capture_app p' x = capture_app p x)"

lemma app_frame_refl [simp]: "app_frame p p"
  by (simp add: app_frame_def)

lemma app_frame_trans: "app_frame p q \<Longrightarrow> app_frame q r \<Longrightarrow> app_frame p r"
  unfolding app_frame_def by metis

lemma registry_uid: "registry_inv p \<Longrightarrow> am_find u p = Some a \<Longrightarrow> a_uid (p_appHeap p a) = u"
  by (simp add: registry_inv_def am_find_def)

lemma app_frame_scope: "scope_frame p p' \<Longrightarrow> app_frame p p'"
  by (simp add: scope_frame_def app_frame_def am_find_def)

lemma registry_frame: "registry_inv p \<Longrightarrow> scope_frame p p' \<Longrightarrow> registry_inv p'"
proof -
  assume inv: "registry_inv p" and f: "scope_frame p p'"
  have "ac_uid (capture_app p' a) = ac_uid (capture_app p a)" for a using f by (simp add: scope_frame_def)
  then have "a_uid (p_appHeap p' a) = a_uid (p_appHeap p a)" for a by (simp add: capture_app_def Let_def)
  then show "registry_inv p'" using inv f by (simp add: registry_inv_def registered_def scope_frame_def)
qed

lemma place_empty: "place_sets p app c = ({}, {}) \<longleftrightarrow> custom_domains app c p = [] \<and> cr_rules (slot_rules app c p) = []"
  by (simp add: place_sets_def snapshotCustomDomains_def current_rules_slot)

lemma am_make_new:
  assumes ok: "apps_ok p" and new: "am_find uid p = None" and m: "am_make today uid p = (r, p1)"
  shows "r = Some (p_nextApp p)" and "apps_ok p1" and "am_find u p1 = (if u = uid then Some (p_nextApp p) else am_find u p)"
    and "app_frame p p1" and "bw c \<Longrightarrow> place_sets p1 app c = place_sets p app c" and "rm_find i p1 = rm_find i p"
    and "bw c \<Longrightarrow> place_sets p (Some (p_nextApp p)) c = ({}, {})"
proof -
  let ?a = "p_nextApp p" and ?x = "app_anonymous today uid []"
  have inv: "registry_inv p" and stale: "no_stale_apps p" and pl: "places_ok p" using ok by (simp_all add: apps_ok_def)
  have wf: "omap_wf (am_byUid (p_am p))" using inv by (simp add: registry_inv_def)
  have below: "x < ?a" if "am_find u p = Some x" for u x using inv that by (auto simp: registry_inv_def am_find_def)
  have p1: "r = Some ?a" "p1 = upd_am (\<lambda>m. m\<lparr>am_byUid := fst (omap_emplace uid ?a (am_byUid m)),
      am_byName := emplace_name (a_name ?x) ?a (am_byName m)\<rparr>) (p\<lparr>p_appHeap := (p_appHeap p)(?a := ?x), p_nextApp := ?a + 1\<rparr>)"
    using m new by (auto simp: am_make_def am_prepare_def alloc_app_def am_publishPrepared_def am_find_def Let_def)
  have heap: "p_appHeap p1 = (p_appHeap p)(?a := ?x)" "p_rm p1 = p_rm p" "p_dm p1 = p_dm p" "p_domHeap p1 = p_domHeap p"
    "p_nextDom p1 = p_nextDom p" "p_ruleHeap p1 = p_ruleHeap p" "p_settings p1 = p_settings p" "p_nextRule p1 = p_nextRule p"
    by (simp_all add: p1(2) upd_am_def)
  show "r = Some ?a" by (rule p1(1))
  show find: "am_find u p1 = (if u = uid then Some ?a else am_find u p)" for u
    using new by (simp add: am_find_def p1(2) upd_am_def map_of_omap_emplace [OF wf])
  have "\<forall>u. am_find u p \<noteq> Some ?a" using below by (metis less_irrefl)
  then show empty: "place_sets p (Some ?a) c = ({}, {})" if "bw c" for c using stale that by (simp add: no_stale_apps_def)
  have doms: "custom_domains app c p1 = custom_domains app c p" if "bw c" for app c
    using empty [OF that] by (auto simp: place_empty custom_domains_def heap app_customList_def app_anonymous_def app_new_def split: option.split)
  have slots: "cr_rules (slot_rules app c p1) = cr_rules (slot_rules app c p)" if "bw c" for app c
    using empty [OF that] by (auto simp: place_empty slot_rules_def heap app_customRules_def app_anonymous_def app_new_def
        customRules_new_def split: option.split)
  have rf: "rm_find i p1 = rm_find i p" for i by (simp add: rm_find_def heap)
  then show "rm_find i p1 = rm_find i p" .
  have "dom_frame p p1" using doms by (simp add: dom_frame_def heap)
  then have "dom_inv p1" using pl dom_inv_frame by (auto simp: places_ok_def)
  moreover have "rules_wf p1" using pl slots by (simp add: places_ok_def rules_wf_def rf heap)
  moreover show same: "place_sets p1 app c = place_sets p app c" if "bw c" for app c
    using doms [OF that] slots [OF that]
    by (simp add: place_sets_def snapshotCustomDomains_def current_rules_slot name_of_def [abs_def] heap)
  moreover have "registry_inv p1" using registry_make [OF inv, of today uid] m by simp
  ultimately show "apps_ok p1"
    using stale find new by (auto simp: apps_ok_def places_ok_def no_stale_apps_def) (metis option.distinct(1))
  show "app_frame p p1"
    using find new below by (auto simp: app_frame_def heap capture_app_def Let_def)
qed

lemma made_scope:
  assumes ok: "apps_ok p" and known: "\<forall>i \<in> set (sc_allowRuleIds sc) \<union> set (sc_blockRuleIds sc). rm_find i p \<noteq> None"
    and p': "p' = on_made_app today uid (\<lambda>app. addPolicyScope rx today sc (Some app)) p"
  obtains a where "apps_ok p'" "app_frame p p'" "\<And>i. rm_find i p' = rm_find i p" "am_find uid p' = Some a"
    "\<And>b c. bw c \<Longrightarrow> place_sets p' b c = (if b = Some a then join_sets (place_sets p b c) (scope_sets sc c) else place_sets p b c)"
    "\<And>c. am_find uid p = None \<Longrightarrow> bw c \<Longrightarrow> place_sets p (Some a) c = ({}, {})"
    "\<And>u x. am_find u p' = Some x \<Longrightarrow> u \<noteq> uid \<Longrightarrow> am_find u p = Some x"
proof -
  have base: "\<exists>a p1. am_make today uid p = (Some a, p1) \<and> apps_ok p1 \<and> app_frame p p1 \<and> (\<forall>i. rm_find i p1 = rm_find i p) \<and>
      am_find uid p1 = Some a \<and> (\<forall>b c. bw c \<longrightarrow> place_sets p1 b c = place_sets p b c) \<and>
      (\<forall>c. am_find uid p = None \<longrightarrow> bw c \<longrightarrow> place_sets p (Some a) c = ({}, {})) \<and>
      (\<forall>u x. am_find u p1 = Some x \<longrightarrow> u \<noteq> uid \<longrightarrow> am_find u p = Some x)"
  proof (cases "am_find uid p")
    case None
    obtain r p1 where m: "am_make today uid p = (r, p1)" by fastforce
    show ?thesis using am_make_new [OF ok None m] m by auto
  qed (use ok in \<open>auto simp: am_make_def\<close>)
  then obtain a p1 where m: "am_make today uid p = (Some a, p1)" "apps_ok p1" "app_frame p p1" "\<And>i. rm_find i p1 = rm_find i p"
    "am_find uid p1 = Some a" "\<And>b c. bw c \<Longrightarrow> place_sets p1 b c = place_sets p b c"
    "\<And>c. am_find uid p = None \<Longrightarrow> bw c \<Longrightarrow> place_sets p (Some a) c = ({}, {})"
    "\<And>u x. am_find u p1 = Some x \<Longrightarrow> u \<noteq> uid \<Longrightarrow> am_find u p = Some x" by blast
  have p'1: "p' = addPolicyScope rx today sc (Some a) p1" by (simp add: p' on_made_app_def m(1))
  have known1: "\<forall>i \<in> set (sc_allowRuleIds sc) \<union> set (sc_blockRuleIds sc). rm_find i p1 \<noteq> None" using known m(4) by simp
  have fr: "scope_frame p1 p'" unfolding p'1 by (rule frame_addPolicyScope)
  have pl1: "places_ok p1" using m(2) by (simp add: apps_ok_def)
  note e = scope_effect [OF pl1 known1 p'1]
  have find: "am_find u p' = am_find u p1" for u using fr by (simp add: am_find_def scope_frame_def)
  have places: "place_sets p' b c = (if b = Some a then join_sets (place_sets p b c) (scope_sets sc c) else place_sets p b c)" if "bw c" for b c
    using e(3) [OF that] m(6) [OF that] by simp
  have "no_stale_apps p'"
    using m(2,5) find by (auto simp: apps_ok_def no_stale_apps_def e(3))
  then have "apps_ok p'" using e(1) registry_frame [OF _ fr] m(2) by (simp add: apps_ok_def)
  then show thesis
    using that [of a] app_frame_trans [OF m(3) app_frame_scope [OF fr]] e(2) m(4,5,7,8) places find by simp
qed

text \<open>All scopes of the bundle, on apps that had none.\<close>

lemma fold_scopes:
  assumes "apps_ok p" and "distinct (map adp_uid as)"
    and "\<forall>s \<in> set as. \<forall>i \<in> set (sc_allowRuleIds (adp_policy s)) \<union> set (sc_blockRuleIds (adp_policy s)). rm_find i p \<noteq> None"
    and "\<forall>s \<in> set as. \<forall>a c. am_find (adp_uid s) p = Some a \<longrightarrow> bw c \<longrightarrow> place_sets p (Some a) c = ({}, {})"
    and "p' = fold (\<lambda>s. on_made_app today (adp_uid s) (\<lambda>app. addPolicyScope rx today (adp_policy s) (Some app))) as p"
  shows "apps_ok p' \<and> app_frame p p' \<and> (\<forall>i. rm_find i p' = rm_find i p) \<and>
    (\<forall>s \<in> set as. \<exists>a. am_find (adp_uid s) p' = Some a \<and> (\<forall>c. bw c \<longrightarrow> place_sets p' (Some a) c = scope_sets (adp_policy s) c)) \<and>
    (\<forall>c. bw c \<longrightarrow> place_sets p' None c = place_sets p None c) \<and>
    (\<forall>u x. am_find u p' = Some x \<longrightarrow> u \<notin> adp_uid ` set as \<longrightarrow>
      am_find u p = Some x \<and> (\<forall>c. bw c \<longrightarrow> place_sets p' (Some x) c = place_sets p (Some x) c))"
  using assms
proof (induction as arbitrary: p)
  case Nil
  then show ?case by simp
next
  case (Cons s as)
  define q where "q = on_made_app today (adp_uid s) (\<lambda>app. addPolicyScope rx today (adp_policy s) (Some app)) p"
  obtain a where q: "apps_ok q" "app_frame p q" "\<And>i. rm_find i q = rm_find i p" "am_find (adp_uid s) q = Some a"
    "\<And>b c. bw c \<Longrightarrow> place_sets q b c = (if b = Some a then join_sets (place_sets p b c) (scope_sets (adp_policy s) c) else place_sets p b c)"
    "\<And>c. am_find (adp_uid s) p = None \<Longrightarrow> bw c \<Longrightarrow> place_sets p (Some a) c = ({}, {})"
    "\<And>u x. am_find u q = Some x \<Longrightarrow> u \<noteq> adp_uid s \<Longrightarrow> am_find u p = Some x"
    using made_scope [OF Cons.prems(1) _ q_def] Cons.prems(3) by auto
  have emp: "place_sets p (Some a) c = ({}, {})" if "bw c" for c
  proof (cases "am_find (adp_uid s) p")
    case (Some x)
    then have "x = a" using q(2,4) by (auto simp: app_frame_def)
    then show ?thesis using Cons.prems(4) Some that by auto
  qed (use q(6) that in simp)
  have full: "place_sets q (Some a) c = scope_sets (adp_policy s) c" if "bw c" for c
    using q(5) [OF that] emp [OF that] by (simp add: join_sets_def)
  have uniq: "u = adp_uid s" if "am_find u q = Some a" for u
    using registry_uid [of q] q(1,4) that by (auto simp: apps_ok_def)
  have prem4: "\<forall>t \<in> set as. \<forall>b c. am_find (adp_uid t) q = Some b \<longrightarrow> bw c \<longrightarrow> place_sets q (Some b) c = ({}, {})"
  proof (intro ballI allI impI)
    fix t b c assume t: "t \<in> set as" and b: "am_find (adp_uid t) q = Some b" and c: "bw c"
    have ne: "adp_uid t \<noteq> adp_uid s" using imageI [OF t, of adp_uid] Cons.prems(2) by (metis distinct.simps(2) list.map(2) set_map)
    then have "b \<noteq> a" using uniq b by auto
    moreover have "am_find (adp_uid t) p = Some b" using q(7) b ne by blast
    ultimately show "place_sets q (Some b) c = ({}, {})" using q(5) [OF c] Cons.prems(4) t c by auto
  qed
  have prem3: "\<forall>t \<in> set as. \<forall>i \<in> set (sc_allowRuleIds (adp_policy t)) \<union> set (sc_blockRuleIds (adp_policy t)). rm_find i q \<noteq> None"
    using Cons.prems(3) q(3) by simp
  have p': "p' = fold (\<lambda>s. on_made_app today (adp_uid s) (\<lambda>app. addPolicyScope rx today (adp_policy s) (Some app))) as q"
    using Cons.prems(5) by (simp add: q_def)
  have dist: "distinct (map adp_uid as)" and notin: "adp_uid s \<notin> adp_uid ` set as" using Cons.prems(2) by auto
  note IH = Cons.IH [OF q(1) dist prem3 prem4 p']
  have fr: "app_frame q p'" using IH by blast
  have sa: "am_find (adp_uid s) p' = Some a" using fr q(4) by (simp add: app_frame_def)
  have keep: "\<forall>u x. am_find u p' = Some x \<longrightarrow> u \<notin> adp_uid ` set as \<longrightarrow>
      am_find u q = Some x \<and> (\<forall>c. bw c \<longrightarrow> place_sets p' (Some x) c = place_sets q (Some x) c)" using IH by blast
  have here: "place_sets p' (Some a) c = scope_sets (adp_policy s) c" if "bw c" for c
    using keep sa notin full [OF that] that by auto
  have others: "am_find u p = Some x \<and> (\<forall>c. bw c \<longrightarrow> place_sets p' (Some x) c = place_sets p (Some x) c)"
    if "am_find u p' = Some x" "u \<notin> adp_uid ` set (s # as)" for u x
  proof -
    have uq: "am_find u q = Some x" "u \<noteq> adp_uid s" using keep that by auto
    then have "x \<noteq> a" using uniq by auto
    then show ?thesis using keep that q(5,7) uq by auto
  qed
  have none: "place_sets p' None c = place_sets p None c" if "bw c" for c using IH q(5) [OF that] that by simp
  show ?case
    using IH app_frame_trans [OF q(2) fr] q(3) sa here others none by auto
qed

end
