(* ===== verification/CheckpointRestore.thy ===== *)
theory CheckpointRestore
  imports CheckpointScopes
begin

text \<open>
  The steps of a restore one by one: apps, the reset of the domain policy, pattern rules, domain lists.
\<close>

section \<open>Apps\<close>

definition app_cleared :: "App \<Rightarrow> bool" where
  "app_cleared x \<longleftrightarrow> a_customBlacklist x = [] \<and> a_customWhitelist x = [] \<and> cr_rules (a_blackRules x) = [] \<and> cr_rules (a_whiteRules x) = []"

text \<open>What the apps stage leaves alone.\<close>

definition others_same :: "Policy \<Rightarrow> Policy \<Rightarrow> bool" where
  "others_same p p' \<longleftrightarrow> p_dm p' = p_dm p \<and> p_rm p' = p_rm p \<and> p_domHeap p' = p_domHeap p \<and> p_nextDom p' = p_nextDom p \<and>
     p_ruleHeap p' = p_ruleHeap p \<and> p_nextRule p' = p_nextRule p \<and> p_settings p' = p_settings p"

lemma others_same_refl [simp]: "others_same p p"
  by (simp add: others_same_def)

lemma others_same_trans: "others_same p q \<Longrightarrow> others_same q r \<Longrightarrow> others_same p r"
  by (simp add: others_same_def)

definition norm_app :: "AppConfigSnapshot \<Rightarrow> AppConfigSnapshot" where
  "norm_app c = c\<lparr>ac_blockMask := normalizeAppBlockMask (ac_blockMask c)\<rparr>"

lemma cr_reset_rules [simp]: "cr_rules (cr_reset rx heap cr) = []"
  by (simp add: cr_reset_def)

lemma restore_app_effect:
  assumes "p' = restore_app rx m i cu a p"
  shows "app_cleared (p_appHeap p' a)" and "b \<noteq> a \<Longrightarrow> p_appHeap p' b = p_appHeap p b"
    and "capture_app p' a = \<lparr>ac_uid = a_uid (p_appHeap p a), ac_blockMask = normalizeAppBlockMask m, ac_blockIface = i, ac_useCustomList = cu\<rparr>"
    and "a_uid (p_appHeap p' x) = a_uid (p_appHeap p x)" and "a_name (p_appHeap p' x) = a_name (p_appHeap p x)"
    and "p_am p' = p_am p" and "p_nextApp p' = p_nextApp p" and "others_same p p'"
  unfolding assms
  by (simp_all add: restore_app_def upd_app_def clearCheckpointDomainPolicy_def applyCheckpointPolicyConfig_def app_cleared_def
      capture_app_def Let_def others_same_def)

lemma registry_same:
  assumes "registry_inv p" and "p_am p' = p_am p" and "p_nextApp p' = p_nextApp p"
    and "\<And>x. a_uid (p_appHeap p' x) = a_uid (p_appHeap p x)" and "\<And>x. a_name (p_appHeap p' x) = a_name (p_appHeap p x)"
  shows "registry_inv p'"
  using assms by (simp add: registry_inv_def AppGuarantees.registered_def)

lemma fold_restore_app:
  assumes "p' = fold (restore_app rx m i cu) as p"
  shows "(\<forall>a. a \<in> set as \<longrightarrow> app_cleared (p_appHeap p' a) \<and>
      capture_app p' a = \<lparr>ac_uid = a_uid (p_appHeap p a), ac_blockMask = normalizeAppBlockMask m, ac_blockIface = i, ac_useCustomList = cu\<rparr>) \<and>
    (\<forall>a. a \<notin> set as \<longrightarrow> p_appHeap p' a = p_appHeap p a) \<and>
    (\<forall>x. a_uid (p_appHeap p' x) = a_uid (p_appHeap p x) \<and> a_name (p_appHeap p' x) = a_name (p_appHeap p x)) \<and>
    p_am p' = p_am p \<and> p_nextApp p' = p_nextApp p \<and> others_same p p'"
  using assms
proof (induction as arbitrary: p)
  case (Cons a as)
  define q where "q = restore_app rx m i cu a p"
  note e = restore_app_effect [OF q_def]
  have p': "p' = fold (restore_app rx m i cu) as q" using Cons.prems by (simp add: q_def)
  note IH = Cons.IH [OF p']
  have here: "app_cleared (p_appHeap p' a) \<and> capture_app p' a =
      \<lparr>ac_uid = a_uid (p_appHeap p a), ac_blockMask = normalizeAppBlockMask m, ac_blockIface = i, ac_useCustomList = cu\<rparr>"
  proof (cases "a \<in> set as")
    case False
    then have "p_appHeap p' a = p_appHeap q a" using IH by blast
    then show ?thesis using e(1,3) by (simp add: capture_app_def)
  qed (use IH e(4) in auto)
  have o: "others_same p p'" using others_same_trans [OF e(8)] IH by blast
  show ?case using IH here e(2,4-7) o by auto
qed simp

lemma fold_configs:
  assumes "registry_inv p" and "\<forall>a. app_cleared (p_appHeap p a)" and "distinct (map ac_uid cfgs)"
    and "p' = fold (\<lambda>cfg. on_made_app today (ac_uid cfg)
           (restore_app rx (ac_blockMask cfg) (ac_blockIface cfg) (ac_useCustomList cfg))) cfgs p"
  shows "registry_inv p' \<and> (\<forall>a. app_cleared (p_appHeap p' a)) \<and> others_same p p' \<and>
    (\<forall>u x. am_find u p = Some x \<longrightarrow> am_find u p' = Some x) \<and>
    (\<forall>cfg \<in> set cfgs. \<exists>a. am_find (ac_uid cfg) p' = Some a \<and> capture_app p' a = norm_app cfg) \<and>
    (\<forall>u x. am_find u p' = Some x \<longrightarrow> u \<notin> ac_uid ` set cfgs \<longrightarrow> am_find u p = Some x \<and> capture_app p' x = capture_app p x)"
  using assms
proof (induction cfgs arbitrary: p)
  case (Cons cfg cfgs)
  let ?u = "ac_uid cfg"
  have base: "\<exists>a p1. am_make today ?u p = (Some a, p1) \<and> registry_inv p1 \<and> (\<forall>x. app_cleared (p_appHeap p1 x)) \<and> others_same p p1 \<and>
      (\<forall>u. am_find u p1 = (if u = ?u then Some a else am_find u p)) \<and> (\<forall>u x. am_find u p = Some x \<longrightarrow> am_find u p1 = Some x) \<and>
      (\<forall>u x. am_find u p = Some x \<longrightarrow> capture_app p1 x = capture_app p x)"
  proof (cases "am_find ?u p")
    case None
    let ?a = "p_nextApp p" and ?x = "app_anonymous today ?u []"
    have wf: "omap_wf (am_byUid (p_am p))" using Cons.prems(1) by (simp add: registry_inv_def)
    have below: "x < ?a" if "am_find u p = Some x" for u x using Cons.prems(1) that by (auto simp: registry_inv_def am_find_def)
    obtain p1 where m: "am_make today ?u p = (Some ?a, p1)" and p1: "p1 = upd_am (\<lambda>m. m\<lparr>am_byUid := fst (omap_emplace ?u ?a (am_byUid m)),
        am_byName := emplace_name (a_name ?x) ?a (am_byName m)\<rparr>) (p\<lparr>p_appHeap := (p_appHeap p)(?a := ?x), p_nextApp := ?a + 1\<rparr>)"
      using None by (auto simp: am_make_def am_prepare_def alloc_app_def am_publishPrepared_def am_find_def Let_def)
    have reg: "registry_inv p1" using registry_make [OF Cons.prems(1), of today ?u] m by simp
    have heap: "p_appHeap p1 = (p_appHeap p)(?a := ?x)" by (simp add: p1 upd_am_def)
    have cl: "\<forall>x. app_cleared (p_appHeap p1 x)"
      using Cons.prems(2) by (simp add: heap app_cleared_def app_anonymous_def app_new_def customRules_new_def)
    have find: "am_find u p1 = (if u = ?u then Some ?a else am_find u p)" for u
      using None by (simp add: am_find_def p1 upd_am_def map_of_omap_emplace [OF wf])
    have "others_same p p1" by (simp add: p1 upd_am_def others_same_def)
    moreover have "capture_app p1 x = capture_app p x" if "am_find u p = Some x" for u x
      using below [OF that] by (simp add: capture_app_def heap)
    ultimately show ?thesis using m reg cl find None by auto
  qed (use Cons.prems(1,2) in \<open>auto simp: am_make_def\<close>)
  then obtain a p1 where m: "am_make today ?u p = (Some a, p1)" "registry_inv p1" "\<forall>x. app_cleared (p_appHeap p1 x)" "others_same p p1"
    "\<And>u. am_find u p1 = (if u = ?u then Some a else am_find u p)" "\<And>u x. am_find u p = Some x \<Longrightarrow> am_find u p1 = Some x"
    "\<And>u x. am_find u p = Some x \<Longrightarrow> capture_app p1 x = capture_app p x" by blast
  define q where "q = restore_app rx (ac_blockMask cfg) (ac_blockIface cfg) (ac_useCustomList cfg) a p1"
  have step: "on_made_app today ?u (restore_app rx (ac_blockMask cfg) (ac_blockIface cfg) (ac_useCustomList cfg)) p = q"
    by (simp add: on_made_app_def m(1) q_def)
  note e = restore_app_effect [OF q_def]
  have reg: "registry_inv q" by (rule registry_same [OF m(2) e(6,7,4,5)])
  have cl: "\<forall>x. app_cleared (p_appHeap q x)"
  proof
    show "app_cleared (p_appHeap q x)" for x using m(3) e(1,2) by (cases "x = a") auto
  qed
  have find: "am_find u q = am_find u p1" for u using e(6) by (simp add: am_find_def)
  have p': "p' = fold (\<lambda>cfg. on_made_app today (ac_uid cfg)
      (restore_app rx (ac_blockMask cfg) (ac_blockIface cfg) (ac_useCustomList cfg))) cfgs q"
    using Cons.prems(4) step by simp
  have dist: "distinct (map ac_uid cfgs)" and notin: "?u \<notin> ac_uid ` set cfgs" using Cons.prems(3) by auto
  note IH = Cons.IH [OF reg cl dist p']
  have keep: "am_find u p' = Some x \<Longrightarrow> u \<notin> ac_uid ` set cfgs \<Longrightarrow> am_find u q = Some x \<and> capture_app p' x = capture_app q x" for u x
    using IH by blast
  have uid: "a_uid (p_appHeap p1 a) = ?u" using registry_uid [OF m(2)] m(5) by simp
  have mono: "am_find u q = Some x \<Longrightarrow> am_find u p' = Some x" for u x using IH by blast
  have fa: "am_find ?u p' = Some a" by (rule mono) (simp add: find m(5))
  have here: "capture_app p' a = norm_app cfg" using keep [OF fa notin] e(3) uid by (simp add: norm_app_def)
  have other: "am_find u p = Some x \<and> capture_app p' x = capture_app p x"
    if "am_find u p' = Some x" "u \<notin> ac_uid ` set (cfg # cfgs)" for u x
  proof -
    have k: "am_find u q = Some x" "capture_app p' x = capture_app q x" "u \<noteq> ?u" using keep that by auto
    then have pu: "am_find u p = Some x" using find m(5) by auto
    have "x \<noteq> a" using registry_uid [OF m(2)] uid k(1,3) find by auto
    then have "capture_app q x = capture_app p1 x" using e(2) by (simp add: capture_app_def)
    then show ?thesis using k(2) m(7) [OF pu] pu by simp
  qed
  have o: "others_same p p'" using others_same_trans [OF others_same_trans [OF m(4) e(8)]] IH by blast
  have mono': "am_find u p = Some x \<Longrightarrow> am_find u p' = Some x" for u x using mono m(6) find by simp
  have all: "\<exists>a. am_find (ac_uid c) p' = Some a \<and> capture_app p' a = norm_app c" if "c \<in> set (cfg # cfgs)" for c
  proof (cases "c = cfg")
    case False
    then have "c \<in> set cfgs" using that by simp
    then show ?thesis using IH by blast
  qed (use fa here in blast)
  have fin: "registry_inv p'" "\<forall>a. app_cleared (p_appHeap p' a)" using IH by blast+
  show ?case
  proof (intro conjI)
    show "registry_inv p'" "\<forall>a. app_cleared (p_appHeap p' a)" "others_same p p'" by (fact fin o)+
    show "\<forall>u x. am_find u p = Some x \<longrightarrow> am_find u p' = Some x" using mono' by blast
    show "\<forall>c \<in> set (cfg # cfgs). \<exists>a. am_find (ac_uid c) p' = Some a \<and> capture_app p' a = norm_app c" using all by blast
    show "\<forall>u x. am_find u p' = Some x \<longrightarrow> u \<notin> ac_uid ` set (cfg # cfgs) \<longrightarrow>
        am_find u p = Some x \<and> capture_app p' x = capture_app p x" using other by blast
  qed
qed simp

text \<open>The apps of the checkpoint get their configuration, the others that of the device; no app keeps a domain or a rule.\<close>

definition norm_device :: "DeviceConfigSnapshot \<Rightarrow> DeviceConfigSnapshot" where
  "norm_device d = d\<lparr>dc_blockMask := normalizeAppBlockMask (dc_blockMask d)\<rparr>"

definition default_app :: "DeviceConfigSnapshot \<Rightarrow> u32 \<Rightarrow> AppConfigSnapshot" where
  "default_app d uid = \<lparr>ac_uid = uid, ac_blockMask = normalizeAppBlockMask (dc_blockMask d), ac_blockIface = dc_blockIface d, ac_useCustomList = False\<rparr>"

lemma normalizeAppBlockMask_idem [simp]: "normalizeAppBlockMask (normalizeAppBlockMask m) = normalizeAppBlockMask m"
  by (simp add: normalizeAppBlockMask_def or.assoc)

lemma stale_cleared: "no_stale_apps p \<Longrightarrow> (\<forall>u. am_find u p \<noteq> Some a) \<Longrightarrow> app_cleared (p_appHeap p a)"
proof -
  assume "no_stale_apps p" "\<forall>u. am_find u p \<noteq> Some a"
  then have "place_sets p (Some a) BLACK = ({}, {})" "place_sets p (Some a) WHITE = ({}, {})"
    by (simp_all add: no_stale_apps_def)
  then show "app_cleared (p_appHeap p a)"
    unfolding place_empty by (simp add: app_cleared_def custom_domains_def slot_rules_def app_customList_def app_customRules_def)
qed

lemma restore_apps_effect:
  assumes inv: "registry_inv p" and stale: "no_stale_apps p" and dist: "distinct (map ac_uid (bu_appConfigs b))"
    and p': "p' = restore_apps rx today b p"
  shows "registry_inv p'" and "app_cleared (p_appHeap p' a)"
    and "p_settings p' = settings_applyCheckpointPolicyConfig (bu_deviceConfig b) (p_settings p)"
    and "p_dm p' = p_dm p" and "p_rm p' = p_rm p" and "p_domHeap p' = p_domHeap p" and "p_nextDom p' = p_nextDom p"
    and "p_ruleHeap p' = p_ruleHeap p"
    and "am_find u p = Some x \<Longrightarrow> am_find u p' = Some x"
    and "cfg \<in> set (bu_appConfigs b) \<Longrightarrow> \<exists>a. am_find (ac_uid cfg) p' = Some a \<and> capture_app p' a = norm_app cfg"
    and "am_find u p' = Some x \<Longrightarrow> u \<notin> ac_uid ` set (bu_appConfigs b) \<Longrightarrow> capture_app p' x = default_app (bu_deviceConfig b) u"
proof -
  define p1 where "p1 = p\<lparr>p_settings := settings_applyCheckpointPolicyConfig (bu_deviceConfig b) (p_settings p)\<rparr>"
  define st where "st = p_settings p1"
  define p2 where "p2 = fold (restore_app rx (set_blockMask st) (set_blockIface st) False) (snapshotByUid None p1) p1"
  have p'2: "p' = fold (\<lambda>cfg. on_made_app today (ac_uid cfg)
      (restore_app rx (ac_blockMask cfg) (ac_blockIface cfg) (ac_useCustomList cfg))) (bu_appConfigs b) p2"
    by (simp add: p' restore_apps_def p1_def p2_def st_def Let_def)
  note e = fold_restore_app [OF p2_def]
  have f1: "am_find u p1 = am_find u p" "p_appHeap p1 = p_appHeap p" "p_am p1 = p_am p" "p_nextApp p1 = p_nextApp p" for u
    by (simp_all add: p1_def am_find_def)
  have reg1: "registry_inv p1" by (rule registry_same [OF inv]) (simp_all add: f1)
  have reg2: "registry_inv p2" by (rule registry_same [OF reg1]) (use e in auto)
  have snap: "a \<in> set (snapshotByUid None p1) \<longleftrightarrow> (\<exists>u. am_find u p = Some a)" for a
  proof -
    have "omap_wf (am_byUid (p_am p))" using inv by (simp add: registry_inv_def)
    then have "(u, a) \<in> set (am_byUid (p_am p)) \<longleftrightarrow> am_find u p = Some a" for u
      by (simp add: am_find_def omap_in_set_iff)
    then show ?thesis by (force simp: snapshotByUid_def f1)
  qed
  have cl2: "\<forall>a. app_cleared (p_appHeap p2 a)"
  proof
    fix a
    show "app_cleared (p_appHeap p2 a)"
    proof (cases "\<exists>u. am_find u p = Some a")
      case False
      then have "p_appHeap p2 a = p_appHeap p a" using e snap f1(2) by metis
      then show ?thesis using stale_cleared [OF stale, of a] False by auto
    qed (use e snap in blast)
  qed
  note c = fold_configs [OF reg2 cl2 dist p'2]
  have o: "others_same p1 p'" using others_same_trans e c by blast
  show "registry_inv p'" "app_cleared (p_appHeap p' a)" using c by blast+
  show "p_settings p' = settings_applyCheckpointPolicyConfig (bu_deviceConfig b) (p_settings p)"
    "p_dm p' = p_dm p" "p_rm p' = p_rm p" "p_domHeap p' = p_domHeap p" "p_nextDom p' = p_nextDom p" "p_ruleHeap p' = p_ruleHeap p"
    using o by (simp_all add: others_same_def p1_def)
  have f2: "am_find u p2 = am_find u p" for u using e f1(3) by (simp add: am_find_def)
  have "am_find u p2 = Some x \<Longrightarrow> am_find u p' = Some x" using c by blast
  then show "am_find u p = Some x \<Longrightarrow> am_find u p' = Some x" unfolding f2 .
  show "cfg \<in> set (bu_appConfigs b) \<Longrightarrow> \<exists>a. am_find (ac_uid cfg) p' = Some a \<and> capture_app p' a = norm_app cfg" using c by blast
  show "capture_app p' x = default_app (bu_deviceConfig b) u" if "am_find u p' = Some x" "u \<notin> ac_uid ` set (bu_appConfigs b)"
  proof -
    have "am_find u p2 = Some x \<and> capture_app p' x = capture_app p2 x"
      using c [THEN conjunct2, THEN conjunct2, THEN conjunct2, THEN conjunct2, THEN conjunct2] that by blast
    then have k: "am_find u p = Some x" "capture_app p' x = capture_app p2 x" by (simp_all add: f2)
    then have "x \<in> set (snapshotByUid None p1)" using snap by blast
    then have "capture_app p2 x = \<lparr>ac_uid = a_uid (p_appHeap p1 x), ac_blockMask = normalizeAppBlockMask (set_blockMask st),
        ac_blockIface = set_blockIface st, ac_useCustomList = False\<rparr>" using e by blast
    moreover have "a_uid (p_appHeap p1 x) = u" using registry_uid [OF inv k(1)] f1 by simp
    ultimately show ?thesis using k(2)
      by (simp add: default_app_def st_def p1_def settings_applyCheckpointPolicyConfig_def)
  qed
qed

end
