(* ===== verification/CheckpointLists.thy ===== *)
theory CheckpointLists
  imports CheckpointRestore
begin

text \<open>
  The domain lists of a restore: the published files are those of the checkpoint, and loading them gives every enabled
  list its domains. A disabled list has no domains in memory: its file is only read when it is enabled.
\<close>

section \<open>One list\<close>

definition list_of :: "Color \<Rightarrow> Policy \<Rightarrow> DomainList" where
  "list_of c p = (if c = BLACK then dm_blacklist (p_dm p) else dm_whitelist (p_dm p))"

definition contents :: "Policy \<Rightarrow> Color \<Rightarrow> string \<Rightarrow> DomsSet option" where
  "contents p c i = map_of (domainsByListId (list_of c p)) i"

text \<open>Loading the lists changes nothing but the lists.\<close>

definition lists_frame :: "Policy \<Rightarrow> Policy \<Rightarrow> bool" where
  "lists_frame p p' \<longleftrightarrow>
     p_settings p' = p_settings p \<and> p_am p' = p_am p \<and> p_nextApp p' = p_nextApp p \<and> p_appHeap p' = p_appHeap p \<and>
     p_rm p' = p_rm p \<and> p_ruleHeap p' = p_ruleHeap p \<and> p_nextRule p' = p_nextRule p \<and> p_domHeap p' = p_domHeap p \<and>
     p_nextDom p' = p_nextDom p \<and> dm_byName (p_dm p') = dm_byName (p_dm p) \<and> dm_byIPv4 (p_dm p') = dm_byIPv4 (p_dm p) \<and>
     dm_byIPv6 (p_dm p') = dm_byIPv6 (p_dm p) \<and> dm_anonymousDom (p_dm p') = dm_anonymousDom (p_dm p) \<and>
     dm_customBlacklist (p_dm p') = dm_customBlacklist (p_dm p) \<and> dm_customWhitelist (p_dm p') = dm_customWhitelist (p_dm p) \<and>
     dm_blackRules (p_dm p') = dm_blackRules (p_dm p) \<and> dm_whiteRules (p_dm p') = dm_whiteRules (p_dm p) \<and>
     dm_files (p_dm p') = dm_files (p_dm p)"

lemma lists_frame_refl [simp]: "lists_frame p p"
  by (simp add: lists_frame_def)

lemma lists_frame_trans: "lists_frame p q \<Longrightarrow> lists_frame q r \<Longrightarrow> lists_frame p r"
  by (simp add: lists_frame_def)

lemma guid_listId:
  assumes "isValidGuid36 g"
  shows "validListId g" and "length g = 36"
proof -
  show len: "length g = 36" using assms by (simp add: isValidGuid36_def)
  have "(let n = (of_char c :: nat) in 48 \<le> n \<and> n \<le> 57 \<or> 65 \<le> n \<and> n \<le> 70 \<or> 97 \<le> n \<and> n \<le> 102 \<or> c = CHR ''-'')"
    if c: "c \<in> set g" for c
  proof -
    obtain i where i: "i < 36" "g ! i = c" using c len by (auto simp: in_set_conv_nth)
    then have "if i = 8 \<or> i = 13 \<or> i = 18 \<or> i = 23 then c = CHR ''-'' else is_xdigit c"
      using assms by (auto simp: isValidGuid36_def list_all_iff)
    then show ?thesis by (auto simp: is_xdigit_def Let_def split: if_splits)
  qed
  then show "validListId g" using len by (auto simp: validListId_def list_all_iff)
qed

lemma start_enabled:
  assumes "bw (bl_color bl)" and "bl_enabled bl" and "validListId (bl_id bl)" and f: "dm_files (p_dm p) (bl_id bl) = Some content"
    and new: "contents p (bl_color bl) (bl_id bl) = None" and p': "p' = dm_start io [bl] p"
  shows "lists_frame p p'"
    and "bw c \<Longrightarrow> contents p' c i =
      (if c = bl_color bl \<and> i = bl_id bl then Some (load_domains (bl_blockMask bl) content []) else contents p c i)"
proof -
  have r: "domainsByListId (dl_read (bl_id bl) m (dm_files (p_dm p)) dl) = domainsByListId dl @ [(bl_id bl, load_domains m content [])]"
    if "map_of (domainsByListId dl) (bl_id bl) = None" for m dl
    using assms(3) f that by (simp add: dl_read_def rebuildAggSnapshotLocked_def)
  show "lists_frame p p'"
    using assms(1,2) by (auto simp: lists_frame_def p' dm_start_def dm_onDomainList_def Let_def bw_def)
  show "bw c \<Longrightarrow> contents p' c i =
      (if c = bl_color bl \<and> i = bl_id bl then Some (load_domains (bl_blockMask bl) content []) else contents p c i)"
    using assms(1,2) new r unfolding p'
    by (auto simp: dm_start_def dm_onDomainList_def Let_def bw_def contents_def list_of_def map_add_def split: option.split)
qed

lemma start_disabled:
  assumes "bw (bl_color bl)" and "\<not> bl_enabled bl" and "dm_files (p_dm p) (bl_id bl) = None"
  shows "dm_start io [bl] p = p"
  using assms by (auto simp: dm_start_def dm_onDomainList_def Let_def bw_def dl_disable_def fs_rename_def)

section \<open>The files of a checkpoint\<close>

lemma list_files_other:
  "\<forall>l \<in> set ls. domainListFileName l \<noteq> n \<Longrightarrow> fold (\<lambda>l fs. fs(domainListFileName l := Some (domainListData l))) ls fs n = fs n"
  by (induction ls arbitrary: fs) auto

lemma file_name_of: "domainListFileName l = (if dls_enabled l then dls_listId l else disabled_name (dls_listId l))"
  by (simp add: domainListFileName_def disabled_name_def)

lemma list_files_at:
  assumes guids: "\<forall>l \<in> set ls. isValidGuid36 (dls_listId l)" and dist: "distinct (map dls_listId ls)" and l: "l \<in> set ls"
  shows "list_files ls (dls_listId l) = (if dls_enabled l then Some (domainListData l) else None)"
proof -
  have len: "length (dls_listId x) = 36" if "x \<in> set ls" for x using guids that guid_listId(2) by blast
  have names: "domainListFileName x = dls_listId l \<longleftrightarrow> x = l \<and> dls_enabled l" if "x \<in> set ls" for x
  proof -
    have "disabled_name (dls_listId x) \<noteq> dls_listId l"
      using len [OF that] len [OF l] by (auto simp: disabled_name_def dest: arg_cong [where f = length])
    moreover have "dls_listId x = dls_listId l \<longleftrightarrow> x = l" using dist that l by (metis distinct_map inj_onD)
    ultimately show ?thesis by (auto simp: file_name_of)
  qed
  show ?thesis
  proof (cases "dls_enabled l")
    case False
    then have "\<forall>x \<in> set ls. domainListFileName x \<noteq> dls_listId l" using names by simp
    then show ?thesis using False by (simp add: list_files_def list_files_other)
  next
    case True
    obtain xs ys where ls: "ls = xs @ l # ys" and nl: "l \<notin> set ys" using split_list_last [OF l] by blast
    have "\<forall>x \<in> set ys. domainListFileName x \<noteq> dls_listId l" using names nl ls by auto
    moreover have "domainListFileName l = dls_listId l" using True by (simp add: file_name_of)
    ultimately show ?thesis using True by (simp add: list_files_def ls list_files_other)
  qed
qed

section \<open>All lists\<close>

definition enabled_in :: "DomainListSnapshot list \<Rightarrow> Color \<Rightarrow> string \<Rightarrow> DomainListSnapshot option" where
  "enabled_in ls c i = find (\<lambda>l. dls_enabled l \<and> dls_color l = c \<and> dls_listId l = i) ls"

lemma start_lists:
  assumes "\<forall>l \<in> set ls. isValidGuid36 (dls_listId l) \<and> bw (dls_color l)" and "distinct (map dls_listId ls)"
    and "\<forall>l \<in> set ls. dm_files (p_dm p) (dls_listId l) = (if dls_enabled l then Some (domainListData l) else None)"
    and "\<forall>l \<in> set ls. contents p (dls_color l) (dls_listId l) = None"
    and "p' = dm_start io (map (\<lambda>l. bl_of_snapshot l (t l)) ls) p"
  shows "lists_frame p p' \<and> (\<forall>c i. bw c \<longrightarrow> contents p' c i =
    (case enabled_in ls c i of Some l \<Rightarrow> Some (load_domains (dls_mask l) (domainListData l) []) | None \<Rightarrow> contents p c i))"
  using assms
proof (induction ls arbitrary: p)
  case Nil
  then show ?case by (simp add: dm_start_def enabled_in_def)
next
  case (Cons l ls)
  define q where "q = dm_start io [bl_of_snapshot l (t l)] p"
  have p': "p' = dm_start io (map (\<lambda>l. bl_of_snapshot l (t l)) ls) q"
    using Cons.prems(5) by (simp add: q_def dm_start_def)
  have b: "bl_color (bl_of_snapshot l (t l)) = dls_color l" "bl_id (bl_of_snapshot l (t l)) = dls_listId l"
    "bl_enabled (bl_of_snapshot l (t l)) = dls_enabled l" "bl_blockMask (bl_of_snapshot l (t l)) = dls_mask l"
    by (simp_all add: bl_of_snapshot_def)
  have bwl: "bw (dls_color l)" and valid: "validListId (dls_listId l)" using Cons.prems(1) guid_listId(1) by auto
  have q: "lists_frame p q \<and> (\<forall>c i. bw c \<longrightarrow> contents q c i =
      (if dls_enabled l \<and> c = dls_color l \<and> i = dls_listId l then Some (load_domains (dls_mask l) (domainListData l) []) else contents p c i))"
  proof (cases "dls_enabled l")
    case True
    have f: "dm_files (p_dm p) (bl_id (bl_of_snapshot l (t l))) = Some (domainListData l)" using Cons.prems(3) True b by simp
    show ?thesis
      using start_enabled [OF _ _ _ f _ q_def] True b bwl valid Cons.prems(4) by auto
  next
    case False
    have "q = p" unfolding q_def using Cons.prems(3) False b bwl by (intro start_disabled) auto
    then show ?thesis using False by simp
  qed
  have notin: "dls_listId x \<noteq> dls_listId l" if "x \<in> set ls" for x using imageI [OF that, of dls_listId] Cons.prems(2) by auto
  have files: "dm_files (p_dm q) = dm_files (p_dm p)" using q by (auto simp: lists_frame_def)
  have IH: "lists_frame q p' \<and> (\<forall>c i. bw c \<longrightarrow> contents p' c i =
    (case enabled_in ls c i of Some l \<Rightarrow> Some (load_domains (dls_mask l) (domainListData l) []) | None \<Rightarrow> contents q c i))"
    by (rule Cons.IH [OF _ _ _ _ p']) (use Cons.prems q notin files in auto)
  have none: "enabled_in ls c (dls_listId l) = None" for c using notin by (auto simp: enabled_in_def find_None_iff)
  have "contents p' c i = (case enabled_in (l # ls) c i of Some l \<Rightarrow> Some (load_domains (dls_mask l) (domainListData l) []) | None \<Rightarrow> contents p c i)"
    if "bw c" for c i
    using IH q that none [of c] by (cases "i = dls_listId l") (auto simp: enabled_in_def split: option.splits)
  then show ?case using lists_frame_trans IH q by blast
qed

text \<open>What the capture reads of a loaded list.\<close>

lemma loaded_domains:
  assumes "list_ok env l"
  shows "set (map fst (load_domains m (domainListData l) [])) = set (dls_domains l)"
proof -
  have "plain_word d" if "d \<in> set (dls_domains l)" for d
  proof -
    have v: "isValidDomainString env d" using assms that by (simp add: list_ok_def)
    have "\<not> is_space c" if c: "c \<in> set d" for c
    proof -
      have "\<not> (of_char c :: nat) < 32" and "c \<noteq> CHR '' ''" using v c by (simp_all add: isValidDomainString_def list_all_iff)
      moreover have "of_char (CHR '' '') = (32 :: nat)" by simp
      ultimately have "(of_char c :: nat) > 32" by (metis linorder_neqE_nat of_char_eq_iff)
      then show ?thesis by (simp add: is_space_def Let_def)
    qed
    then show ?thesis using v by (simp add: plain_word_def isValidDomainString_def)
  qed
  then have "words (domainListData l) = dls_domains l"
    using words_lines [of "dls_domains l"] by (simp add: domainListData_def)
  then show ?thesis using keys_fold_merge(1) [of m "words (domainListData l)" "[]"] by (simp add: load_domains_def)
qed

lemma build_lists_Inr:
  assumes "build_lists env ls out = Inr out'" and "distinct (map dls_listId ls)" and "\<forall>l \<in> set ls. map_of out (dls_listId l) = None"
  shows "\<exists>t. (\<forall>l \<in> set ls. parseUpdatedAtTime env (dls_updatedAt l) = Inr (t l)) \<and>
    out' = out @ map (\<lambda>l. (dls_listId l, bl_of_snapshot l (t l))) ls"
  using assms
proof (induction ls arbitrary: out)
  case (Cons l ls)
  from Cons.prems(1,3) obtain x where x: "parseUpdatedAtTime env (dls_updatedAt l) = Inr x"
    and rest: "build_lists env ls (out @ [(dls_listId l, bl_of_snapshot l x)]) = Inr out'" by (auto simp: try_then_Inr)
  have "dls_listId y \<noteq> dls_listId l" if "y \<in> set ls" for y using imageI [OF that, of dls_listId] Cons.prems(2) by auto
  then obtain t where t: "\<forall>y \<in> set ls. parseUpdatedAtTime env (dls_updatedAt y) = Inr (t y)"
    "out' = (out @ [(dls_listId l, bl_of_snapshot l x)]) @ map (\<lambda>l. (dls_listId l, bl_of_snapshot l (t l))) ls"
    using Cons.IH [OF rest] Cons.prems(2,3) by (auto simp: map_add_def split: option.splits)
  have nl: "l \<notin> set ls" using Cons.prems(2) by auto
  then show ?case using t x by (intro exI [of _ "t(l := x)"]) auto
qed simp

end
