(* ===== verification/CheckpointSteps.thy ===== *)
theory CheckpointSteps
  imports CheckpointRestore
begin

text \<open>
  The steps of a restore after the apps: the reset of the domain policy, the pattern rules, the domain lists.
\<close>

section \<open>The reset\<close>

lemma reset_fields:
  assumes "p' = rm_reset (resetPolicyForCheckpointRestore rx p)"
  shows "p_settings p' = p_settings p" "p_am p' = p_am p" "p_nextApp p' = p_nextApp p" "p_appHeap p' = p_appHeap p"
    "p_domHeap p' = p_domHeap p" "p_nextDom p' = p_nextDom p" "p_ruleHeap p' = p_ruleHeap p" "p_nextRule p' = p_nextRule p"
    "dm_anonymousDom (p_dm p') = dm_anonymousDom (p_dm p)" "dm_files (p_dm p') = dm_files (p_dm p)"
    "dm_byName (p_dm p') = [(name_of p (dm_anonymousDom (p_dm p)), dm_anonymousDom (p_dm p))]"
    "dm_findIP v4 ip p' = None" "rm_rules (p_rm p') = []" "rm_idCount (p_rm p') = 0"
    "dm_blacklist (p_dm p') = dl_reset (dm_blacklist (p_dm p))" "dm_whitelist (p_dm p') = dl_reset (dm_whitelist (p_dm p))"
    "bw c \<Longrightarrow> dm_customList c (p_dm p') = []" "bw c \<Longrightarrow> cr_rules (dm_customRules c (p_dm p')) = []"
  unfolding assms
  by (auto simp: rm_reset_def resetPolicyForCheckpointRestore_def names_reset_def upd_dm_def upd_rm_def name_of_def dm_findIP_def
      dm_byIP_def dm_customList_def dm_customRules_def bw_def)

lemma reset_effect:
  assumes inv: "dom_inv q" and same: "p_dm p = p_dm q" "p_domHeap p = p_domHeap q" "p_nextDom p = p_nextDom q"
    and reg: "registry_inv p" and cl: "\<And>a. app_cleared (p_appHeap p a)" and p': "p' = rm_reset (resetPolicyForCheckpointRestore rx p)"
  shows "apps_ok p'" and "bw c \<Longrightarrow> place_sets p' app c = ({}, {})" and "capture_app p' = capture_app p" and "am_find u p' = am_find u p"
proof -
  note f = reset_fields [OF p']
  let ?d = "dm_anonymousDom (p_dm p)"
  have anon: "?d < p_nextDom p" using dom_invD(2,5) [OF inv] same by simp
  have empty: "place_sets p' app c = ({}, {})" if "bw c" for app c
    using f(17,18) [OF that] cl that
    by (auto simp: place_empty custom_domains_def slot_rules_def f(4) app_customList_def app_customRules_def app_cleared_def bw_def
        split: option.split)
  then show "bw c \<Longrightarrow> place_sets p' app c = ({}, {})" .
  have name: "name_of p' = name_of p" by (simp add: name_of_def [abs_def] f)
  have find: "dm_find n p' = (if n = name_of p ?d then Some ?d else None)" for n by (simp add: dm_find_def f)
  have "dom_inv p'"
  proof (rule dom_invI)
    show "distinct (map fst (dm_byName (p_dm p')))" by (simp add: f)
    show "name_of p' d = n \<and> d < p_nextDom p'" if "dm_find n p' = Some d" for n d
      using that anon by (auto simp: find name f split: if_splits)
    show "ip \<in> set (dom_ips v4 (p_domHeap p' d)) \<and> d < p_nextDom p'" if "dm_findIP v4 ip p' = Some d" for v4 ip d
      using that by (simp add: f)
    show "dm_find (name_of p' d) p' = Some d" if "bw c" "d \<in> set (custom_domains app c p')" for app c d
      using that empty [OF that(1)] by (simp add: place_empty)
    show "dm_find (name_of p' (dm_anonymousDom (p_dm p'))) p' = Some (dm_anonymousDom (p_dm p'))" by (simp add: find name f)
  qed
  moreover have "rules_wf p'" using empty by (simp add: rules_wf_def rm_find_def f place_empty)
  moreover have "registry_inv p'" by (rule registry_same [OF reg]) (simp_all add: f)
  ultimately show "apps_ok p'" using empty by (simp add: apps_ok_def places_ok_def no_stale_apps_def)
  show "capture_app p' = capture_app p" by (simp add: capture_app_def [abs_def] f)
  show "am_find u p' = am_find u p" by (simp add: am_find_def f)
qed

section \<open>Pattern rules\<close>

definition rules_here :: "Policy \<Rightarrow> bool" where
  "rules_here p \<longleftrightarrow> omap_wf (rm_rules (p_rm p)) \<and> (\<forall>i a. rm_find i p = Some a \<longrightarrow> a < p_nextRule p \<and> ru_id (p_ruleHeap p a) = i)"

definition baseline :: "Policy \<Rightarrow> u32 \<Rightarrow> (RuleType \<times> string) option" where
  "baseline p i = map_option (\<lambda>a. (ru_type (p_ruleHeap p a), ru_rule (p_ruleHeap p a))) (rm_find i p)"

text \<open>What the rules stage leaves alone.\<close>

definition rules_frame :: "Policy \<Rightarrow> Policy \<Rightarrow> bool" where
  "rules_frame p p' \<longleftrightarrow> p_dm p' = p_dm p \<and> p_am p' = p_am p \<and> p_appHeap p' = p_appHeap p \<and> p_nextApp p' = p_nextApp p \<and>
     p_domHeap p' = p_domHeap p \<and> p_nextDom p' = p_nextDom p \<and> p_settings p' = p_settings p"

lemma upsert_new:
  assumes ok: "rules_here p" and new: "rm_find rid p = None" and p': "p' = upsertRuleWithId rx rid t q p"
  shows "rules_here p'" and "baseline p' i = (if i = rid then Some (t, q) else baseline p i)"
    and "rm_idCount (p_rm p') = (if rm_idCount (p_rm p) \<le> rid then rid + 1 else rm_idCount (p_rm p))" and "rules_frame p p'"
    and "rm_find i p' = None \<longleftrightarrow> i \<noteq> rid \<and> rm_find i p = None"
proof -
  let ?a = "p_nextRule p"
  have wf: "omap_wf (rm_rules (p_rm p))" using ok by (simp add: rules_here_def)
  have fields: "rm_rules (p_rm p') = fst (omap_emplace rid ?a (rm_rules (p_rm p)))" "p_ruleHeap p' = (p_ruleHeap p)(?a := rule_new rx t rid q)"
    "p_nextRule p' = ?a + 1"
    "rm_idCount (p_rm p') = (if rm_idCount (p_rm p) \<le> rid then rid + 1 else rm_idCount (p_rm p))"
    using new by (auto simp: p' upsertRuleWithId_def rm_make_def upd_rm_def Let_def)
  have find: "rm_find i p' = (if i = rid then Some ?a else rm_find i p)" for i
    using new by (simp add: rm_find_def fields(1) map_of_omap_emplace [OF wf])
  have below: "a \<noteq> ?a" if "rm_find i p = Some a" for i a using ok that by (auto simp: rules_here_def)
  have r: "ru_type (rule_new rx t rid q) = t" "ru_rule (rule_new rx t rid q) = q" "ru_id (rule_new rx t rid q) = rid"
    by (simp_all add: rule_new_def rule_create_def Let_def)
  show "rules_here p'"
    using ok wf below r by (auto simp: rules_here_def fields find less_Suc_eq split: if_splits)
  show "baseline p' i = (if i = rid then Some (t, q) else baseline p i)"
    using below r by (cases "rm_find i p") (auto simp: baseline_def fields find)
  show "rm_idCount (p_rm p') = (if rm_idCount (p_rm p) \<le> rid then rid + 1 else rm_idCount (p_rm p))" by (rule fields(4))
  show "rules_frame p p'" using new by (auto simp: rules_frame_def p' upsertRuleWithId_def rm_make_def upd_rm_def Let_def)
  show "rm_find i p' = None \<longleftrightarrow> i \<noteq> rid \<and> rm_find i p = None" by (simp add: find)
qed

lemma fold_upsert:
  assumes "rules_here p" and "distinct (map dr_ruleId rs)" and "\<forall>r \<in> set rs. rm_find (dr_ruleId r) p = None"
    and "\<forall>r \<in> set rs. dr_ruleId r < n" and "rm_idCount (p_rm p) \<le> n"
    and "p' = fold (\<lambda>r. upsertRuleWithId rx (dr_ruleId r) (dr_type r) (dr_pattern r)) rs p"
  shows "rules_here p' \<and> rm_idCount (p_rm p') \<le> n \<and> rules_frame p p' \<and>
    (\<forall>i. baseline p' i = (case find (\<lambda>r. dr_ruleId r = i) rs of Some r \<Rightarrow> Some (dr_type r, dr_pattern r) | None \<Rightarrow> baseline p i))"
  using assms
proof (induction rs arbitrary: p)
  case Nil
  then show ?case by (simp add: rules_frame_def)
next
  case (Cons r rs)
  define q where "q = upsertRuleWithId rx (dr_ruleId r) (dr_type r) (dr_pattern r) p"
  have new: "rm_find (dr_ruleId r) p = None" and lt: "dr_ruleId r < n" using Cons.prems by simp_all
  note u = upsert_new [OF Cons.prems(1) new q_def]
  have notin: "dr_ruleId x \<noteq> dr_ruleId r" if "x \<in> set rs" for x
    using imageI [OF that, of dr_ruleId] Cons.prems(2) by auto
  have cnt: "rm_idCount (p_rm q) \<le> n" using u(3) lt Cons.prems(5) by (auto simp: inc_le)
  have p': "p' = fold (\<lambda>r. upsertRuleWithId rx (dr_ruleId r) (dr_type r) (dr_pattern r)) rs q" using Cons.prems(6) by (simp add: q_def)
  have IH: "rules_here p' \<and> rm_idCount (p_rm p') \<le> n \<and> rules_frame q p' \<and>
    (\<forall>i. baseline p' i = (case find (\<lambda>r. dr_ruleId r = i) rs of Some r \<Rightarrow> Some (dr_type r, dr_pattern r) | None \<Rightarrow> baseline q i))"
    by (rule Cons.IH [OF u(1) _ _ _ cnt p']) (use Cons.prems notin u(5) in auto)
  have none: "find (\<lambda>x. dr_ruleId x = dr_ruleId r) rs = None" using notin by (auto simp: find_None_iff)
  have "baseline p' i = (case find (\<lambda>r. dr_ruleId r = i) (r # rs) of Some r \<Rightarrow> Some (dr_type r, dr_pattern r) | None \<Rightarrow> baseline p i)" for i
    using IH u(2) none by (auto split: option.splits)
  moreover have "rules_frame p p'" using IH u(4) by (simp add: rules_frame_def)
  ultimately show ?case using IH by blast
qed

lemma restore_rules_effect:
  assumes empty: "rm_rules (p_rm p) = []" "rm_idCount (p_rm p) = 0" and dist: "distinct (map dr_ruleId rs)"
    and below: "\<forall>r \<in> set rs. dr_ruleId r < n"
    and p': "p' = ensureNextRuleIdAtLeast n (fold (\<lambda>r. upsertRuleWithId rx (dr_ruleId r) (dr_type r) (dr_pattern r)) rs p)"
  shows "rules_here p'" and "rm_idCount (p_rm p') = n" and "rules_frame p p'"
    and "baseline p' i = map_option (\<lambda>r. (dr_type r, dr_pattern r)) (find (\<lambda>r. dr_ruleId r = i) rs)"
proof -
  define q where "q = fold (\<lambda>r. upsertRuleWithId rx (dr_ruleId r) (dr_type r) (dr_pattern r)) rs p"
  have ok: "rules_here p" using empty by (simp add: rules_here_def rm_find_def omap_wf_def)
  have none: "rm_find i p = None" for i by (simp add: rm_find_def empty)
  have f: "rules_here q \<and> rm_idCount (p_rm q) \<le> n \<and> rules_frame p q \<and>
    (\<forall>i. baseline q i = (case find (\<lambda>r. dr_ruleId r = i) rs of Some r \<Rightarrow> Some (dr_type r, dr_pattern r) | None \<Rightarrow> baseline p i))"
    by (rule fold_upsert [OF ok dist _ below _ q_def]) (simp_all add: none empty)
  have p'q: "p' = ensureNextRuleIdAtLeast n q" by (simp add: p' q_def)
  have e: "rm_rules (p_rm p') = rm_rules (p_rm q)" "p_ruleHeap p' = p_ruleHeap q" "p_nextRule p' = p_nextRule q" "rules_frame q p'"
    by (auto simp: p'q ensureNextRuleIdAtLeast_def upd_rm_def rules_frame_def)
  have find: "rm_find i p' = rm_find i q" for i by (simp add: rm_find_def e)
  show "rules_here p'" using f by (simp add: rules_here_def find e)
  show "rm_idCount (p_rm p') = n" using f by (auto simp: p'q ensureNextRuleIdAtLeast_def upd_rm_def)
  show "rules_frame p p'" using f e(4) by (simp add: rules_frame_def)
  have "baseline p' i = baseline q i" by (simp add: baseline_def find e)
  then show "baseline p' i = map_option (\<lambda>r. (dr_type r, dr_pattern r)) (find (\<lambda>r. dr_ruleId r = i) rs)"
    using f by (simp add: baseline_def [of p] none split: option.split)
qed

text \<open>The captured rules of a registry that holds the rules of a bundle.\<close>

definition captured_rules :: "Policy \<Rightarrow> DomainRuleSnapshot list" where
  "captured_rules p = map (\<lambda>r. \<lparr>dr_ruleId = br_ruleId r, dr_type = br_type r, dr_pattern = br_pattern r\<rparr>)
     (std_sort (\<lambda>a b. br_ruleId a < br_ruleId b) (snapshotBaseline p))"

lemma captured_rules_set:
  assumes wf: "omap_wf (rm_rules (p_rm p))" and dist: "distinct (map dr_ruleId rs)"
    and base: "\<And>i. baseline p i = map_option (\<lambda>r. (dr_type r, dr_pattern r)) (find (\<lambda>r. dr_ruleId r = i) rs)"
  shows "set (captured_rules p) = set rs"
proof -
  have mem: "(i, a) \<in> set (rm_rules (p_rm p)) \<longleftrightarrow> rm_find i p = Some a" for i a
    using wf by (simp add: rm_find_def omap_in_set_iff)
  have "set (captured_rules p) = {r. baseline p (dr_ruleId r) = Some (dr_type r, dr_pattern r)}"
  proof (intro set_eqI iffI)
    fix r assume "r \<in> set (captured_rules p)"
    then obtain i a where "(i, a) \<in> set (rm_rules (p_rm p))"
      and r: "r = \<lparr>dr_ruleId = i, dr_type = ru_type (p_ruleHeap p a), dr_pattern = ru_rule (p_ruleHeap p a)\<rparr>"
      by (auto simp: captured_rules_def snapshotBaseline_def)
    then show "r \<in> {r. baseline p (dr_ruleId r) = Some (dr_type r, dr_pattern r)}" by (simp add: mem baseline_def)
  next
    fix r :: DomainRuleSnapshot assume "r \<in> {r. baseline p (dr_ruleId r) = Some (dr_type r, dr_pattern r)}"
    then obtain a where "rm_find (dr_ruleId r) p = Some a" and t: "dr_type r = ru_type (p_ruleHeap p a)" "dr_pattern r = ru_rule (p_ruleHeap p a)"
      by (auto simp: baseline_def)
    then have "(dr_ruleId r, a) \<in> set (rm_rules (p_rm p))" by (simp add: mem)
    from imageI [OF this, of "\<lambda>e. \<lparr>dr_ruleId = fst e, dr_type = ru_type (p_ruleHeap p (snd e)), dr_pattern = ru_rule (p_ruleHeap p (snd e))\<rparr>"]
    moreover have "\<lparr>dr_ruleId = dr_ruleId r, dr_type = ru_type (p_ruleHeap p a), dr_pattern = ru_rule (p_ruleHeap p a)\<rparr> = r"
      using t by (cases r) simp
    ultimately show "r \<in> set (captured_rules p)" by (simp add: captured_rules_def snapshotBaseline_def image_image)
  qed
  also have "\<dots> = set rs"
  proof (intro set_eqI iffI)
    fix r :: DomainRuleSnapshot assume "r \<in> {r. baseline p (dr_ruleId r) = Some (dr_type r, dr_pattern r)}"
    then obtain x where x: "find (\<lambda>x. dr_ruleId x = dr_ruleId r) rs = Some x" "dr_type x = dr_type r" "dr_pattern x = dr_pattern r"
      by (auto simp: base)
    then have "x \<in> set rs" "dr_ruleId x = dr_ruleId r" by (auto simp: find_Some_iff)
    moreover from this(2) have "x = r" using x(2,3) by (cases x; cases r) simp
    ultimately show "r \<in> set rs" by simp
  next
    fix r assume r: "r \<in> set rs"
    then obtain x where x: "find (\<lambda>x. dr_ruleId x = dr_ruleId r) rs = Some x" by (fastforce simp: find_None_iff)
    then have "x \<in> set rs" "dr_ruleId x = dr_ruleId r" by (auto simp: find_Some_iff)
    then have "x = r" using dist r by (meson distinct_map inj_onD)
    then show "r \<in> {r. baseline p (dr_ruleId r) = Some (dr_type r, dr_pattern r)}" using x by (simp add: base)
  qed
  finally show ?thesis .
qed

end
