(* ===== verification/CheckpointAgree.thy ===== *)
theory CheckpointAgree
  imports CheckpointLists CheckpointSteps
begin

text \<open>
  The steps of a restore composed: on a policy whose registries are consistent, the apps, the rules, the lists and the
  scopes of the checkpoint are in place afterwards, and nothing else is.
\<close>

section \<open>Stages that touch neither apps nor domains\<close>

definition quiet_frame :: "Policy \<Rightarrow> Policy \<Rightarrow> bool" where
  "quiet_frame p p' \<longleftrightarrow>
     p_am p' = p_am p \<and> p_nextApp p' = p_nextApp p \<and> p_appHeap p' = p_appHeap p \<and> p_domHeap p' = p_domHeap p \<and>
     p_nextDom p' = p_nextDom p \<and> dm_byName (p_dm p') = dm_byName (p_dm p) \<and> dm_byIPv4 (p_dm p') = dm_byIPv4 (p_dm p) \<and>
     dm_byIPv6 (p_dm p') = dm_byIPv6 (p_dm p) \<and> dm_anonymousDom (p_dm p') = dm_anonymousDom (p_dm p) \<and>
     dm_customBlacklist (p_dm p') = dm_customBlacklist (p_dm p) \<and> dm_customWhitelist (p_dm p') = dm_customWhitelist (p_dm p) \<and>
     dm_blackRules (p_dm p') = dm_blackRules (p_dm p) \<and> dm_whiteRules (p_dm p') = dm_whiteRules (p_dm p)"

lemma quiet_rules: "rules_frame p p' \<Longrightarrow> quiet_frame p p'"
  by (simp add: rules_frame_def quiet_frame_def)

lemma quiet_lists: "lists_frame p p' \<Longrightarrow> quiet_frame p p'"
  by (simp add: lists_frame_def quiet_frame_def)

definition no_places :: "Policy \<Rightarrow> bool" where
  "no_places p \<longleftrightarrow> (\<forall>app c. bw c \<longrightarrow> place_sets p app c = ({}, {}))"

lemma quiet_apps:
  assumes q: "quiet_frame p p'" and ok: "apps_ok p" and empty: "no_places p"
    and ids: "\<forall>i a. rm_find i p' = Some a \<longrightarrow> ru_id (p_ruleHeap p' a) = i"
  shows "apps_ok p'" and "no_places p'" and "capture_app p' = capture_app p" and "am_find u p' = am_find u p"
proof -
  have cd: "custom_domains app c p' = custom_domains app c p" if "bw c" for app c
    using q that by (auto simp: quiet_frame_def custom_domains_def dm_customList_def bw_def split: option.split)
  have sl: "slot_rules app c p' = slot_rules app c p" if "bw c" for app c
    using q that by (auto simp: quiet_frame_def slot_rules_def dm_customRules_def bw_def split: option.split)
  show np: "no_places p'" using empty by (simp add: no_places_def place_empty cd sl)
  have "dom_frame p p'" using q cd by (simp add: quiet_frame_def dom_frame_def dm_byIP_def)
  then have "dom_inv p'" using ok dom_inv_frame by (auto simp: apps_ok_def places_ok_def)
  moreover have "rules_wf p'" using np ids by (simp add: rules_wf_def no_places_def place_empty)
  moreover have "registry_inv p'"
    using ok q by (simp add: apps_ok_def registry_inv_def AppGuarantees.registered_def quiet_frame_def)
  ultimately show "apps_ok p'" using np by (simp add: apps_ok_def places_ok_def no_stale_apps_def no_places_def)
  show "capture_app p' = capture_app p" "am_find u p' = am_find u p"
    using q by (simp_all add: quiet_frame_def capture_app_def [abs_def] am_find_def)
qed

section \<open>The whole sequence\<close>

definition live_policy :: "regex \<Rightarrow> IoFaults \<Rightarrow> int \<Rightarrow> Bundle \<Rightarrow> BlockingList list \<Rightarrow> Policy \<Rightarrow> Policy" where
  "live_policy rx io today b bls p =
     restore_scopes rx today b (dm_start io bls (restore_domain_rules rx b
       (resetPolicyForCheckpointRestore rx (restore_apps rx today b p))))"

definition rules_stored :: "Policy \<Rightarrow> DomainRuleSnapshot list \<Rightarrow> bool" where
  "rules_stored p rs \<longleftrightarrow> omap_wf (rm_rules (p_rm p)) \<and>
     (\<forall>i. baseline p i = map_option (\<lambda>r. (dr_type r, dr_pattern r)) (find (\<lambda>r. dr_ruleId r = i) rs))"

lemma live_policy_effect:
  assumes inv: "dom_inv p" "registry_inv p" "no_stale_apps p" and ok: "bundle_ok env b"
    and bw: "\<forall>l \<in> set (bu_domainLists b). bw (dls_color l)"
    and files: "dm_files (p_dm p) = list_files (bu_domainLists b)"
    and p': "p' = live_policy rx io today b (map (\<lambda>l. bl_of_snapshot l (t l)) (bu_domainLists b)) p"
  shows "p_settings p' = settings_applyCheckpointPolicyConfig (bu_deviceConfig b) (p_settings p)"
    and "rm_idCount (p_rm p') = drs_nextRuleId (bu_domainRules b)" and "rules_stored p' (drs_rules (bu_domainRules b))"
    and "apps_ok p'"
    and "\<And>c. bw c \<Longrightarrow> place_sets p' None c = scope_sets (dps_device (bu_domainPolicy b)) c"
    and "\<And>s. s \<in> set (dps_apps (bu_domainPolicy b)) \<Longrightarrow>
      \<exists>a. am_find (adp_uid s) p' = Some a \<and> (\<forall>c. bw c \<longrightarrow> place_sets p' (Some a) c = scope_sets (adp_policy s) c)"
    and "\<And>u x c. am_find u p' = Some x \<Longrightarrow> u \<notin> adp_uid ` set (dps_apps (bu_domainPolicy b)) \<Longrightarrow> bw c \<Longrightarrow> place_sets p' (Some x) c = ({}, {})"
    and "\<And>cfg. cfg \<in> set (bu_appConfigs b) \<Longrightarrow> \<exists>a. am_find (ac_uid cfg) p' = Some a \<and> capture_app p' a = norm_app cfg"
    and "\<And>u x. am_find u p' = Some x \<Longrightarrow> u \<notin> ac_uid ` set (bu_appConfigs b) \<Longrightarrow> u \<notin> adp_uid ` set (dps_apps (bu_domainPolicy b)) \<Longrightarrow>
      capture_app p' x = default_app (bu_deviceConfig b) u"
    and "\<And>c i. bw c \<Longrightarrow> contents p' c i =
      map_option (\<lambda>l. load_domains (dls_mask l) (domainListData l) []) (enabled_in (bu_domainLists b) c i)"
proof -
  let ?ls = "bu_domainLists b" and ?rs = "drs_rules (bu_domainRules b)" and ?n = "drs_nextRuleId (bu_domainRules b)"
  define pa where "pa = restore_apps rx today b p"
  define pr where "pr = rm_reset (resetPolicyForCheckpointRestore rx pa)"
  define pu where "pu = restore_domain_rules rx b (resetPolicyForCheckpointRestore rx pa)"
  define pl where "pl = dm_start io (map (\<lambda>l. bl_of_snapshot l (t l)) ?ls) pu"
  define pd where "pd = addPolicyScope rx today (dps_device (bu_domainPolicy b)) None pl"
  have p'd: "p' = fold (\<lambda>s. on_made_app today (adp_uid s) (\<lambda>app. addPolicyScope rx today (adp_policy s) (Some app)))
      (dps_apps (bu_domainPolicy b)) pd"
    by (simp add: p' live_policy_def pa_def pu_def pl_def pd_def restore_scopes_def)
  have ids: "dr_ruleId ` set ?rs = {i. baseline pu i \<noteq> None}" if "rules_stored pu ?rs"
    using that by (force simp: rules_stored_def find_None_iff)
  have guids: "\<forall>l \<in> set ?ls. isValidGuid36 (dls_listId l)" and dist_ls: "distinct (map dls_listId ?ls)"
    and dist_rs: "distinct (map dr_ruleId ?rs)" and below: "\<forall>r \<in> set ?rs. dr_ruleId r < ?n"
    and dist_cfg: "distinct (map ac_uid (bu_appConfigs b))" and dist_adp: "distinct (map adp_uid (dps_apps (bu_domainPolicy b)))"
    and scope_dev: "scope_ok env (dr_ruleId ` set ?rs) (dps_device (bu_domainPolicy b))"
    and scope_apps: "\<forall>s \<in> set (dps_apps (bu_domainPolicy b)). scope_ok env (dr_ruleId ` set ?rs) (adp_policy s)"
    using ok by (auto simp: bundle_ok_def Let_def list_ok_def)
  note A = restore_apps_effect [OF inv(2,3) dist_cfg pa_def]
  note R = reset_effect [OF inv(1) A(4,6,7,1,2) pr_def] and F = reset_fields [OF pr_def]
  have npr: "no_places pr" using R(2) by (simp add: no_places_def)
  have pu': "pu = ensureNextRuleIdAtLeast ?n (fold (\<lambda>r. upsertRuleWithId rx (dr_ruleId r) (dr_type r) (dr_pattern r)) ?rs pr)"
    by (simp add: pu_def restore_domain_rules_def pr_def)
  note U = restore_rules_effect [OF F(13,14) dist_rs below pu']
  have stored: "rules_stored pu ?rs" using U(1,4) by (simp add: rules_stored_def rules_here_def)
  have idsU: "\<forall>i a. rm_find i pu = Some a \<longrightarrow> ru_id (p_ruleHeap pu a) = i" using U(1) by (simp add: rules_here_def)
  note QU = quiet_apps [OF quiet_rules [OF U(3)] R(1) npr idsU]
  have dmU: "p_dm pu = p_dm pr" using U(3) by (simp add: rules_frame_def)
  have filesU: "dm_files (p_dm pu) = list_files ?ls" by (simp add: dmU F(10) A(4) files)
  have none: "contents pu c i = None" for c i
    by (simp add: contents_def list_of_def dmU F(15,16) dl_reset_def rebuildAggSnapshotLocked_def)
  have L: "lists_frame pu pl \<and> (\<forall>c i. bw c \<longrightarrow> contents pl c i =
    (case enabled_in ?ls c i of Some l \<Rightarrow> Some (load_domains (dls_mask l) (domainListData l) []) | None \<Rightarrow> contents pu c i))"
    by (rule start_lists [OF _ dist_ls _ _ pl_def]) (use guids bw none filesU list_files_at [OF guids dist_ls] in auto)
  have rmL: "p_rm pl = p_rm pu" "p_ruleHeap pl = p_ruleHeap pu" "p_settings pl = p_settings pu"
    using L by (simp_all add: lists_frame_def)
  have findL: "rm_find i pl = rm_find i pu" for i by (simp add: rm_find_def rmL)
  have idsL: "\<forall>i a. rm_find i pl = Some a \<longrightarrow> ru_id (p_ruleHeap pl a) = i" using idsU by (simp add: findL rmL)
  note QL = quiet_apps [OF quiet_lists [OF conjunct1 [OF L]] QU(1,2) idsL]
  have known: "rm_find i pl \<noteq> None" if "i \<in> dr_ruleId ` set ?rs" for i
    using that ids [OF stored] by (simp add: findL baseline_def)
  have knownD: "\<forall>i \<in> set (sc_allowRuleIds (dps_device (bu_domainPolicy b))) \<union> set (sc_blockRuleIds (dps_device (bu_domainPolicy b))). rm_find i pl \<noteq> None"
    using scope_dev known unfolding scope_ok_def by blast
  have okL: "places_ok pl" using QL(1) by (simp add: apps_ok_def)
  note D = scope_effect [OF okL knownD pd_def]
  have frD: "scope_frame pl pd" unfolding pd_def by (rule frame_addPolicyScope)
  have findD: "am_find u pd = am_find u pl" for u using frD by (simp add: am_find_def scope_frame_def)
  have emptyD: "place_sets pd (Some a) c = ({}, {})" if "bw c" for a c
    using D(3) [OF that] QL(2) that by (simp add: no_places_def)
  have devD: "place_sets pd None c = scope_sets (dps_device (bu_domainPolicy b)) c" if "bw c" for c
    using D(3) [OF that] QL(2) that by (simp add: no_places_def join_sets_def)
  have regD: "registry_inv pd" by (rule registry_frame [OF _ frD]) (use QL(1) in \<open>simp add: apps_ok_def\<close>)
  have "no_stale_apps pd" unfolding no_stale_apps_def using emptyD by blast
  with D(1) regD have appsD: "apps_ok pd" unfolding apps_ok_def by (intro conjI)
  have knownA: "\<forall>s \<in> set (dps_apps (bu_domainPolicy b)). \<forall>i \<in> set (sc_allowRuleIds (adp_policy s)) \<union> set (sc_blockRuleIds (adp_policy s)). rm_find i pd \<noteq> None"
    using scope_apps known unfolding scope_ok_def D(2) by blast
  have emptyA: "\<forall>s \<in> set (dps_apps (bu_domainPolicy b)). \<forall>a c. am_find (adp_uid s) pd = Some a \<longrightarrow> bw c \<longrightarrow> place_sets pd (Some a) c = ({}, {})"
    using emptyD by blast
  note S = fold_scopes [OF appsD dist_adp knownA emptyA p'd]
  have fr: "app_frame pl p'" using S app_frame_trans [OF app_frame_scope [OF frD]] by blast
  have findS: "rm_find i p' = rm_find i pu" for i using S D(2) findL by simp
  have frs: "p_settings p' = p_settings pl" "rm_idCount (p_rm p') = rm_idCount (p_rm pl)" "rm_rules (p_rm p') = rm_rules (p_rm pl)"
    "p_ruleHeap p' = p_ruleHeap pl" "dm_blacklist (p_dm p') = dm_blacklist (p_dm pl)" "dm_whitelist (p_dm p') = dm_whitelist (p_dm pl)"
    using fr by (simp_all add: app_frame_def)
  show "p_settings p' = settings_applyCheckpointPolicyConfig (bu_deviceConfig b) (p_settings p)"
    using U(3) by (simp add: frs rmL rules_frame_def F(1) A(3))
  show "rm_idCount (p_rm p') = ?n" by (simp add: frs rmL U(2))
  show "rules_stored p' ?rs" using stored by (simp add: rules_stored_def baseline_def findS frs rmL)
  show "apps_ok p'" using S by blast
  show "place_sets p' None c = scope_sets (dps_device (bu_domainPolicy b)) c" if "bw c" for c
    using S devD [OF that] that by simp
  show "\<exists>a. am_find (adp_uid s) p' = Some a \<and> (\<forall>c. bw c \<longrightarrow> place_sets p' (Some a) c = scope_sets (adp_policy s) c)"
    if "s \<in> set (dps_apps (bu_domainPolicy b))" for s using S that by blast
  have others: "am_find u p' = Some x \<Longrightarrow> u \<notin> adp_uid ` set (dps_apps (bu_domainPolicy b)) \<Longrightarrow>
      am_find u pd = Some x \<and> (\<forall>c. bw c \<longrightarrow> place_sets p' (Some x) c = place_sets pd (Some x) c)" for u x using S by blast
  show "place_sets p' (Some x) c = ({}, {})"
    if "am_find u p' = Some x" "u \<notin> adp_uid ` set (dps_apps (bu_domainPolicy b))" "bw c" for u x c
    using others [OF that(1,2)] emptyD [OF that(3)] that(3) by simp
  have findA: "am_find u pl = am_find u pa" for u using QL(4) QU(4) R(4) by simp
  have keep: "am_find u p' = Some x \<and> capture_app p' x = capture_app pa x" if "am_find u pa = Some x" for u x
    using fr that QL(3) QU(3) R(3) unfolding app_frame_def findA [symmetric] by metis
  show "\<exists>a. am_find (ac_uid cfg) p' = Some a \<and> capture_app p' a = norm_app cfg" if "cfg \<in> set (bu_appConfigs b)" for cfg
    using A(10) [OF that] keep by force
  show "capture_app p' x = default_app (bu_deviceConfig b) u"
    if "am_find u p' = Some x" "u \<notin> ac_uid ` set (bu_appConfigs b)" "u \<notin> adp_uid ` set (dps_apps (bu_domainPolicy b))" for u x
  proof -
    have ua: "am_find u pa = Some x" using others [OF that(1,3)] findD findA by simp
    show ?thesis using keep [OF ua] A(11) [OF ua that(2)] by simp
  qed
  show "contents p' c i = map_option (\<lambda>l. load_domains (dls_mask l) (domainListData l) []) (enabled_in ?ls c i)" if "bw c" for c i
  proof -
    have "contents p' c i = contents pl c i" by (simp add: contents_def list_of_def frs)
    then show ?thesis using L that none by (simp split: option.split)
  qed
qed

end
