(* ===== verification/CheckpointFailure.thy ===== *)
theory CheckpointFailure
  imports CheckpointLive
begin

text \<open>
  A restore that fails, at whatever step, leaves the policy as it was: the settings, apps, domains, rules and lists that
  a capture shows, the classifier of the rules engine, the directory of list files and the slots.
\<close>

section \<open>Moving between the directory and the registry\<close>

lemma live_with_dirs [simp]: "live_dirs (with_dirs d w) = d"
  by (auto simp: live_dirs_def with_dirs_def with_policy_def cw_policy_def on_policy_def upd_dm_def split: option.splits)

lemma capture_files:
  "capture_scope app (upd_dm (\<lambda>m. m\<lparr>dm_files := f\<rparr>) p) = capture_scope app p"
  "capture_app (upd_dm (\<lambda>m. m\<lparr>dm_files := f\<rparr>) p) = capture_app p"
  "capture_list env (upd_dm (\<lambda>m. m\<lparr>dm_files := f\<rparr>) p) = capture_list env p"
  "snapshotBaseline (upd_dm (\<lambda>m. m\<lparr>dm_files := f\<rparr>) p) = snapshotBaseline p"
  "nextRuleIdSnapshot (upd_dm (\<lambda>m. m\<lparr>dm_files := f\<rparr>) p) = nextRuleIdSnapshot p"
  "snapshotByUid u (upd_dm (\<lambda>m. m\<lparr>dm_files := f\<rparr>) p) = snapshotByUid u p"
  "p_settings (upd_dm (\<lambda>m. m\<lparr>dm_files := f\<rparr>) p) = p_settings p"
  "p_appHeap (upd_dm (\<lambda>m. m\<lparr>dm_files := f\<rparr>) p) = p_appHeap p"
  by (auto simp: upd_dm_def capture_scope_def capture_app_def capture_list_def snapshotCustomDomains_def custom_domains_def
      dm_customList_def current_rules_def dm_customRules_def name_of_def [abs_def] snapshotBaseline_def nextRuleIdSnapshot_def
      snapshotByUid_def snapshotDomainListContents_def Let_def fun_eq_iff split: option.split)

lemma with_dirs_fields [simp]:
  "cw_engine (with_dirs d w) = cw_engine w" "cw_lists (with_dirs d w) = cw_lists w" "cw_slots (with_dirs d w) = cw_slots w"
  by (simp_all add: with_dirs_def with_policy_def cw_engine_def on_policy_def)

lemma capture_with_dirs [simp]: "captureLivePolicy env now (with_dirs d w) = captureLivePolicy env now w"
proof -
  have p: "cw_policy (with_dirs d w) =
      upd_dm (\<lambda>m. m\<lparr>dm_files := (case d domainListsFinalDir of Some f \<Rightarrow> f | None \<Rightarrow> Map.empty)\<rparr>) (cw_policy w)"
    by (simp add: with_dirs_def with_policy_def cw_policy_def on_policy_def)
  show ?thesis by (simp add: captureLivePolicy_def Let_def p capture_files bl_getLists_def)
qed

section \<open>Steps that cannot fail after validation\<close>

lemma build_lists_ok:
  "\<forall>l \<in> set ls. list_ok env l \<Longrightarrow> \<exists>out'. build_lists env ls out = Inr out'"
proof (induction ls arbitrary: out)
  case (Cons l ls)
  have "\<exists>t. parseUpdatedAtTime env (dls_updatedAt l) = Inr t"
    using Cons.prems by (auto simp: list_ok_def isValidUpdatedAtString_def parseUpdatedAtTime_def split: option.split)
  then show ?case using Cons by auto
qed simp

lemma restore_result_validates: "fst (restorePolicySnapshot ps e) = validatePolicySnapshot ps e"
proof (cases "stage ps e")
  case (Inr m)
  then obtain staged e1 where m: "m = (staged, e1)" and "heap_ext e e1" using stage_inv by (cases m) blast
  then show ?thesis using heap_ext_same(3) [of e e1] Inr
    by (simp add: restorePolicySnapshot_def validatePolicySnapshot_def Let_def)
qed (simp add: restorePolicySnapshot_def validatePolicySnapshot_def)

lemma restore_fails_publishing:
  assumes "restoreBundleToLivePolicy env io b staging w = (Inl err, staging', w')" and v: "validateBundle env (cw_engine w) b = Inr ()"
  shows "\<exists>st stg d. publishDomainListFiles (ri_stage io) (ri_suffix io) staging (live_dirs w) = (Inl st, stg, d) \<and>
    w' = with_dirs (snd (rollbackDomainListFiles (ri_stage io) stg d)) (with_dirs d w)"
proof -
  obtain out where out: "buildBlockingListsForRestore env (bu_domainLists b) = Inr out"
    using v build_lists_ok [of "bu_domainLists b" env "[]"]
    by (auto simp: validateBundle_iff bundle_ok_def Let_def buildBlockingListsForRestore_def)
  obtain r stg d where pub: "publishDomainListFiles (ri_stage io) (ri_suffix io) staging (live_dirs w) = (r, stg, d)"
    using prod_cases3 by blast
  obtain res eng where ip: "restorePolicySnapshot (bu_ipRules b) (cw_engine w) = (res, eng)" by fastforce
  have ok: "res_ok res"
    using v restore_result_validates [of "bu_ipRules b" "cw_engine w"] by (simp add: validateBundle_iff ip)
  have r: "\<exists>st. r = Inl st"
  proof (rule ccontr)
    assume "\<not> (\<exists>st. r = Inl st)"
    then obtain u where "r = Inr u" by (cases r) auto
    then show False using assms(1) by (simp add: restoreBundleToLivePolicy_def v out pub ip ok Let_def split: prod.splits)
  qed
  then show ?thesis using assms(1) by (auto simp: restoreBundleToLivePolicy_def v out pub Let_def split: prod.splits)
qed

lemma stage_fails:
  assumes "stageBundleForRestore env io sfx e b noStaging dirs = (Inl err, staging, d)"
  shows "d domainListsFinalDir = dirs domainListsFinalDir"
  using assms paths_differ(1) [of sfx] paths_differ(1) [of sfx, symmetric]
  by (auto simp: stageBundleForRestore_def rollbackDomainListFiles_def noStaging_def removeTree_def prepareDomainListFiles_def Let_def
      internal_def errStatus_def split: sum.splits if_splits)

lemma stage_works:
  assumes "stageBundleForRestore env io sfx e b noStaging dirs = (Inr u, staging, d)"
  shows "validateBundle env e b = Inr ()" and "prepareDomainListFiles io sfx (bu_domainLists b) dirs = (Inr (), staging, d)"
  using assms
  by (auto simp: stageBundleForRestore_def rollbackDomainListFiles_def noStaging_def removeTree_def split: sum.splits)

text \<open>C12. A restore that fails changes nothing: whether the slot cannot be read, the checkpoint is not valid, the list
  files cannot be staged or published, the policy that a capture shows, the rules engine, the directory of list files
  and the slots are what they were, provided a list directory that was moved away can be moved back.\<close>

theorem failed_restore_changes_nothing:
  assumes "snortCheckpointRestore env io sfx rio nowNs slot w = (Inl err, w')" and "st_undo (ri_stage rio)"
  shows "captureLivePolicy env now w' = captureLivePolicy env now w \<and> cw_engine w' = cw_engine w \<and>
    live_dirs w' domainListsFinalDir = live_dirs w domainListsFinalDir \<and> cw_slots w' = cw_slots w"
proof (cases "readSlot env io (cw_engine w) slot (cw_slots w)")
  case (Inl e)
  then show ?thesis using assms(1) by (simp add: snortCheckpointRestore_def)
next
  case (Inr bm)
  obtain b meta where bm: "bm = (b, meta)" by fastforce
  obtain st staging d where stage: "stageBundleForRestore env (ri_stage rio) sfx (cw_engine w) b noStaging (live_dirs w) = (st, staging, d)"
    using prod_cases3 by blast
  show ?thesis
  proof (cases st)
    case (Inl e)
    then show ?thesis
      using assms(1) stage stage_fails [of env "ri_stage rio" sfx "cw_engine w" b "live_dirs w" e staging d]
      by (auto simp: snortCheckpointRestore_def \<open>readSlot _ _ _ _ _ = Inr bm\<close> bm)
  next
    case (Inr u)
    note works = stage_works [OF stage [unfolded Inr]]
    obtain r stg' w2 where res: "restoreBundleToLivePolicy env rio b staging (with_dirs d w) = (r, stg', w2)"
      using prod_cases3 by blast
    have r: "r = Inl err" "w' = w2"
      using assms(1) by (auto simp: snortCheckpointRestore_def \<open>readSlot _ _ _ _ _ = Inr bm\<close> bm stage Inr res split: sum.splits)
    obtain err2 stg d2 where pub: "publishDomainListFiles (ri_stage rio) (ri_suffix rio) staging d = (Inl err2, stg, d2)"
      and w2: "w2 = with_dirs (snd (rollbackDomainListFiles (ri_stage rio) stg d2)) (with_dirs d2 (with_dirs d w))"
      using restore_fails_publishing [OF res [unfolded r(1)]] works(1) by auto
    show ?thesis using publish_rollback [OF works(2) pub assms(2)] by (simp add: r(2) w2)
  qed
qed

text \<open>A restore whose list directory cannot be put in place.\<close>

definition ex_restore_io :: RestoreIo where
  "ex_restore_io = \<lparr>ri_stage = stage_io\<lparr>st_parent := False\<rparr>, ri_faults = no_faults, ri_suffix = ''2'', ri_today = 0\<rparr>"

lemma ex_restore_fails:
  assumes "cw_slots w = [slotPath 1 \<mapsto> ''bundle'']"
  shows "\<exists>err w'. snortCheckpointRestore (ex_cp_env (makeBundleDocument ex_bundle)) io_works ''1'' ex_restore_io 0 1 w = (Inl err, w')"
proof -
  let ?env = "ex_cp_env (makeBundleDocument ex_bundle)"
  have enc: "encodeBundle ?env ex_engine ex_bundle = Inr ''bundle''"
    by (simp add: encodeBundle_def ex_bundle_valid) (simp add: ex_cp_env_def kMaxSlotBytes_def)
  have dec: "decodeBundle ?env (cw_engine w) ''bundle'' = Inr ex_bundle"
    by (rule encode_decode [OF enc ex_bundle_stored]) (simp add: ex_cp_env_def)
  have v: "validateBundle ?env (cw_engine w) ex_bundle = Inr ()" for w
    using encode_decode [OF enc ex_bundle_stored, of "cw_engine w"]
    by (auto simp: ex_cp_env_def decodeBundle_def try_then_Inr kMaxSlotBytes_def split: sum.splits if_splits)
  obtain meta where rd: "readSlot ?env io_works (cw_engine w) 1 (cw_slots w) = Inr (ex_bundle, meta)"
    by (simp add: assms readSlot_def isValidSlot_def kSlotCount_def readFileBounded_def statFile_def io_works_def dec kMaxSlotBytes_def)
  have files: "\<exists>fs. write_lists (\<lambda>_. W_Ok) (bu_domainLists ex_bundle) Map.empty = Inr fs"
    by (simp add: ex_bundle_def)
  then obtain staging d where st: "stageBundleForRestore ?env (ri_stage ex_restore_io) ''1'' (cw_engine w) ex_bundle noStaging (live_dirs w) = (Inr (), staging, d)"
    by (auto simp: stageBundleForRestore_def rollbackDomainListFiles_def v prepareDomainListFiles_def ex_restore_io_def stage_io_def
        noStaging_def Let_def)
  then have dir: "stg_stageDir staging \<noteq> []"
    using paths_differ(4) files by (auto simp: stageBundleForRestore_def rollbackDomainListFiles_def v prepareDomainListFiles_def
        ex_restore_io_def stage_io_def noStaging_def Let_def)
  obtain out where out: "buildBlockingListsForRestore ?env (bu_domainLists ex_bundle) = Inr out"
    by (simp add: buildBlockingListsForRestore_def ex_bundle_def parseUpdatedAtTime_def)
  have "\<exists>err stg w2. restoreBundleToLivePolicy ?env ex_restore_io ex_bundle staging (with_dirs d w) = (Inl err, stg, w2)"
    using dir by (simp add: restoreBundleToLivePolicy_def v out publishDomainListFiles_def ex_restore_io_def stage_io_def Let_def
        internal_def errStatus_def split: prod.split)
  then show ?thesis by (auto simp: snortCheckpointRestore_def rd st)
qed

theorem failed_restore_changes_nothing_witness:
  "\<forall>w :: CpWorld. let w0 = w\<lparr>cw_slots := [slotPath 1 \<mapsto> ''bundle'']\<rparr> in
     \<exists>err w'. snortCheckpointRestore (ex_cp_env (makeBundleDocument ex_bundle)) io_works ''1'' ex_restore_io 0 1 w0 = (Inl err, w') \<and>
        cw_engine w' = cw_engine w0 \<and> cw_slots w' = cw_slots w0"
proof
  fix w :: CpWorld
  define w0 where "w0 = w\<lparr>cw_slots := [slotPath 1 \<mapsto> ''bundle'']\<rparr>"
  have slots: "cw_slots w0 = [slotPath 1 \<mapsto> ''bundle'']" by (simp add: w0_def)
  obtain err w' where r: "snortCheckpointRestore (ex_cp_env (makeBundleDocument ex_bundle)) io_works ''1'' ex_restore_io 0 1 w0 = (Inl err, w')"
    using ex_restore_fails [OF slots] by blast
  have "st_undo (ri_stage ex_restore_io)" by (simp add: ex_restore_io_def stage_io_def)
  from failed_restore_changes_nothing [OF r this] r
  show "let w0 = w\<lparr>cw_slots := [slotPath 1 \<mapsto> ''bundle'']\<rparr> in
     \<exists>err w'. snortCheckpointRestore (ex_cp_env (makeBundleDocument ex_bundle)) io_works ''1'' ex_restore_io 0 1 w0 = (Inl err, w') \<and>
        cw_engine w' = cw_engine w0 \<and> cw_slots w' = cw_slots w0" unfolding Let_def w0_def [symmetric] by blast
qed

end
