(* ===== verification/CheckpointGuarantees.thy ===== *)
theory CheckpointGuarantees
  imports CheckpointAgree CheckpointFailure PacketGuarantees
begin

text \<open>
  A restore that succeeds brings back the policy of the checkpoint: what a capture shows afterwards agrees with the
  checkpoint, up to the order of its lists and the normalised masks.
\<close>

section \<open>Agreement\<close>

definition same_scope :: "DomainPolicyScopeSnapshot \<Rightarrow> DomainPolicyScopeSnapshot \<Rightarrow> bool" where
  "same_scope s t \<longleftrightarrow>
     set (sc_allowDomains s) = set (sc_allowDomains t) \<and> set (sc_blockDomains s) = set (sc_blockDomains t) \<and>
     set (sc_allowRuleIds s) = set (sc_allowRuleIds t) \<and> set (sc_blockRuleIds s) = set (sc_blockRuleIds t)"

definition emptyScope :: DomainPolicyScopeSnapshot where
  "emptyScope = \<lparr>sc_allowDomains = [], sc_blockDomains = [], sc_allowRuleIds = [], sc_blockRuleIds = []\<rparr>"

text \<open>Apps of the checkpoint have their configuration, apps it does not name that of the device.\<close>

definition same_apps :: "Bundle \<Rightarrow> Bundle \<Rightarrow> bool" where
  "same_apps b c \<longleftrightarrow>
     distinct (map ac_uid (bu_appConfigs c)) \<and> norm_app ` set (bu_appConfigs b) \<subseteq> set (bu_appConfigs c) \<and>
     (\<forall>cfg \<in> set (bu_appConfigs c).
        ac_uid cfg \<in> ac_uid ` set (bu_appConfigs b) \<union> adp_uid ` set (dps_apps (bu_domainPolicy b)) \<or>
        cfg = default_app (bu_deviceConfig b) (ac_uid cfg))"

definition same_scopes :: "DomainPolicySnapshot \<Rightarrow> DomainPolicySnapshot \<Rightarrow> bool" where
  "same_scopes b c \<longleftrightarrow>
     same_scope (dps_device b) (dps_device c) \<and> distinct (map adp_uid (dps_apps c)) \<and>
     (\<forall>s \<in> set (dps_apps b). \<exists>t \<in> set (dps_apps c). adp_uid t = adp_uid s \<and> same_scope (adp_policy s) (adp_policy t)) \<and>
     (\<forall>t \<in> set (dps_apps c). adp_uid t \<in> adp_uid ` set (dps_apps b) \<or> same_scope emptyScope (adp_policy t))"

definition same_domain_rules :: "DomainRulesSnapshot \<Rightarrow> DomainRulesSnapshot \<Rightarrow> bool" where
  "same_domain_rules b c \<longleftrightarrow> drs_nextRuleId c = drs_nextRuleId b \<and> set (drs_rules c) = set (drs_rules b)"

text \<open>A list comes back with its metadata; its domains only when it is enabled.\<close>

definition same_list :: "CpEnv \<Rightarrow> DomainListSnapshot \<Rightarrow> DomainListSnapshot \<Rightarrow> bool" where
  "same_list env l k \<longleftrightarrow>
     dls_listId k = dls_listId l \<and> dls_color k = dls_color l \<and> dls_mask k = dls_mask l \<and> dls_enabled k = dls_enabled l \<and>
     dls_url k = dls_url l \<and> dls_name k = dls_name l \<and> dls_etag k = dls_etag l \<and> dls_outdated k = dls_outdated l \<and>
     (\<exists>t. parseUpdatedAtTime env (dls_updatedAt l) = Inr t \<and> dls_updatedAt k = formatUpdatedAt env t) \<and>
     set (dls_domains k) = (if dls_enabled l then set (dls_domains l) else {}) \<and>
     dls_domainsCount k = (if dls_enabled l then dls_domainsCount l else 0)"

definition same_lists :: "CpEnv \<Rightarrow> DomainListSnapshot list \<Rightarrow> DomainListSnapshot list \<Rightarrow> bool" where
  "same_lists env b c \<longleftrightarrow>
     length c = length b \<and> (\<forall>l \<in> set b. \<exists>k \<in> set c. same_list env l k) \<and> (\<forall>k \<in> set c. \<exists>l \<in> set b. same_list env l k)"

definition restored_from :: "CpEnv \<Rightarrow> Bundle \<Rightarrow> Bundle \<Rightarrow> bool" where
  "restored_from env b c \<longleftrightarrow>
     bu_deviceConfig c = norm_device (bu_deviceConfig b) \<and> same_apps b c \<and>
     same_domain_rules (bu_domainRules b) (bu_domainRules c) \<and> same_scopes (bu_domainPolicy b) (bu_domainPolicy c) \<and>
     same_lists env (bu_domainLists b) (bu_domainLists c) \<and>
     ps_nextRuleId (bu_ipRules c) = ps_nextRuleId (bu_ipRules b) \<and> set (ps_rules (bu_ipRules c)) = set (ps_rules (bu_ipRules b))"

section \<open>IP rules\<close>

lemma set_omap_upd_new: "map_of m k = None \<Longrightarrow> set (omap_upd k v id m) = insert (k, v) (set m)"
  by (induction m) (auto split: if_splits)

lemma stage_loop_rules:
  "stage_loop defs m mx e = Inr (m', mx', e') \<Longrightarrow> (\<lambda>p. st_def (snd p)) ` set m' = (\<lambda>p. st_def (snd p)) ` set m \<union> set defs"
proof (induction defs arbitrary: m mx e)
  case (Cons d defs)
  obtain a e1 where ms: "make_stats e = (a, e1)" by fastforce
  from Cons.prems have new: "map_of m (rd_ruleId d) = None"
    and rest: "stage_loop defs (omap_upd (rd_ruleId d) \<lparr>st_def = d, st_stats = a\<rparr> id m) (max mx (rd_ruleId d)) e1 = Inr (m', mx', e')"
    by (auto simp: ms omap_emplace_def Let_def split: sum.splits option.splits)
  show ?case using Cons.IH [OF rest] by (simp add: set_omap_upd_new [OF new])
qed simp

lemma restored_ip_rules:
  assumes "restorePolicySnapshot ps e = (res, e')" and "res_ok res"
  shows "ps_nextRuleId (policySnapshot e') = ps_nextRuleId ps" and "set (ps_rules (policySnapshot e')) = set (ps_rules ps)"
proof -
  obtain m e1 where st: "stage ps e = Inr (m, e1)" using assms
    by (auto simp: restorePolicySnapshot_def nokResult_def split: sum.splits)
  have "(\<lambda>p. st_def (snd p)) ` set m = set (ps_rules ps)"
  proof -
    obtain mx where "stage_loop (ps_rules ps) [] 0 e = Inr (m, mx, e1)"
      using st by (auto simp: stage_def split: sum.splits if_splits)
    from stage_loop_rules [OF this] show ?thesis by simp
  qed
  moreover have "eng_rules e' = m" "eng_nextRuleId e' = ps_nextRuleId ps"
    using assms by (auto simp: restorePolicySnapshot_def st Let_def preflightFailed_def split: if_splits)
  ultimately show "ps_nextRuleId (policySnapshot e') = ps_nextRuleId ps" "set (ps_rules (policySnapshot e')) = set (ps_rules ps)"
    by (simp_all add: policySnapshot_def)
qed

section \<open>What a capture sees\<close>

definition capture_frame :: "Policy \<Rightarrow> Policy \<Rightarrow> bool" where
  "capture_frame p p' \<longleftrightarrow>
     p_settings p' = p_settings p \<and> snapshotByUid None p' = snapshotByUid None p \<and> capture_app p' = capture_app p \<and>
     nextRuleIdSnapshot p' = nextRuleIdSnapshot p \<and> snapshotBaseline p' = snapshotBaseline p \<and>
     (\<forall>app. capture_scope app p' = capture_scope app p) \<and> (\<forall>env. capture_list env p' = capture_list env p)"

lemma capture_frame_refl [simp]: "capture_frame p p"
  by (simp add: capture_frame_def)

lemma capture_frame_trans: "capture_frame p q \<Longrightarrow> capture_frame q r \<Longrightarrow> capture_frame p r"
  by (simp add: capture_frame_def)

lemma capture_frame_fold: "(\<And>x q. capture_frame q (f x q)) \<Longrightarrow> capture_frame p (fold f xs p)"
  by (induction xs arbitrary: p) (auto intro: capture_frame_trans)

lemma capture_same:
  assumes "capture_frame (cw_policy w) (cw_policy w')" and "cw_lists w' = cw_lists w" and "cw_engine w' = cw_engine w"
  shows "captureLivePolicy env now w' = captureLivePolicy env now w"
proof -
  have "a_uid (p_appHeap (cw_policy w') a) = a_uid (p_appHeap (cw_policy w) a)" for a
  proof -
    have "ac_uid (capture_app (cw_policy w') a) = ac_uid (capture_app (cw_policy w) a)" using assms(1) by (simp add: capture_frame_def)
    then show ?thesis by (simp add: capture_app_def Let_def)
  qed
  then show ?thesis using assms by (simp add: captureLivePolicy_def capture_frame_def bl_getLists_def Let_def)
qed

lemmas capture_defs = capture_frame_def snapshotByUid_def capture_app_def nextRuleIdSnapshot_def snapshotBaseline_def capture_scope_def
  capture_list_def snapshotDomainListContents_def snapshotCustomDomains_def custom_domains_def current_rules_def snapshotRuleIds_def

lemma capture_frame_app:
  assumes "\<And>x. a_uid (f x) = a_uid x \<and> a_blockMask (f x) = a_blockMask x \<and> a_blockIface (f x) = a_blockIface x \<and>
    a_useCustomList (f x) = a_useCustomList x \<and> a_customBlacklist (f x) = a_customBlacklist x \<and>
    a_customWhitelist (f x) = a_customWhitelist x \<and> a_blackRules (f x) = a_blackRules x \<and> a_whiteRules (f x) = a_whiteRules x"
  shows "capture_frame p (upd_app a f p)"
proof -
  have h: "a_uid (p_appHeap (upd_app a f p) x) = a_uid (p_appHeap p x) \<and> a_blockMask (p_appHeap (upd_app a f p) x) = a_blockMask (p_appHeap p x) \<and>
     a_blockIface (p_appHeap (upd_app a f p) x) = a_blockIface (p_appHeap p x) \<and> a_useCustomList (p_appHeap (upd_app a f p) x) = a_useCustomList (p_appHeap p x) \<and>
     app_customList c (p_appHeap (upd_app a f p) x) = app_customList c (p_appHeap p x) \<and> app_customRules c (p_appHeap (upd_app a f p) x) = app_customRules c (p_appHeap p x)" for x c
    using assms by (simp add: upd_app_def app_customList_def app_customRules_def)
  moreover have "p_settings (upd_app a f p) = p_settings p" "p_am (upd_app a f p) = p_am p" "p_rm (upd_app a f p) = p_rm p" "p_dm (upd_app a f p) = p_dm p"
    "p_ruleHeap (upd_app a f p) = p_ruleHeap p" "p_domHeap (upd_app a f p) = p_domHeap p" by (simp_all add: upd_app_def)
  ultimately show ?thesis
    by (simp add: capture_defs Let_def fun_eq_iff name_of_def [abs_def] split: option.split)
qed

lemma capture_frame_domain: "(\<And>x. do_name (f x) = do_name x) \<Longrightarrow> capture_frame p (upd_domain d f p)"
proof -
  assume "\<And>x. do_name (f x) = do_name x"
  then have "name_of (upd_domain d f p) = name_of p" by (simp add: name_of_def fun_eq_iff upd_domain_def)
  moreover have "p_settings (upd_domain d f p) = p_settings p" "p_am (upd_domain d f p) = p_am p" "p_rm (upd_domain d f p) = p_rm p"
    "p_dm (upd_domain d f p) = p_dm p" "p_appHeap (upd_domain d f p) = p_appHeap p" "p_ruleHeap (upd_domain d f p) = p_ruleHeap p"
    by (simp_all add: upd_domain_def)
  ultimately show ?thesis unfolding capture_frame_def
    by (intro conjI allI ext) (simp_all add: capture_defs Let_def split: option.split)
qed

lemma capture_frame_rule:
  assumes "\<And>x. ru_id (f x) = ru_id x \<and> ru_type (f x) = ru_type x \<and> ru_rule (f x) = ru_rule x"
  shows "capture_frame p (upd_rule r f p)"
proof -
  have h: "ru_id (p_ruleHeap (upd_rule r f p) x) = ru_id (p_ruleHeap p x) \<and> ru_type (p_ruleHeap (upd_rule r f p) x) = ru_type (p_ruleHeap p x) \<and>
     ru_rule (p_ruleHeap (upd_rule r f p) x) = ru_rule (p_ruleHeap p x)" for x
    using assms by (simp add: upd_rule_def)
  moreover have "p_settings (upd_rule r f p) = p_settings p" "p_am (upd_rule r f p) = p_am p" "p_rm (upd_rule r f p) = p_rm p" "p_dm (upd_rule r f p) = p_dm p"
    "p_appHeap (upd_rule r f p) = p_appHeap p" "p_domHeap (upd_rule r f p) = p_domHeap p" by (simp_all add: upd_rule_def)
  ultimately show ?thesis
    by (simp add: capture_defs Let_def fun_eq_iff name_of_def [abs_def] split: option.split)
qed

lemma capture_frame_dm:
  assumes "\<And>m. dm_blacklist (f m) = dm_blacklist m \<and> dm_whitelist (f m) = dm_whitelist m \<and> dm_customBlacklist (f m) = dm_customBlacklist m \<and>
    dm_customWhitelist (f m) = dm_customWhitelist m \<and> dm_blackRules (f m) = dm_blackRules m \<and> dm_whiteRules (f m) = dm_whiteRules m"
  shows "capture_frame p (upd_dm f p)"
proof -
  have h: "dm_customList c (p_dm (upd_dm f p)) = dm_customList c (p_dm p)" "dm_customRules c (p_dm (upd_dm f p)) = dm_customRules c (p_dm p)"
    "dm_blacklist (p_dm (upd_dm f p)) = dm_blacklist (p_dm p)" "dm_whitelist (p_dm (upd_dm f p)) = dm_whitelist (p_dm p)" for c
    using assms by (simp_all add: upd_dm_def dm_customList_def dm_customRules_def)
  moreover have "p_settings (upd_dm f p) = p_settings p" "p_am (upd_dm f p) = p_am p" "p_rm (upd_dm f p) = p_rm p"
    "p_ruleHeap (upd_dm f p) = p_ruleHeap p" "p_appHeap (upd_dm f p) = p_appHeap p" "p_domHeap (upd_dm f p) = p_domHeap p" by (simp_all add: upd_dm_def)
  ultimately show ?thesis
    by (simp add: capture_defs Let_def fun_eq_iff name_of_def [abs_def] split: option.split)
qed

lemma capture_frame_am:
  assumes "\<And>m. am_byUid (f m) = am_byUid m"
  shows "capture_frame p (upd_am f p)"
  using assms by (simp add: capture_defs fun_eq_iff name_of_def [abs_def] upd_am_def split: option.split)

text \<open>The reset of the runtime state is not part of the policy.\<close>

lemma runtime_reset_frame:
  "capture_frame (dn_policy d) (dn_policy (checkpoint_runtime_reset today nowNs d))"
proof -
  define p1 where "p1 = am_resetCheckpointRuntimeMetrics today (dn_policy d)"
  define p2 where "p2 = upd_dm (\<lambda>m. m\<lparr>dm_sources := metrics_reset (dm_sources m)\<rparr>) p1"
  define p3 where "p3 = resetRuntimeAssociationsForCheckpoint p2"
  have p: "dn_policy (checkpoint_runtime_reset today nowNs d) = resetRuleHits p3"
    by (simp add: checkpoint_runtime_reset_def Let_def on_policy_def on_ct_def pm_resetCheckpointRuntimeEpoch_def p1_def p2_def p3_def)
  have "capture_frame (dn_policy d) p1"
    unfolding p1_def am_resetCheckpointRuntimeMetrics_def all_apps_def
    by (rule capture_frame_trans [OF capture_frame_am capture_frame_fold]) (auto intro!: capture_frame_app simp: app_reset_def)
  moreover have "capture_frame p1 p2" unfolding p2_def by (rule capture_frame_dm) simp
  moreover have "capture_frame p2 p3" unfolding p3_def resetRuntimeAssociationsForCheckpoint_def
    by (rule capture_frame_trans [OF capture_frame_dm capture_frame_fold]) (auto intro!: capture_frame_domain simp: clearIPs_def)
  moreover have "capture_frame p3 (resetRuleHits p3)" unfolding resetRuleHits_def
    by (rule capture_frame_fold) (auto intro!: capture_frame_rule simp: resetHits_def)
  ultimately show ?thesis unfolding p using capture_frame_trans by blast
qed

lemma runtime_reset_engine: "dn_engine (checkpoint_runtime_reset today nowNs d) = dn_engine d"
  by (simp add: checkpoint_runtime_reset_def Let_def on_policy_def on_ct_def pm_resetCheckpointRuntimeEpoch_def)

section \<open>The captured sections\<close>

lemma scope_sets_eq: "(\<forall>c. bw c \<longrightarrow> scope_sets s c = scope_sets t c) \<longleftrightarrow> same_scope s t"
  by (auto simp: scope_sets_def same_scope_def bw_def)

lemma capture_scope_sets: "bw c \<Longrightarrow> scope_sets (capture_scope app p) c = place_sets p app c"
  by (auto simp: scope_sets_def capture_scope_def sortPolicyScope_def place_sets_def bw_def)

lemma captured_scope: "(\<And>c. bw c \<Longrightarrow> place_sets p app c = scope_sets s c) \<Longrightarrow> same_scope s (capture_scope app p)"
  unfolding scope_sets_eq [symmetric] by (simp add: capture_scope_sets)

lemma distinct_std_sort_key: "distinct (map key (std_sort (\<lambda>a b. key a < (key b :: 'k :: linorder)) xs)) \<longleftrightarrow> distinct (map key xs)"
proof -
  have "mset (map key (sort_key key xs)) = mset (map key xs)" by simp
  then show ?thesis unfolding std_sort_eq_sort_key by (rule mset_eq_imp_distinct_iff)
qed

lemma snapshot_apps:
  assumes "registry_inv p"
  shows "a \<in> set (snapshotByUid None p) \<longleftrightarrow> (\<exists>u. am_find u p = Some a)"
    and "distinct (map (\<lambda>a. a_uid (p_appHeap p a)) (snapshotByUid None p))"
proof -
  have wf: "omap_wf (am_byUid (p_am p))" using assms by (simp add: registry_inv_def)
  have mem: "(u, x) \<in> set (am_byUid (p_am p)) \<longleftrightarrow> am_find u p = Some x" for u x
    using wf by (simp add: am_find_def omap_in_set_iff)
  then show "a \<in> set (snapshotByUid None p) \<longleftrightarrow> (\<exists>u. am_find u p = Some a)" by (force simp: snapshotByUid_def)
  have "map (\<lambda>a. a_uid (p_appHeap p a)) (snapshotByUid None p) = map fst (am_byUid (p_am p))"
    using mem registry_uid [OF assms] by (auto simp: snapshotByUid_def)
  then show "distinct (map (\<lambda>a. a_uid (p_appHeap p a)) (snapshotByUid None p))" using omap_wf_distinct [OF wf] by simp
qed

lemma captured_apps:
  assumes reg: "registry_inv p"
    and have_cfg: "\<And>cfg. cfg \<in> set (bu_appConfigs b) \<Longrightarrow> \<exists>a. am_find (ac_uid cfg) p = Some a \<and> capture_app p a = norm_app cfg"
    and others: "\<And>u x. am_find u p = Some x \<Longrightarrow> u \<notin> ac_uid ` set (bu_appConfigs b) \<Longrightarrow> u \<notin> adp_uid ` set (dps_apps (bu_domainPolicy b)) \<Longrightarrow>
      capture_app p x = default_app (bu_deviceConfig b) u"
    and c: "bu_appConfigs c = std_sort (\<lambda>a b. ac_uid a < ac_uid b) (map (capture_app p) (snapshotByUid None p))"
  shows "same_apps b c"
proof -
  have uid: "ac_uid (capture_app p a) = a_uid (p_appHeap p a)" for a by (simp add: capture_app_def Let_def)
  have "distinct (map ac_uid (bu_appConfigs c))"
    unfolding c distinct_std_sort_key using snapshot_apps(2) [OF reg] by (simp add: uid comp_def)
  moreover have "norm_app ` set (bu_appConfigs b) \<subseteq> set (bu_appConfigs c)"
    using have_cfg snapshot_apps(1) [OF reg] by (force simp: c)
  moreover have "ac_uid cfg \<in> ac_uid ` set (bu_appConfigs b) \<union> adp_uid ` set (dps_apps (bu_domainPolicy b)) \<or>
      cfg = default_app (bu_deviceConfig b) (ac_uid cfg)" if "cfg \<in> set (bu_appConfigs c)" for cfg
  proof -
    from that obtain u x where x: "am_find u p = Some x" "cfg = capture_app p x" using snapshot_apps(1) [OF reg] by (auto simp: c)
    then have "ac_uid cfg = u" using registry_uid [OF reg] uid by simp
    then show ?thesis using others [OF x(1)] x(2) by blast
  qed
  ultimately show ?thesis unfolding same_apps_def by blast
qed

lemma captured_scopes:
  assumes reg: "registry_inv p" and dev: "\<And>c. bw c \<Longrightarrow> place_sets p None c = scope_sets (dps_device b) c"
    and have_app: "\<And>s. s \<in> set (dps_apps b) \<Longrightarrow> \<exists>a. am_find (adp_uid s) p = Some a \<and> (\<forall>c. bw c \<longrightarrow> place_sets p (Some a) c = scope_sets (adp_policy s) c)"
    and others: "\<And>u x c. am_find u p = Some x \<Longrightarrow> u \<notin> adp_uid ` set (dps_apps b) \<Longrightarrow> bw c \<Longrightarrow> place_sets p (Some x) c = ({}, {})"
    and c: "dps_device c = capture_scope None p" "dps_apps c = std_sort (\<lambda>a b. adp_uid a < adp_uid b)
      (map (\<lambda>a. \<lparr>adp_uid = a_uid (p_appHeap p a), adp_policy = capture_scope (Some a) p\<rparr>) (snapshotByUid None p))"
  shows "same_scopes b c"
proof -
  have "same_scope (dps_device b) (dps_device c)" unfolding c(1) using dev by (rule captured_scope)
  moreover have "distinct (map adp_uid (dps_apps c))"
    unfolding c(2) distinct_std_sort_key using snapshot_apps(2) [OF reg] by (simp add: comp_def)
  moreover have "\<exists>t \<in> set (dps_apps c). adp_uid t = adp_uid s \<and> same_scope (adp_policy s) (adp_policy t)" if s: "s \<in> set (dps_apps b)" for s
  proof -
    obtain a where a: "am_find (adp_uid s) p = Some a" "\<forall>c. bw c \<longrightarrow> place_sets p (Some a) c = scope_sets (adp_policy s) c"
      using have_app [OF s] by blast
    have "same_scope (adp_policy s) (capture_scope (Some a) p)" using a(2) by (intro captured_scope) simp
    moreover have "a \<in> set (snapshotByUid None p)" using a(1) snapshot_apps(1) [OF reg] by blast
    ultimately show ?thesis using registry_uid [OF reg a(1)] by (auto simp: c(2))
  qed
  moreover have "adp_uid t \<in> adp_uid ` set (dps_apps b) \<or> same_scope emptyScope (adp_policy t)" if "t \<in> set (dps_apps c)" for t
  proof -
    from that obtain u x where x: "am_find u p = Some x" "t = \<lparr>adp_uid = a_uid (p_appHeap p x), adp_policy = capture_scope (Some x) p\<rparr>"
      using snapshot_apps(1) [OF reg] by (auto simp: c(2))
    have "same_scope emptyScope (capture_scope (Some x) p)" if "u \<notin> adp_uid ` set (dps_apps b)"
      using others [OF x(1) that] by (intro captured_scope) (simp add: scope_sets_def emptyScope_def)
    then show ?thesis using x registry_uid [OF reg x(1)] by auto
  qed
  ultimately show ?thesis unfolding same_scopes_def by blast
qed

lemma captured_lists:
  assumes ok: "\<forall>l \<in> set ls. list_ok env l" and dist: "distinct (map dls_listId ls)" and bw: "\<forall>l \<in> set ls. bw (dls_color l)"
    and time: "\<forall>l \<in> set ls. parseUpdatedAtTime env (dls_updatedAt l) = Inr (t l)"
    and contents: "\<And>c i. bw c \<Longrightarrow> contents p c i = map_option (\<lambda>l. load_domains (dls_mask l) (domainListData l) []) (enabled_in ls c i)"
    and c: "cs = map (capture_list env p) (std_sort list_before (map (\<lambda>l. bl_of_snapshot l (t l)) ls))"
  shows "same_lists env ls cs"
proof -
  have one: "same_list env l (capture_list env p (bl_of_snapshot l (t l)))" if l: "l \<in> set ls" for l
  proof -
    let ?ds = "snapshotDomainListContents (dls_listId l) (dls_color l) p"
    have same: "x = l" if "x \<in> set ls" "dls_listId x = dls_listId l" for x using dist that l by (meson distinct_map inj_onD)
    have en: "enabled_in ls (dls_color l) (dls_listId l) = (if dls_enabled l then Some l else None)"
    proof (cases "enabled_in ls (dls_color l) (dls_listId l)")
      case None
      then show ?thesis using l by (auto simp: enabled_in_def find_None_iff)
    next
      case (Some x)
      then have "x \<in> set ls" "dls_enabled x" "dls_listId x = dls_listId l" by (auto simp: enabled_in_def find_Some_iff)
      then show ?thesis using same Some by auto
    qed
    have "contents p (dls_color l) (dls_listId l) =
        (if dls_enabled l then Some (load_domains (dls_mask l) (domainListData l) []) else None)"
      using bw l by (simp add: contents en)
    then have ds: "?ds = (if dls_enabled l then map fst (load_domains (dls_mask l) (domainListData l) []) else [])"
      by (simp add: snapshotDomainListContents_def dl_get_def contents_def list_of_def)
    have set_ds: "set ?ds = (if dls_enabled l then set (dls_domains l) else {})"
      using loaded_domains [of env l "dls_mask l"] ok l by (simp add: ds)
    have "distinct ?ds" using keys_fold_merge(2) [of "[]"] by (simp add: ds load_domains_def)
    moreover have "list_ok env l" using ok l by blast
    ultimately have "length ?ds = (if dls_enabled l then unat (dls_domainsCount l) else 0)"
      using set_ds by (auto simp: list_ok_def dest: distinct_card)
         (metis distinct_card)
    then show ?thesis using time l set_ds
      by (auto simp: same_list_def capture_list_def bl_of_snapshot_def Let_def)
  qed
  have "length cs = length ls" by (simp add: c)
  then show ?thesis using one unfolding same_lists_def by (auto simp: c)
qed

section \<open>The restore of a bundle\<close>

lemma parse_items_set: "parse_items f vs = Inr xs \<Longrightarrow> x \<in> set xs \<Longrightarrow> \<exists>v. f v = Inr x"
  by (induction vs arbitrary: xs) (auto simp: try_then_Inr)

lemma parsed_list_bw: "parseDomainListItem v = Inr l \<Longrightarrow> bw (dls_color l)"
  by (auto simp: parseDomainListItem_def try_then_Inr cp_parseListKind_def invalid_def errStatus_def split: option.splits if_splits)

lemma decoded_lists_bw:
  assumes "decodeBundle env e data = Inr b"
  shows "\<forall>l \<in> set (bu_domainLists b). bw (dls_color l)"
proof -
  obtain doc where "parseBundleDocument doc = Inr b"
    using assms by (auto simp: decodeBundle_def try_then_Inr errStatus_def invalid_def split: if_splits sum.splits)
  then have "\<exists>v k. parseArray v k parseDomainListItem = Inr (bu_domainLists b)"
    by (cases "member doc ''sections''"; cases "member (the (member doc ''sections'')) ''deviceConfig''";
        cases "member (the (member doc ''sections'')) ''domainRules''"; cases "member (the (member doc ''sections'')) ''domainPolicy''";
        cases "member (the (member doc ''sections'')) ''ipRules''")
       (auto simp: parseBundleDocument_def try_then_Inr invalid_def errStatus_def, blast)
  then obtain v k where "parseArray v k parseDomainListItem = Inr (bu_domainLists b)" by blast
  then obtain vs where vs: "parse_items parseDomainListItem vs = Inr (bu_domainLists b)"
    by (cases "member v k"; cases "GetArray (the (member v k))") (auto simp: parseArray_def invalid_def errStatus_def)
  show ?thesis
  proof
    fix l assume "l \<in> set (bu_domainLists b)"
    then obtain v where "parseDomainListItem v = Inr l" using parse_items_set [OF vs] by blast
    then show "bw (dls_color l)" by (rule parsed_list_bw)
  qed
qed

lemma published_files:
  assumes "prepareDomainListFiles io sfx ls dirs = (Inr (), stg, d1)"
    and "publishDomainListFiles io2 sfx2 stg d1 = (Inr (), stg2, d2)"
  shows "d2 domainListsFinalDir = Some (list_files ls)"
proof -
  let ?stage = "tmpSiblingPath sfx (domainListsFinalDir @ ''.stage'')"
  have stg: "stg = noStaging\<lparr>stg_stageDir := ?stage\<rparr>" and d1: "d1 = dirs(?stage := Some (list_files ls))"
    using assms(1) write_lists_Inr
    by (auto simp: prepareDomainListFiles_def Let_def internal_def errStatus_def list_files_def split: if_splits sum.splits)
  note p = paths_differ paths_differ(1) [symmetric] paths_differ(2) [symmetric] paths_differ(3) [symmetric]
  show ?thesis using assms(2) p
    by (cases "dirs domainListsFinalDir")
       (auto simp: publishDomainListFiles_def stg d1 Let_def internal_def errStatus_def dir_rename_def noStaging_def removeTree_def
        split: if_splits option.splits)
qed

lemma restored_policy:
  "cw_policy (restore_live env io b ls w) =
     upd_dm (\<lambda>m. m\<lparr>dm_files := cleanupStaleDomainListFiles (ri_stage io) (bu_domainLists b) (dm_files m)\<rparr>)
       (live_policy (cp_regex env) (ri_faults io) (ri_today io) b (map snd ls) (cw_policy w))"
  "cw_engine (restore_live env io b ls w) = cw_engine w" "cw_lists (restore_live env io b ls w) = ls"
  by (simp_all add: restore_live_def Let_def with_policy_def cw_policy_def cw_engine_def on_policy_def bl_getLists_def
      bl_replaceAllForCheckpointRestore_def live_policy_def)

lemma files_frame: "capture_frame p (upd_dm (\<lambda>m. m\<lparr>dm_files := f m\<rparr>) p)"
  by (rule capture_frame_dm) simp

lemma with_dirs_policy:
  "cw_policy (with_dirs d w) = upd_dm (\<lambda>m. m\<lparr>dm_files := (case d domainListsFinalDir of Some f \<Rightarrow> f | None \<Rightarrow> Map.empty)\<rparr>) (cw_policy w)"
  by (simp add: with_dirs_def with_policy_def cw_policy_def on_policy_def)

lemma files_invariants:
  "dom_inv (upd_dm (\<lambda>m. m\<lparr>dm_files := f m\<rparr>) p) \<longleftrightarrow> dom_inv p" (is "dom_inv ?p \<longleftrightarrow> _")
  "registry_inv (upd_dm (\<lambda>m. m\<lparr>dm_files := f m\<rparr>) p) \<longleftrightarrow> registry_inv p"
  "no_stale_apps (upd_dm (\<lambda>m. m\<lparr>dm_files := f m\<rparr>) p) \<longleftrightarrow> no_stale_apps p"
proof -
  have "dom_frame p ?p" "dom_frame ?p p"
    by (auto simp: dom_frame_def upd_dm_def dm_byIP_def custom_domains_def dm_customList_def split: option.split)
  then show "dom_inv ?p \<longleftrightarrow> dom_inv p" using dom_inv_frame by blast
  show "registry_inv ?p \<longleftrightarrow> registry_inv p" by (simp add: registry_inv_def AppGuarantees.registered_def upd_dm_def)
  have "place_sets ?p app c = place_sets p app c" for app c
    by (auto simp: place_sets_def snapshotCustomDomains_def custom_domains_def current_rules_def snapshotRuleIds_def upd_dm_def
        dm_customList_def dm_customRules_def name_of_def [abs_def] split: option.split)
  moreover have "am_find u ?p = am_find u p" for u by (simp add: am_find_def upd_dm_def)
  ultimately show "no_stale_apps ?p \<longleftrightarrow> no_stale_apps p" by (simp add: no_stale_apps_def)
qed

lemma live_reproduces:
  assumes inv: "dom_inv p" "registry_inv p" "no_stale_apps p" and ok: "bundle_ok env b"
    and bw: "\<forall>l \<in> set (bu_domainLists b). bw (dls_color l)"
    and files: "dm_files (p_dm p) = list_files (bu_domainLists b)"
    and out: "buildBlockingListsForRestore env (bu_domainLists b) = Inr out"
    and pol: "cw_policy w = live_policy (cp_regex env) io today b (map snd out) p" and lists: "cw_lists w = out"
    and ip: "restorePolicySnapshot (bu_ipRules b) e = (res, cw_engine w)" "res_ok res"
  shows "restored_from env b (captureLivePolicy env now w)"
proof -
  let ?c = "captureLivePolicy env now w" and ?p = "cw_policy w"
  have dist: "distinct (map dls_listId (bu_domainLists b))" and lok: "\<forall>l \<in> set (bu_domainLists b). list_ok env l"
    and drules: "distinct (map dr_ruleId (drs_rules (bu_domainRules b)))" using ok by (auto simp: bundle_ok_def Let_def)
  obtain t where t: "\<forall>l \<in> set (bu_domainLists b). parseUpdatedAtTime env (dls_updatedAt l) = Inr (t l)"
    and outt: "out = map (\<lambda>l. (dls_listId l, bl_of_snapshot l (t l))) (bu_domainLists b)"
    using build_lists_Inr [of env "bu_domainLists b" "[]" out] out dist by (auto simp: buildBlockingListsForRestore_def)
  have bls: "map snd out = map (\<lambda>l. bl_of_snapshot l (t l)) (bu_domainLists b)" by (simp add: outt)
  note E = live_policy_effect [OF inv ok bw files, where rx = "cp_regex env" and io = io and today = today and t = t, OF pol [unfolded bls]]
  have reg: "registry_inv ?p" using E(4) by (simp add: apps_ok_def)
  have "bu_deviceConfig ?c = norm_device (bu_deviceConfig b)"
    by (simp add: captureLivePolicy_def Let_def E(1) settings_applyCheckpointPolicyConfig_def norm_device_def)
  moreover have "same_apps b ?c"
    by (rule captured_apps [OF reg E(8,9)]) (simp_all add: captureLivePolicy_def Let_def)
  moreover have "same_domain_rules (bu_domainRules b) (bu_domainRules ?c)"
  proof -
    have "set (captured_rules ?p) = set (drs_rules (bu_domainRules b))"
      using E(3) drules by (intro captured_rules_set) (simp_all add: rules_stored_def)
    then show ?thesis
      by (simp add: same_domain_rules_def captureLivePolicy_def Let_def captured_rules_def nextRuleIdSnapshot_def E(2))
  qed
  moreover have "same_scopes (bu_domainPolicy b) (bu_domainPolicy ?c)"
    by (rule captured_scopes [OF reg E(5,6,7)]) (simp_all add: captureLivePolicy_def Let_def)
  moreover have "same_lists env (bu_domainLists b) (bu_domainLists ?c)"
    by (rule captured_lists [OF lok dist bw t E(10)]) (simp_all add: captureLivePolicy_def Let_def bl_getLists_def lists bls)
  moreover have "bu_ipRules ?c = policySnapshot (cw_engine w)" by (simp add: captureLivePolicy_def Let_def)
  ultimately show ?thesis using restored_ip_rules [OF ip] unfolding restored_from_def by simp
qed

lemma restore_works:
  assumes "restoreBundleToLivePolicy env io b staging w = (Inr u, stg', w')"
  obtains out stg1 d d2 res eng where "buildBlockingListsForRestore env (bu_domainLists b) = Inr out"
    "publishDomainListFiles (ri_stage io) (ri_suffix io) staging (live_dirs w) = (Inr (), stg1, d)"
    "restorePolicySnapshot (bu_ipRules b) (cw_engine w) = (res, eng)" "res_ok res"
    "w' = with_dirs d2 (restore_live env io b out ((with_dirs d w)\<lparr>cw_daemon := (cw_daemon (with_dirs d w))\<lparr>dn_engine := eng\<rparr>\<rparr>))"
proof -
  obtain out where out: "validateBundle env (cw_engine w) b = Inr ()" "buildBlockingListsForRestore env (bu_domainLists b) = Inr out"
    using assms by (cases "try_then (validateBundle env (cw_engine w) b) (\<lambda>_. buildBlockingListsForRestore env (bu_domainLists b))")
      (auto simp: restoreBundleToLivePolicy_def Let_def try_then_Inr split: prod.splits)
  obtain r stg1 d where pub: "publishDomainListFiles (ri_stage io) (ri_suffix io) staging (live_dirs w) = (r, stg1, d)"
    using prod_cases3 by blast
  have r: "r = Inr ()" using assms by (cases r) (auto simp: restoreBundleToLivePolicy_def Let_def out pub split: prod.splits)
  obtain res eng where ip: "restorePolicySnapshot (bu_ipRules b) (cw_engine w) = (res, eng)" by fastforce
  show thesis
    using assms that [OF out(2) pub [unfolded r] ip]
    by (auto simp: restoreBundleToLivePolicy_def Let_def out pub r ip split: prod.splits if_splits)
qed

text \<open>C11. A restore that succeeds brings the policy of the slot back: a capture of the daemon afterwards agrees with the
  checkpoint in the device's settings and every app's, the pattern rules with their ids, the custom domains and rules of
  the device and of every app, the domain lists and the IP rules with their ids; apps the checkpoint does not name get
  the settings of the device and no custom domains or rules. The exception is the content of disabled lists, which is
  not brought back. The registries have to be consistent before, and apps that are no longer registered hold nothing.\<close>

theorem restore_reproduces_policy:
  assumes "snortCheckpointRestore env io sfx rio nowNs slot w = (Inr meta, w')"
    and "dom_inv (cw_policy w)" and "registry_inv (cw_policy w)" and "no_stale_apps (cw_policy w)"
  shows "\<exists>b. readSlot env io (cw_engine w) slot (cw_slots w) = Inr (b, meta) \<and>
    restored_from env b (captureLivePolicy env now w')"
proof -
  obtain b meta' where rd: "readSlot env io (cw_engine w) slot (cw_slots w) = Inr (b, meta')"
    using assms(1) by (cases "readSlot env io (cw_engine w) slot (cw_slots w)") (auto simp: snortCheckpointRestore_def)
  obtain st staging d where stage: "stageBundleForRestore env (ri_stage rio) sfx (cw_engine w) b noStaging (live_dirs w) = (st, staging, d)"
    using prod_cases3 by blast
  have st: "st = Inr ()" using assms(1) by (cases st) (auto simp: snortCheckpointRestore_def rd stage)
  obtain r stg' w2 where res: "restoreBundleToLivePolicy env rio b staging (with_dirs d w) = (r, stg', w2)"
    using prod_cases3 by blast
  have r: "r = Inr ()" and meta: "meta' = meta"
    and w': "w' = w2\<lparr>cw_daemon := checkpoint_runtime_reset (ri_today rio) nowNs (cw_daemon w2)\<rparr>"
    using assms(1) by (cases r; auto simp: snortCheckpointRestore_def rd stage st res)+
  note works = stage_works [OF stage [unfolded st]]
  obtain out stg1 d1 d2 ipres eng where R: "buildBlockingListsForRestore env (bu_domainLists b) = Inr out"
    "publishDomainListFiles (ri_stage rio) (ri_suffix rio) staging d = (Inr (), stg1, d1)"
    "restorePolicySnapshot (bu_ipRules b) (cw_engine w) = (ipres, eng)" "res_ok ipres"
    and w2: "w2 = with_dirs d2 (restore_live env rio b out ((with_dirs d1 (with_dirs d w))\<lparr>cw_daemon :=
      (cw_daemon (with_dirs d1 (with_dirs d w)))\<lparr>dn_engine := eng\<rparr>\<rparr>))"
    by (rule restore_works [OF res [unfolded r], unfolded live_with_dirs with_dirs_fields]) blast
  define p where "p = cw_policy (with_dirs d1 (with_dirs d w))"
  define w1 where "w1 = (with_dirs d1 (with_dirs d w))\<lparr>cw_daemon := (cw_daemon (with_dirs d1 (with_dirs d w)))\<lparr>dn_engine := eng\<rparr>\<rparr>"
  define wl where "wl = restore_live env rio b out w1"
  define lp where "lp = live_policy (cp_regex env) (ri_faults rio) (ri_today rio) b (map snd out) p"
  have p1: "cw_policy w1 = p" "cw_engine w1 = eng" by (simp_all add: w1_def p_def cw_policy_def cw_engine_def)
  have inv: "dom_inv p" "registry_inv p" "no_stale_apps p"
    using assms(2-4) by (simp_all add: p_def with_dirs_policy files_invariants)
  have files: "dm_files (p_dm p) = list_files (bu_domainLists b)"
    using published_files [OF works(2) R(2)] by (simp add: p_def with_dirs_policy upd_dm_def)
  have ok: "bundle_ok env b" using works(1) by (simp add: validateBundle_iff)
  obtain data where "decodeBundle env (cw_engine w) data = Inr b"
    using rd by (auto simp: readSlot_def try_then_Inr invalid_def errStatus_def split: if_splits)
  note bw = decoded_lists_bw [OF this]
  define wc where "wc = wl\<lparr>cw_daemon := (cw_daemon wl)\<lparr>dn_policy := lp\<rparr>\<rparr>"
  have wc: "cw_policy wc = lp" "cw_lists wc = out" "cw_engine wc = eng"
    by (simp_all add: wc_def cw_policy_def cw_engine_def wl_def restored_policy(3)) (use restored_policy(2) [of env rio b out w1] p1 in \<open>simp add: cw_engine_def\<close>)
  have agree: "restored_from env b (captureLivePolicy env now wc)"
    by (rule live_reproduces [OF inv ok bw files R(1) _ wc(2) _ R(4), where e = "cw_engine w"]) (simp_all add: wc lp_def R(3))
  have f1: "capture_frame lp (cw_policy wl)" unfolding wl_def restored_policy(1) p1 lp_def by (rule files_frame)
  have f2: "capture_frame (cw_policy wl) (cw_policy w2)" unfolding w2 w1_def [symmetric] wl_def [symmetric] with_dirs_policy by (rule files_frame)
  have f3: "capture_frame (cw_policy w2) (cw_policy w')" by (simp add: w' cw_policy_def runtime_reset_frame)
  have "captureLivePolicy env now w' = captureLivePolicy env now wc"
  proof (rule capture_same)
    show "capture_frame (cw_policy wc) (cw_policy w')" unfolding wc(1) using capture_frame_trans [OF capture_frame_trans [OF f1 f2] f3] .
    have "cw_lists w2 = out" "cw_engine w2 = eng" unfolding w2 w1_def [symmetric] by (simp_all add: restored_policy p1)
    then show "cw_lists w' = cw_lists wc" "cw_engine w' = cw_engine wc"
      by (simp_all add: w' wc) (simp add: cw_engine_def runtime_reset_engine)
  qed
  then show ?thesis using rd agree by (simp add: meta)
qed

text \<open>A fresh daemon restores the example.\<close>

definition ex_cp_world :: CpWorld where
  "ex_cp_world = \<lparr>cw_daemon = ex_daemon\<lparr>dn_policy := policy_init\<rparr>, cw_lists = [], cw_dirs = (\<lambda>_. None),
     cw_slots = [slotPath 1 \<mapsto> ''bundle'']\<rparr>"

definition ex_works_io :: RestoreIo where
  "ex_works_io = \<lparr>ri_stage = stage_io, ri_faults = no_faults, ri_suffix = ''2'', ri_today = 0\<rparr>"

lemma policy_init_consistent: "dom_inv policy_init" "registry_inv policy_init" "no_stale_apps policy_init"
proof -
  show "dom_inv policy_init" by (rule dom_run_inv [OF policy_init_domains])
  show "registry_inv policy_init" by (simp add: registry_inv_def policy_init_def omap_wf_def)
  show "no_stale_apps policy_init"
    by (auto simp: no_stale_apps_def place_empty custom_domains_def slot_rules_def policy_init_def app_customList_def app_customRules_def
        customRules_new_def)
qed

lemma ex_restore_works:
  "\<exists>meta w'. snortCheckpointRestore (ex_cp_env (makeBundleDocument ex_bundle)) io_works ''1'' ex_works_io 0 1 ex_cp_world = (Inr meta, w')"
proof -
  let ?env = "ex_cp_env (makeBundleDocument ex_bundle)" and ?w = ex_cp_world
  have enc: "encodeBundle ?env ex_engine ex_bundle = Inr ''bundle''"
    by (simp add: encodeBundle_def ex_bundle_valid) (simp add: ex_cp_env_def kMaxSlotBytes_def)
  have dec: "decodeBundle ?env (cw_engine ?w) ''bundle'' = Inr ex_bundle"
    by (rule encode_decode [OF enc ex_bundle_stored]) (simp add: ex_cp_env_def)
  have slots: "cw_slots ?w = [slotPath 1 \<mapsto> ''bundle'']" by (simp add: ex_cp_world_def)
  obtain meta where rd: "readSlot ?env io_works (cw_engine ?w) 1 (cw_slots ?w) = Inr (ex_bundle, meta)"
    by (simp add: slots readSlot_def isValidSlot_def kSlotCount_def readFileBounded_def statFile_def io_works_def dec kMaxSlotBytes_def)
  have files: "\<exists>fs. write_lists (\<lambda>_. W_Ok) (bu_domainLists ex_bundle) Map.empty = Inr fs" by (simp add: ex_bundle_def)
  have dirs: "live_dirs ?w = (\<lambda>_. None)" by (auto simp: live_dirs_def ex_cp_world_def)
  obtain fs where fs: "write_lists (\<lambda>_. W_Ok) (bu_domainLists ex_bundle) Map.empty = Inr fs" using files by blast
  define stg where "stg = noStaging\<lparr>stg_stageDir := tmpSiblingPath ''1'' (domainListsFinalDir @ ''.stage'')\<rparr>"
  define d where "d = (\<lambda>_ :: string. None :: Files option)(stg_stageDir stg := Some fs)"
  have st: "stageBundleForRestore ?env (ri_stage ex_works_io) ''1'' (cw_engine ?w) ex_bundle noStaging (live_dirs ?w) = (Inr (), stg, d)"
    by (simp add: stageBundleForRestore_def rollbackDomainListFiles_def ex_bundle_valid prepareDomainListFiles_def ex_works_io_def
        stage_io_def noStaging_def Let_def fs dirs removeTree_def d_def stg_def)
  have neq: "stg_stageDir stg \<noteq> []" "stg_stageDir stg \<noteq> domainListsFinalDir" using paths_differ by (simp_all add: stg_def)
  have "d domainListsFinalDir = None" using neq(2) by (simp add: d_def)
  then obtain stg1 d1 where pub: "publishDomainListFiles (ri_stage ex_works_io) (ri_suffix ex_works_io) stg d = (Inr (), stg1, d1)"
    using neq by (simp add: publishDomainListFiles_def ex_works_io_def stage_io_def Let_def dir_rename_def d_def)
  obtain out where out: "buildBlockingListsForRestore ?env (bu_domainLists ex_bundle) = Inr out"
    by (simp add: buildBlockingListsForRestore_def ex_bundle_def parseUpdatedAtTime_def)
  obtain res eng where ip: "restorePolicySnapshot (bu_ipRules ex_bundle) (cw_engine ?w) = (res, eng)" by fastforce
  have ok: "res_ok res" using restore_result_validates [of "bu_ipRules ex_bundle" "cw_engine ?w"] ip ex_ip_rules_ok
      validatePolicySnapshot_any [of "bu_ipRules ex_bundle" "cw_engine ?w" ex_engine] by simp
  have "\<exists>stg2 w2. restoreBundleToLivePolicy ?env ex_works_io ex_bundle stg (with_dirs d ?w) = (Inr (), stg2, w2)"
    by (simp add: restoreBundleToLivePolicy_def ex_bundle_valid out pub ip ok Let_def split: prod.split)
  then show ?thesis by (auto simp: snortCheckpointRestore_def rd st)
qed

theorem restore_reproduces_policy_witness:
  "\<exists>meta w'. snortCheckpointRestore (ex_cp_env (makeBundleDocument ex_bundle)) io_works ''1'' ex_works_io 0 1 ex_cp_world = (Inr meta, w') \<and>
     (\<exists>b. readSlot (ex_cp_env (makeBundleDocument ex_bundle)) io_works (cw_engine ex_cp_world) 1 (cw_slots ex_cp_world) = Inr (b, meta) \<and>
        restored_from (ex_cp_env (makeBundleDocument ex_bundle)) b (captureLivePolicy (ex_cp_env (makeBundleDocument ex_bundle)) 7 w'))"
proof -
  obtain meta w' where r: "snortCheckpointRestore (ex_cp_env (makeBundleDocument ex_bundle)) io_works ''1'' ex_works_io 0 1 ex_cp_world = (Inr meta, w')"
    using ex_restore_works by blast
  have "cw_policy ex_cp_world = policy_init" by (simp add: cw_policy_def ex_cp_world_def)
  then have "dom_inv (cw_policy ex_cp_world)" "registry_inv (cw_policy ex_cp_world)" "no_stale_apps (cw_policy ex_cp_world)"
    using policy_init_consistent by simp_all
  from restore_reproduces_policy [OF r this] r show ?thesis by blast
qed

section \<open>Disabled lists\<close>

text \<open>C34. The content of a disabled list is not part of a checkpoint: disabling a list moves its file and erases its
  domains from memory, a capture reads the memory only, so it records an empty list, and what a restore writes to the
  file of the disabled list is empty.\<close>

theorem checkpoint_loses_disabled_lists:
  assumes "disableList io listId color p = (True, p')" and "bw color" and "bl_id bl = listId" and "bl_color bl = color"
  shows "dm_files (p_dm p') (disabled_name listId) = dm_files (p_dm p) listId \<and> dm_files (p_dm p) listId \<noteq> None \<and>
    domainListData (capture_list env p' bl) = [] \<and> dls_domainsCount (capture_list env p' bl) = 0"
proof -
  let ?dl = "list_of color p"
  have d: "dl_disable listId io (?dl, dm_files (p_dm p)) = (True, list_of color p', dm_files (p_dm p'))"
    using assms(1,2) by (auto simp: disableList_def dm_onDomainList_def Let_def list_of_def bw_def split: prod.splits if_splits)
  then have files: "\<exists>c. dm_files (p_dm p) listId = Some c \<and> dm_files (p_dm p') = (dm_files (p_dm p))(listId := None, disabled_name listId := Some c)"
    and dl: "list_of color p' = rebuildAggSnapshotLocked (snd (eraseUnlocked listId ?dl))"
    by (auto simp: dl_disable_def fs_rename_def split: if_splits option.splits)
  have "map_of (domainsByListId (list_of color p')) listId = None"
    by (simp add: dl rebuildAggSnapshotLocked_def eraseUnlocked_def delete_conv split: option.split)
  then have none: "snapshotDomainListContents listId color p' = []"
    by (simp add: snapshotDomainListContents_def dl_get_def list_of_def)
  show ?thesis using assms(3,4) files by (auto simp: capture_list_def Let_def none domainListData_def)
qed

definition ex_list_policy :: Policy where
  "ex_list_policy = upd_dm (\<lambda>m. m\<lparr>dm_files := [ex_guid \<mapsto> ''ads.org'' @ [CHR 0x0A]]\<rparr>) policy_init"

definition ex_blocking_list :: BlockingList where
  "ex_blocking_list = bl_of_snapshot (hd (bu_domainLists ex_bundle)) 0"

theorem checkpoint_loses_disabled_lists_witness:
  "\<exists>p'. disableList no_faults ex_guid BLACK ex_list_policy = (True, p') \<and>
     domainListData (capture_list (ex_cp_env JNull) p' ex_blocking_list) = [] \<and> dm_files (p_dm p') (disabled_name ex_guid) \<noteq> None"
proof -
  have "\<exists>p'. disableList no_faults ex_guid BLACK ex_list_policy = (True, p')"
    using guid_listId(1) [OF ex_guid_ok]
    by (simp add: disableList_def dm_onDomainList_def ex_list_policy_def upd_dm_def dl_disable_def fs_rename_def no_faults_def Let_def)
  then obtain p' where d: "disableList no_faults ex_guid BLACK ex_list_policy = (True, p')" by blast
  have b: "bl_id ex_blocking_list = ex_guid" "bl_color ex_blocking_list = BLACK"
    by (simp_all add: ex_blocking_list_def bl_of_snapshot_def ex_bundle_def)
  show ?thesis using checkpoint_loses_disabled_lists [OF d _ b] d by auto
qed

end
