(* ===== verification/BlockingLists.thy ===== *)
theory BlockingLists
  imports AppOps SaverFile
begin

text \<open>
  The metadata of the domain lists (\<^verbatim>\<open>src/src/BlockingList.cpp\<close>, \<^verbatim>\<open>src/src/BlockingListManager.cpp\<close>): the lists by id, the
  operations on them, and their save file. The map is an \<^verbatim>\<open>unordered_map\<close>: an association list whose order carries no
  meaning. Every member holds the mutex, so that each is one step. Calendar time (\<open>ListTime\<close>) is an argument:
  \<open>lt_parse\<close> is \<^verbatim>\<open>ss >> std::get_time\<close> on a text, \<open>lt_mktime\<close> is \<^verbatim>\<open>mktime\<close>, \<open>lt_gmt\<close> is \<^verbatim>\<open>gmtime_r\<close> and
  \<^verbatim>\<open>strftime\<close> (\<open>None\<close> when one fails). A \<^verbatim>\<open>time_t\<close> has 64 bits.
\<close>

section \<open>A list\<close>

record 'tm ListTime =
  lt_parse :: "string \<Rightarrow> 'tm option"
  lt_parseX :: "string \<Rightarrow> 'tm option"
  lt_mktime :: "'tm \<Rightarrow> int"
  lt_gmt :: "int \<Rightarrow> string option"

definition bl_make :: "string \<Rightarrow> string \<Rightarrow> string \<Rightarrow> Color \<Rightarrow> u8 \<Rightarrow> int \<Rightarrow> bool \<Rightarrow> string \<Rightarrow> bool \<Rightarrow> u32 \<Rightarrow> BlockingList" where
  "bl_make listId name url color m updatedAt outdated etag enabled domainsCount =
     \<lparr>bl_id = listId, bl_name = name, bl_url = url, bl_color = color, bl_blockMask = m, bl_updatedAt = updatedAt,
      bl_outdated = outdated, bl_etag = etag, bl_enabled = enabled, bl_domainsCount = domainsCount\<rparr>"

definition bl_updateList :: "string \<Rightarrow> Color \<Rightarrow> string \<Rightarrow> u8 \<Rightarrow> u32 \<Rightarrow> int \<Rightarrow> string \<Rightarrow> bool \<Rightarrow> bool \<Rightarrow> BlockingList \<Rightarrow> BlockingList" where
  "bl_updateList name color url m domainsCount updatedAt etag enabled outdated bl =
     bl\<lparr>bl_name := name, bl_url := url, bl_color := color, bl_blockMask := m, bl_domainsCount := domainsCount,
        bl_updatedAt := updatedAt, bl_etag := etag, bl_enabled := enabled, bl_outdated := outdated\<rparr>"

text \<open>\<^verbatim>\<open>refreshList\<close> reads the time with \<^verbatim>\<open>%X\<close>; nothing calls it.\<close>

definition bl_refreshList :: "'tm ListTime \<Rightarrow> string \<Rightarrow> string \<Rightarrow> BlockingList \<Rightarrow> BlockingList" where
  "bl_refreshList time lastUpdated etag bl =
     (case lt_parseX time lastUpdated of
        None \<Rightarrow> bl
      | Some tm \<Rightarrow> bl\<lparr>bl_updatedAt := lt_mktime time tm, bl_outdated := False, bl_etag := etag\<rparr>)"

text \<open>\<open>None\<close> is \<^verbatim>\<open>ListColorException\<close>.\<close>

definition colorToString :: "Color \<Rightarrow> string option" where
  "colorToString color = (if color = BLACK then Some ''BLACK'' else if color = WHITE then Some ''WHITE'' else None)"

definition quoted :: "string \<Rightarrow> string" where
  "quoted s = [CHR 0x22] @ s @ [CHR 0x22]"

definition bl_serialize :: "'tm ListTime \<Rightarrow> BlockingList \<Rightarrow> string option" where
  "bl_serialize time bl =
     (let dateStr = (case lt_gmt time (bl_updatedAt bl) of Some s \<Rightarrow> s | None \<Rightarrow> ''1970-01-01_00:00:00'') in
      map_option (\<lambda>colorStr.
      ''{'' @ quoted ''id'' @ '':'' @ quoted (bl_id bl) @ '','' @ quoted ''name'' @ '':'' @ quoted (bl_name bl) @
      '','' @ quoted ''url'' @ '':'' @ quoted (bl_url bl) @ '','' @ quoted ''type'' @ '':'' @ quoted colorStr @
      '','' @ quoted ''blockMask'' @ '':'' @ dec_string (unat (bl_blockMask bl)) @
      '','' @ quoted ''updatedAt'' @ '':'' @ quoted dateStr @
      '','' @ quoted ''outdated'' @ '':'' @ (if bl_outdated bl then ''1'' else ''0'') @
      '','' @ quoted ''etag'' @ '':'' @ quoted (bl_etag bl) @
      '','' @ quoted ''enabled'' @ '':'' @ (if bl_enabled bl then ''1'' else ''0'') @
      '','' @ quoted ''domainsCount'' @ '':'' @ dec_string (unat (bl_domainsCount bl)) @ ''}'') (colorToString (bl_color bl)))"

section \<open>The fields in the save file\<close>

fun color_u32 :: "Color \<Rightarrow> u32" where
  "color_u32 ALLC = 0"
| "color_u32 BLACK = 1"
| "color_u32 WHITE = 2"
| "color_u32 GREY = 3"

text \<open>\<open>other\<close> is what a value that is no enumerator reads as.\<close>

definition color_of_u32 :: "(u32 \<Rightarrow> Color) \<Rightarrow> u32 \<Rightarrow> Color" where
  "color_of_u32 other n = (if n = 0 then ALLC else if n = 1 then BLACK else if n = 2 then WHITE else if n = 3 then GREY else other n)"

definition write_time :: "int \<Rightarrow> u8 list" where
  "write_time t = le_bytes 8 (word_of_int t :: u64)"

definition read_time :: "int reader" where
  "read_time = rbind (rbind (read_bytes 8) (\<lambda>b. rret (le_word b :: u64))) (\<lambda>w. rret (sint w))"

definition bl_save :: "BlockingList \<Rightarrow> u8 list" where
  "bl_save bl =
     write_string (bl_id bl) @ write_string (bl_name bl) @ write_string (bl_url bl) @ write_u32 (color_u32 (bl_color bl)) @
     write_u8 (bl_blockMask bl) @ write_time (bl_updatedAt bl) @ write_bool (bl_outdated bl) @ write_string (bl_etag bl) @
     write_bool (bl_enabled bl) @ write_u32 (bl_domainsCount bl)"

definition readGuid :: "string reader" where "readGuid = read_string 37 37"
definition readBlockingListName :: "string reader" where "readBlockingListName = read_string 1 50"
definition readBlockingListUrl :: "string reader" where "readBlockingListUrl = read_string 1 256"

definition bl_restore :: "(u32 \<Rightarrow> Color) \<Rightarrow> BlockingList reader" where
  "bl_restore other =
     rbind readGuid (\<lambda>listId. rbind readBlockingListName (\<lambda>name. rbind readBlockingListUrl (\<lambda>url.
     rbind read_u32 (\<lambda>color. rbind read_u8 (\<lambda>m. rbind read_time (\<lambda>updatedAt. rbind read_bool (\<lambda>outdated.
     rbind (read_string 1 1000) (\<lambda>etag. rbind read_bool (\<lambda>enabled. rbind read_u32 (\<lambda>domainsCount.
     rret (bl_make listId name url (color_of_u32 other color) m updatedAt outdated etag enabled domainsCount)))))))))))"

section \<open>The manager\<close>

record BlockingListManager =
  byIds :: "(string \<times> BlockingList) list"
  blm_file :: "u8 list option"
  blm_inOpen :: bool

definition try_emplace_list :: "BlockingList \<Rightarrow> (string \<times> BlockingList) list \<Rightarrow> (string \<times> BlockingList) list" where
  "try_emplace_list bl ls = (if map_of ls (bl_id bl) = None then ls @ [(bl_id bl, bl)] else ls)"

definition addBlockingList :: "string \<Rightarrow> string \<Rightarrow> string \<Rightarrow> Color \<Rightarrow> u8 \<Rightarrow> BlockingListManager \<Rightarrow> bool \<times> BlockingListManager" where
  "addBlockingList listId url name color m b =
     (if \<not> isValidBlockingListMask (ucast m) then (False, b)
      else if map_of (byIds b) listId \<noteq> None then (False, b)
      else (True, b\<lparr>byIds := try_emplace_list (bl_make listId name url color m 0 True [] True 0) (byIds b)\<rparr>))"

definition removeBlockingList :: "string \<Rightarrow> BlockingListManager \<Rightarrow> bool \<times> BlockingListManager" where
  "removeBlockingList listId b =
     (if map_of (byIds b) listId = None then (False, b) else (True, b\<lparr>byIds := AList.delete listId (byIds b)\<rparr>))"

text \<open>\<^verbatim>\<open>find(id)\<close>, then a change of the list in place.\<close>

definition on_list :: "string \<Rightarrow> (BlockingList \<Rightarrow> BlockingList) \<Rightarrow> BlockingListManager \<Rightarrow> bool \<times> BlockingListManager" where
  "on_list listId f b =
     (case map_of (byIds b) listId of
        None \<Rightarrow> (False, b)
      | Some bl \<Rightarrow> (True, b\<lparr>byIds := AList.update listId (f bl) (byIds b)\<rparr>))"

definition updateBlockingList ::
  "'tm ListTime \<Rightarrow> string \<Rightarrow> string \<Rightarrow> string \<Rightarrow> Color \<Rightarrow> u8 \<Rightarrow> u32 \<Rightarrow> string \<Rightarrow> string \<Rightarrow> bool \<Rightarrow> bool \<Rightarrow>
     BlockingListManager \<Rightarrow> bool \<times> BlockingListManager" where
  "updateBlockingList time listId url name color m domainsCount updatedAtStr etag enabled outdated b =
     (if \<not> isValidBlockingListMask (ucast m) then (False, b)
      else case (if updatedAtStr = [] then Some 0 else map_option (lt_mktime time) (lt_parse time updatedAtStr)) of
             None \<Rightarrow> (False, b)
           | Some updatedAt \<Rightarrow> on_list listId (bl_updateList name color url m domainsCount updatedAt etag enabled outdated) b)"

definition setEnabled :: "string \<Rightarrow> bool \<Rightarrow> BlockingListManager \<Rightarrow> bool \<times> BlockingListManager" where
  "setEnabled listId enabled = on_list listId (\<lambda>bl. if enabled then bl\<lparr>bl_enabled := True\<rparr> else bl\<lparr>bl_enabled := False\<rparr>)"

definition markOutdated :: "string \<Rightarrow> BlockingListManager \<Rightarrow> bool \<times> BlockingListManager" where
  "markOutdated listId = on_list listId (\<lambda>bl. bl\<lparr>bl_outdated := True\<rparr>)"

definition updateDomainsCount :: "string \<Rightarrow> u32 \<Rightarrow> BlockingListManager \<Rightarrow> bool \<times> BlockingListManager" where
  "updateDomainsCount listId domainsCount = on_list listId (\<lambda>cur.
     bl_updateList (bl_name cur) (bl_color cur) (bl_url cur) (bl_blockMask cur) domainsCount (bl_updatedAt cur) (bl_etag cur)
       (bl_enabled cur) (bl_outdated cur) cur)"

definition getBlockMask :: "string \<Rightarrow> BlockingListManager \<Rightarrow> u8 option" where
  "getBlockMask listId b = map_option bl_blockMask (map_of (byIds b) listId)"

definition getColor :: "string \<Rightarrow> BlockingListManager \<Rightarrow> Color option" where
  "getColor listId b = map_option bl_color (map_of (byIds b) listId)"

definition masksSnapshot :: "BlockingListManager \<Rightarrow> (string \<times> u8) list" where
  "masksSnapshot b = map (\<lambda>p. (fst p, bl_blockMask (snd p))) (byIds b)"

definition listsSnapshot :: "BlockingListManager \<Rightarrow> BlockingList list" where
  "listsSnapshot b = map snd (byIds b)"

definition blm_reset :: "BlockingListManager \<Rightarrow> BlockingListManager" where
  "blm_reset b = b\<lparr>byIds := []\<rparr>"

text \<open>The loop of \<^verbatim>\<open>printAll\<close>; an exception leaves it.\<close>

fun print_lists :: "'tm ListTime \<Rightarrow> bool \<Rightarrow> BlockingList list \<Rightarrow> string option" where
  "print_lists time first [] = Some []"
| "print_lists time first (bl # bls) =
     (case bl_serialize time bl of
        None \<Rightarrow> None
      | Some s \<Rightarrow> map_option (\<lambda>rest. (if first then [] else '','') @ s @ rest) (print_lists time False bls))"

definition blm_printAll :: "'tm ListTime \<Rightarrow> BlockingListManager \<Rightarrow> string option" where
  "blm_printAll time b =
     map_option (\<lambda>s. ''{'' @ quoted ''blockingLists'' @ '':['' @ s @ '']}'') (print_lists time True (listsSnapshot b))"

section \<open>Saving and restoring\<close>

definition lists_file :: "BlockingList list \<Rightarrow> u8 list" where
  "lists_file ls = write_u32 (of_nat (length ls)) @ concat (map bl_save ls)"

definition blm_save :: "bool \<Rightarrow> BlockingListManager \<Rightarrow> BlockingListManager" where
  "blm_save ioOk b = b\<lparr>blm_file := saver_save ioOk (lists_file (listsSnapshot b)) (blm_file b)\<rparr>"

fun restore_lists :: "(u32 \<Rightarrow> Color) \<Rightarrow> nat \<Rightarrow> (string \<times> BlockingList) list \<Rightarrow> (string \<times> BlockingList) list reader" where
  "restore_lists other 0 tmp = rret tmp"
| "restore_lists other (Suc n) tmp = rbind (bl_restore other) (\<lambda>bl. restore_lists other n (try_emplace_list bl tmp))"

text \<open>An exception leaves the map as it was; the stream stays open.\<close>

definition blm_restore :: "(u32 \<Rightarrow> Color) \<Rightarrow> BlockingListManager \<Rightarrow> BlockingListManager" where
  "blm_restore other b =
     (case saver_restore (blm_file b) (blm_inOpen b) of
        (None, opened) \<Rightarrow> b\<lparr>blm_inOpen := opened\<rparr>
      | (Some bytes, opened) \<Rightarrow>
          (let b1 = b\<lparr>blm_inOpen := opened\<rparr> in
           case rbind read_u32 (\<lambda>nb. restore_lists other (unat nb) []) bytes of
             None \<Rightarrow> b1
           | Some (tmp, _) \<Rightarrow>
               if byIds b1 = [] then b1\<lparr>byIds := tmp\<rparr>
               else b1\<lparr>byIds := fold (\<lambda>p. try_emplace_list (snd p)) tmp (byIds b1)\<rparr>))"

section \<open>What can be read back\<close>

definition bl_storable :: "BlockingList \<Rightarrow> bool" where
  "bl_storable bl \<longleftrightarrow> length (bl_id bl) = 36 \<and> length (bl_name bl) \<le> 49 \<and> length (bl_url bl) \<le> 255 \<and> length (bl_etag bl) \<le> 999 \<and>
     - (2 ^ 63) \<le> bl_updatedAt bl \<and> bl_updatedAt bl < 2 ^ 63"

lemma color_back [simp]: "color_of_u32 other (color_u32 c) = c"
  by (cases c) (simp_all add: color_of_u32_def)

interpretation timec: field_codec write_time read_time "\<lambda>t. - (2 ^ 63) \<le> t \<and> t < 2 ^ 63"
proof
  fix t :: int and rest assume t: "- (2 ^ 63) \<le> t \<and> t < 2 ^ 63"
  have "sint (word_of_int t :: u64) = t" using t by (simp add: sint_sbintrunc' signed_take_bit_int_eq_self)
  then show "read_time (write_time t @ rest) = Some (t, rest)"
    using word_codec [of 8 "word_of_int t :: u64" rest] by (simp add: read_time_def write_time_def rbind_def rret_def)
qed

lemma length_word: "length s + 1 < 2 ^ 32 \<Longrightarrow> unat (of_nat (length s) + 1 :: u32) = length s + 1"
proof -
  assume "length s + 1 < 2 ^ 32"
  then have "unat (of_nat (length s + 1) :: u32) = length s + 1" by (simp only: unat_of_nat) simp
  then show ?thesis by (simp add: add.commute)
qed

lemma string_fits:
  assumes "length s < unat n"
  shows "of_nat (length s) + 1 \<le> (n :: u32)" and "1 \<le> (of_nat (length s) + 1 :: u32)"
proof -
  have "unat n < 2 ^ 32" using unsigned_less [of n] by simp
  then have "unat (of_nat (length s) + 1 :: u32) = length s + 1" using assms by (intro length_word) simp
  then show "of_nat (length s) + 1 \<le> n" "1 \<le> (of_nat (length s) + 1 :: u32)"
    using assms by (simp_all only: word_le_nat_alt) simp_all
qed

interpretation listc: field_codec bl_save "bl_restore other" bl_storable for other
proof
  fix bl rest assume "bl_storable bl"
  then have len: "length (bl_id bl) = 36" "length (bl_name bl) < 50" "length (bl_url bl) < 256" "length (bl_etag bl) < 1000"
    and time: "- (2 ^ 63) \<le> bl_updatedAt bl \<and> bl_updatedAt bl < 2 ^ 63" by (simp_all add: bl_storable_def)
  have ok: "of_nat (length (bl_name bl)) + 1 \<le> (50 :: u32)" "of_nat (length (bl_url bl)) + 1 \<le> (256 :: u32)"
    "of_nat (length (bl_etag bl)) + 1 \<le> (1000 :: u32)"
    and one: "1 \<le> (of_nat (length (bl_name bl)) + 1 :: u32)" "1 \<le> (of_nat (length (bl_url bl)) + 1 :: u32)"
    "1 \<le> (of_nat (length (bl_etag bl)) + 1 :: u32)"
    using string_fits [of "bl_name bl" 50] string_fits [of "bl_url bl" 256] string_fits [of "bl_etag bl" 1000] len by simp_all
  show "bl_restore other (bl_save bl @ rest) = Some (bl, rest)"
    using len ok time one
    by (simp add: bl_restore_def bl_save_def readGuid_def readBlockingListName_def readBlockingListUrl_def stringc.read_back
        u32c.read_back u8c.read_back boolc.read_back timec.read_back rret_def bl_make_def)
qed

lemma restore_lists_back:
  assumes "\<forall>l \<in> set ls. bl_storable l" and "distinct (map bl_id ls)" and "\<forall>l \<in> set ls. map_of tmp (bl_id l) = None"
  shows "restore_lists other (length ls) tmp (concat (map bl_save ls) @ rest) = Some (tmp @ map (\<lambda>l. (bl_id l, l)) ls, rest)"
  using assms
proof (induction ls arbitrary: tmp)
  case (Cons l ls)
  have ne: "bl_id x \<noteq> bl_id l" if "x \<in> set ls" for x using imageI [OF that, of bl_id] Cons.prems(2) by auto
  have "restore_lists other (length ls) (tmp @ [(bl_id l, l)]) (concat (map bl_save ls) @ rest) =
      Some ((tmp @ [(bl_id l, l)]) @ map (\<lambda>l. (bl_id l, l)) ls, rest)"
    by (rule Cons.IH) (use Cons.prems ne in \<open>auto simp: map_add_def\<close>)
  then show ?case using Cons.prems(1,3) by (simp add: listc.read_back try_emplace_list_def)
qed (simp add: rret_def)

lemma read_too_long:
  assumes "mx < of_nat (length s) + 1" and "length s + 1 < 2 ^ 32"
  shows "read_string mn mx (write_string s @ rest) = None"
  using assms by (simp add: read_string_def write_string_def u32c.read_back rfail_def)

section \<open>Runs of the manager\<close>

definition lists_wf :: "(string \<times> BlockingList) list \<Rightarrow> bool" where
  "lists_wf ls \<longleftrightarrow> distinct (map fst ls) \<and> (\<forall>p \<in> set ls. fst p = bl_id (snd p))"

text \<open>The file is whatever the disk holds when a process starts.\<close>

inductive lists_run :: "'tm ListTime \<Rightarrow> (u32 \<Rightarrow> Color) \<Rightarrow> BlockingListManager \<Rightarrow> bool" for time other where
  start: "lists_run time other \<lparr>byIds = [], blm_file = file, blm_inOpen = False\<rparr>"
| add: "lists_run time other b \<Longrightarrow> lists_run time other (snd (addBlockingList listId url name color m b))"
| remove: "lists_run time other b \<Longrightarrow> lists_run time other (snd (removeBlockingList listId b))"
| update: "lists_run time other b \<Longrightarrow>
    lists_run time other (snd (updateBlockingList time listId url name color m domainsCount updatedAt etag enabled outdated b))"
| enabled: "lists_run time other b \<Longrightarrow> lists_run time other (snd (setEnabled listId on b))"
| outdated: "lists_run time other b \<Longrightarrow> lists_run time other (snd (markOutdated listId b))"
| count: "lists_run time other b \<Longrightarrow> lists_run time other (snd (updateDomainsCount listId domainsCount b))"
| save: "lists_run time other b \<Longrightarrow> lists_run time other (blm_save ioOk b)"
| restore: "lists_run time other b \<Longrightarrow> lists_run time other (blm_restore other b)"
| reset: "lists_run time other b \<Longrightarrow> lists_run time other (blm_reset b)"

lemma wf_emplace: "lists_wf ls \<Longrightarrow> lists_wf (try_emplace_list bl ls)"
  by (auto simp: lists_wf_def try_emplace_list_def map_of_eq_None_iff)

lemma wf_update:
  assumes wf: "lists_wf ls" and l: "map_of ls i = Some l" and same: "bl_id l' = bl_id l"
  shows "lists_wf (AList.update i l' ls)"
proof -
  have i: "i = bl_id l" using wf map_of_SomeD [OF l] by (auto simp: lists_wf_def)
  have d: "distinct (map fst (AList.update i l' ls))" using wf by (simp add: lists_wf_def distinct_update)
  moreover have "fst p = bl_id (snd p)" if p: "p \<in> set (AList.update i l' ls)" for p
  proof -
    have "(fst p, snd p) \<in> set (AList.update i l' ls)" using p by simp
    then have "map_of (AList.update i l' ls) (fst p) = Some (snd p)" by (rule map_of_is_SomeI [OF d])
    then have "fst p = i \<and> snd p = l' \<or> map_of ls (fst p) = Some (snd p)" by (auto simp: update_conv' split: if_splits)
    then show ?thesis using wf i same map_of_SomeD by (fastforce simp: lists_wf_def)
  qed
  ultimately show ?thesis by (simp add: lists_wf_def)
qed

lemma wf_on_list:
  assumes "lists_wf (byIds b)" and "\<And>l. bl_id (f l) = bl_id l"
  shows "lists_wf (byIds (snd (on_list i f b)))"
  using assms by (auto simp: on_list_def intro: wf_update split: option.split)

lemma wf_delete: "lists_wf ls \<Longrightarrow> lists_wf (AList.delete i ls)"
proof -
  assume "lists_wf ls"
  moreover have "set (AList.delete i ls) \<subseteq> set ls" by (auto simp: AList.delete_eq)
  ultimately show "lists_wf (AList.delete i ls)" by (auto simp: lists_wf_def intro: distinct_delete)
qed

lemma wf_restored: "lists_wf tmp \<Longrightarrow> restore_lists other n tmp bs = Some (tmp', rest) \<Longrightarrow> lists_wf tmp'"
proof (induction n arbitrary: tmp bs)
  case (Suc n)
  from Suc.prems(2) obtain bl bs' where "restore_lists other n (try_emplace_list bl tmp) bs' = Some (tmp', rest)"
    by (auto simp: rbind_def split: option.splits)
  from Suc.IH [OF wf_emplace [OF Suc.prems(1)] this] show ?case .
qed (simp add: rret_def)

lemma wf_fold_emplace: "lists_wf ls \<Longrightarrow> lists_wf (fold (\<lambda>p. try_emplace_list (snd p)) tmp ls)"
  by (induction tmp arbitrary: ls) (simp_all add: wf_emplace)

lemma run_wf: "lists_run time other b \<Longrightarrow> lists_wf (byIds b)"
proof (induction rule: lists_run.induct)
  case (restore b)
  have nil: "lists_wf []" by (simp add: lists_wf_def)
  show ?case
  proof (cases "saver_restore (blm_file b) (blm_inOpen b)")
    case (Pair r opened)
    show ?thesis
    proof (cases r)
      case (Some bytes)
      then show ?thesis
        using restore wf_fold_emplace [OF restore.IH] wf_restored [OF nil, of other]
        by (auto simp: blm_restore_def Pair Let_def rbind_def split: option.split prod.split)
    qed (use restore in \<open>simp add: blm_restore_def Pair\<close>)
  qed
next
  case (update b listId url name color m domainsCount updatedAt etag enabled outdated)
  then show ?case
    by (auto simp: updateBlockingList_def intro!: wf_on_list simp: bl_updateList_def split: option.split)
qed (auto simp: lists_wf_def [of "[]"] addBlockingList_def removeBlockingList_def setEnabled_def markOutdated_def updateDomainsCount_def
    bl_updateList_def blm_save_def blm_reset_def wf_delete intro!: wf_emplace wf_on_list)

section \<open>Guarantees\<close>

text \<open>C35. The metadata of the domain lists survives a restart: a daemon that starts with the file that a manager saved has
  the same lists under the same ids, provided every id is a GUID, the names, addresses and tags are within the limits of
  the reader, and there are fewer than \<open>2\<^sup>3\<^sup>2\<close> lists.\<close>

theorem blocking_lists_file_roundtrip:
  assumes "lists_run time other b" and "\<forall>p \<in> set (byIds b). bl_storable (snd p)" and "length (byIds b) < 2 ^ 32"
    and "blm_file b0 = blm_file (blm_save True b)" and "\<not> blm_inOpen b0" and "byIds b0 = []"
  shows "byIds (blm_restore other b0) = byIds b"
proof -
  let ?ls = "listsSnapshot b"
  have wf: "lists_wf (byIds b)" by (rule run_wf [OF assms(1)])
  have ids: "map bl_id ?ls = map fst (byIds b)" using wf by (auto simp: lists_wf_def listsSnapshot_def)
  have pairs: "map (\<lambda>l. (bl_id l, l)) ?ls = byIds b"
    using wf by (auto simp: lists_wf_def listsSnapshot_def comp_def intro!: map_idI)
  have nb: "unat (of_nat (length ?ls) :: u32) = length ?ls"
    using assms(3) by (simp only: unat_of_nat listsSnapshot_def length_map) simp
  have "restore_lists other (length ?ls) [] (concat (map bl_save ?ls) @ []) = Some ([] @ map (\<lambda>l. (bl_id l, l)) ?ls, [])"
  proof (rule restore_lists_back)
    show "distinct (map bl_id ?ls)" using wf by (simp add: ids lists_wf_def)
  qed (use assms(2) in \<open>auto simp: listsSnapshot_def\<close>)
  then have "rbind read_u32 (\<lambda>nb. restore_lists other (unat nb) []) (lists_file ?ls) = Some (byIds b, [])"
    by (simp add: lists_file_def u32c.read_back nb pairs)
  then show ?thesis using assms(4-6) by (simp add: blm_restore_def blm_save_def saver_save_def saver_restore_def)
qed

definition ex_list :: "string \<Rightarrow> BlockingList" where
  "ex_list name = bl_make ''00000000-0000-0000-0000-00000000000a'' name ''u'' BLACK 1 0 True [] True 0"

definition ex_manager :: "string \<Rightarrow> BlockingListManager" where
  "ex_manager name = snd (addBlockingList ''00000000-0000-0000-0000-00000000000a'' ''u'' name BLACK 1
     \<lparr>byIds = [], blm_file = None, blm_inOpen = False\<rparr>)"

definition ex_time :: "unit ListTime" where
  "ex_time = \<lparr>lt_parse = (\<lambda>_. None), lt_parseX = (\<lambda>_. None), lt_mktime = (\<lambda>_. 0), lt_gmt = (\<lambda>_. None)\<rparr>"

lemma ex_manager_lists: "byIds (ex_manager name) = [(''00000000-0000-0000-0000-00000000000a'', ex_list name)]"
  by (simp add: ex_manager_def addBlockingList_def isValidBlockingListMask_def try_emplace_list_def bl_make_def ex_list_def)

theorem blocking_lists_file_roundtrip_witness:
  "byIds (blm_restore (\<lambda>_. GREY) \<lparr>byIds = [], blm_file = blm_file (blm_save True (ex_manager ''ads'')), blm_inOpen = False\<rparr>) =
     [(''00000000-0000-0000-0000-00000000000a'', ex_list ''ads'')]"
proof -
  have "lists_run ex_time (\<lambda>_. GREY) (ex_manager ''ads'')" unfolding ex_manager_def by (intro lists_run.intros)
  from blocking_lists_file_roundtrip [OF this] show ?thesis
    by (simp add: ex_manager_lists bl_storable_def ex_list_def bl_make_def)
qed

text \<open>C36. One list can lose them all: nothing limits the name of a list (50 characters and more are accepted), but the
  reader of the save file does, and then drops the lists that were read before; a daemon that starts with such a file
  has no list at all.\<close>

theorem one_long_name_loses_all_lists:
  assumes "listsSnapshot b = xs @ l # ys" and "\<forall>x \<in> set xs. bl_storable x" and "distinct (map bl_id (xs @ l # ys))"
    and "length (bl_id l) = 36" and "50 \<le> length (bl_name l)" and "length (bl_name l) + 1 < 2 ^ 32" and "length (byIds b) < 2 ^ 32"
    and "blm_file b0 = blm_file (blm_save True b)" and "byIds b0 = []"
  shows "byIds (blm_restore other b0) = []"
proof -
  let ?ls = "listsSnapshot b" and ?rest = "concat (map bl_save ys)"
  have nb: "unat (of_nat (length ?ls) :: u32) = length ?ls"
    using assms(7) by (simp only: unat_of_nat listsSnapshot_def length_map) simp
  have "unat (50 :: u32) < unat (of_nat (length (bl_name l)) + 1 :: u32)" using length_word [OF assms(6)] assms(5) by simp
  then have long: "(50 :: u32) < of_nat (length (bl_name l)) + 1" by (simp only: word_less_nat_alt)
  have bad: "bl_restore other (bl_save l @ r) = None" for r
    using read_too_long [OF long assms(6), of 1] assms(4)
    by (simp add: bl_restore_def bl_save_def readGuid_def readBlockingListName_def stringc.read_back) (simp add: rbind_def)
  have step: "restore_lists other (length zs + Suc n) tmp (concat (map bl_save zs) @ bl_save l @ r) = None"
    if "\<forall>x \<in> set zs. bl_storable x" for zs n tmp r
    using that
  proof (induction zs arbitrary: tmp)
    case Nil
    then show ?case using bad by (simp add: rbind_def)
  next
    case (Cons z zs)
    then show ?case by (simp add: listc.read_back)
  qed
  have "restore_lists other (length ?ls) [] (concat (map bl_save ?ls)) = None"
    using step [OF assms(2), of "length ys" "[]" ?rest] by (simp add: assms(1))
  then have "rbind read_u32 (\<lambda>nb. restore_lists other (unat nb) []) (lists_file ?ls) = None"
    by (simp add: lists_file_def u32c.read_back nb)
  then show ?thesis using assms(8,9)
    by (cases "blm_inOpen b0") (simp_all add: blm_restore_def blm_save_def saver_save_def saver_restore_def)
qed

theorem one_long_name_loses_all_lists_witness:
  "byIds (ex_manager (replicate 50 CHR ''x'')) \<noteq> [] \<and>
   byIds (blm_restore (\<lambda>_. GREY) \<lparr>byIds = [], blm_file = blm_file (blm_save True (ex_manager (replicate 50 CHR ''x''))),
     blm_inOpen = False\<rparr>) = []"
proof -
  let ?l = "ex_list (replicate 50 CHR ''x'')"
  have "listsSnapshot (ex_manager (replicate 50 CHR ''x'')) = [] @ ?l # []" by (simp add: listsSnapshot_def ex_manager_lists)
  from one_long_name_loses_all_lists [OF this] show ?thesis
    by (simp add: ex_manager_lists ex_list_def bl_make_def)
qed

end
