(* ===== verification/Spec2Isabelle.thy ===== *)
theory Spec2Isabelle
  imports IpRulesGuarantees IpRulesExplain L4Walker ConntrackGuarantees PacketGuarantees AppGuarantees
    ControlIpRulesGuarantees ControlStreams CheckpointGuarantees BlockingLists
begin

text \<open>
  \<^bold>\<open>A verification development for the packet and DNS policy daemon\<close> (sources under \<^verbatim>\<open>src/src/\<close>).

  \<^bold>\<open>The program.\<close> The daemon receives every packet of an Android device from NFQUEUE and every name lookup
  from the resolver and returns a verdict. A packet is parsed, attributed to an app, looked up in the connection
  tracker when a rule or telemetry needs it, evaluated against the IP rules of its uid and, when no rule decides,
  judged by the domain the address was resolved from. Control sockets change rules, lists and settings while
  packets are being judged; flow telemetry exports records of connections through a ring in shared memory.

  \<^bold>\<open>Theories and sources.\<close>
  \<^item> \<open>Prelude\<close>: words, \<^verbatim>\<open>std::map\<close> as an ordered association list, \<^verbatim>\<open>std::sort\<close>, decimal text.
  \<^item> \<open>IpRulesTypes\<close>, \<open>IpRulesText\<close> (\<^verbatim>\<open>IpRulesEngine.hpp\<close>, \<^verbatim>\<open>IpRulesContract.hpp\<close>, the parsers of
    \<^verbatim>\<open>IpRulesEngine.cpp\<close>): rule definitions, predicates, packet keys, the key=value syntax and validation.
  \<^item> \<open>IpRulesSnapshot\<close>, \<open>IpRulesCompile\<close> (\<^verbatim>\<open>IpRulesEngine::Snapshot\<close>, \<^verbatim>\<open>compile\<close>): the tuple-space classifier for
    both address families, its construction and the preflight report. \<open>IpRulesClassifier\<close> proves it equal to a
    linear scan (locale \<open>tuple_space\<close>, interpreted for IPv4 and IPv6, enforce and would-block rules);
    \<open>IpRulesDecision\<close> has the theorems about decisions and limits.
  \<^item> \<open>SaverFile\<close> (\<^verbatim>\<open>Saver.hpp\<close>, \<^verbatim>\<open>Saver.cpp\<close>): the binary save files, byte by byte.
  \<^item> \<open>IpRulesStore\<close> (the public operations of \<^verbatim>\<open>IpRulesEngine\<close>), \<open>IpRulesPersist\<close> (\<^verbatim>\<open>save\<close>, \<^verbatim>\<open>restore\<close>),
    \<open>IpRulesInvariant\<close> (locale \<open>engine_op\<close>, the contract of a mutating operation), \<open>IpRulesSystem\<close> (commands and
    reachable states), \<open>IpRulesGuarantees\<close> (the theorems of the control plane).
  \<^item> \<open>IpRulesHot\<close> (\<^verbatim>\<open>HotSnapshot\<close>, \<^verbatim>\<open>IpRulesCapsCache.hpp\<close>): pinned snapshots and the thread-local decision cache
    (locale \<open>decision_cache\<close>); \<open>IpRulesExplain\<close> (\<^verbatim>\<open>explainEnforce\<close>, \<^verbatim>\<open>ControlVNextStreamExplain.hpp\<close>).
  \<^item> \<open>L4Walker\<close> (\<^verbatim>\<open>Ipv6L4Walker.hpp\<close>, \<^verbatim>\<open>L4ParseResult.hpp\<close>): the walk over IPv6 extension headers, with every read
    of the packet checked.
  \<^item> \<open>TelemetryRing\<close> (\<^verbatim>\<open>FlowTelemetry*.hpp\<close>, \<^verbatim>\<open>FlowTelemetry*.cpp\<close>): records, ring and session.
  \<^item> \<open>ConntrackTypes\<close>, \<open>ConntrackTable\<close>, \<open>ConntrackTelemetry\<close> (\<^verbatim>\<open>Conntrack.hpp\<close>, \<^verbatim>\<open>Conntrack.cpp\<close>): keys, trackers,
    the sharded table with sweeping, eviction, epochs and reclamation, telemetry. \<open>ConntrackSweep\<close>,
    \<open>ConntrackInvariant\<close>, \<open>ConntrackRuns\<close> and \<open>ConntrackGuarantees\<close> have the invariant of the table and what follows.

  \<^item> \<open>StatsCounters\<close> (\<^verbatim>\<open>Stats.cpp\<close>, \<^verbatim>\<open>AppStats.cpp\<close>, \<^verbatim>\<open>DomainStats.cpp\<close>, \<^verbatim>\<open>TrafficCounters.hpp\<close>, \<^verbatim>\<open>ReasonMetrics.hpp\<close>):
    daily statistics and counters.
  \<^item> \<open>DomainLists\<close> (\<^verbatim>\<open>DomainList.cpp\<close>): domain lists, their files and the snapshot lookups read. \<open>DomainTypes\<close>
    (\<^verbatim>\<open>Rule.cpp\<close>, \<^verbatim>\<open>CustomRules.cpp\<close>, \<^verbatim>\<open>CustomList.cpp\<close>, \<^verbatim>\<open>Domain.hpp\<close>, \<^verbatim>\<open>App.hpp\<close>): rules, rule sets, domains and apps as
    objects in stores. \<open>DomainRules\<close> (\<^verbatim>\<open>RulesManager.cpp\<close>): the registry of rules. \<open>DomainPolicy\<close> (\<^verbatim>\<open>App::blocked\<close> and its
    variants): the decision for an app and a domain. \<open>DomainOps\<close> (\<^verbatim>\<open>DomainManager.cpp\<close>): the registry of domains and
    the commands on lists. \<open>DomainInvariant\<close>, \<open>DomainGuarantees\<close>, \<open>DomainRegistry\<close> have their theorems.
  \<^item> \<open>AppOps\<close>, \<open>AppGuarantees\<close> (\<^verbatim>\<open>App.cpp\<close>, \<^verbatim>\<open>AppManager.cpp\<close>): apps and the indexes by uid and by name.
  \<^item> \<open>PacketWorld\<close> (\<^verbatim>\<open>HostManager.cpp\<close>, \<^verbatim>\<open>ActivityManager.cpp\<close>, \<^verbatim>\<open>NfqueueTopology.hpp\<close>, the interfaces of
    \<^verbatim>\<open>PacketManager.cpp\<close>): the record \<open>Daemon\<close> of everything a packet touches. \<open>PacketPath\<close> (\<^verbatim>\<open>PacketManager.hpp\<close>): the
    decision for a packet, with all it records. \<open>CtUse\<close>, \<open>PacketInvariant\<close> (locale \<open>packet_family\<close>), \<open>PacketVerdict\<close>,
    \<open>PacketEvent\<close> and \<open>PacketGuarantees\<close> compose it with the engine, the tracker and telemetry.
  \<^item> \<open>ControlCodec\<close> (\<^verbatim>\<open>ControlVNextCodec.cpp\<close>): netstrings and envelopes; \<open>ControlStreams\<close>
    (\<^verbatim>\<open>ControlVNextStreamManager.cpp\<close>, locale \<open>event_stream\<close>): the event streams; \<open>ControlIpRules\<close>,
    \<open>ControlIpRulesGuarantees\<close> (\<^verbatim>\<open>ControlVNextSessionCommandsIpRules.cpp\<close>): the IPRULES commands.
  \<^item> \<open>CheckpointBundle\<close>, \<open>CheckpointValid\<close>, \<open>CheckpointFiles\<close>, \<open>CheckpointLive\<close>, \<open>CheckpointScopes\<close>,
    \<open>CheckpointRestore\<close> (\<^verbatim>\<open>PolicyCheckpoint.cpp\<close>, the checkpoint commands of
    \<^verbatim>\<open>sucre-snort.cpp\<close>): the document of a checkpoint, its validation, slots and staged list directories, capture
    and restore of the live policy. \<open>CheckpointFailure\<close> shows that a failed restore changes nothing;
    \<open>CheckpointSteps\<close>, \<open>CheckpointLists\<close>, \<open>CheckpointAgree\<close> follow a successful one through its steps, and
    \<open>CheckpointGuarantees\<close> compares its result with the policy that was captured.
  \<^item> \<open>BlockingLists\<close> (\<^verbatim>\<open>BlockingList.cpp\<close>, \<^verbatim>\<open>BlockingListManager.cpp\<close>): the descriptions of the lists a user has
    subscribed to and the file that keeps them.

  \<^bold>\<open>State and operations.\<close> A class is a \<open>record\<close>; a member that changes it is a function that returns the new
  record, with its result. Members that hold the object's mutex for their whole body are one step; what a caller
  sees between two such steps is modelled by interleaving them (\<open>IpRulesHot.hot_reach\<close>, \<open>ConntrackRuns.ct_run\<close>).
  Objects shared through \<^verbatim>\<open>shared_ptr\<close> whose identity matters (rule counters) live in a store. Errors are
  values: an \<^verbatim>\<open>ApplyResult\<close>, an \<open>option\<close> or a sum. Integers keep their width.

  \<^bold>\<open>What the lemmas show.\<close> The classifier decides like the specification; every reachable state of the engine is
  coherent (rules, snapshot, epoch and counters agree); saving and restoring give the rules back; a refused command
  changes nothing; the decision cache is transparent; explanations are complete. The connection table never exceeds its
  capacity and counts its entries exactly; sweeping removes expired entries only; a connection is established only
  after an accepted packet and its reply (but see the findings: telemetry breaks this). The extension header walk never
  reads outside the packet. The ring keeps the newest records intact. In every state the daemon reaches, the packet path
  gives the verdict of a scan over the active rules with connection tracking always filled in, counts each packet once
  and reports an event that explains the verdict. The four evaluations of the domain policy agree, compiled rule sets
  follow the registry of rules, and the registries of domains and apps stay consistent over every run. The control
  protocol decodes exactly the frames that were encoded, its streams deliver in order and account for what they drop, and
  IPRULES.APPLY replaces the rules of one app or changes nothing. A checkpoint is accepted exactly when it is well
  formed, reads back as what was saved, is written to its slot as a whole, and a restore that fails leaves the policy,
  the engine and the list directory as they were; one that succeeds gives back the captured policy, except for the
  content of lists that were disabled (see the findings). The descriptions of the lists survive a restart as long as
  every text is within the limit of the reader.

  \<^bold>\<open>Bounds and fuel.\<close> No definition takes fuel: every loop is structural or has a termination proof (the header
  walk by the number of headers, at most nine; the netstring decoder because each frame shortens the buffer). Theorems
  that need room say so (epochs below \<open>2\<^sup>6\<^sup>4\<close>, rule ids not exhausted, fewer than \<open>2\<^sup>6\<^sup>4\<close> tickets).

  \<^bold>\<open>Parameters.\<close> Address text conversion (\<^verbatim>\<open>inet_pton\<close>, \<^verbatim>\<open>inet_ntop\<close>), \<^verbatim>\<open>std::regex\<close>, the parser and writer of
  RapidJSON, clocks, the calendar, reverse resolution and the outcome of system calls are arguments of the definitions
  that use them.

  \<^bold>\<open>Not modelled.\<close> Interleavings inside one member of the connection tracker (its lock-free publication is a matter of
  the memory model); the creation of shared memory; the netlink socket and the bytes of its messages; the socket loop of
  control sessions and the control commands that only print the state of other components as JSON; the legacy text
  protocol (\<^verbatim>\<open>Control.cpp\<close>), which dispatches to operations that are modelled; the DNS listener (the socket protocol with
  the resolver); the parsing of Android's package files; the save files of apps, domains and pattern rules; threads,
  timers and start-up. Each is input and output around the operations modelled here, or needs a model of an external
  format.
\<close>

end
